(* ===== verification/Rust_Prelude.thy ===== *)
theory Rust_Prelude
  imports Main "HOL-Library.Word" "HOL-Library.List_Lexorder" "HOL-Library.Char_ord"
begin

text \<open>
  What every component theory shares: the Rust integers and strings the source computes
  with, results as a sum type (\<open>Inl\<close> the error, \<open>Inr\<close> the value), and the runs of a
  machine whose operations may fail, with the locale that lifts a one-step invariant to
  every run. A Rust \<open>String\<close> is the list of its UTF-8 bytes (HOL's \<open>string\<close>), so
  \<open>len()\<close> is \<open>length\<close>, \<open>Ord\<close> is the lexicographic order on bytes, and the functions on
  characters (\<open>trim\<close>, \<open>is_whitespace\<close>, \<open>is_control\<close>) recognise the UTF-8 encodings of the
  code points they test.
\<close>

named_theorems bounds \<open>reading machine integers as numbers\<close>
named_theorems rust_str \<open>defining equations of the string functions\<close>

type_synonym u64 = "64 word"
type_synonym ('e, 'a) rust_result = "'e + 'a"

section \<open>Machine integers\<close>

text \<open>\<open>checked_add\<close> is \<open>None\<close> on overflow; \<open>saturating_add\<close> stops at the largest value.\<close>

definition checked_add :: "'a::len word \<Rightarrow> 'a word \<Rightarrow> 'a word option" where
  "checked_add a b = (if unat a + unat b < 2 ^ LENGTH('a) then Some (a + b) else None)"

definition saturating_add :: "'a::len word \<Rightarrow> 'a word \<Rightarrow> 'a word" where
  "saturating_add a b = (if unat a + unat b < 2 ^ LENGTH('a) then a + b else - 1)"

text \<open>\<open>i64::try_from(u64)\<close> and \<open>u64::try_from(i64)\<close>; an \<open>i64\<close> is an \<open>int\<close> in range.\<close>

definition i64_max :: int where
  "i64_max = 2 ^ 63 - 1"

definition i64_of_u64 :: "u64 \<Rightarrow> int option" where
  "i64_of_u64 w = (if int (unat w) \<le> i64_max then Some (int (unat w)) else None)"

definition u64_of_i64 :: "int \<Rightarrow> u64 option" where
  "u64_of_i64 i = (if 0 \<le> i \<and> i \<le> i64_max then Some (word_of_int i) else None)"

lemma unat_less_exp: "unat (a :: 'a::len word) < 2 ^ LENGTH('a)"
  by (rule unsigned_less)

lemma unat_add_no_overflow [bounds]:
  "unat (a :: 'a::len word) + unat b < 2 ^ LENGTH('a) \<Longrightarrow> unat (a + b) = unat a + unat b"
  by (simp add: unat_word_ariths)

lemma checked_add_Some [bounds]:
  "checked_add (a :: 'a::len word) b = Some c \<Longrightarrow> unat c = unat a + unat b"
  by (auto simp: checked_add_def unat_word_ariths split: if_splits)

lemma checked_add_eq_Some:
  "checked_add (a :: 'a::len word) b = Some c \<longleftrightarrow> unat c = unat a + unat b"
proof
  assume h: "unat c = unat a + unat b"
  then have "unat a + unat b < 2 ^ LENGTH('a)"
    by (metis unsigned_less)
  moreover from this h have "c = a + b"
    by (metis unat_add_no_overflow word_unat_eq_iff)
  ultimately show "checked_add a b = Some c"
    by (simp add: checked_add_def)
qed (rule checked_add_Some)

lemma checked_add_None [bounds]:
  "checked_add (a :: 'a::len word) b = None \<longleftrightarrow> 2 ^ LENGTH('a) \<le> unat a + unat b"
  by (auto simp: checked_add_def)

lemma unat_sum_bound: "unat (a :: 'a::len word) + unat b < 2 ^ LENGTH('a) \<longleftrightarrow> uint a + uint b < 2 ^ LENGTH('a)"
proof -
  have "unat a + unat b < 2 ^ LENGTH('a) \<longleftrightarrow> int (unat a + unat b) < int (2 ^ LENGTH('a))" by (simp only: of_nat_less_iff)
  then show ?thesis by simp
qed

lemma checked_add_code [code]:
  "checked_add (a :: 'a::len word) b = (if uint a + uint b < 2 ^ LENGTH('a) then Some (a + b) else None)"
  by (simp add: checked_add_def unat_sum_bound)

lemma saturating_add_code [code]:
  "saturating_add (a :: 'a::len word) b = (if uint a + uint b < 2 ^ LENGTH('a) then a + b else - 1)"
  by (simp add: saturating_add_def unat_sum_bound)

lemma unat_minus_one_word: "unat (- 1 :: 'a::len word) = 2 ^ LENGTH('a) - 1"
  by (simp add: unsigned_minus_1_eq_mask mask_eq_exp_minus_1)

lemma unat_saturating_add [bounds]:
  "unat (saturating_add (a :: 'a::len word) b) = min (unat a + unat b) (2 ^ LENGTH('a) - 1)"
  by (auto simp: saturating_add_def unat_word_ariths unat_minus_one_word)

lemma saturating_add_ge [bounds]: "unat a \<le> unat (saturating_add a b)"
proof -
  have "unat a \<le> 2 ^ LENGTH('a) - 1" using unat_less_exp [of a] by linarith
  then show ?thesis by (simp add: unat_saturating_add)
qed

lemma i64_of_u64_Some [bounds]: "i64_of_u64 w = Some i \<Longrightarrow> i = int (unat w) \<and> i \<le> i64_max"
  by (auto simp: i64_of_u64_def split: if_splits)

lemma u64_of_i64_of_u64: "i64_of_u64 w = Some i \<Longrightarrow> u64_of_i64 i = Some w"
  by (auto simp: i64_of_u64_def u64_of_i64_def split: if_splits)

lemma u64_of_i64_Some [bounds]: "u64_of_i64 i = Some w \<Longrightarrow> 0 \<le> i \<and> int (unat w) = i"
proof -
  assume "u64_of_i64 i = Some w"
  then have "0 \<le> i" "i \<le> i64_max" "w = word_of_int i"
    by (auto simp: u64_of_i64_def split: if_splits)
  moreover from this have "uint w = i"
    by (simp add: uint_word_of_int i64_max_def)
  ultimately show ?thesis by simp
qed

lemma i64_of_u64_eq_Some: "i64_of_u64 w = Some v \<longleftrightarrow> v = uint w \<and> uint w \<le> i64_max"
  by (auto simp: i64_of_u64_def)

lemma i64_of_u64_eq_None: "i64_of_u64 w = None \<longleftrightarrow> uint w > i64_max"
  by (auto simp: i64_of_u64_def)

lemma u64_of_i64_eq_Some:
  "u64_of_i64 v = Some w \<longleftrightarrow> 0 \<le> v \<and> v \<le> i64_max \<and> w = word_of_int v"
  by (auto simp: u64_of_i64_def)

lemma uint_of_i64: "0 \<le> v \<Longrightarrow> v \<le> i64_max \<Longrightarrow> uint (word_of_int v :: u64) = v"
  by (simp add: i64_max_def uint_word_of_int take_bit_int_eq_self)

lemma uint_int_unat: "uint w = int (unat w)"
  by simp

lemma u64_of_i64_uint: "uint w \<le> i64_max \<Longrightarrow> u64_of_i64 (uint w) = Some w"
  by (simp add: u64_of_i64_eq_Some)

lemma i64_of_u64_uint: "i64_of_u64 w = (if uint w \<le> i64_max then Some (uint w) else None)"
  by (simp add: i64_of_u64_def)

lemma find_append: "find P (xs @ ys) = (case find P xs of None \<Rightarrow> find P ys | Some x \<Rightarrow> Some x)"
  by (induction xs) auto

text \<open>
  SQLite's \<open>SUM\<close> over integers fails when a partial sum leaves the range of an \<open>i64\<close>.
\<close>

fun sql_sum :: "int \<Rightarrow> int list \<Rightarrow> int option" where
  "sql_sum acc [] = Some acc"
| "sql_sum acc (x # xs) =
     (if acc + x < - i64_max - 1 \<or> acc + x > i64_max then None else sql_sum (acc + x) xs)"

lemma sql_sum_nonneg:
  "\<forall>x\<in>set xs. 0 \<le> x \<Longrightarrow> 0 \<le> acc \<Longrightarrow> acc \<le> i64_max \<Longrightarrow>
   sql_sum acc xs = (if acc + sum_list xs \<le> i64_max then Some (acc + sum_list xs) else None)"
proof (induction xs arbitrary: acc)
  case Nil
  then show ?case by simp
next
  case (Cons x xs)
  then have "0 \<le> sum_list xs" by (intro sum_list_nonneg) auto
  with Cons show ?case by (auto simp: algebra_simps)
qed

lemma sql_sum_Some: "sql_sum acc xs = Some s \<Longrightarrow> s = acc + sum_list xs"
proof (induction xs arbitrary: acc)
  case (Cons x xs)
  from Cons.IH [of "acc + x"] Cons.prems show ?case by (simp split: if_splits)
qed simp

section \<open>Strings\<close>

text \<open>
  The number of bytes of the white-space character a byte string starts with, and of the
  one the reversed byte string ends with (last byte first); 0 when there is none. The code
  points are those of Rust's \<open>char::is_whitespace\<close>: U+0009 to U+000D, U+0020, U+0085,
  U+00A0, U+1680, U+2000 to U+200A, U+2028, U+2029, U+202F, U+205F, U+3000.
\<close>

definition ws1 :: "nat \<Rightarrow> bool" where
  "ws1 a = (9 \<le> a \<and> a \<le> 13 \<or> a = 32)"

definition ws2 :: "nat \<Rightarrow> nat \<Rightarrow> bool" where
  "ws2 a b = (a = 194 \<and> (b = 133 \<or> b = 160))"

definition ws3 :: "nat \<Rightarrow> nat \<Rightarrow> nat \<Rightarrow> bool" where
  "ws3 a b c =
     (a = 225 \<and> b = 154 \<and> c = 128
      \<or> a = 226 \<and> b = 128 \<and> (128 \<le> c \<and> c \<le> 138 \<or> c = 168 \<or> c = 169 \<or> c = 175)
      \<or> a = 226 \<and> b = 129 \<and> c = 159
      \<or> a = 227 \<and> b = 128 \<and> c = 128)"

fun ws_prefix :: "string \<Rightarrow> nat" where
  "ws_prefix [] = 0"
| "ws_prefix [a] = (if ws1 (of_char a) then 1 else 0)"
| "ws_prefix [a, b] =
     (if ws1 (of_char a) then 1 else if ws2 (of_char a) (of_char b) then 2 else 0)"
| "ws_prefix (a # b # c # s) =
     (if ws1 (of_char a) then 1 else if ws2 (of_char a) (of_char b) then 2
      else if ws3 (of_char a) (of_char b) (of_char c) then 3 else 0)"

fun ws_suffix :: "string \<Rightarrow> nat" where
  "ws_suffix [] = 0"
| "ws_suffix [a] = (if ws1 (of_char a) then 1 else 0)"
| "ws_suffix [b, a] =
     (if ws1 (of_char b) then 1 else if ws2 (of_char a) (of_char b) then 2 else 0)"
| "ws_suffix (c # b # a # s) =
     (if ws1 (of_char c) then 1 else if ws2 (of_char b) (of_char c) then 2
      else if ws3 (of_char a) (of_char b) (of_char c) then 3 else 0)"

text \<open>\<open>str::trim\<close>: drop white space while there is some, at both ends.\<close>

function drop_ws :: "(string \<Rightarrow> nat) \<Rightarrow> string \<Rightarrow> string" where
  "drop_ws p s =
     (case p s of
        0 \<Rightarrow> s
      | Suc k \<Rightarrow> (case s of [] \<Rightarrow> [] | a # t \<Rightarrow> drop_ws p (drop k t)))"
  by pat_completeness auto
termination
  by (relation "measure (\<lambda>(p, s). length s)") auto

declare drop_ws.simps [simp del]

definition trim :: "string \<Rightarrow> string" where
  "trim s = rev (drop_ws ws_suffix (rev (drop_ws ws_prefix s)))"

text \<open>
  \<open>chars().any(is_control)\<close> and \<open>chars().any(is_whitespace)\<close>: in valid UTF-8 a lead byte
  or an ASCII byte occurs only where a character starts, so scanning every suffix finds
  exactly the characters. Control characters are U+0000 to U+001F and U+007F to U+009F.
\<close>

fun has_control_or_ws :: "string \<Rightarrow> bool" where
  "has_control_or_ws [] = False"
| "has_control_or_ws (a # s) =
     (ws_prefix (a # s) > 0
      \<or> (of_char a :: nat) < 32 \<or> (of_char a :: nat) = 127
      \<or> (of_char a = (194 :: nat) \<and> s \<noteq> [] \<and> 128 \<le> (of_char (hd s) :: nat)
          \<and> (of_char (hd s) :: nat) \<le> 159)
      \<or> has_control_or_ws s)"

text \<open>\<open>to_ascii_lowercase\<close>, \<open>eq_ignore_ascii_case\<close> and the ASCII classes work on bytes.\<close>

fun ascii_lower :: "char \<Rightarrow> char" where
  "ascii_lower (Char b0 b1 b2 b3 b4 b5 b6 b7) =
     (let n = (of_char (Char b0 b1 b2 b3 b4 b5 b6 b7) :: nat)
      in if 65 \<le> n \<and> n \<le> 90 then Char b0 b1 b2 b3 b4 True b6 b7
         else Char b0 b1 b2 b3 b4 b5 b6 b7)"

definition to_ascii_lowercase :: "string \<Rightarrow> string" where
  "to_ascii_lowercase s = map ascii_lower s"

fun ascii_upper :: "char \<Rightarrow> char" where
  "ascii_upper (Char b0 b1 b2 b3 b4 b5 b6 b7) =
     (let n = (of_char (Char b0 b1 b2 b3 b4 b5 b6 b7) :: nat)
      in if 97 \<le> n \<and> n \<le> 122 then Char b0 b1 b2 b3 b4 False b6 b7
         else Char b0 b1 b2 b3 b4 b5 b6 b7)"

definition to_ascii_uppercase :: "string \<Rightarrow> string" where
  "to_ascii_uppercase s = map ascii_upper s"

definition eq_ignore_ascii_case :: "string \<Rightarrow> string \<Rightarrow> bool" where
  "eq_ignore_ascii_case a b = (to_ascii_lowercase a = to_ascii_lowercase b)"

text \<open>\<open>Display\<close> of an unsigned integer.\<close>

fun show_nat :: "nat \<Rightarrow> string" where
  "show_nat n =
     (case n div 10 of
        0 \<Rightarrow> [char_of (48 + n)]
      | Suc m \<Rightarrow> show_nat (Suc m) @ [char_of (48 + n mod 10)])"

declare show_nat.simps [simp del]

definition is_ascii_alphanumeric :: "char \<Rightarrow> bool" where
  "is_ascii_alphanumeric c =
     (let n = (of_char c :: nat)
      in 48 \<le> n \<and> n \<le> 57 \<or> 65 \<le> n \<and> n \<le> 90 \<or> 97 \<le> n \<and> n \<le> 122)"

fun is_prefix_of :: "string \<Rightarrow> string \<Rightarrow> bool" where
  "is_prefix_of [] s = True"
| "is_prefix_of (a # p) [] = False"
| "is_prefix_of (a # p) (b # s) = (a = b \<and> is_prefix_of p s)"

text \<open>\<open>str::contains(&str)\<close>.\<close>

fun str_contains :: "string \<Rightarrow> string \<Rightarrow> bool" where
  "str_contains [] p = (p = [])"
| "str_contains (c # s) p = (is_prefix_of p (c # s) \<or> str_contains s p)"

lemma drop_ws_simps:
  "p s = 0 \<Longrightarrow> drop_ws p s = s"
  "drop_ws p [] = []"
  "p (a # t) = Suc k \<Longrightarrow> drop_ws p (a # t) = drop_ws p (drop k t)"
  by (subst drop_ws.simps, simp split: nat.split)+

lemma drop_ws_induct [case_names stop Nil step]:
  assumes "\<And>s. p s = 0 \<Longrightarrow> P s" and "P []"
    and "\<And>a t k. p (a # t) = Suc k \<Longrightarrow> P (drop k t) \<Longrightarrow> P (a # t)"
  shows "P s"
proof (induction s rule: length_induct)
  case (1 s)
  then show ?case
    using assms by (cases s; cases "p s") (auto simp: le_imp_less_Suc)
qed

lemma length_drop_ws: "length (drop_ws p s) \<le> length s"
  by (induction s rule: drop_ws_induct [of p]) (auto simp: drop_ws_simps)

lemma length_trim: "length (trim s) \<le> length s"
  using length_drop_ws [of ws_suffix "rev (drop_ws ws_prefix s)"] length_drop_ws [of ws_prefix s]
  by (simp add: trim_def)

lemma to_ascii_lowercase_length [simp]: "length (to_ascii_lowercase s) = length s"
  by (simp add: to_ascii_lowercase_def)

lemma to_ascii_lowercase_Nil [simp]: "to_ascii_lowercase s = [] \<longleftrightarrow> s = []"
  by (simp add: to_ascii_lowercase_def)

lemma of_char_ascii_lower:
  "(of_char (ascii_lower c) :: nat) =
     (if 65 \<le> (of_char c :: nat) \<and> (of_char c :: nat) \<le> 90 then of_char c + 32 else of_char c)"
  by (cases c) (auto simp: Let_def of_char_Char split: if_splits)

lemma ascii_lower_idem [simp]: "ascii_lower (ascii_lower c) = ascii_lower c"
proof -
  have "(of_char (ascii_lower (ascii_lower c)) :: nat) = of_char (ascii_lower c)"
    by (simp add: of_char_ascii_lower)
  then show ?thesis by (simp only: of_char_eq_iff)
qed

lemma to_ascii_lowercase_idem [simp]:
  "to_ascii_lowercase (to_ascii_lowercase s) = to_ascii_lowercase s"
  by (simp add: to_ascii_lowercase_def)

lemma eq_ignore_ascii_case_refl [simp]: "eq_ignore_ascii_case s s"
  by (simp add: eq_ignore_ascii_case_def)

section \<open>Collecting results\<close>

text \<open>\<open>iter().map(f).collect::<Result<_, _>>()\<close>: the first error, or all values.\<close>

fun collect_results :: "('a \<Rightarrow> 'e + 'b) \<Rightarrow> 'a list \<Rightarrow> 'e + 'b list" where
  "collect_results f [] = Inr []"
| "collect_results f (x # xs) =
     (case f x of
        Inl e \<Rightarrow> Inl e
      | Inr y \<Rightarrow> (case collect_results f xs of Inl e \<Rightarrow> Inl e | Inr ys \<Rightarrow> Inr (y # ys)))"

lemma collect_results_Inr:
  "collect_results f xs = Inr ys \<longleftrightarrow> list_all2 (\<lambda>x y. f x = Inr y) xs ys"
proof (induction xs arbitrary: ys)
  case (Cons x xs)
  have "collect_results f (x # xs) = Inr ys \<longleftrightarrow>
      (\<exists>y zs. ys = y # zs \<and> f x = Inr y \<and> collect_results f xs = Inr zs)"
    by (auto split: sum.splits)
  then show ?case unfolding Cons.IH by (auto simp: list_all2_Cons1)
qed auto

lemma collect_results_map: "\<forall>x\<in>set xs. f x = Inr (g x) \<Longrightarrow> collect_results f xs = Inr (map g xs)"
  by (induction xs) auto

section \<open>Runs of a machine whose operations may fail\<close>

text \<open>
  A caller that ignores an \<open>Err\<close> keeps the state it had: the source's operations validate
  before they write, or run in a transaction that is rolled back.
\<close>

definition apply_op :: "('s \<Rightarrow> 'o \<Rightarrow> 'e + 's) \<Rightarrow> 's \<Rightarrow> 'o \<Rightarrow> 's" where
  "apply_op step s x = (case step s x of Inl _ \<Rightarrow> s | Inr s' \<Rightarrow> s')"

fun run_ops :: "('s \<Rightarrow> 'o \<Rightarrow> 'e + 's) \<Rightarrow> 's \<Rightarrow> 'o list \<Rightarrow> 's" where
  "run_ops step s [] = s"
| "run_ops step s (x # xs) = run_ops step (apply_op step s x) xs"

lemma run_ops_append: "run_ops step s (xs @ ys) = run_ops step (run_ops step s xs) ys"
  by (induction xs arbitrary: s) auto

locale invariant_machine =
  fixes step :: "'s \<Rightarrow> 'o \<Rightarrow> 'e + 's"
    and inv :: "'s \<Rightarrow> bool"
  assumes step_inv: "inv s \<Longrightarrow> step s x = Inr s' \<Longrightarrow> inv s'"
begin

lemma apply_inv: "inv s \<Longrightarrow> inv (apply_op step s x)"
  by (auto simp: apply_op_def step_inv split: sum.splits)

lemma run_inv: "inv s \<Longrightarrow> inv (run_ops step s xs)"
  by (induction xs arbitrary: s) (auto simp: apply_inv)

end

text \<open>A machine with a generation that no operation decreases.\<close>

locale generation_machine = invariant_machine step inv
  for step :: "'s \<Rightarrow> 'o \<Rightarrow> 'e + 's" and inv :: "'s \<Rightarrow> bool" +
  fixes gen :: "'s \<Rightarrow> nat"
  assumes step_gen: "inv s \<Longrightarrow> step s x = Inr s' \<Longrightarrow> gen s \<le> gen s'"
begin

lemma apply_gen: "inv s \<Longrightarrow> gen s \<le> gen (apply_op step s x)"
  by (auto simp: apply_op_def step_gen split: sum.splits)

lemma run_gen: "inv s \<Longrightarrow> gen s \<le> gen (run_ops step s xs)"
proof (induction xs arbitrary: s)
  case (Cons x xs)
  have "gen s \<le> gen (apply_op step s x)" using Cons.prems by (rule apply_gen)
  also have "\<dots> \<le> gen (run_ops step (apply_op step s x) xs)"
    using Cons.prems by (intro Cons.IH apply_inv)
  finally show ?case by simp
qed simp

end

text \<open>A machine each of whose steps stays within a preorder: so does every run.\<close>

locale monotone_machine =
  fixes step :: "'s \<Rightarrow> 'o \<Rightarrow> 'e + 's"
    and rel :: "'s \<Rightarrow> 's \<Rightarrow> bool"
  assumes rel_refl: "rel s s"
    and rel_trans: "rel s t \<Longrightarrow> rel t u \<Longrightarrow> rel s u"
    and step_rel: "step s x = Inr s' \<Longrightarrow> rel s s'"
begin

lemma apply_rel: "rel s (apply_op step s x)"
  by (auto simp: apply_op_def step_rel rel_refl split: sum.splits)

lemma run_rel: "rel s (run_ops step s xs)"
  by (induction xs arbitrary: s) (auto simp: rel_refl intro: rel_trans [OF apply_rel])

end

text \<open>Sorting by a key commutes with a map.\<close>

lemma sort_key_of_map: "sort_key f (map g xs) = map g (sort_key (\<lambda>x. f (g x)) xs)"
proof -
  have insort: "insort_key f (g x) (map g ys) = map g (insort_key (\<lambda>x. f (g x)) x ys)" for x ys
    by (induction ys) simp_all
  show ?thesis by (induction xs) (simp_all add: insort)
qed

end
