(* ===== verification/Kernel_Identifiers.thy ===== *)
theory Kernel_Identifiers
  imports Rust_Prelude
begin

text \<open>
  The identifiers, scopes, principals and the authentication context of the Cloud Kernel
  (\<open>crates/o3k-kernel/src\<close>: \<open>action.rs\<close>, \<open>resource.rs\<close>, \<open>scope.rs\<close>, \<open>principal.rs\<close>,
  \<open>auth_context.rs\<close>, \<open>error.rs\<close>, the identifiers of \<open>registry.rs\<close>), and the lemmas that
  \<open>new\<close> yields trimmed identifiers and that an action identifier parses back.
  Error values keep the variant of \<open>KernelError\<close>; the text of the message is not
  modelled. \<open>str::to_lowercase\<close> is modelled on ASCII letters, which is what the source
  feeds it; other characters are left as they are.
\<close>

section \<open>Errors\<close>

datatype kernel_error =
    InvalidPrincipalId | InvalidScopeId | InvalidResourceId | InvalidResourceType
  | InvalidActionId | InvalidServiceId | InvalidNamespace | InvalidIdentifier
  | Unauthorized | AuditUnavailable | AuditConflict | MeteringUnavailable
  | MeteringCorrupt | TopologyUnavailable | TopologyCorrupt

section \<open>Identifiers\<close>

datatype action_id = ActionId (action_namespace: string) (action_name: string)

definition action_id_new :: "string \<Rightarrow> string \<Rightarrow> (kernel_error, action_id) rust_result" where
  "action_id_new ns act =
     (if trim ns = [] \<or> trim act = [] then Inl InvalidActionId
      else Inr (ActionId (to_ascii_lowercase (trim ns)) (trim act)))"

text \<open>\<open>splitn(2, c)\<close> gives two parts exactly when the separator occurs.\<close>

fun split_once :: "char \<Rightarrow> string \<Rightarrow> (string \<times> string) option" where
  "split_once c [] = None"
| "split_once c (a # s) =
     (if a = c then Some ([], s)
      else map_option (\<lambda>(l, r). (a # l, r)) (split_once c s))"

definition action_id_parse :: "string \<Rightarrow> (kernel_error, action_id) rust_result" where
  "action_id_parse s =
     (case split_once CHR '':'' s of
        None \<Rightarrow> Inl InvalidActionId
      | Some (ns, act) \<Rightarrow> action_id_new ns act)"

definition action_id_as_str :: "action_id \<Rightarrow> string" where
  "action_id_as_str a = action_namespace a @ CHR '':'' # action_name a"

datatype resource_type = ResourceType (rt_namespace: string) (rt_name: string)

definition resource_type_new :: "string \<Rightarrow> string \<Rightarrow> (kernel_error, resource_type) rust_result"
  where
  "resource_type_new ns n =
     (if trim ns = [] \<or> trim n = [] then Inl InvalidResourceType
      else Inr (ResourceType (to_ascii_lowercase (trim ns)) (to_ascii_lowercase (trim n))))"

datatype resource_id = ResourceId (resource_id_str: string)

definition resource_id_new :: "string \<Rightarrow> (kernel_error, resource_id) rust_result" where
  "resource_id_new s = (if trim s = [] then Inl InvalidResourceId else Inr (ResourceId (trim s)))"

datatype scope_id = ScopeId (scope_id_str: string)

definition scope_id_new :: "string \<Rightarrow> (kernel_error, scope_id) rust_result" where
  "scope_id_new s = (if trim s = [] then Inl InvalidScopeId else Inr (ScopeId (trim s)))"

datatype principal_id = PrincipalId (principal_id_str: string)

definition principal_id_new :: "string \<Rightarrow> (kernel_error, principal_id) rust_result" where
  "principal_id_new s =
     (if trim s = [] then Inl InvalidPrincipalId else Inr (PrincipalId (trim s)))"

datatype service_namespace = ServiceNamespace (namespace_str: string)

definition service_namespace_new :: "string \<Rightarrow> (kernel_error, service_namespace) rust_result"
  where
  "service_namespace_new s =
     (if trim s = [] then Inl InvalidIdentifier
      else if \<not> list_all (\<lambda>c. is_ascii_alphanumeric c \<or> c = CHR ''-'' \<or> c = CHR ''_'') s
      then Inl InvalidIdentifier
      else Inr (ServiceNamespace (to_ascii_lowercase s)))"

section \<open>Targets, scopes, principals\<close>

datatype resource_target =
    Collection (target_type: resource_type) (target_owner: "scope_id option")
  | Instance (target_type: resource_type) (target_id: resource_id)
      (target_owner: "scope_id option")

definition target_resource_id :: "resource_target \<Rightarrow> resource_id option" where
  "target_resource_id t = (case t of Collection _ _ \<Rightarrow> None | Instance _ i _ \<Rightarrow> Some i)"

datatype scope_kind = Project | Domain | System

fun scope_kind_as_str :: "scope_kind \<Rightarrow> string" where
  "scope_kind_as_str Project = ''project''"
| "scope_kind_as_str Domain = ''domain''"
| "scope_kind_as_str System = ''system''"

record ownership_scope =
  scope_id :: scope_id
  scope_kind :: scope_kind
  scope_name :: "string option"
  scope_domain_id :: "string option"

definition project_scope ::
  "scope_id \<Rightarrow> string option \<Rightarrow> string option \<Rightarrow> ownership_scope" where
  "project_scope i n d =
     \<lparr>scope_id = i, scope_kind = Project, scope_name = n, scope_domain_id = d\<rparr>"

datatype principal_kind = User | Service

record user_principal =
  user_id :: principal_id
  user_name :: string
  user_domain_id :: "string option"

record service_principal =
  service_id :: principal_id
  service_name :: string
  service_type :: string

datatype principal = UserPrincipal user_principal | ServicePrincipal service_principal

fun principal_kind_of :: "principal \<Rightarrow> principal_kind" where
  "principal_kind_of (UserPrincipal _) = User"
| "principal_kind_of (ServicePrincipal _) = Service"

fun principal_id_of :: "principal \<Rightarrow> principal_id" where
  "principal_id_of (UserPrincipal u) = user_id u"
| "principal_id_of (ServicePrincipal s) = service_id s"

section \<open>The authentication context\<close>

record auth_context =
  ctx_principal :: principal
  effective_scope :: ownership_scope
  ctx_roles :: "string list"
  issued_at :: u64
  expires_at :: u64
  audit_id :: string
  request_id :: string
  ctx_service_principal :: "service_principal option"

definition has_role :: "auth_context \<Rightarrow> string \<Rightarrow> bool" where
  "has_role c r = list_ex (\<lambda>x. eq_ignore_ascii_case x r) (ctx_roles c)"

definition with_request_id :: "auth_context \<Rightarrow> string \<Rightarrow> auth_context" where
  "with_request_id c r = c\<lparr>request_id := r\<rparr>"

section \<open>Trimming\<close>

text \<open>
  A string neither of whose ends is white space is what \<open>trim\<close> returns and what it
  leaves alone.
\<close>

definition trimmed :: "string \<Rightarrow> bool" where
  "trimmed s \<longleftrightarrow> ws_prefix s = 0 \<and> ws_suffix (rev s) = 0"

lemma ws_prefix_append: "0 < ws_prefix s \<Longrightarrow> 0 < ws_prefix (s @ t)"
  by (cases s rule: ws_prefix.cases; cases t rule: ws_prefix.cases) (auto split: if_splits)

lemma ws_prefix_0_prefix: "ws_prefix (s @ t) = 0 \<Longrightarrow> ws_prefix s = 0"
  using ws_prefix_append [of s t] by auto

lemma drop_ws_end: "p [] = 0 \<Longrightarrow> p (drop_ws p s) = 0"
  by (induction s rule: drop_ws_induct [of p]) (auto simp: drop_ws_simps)

lemma drop_ws_suffix: "\<exists>t. s = t @ drop_ws p s"
proof (induction s rule: drop_ws_induct [of p])
  case (step a t k)
  then obtain u where "drop k t = u @ drop_ws p (drop k t)" by blast
  then have "a # t = (a # take k t @ u) @ drop_ws p (drop k t)"
    by (metis append.assoc append_Cons append_take_drop_id)
  with step show ?case by (metis drop_ws_simps(3))
qed (auto simp: drop_ws_simps)

lemma trim_trimmed: "trimmed (trim s)"
proof -
  let ?l = "drop_ws ws_prefix s"
  have "ws_prefix ?l = 0" and end0: "ws_suffix (drop_ws ws_suffix (rev ?l)) = 0"
    by (simp_all add: drop_ws_end)
  moreover obtain t where "rev ?l = t @ drop_ws ws_suffix (rev ?l)"
    using drop_ws_suffix by blast
  then have "?l = trim s @ rev t"
    unfolding trim_def by (metis rev_append rev_rev_ident)
  ultimately have "ws_prefix (trim s) = 0" by (metis ws_prefix_0_prefix)
  with end0 show ?thesis by (simp add: trimmed_def trim_def)
qed

lemma trim_id: "trimmed s \<Longrightarrow> trim s = s"
  by (simp add: trim_def trimmed_def drop_ws_simps)

lemma trim_idem [simp]: "trim (trim s) = trim s"
  by (simp add: trim_id trim_trimmed)

lemma ws_lower [simp]:
  "ws1 (of_char (ascii_lower a)) = ws1 (of_char a)"
  "ws2 (of_char (ascii_lower a)) (of_char (ascii_lower b)) = ws2 (of_char a) (of_char b)"
  "ws3 (of_char (ascii_lower a)) (of_char (ascii_lower b)) (of_char (ascii_lower c))
     = ws3 (of_char a) (of_char b) (of_char c)"
  by (auto simp: ws1_def ws2_def ws3_def of_char_ascii_lower)

lemma ws_prefix_lower [simp]: "ws_prefix (to_ascii_lowercase s) = ws_prefix s"
  by (cases s rule: ws_prefix.cases) (simp_all add: to_ascii_lowercase_def)

lemma ws_suffix_lower [simp]: "ws_suffix (to_ascii_lowercase s) = ws_suffix s"
  by (cases s rule: ws_suffix.cases) (simp_all add: to_ascii_lowercase_def)

lemma trimmed_lower: "trimmed (to_ascii_lowercase s) = trimmed s"
proof -
  have "ws_suffix (rev (to_ascii_lowercase s)) = ws_suffix (to_ascii_lowercase (rev s))"
    by (simp add: to_ascii_lowercase_def rev_map)
  then show ?thesis by (simp add: trimmed_def)
qed

section \<open>Well-formed action identifiers and their round trip\<close>

definition action_id_wf :: "action_id \<Rightarrow> bool" where
  "action_id_wf a \<longleftrightarrow>
     action_namespace a \<noteq> [] \<and> action_name a \<noteq> []
     \<and> trimmed (action_namespace a) \<and> trimmed (action_name a)
     \<and> to_ascii_lowercase (action_namespace a) = action_namespace a"

lemma action_id_new_wf: "action_id_new ns act = Inr a \<Longrightarrow> action_id_wf a"
  by (auto simp: action_id_new_def action_id_wf_def trim_trimmed trimmed_lower
      split: if_splits)

lemma action_id_new_id: "action_id_wf a \<Longrightarrow> action_id_new (action_namespace a) (action_name a) = Inr a"
  by (cases a) (simp add: action_id_wf_def action_id_new_def trim_id)

lemma split_once_append: "c \<notin> set s \<Longrightarrow> split_once c (s @ c # t) = Some (s, t)"
  by (induction s) auto

lemma split_once_None: "split_once c s = None \<longleftrightarrow> c \<notin> set s"
  by (induction s) auto

lemma split_once_Some: "split_once c s = Some (l, r) \<Longrightarrow> s = l @ c # r \<and> c \<notin> set l"
  by (induction s arbitrary: l) (auto split: if_splits)

text \<open>
  An action identifier that \<open>ActionId::new\<close> built and whose namespace has no colon is
  recovered by \<open>ActionId::parse\<close> from the string \<open>ActionId::as_str\<close> writes, so a policy
  key survives its textual form.
\<close>

theorem action_id_roundtrip:
  assumes "action_id_new ns act = Inr a" and "CHR '':'' \<notin> set (action_namespace a)"
  shows "action_id_parse (action_id_as_str a) = Inr a"
  using assms action_id_new_id [OF action_id_new_wf [OF assms(1)]]
  by (simp add: action_id_parse_def action_id_as_str_def split_once_append)

theorem action_id_roundtrip_witness:
  "action_id_parse (action_id_as_str (ActionId ''compute'' ''ReadServer''))
     = Inr (ActionId ''compute'' ''ReadServer'')"
proof -
  have "action_id_new '' Compute'' ''ReadServer '' = Inr (ActionId ''compute'' ''ReadServer'')"
    by (simp add: action_id_new_def trim_def drop_ws.simps ws1_def ws2_def ws3_def to_ascii_lowercase_def)
  then show ?thesis by (rule action_id_roundtrip) simp
qed

end
