(* ===== verification/Kernel_Authorization.thy ===== *)
theory Kernel_Authorization
  imports Kernel_Identifiers "HOL-Library.AList"
begin

text \<open>
  The static authorizer of the Cloud Kernel (\<open>crates/o3k-kernel/src/authorization.rs\<close>): the
  built-in action inventory, registered in the order of the source, and \<open>authorize\<close>
  with its checks in the order of the source. The lemmas characterise when a request is
  allowed (\<open>permitted\<close>), show that the system-scope gates hold for every inventory, and
  prove tenant isolation. The locale states what a caller of the \<open>Authorizer\<close> trait relies
  on; the static authorizer is its interpretation.
\<close>

section \<open>Requests, decisions, policies\<close>

datatype decision_reason =
    Allowed | UnknownAction | UnknownResourceType | ScopeMismatch | MissingOwnership
  | UnsupportedPrincipal | UnauthorizedRole | ExpiredContext

datatype authorization_decision = Allow | Deny (deny_reason: decision_reason)

definition is_allowed :: "authorization_decision \<Rightarrow> bool" where
  "is_allowed d = (case d of Allow \<Rightarrow> True | Deny _ \<Rightarrow> False)"

definition decision_reason_of :: "authorization_decision \<Rightarrow> decision_reason" where
  "decision_reason_of d = (case d of Allow \<Rightarrow> Allowed | Deny r \<Rightarrow> r)"

record auth_request =
  auth_context :: auth_context
  req_action :: action_id
  req_target :: resource_target

record action_policy =
  policy_action :: action_id
  expected_resource_type :: resource_type
  accepted_principals :: "principal_kind list"
  require_ownership :: bool
  required_roles :: "string list"

text \<open>
  The \<open>HashMap\<close> of policies is an association list without duplicate keys; \<open>insert\<close> is
  \<open>AList.update\<close>, which replaces the value of a key that is present.
\<close>

type_synonym policies = "(action_id \<times> action_policy) list"

definition register :: "policies \<Rightarrow> action_policy \<Rightarrow> policies" where
  "register P p = AList.update (policy_action p) p P"

section \<open>The standard inventory\<close>

text \<open>
  One call of the source's \<open>reg\<close> closure: namespace, action, resource namespace, resource
  name, ownership. An invalid identifier makes the call do nothing.
\<close>

type_synonym registration = "string \<times> string \<times> string \<times> string \<times> bool"

definition policy_of ::
  "principal_kind list \<Rightarrow> string list \<Rightarrow> registration \<Rightarrow> action_policy option" where
  "policy_of kinds roles r =
     (case r of (ns, act, rns, rn, own) \<Rightarrow>
        (case (action_id_new ns act, resource_type_new rns rn) of
           (Inr a, Inr t) \<Rightarrow>
             Some \<lparr>policy_action = a, expected_resource_type = t, accepted_principals = kinds,
                   require_ownership = own, required_roles = roles\<rparr>
         | _ \<Rightarrow> None))"

definition reg_with ::
  "principal_kind list \<Rightarrow> string list \<Rightarrow> policies \<Rightarrow> registration \<Rightarrow> policies" where
  "reg_with kinds roles P r =
     (case policy_of kinds roles r of Some p \<Rightarrow> register P p | None \<Rightarrow> P)"

definition platform_actions :: "registration list" where
  "platform_actions =
   [(''identity'', ''IssueToken'', ''identity'', ''token'', False),
    (''identity'', ''ValidateToken'', ''identity'', ''token'', False),
    (''identity'', ''RevokeToken'', ''identity'', ''token'', False),
    (''quota'', ''ReadQuota'', ''quota'', ''quota'', True),
    (''quota'', ''ManageQuota'', ''quota'', ''quota'', False),
    (''topology'', ''ReadTopology'', ''topology'', ''failure_domain'', False),
    (''topology'', ''ManageTopology'', ''topology'', ''failure_domain'', False),
    (''operation'', ''ReadOperation'', ''operation'', ''operation'', False),
    (''composition'', ''ReadCloudProfile'', ''composition'', ''cloud_profile'', False),
    (''building_block'', ''ReadBuildingBlock'', ''building_block'', ''building_block'', False),
    (''building_block'', ''ManageBuildingBlock'', ''building_block'', ''building_block'', False),
    (''building_block'', ''EnrollBuildingBlock'', ''building_block'', ''building_block'', False),
    (''composition'', ''ManageCloudProfile'', ''composition'', ''cloud_profile'', False)]"

definition image_actions :: "registration list" where
  "image_actions =
   [(''image'', ''ListImages'', ''image'', ''image'', True),
    (''image'', ''CreateImage'', ''image'', ''image'', True),
    (''image'', ''ReadImage'', ''image'', ''image'', True),
    (''image'', ''DeleteImage'', ''image'', ''image'', True),
    (''image'', ''UploadImage'', ''image'', ''image'', True),
    (''image'', ''DownloadImage'', ''image'', ''image'', True)]"

definition network_actions :: "registration list" where
  "network_actions =
   [(''network'', ''ListNetworks'', ''network'', ''network'', True),
    (''network'', ''CreateNetwork'', ''network'', ''network'', True),
    (''network'', ''ReadNetwork'', ''network'', ''network'', True),
    (''network'', ''UpdateNetwork'', ''network'', ''network'', True),
    (''network'', ''DeleteNetwork'', ''network'', ''network'', True),
    (''network'', ''ListSubnets'', ''network'', ''subnet'', True),
    (''network'', ''CreateSubnet'', ''network'', ''subnet'', True),
    (''network'', ''ReadSubnet'', ''network'', ''subnet'', True),
    (''network'', ''UpdateSubnet'', ''network'', ''subnet'', True),
    (''network'', ''DeleteSubnet'', ''network'', ''subnet'', True),
    (''network'', ''ListPorts'', ''network'', ''port'', True),
    (''network'', ''CreatePort'', ''network'', ''port'', True),
    (''network'', ''ReadPort'', ''network'', ''port'', True),
    (''network'', ''DeletePort'', ''network'', ''port'', True),
    (''network'', ''ListSecurityGroups'', ''network'', ''security_group'', True),
    (''network'', ''ReadSecurityGroup'', ''network'', ''security_group'', True),
    (''network'', ''CreateSecurityGroup'', ''network'', ''security_group'', True),
    (''network'', ''DeleteSecurityGroup'', ''network'', ''security_group'', True),
    (''network'', ''ListSecurityGroupRules'', ''network'', ''security_group_rule'', True),
    (''network'', ''ReadSecurityGroupRule'', ''network'', ''security_group_rule'', True),
    (''network'', ''CreateSecurityGroupRule'', ''network'', ''security_group_rule'', True),
    (''network'', ''DeleteSecurityGroupRule'', ''network'', ''security_group_rule'', True),
    (''network'', ''ListRouters'', ''network'', ''router'', True),
    (''network'', ''ReadRouter'', ''network'', ''router'', True),
    (''network'', ''CreateRouter'', ''network'', ''router'', True),
    (''network'', ''DeleteRouter'', ''network'', ''router'', True),
    (''network'', ''ListRouterInterfaces'', ''network'', ''router_interface'', True),
    (''network'', ''ReadRouterInterface'', ''network'', ''router_interface'', True),
    (''network'', ''CreateRouterInterface'', ''network'', ''router_interface'', True),
    (''network'', ''DeleteRouterInterface'', ''network'', ''router_interface'', True),
    (''network'', ''ListAddressAllocations'', ''network'', ''floating_ip'', True),
    (''network'', ''ReadAddressAllocation'', ''network'', ''floating_ip'', True),
    (''network'', ''AllocateAddress'', ''network'', ''floating_ip'', True),
    (''network'', ''ReleaseAddress'', ''network'', ''floating_ip'', True),
    (''network'', ''ListExtensions'', ''network'', ''extension'', False)]"

definition compute_actions :: "registration list" where
  "compute_actions =
   [(''compute'', ''ListFlavors'', ''compute'', ''flavor'', True),
    (''compute'', ''CreateFlavor'', ''compute'', ''flavor'', True),
    (''compute'', ''ReadFlavor'', ''compute'', ''flavor'', True),
    (''compute'', ''DeleteFlavor'', ''compute'', ''flavor'', True),
    (''compute'', ''ListKeypairs'', ''compute'', ''keypair'', True),
    (''compute'', ''ImportKeypair'', ''compute'', ''keypair'', True),
    (''compute'', ''ReadKeypair'', ''compute'', ''keypair'', True),
    (''compute'', ''DeleteKeypair'', ''compute'', ''keypair'', True),
    (''compute'', ''ListServers'', ''compute'', ''server'', True),
    (''compute'', ''CreateServer'', ''compute'', ''server'', True),
    (''compute'', ''ReadServer'', ''compute'', ''server'', True),
    (''compute'', ''UpdateServer'', ''compute'', ''server'', True),
    (''compute'', ''DeleteServer'', ''compute'', ''server'', True),
    (''compute'', ''StopServer'', ''compute'', ''server'', True),
    (''compute'', ''StartServer'', ''compute'', ''server'', True),
    (''compute'', ''RebootServer'', ''compute'', ''server'', True),
    (''compute'', ''ReadConsole'', ''compute'', ''server'', True)]"

definition volume_actions :: "registration list" where
  "volume_actions =
   [(''volume'', ''ListVolumeAttachments'', ''volume'', ''volume_attachment'', True),
    (''volume'', ''AttachVolume'', ''volume'', ''volume_attachment'', True),
    (''volume'', ''ReadVolumeAttachment'', ''volume'', ''volume_attachment'', True),
    (''volume'', ''DetachVolume'', ''volume'', ''volume_attachment'', True),
    (''volume'', ''ListVolumes'', ''volume'', ''volume'', True),
    (''volume'', ''CreateVolume'', ''volume'', ''volume'', True),
    (''volume'', ''ReadVolume'', ''volume'', ''volume'', True),
    (''volume'', ''DeleteVolume'', ''volume'', ''volume'', True)]"

definition native_network_actions :: "registration list" where
  "native_network_actions =
   [(''network'', ''ListAddressRealms'', ''network'', ''address_realm'', True),
    (''network'', ''ReadAddressRealm'', ''network'', ''address_realm'', True),
    (''network'', ''CreateAddressRealm'', ''network'', ''address_realm'', True),
    (''network'', ''DeleteAddressRealm'', ''network'', ''address_realm'', True),
    (''network'', ''ListAddressPools'', ''network'', ''address_pool'', True),
    (''network'', ''CreateAddressPool'', ''network'', ''address_pool'', True),
    (''network'', ''ReadAddressPool'', ''network'', ''address_pool'', True),
    (''network'', ''DeleteAddressPool'', ''network'', ''address_pool'', True),
    (''network'', ''ListEndpoints'', ''network'', ''endpoint'', True),
    (''network'', ''CreateEndpoint'', ''network'', ''endpoint'', True),
    (''network'', ''ReadEndpoint'', ''network'', ''endpoint'', True),
    (''network'', ''DeleteEndpoint'', ''network'', ''endpoint'', True)]"

text \<open>
  The registrations after the closure: the governance actions (\<open>reg_system\<close>), the operator
  actions, metering, and last the enrollment action, which replaces the entry the closure
  made for it.
\<close>

definition operator_actions :: "registration list" where
  "operator_actions =
   [(''governance'', ''ReadGovernance'', ''governance'', ''governance'', False),
    (''governance'', ''ManageAssignment'', ''governance'', ''governance'', False),
    (''governance'', ''ManageOperatorAssignment'', ''governance'', ''governance'', False),
    (''operator'', ''ReadProfile'', ''operator'', ''profile'', False),
    (''operator'', ''ReadDiagnostics'', ''operator'', ''diagnostics'', False)]"

definition metering_actions :: "registration list" where
  "metering_actions =
   [(''metering'', ''ReadDefinitions'', ''metering'', ''definitions'', False),
    (''metering'', ''ReadUsage'', ''metering'', ''usage'', True)]"

definition closure_actions :: "registration list" where
  "closure_actions =
     platform_actions @ image_actions @ network_actions @ compute_actions @ volume_actions
     @ native_network_actions"

definition register_standard_actions :: "policies \<Rightarrow> policies" where
  "register_standard_actions P0 =
     (let P1 = foldl (reg_with [User, Service] []) P0 closure_actions;
          P2 = foldl (reg_with [User] [''operator'']) P1 operator_actions;
          P3 = foldl (reg_with [User] []) P2 metering_actions;
          P4 = reg_with [User] [''operator''] P3
                 (''metering'', ''ReadUsageAll'', ''metering'', ''usage'', False)
      in reg_with [Service] [] P4
           (''building_block'', ''EnrollBuildingBlock'', ''building_block'', ''building_block'',
            False))"

definition standard :: policies where
  "standard = register_standard_actions []"

text \<open>\<open>capabilities\<close>: the policies in the order of their action's string.\<close>

definition capabilities :: "policies \<Rightarrow> action_policy list" where
  "capabilities P = sort_key (\<lambda>p. action_id_as_str (policy_action p)) (map snd P)"

section \<open>Evaluation\<close>

abbreviation kind_of_request :: "auth_request \<Rightarrow> scope_kind" where
  "kind_of_request r \<equiv> scope_kind (effective_scope (auth_context r))"

abbreviation caller_scope :: "auth_request \<Rightarrow> scope_id" where
  "caller_scope r \<equiv> scope_id (effective_scope (auth_context r))"

abbreviation caller_kind :: "auth_request \<Rightarrow> principal_kind" where
  "caller_kind r \<equiv> principal_kind_of (ctx_principal (auth_context r))"

definition authorize :: "policies \<Rightarrow> auth_request \<Rightarrow> authorization_decision" where
  "authorize P r =
    (let ctx = auth_context r; act = req_action r; kind = scope_kind (effective_scope ctx);
         operator = has_role ctx ''operator''
     in case map_of P act of
          None \<Rightarrow> Deny UnknownAction
        | Some policy \<Rightarrow>
       if target_type (req_target r) \<noteq> expected_resource_type policy
       then Deny UnknownResourceType
       else if principal_kind_of (ctx_principal ctx) \<notin> set (accepted_principals policy)
       then Deny UnsupportedPrincipal
       else if act = ActionId ''operator'' ''ReadProfile'' \<and> kind \<noteq> System
       then Deny ScopeMismatch
       else if act = ActionId ''operator'' ''ReadDiagnostics'' \<and> kind \<noteq> System
       then Deny ScopeMismatch
       else if act = ActionId ''metering'' ''ReadUsageAll'' \<and> kind \<noteq> System
       then Deny ScopeMismatch
       else if act = ActionId ''quota'' ''ManageQuota'' \<and> (kind \<noteq> System \<or> \<not> operator)
       then Deny ScopeMismatch
       else if act = ActionId ''topology'' ''ManageTopology'' \<and> (kind \<noteq> System \<or> \<not> operator)
       then Deny ScopeMismatch
       else if action_namespace act = ''topology''
               \<and> act \<noteq> ActionId ''topology'' ''ReadTopology'' \<and> kind \<noteq> System
       then Deny ScopeMismatch
       else if action_namespace act = ''composition''
               \<and> (kind \<noteq> System
                  \<or> act = ActionId ''composition'' ''ManageCloudProfile'' \<and> \<not> operator)
       then Deny ScopeMismatch
       else if action_namespace act = ''building_block''
               \<and> act \<noteq> ActionId ''building_block'' ''EnrollBuildingBlock''
               \<and> (kind \<noteq> System \<or> \<not> operator)
       then Deny ScopeMismatch
       else if action_namespace act = ''governance'' \<and> kind \<noteq> System
       then Deny ScopeMismatch
       else
         (let ownership =
            (if require_ownership policy
                \<and> \<not> (act = ActionId ''quota'' ''ReadQuota'' \<and> kind = System \<and> operator)
             then (case target_owner (req_target r) of
                     Some target_scope \<Rightarrow>
                       if target_scope \<noteq> scope_id (effective_scope ctx)
                       then Some ScopeMismatch else None
                   | None \<Rightarrow> Some MissingOwnership)
             else None)
          in case ownership of
               Some reason \<Rightarrow> Deny reason
             | None \<Rightarrow>
                 if list_ex (\<lambda>role. \<not> has_role ctx role) (required_roles policy)
                 then Deny UnauthorizedRole
                 else Allow))"

section \<open>What a request needs to be allowed\<close>

text \<open>
  The scope gates as predicates on the action: \<open>system_gated\<close> actions need a system scope
  and \<open>operator_gated\<close> ones the operator role, whatever the inventory says of them;
  \<open>owner_exempt\<close> is the one request whose ownership is not checked.
\<close>

definition system_gated :: "action_id \<Rightarrow> bool" where
  "system_gated a \<longleftrightarrow>
     a \<in> {ActionId ''operator'' ''ReadProfile'', ActionId ''operator'' ''ReadDiagnostics'',
          ActionId ''metering'' ''ReadUsageAll'', ActionId ''quota'' ''ManageQuota''}
     \<or> action_namespace a \<in> {''governance'', ''composition''}
     \<or> action_namespace a = ''topology'' \<and> a \<noteq> ActionId ''topology'' ''ReadTopology''
     \<or> action_namespace a = ''building_block''
        \<and> a \<noteq> ActionId ''building_block'' ''EnrollBuildingBlock''"

definition operator_gated :: "action_id \<Rightarrow> bool" where
  "operator_gated a \<longleftrightarrow>
     a \<in> {ActionId ''quota'' ''ManageQuota'', ActionId ''topology'' ''ManageTopology'',
          ActionId ''composition'' ''ManageCloudProfile''}
     \<or> action_namespace a = ''building_block''
        \<and> a \<noteq> ActionId ''building_block'' ''EnrollBuildingBlock''"

definition owner_exempt :: "auth_request \<Rightarrow> bool" where
  "owner_exempt r \<longleftrightarrow>
     req_action r = ActionId ''quota'' ''ReadQuota'' \<and> kind_of_request r = System
     \<and> has_role (auth_context r) ''operator''"

definition meets_policy :: "auth_request \<Rightarrow> action_policy \<Rightarrow> bool" where
  "meets_policy r p \<longleftrightarrow>
     target_type (req_target r) = expected_resource_type p
     \<and> caller_kind r \<in> set (accepted_principals p)
     \<and> (require_ownership p \<longrightarrow>
          owner_exempt r \<or> target_owner (req_target r) = Some (caller_scope r))
     \<and> list_all (has_role (auth_context r)) (required_roles p)"

definition passes_gates :: "auth_request \<Rightarrow> bool" where
  "passes_gates r \<longleftrightarrow>
     (system_gated (req_action r) \<longrightarrow> kind_of_request r = System)
     \<and> (operator_gated (req_action r) \<longrightarrow> has_role (auth_context r) ''operator'')"

definition permitted :: "policies \<Rightarrow> auth_request \<Rightarrow> bool" where
  "permitted P r =
     (case map_of P (req_action r) of
        None \<Rightarrow> False
      | Some p \<Rightarrow> meets_policy r p \<and> passes_gates r)"

lemmas gate_defs = system_gated_def operator_gated_def owner_exempt_def passes_gates_def

lemma passes_gates_iff:
  "passes_gates r \<longleftrightarrow>
     \<not> (req_action r = ActionId ''operator'' ''ReadProfile'' \<and> kind_of_request r \<noteq> System)
   \<and> \<not> (req_action r = ActionId ''operator'' ''ReadDiagnostics'' \<and> kind_of_request r \<noteq> System)
   \<and> \<not> (req_action r = ActionId ''metering'' ''ReadUsageAll'' \<and> kind_of_request r \<noteq> System)
   \<and> \<not> (req_action r = ActionId ''quota'' ''ManageQuota''
        \<and> (kind_of_request r \<noteq> System \<or> \<not> has_role (auth_context r) ''operator''))
   \<and> \<not> (req_action r = ActionId ''topology'' ''ManageTopology''
        \<and> (kind_of_request r \<noteq> System \<or> \<not> has_role (auth_context r) ''operator''))
   \<and> \<not> (action_namespace (req_action r) = ''topology''
        \<and> req_action r \<noteq> ActionId ''topology'' ''ReadTopology'' \<and> kind_of_request r \<noteq> System)
   \<and> \<not> (action_namespace (req_action r) = ''composition''
        \<and> (kind_of_request r \<noteq> System
           \<or> req_action r = ActionId ''composition'' ''ManageCloudProfile''
              \<and> \<not> has_role (auth_context r) ''operator''))
   \<and> \<not> (action_namespace (req_action r) = ''building_block''
        \<and> req_action r \<noteq> ActionId ''building_block'' ''EnrollBuildingBlock''
        \<and> (kind_of_request r \<noteq> System \<or> \<not> has_role (auth_context r) ''operator''))
   \<and> \<not> (action_namespace (req_action r) = ''governance'' \<and> kind_of_request r \<noteq> System)"
proof -
  have "req_action r = ActionId ''topology'' ''ManageTopology''
      \<Longrightarrow> action_namespace (req_action r) = ''topology''"
    and "req_action r = ActionId ''composition'' ''ManageCloudProfile''
      \<Longrightarrow> action_namespace (req_action r) = ''composition''"
    and "ActionId ''topology'' ''ManageTopology'' \<noteq> ActionId ''topology'' ''ReadTopology''"
    by simp_all
  then show ?thesis
    unfolding gate_defs insert_iff empty_iff by argo
qed

lemma list_ex_not: "list_ex (\<lambda>x. \<not> P x) xs \<longleftrightarrow> \<not> list_all P xs"
  by (induction xs) auto

lemma deny_if: "((if c then Deny x else d) = Allow) \<longleftrightarrow> \<not> c \<and> d = Allow"
  by simp

lemma authorize_permitted: "authorize P r = Allow \<longleftrightarrow> permitted P r"
proof (cases "map_of P (req_action r)")
  case None
  then show ?thesis by (simp add: authorize_def permitted_def)
next
  case (Some p)
  have own: "(case (if require_ownership p \<and> \<not> owner_exempt r
        then (case target_owner (req_target r) of
                Some t \<Rightarrow> if t \<noteq> caller_scope r then Some ScopeMismatch else None
              | None \<Rightarrow> Some MissingOwnership)
        else None) of Some reason \<Rightarrow> Deny reason
      | None \<Rightarrow> if list_ex (\<lambda>x. \<not> has_role (auth_context r) x) (required_roles p)
          then Deny UnauthorizedRole else Allow) = Allow
    \<longleftrightarrow> (require_ownership p \<longrightarrow>
           owner_exempt r \<or> target_owner (req_target r) = Some (caller_scope r))
        \<and> list_all (has_role (auth_context r)) (required_roles p)"
    by (cases "target_owner (req_target r)") (auto simp: list_ex_not)
  show ?thesis
    unfolding authorize_def permitted_def meets_policy_def passes_gates_iff Let_def
      Some option.case deny_if own [unfolded owner_exempt_def] owner_exempt_def
    by argo
qed

text \<open>
  C1: the static authorizer is fail-closed and complete: it allows a request exactly when
  the action is registered, the target has the registered resource type, the principal kind
  is accepted, the caller owns the target where ownership is required, every required role is
  held, and the scope gates of the action pass. Every other request is denied.
\<close>

theorem authorize_iff_permitted:
  "(authorize P r = Allow) = permitted P r"
  by (rule authorize_permitted)

lemma authorize_known: "authorize P r = Allow \<Longrightarrow> \<exists>p. map_of P (req_action r) = Some p"
  by (auto simp: authorize_permitted permitted_def split: option.splits)

lemma authorize_meets:
  "authorize P r = Allow \<Longrightarrow> map_of P (req_action r) = Some p \<Longrightarrow> meets_policy r p"
  by (simp add: authorize_permitted permitted_def)

lemma authorize_gates: "authorize P r = Allow \<Longrightarrow> passes_gates r"
  by (auto simp: authorize_permitted permitted_def split: option.splits)

section \<open>The contract of the \<open>Authorizer\<close> trait\<close>

text \<open>
  What a service that calls \<open>authorize\<close> relies on, for any implementation: an action
  without a policy is denied, and an allowed request meets its policy.
\<close>

locale authorizer =
  fixes authz :: "auth_request \<Rightarrow> authorization_decision"
    and policy :: "action_id \<Rightarrow> action_policy option"
  assumes unknown_denied: "policy (req_action r) = None \<Longrightarrow> authz r = Deny UnknownAction"
    and allow_meets: "authz r = Allow \<Longrightarrow> policy (req_action r) = Some p \<Longrightarrow> meets_policy r p"
begin

lemma allow_known: "authz r = Allow \<Longrightarrow> \<exists>p. policy (req_action r) = Some p"
  using unknown_denied [of r] by (cases "policy (req_action r)") auto

lemma allow_owner:
  assumes "authz r = Allow" and "policy (req_action r) = Some p" and "require_ownership p"
    and "\<not> owner_exempt r"
  shows "target_owner (req_target r) = Some (caller_scope r)"
  using allow_meets [OF assms(1,2)] assms(3,4) by (simp add: meets_policy_def)

text \<open>A target that is owned cannot be used from two scopes.\<close>

lemma single_owner:
  assumes "authz r = Allow" "policy (req_action r) = Some p" "require_ownership p"
      "\<not> owner_exempt r"
    and "authz r' = Allow" "policy (req_action r') = Some p'" "require_ownership p'"
      "\<not> owner_exempt r'"
    and "target_owner (req_target r') = target_owner (req_target r)"
  shows "caller_scope r' = caller_scope r"
  using allow_owner [OF assms(1-4)] allow_owner [OF assms(5-8)] assms(9) by simp

end

interpretation static_authorizer: authorizer "authorize P" "map_of P" for P
proof unfold_locales
  show "map_of P (req_action r) = None \<Longrightarrow> authorize P r = Deny UnknownAction" for r
    by (simp add: authorize_def)
qed (rule authorize_meets)

section \<open>The gates hold for every inventory\<close>

text \<open>
  The system gates do not depend on what is registered: whatever policy table is in
  force, including actions registered later that forgot the scope requirement, an allowed
  request for a governance, composition, building-block administration, topology mutation,
  operator, cross-scope metering or quota administration action comes from a system scope.
\<close>

theorem system_gate_any_inventory:
  assumes "authorize P r = Allow" and "system_gated (req_action r)"
  shows "kind_of_request r = System"
  using authorize_gates [OF assms(1)] assms(2) by (simp add: passes_gates_def)

definition example_ctx :: "principal \<Rightarrow> scope_kind \<Rightarrow> string \<Rightarrow> string list \<Rightarrow> auth_context" where
  "example_ctx p k i rs =
     \<lparr>ctx_principal = p,
      effective_scope = \<lparr>scope_id = ScopeId i, scope_kind = k, scope_name = None,
                         scope_domain_id = None\<rparr>,
      ctx_roles = rs, issued_at = 0, expires_at = 3600, audit_id = ''audit'',
      request_id = ''req'', ctx_service_principal = None\<rparr>"

definition example_user :: principal where
  "example_user =
     UserPrincipal \<lparr>user_id = PrincipalId ''usr-1'', user_name = ''user'', user_domain_id = None\<rparr>"

lemmas example_defs = example_ctx_def example_user_def

theorem system_gate_any_inventory_witness:
  defines "future \<equiv> \<lparr>policy_action = ActionId ''governance'' ''Future'',
      expected_resource_type = ResourceType ''governance'' ''governance'',
      accepted_principals = [User], require_ownership = False, required_roles = []\<rparr>"
    and "r \<equiv> \<lparr>auth_context = example_ctx example_user System ''system'' [],
      req_action = ActionId ''governance'' ''Future'',
      req_target = Collection (ResourceType ''governance'' ''governance'') None\<rparr>"
  shows "authorize (register [] future) r = Allow \<and> kind_of_request r = System"
proof -
  have a: "authorize (register [] future) r = Allow"
    by (simp add: authorize_permitted permitted_def meets_policy_def gate_defs register_def
        future_def r_def example_defs)
  moreover have "system_gated (req_action r)" by (simp add: r_def system_gated_def)
  ultimately show ?thesis using system_gate_any_inventory by blast
qed

section \<open>The standard inventory\<close>

lemma map_of_reg_with:
  "map_of (reg_with ks rs P r) a =
     (case policy_of ks rs r of
        Some p \<Rightarrow> if policy_action p = a then Some p else map_of P a
      | None \<Rightarrow> map_of P a)"
  by (auto simp: reg_with_def register_def update_conv' split: option.split)

lemma reg_fold_origin:
  "map_of (foldl (reg_with ks rs) P regs) a = Some p \<Longrightarrow>
     map_of P a = Some p \<or> (\<exists>r \<in> set regs. policy_of ks rs r = Some p \<and> policy_action p = a)"
proof (induction regs arbitrary: P)
  case (Cons r regs)
  then show ?case
    by (fastforce simp: map_of_reg_with split: option.splits if_splits)
qed simp

definition all_policies ::
  "(action_policy \<Rightarrow> bool) \<Rightarrow> principal_kind list \<Rightarrow> string list \<Rightarrow> registration list \<Rightarrow> bool" where
  "all_policies chk ks rs regs =
     list_all (\<lambda>r. case policy_of ks rs r of None \<Rightarrow> True | Some p \<Rightarrow> chk p) regs"

lemma reg_fold_all:
  assumes "map_of (foldl (reg_with ks rs) P regs) a = Some p" and "all_policies chk ks rs regs"
    and "map_of P a = Some p \<Longrightarrow> chk p"
  shows "chk p"
  using reg_fold_origin [OF assms(1)] assms(2,3)
  by (fastforce simp: all_policies_def list_all_iff split: option.splits)

lemma reg_one_all:
  assumes "map_of (reg_with ks rs P r) a = Some p" and "all_policies chk ks rs [r]"
    and "map_of P a = Some p \<Longrightarrow> chk p"
  shows "chk p"
  using reg_fold_all [of ks rs P "[r]" a p chk] assms by simp

lemma all_policies_append:
  "all_policies chk ks rs (xs @ ys) \<longleftrightarrow> all_policies chk ks rs xs \<and> all_policies chk ks rs ys"
  by (simp add: all_policies_def)

text \<open>
  A predicate on policies holds of the standard inventory when it holds of each group.
\<close>

lemma standard_all:
  assumes "map_of standard a = Some p"
    and "all_policies chk [User, Service] [] closure_actions"
    and "all_policies chk [User] [''operator''] operator_actions"
    and "all_policies chk [User] [] metering_actions"
    and "all_policies chk [User] [''operator'']
           [(''metering'', ''ReadUsageAll'', ''metering'', ''usage'', False)]"
    and "all_policies chk [Service] []
           [(''building_block'', ''EnrollBuildingBlock'', ''building_block'', ''building_block'',
             False)]"
  shows "chk p"
proof (rule reg_one_all [OF assms(1) [unfolded standard_def register_standard_actions_def Let_def]
      assms(6)])
qed (elim reg_one_all [OF _ assms(5)] reg_fold_all [OF _ assms(4)] reg_fold_all [OF _ assms(3)]
      reg_fold_all [OF _ assms(2)]; simp)+

text \<open>The actions of the standard inventory whose policy does not require ownership.\<close>

definition unowned_actions :: "action_id list" where
  "unowned_actions =
   [ActionId ''identity'' ''IssueToken'', ActionId ''identity'' ''ValidateToken'',
    ActionId ''identity'' ''RevokeToken'', ActionId ''quota'' ''ManageQuota'',
    ActionId ''topology'' ''ReadTopology'', ActionId ''topology'' ''ManageTopology'',
    ActionId ''operation'' ''ReadOperation'', ActionId ''composition'' ''ReadCloudProfile'',
    ActionId ''building_block'' ''ReadBuildingBlock'',
    ActionId ''building_block'' ''ManageBuildingBlock'',
    ActionId ''building_block'' ''EnrollBuildingBlock'',
    ActionId ''composition'' ''ManageCloudProfile'', ActionId ''network'' ''ListExtensions'',
    ActionId ''governance'' ''ReadGovernance'', ActionId ''governance'' ''ManageAssignment'',
    ActionId ''governance'' ''ManageOperatorAssignment'', ActionId ''operator'' ''ReadProfile'',
    ActionId ''operator'' ''ReadDiagnostics'', ActionId ''metering'' ''ReadDefinitions'',
    ActionId ''metering'' ''ReadUsageAll'']"

definition owned_policy :: "action_policy \<Rightarrow> bool" where
  "owned_policy p \<longleftrightarrow> require_ownership p \<or> policy_action p \<in> set unowned_actions"

definition operator_policy :: "action_policy \<Rightarrow> bool" where
  "operator_policy p \<longleftrightarrow>
     (action_namespace (policy_action p) \<in> {''governance'', ''operator''} \<longrightarrow>
        accepted_principals p = [User] \<and> required_roles p = [''operator''])"

text \<open>
  The literals of the inventory are their own trimmed form, and the namespaces their own
  lower case: facts the checks below rewrite with.
\<close>

lemma trim_names:
    "trim ''identity'' = ''identity''"
    "trim ''quota'' = ''quota''"
    "trim ''topology'' = ''topology''"
    "trim ''operation'' = ''operation''"
    "trim ''composition'' = ''composition''"
    "trim ''building_block'' = ''building_block''"
    "trim ''image'' = ''image''"
    "trim ''network'' = ''network''"
    "trim ''compute'' = ''compute''"
    "trim ''volume'' = ''volume''"
    "trim ''governance'' = ''governance''"
    "trim ''operator'' = ''operator''"
    "trim ''metering'' = ''metering''"
    "trim ''IssueToken'' = ''IssueToken''"
    "trim ''ValidateToken'' = ''ValidateToken''"
    "trim ''RevokeToken'' = ''RevokeToken''"
    "trim ''ManageQuota'' = ''ManageQuota''"
    "trim ''ReadTopology'' = ''ReadTopology''"
    "trim ''ManageTopology'' = ''ManageTopology''"
    "trim ''ReadOperation'' = ''ReadOperation''"
    "trim ''ReadCloudProfile'' = ''ReadCloudProfile''"
    "trim ''ReadBuildingBlock'' = ''ReadBuildingBlock''"
    "trim ''ManageBuildingBlock'' = ''ManageBuildingBlock''"
    "trim ''EnrollBuildingBlock'' = ''EnrollBuildingBlock''"
    "trim ''ManageCloudProfile'' = ''ManageCloudProfile''"
    "trim ''ListExtensions'' = ''ListExtensions''"
    "trim ''ReadGovernance'' = ''ReadGovernance''"
    "trim ''ManageAssignment'' = ''ManageAssignment''"
    "trim ''ManageOperatorAssignment'' = ''ManageOperatorAssignment''"
    "trim ''ReadProfile'' = ''ReadProfile''"
    "trim ''ReadDiagnostics'' = ''ReadDiagnostics''"
    "trim ''ReadDefinitions'' = ''ReadDefinitions''"
    "trim ''ReadUsageAll'' = ''ReadUsageAll''"
  by code_simp+

lemma lower_names:
    "to_ascii_lowercase ''identity'' = ''identity''"
    "to_ascii_lowercase ''quota'' = ''quota''"
    "to_ascii_lowercase ''topology'' = ''topology''"
    "to_ascii_lowercase ''operation'' = ''operation''"
    "to_ascii_lowercase ''composition'' = ''composition''"
    "to_ascii_lowercase ''building_block'' = ''building_block''"
    "to_ascii_lowercase ''image'' = ''image''"
    "to_ascii_lowercase ''network'' = ''network''"
    "to_ascii_lowercase ''compute'' = ''compute''"
    "to_ascii_lowercase ''volume'' = ''volume''"
    "to_ascii_lowercase ''governance'' = ''governance''"
    "to_ascii_lowercase ''operator'' = ''operator''"
    "to_ascii_lowercase ''metering'' = ''metering''"
  by code_simp+

lemma policy_of_Some:
  "policy_of ks rs (ns, act, rns, rn, own) = Some p \<Longrightarrow>
     policy_action p = ActionId (to_ascii_lowercase (trim ns)) (trim act)
     \<and> require_ownership p = own \<and> accepted_principals p = ks \<and> required_roles p = rs"
  by (auto simp: policy_of_def action_id_new_def resource_type_new_def
      split: sum.splits if_splits)

lemma all_policiesI:
  assumes "\<And>ns act rns rn own p. (ns, act, rns, rn, own) \<in> set regs \<Longrightarrow>
      policy_of ks rs (ns, act, rns, rn, own) = Some p \<Longrightarrow> chk p"
  shows "all_policies chk ks rs regs"
  unfolding all_policies_def list_all_iff
proof
  fix r assume r: "r \<in> set regs"
  obtain ns act rns rn own where "r = (ns, act, rns, rn, own)" by (rule prod_cases5)
  with r assms show "case policy_of ks rs r of None \<Rightarrow> True | Some p \<Rightarrow> chk p"
    by (simp split: option.split)
qed

lemma owned_check:
  assumes "list_all (\<lambda>(ns, act, rns, rn, own).
      own \<or> ActionId (to_ascii_lowercase (trim ns)) (trim act) \<in> set unowned_actions) regs"
  shows "all_policies owned_policy ks rs regs"
  using assms
  by (fastforce intro!: all_policiesI simp: owned_policy_def list_all_iff dest!: policy_of_Some)

lemma operator_check:
  assumes "list_all (\<lambda>(ns, act, rns, rn, own).
      to_ascii_lowercase (trim ns) \<notin> {''governance'', ''operator''}) regs
      \<or> ks = [User] \<and> rs = [''operator'']"
  shows "all_policies operator_policy ks rs regs"
  using assms
  by (fastforce intro!: all_policiesI simp: operator_policy_def list_all_iff
      dest!: policy_of_Some)

lemmas inventory_defs =
  closure_actions_def platform_actions_def image_actions_def network_actions_def
  compute_actions_def volume_actions_def native_network_actions_def operator_actions_def
  metering_actions_def

lemma standard_owned: "map_of standard a = Some p \<Longrightarrow> owned_policy p"
  by (rule standard_all)
    (assumption | rule owned_check |
     simp only: inventory_defs append.simps list.pred_inject case_prod_conv simp_thms trim_names
       lower_names unowned_actions_def list.set insert_iff)+

lemma standard_operator: "map_of standard a = Some p \<Longrightarrow> operator_policy p"
  by (rule standard_all)
    (assumption | rule operator_check |
     simp add: inventory_defs trim_names lower_names)+

lemma standard_keys: "map_of standard a = Some p \<Longrightarrow> policy_action p = a"
  unfolding standard_def register_standard_actions_def Let_def
  by (auto simp: map_of_reg_with split: option.splits if_splits dest!: reg_fold_origin)

text \<open>
  C2: tenant isolation on the standard inventory: apart from the twenty actions that are not
  owner-scoped and from a system operator reading quota, an allowed request has a target
  whose recorded owner is the scope of the caller.
\<close>

theorem tenant_isolation:
  assumes "authorize standard r = Allow" and "req_action r \<notin> set unowned_actions"
  shows "owner_exempt r \<or> target_owner (req_target r) = Some (caller_scope r)"
proof -
  obtain p where p: "map_of standard (req_action r) = Some p"
    using static_authorizer.allow_known [OF assms(1)] by blast
  with assms(2) have "require_ownership p"
    using standard_owned [OF p] standard_keys [OF p] by (simp add: owned_policy_def)
  then show ?thesis using static_authorizer.allow_owner [OF assms(1) p] by blast
qed

lemma standard_tail:
  "map_of standard a =
     (if a = ActionId ''building_block'' ''EnrollBuildingBlock''
      then policy_of [Service] [] (''building_block'', ''EnrollBuildingBlock'',
             ''building_block'', ''building_block'', False)
      else if a = ActionId ''metering'' ''ReadUsageAll''
      then policy_of [User] [''operator''] (''metering'', ''ReadUsageAll'', ''metering'',
             ''usage'', False)
      else if a = ActionId ''metering'' ''ReadUsage''
      then policy_of [User] [] (''metering'', ''ReadUsage'', ''metering'', ''usage'', True)
      else if a = ActionId ''metering'' ''ReadDefinitions''
      then policy_of [User] [] (''metering'', ''ReadDefinitions'', ''metering'', ''definitions'',
             False)
      else if a = ActionId ''operator'' ''ReadDiagnostics''
      then policy_of [User] [''operator''] (''operator'', ''ReadDiagnostics'', ''operator'',
             ''diagnostics'', False)
      else map_of (foldl (reg_with [User] [''operator''])
             (foldl (reg_with [User, Service] []) [] closure_actions)
             (take 4 operator_actions)) a)"
proof -
  have trims: "trim ''usage'' = ''usage''" "trim ''definitions'' = ''definitions''"
    "trim ''ReadUsage'' = ''ReadUsage''" "trim ''diagnostics'' = ''diagnostics''"
    by code_simp+
  show ?thesis
    unfolding standard_def register_standard_actions_def Let_def
    by (simp add: map_of_reg_with operator_actions_def metering_actions_def policy_of_def
        action_id_new_def resource_type_new_def trim_names lower_names trims
        del: foldl_append)
qed

lemma policy_of_own_usage:
  "policy_of [User] [] (''metering'', ''ReadUsage'', ''metering'', ''usage'', True) =
     Some \<lparr>policy_action = ActionId ''metering'' ''ReadUsage'',
           expected_resource_type = ResourceType ''metering'' ''usage'',
           accepted_principals = [User], require_ownership = True, required_roles = []\<rparr>"
  by code_simp

theorem tenant_isolation_witness:
  defines "r \<equiv> \<lparr>auth_context = example_ctx example_user Project ''proj-1'' [],
      req_action = ActionId ''metering'' ''ReadUsage'',
      req_target = Collection (ResourceType ''metering'' ''usage'') (Some (ScopeId ''proj-1''))\<rparr>"
  shows "authorize standard r = Allow \<and> target_owner (req_target r) = Some (caller_scope r)"
proof -
  have "authorize standard r = Allow"
    by (simp add: authorize_permitted permitted_def standard_tail policy_of_own_usage
        meets_policy_def gate_defs r_def example_defs)
  moreover have "req_action r \<notin> set unowned_actions"
    by (simp add: r_def unowned_actions_def)
  ultimately show ?thesis
    using tenant_isolation [of r] by (auto simp: owner_exempt_def r_def)
qed

text \<open>
  Operator authority on the standard inventory: an allowed governance or operator read
  request comes from a user principal, in a system scope, that holds the operator role. A
  role string \<open>operator\<close> held in a project is not enough.
\<close>

theorem operator_authority:
  assumes "authorize standard r = Allow"
    and "action_namespace (req_action r) = ''governance''
      \<or> req_action r \<in> {ActionId ''operator'' ''ReadProfile'',
                         ActionId ''operator'' ''ReadDiagnostics''}"
  shows "caller_kind r = User \<and> kind_of_request r = System
    \<and> has_role (auth_context r) ''operator''"
proof -
  obtain p where p: "map_of standard (req_action r) = Some p"
    using static_authorizer.allow_known [OF assms(1)] by blast
  with assms(2) have "accepted_principals p = [User]" "required_roles p = [''operator'']"
    using standard_operator [OF p] standard_keys [OF p] by (auto simp: operator_policy_def)
  then have "caller_kind r = User" "has_role (auth_context r) ''operator''"
    using static_authorizer.allow_meets [OF assms(1) p] by (auto simp: meets_policy_def)
  moreover have "system_gated (req_action r)"
    using assms(2) by (auto simp: system_gated_def)
  ultimately show ?thesis
    using authorize_gates [OF assms(1)] by (simp add: passes_gates_def)
qed

lemma policy_of_diagnostics:
  "policy_of [User] [''operator''] (''operator'', ''ReadDiagnostics'', ''operator'',
       ''diagnostics'', False) =
     Some \<lparr>policy_action = ActionId ''operator'' ''ReadDiagnostics'',
           expected_resource_type = ResourceType ''operator'' ''diagnostics'',
           accepted_principals = [User], require_ownership = False,
           required_roles = [''operator'']\<rparr>"
  by code_simp

theorem operator_authority_witness:
  defines "r \<equiv> \<lparr>auth_context = example_ctx example_user System ''system'' [''Operator''],
      req_action = ActionId ''operator'' ''ReadDiagnostics'',
      req_target = Collection (ResourceType ''operator'' ''diagnostics'') None\<rparr>"
  shows "authorize standard r = Allow \<and> has_role (auth_context r) ''operator''"
proof -
  have "authorize standard r = Allow"
    by (simp add: authorize_permitted permitted_def standard_tail policy_of_diagnostics
        meets_policy_def gate_defs r_def example_defs has_role_def eq_ignore_ascii_case_def
        to_ascii_lowercase_def)
  then show ?thesis using operator_authority [of r] by (simp add: r_def)
qed

text \<open>
  The last registration of an action wins: building-block enrollment, which the closure
  first registers for users and services, is allowed for service principals only.
\<close>

theorem enroll_service_only:
  assumes "authorize standard r = Allow"
    and "req_action r = ActionId ''building_block'' ''EnrollBuildingBlock''"
  shows "caller_kind r = Service"
proof -
  obtain p where p: "map_of standard (req_action r) = Some p"
    using static_authorizer.allow_known [OF assms(1)] by blast
  with assms(2) have "accepted_principals p = [Service]"
    by (auto simp: standard_tail dest!: policy_of_Some)
  then show ?thesis
    using static_authorizer.allow_meets [OF assms(1) p] by (auto simp: meets_policy_def)
qed

definition example_service :: principal where
  "example_service =
     ServicePrincipal \<lparr>service_id = PrincipalId ''svc-1'', service_name = ''agent'',
       service_type = ''compute''\<rparr>"

theorem enroll_service_only_witness:
  defines "r \<equiv> \<lparr>auth_context = example_ctx example_service Project ''proj-1'' [],
      req_action = ActionId ''building_block'' ''EnrollBuildingBlock'',
      req_target = Collection (ResourceType ''building_block'' ''building_block'') None\<rparr>"
  shows "authorize standard r = Allow \<and> caller_kind r = Service"
proof -
  have "policy_of [Service] [] (''building_block'', ''EnrollBuildingBlock'',
        ''building_block'', ''building_block'', False) =
      Some \<lparr>policy_action = ActionId ''building_block'' ''EnrollBuildingBlock'',
        expected_resource_type = ResourceType ''building_block'' ''building_block'',
        accepted_principals = [Service], require_ownership = False, required_roles = []\<rparr>"
    by code_simp
  then have "authorize standard r = Allow"
    by (simp add: authorize_permitted permitted_def standard_tail meets_policy_def gate_defs
        r_def example_defs example_service_def)
  then show ?thesis using enroll_service_only [of r] by (simp add: r_def)
qed

section \<open>Capabilities\<close>

lemma register_distinct: "distinct (map fst P) \<Longrightarrow> distinct (map fst (register P p))"
  by (simp add: register_def distinct_update)

lemma foldl_register_distinct:
  "distinct (map fst P) \<Longrightarrow> distinct (map fst (foldl register P ps))"
  by (induction ps arbitrary: P) (auto simp: register_distinct)

text \<open>
  \<open>capabilities\<close> lists exactly the policies in force, whatever was registered and
  replaced before, in the order of their action's string.
\<close>

theorem capabilities_complete:
  "set (capabilities (foldl register [] ps)) = ran (map_of (foldl register [] ps))
   \<and> sorted (map (\<lambda>p. action_id_as_str (policy_action p)) (capabilities (foldl register [] ps)))"
proof -
  have "distinct (map fst (foldl register [] ps))"
    by (rule foldl_register_distinct) simp
  then show ?thesis by (simp add: capabilities_def ran_distinct)
qed

end
