(* ===== verification/Kernel_Bootstrap.thy ===== *)
theory Kernel_Bootstrap
  imports Rust_Prelude
begin

text \<open>
  The control-plane bootstrap (\<open>crates/o3k-kernel/src/bootstrap.rs\<close>): the bootstrap state
  and its operations, the single-use enrollment grant, the transaction that consumes a grant
  in the store (\<open>crates/o3k-store/src/sqlite/bootstrap.rs\<close>) and the state change of a join
  (\<open>bins/o3kd/src/native_adapters/bootstrap.rs\<close>). Lemmas: the invariant of the state, its
  idempotence and identity fence, single use and expiry of grants, and what the
  store's transaction keeps of the kernel's \<open>consume\<close>: everything but the agent, which it is not
  given; the join checks it (\<open>Bootstrap_Join\<close>). A grant's random identifier is an argument.
\<close>

section \<open>The bootstrap state\<close>

datatype bootstrap_phase = Uninitialized | Initialized | Enrolling | Ready | Failed

datatype bootstrap_error =
  InvalidIdentifier | NotInitialized | Conflict | InvalidGrant | GrantExpired | Unauthorized

record bootstrap_state =
  generation :: u64
  phase :: bootstrap_phase
  cloud_identity_id :: string
  cloud_profile_id :: string
  enrolled_agents :: "string \<rightharpoonup> string"

definition uninitialized :: bootstrap_state where
  "uninitialized =
     \<lparr>generation = 0, phase = Uninitialized, cloud_identity_id = [], cloud_profile_id = [],
      enrolled_agents = Map.empty\<rparr>"

definition validate_id :: "string \<Rightarrow> bootstrap_error option" where
  "validate_id v =
     (if trim v = [] \<or> length (trim v) > 256 \<or> trim v \<noteq> v then Some InvalidIdentifier
      else None)"

definition initialize ::
  "bootstrap_state \<Rightarrow> string \<Rightarrow> string \<Rightarrow> (bootstrap_error, bootstrap_state) rust_result" where
  "initialize s identity profile =
     (case validate_id identity of Some e \<Rightarrow> Inl e | None \<Rightarrow>
      case validate_id profile of Some e \<Rightarrow> Inl e | None \<Rightarrow>
        if phase s \<noteq> Uninitialized
           \<and> (cloud_identity_id s \<noteq> identity \<or> cloud_profile_id s \<noteq> profile)
        then Inl Conflict
        else
          let s1 = s\<lparr>cloud_identity_id := identity, cloud_profile_id := profile\<rparr>
          in Inr (if phase s = Uninitialized
                  then s1\<lparr>phase := Initialized, generation := saturating_add (generation s) 1\<rparr>
                  else s1))"

definition begin_enrollment ::
  "bootstrap_state \<Rightarrow> (bootstrap_error, bootstrap_state) rust_result" where
  "begin_enrollment s =
     (if phase s = Uninitialized then Inl NotInitialized
      else Inr (if phase s \<noteq> Ready
                then s\<lparr>phase := Enrolling, generation := saturating_add (generation s) 1\<rparr>
                else s))"

definition record_agent ::
  "bootstrap_state \<Rightarrow> string \<Rightarrow> string \<Rightarrow> (bootstrap_error, bootstrap_state) rust_result" where
  "record_agent s agent fingerprint =
     (case validate_id agent of Some e \<Rightarrow> Inl e | None \<Rightarrow>
      case validate_id fingerprint of Some e \<Rightarrow> Inl e | None \<Rightarrow>
        if (case enrolled_agents s agent of Some previous \<Rightarrow> previous \<noteq> fingerprint
            | None \<Rightarrow> False)
        then Inl Conflict
        else Inr (s\<lparr>enrolled_agents := (enrolled_agents s)(agent \<mapsto> fingerprint), phase := Ready,
                    generation := saturating_add (generation s) 1\<rparr>))"

definition is_ready :: "bootstrap_state \<Rightarrow> bool" where
  "is_ready s = (phase s = Ready)"

text \<open>
  The state change of a first join: enrollment begins and the agent is recorded, on a copy
  that is stored only when both succeed. The adapter answers every error as a conflict.
\<close>

definition join_agent ::
  "bootstrap_state \<Rightarrow> string \<Rightarrow> string \<Rightarrow> (bootstrap_error, bootstrap_state) rust_result" where
  "join_agent s agent fingerprint =
     (case begin_enrollment s of
        Inl _ \<Rightarrow> Inl Conflict
      | Inr s1 \<Rightarrow>
          (case record_agent s1 agent fingerprint of
             Inl _ \<Rightarrow> Inl Conflict
           | Inr s2 \<Rightarrow> Inr s2))"

datatype bootstrap_op = Init string string | Join string string

fun bootstrap_step ::
  "bootstrap_state \<Rightarrow> bootstrap_op \<Rightarrow> (bootstrap_error, bootstrap_state) rust_result" where
  "bootstrap_step s (Init i p) = initialize s i p"
| "bootstrap_step s (Join a f) = join_agent s a f"

section \<open>Enrollment grants\<close>

record enrollment_grant =
  grant_id :: string
  grant_agent_id :: string
  token_digest :: string
  issued_at_unix_ms :: u64
  expires_at_unix_ms :: u64
  used_at_unix_ms :: "u64 option"

definition grant_new ::
  "string \<Rightarrow> string \<Rightarrow> string \<Rightarrow> u64 \<Rightarrow> u64 \<Rightarrow> (bootstrap_error, enrollment_grant) rust_result" where
  "grant_new uuid agent digest now ttl =
     (case validate_id agent of Some e \<Rightarrow> Inl e | None \<Rightarrow>
        if trim digest = [] \<or> ttl = 0 then Inl InvalidGrant
        else Inr \<lparr>grant_id = uuid, grant_agent_id = agent, token_digest = digest,
                  issued_at_unix_ms = now, expires_at_unix_ms = saturating_add now ttl,
                  used_at_unix_ms = None\<rparr>)"

definition grant_consume ::
  "enrollment_grant \<Rightarrow> string \<Rightarrow> string \<Rightarrow> u64 \<Rightarrow> (bootstrap_error, enrollment_grant) rust_result"
  where
  "grant_consume g digest agent now =
     (if used_at_unix_ms g \<noteq> None \<or> now \<ge> expires_at_unix_ms g then Inl GrantExpired
      else if grant_agent_id g \<noteq> agent \<or> token_digest g \<noteq> digest then Inl Unauthorized
      else Inr (g\<lparr>used_at_unix_ms := Some now\<rparr>))"

text \<open>
  The grant table of the store. A row holds signed 64-bit integers; reading one fails when a
  value is negative, writing one when a value does not fit, when the key is taken, or when it
  would expire before it is issued.
\<close>

datatype grant_store_error = StoreCorrupt | StoreDatabase | ResourceNotFound | OwnershipConflict

record grant_row =
  row_agent :: string
  row_digest :: string
  row_issued :: int
  row_expires :: int
  row_used :: "int option"

type_synonym grant_table = "string \<rightharpoonup> grant_row"

definition grant_of_row ::
  "string \<Rightarrow> grant_row \<Rightarrow> (grant_store_error, enrollment_grant) rust_result" where
  "grant_of_row i r =
     (case (u64_of_i64 (row_issued r), u64_of_i64 (row_expires r)) of
        (Some issued, Some expires) \<Rightarrow>
          (case row_used r of
             None \<Rightarrow> Inr \<lparr>grant_id = i, grant_agent_id = row_agent r, token_digest = row_digest r,
                         issued_at_unix_ms = issued, expires_at_unix_ms = expires,
                         used_at_unix_ms = None\<rparr>
           | Some u \<Rightarrow>
               (case u64_of_i64 u of
                  Some used \<Rightarrow>
                    Inr \<lparr>grant_id = i, grant_agent_id = row_agent r,
                         token_digest = row_digest r, issued_at_unix_ms = issued,
                         expires_at_unix_ms = expires, used_at_unix_ms = Some used\<rparr>
                | None \<Rightarrow> Inl StoreCorrupt))
      | _ \<Rightarrow> Inl StoreCorrupt)"

definition insert_grant ::
  "grant_table \<Rightarrow> enrollment_grant \<Rightarrow> (grant_store_error, grant_table) rust_result" where
  "insert_grant T g =
     (case (i64_of_u64 (issued_at_unix_ms g), i64_of_u64 (expires_at_unix_ms g)) of
        (Some issued, Some expires) \<Rightarrow>
          if T (grant_id g) \<noteq> None \<or> expires < issued then Inl StoreDatabase
          else Inr (T(grant_id g \<mapsto>
            \<lparr>row_agent = grant_agent_id g, row_digest = token_digest g, row_issued = issued,
             row_expires = expires,
             row_used = Option.bind (used_at_unix_ms g) i64_of_u64\<rparr>))
      | _ \<Rightarrow> Inl StoreCorrupt)"

definition store_consume_grant ::
  "grant_table \<Rightarrow> string \<Rightarrow> string \<Rightarrow> u64
     \<Rightarrow> (grant_store_error, grant_table \<times> enrollment_grant) rust_result" where
  "store_consume_grant T i digest now =
     (case T i of None \<Rightarrow> Inl ResourceNotFound | Some r \<Rightarrow>
      case grant_of_row i r of Inl e \<Rightarrow> Inl e | Inr g \<Rightarrow>
        if token_digest g \<noteq> digest \<or> used_at_unix_ms g \<noteq> None \<or> now \<ge> expires_at_unix_ms g
        then Inl OwnershipConflict
        else
          (case i64_of_u64 now of
             None \<Rightarrow> Inl StoreCorrupt
           | Some t \<Rightarrow>
               if row_used r \<noteq> None then Inl OwnershipConflict
               else Inr (T(i \<mapsto> r\<lparr>row_used := Some t\<rparr>), g\<lparr>used_at_unix_ms := Some now\<rparr>)))"

section \<open>The invariant of the bootstrap state\<close>

definition valid_id :: "string \<Rightarrow> bool" where
  "valid_id v \<longleftrightarrow> v \<noteq> [] \<and> length v \<le> 256 \<and> trim v = v"

definition bootstrap_inv :: "bootstrap_state \<Rightarrow> bool" where
  "bootstrap_inv s \<longleftrightarrow>
     (if phase s = Uninitialized
      then cloud_identity_id s = [] \<and> cloud_profile_id s = [] \<and> enrolled_agents s = Map.empty
      else valid_id (cloud_identity_id s) \<and> valid_id (cloud_profile_id s))
     \<and> (\<forall>a f. enrolled_agents s a = Some f \<longrightarrow> valid_id a \<and> valid_id f)
     \<and> (phase s = Ready \<longrightarrow> enrolled_agents s \<noteq> Map.empty)"

lemma validate_id_eq:
  "validate_id v = (if valid_id v then None else Some InvalidIdentifier)"
  by (auto simp: validate_id_def valid_id_def)

lemma initialize_cases:
  "initialize s i p = Inr s' \<longleftrightarrow>
     valid_id i \<and> valid_id p
     \<and> (if phase s = Uninitialized
        then s' = s\<lparr>cloud_identity_id := i, cloud_profile_id := p, phase := Initialized,
                     generation := saturating_add (generation s) 1\<rparr>
        else cloud_identity_id s = i \<and> cloud_profile_id s = p \<and> s' = s)"
  by (auto simp: initialize_def Let_def validate_id_eq)

lemma join_agent_cases:
  "join_agent s a f = Inr s' \<longleftrightarrow>
     phase s \<noteq> Uninitialized \<and> valid_id a \<and> valid_id f
     \<and> enrolled_agents s a \<in> {None, Some f}
     \<and> s' = s\<lparr>enrolled_agents := (enrolled_agents s)(a \<mapsto> f), phase := Ready,
              generation := saturating_add
                (if phase s = Ready then generation s else saturating_add (generation s) 1) 1\<rparr>"
  by (cases "enrolled_agents s a")
    (auto simp: join_agent_def begin_enrollment_def record_agent_def validate_id_eq)

lemma bootstrap_step_inv:
  assumes "bootstrap_inv s" and "bootstrap_step s x = Inr s'"
  shows "bootstrap_inv s'"
  using assms
  by (cases x) (auto simp: initialize_cases join_agent_cases bootstrap_inv_def split: if_splits)

lemma saturating_twice: "unat a \<le> unat (saturating_add (saturating_add a 1) 1)"
  using saturating_add_ge [of a 1] saturating_add_ge [of "saturating_add a 1" 1] by linarith

lemma bootstrap_step_gen:
  "bootstrap_step s x = Inr s' \<Longrightarrow> unat (generation s) \<le> unat (generation s')"
  by (cases x)
    (auto simp: initialize_cases join_agent_cases saturating_add_ge saturating_twice
      split: if_splits)

interpretation bootstrap_machine:
  generation_machine bootstrap_step bootstrap_inv "\<lambda>s. unat (generation s)"
  by unfold_locales (auto intro: bootstrap_step_inv bootstrap_step_gen)

lemma bootstrap_inv_uninitialized: "bootstrap_inv uninitialized"
  by (simp add: bootstrap_inv_def uninitialized_def)

text \<open>
  From the uninitialized state, any sequence of initializations and joins, failed ones
  included, keeps the bootstrap invariant: an initialized cloud has a well-formed identity
  and profile, every enrolled agent and fingerprint is well formed, and the cloud is ready
  only when an agent is enrolled.
\<close>

theorem bootstrap_run_inv:
  "bootstrap_inv (run_ops bootstrap_step uninitialized ops)"
  by (rule bootstrap_machine.run_inv) (rule bootstrap_inv_uninitialized)

lemma bootstrap_apply_fixed:
  "phase s \<noteq> Uninitialized \<Longrightarrow>
     phase (apply_op bootstrap_step s x) \<noteq> Uninitialized
     \<and> cloud_identity_id (apply_op bootstrap_step s x) = cloud_identity_id s
     \<and> cloud_profile_id (apply_op bootstrap_step s x) = cloud_profile_id s
     \<and> enrolled_agents s \<subseteq>\<^sub>m enrolled_agents (apply_op bootstrap_step s x)"
  by (cases x)
    (auto simp: apply_op_def initialize_cases join_agent_cases map_le_def split: sum.splits)

text \<open>
  The canonical cloud identity is fixed by the first initialization: whatever is
  requested afterwards, the identity and profile stay, and an enrolled agent keeps its
  certificate fingerprint.
\<close>

theorem bootstrap_identity_fixed:
  assumes "phase s \<noteq> Uninitialized"
  shows "cloud_identity_id (run_ops bootstrap_step s ops) = cloud_identity_id s
    \<and> cloud_profile_id (run_ops bootstrap_step s ops) = cloud_profile_id s
    \<and> enrolled_agents s \<subseteq>\<^sub>m enrolled_agents (run_ops bootstrap_step s ops)"
  using assms
proof (induction ops arbitrary: s)
  case (Cons x xs)
  note f = bootstrap_apply_fixed [OF Cons.prems, of x]
  with Cons.IH [of "apply_op bootstrap_step s x"] show ?case
    by (auto intro: map_le_trans)
qed simp

theorem bootstrap_identity_fixed_witness:
  defines "s \<equiv> run_ops bootstrap_step uninitialized [Init ''cloud'' ''default'', Join ''n1'' ''fp'']"
  shows "phase s = Ready
    \<and> cloud_identity_id (run_ops bootstrap_step s [Init ''other'' ''default'', Join ''n1'' ''x''])
        = ''cloud''"
proof -
  have v: "valid_id ''cloud''" "valid_id ''default''" "valid_id ''n1''" "valid_id ''fp''"
    unfolding valid_id_def by code_simp+
  then have s: "phase s = Ready" "cloud_identity_id s = ''cloud''"
    by (simp_all add: s_def apply_op_def initialize_def join_agent_def begin_enrollment_def
        record_agent_def Let_def uninitialized_def validate_id_eq)
  then have "phase s \<noteq> Uninitialized" by simp
  from bootstrap_identity_fixed [OF this] s show ?thesis by (simp del: run_ops.simps)
qed

text \<open>
  Initialization is idempotent: after it has succeeded, the same request succeeds again
  and changes nothing, and a request with another identity or profile is a conflict.
\<close>

theorem initialize_idempotent:
  assumes "initialize s i p = Inr s'"
  shows "initialize s' i p = Inr s'
    \<and> (valid_id i' \<and> valid_id p' \<and> (i', p') \<noteq> (i, p) \<longrightarrow> initialize s' i' p' = Inl Conflict)"
proof -
  have "valid_id i" "valid_id p" "phase s' \<noteq> Uninitialized" "cloud_identity_id s' = i"
    "cloud_profile_id s' = p"
    using assms by (auto simp: initialize_cases split: if_splits)
  then show ?thesis
    by (auto simp: initialize_cases) (auto simp: initialize_def validate_id_eq)
qed

theorem initialize_idempotent_witness:
  "\<exists>s'. initialize uninitialized ''cloud'' ''default'' = Inr s'
     \<and> initialize s' ''cloud'' ''default'' = Inr s'
     \<and> initialize s' ''cloud'' ''edge'' = Inl Conflict"
proof -
  have v: "valid_id ''cloud''" "valid_id ''default''" "valid_id ''edge''"
    unfolding valid_id_def by code_simp+
  then obtain s' where "initialize uninitialized ''cloud'' ''default'' = Inr s'"
    by (auto simp: initialize_def validate_id_eq uninitialized_def Let_def)
  with initialize_idempotent [OF this, of "''cloud''" "''edge''"] v show ?thesis by auto
qed

section \<open>Grants\<close>

lemma grant_consume_Inr:
  "grant_consume g d a t = Inr g' \<longleftrightarrow>
     used_at_unix_ms g = None \<and> t < expires_at_unix_ms g \<and> grant_agent_id g = a
     \<and> token_digest g = d \<and> g' = g\<lparr>used_at_unix_ms := Some t\<rparr>"
  by (auto simp: grant_consume_def not_le)

text \<open>
  A grant is single use, bound and short-lived: it is consumed only by the agent and
  digest it was issued for and before it expires, and once consumed every later attempt,
  by anyone and at any time, is answered \<open>GrantExpired\<close>.
\<close>

theorem grant_single_use:
  assumes "grant_consume g d a t = Inr g'"
  shows "grant_agent_id g = a \<and> token_digest g = d \<and> t < expires_at_unix_ms g
    \<and> grant_consume g' d' a' t' = Inl GrantExpired"
  using assms by (auto simp: grant_consume_Inr) (simp add: grant_consume_def)

theorem grant_single_use_witness:
  "\<exists>g g'. grant_new ''g1'' ''node-1'' ''digest'' 10 100 = Inr g
     \<and> grant_consume g ''digest'' ''node-1'' 20 = Inr g'
     \<and> grant_consume g' ''digest'' ''node-1'' 21 = Inl GrantExpired"
proof -
  have "valid_id ''node-1''" "trim ''digest'' \<noteq> []"
    unfolding valid_id_def by code_simp+
  then obtain g where g: "grant_new ''g1'' ''node-1'' ''digest'' 10 100 = Inr g"
    and "expires_at_unix_ms g = saturating_add 10 100" "used_at_unix_ms g = None"
    "grant_agent_id g = ''node-1''" "token_digest g = ''digest''"
    by (auto simp: grant_new_def validate_id_eq)
  moreover have "saturating_add (10 :: u64) 100 = 110"
    by (simp add: saturating_add_def)
  ultimately obtain g' where "grant_consume g ''digest'' ''node-1'' 20 = Inr g'"
    by (auto simp: grant_consume_def)
  with grant_single_use [OF this, of "''digest''" "''node-1''" 21] g show ?thesis by blast
qed

lemma grant_of_row_Inr:
  "grant_of_row i r = Inr g \<Longrightarrow>
     token_digest g = row_digest r \<and> grant_agent_id g = row_agent r
     \<and> (used_at_unix_ms g = None \<longleftrightarrow> row_used r = None)"
  by (auto simp: grant_of_row_def split: option.splits)

lemma grant_of_row_used:
  assumes "grant_of_row i r = Inr g" and "i64_of_u64 now = Some t"
  shows "grant_of_row i (r\<lparr>row_used := Some t\<rparr>) = Inr (g\<lparr>used_at_unix_ms := Some now\<rparr>)"
  using assms u64_of_i64_of_u64 [OF assms(2)]
  by (auto simp: grant_of_row_def split: option.splits)

lemma store_consume_cases:
  assumes "store_consume_grant T i d now = Inr (T', g')"
  obtains r g t where "T i = Some r" "grant_of_row i r = Inr g" "i64_of_u64 now = Some t"
    "token_digest g = d" "used_at_unix_ms g = None" "now < expires_at_unix_ms g"
    "T' = T(i \<mapsto> r\<lparr>row_used := Some t\<rparr>)" "g' = g\<lparr>used_at_unix_ms := Some now\<rparr>"
  using assms
  by (auto simp: store_consume_grant_def not_le split: option.splits sum.splits if_splits)

text \<open>
  The store's transaction makes every check of the kernel's \<open>consume\<close> but the agent's: where it
  succeeds, the row represents a grant with the digest, unused and not expired, and \<open>consume\<close>
  gives the same grant to the agent it was issued for and to no other. The updated row
  represents the result, no other row changes, and the grant cannot be consumed again.
\<close>

lemma store_consume_kernel:
  assumes "store_consume_grant T i d now = Inr (T', g')"
  obtains r g where "T i = Some r" "grant_of_row i r = Inr g"
    "\<And>a. grant_consume g d a now = (if a = grant_agent_id g then Inr g' else Inl Unauthorized)"
    "\<And>j. j \<noteq> i \<Longrightarrow> T' j = T j"
    "map_option (grant_of_row i) (T' i) = Some (Inr g')" "used_at_unix_ms g' \<noteq> None"
    "\<And>d' now'. store_consume_grant T' i d' now' = Inl OwnershipConflict"
proof (rule store_consume_cases [OF assms])
  fix r g t
  assume h: "T i = Some r" "grant_of_row i r = Inr g" "i64_of_u64 now = Some t"
    "token_digest g = d" "used_at_unix_ms g = None" "now < expires_at_unix_ms g"
    "T' = T(i \<mapsto> r\<lparr>row_used := Some t\<rparr>)" "g' = g\<lparr>used_at_unix_ms := Some now\<rparr>"
  note used = grant_of_row_used [OF h(2,3)]
  show thesis
  proof (rule that [OF h(1,2)])
    show "grant_consume g d a now = (if a = grant_agent_id g then Inr g' else Inl Unauthorized)" for a
      using h(4-6,8) by (auto simp: grant_consume_def)
  qed (use h used in \<open>simp_all add: store_consume_grant_def\<close>)
qed

end
