(* ===== verification/Bootstrap_Join.thy ===== *)
theory Bootstrap_Join
  imports Kernel_Bootstrap Kernel_Identifiers
begin

text \<open>
  The bootstrap adapter (\<open>bins/o3kd/src/native_adapters/bootstrap.rs\<close>) over the store's bootstrap
  row and grant table: \<open>init\<close>, which initialises the cloud and hands out an enrollment grant, and
  \<open>join\<close>, which admits an agent against a grant. Both run under the adapter's lock, so a call is
  one step; several processes on one database are not modelled. What the calls outside these
  two tables answer is part of a call's run: the location registry, the agent registry, the
  placement ledger and the building blocks, the cloud profile, the clock, the random
  identifiers, and for each write whether the database took it or the call ended before it.
  SHA-256 is an argument, \<open>sha\<close>; the readiness flag and the fields of the answers that repeat
  the request are left out. Lemmas: a grant that was consumed admits no further agent.
\<close>

section \<open>The store\<close>

datatype bootstrap_failure =
  FailUnauthorized | FailConflict | FailInvalid | FailUnavailable | FailInternal

record bootstrap_store =
  bs_state :: "bootstrap_state option"
  bs_grants :: grant_table

text \<open>
  The row of the state is written as a whole; its texts are written and read by the same
  adapter and kept as values here. A generation has to fit the column's signed integer.
\<close>

definition upsert_bootstrap_state ::
  "bootstrap_store \<Rightarrow> bootstrap_state \<Rightarrow> (grant_store_error, bootstrap_store) rust_result" where
  "upsert_bootstrap_state B s =
     (case i64_of_u64 (generation s) of
        None \<Rightarrow> Inl StoreCorrupt
      | Some _ \<Rightarrow> Inr (B\<lparr>bs_state := Some s\<rparr>))"

definition get_enrollment_grant ::
  "grant_table \<Rightarrow> string \<Rightarrow> (grant_store_error, enrollment_grant option) rust_result" where
  "get_enrollment_grant T i =
     (case T i of
        None \<Rightarrow> Inr None
      | Some r \<Rightarrow> (case grant_of_row i r of Inl e \<Rightarrow> Inl e | Inr g \<Rightarrow> Inr (Some g)))"

section \<open>Initialisation\<close>

record init_request =
  init_profile :: "string option"
  init_agent :: "string option"

record init_run =
  in_profile :: "bootstrap_failure option"
  in_uuids :: "string \<times> string"
  in_now :: u64
  in_upsert :: bool
  in_audit :: bool
  in_insert :: bool

definition grant_ttl_ms :: u64 where "grant_ttl_ms = 5 * 60 * 1000"

definition init_state ::
  "bootstrap_store \<Rightarrow> init_request \<Rightarrow> (bootstrap_error, bootstrap_state) rust_result" where
  "init_state B q =
     initialize (case bs_state B of None \<Rightarrow> uninitialized | Some s \<Rightarrow> s) ''cloud-default''
       (case init_profile q of None \<Rightarrow> ''default'' | Some p \<Rightarrow> p)"

definition init_token :: "init_run \<Rightarrow> string" where
  "init_token w = fst (in_uuids w) @ ''.'' @ snd (in_uuids w)"

definition init_grant :: "(string \<Rightarrow> string) \<Rightarrow> init_request \<Rightarrow> init_run \<Rightarrow> enrollment_grant" where
  "init_grant sha q w =
     \<lparr>grant_id = takeWhile (\<lambda>c. c \<noteq> CHR ''.'') (init_token w),
      grant_agent_id = (case init_agent q of None \<Rightarrow> ''*'' | Some a \<Rightarrow> a),
      token_digest = sha (init_token w), issued_at_unix_ms = in_now w,
      expires_at_unix_ms = saturating_add (in_now w) grant_ttl_ms, used_at_unix_ms = None\<rparr>"

definition init ::
  "string option \<Rightarrow> (string \<Rightarrow> string) \<Rightarrow> bootstrap_store \<Rightarrow> init_request \<Rightarrow> string option \<Rightarrow> init_run
     \<Rightarrow> (bootstrap_failure, string) rust_result \<times> bootstrap_store" where
  "init configured sha B q secret w =
     (if configured = None \<or> secret \<noteq> configured then (Inl FailUnauthorized, B)
      else if (case init_agent q of None \<Rightarrow> False | Some a \<Rightarrow> trim a = []) then (Inl FailInvalid, B)
      else case in_profile w of
        Some e \<Rightarrow> (Inl e, B)
      | None \<Rightarrow>
      case init_state B q of
        Inl _ \<Rightarrow> (Inl FailConflict, B)
      | Inr s \<Rightarrow>
      case upsert_bootstrap_state B s of
        Inl _ \<Rightarrow> (Inl FailInternal, B)
      | Inr B1 \<Rightarrow>
          if \<not> in_upsert w then (Inl FailInternal, B)
          else if \<not> in_audit w then (Inl FailInternal, B1)
          else case insert_grant (bs_grants B1) (init_grant sha q w) of
                 Inl _ \<Rightarrow> (Inl FailInternal, B1)
               | Inr T \<Rightarrow>
                   if in_insert w then (Inr (init_token w), B1\<lparr>bs_grants := T\<rparr>)
                   else (Inl FailInternal, B1))"

section \<open>Joining\<close>

record join_request =
  jr_token :: string
  jr_agent :: string
  jr_epoch :: string
  jr_certificate :: string
  jr_inventories :: "(string \<times> u64) list"

text \<open>
  \<open>jo_located\<close>: the region and the zone of the request are known; \<open>jo_block_ready\<close>: the block of an
  agent that is enrolled was made ready; \<open>jo_effects\<close>: the failure that ended the capabilities,
  the certificate, the agent registry, the provider or the building block, if one did.
\<close>

record join_run =
  jo_located :: bool
  jo_block_ready :: bool
  jo_checked_at :: u64
  jo_effects :: "bootstrap_failure option"
  jo_upsert :: bool
  jo_consumed_at :: u64
  jo_consume :: bool
  jo_audit :: bool

definition join_invalid :: "join_request \<Rightarrow> bool" where
  "join_invalid q \<longleftrightarrow> trim (jr_agent q) = [] \<or> trim (jr_epoch q) = [] \<or> trim (jr_token q) = []
     \<or> trim (jr_certificate q) = [] \<or> jr_inventories q = []"

text \<open>The grant that a request presents, when it admits the request's agent.\<close>

definition presented_grant ::
  "(string \<Rightarrow> string) \<Rightarrow> grant_table \<Rightarrow> join_request \<Rightarrow> u64
     \<Rightarrow> (bootstrap_failure, string) rust_result" where
  "presented_grant sha T q now =
     (case split_once CHR ''.'' (jr_token q) of
        None \<Rightarrow> Inl FailUnauthorized
      | Some (i, _) \<Rightarrow>
      case get_enrollment_grant T i of
        Inl _ \<Rightarrow> Inl FailInternal
      | Inr None \<Rightarrow> Inl FailUnauthorized
      | Inr (Some g) \<Rightarrow>
          if grant_agent_id g \<noteq> ''*'' \<and> grant_agent_id g \<noteq> jr_agent q then Inl FailUnauthorized
          else if token_digest g \<noteq> sha (jr_token q) \<or> used_at_unix_ms g \<noteq> None
                  \<or> now \<ge> expires_at_unix_ms g
          then Inl FailUnauthorized
          else Inr i)"

text \<open>
  The admission of an agent that is not enrolled: the grant is checked, then come the effects
  outside, the enrolled agent is written, and the grant is consumed last.
\<close>

definition admit ::
  "(string \<Rightarrow> string) \<Rightarrow> bootstrap_store \<Rightarrow> bootstrap_state \<Rightarrow> join_request \<Rightarrow> join_run
     \<Rightarrow> (bootstrap_failure, string) rust_result \<times> bootstrap_store" where
  "admit sha B s q w =
     (case presented_grant sha (bs_grants B) q (jo_checked_at w) of
        Inl e \<Rightarrow> (Inl e, B)
      | Inr i \<Rightarrow>
      case jo_effects w of
        Some e \<Rightarrow> (Inl e, B)
      | None \<Rightarrow>
      case join_agent s (jr_agent q) (sha (jr_certificate q)) of
        Inl _ \<Rightarrow> (Inl FailConflict, B)
      | Inr s' \<Rightarrow>
      case upsert_bootstrap_state B s' of
        Inl _ \<Rightarrow> (Inl FailInternal, B)
      | Inr B1 \<Rightarrow>
          if \<not> jo_upsert w then (Inl FailInternal, B)
          else if \<not> jo_consume w then (Inl FailUnauthorized, B1)
          else case store_consume_grant (bs_grants B1) i (sha (jr_token q)) (jo_consumed_at w) of
                 Inl _ \<Rightarrow> (Inl FailUnauthorized, B1)
               | Inr (T, _) \<Rightarrow>
                   (if jo_audit w then Inr (sha (jr_certificate q)) else Inl FailInternal,
                    B1\<lparr>bs_grants := T\<rparr>))"

definition join ::
  "(string \<Rightarrow> string) \<Rightarrow> bootstrap_store \<Rightarrow> join_request \<Rightarrow> join_run
     \<Rightarrow> (bootstrap_failure, string) rust_result \<times> bootstrap_store" where
  "join sha B q w =
     (if join_invalid q then (Inl FailInvalid, B)
      else case bs_state B of
        None \<Rightarrow> (Inl FailUnavailable, B)
      | Some s \<Rightarrow>
          if \<not> jo_located w then (Inl FailInvalid, B)
          else case enrolled_agents s (jr_agent q) of
            Some old \<Rightarrow>
              if old \<noteq> sha (jr_certificate q) \<or> \<not> jo_block_ready w then (Inl FailConflict, B)
              else (Inr (sha (jr_certificate q)), B)
          | None \<Rightarrow> admit sha B s q w)"

section \<open>Runs of the adapter\<close>

datatype adapter_call =
    InitCall init_request "string option" init_run
  | JoinCall join_request join_run

fun bootstrap_call ::
  "string option \<Rightarrow> (string \<Rightarrow> string) \<Rightarrow> bootstrap_store \<Rightarrow> adapter_call
     \<Rightarrow> (bootstrap_failure, bootstrap_store) rust_result" where
  "bootstrap_call configured sha B (InitCall q secret w) = Inr (snd (init configured sha B q secret w))"
| "bootstrap_call configured sha B (JoinCall q w) = Inr (snd (join sha B q w))"

text \<open>A row that is there stays, and once it is used it is never written again.\<close>

definition spent :: "bootstrap_store \<Rightarrow> string \<Rightarrow> grant_row \<Rightarrow> bool" where
  "spent B i r \<longleftrightarrow> bs_grants B i = Some r \<and> row_used r \<noteq> None \<and> bs_state B \<noteq> None"

lemma insert_grant_keeps: "insert_grant T g = Inr T' \<Longrightarrow> T i = Some r \<Longrightarrow> T' i = Some r"
  by (auto simp: insert_grant_def split: option.splits if_splits)

lemma consume_keeps_used:
  "store_consume_grant T j d now = Inr (T', g) \<Longrightarrow> T i = Some r \<Longrightarrow> row_used r \<noteq> None \<Longrightarrow> T' i = Some r"
  by (auto simp: store_consume_grant_def split: option.splits sum.splits if_splits)

lemma upsert_fields:
  "upsert_bootstrap_state B s = Inr B' \<Longrightarrow> B' = B\<lparr>bs_state := Some s\<rparr>"
  by (auto simp: upsert_bootstrap_state_def split: option.splits)

lemma init_keeps_spent: "spent B i r \<Longrightarrow> spent (snd (init c sha B q secret w)) i r"
  by (auto simp: init_def spent_def dest!: upsert_fields dest: insert_grant_keeps
      split: option.split sum.split)

lemma join_keeps_spent: "spent B i r \<Longrightarrow> spent (snd (join sha B q w)) i r"
  by (auto simp: join_def admit_def spent_def dest!: upsert_fields
      dest: consume_keeps_used split: option.splits sum.splits)

interpretation adapter: invariant_machine "bootstrap_call c sha" "\<lambda>B. spent B i r"
proof unfold_locales
  show "bootstrap_call c sha B x = Inr B' \<Longrightarrow> spent B i r \<Longrightarrow> spent B' i r" for B x B'
    by (cases x) (auto simp: init_keeps_spent join_keeps_spent)
qed

section \<open>A grant admits one agent\<close>

lemma presented_grant_Inr:
  assumes "presented_grant sha T q now = Inr i"
  obtains rest g where "split_once CHR ''.'' (jr_token q) = Some (i, rest)"
    "get_enrollment_grant T i = Inr (Some g)" "grant_agent_id g \<in> {''*'', jr_agent q}"
    "token_digest g = sha (jr_token q)" "used_at_unix_ms g = None" "now < expires_at_unix_ms g"
  using assms
  by (auto simp: presented_grant_def not_le split: option.splits sum.splits if_splits)

lemma get_enrollment_grant_Inr:
  "get_enrollment_grant T i = Inr (Some g) \<longleftrightarrow> (\<exists>r. T i = Some r \<and> grant_of_row i r = Inr g)"
  by (auto simp: get_enrollment_grant_def split: option.splits sum.splits)

lemma spent_presented:
  assumes "spent B i r" and "grant_of_row i r = Inr g" and "split_once CHR ''.'' (jr_token q) = Some (i, rest)"
  shows "presented_grant sha (bs_grants B) q now = Inl FailUnauthorized"
proof -
  have "used_at_unix_ms g \<noteq> None" using assms(1) grant_of_row_Inr [OF assms(2)] by (auto simp: spent_def)
  then show ?thesis
    using assms by (auto simp: presented_grant_def get_enrollment_grant_def spent_def)
qed

lemma spent_admits_none:
  assumes "spent B i r" and "grant_of_row i r = Inr g" and "split_once CHR ''.'' (jr_token q) = Some (i, rest)"
    and "bs_state B = Some s" and "enrolled_agents s (jr_agent q) = None"
  shows "join sha B q w =
    (Inl (if join_invalid q \<or> \<not> jo_located w then FailInvalid else FailUnauthorized), B)"
  using spent_presented [OF assms(1-3)] assms(4,5) by (simp add: join_def admit_def)

text \<open>What a join that succeeded for a new agent did.\<close>

lemma admit_cases:
  assumes "admit sha B s q w = (Inr fp, B')"
  obtains i s' T g where "presented_grant sha (bs_grants B) q (jo_checked_at w) = Inr i"
    "join_agent s (jr_agent q) (sha (jr_certificate q)) = Inr s'"
    "store_consume_grant (bs_grants B) i (sha (jr_token q)) (jo_consumed_at w) = Inr (T, g)"
    "B' = B\<lparr>bs_state := Some s', bs_grants := T\<rparr>" "fp = sha (jr_certificate q)"
  using assms
  by (auto simp: admit_def dest!: upsert_fields split: sum.splits option.splits if_splits)

text \<open>
  C3: a join admits a new agent only against a live grant, and spends it. When a join of an agent
  that is not enrolled succeeds, its token names a grant of the table that was issued for this
  agent or for any, holds the token's digest, was unused, and had expired neither when it was
  checked nor when it was consumed; the store's transaction made of it what the kernel's
  \<open>consume\<close> makes of it for the agent it was issued for; and the agent is enrolled with the
  fingerprint of its certificate. Whatever initialisations and joins follow, failed and
  interrupted ones included, no join of a further agent whose token names that grant is
  admitted, and it changes nothing.
\<close>

theorem join_spends_grant:
  assumes "join sha B q w = (Inr fp, B')" and "bs_state B = Some s"
    and "enrolled_agents s (jr_agent q) = None"
  shows "\<exists>i rest g g' s'. split_once CHR ''.'' (jr_token q) = Some (i, rest)
    \<and> get_enrollment_grant (bs_grants B) i = Inr (Some g)
    \<and> grant_agent_id g \<in> {''*'', jr_agent q} \<and> token_digest g = sha (jr_token q)
    \<and> used_at_unix_ms g = None
    \<and> jo_checked_at w < expires_at_unix_ms g \<and> jo_consumed_at w < expires_at_unix_ms g
    \<and> (\<forall>a. grant_consume g (sha (jr_token q)) a (jo_consumed_at w) =
          (if a = grant_agent_id g then Inr g' else Inl bootstrap_error.Unauthorized))
    \<and> get_enrollment_grant (bs_grants B') i = Inr (Some g')
    \<and> bs_state B' = Some s'
    \<and> enrolled_agents s' = (enrolled_agents s)(jr_agent q \<mapsto> sha (jr_certificate q))
    \<and> (\<forall>calls q' w' rest' s''. let B'' = run_ops (bootstrap_call configured sha) B' calls in
          split_once CHR ''.'' (jr_token q') = Some (i, rest') \<and> bs_state B'' = Some s''
            \<and> enrolled_agents s'' (jr_agent q') = None \<longrightarrow>
          join sha B'' q' w' =
            (Inl (if join_invalid q' \<or> \<not> jo_located w' then FailInvalid else FailUnauthorized), B''))"
proof -
  have "admit sha B s q w = (Inr fp, B')"
    using assms by (auto simp: join_def split: if_splits)
  then obtain i s' T g' where
    p: "presented_grant sha (bs_grants B) q (jo_checked_at w) = Inr i" and
    j: "join_agent s (jr_agent q) (sha (jr_certificate q)) = Inr s'" and
    c: "store_consume_grant (bs_grants B) i (sha (jr_token q)) (jo_consumed_at w) = Inr (T, g')" and
    B': "B' = B\<lparr>bs_state := Some s', bs_grants := T\<rparr>"
    by (rule admit_cases)
  from p obtain rest g where i: "split_once CHR ''.'' (jr_token q) = Some (i, rest)" and
    g: "get_enrollment_grant (bs_grants B) i = Inr (Some g)" "grant_agent_id g \<in> {''*'', jr_agent q}"
      "token_digest g = sha (jr_token q)" "used_at_unix_ms g = None"
      "jo_checked_at w < expires_at_unix_ms g"
    by (rule presented_grant_Inr)
  from c obtain r where r: "bs_grants B i = Some r" "grant_of_row i r = Inr g"
    and k: "\<And>a. grant_consume g (sha (jr_token q)) a (jo_consumed_at w) =
      (if a = grant_agent_id g then Inr g' else Inl bootstrap_error.Unauthorized)"
    and row: "map_option (grant_of_row i) (T i) = Some (Inr g')" and used: "used_at_unix_ms g' \<noteq> None"
    using g(1) by (elim store_consume_kernel) (auto simp: get_enrollment_grant_Inr)
  from row obtain r' where r': "T i = Some r'" "grant_of_row i r' = Inr g'" by auto
  have "jo_consumed_at w < expires_at_unix_ms g"
    using k [of "grant_agent_id g"] by (simp add: grant_consume_Inr)
  moreover have "enrolled_agents s' = (enrolled_agents s)(jr_agent q \<mapsto> sha (jr_certificate q))"
    using j by (simp add: join_agent_cases)
  moreover have "get_enrollment_grant (bs_grants B') i = Inr (Some g')"
    using r' by (simp add: B' get_enrollment_grant_Inr)
  moreover have "spent B' i r'"
    using r' used grant_of_row_Inr [OF r'(2)] by (auto simp: spent_def B')
  then have "spent (run_ops (bootstrap_call configured sha) B' calls) i r'" for calls
    by (rule adapter.run_inv)
  then have "join sha B'' q' w' =
      (Inl (if join_invalid q' \<or> \<not> jo_located w' then FailInvalid else FailUnauthorized), B'')"
    if "B'' = run_ops (bootstrap_call configured sha) B' calls" "bs_state B'' = Some s''"
      "split_once CHR ''.'' (jr_token q') = Some (i, rest')" "enrolled_agents s'' (jr_agent q') = None"
    for calls q' w' rest' s'' B''
    using that r'(2) by (intro spent_admits_none) auto
  moreover have "bs_state B' = Some s'" by (simp add: B')
  ultimately show ?thesis
    using i g k unfolding Let_def by blast
qed

section \<open>Demonstration\<close>

definition demo_init :: adapter_call where
  "demo_init = InitCall \<lparr>init_profile = None, init_agent = None\<rparr> (Some ''s'')
     \<lparr>in_profile = None, in_uuids = (''g'', ''x''), in_now = 10, in_upsert = True, in_audit = True,
      in_insert = True\<rparr>"

definition demo_join :: "string \<Rightarrow> join_request" where
  "demo_join a = \<lparr>jr_token = ''g.x'', jr_agent = a, jr_epoch = ''e'', jr_certificate = a,
     jr_inventories = [(''VCPU'', 2)]\<rparr>"

definition demo_joined :: "bool \<Rightarrow> join_run" where
  "demo_joined c = \<lparr>jo_located = True, jo_block_ready = True, jo_checked_at = 20, jo_effects = None,
     jo_upsert = True, jo_consumed_at = 21, jo_consume = c, jo_audit = True\<rparr>"

definition demo_bootstrap :: bootstrap_store where
  "demo_bootstrap = run_ops (bootstrap_call (Some ''s'') id) \<lparr>bs_state = None, bs_grants = Map.empty\<rparr>
     [demo_init]"

lemma demo_valid:
  "valid_id ''cloud-default''" "valid_id ''default''" "valid_id ''n1''" "valid_id ''n2''"
  unfolding valid_id_def by code_simp+

lemma demo_sums:
  "saturating_add (10 :: u64) grant_ttl_ms = 300010" "saturating_add (0 :: u64) 1 = 1"
  "saturating_add (1 :: u64) 1 = 2" "saturating_add (2 :: u64) 1 = 3" "saturating_add (3 :: u64) 1 = 4"
  by (simp_all add: saturating_add_def grant_ttl_ms_def)

lemmas demo_evaluate = i64_of_u64_def u64_of_i64_def i64_max_def upsert_bootstrap_state_def

definition demo_grant_row :: "int option \<Rightarrow> grant_row" where
  "demo_grant_row u = \<lparr>row_agent = ''*'', row_digest = ''g.x'', row_issued = 10, row_expires = 300010,
     row_used = u\<rparr>"

definition demo_state :: "u64 \<Rightarrow> bootstrap_phase \<Rightarrow> (string \<rightharpoonup> string) \<Rightarrow> bootstrap_state" where
  "demo_state n p m = \<lparr>generation = n, phase = p, cloud_identity_id = ''cloud-default'',
     cloud_profile_id = ''default'', enrolled_agents = m\<rparr>"

lemma demo_bootstrap_eq:
  "demo_bootstrap = \<lparr>bs_state = Some (demo_state 1 Initialized Map.empty),
     bs_grants = [''g'' \<mapsto> demo_grant_row None]\<rparr>"
  by (simp add: demo_bootstrap_def demo_init_def apply_op_def init_def init_state_def initialize_def
      validate_id_eq demo_valid demo_sums uninitialized_def demo_evaluate insert_grant_def
      init_grant_def init_token_def demo_grant_row_def demo_state_def)

lemma demo_presented:
  "presented_grant id [''g'' \<mapsto> demo_grant_row None] (demo_join a) 20 = Inr ''g''"
  by (simp add: presented_grant_def demo_join_def get_enrollment_grant_def grant_of_row_def
      demo_grant_row_def demo_evaluate)

lemma demo_consumed:
  "store_consume_grant [''g'' \<mapsto> demo_grant_row None] ''g'' ''g.x'' 21 =
     Inr ([''g'' \<mapsto> demo_grant_row (Some 21)],
       \<lparr>grant_id = ''g'', grant_agent_id = ''*'', token_digest = ''g.x'', issued_at_unix_ms = 10,
        expires_at_unix_ms = 300010, used_at_unix_ms = Some 21\<rparr>)"
  by (simp add: store_consume_grant_def grant_of_row_def demo_grant_row_def demo_evaluate)

lemma demo_join_valid: "\<not> join_invalid (demo_join ''n1'')" "\<not> join_invalid (demo_join ''n2'')"
  by code_simp+

lemma demo_joined_fields [simp]:
  "jo_located (demo_joined c)" "jo_checked_at (demo_joined c) = 20" "jo_effects (demo_joined c) = None"
  "jo_upsert (demo_joined c)" "jo_consumed_at (demo_joined c) = 21" "jo_consume (demo_joined c) = c"
  "jo_audit (demo_joined c)"
  by (simp_all add: demo_joined_def)

lemma demo_join_fields [simp]:
  "jr_agent (demo_join a) = a" "jr_token (demo_join a) = ''g.x''" "jr_certificate (demo_join a) = a"
  by (simp_all add: demo_join_def)

lemma demo_join_n1:
  "join id demo_bootstrap (demo_join ''n1'') (demo_joined c) =
     (if c then Inr ''n1'' else Inl FailUnauthorized,
      \<lparr>bs_state = Some (demo_state 3 Ready [''n1'' \<mapsto> ''n1'']),
       bs_grants = [''g'' \<mapsto> demo_grant_row (if c then Some 21 else None)]\<rparr>)"
  by (simp add: join_def admit_def demo_bootstrap_eq demo_presented demo_consumed demo_join_valid
      demo_valid demo_sums demo_evaluate join_agent_def begin_enrollment_def record_agent_def
      validate_id_eq demo_state_def)

theorem join_spends_grant_witness:
  "\<exists>B'. join id demo_bootstrap (demo_join ''n1'') (demo_joined True) = (Inr ''n1'', B')
     \<and> join id B' (demo_join ''n2'') (demo_joined True) = (Inl FailUnauthorized, B')"
proof -
  obtain B' where j: "join id demo_bootstrap (demo_join ''n1'') (demo_joined True) = (Inr ''n1'', B')"
    by (simp add: demo_join_n1)
  have s: "bs_state demo_bootstrap = Some (demo_state 1 Initialized Map.empty)"
    "enrolled_agents (demo_state 1 Initialized Map.empty) (jr_agent (demo_join ''n1'')) = None"
    by (simp_all add: demo_bootstrap_eq demo_state_def)
  from join_spends_grant [OF j s, of None] show ?thesis
    using j demo_join_valid by (auto simp: Let_def demo_state_def dest!: spec [of _ "[]"])
qed

text \<open>
  A join that ends between the enrolment and the consumption leaves its agent enrolled and the
  grant live: another agent is then admitted with the same token.
\<close>

lemma interrupted_join_admits_two:
  fixes B1 defines "B1 \<equiv> snd (join id demo_bootstrap (demo_join ''n1'') (demo_joined False))"
  shows "join id B1 (demo_join ''n2'') (demo_joined True) =
    (Inr ''n2'', \<lparr>bs_state = Some (demo_state 4 Ready [''n1'' \<mapsto> ''n1'', ''n2'' \<mapsto> ''n2'']),
      bs_grants = [''g'' \<mapsto> demo_grant_row (Some 21)]\<rparr>)"
  by (simp add: B1_def demo_join_n1)
    (simp add: join_def admit_def demo_presented demo_consumed demo_join_valid demo_valid demo_sums
      demo_evaluate join_agent_def begin_enrollment_def record_agent_def validate_id_eq demo_state_def)

end
