(* ===== verification/Kernel_Building_Block.thy ===== *)
theory Kernel_Building_Block
  imports Rust_Prelude
begin

text \<open>
  The lifecycle of a deployment building block
  (\<open>crates/o3k-kernel/src/building_block.rs\<close>): the block, its validation, the enrolling
  constructor and the administrative transition, which returns a new block. Lemmas: every
  block the operations return is valid, its identity and references never change, its
  generation grows by one per transition, the transitions are the edges of a step relation,
  and a removed block stays removed and was drained without blockers.
\<close>

section \<open>Blocks\<close>

datatype block_state = Enrolling | Ready | Unavailable | Draining | Removed | Failed

datatype blocker_kind = Workload | LocalStorage | Attachment

record drain_blocker =
  blocker_kind :: blocker_kind
  blocker_count :: u64

datatype block_error =
    InvalidId | InvalidReference | TooManyReferences | TooManyBlockers | GenerationOverflow
  | InvalidTransition | DrainBlocked "drain_blocker list"

record building_block =
  block_id :: string
  generation :: u64
  state :: block_state
  execution_identity :: string
  resource_provider_ids :: "string list"
  failure_domain_id :: "string option"
  cloud_profile_id :: "string option"
  drain_blockers :: "drain_blocker list"

definition max_id_bytes :: nat where "max_id_bytes = 128"
definition max_refs :: nat where "max_refs = 256"
definition max_drain_blockers :: nat where "max_drain_blockers = 16"

definition valid_ref :: "string \<Rightarrow> bool" where
  "valid_ref v = (v \<noteq> [] \<and> length v \<le> max_id_bytes \<and> \<not> has_control_or_ws v)"

section \<open>Validation\<close>

text \<open>The loop over the provider identifiers, with the set of those already seen.\<close>

fun check_providers :: "string set \<Rightarrow> string list \<Rightarrow> bool" where
  "check_providers seen [] = True"
| "check_providers seen (p # ps) =
     (if \<not> valid_ref p \<or> p \<in> seen then False else check_providers (insert p seen) ps)"

fun check_blockers :: "blocker_kind set \<Rightarrow> drain_blocker list \<Rightarrow> bool" where
  "check_blockers seen [] = True"
| "check_blockers seen (b # bs) =
     (if blocker_count b = 0 \<or> blocker_kind b \<in> seen then False
      else check_blockers (insert (blocker_kind b) seen) bs)"

definition validate :: "building_block \<Rightarrow> block_error option" where
  "validate b =
     (if \<not> valid_ref (block_id b) \<or> length (block_id b) > max_id_bytes then Some InvalidId
      else if \<not> valid_ref (execution_identity b) then Some InvalidReference
      else if length (resource_provider_ids b) > max_refs then Some TooManyReferences
      else if \<not> check_providers {} (resource_provider_ids b) then Some InvalidReference
      else if (case failure_domain_id b of Some r \<Rightarrow> \<not> valid_ref r | None \<Rightarrow> False)
              \<or> (case cloud_profile_id b of Some r \<Rightarrow> \<not> valid_ref r | None \<Rightarrow> False)
      then Some InvalidReference
      else if length (drain_blockers b) > max_drain_blockers then Some TooManyBlockers
      else if \<not> check_blockers {} (drain_blockers b) then Some InvalidReference
      else None)"

definition enrolling ::
  "string \<Rightarrow> string \<Rightarrow> string list \<Rightarrow> string option \<Rightarrow> string option
     \<Rightarrow> (block_error, building_block) rust_result" where
  "enrolling i ident providers domain profile =
     (let b = \<lparr>block_id = i, generation = 1, state = Enrolling, execution_identity = ident,
               resource_provider_ids = providers, failure_domain_id = domain,
               cloud_profile_id = profile, drain_blockers = []\<rparr>
      in case validate b of Some e \<Rightarrow> Inl e | None \<Rightarrow> Inr b)"

section \<open>Transitions\<close>

fun edge :: "block_state \<Rightarrow> block_state \<Rightarrow> bool" where
  "edge Enrolling Ready = True"
| "edge Enrolling Unavailable = True"
| "edge Enrolling Failed = True"
| "edge Ready Unavailable = True"
| "edge Ready Draining = True"
| "edge Ready Failed = True"
| "edge Unavailable Ready = True"
| "edge Unavailable Draining = True"
| "edge Unavailable Failed = True"
| "edge Draining Ready = True"
| "edge Draining Unavailable = True"
| "edge Draining Removed = True"
| "edge Draining Failed = True"
| "edge Failed Unavailable = True"
| "edge s t = (s = t)"

definition transition ::
  "building_block \<Rightarrow> block_state \<Rightarrow> drain_blocker list
     \<Rightarrow> (block_error, building_block) rust_result" where
  "transition b target blockers =
     (if \<not> edge (state b) target then Inl InvalidTransition
      else if target = Removed \<and> blockers \<noteq> [] then Inl (DrainBlocked blockers)
      else case checked_add (generation b) 1 of
             None \<Rightarrow> Inl GenerationOverflow
           | Some g \<Rightarrow>
               let b' = b\<lparr>drain_blockers := blockers, state := target, generation := g\<rparr>
               in case validate b' of Some e \<Rightarrow> Inl e | None \<Rightarrow> Inr b')"

fun block_step ::
  "building_block \<Rightarrow> block_state \<times> drain_blocker list \<Rightarrow> (block_error, building_block) rust_result"
  where
  "block_step b (target, blockers) = transition b target blockers"

section \<open>Validity\<close>

lemma check_providers_iff:
  "check_providers seen ps \<longleftrightarrow> list_all valid_ref ps \<and> distinct ps \<and> set ps \<inter> seen = {}"
  by (induction ps arbitrary: seen) auto

lemma check_blockers_iff:
  "check_blockers seen bs \<longleftrightarrow>
     list_all (\<lambda>b. blocker_count b \<noteq> 0) bs \<and> distinct (map blocker_kind bs)
     \<and> set (map blocker_kind bs) \<inter> seen = {}"
  by (induction bs arbitrary: seen) auto

definition block_valid :: "building_block \<Rightarrow> bool" where
  "block_valid b \<longleftrightarrow>
     valid_ref (block_id b) \<and> valid_ref (execution_identity b)
     \<and> length (resource_provider_ids b) \<le> max_refs
     \<and> list_all valid_ref (resource_provider_ids b) \<and> distinct (resource_provider_ids b)
     \<and> pred_option valid_ref (failure_domain_id b) \<and> pred_option valid_ref (cloud_profile_id b)
     \<and> length (drain_blockers b) \<le> max_drain_blockers
     \<and> list_all (\<lambda>x. blocker_count x \<noteq> 0) (drain_blockers b)
     \<and> distinct (map blocker_kind (drain_blockers b))"

lemma validate_None: "validate b = None \<longleftrightarrow> block_valid b"
  by (auto simp: validate_def block_valid_def check_providers_iff check_blockers_iff valid_ref_def
      split: option.splits)

lemma enrolling_Inr:
  "enrolling i ident ps d pr = Inr b \<longleftrightarrow>
     b = \<lparr>block_id = i, generation = 1, state = Enrolling, execution_identity = ident,
          resource_provider_ids = ps, failure_domain_id = d, cloud_profile_id = pr,
          drain_blockers = []\<rparr>
     \<and> block_valid b"
  by (auto simp: enrolling_def Let_def validate_None [symmetric] split: option.splits)

lemma transition_Inr:
  "transition b t bs = Inr b' \<longleftrightarrow>
     edge (state b) t \<and> (t = Removed \<longrightarrow> bs = []) \<and> block_valid b'
     \<and> (\<exists>g. unat g = unat (generation b) + 1
          \<and> b' = b\<lparr>drain_blockers := bs, state := t, generation := g\<rparr>)"
proof -
  have "unat g = unat (generation b) + 1 \<longleftrightarrow> checked_add (generation b) 1 = Some g" for g
    by (simp add: checked_add_eq_Some)
  then show ?thesis
    by (auto simp: transition_def Let_def validate_None [symmetric] split: option.splits)
qed

lemma block_step_valid: "block_step b x = Inr b' \<Longrightarrow> block_valid b'"
  by (cases x) (simp add: transition_Inr)

lemma block_step_generation:
  "block_step b x = Inr b' \<Longrightarrow> unat (generation b') = Suc (unat (generation b))"
  by (cases x) (auto simp: transition_Inr)

interpretation block_machine:
  generation_machine block_step block_valid "\<lambda>b. unat (generation b)"
  by unfold_locales (auto dest: block_step_valid block_step_generation)

definition same_identity :: "building_block \<Rightarrow> building_block \<Rightarrow> bool" where
  "same_identity b b' \<longleftrightarrow>
     block_id b' = block_id b \<and> execution_identity b' = execution_identity b
     \<and> resource_provider_ids b' = resource_provider_ids b
     \<and> failure_domain_id b' = failure_domain_id b \<and> cloud_profile_id b' = cloud_profile_id b"

lemma apply_identity: "same_identity b (apply_op block_step b x)"
  by (cases x) (auto simp: apply_op_def same_identity_def transition_Inr split: sum.split)

lemma same_identity_trans: "same_identity a b \<Longrightarrow> same_identity b c \<Longrightarrow> same_identity a c"
  by (simp add: same_identity_def)

lemma run_identity: "same_identity b (run_ops block_step b xs)"
proof (induction xs arbitrary: b)
  case (Cons x xs)
  show ?case using same_identity_trans [OF apply_identity Cons.IH] by simp
qed (simp add: same_identity_def)

text \<open>
  A block that enrolled stays valid under every sequence of transitions, failed ones
  included, and keeps its identity, its execution identity and its references to placement,
  topology and profile: the lifecycle never rewrites what other authorities own.
\<close>

theorem block_run_valid:
  assumes "enrolling i ident ps d pr = Inr b"
  shows "block_valid (run_ops block_step b xs) \<and> same_identity b (run_ops block_step b xs)"
proof -
  have "block_valid b" using assms by (auto simp: enrolling_Inr)
  then show ?thesis using block_machine.run_inv run_identity by blast
qed

theorem block_run_valid_witness:
  "\<exists>b. enrolling ''block-a'' ''agent-a'' [''p-a''] None None = Inr b
     \<and> block_valid (run_ops block_step b [(Ready, []), (Removed, []), (Draining, [])])"
proof -
  have "validate \<lparr>block_id = ''block-a'', generation = 1, state = Enrolling,
      execution_identity = ''agent-a'', resource_provider_ids = [''p-a''],
      failure_domain_id = None, cloud_profile_id = None, drain_blockers = []\<rparr> = None"
    by code_simp
  then obtain b where "enrolling ''block-a'' ''agent-a'' [''p-a''] None None = Inr b"
    by (auto simp: enrolling_def Let_def)
  with block_run_valid [OF this] show ?thesis by blast
qed

section \<open>The lifecycle as a step relation\<close>

inductive lifecycle :: "building_block \<Rightarrow> building_block \<Rightarrow> bool" where
  start: "lifecycle b b"
| step: "lifecycle b b' \<Longrightarrow> transition b' t bs = Inr b'' \<Longrightarrow> lifecycle b b''"

inductive_cases lifecycleE: "lifecycle b b''"

lemma edge_into_removed: "edge s Removed \<Longrightarrow> s = Draining \<or> s = Removed"
  by (cases s) auto

lemma edge_from_removed: "edge Removed t \<Longrightarrow> t = Removed"
  by (cases t) auto

lemma transition_state: "transition b t bs = Inr b' \<Longrightarrow> state b' = t \<and> drain_blockers b' = bs"
  by (auto simp: transition_Inr)

text \<open>
  Removal is final and only happens to a drained block: once removed, every block the
  lifecycle reaches is removed and without blockers, and every transition it accepts leaves it so.
\<close>

theorem removed_is_final:
  assumes "lifecycle b b'" and "state b = Removed" and "drain_blockers b = []"
  shows "state b' = Removed \<and> drain_blockers b' = []
    \<and> (\<forall>t bs b''. transition b' t bs = Inr b'' \<longrightarrow> t = Removed \<and> bs = [])"
proof -
  have "state b' = Removed \<and> drain_blockers b' = []"
    using assms
    by (induction rule: lifecycle.induct)
      (auto simp: transition_Inr dest: edge_from_removed)
  then show ?thesis by (auto simp: transition_Inr dest: edge_from_removed)
qed

theorem removed_is_final_witness:
  "\<exists>b. state b = Removed \<and> (\<forall>t bs b''. transition b t bs = Inr b'' \<longrightarrow> t = Removed \<and> bs = [])"
proof -
  obtain b where b: "state b = Removed" "drain_blockers b = []"
    "b = \<lparr>block_id = ''block-a'', generation = 4, state = Removed,
      execution_identity = ''agent-a'', resource_provider_ids = [''p-a''],
      failure_domain_id = None, cloud_profile_id = None, drain_blockers = []\<rparr>"
    by simp
  from removed_is_final [OF lifecycle.start b(1,2)] b(1) show ?thesis by blast
qed

lemma removed_was_drained:
  assumes "transition b Removed bs = Inr b'"
  shows "(state b = Draining \<or> state b = Removed) \<and> bs = [] \<and> drain_blockers b' = []"
  using assms by (auto simp: transition_Inr dest: edge_into_removed)

lemma lifecycle_Removed:
  "lifecycle b b' \<Longrightarrow> state b' = Removed \<Longrightarrow> state b \<noteq> Removed \<Longrightarrow>
    \<exists>d r. lifecycle b d \<and> state d = Draining \<and> transition d Removed [] = Inr r \<and> lifecycle r b'"
proof (induction rule: lifecycle.induct)
  case (start b)
  then show ?case by simp
next
  case (step b b' t bs b'')
  then have "t = Removed" using transition_state by simp
  with step removed_was_drained have *: "state b' = Draining \<or> state b' = Removed" "bs = []"
    by blast+
  show ?case
  proof (cases "state b' = Draining")
    case True
    with step * \<open>t = Removed\<close> show ?thesis using lifecycle.start by blast
  next
    case False
    with step * show ?thesis using lifecycle.step by meson
  qed
qed

text \<open>
  A building block only ever becomes removed by a transition out of the draining state
  that reported no drain blocker: every lifecycle from a block that is not removed to a removed
  one contains that step.
\<close>

theorem removal_passes_draining:
  assumes "lifecycle b b'" and "state b \<noteq> Removed" and "state b' = Removed"
  shows "\<exists>d r. lifecycle b d \<and> state d = Draining \<and> transition d Removed [] = Inr r
    \<and> lifecycle r b'"
  using lifecycle_Removed assms by blast

theorem removal_passes_draining_witness:
  "\<exists>b d r. state b = Draining \<and> lifecycle b d \<and> state d = Draining
    \<and> transition d Removed [] = Inr r"
proof -
  let ?b = "\<lparr>block_id = ''block-a'', generation = 3, state = Draining,
      execution_identity = ''agent-a'', resource_provider_ids = [''p-a''],
      failure_domain_id = None, cloud_profile_id = None, drain_blockers = []\<rparr>"
  have "validate (?b\<lparr>state := Removed, generation := 4\<rparr>) = None" by code_simp
  then have "transition ?b Removed [] = Inr (?b\<lparr>state := Removed, generation := 4\<rparr>)"
    by (simp add: transition_def checked_add_def Let_def)
  moreover have "state ?b = Draining" by simp
  ultimately obtain b r where b: "state b = Draining" "transition b Removed [] = Inr r"
    by blast
  from lifecycle.step [OF lifecycle.start b(2)] have l: "lifecycle b r" .
  have "state b \<noteq> Removed" "state r = Removed" using b transition_state by simp_all
  from removal_passes_draining [OF l this] b(1) show ?thesis by blast
qed

end
