(* ===== verification/Kernel_Composition.thy ===== *)
theory Kernel_Composition
  imports Rust_Prelude
begin

text \<open>
  Declarative cloud profiles (\<open>crates/o3k-kernel/src/composition.rs\<close>): the selection of
  services with their dependencies and the validation of a profile, up to the deterministic
  Kahn traversal that rejects dependency cycles. The traversal is modelled with fuel and with
  the subtraction that would underflow as a failure; the lemmas show that neither occurs, that
  the traversal accepts exactly the acyclic graphs whose dependency lists have no duplicate,
  and that a profile is accepted exactly when it meets a declarative specification.
\<close>

section \<open>Profiles\<close>

datatype ownership_mode = O3kImplemented | ExternalHosted

record service_selection =
  service_id :: string
  ownership :: ownership_mode
  version_requirement :: string
  dependencies :: "string list"
  required_capabilities :: "string list"
  locality :: "string option"
  placement_requirement :: "string option"
  config_refs :: "string list"

record cloud_profile =
  profile_id :: string
  profile_generation :: u64
  selected_services :: "service_selection list"
  upgrade_order :: "string list list"

datatype profile_error = Invalid string

definition max_services :: nat where "max_services = 128"
definition max_dependencies :: nat where "max_dependencies = 512"
definition max_capabilities :: nat where "max_capabilities = 256"
definition max_config_refs :: nat where "max_config_refs = 256"

section \<open>The checks of one service\<close>

definition bad_reference :: "string \<Rightarrow> bool" where
  "bad_reference v = (trim v = [] \<or> length v > 256 \<or> CHR 0x00 \<in> set v)"

definition inline_secret :: "string \<Rightarrow> bool" where
  "inline_secret r =
     (let lower = to_ascii_lowercase r in
      str_contains lower ''password='' \<or> str_contains lower ''secret=''
      \<or> str_contains lower ''token='' \<or> str_contains lower ''private_key='')"

definition bad_optional :: "string option \<Rightarrow> bool" where
  "bad_optional x = (case x of None \<Rightarrow> False | Some v \<Rightarrow> v = [] \<or> length v > 256)"

definition check_service :: "service_selection \<Rightarrow> profile_error option" where
  "check_service s =
     (if trim (version_requirement s) = [] \<or> length (version_requirement s) > 128
      then Some (Invalid ''version_requirement'')
      else if list_ex bad_reference (dependencies s @ required_capabilities s @ config_refs s)
      then Some (Invalid ''bounded profile reference'')
      else if list_ex inline_secret (config_refs s)
      then Some (Invalid ''config_refs must be secret-free references'')
      else if bad_optional (locality s) \<or> bad_optional (placement_requirement s)
      then Some (Invalid ''placement/locality reference'')
      else None)"

fun check_services ::
  "string set \<Rightarrow> service_selection list \<Rightarrow> (profile_error, string set) rust_result" where
  "check_services ids [] = Inr ids"
| "check_services ids (s # ss) =
     (if trim (service_id s) = [] \<or> length (service_id s) > 128 \<or> service_id s \<in> ids
      then Inl (Invalid ''service_id'')
      else case check_service s of
             Some e \<Rightarrow> Inl e
           | None \<Rightarrow> check_services (insert (service_id s) ids) ss)"

definition total_of :: "(service_selection \<Rightarrow> string list) \<Rightarrow> service_selection list \<Rightarrow> nat" where
  "total_of f ss = sum_list (map (\<lambda>s. length (f s)) ss)"

section \<open>The upgrade order\<close>

fun check_wave ::
  "string set \<Rightarrow> string set \<Rightarrow> string list \<Rightarrow> (profile_error, string set) rust_result" where
  "check_wave ids seen [] = Inr seen"
| "check_wave ids seen (i # wave) =
     (if i \<notin> ids \<or> i \<in> seen then Inl (Invalid ''upgrade order must cover each service once'')
      else check_wave ids (insert i seen) wave)"

fun check_waves ::
  "string set \<Rightarrow> string set \<Rightarrow> string list list \<Rightarrow> (profile_error, string set) rust_result" where
  "check_waves ids seen [] = Inr seen"
| "check_waves ids seen (w # ws) =
     (if w = [] then Inl (Invalid ''empty upgrade wave'')
      else case check_wave ids seen w of
             Inl e \<Rightarrow> Inl e
           | Inr seen' \<Rightarrow> check_waves ids seen' ws)"

section \<open>Kahn's traversal\<close>

text \<open>
  The map of in-degrees has an entry for every identifier; one is added for each element of a
  service's dependency list.
\<close>

type_synonym indegrees = "string \<rightharpoonup> nat"

fun initial_indegrees :: "string set \<Rightarrow> service_selection list \<Rightarrow> indegrees" where
  "initial_indegrees ids [] = (\<lambda>i. if i \<in> ids then Some 0 else None)"
| "initial_indegrees ids (s # ss) =
     (let m = initial_indegrees ids ss in
      m(service_id s := map_option (\<lambda>n. n + length (dependencies s)) (m (service_id s))))"

text \<open>
  One round of the inner loop, for the identifier \<open>x\<close> that was popped. \<open>None\<close> stands for the
  subtraction from zero, which aborts a debug build and wraps in a release build.
\<close>

fun relax ::
  "string \<Rightarrow> service_selection list \<Rightarrow> indegrees \<times> string set \<Rightarrow> (indegrees \<times> string set) option"
  where
  "relax x [] st = Some st"
| "relax x (s # ss) (m, ready) =
     (if x \<in> set (dependencies s) then
        (case m (service_id s) of
           None \<Rightarrow> relax x ss (m, ready)
         | Some 0 \<Rightarrow> None
         | Some (Suc n) \<Rightarrow>
             relax x ss (m(service_id s \<mapsto> n),
                         if n = 0 then insert (service_id s) ready else ready))
      else relax x ss (m, ready))"

text \<open>
  The outer loop pops the least identifier that is ready. \<open>None\<close>: out of fuel, or the
  subtraction underflowed.
\<close>

fun kahn ::
  "nat \<Rightarrow> service_selection list \<Rightarrow> indegrees \<Rightarrow> string set \<Rightarrow> nat \<Rightarrow> nat option" where
  "kahn 0 ss m ready seen = None"
| "kahn (Suc fuel) ss m ready seen =
     (if ready = {} then Some seen
      else let x = Min ready in
           (case relax x ss (m, ready - {x}) of
              None \<Rightarrow> None
            | Some (m', ready') \<Rightarrow> kahn fuel ss m' ready' (seen + 1)))"

definition traverse :: "string set \<Rightarrow> service_selection list \<Rightarrow> nat option" where
  "traverse ids ss =
     (let m = initial_indegrees ids ss in
      kahn (Suc (card ids)) ss m (Set.filter (\<lambda>i. m i = Some 0) ids) 0)"

section \<open>Validation\<close>

definition profile_validate :: "cloud_profile \<Rightarrow> (profile_error, unit) rust_result option" where
  "profile_validate p =
    (let ss = selected_services p in
     if trim (profile_id p) = [] \<or> length (profile_id p) > 128
     then Some (Inl (Invalid ''profile_id''))
     else if ss = [] \<or> length ss > max_services then Some (Inl (Invalid ''selected_services''))
     else case check_services {} ss of
            Inl e \<Rightarrow> Some (Inl e)
          | Inr ids \<Rightarrow>
     if total_of dependencies ss > max_dependencies
        \<or> total_of required_capabilities ss > max_capabilities
        \<or> total_of config_refs ss > max_config_refs
     then Some (Inl (Invalid ''profile collection bound''))
     else if list_ex (\<lambda>s. list_ex (\<lambda>d. d \<notin> ids) (dependencies s)) ss
     then Some (Inl (Invalid ''dependency references unselected service''))
     else case check_waves ids {} (upgrade_order p) of
            Inl e \<Rightarrow> Some (Inl e)
          | Inr order_ids \<Rightarrow>
     if order_ids \<noteq> {} \<and> card order_ids \<noteq> card ids
     then Some (Inl (Invalid ''upgrade order must cover all selected services''))
     else case traverse ids ss of
            None \<Rightarrow> None
          | Some seen \<Rightarrow>
     if seen \<noteq> card ids then Some (Inl (Invalid ''dependency cycle'')) else Some (Inr ()))"

definition implicit_default :: cloud_profile where
  "implicit_default =
     \<lparr>profile_id = ''default'', profile_generation = 0,
      selected_services =
        [\<lparr>service_id = ''compute'', ownership = O3kImplemented, version_requirement = ''*'',
          dependencies = [], required_capabilities = [], locality = None,
          placement_requirement = None, config_refs = []\<rparr>],
      upgrade_order = []\<rparr>"

section \<open>The traversal's invariant\<close>

definition lowered :: "string \<Rightarrow> service_selection list \<Rightarrow> indegrees \<Rightarrow> indegrees" where
  "lowered x us m =
     (\<lambda>i. if \<exists>s\<in>set us. service_id s = i \<and> x \<in> set (dependencies s)
          then map_option (\<lambda>n. n - 1) (m i) else m i)"

definition released :: "string \<Rightarrow> service_selection list \<Rightarrow> indegrees \<Rightarrow> string set" where
  "released x us m =
     {i. \<exists>s\<in>set us. service_id s = i \<and> x \<in> set (dependencies s) \<and> m i = Some 1}"

lemma lowered_Cons:
  "service_id s \<notin> service_id ` set us \<Longrightarrow>
   lowered x (s # us) m =
     (if x \<in> set (dependencies s)
      then lowered x us (m(service_id s := map_option (\<lambda>n. n - 1) (m (service_id s))))
      else lowered x us m)"
  by (rule ext) (auto simp: lowered_def image_iff)

lemma released_Cons:
  "service_id s \<notin> service_id ` set us \<Longrightarrow>
   released x (s # us) m =
     (if x \<in> set (dependencies s) \<and> m (service_id s) = Some 1
      then insert (service_id s) (released x us m) else released x us m)"
  by (auto simp: released_def)

lemma released_upd [simp]:
  "i \<notin> service_id ` set us \<Longrightarrow> released x us (m(i := v)) = released x us m"
  by (auto simp: released_def)

lemma relax_eq:
  "distinct (map service_id us) \<Longrightarrow>
   \<forall>s\<in>set us. x \<in> set (dependencies s) \<longrightarrow> (\<exists>n. m (service_id s) = Some (Suc n)) \<Longrightarrow>
   relax x us (m, R) = Some (lowered x us m, R \<union> released x us m)"
proof (induction us arbitrary: m R)
  case Nil
  then show ?case by (simp add: lowered_def released_def)
next
  case (Cons s us)
  then have s: "service_id s \<notin> service_id ` set us" by simp
  show ?case
  proof (cases "x \<in> set (dependencies s)")
    case False
    with Cons s show ?thesis by (simp add: lowered_Cons released_Cons)
  next
    case True
    with Cons.prems obtain n where n: "m (service_id s) = Some (Suc n)" by auto
    let ?m = "m(service_id s \<mapsto> n)"
    have "\<forall>s\<in>set us. x \<in> set (dependencies s) \<longrightarrow> (\<exists>n. ?m (service_id s) = Some (Suc n))"
      using Cons.prems s by (auto simp: image_iff)
    then have "relax x us (?m, R') = Some (lowered x us ?m, R' \<union> released x us ?m)" for R'
      using Cons.prems(1) by (intro Cons.IH) simp_all
    with True n s show ?thesis by (simp add: lowered_Cons released_Cons)
  qed
qed

definition remaining :: "string set \<Rightarrow> service_selection \<Rightarrow> nat" where
  "remaining D s = length (dependencies s) - card (set (dependencies s) \<inter> D)"

lemma card_deps_le: "card (set (dependencies s) \<inter> D) \<le> length (dependencies s)"
  by (meson card_length card_mono inf.cobounded1 finite_set order_trans)

lemma remaining_insert:
  assumes "x \<notin> D"
  shows "remaining D s = (if x \<in> set (dependencies s) then Suc (remaining (insert x D) s)
                          else remaining (insert x D) s)"
proof (cases "x \<in> set (dependencies s)")
  case True
  then have "card (set (dependencies s) \<inter> insert x D) = Suc (card (set (dependencies s) \<inter> D))"
    using assms by simp
  with True card_deps_le [of s "insert x D"] show ?thesis by (simp add: remaining_def)
qed (simp add: remaining_def)

lemma remaining_0:
  "remaining D s = 0 \<longleftrightarrow> distinct (dependencies s) \<and> set (dependencies s) \<subseteq> D"
proof -
  have "remaining D s = 0 \<longleftrightarrow> length (dependencies s) \<le> card (set (dependencies s) \<inter> D)"
    by (simp add: remaining_def)
  also have "\<dots> \<longleftrightarrow> distinct (dependencies s) \<and> set (dependencies s) \<subseteq> D"
  proof
    assume l: "length (dependencies s) \<le> card (set (dependencies s) \<inter> D)"
    have c: "card (set (dependencies s) \<inter> D) \<le> card (set (dependencies s))"
      by (simp add: card_mono)
    from l c card_length [of "dependencies s"]
    have "card (set (dependencies s)) = length (dependencies s)" by linarith
    moreover from this l c have "set (dependencies s) \<inter> D = set (dependencies s)"
      by (intro card_subset_eq) auto
    ultimately show "distinct (dependencies s) \<and> set (dependencies s) \<subseteq> D"
      by (auto intro: card_distinct)
  next
    assume "distinct (dependencies s) \<and> set (dependencies s) \<subseteq> D"
    then show "length (dependencies s) \<le> card (set (dependencies s) \<inter> D)"
      by (simp add: Int_absorb2 distinct_card)
  qed
  finally show ?thesis .
qed

definition graph_ok :: "string set \<Rightarrow> service_selection list \<Rightarrow> bool" where
  "graph_ok ids ss \<longleftrightarrow> ids = service_id ` set ss \<and> distinct (map service_id ss)
     \<and> (\<forall>s\<in>set ss. set (dependencies s) \<subseteq> ids)"

text \<open>
  The invariant of the traversal: \<open>D\<close> is the set of identifiers popped so far, and every
  non-empty part of it has a member that depends on no member.
\<close>

definition founded :: "service_selection list \<Rightarrow> string set \<Rightarrow> bool" where
  "founded ss D \<longleftrightarrow>
     (\<forall>T \<subseteq> D. T \<noteq> {} \<longrightarrow>
        (\<exists>t\<in>T. \<forall>s\<in>set ss. service_id s = t \<longrightarrow> set (dependencies s) \<inter> T = {}))"

definition kahn_inv ::
  "service_selection list \<Rightarrow> string set \<Rightarrow> indegrees \<Rightarrow> string set \<Rightarrow> bool" where
  "kahn_inv ss D m ready \<longleftrightarrow>
     (\<forall>s\<in>set ss. m (service_id s) = Some (remaining D s))
     \<and> ready \<inter> D = {}
     \<and> ready \<union> D = {i. \<exists>s\<in>set ss. service_id s = i \<and> remaining D s = 0}
     \<and> founded ss D"

lemma founded_insert:
  assumes D: "founded ss D" and x: "x \<notin> D"
    and closed: "\<And>s. s \<in> set ss \<Longrightarrow> service_id s \<in> insert x D \<Longrightarrow> set (dependencies s) \<subseteq> D"
  shows "founded ss (insert x D)"
  unfolding founded_def
proof (intro allI impI)
  fix T assume T: "T \<subseteq> insert x D" "T \<noteq> {}"
  show "\<exists>t\<in>T. \<forall>s\<in>set ss. service_id s = t \<longrightarrow> set (dependencies s) \<inter> T = {}"
  proof (cases "T \<inter> D = {}")
    case True
    with T have "T = {x}" by auto
    with closed x show ?thesis by auto
  next
    case False
    with D obtain t where t: "t \<in> T \<inter> D"
      "\<forall>s\<in>set ss. service_id s = t \<longrightarrow> set (dependencies s) \<inter> (T \<inter> D) = {}"
      unfolding founded_def by (metis Int_lower2)
    with closed x T show ?thesis
      by (intro bexI[of _ t]) (auto, blast)
  qed
qed

lemma kahn_step:
  assumes ok: "graph_ok ids ss" and inv: "kahn_inv ss D m ready" and x: "x \<in> ready"
  shows "\<exists>m' ready'. relax x ss (m, ready - {x}) = Some (m', ready')
           \<and> kahn_inv ss (insert x D) m' ready'"
proof -
  from inv x have xD: "x \<notin> D" by (auto simp: kahn_inv_def)
  have dist: "distinct (map service_id ss)" using ok by (simp add: graph_ok_def)
  have pos: "\<forall>s\<in>set ss. x \<in> set (dependencies s) \<longrightarrow> (\<exists>n. m (service_id s) = Some (Suc n))"
    using inv remaining_insert [OF xD] by (auto simp: kahn_inv_def)
  let ?m = "lowered x ss m" and ?R = "ready - {x} \<union> released x ss m"
  have uniq: "s = s'" if "s \<in> set ss" "s' \<in> set ss" "service_id s = service_id s'" for s s'
    using that dist by (metis distinct_map inj_on_def)
  have m': "?m (service_id s) = Some (remaining (insert x D) s)" if "s \<in> set ss" for s
    using that inv remaining_insert [OF xD, of s] uniq
    by (auto simp: lowered_def kahn_inv_def) 
  have rel: "released x ss m = {i. \<exists>s\<in>set ss. service_id s = i \<and> x \<in> set (dependencies s)
                                   \<and> remaining (insert x D) s = 0}"
    using inv remaining_insert [OF xD] by (auto simp: released_def kahn_inv_def)
  have rd: "ready \<union> D = {i. \<exists>s\<in>set ss. service_id s = i \<and> remaining D s = 0}"
    using inv by (simp add: kahn_inv_def)
  have closed: "set (dependencies s) \<subseteq> D"
    if "s \<in> set ss" "service_id s \<in> insert x D" for s
  proof -
    from that x rd obtain s' where "s' \<in> set ss" "service_id s' = service_id s" "remaining D s' = 0"
      by blast
    with that uniq remaining_0 show ?thesis by metis
  qed
  have noself: "\<not> (s \<in> set ss \<and> service_id s \<in> insert x D \<and> x \<in> set (dependencies s))" for s
    using closed xD by blast
  have "kahn_inv ss (insert x D) ?m ?R"
    unfolding kahn_inv_def
  proof (intro conjI ballI)
    show "?m (service_id s) = Some (remaining (insert x D) s)" if "s \<in> set ss" for s
      using m' that .
    show "?R \<inter> insert x D = {}"
      using noself rel inv by (auto simp: kahn_inv_def)
    show "founded ss (insert x D)"
      using inv xD closed by (intro founded_insert) (auto simp: kahn_inv_def)
    have "?R \<union> insert x D = (ready \<union> D) \<union> released x ss m" using x by auto
    also have "\<dots> = {i. \<exists>s\<in>set ss. service_id s = i \<and> remaining (insert x D) s = 0}"
      unfolding rd rel using remaining_insert [OF xD] by (auto split: if_splits)
    finally show "?R \<union> insert x D = {i. \<exists>s\<in>set ss. service_id s = i \<and> remaining (insert x D) s = 0}" .
  qed
  with relax_eq [OF dist pos] show ?thesis by blast
qed


lemma kahn_inv_subset: "graph_ok ids ss \<Longrightarrow> kahn_inv ss D m ready \<Longrightarrow> ready \<union> D \<subseteq> ids"
  by (auto simp: graph_ok_def kahn_inv_def)

lemma kahn_run:
  assumes ok: "graph_ok ids ss"
  shows "kahn_inv ss D m ready \<Longrightarrow> card (ids - D) < fuel \<Longrightarrow>
    \<exists>E m'. kahn fuel ss m ready (card D) = Some (card E) \<and> kahn_inv ss E m' {} \<and> E \<subseteq> ids"
proof (induction fuel arbitrary: D m ready)
  case 0
  then show ?case by simp
next
  case (Suc fuel)
  note sub = kahn_inv_subset [OF ok Suc.prems(1)]
  have fin: "finite ids" using ok by (simp add: graph_ok_def)
  show ?case
  proof (cases "ready = {}")
    case True
    with Suc.prems sub show ?thesis by auto
  next
    case False
    have "finite ready" using sub fin by (meson finite_subset le_sup_iff)
    with False have x: "Min ready \<in> ready" by simp
    have rd: "ready \<inter> D = {}" "ready \<subseteq> ids" using sub Suc.prems by (auto simp: kahn_inv_def)
    with x have xD: "Min ready \<in> ids - D" by blast
    have "finite D" using sub fin by (meson finite_subset le_sup_iff)
    with xD have c: "card (insert (Min ready) D) = card D + 1" by simp
    obtain m' ready' where r: "relax (Min ready) ss (m, ready - {Min ready}) = Some (m', ready')"
      and inv: "kahn_inv ss (insert (Min ready) D) m' ready'"
      using kahn_step [OF ok Suc.prems(1) x] by blast
    have "ids - insert (Min ready) D \<subset> ids - D" using xD by auto
    with fin have "card (ids - insert (Min ready) D) < card (ids - D)"
      by (intro psubset_card_mono) auto
    with Suc.prems have "card (ids - insert (Min ready) D) < fuel" by simp
    from Suc.IH [OF inv this] False r c show ?thesis by (simp add: Let_def)
  qed
qed

lemma initial_notin:
  "i \<notin> service_id ` set ss \<Longrightarrow> initial_indegrees ids ss i = (if i \<in> ids then Some 0 else None)"
  by (induction ss) (auto simp: Let_def)

lemma initial_in:
  "distinct (map service_id ss) \<Longrightarrow> s \<in> set ss \<Longrightarrow> service_id s \<in> ids \<Longrightarrow>
   initial_indegrees ids ss (service_id s) = Some (length (dependencies s))"
  by (induction ss) (auto simp: Let_def initial_notin image_iff)

lemma kahn_inv_initial:
  assumes "graph_ok ids ss"
  shows "kahn_inv ss {} (initial_indegrees ids ss)
           (Set.filter (\<lambda>i. initial_indegrees ids ss i = Some 0) ids)"
  using assms initial_in [of ss _ ids]
  by (auto simp: kahn_inv_def graph_ok_def remaining_def founded_def)

lemma traverse_some:
  assumes "graph_ok ids ss"
  shows "\<exists>E m. traverse ids ss = Some (card E) \<and> kahn_inv ss E m {} \<and> E \<subseteq> ids"
  using kahn_run [OF assms kahn_inv_initial [OF assms], of "Suc (card ids)"]
  by (auto simp: traverse_def Let_def simp del: kahn.simps)

section \<open>What the traversal decides\<close>

definition dep_edges :: "service_selection list \<Rightarrow> (string \<times> string) set" where
  "dep_edges ss = {(d, i). \<exists>s\<in>set ss. service_id s = i \<and> d \<in> set (dependencies s)}"

lemma founded_all_wf:
  assumes ok: "graph_ok ids ss" and f: "founded ss ids"
  shows "wf (dep_edges ss)"
  unfolding wf_eq_minimal
proof (intro allI impI)
  fix Q :: "string set" and x assume x: "x \<in> Q"
  show "\<exists>z\<in>Q. \<forall>y. (y, z) \<in> dep_edges ss \<longrightarrow> y \<notin> Q"
  proof (cases "Q \<inter> ids = {}")
    case True
    with x ok show ?thesis by (intro bexI[of _ x]) (auto simp: dep_edges_def graph_ok_def)
  next
    case False
    with f obtain t where "t \<in> Q \<inter> ids"
      "\<forall>s\<in>set ss. service_id s = t \<longrightarrow> set (dependencies s) \<inter> (Q \<inter> ids) = {}"
      unfolding founded_def by (metis Int_lower2)
    moreover from this ok have "y \<in> ids" if "(y, t) \<in> dep_edges ss" for y
      using that by (auto simp: dep_edges_def graph_ok_def)
    ultimately show ?thesis by (intro bexI[of _ t]) (auto simp: dep_edges_def)
  qed
qed

lemma finite_dep_edges: "finite (dep_edges ss)"
proof -
  have "dep_edges ss \<subseteq> (\<Union>s\<in>set ss. set (dependencies s)) \<times> service_id ` set ss"
    by (auto simp: dep_edges_def)
  then show ?thesis by (rule finite_subset) simp
qed

lemma traversal_complete:
  assumes ok: "graph_ok ids ss" and inv: "kahn_inv ss E m {}" and E: "E \<subseteq> ids"
  shows "E = ids \<longleftrightarrow> (\<forall>s\<in>set ss. distinct (dependencies s)) \<and> acyclic (dep_edges ss)"
proof
  have uniq: "s = s'" if "s \<in> set ss" "s' \<in> set ss" "service_id s = service_id s'" for s s'
    using that ok by (metis distinct_map inj_on_def graph_ok_def)
  have Eq: "E = {i. \<exists>s\<in>set ss. service_id s = i \<and> remaining E s = 0}"
    using inv by (simp add: kahn_inv_def)
  show "(\<forall>s\<in>set ss. distinct (dependencies s)) \<and> acyclic (dep_edges ss)" if "E = ids"
  proof
    show "acyclic (dep_edges ss)"
      using founded_all_wf ok inv that by (auto simp: kahn_inv_def intro: wf_acyclic)
    show "\<forall>s\<in>set ss. distinct (dependencies s)"
    proof
      fix s assume s: "s \<in> set ss"
      with ok that have "service_id s \<in> E" by (auto simp: graph_ok_def)
      with Eq obtain s' where "s' \<in> set ss" "service_id s' = service_id s" "remaining E s' = 0"
        by blast
      with s uniq have "remaining E s = 0" by metis
      then show "distinct (dependencies s)" by (simp add: remaining_0)
    qed
  qed
  show "E = ids" if *: "(\<forall>s\<in>set ss. distinct (dependencies s)) \<and> acyclic (dep_edges ss)"
  proof (rule ccontr)
    assume "E \<noteq> ids"
    with E obtain i where "i \<in> ids - E" by auto
    moreover have "wf (dep_edges ss)" using * finite_dep_edges by (blast intro: finite_acyclic_wf)
    ultimately obtain z where z: "z \<in> ids - E" "\<And>y. (y, z) \<in> dep_edges ss \<Longrightarrow> y \<notin> ids - E"
      by (metis wfE_min)
    from z ok obtain s where s: "s \<in> set ss" "service_id s = z" by (auto simp: graph_ok_def)
    have "d \<in> E" if "d \<in> set (dependencies s)" for d
    proof -
      from that s ok have "(d, z) \<in> dep_edges ss" "d \<in> ids"
        by (auto simp: dep_edges_def graph_ok_def)
      with z(2) show ?thesis by blast
    qed
    then have "set (dependencies s) \<subseteq> E" by blast
    with * s have "remaining E s = 0" by (simp add: remaining_0)
    with Eq s z show False by auto
  qed
qed

lemma traverse_decides:
  assumes ok: "graph_ok ids ss"
  obtains n where "traverse ids ss = Some n"
    and "n = card ids \<longleftrightarrow> (\<forall>s\<in>set ss. distinct (dependencies s)) \<and> acyclic (dep_edges ss)"
proof -
  from traverse_some [OF ok] obtain E m
    where E: "traverse ids ss = Some (card E)" "kahn_inv ss E m {}" "E \<subseteq> ids" by blast
  have "finite ids" using ok by (simp add: graph_ok_def)
  with E(3) have "card E = card ids \<longleftrightarrow> E = ids" by (metis card_subset_eq)
  with that [OF E(1)] traversal_complete [OF ok E(2,3)] show ?thesis by blast
qed


section \<open>What validation accepts\<close>

definition service_ok :: "service_selection \<Rightarrow> bool" where
  "service_ok s \<longleftrightarrow>
     trim (service_id s) \<noteq> [] \<and> length (service_id s) \<le> 128
     \<and> trim (version_requirement s) \<noteq> [] \<and> length (version_requirement s) \<le> 128
     \<and> (\<forall>v \<in> set (dependencies s) \<union> set (required_capabilities s) \<union> set (config_refs s).
          trim v \<noteq> [] \<and> length v \<le> 256 \<and> CHR 0x00 \<notin> set v)
     \<and> (\<forall>r \<in> set (config_refs s). \<not> inline_secret r)
     \<and> \<not> bad_optional (locality s) \<and> \<not> bad_optional (placement_requirement s)"

abbreviation profile_ids :: "cloud_profile \<Rightarrow> string set" where
  "profile_ids p \<equiv> service_id ` set (selected_services p)"

text \<open>
  Everything validation asks of a profile, but for duplicates in dependency lists.
\<close>

definition profile_sound :: "cloud_profile \<Rightarrow> bool" where
  "profile_sound p \<longleftrightarrow>
     trim (profile_id p) \<noteq> [] \<and> length (profile_id p) \<le> 128
     \<and> selected_services p \<noteq> [] \<and> length (selected_services p) \<le> max_services
     \<and> (\<forall>s\<in>set (selected_services p). service_ok s)
     \<and> distinct (map service_id (selected_services p))
     \<and> total_of dependencies (selected_services p) \<le> max_dependencies
     \<and> total_of required_capabilities (selected_services p) \<le> max_capabilities
     \<and> total_of config_refs (selected_services p) \<le> max_config_refs
     \<and> (\<forall>s\<in>set (selected_services p). set (dependencies s) \<subseteq> profile_ids p)
     \<and> [] \<notin> set (upgrade_order p) \<and> distinct (concat (upgrade_order p))
     \<and> (upgrade_order p = [] \<or> set (concat (upgrade_order p)) = profile_ids p)
     \<and> acyclic (dep_edges (selected_services p))"

definition no_duplicate_dependency :: "cloud_profile \<Rightarrow> bool" where
  "no_duplicate_dependency p \<longleftrightarrow> (\<forall>s\<in>set (selected_services p). distinct (dependencies s))"

lemma check_service_None:
  "trim (service_id s) \<noteq> [] \<and> length (service_id s) \<le> 128 \<and> check_service s = None \<longleftrightarrow> service_ok s"
proof -
  have refs: "list_ex bad_reference vs \<longleftrightarrow>
      \<not> (\<forall>v\<in>set vs. trim v \<noteq> [] \<and> length v \<le> 256 \<and> CHR 0x00 \<notin> set v)" for vs
    by (simp add: list_ex_iff bad_reference_def linorder_not_le)
  show ?thesis
    unfolding check_service_def service_ok_def refs set_append Un_assoc
    by (simp add: list_ex_iff not_less)
qed

lemma check_services_Inr:
  "check_services ids ss = Inr ids' \<longleftrightarrow>
     (\<forall>s\<in>set ss. service_ok s) \<and> distinct (map service_id ss)
     \<and> service_id ` set ss \<inter> ids = {} \<and> ids' = ids \<union> service_id ` set ss"
proof (induction ss arbitrary: ids)
  case Nil
  then show ?case by auto
next
  case (Cons s ss)
  have "check_services ids (s # ss) = Inr ids' \<longleftrightarrow>
     service_ok s \<and> service_id s \<notin> ids \<and> check_services (insert (service_id s) ids) ss = Inr ids'"
    using check_service_None [of s] by (auto split: option.splits simp: not_less)
  also have "\<dots> \<longleftrightarrow> (\<forall>s\<in>set (s # ss). service_ok s) \<and> distinct (map service_id (s # ss))
     \<and> service_id ` set (s # ss) \<inter> ids = {} \<and> ids' = ids \<union> service_id ` set (s # ss)"
    unfolding Cons.IH by auto
  finally show ?case .
qed

lemma check_wave_Inr:
  "check_wave ids seen w = Inr seen' \<longleftrightarrow>
     set w \<subseteq> ids \<and> distinct w \<and> set w \<inter> seen = {} \<and> seen' = seen \<union> set w"
  by (induction w arbitrary: seen) auto

lemma check_waves_Inr:
  "check_waves ids seen ws = Inr seen' \<longleftrightarrow>
     [] \<notin> set ws \<and> set (concat ws) \<subseteq> ids \<and> distinct (concat ws) \<and> set (concat ws) \<inter> seen = {}
     \<and> seen' = seen \<union> set (concat ws)"
proof (induction ws arbitrary: seen)
  case Nil
  then show ?case by auto
next
  case (Cons w ws)
  have "check_waves ids seen (w # ws) = Inr seen' \<longleftrightarrow>
     w \<noteq> [] \<and> (\<exists>s1. check_wave ids seen w = Inr s1 \<and> check_waves ids s1 ws = Inr seen')"
    by (auto split: sum.splits)
  also have "\<dots> \<longleftrightarrow> w \<noteq> [] \<and> set w \<subseteq> ids \<and> distinct w \<and> set w \<inter> seen = {}
     \<and> check_waves ids (seen \<union> set w) ws = Inr seen'"
    unfolding check_wave_Inr by auto
  also have "\<dots> \<longleftrightarrow> [] \<notin> set (w # ws) \<and> set (concat (w # ws)) \<subseteq> ids \<and> distinct (concat (w # ws))
     \<and> set (concat (w # ws)) \<inter> seen = {} \<and> seen' = seen \<union> set (concat (w # ws))"
    unfolding Cons.IH by (auto simp: Un_assoc)
  finally show ?case .
qed

lemma validate_cases:
  "\<exists>r. profile_validate p = Some r
     \<and> (r = Inr () \<longleftrightarrow> profile_sound p \<and> no_duplicate_dependency p)
     \<and> (profile_sound p \<and> \<not> no_duplicate_dependency p \<longrightarrow> r = Inl (Invalid ''dependency cycle''))"
proof (cases "trim (profile_id p) = [] \<or> length (profile_id p) > 128
    \<or> selected_services p = [] \<or> length (selected_services p) > max_services")
  case True
  then show ?thesis by (auto simp: profile_validate_def Let_def profile_sound_def)
next
  case basic: False
  let ?ss = "selected_services p" and ?ids = "profile_ids p" and ?ord = "set (concat (upgrade_order p))"
  show ?thesis
  proof (cases "check_services {} ?ss")
    case (Inl e)
    then have "\<not> ((\<forall>s\<in>set ?ss. service_ok s) \<and> distinct (map service_id ?ss))"
      using check_services_Inr [of "{}" ?ss ?ids] by auto
    with Inl basic show ?thesis by (auto simp: profile_validate_def Let_def profile_sound_def)
  next
    case (Inr ids)
    then have svc: "\<forall>s\<in>set ?ss. service_ok s" "distinct (map service_id ?ss)" "ids = ?ids"
      by (simp_all add: check_services_Inr)
    show ?thesis
    proof (cases "total_of dependencies ?ss > max_dependencies
        \<or> total_of required_capabilities ?ss > max_capabilities
        \<or> total_of config_refs ?ss > max_config_refs
        \<or> list_ex (\<lambda>s. list_ex (\<lambda>d. d \<notin> ids) (dependencies s)) ?ss")
      case True
      with basic Inr svc show ?thesis
        by (auto simp: profile_validate_def Let_def profile_sound_def list_ex_iff)
    next
      case bounds: False
      then have ok: "graph_ok ids ?ss"
        using svc by (auto simp: graph_ok_def list_ex_iff)
      show ?thesis
      proof (cases "check_waves ids {} (upgrade_order p)")
        case (Inl e)
        then have "\<not> ([] \<notin> set (upgrade_order p) \<and> ?ord \<subseteq> ids \<and> distinct (concat (upgrade_order p)))"
          using check_waves_Inr [of ids "{}" "upgrade_order p" ?ord] by auto
        then have "\<not> profile_sound p" using svc by (auto simp: profile_sound_def)
        with Inl basic Inr bounds show ?thesis by (auto simp: profile_validate_def Let_def)
      next
        case (Inr ord)
        then have ord: "[] \<notin> set (upgrade_order p)" "ord \<subseteq> ids" "distinct (concat (upgrade_order p))"
          "ord = ?ord" by (simp_all add: check_waves_Inr)
        have "finite ids" using svc by simp
        with ord have full: "card ord = card ids \<longleftrightarrow> ?ord = ?ids"
          using svc(3) by (metis card_subset_eq)
        have empty: "ord = {} \<longleftrightarrow> upgrade_order p = []"
          using ord(1,4) by (cases "upgrade_order p") auto
        obtain n where n: "traverse ids ?ss = Some n"
          "n = card ids \<longleftrightarrow> (\<forall>s\<in>set ?ss. distinct (dependencies s)) \<and> acyclic (dep_edges ?ss)"
          using traverse_decides [OF ok] by blast
        have "profile_sound p \<longleftrightarrow> (upgrade_order p = [] \<or> ?ord = ?ids) \<and> acyclic (dep_edges ?ss)"
          using basic svc bounds ord by (auto simp: profile_sound_def list_ex_iff)
        with basic \<open>check_services {} ?ss = Inr ids\<close> bounds Inr n full empty show ?thesis
          by (simp add: profile_validate_def Let_def no_duplicate_dependency_def)
      qed
    qed
  qed
qed

text \<open>
  C4: validation of a profile always returns (the traversal neither runs for ever nor
  underflows an in-degree), and it accepts exactly the profiles that meet the declarative
  specification: bounded, secret-free references, distinct services that depend only on
  selected services, an upgrade order that is absent or covers every service once, an acyclic
  dependency graph, and no duplicate in a dependency list.
\<close>

theorem profile_validate_decides:
  "\<exists>r. profile_validate p = Some r
     \<and> (r = Inr () \<longleftrightarrow> profile_sound p \<and> no_duplicate_dependency p)"
  using validate_cases [of p] by blast

text \<open>
  A profile that is in order but for a dependency written twice is rejected, and the error
  says its acyclic graph has a cycle: the in-degree counts both occurrences, the traversal
  subtracts one.
\<close>

theorem duplicate_dependency_is_cycle:
  assumes "profile_sound p" and "\<not> no_duplicate_dependency p"
  shows "profile_validate p = Some (Inl (Invalid ''dependency cycle''))
    \<and> acyclic (dep_edges (selected_services p))"
  using validate_cases [of p] assms by (auto simp: profile_sound_def)


theorem duplicate_dependency_is_cycle_witness:
  "\<exists>p. length (selected_services p) = 2
     \<and> profile_validate p = Some (Inl (Invalid ''dependency cycle''))
     \<and> acyclic (dep_edges (selected_services p))"
proof -
  let ?svc = "\<lambda>i ds. \<lparr>service_id = i, ownership = O3kImplemented, version_requirement = ''*'',
      dependencies = ds, required_capabilities = [], locality = None,
      placement_requirement = None, config_refs = []\<rparr>"
  let ?p = "\<lambda>ds. \<lparr>profile_id = ''edge'', profile_generation = 1,
      selected_services = [?svc ''a'' [], ?svc ''b'' ds], upgrade_order = []\<rparr>"
  have "profile_validate (?p [''a'']) = Some (Inr ())" by code_simp
  then have "profile_sound (?p [''a''])" using validate_cases [of "?p [''a'']"] by auto
  then have sound: "profile_sound (?p [''a'', ''a''])"
    by (simp add: profile_sound_def service_ok_def dep_edges_def total_of_def
        max_dependencies_def)
  have "\<not> no_duplicate_dependency (?p [''a'', ''a''])"
    by (simp add: no_duplicate_dependency_def)
  from duplicate_dependency_is_cycle [OF sound this] show ?thesis
    by (intro exI[of _ "?p [''a'', ''a'']"]) simp
qed

lemma implicit_default_valid: "profile_validate implicit_default = Some (Inr ())"
  by code_simp

end
