(* ===== verification/Kernel_Quota.thy ===== *)
theory Kernel_Quota
  imports Kernel_Identifiers
begin

text \<open>
  The quota vocabulary of the Cloud Kernel (\<open>crates/o3k-kernel/src/quota.rs\<close>): limit keys and
  the inventory of governed dimensions, limits, amounts, usage, reservations and the decision
  on one request. Lemmas: keys survive their textual form, the decision is the comparison of
  unbounded numbers in spite of its 64-bit arithmetic. Random identifiers and the clock are
  arguments.
\<close>

section \<open>Limit keys\<close>

datatype limit_key = LimitKey (key_namespace: service_namespace) (key_resource: string)

definition known_dimensions :: "(string \<times> string) list" where
  "known_dimensions =
     [(''compute'', ''servers''), (''compute'', ''vcpus''), (''compute'', ''memory_mb''),
      (''compute'', ''disk_gb''), (''image'', ''images''), (''image'', ''bytes''),
      (''network'', ''networks''), (''network'', ''subnets''), (''network'', ''ports'')]"

definition is_known_dimension :: "string \<Rightarrow> string \<Rightarrow> bool" where
  "is_known_dimension ns res = list_ex (\<lambda>d. fst d = ns \<and> snd d = res) known_dimensions"

definition is_known :: "limit_key \<Rightarrow> bool" where
  "is_known k = is_known_dimension (namespace_str (key_namespace k)) (key_resource k)"

definition key_unit :: "limit_key \<Rightarrow> string" where
  "key_unit k =
     (let d = (namespace_str (key_namespace k), key_resource k) in
      if d = (''compute'', ''memory_mb'') then ''mebibytes''
      else if d = (''compute'', ''disk_gb'') then ''gibibytes''
      else if d = (''image'', ''bytes'') then ''bytes''
      else ''count'')"

definition limit_key_new :: "string \<Rightarrow> string \<Rightarrow> (kernel_error, limit_key) rust_result" where
  "limit_key_new namespace resource =
     (case service_namespace_new namespace of
        Inl e \<Rightarrow> Inl e
      | Inr ns \<Rightarrow>
          let clean = to_ascii_lowercase resource in
          if clean = [] \<or> length clean > 64 then Inl InvalidIdentifier
          else if \<not> list_all (\<lambda>c. is_ascii_alphanumeric c \<or> c = CHR ''_'' \<or> c = CHR ''-'') clean
          then Inl InvalidIdentifier
          else if \<not> is_known_dimension (namespace_str ns) clean then Inl InvalidIdentifier
          else Inr (LimitKey ns clean))"

definition limit_key_new_unchecked :: "service_namespace \<Rightarrow> string \<Rightarrow> limit_key" where
  "limit_key_new_unchecked ns resource = LimitKey ns (to_ascii_lowercase resource)"

definition limit_key_to_string :: "limit_key \<Rightarrow> string" where
  "limit_key_to_string k = namespace_str (key_namespace k) @ CHR '':'' # key_resource k"

definition limit_key_from_str :: "string \<Rightarrow> (kernel_error, limit_key) rust_result" where
  "limit_key_from_str s =
     (case split_once CHR '':'' s of
        None \<Rightarrow> Inl InvalidIdentifier
      | Some (ns, res) \<Rightarrow> limit_key_new ns res)"

text \<open>The derived order compares the namespace, then the resource.\<close>

instantiation limit_key :: linorder
begin

definition less_eq_limit_key :: "limit_key \<Rightarrow> limit_key \<Rightarrow> bool" where
  "less_eq_limit_key a b \<longleftrightarrow>
     namespace_str (key_namespace a) < namespace_str (key_namespace b)
     \<or> namespace_str (key_namespace a) = namespace_str (key_namespace b)
       \<and> key_resource a \<le> key_resource b"

definition less_limit_key :: "limit_key \<Rightarrow> limit_key \<Rightarrow> bool" where
  "less_limit_key a b \<longleftrightarrow> a \<le> b \<and> \<not> b \<le> (a::limit_key)"

instance
proof
  fix x y z :: limit_key
  show "x < y \<longleftrightarrow> x \<le> y \<and> \<not> y \<le> x" by (rule less_limit_key_def)
  show "x \<le> x" by (simp add: less_eq_limit_key_def)
  show "x \<le> y \<Longrightarrow> y \<le> z \<Longrightarrow> x \<le> z" by (auto simp: less_eq_limit_key_def)
  show "x \<le> y \<Longrightarrow> y \<le> x \<Longrightarrow> x = y"
    by (auto simp: less_eq_limit_key_def limit_key.expand service_namespace.expand)
  show "x \<le> y \<or> y \<le> x" by (auto simp: less_eq_limit_key_def)
qed

end

section \<open>Limits, amounts, usage, reservations\<close>

datatype limit_value = Unlimited | Maximum u64

definition new_maximum_checked :: "u64 \<Rightarrow> (kernel_error, limit_value) rust_result" where
  "new_maximum_checked m = (if uint m > i64_max then Inl InvalidIdentifier else Inr (Maximum m))"

definition limit_to_string :: "limit_value \<Rightarrow> string" where
  "limit_to_string l = (case l of Unlimited \<Rightarrow> ''unlimited'' | Maximum m \<Rightarrow> show_nat (unat m))"

record resource_amount =
  amount_key :: limit_key
  amount_value :: u64

definition amount_new :: "limit_key \<Rightarrow> u64 \<Rightarrow> resource_amount" where
  "amount_new k a = \<lparr>amount_key = k, amount_value = a\<rparr>"

definition amount_new_checked :: "limit_key \<Rightarrow> u64 \<Rightarrow> (kernel_error, resource_amount) rust_result" where
  "amount_new_checked k a =
     (if uint a > i64_max then Inl InvalidIdentifier else Inr \<lparr>amount_key = k, amount_value = a\<rparr>)"

record usage =
  usage_scope :: ownership_scope
  usage_key :: limit_key
  in_use :: u64
  reserved :: u64

definition total_consumed :: "usage \<Rightarrow> u64 option" where
  "total_consumed u = checked_add (in_use u) (reserved u)"

datatype reservation_id = ReservationId (reservation_id_str: string)

definition reservation_id_parse :: "string \<Rightarrow> (kernel_error, reservation_id) rust_result" where
  "reservation_id_parse s =
     (if s = [] \<or> length s > 128 then Inl InvalidIdentifier else Inr (ReservationId s))"

datatype reservation_state = Pending | Committed | Released

fun reservation_state_str :: "reservation_state \<Rightarrow> string" where
  "reservation_state_str Pending = ''pending''"
| "reservation_state_str Committed = ''committed''"
| "reservation_state_str Released = ''released''"

record reservation =
  res_id :: reservation_id
  res_scope :: ownership_scope
  res_operation :: string
  res_amounts :: "resource_amount list"
  res_state :: reservation_state
  res_created_at :: string

definition reservation_new ::
  "string \<Rightarrow> string \<Rightarrow> ownership_scope \<Rightarrow> string \<Rightarrow> resource_amount list \<Rightarrow> reservation" where
  "reservation_new uuid now scope op amounts =
     \<lparr>res_id = ReservationId uuid, res_scope = scope, res_operation = op, res_amounts = amounts,
      res_state = Pending, res_created_at = now\<rparr>"

section \<open>The decision on one request\<close>

datatype quota_decision =
    QuotaAllowed
  | QuotaDenied limit_key limit_value u64 u64 string

definition quota_is_allowed :: "quota_decision \<Rightarrow> bool" where
  "quota_is_allowed d = (case d of QuotaAllowed \<Rightarrow> True | QuotaDenied _ _ _ _ _ \<Rightarrow> False)"

definition quota_evaluate :: "limit_key \<Rightarrow> limit_value \<Rightarrow> u64 \<Rightarrow> u64 \<Rightarrow> quota_decision" where
  "quota_evaluate k limit used requested =
     (case limit of
        Unlimited \<Rightarrow> QuotaAllowed
      | Maximum m \<Rightarrow>
          (case checked_add used requested of
             Some consumed \<Rightarrow>
               if consumed \<le> m then QuotaAllowed
               else QuotaDenied k limit used requested
                 (''Quota exceeded for '' @ CHR 0x27 # limit_key_to_string k @ CHR 0x27
                  # '': limit '' @ show_nat (unat m) @ '', used '' @ show_nat (unat used)
                  @ '', requested '' @ show_nat (unat requested))
           | None \<Rightarrow>
               QuotaDenied k limit used requested
                 (''Quota arithmetic overflow for '' @ CHR 0x27 # limit_key_to_string k @ CHR 0x27
                  # '': used '' @ show_nat (unat used) @ '', requested ''
                  @ show_nat (unat requested))))"

lemma evaluate_allowed:
  "quota_is_allowed (quota_evaluate k l u r) \<longleftrightarrow>
     (case l of Unlimited \<Rightarrow> True | Maximum m \<Rightarrow> unat u + unat r \<le> unat m)"
proof (cases l)
  case (Maximum m)
  show ?thesis
  proof (cases "checked_add u r")
    case None
    then have "\<not> unat u + unat r \<le> unat m"
      using unat_less_exp [of m] by (simp add: checked_add_None)
    with None Maximum show ?thesis by (simp add: quota_evaluate_def quota_is_allowed_def)
  next
    case (Some c)
    then have "unat c = unat u + unat r" by (simp add: checked_add_eq_Some)
    with Some Maximum show ?thesis
      by (simp add: quota_evaluate_def quota_is_allowed_def word_le_nat_alt)
  qed
qed (simp add: quota_evaluate_def quota_is_allowed_def)

section \<open>Keys and their textual form\<close>

lemma is_known_cases:
  assumes "is_known k"
  obtains d where "d \<in> set known_dimensions"
    "k = LimitKey (ServiceNamespace (fst d)) (snd d)"
  using assms
  by (cases k, cases "key_namespace k")
    (auto simp: is_known_def is_known_dimension_def list_ex_iff)

lemma known_dimension_new:
  "d \<in> set known_dimensions \<Longrightarrow>
   limit_key_new (fst d) (snd d) = Inr (LimitKey (ServiceNamespace (fst d)) (snd d))
   \<and> CHR '':'' \<notin> set (fst d)"
proof -
  have "list_all (\<lambda>d. limit_key_new (fst d) (snd d) = Inr (LimitKey (ServiceNamespace (fst d)) (snd d))
      \<and> list_all (\<lambda>c. c \<noteq> CHR '':'') (fst d)) known_dimensions"
    by code_simp
  then show "d \<in> set known_dimensions \<Longrightarrow> ?thesis" by (auto simp: list_all_iff)
qed

lemma limit_key_new_of_known:
  "is_known k \<Longrightarrow> limit_key_new (namespace_str (key_namespace k)) (key_resource k) = Inr k"
  using known_dimension_new by (elim is_known_cases) auto

lemma limit_key_new_known: "limit_key_new ns res = Inr k \<Longrightarrow> is_known k"
  by (auto simp: limit_key_new_def is_known_def Let_def split: sum.splits if_splits)

text \<open>
  Whatever spelling a limit key was built from, it is one of the governed dimensions and
  is recovered from the string that \<open>Display\<close> writes.
\<close>

theorem limit_key_roundtrip:
  assumes "limit_key_new ns res = Inr k"
  shows "is_known k \<and> limit_key_from_str (limit_key_to_string k) = Inr k"
proof -
  have k: "is_known k" using assms by (rule limit_key_new_known)
  moreover from k known_dimension_new have "CHR '':'' \<notin> set (namespace_str (key_namespace k))"
    by (elim is_known_cases) auto
  ultimately show ?thesis
    using limit_key_new_of_known [OF k]
    by (simp add: limit_key_from_str_def limit_key_to_string_def split_once_append)
qed

theorem limit_key_roundtrip_witness:
  "limit_key_from_str ''compute:vcpus'' = Inr (LimitKey (ServiceNamespace ''compute'') ''vcpus'')"
proof -
  have "limit_key_new ''Compute'' ''VCPUs'' = Inr (LimitKey (ServiceNamespace ''compute'') ''vcpus'')"
    by code_simp
  from limit_key_roundtrip [OF this] show ?thesis
    by (simp add: limit_key_to_string_def)
qed

text \<open>
  A request is allowed exactly when usage and request together, as unbounded numbers, do
  not exceed a finite limit: neither the 64-bit addition nor its overflow branch changes the
  decision.
\<close>

theorem quota_evaluate_exact:
  "quota_is_allowed (quota_evaluate k l used requested) \<longleftrightarrow>
     l = Unlimited \<or> (\<exists>m. l = Maximum m \<and> unat used + unat requested \<le> unat m)"
  unfolding evaluate_allowed by (cases l) auto

end
