(* ===== verification/Store_Quota.thy ===== *)
theory Store_Quota
  imports Kernel_Quota "HOL-Library.Product_Lexorder" "HOL-Library.Multiset"
begin

text \<open>
  The quota repository of the store (\<open>crates/o3k-store/src/quota.rs\<close>, the SQLite
  implementation, over the tables of \<open>migrations/0018_quotas.sql\<close> and
  \<open>0043_quota_generations.sql\<close>): limits with their optimistic generation, usage,
  reservations and their life. Tables are lists of rows in insertion order, or maps where the
  code only ever addresses a row by its key; a transaction that fails leaves the database as
  it was. \<open>Database\<close> stands for the errors SQLite itself reports (a violated key, an
  overflowing sum); input/output errors are not modelled.
  Lemmas: the invariant of the tables, no reservation exceeds its limits, retries are
  idempotent, the life of a reservation, and the optimistic concurrency of limits.
\<close>

section \<open>Tables\<close>

datatype quota_error =
    Database | Corrupt | AuditEventConflict | QuotaGenerationConflict
  | QuotaExceeded limit_key limit_value u64 u64
  | ReservationConflict string | ReservationNotFound

record audit_event_record =
  event_id :: string
  timestamp :: string
  request_id :: string
  audit_id :: string
  principal_id :: string
  principal_kind :: string
  effective_scope :: string
  service :: string
  audit_action :: string
  resource_type :: "string option"
  resource_id :: "string option"
  owner_scope :: "string option"
  operation_id :: "string option"
  outcome :: string
  reason_category :: "string option"

record limit_row =
  limit_column :: "int option"
  generation_column :: int

type_synonym limit_pk = "string \<times> string \<times> string \<times> string"

record reservation_row =
  rr_id :: string
  rr_scope_id :: string
  rr_scope_kind :: string
  rr_operation :: string
  rr_state :: string
  rr_created_at :: string

record amount_row =
  ar_reservation :: string
  ar_namespace :: string
  ar_resource :: string
  ar_amount :: int

record resource_row =
  rs_id :: string
  rs_kind :: string
  rs_project :: string
  rs_observed :: string

record allocation_row =
  al_id :: string
  al_consumer :: string

record allocation_resource_row =
  alr_allocation :: string
  alr_class :: string
  alr_amount :: int

record image_row =
  im_project :: string
  im_status :: string
  im_size :: "int option"

record quota_db =
  quota_limits :: "limit_pk \<rightharpoonup> limit_row"
  quota_reservations :: "reservation_row list"
  quota_reservation_amounts :: "amount_row list"
  audit_events :: "string \<rightharpoonup> audit_event_record"
  resources :: "resource_row list"
  placement_allocations :: "allocation_row list"
  placement_allocation_resources :: "allocation_resource_row list"
  image_metadata :: "image_row list"
  network_networks :: "(string \<times> string) list"
  network_subnets :: "string list"
  network_ports :: "string list"
  network_address_allocations :: "string list"

definition limit_pk_of :: "ownership_scope \<Rightarrow> limit_key \<Rightarrow> limit_pk" where
  "limit_pk_of scope k =
     (scope_id_str (scope_id scope), scope_kind_as_str (scope_kind scope),
      namespace_str (key_namespace k), key_resource k)"

section \<open>Limits\<close>

definition limit_of_column :: "int option \<Rightarrow> (quota_error, limit_value) rust_result" where
  "limit_of_column c =
     (case c of
        None \<Rightarrow> Inr Unlimited
      | Some m \<Rightarrow> (case u64_of_i64 m of Some w \<Rightarrow> Inr (Maximum w) | None \<Rightarrow> Inl Corrupt))"

definition limit_to_column :: "limit_value \<Rightarrow> (quota_error, int option) rust_result" where
  "limit_to_column l =
     (case l of
        Unlimited \<Rightarrow> Inr None
      | Maximum m \<Rightarrow> (case i64_of_u64 m of Some i \<Rightarrow> Inr (Some i) | None \<Rightarrow> Inl Corrupt))"

definition get_limit_state ::
  "quota_db \<Rightarrow> ownership_scope \<Rightarrow> limit_key \<Rightarrow> (quota_error, limit_value \<times> u64) rust_result" where
  "get_limit_state db scope k =
     (if \<not> is_known k then Inl Corrupt
      else case quota_limits db (limit_pk_of scope k) of
             None \<Rightarrow> Inr (Unlimited, 0)
           | Some row \<Rightarrow>
               (case u64_of_i64 (generation_column row) of
                  None \<Rightarrow> Inl Corrupt
                | Some g \<Rightarrow>
                    (case limit_of_column (limit_column row) of
                       Inl e \<Rightarrow> Inl e
                     | Inr l \<Rightarrow> Inr (l, g))))"

text \<open>
  The upsert of the compare-and-set: a row that is present is replaced if its generation is the
  expected one; a row that is absent is inserted. The result says whether a row was written.
\<close>

definition upsert_limit ::
  "quota_db \<Rightarrow> limit_pk \<Rightarrow> int option \<Rightarrow> int \<Rightarrow> int \<Rightarrow> quota_db option" where
  "upsert_limit db pk col next_gen expected =
     (case quota_limits db pk of
        None \<Rightarrow>
          Some (db\<lparr>quota_limits := (quota_limits db)(pk \<mapsto>
            \<lparr>limit_column = col, generation_column = next_gen\<rparr>)\<rparr>)
      | Some row \<Rightarrow>
          if generation_column row = expected
          then Some (db\<lparr>quota_limits := (quota_limits db)(pk \<mapsto>
            \<lparr>limit_column = col, generation_column = next_gen\<rparr>)\<rparr>)
          else None)"

definition set_limit_if_generation ::
  "quota_db \<Rightarrow> ownership_scope \<Rightarrow> limit_key \<Rightarrow> limit_value \<Rightarrow> u64
     \<Rightarrow> (quota_error, u64 \<times> quota_db) rust_result" where
  "set_limit_if_generation db scope k limit expected =
     (if \<not> is_known k then Inl Corrupt
      else case i64_of_u64 expected of None \<Rightarrow> Inl Corrupt | Some expected_i \<Rightarrow>
           case checked_add expected 1 of None \<Rightarrow> Inl Corrupt | Some next_gen \<Rightarrow>
           case i64_of_u64 next_gen of None \<Rightarrow> Inl Corrupt | Some next_i \<Rightarrow>
           case limit_to_column limit of Inl e \<Rightarrow> Inl e | Inr col \<Rightarrow>
           case upsert_limit db (limit_pk_of scope k) col next_i expected_i of
             None \<Rightarrow> Inl QuotaGenerationConflict
           | Some db' \<Rightarrow> Inr (next_gen, db'))"

definition set_limit_if_generation_with_audit ::
  "quota_db \<Rightarrow> ownership_scope \<Rightarrow> limit_key \<Rightarrow> limit_value \<Rightarrow> u64 \<Rightarrow> audit_event_record
     \<Rightarrow> (quota_error, u64 \<times> quota_db) rust_result" where
  "set_limit_if_generation_with_audit db scope k limit expected audit =
     (if \<not> is_known k then Inl Corrupt
      else case i64_of_u64 expected of None \<Rightarrow> Inl Corrupt | Some expected_i \<Rightarrow>
           case checked_add expected 1 of None \<Rightarrow> Inl Corrupt | Some next_gen \<Rightarrow>
           case i64_of_u64 next_gen of None \<Rightarrow> Inl Corrupt | Some next_i \<Rightarrow>
           case limit_to_column limit of Inl e \<Rightarrow> Inl e | Inr col \<Rightarrow>
           case upsert_limit db (limit_pk_of scope k) col next_i expected_i of
             None \<Rightarrow> Inl QuotaGenerationConflict
           | Some db' \<Rightarrow>
               (case audit_events db' (event_id audit) of
                  Some _ \<Rightarrow> Inl AuditEventConflict
                | None \<Rightarrow>
                    Inr (next_gen,
                      db'\<lparr>audit_events := (audit_events db')(event_id audit \<mapsto> audit)\<rparr>)))"

definition get_limit ::
  "quota_db \<Rightarrow> ownership_scope \<Rightarrow> limit_key \<Rightarrow> (quota_error, limit_value) rust_result" where
  "get_limit db scope k =
     (if \<not> is_known k then Inl Corrupt
      else case quota_limits db (limit_pk_of scope k) of
             None \<Rightarrow> Inr Unlimited
           | Some row \<Rightarrow> limit_of_column (limit_column row))"

definition set_limit ::
  "quota_db \<Rightarrow> ownership_scope \<Rightarrow> limit_key \<Rightarrow> limit_value
     \<Rightarrow> (quota_error, quota_db) rust_result" where
  "set_limit db scope k limit =
     (if \<not> is_known k then Inl Corrupt
      else case limit_to_column limit of Inl e \<Rightarrow> Inl e | Inr col \<Rightarrow>
        let pk = limit_pk_of scope k;
            g = (case quota_limits db pk of None \<Rightarrow> 1 | Some row \<Rightarrow> generation_column row + 1)
        in Inr (db\<lparr>quota_limits := (quota_limits db)(pk \<mapsto>
                 \<lparr>limit_column = col, generation_column = g\<rparr>)\<rparr>))"

section \<open>Usage\<close>

definition parse_non_negative_u64 :: "int \<Rightarrow> (quota_error, u64) rust_result" where
  "parse_non_negative_u64 v = (case u64_of_i64 v of Some w \<Rightarrow> Inr w | None \<Rightarrow> Inl Corrupt)"

definition parse_sum :: "int list \<Rightarrow> (quota_error, u64) rust_result" where
  "parse_sum xs = (case sql_sum 0 xs of None \<Rightarrow> Inl Database | Some v \<Rightarrow> parse_non_negative_u64 v)"

definition parse_count :: "'a list \<Rightarrow> (quota_error, u64) rust_result" where
  "parse_count xs = parse_non_negative_u64 (int (length xs))"

text \<open>
  \<open>UPPER(x) NOT IN ('DELETED', 'ERROR')\<close>: SQLite's \<open>UPPER\<close> changes ASCII letters only, so
  the comparison is one that ignores the case of ASCII letters.
\<close>

definition live_instance :: "string \<Rightarrow> resource_row \<Rightarrow> bool" where
  "live_instance project r =
     (rs_project r = project \<and> rs_kind r = ''compute_instance''
      \<and> \<not> eq_ignore_ascii_case (rs_observed r) ''DELETED''
      \<and> \<not> eq_ignore_ascii_case (rs_observed r) ''ERROR'')"

definition allocated :: "quota_db \<Rightarrow> string \<Rightarrow> string \<Rightarrow> int list" where
  "allocated db project cls =
     [alr_amount r. a \<leftarrow> placement_allocations db, r \<leftarrow> placement_allocation_resources db,
                    res \<leftarrow> resources db,
                    al_id a = alr_allocation r \<and> al_consumer a = rs_id res
                    \<and> live_instance project res \<and> alr_class r = cls]"

definition query_in_use_usage ::
  "quota_db \<Rightarrow> ownership_scope \<Rightarrow> limit_key \<Rightarrow> (quota_error, u64) rust_result" where
  "query_in_use_usage db scope k =
     (let d = (namespace_str (key_namespace k), key_resource k);
          project = scope_id_str (scope_id scope) in
      if d = (''compute'', ''servers'') then parse_count (filter (live_instance project) (resources db))
      else if d = (''compute'', ''vcpus'') then parse_sum (allocated db project ''VCPU'')
      else if d = (''compute'', ''memory_mb'') then parse_sum (allocated db project ''MEMORY_MB'')
      else if d = (''compute'', ''disk_gb'') then parse_sum (allocated db project ''DISK_GB'')
      else if d = (''image'', ''images'') then
        parse_count (filter (\<lambda>i. im_project i = project \<and> im_status i \<noteq> ''deleted'')
          (image_metadata db))
      else if d = (''image'', ''bytes'') then
        parse_sum (List.map_filter im_size
          (filter (\<lambda>i. im_project i = project \<and> im_status i = ''active'') (image_metadata db)))
      else if d = (''network'', ''networks'') then
        parse_count (filter (\<lambda>n. fst n = project \<and> snd n \<noteq> ''deleted'') (network_networks db))
      else if d = (''network'', ''subnets'') then
        parse_count (filter (\<lambda>n. n = project) (network_subnets db))
      else if d = (''network'', ''ports'') then
        parse_count (filter (\<lambda>n. n = project) (network_ports db))
      else if d = (''network'', ''address_allocations'') then
        parse_count (filter (\<lambda>n. n = project) (network_address_allocations db))
      else Inl Corrupt)"

definition held_by :: "ownership_scope \<Rightarrow> string option \<Rightarrow> reservation_row \<Rightarrow> bool" where
  "held_by scope exclude_op r =
     (rr_scope_id r = scope_id_str (scope_id scope)
      \<and> rr_scope_kind r = scope_kind_as_str (scope_kind scope) \<and> rr_state r = ''pending''
      \<and> (case exclude_op of None \<Rightarrow> True | Some op \<Rightarrow> rr_operation r \<noteq> op))"

definition amount_for :: "string \<Rightarrow> limit_key \<Rightarrow> amount_row \<Rightarrow> bool" where
  "amount_for rid k a =
     (ar_reservation a = rid \<and> ar_namespace a = namespace_str (key_namespace k)
      \<and> ar_resource a = key_resource k)"

definition held_amounts ::
  "quota_db \<Rightarrow> ownership_scope \<Rightarrow> limit_key \<Rightarrow> string option \<Rightarrow> int list" where
  "held_amounts db scope k exclude_op =
     concat (map (\<lambda>r. map ar_amount (filter (amount_for (rr_id r) k)
                         (quota_reservation_amounts db)))
       (filter (held_by scope exclude_op) (quota_reservations db)))"

definition query_reserved_usage ::
  "quota_db \<Rightarrow> ownership_scope \<Rightarrow> limit_key \<Rightarrow> string option \<Rightarrow> (quota_error, u64) rust_result" where
  "query_reserved_usage db scope k exclude_op = parse_sum (held_amounts db scope k exclude_op)"

definition get_usage ::
  "quota_db \<Rightarrow> ownership_scope \<Rightarrow> limit_key \<Rightarrow> (quota_error, usage) rust_result" where
  "get_usage db scope k =
     (if \<not> is_known k then Inl Corrupt
      else case query_in_use_usage db scope k of Inl e \<Rightarrow> Inl e | Inr used \<Rightarrow>
           case query_reserved_usage db scope k None of Inl e \<Rightarrow> Inl e | Inr held \<Rightarrow>
             Inr \<lparr>usage_scope = scope, usage_key = k, in_use = used, reserved = held\<rparr>)"

section \<open>Reservations\<close>

definition amounts_match :: "resource_amount list \<Rightarrow> resource_amount list \<Rightarrow> bool" where
  "amounts_match a b =
     (length a = length b
      \<and> sort (map (\<lambda>x. (amount_key x, amount_value x)) a)
        = sort (map (\<lambda>x. (amount_key x, amount_value x)) b))"

fun read_amounts :: "amount_row list \<Rightarrow> (quota_error, resource_amount list) rust_result" where
  "read_amounts [] = Inr []"
| "read_amounts (a # as) =
     (if ar_amount a < 0 then Inl Corrupt
      else case limit_key_new (ar_namespace a) (ar_resource a) of
             Inl _ \<Rightarrow> Inl Corrupt
           | Inr k \<Rightarrow>
               (case read_amounts as of
                  Inl e \<Rightarrow> Inl e
                | Inr rest \<Rightarrow> Inr (amount_new k (word_of_int (ar_amount a)) # rest)))"

definition scope_kind_of_str :: "string \<Rightarrow> scope_kind" where
  "scope_kind_of_str s =
     (if s = ''domain'' then Domain else if s = ''system'' then System else Project)"

definition reservation_state_of_str :: "string \<Rightarrow> reservation_state" where
  "reservation_state_of_str s =
     (if s = ''committed'' then Committed else if s = ''released'' then Released else Pending)"

definition query_reservation_by_op ::
  "quota_db \<Rightarrow> string \<Rightarrow> (quota_error, reservation option) rust_result" where
  "query_reservation_by_op db op =
     (case find (\<lambda>r. rr_operation r = op) (quota_reservations db) of
        None \<Rightarrow> Inr None
      | Some r \<Rightarrow>
          (case read_amounts (filter (\<lambda>a. ar_reservation a = rr_id r)
                  (quota_reservation_amounts db)) of
             Inl e \<Rightarrow> Inl e
           | Inr amounts \<Rightarrow>
               (case reservation_id_parse (rr_id r) of
                  Inl _ \<Rightarrow> Inl Corrupt
                | Inr i \<Rightarrow>
                    Inr (Some \<lparr>res_id = i,
                      res_scope = \<lparr>scope_id = ScopeId (rr_scope_id r),
                        scope_kind = scope_kind_of_str (rr_scope_kind r),
                        scope_name = None, scope_domain_id = None\<rparr>,
                      res_operation = rr_operation r, res_amounts = amounts,
                      res_state = reservation_state_of_str (rr_state r),
                      res_created_at = rr_created_at r\<rparr>))))"

definition get_reservation_for_operation ::
  "quota_db \<Rightarrow> string \<Rightarrow> (quota_error, reservation option) rust_result" where
  "get_reservation_for_operation db op = query_reservation_by_op db op"

fun validate_amounts :: "limit_key set \<Rightarrow> resource_amount list \<Rightarrow> quota_error option" where
  "validate_amounts seen [] = None"
| "validate_amounts seen (a # as) =
     (if \<not> is_known (amount_key a) then Some Corrupt
      else if i64_of_u64 (amount_value a) = None then Some Corrupt
      else if amount_key a \<in> seen then Some Corrupt
      else validate_amounts (insert (amount_key a) seen) as)"

definition query_limit_in_tx ::
  "quota_db \<Rightarrow> ownership_scope \<Rightarrow> limit_key \<Rightarrow> (quota_error, limit_value) rust_result" where
  "query_limit_in_tx db scope k =
     (if \<not> is_known k then Inl Corrupt
      else case quota_limits db (limit_pk_of scope k) of
             None \<Rightarrow> Inr Unlimited
           | Some row \<Rightarrow> limit_of_column (limit_column row))"

definition check_limit ::
  "quota_db \<Rightarrow> ownership_scope \<Rightarrow> resource_amount \<Rightarrow> quota_error option" where
  "check_limit db scope a =
     (case query_limit_in_tx db scope (amount_key a) of
        Inl e \<Rightarrow> Some e
      | Inr Unlimited \<Rightarrow> None
      | Inr (Maximum m) \<Rightarrow>
          (case query_in_use_usage db scope (amount_key a) of
             Inl e \<Rightarrow> Some e
           | Inr used_now \<Rightarrow>
               (case query_reserved_usage db scope (amount_key a) None of
                  Inl e \<Rightarrow> Some e
                | Inr held \<Rightarrow>
                    (case checked_add used_now held of
                       None \<Rightarrow> Some Corrupt
                     | Some used \<Rightarrow>
                         (case checked_add used (amount_value a) of
                            None \<Rightarrow> Some Corrupt
                          | Some required \<Rightarrow>
                              if required > m
                              then Some (QuotaExceeded (amount_key a) (Maximum m) used
                                           (amount_value a))
                              else None)))))"

fun check_limits ::
  "quota_db \<Rightarrow> ownership_scope \<Rightarrow> resource_amount list \<Rightarrow> quota_error option" where
  "check_limits db scope [] = None"
| "check_limits db scope (a # as) =
     (case check_limit db scope a of Some e \<Rightarrow> Some e | None \<Rightarrow> check_limits db scope as)"

text \<open>
  The inserts fail on a taken primary key or operation identifier (both \<open>UNIQUE\<close>).
\<close>

definition insert_reservation ::
  "quota_db \<Rightarrow> ownership_scope \<Rightarrow> reservation \<Rightarrow> (quota_error, quota_db) rust_result" where
  "insert_reservation db scope r =
     (let row = \<lparr>rr_id = reservation_id_str (res_id r),
                 rr_scope_id = scope_id_str (scope_id scope),
                 rr_scope_kind = scope_kind_as_str (scope_kind scope),
                 rr_operation = res_operation r,
                 rr_state = reservation_state_str (res_state r),
                 rr_created_at = res_created_at r\<rparr>
      in if list_ex (\<lambda>q. rr_id q = rr_id row \<or> rr_operation q = rr_operation row)
              (quota_reservations db)
         then Inl Database
         else Inr (db\<lparr>quota_reservations := quota_reservations db @ [row]\<rparr>))"

fun insert_amounts ::
  "quota_db \<Rightarrow> string \<Rightarrow> resource_amount list \<Rightarrow> (quota_error, quota_db) rust_result" where
  "insert_amounts db rid [] = Inr db"
| "insert_amounts db rid (a # as) =
     (case i64_of_u64 (amount_value a) of
        None \<Rightarrow> Inl Corrupt
      | Some v \<Rightarrow>
          if list_ex (amount_for rid (amount_key a)) (quota_reservation_amounts db)
          then Inl Database
          else insert_amounts
                 (db\<lparr>quota_reservation_amounts := quota_reservation_amounts db @
                    [\<lparr>ar_reservation = rid,
                      ar_namespace = namespace_str (key_namespace (amount_key a)),
                      ar_resource = key_resource (amount_key a), ar_amount = v\<rparr>]\<rparr>)
                 rid as)"

definition reserve_quota ::
  "string \<Rightarrow> string \<Rightarrow> quota_db \<Rightarrow> ownership_scope \<Rightarrow> string \<Rightarrow> resource_amount list
     \<Rightarrow> (quota_error, reservation \<times> quota_db) rust_result" where
  "reserve_quota uuid now db scope op amounts =
     (case validate_amounts {} amounts of Some e \<Rightarrow> Inl e | None \<Rightarrow>
      case query_reservation_by_op db op of
        Inl e \<Rightarrow> Inl e
      | Inr (Some r) \<Rightarrow>
          if res_state r = Released then Inl (ReservationConflict op)
          else if scope_id (res_scope r) = scope_id scope
                  \<and> scope_kind (res_scope r) = scope_kind scope
                  \<and> amounts_match (res_amounts r) amounts
          then Inr (r, db)
          else Inl (ReservationConflict op)
      | Inr None \<Rightarrow>
          (case check_limits db scope amounts of Some e \<Rightarrow> Inl e | None \<Rightarrow>
           let r = reservation_new uuid now scope op amounts in
           case insert_reservation db scope r of Inl e \<Rightarrow> Inl e | Inr db1 \<Rightarrow>
           case insert_amounts db1 uuid amounts of Inl e \<Rightarrow> Inl e | Inr db2 \<Rightarrow>
             Inr (r, db2)))"

definition update_reservations ::
  "(reservation_row \<Rightarrow> bool) \<Rightarrow> string \<Rightarrow> quota_db \<Rightarrow> quota_db" where
  "update_reservations p s db =
     db\<lparr>quota_reservations :=
          map (\<lambda>r. if p r then r\<lparr>rr_state := s\<rparr> else r) (quota_reservations db)\<rparr>"

definition commit_reservation ::
  "quota_db \<Rightarrow> reservation_id \<Rightarrow> (quota_error, quota_db) rust_result" where
  "commit_reservation db i =
     (let hit = (\<lambda>r. rr_id r = reservation_id_str i \<and> rr_state r = ''pending'') in
      if list_ex hit (quota_reservations db)
      then Inr (update_reservations hit ''committed'' db)
      else if list_ex (\<lambda>r. rr_id r = reservation_id_str i) (quota_reservations db)
      then Inr db
      else Inl ReservationNotFound)"

definition release_reservation ::
  "quota_db \<Rightarrow> reservation_id \<Rightarrow> (quota_error, quota_db) rust_result" where
  "release_reservation db i =
     (let hit = (\<lambda>r. rr_id r = reservation_id_str i \<and> rr_state r \<noteq> ''released'') in
      if list_ex hit (quota_reservations db)
      then Inr (update_reservations hit ''released'' db)
      else if list_ex (\<lambda>r. rr_id r = reservation_id_str i) (quota_reservations db)
      then Inr db
      else Inl ReservationNotFound)"

definition release_reservation_for_operation :: "quota_db \<Rightarrow> string \<Rightarrow> quota_db" where
  "release_reservation_for_operation db op =
     update_reservations (\<lambda>r. rr_operation r = op \<and> rr_state r \<noteq> ''released'') ''released'' db"

section \<open>The invariant of the tables\<close>

definition row_key :: "amount_row \<Rightarrow> limit_key" where
  "row_key a = LimitKey (ServiceNamespace (ar_namespace a)) (ar_resource a)"

definition quota_inv :: "quota_db \<Rightarrow> bool" where
  "quota_inv db \<longleftrightarrow>
     distinct (map rr_id (quota_reservations db))
     \<and> distinct (map rr_operation (quota_reservations db))
     \<and> distinct (map (\<lambda>a. (ar_reservation a, row_key a)) (quota_reservation_amounts db))
     \<and> (\<forall>r\<in>set (quota_reservations db).
          rr_state r \<in> {''pending'', ''committed'', ''released''}
          \<and> rr_scope_kind r \<in> {''project'', ''domain'', ''system''})
     \<and> (\<forall>a\<in>set (quota_reservation_amounts db).
          0 \<le> ar_amount a \<and> ar_amount a \<le> i64_max \<and> is_known (row_key a)
          \<and> ar_reservation a \<in> rr_id ` set (quota_reservations db))"

lemma scope_kind_str_in [simp]: "scope_kind_as_str k \<in> {''project'', ''domain'', ''system''}"
  by (cases k) auto

lemma scope_kind_of_str_as_str [simp]: "scope_kind_of_str (scope_kind_as_str k) = k"
  by (cases k) (simp_all add: scope_kind_of_str_def)

lemma amount_for_iff: "amount_for rid k a \<longleftrightarrow> ar_reservation a = rid \<and> row_key a = k"
  by (cases k, cases "key_namespace k") (auto simp: amount_for_def row_key_def)

section \<open>Sums\<close>

lemma parse_sum_nonneg:
  assumes "\<forall>x\<in>set xs. 0 \<le> x"
  shows "parse_sum xs = (if sum_list xs \<le> i64_max then Inr (word_of_int (sum_list xs)) else Inl Database)"
proof -
  have "0 \<le> sum_list xs" using assms by (intro sum_list_nonneg) auto
  then show ?thesis
    using sql_sum_nonneg [OF assms, of 0]
    by (auto simp: parse_sum_def parse_non_negative_u64_def u64_of_i64_def i64_max_def)
qed

lemma held_nonneg: "quota_inv db \<Longrightarrow> \<forall>x\<in>set (held_amounts db scope k e). 0 \<le> x"
  by (auto simp: held_amounts_def quota_inv_def)

section \<open>What a reservation checks\<close>

lemma validate_amounts_None:
  "validate_amounts seen as = None \<longleftrightarrow>
     (\<forall>a\<in>set as. is_known (amount_key a) \<and> uint (amount_value a) \<le> i64_max)
     \<and> distinct (map amount_key as) \<and> amount_key ` set as \<inter> seen = {}"
  by (induction as arbitrary: seen) (auto simp: i64_of_u64_def)

definition fits :: "quota_db \<Rightarrow> ownership_scope \<Rightarrow> resource_amount \<Rightarrow> bool" where
  "fits db scope a \<longleftrightarrow>
     get_limit db scope (amount_key a) = Inr Unlimited
     \<or> (\<exists>m u. get_limit db scope (amount_key a) = Inr (Maximum m)
          \<and> get_usage db scope (amount_key a) = Inr u
          \<and> unat (in_use u) + unat (reserved u) + unat (amount_value a) \<le> unat m)"

lemma check_limit_None:
  assumes "is_known (amount_key a)"
  shows "check_limit db scope a = None \<longleftrightarrow> fits db scope a"
proof -
  have q: "query_limit_in_tx db scope (amount_key a) = get_limit db scope (amount_key a)"
    by (simp add: query_limit_in_tx_def get_limit_def)
  show ?thesis
  proof (cases "get_limit db scope (amount_key a)")
    case (Inl e)
    then show ?thesis by (simp add: check_limit_def q fits_def)
  next
    case (Inr l)
    show ?thesis
    proof (cases l)
      case Unlimited
      with Inr show ?thesis by (simp add: check_limit_def q fits_def)
    next
      case (Maximum m)
      show ?thesis
      proof (cases "query_in_use_usage db scope (amount_key a)")
        case (Inl e)
        with Inr Maximum assms show ?thesis by (simp add: check_limit_def q fits_def get_usage_def)
      next
        case used: (Inr used)
        show ?thesis
        proof (cases "query_reserved_usage db scope (amount_key a) None")
          case (Inl e)
          with Inr used Maximum assms show ?thesis
            by (simp add: check_limit_def q fits_def get_usage_def)
        next
          case held: (Inr held)
          have "check_limit db scope a = None \<longleftrightarrow>
              unat used + unat held + unat (amount_value a) \<le> unat m"
          proof (cases "checked_add used held")
            case None
            then have "\<not> unat used + unat held + unat (amount_value a) \<le> unat m"
              using unat_less_exp [of m] by (simp add: checked_add_None)
            with None Inr Maximum used held show ?thesis by (simp add: check_limit_def q)
          next
            case (Some c)
            then have c: "unat c = unat used + unat held" by (simp add: checked_add_eq_Some)
            show ?thesis
            proof (cases "checked_add c (amount_value a)")
              case None
              then have "\<not> unat used + unat held + unat (amount_value a) \<le> unat m"
                using unat_less_exp [of m] c by (simp add: checked_add_None)
              with None Inr Maximum used held Some show ?thesis by (simp add: check_limit_def q)
            next
              case total: (Some t)
              then have "unat t = unat c + unat (amount_value a)" by (simp add: checked_add_eq_Some)
              with Inr Maximum used held Some c total show ?thesis
                by (simp add: check_limit_def q word_less_nat_alt not_less)
            qed
          qed
          with Inr used held Maximum assms show ?thesis
            by (simp add: fits_def get_usage_def)
        qed
      qed
    qed
  qed
qed

lemma check_limits_None:
  "\<forall>a\<in>set as. is_known (amount_key a) \<Longrightarrow>
   check_limits db scope as = None \<longleftrightarrow> (\<forall>a\<in>set as. fits db scope a)"
proof (induction as)
  case (Cons a as)
  then show ?case using check_limit_None [of a db scope] by (auto split: option.splits)
qed simp

section \<open>What a reservation writes\<close>

definition amount_row_of :: "string \<Rightarrow> resource_amount \<Rightarrow> amount_row" where
  "amount_row_of rid a =
     \<lparr>ar_reservation = rid, ar_namespace = namespace_str (key_namespace (amount_key a)),
      ar_resource = key_resource (amount_key a), ar_amount = uint (amount_value a)\<rparr>"

lemma amount_row_of_simps [simp]:
  "ar_reservation (amount_row_of rid a) = rid"
  "row_key (amount_row_of rid a) = amount_key a"
  "ar_amount (amount_row_of rid a) = uint (amount_value a)"
  by (simp_all add: amount_row_of_def row_key_def limit_key.expand)

lemma insert_amounts_eq:
  "\<forall>a\<in>set as. uint (amount_value a) \<le> i64_max \<Longrightarrow> distinct (map amount_key as) \<Longrightarrow>
   \<forall>q\<in>set (quota_reservation_amounts db). ar_reservation q = rid \<longrightarrow> row_key q \<notin> amount_key ` set as \<Longrightarrow>
   insert_amounts db rid as =
     Inr (db\<lparr>quota_reservation_amounts := quota_reservation_amounts db @ map (amount_row_of rid) as\<rparr>)"
proof (induction as arbitrary: db)
  case Nil
  then show ?case by simp
next
  case (Cons a as)
  then have "i64_of_u64 (amount_value a) = Some (uint (amount_value a))"
    by (simp add: i64_of_u64_eq_Some)
  moreover have "\<not> list_ex (amount_for rid (amount_key a)) (quota_reservation_amounts db)"
    using Cons.prems(3) by (auto simp: list_ex_iff amount_for_iff)
  moreover have "insert_amounts
      (db\<lparr>quota_reservation_amounts := quota_reservation_amounts db @ [amount_row_of rid a]\<rparr>) rid as
    = Inr (db\<lparr>quota_reservation_amounts := quota_reservation_amounts db
        @ map (amount_row_of rid) (a # as)\<rparr>)"
    using Cons.prems by (subst Cons.IH) auto
  ultimately show ?case by (simp add: amount_row_of_def)
qed

definition reservation_row_of :: "ownership_scope \<Rightarrow> reservation \<Rightarrow> reservation_row" where
  "reservation_row_of scope r =
     \<lparr>rr_id = reservation_id_str (res_id r), rr_scope_id = scope_id_str (scope_id scope),
      rr_scope_kind = scope_kind_as_str (scope_kind scope), rr_operation = res_operation r,
      rr_state = reservation_state_str (res_state r), rr_created_at = res_created_at r\<rparr>"

definition with_reservation ::
  "quota_db \<Rightarrow> ownership_scope \<Rightarrow> reservation \<Rightarrow> quota_db" where
  "with_reservation db scope r =
     db\<lparr>quota_reservations := quota_reservations db @ [reservation_row_of scope r],
        quota_reservation_amounts := quota_reservation_amounts db
          @ map (amount_row_of (reservation_id_str (res_id r))) (res_amounts r)\<rparr>"

lemma query_by_op_None:
  "query_reservation_by_op db op = Inr None \<longleftrightarrow> op \<notin> rr_operation ` set (quota_reservations db)"
  by (auto simp: query_reservation_by_op_def find_None_iff find_Some_iff
      split: option.splits sum.splits)

text \<open>A reservation that is not a retry, exactly.\<close>

lemma reserve_fresh:
  assumes inv: "quota_inv db" and op: "query_reservation_by_op db op = Inr None"
  shows "reserve_quota uuid now db scope op amounts = Inr (r, db') \<longleftrightarrow>
    validate_amounts {} amounts = None \<and> (\<forall>a\<in>set amounts. fits db scope a)
    \<and> uuid \<notin> rr_id ` set (quota_reservations db)
    \<and> r = reservation_new uuid now scope op amounts \<and> db' = with_reservation db scope r"
proof (cases "validate_amounts {} amounts = None \<and> (\<forall>a\<in>set amounts. fits db scope a)")
  case False
  with op check_limits_None [of amounts db scope] show ?thesis
    by (auto simp: reserve_quota_def validate_amounts_None split: option.splits)
next
  case True
  then have v: "\<forall>a\<in>set amounts. is_known (amount_key a) \<and> uint (amount_value a) \<le> i64_max"
    "distinct (map amount_key amounts)" by (simp_all add: validate_amounts_None)
  let ?r = "reservation_new uuid now scope op amounts"
  have c: "check_limits db scope amounts = None" using True v check_limits_None by blast
  have o1: "op \<notin> rr_operation ` set (quota_reservations db)" using op by (simp add: query_by_op_None)
  show ?thesis
  proof (cases "uuid \<in> rr_id ` set (quota_reservations db)")
    case dup: True
    then have "insert_reservation db scope ?r = Inl Database"
      by (auto simp: insert_reservation_def Let_def list_ex_iff reservation_new_def)
    with True op c dup show ?thesis by (simp add: reserve_quota_def Let_def)
  next
    case fresh: False
    let ?db1 = "db\<lparr>quota_reservations := quota_reservations db @ [reservation_row_of scope ?r]\<rparr>"
    have i: "insert_reservation db scope ?r = Inr ?db1"
      using fresh o1
      by (auto simp: insert_reservation_def Let_def list_ex_iff reservation_new_def
          reservation_row_of_def image_iff)
    have "insert_amounts ?db1 uuid amounts = Inr (?db1\<lparr>quota_reservation_amounts :=
        quota_reservation_amounts ?db1 @ map (amount_row_of uuid) amounts\<rparr>)"
      using v inv fresh by (intro insert_amounts_eq) (auto simp: quota_inv_def)
    then have "insert_amounts ?db1 uuid amounts = Inr (with_reservation db scope ?r)"
      by (simp add: with_reservation_def reservation_new_def)
    with True op c i fresh show ?thesis by (auto simp: reserve_quota_def Let_def)
  qed
qed

section \<open>A reservation stays within its limits\<close>

lemma quota_inv_owner:
  "quota_inv db \<Longrightarrow> a \<in> set (quota_reservation_amounts db) \<Longrightarrow>
   ar_reservation a \<in> rr_id ` set (quota_reservations db)"
  by (simp add: quota_inv_def)

lemma limit_column_bound:
  assumes "limit_of_column c = Inr (Maximum m)"
  shows "uint m \<le> i64_max"
proof -
  obtain v where "u64_of_i64 v = Some m"
    using assms by (auto simp: limit_of_column_def split: option.splits)
  then have "0 \<le> v" "v \<le> i64_max" "m = word_of_int v" by (auto simp: u64_of_i64_eq_Some)
  then show ?thesis using uint_of_i64 [of v] by simp
qed

lemma get_limit_bound: "get_limit db scope k = Inr (Maximum m) \<Longrightarrow> uint m \<le> i64_max"
  by (auto simp: get_limit_def dest: limit_column_bound split: if_splits option.splits)

lemma held_with_reservation:
  assumes inv: "quota_inv db" and a: "a \<in> set (res_amounts r)"
    and d: "distinct (map amount_key (res_amounts r))" and pending: "res_state r = Pending"
    and fresh: "reservation_id_str (res_id r) \<notin> rr_id ` set (quota_reservations db)"
  shows "held_amounts (with_reservation db scope r) scope (amount_key a) None =
    held_amounts db scope (amount_key a) None @ [uint (amount_value a)]"
proof -
  let ?rid = "reservation_id_str (res_id r)" and ?k = "amount_key a"
  let ?new = "map (amount_row_of ?rid) (res_amounts r)"
  have old: "filter (amount_for (rr_id q) ?k) ?new = []" if "q \<in> set (quota_reservations db)" for q
    using that fresh by (auto simp: filter_empty_conv amount_for_iff)
  have mine: "filter (amount_for ?rid ?k) (quota_reservation_amounts db) = []"
    using quota_inv_owner [OF inv] fresh unfolding filter_empty_conv amount_for_iff by metis
  have "filter (\<lambda>x. amount_key x = ?k) (res_amounts r) = [a]"
    using a d
  proof (induction "res_amounts r" arbitrary: r)
    case (Cons x xs)
    note IH = this
    show ?case
    proof (cases "x = a")
      case True
      with IH(2,4) have "filter (\<lambda>y. amount_key y = ?k) xs = []"
        by (metis (mono_tags, lifting) distinct.simps(2) filter_False image_eqI list.set_map list.simps(9))
      with IH(2)[symmetric] True show ?thesis by simp
    next
      case False
      with IH(2)[symmetric] IH(3) have ax: "a \<in> set xs" by auto
      with IH(2)[symmetric] IH(4) have "amount_key x \<noteq> ?k" by force
      moreover have "filter (\<lambda>y. amount_key y = ?k) xs = [a]"
        using IH(1)[of "r\<lparr>res_amounts := xs\<rparr>"] ax IH(4) IH(2)[symmetric] by simp
      ultimately show ?thesis using IH(2)[symmetric] by simp
    qed
  qed simp
  then have new: "map ar_amount (filter (amount_for ?rid ?k) ?new) = [uint (amount_value a)]"
    by (simp add: filter_map comp_def amount_for_iff)
  have keep: "concat (map (\<lambda>q. map ar_amount (filter (amount_for (rr_id q) ?k)
        (quota_reservation_amounts db @ ?new)))
       (filter (held_by scope None) (quota_reservations db))) = held_amounts db scope ?k None"
    unfolding held_amounts_def
    by (intro arg_cong [where f = concat] map_cong refl) (simp add: old)
  have "held_by scope None (reservation_row_of scope r)" and "rr_id (reservation_row_of scope r) = ?rid"
    using pending by (simp_all add: held_by_def reservation_row_of_def)
  with keep mine new show ?thesis
    by (simp add: held_amounts_def with_reservation_def)
qed

lemma with_reservation_fields [simp]:
  "quota_limits (with_reservation db scope r) = quota_limits db"
  "audit_events (with_reservation db scope r) = audit_events db"
  "resources (with_reservation db scope r) = resources db"
  "placement_allocations (with_reservation db scope r) = placement_allocations db"
  "placement_allocation_resources (with_reservation db scope r) = placement_allocation_resources db"
  "image_metadata (with_reservation db scope r) = image_metadata db"
  "network_networks (with_reservation db scope r) = network_networks db"
  "network_subnets (with_reservation db scope r) = network_subnets db"
  "network_ports (with_reservation db scope r) = network_ports db"
  "network_address_allocations (with_reservation db scope r) = network_address_allocations db"
  by (simp_all add: with_reservation_def)

lemma in_use_with_reservation [simp]:
  "query_in_use_usage (with_reservation db scope r) s k = query_in_use_usage db s k"
  by (simp only: query_in_use_usage_def allocated_def with_reservation_fields)

lemma usage_with_reservation:
  assumes "quota_inv db" "validate_amounts {} (res_amounts r) = None" "res_state r = Pending"
    "reservation_id_str (res_id r) \<notin> rr_id ` set (quota_reservations db)"
    "a \<in> set (res_amounts r)"
    and u: "get_usage db scope (amount_key a) = Inr u"
    and fit: "uint (reserved u) + uint (amount_value a) \<le> i64_max"
  shows "\<exists>u'. get_usage (with_reservation db scope r) scope (amount_key a) = Inr u'
    \<and> in_use u' = in_use u \<and> unat (reserved u') = unat (reserved u) + unat (amount_value a)"
proof -
  let ?k = "amount_key a" and ?db = "with_reservation db scope r"
  have v: "is_known ?k" "distinct (map amount_key (res_amounts r))"
    using assms(2,5) by (auto simp: validate_amounts_None)
  let ?h = "held_amounts db scope ?k None"
  have nn: "\<forall>x\<in>set ?h. 0 \<le> x" using assms(1) held_nonneg by blast
  then have s0: "0 \<le> sum_list ?h" by (intro sum_list_nonneg) auto
  from u v obtain used held where uh: "query_in_use_usage db scope ?k = Inr used"
    "query_reserved_usage db scope ?k None = Inr held" "in_use u = used" "reserved u = held"
    by (auto simp: get_usage_def split: sum.splits)
  then have held: "held = word_of_int (sum_list ?h)" "sum_list ?h \<le> i64_max"
    using parse_sum_nonneg [OF nn] by (auto simp: query_reserved_usage_def split: if_splits)
  then have uheld: "uint held = sum_list ?h" using s0 uint_of_i64 by simp
  have h': "held_amounts ?db scope ?k None = ?h @ [uint (amount_value a)]"
    using held_with_reservation [OF assms(1,5) v(2) assms(3,4)] .
  have le: "sum_list (?h @ [uint (amount_value a)]) \<le> i64_max"
    using fit uh(4) uheld by simp
  have "query_reserved_usage ?db scope ?k None = Inr (word_of_int (sum_list ?h + uint (amount_value a)))"
    unfolding query_reserved_usage_def h' using nn le by (subst parse_sum_nonneg) auto
  moreover have "unat (word_of_int (sum_list ?h + uint (amount_value a)) :: u64)
      = unat held + unat (amount_value a)"
  proof -
    have "0 \<le> sum_list ?h + uint (amount_value a)" "sum_list ?h + uint (amount_value a) \<le> i64_max"
      using le s0 by auto
    from uint_of_i64 [OF this] show ?thesis
      unfolding uheld [symmetric] uint_int_unat by linarith
  qed
  ultimately show ?thesis
    using v uh by (simp add: get_usage_def)
qed

text \<open>
  C5: after a reservation was granted, what is in use and what is reserved together, in every
  dimension the request names and that has a finite limit, is at most the limit.
\<close>

theorem reserve_within_limits:
  assumes inv: "quota_inv db" and op: "query_reservation_by_op db op = Inr None"
    and ok: "reserve_quota uuid now db scope op amounts = Inr (r, db')"
    and a: "a \<in> set amounts" and l: "get_limit db scope (amount_key a) = Inr (Maximum m)"
  shows "\<exists>u. get_usage db' scope (amount_key a) = Inr u \<and> unat (in_use u) + unat (reserved u) \<le> unat m"
proof -
  from ok reserve_fresh [OF inv op] have r: "validate_amounts {} amounts = None"
    "\<forall>a\<in>set amounts. fits db scope a" "uuid \<notin> rr_id ` set (quota_reservations db)"
    "r = reservation_new uuid now scope op amounts" "db' = with_reservation db scope r"
    by blast+
  from r(2) a l obtain u where u: "get_usage db scope (amount_key a) = Inr u"
    "unat (in_use u) + unat (reserved u) + unat (amount_value a) \<le> unat m"
    by (auto simp: fits_def)
  have "uint (reserved u) + uint (amount_value a) \<le> uint m"
    using u(2) unfolding uint_int_unat by linarith
  with get_limit_bound [OF l] have "uint (reserved u) + uint (amount_value a) \<le> i64_max"
    by linarith
  from usage_with_reservation [OF inv _ _ _ _ u(1) this, of r] r(1,3) a
  show ?thesis unfolding r(5) using u(2) by (auto simp: r(4) reservation_new_def)
qed

text \<open>
  C6: a reservation that is not a retry is granted exactly when the request is valid and every
  amount fits: its dimension is unlimited, or the sum of use, reservations and amount does not
  exceed the limit.
\<close>

theorem reserve_grants_iff_fits:
  assumes "quota_inv db" and "query_reservation_by_op db op = Inr None"
    and "uuid \<notin> rr_id ` set (quota_reservations db)"
  shows "(\<exists>r db'. reserve_quota uuid now db scope op amounts = Inr (r, db')) \<longleftrightarrow>
    distinct (map amount_key amounts)
    \<and> (\<forall>a\<in>set amounts. is_known (amount_key a) \<and> uint (amount_value a) \<le> i64_max \<and> fits db scope a)"
  using reserve_fresh [OF assms(1,2)] assms(3) by (auto simp: validate_amounts_None)

section \<open>Retries\<close>

lemma read_amounts_rows:
  "\<forall>a\<in>set as. is_known (amount_key a) \<and> uint (amount_value a) \<le> i64_max \<Longrightarrow>
   read_amounts (map (amount_row_of rid) as) = Inr as"
proof (induction as)
  case (Cons a as)
  have "limit_key_new (ar_namespace (amount_row_of rid a)) (ar_resource (amount_row_of rid a))
      = Inr (amount_key a)"
    using Cons.prems limit_key_new_of_known by (simp add: amount_row_of_def)
  moreover have "amount_new (amount_key a) (word_of_int (uint (amount_value a))) = a"
    by (simp add: amount_new_def)
  ultimately show ?case using Cons by simp
qed simp

definition read_back :: "reservation \<Rightarrow> reservation" where
  "read_back r = r\<lparr>res_scope := (res_scope r)\<lparr>scope_name := None, scope_domain_id := None\<rparr>\<rparr>"

lemma query_with_reservation:
  assumes inv: "quota_inv db" and op: "query_reservation_by_op db op = Inr None"
    and v: "validate_amounts {} amounts = None"
    and fresh: "uuid \<notin> rr_id ` set (quota_reservations db)" and len: "uuid \<noteq> []" "length uuid \<le> 128"
    and r: "r = reservation_new uuid now scope op amounts"
  shows "query_reservation_by_op (with_reservation db scope r) op = Inr (Some (read_back r))"
proof -
  have "find (\<lambda>q. rr_operation q = op) (quota_reservations db) = None"
    using op by (auto simp: query_by_op_None find_None_iff)
  then have f: "find (\<lambda>q. rr_operation q = op) (quota_reservations (with_reservation db scope r))
      = Some (reservation_row_of scope r)"
    by (simp add: with_reservation_def find_append reservation_row_of_def r reservation_new_def)
  have "filter (\<lambda>a. ar_reservation a = uuid) (quota_reservation_amounts db) = []"
    using quota_inv_owner [OF inv] fresh unfolding filter_empty_conv by metis
  then have "filter (\<lambda>a. ar_reservation a = uuid)
      (quota_reservation_amounts (with_reservation db scope r)) = map (amount_row_of uuid) amounts"
    by (simp add: with_reservation_def r reservation_new_def filter_map comp_def)
  moreover have "read_amounts (map (amount_row_of uuid) amounts) = Inr amounts"
    using v by (intro read_amounts_rows) (simp add: validate_amounts_None)
  moreover have "rr_id (reservation_row_of scope r) = uuid"
    by (simp add: reservation_row_of_def r reservation_new_def)
  ultimately show ?thesis
    using len f
    by (simp add: query_reservation_by_op_def reservation_id_parse_def read_back_def
        reservation_row_of_def r reservation_new_def reservation_state_of_str_def)
qed

lemma sort_eq_mset: "sort xs = sort ys \<longleftrightarrow> mset xs = mset ys"
  by (metis mset_sort properties_for_sort sorted_sort)

lemma amounts_match_mset: "amounts_match a b \<longleftrightarrow> mset a = mset b"
proof -
  let ?f = "\<lambda>x. (amount_key x, amount_value (x :: resource_amount))"
  have "inj ?f" by (auto intro!: injI)
  then have e: "mset (map ?f a) = mset (map ?f b) \<longleftrightarrow> mset a = mset b"
    by (simp add: multiset.inj_map inj_eq)
  then show ?thesis
    unfolding amounts_match_def sort_eq_mset e using mset_eq_length [of a b] by blast
qed

text \<open>
  A retry is idempotent. After a reservation was granted, asking again for the same
  operation and scope, with the same amounts in any order, answers the same reservation and
  leaves the database alone; other amounts are a conflict.
\<close>

theorem reserve_retry:
  assumes inv: "quota_inv db" and op: "query_reservation_by_op db op = Inr None"
    and ok: "reserve_quota uuid now db scope op amounts = Inr (r, db')"
    and len: "uuid \<noteq> []" "length uuid \<le> 128"
    and v: "validate_amounts {} amounts' = None"
  shows "reserve_quota uuid' now' db' scope op amounts' =
    (if mset amounts' = mset amounts then Inr (read_back r, db') else Inl (ReservationConflict op))"
proof -
  from ok reserve_fresh [OF inv op] have r: "validate_amounts {} amounts = None"
    "uuid \<notin> rr_id ` set (quota_reservations db)"
    "r = reservation_new uuid now scope op amounts" "db' = with_reservation db scope r"
    by blast+
  have "query_reservation_by_op db' op = Inr (Some (read_back r))"
    unfolding r(4) by (rule query_with_reservation [OF inv op r(1,2) len r(3)])
  with v show ?thesis
    by (auto simp: reserve_quota_def amounts_match_mset read_back_def r(3) reservation_new_def)
qed

section \<open>The life of a reservation\<close>

fun reservation_edge :: "reservation_state \<Rightarrow> reservation_state \<Rightarrow> bool" where
  "reservation_edge Pending t = True"
| "reservation_edge Committed t = (t \<noteq> Pending)"
| "reservation_edge Released t = (t = Released)"

lemma reservation_edge_refl [simp]: "reservation_edge s s"
  by (cases s) auto

lemma reservation_edge_trans: "reservation_edge s t \<Longrightarrow> reservation_edge t u \<Longrightarrow> reservation_edge s u"
  by (cases s; cases t; cases u) auto

definition status :: "quota_db \<Rightarrow> string \<Rightarrow> reservation_state option" where
  "status db op =
     map_option (\<lambda>r. reservation_state_of_str (rr_state r))
       (find (\<lambda>r. rr_operation r = op) (quota_reservations db))"

datatype quota_op =
    Reserve string string ownership_scope string "resource_amount list"
  | Commit reservation_id
  | Release reservation_id
  | ReleaseFor string
  | SetLimit ownership_scope limit_key limit_value
  | CasLimit ownership_scope limit_key limit_value u64
  | CasLimitAudited ownership_scope limit_key limit_value u64 audit_event_record
  | Elsewhere quota_db

text \<open>
  The operations of the repository, and what other components do to the tables that usage is
  read from (\<open>Elsewhere\<close>).
\<close>

fun quota_step :: "quota_db \<Rightarrow> quota_op \<Rightarrow> (quota_error, quota_db) rust_result" where
  "quota_step db (Reserve uuid now scope op amounts) =
     map_sum id snd (reserve_quota uuid now db scope op amounts)"
| "quota_step db (Commit i) = commit_reservation db i"
| "quota_step db (Release i) = release_reservation db i"
| "quota_step db (ReleaseFor op) = Inr (release_reservation_for_operation db op)"
| "quota_step db (SetLimit scope k l) = set_limit db scope k l"
| "quota_step db (CasLimit scope k l g) = map_sum id snd (set_limit_if_generation db scope k l g)"
| "quota_step db (CasLimitAudited scope k l g a) =
     map_sum id snd (set_limit_if_generation_with_audit db scope k l g a)"
| "quota_step db (Elsewhere e) =
     Inr (e\<lparr>quota_limits := quota_limits db, quota_reservations := quota_reservations db,
            quota_reservation_amounts := quota_reservation_amounts db,
            audit_events := audit_events db\<rparr>)"

text \<open>What a step does to the reservations: nothing, one more, or new states for some.\<close>

lemma quota_step_cases:
  assumes "quota_step db x = Inr db'"
  obtains (same) "quota_reservations db' = quota_reservations db"
      "quota_reservation_amounts db' = quota_reservation_amounts db"
    | (reserve) uuid now scope op amounts where "x = Reserve uuid now scope op amounts"
      "query_reservation_by_op db op = Inr None"
      "reserve_quota uuid now db scope op amounts = Inr (reservation_new uuid now scope op amounts, db')"
    | (commit) i where
      "db' = update_reservations (\<lambda>r. rr_id r = i \<and> rr_state r = ''pending'') ''committed'' db"
    | (release) p where "db' = update_reservations p ''released'' db"
proof (cases x)
  case (Reserve uuid now scope op amounts)
  with assms obtain r where r: "reserve_quota uuid now db scope op amounts = Inr (r, db')"
    by (cases "reserve_quota uuid now db scope op amounts") auto
  show ?thesis
  proof (cases "query_reservation_by_op db op = Inr None")
    case True
    have "r = reservation_new uuid now scope op amounts"
      using r True by (auto simp: reserve_quota_def Let_def split: option.splits sum.splits)
    with r True Reserve reserve show ?thesis by blast
  next
    case False
    with r have "db' = db"
      by (auto simp: reserve_quota_def split: option.splits sum.splits if_splits)
    with same show ?thesis by simp
  qed
next
  case (SetLimit scope k l)
  with assms same show ?thesis
    by (auto simp: set_limit_def Let_def split: if_splits sum.splits)
next
  case (CasLimit scope k l g)
  with assms same show ?thesis
    by (auto simp: set_limit_if_generation_def upsert_limit_def
        split: if_splits sum.splits option.splits)
next
  case (CasLimitAudited scope k l g a)
  with assms same show ?thesis
    by (auto simp: set_limit_if_generation_with_audit_def upsert_limit_def
        split: if_splits sum.splits option.splits)
qed (use assms that in \<open>auto simp: commit_reservation_def release_reservation_def Let_def
      release_reservation_for_operation_def split: if_splits\<close>)

lemma find_map_update:
  "\<forall>r. P (f r) = P r \<Longrightarrow> find P (map f xs) = map_option f (find P xs)"
  by (induction xs) auto

lemma status_update:
  "status (update_reservations p s db) op =
     map_option (\<lambda>r. reservation_state_of_str (if p r then s else rr_state r))
       (find (\<lambda>r. rr_operation r = op) (quota_reservations db))"
  by (cases "find (\<lambda>r. rr_operation r = op) (quota_reservations db)")
    (simp_all add: status_def update_reservations_def find_map_update)

lemma step_status:
  assumes "quota_inv db" "quota_step db x = Inr db'" "status db op = Some s"
  shows "\<exists>s'. status db' op = Some s' \<and> reservation_edge s s'"
proof -
  from assms(3) obtain z where z: "find (\<lambda>r. rr_operation r = op) (quota_reservations db) = Some z"
    "s = reservation_state_of_str (rr_state z)"
    by (auto simp: status_def)
  from assms(2) show ?thesis
  proof (cases rule: quota_step_cases)
    case same
    then have "status db' op = status db op" by (simp add: status_def)
    with assms(3) show ?thesis by simp
  next
    case (reserve uuid now scope op' amounts)
    then have "db' = with_reservation db scope (reservation_new uuid now scope op' amounts)"
      using reserve_fresh [OF assms(1)] by blast
    then have "status db' op = status db op"
      using z by (simp add: status_def with_reservation_def find_append)
    with assms(3) show ?thesis by simp
  next
    case (commit i)
    with z show ?thesis
      by (auto simp: status_update reservation_state_of_str_def)
  next
    case (release p)
    with z show ?thesis
      by (cases s) (auto simp: status_update reservation_state_of_str_def split: if_splits)
  qed
qed

lemma quota_inv_with_reservation:
  assumes inv: "quota_inv db" and op: "query_reservation_by_op db op = Inr None"
    and v: "validate_amounts {} amounts = None" and fresh: "uuid \<notin> rr_id ` set (quota_reservations db)"
  shows "quota_inv (with_reservation db scope (reservation_new uuid now scope op amounts))"
proof -
  let ?db = "with_reservation db scope (reservation_new uuid now scope op amounts)"
  have rs: "quota_reservations ?db = quota_reservations db
      @ [reservation_row_of scope (reservation_new uuid now scope op amounts)]"
    and as: "quota_reservation_amounts ?db = quota_reservation_amounts db
      @ map (amount_row_of uuid) amounts"
    by (simp_all add: with_reservation_def reservation_new_def)
  have row: "rr_id (reservation_row_of scope (reservation_new uuid now scope op amounts)) = uuid"
    "rr_operation (reservation_row_of scope (reservation_new uuid now scope op amounts)) = op"
    "rr_state (reservation_row_of scope (reservation_new uuid now scope op amounts)) = ''pending''"
    "rr_scope_kind (reservation_row_of scope (reservation_new uuid now scope op amounts))
       = scope_kind_as_str (scope_kind scope)"
    by (simp_all add: reservation_row_of_def reservation_new_def)
  have mine: "uuid \<noteq> ar_reservation a" if "a \<in> set (quota_reservation_amounts db)" for a
    using quota_inv_owner [OF inv that] fresh by auto
  have "distinct (map (\<lambda>a. (uuid, amount_key a)) amounts)"
    using v by (simp add: validate_amounts_None distinct_map inj_on_def)
  then have "distinct (map (\<lambda>a. (ar_reservation a, row_key a)) (quota_reservation_amounts ?db))"
    using inv mine unfolding as by (auto simp: quota_inv_def comp_def)
  moreover have "op \<notin> rr_operation ` set (quota_reservations db)"
    using op by (simp add: query_by_op_None)
  moreover have "scope_kind_as_str (scope_kind scope) \<in> {''project'', ''domain'', ''system''}"
    by (rule scope_kind_str_in)
  ultimately show ?thesis
    using inv v fresh
    by (simp add: quota_inv_def rs row as validate_amounts_None ball_Un del: scope_kind_str_in)
qed

lemma quota_inv_update:
  "quota_inv db \<Longrightarrow> s \<in> {''committed'', ''released''} \<Longrightarrow> quota_inv (update_reservations p s db)"
proof -
  assume inv: "quota_inv db" and s: "s \<in> {''committed'', ''released''}"
  let ?f = "\<lambda>r. if p r then r\<lparr>rr_state := s\<rparr> else r"
  have m: "map rr_id (map ?f rs) = map rr_id rs" "map rr_operation (map ?f rs) = map rr_operation rs" for rs
    by auto
  have i: "rr_id ` ?f ` X = rr_id ` X" for X
    unfolding image_image by (rule image_cong) auto
  have db: "quota_reservations (update_reservations p s db) = map ?f (quota_reservations db)"
    "quota_reservation_amounts (update_reservations p s db) = quota_reservation_amounts db"
    by (simp_all add: update_reservations_def)
  have "rr_state (?f r) \<in> {''pending'', ''committed'', ''released''}
      \<and> rr_scope_kind (?f r) \<in> {''project'', ''domain'', ''system''}"
    if "r \<in> set (quota_reservations db)" for r
    using inv s that unfolding quota_inv_def by auto
  with inv show ?thesis
    unfolding quota_inv_def db m set_map i by blast
qed

lemma quota_step_inv: "quota_inv db \<Longrightarrow> quota_step db x = Inr db' \<Longrightarrow> quota_inv db'"
proof -
  assume inv: "quota_inv db" and step: "quota_step db x = Inr db'"
  from step show "quota_inv db'"
  proof (cases rule: quota_step_cases)
    case same
    with inv show ?thesis by (simp add: quota_inv_def)
  next
    case (reserve uuid now scope op amounts)
    with reserve_fresh [OF inv reserve(2)] quota_inv_with_reservation [OF inv reserve(2)]
    show ?thesis by metis
  next
    case (commit i)
    with inv show ?thesis by (simp add: quota_inv_update)
  next
    case (release p)
    with inv show ?thesis by (simp add: quota_inv_update)
  qed
qed

interpretation quota_machine: invariant_machine quota_step quota_inv
  by unfold_locales (rule quota_step_inv)

lemma run_status:
  "quota_inv db \<Longrightarrow> status db op = Some s \<Longrightarrow>
   \<exists>s'. status (run_ops quota_step db xs) op = Some s' \<and> reservation_edge s s'"
proof (induction xs arbitrary: db s)
  case (Cons x xs)
  have "\<exists>s1. status (apply_op quota_step db x) op = Some s1 \<and> reservation_edge s s1"
    using Cons.prems(2) step_status [OF Cons.prems(1) _ Cons.prems(2), of x]
    by (cases "quota_step db x") (simp_all add: apply_op_def)
  then obtain s1 where "status (apply_op quota_step db x) op = Some s1" "reservation_edge s s1"
    by blast
  with Cons.IH [OF quota_machine.apply_inv [OF Cons.prems(1)]] reservation_edge_trans
  show ?case by (metis run_ops.simps(2))
qed simp

lemma status_released_reserve:
  assumes "status db op = Some Released"
  shows "\<exists>e. reserve_quota uuid now db scope op amounts = Inl e"
proof -
  from assms obtain z where z: "find (\<lambda>r. rr_operation r = op) (quota_reservations db) = Some z"
    "reservation_state_of_str (rr_state z) = Released"
    by (auto simp: status_def)
  then show ?thesis
    by (auto simp: reserve_quota_def query_reservation_by_op_def split: option.splits sum.splits)
qed

text \<open>
  Whatever operations follow, the state of a reservation only moves forward: from pending to
  committed or released, from committed to released. A released reservation stays released and
  its operation is never granted quota again.
\<close>

theorem reservation_life:
  assumes "quota_inv db" and "status db op = Some s"
  shows "\<exists>s'. status (run_ops quota_step db xs) op = Some s' \<and> reservation_edge s s'
    \<and> (s = Released \<longrightarrow> (\<forall>uuid now scope amounts.
         \<exists>e. reserve_quota uuid now (run_ops quota_step db xs) scope op amounts = Inl e))"
proof -
  from run_status [OF assms] obtain s' where
    s': "status (run_ops quota_step db xs) op = Some s'" "reservation_edge s s'" by blast
  with status_released_reserve show ?thesis by (cases s) auto
qed

text \<open>
  Releasing the reservation of an operation gives back exactly what it held: afterwards the
  reserved quantity of every scope and dimension is the one that leaves the operation out.
\<close>

theorem release_returns_hold:
  "query_reserved_usage (release_reservation_for_operation db op) scope k None =
     query_reserved_usage db scope k (Some op)"
proof -
  let ?p = "\<lambda>r. rr_operation r = op \<and> rr_state r \<noteq> ''released''"
  let ?f = "\<lambda>r. if ?p r then r\<lparr>rr_state := ''released''\<rparr> else r"
  have "filter (held_by scope None) (map ?f rs) = filter (held_by scope (Some op)) rs" for rs
    by (induction rs) (auto simp: held_by_def)
  then show ?thesis
    by (simp add: query_reserved_usage_def held_amounts_def release_reservation_for_operation_def
        update_reservations_def)
qed

text \<open>
  Committing a reservation that was released already is accepted and changes nothing: the
  caller is told that the usage is committed while the reservation stays released.
\<close>

theorem commit_after_release_accepted:
  assumes "quota_inv db" and "r \<in> set (quota_reservations db)" and "rr_state r = ''released''"
  shows "commit_reservation db (ReservationId (rr_id r)) = Inr db"
proof -
  have uniq: "q = r" if "q \<in> set (quota_reservations db)" "rr_id q = rr_id r" for q
    using assms(1,2) that by (auto simp: quota_inv_def distinct_map inj_on_def)
  have "rr_state q \<noteq> ''pending''" if "q \<in> set (quota_reservations db)" "rr_id q = rr_id r" for q
    using uniq [OF that] assms(3) by simp
  then have none: "\<not> list_ex (\<lambda>q. rr_id q = rr_id r \<and> rr_state q = ''pending'')
      (quota_reservations db)"
    unfolding list_ex_iff by blast
  have "list_ex (\<lambda>q. rr_id q = rr_id r) (quota_reservations db)"
    using assms(2) by (auto simp: list_ex_iff)
  with none show ?thesis by (simp add: commit_reservation_def)
qed

section \<open>Optimistic concurrency of limits\<close>

lemma limit_column_roundtrip: "limit_to_column l = Inr c \<Longrightarrow> limit_of_column c = Inr l"
  by (cases l) (auto simp: limit_to_column_def limit_of_column_def i64_of_u64_uint u64_of_i64_uint
      split: if_splits)

lemma cas_Inr:
  "set_limit_if_generation db scope k l g = Inr (g', db') \<longleftrightarrow>
     is_known k \<and> unat g' = unat g + 1 \<and> uint g' \<le> i64_max
     \<and> (\<forall>row. quota_limits db (limit_pk_of scope k) = Some row \<longrightarrow> generation_column row = uint g)
     \<and> (\<exists>c. limit_to_column l = Inr c
          \<and> db' = db\<lparr>quota_limits := (quota_limits db)(limit_pk_of scope k \<mapsto>
                     \<lparr>limit_column = c, generation_column = uint g'\<rparr>)\<rparr>)"
proof (cases "checked_add g 1")
  case None
  then have "unat g' \<noteq> unat g + 1"
    using unat_less_exp [of g'] by (simp add: checked_add_None)
  with None show ?thesis by (auto simp: set_limit_if_generation_def i64_of_u64_uint)
next
  case (Some n)
  then have n: "unat n = unat g + 1" by (simp add: checked_add_eq_Some)
  then have g': "unat g' = unat g + 1 \<longleftrightarrow> g' = n" by (metis word_unat_eq_iff)
  have le: "uint n \<le> i64_max \<Longrightarrow> uint g \<le> i64_max"
    using n unfolding uint_int_unat by linarith
  show ?thesis
    unfolding g' using le Some
    by (cases "is_known k \<and> uint n \<le> i64_max"; cases "limit_to_column l")
      (auto simp: set_limit_if_generation_def i64_of_u64_uint upsert_limit_def
        split: option.splits)
qed

lemma cas_read:
  assumes "set_limit_if_generation db scope k l g = Inr (g', db')"
  shows "get_limit_state db' scope k = Inr (l, g')"
proof -
  from assms obtain c where "is_known k" "uint g' \<le> i64_max" "limit_to_column l = Inr c"
    "quota_limits db' (limit_pk_of scope k) = Some \<lparr>limit_column = c, generation_column = uint g'\<rparr>"
    unfolding cas_Inr by auto
  then show ?thesis
    using limit_column_roundtrip [of l c] by (simp add: get_limit_state_def u64_of_i64_uint)
qed

text \<open>
  Of two writers that read the same generation of a limit at most one wins. After a
  compare-and-set succeeded, the limit reads back with the next generation, no other limit has
  changed, and a second write that expects the old generation is refused.
\<close>

theorem limit_cas_wins_once:
  assumes "set_limit_if_generation db scope k l g = Inr (g', db')"
  shows "get_limit_state db' scope k = Inr (l, g') \<and> unat g' = unat g + 1
    \<and> (\<forall>scope' k'. limit_pk_of scope' k' \<noteq> limit_pk_of scope k \<longrightarrow>
          get_limit_state db' scope' k' = get_limit_state db scope' k')
    \<and> (\<exists>e. set_limit_if_generation db' scope k l2 g = Inl e)"
proof (intro conjI allI impI)
  show "get_limit_state db' scope k = Inr (l, g')" using assms by (rule cas_read)
  show g': "unat g' = unat g + 1" using assms by (simp add: cas_Inr)
  show "get_limit_state db' scope' k' = get_limit_state db scope' k'"
    if "limit_pk_of scope' k' \<noteq> limit_pk_of scope k" for scope' k'
    using assms that by (auto simp: cas_Inr get_limit_state_def)
  obtain c where c: "quota_limits db' (limit_pk_of scope k)
      = Some \<lparr>limit_column = c, generation_column = uint g'\<rparr>"
    using assms unfolding cas_Inr by auto
  have "uint g' \<noteq> uint g" using g' unfolding uint_int_unat by linarith
  with c have "set_limit_if_generation db' scope k l2 g \<noteq> Inr x" for x
    by (cases x) (simp add: cas_Inr)
  then show "\<exists>e. set_limit_if_generation db' scope k l2 g = Inl e"
    by (cases "set_limit_if_generation db' scope k l2 g") auto
qed

text \<open>
  The expected generation is not checked when the limit has no row yet. The limit reads
  as unlimited at generation zero, but a compare-and-set that expects any other generation is
  accepted and stores the successor of that number.
\<close>

theorem absent_limit_ignores_generation:
  assumes "is_known k" and "quota_limits db (limit_pk_of scope k) = None"
    and "limit_to_column l = Inr c" and "uint g < i64_max"
  shows "get_limit_state db scope k = Inr (Unlimited, 0)
    \<and> (\<exists>db'. set_limit_if_generation db scope k l g = Inr (g + 1, db')
         \<and> get_limit_state db' scope k = Inr (l, g + 1))"
proof -
  have "i64_max = 9223372036854775807" by (simp add: i64_max_def)
  then have "unat g < 9223372036854775807" using assms(4) unfolding uint_int_unat by linarith
  then have "unat g + unat (1 :: u64) < 2 ^ LENGTH(64)" by simp
  then have n: "unat (g + 1) = unat g + 1" using unat_add_no_overflow [of g 1] by simp
  then have "uint (g + 1) \<le> i64_max" using assms(4) unfolding uint_int_unat by linarith
  with assms n have "\<exists>db'. set_limit_if_generation db scope k l g = Inr (g + 1, db')"
    by (simp add: cas_Inr)
  then show ?thesis
    using assms(1,2) cas_read [of db scope k l g] by (auto simp: get_limit_state_def)
qed

text \<open>
  An audited change of a limit is the plain compare-and-set together with the storing of
  its audit event: it succeeds exactly when both do, and an event identifier that is taken
  leaves the limit unchanged.
\<close>

theorem audited_limit_change:
  "set_limit_if_generation_with_audit db scope k l g audit = Inr (g', db') \<longleftrightarrow>
    audit_events db (event_id audit) = None
    \<and> (\<exists>db1. set_limit_if_generation db scope k l g = Inr (g', db1)
         \<and> db' = db1\<lparr>audit_events := (audit_events db)(event_id audit \<mapsto> audit)\<rparr>)"
proof -
  have "audit_events db1 = audit_events db" if "upsert_limit db pk c n e = Some db1" for db1 pk c n e
    using that by (auto simp: upsert_limit_def split: option.splits if_splits)
  then show ?thesis
    unfolding set_limit_if_generation_with_audit_def set_limit_if_generation_def
    by (auto split: option.splits sum.splits)
qed

section \<open>A concrete database\<close>

definition example_key :: limit_key where
  "example_key = LimitKey (ServiceNamespace ''compute'') ''servers''"

definition example_scope :: ownership_scope where
  "example_scope =
     \<lparr>scope_id = ScopeId ''p1'', scope_kind = Project, scope_name = Some ''demo'',
      scope_domain_id = None\<rparr>"

definition example_db :: quota_db where
  "example_db =
     \<lparr>quota_limits = [limit_pk_of example_scope example_key \<mapsto>
        \<lparr>limit_column = Some 3, generation_column = 1\<rparr>],
      quota_reservations = [], quota_reservation_amounts = [], audit_events = Map.empty,
      resources = [\<lparr>rs_id = ''vm1'', rs_kind = ''compute_instance'', rs_project = ''p1'',
                    rs_observed = ''Active''\<rparr>],
      placement_allocations = [], placement_allocation_resources = [], image_metadata = [],
      network_networks = [], network_subnets = [], network_ports = [],
      network_address_allocations = []\<rparr>"

abbreviation example_amounts :: "resource_amount list" where
  "example_amounts \<equiv> [\<lparr>amount_key = example_key, amount_value = 2\<rparr>]"

lemma example_inv: "quota_inv example_db"
  by (simp add: quota_inv_def example_db_def)

lemma example_fresh: "query_reservation_by_op example_db op = Inr None"
  by (simp add: query_reservation_by_op_def example_db_def)

lemma example_limit: "get_limit example_db example_scope example_key = Inr (Maximum 3)"
  by (simp add: get_limit_def limit_of_column_def u64_of_i64_def i64_max_def example_db_def is_known_def
      is_known_dimension_def known_dimensions_def example_key_def)

lemma example_usage:
  "get_usage example_db example_scope example_key =
     Inr \<lparr>usage_scope = example_scope, usage_key = example_key, in_use = 1, reserved = 0\<rparr>"
proof -
  have k: "is_known example_key"
    by (simp add: is_known_def is_known_dimension_def known_dimensions_def example_key_def)
  have l: "eq_ignore_ascii_case ''Active'' ''DELETED'' = False"
    "eq_ignore_ascii_case ''Active'' ''ERROR'' = False"
    by code_simp+
  have "query_in_use_usage example_db example_scope example_key = Inr 1"
    using l
    by (simp add: query_in_use_usage_def Let_def example_key_def example_db_def example_scope_def
        live_instance_def parse_count_def parse_non_negative_u64_def u64_of_i64_def i64_max_def)
  moreover have "query_reserved_usage example_db example_scope example_key None = Inr 0"
    by (simp add: query_reserved_usage_def held_amounts_def parse_sum_def parse_non_negative_u64_def
        u64_of_i64_def i64_max_def example_db_def)
  ultimately show ?thesis using k by (simp add: get_usage_def)
qed

lemma example_known: "is_known example_key"
  by (simp add: is_known_def is_known_dimension_def known_dimensions_def example_key_def)

lemma example_valid: "validate_amounts {} example_amounts = None"
  using example_known by (simp add: i64_of_u64_def i64_max_def)

lemma example_granted:
  "reserve_quota ''res-1'' ''t0'' example_db example_scope ''op-1'' example_amounts =
     Inr (reservation_new ''res-1'' ''t0'' example_scope ''op-1'' example_amounts,
          with_reservation example_db example_scope
            (reservation_new ''res-1'' ''t0'' example_scope ''op-1'' example_amounts))"
proof -
  have "fits example_db example_scope \<lparr>amount_key = example_key, amount_value = 2\<rparr>"
    using example_usage example_limit by (simp add: fits_def)
  moreover have "''res-1'' \<notin> rr_id ` set (quota_reservations example_db)"
    by (simp add: example_db_def)
  ultimately show ?thesis
    using example_valid unfolding reserve_fresh [OF example_inv example_fresh] by simp
qed

theorem reserve_within_limits_witness:
  "\<exists>r db'. reserve_quota ''res-1'' ''t0'' example_db example_scope ''op-1'' example_amounts = Inr (r, db')
     \<and> (\<exists>u. get_usage db' example_scope example_key = Inr u
          \<and> unat (in_use u) + unat (reserved u) \<le> unat (3 :: u64))"
  using reserve_within_limits [OF example_inv example_fresh example_granted, of
      "\<lparr>amount_key = example_key, amount_value = 2\<rparr>" 3] example_limit example_granted
  by auto

theorem reserve_grants_iff_fits_witness:
  "fits example_db example_scope \<lparr>amount_key = example_key, amount_value = 2\<rparr>
     \<and> (\<exists>r db'. reserve_quota ''res-9'' ''t0'' example_db example_scope ''op-1'' example_amounts
          = Inr (r, db'))"
proof -
  have "''res-1'' \<notin> rr_id ` set (quota_reservations example_db)"
    and n: "''res-9'' \<notin> rr_id ` set (quota_reservations example_db)"
    by (simp_all add: example_db_def)
  from reserve_grants_iff_fits [OF example_inv example_fresh this(1),
      where op = "''op-1''"
      and now = "''t0''" and scope = example_scope and amounts = example_amounts] example_granted
  have "fits example_db example_scope \<lparr>amount_key = example_key, amount_value = 2\<rparr>"
    by (metis list.set_intros(1))
  moreover from this example_known example_valid
    reserve_grants_iff_fits [OF example_inv example_fresh n,
      where op = "''op-1''" and now = "''t0''"
      and scope = example_scope and amounts = example_amounts]
  have "\<exists>r db'. reserve_quota ''res-9'' ''t0'' example_db example_scope ''op-1'' example_amounts
          = Inr (r, db')"
    by (simp add: validate_amounts_None i64_max_def)
  ultimately show ?thesis by blast
qed

theorem reserve_retry_witness:
  "\<exists>r db'. reserve_quota ''res-1'' ''t0'' example_db example_scope ''op-1'' example_amounts = Inr (r, db')
     \<and> reserve_quota ''res-2'' ''t1'' db' example_scope ''op-1'' example_amounts = Inr (read_back r, db')"
  using reserve_retry [OF example_inv example_fresh example_granted _ _ example_valid, of "''res-2''" "''t1''"]
    example_granted
  by auto

abbreviation example_row :: reservation_row where
  "example_row \<equiv>
     \<lparr>rr_id = ''res-1'', rr_scope_id = ''p1'', rr_scope_kind = ''project'', rr_operation = ''op-1'',
      rr_state = ''released'', rr_created_at = ''t0''\<rparr>"

lemma example_released_inv: "quota_inv (example_db\<lparr>quota_reservations := [example_row]\<rparr>)"
  by (simp add: quota_inv_def example_db_def)

theorem reservation_life_witness:
  "\<exists>e. reserve_quota ''res-2'' ''t1''
     (run_ops quota_step (example_db\<lparr>quota_reservations := [example_row]\<rparr>) [Commit (ReservationId ''res-1'')])
     example_scope ''op-1'' example_amounts = Inl e"
proof -
  have "status (example_db\<lparr>quota_reservations := [example_row]\<rparr>) ''op-1'' = Some Released"
    by (simp add: status_def reservation_state_of_str_def)
  from reservation_life [OF example_released_inv this] show ?thesis by blast
qed

theorem commit_after_release_accepted_witness:
  "commit_reservation (example_db\<lparr>quota_reservations := [example_row]\<rparr>) (ReservationId ''res-1'')
     = Inr (example_db\<lparr>quota_reservations := [example_row]\<rparr>)"
  using commit_after_release_accepted [OF example_released_inv, of example_row] by simp

theorem limit_cas_wins_once_witness:
  "\<exists>db'. set_limit_if_generation example_db example_scope example_key Unlimited 1 = Inr (2, db')
     \<and> (\<exists>e. set_limit_if_generation db' example_scope example_key (Maximum 9) 1 = Inl e)"
proof -
  have "\<exists>db'. set_limit_if_generation example_db example_scope example_key Unlimited 1 = Inr (2, db')"
    using example_known by (simp add: cas_Inr i64_max_def limit_to_column_def example_db_def)
  then obtain db' where
    "set_limit_if_generation example_db example_scope example_key Unlimited 1 = Inr (2, db')" by blast
  from this limit_cas_wins_once [OF this, of "Maximum 9"] show ?thesis by blast
qed

theorem absent_limit_ignores_generation_witness:
  "\<exists>db'. set_limit_if_generation (example_db\<lparr>quota_limits := Map.empty\<rparr>) example_scope example_key
     (Maximum 9) 41 = Inr (42, db')"
  using absent_limit_ignores_generation [OF example_known, of
      "example_db\<lparr>quota_limits := Map.empty\<rparr>" example_scope "Maximum 9" "Some 9" 41]
  by (auto simp: limit_to_column_def i64_of_u64_def i64_max_def)

end
