(* ===== verification/Store_Coordination.thy ===== *)
theory Store_Coordination
  imports Rust_Prelude
begin

text \<open>
  Controller sessions and durable work leases (\<open>crates/o3k-store/src/coordination.rs\<close>, the
  SQLite implementation, over the tables of \<open>migrations/0019_coordination.sql\<close>).
  The clock is an argument: milliseconds since the epoch, one reading per SQL statement. A
  fencing token is an \<open>i64\<close> in a row and a \<open>u64\<close> in the interface. The retry of
  \<open>acquire_work_lease\<close> while SQLite reports that it is busy repeats the attempt modelled here.
  Lemmas: exclusion while a lease is live, stale owners are fenced, and when tokens grow; the
  last property shows that they do not grow over the release of a lease that was taken over.
\<close>

section \<open>Timestamps\<close>

text \<open>
  A column holds text: \<open>datetime('now')\<close> writes whole seconds,
  \<open>strftime('%Y-%m-%d %H:%M:%f', 'now')\<close> adds milliseconds. Columns are compared as text:
  a time without fraction is a prefix of, and so less than, every time in its second.
\<close>

datatype stamp = Secs int | Millis int

fun stamp_key :: "stamp \<Rightarrow> int" where
  "stamp_key (Secs s) = 2000 * s"
| "stamp_key (Millis m) = 2 * m + 1"

definition stamp_less :: "stamp \<Rightarrow> stamp \<Rightarrow> bool" where
  "stamp_less a b = (stamp_key a < stamp_key b)"

definition datetime_now :: "int \<Rightarrow> int \<Rightarrow> stamp" where
  "datetime_now t offset_secs = Secs (t div 1000 + offset_secs)"

definition strftime_now :: "int \<Rightarrow> int \<Rightarrow> stamp" where
  "strftime_now t offset_ms = Millis (t + offset_ms)"

text \<open>A \<open>Duration\<close> is a number of nanoseconds.\<close>

type_synonym duration = nat

definition as_secs :: "duration \<Rightarrow> nat" where
  "as_secs d = d div 1000000000"

definition lease_ttl_millis :: "duration \<Rightarrow> nat" where
  "lease_ttl_millis ttl = ttl div 1000000 + (if ttl mod 1000000 = 0 then 0 else 1)"

section \<open>Controller sessions\<close>

datatype controller_state = Active | Draining | Expired

fun controller_state_str :: "controller_state \<Rightarrow> string" where
  "controller_state_str Active = ''Active''"
| "controller_state_str Draining = ''Draining''"
| "controller_state_str Expired = ''Expired''"

definition controller_state_of_str :: "string \<Rightarrow> controller_state option" where
  "controller_state_of_str s =
     (if s = ''Active'' then Some Active else if s = ''Draining'' then Some Draining
      else if s = ''Expired'' then Some Expired else None)"

record controller_session =
  controller_id :: string
  controller_epoch :: string
  started_at :: stamp
  heartbeat_at :: stamp
  session_until :: stamp
  software_version :: string
  source_commit :: string
  session_state :: string

record lease_row =
  lease_kind :: string
  lease_owner :: string
  lease_epoch :: string
  lease_token :: int
  lease_until :: stamp
  lease_created :: stamp
  lease_updated :: stamp

record coordination_db =
  sessions :: "controller_session list"
  leases :: "string \<rightharpoonup> lease_row"
  fence_counters :: "string \<rightharpoonup> int"

definition is_session :: "string \<Rightarrow> string \<Rightarrow> controller_session \<Rightarrow> bool" where
  "is_session i e s = (controller_id s = i \<and> controller_epoch s = e)"

definition register_session ::
  "int \<Rightarrow> coordination_db \<Rightarrow> controller_session \<Rightarrow> controller_state \<Rightarrow> duration \<Rightarrow> coordination_db"
  where
  "register_session t db s st ttl =
     (let hit = is_session (controller_id s) (controller_epoch s);
          refresh = (\<lambda>q. q\<lparr>heartbeat_at := datetime_now t 0,
                          session_until := datetime_now t (int (as_secs ttl)),
                          software_version := software_version s,
                          source_commit := source_commit s,
                          session_state := controller_state_str st\<rparr>)
      in db\<lparr>sessions :=
           (if list_ex hit (sessions db)
            then map (\<lambda>q. if hit q then refresh q else q) (sessions db)
            else sessions db @ [refresh (s\<lparr>started_at := datetime_now t 0\<rparr>)])\<rparr>)"

definition heartbeat_session ::
  "int \<Rightarrow> coordination_db \<Rightarrow> string \<Rightarrow> string \<Rightarrow> duration \<Rightarrow> bool \<times> coordination_db" where
  "heartbeat_session t db i e ttl =
     (let hit = (\<lambda>q. is_session i e q \<and> session_state q = ''Active'')
      in (list_ex hit (sessions db),
          db\<lparr>sessions := map (\<lambda>q. if hit q
               then q\<lparr>heartbeat_at := datetime_now t 0,
                       session_until := datetime_now t (int (as_secs ttl))\<rparr>
               else q) (sessions db)\<rparr>))"

definition drain_session ::
  "int \<Rightarrow> coordination_db \<Rightarrow> string \<Rightarrow> string \<Rightarrow> bool \<times> coordination_db" where
  "drain_session t db i e =
     (list_ex (is_session i e) (sessions db),
      db\<lparr>sessions := map (\<lambda>q. if is_session i e q
           then q\<lparr>session_state := ''Draining'', heartbeat_at := datetime_now t 0\<rparr> else q)
         (sessions db)\<rparr>)"

text \<open>
  The listing keeps the rows that are active and not expired, oldest first (rows that started
  in the same second in the order of the table).
\<close>

definition list_active_sessions :: "int \<Rightarrow> coordination_db \<Rightarrow> controller_session list" where
  "list_active_sessions t db =
     sort_key (\<lambda>q. stamp_key (started_at q))
       (filter (\<lambda>q. session_state q = ''Active'' \<and> \<not> stamp_less (session_until q) (datetime_now t 0))
          (sessions db))"

section \<open>Work leases\<close>

record work_lease =
  work_key :: string
  work_kind :: string
  owner_controller_id :: string
  owner_controller_epoch :: string
  fencing_token :: u64
  work_until :: stamp
  created_at :: stamp
  updated_at :: stamp

datatype acquire_outcome =
    Acquired work_lease
  | Busy string string u64 stamp stamp

definition work_lease_of :: "string \<Rightarrow> lease_row \<Rightarrow> work_lease" where
  "work_lease_of key r =
     \<lparr>work_key = key, work_kind = lease_kind r, owner_controller_id = lease_owner r,
      owner_controller_epoch = lease_epoch r, fencing_token = word_of_int (lease_token r),
      work_until = lease_until r, created_at = lease_created r, updated_at = lease_updated r\<rparr>"

definition lease_expired :: "int \<Rightarrow> lease_row \<Rightarrow> bool" where
  "lease_expired t r = stamp_less (lease_until r) (strftime_now t 0)"

text \<open>
  The transaction of one attempt: \<open>t\<close> is the clock of the query, \<open>t'\<close> the clock of the
  statements that write.
\<close>

definition acquire_work_lease ::
  "int \<Rightarrow> int \<Rightarrow> coordination_db \<Rightarrow> string \<Rightarrow> string \<Rightarrow> string \<Rightarrow> string \<Rightarrow> duration
     \<Rightarrow> acquire_outcome \<times> coordination_db" where
  "acquire_work_lease t t' db key kind i e ttl =
     (case leases db key of
        None \<Rightarrow>
          let token = (case fence_counters db key of None \<Rightarrow> 1 | Some c \<Rightarrow> c + 1);
              row = \<lparr>lease_kind = kind, lease_owner = i, lease_epoch = e, lease_token = token,
                     lease_until = strftime_now t' (int (lease_ttl_millis ttl)),
                     lease_created = datetime_now t' 0, lease_updated = datetime_now t' 0\<rparr>
          in (Acquired (work_lease_of key row),
              db\<lparr>fence_counters := (fence_counters db)(key \<mapsto> token),
                 leases := (leases db)(key \<mapsto> row)\<rparr>)
      | Some r \<Rightarrow>
          if lease_owner r = i \<and> lease_epoch r = e \<and> \<not> lease_expired t r then
            let row = r\<lparr>lease_until := strftime_now t' (int (lease_ttl_millis ttl)),
                        lease_updated := datetime_now t' 0\<rparr>
            in (Acquired (work_lease_of key row), db\<lparr>leases := (leases db)(key \<mapsto> row)\<rparr>)
          else if lease_expired t r then
            let row = r\<lparr>lease_owner := i, lease_epoch := e, lease_token := lease_token r + 1,
                        lease_until := strftime_now t' (int (lease_ttl_millis ttl)),
                        lease_updated := datetime_now t' 0\<rparr>
            in (Acquired (work_lease_of key row), db\<lparr>leases := (leases db)(key \<mapsto> row)\<rparr>)
          else
            (Busy (lease_owner r) (lease_epoch r) (word_of_int (lease_token r))
               (lease_created r) (lease_until r), db))"

text \<open>The condition of the fenced updates; the token argument is cast to an \<open>i64\<close>.\<close>

definition holds_lease :: "string \<Rightarrow> string \<Rightarrow> u64 \<Rightarrow> lease_row \<Rightarrow> bool" where
  "holds_lease i e token r = (lease_owner r = i \<and> lease_epoch r = e \<and> lease_token r = sint token)"

definition renew_work_lease ::
  "int \<Rightarrow> coordination_db \<Rightarrow> string \<Rightarrow> string \<Rightarrow> string \<Rightarrow> u64 \<Rightarrow> duration
     \<Rightarrow> bool \<times> coordination_db" where
  "renew_work_lease t db key i e token ttl =
     (case leases db key of
        None \<Rightarrow> (False, db)
      | Some r \<Rightarrow>
          if holds_lease i e token r \<and> \<not> lease_expired t r then
            (True, db\<lparr>leases := (leases db)(key \<mapsto>
               r\<lparr>lease_until := strftime_now t (int (lease_ttl_millis ttl)),
                 lease_updated := datetime_now t 0\<rparr>)\<rparr>)
          else (False, db))"

definition release_work_lease ::
  "coordination_db \<Rightarrow> string \<Rightarrow> string \<Rightarrow> string \<Rightarrow> u64 \<Rightarrow> bool \<times> coordination_db" where
  "release_work_lease db key i e token =
     (case leases db key of
        None \<Rightarrow> (False, db)
      | Some r \<Rightarrow>
          if holds_lease i e token r then (True, db\<lparr>leases := (leases db)(key := None)\<rparr>)
          else (False, db))"

definition relinquish_work_lease ::
  "int \<Rightarrow> coordination_db \<Rightarrow> string \<Rightarrow> string \<Rightarrow> string \<Rightarrow> u64 \<Rightarrow> bool \<times> coordination_db" where
  "relinquish_work_lease t db key i e token =
     (case leases db key of
        None \<Rightarrow> (False, db)
      | Some r \<Rightarrow>
          if holds_lease i e token r then
            (True, db\<lparr>leases := (leases db)(key \<mapsto>
               r\<lparr>lease_until := datetime_now t (- 1), lease_updated := datetime_now t 0\<rparr>)\<rparr>)
          else (False, db))"

definition inspect_work_lease :: "coordination_db \<Rightarrow> string \<Rightarrow> work_lease option" where
  "inspect_work_lease db key = map_option (work_lease_of key) (leases db key)"

section \<open>Runs\<close>

datatype lease_op =
    Register int controller_session controller_state duration
  | Heartbeat int string string duration
  | Drain int string string
  | AcquireLease int int string string string string duration
  | RenewLease int string string string u64 duration
  | ReleaseLease string string string u64
  | RelinquishLease int string string string u64

fun lease_step :: "coordination_db \<Rightarrow> lease_op \<Rightarrow> coordination_db" where
  "lease_step db (Register t s st ttl) = register_session t db s st ttl"
| "lease_step db (Heartbeat t i e ttl) = snd (heartbeat_session t db i e ttl)"
| "lease_step db (Drain t i e) = snd (drain_session t db i e)"
| "lease_step db (AcquireLease t t' key kind i e ttl) = snd (acquire_work_lease t t' db key kind i e ttl)"
| "lease_step db (RenewLease t key i e token ttl) = snd (renew_work_lease t db key i e token ttl)"
| "lease_step db (ReleaseLease key i e token) = snd (release_work_lease db key i e token)"
| "lease_step db (RelinquishLease t key i e token) = snd (relinquish_work_lease t db key i e token)"

lemma session_ops_leases [simp]:
  "leases (register_session t db s st ttl) = leases db"
  "fence_counters (register_session t db s st ttl) = fence_counters db"
  "leases (snd (heartbeat_session t db i e ttl)) = leases db"
  "fence_counters (snd (heartbeat_session t db i e ttl)) = fence_counters db"
  "leases (snd (drain_session t db i e)) = leases db"
  "fence_counters (snd (drain_session t db i e)) = fence_counters db"
  by (simp_all add: register_session_def heartbeat_session_def drain_session_def Let_def)

lemmas lease_op_defs =
  acquire_work_lease_def renew_work_lease_def release_work_lease_def relinquish_work_lease_def

section \<open>Exclusion\<close>

text \<open>Operations of others, before the lease \<open>r\<close> on \<open>key\<close> has expired.\<close>

fun harmless :: "string \<Rightarrow> lease_row \<Rightarrow> lease_op \<Rightarrow> bool" where
  "harmless key r (AcquireLease t t' k kind i e ttl) =
     (k = key \<longrightarrow> (i, e) \<noteq> (lease_owner r, lease_epoch r) \<and> \<not> lease_expired t r)"
| "harmless key r (RenewLease t k i e token ttl) =
     (k = key \<longrightarrow> (i, e, sint token) \<noteq> (lease_owner r, lease_epoch r, lease_token r))"
| "harmless key r (ReleaseLease k i e token) =
     (k = key \<longrightarrow> (i, e, sint token) \<noteq> (lease_owner r, lease_epoch r, lease_token r))"
| "harmless key r (RelinquishLease t k i e token) =
     (k = key \<longrightarrow> (i, e, sint token) \<noteq> (lease_owner r, lease_epoch r, lease_token r))"
| "harmless key r x = True"

lemma harmless_step:
  assumes "leases db key = Some r" "harmless key r x"
  shows "leases (lease_step db x) key = Some r"
  using assms
  by (cases x)
    (auto simp: lease_op_defs holds_lease_def Let_def split: option.splits if_splits)

text \<open>
  C7: a live lease excludes everyone else. While the lease of a key has not expired, nothing
  that other owners do, or that anyone does with another token or to other keys, changes its
  owner, its token or its expiry; whoever else asks for it is told that it is busy.
\<close>

theorem live_lease_excludes:
  assumes "leases db key = Some r" and "\<forall>x\<in>set xs. harmless key r x"
  shows "leases (foldl lease_step db xs) key = Some r
    \<and> (\<forall>t t' kind i e ttl. \<not> lease_expired t r \<and> (i, e) \<noteq> (lease_owner r, lease_epoch r) \<longrightarrow>
         acquire_work_lease t t' (foldl lease_step db xs) key kind i e ttl =
           (Busy (lease_owner r) (lease_epoch r) (word_of_int (lease_token r)) (lease_created r)
              (lease_until r), foldl lease_step db xs))"
proof -
  have "leases (foldl lease_step db xs) key = Some r"
    using assms by (induction xs arbitrary: db) (auto simp: harmless_step)
  then show ?thesis by (auto simp: acquire_work_lease_def)
qed

section \<open>Fencing\<close>

lemma sint_of_token: "0 \<le> tk \<Longrightarrow> tk \<le> i64_max \<Longrightarrow> sint (word_of_int tk :: u64) = tk"
  by (simp add: i64_max_def int_word_sint mod_pos_pos_trivial)

text \<open>
  A takeover fences the previous holder, even when it is the same controller that comes
  back. After an expired lease was acquired, renewing, releasing or relinquishing with the old
  token fails and changes nothing, whoever asks.
\<close>

theorem takeover_fences_old_token:
  assumes r: "leases db key = Some r" and exp: "lease_expired t r"
    and tk: "0 \<le> lease_token r" "lease_token r \<le> i64_max"
    and db': "db' = snd (acquire_work_lease t t' db key kind i e ttl)"
    and old: "token = word_of_int (lease_token r)"
  shows "renew_work_lease t2 db' key i' e' token ttl2 = (False, db')
    \<and> release_work_lease db' key i' e' token = (False, db')
    \<and> relinquish_work_lease t2 db' key i' e' token = (False, db')"
proof -
  from r exp db' obtain r' where r': "leases db' key = Some r'" "lease_token r' = lease_token r + 1"
    by (auto simp: acquire_work_lease_def Let_def)
  have "\<not> holds_lease i' e' token r'"
    using sint_of_token [OF tk] r'(2) by (simp add: holds_lease_def old)
  with r' show ?thesis by (simp add: lease_op_defs)
qed

section \<open>When tokens grow\<close>

definition fence :: "string \<Rightarrow> coordination_db \<Rightarrow> int" where
  "fence key db =
     (case leases db key of
        Some r \<Rightarrow> lease_token r
      | None \<Rightarrow> (case fence_counters db key of None \<Rightarrow> 0 | Some c \<Rightarrow> c))"

fun key_ok :: "lease_row option \<Rightarrow> int option \<Rightarrow> bool" where
  "key_ok None None = True"
| "key_ok None (Some c) = (1 \<le> c)"
| "key_ok (Some r) None = False"
| "key_ok (Some r) (Some c) = (1 \<le> c \<and> c \<le> lease_token r)"

definition coordination_inv :: "coordination_db \<Rightarrow> bool" where
  "coordination_inv db \<longleftrightarrow> (\<forall>key. key_ok (leases db key) (fence_counters db key))"

definition forgets :: "string \<Rightarrow> coordination_db \<Rightarrow> lease_op \<Rightarrow> bool" where
  "forgets key db x =
     (case x of
        ReleaseLease k i e token \<Rightarrow>
          k = key \<and> (case leases db key of
             None \<Rightarrow> False
           | Some r \<Rightarrow> holds_lease i e token r \<and> fence_counters db key \<noteq> Some (lease_token r))
      | _ \<Rightarrow> False)"

fun keeps :: "('s \<Rightarrow> 'o \<Rightarrow> 's) \<Rightarrow> ('s \<Rightarrow> 'o \<Rightarrow> bool) \<Rightarrow> 's \<Rightarrow> 'o list \<Rightarrow> bool" where
  "keeps step bad s [] = True"
| "keeps step bad s (x # xs) = (\<not> bad s x \<and> keeps step bad (step s x) xs)"

locale growing_counter =
  fixes step :: "'s \<Rightarrow> 'o \<Rightarrow> 's" and inv :: "'s \<Rightarrow> bool" and counter :: "'s \<Rightarrow> int"
    and bad :: "'s \<Rightarrow> 'o \<Rightarrow> bool"
  assumes inv_step: "inv s \<Longrightarrow> inv (step s x)"
    and counter_step: "inv s \<Longrightarrow> \<not> bad s x \<Longrightarrow> counter s \<le> counter (step s x)"
begin

lemma inv_run: "inv s \<Longrightarrow> inv (foldl step s xs)"
  by (induction xs arbitrary: s) (auto intro: inv_step)

lemma counter_run: "inv s \<Longrightarrow> keeps step bad s xs \<Longrightarrow> counter s \<le> counter (foldl step s xs)"
proof (induction xs arbitrary: s)
  case (Cons x xs)
  then have "counter s \<le> counter (step s x)" by (simp add: counter_step)
  also have "\<dots> \<le> counter (foldl step (step s x) xs)"
    using Cons inv_step by simp
  finally show ?case by simp
qed simp

end

lemma key_ok_Some: "key_ok (Some r) c \<longleftrightarrow> (\<exists>n. c = Some n \<and> 1 \<le> n \<and> n \<le> lease_token r)"
  by (cases c) auto

lemma key_ok_None: "key_ok None c \<longleftrightarrow> (\<forall>n. c = Some n \<longrightarrow> 1 \<le> n)"
  by (cases c) auto

lemma coordination_inv_step:
  assumes "coordination_inv db" shows "coordination_inv (lease_step db x)"
  unfolding coordination_inv_def
proof
  fix key
  have "key_ok (leases db key) (fence_counters db key)"
    using assms by (simp add: coordination_inv_def)
  then show "key_ok (leases (lease_step db x) key) (fence_counters (lease_step db x) key)"
    by (cases x)
      (auto simp: lease_op_defs Let_def key_ok_Some key_ok_None split: option.splits if_splits)
qed

lemma fence_step:
  assumes "coordination_inv db" "\<not> forgets key db x"
  shows "fence key db \<le> fence key (lease_step db x)"
proof -
  have "key_ok (leases db key) (fence_counters db key)"
    using assms(1) by (simp add: coordination_inv_def)
  with assms(2) show ?thesis
    by (cases x)
      (auto simp: lease_op_defs Let_def fence_def forgets_def key_ok_Some key_ok_None
        split: option.splits if_splits)
qed

interpretation fence_counter: growing_counter lease_step coordination_inv "fence key" "forgets key" for key
  by unfold_locales (auto intro: coordination_inv_step fence_step)

lemma acquire_token:
  assumes inv: "coordination_inv db" and a: "acquire_work_lease t t' db key kind i e ttl = (Acquired l, db')"
  shows "\<exists>r. leases db' key = Some r \<and> l = work_lease_of key r \<and> lease_owner r = i \<and> lease_epoch r = e
    \<and> (if \<exists>q. leases db key = Some q \<and> lease_owner q = i \<and> lease_epoch q = e \<and> \<not> lease_expired t q
       then lease_token r = fence key db else lease_token r = fence key db + 1)"
  using a
  by (auto simp: acquire_work_lease_def fence_def Let_def split: option.splits if_splits)

text \<open>
  Tokens only grow, as long as no lease is released that was acquired by a takeover. On
  every such run a granted lease carries a token that is at least every earlier token of the
  key, and strictly greater unless the grant renews a live lease of the same controller.
\<close>

theorem granted_token_grows:
  assumes inv: "coordination_inv db" and keep: "keeps lease_step (forgets key) db xs"
    and a: "acquire_work_lease t t' (foldl lease_step db xs) key kind i e ttl = (Acquired l, db')"
  shows "\<exists>r. leases db' key = Some r \<and> fencing_token l = word_of_int (lease_token r)
    \<and> fence key db \<le> lease_token r
    \<and> ((\<exists>q. leases (foldl lease_step db xs) key = Some q \<and> lease_owner q = i \<and> lease_epoch q = e
          \<and> \<not> lease_expired t q) \<or> fence key db < lease_token r)"
proof -
  have "fence key db \<le> fence key (foldl lease_step db xs)"
    using fence_counter.counter_run inv keep .
  with acquire_token [OF fence_counter.inv_run [OF inv] a] show ?thesis
    by (fastforce simp: work_lease_of_def split: if_splits)
qed

text \<open>
  The token does not grow over the release of a lease that was taken over. The counter
  that outlives the lease row is advanced only when a row is inserted, a takeover advances the
  row alone; after the release the next controller is granted a token that the key has already
  seen.
\<close>

theorem release_forgets_takeover:
  assumes r: "leases db key = Some r" and c: "fence_counters db key = Some c" "c < lease_token r"
    and h: "holds_lease i e token r"
  shows "\<exists>db1 l r'. release_work_lease db key i e token = (True, db1)
    \<and> acquire_work_lease t t' db1 key kind i' e' ttl =
        (Acquired l, lease_step db1 (AcquireLease t t' key kind i' e' ttl))
    \<and> leases (lease_step db1 (AcquireLease t t' key kind i' e' ttl)) key = Some r'
    \<and> fencing_token l = word_of_int (lease_token r') \<and> lease_token r' = c + 1
    \<and> lease_token r' \<le> lease_token r"
  using r c h
  by (auto simp: release_work_lease_def acquire_work_lease_def Let_def work_lease_of_def)

section \<open>Sessions\<close>

definition inactive :: "string \<Rightarrow> string \<Rightarrow> coordination_db \<Rightarrow> bool" where
  "inactive i e db \<longleftrightarrow> (\<forall>q\<in>set (sessions db). is_session i e q \<longrightarrow> session_state q \<noteq> ''Active'')"

fun registers :: "string \<Rightarrow> string \<Rightarrow> lease_op \<Rightarrow> bool" where
  "registers i e (Register t s st ttl) = is_session i e s"
| "registers i e x = False"

lemma lease_ops_sessions [simp]:
  "sessions (snd (acquire_work_lease t t' db key kind i e ttl)) = sessions db"
  "sessions (snd (renew_work_lease t db key i e token ttl)) = sessions db"
  "sessions (snd (release_work_lease db key i e token)) = sessions db"
  "sessions (snd (relinquish_work_lease t db key i e token)) = sessions db"
  by (auto simp: lease_op_defs Let_def split: option.splits if_splits)

lemma inactive_step: "inactive i e db \<Longrightarrow> \<not> registers i e x \<Longrightarrow> inactive i e (lease_step db x)"
  unfolding inactive_def
  by (cases x)
    (auto simp: register_session_def heartbeat_session_def drain_session_def is_session_def Let_def)

lemma inactive_run:
  "inactive i e db \<Longrightarrow> \<forall>x\<in>set xs. \<not> registers i e x \<Longrightarrow> inactive i e (foldl lease_step db xs)"
  by (induction xs arbitrary: db) (auto intro: inactive_step)

text \<open>
  A controller that was drained is not active again until it registers anew: whatever
  operations follow, it is not listed, and its heartbeats are refused.
\<close>

theorem drained_until_registered:
  assumes "drain_session t db i e = (b, db')" and "\<forall>x\<in>set xs. \<not> registers i e x"
  shows "(\<forall>q\<in>set (list_active_sessions t2 (foldl lease_step db' xs)). \<not> is_session i e q)
    \<and> heartbeat_session t2 (foldl lease_step db' xs) i e ttl = (False, foldl lease_step db' xs)"
proof -
  let ?f = "\<lambda>q. if is_session i e q
      then q\<lparr>session_state := ''Draining'', heartbeat_at := datetime_now t 0\<rparr> else q"
  have "is_session i e (?f q) \<longrightarrow> session_state (?f q) \<noteq> ''Active''" for q
    by (simp add: is_session_def) blast
  moreover have "sessions (snd (drain_session t db i e)) = map ?f (sessions db)"
    by (simp add: drain_session_def)
  ultimately have "inactive i e (snd (drain_session t db i e))"
    unfolding inactive_def by (metis (no_types, lifting) imageE set_map)
  with assms(1) have "inactive i e db'" by simp
  then have "inactive i e (foldl lease_step db' xs)" using assms(2) by (rule inactive_run)
  then have q: "session_state q \<noteq> ''Active''"
    if "q \<in> set (sessions (foldl lease_step db' xs))" "is_session i e q" for q
    using that by (auto simp: inactive_def)
  then have none: "\<not> list_ex (\<lambda>q. is_session i e q \<and> session_state q = ''Active'')
      (sessions (foldl lease_step db' xs))"
    unfolding list_ex_iff by blast
  have same: "map (\<lambda>q. if is_session i e q \<and> session_state q = ''Active'' then f q else q)
      (sessions (foldl lease_step db' xs)) = sessions (foldl lease_step db' xs)" for f
    using q by (intro map_idI) auto
  have "heartbeat_session t2 (foldl lease_step db' xs) i e ttl = (False, foldl lease_step db' xs)"
    unfolding heartbeat_session_def Let_def same using none by simp
  with q show ?thesis by (auto simp: list_active_sessions_def)
qed

section \<open>Concrete runs\<close>

definition no_leases :: coordination_db where
  "no_leases = \<lparr>sessions = [], leases = Map.empty, fence_counters = Map.empty\<rparr>"

definition taken_over :: coordination_db where
  "taken_over = foldl lease_step no_leases
     [AcquireLease 0 0 ''op:1'' ''operation'' ''c1'' ''e1'' 1000000000,
      AcquireLease 5000 5000 ''op:1'' ''operation'' ''c2'' ''e2'' 1000000000]"

lemma no_leases_inv: "coordination_inv no_leases"
  by (simp add: coordination_inv_def no_leases_def)

lemma taken_over_lease:
  "leases taken_over ''op:1'' = Some \<lparr>lease_kind = ''operation'', lease_owner = ''c2'', lease_epoch = ''e2'',
     lease_token = 2, lease_until = Millis 6000, lease_created = Secs 0, lease_updated = Secs 5\<rparr>"
  "fence_counters taken_over ''op:1'' = Some 1"
  by (simp_all add: taken_over_def no_leases_def acquire_work_lease_def lease_expired_def stamp_less_def
      strftime_now_def datetime_now_def lease_ttl_millis_def Let_def)

theorem live_lease_excludes_witness:
  "leases (lease_step taken_over (AcquireLease 5500 5500 ''op:1'' ''operation'' ''c1'' ''e1'' 1)) ''op:1''
     = leases taken_over ''op:1''"
  using live_lease_excludes [OF taken_over_lease(1),
      of "[AcquireLease 5500 5500 ''op:1'' ''operation'' ''c1'' ''e1'' 1]"] taken_over_lease(1)
  by (simp add: lease_expired_def stamp_less_def strftime_now_def)

theorem takeover_fences_old_token_witness:
  "\<exists>db'. db' = snd (acquire_work_lease 7000 7000 taken_over ''op:1'' ''operation'' ''c3'' ''e3'' 1)
     \<and> release_work_lease db' ''op:1'' ''c2'' ''e2'' 2 = (False, db')"
  using takeover_fences_old_token [OF taken_over_lease(1), of 7000 _ 7000 "''operation''" "''c3''" "''e3''" 1 2]
  by (simp add: lease_expired_def stamp_less_def strftime_now_def i64_max_def)

theorem granted_token_grows_witness:
  "\<exists>l r db'. acquire_work_lease 7000 7000 taken_over ''op:1'' ''operation'' ''c3'' ''e3'' 1 = (Acquired l, db')
     \<and> leases db' ''op:1'' = Some r \<and> fence ''op:1'' no_leases \<le> lease_token r"
proof -
  have "\<exists>l db'. acquire_work_lease 7000 7000 taken_over ''op:1'' ''operation'' ''c3'' ''e3'' 1 = (Acquired l, db')"
    by (simp add: acquire_work_lease_def taken_over_lease lease_expired_def stamp_less_def strftime_now_def Let_def)
  then obtain l db' where
    a: "acquire_work_lease 7000 7000 taken_over ''op:1'' ''operation'' ''c3'' ''e3'' 1 = (Acquired l, db')"
    by blast
  have "keeps lease_step (forgets ''op:1'') no_leases
     [AcquireLease 0 0 ''op:1'' ''operation'' ''c1'' ''e1'' 1000000000,
      AcquireLease 5000 5000 ''op:1'' ''operation'' ''c2'' ''e2'' 1000000000]"
    by (simp add: forgets_def)
  from granted_token_grows [OF no_leases_inv this a [unfolded taken_over_def]] a show ?thesis by blast
qed

theorem release_forgets_takeover_witness:
  "\<exists>db1 l. release_work_lease taken_over ''op:1'' ''c2'' ''e2'' 2 = (True, db1)
     \<and> fst (acquire_work_lease 8000 8000 db1 ''op:1'' ''operation'' ''c3'' ''e3'' 1) = Acquired l
     \<and> fencing_token l = 2"
proof -
  have lt: "(1::int) < lease_token \<lparr>lease_kind = ''operation'', lease_owner = ''c2'',
     lease_epoch = ''e2'', lease_token = 2, lease_until = Millis 6000, lease_created = Secs 0,
     lease_updated = Secs 5\<rparr>" by simp
  have "holds_lease ''c2'' ''e2'' 2 \<lparr>lease_kind = ''operation'', lease_owner = ''c2'', lease_epoch = ''e2'',
     lease_token = 2, lease_until = Millis 6000, lease_created = Secs 0, lease_updated = Secs 5\<rparr>"
    using sint_of_token [of 2] by (simp add: holds_lease_def i64_max_def)
  from release_forgets_takeover [OF taken_over_lease(1,2) lt this, where t = 8000 and t' = 8000
      and kind = "''operation''" and i' = "''c3''" and e' = "''e3''" and ttl = 1]
  obtain db1 l and r' :: lease_row where "release_work_lease taken_over ''op:1'' ''c2'' ''e2'' 2 = (True, db1)"
    "acquire_work_lease 8000 8000 db1 ''op:1'' ''operation'' ''c3'' ''e3'' 1 =
       (Acquired l, lease_step db1 (AcquireLease 8000 8000 ''op:1'' ''operation'' ''c3'' ''e3'' 1))"
    "fencing_token l = word_of_int (lease_token r')" "lease_token r' = 1 + 1"
    unfolding lease_row.select_convs by blast
  then show ?thesis by (intro exI [of _ db1] exI [of _ l]) (metis fst_conv of_int_numeral
      one_add_one)
qed

theorem drained_until_registered_witness:
  "\<exists>db'. snd (drain_session 0 no_leases ''c1'' ''e1'') = db'
     \<and> heartbeat_session 1 (foldl lease_step db' [Heartbeat 1 ''c1'' ''e1'' 1]) ''c1'' ''e1'' 1
         = (False, foldl lease_step db' [Heartbeat 1 ''c1'' ''e1'' 1])"
  using drained_until_registered [of 0 no_leases "''c1''" "''e1''" _ _ "[Heartbeat 1 ''c1'' ''e1'' 1]" 1 1]
  by (cases "drain_session 0 no_leases ''c1'' ''e1''") simp

end
