(* ===== verification/Rust_Collections.thy ===== *)
theory Rust_Collections
  imports Rust_Prelude
begin

text \<open>
  \<open>BTreeMap\<close> as the list of its entries in the order of their keys, each key once, and
  \<open>BTreeSet\<close> as a HOL set. \<open>btree_collect\<close> is \<open>collect()\<close>: of entries with the same key the
  last one stays. The lemmas give the look-up of a collected map and show that collecting the
  entries of a map gives the map back.
\<close>

fun btree_insert :: "'k::linorder \<Rightarrow> 'v \<Rightarrow> ('k \<times> 'v) list \<Rightarrow> ('k \<times> 'v) list" where
  "btree_insert k v [] = [(k, v)]"
| "btree_insert k v ((k', v') # m) =
     (if k < k' then (k, v) # (k', v') # m
      else if k = k' then (k, v) # m
      else (k', v') # btree_insert k v m)"

definition btree_collect :: "('k::linorder \<times> 'v) list \<Rightarrow> ('k \<times> 'v) list" where
  "btree_collect xs = foldl (\<lambda>m (k, v). btree_insert k v m) [] xs"

definition btree :: "('k::linorder \<times> 'v) list \<Rightarrow> bool" where
  "btree m \<longleftrightarrow> sorted_wrt (<) (map fst m)"

lemma btree_Nil [simp]: "btree []"
  by (simp add: btree_def)

lemma btree_Cons: "btree (x # m) \<longleftrightarrow> (\<forall>y\<in>set m. fst x < fst y) \<and> btree m"
  by (auto simp: btree_def)

lemma btree_distinct: "btree m \<Longrightarrow> distinct (map fst m)"
  by (simp add: btree_def strict_sorted_iff)

lemma btree_insert_keys: "fst ` set (btree_insert k v m) = insert k (fst ` set m)"
  by (induction k v m rule: btree_insert.induct) auto

lemma btree_insert_btree: "btree m \<Longrightarrow> btree (btree_insert k v m)"
proof (induction k v m rule: btree_insert.induct)
  case (2 k v k' v' m)
  have "fst y \<in> insert k (fst ` set m)" if "y \<in> set (btree_insert k v m)" for y
    using that btree_insert_keys [of k v m] by blast
  with 2 show ?case by (fastforce simp: btree_Cons)
qed (simp add: btree_Cons)

lemma btree_insert_lookup: "map_of (btree_insert k v m) = (map_of m)(k \<mapsto> v)"
  by (induction k v m rule: btree_insert.induct) (auto simp: fun_eq_iff)

lemma btree_foldl:
  "btree m \<Longrightarrow> btree (foldl (\<lambda>m (k, v). btree_insert k v m) m xs)"
  by (induction xs arbitrary: m) (auto simp: btree_insert_btree split: prod.splits)

lemma btree_collect_btree [simp]: "btree (btree_collect xs)"
  by (simp add: btree_collect_def btree_foldl)

lemma map_of_foldl_btree:
  "map_of (foldl (\<lambda>m (k, v). btree_insert k v m) m xs) = map_of m ++ map_of (rev xs)"
  by (induction xs arbitrary: m)
    (auto simp: btree_insert_lookup map_add_def fun_eq_iff split: option.splits prod.splits)

lemma btree_collect_lookup: "map_of (btree_collect xs) = map_of (rev xs)"
  by (simp add: btree_collect_def map_of_foldl_btree)

lemma map_of_rev: "distinct (map fst xs) \<Longrightarrow> map_of (rev xs) = map_of xs"
proof (induction xs)
  case (Cons x xs)
  then have "map_of xs (fst x) = None" by (simp add: map_of_eq_None_iff)
  with Cons show ?case by (cases x) (auto simp: map_add_def fun_eq_iff split: option.splits)
qed simp

lemma btree_collect_lookup_distinct:
  "distinct (map fst xs) \<Longrightarrow> map_of (btree_collect xs) = map_of xs"
  by (simp add: btree_collect_lookup map_of_rev)

lemma btree_insert_greater: "\<forall>y\<in>set m. fst y < k \<Longrightarrow> btree_insert k v m = m @ [(k, v)]"
  by (induction k v m rule: btree_insert.induct) auto

lemma btree_collect_entries: "btree m \<Longrightarrow> btree_collect m = m"
proof -
  have "btree (a @ xs) \<Longrightarrow> foldl (\<lambda>m (k, v). btree_insert k v m) a xs = a @ xs"
    for a xs :: "('a \<times> 'b) list"
  proof (induction xs arbitrary: a)
    case (Cons x xs)
    then have "\<forall>y\<in>set a. fst y < fst x" by (auto simp: btree_def sorted_wrt_append)
    with Cons show ?case by (cases x) (simp add: btree_insert_greater)
  qed simp
  then show "btree m \<Longrightarrow> btree_collect m = m" by (simp add: btree_collect_def)
qed

text \<open>\<open>saturating_sub\<close> stops at zero.\<close>

definition saturating_sub :: "'a::len word \<Rightarrow> 'a word \<Rightarrow> 'a word" where
  "saturating_sub a b = (if b \<le> a then a - b else 0)"

lemma unat_saturating_sub [bounds]: "unat (saturating_sub a b) = unat a - unat b"
  by (simp add: saturating_sub_def unat_sub word_le_nat_alt)

end
