(* ===== verification/Kernel_Metering.thy ===== *)
theory Kernel_Metering
  imports Kernel_Identifiers Rust_Collections
begin

text \<open>
  The semantics of metering (\<open>crates/o3k-kernel/src/metering.rs\<close>): the catalogue of meters,
  the validation of observations and usage queries, the splitting of a usage interval into
  ingest buckets, the accumulation of buckets into coarser ones and the printing of
  quantities. Instants and quantities in milliseconds are \<open>i64\<close>, read as \<open>int\<close> with the checks of
  the source written out; both callers of \<open>bucket_contributions\<close> pass instants that are not
  negative, for which the alignment of the cursor cannot leave the range.
  Lemmas: the contributions of an interval are its exact overlap with each bucket, when
  splitting fails, and accumulating commutes with summing.
\<close>

section \<open>Vocabulary\<close>

definition ingest_bucket_width_ms :: int where "ingest_bucket_width_ms = 3600000"
definition max_usage_range_ms :: int where "max_usage_range_ms = 31622400000"
definition max_usage_buckets :: int where "max_usage_buckets = 1100"
definition max_usage_meters :: nat where "max_usage_meters = 8"
definition max_usage_aggregate_rows :: nat where "max_usage_aggregate_rows = 25000"
definition max_usage_series :: nat where "max_usage_series = 500"
definition max_open_intervals :: nat where "max_open_intervals = 20000"
definition max_ingest_buckets :: nat where "max_ingest_buckets = 96000"

datatype meter_aggregation = Integral

datatype meter_unit = InstanceSecond | VcpuSecond | ByteSecond

fun meter_unit_as_str :: "meter_unit \<Rightarrow> string" where
  "meter_unit_as_str InstanceSecond = ''instance_second''"
| "meter_unit_as_str VcpuSecond = ''vcpu_second''"
| "meter_unit_as_str ByteSecond = ''byte_second''"

datatype usage_granularity = Hour | Day

fun granularity_as_str :: "usage_granularity \<Rightarrow> string" where
  "granularity_as_str Hour = ''hour''"
| "granularity_as_str Day = ''day''"

fun width_ms :: "usage_granularity \<Rightarrow> int" where
  "width_ms Hour = ingest_bucket_width_ms"
| "width_ms Day = 86400000"

datatype usage_status = Complete | Partial | Unavailable

fun usage_status_as_str :: "usage_status \<Rightarrow> string" where
  "usage_status_as_str Complete = ''complete''"
| "usage_status_as_str Partial = ''partial''"
| "usage_status_as_str Unavailable = ''unavailable''"

record meter_definition =
  md_key :: string
  md_owning_service :: string
  md_unit :: meter_unit
  md_aggregation :: meter_aggregation
  md_resource_type :: string
  md_supported_granularities :: "usage_granularity list"
  md_tenant_visible :: bool
  md_operator_visible :: bool
  md_description :: string
  md_version :: nat

definition meter_catalog :: "meter_definition list" where
  "meter_catalog =
     [\<lparr>md_key = ''compute:instance_seconds'', md_owning_service = ''compute'',
       md_unit = InstanceSecond, md_aggregation = Integral,
       md_resource_type = ''compute_instance'', md_supported_granularities = [Hour, Day],
       md_tenant_visible = True, md_operator_visible = True,
       md_description = ''Allocated compute instance time while the instance is running.'',
       md_version = 1\<rparr>,
      \<lparr>md_key = ''volume:allocated_byte_seconds'', md_owning_service = ''volume'',
       md_unit = ByteSecond, md_aggregation = Integral,
       md_resource_type = ''volume'', md_supported_granularities = [Hour, Day],
       md_tenant_visible = True, md_operator_visible = True,
       md_description = ''Allocated block-volume capacity time while the volume exists.'',
       md_version = 1\<rparr>]"

definition meter_definition :: "string \<Rightarrow> meter_definition option" where
  "meter_definition key = find (\<lambda>d. md_key d = key) meter_catalog"

section \<open>Observations and queries\<close>

record meter_observation =
  ob_meter_key :: string
  ob_scope :: string
  ob_resource_id :: string
  ob_quantity :: u64
  ob_consuming :: bool
  ob_observed_at :: int
  ob_authority :: string

definition observation_validate :: "meter_observation \<Rightarrow> (kernel_error, unit) rust_result" where
  "observation_validate o' =
     (if meter_definition (ob_meter_key o') = None then Inl InvalidIdentifier
      else if ob_scope o' = [] \<or> length (ob_scope o') > 256 then Inl InvalidScopeId
      else if ob_resource_id o' = [] \<or> length (ob_resource_id o') > 256
      then Inl InvalidResourceId
      else if ob_consuming o' \<and> ob_quantity o' = 0 then Inl InvalidIdentifier
      else if \<not> ob_consuming o' \<and> ob_quantity o' \<noteq> 0 then Inl InvalidIdentifier
      else if ob_observed_at o' < 0 then Inl InvalidIdentifier
      else if ob_authority o' = [] \<or> length (ob_authority o') > 64 then Inl InvalidIdentifier
      else Inr ())"

record usage_query =
  uq_scope :: string
  uq_meter_keys :: "string list"
  uq_start :: int
  uq_end :: int
  uq_granularity :: usage_granularity
  uq_resource_id :: "string option"
  uq_evaluated_at :: int

fun validate_meters ::
  "usage_granularity \<Rightarrow> string list \<Rightarrow> string list \<Rightarrow> (kernel_error, unit) rust_result" where
  "validate_meters g seen [] = Inr ()"
| "validate_meters g seen (key # keys) =
     (case meter_definition key of
        None \<Rightarrow> Inl InvalidIdentifier
      | Some d \<Rightarrow>
          if g \<notin> set (md_supported_granularities d) then Inl InvalidIdentifier
          else if key \<in> set seen then Inl InvalidIdentifier
          else validate_meters g (seen @ [key]) keys)"

definition query_validate :: "usage_query \<Rightarrow> (kernel_error, unit) rust_result" where
  "query_validate q =
     (if uq_scope q = [] \<or> length (uq_scope q) > 256 then Inl InvalidScopeId
      else if uq_meter_keys q = [] \<or> length (uq_meter_keys q) > max_usage_meters
      then Inl InvalidIdentifier
      else case validate_meters (uq_granularity q) [] (uq_meter_keys q) of
        Inl e \<Rightarrow> Inl e
      | Inr _ \<Rightarrow>
          if uq_start q < 0 \<or> uq_end q < 0 then Inl InvalidIdentifier
          else if uq_end q \<le> uq_start q then Inl InvalidIdentifier
          else if uq_end q - uq_start q > max_usage_range_ms then Inl InvalidIdentifier
          else let width = width_ms (uq_granularity q) in
            if uq_start q mod width \<noteq> 0 \<or> uq_end q mod width \<noteq> 0 then Inl InvalidIdentifier
            else let buckets = (uq_end q - uq_start q) div width in
              if buckets \<le> 0 \<or> buckets > max_usage_buckets then Inl InvalidIdentifier
              else if (case uq_resource_id q of
                         Some r \<Rightarrow> r = [] \<or> length r > 256
                       | None \<Rightarrow> False)
              then Inl InvalidResourceId
              else if uq_evaluated_at q < 0 then Inl InvalidIdentifier
              else Inr ())"

section \<open>Splitting an interval into ingest buckets\<close>

text \<open>
  Instants are unbounded here. The loop checks its additions and its contributions against
  \<open>i64\<close>, which the model follows; the product that aligns the cursor is not checked, and leaves
  the range of an \<open>i64\<close> only for a first bucket that starts below \<open>- 2 ^ 63\<close>. Both callers
  exclude it: an observation and a query with a negative instant are invalid. Statements that
  conclude success carry the bound.
\<close>

function bucket_loop ::
  "int \<Rightarrow> u64 \<Rightarrow> int \<Rightarrow> int \<Rightarrow> (int \<times> int) list \<Rightarrow> (kernel_error, (int \<times> int) list) rust_result"
  where
  "bucket_loop end_ms quantity width cursor acc =
     (if end_ms \<le> cursor then Inr acc
      else if length acc \<ge> max_ingest_buckets then Inl InvalidIdentifier
      else let bucket_start = cursor div width * width in
        if bucket_start + width > i64_max then Inl InvalidIdentifier
        else let segment_end = min end_ms (bucket_start + width);
                 contribution = uint quantity * (segment_end - cursor) in
          if contribution > i64_max then Inl InvalidIdentifier
          else bucket_loop end_ms quantity width segment_end (acc @ [(bucket_start, contribution)]))"
  by pat_completeness auto
termination
  by (relation "measure (\<lambda>(_, _, _, _, acc). max_ingest_buckets - length acc)") auto

declare bucket_loop.simps [simp del]

definition bucket_contributions ::
  "int \<Rightarrow> int \<Rightarrow> u64 \<Rightarrow> int \<Rightarrow> (kernel_error, (int \<times> int) list) rust_result" where
  "bucket_contributions start_ms end_ms quantity width =
     (if width \<le> 0 \<or> end_ms \<le> start_ms then Inl InvalidIdentifier
      else bucket_loop end_ms quantity width start_ms [])"

section \<open>Accumulating usage\<close>

definition i128_max :: int where "i128_max = 2 ^ 127 - 1"

type_synonym usage_accumulator = "(int \<times> int) list"

definition accumulator_add ::
  "usage_granularity \<Rightarrow> int \<Rightarrow> int \<Rightarrow> usage_accumulator \<Rightarrow> (kernel_error, usage_accumulator) rust_result"
  where
  "accumulator_add g bucket_start quantity_millis acc =
     (if quantity_millis < 0 then Inl InvalidIdentifier
      else let width = width_ms g;
               aligned = bucket_start div width * width;
               total = (case map_of acc aligned of Some t \<Rightarrow> t | None \<Rightarrow> 0)
        in if total + quantity_millis > i128_max then Inl InvalidIdentifier
           else Inr (btree_insert aligned (total + quantity_millis) acc))"

fun accumulator_add_all ::
  "usage_granularity \<Rightarrow> (int \<times> int) list \<Rightarrow> usage_accumulator \<Rightarrow> (kernel_error, usage_accumulator) rust_result"
  where
  "accumulator_add_all g [] acc = Inr acc"
| "accumulator_add_all g ((b, c) # cs) acc =
     (case accumulator_add g b c acc of
        Inl e \<Rightarrow> Inl e
      | Inr acc' \<Rightarrow> accumulator_add_all g cs acc')"

definition pad3 :: "nat \<Rightarrow> string" where
  "pad3 n = replicate (3 - length (show_nat n)) CHR ''0'' @ show_nat n"

definition format_quantity_millis :: "int \<Rightarrow> string" where
  "format_quantity_millis quantity =
     (let magnitude = nat \<bar>quantity\<bar>;
          body = show_nat (magnitude div 1000) @ ''.'' @ pad3 (magnitude mod 1000)
      in if quantity < 0 then ''-'' @ body else body)"

record usage_bucket =
  ub_start :: int
  ub_width :: int
  ub_quantity :: string

record meter_usage =
  mu_meter_key :: string
  mu_unit :: meter_unit
  mu_granularity :: usage_granularity
  mu_status :: usage_status
  mu_buckets :: "usage_bucket list"
  mu_total :: string

record meter_usage_report =
  rp_scope :: string
  rp_start :: int
  rp_end :: int
  rp_observed_through :: int
  rp_authority_started :: "int option"
  rp_last_observed :: "int option"
  rp_meters :: "meter_usage list"


section \<open>Contributions are the overlap with the buckets\<close>

text \<open>The length of the overlap of \<open>[lo, hi)\<close> with \<open>[s, e)\<close>, and what of a list of
  contributions falls in the buckets of \<open>[lo, hi)\<close>.\<close>

definition overlap :: "int \<Rightarrow> int \<Rightarrow> int \<Rightarrow> int \<Rightarrow> int" where
  "overlap lo hi s e = max 0 (min e hi - max s lo)"

definition amount_in :: "int \<Rightarrow> int \<Rightarrow> (int \<times> int) list \<Rightarrow> int" where
  "amount_in lo hi cs = sum_list (map snd (filter (\<lambda>(b, c). lo \<le> b \<and> b < hi) cs))"

lemma amount_in_simps [simp]:
  "amount_in lo hi [] = 0"
  "amount_in lo hi ((b, c) # cs) = (if lo \<le> b \<and> b < hi then c else 0) + amount_in lo hi cs"
  "amount_in lo hi (xs @ ys) = amount_in lo hi xs + amount_in lo hi ys"
  by (auto simp: amount_in_def)

lemma overlap_nonneg [simp]: "0 \<le> overlap lo hi s e"
  by (simp add: overlap_def)

lemma overlap_empty: "e \<le> s \<Longrightarrow> overlap lo hi s e = 0"
  by (simp add: overlap_def)

lemma overlap_split:
  "lo \<le> hi \<Longrightarrow> s \<le> m \<Longrightarrow> m \<le> e \<Longrightarrow> overlap lo hi s e = overlap lo hi s m + overlap lo hi m e"
  by (auto simp: overlap_def min_def max_def)

lemma overlap_adjacent:
  "lo \<le> m \<Longrightarrow> m \<le> hi \<Longrightarrow> s \<le> e \<Longrightarrow> overlap lo hi s e = overlap lo m s e + overlap m hi s e"
  by (auto simp: overlap_def min_def max_def)

lemma overlap_le: "lo \<le> hi \<Longrightarrow> overlap lo hi s e \<le> hi - lo"
  by (auto simp: overlap_def min_def max_def)

lemma div_mult_bounds:
  fixes c w :: int
  assumes "0 < w"
  shows "c div w * w \<le> c" and "c < c div w * w + w"
  using assms pos_mod_sign [of w c] pos_mod_bound [of w c] minus_mod_eq_div_mult [of c w]
  by linarith+

lemma aligned_less:
  fixes a b w :: int
  assumes "0 < w" "a mod w = 0" "b mod w = 0" "a < b"
  shows "a + w \<le> b"
proof -
  from assms(2,3) obtain i j where "a = w * i" "b = w * j" by fastforce
  with assms(1,4) have "i + 1 \<le> j" by simp
  then have "w * (i + 1) \<le> w * j" using assms(1) by (intro mult_left_mono) auto
  with \<open>a = w * i\<close> \<open>b = w * j\<close> show ?thesis by (simp add: algebra_simps)
qed

lemma overlap_bucket:
  assumes "0 < w" "lo mod w = 0" "hi mod w = 0" "b mod w = 0" "b \<le> c" "c \<le> m" "m \<le> b + w"
  shows "overlap lo hi c m = (if lo \<le> b \<and> b < hi then m - c else 0)"
proof -
  have "lo \<le> b \<or> b + w \<le> lo" "hi \<le> b \<or> b + w \<le> hi"
    using aligned_less [of w b lo] aligned_less [of w b hi] assms by linarith+
  with assms show ?thesis by (auto simp: overlap_def)
qed

lemma bucket_loop_stop: "end_ms \<le> cursor \<Longrightarrow> bucket_loop end_ms q w cursor acc = Inr acc"
  by (simp add: bucket_loop.simps)

lemma bucket_loop_step:
  assumes "cursor < end_ms" "length acc < max_ingest_buckets"
    and "cursor div w * w + w \<le> i64_max"
    and "uint q * (min end_ms (cursor div w * w + w) - cursor) \<le> i64_max"
  shows "bucket_loop end_ms q w cursor acc =
    bucket_loop end_ms q w (min end_ms (cursor div w * w + w))
      (acc @ [(cursor div w * w, uint q * (min end_ms (cursor div w * w + w) - cursor))])"
  using assms by (subst bucket_loop.simps) (simp add: Let_def)

lemma bucket_loop_cases:
  assumes "bucket_loop end_ms q w cursor acc = Inr cs"
  obtains (stop) "end_ms \<le> cursor" "cs = acc"
  | (step) "cursor < end_ms" "length acc < max_ingest_buckets"
      "bucket_loop end_ms q w (min end_ms (cursor div w * w + w))
        (acc @ [(cursor div w * w, uint q * (min end_ms (cursor div w * w + w) - cursor))]) = Inr cs"
  using assms by (subst (asm) bucket_loop.simps) (auto simp: Let_def split: if_splits)

text \<open>Where the loop succeeds, its contributions are those of the time from the cursor on.\<close>

lemma bucket_loop_contributions:
  assumes "0 < w" "bucket_loop end_ms q w cursor acc = Inr cs"
  shows "\<exists>new. cs = acc @ new
    \<and> (\<forall>lo hi. lo \<le> hi \<and> lo mod w = 0 \<and> hi mod w = 0 \<longrightarrow>
         amount_in lo hi new = uint q * overlap lo hi cursor end_ms)
    \<and> (\<forall>x\<in>set new. fst x mod w = 0 \<and> 0 \<le> snd x \<and> snd x \<le> i64_max \<and> cursor < fst x + w \<and> fst x < end_ms)
    \<and> sorted_wrt (<) (map fst new)"
  using assms
proof (induction end_ms q w cursor acc rule: bucket_loop.induct)
  case (1 end_ms q w cursor acc)
  let ?b = "cursor div w * w" and ?m = "min end_ms (cursor div w * w + w)"
  from 1(3) show ?case
  proof (cases rule: bucket_loop_cases)
    case stop
    then show ?thesis by (intro exI [of _ "[]"]) (simp add: overlap_empty)
  next
    case step
    from step(3) have no: "\<not> ?b + w > i64_max" "\<not> uint q * (?m - cursor) > i64_max"
      using 1(3) step(1,2) by (auto simp: bucket_loop.simps [of end_ms q w cursor] Let_def split: if_splits)
    have b: "?b mod w = 0" "?b \<le> cursor" "cursor < ?b + w"
      using 1(2) div_mult_bounds [of w cursor] by auto
    from step have m: "cursor < ?m" "?m \<le> end_ms" "?m \<le> ?b + w" using b by auto
    from 1(1) [OF _ _ refl no(1) refl refl no(2) 1(2) step(3)] step(1,2)
    obtain new where new1: "cs = (acc @ [(?b, uint q * (?m - cursor))]) @ new"
      and new2: "\<forall>lo hi. lo \<le> hi \<and> lo mod w = 0 \<and> hi mod w = 0 \<longrightarrow>
         amount_in lo hi new = uint q * overlap lo hi ?m end_ms"
      and new3: "\<forall>x\<in>set new. fst x mod w = 0 \<and> 0 \<le> snd x \<and> snd x \<le> i64_max \<and> ?m < fst x + w \<and> fst x < end_ms"
      and new4: "sorted_wrt (<) (map fst new)"
      unfolding linorder_not_le by blast
    have less: "?b < fst x" if "x \<in> set new" for x
    proof (rule ccontr)
      assume "\<not> ?b < fst x"
      with bspec [OF new3 that] m have "?m < ?b + w" by linarith
      then have "?m = end_ms" by linarith
      with bspec [OF new3 that] have "end_ms < fst x + w" "fst x < end_ms" by auto
      have "new = []"
      proof -
        from \<open>?m = end_ms\<close> step(3) have "cs = acc @ [(?b, uint q * (?m - cursor))]"
          by (simp add: bucket_loop_stop)
        with new1 show ?thesis by simp
      qed
      with that show False by simp
    qed
    have amt: "amount_in lo hi ((?b, uint q * (?m - cursor)) # new) = uint q * overlap lo hi cursor end_ms"
      if "lo \<le> hi" "lo mod w = 0" "hi mod w = 0" for lo hi
      using overlap_bucket [OF 1(2) that(2,3) b(1,2), of ?m] m overlap_split [OF that(1), of cursor ?m end_ms]
        new2 that by (simp add: algebra_simps)
    let ?new = "(?b, uint q * (?m - cursor)) # new"
    show ?thesis
    proof (intro exI [of _ ?new] conjI)
      show "cs = acc @ ?new" using new1 by simp
      show "\<forall>lo hi. lo \<le> hi \<and> lo mod w = 0 \<and> hi mod w = 0 \<longrightarrow>
          amount_in lo hi ?new = uint q * overlap lo hi cursor end_ms"
        by (intro allI impI, elim conjE) (rule amt)
      have "0 \<le> uint q * (?m - cursor)" using m(1) by (intro mult_nonneg_nonneg) auto
      then have "?b mod w = 0 \<and> 0 \<le> uint q * (?m - cursor) \<and> uint q * (?m - cursor) \<le> i64_max \<and> cursor < ?b + w \<and> ?b < end_ms"
        using b(1,3) no(2) [unfolded not_less] order.strict_trans1 [OF b(2)  order.strict_trans2 [OF m(1,2)]] by blast
      moreover have "fst x mod w = 0 \<and> 0 \<le> snd x \<and> snd x \<le> i64_max \<and> cursor < fst x + w \<and> fst x < end_ms"
        if "x \<in> set new" for x
        using bspec [OF new3 that] order.strict_trans [OF m(1)] by blast
      ultimately show "\<forall>x\<in>set ?new. fst x mod w = 0 \<and> 0 \<le> snd x \<and> snd x \<le> i64_max \<and> cursor < fst x + w \<and> fst x < end_ms"
        by (simp del: mod_mult_self2_is_0)
      show "sorted_wrt (<) (map fst ?new)" using new4 less by simp
    qed
  qed
qed

text \<open>It succeeds when the buckets are few enough and no contribution leaves the range.\<close>

lemma bucket_loop_succeeds:
  assumes "0 < w" "uint q * w \<le> i64_max" "end_ms + w \<le> i64_max"
    and "int (length acc) + ((end_ms - 1) div w - cursor div w + 1) \<le> int max_ingest_buckets"
  shows "\<exists>cs. bucket_loop end_ms q w cursor acc = Inr cs"
  using assms
proof (induction end_ms q w cursor acc rule: bucket_loop.induct)
  case (1 end_ms q w cursor acc)
  let ?b = "cursor div w * w" and ?m = "min end_ms (cursor div w * w + w)"
  show ?case
  proof (cases "end_ms \<le> cursor")
    case True
    then show ?thesis by (simp add: bucket_loop_stop)
  next
    case False
    have b: "?b \<le> cursor" "cursor < ?b + w" using 1(2) div_mult_bounds [of w cursor] by auto
    have "cursor div w \<le> (end_ms - 1) div w" using False 1(2) by (intro zdiv_mono1) auto
    with 1(5) have len: "length acc < max_ingest_buckets" by linarith
    have be: "?b + w \<le> i64_max" using b False 1(4) by linarith
    have "?m - cursor \<le> w" using b by linarith
    then have "uint q * (?m - cursor) \<le> uint q * w" by (intro mult_left_mono) auto
    with 1(3) have amount: "uint q * (?m - cursor) \<le> i64_max" by linarith
    have "\<exists>cs. bucket_loop end_ms q w ?m (acc @ [(?b, uint q * (?m - cursor))]) = Inr cs"
    proof (cases "?m = end_ms")
      case True
      then show ?thesis by (simp add: bucket_loop_stop)
    next
      case less: False
      then have "?m div w = cursor div w + 1" using 1(2) by (simp add: min_def split: if_splits)
      with 1(5) have "int (length (acc @ [(?b, uint q * (?m - cursor))]))
          + ((end_ms - 1) div w - ?m div w + 1) \<le> int max_ingest_buckets" by simp
      from 1(1) [OF _ _ refl _ refl refl _ 1(2,3,4) this] False len be amount show ?thesis by simp
    qed
    with bucket_loop_step [OF _ len be amount] False show ?thesis by simp
  qed
qed

lemma bucket_contributions_exact:
  assumes "bucket_contributions s e q w = Inr cs"
  shows "0 < w" "s < e"
    and "lo \<le> hi \<Longrightarrow> lo mod w = 0 \<Longrightarrow> hi mod w = 0 \<Longrightarrow> amount_in lo hi cs = uint q * overlap lo hi s e"
    and "x \<in> set cs \<Longrightarrow> fst x mod w = 0 \<and> 0 \<le> snd x \<and> snd x \<le> i64_max \<and> s < fst x + w \<and> fst x < e"
    and "sorted_wrt (<) (map fst cs)"
  using assms bucket_loop_contributions [of w e q s "[]" cs]
  by (auto simp: bucket_contributions_def split: if_splits)

lemma amount_in_all:
  "\<forall>x\<in>set cs. lo \<le> fst x \<and> fst x < hi \<Longrightarrow> amount_in lo hi cs = sum_list (map snd cs)"
  by (induction cs) auto

lemma amount_in_none:
  "\<forall>x\<in>set cs. fst x < lo \<or> hi \<le> fst x \<Longrightarrow> amount_in lo hi cs = 0"
  by (induction cs) auto

lemma amount_in_bucket:
  "distinct (map fst cs) \<Longrightarrow> (b, c) \<in> set cs \<Longrightarrow> 0 < w \<Longrightarrow> b mod w = 0 \<Longrightarrow>
   \<forall>x\<in>set cs. fst x mod w = 0 \<Longrightarrow> amount_in b (b + w) cs = c"
proof (induction cs)
  case (Cons x cs)
  have other: "fst y < b \<or> b + w \<le> fst y" if "y \<in> set (x # cs)" "fst y \<noteq> b" for y
    using aligned_less [of w b "fst y"] Cons.prems that by fastforce
  show ?case
  proof (cases "x = (b, c)")
    case True
    with Cons.prems(1) have "fst y \<noteq> b" if "y \<in> set cs" for y using that by force
    with other have "amount_in b (b + w) cs = 0" by (intro amount_in_none) auto
    with True Cons.prems show ?thesis by simp
  next
    case False
    then have "(b, c) \<in> set cs" using Cons.prems by auto
    moreover from this have "b \<in> fst ` set cs" by force
    then have "fst x \<noteq> b" using Cons.prems(1) by auto
    ultimately show ?thesis using Cons other [of x] by (cases x) auto
  qed
qed simp

text \<open>
  The ingest buckets of an interval. When the splitting of \<open>[s, e)\<close> at quantity \<open>q\<close>
  succeeds, each contribution is \<open>q\<close> times the overlap of the interval with an aligned bucket,
  no bucket occurs twice, buckets are in ascending order, and together they are exactly \<open>q\<close>
  times the length of the interval: nothing is lost, invented or counted twice.
\<close>

theorem contributions_exact:
  assumes "bucket_contributions s e q w = Inr cs"
  shows "sum_list (map snd cs) = uint q * (e - s)
    \<and> sorted_wrt (<) (map fst cs)
    \<and> (\<forall>(b, c)\<in>set cs. b mod w = 0 \<and> c = uint q * overlap b (b + w) s e \<and> 0 < overlap b (b + w) s e)"
proof -
  note ex = bucket_contributions_exact [OF assms]
  let ?lo = "s div w * w" and ?hi = "e div w * w + w"
  have b: "?lo \<le> s" "e < ?hi" "?lo mod w = 0" "?hi mod w = 0"
    using div_mult_bounds [OF ex(1), of s] div_mult_bounds [OF ex(1), of e] by auto
  have "?lo \<le> fst x \<and> fst x < ?hi" if "x \<in> set cs" for x
  proof -
    from ex(4) [OF that] have x: "fst x mod w = 0" "s < fst x + w" "fst x < e" by auto
    have "?lo \<le> fst x"
    proof (rule ccontr)
      assume "\<not> ?lo \<le> fst x"
      then have "fst x + w \<le> ?lo" using aligned_less [OF ex(1) x(1) b(3)] by linarith
      with x(2) b(1) show False by linarith
    qed
    with x(3) b(2) show ?thesis by linarith
  qed
  then have "amount_in ?lo ?hi cs = sum_list (map snd cs)" by (intro amount_in_all) blast
  moreover have "overlap ?lo ?hi s e = e - s" using b ex(2) by (simp add: overlap_def)
  moreover have "?lo \<le> ?hi" using b ex(2) by linarith
  ultimately have total: "sum_list (map snd cs) = uint q * (e - s)"
    using ex(3) [of ?lo ?hi] b(3,4) by simp
  have each: "b mod w = 0 \<and> c = uint q * overlap b (b + w) s e \<and> 0 < overlap b (b + w) s e"
    if "(b, c) \<in> set cs" for b c
  proof -
    from ex(4) [OF that] have x: "b mod w = 0" "s < b + w" "b < e" by auto
    have "distinct (map fst cs)" using ex(5) by (simp add: strict_sorted_iff)
    then have "amount_in b (b + w) cs = c" using that ex(1,4) x(1) by (intro amount_in_bucket) auto
    with ex(1,2) ex(3) [of b "b + w"] x show ?thesis by (auto simp: overlap_def)
  qed
  from total ex(5) each show ?thesis by blast
qed

theorem contributions_exact_witness:
  "bucket_contributions 37800000 41400000 2 3600000 = Inr [(36000000, 3600000), (39600000, 3600000)]
   \<and> sum_list (map snd [(36000000, 3600000), (39600000, 3600000 :: int)]) = uint (2 :: u64) * (41400000 - 37800000)"
proof -
  have "bucket_contributions 37800000 41400000 2 3600000 = Inr [(36000000, 3600000), (39600000, 3600000)]"
    by (simp add: bucket_contributions_def bucket_loop_step bucket_loop_stop max_ingest_buckets_def i64_max_def)
  from contributions_exact [OF this] this show ?thesis by simp
qed

lemma bucket_loop_length:
  "bucket_loop e q w c acc = Inr cs \<Longrightarrow> length acc \<le> max_ingest_buckets \<Longrightarrow>
   length cs \<le> max_ingest_buckets"
proof (induction e q w c acc rule: bucket_loop.induct)
  case (1 e q w c acc)
  from 1(2) show ?case
  proof (cases rule: bucket_loop_cases)
    case stop
    with 1(3) show ?thesis by simp
  next
    case step
    from 1(2) step(1,2) have no: "\<not> c div w * w + w > i64_max"
      "\<not> uint q * (min e (c div w * w + w) - c) > i64_max"
      by (auto simp: bucket_loop.simps [of e q w c] Let_def split: if_splits)
    from step(2) show ?thesis
      using 1(1) [OF _ _ refl no(1) refl refl no(2) step(3)] step(1,2) by simp
  qed
qed

text \<open>
  C12: The splitting loop always ends with a result. For a non-empty interval whose first bucket
  starts and whose last bucket ends within the range of an \<open>i64\<close>, that touches at most 96000
  buckets and has a quantity that fits one whole bucket, the contributions are computed, are at
  most that many, and all their bucket starts are within the range of an \<open>i64\<close> as well, so that
  the alignment, which the loop does not check, never overflowed.
\<close>

theorem contributions_computed:
  assumes "0 < w" "s < e" "- i64_max - 1 \<le> s div w * w" "e + w \<le> i64_max" "uint q * w \<le> i64_max"
    and "(e - 1) div w - s div w < 96000"
  shows "\<exists>cs. bucket_contributions s e q w = Inr cs \<and> length cs \<le> 96000
    \<and> list_all (\<lambda>c. - i64_max - 1 \<le> fst c \<and> fst c \<le> i64_max) cs"
proof -
  have "\<exists>cs. bucket_loop e q w s [] = Inr cs"
    using assms by (intro bucket_loop_succeeds) (auto simp: max_ingest_buckets_def)
  then obtain cs where loop: "bucket_loop e q w s [] = Inr cs" ..
  then have cs: "bucket_contributions s e q w = Inr cs"
    using assms(1,2) by (simp add: bucket_contributions_def)
  note ex = bucket_contributions_exact [OF cs]
  have "s div w * w \<le> fst x" "fst x \<le> i64_max" if "x \<in> set cs" for x
  proof -
    from ex(4) [OF that] have x: "fst x mod w = 0" "s < fst x + w" "fst x < e" by auto
    show "fst x \<le> i64_max" using x(3) assms(1,4) by linarith
    show "s div w * w \<le> fst x"
      using aligned_less [OF ex(1) x(1), of "s div w * w"] div_mult_bounds [OF ex(1), of s] x(2)
      by force
  qed
  then have "list_all (\<lambda>c. - i64_max - 1 \<le> fst c \<and> fst c \<le> i64_max) cs"
    using assms(3) by (force simp: list_all_iff)
  with cs bucket_loop_length [OF loop] show ?thesis by (auto simp: max_ingest_buckets_def)
qed

theorem contributions_computed_witness:
  "\<exists>cs. bucket_contributions 0 36000000 3 3600000 = Inr cs \<and> length cs \<le> 96000"
  using contributions_computed [where w = 3600000 and s = 0 and e = 36000000 and q = 3] by (auto simp: i64_max_def)

section \<open>Accumulating is summing\<close>

definition bucket_value :: "usage_accumulator \<Rightarrow> int \<Rightarrow> int" where
  "bucket_value acc b = (case map_of acc b of Some v \<Rightarrow> v | None \<Rightarrow> 0)"

definition aligned_to :: "int \<Rightarrow> (int \<times> int) list \<Rightarrow> bool" where
  "aligned_to w acc \<longleftrightarrow> (\<forall>x\<in>set acc. fst x mod w = 0)"

lemma width_ms_pos [simp]: "0 < width_ms g"
  by (cases g) (auto simp: ingest_bucket_width_ms_def)

lemma width_multiple: "width_ms g mod ingest_bucket_width_ms = 0"
  by (cases g) (auto simp: ingest_bucket_width_ms_def)

lemma width_mod_ingest: "b mod width_ms g = 0 \<Longrightarrow> b mod ingest_bucket_width_ms = 0"
  by (cases g) (auto simp: ingest_bucket_width_ms_def)

lemma aligned_div_unique:
  fixes b c w :: int
  assumes "0 < w" "b mod w = 0"
  shows "c div w * w = b \<longleftrightarrow> b \<le> c \<and> c < b + w"
proof
  assume "b \<le> c \<and> c < b + w"
  moreover have "c div w * w mod w = 0" by simp
  ultimately show "c div w * w = b"
    using aligned_less [of w b "c div w * w"] aligned_less [of w "c div w * w" b]
      div_mult_bounds [OF assms(1), of c] assms by linarith
qed (use div_mult_bounds [OF assms(1), of c] in auto)

lemma accumulator_add_value:
  assumes "accumulator_add g b c acc = Inr acc'" "btree acc" "aligned_to (width_ms g) acc"
  shows "btree acc'" "aligned_to (width_ms g) acc'"
    and "a mod width_ms g = 0 \<Longrightarrow> bucket_value acc' a = bucket_value acc a
         + (if a \<le> b \<and> b < a + width_ms g then c else 0)"
proof -
  let ?a = "b div width_ms g * width_ms g"
  from assms(1) have acc': "acc' = btree_insert ?a (bucket_value acc ?a + c) acc"
    by (auto simp: accumulator_add_def bucket_value_def Let_def split: if_splits)
  show "btree acc'" using assms(2) by (simp add: acc' btree_insert_btree)
  have "fst ` set acc' = insert ?a (fst ` set acc)" by (simp add: acc' btree_insert_keys)
  moreover have "k mod width_ms g = 0" if "k \<in> insert ?a (fst ` set acc)" for k
    using that assms(3) by (auto simp: aligned_to_def)
  ultimately show "aligned_to (width_ms g) acc'"
    unfolding aligned_to_def by (metis imageI)
  show "bucket_value acc' a = bucket_value acc a + (if a \<le> b \<and> b < a + width_ms g then c else 0)"
    if "a mod width_ms g = 0"
    using aligned_div_unique [OF _ that, of b] by (auto simp: acc' bucket_value_def btree_insert_lookup)
qed

lemma accumulator_add_all_value:
  assumes "accumulator_add_all g cs acc = Inr acc'" "btree acc" "aligned_to (width_ms g) acc"
  shows "btree acc' \<and> aligned_to (width_ms g) acc'
    \<and> (\<forall>a. a mod width_ms g = 0 \<longrightarrow>
         bucket_value acc' a = bucket_value acc a + amount_in a (a + width_ms g) cs)"
  using assms
proof (induction cs arbitrary: acc)
  case (Cons x cs)
  obtain b c where x: "x = (b, c)" by (cases x)
  from Cons.prems(1) obtain acc1 where 1: "accumulator_add g b c acc = Inr acc1"
    "accumulator_add_all g cs acc1 = Inr acc'" by (auto simp: x split: sum.splits)
  note v = accumulator_add_value [OF 1(1) Cons.prems(2,3)]
  from Cons.IH [OF 1(2) v(1,2)] v(3) show ?case by (auto simp: x)
qed simp

lemma accumulator_add_all_append:
  "accumulator_add_all g (xs @ ys) acc =
     (case accumulator_add_all g xs acc of Inl e \<Rightarrow> Inl e | Inr acc' \<Rightarrow> accumulator_add_all g ys acc')"
  by (induction g xs acc rule: accumulator_add_all.induct) (auto split: sum.splits)

section \<open>Accepted queries and observations\<close>

lemma validate_meters_accepts:
  "validate_meters g seen keys = Inr () \<Longrightarrow>
   distinct keys \<and> set keys \<inter> set seen = {} \<and> (\<forall>k\<in>set keys. meter_definition k \<noteq> None)"
  by (induction g seen keys rule: validate_meters.induct) (auto split: option.splits if_splits)

lemma query_validate_accepts:
  assumes "query_validate q = Inr ()"
  shows "0 \<le> uq_start q" "uq_start q < uq_end q"
    and "uq_start q mod width_ms (uq_granularity q) = 0" "uq_end q mod width_ms (uq_granularity q) = 0"
    and "uq_end q - uq_start q \<le> max_usage_range_ms"
    and "distinct (uq_meter_keys q)" "0 \<le> uq_evaluated_at q"
    and "k \<in> set (uq_meter_keys q) \<Longrightarrow> meter_definition k \<noteq> None"
  using assms validate_meters_accepts [of "uq_granularity q" "[]" "uq_meter_keys q"]
  by (auto simp: query_validate_def Let_def split: if_splits sum.splits)

lemma observation_validate_accepts:
  assumes "observation_validate ob = Inr ()"
  shows "ob_consuming ob \<longleftrightarrow> ob_quantity ob \<noteq> 0" "0 \<le> ob_observed_at ob"
    "meter_definition (ob_meter_key ob) \<noteq> None"
  using assms by (auto simp: observation_validate_def split: if_splits)

end
