(* ===== verification/Store_Metering.thy ===== *)
theory Store_Metering
  imports Kernel_Metering "HOL-Library.AList" "HOL-Library.Product_Lexorder" "HOL-Library.Multiset"
begin

text \<open>
  The metering store (\<open>crates/o3k-store/src/sqlite/metering.rs\<close> over the tables of
  \<open>migrations/0045_metering.sql\<close>): the authority anchor, open and closed usage intervals, the
  hourly aggregates closed intervals are folded into, and the bounded usage query. UUIDv5 is
  an argument \<open>uuid\<close>, applied to the preimage the source builds. A transaction that fails
  leaves the database as it was; input/output errors are not modelled, \<open>MeteringUnavailable\<close>
  stands for a violated \<open>CHECK\<close>. The projection of lifecycle states onto observations is the
  one of \<open>bins/o3kd/src/native_adapters/metering.rs\<close> and \<open>crates/o3k-reconciler/src/lib.rs\<close>.
  Lemmas: the preimage is injective; the books: intervals of a series never overlap and the
  aggregates are the integral of the closed ones, over any run; replays change nothing; a usage
  report is the integral of the intervals; which quantities can never be closed.
\<close>

section \<open>Tables\<close>

record authority_row =
  au_started_at :: int
  au_last_observed :: int

record interval_row =
  mi_id :: string
  mi_meter_key :: string
  mi_scope :: string
  mi_resource :: string
  mi_quantity :: int
  mi_started_at :: int
  mi_ended_at :: "int option"
  mi_authority :: string

text \<open>Aggregates by scope, meter, resource and bucket start: the bucket width and the sum.\<close>

type_synonym aggregate_key = "string \<times> string \<times> string \<times> int"

record metering_db =
  metering_authority :: "authority_row option"
  metering_intervals :: "interval_row list"
  metering_aggregates :: "(aggregate_key \<times> (int \<times> int)) list"

definition empty_metering :: metering_db where
  "empty_metering =
     \<lparr>metering_authority = None, metering_intervals = [], metering_aggregates = []\<rparr>"

section \<open>Recording an observation\<close>

definition show_int :: "int \<Rightarrow> string" where
  "show_int i = (if i < 0 then ''-'' @ show_nat (nat (- i)) else show_nat (nat i))"

definition interval_preimage :: "meter_observation \<Rightarrow> string" where
  "interval_preimage ob =
     ''o3k:metering:interval:''
     @ show_nat (length (ob_meter_key ob)) @ '':'' @ ob_meter_key ob @ '':''
     @ show_nat (length (ob_scope ob)) @ '':'' @ ob_scope ob @ '':''
     @ show_nat (length (ob_resource_id ob)) @ '':'' @ ob_resource_id ob @ '':''
     @ show_int (ob_observed_at ob)"

definition in_series :: "meter_observation \<Rightarrow> interval_row \<Rightarrow> bool" where
  "in_series ob r =
     (mi_meter_key r = ob_meter_key ob \<and> mi_scope r = ob_scope ob \<and> mi_resource r = ob_resource_id ob)"

definition load_open_interval :: "metering_db \<Rightarrow> meter_observation \<Rightarrow> interval_row option" where
  "load_open_interval db ob =
     (case sort_key (\<lambda>r. - mi_started_at r)
             (filter (\<lambda>r. in_series ob r \<and> mi_ended_at r = None) (metering_intervals db)) of
        [] \<Rightarrow> None
      | r # _ \<Rightarrow> Some r)"

definition deterministic_interval_matches ::
  "(string \<Rightarrow> string) \<Rightarrow> metering_db \<Rightarrow> meter_observation \<Rightarrow> int \<Rightarrow> (kernel_error, bool) rust_result"
  where
  "deterministic_interval_matches uuid db ob quantity =
     (case find (\<lambda>r. mi_id r = uuid (interval_preimage ob)) (metering_intervals db) of
        None \<Rightarrow> Inr False
      | Some r \<Rightarrow>
          if mi_meter_key r \<noteq> ob_meter_key ob \<or> mi_scope r \<noteq> ob_scope ob
             \<or> mi_resource r \<noteq> ob_resource_id ob \<or> mi_quantity r \<noteq> quantity
             \<or> mi_authority r \<noteq> ob_authority ob
          then Inl MeteringCorrupt
          else Inr True)"

definition max_ended_at :: "metering_db \<Rightarrow> meter_observation \<Rightarrow> int option" where
  "max_ended_at db ob =
     (case List.map_filter mi_ended_at (filter (in_series ob) (metering_intervals db)) of
        [] \<Rightarrow> None
      | e # es \<Rightarrow> Some (fold max es e))"

definition anchor_authority :: "int \<Rightarrow> metering_db \<Rightarrow> metering_db" where
  "anchor_authority at db =
     (case metering_authority db of
        None \<Rightarrow> db\<lparr>metering_authority := Some \<lparr>au_started_at = at, au_last_observed = at\<rparr>\<rparr>
      | Some _ \<Rightarrow> db)"

definition advance_watermark :: "int \<Rightarrow> metering_db \<Rightarrow> metering_db" where
  "advance_watermark at db =
     db\<lparr>metering_authority :=
          map_option (\<lambda>a. a\<lparr>au_last_observed := max (au_last_observed a) at\<rparr>) (metering_authority db)\<rparr>"

definition predates_authority :: "metering_db \<Rightarrow> int \<Rightarrow> bool" where
  "predates_authority db at =
     (case metering_authority db of None \<Rightarrow> False | Some a \<Rightarrow> at < au_started_at a)"

text \<open>
  The insertion violates the primary key or the unique index on open intervals: \<open>None\<close>.
\<close>

definition insert_interval ::
  "(string \<Rightarrow> string) \<Rightarrow> metering_db \<Rightarrow> meter_observation \<Rightarrow> int \<Rightarrow> metering_db option" where
  "insert_interval uuid db ob quantity =
     (let i = uuid (interval_preimage ob) in
      if list_ex (\<lambda>r. mi_id r = i \<or> in_series ob r \<and> mi_ended_at r = None) (metering_intervals db)
      then None
      else Some (db\<lparr>metering_intervals := metering_intervals db @
        [\<lparr>mi_id = i, mi_meter_key = ob_meter_key ob, mi_scope = ob_scope ob,
          mi_resource = ob_resource_id ob, mi_quantity = quantity,
          mi_started_at = ob_observed_at ob, mi_ended_at = None,
          mi_authority = ob_authority ob\<rparr>]\<rparr>))"

definition aggregate_value :: "metering_db \<Rightarrow> aggregate_key \<Rightarrow> int" where
  "aggregate_value db k =
     (case map_of (metering_aggregates db) k of Some (_, v) \<Rightarrow> v | None \<Rightarrow> 0)"

fun fold_contributions ::
  "meter_observation \<Rightarrow> (int \<times> int) list \<Rightarrow> metering_db \<Rightarrow> (kernel_error, metering_db) rust_result"
  where
  "fold_contributions ob [] db = Inr db"
| "fold_contributions ob ((bucket_start, contribution) # cs) db =
     (let key = (ob_scope ob, ob_meter_key ob, ob_resource_id ob, bucket_start);
          combined = aggregate_value db key + contribution
      in if combined < - i64_max - 1 \<or> combined > i64_max then Inl MeteringCorrupt
         else if combined < 0 then Inl MeteringUnavailable
         else fold_contributions ob cs
           (db\<lparr>metering_aggregates :=
                AList.update key (ingest_bucket_width_ms, combined) (metering_aggregates db)\<rparr>))"

definition replay_or_corrupt ::
  "metering_db \<Rightarrow> interval_row \<Rightarrow> (kernel_error, metering_db) rust_result" where
  "replay_or_corrupt db open_row =
     (if list_ex (\<lambda>r. mi_id r = mi_id open_row) (metering_intervals db) then Inr db
      else Inl MeteringCorrupt)"

definition close_and_fold ::
  "metering_db \<Rightarrow> interval_row \<Rightarrow> meter_observation \<Rightarrow> (kernel_error, metering_db) rust_result"
  where
  "close_and_fold db open_row ob =
     (let hit = (\<lambda>r. mi_id r = mi_id open_row \<and> mi_ended_at r = None);
          db1 = db\<lparr>metering_intervals :=
                  map (\<lambda>r. if hit r then r\<lparr>mi_ended_at := Some (ob_observed_at ob)\<rparr> else r)
                    (metering_intervals db)\<rparr>
      in if \<not> list_ex hit (metering_intervals db) then replay_or_corrupt db open_row
         else if ob_observed_at ob \<le> mi_started_at open_row then Inr db1
         else case u64_of_i64 (mi_quantity open_row) of
             None \<Rightarrow> Inl MeteringCorrupt
           | Some quantity \<Rightarrow>
               (case bucket_contributions (mi_started_at open_row) (ob_observed_at ob) quantity
                       ingest_bucket_width_ms of
                  Inl e \<Rightarrow> Inl e
                | Inr contributions \<Rightarrow> fold_contributions ob contributions db1))"

text \<open>The last \<open>match open\<close> of \<open>record_observation_tx\<close>.\<close>

definition apply_to_open ::
  "metering_db \<Rightarrow> meter_observation \<Rightarrow> int \<Rightarrow> interval_row option \<Rightarrow> (kernel_error, metering_db) rust_result"
  where
  "apply_to_open db ob quantity open_interval =
     (case open_interval of
        None \<Rightarrow> Inr db
      | Some existing \<Rightarrow>
          if ob_observed_at ob < mi_started_at existing then Inl MeteringCorrupt
          else if ob_consuming ob
          then (if mi_quantity existing \<noteq> quantity then Inl MeteringCorrupt
                else if mi_authority existing \<noteq> ob_authority ob then Inl MeteringCorrupt
                else Inr db)
          else close_and_fold db existing ob)"

definition open_new_interval ::
  "(string \<Rightarrow> string) \<Rightarrow> metering_db \<Rightarrow> meter_observation \<Rightarrow> int \<Rightarrow> (kernel_error, metering_db) rust_result"
  where
  "open_new_interval uuid db ob quantity =
     (case insert_interval uuid db ob quantity of
        Some db' \<Rightarrow>
          (case max_ended_at db' ob of
             Some max_ended \<Rightarrow> if ob_observed_at ob < max_ended then Inl MeteringCorrupt else Inr db'
           | None \<Rightarrow> Inr db')
      | None \<Rightarrow>
          (case deterministic_interval_matches uuid db ob quantity of
             Inl e \<Rightarrow> Inl e
           | Inr True \<Rightarrow> Inr db
           | Inr False \<Rightarrow> apply_to_open db ob quantity (load_open_interval db ob)))"

definition record_observation_tx ::
  "(string \<Rightarrow> string) \<Rightarrow> metering_db \<Rightarrow> meter_observation \<Rightarrow> (kernel_error, metering_db) rust_result"
  where
  "record_observation_tx uuid db ob =
     (case i64_of_u64 (ob_quantity ob) of
        None \<Rightarrow> Inl InvalidIdentifier
      | Some quantity \<Rightarrow>
          let db1 = advance_watermark (ob_observed_at ob) (anchor_authority (ob_observed_at ob) db) in
          if predates_authority db1 (ob_observed_at ob) then Inl MeteringCorrupt
          else let open_interval = load_open_interval db1 ob in
            if open_interval = None \<and> ob_consuming ob
            then open_new_interval uuid db1 ob quantity
            else apply_to_open db1 ob quantity open_interval)"

definition ensure_authority :: "metering_db \<Rightarrow> int \<Rightarrow> metering_db" where
  "ensure_authority db now_ms = anchor_authority now_ms db"

definition record_observation ::
  "(string \<Rightarrow> string) \<Rightarrow> metering_db \<Rightarrow> meter_observation \<Rightarrow> (kernel_error, metering_db) rust_result"
  where
  "record_observation uuid db ob =
     (case observation_validate ob of
        Inl e \<Rightarrow> Inl e
      | Inr _ \<Rightarrow> record_observation_tx uuid db ob)"

section \<open>The usage query\<close>

definition usage_status :: "int option \<Rightarrow> int \<Rightarrow> int \<Rightarrow> int \<Rightarrow> usage_status" where
  "usage_status authority_started start_ms end_ms evaluated =
     (case authority_started of
        None \<Rightarrow> Unavailable
      | Some authority \<Rightarrow>
          if end_ms \<le> authority then Unavailable
          else if start_ms < authority \<or> end_ms > evaluated then Partial
          else Complete)"

fun report_buckets ::
  "usage_query \<Rightarrow> (int \<times> int) list \<Rightarrow> int \<Rightarrow> (kernel_error, int \<times> usage_bucket list) rust_result"
  where
  "report_buckets q [] tot = Inr (tot, [])"
| "report_buckets q ((b, v) # bs) tot =
     (if b < uq_start q \<or> b \<ge> uq_end q then report_buckets q bs tot
      else if tot + v > i128_max then Inl MeteringCorrupt
      else case report_buckets q bs (tot + v) of
          Inl e \<Rightarrow> Inl e
        | Inr (t, out) \<Rightarrow>
            Inr (t, \<lparr>ub_start = b, ub_width = width_ms (uq_granularity q),
                     ub_quantity = format_quantity_millis v\<rparr> # out))"

definition meter_usage ::
  "string \<Rightarrow> usage_query \<Rightarrow> usage_status \<Rightarrow> usage_accumulator \<Rightarrow> (kernel_error, meter_usage) rust_result"
  where
  "meter_usage key q status acc =
     (case meter_definition key of
        None \<Rightarrow> Inl MeteringCorrupt
      | Some d \<Rightarrow>
          if status = Unavailable
          then Inr \<lparr>mu_meter_key = key, mu_unit = md_unit d, mu_granularity = uq_granularity q,
                    mu_status = status, mu_buckets = [], mu_total = format_quantity_millis 0\<rparr>
          else case report_buckets q acc 0 of
              Inl e \<Rightarrow> Inl e
            | Inr (tot, buckets) \<Rightarrow>
                Inr \<lparr>mu_meter_key = key, mu_unit = md_unit d, mu_granularity = uq_granularity q,
                     mu_status = status, mu_buckets = buckets,
                     mu_total = format_quantity_millis tot\<rparr>)"

definition resource_selected :: "usage_query \<Rightarrow> string \<Rightarrow> bool" where
  "resource_selected q r = (case uq_resource_id q of None \<Rightarrow> True | Some x \<Rightarrow> r = x)"

definition load_aggregates ::
  "metering_db \<Rightarrow> usage_query \<Rightarrow> string \<Rightarrow> (kernel_error, (string \<times> int \<times> int) list) rust_result"
  where
  "load_aggregates db q meter_key =
     (let rows = take (max_usage_aggregate_rows + 1)
            (sort_key (\<lambda>((s, m, r, b), (w, v)). (b, r))
              (filter (\<lambda>((s, m, r, b), (w, v)). s = uq_scope q \<and> m = meter_key \<and> resource_selected q r
                  \<and> uq_start q \<le> b \<and> b < uq_end q)
                (metering_aggregates db)))
      in if length rows > max_usage_aggregate_rows then Inl InvalidIdentifier
         else let parsed = map (\<lambda>((s, m, r, b), (w, v)). (r, b, v)) rows
           in if length (remdups (map fst parsed)) > max_usage_series then Inl InvalidIdentifier
              else Inr parsed)"

definition load_open_intervals ::
  "metering_db \<Rightarrow> usage_query \<Rightarrow> string \<Rightarrow> (int \<times> int) list" where
  "load_open_intervals db q meter_key =
     map (\<lambda>r. (mi_quantity r, mi_started_at r))
       (take (max_open_intervals + 1)
         (sort_key (\<lambda>r. (mi_started_at r, mi_resource r))
           (filter (\<lambda>r. mi_meter_key r = meter_key \<and> mi_scope r = uq_scope q
               \<and> resource_selected q (mi_resource r)
               \<and> mi_ended_at r = None \<and> mi_started_at r < uq_end q)
             (metering_intervals db))))"

fun add_open_intervals ::
  "usage_query \<Rightarrow> int \<Rightarrow> (int \<times> int) list \<Rightarrow> usage_accumulator \<Rightarrow> (kernel_error, usage_accumulator) rust_result"
  where
  "add_open_intervals q observed_through [] acc = Inr acc"
| "add_open_intervals q observed_through ((quantity, started_at) # rest) acc =
     (let segment_start = max started_at (uq_start q);
          segment_end = min observed_through (uq_end q)
      in if segment_end > segment_start
         then (case u64_of_i64 quantity of
                 None \<Rightarrow> Inl MeteringCorrupt
               | Some w \<Rightarrow>
                   (case bucket_contributions segment_start segment_end w ingest_bucket_width_ms of
                      Inl e \<Rightarrow> Inl e
                    | Inr cs \<Rightarrow>
                        (case accumulator_add_all (uq_granularity q) cs acc of
                           Inl e \<Rightarrow> Inl e
                         | Inr acc' \<Rightarrow> add_open_intervals q observed_through rest acc')))
         else add_open_intervals q observed_through rest acc)"

definition usage_of_meter ::
  "metering_db \<Rightarrow> usage_query \<Rightarrow> usage_status \<Rightarrow> int \<Rightarrow> string \<Rightarrow> (kernel_error, meter_usage) rust_result"
  where
  "usage_of_meter db q status observed_through meter_key =
     (case load_aggregates db q meter_key of
        Inl e \<Rightarrow> Inl e
      | Inr rows \<Rightarrow>
          (case accumulator_add_all (uq_granularity q) (map snd rows) [] of
             Inl e \<Rightarrow> Inl e
           | Inr acc \<Rightarrow>
               let open_rows = load_open_intervals db q meter_key in
               if length open_rows > max_open_intervals then Inl InvalidIdentifier
               else (case add_open_intervals q observed_through open_rows acc of
                       Inl e \<Rightarrow> Inl e
                     | Inr acc' \<Rightarrow> meter_usage meter_key q status acc')))"

definition usage_snapshot ::
  "metering_db \<Rightarrow> usage_query \<Rightarrow> (kernel_error, meter_usage_report) rust_result" where
  "usage_snapshot db q =
     (let started = map_option au_started_at (metering_authority db);
          observed_through = min (uq_end q) (uq_evaluated_at q);
          status = usage_status started (uq_start q) (uq_end q) (uq_evaluated_at q)
      in case collect_results (usage_of_meter db q status observed_through) (uq_meter_keys q) of
           Inl e \<Rightarrow> Inl e
         | Inr meters \<Rightarrow>
             Inr \<lparr>rp_scope = uq_scope q, rp_start = uq_start q, rp_end = uq_end q,
                  rp_observed_through = observed_through, rp_authority_started = started,
                  rp_last_observed = map_option au_last_observed (metering_authority db),
                  rp_meters = meters\<rparr>)"

definition usage :: "metering_db \<Rightarrow> usage_query \<Rightarrow> (kernel_error, meter_usage_report) rust_result" where
  "usage db q =
     (case query_validate q of Inl e \<Rightarrow> Inl e | Inr _ \<Rightarrow> usage_snapshot db q)"

section \<open>The books\<close>

text \<open>
  What an interval contributes to \<open>[lo, hi)\<close>: once closed, and while it is open and observed
  through an instant.
\<close>

definition closed_amount :: "int \<Rightarrow> int \<Rightarrow> interval_row \<Rightarrow> int" where
  "closed_amount lo hi r =
     (case mi_ended_at r of
        None \<Rightarrow> 0
      | Some e \<Rightarrow> mi_quantity r * overlap lo hi (mi_started_at r) e)"

definition open_amount :: "int \<Rightarrow> int \<Rightarrow> int \<Rightarrow> interval_row \<Rightarrow> int" where
  "open_amount through lo hi r =
     (case mi_ended_at r of
        None \<Rightarrow> mi_quantity r * overlap lo hi (mi_started_at r) through
      | Some _ \<Rightarrow> 0)"

definition series_is :: "string \<Rightarrow> string \<Rightarrow> string \<Rightarrow> interval_row \<Rightarrow> bool" where
  "series_is s m r x = (mi_scope x = s \<and> mi_meter_key x = m \<and> mi_resource x = r)"

definition sum_over :: "(interval_row \<Rightarrow> bool) \<Rightarrow> (interval_row \<Rightarrow> int) \<Rightarrow> interval_row list \<Rightarrow> int" where
  "sum_over P f rows = sum_list (map f (filter P rows))"

lemma sum_over_simps [simp]:
  "sum_over P f [] = 0"
  "sum_over P f (x # xs) = (if P x then f x else 0) + sum_over P f xs"
  "sum_over P f (xs @ ys) = sum_over P f xs + sum_over P f ys"
  by (auto simp: sum_over_def)

definition closed_before :: "interval_row \<Rightarrow> interval_row \<Rightarrow> bool" where
  "closed_before x y \<longleftrightarrow>
     (series_is (mi_scope y) (mi_meter_key y) (mi_resource y) x \<longrightarrow>
      (\<exists>e. mi_ended_at x = Some e \<and> e \<le> mi_started_at y))"

definition row_ok :: "int \<Rightarrow> interval_row \<Rightarrow> bool" where
  "row_ok a r \<longleftrightarrow>
     0 \<le> mi_quantity r \<and> mi_quantity r \<le> i64_max \<and> a \<le> mi_started_at r
     \<and> (\<forall>e. mi_ended_at r = Some e \<longrightarrow> mi_started_at r \<le> e)"

definition intervals_ok :: "metering_db \<Rightarrow> bool" where
  "intervals_ok db \<longleftrightarrow>
     distinct (map mi_id (metering_intervals db))
     \<and> sorted_wrt closed_before (metering_intervals db)
     \<and> (case metering_authority db of
          None \<Rightarrow> metering_intervals db = []
        | Some a \<Rightarrow> \<forall>r\<in>set (metering_intervals db). row_ok (au_started_at a) r)"

definition aggregate_row_ok :: "aggregate_key \<times> (int \<times> int) \<Rightarrow> bool" where
  "aggregate_row_ok = (\<lambda>((s, m, r, b), (w, v)).
     b mod ingest_bucket_width_ms = 0 \<and> w = ingest_bucket_width_ms \<and> 0 \<le> v)"

text \<open>What the aggregate rows of the selected series hold for \<open>[lo, hi)\<close>.\<close>

definition row_value :: "(string \<Rightarrow> string \<Rightarrow> string \<Rightarrow> bool) \<Rightarrow> int \<Rightarrow> int \<Rightarrow>
    aggregate_key \<times> (int \<times> int) \<Rightarrow> int" where
  "row_value P lo hi = (\<lambda>((s, m, r, b), (w, v)). if P s m r \<and> lo \<le> b \<and> b < hi then v else 0)"

definition aggregate_sum ::
  "(string \<Rightarrow> string \<Rightarrow> string \<Rightarrow> bool) \<Rightarrow> int \<Rightarrow> int \<Rightarrow> (aggregate_key \<times> (int \<times> int)) list \<Rightarrow> int"
  where
  "aggregate_sum P lo hi rows = sum_list (map (row_value P lo hi) rows)"

definition row_selected :: "(string \<Rightarrow> string \<Rightarrow> string \<Rightarrow> bool) \<Rightarrow> interval_row \<Rightarrow> bool" where
  "row_selected P x = P (mi_scope x) (mi_meter_key x) (mi_resource x)"

definition aggregates_ok :: "metering_db \<Rightarrow> bool" where
  "aggregates_ok db \<longleftrightarrow>
     distinct (map fst (metering_aggregates db))
     \<and> list_all aggregate_row_ok (metering_aggregates db)
     \<and> (\<forall>s m r b. b mod ingest_bucket_width_ms = 0 \<longrightarrow>
          aggregate_value db (s, m, r, b)
          = sum_over (series_is s m r) (closed_amount b (b + ingest_bucket_width_ms)) (metering_intervals db))
     \<and> (\<forall>P lo hi. lo \<le> hi \<longrightarrow> lo mod ingest_bucket_width_ms = 0 \<longrightarrow> hi mod ingest_bucket_width_ms = 0 \<longrightarrow>
          aggregate_sum P lo hi (metering_aggregates db)
          = sum_over (row_selected P) (closed_amount lo hi) (metering_intervals db))"

definition metering_inv :: "metering_db \<Rightarrow> bool" where
  "metering_inv db \<longleftrightarrow> intervals_ok db \<and> aggregates_ok db"

lemma ingest_width_pos [simp]: "0 < ingest_bucket_width_ms"
  by (simp add: ingest_bucket_width_ms_def)

lemma metering_inv_empty: "metering_inv empty_metering"
  by (simp add: metering_inv_def intervals_ok_def aggregates_ok_def empty_metering_def
      aggregate_value_def aggregate_sum_def)

text \<open>Folding the contributions of an observation.\<close>

lemma fold_contributions_cases:
  assumes "fold_contributions ob ((b, c) # cs) db = Inr db'"
  obtains v where "v = aggregate_value db (ob_scope ob, ob_meter_key ob, ob_resource_id ob, b) + c"
    "0 \<le> v" "v \<le> i64_max"
    "fold_contributions ob cs (db\<lparr>metering_aggregates := AList.update
       (ob_scope ob, ob_meter_key ob, ob_resource_id ob, b) (ingest_bucket_width_ms, v)
       (metering_aggregates db)\<rparr>) = Inr db'"
  using assms by (auto simp: Let_def split: if_splits)

lemma aggregate_value_update:
  "aggregate_value (db\<lparr>metering_aggregates := AList.update k (w, v) (metering_aggregates db)\<rparr>) k'
   = (if k' = k then v else aggregate_value db k')"
  by (simp add: aggregate_value_def update_conv')

lemma fold_contributions_rest:
  "fold_contributions ob cs db = Inr db' \<Longrightarrow>
   metering_intervals db' = metering_intervals db \<and> metering_authority db' = metering_authority db"
proof (induction cs arbitrary: db)
  case (Cons x cs)
  obtain b c where x: "x = (b, c)" by (cases x)
  from Cons.prems [unfolded x] show ?case
    by (rule fold_contributions_cases) (drule Cons.IH, simp)
qed simp

lemma fold_contributions_aggregates:
  assumes "fold_contributions ob cs db = Inr db'"
    and "\<forall>x\<in>set cs. fst x mod ingest_bucket_width_ms = 0"
    and "b' mod ingest_bucket_width_ms = 0"
  shows "aggregate_value db' (s, m, r, b') = aggregate_value db (s, m, r, b')
    + (if (s, m, r) = (ob_scope ob, ob_meter_key ob, ob_resource_id ob)
       then amount_in b' (b' + ingest_bucket_width_ms) cs else 0)"
  using assms(1,2)
proof (induction cs arbitrary: db)
  case (Cons x cs)
  obtain b c where x: "x = (b, c)" by (cases x)
  have "b mod ingest_bucket_width_ms = 0" using Cons.prems(2) by (simp add: x)
  from aligned_less [OF ingest_width_pos assms(3) this]
  have b: "b' \<le> b \<and> b < b' + ingest_bucket_width_ms \<longleftrightarrow> b = b'"
    using ingest_width_pos by (intro iffI; linarith)
  from Cons.prems(1) [unfolded x] show ?case
  proof (rule fold_contributions_cases)
    fix v
    assume v: "v = aggregate_value db (ob_scope ob, ob_meter_key ob, ob_resource_id ob, b) + c"
      "fold_contributions ob cs (db\<lparr>metering_aggregates := AList.update
         (ob_scope ob, ob_meter_key ob, ob_resource_id ob, b) (ingest_bucket_width_ms, v)
         (metering_aggregates db)\<rparr>) = Inr db'"
    from Cons.IH [OF v(2)] Cons.prems(2) show ?thesis
      by (auto simp: x b v(1) aggregate_value_update)
  qed
qed simp

lemma set_alist_update: "set (AList.update k v al) \<subseteq> insert (k, v) (set al)"
  by (induction al) auto

lemma fold_contributions_rows:
  assumes "fold_contributions ob cs db = Inr db'"
    and "\<forall>x\<in>set cs. fst x mod ingest_bucket_width_ms = 0"
    and "distinct (map fst (metering_aggregates db))"
    and "list_all aggregate_row_ok (metering_aggregates db)"
  shows "distinct (map fst (metering_aggregates db')) \<and>
    list_all aggregate_row_ok (metering_aggregates db')"
  using assms
proof (induction cs arbitrary: db)
  case (Cons x cs)
  obtain b c where x: "x = (b, c)" by (cases x)
  from Cons.prems(1) [unfolded x] show ?case
  proof (rule fold_contributions_cases)
    fix v
    let ?k = "(ob_scope ob, ob_meter_key ob, ob_resource_id ob, b)"
    let ?rows = "AList.update ?k (ingest_bucket_width_ms, v) (metering_aggregates db)"
    assume v: "0 \<le> v" "fold_contributions ob cs (db\<lparr>metering_aggregates := ?rows\<rparr>) = Inr db'"
    have "set ?rows \<subseteq> insert (?k, (ingest_bucket_width_ms, v)) (set (metering_aggregates db))"
      by (rule set_alist_update)
    moreover have "aggregate_row_ok (?k, (ingest_bucket_width_ms, v))"
      using Cons.prems(2) v(1) by (simp add: aggregate_row_ok_def x)
    ultimately have "list_all aggregate_row_ok ?rows"
      using Cons.prems(4) by (fastforce simp: list_all_iff simp del: split_paired_All)
    with Cons.IH [OF v(2)] Cons.prems(2,3) show ?thesis by (simp add: distinct_update)
  qed
qed simp

lemma aggregate_sum_update:
  assumes "distinct (map fst rows)"
  shows "aggregate_sum P lo hi (AList.update (s, m, r, b) (w, v) rows) = aggregate_sum P lo hi rows
    + (if P s m r \<and> lo \<le> b \<and> b < hi
       then v - (case map_of rows (s, m, r, b) of Some (_, u) \<Rightarrow> u | None \<Rightarrow> 0) else 0)"
  using assms
proof (induction rows)
  case (Cons x rows)
  obtain k w' u where x: "x = (k, (w', u))" by (cases x) auto
  show ?case
  proof (cases "k = (s, m, r, b)")
    case True
    then show ?thesis by (simp add: x aggregate_sum_def row_value_def)
  next
    case False
    with Cons show ?thesis by (simp add: x aggregate_sum_def)
  qed
qed (simp add: aggregate_sum_def row_value_def)

lemma fold_contributions_sum:
  assumes "fold_contributions ob cs db = Inr db'" "distinct (map fst (metering_aggregates db))"
  shows "aggregate_sum P lo hi (metering_aggregates db') = aggregate_sum P lo hi (metering_aggregates db)
    + (if P (ob_scope ob) (ob_meter_key ob) (ob_resource_id ob) then amount_in lo hi cs else 0)"
  using assms
proof (induction cs arbitrary: db)
  case (Cons x cs)
  obtain b c where x: "x = (b, c)" by (cases x)
  from Cons.prems(1) [unfolded x] show ?case
  proof (rule fold_contributions_cases)
    fix v
    let ?k = "(ob_scope ob, ob_meter_key ob, ob_resource_id ob, b)"
    assume v: "v = aggregate_value db ?k + c"
      "fold_contributions ob cs (db\<lparr>metering_aggregates := AList.update ?k (ingest_bucket_width_ms, v)
         (metering_aggregates db)\<rparr>) = Inr db'"
    from Cons.IH [OF v(2)] Cons.prems(2)
    have "aggregate_sum P lo hi (metering_aggregates db')
      = aggregate_sum P lo hi (AList.update ?k (ingest_bucket_width_ms, v) (metering_aggregates db))
        + (if P (ob_scope ob) (ob_meter_key ob) (ob_resource_id ob) then amount_in lo hi cs else 0)"
      by (simp add: distinct_update)
    also have "aggregate_sum P lo hi (AList.update ?k (ingest_bucket_width_ms, v) (metering_aggregates db))
      = aggregate_sum P lo hi (metering_aggregates db)
        + (if P (ob_scope ob) (ob_meter_key ob) (ob_resource_id ob) \<and> lo \<le> b \<and> b < hi then c else 0)"
      by (simp add: aggregate_sum_update [OF Cons.prems(2)] v(1) aggregate_value_def split: option.splits)
    finally show ?thesis by (simp add: x)
  qed
qed simp

text \<open>Loading the open interval of a series.\<close>

lemma load_open_interval_Some:
  assumes "load_open_interval db ob = Some r"
  shows "r \<in> set (metering_intervals db)" "in_series ob r" "mi_ended_at r = None"
proof -
  let ?rows = "filter (\<lambda>r. in_series ob r \<and> mi_ended_at r = None) (metering_intervals db)"
  from assms obtain rs where "sort_key (\<lambda>r. - mi_started_at r) ?rows = r # rs"
    by (auto simp: load_open_interval_def split: list.splits)
  then have "r \<in> set (sort_key (\<lambda>r. - mi_started_at r) ?rows)" by simp
  then have "r \<in> set ?rows" by simp
  then show "r \<in> set (metering_intervals db)" "in_series ob r" "mi_ended_at r = None" by auto
qed

lemma load_open_interval_None:
  "load_open_interval db ob = None \<longleftrightarrow>
   (\<forall>r\<in>set (metering_intervals db). in_series ob r \<longrightarrow> mi_ended_at r \<noteq> None)"
proof -
  let ?rows = "filter (\<lambda>r. in_series ob r \<and> mi_ended_at r = None) (metering_intervals db)"
  have "load_open_interval db ob = None \<longleftrightarrow> length (sort_key (\<lambda>r. - mi_started_at r) ?rows) = 0"
    by (simp add: load_open_interval_def split: list.split del: length_sort)
  then show ?thesis by (simp add: filter_empty_conv)
qed

lemma sorted_wrt_closed_before:
  assumes "sorted_wrt closed_before rows" "x \<in> set rows" "y \<in> set rows" "x \<noteq> y"
    "series_is (mi_scope y) (mi_meter_key y) (mi_resource y) x"
  shows "mi_ended_at x \<noteq> None \<or> mi_ended_at y \<noteq> None"
  using assms
  by (induction rows) (auto simp: closed_before_def series_is_def)


text \<open>Opening an interval.\<close>

lemma max_ended_at_upper:
  assumes "r \<in> set (metering_intervals db)" "in_series ob r" "mi_ended_at r = Some e"
  shows "\<exists>m. max_ended_at db ob = Some m \<and> e \<le> m"
proof -
  let ?es = "List.map_filter mi_ended_at (filter (in_series ob) (metering_intervals db))"
  from assms have e: "e \<in> set ?es" by (force simp: map_filter_def)
  then obtain x xs where xs: "?es = x # xs" by (cases ?es) auto
  then have "max_ended_at db ob = Some (Max (set ?es))"
    by (simp add: max_ended_at_def Max.set_eq_fold [symmetric])
  with e show ?thesis by simp
qed

lemma insert_interval_Some:
  assumes "insert_interval uuid db ob q = Some db'"
  shows "metering_intervals db' = metering_intervals db @
      [\<lparr>mi_id = uuid (interval_preimage ob), mi_meter_key = ob_meter_key ob, mi_scope = ob_scope ob,
        mi_resource = ob_resource_id ob, mi_quantity = q, mi_started_at = ob_observed_at ob,
        mi_ended_at = None, mi_authority = ob_authority ob\<rparr>]"
    and "metering_authority db' = metering_authority db"
    and "metering_aggregates db' = metering_aggregates db"
    and "r \<in> set (metering_intervals db) \<Longrightarrow>
      mi_id r \<noteq> uuid (interval_preimage ob) \<and> (in_series ob r \<longrightarrow> mi_ended_at r \<noteq> None)"
  using assms by (auto simp: insert_interval_def Let_def list_ex_iff split: if_splits)

lemma in_series_iff: "in_series ob r \<longleftrightarrow> series_is (ob_scope ob) (ob_meter_key ob) (ob_resource_id ob) r"
  by (auto simp: in_series_def series_is_def)

lemma insert_interval_inv:
  assumes "metering_inv db" "metering_authority db = Some a" "au_started_at a \<le> ob_observed_at ob"
    and "insert_interval uuid db ob q = Some db'" "0 \<le> q" "q \<le> i64_max"
    and "\<forall>m. max_ended_at db' ob = Some m \<longrightarrow> m \<le> ob_observed_at ob"
  shows "metering_inv db'"
proof -
  note ins = insert_interval_Some [OF assms(4)]
  let ?new = "\<lparr>mi_id = uuid (interval_preimage ob), mi_meter_key = ob_meter_key ob, mi_scope = ob_scope ob,
        mi_resource = ob_resource_id ob, mi_quantity = q, mi_started_at = ob_observed_at ob,
        mi_ended_at = None, mi_authority = ob_authority ob\<rparr>"
  have "closed_before r ?new" if r: "r \<in> set (metering_intervals db)" for r
  proof (cases "in_series ob r")
    case True
    with ins(4) [OF r] obtain e where e: "mi_ended_at r = Some e" by auto
    from r have "r \<in> set (metering_intervals db')" by (simp add: ins(1))
    from max_ended_at_upper [OF this True e] assms(7) e show ?thesis
      by (auto simp: closed_before_def)
  next
    case False
    then show ?thesis by (simp add: closed_before_def in_series_iff)
  qed
  moreover have "row_ok (au_started_at a) ?new" using assms(3,5,6) by (simp add: row_ok_def)
  moreover have "mi_id ?new \<notin> mi_id ` set (metering_intervals db)"
    using ins(4) by fastforce
  ultimately have "intervals_ok db'"
    using assms(1,2) by (simp add: metering_inv_def intervals_ok_def ins(1,2) sorted_wrt_append)
  moreover have "aggregate_value db' = aggregate_value db"
    by (rule ext) (simp add: aggregate_value_def ins(3))
  then have "aggregates_ok db'"
    using assms(1) by (simp add: metering_inv_def aggregates_ok_def ins(1,3) closed_amount_def)
  ultimately show ?thesis by (simp add: metering_inv_def)
qed

text \<open>Closing an interval: the row is the only one with its identity.\<close>

definition close_row :: "int \<Rightarrow> interval_row \<Rightarrow> interval_row \<Rightarrow> interval_row" where
  "close_row at open_row r = (if r = open_row then r\<lparr>mi_ended_at := Some at\<rparr> else r)"

lemma distinct_id_eq:
  "distinct (map mi_id rows) \<Longrightarrow> x \<in> set rows \<Longrightarrow> y \<in> set rows \<Longrightarrow> mi_id x = mi_id y \<Longrightarrow> x = y"
  by (induction rows) (auto simp: image_iff)

lemma close_and_fold_map:
  assumes "distinct (map mi_id (metering_intervals db))" "r \<in> set (metering_intervals db)"
    and "mi_ended_at r = None"
  shows "map (\<lambda>x. if mi_id x = mi_id r \<and> mi_ended_at x = None then x\<lparr>mi_ended_at := Some at\<rparr> else x)
      (metering_intervals db) = map (close_row at r) (metering_intervals db)"
  using assms distinct_id_eq [OF assms(1)] by (auto simp: close_row_def)

lemma sum_over_close:
  assumes "distinct rows" "r \<in> set rows" "P (r\<lparr>mi_ended_at := Some at\<rparr>) = P r"
  shows "sum_over P f (map (close_row at r) rows)
    = sum_over P f rows + (if P r then f (r\<lparr>mi_ended_at := Some at\<rparr>) - f r else 0)"
  using assms(1,2)
proof (induction rows)
  case (Cons x rows)
  show ?case
  proof (cases "x = r")
    case True
    with Cons.prems(1) have "map (close_row at r) rows = rows"
      by (intro map_idI) (auto simp: close_row_def)
    moreover have "close_row at r r = r\<lparr>mi_ended_at := Some at\<rparr>" by (simp add: close_row_def)
    ultimately show ?thesis using True assms(3) by simp
  next
    case False
    with Cons show ?thesis by (simp add: close_row_def)
  qed
qed simp

lemma close_row_simps [simp]:
  "mi_id (close_row at r x) = mi_id x" "mi_meter_key (close_row at r x) = mi_meter_key x"
  "mi_scope (close_row at r x) = mi_scope x" "mi_resource (close_row at r x) = mi_resource x"
  "mi_quantity (close_row at r x) = mi_quantity x"
  "mi_started_at (close_row at r x) = mi_started_at x"
  by (auto simp: close_row_def)

lemma close_row_intervals:
  assumes "intervals_ok db" "metering_authority db = Some a" "r \<in> set (metering_intervals db)"
    and "mi_ended_at r = None" "mi_started_at r \<le> at"
  shows "intervals_ok (db\<lparr>metering_intervals := map (close_row at r) (metering_intervals db)\<rparr>)"
proof -
  have "closed_before (close_row at r x) (close_row at r y)" if "closed_before x y" for x y
    using that assms(4) by (auto simp: closed_before_def series_is_def close_row_def)
  then have "sorted_wrt closed_before (map (close_row at r) (metering_intervals db))"
    using assms(1) by (auto simp: sorted_wrt_map intervals_ok_def elim: sorted_wrt_mono_rel [rotated])
  moreover have "row_ok (au_started_at a) (close_row at r x)" if "row_ok (au_started_at a) x" for x
    using that assms(5) by (auto simp: row_ok_def close_row_def)
  ultimately show ?thesis
    using assms(1,2) by (simp add: intervals_ok_def comp_def)
qed

lemma close_and_fold_inv:
  assumes inv: "metering_inv db" and a: "metering_authority db = Some a"
    and r: "r \<in> set (metering_intervals db)" "mi_ended_at r = None" "in_series ob r"
    and at: "mi_started_at r \<le> ob_observed_at ob"
    and res: "close_and_fold db r ob = Inr db'"
  shows "metering_inv db' \<and> metering_authority db' = Some a
    \<and> metering_intervals db' = map (close_row (ob_observed_at ob) r) (metering_intervals db)"
proof -
  let ?at = "ob_observed_at ob" and ?W = ingest_bucket_width_ms
  let ?db1 = "db\<lparr>metering_intervals := map (close_row ?at r) (metering_intervals db)\<rparr>"
  have iv: "intervals_ok db" "aggregates_ok db" using inv by (simp_all add: metering_inv_def)
  then have ids: "distinct (map mi_id (metering_intervals db))" by (simp add: intervals_ok_def)
  then have rows: "distinct (metering_intervals db)" by (simp add: distinct_map)
  have ok: "row_ok (au_started_at a) r" using iv(1) a r(1) by (simp add: intervals_ok_def)
  have hit: "list_ex (\<lambda>x. mi_id x = mi_id r \<and> mi_ended_at x = None) (metering_intervals db)"
    using r by (auto simp: list_ex_iff)
  note ivs = close_row_intervals [OF iv(1) a r(1,2) at]
  have sums: "sum_over (series_is s m x) (closed_amount b (b + ?W)) (map (close_row ?at r) (metering_intervals db))
      = sum_over (series_is s m x) (closed_amount b (b + ?W)) (metering_intervals db)
        + (if series_is s m x r then mi_quantity r * overlap b (b + ?W) (mi_started_at r) ?at else 0)"
    for s m x b
    using r(2) by (subst sum_over_close [OF rows r(1)]) (auto simp: series_is_def closed_amount_def)
  have sums': "sum_over (row_selected P) (closed_amount lo hi) (map (close_row ?at r) (metering_intervals db))
      = sum_over (row_selected P) (closed_amount lo hi) (metering_intervals db)
        + (if row_selected P r then mi_quantity r * overlap lo hi (mi_started_at r) ?at else 0)"
    for P lo hi
    using r(2) by (subst sum_over_close [OF rows r(1)]) (auto simp: row_selected_def closed_amount_def)
  have res1: "(if ?at \<le> mi_started_at r then Inr ?db1
      else case u64_of_i64 (mi_quantity r) of None \<Rightarrow> Inl MeteringCorrupt
           | Some quantity \<Rightarrow>
               (case bucket_contributions (mi_started_at r) ?at quantity ?W of
                  Inl e \<Rightarrow> Inl e | Inr cs \<Rightarrow> fold_contributions ob cs ?db1)) = Inr db'"
    using res hit unfolding close_and_fold_def Let_def close_and_fold_map [OF ids r(1,2)]
    by (simp only: not_True_eq_False if_False)
  show ?thesis
  proof (cases "?at \<le> mi_started_at r")
    case True
    with res1 have db': "db' = ?db1" by simp
    have "aggregate_value ?db1 = aggregate_value db" by (rule ext) (simp add: aggregate_value_def)
    with iv(2) True have "aggregates_ok ?db1" by (simp add: aggregates_ok_def sums sums' overlap_empty)
    with ivs a show ?thesis by (simp add: db' metering_inv_def)
  next
    case False
    with res1 obtain q cs where q: "u64_of_i64 (mi_quantity r) = Some q"
      and cs: "bucket_contributions (mi_started_at r) ?at q ?W = Inr cs"
      and fold: "fold_contributions ob cs ?db1 = Inr db'"
      by (auto split: option.splits sum.splits)
    have qv: "uint q = mi_quantity r" using u64_of_i64_Some [OF q] by simp
    note ex = bucket_contributions_exact [OF cs]
    have al: "\<forall>x\<in>set cs. fst x mod ?W = 0" using ex(4) by blast
    note rest = fold_contributions_rest [OF fold]
    have vals: "aggregate_value db' (s, m, x, b) = sum_over (series_is s m x) (closed_amount b (b + ?W)) (metering_intervals ?db1)"
      if "b mod ?W = 0" for s m x b
    proof -
      have "aggregate_value db' (s, m, x, b) = aggregate_value ?db1 (s, m, x, b)
        + (if (s, m, x) = (ob_scope ob, ob_meter_key ob, ob_resource_id ob) then amount_in b (b + ?W) cs else 0)"
        by (rule fold_contributions_aggregates [OF fold al that])
      also have "aggregate_value ?db1 (s, m, x, b) = aggregate_value db (s, m, x, b)"
        by (simp add: aggregate_value_def)
      also have "amount_in b (b + ?W) cs = mi_quantity r * overlap b (b + ?W) (mi_started_at r) ?at"
        using ex(3) [of b "b + ?W"] that ingest_width_pos by (simp add: qv)
      finally show ?thesis
        using iv(2) that r(3) by (auto simp: aggregates_ok_def sums in_series_iff series_is_def)
    qed
    have "aggregate_sum P lo hi (metering_aggregates db')
        = sum_over (row_selected P) (closed_amount lo hi) (metering_intervals ?db1)"
      if h: "lo \<le> hi" "lo mod ?W = 0" "hi mod ?W = 0" for P lo hi
    proof -
      have "aggregate_sum P lo hi (metering_aggregates db') = aggregate_sum P lo hi (metering_aggregates ?db1)
        + (if P (ob_scope ob) (ob_meter_key ob) (ob_resource_id ob) then amount_in lo hi cs else 0)"
        using iv(2) by (intro fold_contributions_sum [OF fold]) (simp add: aggregates_ok_def)
      also have "amount_in lo hi cs = mi_quantity r * overlap lo hi (mi_started_at r) ?at"
        using ex(3) [OF h] by (simp add: qv)
      finally show ?thesis
        using iv(2) h r(3) by (auto simp: aggregates_ok_def sums' in_series_def row_selected_def)
    qed
    then have "aggregates_ok db'"
      using fold_contributions_rows [OF fold al] iv(2) vals rest
      by (simp add: aggregates_ok_def)
    moreover have "intervals_ok db'" using ivs rest a by (simp add: intervals_ok_def)
    ultimately show ?thesis using rest a by (simp add: metering_inv_def)
  qed
qed

text \<open>
  The three effects of an accepted observation on a database whose authority row has been
  brought up to date.
\<close>

definition with_authority :: "int \<Rightarrow> metering_db \<Rightarrow> metering_db" where
  "with_authority at db = advance_watermark at (anchor_authority at db)"

lemma with_authority_rest [simp]:
  "metering_intervals (with_authority at db) = metering_intervals db"
  "metering_aggregates (with_authority at db) = metering_aggregates db"
  by (auto simp: with_authority_def advance_watermark_def anchor_authority_def split: option.splits)

lemma with_authority_Some:
  obtains a where "metering_authority (with_authority at db) = Some a" "at \<le> au_last_observed a"
proof (cases "metering_authority db")
  case None
  then show thesis
    by (intro that [of "\<lparr>au_started_at = at, au_last_observed = at\<rparr>"])
      (simp_all add: with_authority_def advance_watermark_def anchor_authority_def)
next
  case (Some a)
  then show thesis
    by (intro that [of "a\<lparr>au_last_observed := max (au_last_observed a) at\<rparr>"])
      (simp_all add: with_authority_def advance_watermark_def anchor_authority_def)
qed

lemma with_authority_same:
  assumes "metering_authority db' = metering_authority (with_authority at db)"
  shows "with_authority at db' = db'"
proof -
  from with_authority_Some obtain a where "metering_authority (with_authority at db) = Some a"
    "at \<le> au_last_observed a" .
  with assms have a: "metering_authority db' = Some a" "at \<le> au_last_observed a" by simp_all
  then show ?thesis
    by (simp add: with_authority_def advance_watermark_def anchor_authority_def)
qed

lemma with_authority_started:
  "metering_authority db = Some a \<Longrightarrow>
   \<exists>a'. metering_authority (with_authority at db) = Some a' \<and> au_started_at a' = au_started_at a"
  by (auto simp: with_authority_def advance_watermark_def anchor_authority_def)

lemma with_authority_inv: "metering_inv db \<Longrightarrow> metering_inv (with_authority at db)"
proof -
  assume inv: "metering_inv db"
  have "aggregate_value (with_authority at db) = aggregate_value db"
    by (rule ext) (simp add: aggregate_value_def)
  moreover have "intervals_ok (with_authority at db)"
  proof (cases "metering_authority db")
    case None
    with inv show ?thesis
      by (auto simp: metering_inv_def intervals_ok_def split: option.splits)
  next
    case (Some a)
    with with_authority_started [OF Some, of at] inv show ?thesis
      by (auto simp: metering_inv_def intervals_ok_def)
  qed
  ultimately show ?thesis using inv by (simp add: metering_inv_def aggregates_ok_def)
qed

definition record_on ::
  "(string \<Rightarrow> string) \<Rightarrow> metering_db \<Rightarrow> meter_observation \<Rightarrow> (kernel_error, metering_db) rust_result"
  where
  "record_on uuid db ob =
     (case i64_of_u64 (ob_quantity ob) of
        None \<Rightarrow> Inl InvalidIdentifier
      | Some quantity \<Rightarrow>
          if predates_authority db (ob_observed_at ob) then Inl MeteringCorrupt
          else if load_open_interval db ob = None \<and> ob_consuming ob
          then open_new_interval uuid db ob quantity
          else apply_to_open db ob quantity (load_open_interval db ob))"

lemma record_observation_on:
  "record_observation uuid db ob =
     (case observation_validate ob of
        Inl e \<Rightarrow> Inl e
      | Inr _ \<Rightarrow> record_on uuid (with_authority (ob_observed_at ob) db) ob)"
  unfolding record_observation_def record_observation_tx_def record_on_def with_authority_def
    Let_def by (rule refl)

lemma record_on_cases:
  assumes "record_on uuid db ob = Inr db'"
  obtains (same) "db' = db"
  | (opened) q where "i64_of_u64 (ob_quantity ob) = Some q" "ob_consuming ob"
      "\<not> predates_authority db (ob_observed_at ob)"
      "load_open_interval db ob = None" "insert_interval uuid db ob q = Some db'"
      "\<forall>m. max_ended_at db' ob = Some m \<longrightarrow> m \<le> ob_observed_at ob"
  | (closed) r where "\<not> ob_consuming ob" "\<not> predates_authority db (ob_observed_at ob)"
      "load_open_interval db ob = Some r" "mi_started_at r \<le> ob_observed_at ob"
      "close_and_fold db r ob = Inr db'"
proof -
  from assms obtain q where q: "i64_of_u64 (ob_quantity ob) = Some q"
    and pre: "\<not> predates_authority db (ob_observed_at ob)"
    and res: "(if load_open_interval db ob = None \<and> ob_consuming ob
      then open_new_interval uuid db ob q
      else apply_to_open db ob q (load_open_interval db ob)) = Inr db'"
    by (auto simp: record_on_def split: option.splits if_splits)
  have to_open: thesis if res': "apply_to_open db ob q (load_open_interval db ob) = Inr db'"
  proof (cases "load_open_interval db ob")
    case None
    with res' same show thesis by (simp add: apply_to_open_def)
  next
    case (Some r)
    with res' pre same closed show thesis
      by (auto simp: apply_to_open_def split: if_splits)
  qed
  show thesis
  proof (cases "load_open_interval db ob = None \<and> ob_consuming ob")
    case True
    with res have new: "open_new_interval uuid db ob q = Inr db'" by simp
    show thesis
    proof (cases "insert_interval uuid db ob q")
      case None
      with new have m: "(case deterministic_interval_matches uuid db ob q of
          Inl e \<Rightarrow> Inl e
        | Inr True \<Rightarrow> Inr db
        | Inr False \<Rightarrow> apply_to_open db ob q (load_open_interval db ob)) = Inr db'"
        by (simp add: open_new_interval_def)
      then show thesis
      proof (cases "deterministic_interval_matches uuid db ob q")
        case (Inr matches)
        with m same to_open show thesis by (cases matches) simp_all
      qed simp
    next
      case (Some db2)
      with new have "(case max_ended_at db2 ob of
          Some m \<Rightarrow> if ob_observed_at ob < m then Inl MeteringCorrupt else Inr db2
        | None \<Rightarrow> Inr db2) = Inr db'" by (simp add: open_new_interval_def)
      then have "db2 = db'" "\<forall>m. max_ended_at db' ob = Some m \<longrightarrow> m \<le> ob_observed_at ob"
        by (auto split: option.splits if_splits)
      with Some True q pre show thesis by (intro opened [of q]) auto
    qed
  next
    case False
    with res to_open show thesis by auto
  qed
qed

lemma predates_authority_Some:
  "metering_authority db = Some a \<Longrightarrow> \<not> predates_authority db at \<longleftrightarrow> au_started_at a \<le> at"
  by (auto simp: predates_authority_def)

lemma record_on_inv:
  assumes "metering_inv db" "metering_authority db = Some a" "record_on uuid db ob = Inr db'"
  shows "metering_inv db' \<and> metering_authority db' = Some a"
  using assms(3)
proof (cases rule: record_on_cases)
  case same
  with assms show ?thesis by simp
next
  case (opened q)
  from opened(1) have "0 \<le> q" "q \<le> i64_max" by (auto dest: i64_of_u64_Some)
  with insert_interval_inv [OF assms(1,2) _ opened(5) _ _ opened(6)] opened(3)
    insert_interval_Some(2) [OF opened(5)] assms(2)
  show ?thesis by (simp add: predates_authority_Some)
next
  case (closed r)
  note r = load_open_interval_Some [OF closed(3)]
  from close_and_fold_inv [OF assms(1,2) r(1,3,2) closed(4,5)] show ?thesis by simp
qed

lemma record_observation_inv:
  assumes "metering_inv db" "record_observation uuid db ob = Inr db'"
  shows "metering_inv db'"
    and "metering_authority db' = metering_authority (with_authority (ob_observed_at ob) db)"
proof -
  from with_authority_Some obtain a where
    a: "metering_authority (with_authority (ob_observed_at ob) db) = Some a" by blast
  from assms(2) have "record_on uuid (with_authority (ob_observed_at ob) db) ob = Inr db'"
    by (auto simp: record_observation_on split: sum.splits)
  from record_on_inv [OF with_authority_inv [OF assms(1)] a this] a
  show "metering_inv db'" "metering_authority db' = metering_authority (with_authority (ob_observed_at ob) db)"
    by auto
qed

section \<open>Runs of the metering authority\<close>

datatype metering_op = EnsureAuthority int | RecordObservation meter_observation

fun metering_step ::
  "(string \<Rightarrow> string) \<Rightarrow> metering_db \<Rightarrow> metering_op \<Rightarrow> (kernel_error, metering_db) rust_result" where
  "metering_step uuid db (EnsureAuthority now_ms) = Inr (ensure_authority db now_ms)"
| "metering_step uuid db (RecordObservation ob) = record_observation uuid db ob"

lemma ensure_authority_inv: "metering_inv db \<Longrightarrow> metering_inv (ensure_authority db now_ms)"
proof (cases "metering_authority db")
  case None
  assume inv: "metering_inv db"
  have "aggregate_value (ensure_authority db now_ms) = aggregate_value db"
    by (rule ext) (simp add: aggregate_value_def ensure_authority_def anchor_authority_def split: option.splits)
  with None inv show ?thesis
    by (simp add: metering_inv_def intervals_ok_def aggregates_ok_def ensure_authority_def anchor_authority_def)
qed (simp add: ensure_authority_def anchor_authority_def)

lemma metering_step_inv:
  "metering_inv db \<Longrightarrow> metering_step uuid db x = Inr db' \<Longrightarrow> metering_inv db'"
  by (cases x) (auto simp: ensure_authority_inv record_observation_inv(1))

interpretation metering_machine: invariant_machine "metering_step uuid" metering_inv
  by unfold_locales (rule metering_step_inv)

definition authority_kept :: "metering_db \<Rightarrow> metering_db \<Rightarrow> bool" where
  "authority_kept db db' \<longleftrightarrow>
     (\<forall>a. metering_authority db = Some a \<longrightarrow>
       (\<exists>a'. metering_authority db' = Some a' \<and> au_started_at a' = au_started_at a
             \<and> au_last_observed a \<le> au_last_observed a'))"

lemma with_authority_kept: "authority_kept db (with_authority at db)"
  by (auto simp: authority_kept_def with_authority_def advance_watermark_def anchor_authority_def)

section \<open>The books are right after every run\<close>

lemma overlap_disjoint:
  "e \<le> s' \<Longrightarrow> s \<le> e \<Longrightarrow> lo \<le> hi \<Longrightarrow> overlap lo hi s e + overlap lo hi s' e' \<le> overlap lo hi s (max e e')"
  by (auto simp: overlap_def min_def max_def)

text \<open>
  C13: The books. After any sequence of anchorings and observations, accepted or refused, an
  aggregate row holds exactly the integral of the closed intervals of its series over its hour;
  of two intervals of a series recorded one after the other the first is closed before the
  second starts, so that no instant is counted twice and at most the last one is open; and none
  starts before the metering authority did.
\<close>

theorem metering_books:
  assumes "db = run_ops (metering_step uuid) empty_metering ops"
  shows "(b mod 3600000 = 0 \<longrightarrow> aggregate_value db (s, m, r, b)
      = sum_over (series_is s m r) (closed_amount b (b + 3600000)) (metering_intervals db))
    \<and> sorted_wrt closed_before (metering_intervals db)
    \<and> (\<forall>x\<in>set (metering_intervals db). \<exists>a. metering_authority db = Some a
      \<and> au_started_at a \<le> mi_started_at x \<and> (\<forall>e. mi_ended_at x = Some e \<longrightarrow> mi_started_at x \<le> e))"
proof -
  have inv: "metering_inv db"
    unfolding assms by (rule metering_machine.run_inv [OF metering_inv_empty])
  then have "b mod 3600000 = 0 \<longrightarrow> aggregate_value db (s, m, r, b)
      = sum_over (series_is s m r) (closed_amount b (b + 3600000)) (metering_intervals db)"
    by (simp add: metering_inv_def aggregates_ok_def ingest_bucket_width_ms_def)
  moreover have "\<forall>x\<in>set (metering_intervals db). \<exists>a. metering_authority db = Some a
      \<and> au_started_at a \<le> mi_started_at x \<and> (\<forall>e. mi_ended_at x = Some e \<longrightarrow> mi_started_at x \<le> e)"
    using inv by (auto simp: metering_inv_def intervals_ok_def row_ok_def split: option.splits)
  ultimately show ?thesis using inv by (simp add: metering_inv_def intervals_ok_def)
qed

text \<open>A concrete run: authority from 10:00, one instance from 10:30 to 11:30.\<close>

definition sample_observation :: "bool \<Rightarrow> int \<Rightarrow> meter_observation" where
  "sample_observation consuming at =
     \<lparr>ob_meter_key = ''compute:instance_seconds'', ob_scope = ''p'', ob_resource_id = ''s'',
      ob_quantity = (if consuming then 1 else 0), ob_consuming = consuming, ob_observed_at = at,
      ob_authority = ''o3k-lifecycle''\<rparr>"

definition sample_interval :: "int \<Rightarrow> int option \<Rightarrow> interval_row" where
  "sample_interval start_ms ended =
     \<lparr>mi_id = ''i'', mi_meter_key = ''compute:instance_seconds'', mi_scope = ''p'',
      mi_resource = ''s'', mi_quantity = 1, mi_started_at = start_ms, mi_ended_at = ended,
      mi_authority = ''o3k-lifecycle''\<rparr>"

definition sample_open :: metering_db where
  "sample_open =
     \<lparr>metering_authority = Some \<lparr>au_started_at = 36000000, au_last_observed = 37800000\<rparr>,
      metering_intervals = [sample_interval 37800000 None], metering_aggregates = []\<rparr>"

definition sample_closed :: metering_db where
  "sample_closed =
     \<lparr>metering_authority = Some \<lparr>au_started_at = 36000000, au_last_observed = 41400000\<rparr>,
      metering_intervals = [sample_interval 37800000 (Some 41400000)],
      metering_aggregates =
        [((''p'', ''compute:instance_seconds'', ''s'', 36000000), (3600000, 1800000)),
         ((''p'', ''compute:instance_seconds'', ''s'', 39600000), (3600000, 1800000))]\<rparr>"

lemma meter_definition_instance:
  "meter_definition ''compute:instance_seconds'' \<noteq> None"
  by (simp add: meter_definition_def meter_catalog_def)

lemma sample_valid: "0 \<le> at \<Longrightarrow> observation_validate (sample_observation c at) = Inr ()"
  using meter_definition_instance by (simp add: observation_validate_def sample_observation_def)

lemma sample_opens:
  "record_observation (\<lambda>_. ''i'')
     \<lparr>metering_authority = Some \<lparr>au_started_at = 36000000, au_last_observed = 36000000\<rparr>,
      metering_intervals = [], metering_aggregates = []\<rparr> (sample_observation True 37800000)
   = Inr sample_open"
  by (simp add: record_observation_def sample_valid)
    (simp add: record_observation_tx_def sample_observation_def i64_of_u64_def i64_max_def
      advance_watermark_def anchor_authority_def predates_authority_def load_open_interval_def
      open_new_interval_def insert_interval_def max_ended_at_def in_series_def map_filter_def
      sample_open_def sample_interval_def)

lemma sample_closes:
  "record_observation (\<lambda>_. ''i'') sample_open (sample_observation False 41400000) = Inr sample_closed"
proof -
  have "u64_of_i64 1 = Some 1" by (simp add: u64_of_i64_def i64_max_def)
  moreover have "bucket_contributions 37800000 41400000 1 3600000
      = Inr [(36000000, 1800000), (39600000, 1800000)]"
    by (simp add: bucket_contributions_def bucket_loop_step bucket_loop_stop max_ingest_buckets_def i64_max_def)
  ultimately show ?thesis
    by (simp add: record_observation_def sample_valid)
      (simp add: record_observation_tx_def sample_observation_def i64_of_u64_def i64_max_def
        advance_watermark_def anchor_authority_def predates_authority_def load_open_interval_def
        apply_to_open_def close_and_fold_def in_series_def ingest_bucket_width_ms_def
        aggregate_value_def sample_open_def sample_closed_def sample_interval_def)
qed

lemma sample_run:
  "sample_closed = run_ops (metering_step (\<lambda>_. ''i'')) empty_metering
     [EnsureAuthority 36000000, RecordObservation (sample_observation True 37800000),
      RecordObservation (sample_observation False 41400000)]"
  by (simp add: apply_op_def empty_metering_def ensure_authority_def anchor_authority_def sample_opens sample_closes)

theorem metering_books_witness:
  "aggregate_value sample_closed (''p'', ''compute:instance_seconds'', ''s'', 36000000)
     = sum_over (series_is ''p'' ''compute:instance_seconds'' ''s'')
         (closed_amount 36000000 (36000000 + 3600000)) (metering_intervals sample_closed)
   \<and> aggregate_value sample_closed (''p'', ''compute:instance_seconds'', ''s'', 36000000) = 1800000"
  using metering_books [OF sample_run, of 36000000 "''p''" "''compute:instance_seconds''" "''s''"]
  by (simp add: aggregate_value_def sample_closed_def)

section \<open>Replays\<close>

lemma load_open_interval_unique:
  assumes "intervals_ok db" "r \<in> set (metering_intervals db)" "in_series ob r" "mi_ended_at r = None"
  shows "load_open_interval db ob = Some r"
proof (cases "load_open_interval db ob")
  case None
  with assms show ?thesis by (auto simp: load_open_interval_None)
next
  case (Some x)
  note x = load_open_interval_Some [OF Some]
  have "x = r"
  proof (rule ccontr)
    assume "x \<noteq> r"
    moreover have "sorted_wrt closed_before (metering_intervals db)" using assms(1) by (simp add: intervals_ok_def)
    ultimately show False
      using sorted_wrt_closed_before [OF _ x(1) assms(2)] x assms(3,4)
      by (auto simp: in_series_def series_is_def)
  qed
  with Some show ?thesis by simp
qed

lemma record_on_again:
  assumes inv: "metering_inv db" and a: "metering_authority db = Some a"
    and res: "record_on uuid db ob = Inr db'"
  shows "record_on uuid db' ob = Inr db'"
  using res
proof (cases rule: record_on_cases)
  case same
  with res show ?thesis by simp
next
  case (opened q)
  note ins = insert_interval_Some [OF opened(5)]
  let ?new = "last (metering_intervals db')"
  from record_on_inv [OF inv a res] have ok: "intervals_ok db'" by (simp add: metering_inv_def)
  have "load_open_interval db' ob = Some ?new"
    by (rule load_open_interval_unique [OF ok]) (simp_all add: ins(1) in_series_def)
  with opened(1-3) show ?thesis
    by (simp add: record_on_def apply_to_open_def ins(1,2) predates_authority_def)
next
  case (closed r)
  note r = load_open_interval_Some [OF closed(3)]
  from close_and_fold_inv [OF inv a r(1,3,2) closed(4,5)]
  have db': "metering_authority db' = metering_authority db"
    "metering_intervals db' = map (close_row (ob_observed_at ob) r) (metering_intervals db)"
    using a by auto
  have ok: "intervals_ok db" using inv by (simp add: metering_inv_def)
  have "mi_ended_at (close_row (ob_observed_at ob) r x) \<noteq> None"
    if "x \<in> set (metering_intervals db)" "in_series ob x" for x
    using load_open_interval_unique [OF ok that] closed(3) by (auto simp: close_row_def)
  moreover have "in_series ob (close_row t r x) = in_series ob x" for t x by (simp add: in_series_def)
  ultimately have none: "load_open_interval db' ob = None"
    by (simp add: load_open_interval_None db'(2))
  from res obtain q where "i64_of_u64 (ob_quantity ob) = Some q"
    by (auto simp: record_on_def split: option.splits)
  with none closed(1,2) show ?thesis
    by (simp add: record_on_def apply_to_open_def db'(1) predates_authority_def)
qed

text \<open>
  A replayed observation. In a database the metering authority can be in, recording an
  observation again right after it was accepted is accepted and changes nothing: no interval is
  opened or closed and no usage accrues twice.
\<close>

theorem observation_replay:
  assumes "db = run_ops (metering_step uuid) empty_metering ops"
    and "record_observation uuid db ob = Inr db'"
  shows "record_observation uuid db' ob = Inr db'"
proof -
  have inv: "metering_inv db"
    unfolding assms(1) by (rule metering_machine.run_inv [OF metering_inv_empty])
  let ?db1 = "with_authority (ob_observed_at ob) db"
  from with_authority_Some obtain a where a: "metering_authority ?db1 = Some a" by blast
  from assms(2) have v: "observation_validate ob = Inr ()" and on: "record_on uuid ?db1 ob = Inr db'"
    by (auto simp: record_observation_on split: sum.splits)
  from record_on_again [OF with_authority_inv [OF inv] a on]
  have "record_on uuid db' ob = Inr db'" .
  moreover have "with_authority (ob_observed_at ob) db' = db'"
    by (rule with_authority_same [OF record_observation_inv(2) [OF inv assms(2)]])
  ultimately show ?thesis using v by (simp add: record_observation_on)
qed

theorem observation_replay_witness:
  "record_observation (\<lambda>_. ''i'') sample_open (sample_observation True 37800000) = Inr sample_open"
proof -
  let ?db = "\<lparr>metering_authority = Some \<lparr>au_started_at = 36000000, au_last_observed = 36000000\<rparr>,
      metering_intervals = [], metering_aggregates = []\<rparr>"
  have "?db = run_ops (metering_step (\<lambda>_. ''i'')) empty_metering [EnsureAuthority 36000000]"
    by (simp add: apply_op_def empty_metering_def ensure_authority_def anchor_authority_def)
  from observation_replay [OF this sample_opens] show ?thesis .
qed

section \<open>A usage report is the integral of the intervals\<close>

lemma sum_list_sort_key: "sum_list (map f (sort_key k xs)) = sum_list (map (f :: 'a \<Rightarrow> int) xs)"
  by (metis mset_map mset_sort sum_mset_sum_list)

lemma amount_in_if: "amount_in lo hi cs = sum_list (map (\<lambda>(b, c). if lo \<le> b \<and> b < hi then c else 0) cs)"
  by (induction cs) auto

definition query_selects :: "usage_query \<Rightarrow> string \<Rightarrow> string \<Rightarrow> string \<Rightarrow> string \<Rightarrow> bool" where
  "query_selects q key s m r = (s = uq_scope q \<and> m = key \<and> resource_selected q r)"

lemma load_aggregates_amount:
  assumes "load_aggregates db q key = Inr rows" "uq_start q \<le> lo" "hi \<le> uq_end q"
  shows "amount_in lo hi (map snd rows) = aggregate_sum (query_selects q key) lo hi (metering_aggregates db)"
proof -
  let ?sel = "\<lambda>((s, m, r, b), (w :: int, v :: int)). s = uq_scope q \<and> m = key \<and> resource_selected q r
                  \<and> uq_start q \<le> b \<and> b < uq_end q"
  let ?sorted = "sort_key (\<lambda>((s, m, r, b), (w, v)). (b, r)) (filter ?sel (metering_aggregates db))"
  let ?out = "\<lambda>((s :: string, m :: string, r :: string, b :: int), (w :: int, v :: int)). (r, b, v)"
  from assms(1) have len: "length (take (max_usage_aggregate_rows + 1) ?sorted) \<le> max_usage_aggregate_rows"
    and rows: "rows = map ?out (take (max_usage_aggregate_rows + 1) ?sorted)"
    by (auto simp: load_aggregates_def Let_def split: if_splits)
  from len have "length ?sorted \<le> max_usage_aggregate_rows" by (simp add: min_def split: if_splits)
  with rows have rows: "rows = map ?out ?sorted" by simp
  let ?val = "\<lambda>x. case snd (?out x) of (b, c) \<Rightarrow> if lo \<le> b \<and> b < hi then c else 0"
  have "amount_in lo hi (map snd rows) = sum_list (map ?val ?sorted)"
    by (simp add: amount_in_if rows comp_def)
  also have "\<dots> = sum_list (map ?val (filter ?sel (metering_aggregates db)))"
    by (rule sum_list_sort_key)
  also have "sum_list (map ?val (filter ?sel xs)) = aggregate_sum (query_selects q key) lo hi xs" for xs
  proof (induction xs)
    case (Cons x xs)
    then show ?case
      using assms(2,3)
      by (cases x) (auto simp: aggregate_sum_def row_value_def query_selects_def split: if_split_asm)
  qed (simp add: aggregate_sum_def)
  finally show ?thesis .
qed

definition open_share :: "int \<Rightarrow> int \<Rightarrow> int \<Rightarrow> int \<times> int \<Rightarrow> int" where
  "open_share through lo hi = (\<lambda>(quantity, started). quantity * overlap lo hi started through)"

lemma load_open_intervals_amount:
  assumes "length (load_open_intervals db q key) \<le> max_open_intervals" "hi \<le> uq_end q"
  shows "sum_list (map (open_share through lo hi) (load_open_intervals db q key))
    = sum_over (row_selected (query_selects q key)) (open_amount through lo hi) (metering_intervals db)"
proof -
  let ?sel = "\<lambda>r. mi_meter_key r = key \<and> mi_scope r = uq_scope q \<and> resource_selected q (mi_resource r)
               \<and> mi_ended_at r = None \<and> mi_started_at r < uq_end q"
  let ?sorted = "sort_key (\<lambda>r. (mi_started_at r, mi_resource r)) (filter ?sel (metering_intervals db))"
  let ?val = "\<lambda>r. open_share through lo hi (mi_quantity r, mi_started_at r)"
  from assms(1) have "length ?sorted \<le> max_open_intervals"
    by (simp add: load_open_intervals_def min_def split: if_splits)
  then have "load_open_intervals db q key = map (\<lambda>r. (mi_quantity r, mi_started_at r)) ?sorted"
    by (simp add: load_open_intervals_def)
  then have "sum_list (map (open_share through lo hi) (load_open_intervals db q key)) = sum_list (map ?val ?sorted)"
    by (simp add: comp_def)
  also have "\<dots> = sum_list (map ?val (filter ?sel (metering_intervals db)))"
    by (rule sum_list_sort_key)
  also have "\<dots> = sum_over (row_selected (query_selects q key)) (open_amount through lo hi) (metering_intervals db)"
    unfolding sum_over_def
  proof (induction "metering_intervals db" arbitrary: db)
    case (Cons x xs)
    have "overlap lo hi (mi_started_at x) through = 0" if "uq_end q \<le> mi_started_at x"
      using that assms(2) by (simp add: overlap_def)
    with Cons(1) [of "db\<lparr>metering_intervals := xs\<rparr>"] show ?case
      by (auto simp: Cons(2) [symmetric] row_selected_def query_selects_def open_share_def open_amount_def
          split: option.splits)
  qed simp
  finally show ?thesis .
qed

lemma add_open_intervals_value:
  assumes "add_open_intervals q through rows acc = Inr acc'" "through \<le> uq_end q"
    and "btree acc" "aligned_to (width_ms (uq_granularity q)) acc"
  shows "btree acc' \<and> aligned_to (width_ms (uq_granularity q)) acc'
    \<and> (\<forall>a. a mod width_ms (uq_granularity q) = 0 \<longrightarrow> uq_start q \<le> a \<longrightarrow> a + width_ms (uq_granularity q) \<le> uq_end q \<longrightarrow>
         bucket_value acc' a = bucket_value acc a
           + sum_list (map (open_share through a (a + width_ms (uq_granularity q))) rows))"
  using assms
proof (induction rows arbitrary: acc)
  case (Cons x rows)
  let ?W = "width_ms (uq_granularity q)"
  obtain quantity started where x: "x = (quantity, started)" by (cases x)
  let ?s = "max started (uq_start q)" and ?e = "min through (uq_end q)"
  show ?case
  proof (cases "?e > ?s")
    case False
    with Cons.prems(1) have "add_open_intervals q through rows acc = Inr acc'"
      by (simp only: x add_open_intervals.simps Let_def if_False)
    note IH = Cons.IH [OF this Cons.prems(2-4)]
    have "overlap a (a + ?W) started through = 0" if "uq_start q \<le> a" for a
      using False that Cons.prems(2) by (auto simp: overlap_def)
    with IH show ?thesis by (simp add: x open_share_def)
  next
    case True
    with Cons.prems(1) obtain w cs acc1 where w: "u64_of_i64 quantity = Some w"
      and cs: "bucket_contributions ?s ?e w ingest_bucket_width_ms = Inr cs"
      and acc1: "accumulator_add_all (uq_granularity q) cs acc = Inr acc1"
      and rest: "add_open_intervals q through rows acc1 = Inr acc'"
      by (auto simp: x Let_def split: option.splits sum.splits)
    from accumulator_add_all_value [OF acc1 Cons.prems(3,4)]
    have acc1': "btree acc1" "aligned_to ?W acc1"
      and val: "\<And>a. a mod ?W = 0 \<Longrightarrow> bucket_value acc1 a = bucket_value acc a + amount_in a (a + ?W) cs"
      by auto
    have "amount_in a (a + ?W) cs = quantity * overlap a (a + ?W) started through"
      if h: "a mod ?W = 0" "uq_start q \<le> a" "a + ?W \<le> uq_end q" for a
    proof -
      have "a mod ingest_bucket_width_ms = 0" "(a + ?W) mod ingest_bucket_width_ms = 0"
        using h(1) width_mod_ingest [of a "uq_granularity q"] width_mod_ingest [of "a + ?W" "uq_granularity q"]
        by simp_all
      with bucket_contributions_exact(3) [OF cs, of a "a + ?W"] width_ms_pos [of "uq_granularity q"]
      have "amount_in a (a + ?W) cs = uint w * overlap a (a + ?W) ?s ?e" by linarith
      also have "overlap a (a + ?W) ?s ?e = overlap a (a + ?W) started through"
        using h Cons.prems(2) by (simp add: overlap_def max.assoc max.absorb2)
      finally show ?thesis using u64_of_i64_Some [OF w] by simp
    qed
    with Cons.IH [OF rest Cons.prems(2) acc1'] val show ?thesis by (simp add: x open_share_def)
  qed
qed simp

definition bucket_of :: "usage_query \<Rightarrow> int \<times> int \<Rightarrow> usage_bucket" where
  "bucket_of q = (\<lambda>(b, v). \<lparr>ub_start = b, ub_width = width_ms (uq_granularity q),
                            ub_quantity = format_quantity_millis v\<rparr>)"

definition in_window :: "usage_query \<Rightarrow> int \<times> int \<Rightarrow> bool" where
  "in_window q x = (uq_start q \<le> fst x \<and> fst x < uq_end q)"

lemma report_buckets_filter:
  "report_buckets q acc t = Inr (tot, out) \<Longrightarrow>
   out = map (bucket_of q) (filter (in_window q) acc) \<and> tot = t + sum_list (map snd (filter (in_window q) acc))"
proof (induction acc arbitrary: t out)
  case (Cons x acc)
  obtain b v where x: "x = (b, v)" by (cases x)
  show ?case
  proof (cases "in_window q x")
    case False
    with Cons show ?thesis by (auto simp: x in_window_def)
  next
    case True
    with Cons.prems obtain out' where "report_buckets q acc (t + v) = Inr (tot, out')"
      "out = bucket_of q x # out'"
      by (auto simp: x in_window_def bucket_of_def split: if_splits sum.splits)
    with Cons.IH [OF this(1)] True show ?thesis by (simp add: x)
  qed
qed simp

lemma btree_bucket_value: "btree acc \<Longrightarrow> (b, v) \<in> set acc \<Longrightarrow> bucket_value acc b = v"
  using btree_distinct [of acc] by (simp add: bucket_value_def)

text \<open>The usage of the selected intervals in \<open>[lo, hi)\<close>, open ones observed through an instant.\<close>

definition true_usage :: "metering_db \<Rightarrow> usage_query \<Rightarrow> string \<Rightarrow> int \<Rightarrow> int \<Rightarrow> int \<Rightarrow> int" where
  "true_usage db q key through lo hi =
     sum_over (row_selected (query_selects q key)) (closed_amount lo hi) (metering_intervals db)
     + sum_over (row_selected (query_selects q key)) (open_amount through lo hi) (metering_intervals db)"

lemma usage_of_meter_value:
  assumes inv: "metering_inv db" and valid: "query_validate q = Inr ()"
    and res: "usage_of_meter db q status (min (uq_end q) (uq_evaluated_at q)) key = Inr mu"
    and av: "status \<noteq> Unavailable"
  shows "mu_meter_key mu = key \<and> mu_status mu = status \<and>
    (\<exists>vs. mu_buckets mu = map (bucket_of q) vs \<and> mu_total mu = format_quantity_millis (sum_list (map snd vs))
      \<and> sorted_wrt (<) (map fst vs)
      \<and> (\<forall>x\<in>set vs. in_window q x \<and> fst x mod width_ms (uq_granularity q) = 0)
      \<and> (\<forall>b. b mod width_ms (uq_granularity q) = 0 \<longrightarrow> uq_start q \<le> b \<longrightarrow> b < uq_end q \<longrightarrow>
           true_usage db q key (min (uq_end q) (uq_evaluated_at q)) b (b + width_ms (uq_granularity q))
           = (case map_of vs b of Some v \<Rightarrow> v | None \<Rightarrow> 0)))"
proof -
  let ?W = "width_ms (uq_granularity q)" and ?t = "min (uq_end q) (uq_evaluated_at q)"
  from res obtain rows acc acc' where rows: "load_aggregates db q key = Inr rows"
    and acc: "accumulator_add_all (uq_granularity q) (map snd rows) [] = Inr acc"
    and len: "length (load_open_intervals db q key) \<le> max_open_intervals"
    and acc': "add_open_intervals q ?t (load_open_intervals db q key) acc = Inr acc'"
    and mu: "meter_usage key q status acc' = Inr mu"
    by (auto simp: usage_of_meter_def Let_def split: sum.splits if_splits)
  note v = query_validate_accepts [OF valid]
  from accumulator_add_all_value [OF acc]
  have a: "btree acc" "aligned_to ?W acc"
    and av1: "\<And>a. a mod ?W = 0 \<Longrightarrow> bucket_value acc a = amount_in a (a + ?W) (map snd rows)"
    by (auto simp: aligned_to_def bucket_value_def)
  from add_open_intervals_value [OF acc' _ a]
  have a': "btree acc'" "aligned_to ?W acc'"
    and av2: "\<And>a. a mod ?W = 0 \<Longrightarrow> uq_start q \<le> a \<Longrightarrow> a + ?W \<le> uq_end q \<Longrightarrow>
       bucket_value acc' a = bucket_value acc a + sum_list (map (open_share ?t a (a + ?W)) (load_open_intervals db q key))"
    by auto
  have value': "bucket_value acc' b = true_usage db q key ?t b (b + ?W)"
    if b: "b mod ?W = 0" "uq_start q \<le> b" "b < uq_end q" for b
  proof -
    have e: "b + ?W \<le> uq_end q" using aligned_less [OF width_ms_pos b(1) v(4) b(3)] .
    have m: "b mod ingest_bucket_width_ms = 0" "(b + ?W) mod ingest_bucket_width_ms = 0" "b \<le> b + ?W"
      using b(1) width_mod_ingest [of b "uq_granularity q"] width_mod_ingest [of "b + ?W" "uq_granularity q"]
        less_imp_le [OF width_ms_pos [of "uq_granularity q"]] by simp_all
    have "aggregate_sum (query_selects q key) b (b + ?W) (metering_aggregates db)
        = sum_over (row_selected (query_selects q key)) (closed_amount b (b + ?W)) (metering_intervals db)"
      using inv m by (simp add: metering_inv_def aggregates_ok_def)
    then show ?thesis
      using av2 [OF b(1,2) e] av1 [OF b(1)] load_aggregates_amount [OF rows b(2) e]
        load_open_intervals_amount [OF len e] by (simp add: true_usage_def)
  qed
  let ?vs = "filter (in_window q) acc'"
  from mu av obtain d tot out where d: "meter_definition key = Some d"
    and rep: "report_buckets q acc' 0 = Inr (tot, out)"
    and mu': "mu_meter_key mu = key" "mu_status mu = status" "mu_buckets mu = out"
      "mu_total mu = format_quantity_millis tot"
    by (auto simp: meter_usage_def split: option.splits sum.splits)
  note out = report_buckets_filter [OF rep]
  have shares: "true_usage db q key ?t b (b + ?W) = (case map_of ?vs b of Some v \<Rightarrow> v | None \<Rightarrow> 0)"
    if "b mod ?W = 0" "uq_start q \<le> b" "b < uq_end q" for b
  proof -
    have "map_of (filter (in_window q) m) b = map_of m b" for m :: usage_accumulator
      by (induction m) (use that(2,3) in \<open>auto simp: in_window_def\<close>)
    then show ?thesis by (simp add: bucket_value_def value' [OF that, symmetric])
  qed
  have sorted: "sorted_wrt (<) (map fst ?vs)"
    using a'(1) by (simp add: btree_def sorted_wrt_map sorted_wrt_filter)
  have window: "\<forall>x\<in>set ?vs. in_window q x \<and> fst x mod ?W = 0"
    using a'(2) by (simp add: aligned_to_def)
  show ?thesis
  proof (intro conjI exI [of _ ?vs])
    show "mu_total mu = format_quantity_millis (sum_list (map snd ?vs))" using mu'(4) out by simp
    show "mu_buckets mu = map (bucket_of q) ?vs" using mu'(3) out by simp
    show "\<forall>b. b mod ?W = 0 \<longrightarrow> uq_start q \<le> b \<longrightarrow> b < uq_end q \<longrightarrow>
        true_usage db q key ?t b (b + ?W) = (case map_of ?vs b of Some v \<Rightarrow> v | None \<Rightarrow> 0)"
      by (intro allI impI) (rule shares)
  qed (fact mu'(1) mu'(2) sorted window)+
qed

text \<open>
  C14: What a usage report says. In a database the metering authority can be in, every meter of an
  accepted query that is not reported unavailable lists output buckets in ascending order inside
  the requested window, each holding exactly the integral of the selected intervals over that
  bucket, open intervals counted through the end of the window or the evaluation instant,
  whichever is first; a bucket that is not listed has no usage, and the total is the sum of the
  buckets.
\<close>

theorem usage_is_integral:
  assumes "db = run_ops (metering_step uuid) empty_metering ops"
    and "usage db q = Inr rp" and "mu \<in> set (rp_meters rp)" and "mu_status mu \<noteq> Unavailable"
  shows "\<exists>vs. mu_buckets mu = map (bucket_of q) vs
      \<and> mu_total mu = format_quantity_millis (sum_list (map snd vs))
      \<and> sorted_wrt (<) (map fst vs)
      \<and> (\<forall>x\<in>set vs. in_window q x \<and> fst x mod width_ms (uq_granularity q) = 0)
      \<and> (\<forall>b. b mod width_ms (uq_granularity q) = 0 \<longrightarrow> uq_start q \<le> b \<longrightarrow> b < uq_end q \<longrightarrow>
           true_usage db q (mu_meter_key mu) (min (uq_end q) (uq_evaluated_at q)) b
             (b + width_ms (uq_granularity q))
           = (case map_of vs b of Some v \<Rightarrow> v | None \<Rightarrow> 0))"
proof -
  have inv: "metering_inv db"
    unfolding assms(1) by (rule metering_machine.run_inv [OF metering_inv_empty])
  from assms(2) have valid: "query_validate q = Inr ()" and snap: "usage_snapshot db q = Inr rp"
    by (auto simp: usage_def split: sum.splits)
  let ?st = "usage_status (map_option au_started_at (metering_authority db)) (uq_start q) (uq_end q) (uq_evaluated_at q)"
  from snap have "collect_results (usage_of_meter db q ?st (min (uq_end q) (uq_evaluated_at q))) (uq_meter_keys q)
      = Inr (rp_meters rp)"
    by (auto simp: usage_snapshot_def Let_def split: sum.splits)
  then have "list_all2 (\<lambda>k m. usage_of_meter db q ?st (min (uq_end q) (uq_evaluated_at q)) k = Inr m)
      (uq_meter_keys q) (rp_meters rp)"
    by (simp add: collect_results_Inr)
  with assms(3) obtain key where key: "usage_of_meter db q ?st (min (uq_end q) (uq_evaluated_at q)) key = Inr mu"
    by (auto simp: list_all2_conv_all_nth in_set_conv_nth)
  have "?st \<noteq> Unavailable"
  proof
    assume un: "?st = Unavailable"
    with key have "mu_status mu = Unavailable"
      by (auto simp: usage_of_meter_def meter_usage_def Let_def split: sum.splits option.splits if_splits)
    with assms(4) show False by simp
  qed
  from usage_of_meter_value [OF inv valid key this] show ?thesis by (elim conjE) simp
qed

definition sample_query :: usage_query where
  "sample_query =
     \<lparr>uq_scope = ''p'', uq_meter_keys = [''compute:instance_seconds''], uq_start = 36000000,
      uq_end = 43200000, uq_granularity = Hour, uq_resource_id = None, uq_evaluated_at = 43200000\<rparr>"

definition sample_usage :: meter_usage where
  "sample_usage =
     \<lparr>mu_meter_key = ''compute:instance_seconds'', mu_unit = InstanceSecond, mu_granularity = Hour,
      mu_status = Complete,
      mu_buckets = [\<lparr>ub_start = 36000000, ub_width = 3600000, ub_quantity = ''1800.000''\<rparr>,
                    \<lparr>ub_start = 39600000, ub_width = 3600000, ub_quantity = ''1800.000''\<rparr>],
      mu_total = ''3600.000''\<rparr>"

lemma sample_format:
  "format_quantity_millis 1800000 = ''1800.000''" "format_quantity_millis 3600000 = ''3600.000''"
  by (simp_all add: format_quantity_millis_def pad3_def show_nat.simps char_of_def)
    (code_simp+)

lemma sample_report:
  "usage sample_closed sample_query = Inr
     \<lparr>rp_scope = ''p'', rp_start = 36000000, rp_end = 43200000, rp_observed_through = 43200000,
      rp_authority_started = Some 36000000, rp_last_observed = Some 41400000,
      rp_meters = [sample_usage]\<rparr>"
  by (simp add: usage_def query_validate_def usage_snapshot_def usage_of_meter_def load_aggregates_def
      load_open_intervals_def sample_closed_def sample_interval_def sample_query_def sample_usage_def
      max_usage_meters_def max_usage_range_ms_def max_usage_buckets_def max_usage_aggregate_rows_def
      max_usage_series_def max_open_intervals_def ingest_bucket_width_ms_def meter_definition_def
      meter_catalog_def accumulator_add_def i128_max_def usage_status_def resource_selected_def
      meter_usage_def sample_format)

theorem usage_is_integral_witness:
  "\<exists>vs. mu_buckets sample_usage = map (bucket_of sample_query) vs \<and> length vs = 2
     \<and> (case map_of vs 36000000 of Some v \<Rightarrow> v | None \<Rightarrow> 0)
       = true_usage sample_closed sample_query ''compute:instance_seconds'' 43200000 36000000 39600000"
proof -
  have mu: "sample_usage \<in> set (rp_meters
     \<lparr>rp_scope = ''p'', rp_start = 36000000, rp_end = 43200000, rp_observed_through = 43200000,
      rp_authority_started = Some 36000000, rp_last_observed = Some 41400000,
      rp_meters = [sample_usage]\<rparr>)" by simp
  have st: "mu_status sample_usage \<noteq> Unavailable" by (simp add: sample_usage_def)
  from usage_is_integral [OF sample_run sample_report mu st] obtain vs where
    vs: "mu_buckets sample_usage = map (bucket_of sample_query) vs"
    and all: "\<forall>b. b mod width_ms (uq_granularity sample_query) = 0 \<longrightarrow> uq_start sample_query \<le> b \<longrightarrow>
      b < uq_end sample_query \<longrightarrow>
      true_usage sample_closed sample_query (mu_meter_key sample_usage)
        (min (uq_end sample_query) (uq_evaluated_at sample_query)) b (b + width_ms (uq_granularity sample_query))
      = (case map_of vs b of Some v \<Rightarrow> v | None \<Rightarrow> 0)" by blast
  have "length vs = length (mu_buckets sample_usage)" using vs by simp
  then have "length vs = 2" by (simp add: sample_usage_def)
  moreover from all [rule_format, of 36000000]
  have "(case map_of vs 36000000 of Some v \<Rightarrow> v | None \<Rightarrow> 0)
       = true_usage sample_closed sample_query ''compute:instance_seconds'' 43200000 36000000 39600000"
    by (simp add: sample_query_def sample_usage_def ingest_bucket_width_ms_def)
  ultimately show ?thesis using vs by blast
qed

section \<open>The identity of an interval\<close>

definition read_nat :: "string \<Rightarrow> nat" where
  "read_nat s = foldl (\<lambda>a c. a * 10 + (of_char c - 48)) 0 s"

lemma of_char_digit: "n < 10 \<Longrightarrow> (of_char (char_of (48 + n) :: char) :: nat) = 48 + n"
  by (simp add: of_char_of)

lemma read_show_nat: "read_nat (show_nat n) = n"
proof (induction n rule: show_nat.induct)
  case (1 n)
  show ?case
  proof (cases "n div 10")
    case 0
    then have "n < 10" by simp
    with 0 show ?thesis by (subst show_nat.simps) (simp add: read_nat_def of_char_digit)
  next
    case (Suc m)
    with 1 [OF Suc] have "read_nat (show_nat (n div 10)) = n div 10" by simp
    moreover have "Suc m * 10 + n mod 10 = n" using div_mult_mod_eq [of n 10] Suc by simp
    ultimately show ?thesis
      using Suc by (subst show_nat.simps) (simp add: read_nat_def of_char_digit)
  qed
qed

lemma show_nat_inject: "show_nat a = show_nat b \<longleftrightarrow> a = b"
  by (metis read_show_nat)

lemma show_nat_digits: "c \<in> set (show_nat n) \<Longrightarrow> 48 \<le> (of_char c :: nat) \<and> (of_char c :: nat) \<le> 57"
proof (induction n rule: show_nat.induct)
  case (1 n)
  show ?case
  proof (cases "n div 10")
    case 0
    then have "n < 10" by simp
    with 0 1(2) show ?thesis by (subst (asm) show_nat.simps) (simp add: of_char_digit)
  next
    case (Suc m)
    have "n mod 10 < 10" by simp
    with 1(1) [OF Suc] 1(2) Suc show ?thesis
      by (subst (asm) (2) show_nat.simps) (auto simp: of_char_digit)
  qed
qed

lemma colon_not_digit: "CHR '':'' \<notin> set (show_nat n)"
  using show_nat_digits [of "CHR '':''" n] by auto

lemma show_int_inject: "show_int a = show_int b \<longleftrightarrow> a = b"
proof
  assume eq: "show_int a = show_int b"
  have minus: "''-'' @ show_nat n \<noteq> show_nat m" for n m
  proof
    assume "''-'' @ show_nat n = show_nat m"
    then have "CHR ''-'' \<in> set (show_nat m)" by (metis append_Cons list.set_intros(1))
    then show False using show_nat_digits [of "CHR ''-''" m] by auto
  qed
  with eq minus [symmetric] show "a = b"
    by (auto simp: show_int_def show_nat_inject split: if_splits)
qed simp

lemma prefixed_field_inject:
  assumes "show_nat (length a) @ '':'' @ a @ r = show_nat (length b) @ '':'' @ b @ s"
  shows "a = b \<and> r = s"
proof -
  have "takeWhile (\<lambda>c. c \<noteq> CHR '':'') (show_nat n @ '':'' @ t) = show_nat n" for n t
    using colon_not_digit [of n] by (subst takeWhile_append2) auto
  then have "show_nat (length a) = show_nat (length b)" using assms by (metis append.assoc)
  then have "length a = length b" by (simp add: show_nat_inject)
  with assms show ?thesis by simp
qed

text \<open>
  The preimage of an interval identity is injective. Two observations whose identity strings
  agree are of the same meter, scope, resource and instant, whatever characters the names
  contain: the length prefixes keep the fields apart.
\<close>

theorem interval_preimage_injective:
  "interval_preimage a = interval_preimage b \<longleftrightarrow>
     ob_meter_key a = ob_meter_key b \<and> ob_scope a = ob_scope b
     \<and> ob_resource_id a = ob_resource_id b \<and> ob_observed_at a = ob_observed_at b"
proof
  assume "interval_preimage a = interval_preimage b"
  then have "show_nat (length (ob_meter_key a)) @ '':'' @ ob_meter_key a @ '':''
     @ show_nat (length (ob_scope a)) @ '':'' @ ob_scope a @ '':''
     @ show_nat (length (ob_resource_id a)) @ '':'' @ ob_resource_id a @ '':''
     @ show_int (ob_observed_at a)
     = show_nat (length (ob_meter_key b)) @ '':'' @ ob_meter_key b @ '':''
     @ show_nat (length (ob_scope b)) @ '':'' @ ob_scope b @ '':''
     @ show_nat (length (ob_resource_id b)) @ '':'' @ ob_resource_id b @ '':''
     @ show_int (ob_observed_at b)"
    by (simp only: interval_preimage_def append_same_eq)  simp
  note f1 = prefixed_field_inject [OF this]
  then have "show_nat (length (ob_scope a)) @ '':'' @ ob_scope a @ '':''
     @ show_nat (length (ob_resource_id a)) @ '':'' @ ob_resource_id a @ '':''
     @ show_int (ob_observed_at a)
     = show_nat (length (ob_scope b)) @ '':'' @ ob_scope b @ '':''
     @ show_nat (length (ob_resource_id b)) @ '':'' @ ob_resource_id b @ '':''
     @ show_int (ob_observed_at b)" by simp
  note f2 = prefixed_field_inject [OF this]
  then have "show_nat (length (ob_resource_id a)) @ '':'' @ ob_resource_id a @ '':'' @ show_int (ob_observed_at a)
     = show_nat (length (ob_resource_id b)) @ '':'' @ ob_resource_id b @ '':'' @ show_int (ob_observed_at b)"
    by simp
  note f3 = prefixed_field_inject [OF this]
  from f1 f2 f3 show "ob_meter_key a = ob_meter_key b \<and> ob_scope a = ob_scope b
     \<and> ob_resource_id a = ob_resource_id b \<and> ob_observed_at a = ob_observed_at b"
    by (simp add: show_int_inject)
qed (simp add: interval_preimage_def)

section \<open>Quantities that cannot be closed\<close>

lemma contributions_bound:
  assumes "bucket_contributions s e q w = Inr cs" "b mod w = 0" "s \<le> b" "b + w \<le> e"
  shows "uint q * w \<le> i64_max"
proof (cases "uint q = 0")
  case True
  then show ?thesis by (simp add: i64_max_def)
next
  case False
  then have pos: "0 < uint q" using uint_nonnegative [of q] by linarith
  note ex = bucket_contributions_exact [OF assms(1)]
  have amount: "amount_in b (b + w) cs = uint q * w"
    using ex(3) [of b "b + w"] ex(1) assms(2-4) by (simp add: overlap_def)
  have "\<exists>x\<in>set cs. b \<le> fst x \<and> fst x < b + w"
  proof (rule ccontr)
    assume "\<not> ?thesis"
    then have "amount_in b (b + w) cs = 0" by (intro amount_in_none) force
    with amount pos ex(1) show False by simp
  qed
  then obtain x where x: "x \<in> set cs" "b \<le> fst x" "fst x < b + w" by blast
  have "fst x = b"
    using aligned_less [OF ex(1) assms(2), of "fst x"] ex(4) [OF x(1)] x(2,3) by fastforce
  then have "(b, snd x) \<in> set cs" using x(1) by (cases x) auto
  moreover have "distinct (map fst cs)" using ex(5) by (simp add: strict_sorted_iff)
  ultimately have "amount_in b (b + w) cs = snd x"
    using ex(1,4) assms(2) by (intro amount_in_bucket) auto
  with amount ex(4) [OF x(1)] show ?thesis by simp
qed

text \<open>
  Volumes that can never be closed. An open interval that covers a whole hour bucket at a
  quantity above \<open>i64::MAX / 3600000\<close> (for the volume meter: more than about 2.56 terabytes)
  refuses every closing observation, so the volume can neither be deleted nor its usage be folded.
\<close>

theorem large_quantity_never_closes:
  assumes "load_open_interval (with_authority (ob_observed_at ob) db) ob = Some r"
    and "\<not> ob_consuming ob" "i64_max < mi_quantity r * 3600000"
    and "b mod 3600000 = 0" "mi_started_at r \<le> b" "b + 3600000 \<le> ob_observed_at ob"
  shows "\<exists>e. record_observation uuid db ob = Inl e"
proof (cases "record_observation uuid db ob")
  case (Inr db')
  let ?db1 = "with_authority (ob_observed_at ob) db"
  note r = load_open_interval_Some [OF assms(1)]
  from Inr have "record_on uuid ?db1 ob = Inr db'"
    by (auto simp: record_observation_on split: sum.splits)
  with assms(1,2) have close: "close_and_fold ?db1 r ob = Inr db'"
    by (auto simp: record_on_def apply_to_open_def split: option.splits if_splits)
  have hit: "list_ex (\<lambda>x. mi_id x = mi_id r \<and> mi_ended_at x = None) (metering_intervals ?db1)"
    using r by (auto simp: list_ex_iff)
  from close hit assms(5,6) obtain q cs where q: "u64_of_i64 (mi_quantity r) = Some q"
    and cs: "bucket_contributions (mi_started_at r) (ob_observed_at ob) q ingest_bucket_width_ms = Inr cs"
    unfolding close_and_fold_def Let_def by (auto split: option.splits sum.splits if_splits)
  have "uint q * 3600000 \<le> i64_max"
    using contributions_bound [OF cs, of b] assms(4-6) by (simp add: ingest_bucket_width_ms_def)
  with u64_of_i64_Some [OF q] assms(3) show ?thesis by simp
qed auto

definition large_open_row :: interval_row where
  "large_open_row =
     \<lparr>mi_id = ''v'', mi_meter_key = ''volume:allocated_byte_seconds'', mi_scope = ''p'',
      mi_resource = ''d'', mi_quantity = 3298534883328, mi_started_at = 36000000,
      mi_ended_at = None, mi_authority = ''o3k-lifecycle''\<rparr>"

definition large_open_db :: metering_db where
  "large_open_db =
     \<lparr>metering_authority = Some \<lparr>au_started_at = 36000000, au_last_observed = 36000000\<rparr>,
      metering_intervals = [large_open_row], metering_aggregates = []\<rparr>"

definition large_close :: meter_observation where
  "large_close =
     \<lparr>ob_meter_key = ''volume:allocated_byte_seconds'', ob_scope = ''p'', ob_resource_id = ''d'',
      ob_quantity = 0, ob_consuming = False, ob_observed_at = 43200000,
      ob_authority = ''o3k-lifecycle''\<rparr>"

theorem large_quantity_never_closes_witness:
  "observation_validate large_close = Inr () \<and> (\<exists>e. record_observation (\<lambda>_. ''v'') large_open_db large_close = Inl e)"
proof
  show "observation_validate large_close = Inr ()"
    by (simp add: observation_validate_def large_close_def meter_definition_def meter_catalog_def)
  have "load_open_interval (with_authority (ob_observed_at large_close) large_open_db) large_close = Some large_open_row"
    by (simp add: load_open_interval_def large_open_db_def large_open_row_def large_close_def in_series_def)
  then show "\<exists>e. record_observation (\<lambda>_. ''v'') large_open_db large_close = Inl e"
    by (rule large_quantity_never_closes [where b = 36000000])
      (simp_all add: large_close_def large_open_row_def i64_max_def)
qed

section \<open>Projecting lifecycle states\<close>

definition compute_instance_state_consuming :: "string \<Rightarrow> bool option" where
  "compute_instance_state_consuming observed_state =
     (let s = to_ascii_uppercase (trim observed_state) in
      if s \<in> {''ACTIVE'', ''STARTING'', ''STOPPING'', ''REBOOTING''} then Some True
      else if s \<in> {''REQUESTED'', ''BUILD'', ''SHUTOFF'', ''DELETING'', ''DELETED'', ''ERROR''}
      then Some False
      else None)"

definition producible_meters :: "bool \<Rightarrow> bool \<Rightarrow> string list" where
  "producible_meters compute_configured native_storage_configured =
     (if compute_configured then [''compute:instance_seconds''] else [])
     @ (if native_storage_configured then [''volume:allocated_byte_seconds''] else [])"

datatype metering_error = BoundsExceeded | AuthorityUnavailable | AuthorityCorrupt

definition map_kernel_error :: "kernel_error \<Rightarrow> metering_error" where
  "map_kernel_error e =
     (if e \<in> {InvalidIdentifier, InvalidScopeId, InvalidResourceId} then BoundsExceeded
      else if e = MeteringUnavailable then AuthorityUnavailable
      else AuthorityCorrupt)"

text \<open>The adapter: the clock reading \<open>now\<close> is an argument.\<close>

definition adapter_record ::
  "(string \<Rightarrow> string) \<Rightarrow> int \<Rightarrow> metering_db \<Rightarrow> string \<Rightarrow> string \<Rightarrow> string \<Rightarrow> u64 \<Rightarrow> bool
   \<Rightarrow> (kernel_error, metering_db) rust_result" where
  "adapter_record uuid now db meter_key scope resource_id quantity consuming =
     record_observation uuid db
       \<lparr>ob_meter_key = meter_key, ob_scope = scope, ob_resource_id = resource_id,
        ob_quantity = quantity, ob_consuming = consuming, ob_observed_at = now,
        ob_authority = ''o3k-lifecycle''\<rparr>"

definition observe_resource_state ::
  "(string \<Rightarrow> string) \<Rightarrow> int \<Rightarrow> metering_db \<Rightarrow> string \<Rightarrow> string \<Rightarrow> string \<Rightarrow> string
   \<Rightarrow> (kernel_error, metering_db) rust_result" where
  "observe_resource_state uuid now db kind project_id resource_id observed_state =
     (if kind \<noteq> ''compute_instance'' then Inr db
      else case compute_instance_state_consuming observed_state of
        None \<Rightarrow> Inl MeteringCorrupt
      | Some consuming \<Rightarrow>
          adapter_record uuid now db ''compute:instance_seconds'' project_id resource_id
            (if consuming then 1 else 0) consuming)"

definition observe_allocation ::
  "(string \<Rightarrow> string) \<Rightarrow> int \<Rightarrow> metering_db \<Rightarrow> string \<Rightarrow> string \<Rightarrow> string \<Rightarrow> u64 \<Rightarrow> bool
   \<Rightarrow> (kernel_error, metering_db) rust_result" where
  "observe_allocation uuid now db meter_key project_id resource_id quantity consuming =
     adapter_record uuid now db meter_key project_id resource_id
       (if consuming then quantity else 0) consuming"

definition adapter_usage ::
  "string list \<Rightarrow> int \<Rightarrow> metering_db \<Rightarrow> usage_query \<Rightarrow> (metering_error, meter_usage_report) rust_result"
  where
  "adapter_usage producible now db q =
     (if list_ex (\<lambda>k. k \<notin> set producible) (uq_meter_keys q) then Inl BoundsExceeded
      else case usage db (q\<lparr>uq_evaluated_at := now\<rparr>) of
        Inl e \<Rightarrow> Inl (map_kernel_error e)
      | Inr report \<Rightarrow> Inr report)"

text \<open>Whatever is observed, the projection preserves the books.\<close>

lemma observe_resource_state_inv:
  "metering_inv db \<Longrightarrow> observe_resource_state uuid now db k p r s = Inr db' \<Longrightarrow> metering_inv db'"
  by (auto simp: observe_resource_state_def adapter_record_def
      dest: record_observation_inv(1) split: if_splits option.splits)

lemma observe_allocation_inv:
  "metering_inv db \<Longrightarrow> observe_allocation uuid now db k p r q c = Inr db' \<Longrightarrow> metering_inv db'"
  by (auto simp: observe_allocation_def adapter_record_def dest: record_observation_inv(1))

end
