(* ===== verification/Rust_Float.thy ===== *)
theory Rust_Float
  imports Rust_Prelude
begin

text \<open>
  The part of \<open>f64\<close> the placement code uses: a \<open>u64\<close> converted to a double, multiplied by a
  ratio, rounded down and converted back. A finite double is a mantissa below \<open>2 ^ 53\<close> times a
  power of two. Products are rounded to nearest, ties to even; a product beyond the range of a
  double, which IEEE 754 makes infinite, and a subnormal one are kept exact, because the
  conversion back saturates at \<open>u64::MAX\<close> and rounds down to zero.
\<close>

datatype f64 = NaN | Infinite bool | Finite bool nat int

fun bit_length :: "nat \<Rightarrow> nat" where
  "bit_length n = (if n = 0 then 0 else Suc (bit_length (n div 2)))"

declare bit_length.simps [simp del]

text \<open>Round to 53 significant bits, to nearest, ties to even.\<close>

definition round53 :: "nat \<Rightarrow> nat" where
  "round53 n =
     (let k = bit_length n - 53;
          q = n div 2 ^ k; r = n mod 2 ^ k
      in if k = 0 then n
         else if r > 2 ^ (k - 1) \<or> r = 2 ^ (k - 1) \<and> odd q then (q + 1) * 2 ^ k else q * 2 ^ k)"

text \<open>The conversion of a finite non-negative double to a \<open>u64\<close>, after \<open>floor\<close>.\<close>

definition floor_scaled :: "nat \<Rightarrow> int \<Rightarrow> nat" where
  "floor_scaled n e = (if 0 \<le> e then n * 2 ^ nat e else n div 2 ^ nat (- e))"

definition saturate_u64 :: "nat \<Rightarrow> u64" where
  "saturate_u64 n = (if n < 2 ^ 64 then of_nat n else - 1)"

text \<open>
  \<open>(total as f64 * ratio).floor() as u64\<close>: \<open>NaN\<close> and negative values become zero; zero times
  infinity is \<open>NaN\<close>.
\<close>

definition scale_floor :: "u64 \<Rightarrow> f64 \<Rightarrow> u64" where
  "scale_floor n ratio =
     (case ratio of
        NaN \<Rightarrow> 0
      | Infinite negative \<Rightarrow> if negative \<or> n = 0 then 0 else - 1
      | Finite negative m e \<Rightarrow>
          if negative then 0
          else saturate_u64 (floor_scaled (round53 (round53 (unat n) * m)) e))"

definition one_f64 :: f64 where
  "one_f64 = Finite False 1 0"

lemma bit_length_le: "n < 2 ^ k \<Longrightarrow> bit_length n \<le> k"
proof (induction k arbitrary: n)
  case 0
  then show ?case by (simp add: bit_length.simps)
next
  case (Suc k)
  then have "n div 2 < 2 ^ k" by simp
  with Suc.IH show ?case by (subst bit_length.simps) simp
qed

lemma round53_exact: "n < 2 ^ 53 \<Longrightarrow> round53 n = n"
  using bit_length_le [of n 53] by (simp add: round53_def Let_def)

lemma scale_floor_one: "unat n < 2 ^ 53 \<Longrightarrow> scale_floor n one_f64 = n"
  by (simp add: scale_floor_def one_f64_def round53_exact floor_scaled_def saturate_u64_def)

end
