(* ===== verification/Store_Placement.thy ===== *)
theory Store_Placement
  imports Rust_Float "HOL-Library.AList" "HOL-Library.Multiset"
begin

text \<open>
  The placement repository of the store (\<open>crates/o3k-store/src/sqlite/placement.rs\<close>, over the
  tables of \<open>migrations/0017_placement.sql\<close> and \<open>0047_placement_hierarchy.sql\<close>): resource
  providers with their inventories and hierarchy, allocations, allocation intents and their
  reconciliation. Every operation is one transaction that leaves the tables alone when it
  fails. The rows of a child table that reference a parent row are kept in the parent's row
  (inventories, traits and failure domains in the provider's, amounts in the allocation's).
  \<open>Database\<close> stands for the errors SQLite itself reports. Integers are unbounded here; SQLite
  leaves the integers for floating point when a generation or a usage passes \<open>2 ^ 63\<close>.
  Lemmas: usage is exactly what is allocated, a provider's generation fences its capacity, the
  hierarchy stays acyclic, each with what the import of the legacy journal may break of it.
\<close>

section \<open>Records and tables\<close>

datatype placement_store_error =
    Database | Corrupt | PlacementProviderNotFound | PlacementStaleGeneration
  | PlacementAllocationConflict | PlacementIntentConflict

record placement_inventory =
  resource_class :: string
  total :: u64
  inv_reserved :: u64
  allocation_ratio :: f64
  used :: u64

record placement_allocation =
  pa_id :: string
  pa_provider :: string
  pa_consumer :: string
  pa_resources :: "(string \<times> u64) list"

record provider_record =
  pr_id :: string
  pr_node :: string
  pr_state :: string
  pr_generation :: u64
  pr_inventories :: "placement_inventory list"
  pr_allocations :: "placement_allocation list"
  pr_parent :: "string option"
  pr_traits :: "string list"
  pr_failure_domains :: "string list"
  pr_location :: "string option"

record inventory_row =
  ir_class :: string
  ir_total :: int
  ir_reserved :: int
  ir_ratio :: f64
  ir_used :: int

record provider_row =
  row_node :: string
  row_state :: string
  row_generation :: int
  row_inventories :: "inventory_row list"
  row_parent :: "string option"
  row_location :: "string option"
  row_traits :: "string list"
  row_failure_domains :: "string list"

record allocation_row =
  al_id :: string
  al_provider :: string
  al_consumer :: string
  al_resources :: "(string \<times> int) list"

record placement_db =
  providers :: "(string \<times> provider_row) list"
  allocations :: "allocation_row list"
  intents :: "allocation_row list"
  instances :: "(string \<times> string \<times> string) list"

definition find_provider :: "placement_db \<Rightarrow> string \<Rightarrow> provider_row option" where
  "find_provider db p = map_of (providers db) p"

definition put_provider :: "placement_db \<Rightarrow> string \<Rightarrow> provider_row \<Rightarrow> placement_db" where
  "put_provider db p r = db\<lparr>providers := AList.update p r (providers db)\<rparr>"

definition bump :: "provider_row \<Rightarrow> provider_row" where
  "bump r = r\<lparr>row_generation := row_generation r + 1\<rparr>"

definition placement_i64 :: "u64 \<Rightarrow> (placement_store_error, int) rust_result" where
  "placement_i64 w = (case i64_of_u64 w of Some i \<Rightarrow> Inr i | None \<Rightarrow> Inl Corrupt)"

definition placement_u64 :: "int \<Rightarrow> (placement_store_error, u64) rust_result" where
  "placement_u64 i = (case u64_of_i64 i of Some w \<Rightarrow> Inr w | None \<Rightarrow> Inl Corrupt)"

section \<open>Reading\<close>

definition resource_of_row :: "string \<times> int \<Rightarrow> (placement_store_error, string \<times> u64) rust_result" where
  "resource_of_row r = (case placement_u64 (snd r) of Inl e \<Rightarrow> Inl e | Inr a \<Rightarrow> Inr (fst r, a))"

definition allocation_of_row ::
  "allocation_row \<Rightarrow> (placement_store_error, placement_allocation) rust_result" where
  "allocation_of_row r =
     (case collect_results resource_of_row (sort_key fst (al_resources r)) of
        Inl e \<Rightarrow> Inl e
      | Inr rs \<Rightarrow> Inr \<lparr>pa_id = al_id r, pa_provider = al_provider r, pa_consumer = al_consumer r,
                      pa_resources = rs\<rparr>)"

definition inventory_of_row ::
  "inventory_row \<Rightarrow> (placement_store_error, placement_inventory) rust_result" where
  "inventory_of_row r =
     (case placement_u64 (ir_total r) of Inl e \<Rightarrow> Inl e | Inr t \<Rightarrow>
      case placement_u64 (ir_reserved r) of Inl e \<Rightarrow> Inl e | Inr s \<Rightarrow>
      case placement_u64 (ir_used r) of Inl e \<Rightarrow> Inl e | Inr u \<Rightarrow>
        Inr \<lparr>resource_class = ir_class r, total = t, inv_reserved = s,
             allocation_ratio = ir_ratio r, used = u\<rparr>)"

definition load_inventories ::
  "provider_row \<Rightarrow> (placement_store_error, placement_inventory list) rust_result" where
  "load_inventories r = collect_results inventory_of_row (sort_key ir_class (row_inventories r))"

definition load_allocations ::
  "placement_db \<Rightarrow> string \<Rightarrow> (placement_store_error, placement_allocation list) rust_result" where
  "load_allocations db p =
     collect_results allocation_of_row
       (sort_key al_id (filter (\<lambda>a. al_provider a = p) (allocations db)))"

definition provider_of_row ::
  "placement_db \<Rightarrow> string \<times> provider_row \<Rightarrow> (placement_store_error, provider_record) rust_result"
  where
  "provider_of_row db pr =
     (case pr of (p, r) \<Rightarrow>
      case placement_u64 (row_generation r) of Inl e \<Rightarrow> Inl e | Inr g \<Rightarrow>
      case load_inventories r of Inl e \<Rightarrow> Inl e | Inr is \<Rightarrow>
      case load_allocations db p of Inl e \<Rightarrow> Inl e | Inr as \<Rightarrow>
        Inr \<lparr>pr_id = p, pr_node = row_node r, pr_state = row_state r, pr_generation = g,
             pr_inventories = is, pr_allocations = as, pr_parent = row_parent r,
             pr_traits = sort (row_traits r), pr_failure_domains = sort (row_failure_domains r),
             pr_location = row_location r\<rparr>)"

definition get_provider ::
  "placement_db \<Rightarrow> string \<Rightarrow> (placement_store_error, provider_record option) rust_result" where
  "get_provider db p =
     (case find_provider db p of
        None \<Rightarrow> Inr None
      | Some r \<Rightarrow>
          (case provider_of_row db (p, r) of Inl e \<Rightarrow> Inl e | Inr rec \<Rightarrow> Inr (Some rec)))"

definition list_providers ::
  "placement_db \<Rightarrow> (placement_store_error, provider_record list) rust_result" where
  "list_providers db = collect_results (provider_of_row db) (sort_key fst (providers db))"

text \<open>
  The paged reads: \<open>LIMIT\<close> takes an \<open>i64\<close>, and the page of providers leaves the allocations out.
\<close>

definition page_of ::
  "placement_db \<Rightarrow> string option \<Rightarrow> u64 \<Rightarrow> (placement_store_error, (string \<times> provider_row) list) rust_result"
  where
  "page_of db after limit =
     (case i64_of_u64 limit of
        None \<Rightarrow> Inl Corrupt
      | Some n \<Rightarrow>
          Inr (take (nat n) (sort_key fst
                (filter (\<lambda>p. case after of None \<Rightarrow> True | Some a \<Rightarrow> fst p > a) (providers db)))))"

definition bare_provider_of_row ::
  "string \<times> provider_row \<Rightarrow> (placement_store_error, provider_record) rust_result" where
  "bare_provider_of_row pr = provider_of_row
     \<lparr>providers = [], allocations = [], intents = [], instances = []\<rparr> pr"

definition list_providers_bounded ::
  "placement_db \<Rightarrow> string option \<Rightarrow> u64 \<Rightarrow> (placement_store_error, provider_record list) rust_result"
  where
  "list_providers_bounded db after limit =
     (case page_of db after limit of
        Inl e \<Rightarrow> Inl e
      | Inr rows \<Rightarrow> collect_results bare_provider_of_row rows)"

definition list_provider_states ::
  "placement_db \<Rightarrow> string option \<Rightarrow> u64 \<Rightarrow> (placement_store_error, (string \<times> string) list) rust_result"
  where
  "list_provider_states db after limit =
     (case page_of db after limit of
        Inl e \<Rightarrow> Inl e
      | Inr rows \<Rightarrow> Inr (map (\<lambda>(p, r). (p, row_state r)) rows))"

text \<open>
  The operations answer a result and the database after it. The ones that return a provider read
  it back after the transaction was committed, so that a failing read keeps the change.
\<close>

type_synonym 'a placement_outcome = "(placement_store_error, 'a) rust_result \<times> placement_db"

definition read_back_provider :: "placement_db \<Rightarrow> string \<Rightarrow> provider_record placement_outcome" where
  "read_back_provider db p =
     (case get_provider db p of
        Inl e \<Rightarrow> (Inl e, db)
      | Inr None \<Rightarrow> (Inl PlacementProviderNotFound, db)
      | Inr (Some r) \<Rightarrow> (Inr r, db))"

section \<open>Inventories\<close>

definition amount_of :: "string \<Rightarrow> (string \<times> int) list \<Rightarrow> int list" where
  "amount_of c rs = map snd (filter (\<lambda>r. fst r = c) rs)"

definition allocated_amounts :: "placement_db \<Rightarrow> string \<Rightarrow> string \<Rightarrow> int list" where
  "allocated_amounts db p c =
     concat (map (\<lambda>a. amount_of c (al_resources a)) (filter (\<lambda>a. al_provider a = p) (allocations db)))"

definition recompute_used ::
  "placement_db \<Rightarrow> string \<Rightarrow> placement_inventory list \<Rightarrow> (placement_store_error, u64 list) rust_result"
  where
  "recompute_used db p invs =
     collect_results
       (\<lambda>i. case sql_sum 0 (allocated_amounts db p (resource_class i)) of
              None \<Rightarrow> Inl Database
            | Some s \<Rightarrow> placement_u64 s) invs"

text \<open>
  The inserts fail on a value that does not fit, on a class that is listed twice and on a ratio
  that is no number, which SQLite stores as \<open>NULL\<close>.
\<close>

fun insert_inventories ::
  "inventory_row list \<Rightarrow> (placement_inventory \<times> u64) list
     \<Rightarrow> (placement_store_error, inventory_row list) rust_result" where
  "insert_inventories rows [] = Inr rows"
| "insert_inventories rows ((i, u) # rest) =
     (case placement_i64 (total i) of Inl e \<Rightarrow> Inl e | Inr t \<Rightarrow>
      case placement_i64 (inv_reserved i) of Inl e \<Rightarrow> Inl e | Inr s \<Rightarrow>
      case placement_i64 u of Inl e \<Rightarrow> Inl e | Inr v \<Rightarrow>
        if allocation_ratio i = NaN \<or> resource_class i \<in> ir_class ` set rows then Inl Database
        else insert_inventories
               (rows @ [\<lparr>ir_class = resource_class i, ir_total = t, ir_reserved = s,
                         ir_ratio = allocation_ratio i, ir_used = v\<rparr>]) rest)"

definition replace_inventories ::
  "provider_row \<Rightarrow> placement_inventory list \<Rightarrow> u64 list
     \<Rightarrow> (placement_store_error, provider_row) rust_result" where
  "replace_inventories r invs us =
     (case insert_inventories [] (zip invs us) of
        Inl e \<Rightarrow> Inl e
      | Inr rows \<Rightarrow> Inr (r\<lparr>row_inventories := rows\<rparr>))"

definition refresh_row ::
  "placement_db \<Rightarrow> string \<Rightarrow> provider_row \<Rightarrow> placement_inventory list
     \<Rightarrow> (placement_store_error, provider_row) rust_result" where
  "refresh_row db p r invs =
     (case recompute_used db p invs of Inl e \<Rightarrow> Inl e | Inr us \<Rightarrow> replace_inventories r invs us)"

definition new_provider :: "string \<Rightarrow> string \<Rightarrow> provider_row" where
  "new_provider node state =
     \<lparr>row_node = node, row_state = state, row_generation = 0, row_inventories = [],
      row_parent = None, row_location = None, row_traits = [], row_failure_domains = []\<rparr>"

text \<open>
  \<open>INSERT OR IGNORE\<close>: the row that is there, or a new one at generation zero; no row, when another
  provider has the node (\<open>node_id\<close> is unique and the conflict is ignored). Then the first inventory
  violates the foreign key, and without inventories the transaction goes through on no row.
\<close>

definition ensure_provider :: "placement_db \<Rightarrow> string \<Rightarrow> string \<Rightarrow> provider_row option" where
  "ensure_provider db node state =
     (case find_provider db node of
        Some r \<Rightarrow> Some r
      | None \<Rightarrow>
          if node \<in> row_node ` snd ` set (providers db) then None else Some (new_provider node state))"

definition rowless_error ::
  "placement_db \<Rightarrow> string \<Rightarrow> placement_inventory list \<Rightarrow> placement_store_error \<Rightarrow> placement_store_error"
  where
  "rowless_error db p invs missing =
     (case recompute_used db p invs of
        Inl e \<Rightarrow> e
      | Inr us \<Rightarrow>
          (case insert_inventories [] (take 1 (zip invs us)) of
             Inl e \<Rightarrow> e
           | Inr rows \<Rightarrow> if rows = [] then missing else Database))"

definition register_provider ::
  "placement_db \<Rightarrow> string \<Rightarrow> placement_inventory list \<Rightarrow> provider_record placement_outcome" where
  "register_provider db node invs =
     (case ensure_provider db node ''Enabled'' of
        None \<Rightarrow> (Inl (rowless_error db node invs PlacementProviderNotFound), db)
      | Some r0 \<Rightarrow>
          (case refresh_row db node r0 invs of
             Inl e \<Rightarrow> (Inl e, db)
           | Inr r \<Rightarrow> read_back_provider (put_provider db node (bump r)) node))"

definition synced_state :: "string \<Rightarrow> string \<Rightarrow> string" where
  "synced_state old new =
     (if old \<in> {''Draining'', ''Deleted''} \<and> new = ''Enabled'' then old else new)"

definition sync_provider ::
  "placement_db \<Rightarrow> string \<Rightarrow> string \<Rightarrow> placement_inventory list \<Rightarrow> provider_record placement_outcome"
  where
  "sync_provider db node state invs =
     (if state = [] then (Inl Corrupt, db)
      else case ensure_provider db node state of
             None \<Rightarrow> (Inl (rowless_error db node invs PlacementProviderNotFound), db)
           | Some r0 \<Rightarrow>
               (case refresh_row db node (r0\<lparr>row_state := synced_state (row_state r0) state\<rparr>) invs of
                  Inl e \<Rightarrow> (Inl e, db)
                | Inr r \<Rightarrow> read_back_provider (put_provider db node (bump r)) node))"

definition refresh_inventories ::
  "placement_db \<Rightarrow> string \<Rightarrow> u64 \<Rightarrow> placement_inventory list \<Rightarrow> provider_record placement_outcome"
  where
  "refresh_inventories db p expected invs =
     (case find_provider db p of
        None \<Rightarrow> (Inl PlacementProviderNotFound, db)
      | Some r0 \<Rightarrow>
          (case placement_i64 expected of Inl e \<Rightarrow> (Inl e, db) | Inr g \<Rightarrow>
           if row_generation r0 \<noteq> g then (Inl PlacementStaleGeneration, db)
           else case refresh_row db p (bump r0) invs of
                  Inl e \<Rightarrow> (Inl e, db)
                | Inr r \<Rightarrow> read_back_provider (put_provider db p r) p))"

definition set_provider_state :: "placement_db \<Rightarrow> string \<Rightarrow> string \<Rightarrow> unit placement_outcome" where
  "set_provider_state db p state =
     (if state = [] then (Inl Corrupt, db)
      else case find_provider db p of
             None \<Rightarrow> (Inl PlacementProviderNotFound, db)
           | Some r \<Rightarrow> (Inr (), put_provider db p (bump (r\<lparr>row_state := state\<rparr>))))"

section \<open>Hierarchy\<close>

text \<open>
  The walk along the parents that both metadata operations make before they write: at most 64
  steps, no identifier twice, and not the provider itself. \<open>None\<close>: the chain ended.
\<close>

fun walk_parents ::
  "nat \<Rightarrow> (string \<times> provider_row) list \<Rightarrow> string \<Rightarrow> string set \<Rightarrow> string option
     \<Rightarrow> placement_store_error option" where
  "walk_parents 0 ps self seen cursor = (case cursor of None \<Rightarrow> None | Some _ \<Rightarrow> Some Corrupt)"
| "walk_parents (Suc n) ps self seen cursor =
     (case cursor of
        None \<Rightarrow> None
      | Some i \<Rightarrow>
          if i \<in> seen \<or> i = self then Some Corrupt
          else walk_parents n ps self (insert i seen)
                 (case map_of ps i of None \<Rightarrow> None | Some r \<Rightarrow> row_parent r))"

definition set_metadata ::
  "provider_row \<Rightarrow> string option \<Rightarrow> string list \<Rightarrow> string list \<Rightarrow> string option \<Rightarrow> provider_row" where
  "set_metadata r parent traits domains location =
     r\<lparr>row_parent := parent, row_location := location, row_traits := sort (remdups traits),
       row_failure_domains := sort (remdups domains)\<rparr>"

definition parent_check ::
  "placement_db \<Rightarrow> string \<Rightarrow> string option \<Rightarrow> placement_store_error option" where
  "parent_check db p parent =
     (if parent \<noteq> None \<and> find_provider db (the parent) = None then Some PlacementProviderNotFound
      else walk_parents 64 (providers db) p {} parent)"

definition register_provider_metadata ::
  "placement_db \<Rightarrow> string \<Rightarrow> placement_inventory list \<Rightarrow> string option \<Rightarrow> string list \<Rightarrow> string list
     \<Rightarrow> string option \<Rightarrow> provider_record placement_outcome" where
  "register_provider_metadata db node invs parent traits domains location =
     (if parent = Some node \<or> list_ex (\<lambda>v. trim v = []) traits then (Inl Corrupt, db)
      else case ensure_provider db node ''Enabled'' of
             None \<Rightarrow> (Inl (rowless_error db node invs Database), db)
           | Some row \<Rightarrow>
           case refresh_row db node row invs of
             Inl e \<Rightarrow> (Inl e, db)
           | Inr r0 \<Rightarrow>
               let r = bump r0; db1 = put_provider db node r in
               (case placement_u64 (row_generation r) of Inl e \<Rightarrow> (Inl e, db) | Inr _ \<Rightarrow>
                case parent_check db1 node parent of
                  Some e \<Rightarrow> (Inl e, db)
                | None \<Rightarrow>
                    read_back_provider
                      (put_provider db1 node (bump (set_metadata r parent traits domains location)))
                      node))"

definition update_provider_metadata ::
  "placement_db \<Rightarrow> string \<Rightarrow> u64 \<Rightarrow> string option \<Rightarrow> string list \<Rightarrow> string list \<Rightarrow> string option
     \<Rightarrow> provider_record placement_outcome" where
  "update_provider_metadata db p expected parent traits domains location =
     (if parent = Some p \<or> list_ex (\<lambda>v. trim v = []) traits then (Inl Corrupt, db)
      else case find_provider db p of
             None \<Rightarrow> (Inl PlacementProviderNotFound, db)
           | Some r \<Rightarrow>
               if u64_of_i64 (row_generation r) \<noteq> Some expected then (Inl PlacementStaleGeneration, db)
               else case parent_check db p parent of
                      Some e \<Rightarrow> (Inl e, db)
                    | None \<Rightarrow>
                        (case placement_i64 expected of Inl e \<Rightarrow> (Inl e, db) | Inr _ \<Rightarrow>
                           read_back_provider
                             (put_provider db p (bump (set_metadata r parent traits domains location)))
                             p))"

section \<open>Allocations\<close>

definition validate_allocation :: "placement_allocation \<Rightarrow> bool" where
  "validate_allocation a \<longleftrightarrow>
     pa_id a \<noteq> [] \<and> pa_provider a \<noteq> [] \<and> pa_consumer a \<noteq> [] \<and> pa_resources a \<noteq> []
     \<and> \<not> list_ex (\<lambda>r. snd r = 0) (pa_resources a)"

definition load_allocation ::
  "placement_db \<Rightarrow> string \<Rightarrow> (placement_store_error, placement_allocation option) rust_result" where
  "load_allocation db i =
     (case find (\<lambda>a. al_id a = i) (allocations db) of
        None \<Rightarrow> Inr None
      | Some r \<Rightarrow> (case allocation_of_row r of Inl e \<Rightarrow> Inl e | Inr a \<Rightarrow> Inr (Some a)))"

definition add_used :: "string \<Rightarrow> int \<Rightarrow> provider_row \<Rightarrow> provider_row" where
  "add_used c n r =
     r\<lparr>row_inventories := map (\<lambda>i. if ir_class i = c then i\<lparr>ir_used := ir_used i + n\<rparr> else i)
        (row_inventories r)\<rparr>"

fun add_all_used ::
  "(string \<times> u64) list \<Rightarrow> provider_row \<Rightarrow> (placement_store_error, provider_row) rust_result" where
  "add_all_used [] r = Inr r"
| "add_all_used ((c, a) # rest) r =
     (case placement_i64 a of Inl e \<Rightarrow> Inl e | Inr n \<Rightarrow> add_all_used rest (add_used c n r))"

text \<open>The amounts of an allocation; a class that is listed twice violates the primary key.\<close>

fun resource_rows ::
  "(string \<times> int) list \<Rightarrow> (string \<times> u64) list
     \<Rightarrow> (placement_store_error, (string \<times> int) list) rust_result" where
  "resource_rows rows [] = Inr rows"
| "resource_rows rows ((c, a) # rest) =
     (case placement_i64 a of
        Inl e \<Rightarrow> Inl e
      | Inr n \<Rightarrow> if c \<in> fst ` set rows then Inl Database else resource_rows (rows @ [(c, n)]) rest)"

definition commit_allocation ::
  "placement_db \<Rightarrow> string \<Rightarrow> u64 \<Rightarrow> placement_allocation \<Rightarrow> placement_allocation placement_outcome"
  where
  "commit_allocation db p expected a =
     (if \<not> validate_allocation a then (Inl Corrupt, db)
      else case load_allocation db (pa_id a) of
        Inl e \<Rightarrow> (Inl e, db)
      | Inr (Some existing) \<Rightarrow>
          if existing = a then (Inr existing, db) else (Inl PlacementAllocationConflict, db)
      | Inr None \<Rightarrow>
          (case find_provider db p of None \<Rightarrow> (Inl PlacementProviderNotFound, db) | Some r \<Rightarrow>
           case placement_i64 expected of Inl e \<Rightarrow> (Inl e, db) | Inr g \<Rightarrow>
           if row_generation r \<noteq> g then (Inl PlacementStaleGeneration, db)
           else case add_all_used (pa_resources a) (bump r) of Inl e \<Rightarrow> (Inl e, db) | Inr r' \<Rightarrow>
                let db1 = put_provider db p r' in
                if find_provider db1 (pa_provider a) = None then (Inl Database, db)
                else case resource_rows [] (pa_resources a) of Inl e \<Rightarrow> (Inl e, db) | Inr rows \<Rightarrow>
                  (Inr a, db1\<lparr>allocations := allocations db1 @
                     [\<lparr>al_id = pa_id a, al_provider = pa_provider a, al_consumer = pa_consumer a,
                       al_resources = rows\<rparr>]\<rparr>)))"

definition sub_used :: "string \<Rightarrow> int \<Rightarrow> provider_row \<Rightarrow> provider_row" where
  "sub_used c n r =
     r\<lparr>row_inventories :=
        map (\<lambda>i. if ir_class i = c then i\<lparr>ir_used := max (ir_used i - n) 0\<rparr> else i)
          (row_inventories r)\<rparr>"

fun sub_all_used ::
  "(string \<times> u64) list \<Rightarrow> provider_row \<Rightarrow> (placement_store_error, provider_row) rust_result" where
  "sub_all_used [] r = Inr r"
| "sub_all_used ((c, a) # rest) r =
     (case placement_i64 a of Inl e \<Rightarrow> Inl e | Inr n \<Rightarrow> sub_all_used rest (sub_used c n r))"

definition release_allocation :: "placement_db \<Rightarrow> string \<Rightarrow> string \<Rightarrow> unit placement_outcome" where
  "release_allocation db p i =
     (case find_provider db p of
        None \<Rightarrow> (Inl PlacementProviderNotFound, db)
      | Some r \<Rightarrow>
          (case find (\<lambda>a. al_id a = i \<and> al_provider a = p) (allocations db) of
             None \<Rightarrow> (Inr (), db)
           | Some row \<Rightarrow>
               (case allocation_of_row row of Inl e \<Rightarrow> (Inl e, db) | Inr a \<Rightarrow>
                case sub_all_used (pa_resources a) r of Inl e \<Rightarrow> (Inl e, db) | Inr r' \<Rightarrow>
                  (Inr (), (put_provider db p (bump r'))
                     \<lparr>allocations := filter (\<lambda>a. \<not> (al_id a = i \<and> al_provider a = p))
                                      (allocations db)\<rparr>))))"

section \<open>Intents\<close>

fun ignore_resources ::
  "(string \<times> int) list \<Rightarrow> (string \<times> u64) list
     \<Rightarrow> (placement_store_error, (string \<times> int) list) rust_result" where
  "ignore_resources rows [] = Inr rows"
| "ignore_resources rows ((c, a) # rest) =
     (case placement_i64 a of
        Inl e \<Rightarrow> Inl e
      | Inr n \<Rightarrow> ignore_resources (if c \<in> fst ` set rows then rows else rows @ [(c, n)]) rest)"

definition upsert_intent ::
  "placement_db \<Rightarrow> placement_allocation \<Rightarrow> placement_allocation placement_outcome" where
  "upsert_intent db a =
     (if \<not> validate_allocation a then (Inl Corrupt, db)
      else let old = find (\<lambda>r. al_id r = pa_id a) (intents db) in
           if old = None \<and> find_provider db (pa_provider a) = None then (Inl Database, db)
           else let row0 = (case old of
                      Some r \<Rightarrow> r
                    | None \<Rightarrow> \<lparr>al_id = pa_id a, al_provider = pa_provider a,
                              al_consumer = pa_consumer a, al_resources = []\<rparr>)
                in (case ignore_resources (al_resources row0) (pa_resources a) of
                      Inl e \<Rightarrow> (Inl e, db)
                    | Inr rows \<Rightarrow>
                        let row = row0\<lparr>al_resources := rows\<rparr> in
                        (case allocation_of_row row of
                           Inl e \<Rightarrow> (Inl e, db)
                         | Inr stored \<Rightarrow>
                             if stored \<noteq> a then (Inl PlacementIntentConflict, db)
                             else (Inr stored, db\<lparr>intents :=
                               (if old = None then intents db @ [row]
                                else map (\<lambda>r. if al_id r = pa_id a then row else r) (intents db))\<rparr>))))"

definition get_intent ::
  "placement_db \<Rightarrow> string \<Rightarrow> (placement_store_error, placement_allocation option) rust_result" where
  "get_intent db i =
     (case find (\<lambda>a. al_id a = i) (intents db) of
        None \<Rightarrow> Inr None
      | Some r \<Rightarrow> (case allocation_of_row r of Inl e \<Rightarrow> Inl e | Inr a \<Rightarrow> Inr (Some a)))"

definition list_intents ::
  "placement_db \<Rightarrow> (placement_store_error, placement_allocation list) rust_result" where
  "list_intents db = collect_results allocation_of_row (sort_key al_id (intents db))"

definition delete_intent :: "placement_db \<Rightarrow> string \<Rightarrow> placement_db" where
  "delete_intent db i = db\<lparr>intents := filter (\<lambda>a. al_id a \<noteq> i) (intents db)\<rparr>"

section \<open>Reconciliation\<close>

text \<open>
  The consumers that are alive: the caller's list and the compute instances that are durable
  inside the transaction.
\<close>

definition live_consumers :: "placement_db \<Rightarrow> string list \<Rightarrow> string list" where
  "live_consumers db durable =
     durable @ map fst (filter (\<lambda>r. fst (snd r) = ''compute_instance'' \<and> snd (snd r) \<noteq> ''DELETED'')
                          (instances db))"

text \<open>The usage of one provider, class by class, from the allocations that are left.\<close>

definition reset_used ::
  "placement_db \<Rightarrow> string \<Rightarrow> inventory_row list
     \<Rightarrow> (placement_store_error, inventory_row list) rust_result" where
  "reset_used db p is =
     collect_results
       (\<lambda>i. case sql_sum 0 (allocated_amounts db p (ir_class i)) of
              None \<Rightarrow> Inl Database
            | Some s \<Rightarrow> Inr (i\<lparr>ir_used := s\<rparr>)) is"

definition affected_providers :: "placement_allocation list \<Rightarrow> string list" where
  "affected_providers orphaned =
     foldl (\<lambda>ps a. if pa_provider a \<in> set ps then ps else ps @ [pa_provider a]) [] orphaned"

fun reset_providers ::
  "placement_db \<Rightarrow> string list \<Rightarrow> (placement_store_error, placement_db) rust_result" where
  "reset_providers db [] = Inr db"
| "reset_providers db (p # ps) =
     (case find_provider db p of
        None \<Rightarrow> reset_providers db ps
      | Some r \<Rightarrow>
          (case reset_used db p (row_inventories r) of
             Inl e \<Rightarrow> Inl e
           | Inr is \<Rightarrow>
               reset_providers (put_provider db p (bump (r\<lparr>row_inventories := is\<rparr>))) ps))"

record reconcile_record =
  orphaned_allocations :: "placement_allocation list"
  abandoned_intents :: "placement_allocation list"

definition reconcile_consumers ::
  "placement_db \<Rightarrow> string list \<Rightarrow> reconcile_record placement_outcome" where
  "reconcile_consumers db durable =
     (case collect_results allocation_of_row (sort_key al_id (allocations db)) of
        Inl e \<Rightarrow> (Inl e, db)
      | Inr as \<Rightarrow>
      case collect_results allocation_of_row (sort_key al_id (intents db)) of
        Inl e \<Rightarrow> (Inl e, db)
      | Inr ts \<Rightarrow>
      let dead = (\<lambda>a. pa_consumer a \<notin> set (live_consumers db durable));
          orphaned = filter dead as; abandoned = filter dead ts;
          db1 = db\<lparr>allocations := filter (\<lambda>a. al_id a \<notin> pa_id ` set orphaned) (allocations db)\<rparr>
      in (case reset_providers db1 (affected_providers orphaned) of
            Inl e \<Rightarrow> (Inl e, db)
          | Inr db2 \<Rightarrow>
              (Inr \<lparr>orphaned_allocations = orphaned, abandoned_intents = abandoned\<rparr>,
               db2\<lparr>intents := filter (\<lambda>a. al_id a \<notin> pa_id ` set abandoned) (intents db2)\<rparr>)))"

section \<open>Import\<close>

fun import_allocations ::
  "placement_db \<Rightarrow> placement_allocation list \<Rightarrow> (placement_store_error, placement_db) rust_result"
  where
  "import_allocations db [] = Inr db"
| "import_allocations db (a # as) =
     (if pa_id a \<in> al_id ` set (allocations db) then import_allocations db as
      else if find_provider db (pa_provider a) = None then Inl Database
      else case resource_rows [] (pa_resources a) of
             Inl e \<Rightarrow> Inl e
           | Inr rows \<Rightarrow>
               import_allocations
                 (db\<lparr>allocations := allocations db @
                    [\<lparr>al_id = pa_id a, al_provider = pa_provider a, al_consumer = pa_consumer a,
                      al_resources = rows\<rparr>]\<rparr>) as)"

text \<open>
  The import of a provider from the legacy journal: an existing row keeps its state and its
  generation, its inventories are replaced with the ones of the journal, its allocations are
  kept and completed. A parent that is no provider violates the foreign key, as do a trait or
  a failure domain that is listed twice.
\<close>

definition import_ensure :: "placement_db \<Rightarrow> provider_record \<Rightarrow> int \<Rightarrow> provider_row option" where
  "import_ensure db p g =
     (case find_provider db (pr_id p) of
        Some r \<Rightarrow> Some r
      | None \<Rightarrow>
          if pr_node p \<in> row_node ` snd ` set (providers db) then None
          else Some ((new_provider (pr_node p) (pr_state p))\<lparr>row_generation := g\<rparr>))"

definition import_provider :: "placement_db \<Rightarrow> provider_record \<Rightarrow> unit placement_outcome" where
  "import_provider db p =
     (case placement_i64 (pr_generation p) of Inl e \<Rightarrow> (Inl e, db) | Inr g \<Rightarrow>
      let invs = map (\<lambda>i. (i, used i)) (pr_inventories p)
      in (case import_ensure db p g of
            None \<Rightarrow>
              if pr_traits p \<noteq> [] \<or> pr_failure_domains p \<noteq> [] then (Inl Database, db)
              else (case insert_inventories [] (take 1 invs) of Inl e \<Rightarrow> (Inl e, db) | Inr rows \<Rightarrow>
                    if rows \<noteq> [] then (Inl Database, db)
                    else case import_allocations db (pr_allocations p) of
                           Inl e \<Rightarrow> (Inl e, db)
                         | Inr db2 \<Rightarrow> (Inr (), db2))
          | Some r0 \<Rightarrow>
              let r1 = r0\<lparr>row_parent := pr_parent p, row_location := pr_location p,
                         row_traits := pr_traits p, row_failure_domains := pr_failure_domains p\<rparr>;
                  db1 = put_provider db (pr_id p) r1
              in if pr_parent p \<noteq> None \<and> find_provider db1 (the (pr_parent p)) = None
                 then (Inl Database, db)
                 else if \<not> distinct (pr_traits p) \<or> \<not> distinct (pr_failure_domains p)
                 then (Inl Database, db)
                 else case insert_inventories [] invs of
                        Inl e \<Rightarrow> (Inl e, db)
                      | Inr rows \<Rightarrow>
                          (case import_allocations
                                  (put_provider db1 (pr_id p) (r1\<lparr>row_inventories := rows\<rparr>))
                                  (pr_allocations p) of
                             Inl e \<Rightarrow> (Inl e, db)
                           | Inr db2 \<Rightarrow> (Inr (), db2))))"

section \<open>Runs of the repository\<close>

text \<open>
  The writing operations as one machine. A commit names the provider that its allocation names,
  as the ledger calls it; the instances are rows of another table that changes underneath. A
  second machine adds the import, which runs before the ledger is open and takes part in no race.
\<close>

datatype placement_op =
    OpRegister string "placement_inventory list"
  | OpRegisterMetadata string "placement_inventory list" "string option" "string list"
      "string list" "string option"
  | OpUpdateMetadata string u64 "string option" "string list" "string list" "string option"
  | OpSync string string "placement_inventory list"
  | OpRefresh string u64 "placement_inventory list"
  | OpSetState string string
  | OpCommit u64 placement_allocation
  | OpRelease string string
  | OpUpsertIntent placement_allocation
  | OpDeleteIntent string
  | OpReconcile "string list"
  | OpInstances "(string \<times> string \<times> string) list"

fun placement_next :: "placement_db \<Rightarrow> placement_op \<Rightarrow> placement_db" where
  "placement_next db (OpRegister n is) = snd (register_provider db n is)"
| "placement_next db (OpRegisterMetadata n is p ts ds l) =
     snd (register_provider_metadata db n is p ts ds l)"
| "placement_next db (OpUpdateMetadata q g p ts ds l) =
     snd (update_provider_metadata db q g p ts ds l)"
| "placement_next db (OpSync n s is) = snd (sync_provider db n s is)"
| "placement_next db (OpRefresh p g is) = snd (refresh_inventories db p g is)"
| "placement_next db (OpSetState p s) = snd (set_provider_state db p s)"
| "placement_next db (OpCommit g a) = snd (commit_allocation db (pa_provider a) g a)"
| "placement_next db (OpRelease p i) = snd (release_allocation db p i)"
| "placement_next db (OpUpsertIntent a) = snd (upsert_intent db a)"
| "placement_next db (OpDeleteIntent i) = delete_intent db i"
| "placement_next db (OpReconcile ds) = snd (reconcile_consumers db ds)"
| "placement_next db (OpInstances rs) = db\<lparr>instances := rs\<rparr>"

definition placement_step ::
  "placement_db \<Rightarrow> placement_op \<Rightarrow> (placement_store_error, placement_db) rust_result" where
  "placement_step db x = Inr (placement_next db x)"

datatype repository_op = Writing placement_op | Importing provider_record

fun repository_step ::
  "placement_db \<Rightarrow> repository_op \<Rightarrow> (placement_store_error, placement_db) rust_result" where
  "repository_step db (Writing x) = placement_step db x"
| "repository_step db (Importing q) = Inr (snd (import_provider db q))"

text \<open>
  The providers that the imports of a run name: the ones whose row they write, and with those
  the ones whose allocations they complete.
\<close>

fun import_written :: "repository_op list \<Rightarrow> string set" where
  "import_written [] = {}"
| "import_written (Writing x # xs) = import_written xs"
| "import_written (Importing q # xs) = insert (pr_id q) (import_written xs)"

fun import_touched :: "repository_op list \<Rightarrow> string set" where
  "import_touched [] = {}"
| "import_touched (Writing x # xs) = import_touched xs"
| "import_touched (Importing q # xs) = insert (pr_id q) (pa_provider ` set (pr_allocations q)) \<union> import_touched xs"

section \<open>Tables\<close>

lemma find_provider_put [simp]:
  "find_provider (put_provider db p r) q = (if q = p then Some r else find_provider db q)"
  by (simp add: find_provider_def put_provider_def update_conv')

lemma put_provider_fields [simp]:
  "allocations (put_provider db p r) = allocations db"
  "intents (put_provider db p r) = intents db"
  "instances (put_provider db p r) = instances db"
  by (simp_all add: put_provider_def)

lemma find_provider_fields [simp]:
  "find_provider (db\<lparr>allocations := as\<rparr>) p = find_provider db p"
  "find_provider (db\<lparr>intents := ts\<rparr>) p = find_provider db p"
  "find_provider (db\<lparr>instances := ns\<rparr>) p = find_provider db p"
  by (simp_all add: find_provider_def)

lemma allocated_amounts_fields [simp]:
  "allocated_amounts (put_provider db q r) p c = allocated_amounts db p c"
  "allocated_amounts (db\<lparr>intents := ts\<rparr>) p c = allocated_amounts db p c"
  "allocated_amounts (db\<lparr>instances := ns\<rparr>) p c = allocated_amounts db p c"
  by (simp_all add: allocated_amounts_def)

lemma bump_fields [simp]:
  "row_generation (bump r) = row_generation r + 1" "row_state (bump r) = row_state r"
  "row_inventories (bump r) = row_inventories r" "row_parent (bump r) = row_parent r"
  by (simp_all add: bump_def)

lemma set_metadata_fields [simp]:
  "row_generation (set_metadata r p ts ds l) = row_generation r"
  "row_state (set_metadata r p ts ds l) = row_state r"
  "row_inventories (set_metadata r p ts ds l) = row_inventories r"
  "row_parent (set_metadata r p ts ds l) = p"
  by (simp_all add: set_metadata_def)

lemma read_back_provider_snd [simp]: "snd (read_back_provider db p) = db"
  by (auto simp: read_back_provider_def split: sum.splits option.splits)

lemma new_provider_fields [simp]:
  "row_generation (new_provider n s) = 0" "row_inventories (new_provider n s) = []"
  "row_parent (new_provider n s) = None"
  by (simp_all add: new_provider_def)

lemma add_used_fields [simp]:
  "row_generation (add_used c n r) = row_generation r" "row_parent (add_used c n r) = row_parent r"
  by (simp_all add: add_used_def)

lemma sub_used_fields [simp]:
  "row_generation (sub_used c n r) = row_generation r" "row_parent (sub_used c n r) = row_parent r"
  by (simp_all add: sub_used_def)

lemma add_all_used_fields:
  "add_all_used rs r = Inr r' \<Longrightarrow> row_generation r' = row_generation r \<and> row_parent r' = row_parent r"
  by (induction rs r rule: add_all_used.induct) (auto split: sum.splits)

lemma sub_all_used_fields:
  "sub_all_used rs r = Inr r' \<Longrightarrow> row_generation r' = row_generation r \<and> row_parent r' = row_parent r"
  by (induction rs r rule: sub_all_used.induct) (auto split: sum.splits)

lemma refresh_row_fields:
  "refresh_row db p r invs = Inr r' \<Longrightarrow>
   row_generation r' = row_generation r \<and> row_parent r' = row_parent r \<and> row_state r' = row_state r"
  by (auto simp: refresh_row_def replace_inventories_def split: sum.splits)

section \<open>Generations fence the capacity\<close>

text \<open>A row may only move forward, and at the same generation it offers the same.\<close>

definition row_le :: "provider_row \<Rightarrow> provider_row \<Rightarrow> bool" where
  "row_le r r' \<longleftrightarrow>
     row_generation r \<le> row_generation r'
     \<and> (row_generation r = row_generation r' \<longrightarrow>
          row_state r' = row_state r \<and> row_inventories r' = row_inventories r)"

definition fenced :: "placement_db \<Rightarrow> placement_db \<Rightarrow> bool" where
  "fenced db db' \<longleftrightarrow>
     (\<forall>p r. find_provider db p = Some r \<longrightarrow> (\<exists>r'. find_provider db' p = Some r' \<and> row_le r r'))"

lemma row_le_refl [simp]: "row_le r r"
  by (simp add: row_le_def)

lemma row_le_trans: "row_le r s \<Longrightarrow> row_le s t \<Longrightarrow> row_le r t"
  by (auto simp: row_le_def)

lemma row_le_bump: "row_generation r < row_generation r' \<Longrightarrow> row_le r r'"
  by (simp add: row_le_def)

lemma fenced_refl [simp]: "fenced db db"
  by (auto simp: fenced_def)

lemma fenced_trans: "fenced a b \<Longrightarrow> fenced b c \<Longrightarrow> fenced a c"
  unfolding fenced_def by (meson row_le_trans)

lemma fenced_same: "(\<And>p. find_provider db' p = find_provider db p) \<Longrightarrow> fenced db db'"
  by (auto simp: fenced_def)

lemma fenced_put:
  "(\<And>r0. find_provider db p = Some r0 \<Longrightarrow> row_le r0 r) \<Longrightarrow> fenced db (put_provider db p r)"
  by (auto simp: fenced_def)

lemma reset_providers_Cons:
  "reset_providers db (p # ps) = Inr db' \<longleftrightarrow>
     (case find_provider db p of
        None \<Rightarrow> reset_providers db ps = Inr db'
      | Some r \<Rightarrow> \<exists>is. reset_used db p (row_inventories r) = Inr is
          \<and> reset_providers (put_provider db p (bump (r\<lparr>row_inventories := is\<rparr>))) ps = Inr db')"
  by (auto split: option.splits sum.splits)

lemma fenced_reset_providers: "reset_providers db ps = Inr db' \<Longrightarrow> fenced db db'"
proof (induction ps arbitrary: db)
  case (Cons p ps)
  show ?case
  proof (cases "find_provider db p")
    case None
    then show ?thesis using Cons by simp
  next
    case (Some r)
    then obtain "is" where i:
      "reset_providers (put_provider db p (bump (r\<lparr>row_inventories := is\<rparr>))) ps = Inr db'"
      using Cons.prems unfolding reset_providers_Cons by auto
    have "fenced db (put_provider db p (bump (r\<lparr>row_inventories := is\<rparr>)))"
      using Some by (intro fenced_put) (simp add: row_le_bump)
    then show ?thesis using Cons.IH [OF i] by (rule fenced_trans)
  qed
qed simp

declare reset_providers.simps(2) [simp del]

lemma fenced_refreshed:
  assumes "refresh_row db p r0 invs = Inr r"
    and "\<And>r1. find_provider db p = Some r1 \<Longrightarrow> row_generation r1 \<le> row_generation r0"
  shows "fenced db (put_provider db p (bump r))"
  using assms(2) refresh_row_fields [OF assms(1)] by (intro fenced_put row_le_bump) force

lemma ensure_provider_Some:
  "ensure_provider db n s = Some r \<Longrightarrow> find_provider db n = Some r \<or>
     find_provider db n = None \<and> r = new_provider n s"
  by (auto simp: ensure_provider_def split: option.splits if_splits)

lemma fenced_register: "fenced db (snd (register_provider db n invs))"
  by (auto simp: register_provider_def split: sum.splits option.splits
      dest!: ensure_provider_Some intro: fenced_refreshed)

lemma fenced_sync: "fenced db (snd (sync_provider db n s invs))"
  by (auto simp: sync_provider_def split: sum.splits option.splits
      dest!: ensure_provider_Some intro: fenced_refreshed)

lemma fenced_refresh: "fenced db (snd (refresh_inventories db p g invs))"
  by (auto simp: refresh_inventories_def split: sum.splits option.splits
      dest!: refresh_row_fields intro!: fenced_put row_le_bump)

lemma fenced_set_state: "fenced db (snd (set_provider_state db p s))"
  by (auto simp: set_provider_state_def split: option.splits intro!: fenced_put row_le_bump)

lemma fenced_update_metadata: "fenced db (snd (update_provider_metadata db q g p ts ds l))"
  by (auto simp: update_provider_metadata_def split: sum.splits option.splits
      intro!: fenced_put row_le_bump)

lemma fenced_register_metadata: "fenced db (snd (register_provider_metadata db n invs p ts ds l))"
proof -
  have "fenced db (put_provider (put_provider db n (bump r)) n (bump (set_metadata (bump r) p ts ds l)))"
    if "ensure_provider db n ''Enabled'' = Some r0" "refresh_row db n r0 invs = Inr r" for r0 r
    using refresh_row_fields [OF that(2)] ensure_provider_Some [OF that(1)]
    by (intro fenced_trans [OF fenced_refreshed [OF that(2)]] fenced_put row_le_bump) auto
  then show ?thesis
    by (auto simp: register_provider_metadata_def Let_def split: sum.splits option.splits)
qed

lemma fenced_commit: "fenced db (snd (commit_allocation db p g a))"
  by (auto simp: commit_allocation_def Let_def split: sum.splits option.splits
      dest!: add_all_used_fields intro!: fenced_trans [OF fenced_put fenced_same] row_le_bump)

lemma fenced_release: "fenced db (snd (release_allocation db p i))"
  by (auto simp: release_allocation_def split: sum.splits option.splits
      dest!: sub_all_used_fields intro!: fenced_trans [OF fenced_put fenced_same] row_le_bump)

lemma fenced_upsert_intent: "fenced db (snd (upsert_intent db a))"
  by (auto simp: upsert_intent_def Let_def split: sum.splits option.splits intro!: fenced_same)

lemma fenced_reconcile: "fenced db (snd (reconcile_consumers db ds))"
proof -
  have "fenced db (d\<lparr>intents := ts\<rparr>)"
    if "reset_providers (db\<lparr>allocations := as\<rparr>) ps = Inr d" for as ps d ts
    using fenced_reset_providers [OF that] by (simp add: fenced_def)
  then show ?thesis
    by (auto simp: reconcile_consumers_def Let_def split: sum.splits)
qed

lemma fenced_next: "fenced db (placement_next db x)"
  by (cases x)
    (simp_all add: fenced_register fenced_sync fenced_refresh fenced_set_state
      fenced_update_metadata fenced_register_metadata fenced_commit fenced_release
      fenced_upsert_intent fenced_reconcile fenced_same delete_intent_def)

interpretation placement_fence: monotone_machine placement_step fenced
  by unfold_locales (auto simp: placement_step_def fenced_next intro: fenced_trans)

section \<open>Usage is what is allocated\<close>

definition class_amount :: "string \<Rightarrow> (string \<times> int) list \<Rightarrow> int" where
  "class_amount c rs = sum_list (amount_of c rs)"

definition usage_ok :: "placement_db \<Rightarrow> string \<Rightarrow> inventory_row list \<Rightarrow> bool" where
  "usage_ok db p is \<longleftrightarrow>
     list_all (\<lambda>i. ir_used i = sum_list (allocated_amounts db p (ir_class i))) is"

text \<open>
  The invariant: an allocation identifier is used once, amounts are not negative, and every
  inventory's usage is the sum of the amounts allocated on its provider in its class, the
  providers of a set \<open>I\<close> (the ones that an import has written) excepted.
\<close>

definition books :: "string set \<Rightarrow> placement_db \<Rightarrow> bool" where
  "books I db \<longleftrightarrow>
     distinct (map al_id (allocations db))
     \<and> list_all (\<lambda>a. list_all (\<lambda>x. 0 \<le> snd x) (al_resources a)) (allocations db)
     \<and> list_all (\<lambda>(p, r). p \<in> I \<or> usage_ok db p (row_inventories r)) (providers db)
     \<and> distinct (map fst (providers db))"

abbreviation placement_inv :: "placement_db \<Rightarrow> bool" where
  "placement_inv \<equiv> books {}"

lemma class_amount_simps [simp]:
  "class_amount c [] = 0"
  "class_amount c (x # xs) = (if fst x = c then snd x else 0) + class_amount c xs"
  "class_amount c (xs @ ys) = class_amount c xs + class_amount c ys"
  by (auto simp: class_amount_def amount_of_def)

lemma class_amount_nonneg: "\<forall>x\<in>set rs. 0 \<le> snd x \<Longrightarrow> 0 \<le> class_amount c rs"
  by (induction rs) auto

lemma class_amount_mset: "mset xs = mset ys \<Longrightarrow> class_amount c xs = class_amount c ys"
  by (simp add: class_amount_def amount_of_def flip: sum_mset_sum_list)

lemma sum_allocated:
  "sum_list (allocated_amounts db p c) =
     sum_list (map (\<lambda>a. if al_provider a = p then class_amount c (al_resources a) else 0)
       (allocations db))"
proof -
  have "sum_list (concat (map (\<lambda>a. amount_of c (al_resources a)) (filter (\<lambda>a. al_provider a = p) as)))
    = sum_list (map (\<lambda>a. if al_provider a = p then class_amount c (al_resources a) else 0) as)" for as
    by (induction as) (auto simp: class_amount_def)
  then show ?thesis by (simp add: allocated_amounts_def)
qed

lemma books_alt:
  "books I db \<longleftrightarrow>
     distinct (map al_id (allocations db))
     \<and> (\<forall>a\<in>set (allocations db). \<forall>x\<in>set (al_resources a). 0 \<le> snd x)
     \<and> (\<forall>p r. find_provider db p = Some r \<longrightarrow> p \<in> I \<or> usage_ok db p (row_inventories r))
     \<and> distinct (map fst (providers db))"
proof -
  have "(\<forall>p r. find_provider db p = Some r \<longrightarrow> p \<in> I \<or> usage_ok db p (row_inventories r)) \<longleftrightarrow>
      list_all (\<lambda>(p, r). p \<in> I \<or> usage_ok db p (row_inventories r)) (providers db)"
    if "distinct (map fst (providers db))"
    using that by (auto simp: list_all_iff find_provider_def)
  then show ?thesis unfolding books_def by (auto simp: list_all_iff)
qed

lemmas placement_inv_alt = books_alt [of "{}", simplified]

lemma put_provider_distinct [simp]:
  "distinct (map fst (providers db)) \<Longrightarrow> distinct (map fst (providers (put_provider db p r)))"
  by (simp add: put_provider_def distinct_update)

lemma usage_ok_put [simp]: "usage_ok (put_provider db q r) p is = usage_ok db p is"
  by (simp add: usage_ok_def)

lemma usage_ok_Nil [simp]: "usage_ok db p []"
  by (simp add: usage_ok_def)

lemma inv_put:
  "books I db \<Longrightarrow> p \<in> I \<or> usage_ok db p (row_inventories r) \<Longrightarrow> books I (put_provider db p r)"
  by (auto simp: books_alt)

lemma inv_row:
  "books I db \<Longrightarrow> find_provider db p = Some r \<Longrightarrow> p \<in> I \<or> usage_ok db p (row_inventories r)"
  by (simp add: books_alt)

lemma inv_put_same:
  "books I db \<Longrightarrow> find_provider db p = Some r0 \<Longrightarrow> row_inventories r = row_inventories r0 \<Longrightarrow>
   books I (put_provider db p r)"
  by (simp add: inv_put inv_row)

lemma placement_i64_of_u64: "placement_u64 i = Inr w \<Longrightarrow> placement_i64 w = Inr i"
  by (auto simp: placement_u64_def placement_i64_def i64_of_u64_eq_Some u64_of_i64_eq_Some
      uint_of_i64 split: option.splits)

lemma placement_i64_nonneg: "placement_i64 w = Inr i \<Longrightarrow> 0 \<le> i"
  by (auto simp: placement_i64_def i64_of_u64_eq_Some split: option.splits)

lemma recompute_used_zip:
  "recompute_used db p invs = Inr us \<Longrightarrow>
   \<forall>(i, u)\<in>set (zip invs us).
     placement_i64 u = Inr (sum_list (allocated_amounts db p (resource_class i)))"
  by (fastforce simp: recompute_used_def collect_results_Inr list_all2_iff
      dest: sql_sum_Some placement_i64_of_u64 split: option.splits)

lemma insert_inventories_usage:
  "insert_inventories rows zs = Inr rows' \<Longrightarrow> usage_ok db p rows \<Longrightarrow>
   \<forall>(i, u)\<in>set zs. placement_i64 u = Inr (sum_list (allocated_amounts db p (resource_class i))) \<Longrightarrow>
   usage_ok db p rows'"
  by (induction rows zs rule: insert_inventories.induct)
    (auto simp: usage_ok_def split: sum.splits if_splits)

lemma refresh_row_usage:
  "refresh_row db p r invs = Inr r' \<Longrightarrow> usage_ok db p (row_inventories r')"
  by (auto simp: refresh_row_def replace_inventories_def split: sum.splits
      dest!: recompute_used_zip intro!: insert_inventories_usage [of "[]"] usage_ok_Nil)

lemma inv_refreshed:
  "books I db \<Longrightarrow> refresh_row db p r0 invs = Inr r \<Longrightarrow> books I (put_provider db p (bump r))"
  using refresh_row_usage by (simp add: inv_put)

definition int_amounts :: "(string \<times> u64) list \<Rightarrow> (string \<times> int) list" where
  "int_amounts rs = map (\<lambda>(c, a). (c, uint a)) rs"

lemma int_amounts_simps [simp]:
  "int_amounts [] = []" "int_amounts ((c, a) # rs) = (c, uint a) # int_amounts rs"
  by (simp_all add: int_amounts_def)

lemma int_amounts_nonneg: "x \<in> set (int_amounts rs) \<Longrightarrow> 0 \<le> snd x"
  by (auto simp: int_amounts_def)

lemma placement_i64_uint: "placement_i64 w = Inr i \<Longrightarrow> i = uint w"
  by (auto simp: placement_i64_def i64_of_u64_eq_Some split: option.splits)

lemma resource_rows_append: "resource_rows rows rs = Inr rows' \<Longrightarrow> rows' = rows @ int_amounts rs"
  by (induction rows rs rule: resource_rows.induct)
    (auto split: sum.splits if_splits dest: placement_i64_uint)

lemma add_all_used_inventories:
  "add_all_used rs r = Inr r' \<Longrightarrow> row_inventories r' =
     map (\<lambda>i. i\<lparr>ir_used := ir_used i + class_amount (ir_class i) (int_amounts rs)\<rparr>) (row_inventories r)"
proof (induction rs r rule: add_all_used.induct)
  case (2 c a rest r)
  then obtain n where "placement_i64 a = Inr n" "add_all_used rest (add_used c n r) = Inr r'"
    by (auto split: sum.splits)
  with "2.IH" show ?case by (auto simp: add_used_def dest!: placement_i64_uint)
qed simp

lemma sub_all_used_inventories:
  "sub_all_used rs r = Inr r' \<Longrightarrow>
   \<forall>i\<in>set (row_inventories r). class_amount (ir_class i) (int_amounts rs) \<le> ir_used i \<Longrightarrow>
   row_inventories r' =
     map (\<lambda>i. i\<lparr>ir_used := ir_used i - class_amount (ir_class i) (int_amounts rs)\<rparr>) (row_inventories r)"
proof (induction rs r rule: sub_all_used.induct)
  case (2 c a rest r)
  then obtain n where n: "placement_i64 a = Inr n" "sub_all_used rest (sub_used c n r) = Inr r'"
    by (auto split: sum.splits)
  have max: "max (ir_used i - n) 0 = ir_used i - uint a"
    if "i \<in> set (row_inventories r)" "ir_class i = c" for i
  proof -
    have "0 \<le> class_amount c (int_amounts rest)"
      by (intro class_amount_nonneg) (simp add: int_amounts_nonneg)
    then have "uint a \<le> ir_used i" using "2.prems"(2) that by fastforce
    then show ?thesis using placement_i64_uint [OF n(1)] by simp
  qed
  have "\<forall>i\<in>set (row_inventories (sub_used c n r)).
      class_amount (ir_class i) (int_amounts rest) \<le> ir_used i"
    using "2.prems"(2) max by (fastforce simp: sub_used_def)
  from "2.IH" [OF n this] max show ?case by (auto simp: sub_used_def)
qed simp

lemma allocation_of_row_fields:
  "allocation_of_row row = Inr a \<Longrightarrow>
   pa_id a = al_id row \<and> pa_provider a = al_provider row \<and> pa_consumer a = al_consumer row"
  by (auto simp: allocation_of_row_def split: sum.splits)

lemma allocation_of_row_amounts:
  assumes "allocation_of_row row = Inr a"
  shows "int_amounts (pa_resources a) = sort_key fst (al_resources row)"
proof -
  have conv: "resource_of_row x = Inr y \<Longrightarrow> (case y of (c, a) \<Rightarrow> (c, uint a)) = x" for x y
    by (cases x) (auto simp: resource_of_row_def split: sum.splits
      dest!: placement_i64_of_u64 placement_i64_uint)
  from assms have "list_all2 (\<lambda>x y. resource_of_row x = Inr y)
      (sort_key fst (al_resources row)) (pa_resources a)"
    by (auto simp: allocation_of_row_def collect_results_Inr split: sum.splits)
  then have "list_all2 (\<lambda>x y. (case y of (c, a) \<Rightarrow> (c, uint a)) = x)
      (sort_key fst (al_resources row)) (pa_resources a)"
    by (rule list_all2_mono) (rule conv)
  then show ?thesis
    by (auto simp: int_amounts_def list_all2_conv_all_nth intro!: nth_equalityI)
qed

lemma find_SomeD: "find P xs = Some x \<Longrightarrow> x \<in> set xs \<and> P x"
  by (induction xs) (auto split: if_splits)

lemma sum_list_filter_one:
  fixes g :: "'a \<Rightarrow> int"
  assumes "distinct xs" and "x \<in> set xs" and "\<And>y. y \<in> set xs \<Longrightarrow> P y \<longleftrightarrow> y = x"
  shows "sum_list (map g (filter (\<lambda>y. \<not> P y) xs)) = sum_list (map g xs) - g x"
proof -
  have "filter (\<lambda>y. \<not> P y) xs = remove1 x xs"
    using assms by (simp add: distinct_remove1_removeAll removeAll_filter_not_eq cong: filter_cong)
      metis
  then show ?thesis using sum_list_map_remove1 [OF assms(2), of g] by simp
qed

lemma usage_ok_map:
  assumes "usage_ok db p is"
    and "\<And>i. i \<in> set is \<Longrightarrow> sum_list (allocated_amounts db' p (ir_class i)) =
      sum_list (allocated_amounts db p (ir_class i)) + d (ir_class i)"
  shows "usage_ok db' p (map (\<lambda>i. i\<lparr>ir_used := ir_used i + d (ir_class i)\<rparr>) is)"
  using assms by (auto simp: usage_ok_def list_all_iff)

lemma usage_ok_same:
  "usage_ok db p is \<Longrightarrow>
   (\<And>c. sum_list (allocated_amounts db' p c) = sum_list (allocated_amounts db p c)) \<Longrightarrow>
   usage_ok db' p is"
  by (simp add: usage_ok_def)

text \<open>What a commit and a release that go through did.\<close>

lemma commit_cases:
  assumes "commit_allocation db p g a = (res, db')" and "db' \<noteq> db"
  obtains r r' rows n where "res = Inr a" "validate_allocation a"
    "\<forall>b\<in>set (allocations db). al_id b \<noteq> pa_id a"
    "find_provider db p = Some r" "placement_i64 g = Inr n" "row_generation r = n"
    "add_all_used (pa_resources a) (bump r) = Inr r'"
    "resource_rows [] (pa_resources a) = Inr rows"
    "db' = (put_provider db p r')\<lparr>allocations := allocations db @
       [\<lparr>al_id = pa_id a, al_provider = pa_provider a, al_consumer = pa_consumer a,
         al_resources = rows\<rparr>]\<rparr>"
  using assms
  by (auto simp: commit_allocation_def load_allocation_def Let_def find_None_iff
      split: if_splits sum.splits option.splits)

lemma release_cases:
  assumes "release_allocation db p i = (res, db')" and "db' \<noteq> db"
  obtains r r' row a where "res = Inr ()" "find_provider db p = Some r"
    "row \<in> set (allocations db)" "al_id row = i" "al_provider row = p"
    "allocation_of_row row = Inr a" "sub_all_used (pa_resources a) r = Inr r'"
    "db' = (put_provider db p (bump r'))
       \<lparr>allocations := filter (\<lambda>a. \<not> (al_id a = i \<and> al_provider a = p)) (allocations db)\<rparr>"
  using assms
  by (auto simp: release_allocation_def split: sum.splits option.splits dest!: find_SomeD)

lemma inv_commit:
  assumes inv: "books I db"
  shows "books I (snd (commit_allocation db (pa_provider a) g a))"
proof -
  obtain res db' where c: "commit_allocation db (pa_provider a) g a = (res, db')" by force
  show ?thesis
  proof (cases "db' = db")
    case False
    from commit_cases [OF c this] obtain r r' rows where
      new: "\<forall>b\<in>set (allocations db). al_id b \<noteq> pa_id a" and
      r: "find_provider db (pa_provider a) = Some r" and
      r': "add_all_used (pa_resources a) (bump r) = Inr r'" and
      rows: "rows = int_amounts (pa_resources a)" and
      db': "db' = (put_provider db (pa_provider a) r')\<lparr>allocations := allocations db @
         [\<lparr>al_id = pa_id a, al_provider = pa_provider a, al_consumer = pa_consumer a,
           al_resources = rows\<rparr>]\<rparr>"
      by (metis resource_rows_append append_Nil)
    have sum: "sum_list (allocated_amounts db' q c) = sum_list (allocated_amounts db q c)
        + (if q = pa_provider a then class_amount c rows else 0)" for q c
      by (simp add: db' sum_allocated)
    have "usage_ok db' q (row_inventories s)" if "find_provider db' q = Some s" "q \<notin> I" for q s
    proof (cases "q = pa_provider a")
      case True
      then have "s = r'" using that by (simp add: db')
      have inv_r: "usage_ok db (pa_provider a) (row_inventories r)"
        using inv_row [OF inv r] True that by simp
      have "usage_ok db' q (map (\<lambda>i. i\<lparr>ir_used := ir_used i + class_amount (ir_class i) rows\<rparr>)
          (row_inventories (bump r)))"
        using sum True inv_r by (intro usage_ok_map) simp_all
      then show ?thesis using add_all_used_inventories [OF r'] rows \<open>s = r'\<close> by simp
    next
      case False
      then have "find_provider db q = Some s" using that by (simp add: db')
      from inv_row [OF inv this] that(2) have "usage_ok db q (row_inventories s)" by simp
      then show ?thesis by (rule usage_ok_same) (simp add: sum False)
    qed
    then have "q \<in> I \<or> usage_ok db' q (row_inventories s)" if "find_provider db' q = Some s" for q s
      using that by blast
    with inv new show ?thesis
      by (simp add: c books_alt) (auto simp: db' rows int_amounts_nonneg)
  qed (simp add: c inv)
qed

lemma inv_release:
  assumes inv: "books I db"
  shows "books I (snd (release_allocation db p i))"
proof -
  obtain res db' where c: "release_allocation db p i = (res, db')" by force
  show ?thesis
  proof (cases "db' = db")
    case False
    from release_cases [OF c this] obtain r r' row a where "res = Inr ()" and
      r: "find_provider db p = Some r" and
      row: "row \<in> set (allocations db)" "al_id row = i" "al_provider row = p" and
      a: "allocation_of_row row = Inr a" and r': "sub_all_used (pa_resources a) r = Inr r'" and
      db': "db' = (put_provider db p (bump r'))
         \<lparr>allocations := filter (\<lambda>a. \<not> (al_id a = i \<and> al_provider a = p)) (allocations db)\<rparr>" .
    let ?am = "\<lambda>c. class_amount c (al_resources row)"
    have am: "class_amount c (int_amounts (pa_resources a)) = ?am c" for c
      by (rule class_amount_mset) (simp add: allocation_of_row_amounts [OF a])
    have ids: "distinct (map al_id (allocations db))" using inv by (simp add: books_alt)
    then have one: "(al_id y = i \<and> al_provider y = p) \<longleftrightarrow> y = row" if "y \<in> set (allocations db)" for y
      using that row by (metis distinct_map inj_onD)
    have ds: "distinct (allocations db)" using ids by (simp add: distinct_map)
    let ?g = "\<lambda>q c b. if al_provider b = q then class_amount c (al_resources b) else 0"
    have sum: "sum_list (allocated_amounts db' q c) = sum_list (allocated_amounts db q c)
        - (if q = p then ?am c else 0)" for q c
      using sum_list_filter_one [OF ds row(1) one, of "?g q c"] row(3)
      by (simp add: db' sum_allocated)
    have "0 \<le> sum_list (allocated_amounts db' p c)" for c
      using inv unfolding sum_allocated
      by (intro sum_list_nonneg) (auto simp: db' books_alt intro: class_amount_nonneg)
    then have le: "?am c \<le> sum_list (allocated_amounts db p c)" for c
      using sum [of p c] by (metis add_0 diff_ge_0_iff_ge)
    have "usage_ok db' q (row_inventories s)" if "find_provider db' q = Some s" "q \<notin> I" for q s
    proof (cases "q = p")
      case True
      then have inv_r: "usage_ok db p (row_inventories r)" using inv_row [OF inv r] that by simp
      then have "\<forall>i\<in>set (row_inventories r). ?am (ir_class i) \<le> ir_used i"
        using le by (simp add: usage_ok_def list_all_iff)
      then have rows: "row_inventories r' =
          map (\<lambda>i. i\<lparr>ir_used := ir_used i + - ?am (ir_class i)\<rparr>) (row_inventories r)"
        using sub_all_used_inventories [OF r'] by (simp add: am)
      have "row_inventories s = row_inventories r'" using True that by (auto simp: db')
      then show ?thesis
        using True rows sum usage_ok_map [OF inv_r, of db' "\<lambda>c. - ?am c"] by simp
    next
      case False
      then have "find_provider db q = Some s" using that by (simp add: db')
      from inv_row [OF inv this] that(2) have "usage_ok db q (row_inventories s)" by simp
      then show ?thesis by (rule usage_ok_same) (simp add: sum False)
    qed
    then have "q \<in> I \<or> usage_ok db' q (row_inventories s)" if "find_provider db' q = Some s" for q s
      using that by blast
    with inv show ?thesis
      by (simp add: c books_alt) (auto simp: db' intro: distinct_map_filter)
  qed (simp add: c inv)
qed


section \<open>Reconciliation keeps the invariant\<close>

lemma list_all2_right: "list_all2 (\<lambda>x y. Q y) xs ys \<Longrightarrow> list_all Q ys"
  by (induction xs ys rule: list_all2_induct) auto

lemma reset_used_ok: "reset_used db p is = Inr is' \<Longrightarrow> usage_ok db p is'"
  unfolding reset_used_def collect_results_Inr usage_ok_def
  by (rule list_all2_right, erule list_all2_mono) (auto split: option.splits dest!: sql_sum_Some)

lemma reset_providers_ok:
  "reset_providers db ps = Inr db' \<Longrightarrow>
     allocations db' = allocations db
     \<and> (distinct (map fst (providers db)) \<longrightarrow> distinct (map fst (providers db')))
     \<and> (\<forall>p r'. find_provider db' p = Some r' \<longrightarrow>
          usage_ok db p (row_inventories r') \<or> p \<notin> set ps \<and> find_provider db p = Some r')"
proof (induction ps arbitrary: db)
  case (Cons p ps)
  show ?case
  proof (cases "find_provider db p")
    case None
    with Cons show ?thesis unfolding reset_providers_Cons by fastforce
  next
    case (Some r)
    then obtain "is" where u: "reset_used db p (row_inventories r) = Inr is" and
      i: "reset_providers (put_provider db p (bump (r\<lparr>row_inventories := is\<rparr>))) ps = Inr db'"
      using Cons.prems unfolding reset_providers_Cons by auto
    have "usage_ok db q (row_inventories r') \<or> q \<notin> set (p # ps) \<and> find_provider db q = Some r'"
      if "find_provider db' q = Some r'" for q r'
    proof -
      have "usage_ok db q (row_inventories r') \<or> q \<notin> set ps \<and>
          find_provider (put_provider db p (bump (r\<lparr>row_inventories := is\<rparr>))) q = Some r'"
        using Cons.IH [OF i] that by simp
      with reset_used_ok [OF u] show ?thesis by (auto split: if_splits)
    qed
    with Cons.IH [OF i] show ?thesis by simp
  qed
qed simp

lemma affected_providers_set: "set (affected_providers as) = pa_provider ` set as"
proof -
  have "set (foldl (\<lambda>ps a. if pa_provider a \<in> set ps then ps else ps @ [pa_provider a]) ps as) =
      set ps \<union> pa_provider ` set as" for ps
    by (induction as arbitrary: ps) auto
  then show ?thesis by (simp add: affected_providers_def)
qed

lemma collect_rows_set:
  assumes "collect_results allocation_of_row (sort_key al_id rows) = Inr as" and "a \<in> set as"
  obtains row where "row \<in> set rows" "allocation_of_row row = Inr a"
proof -
  from assms(2) obtain i where i: "i < length as" "as ! i = a" by (auto simp: in_set_conv_nth)
  from assms(1) have all: "list_all2 (\<lambda>x y. allocation_of_row x = Inr y) (sort_key al_id rows) as"
    by (simp add: collect_results_Inr)
  show ?thesis
  proof (rule that)
    show "sort_key al_id rows ! i \<in> set rows"
      using i all by (metis list_all2_lengthD nth_mem set_sort)
    show "allocation_of_row (sort_key al_id rows ! i) = Inr a"
      using i list_all2_nthD2 [OF all, of i] by simp
  qed
qed

lemma inv_reconcile:
  assumes inv: "books I db"
  shows "books I (snd (reconcile_consumers db ds))"
proof -
  have "books I (d\<lparr>intents := is\<rparr>)"
    if as: "collect_results allocation_of_row (sort_key al_id (allocations db)) = Inr as" and
      reset: "reset_providers
        (db\<lparr>allocations := filter (\<lambda>a. al_id a \<notin> pa_id ` set (filter dead as)) (allocations db)\<rparr>)
        (affected_providers (filter dead as)) = Inr d" for as dead d "is"
  proof -
    let ?kept = "filter (\<lambda>a. al_id a \<notin> pa_id ` set (filter dead as)) (allocations db)"
    note ok = reset_providers_ok [OF reset, unfolded affected_providers_set, simplified]
    have "usage_ok d p (row_inventories r)" if r: "find_provider d p = Some r" "p \<notin> I" for p r
    proof (cases "usage_ok (db\<lparr>allocations := ?kept\<rparr>) p (row_inventories r)")
      case False
      with ok r have p: "p \<notin> pa_provider ` set (filter dead as)" and
        old: "find_provider db p = Some r" by force+
      have "filter (\<lambda>a. al_provider a = p) ?kept = filter (\<lambda>a. al_provider a = p) (allocations db)"
      proof (rule filter_filter [THEN trans], rule filter_cong [OF refl], rule iffI, simp, intro conjI)
        fix y assume y: "y \<in> set (allocations db)" and yp: "al_provider y = p"
        show "al_id y \<notin> pa_id ` set (filter dead as)"
        proof
          assume "al_id y \<in> pa_id ` set (filter dead as)"
          then obtain a where a: "a \<in> set (filter dead as)" "al_id y = pa_id a" by auto
          then have "a \<in> set as" by simp
          from collect_rows_set [OF as this]
          obtain row where row: "row \<in> set (allocations db)" "allocation_of_row row = Inr a" .
          with a y inv have "row = y"
            unfolding books_alt distinct_map
            by (metis allocation_of_row_fields inj_onD)
          with a row yp p show False by (metis allocation_of_row_fields imageI)
        qed
      qed simp
      then show ?thesis
        using inv_row [OF inv old] r(2) ok by (simp add: usage_ok_def allocated_amounts_def)
    qed (use ok in \<open>simp add: usage_ok_def allocated_amounts_def\<close>)
    then have "p \<in> I \<or> usage_ok d p (row_inventories r)" if "find_provider d p = Some r" for p r
      using that by blast
    with inv ok show ?thesis
      by (auto simp: books_alt usage_ok_def allocated_amounts_def intro: distinct_map_filter)
  qed
  with inv show ?thesis
    by (auto simp: reconcile_consumers_def Let_def split: sum.splits)
qed

lemma inv_fields:
  "books I db \<Longrightarrow> books I (db\<lparr>intents := ts\<rparr>)"
  "books I db \<Longrightarrow> books I (db\<lparr>instances := ns\<rparr>)"
  by (simp_all add: books_alt usage_ok_def)

lemma inv_next: "books I db \<Longrightarrow> books I (placement_next db x)"
proof (cases x)
  case (OpRegister n invs)
  then show "books I db \<Longrightarrow> ?thesis"
    by (auto simp: register_provider_def split: sum.splits option.splits intro: inv_refreshed)
next
  case (OpRegisterMetadata n invs p ts ds l)
  assume inv: "books I db"
  have "books I (put_provider (put_provider db n (bump r)) n (bump (set_metadata (bump r) p ts ds l)))"
    if "refresh_row db n r0 invs = Inr r" for r0 r
    using inv_refreshed [OF inv that] refresh_row_usage [OF that] by (simp add: inv_put)
  then show ?thesis using OpRegisterMetadata inv
    by (auto simp: register_provider_metadata_def Let_def split: sum.splits option.splits)
next
  case (OpUpdateMetadata q g p ts ds l)
  then show "books I db \<Longrightarrow> ?thesis"
    by (auto simp: update_provider_metadata_def split: sum.splits option.splits intro: inv_put_same)
next
  case (OpSync n s invs)
  then show "books I db \<Longrightarrow> ?thesis"
    by (auto simp: sync_provider_def split: sum.splits option.splits intro: inv_refreshed)
next
  case (OpRefresh p g invs)
  then show "books I db \<Longrightarrow> ?thesis"
    by (auto simp: refresh_inventories_def inv_put dest: refresh_row_usage split: sum.splits option.splits)
next
  case (OpSetState p s)
  then show "books I db \<Longrightarrow> ?thesis"
    by (auto simp: set_provider_state_def split: option.splits intro: inv_put_same)
next
  case (OpUpsertIntent a)
  then show "books I db \<Longrightarrow> ?thesis"
    by (auto simp: upsert_intent_def Let_def inv_fields split: sum.splits option.splits)
qed (simp_all add: inv_commit inv_release inv_reconcile inv_fields delete_intent_def)

interpretation placement_machine: invariant_machine placement_step "books I"
  by unfold_locales (auto simp: placement_step_def inv_next)

section \<open>The import keeps the books of the others\<close>

lemma books_import_allocations:
  "import_allocations db as = Inr db' \<Longrightarrow> books I db \<Longrightarrow> pa_provider ` set as \<subseteq> I \<Longrightarrow> books I db'"
proof (induction db as rule: import_allocations.induct)
  case (2 db a as)
  show ?case
  proof (cases "pa_id a \<in> al_id ` set (allocations db)")
    case False
    then obtain rows where rows: "resource_rows [] (pa_resources a) = Inr rows"
      using "2.prems"(1) by (auto split: if_splits sum.splits)
    let ?db = "db\<lparr>allocations := allocations db @
      [\<lparr>al_id = pa_id a, al_provider = pa_provider a, al_consumer = pa_consumer a,
        al_resources = rows\<rparr>]\<rparr>"
    have "usage_ok ?db q is" if "usage_ok db q is" "q \<notin> I" for q "is"
    proof -
      have "q \<noteq> pa_provider a" using that(2) "2.prems"(3) by auto
      then show ?thesis by (intro usage_ok_same [OF that(1)]) (simp add: sum_allocated)
    qed
    then have "p \<in> I \<or> usage_ok ?db p (row_inventories r)" if "find_provider db p = Some r" for p r
      using inv_row [OF "2.prems"(2) that] by blast
    then have "books I ?db"
      using "2.prems"(2) False resource_rows_append [OF rows]
      by (auto simp: books_alt int_amounts_nonneg)
    with False rows "2.prems" show ?thesis by (auto split: if_splits intro: "2.IH"(2))
  qed (use 2 in simp)
qed simp

lemma books_import:
  assumes "books I db" and "insert (pr_id q) (pa_provider ` set (pr_allocations q)) \<subseteq> I"
  shows "books I (snd (import_provider db q))"
  using assms
  by (auto simp: import_provider_def Let_def inv_put intro: books_import_allocations
      split: sum.splits option.splits if_splits)

text \<open>Whoever rewrites the inventories settles the provider: its usage is recomputed.\<close>

lemma books_settled:
  assumes "books I db" and "refresh_row db p r0 invs = Inr r"
  shows "books (I - {p}) (put_provider db p (bump r))"
  using assms refresh_row_usage [OF assms(2)] by (auto simp: books_alt)

lemma books_repository:
  "books I db \<Longrightarrow> import_touched xs \<subseteq> I \<Longrightarrow> books I (run_ops repository_step db xs)"
proof (induction xs arbitrary: db rule: import_touched.induct)
  case (2 x xs)
  then show ?case by (simp add: apply_op_def placement_step_def inv_next)
next
  case (3 q xs)
  then show ?case by (simp add: apply_op_def books_import)
qed simp

definition no_placement :: placement_db where
  "no_placement = \<lparr>providers = [], allocations = [], intents = [], instances = []\<rparr>"

lemma no_placement_inv: "books I no_placement"
  by (simp add: no_placement_def books_def)

section \<open>The hierarchy stays acyclic\<close>

definition parent_edges :: "placement_db \<Rightarrow> (string \<times> string) set" where
  "parent_edges db = {(p, q). \<exists>r. find_provider db p = Some r \<and> row_parent r = Some q}"

lemma walk_parents_ends:
  assumes "walk_parents n (providers db) self seen (Some i) = None"
  shows "(i, self) \<notin> (parent_edges db)\<^sup>*"
  using assms
proof (induction n arbitrary: seen i)
  case (Suc n)
  let ?next = "case map_of (providers db) i of None \<Rightarrow> None | Some r \<Rightarrow> row_parent r"
  from Suc.prems have ne: "i \<noteq> self" and
    walk: "walk_parents n (providers db) self (insert i seen) ?next = None"
    by (auto split: if_splits)
  show ?case
  proof
    assume "(i, self) \<in> (parent_edges db)\<^sup>*"
    then obtain j where "(i, j) \<in> parent_edges db" and j: "(j, self) \<in> (parent_edges db)\<^sup>*"
      using ne by (metis converse_rtranclE)
    then have "?next = Some j" by (auto simp: parent_edges_def find_provider_def)
    with walk Suc.IH j show False by metis
  qed
qed simp

text \<open>The edges of the providers outside a set \<open>I\<close>, the ones that an import has written.\<close>

definition own_edges :: "string set \<Rightarrow> placement_db \<Rightarrow> (string \<times> string) set" where
  "own_edges I db = {(p, q). (p, q) \<in> parent_edges db \<and> p \<notin> I}"

lemma own_edges_put:
  "own_edges I (put_provider db p r) \<subseteq>
     {(a, b). (a, b) \<in> own_edges I db \<and> a \<noteq> p} \<union> {(p, q) |q. row_parent r = Some q \<and> p \<notin> I}"
  by (auto simp: own_edges_def parent_edges_def split: if_splits)

lemma acyclic_put_same:
  assumes "acyclic (own_edges I db)"
    and "row_parent r = (case find_provider db p of None \<Rightarrow> None | Some r0 \<Rightarrow> row_parent r0)"
  shows "acyclic (own_edges I (put_provider db p r))"
proof -
  have "own_edges I (put_provider db p r) \<subseteq> own_edges I db"
    using assms(2) by (auto simp: own_edges_def parent_edges_def split: if_splits option.splits)
  then show ?thesis by (rule acyclic_subset [OF assms(1)])
qed

lemma acyclic_put_excepted:
  "acyclic (own_edges I db) \<Longrightarrow> p \<in> I \<Longrightarrow> acyclic (own_edges I (put_provider db p r))"
  using own_edges_put [of I db p r] by (elim acyclic_subset) auto

lemma acyclic_put_parent:
  assumes "acyclic (own_edges I db)" and "parent_check db p (row_parent r) = None"
  shows "acyclic (own_edges I (put_provider db p r))"
proof (cases "row_parent r")
  case None
  then show ?thesis
    using own_edges_put [of I db p r] by (intro acyclic_subset [OF assms(1)]) auto
next
  case (Some q)
  have "own_edges I db \<subseteq> parent_edges db" by (auto simp: own_edges_def)
  moreover have "(q, p) \<notin> (parent_edges db)\<^sup>*"
    using assms(2) Some by (auto simp: parent_check_def split: if_splits dest: walk_parents_ends)
  ultimately have "(q, p) \<notin> (own_edges I db)\<^sup>*" using rtrancl_mono by blast
  with assms(1) have "acyclic (insert (p, q) (own_edges I db))" by (simp add: acyclic_insert)
  then show ?thesis
    using own_edges_put [of I db p r] Some by (elim acyclic_subset) auto
qed

lemma parent_edges_fields [simp]:
  "parent_edges (db\<lparr>allocations := as\<rparr>) = parent_edges db"
  "parent_edges (db\<lparr>intents := ts\<rparr>) = parent_edges db"
  "parent_edges (db\<lparr>instances := ns\<rparr>) = parent_edges db"
  by (simp_all add: parent_edges_def)

lemma own_edges_fields [simp]:
  "own_edges I (db\<lparr>allocations := as\<rparr>) = own_edges I db"
  "own_edges I (db\<lparr>intents := ts\<rparr>) = own_edges I db"
  "own_edges I (db\<lparr>instances := ns\<rparr>) = own_edges I db"
  by (simp_all add: own_edges_def)

lemma acyclic_refreshed:
  assumes "acyclic (own_edges I db)" and "refresh_row db p r0 invs = Inr r"
    and "row_parent r0 = (case find_provider db p of None \<Rightarrow> None | Some r \<Rightarrow> row_parent r)"
  shows "acyclic (own_edges I (put_provider db p (bump r)))"
  using assms(3) refresh_row_fields [OF assms(2)] by (intro acyclic_put_same [OF assms(1)]) simp

lemma ensure_provider_parent:
  "ensure_provider db n s = Some r0 \<Longrightarrow>
   row_parent r0 = (case find_provider db n of None \<Rightarrow> None | Some r \<Rightarrow> row_parent r)"
  by (auto dest!: ensure_provider_Some)

lemma acyclic_reset_providers:
  "reset_providers db ps = Inr db' \<Longrightarrow> acyclic (own_edges I db) \<Longrightarrow> acyclic (own_edges I db')"
proof (induction ps arbitrary: db)
  case (Cons p ps)
  from Cons.prems show ?case
    unfolding reset_providers_Cons
    by (auto split: option.splits intro!: Cons.IH acyclic_put_same)
qed simp

lemma acyclic_next:
  assumes ac: "acyclic (own_edges I db)"
  shows "acyclic (own_edges I (placement_next db x))"
proof (cases x)
  case (OpRegisterMetadata n invs p ts ds l)
  have "acyclic (own_edges I
      (put_provider (put_provider db n (bump r)) n (bump (set_metadata (bump r) p ts ds l))))"
    if "ensure_provider db n ''Enabled'' = Some r0" "refresh_row db n r0 invs = Inr r"
      "parent_check (put_provider db n (bump r)) n p = None" for r0 r
    using that(3)
    by (intro acyclic_put_parent
        [OF acyclic_refreshed [OF ac that(2) ensure_provider_parent [OF that(1)]]]) simp
  then show ?thesis using OpRegisterMetadata ac
    by (auto simp: register_provider_metadata_def Let_def split: sum.splits option.splits)
next
  case (OpUpdateMetadata q g p ts ds l)
  then show ?thesis using ac
    by (auto simp: update_provider_metadata_def split: sum.splits option.splits
        intro!: acyclic_put_parent)
next
  case (OpReconcile ds)
  have "acyclic (own_edges I d)"
    if "reset_providers (db\<lparr>allocations := as\<rparr>) ps = Inr d" for as ps d
    using acyclic_reset_providers [OF that] ac by simp
  then show ?thesis using OpReconcile ac
    by (auto simp: reconcile_consumers_def Let_def split: sum.splits)
qed (use ac in \<open>auto simp: register_provider_def sync_provider_def refresh_inventories_def
    set_provider_state_def commit_allocation_def release_allocation_def upsert_intent_def
    delete_intent_def Let_def ensure_provider_parent split: sum.splits option.splits
    dest!: add_all_used_fields sub_all_used_fields
    intro!: acyclic_refreshed acyclic_put_same dest: refresh_row_fields\<close>)

interpretation hierarchy_machine: invariant_machine placement_step "\<lambda>db. acyclic (own_edges I db)"
  by unfold_locales (auto simp: placement_step_def acyclic_next)

lemma import_allocations_tables:
  "import_allocations db as = Inr db' \<Longrightarrow>
   providers db' = providers db \<and> set (allocations db) \<subseteq> set (allocations db')"
  by (induction db as rule: import_allocations.induct) (auto split: if_splits sum.splits)

text \<open>
  The import writes the parent of its record without the walk: of the edges only the one of the
  provider it names changes.
\<close>

lemma import_succeeded:
  assumes "import_provider db q = (Inr (), d)"
  obtains db1 where "import_allocations db1 (pr_allocations q) = Inr d"
    "db1 = db \<and> find_provider db (pr_id q) = None
     \<or> (\<exists>r r'. db1 = put_provider (put_provider db (pr_id q) r) (pr_id q) r' \<and> row_parent r' = pr_parent q)"
proof -
  obtain g where g: "placement_i64 (pr_generation q) = Inr g"
    using assms by (auto simp: import_provider_def split: sum.splits)
  show thesis
  proof (cases "import_ensure db q g")
    case None
    then have "find_provider db (pr_id q) = None" by (simp add: import_ensure_def split: option.splits)
    with None assms g show ?thesis
      by (intro that [of db]) (auto simp: import_provider_def Let_def split: sum.splits if_splits)
  next
    case (Some r)
    let ?r = "r\<lparr>row_parent := pr_parent q, row_location := pr_location q,
      row_traits := pr_traits q, row_failure_domains := pr_failure_domains q\<rparr>"
    from Some assms g obtain rows where
      "import_allocations (put_provider (put_provider db (pr_id q) ?r) (pr_id q)
        (?r\<lparr>row_inventories := rows\<rparr>)) (pr_allocations q) = Inr d"
      by (auto simp: import_provider_def Let_def split: sum.splits if_splits)
    then show ?thesis by (rule that, intro disjI2 exI conjI) (rule refl, simp)
  qed
qed

lemma import_failed: "import_provider db q = (Inl e, d) \<Longrightarrow> d = db"
  by (auto simp: import_provider_def Let_def split: sum.splits option.splits if_splits)

lemma import_edges:
  assumes "import_provider db q = (Inr (), d)"
  shows "parent_edges d \<subseteq> {(a, b). (a, b) \<in> parent_edges db \<and> a \<noteq> pr_id q} \<union>
      {(pr_id q, p) |p. pr_parent q = Some p}"
proof -
  from assms obtain db1 where d: "import_allocations db1 (pr_allocations q) = Inr d" and
    db1: "db1 = db \<and> find_provider db (pr_id q) = None
      \<or> (\<exists>r r'. db1 = put_provider (put_provider db (pr_id q) r) (pr_id q) r' \<and> row_parent r' = pr_parent q)"
    by (rule import_succeeded)
  have "parent_edges d = parent_edges db1"
    using import_allocations_tables [OF d] by (simp add: parent_edges_def find_provider_def)
  with db1 show ?thesis by (auto simp: parent_edges_def split: if_splits)
qed

lemma acyclic_import:
  assumes "acyclic (own_edges I db)" and "pr_id q \<in> I"
  shows "acyclic (own_edges I (snd (import_provider db q)))"
proof -
  have "own_edges I d \<subseteq> own_edges I db" if "import_provider db q = (Inr (), d)" for d
    using import_edges [OF that] assms(2) by (auto simp: own_edges_def)
  then have "acyclic (own_edges I d)" if "import_provider db q = (Inr (), d)" for d
    using acyclic_subset [OF assms(1)] that by blast
  then show ?thesis
    using assms(1) import_failed [of db q] by (cases "import_provider db q"; cases "fst (import_provider db q)") auto
qed

lemma acyclic_repository:
  "acyclic (own_edges I db) \<Longrightarrow> import_written xs \<subseteq> I \<Longrightarrow>
   acyclic (own_edges I (run_ops repository_step db xs))"
proof (induction xs arbitrary: db rule: import_written.induct)
  case (2 x xs)
  then show ?case by (simp add: apply_op_def placement_step_def acyclic_next)
next
  case (3 q xs)
  then show ?case by (simp add: apply_op_def acyclic_import)
qed simp

section \<open>Properties\<close>

text \<open>C8: after any sequence of repository operations on empty tables, imports of the legacy journal
  among them, the usage of every inventory row of a provider that no import touched is exactly
  the sum of the amounts that the allocations on that provider hold in the row's class: no
  commit, release, refresh, synchronisation, reconciliation or import of another provider lets
  the two drift. A provider is touched by an import that names it, or names an allocation on
  it; what an import does to the usage of the provider it names is \<open>import_overwrites_usage\<close>,
  and \<open>books_settled\<close> states that rewriting the inventories makes its usage exact again.\<close>

theorem usage_is_what_is_allocated:
  "list_all (\<lambda>(p, r). list_all (\<lambda>i. ir_used i =
       sum_list (allocated_amounts (run_ops repository_step no_placement xs) p (ir_class i)))
     (row_inventories r))
   (filter (\<lambda>(p, r). p \<notin> import_touched xs) (providers (run_ops repository_step no_placement xs)))"
proof -
  have "books (import_touched xs) (run_ops repository_step no_placement xs)"
    by (intro books_repository no_placement_inv subset_refl)
  then show ?thesis by (auto simp: books_def usage_ok_def list_all_iff)
qed

lemma collected_ids:
  assumes "collect_results allocation_of_row (sort_key al_id rows) = Inr as" and "y \<in> set rows"
  obtains a where "a \<in> set as" "allocation_of_row y = Inr a"
proof -
  from assms(2) obtain i where i: "i < length (sort_key al_id rows)" "sort_key al_id rows ! i = y"
    by (metis in_set_conv_nth set_sort)
  from assms(1) have all: "list_all2 (\<lambda>x y. allocation_of_row x = Inr y) (sort_key al_id rows) as"
    by (simp add: collect_results_Inr)
  show ?thesis
    using that [of "as ! i"] list_all2_nthD [OF all i(1)] i list_all2_lengthD [OF all] by simp
qed

lemma filter_dead:
  assumes as: "collect_results allocation_of_row (sort_key al_id rows) = Inr as"
    and ids: "distinct (map al_id rows)"
  shows "filter (\<lambda>a. al_id a \<notin> pa_id ` set (filter (\<lambda>a. pa_consumer a \<notin> live) as)) rows =
    filter (\<lambda>a. al_consumer a \<in> live) rows"
proof (rule filter_cong [OF refl])
  fix y assume y: "y \<in> set rows"
  from collected_ids [OF as y] obtain b where b: "b \<in> set as" "allocation_of_row y = Inr b" .
  show "(al_id y \<notin> pa_id ` set (filter (\<lambda>a. pa_consumer a \<notin> live) as)) = (al_consumer y \<in> live)"
  proof
    assume "al_id y \<notin> pa_id ` set (filter (\<lambda>a. pa_consumer a \<notin> live) as)"
    then show "al_consumer y \<in> live"
      using b allocation_of_row_fields [OF b(2)] by force
  next
    assume live: "al_consumer y \<in> live"
    show "al_id y \<notin> pa_id ` set (filter (\<lambda>a. pa_consumer a \<notin> live) as)"
    proof
      assume "al_id y \<in> pa_id ` set (filter (\<lambda>a. pa_consumer a \<notin> live) as)"
      then obtain a where a: "a \<in> set as" "pa_consumer a \<notin> live" "al_id y = pa_id a" by auto
      from collect_rows_set [OF as a(1)] obtain x where x: "x \<in> set rows" "allocation_of_row x = Inr a" .
      then have "x = y"
        using y ids a(3) allocation_of_row_fields [OF x(2)] by (auto simp: distinct_map inj_on_def)
      with allocation_of_row_fields [OF x(2)] a live show False by simp
    qed
  qed
qed

lemma reset_providers_tables:
  "reset_providers db ps = Inr db' \<Longrightarrow> allocations db' = allocations db \<and> intents db' = intents db"
proof (induction ps arbitrary: db)
  case (Cons p ps)
  from Cons.prems show ?case
    unfolding reset_providers_Cons by (auto split: option.splits dest!: Cons.IH)
qed simp

text \<open>A reconciliation removes the allocations and the intents whose consumer is neither in the
  caller's list nor a durable instance that is not deleted, and nothing else: no allocation is
  released beneath a live consumer, and no orphan survives.\<close>

theorem reconcile_keeps_exactly_live:
  assumes "reconcile_consumers db ds = (Inr report, db')"
    and "distinct (map al_id (allocations db))" and "distinct (map al_id (intents db))"
  shows "allocations db' =
      filter (\<lambda>a. al_consumer a \<in> set (live_consumers db ds)) (allocations db)
    \<and> intents db' = filter (\<lambda>a. al_consumer a \<in> set (live_consumers db ds)) (intents db)"
  using assms(1) filter_dead [OF _ assms(2)] filter_dead [OF _ assms(3)]
  by (auto simp: reconcile_consumers_def Let_def dest!: reset_providers_tables split: sum.splits)

definition demo_placement_ops :: "placement_op list" where
  "demo_placement_ops =
     [OpRegister ''n''
        [\<lparr>resource_class = ''VCPU'', total = 8, inv_reserved = 0, allocation_ratio = one_f64, used = 5\<rparr>],
      OpInstances [(''live'', ''compute_instance'', ''ACTIVE''), (''gone'', ''compute_instance'', ''DELETED'')],
      OpCommit 1 \<lparr>pa_id = ''a1'', pa_provider = ''n'', pa_consumer = ''live'',
        pa_resources = [(''VCPU'', 2)]\<rparr>,
      OpCommit 2 \<lparr>pa_id = ''a2'', pa_provider = ''n'', pa_consumer = ''gone'',
        pa_resources = [(''VCPU'', 3)]\<rparr>,
      OpUpsertIntent \<lparr>pa_id = ''a3'', pa_provider = ''n'', pa_consumer = ''gone'',
        pa_resources = [(''VCPU'', 1)]\<rparr>]"

definition demo_placement :: placement_db where
  "demo_placement = run_ops placement_step no_placement demo_placement_ops"

lemma demo_placement_eq:
  "demo_placement =
     \<lparr>providers = [(''n'', \<lparr>row_node = ''n'', row_state = ''Enabled'', row_generation = 3,
        row_inventories = [\<lparr>ir_class = ''VCPU'', ir_total = 8, ir_reserved = 0, ir_ratio = one_f64,
          ir_used = 5\<rparr>], row_parent = None, row_location = None, row_traits = [],
        row_failure_domains = []\<rparr>)],
      allocations =
        [\<lparr>al_id = ''a1'', al_provider = ''n'', al_consumer = ''live'', al_resources = [(''VCPU'', 2)]\<rparr>,
         \<lparr>al_id = ''a2'', al_provider = ''n'', al_consumer = ''gone'', al_resources = [(''VCPU'', 3)]\<rparr>],
      intents =
        [\<lparr>al_id = ''a3'', al_provider = ''n'', al_consumer = ''gone'', al_resources = [(''VCPU'', 1)]\<rparr>],
      instances = [(''live'', ''compute_instance'', ''ACTIVE''), (''gone'', ''compute_instance'', ''DELETED'')]\<rparr>"
  by code_simp


definition demo_reconciled :: "reconcile_record placement_outcome" where
  "demo_reconciled = reconcile_consumers demo_placement []"

lemma demo_reconciled_ok:
  "(case fst demo_reconciled of Inr r \<Rightarrow> map pa_id (orphaned_allocations r) = [''a2''] | Inl e \<Rightarrow> False)"
  unfolding demo_reconciled_def demo_placement_eq by code_simp

theorem reconcile_keeps_exactly_live_witness:
  "map al_id (allocations (snd demo_reconciled)) = [''a1''] \<and> intents (snd demo_reconciled) = []"
proof -
  obtain r where "fst demo_reconciled = Inr r"
    using demo_reconciled_ok by (auto split: sum.splits)
  then have r: "reconcile_consumers demo_placement [] = (Inr r, snd demo_reconciled)"
    by (metis demo_reconciled_def prod.collapse)
  have live: "live_consumers demo_placement [] = [''live'']"
    unfolding demo_placement_eq by code_simp
  show ?thesis
    using reconcile_keeps_exactly_live [OF r, unfolded live] by (simp add: demo_placement_eq)
qed

lemma insert_inventories_used:
  "insert_inventories rows zs = Inr rows' \<Longrightarrow>
   map ir_used rows' = map ir_used rows @ map (\<lambda>z. uint (snd z)) zs"
  by (induction rows zs rule: insert_inventories.induct)
    (auto split: sum.splits if_splits dest: placement_i64_uint)

text \<open>The import is not skip-if-present for usage. Importing a provider that exists keeps its
  generation and every allocation, and sets each inventory's usage to the number in the journal:
  when the journal is imported again (its renaming failed, and that failure is ignored), the
  allocations made since count as free capacity, and no generation tells a reader.\<close>

theorem import_overwrites_usage:
  assumes "import_provider db p = (Inr (), db')" and "find_provider db (pr_id p) = Some r0"
  shows "\<exists>r. find_provider db' (pr_id p) = Some r
    \<and> map ir_used (row_inventories r) = map (\<lambda>i. uint (used i)) (pr_inventories p)
    \<and> row_generation r = row_generation r0
    \<and> set (allocations db) \<subseteq> set (allocations db')"
proof -
  let ?r1 = "r0\<lparr>row_parent := pr_parent p, row_location := pr_location p,
    row_traits := pr_traits p, row_failure_domains := pr_failure_domains p\<rparr>"
  obtain rows where rows: "insert_inventories [] (map (\<lambda>i. (i, used i)) (pr_inventories p)) = Inr rows"
    and as: "import_allocations (put_provider (put_provider db (pr_id p) ?r1) (pr_id p)
      (?r1\<lparr>row_inventories := rows\<rparr>)) (pr_allocations p) = Inr db'"
    using assms by (auto simp: import_provider_def import_ensure_def Let_def split: sum.splits if_splits)
  from import_allocations_tables [OF as] insert_inventories_used [OF rows] show ?thesis
    by (intro exI [of _ "?r1\<lparr>row_inventories := rows\<rparr>"])
      (simp add: find_provider_def put_provider_def update_conv' comp_def)
qed

definition demo_journal :: provider_record where
  "demo_journal =
     \<lparr>pr_id = ''n'', pr_node = ''n'', pr_state = ''Enabled'', pr_generation = 1,
      pr_inventories = [\<lparr>resource_class = ''VCPU'', total = 8, inv_reserved = 0,
        allocation_ratio = one_f64, used = 0\<rparr>],
      pr_allocations = [], pr_parent = None, pr_traits = [], pr_failure_domains = [],
      pr_location = None\<rparr>"

lemma demo_import_ok: "fst (import_provider demo_placement demo_journal) = Inr ()"
  unfolding demo_placement_eq demo_journal_def by code_simp

lemma demo_import_allocated:
  "allocated_amounts (snd (import_provider demo_placement demo_journal)) ''n'' ''VCPU'' = [2, 3]"
  unfolding demo_placement_eq demo_journal_def by code_simp

theorem import_overwrites_usage_witness:
  "\<exists>db' r. import_provider demo_placement demo_journal = (Inr (), db')
     \<and> find_provider db' ''n'' = Some r \<and> map ir_used (row_inventories r) = [0]
     \<and> sum_list (allocated_amounts db' ''n'' ''VCPU'') = 5"
proof -
  let ?db = "snd (import_provider demo_placement demo_journal)"
  have i: "import_provider demo_placement demo_journal = (Inr (), ?db)"
    using demo_import_ok by (metis prod.collapse)
  have "\<exists>r. find_provider demo_placement (pr_id demo_journal) = Some r"
    unfolding demo_placement_eq demo_journal_def by (simp add: find_provider_def)
  then obtain r0 where "find_provider demo_placement (pr_id demo_journal) = Some r0" ..
  from import_overwrites_usage [OF i this] show ?thesis
    using i demo_import_allocated by (auto simp: demo_journal_def)
qed

end
