(* ===== verification/Placement_Ledger.thy ===== *)
theory Placement_Ledger
  imports Store_Placement Rust_Collections "HOL-Library.Product_Lexorder"
begin

text \<open>
  The placement ledger (\<open>crates/o3k-placement/src/lib.rs\<close>) over the repository of
  \<open>Store_Placement\<close>: allocation intents, allocation against a provider's inventories,
  candidates for a request, provider metadata and the import of the legacy journals. Every
  operation answers a result and the tables after it. \<open>BTreeMap\<close>s are sorted association lists
  and \<open>BTreeSet\<close>s are sets (\<open>Rust_Collections\<close>); the messages of errors are left out.
  Lemmas: capacity holds under concurrent callers, retries are idempotent, candidates are
  ranked best first and can be allocated on, the hierarchy of providers stays acyclic.
\<close>

section \<open>Types\<close>

datatype provider_state = Enabled | Draining | Unavailable | Deleted

record inventory =
  i_total :: u64
  i_reserved :: u64
  i_ratio :: f64
  i_used :: u64

definition available :: "inventory \<Rightarrow> u64" where
  "available i =
     saturating_sub (saturating_sub (scale_floor (i_total i) (i_ratio i)) (i_reserved i)) (i_used i)"

type_synonym resources = "(string \<times> u64) list"

record allocation =
  alloc_provider :: string
  alloc_consumer :: string
  alloc_resources :: resources

record allocation_intent =
  ai_provider :: string
  ai_id :: string
  ai_consumer :: string
  ai_resources :: resources

record resource_provider =
  rp_id :: string
  rp_node :: string
  rp_state :: provider_state
  rp_generation :: u64
  rp_inventories :: "(string \<times> inventory) list"
  rp_allocations :: "(string \<times> allocation) list"
  rp_parent :: "string option"
  rp_traits :: "string set"
  rp_domains :: "string set"
  rp_location :: "string option"

record candidate_request =
  cr_resources :: resources
  cr_required_traits :: "string set"
  cr_forbidden_traits :: "string set"
  cr_locations :: "string set"
  cr_forbidden_locations :: "string set"
  cr_preferred_locations :: "string set"
  cr_domains :: "string set"
  cr_forbidden_domains :: "string set"
  cr_spread_away :: "string set"
  cr_limit :: u64

record placement_candidate =
  pc_provider :: string
  pc_generation :: u64

definition max_candidate_limit :: u64 where "max_candidate_limit = 256"

definition max_constraint_set :: nat where "max_constraint_set = 64"

datatype placement_error =
    NotFound | StaleGeneration | NotSchedulable | OverCapacity | InvalidAllocation
  | CorruptState | StoreFailed placement_store_error | InvalidHierarchy
  | InvalidTopologyReference | ConstraintLimit

definition map_store_error :: "placement_store_error \<Rightarrow> placement_error" where
  "map_store_error e =
     (case e of
        PlacementProviderNotFound \<Rightarrow> NotFound
      | PlacementStaleGeneration \<Rightarrow> StaleGeneration
      | PlacementAllocationConflict \<Rightarrow> InvalidAllocation
      | PlacementIntentConflict \<Rightarrow> InvalidAllocation
      | other \<Rightarrow> StoreFailed other)"

type_synonym 'a ledger_outcome = "(placement_error, 'a) rust_result \<times> placement_db"

definition ledger_result :: "('a \<Rightarrow> 'b) \<Rightarrow> 'a placement_outcome \<Rightarrow> 'b ledger_outcome" where
  "ledger_result f out =
     (case out of (Inl e, db) \<Rightarrow> (Inl (map_store_error e), db) | (Inr x, db) \<Rightarrow> (Inr (f x), db))"

section \<open>Conversions\<close>

fun provider_state_as_str :: "provider_state \<Rightarrow> string" where
  "provider_state_as_str Enabled = ''Enabled''"
| "provider_state_as_str Draining = ''Draining''"
| "provider_state_as_str Unavailable = ''Unavailable''"
| "provider_state_as_str Deleted = ''Deleted''"

definition provider_state_from_str :: "string \<Rightarrow> provider_state option" where
  "provider_state_from_str s =
     (if s = ''Enabled'' then Some Enabled else if s = ''Draining'' then Some Draining
      else if s = ''Unavailable'' then Some Unavailable else if s = ''Deleted'' then Some Deleted
      else None)"

definition inventory_records :: "(string \<times> inventory) list \<Rightarrow> placement_inventory list" where
  "inventory_records m =
     map (\<lambda>(c, i). \<lparr>resource_class = c, total = i_total i, inv_reserved = i_reserved i,
                    allocation_ratio = i_ratio i, used = i_used i\<rparr>) m"

definition inventory_map :: "placement_inventory list \<Rightarrow> (string \<times> inventory) list" where
  "inventory_map rs =
     btree_collect
       (map (\<lambda>r. (resource_class r, \<lparr>i_total = total r, i_reserved = inv_reserved r,
                                      i_ratio = allocation_ratio r, i_used = used r\<rparr>)) rs)"

definition resource_records :: "resources \<Rightarrow> (string \<times> u64) list" where
  "resource_records m = m"

definition resource_map :: "(string \<times> u64) list \<Rightarrow> resources" where
  "resource_map rs = btree_collect rs"

definition allocation_from_record :: "placement_allocation \<Rightarrow> allocation" where
  "allocation_from_record r =
     \<lparr>alloc_provider = pa_provider r, alloc_consumer = pa_consumer r,
      alloc_resources = resource_map (pa_resources r)\<rparr>"

definition provider_from_record ::
  "provider_record \<Rightarrow> (placement_error, resource_provider) rust_result" where
  "provider_from_record r =
     (case provider_state_from_str (pr_state r) of
        None \<Rightarrow> Inl CorruptState
      | Some s \<Rightarrow> Inr
          \<lparr>rp_id = pr_id r, rp_node = pr_node r, rp_state = s, rp_generation = pr_generation r,
           rp_inventories = inventory_map (pr_inventories r),
           rp_allocations =
             btree_collect (map (\<lambda>a. (pa_id a, allocation_from_record a)) (pr_allocations r)),
           rp_parent = pr_parent r, rp_traits = set (pr_traits r),
           rp_domains = set (pr_failure_domains r), rp_location = pr_location r\<rparr>)"

definition intent_from_record :: "placement_allocation \<Rightarrow> allocation_intent" where
  "intent_from_record r =
     \<lparr>ai_provider = pa_provider r, ai_id = pa_id r, ai_consumer = pa_consumer r,
      ai_resources = resource_map (pa_resources r)\<rparr>"

definition intent_to_record :: "allocation_intent \<Rightarrow> placement_allocation" where
  "intent_to_record i =
     \<lparr>pa_id = ai_id i, pa_provider = ai_provider i, pa_consumer = ai_consumer i,
      pa_resources = resource_records (ai_resources i)\<rparr>"

definition provider_to_record :: "resource_provider \<Rightarrow> provider_record" where
  "provider_to_record p =
     \<lparr>pr_id = rp_id p, pr_node = rp_node p, pr_state = provider_state_as_str (rp_state p),
      pr_generation = rp_generation p, pr_inventories = inventory_records (rp_inventories p),
      pr_allocations =
        map (\<lambda>(i, a). \<lparr>pa_id = i, pa_provider = alloc_provider a, pa_consumer = alloc_consumer a,
                       pa_resources = resource_records (alloc_resources a)\<rparr>) (rp_allocations p),
      pr_parent = rp_parent p, pr_traits = sorted_list_of_set (rp_traits p),
      pr_failure_domains = sorted_list_of_set (rp_domains p), pr_location = rp_location p\<rparr>"

section \<open>Providers\<close>

definition ledger_provider :: "placement_db \<Rightarrow> string \<Rightarrow> (placement_error, resource_provider) rust_result"
  where
  "ledger_provider db p =
     (case get_provider db p of
        Inl e \<Rightarrow> Inl (map_store_error e)
      | Inr None \<Rightarrow> Inl NotFound
      | Inr (Some r) \<Rightarrow> provider_from_record r)"

definition ledger_providers :: "placement_db \<Rightarrow> (placement_error, resource_provider list) rust_result"
  where
  "ledger_providers db =
     (case list_providers db of
        Inl e \<Rightarrow> Inl (map_store_error e)
      | Inr rs \<Rightarrow> collect_results provider_from_record rs)"

text \<open>The repository operations that answer a provider.\<close>

definition answer_provider :: "provider_record placement_outcome \<Rightarrow> resource_provider ledger_outcome"
  where
  "answer_provider out =
     (case out of
        (Inl e, db) \<Rightarrow> (Inl (map_store_error e), db)
      | (Inr r, db) \<Rightarrow> (provider_from_record r, db))"

definition ledger_register_provider ::
  "placement_db \<Rightarrow> string \<Rightarrow> (string \<times> inventory) list \<Rightarrow> resource_provider ledger_outcome" where
  "ledger_register_provider db node invs =
     (if trim node = [] then (Inl InvalidAllocation, db)
      else answer_provider (register_provider db node (inventory_records invs)))"

definition ledger_sync_provider ::
  "placement_db \<Rightarrow> string \<Rightarrow> (string \<times> inventory) list \<Rightarrow> provider_state
     \<Rightarrow> resource_provider ledger_outcome" where
  "ledger_sync_provider db node invs s =
     (if trim node = [] then (Inl InvalidAllocation, db)
      else answer_provider (sync_provider db node (provider_state_as_str s) (inventory_records invs)))"

definition ledger_refresh_inventory ::
  "placement_db \<Rightarrow> string \<Rightarrow> u64 \<Rightarrow> (string \<times> inventory) list \<Rightarrow> resource_provider ledger_outcome"
  where
  "ledger_refresh_inventory db p g invs =
     answer_provider (refresh_inventories db p g (inventory_records invs))"

definition ledger_set_state :: "placement_db \<Rightarrow> string \<Rightarrow> provider_state \<Rightarrow> unit ledger_outcome" where
  "ledger_set_state db p s = ledger_result id (set_provider_state db p (provider_state_as_str s))"

section \<open>Metadata and hierarchy\<close>

definition location_char :: "char \<Rightarrow> bool" where
  "location_char c =
     (let n = (of_char c :: nat) in 97 \<le> n \<and> n \<le> 122 \<or> 48 \<le> n \<and> n \<le> 57)"

definition valid_location :: "string \<Rightarrow> bool" where
  "valid_location v =
     (case v of
        [] \<Rightarrow> False
      | c # cs \<Rightarrow> location_char c \<and> length v \<le> 128
          \<and> list_all (\<lambda>c. location_char c \<or> c = CHR ''-'' \<or> c = CHR ''_'') cs)"

definition validate_metadata ::
  "string option \<Rightarrow> string set \<Rightarrow> string set \<Rightarrow> string option \<Rightarrow> bool" where
  "validate_metadata parent traits domains location \<longleftrightarrow>
     \<not> ((case parent of None \<Rightarrow> False | Some v \<Rightarrow> trim v = [])
        \<or> (case location of None \<Rightarrow> False | Some v \<Rightarrow> trim v = [] \<or> \<not> valid_location v)
        \<or> (\<exists>v\<in>traits \<union> domains. trim v = [] \<or> length v > 128)
        \<or> (\<exists>v\<in>domains. \<not> valid_location v)
        \<or> card traits > max_constraint_set
        \<or> card domains > max_constraint_set)"

definition ledger_register_hierarchical ::
  "placement_db \<Rightarrow> string \<Rightarrow> (string \<times> inventory) list \<Rightarrow> string option \<Rightarrow> string set \<Rightarrow> string set
     \<Rightarrow> string option \<Rightarrow> resource_provider ledger_outcome" where
  "ledger_register_hierarchical db node invs parent traits domains location =
     (if \<not> validate_metadata parent traits domains location then (Inl InvalidTopologyReference, db)
      else case ledger_providers db of
             Inl e \<Rightarrow> (Inl e, db)
           | Inr existing \<Rightarrow>
               if (case parent of None \<Rightarrow> False | Some q \<Rightarrow> q = node \<or> q \<notin> rp_id ` set existing)
               then (Inl InvalidHierarchy, db)
               else answer_provider
                      (register_provider_metadata db node (inventory_records invs) parent
                        (sorted_list_of_set traits) (sorted_list_of_set domains) location))"

text \<open>The walk of the ledger from the proposed parent; \<open>True\<close>: the chain ends without the provider.\<close>

fun hierarchy_walk :: "nat \<Rightarrow> resource_provider list \<Rightarrow> string \<Rightarrow> string option \<Rightarrow> bool" where
  "hierarchy_walk 0 ps self cursor = (cursor = None)"
| "hierarchy_walk (Suc n) ps self cursor =
     (case cursor of
        None \<Rightarrow> True
      | Some i \<Rightarrow>
          i \<noteq> self \<and>
          hierarchy_walk n ps self
            (case find (\<lambda>p. rp_id p = i) ps of None \<Rightarrow> None | Some p \<Rightarrow> rp_parent p))"

definition ledger_update_hierarchy ::
  "placement_db \<Rightarrow> string \<Rightarrow> u64 \<Rightarrow> string option \<Rightarrow> string set \<Rightarrow> string set \<Rightarrow> string option
     \<Rightarrow> resource_provider ledger_outcome" where
  "ledger_update_hierarchy db p g parent traits domains location =
     (if \<not> validate_metadata parent traits domains location then (Inl InvalidTopologyReference, db)
      else case ledger_providers db of
             Inl e \<Rightarrow> (Inl e, db)
           | Inr ps \<Rightarrow>
               if (case parent of None \<Rightarrow> False | Some q \<Rightarrow> q = p \<or> q \<notin> rp_id ` set ps)
                 \<or> \<not> hierarchy_walk 64 ps p parent
               then (Inl InvalidHierarchy, db)
               else answer_provider
                      (update_provider_metadata db p g parent (sorted_list_of_set traits)
                        (sorted_list_of_set domains) location))"

section \<open>Candidates\<close>

text \<open>
  At most 64 steps up, every ancestor present and enabled, none twice; the chain has to have
  ended before the 64th step is over.
\<close>

fun ancestors_walk ::
  "nat \<Rightarrow> (string \<times> resource_provider) list \<Rightarrow> string set \<Rightarrow> string option \<Rightarrow> bool" where
  "ancestors_walk 0 by_id seen cursor = False"
| "ancestors_walk (Suc n) by_id seen cursor =
     (case cursor of
        None \<Rightarrow> True
      | Some i \<Rightarrow>
          if i \<in> seen then False
          else case map_of by_id i of
                 None \<Rightarrow> False
               | Some q \<Rightarrow>
                   if rp_state q \<noteq> Enabled then False
                   else ancestors_walk n by_id (insert i seen) (rp_parent q))"

definition ancestors_enabled ::
  "resource_provider \<Rightarrow> (string \<times> resource_provider) list \<Rightarrow> bool" where
  "ancestors_enabled p by_id = ancestors_walk 64 by_id {} (rp_parent p)"

definition request_in_bounds :: "candidate_request \<Rightarrow> bool" where
  "request_in_bounds r \<longleftrightarrow>
     \<not> (cr_resources r = [] \<or> list_ex (\<lambda>x. snd x = 0) (cr_resources r)
        \<or> cr_limit r > max_candidate_limit \<or> cr_limit r = 0
        \<or> card (cr_required_traits r) > max_constraint_set
        \<or> card (cr_forbidden_traits r) > max_constraint_set
        \<or> card (cr_locations r) > max_constraint_set
        \<or> card (cr_forbidden_locations r) > max_constraint_set
        \<or> card (cr_preferred_locations r) > max_constraint_set
        \<or> card (cr_domains r) > max_constraint_set
        \<or> card (cr_forbidden_domains r) > max_constraint_set
        \<or> card (cr_spread_away r) > max_constraint_set)"

definition fits :: "(string \<times> inventory) list \<Rightarrow> resources \<Rightarrow> bool" where
  "fits invs rs =
     list_all (\<lambda>(c, n). case map_of invs c of None \<Rightarrow> False | Some i \<Rightarrow> n \<le> available i) rs"

definition eligible ::
  "candidate_request \<Rightarrow> (string \<times> resource_provider) list \<Rightarrow> resource_provider \<Rightarrow> bool" where
  "eligible r by_id p \<longleftrightarrow>
     rp_state p = Enabled
     \<and> fits (rp_inventories p) (cr_resources r)
     \<and> cr_required_traits r \<subseteq> rp_traits p
     \<and> cr_forbidden_traits r \<inter> rp_traits p = {}
     \<and> (cr_locations r = {}
        \<or> (case rp_location p of None \<Rightarrow> False | Some l \<Rightarrow> l \<in> cr_locations r))
     \<and> (\<forall>l\<in>cr_forbidden_locations r. rp_location p \<noteq> Some l)
     \<and> cr_domains r \<subseteq> rp_domains p
     \<and> cr_forbidden_domains r \<inter> rp_domains p = {}
     \<and> ancestors_enabled p by_id"

text \<open>
  The order of \<open>sort_by\<close>, stable and on providers in the order of their identifiers: local ones
  first, then the ones that spread, then the largest free capacity over all classes (the sum
  wraps, as the release profile adds), then the identifier.
\<close>

definition free_capacity :: "resource_provider \<Rightarrow> u64" where
  "free_capacity p = foldl (+) 0 (map (\<lambda>(c, i). available i) (rp_inventories p))"

definition rank_of :: "candidate_request \<Rightarrow> resource_provider \<Rightarrow> bool \<times> bool \<times> nat \<times> string" where
  "rank_of r p =
     ((case rp_location p of None \<Rightarrow> [] | Some l \<Rightarrow> l) \<notin> cr_preferred_locations r,
      rp_domains p \<inter> cr_spread_away r \<noteq> {},
      2 ^ 64 - unat (free_capacity p),
      rp_id p)"

definition ranked_providers ::
  "candidate_request \<Rightarrow> resource_provider list \<Rightarrow> resource_provider list" where
  "ranked_providers r ps =
     (let by_id = btree_collect (map (\<lambda>p. (rp_id p, p)) ps)
      in sort_key (rank_of r) (filter (eligible r by_id) ps))"

definition candidates ::
  "placement_db \<Rightarrow> candidate_request \<Rightarrow> (placement_error, placement_candidate list) rust_result"
  where
  "candidates db r =
     (if \<not> request_in_bounds r then Inl ConstraintLimit
      else case ledger_providers db of
             Inl e \<Rightarrow> Inl e
           | Inr ps \<Rightarrow>
               Inr (map (\<lambda>p. \<lparr>pc_provider = rp_id p, pc_generation = rp_generation p\<rparr>)
                     (take (unat (cr_limit r)) (ranked_providers r ps))))"

section \<open>Allocation\<close>

text \<open>
  \<open>get_provider\<close> reads the provider's row, its inventories and its allocations in separate
  statements outside a transaction, and the commit is a transaction of its own. The operation is
  modelled over four states of the tables, in the order of its statements, so that other
  callers may run between them; \<open>allocate\<close> is the undisturbed case.
\<close>

definition read_provider_at ::
  "placement_db \<Rightarrow> placement_db \<Rightarrow> placement_db \<Rightarrow> string
     \<Rightarrow> (placement_store_error, provider_record option) rust_result" where
  "read_provider_at d1 d2 d3 p =
     (case find_provider d1 p of
        None \<Rightarrow> Inr None
      | Some r \<Rightarrow>
          let is = (case find_provider d2 p of None \<Rightarrow> [] | Some r2 \<Rightarrow> row_inventories r2)
          in (case provider_of_row d3 (p, r\<lparr>row_inventories := is\<rparr>) of
                Inl e \<Rightarrow> Inl e
              | Inr rec \<Rightarrow> Inr (Some rec)))"

definition allocate_at ::
  "placement_db \<Rightarrow> placement_db \<Rightarrow> placement_db \<Rightarrow> placement_db \<Rightarrow> string \<Rightarrow> string \<Rightarrow> string
     \<Rightarrow> resources \<Rightarrow> u64 \<Rightarrow> allocation ledger_outcome" where
  "allocate_at d1 d2 d3 d4 p i c rs g =
     (if i = [] \<or> c = [] \<or> rs = [] \<or> list_ex (\<lambda>x. snd x = 0) rs then (Inl InvalidAllocation, d4)
      else case read_provider_at d1 d2 d3 p of
        Inl e \<Rightarrow> (Inl (map_store_error e), d4)
      | Inr None \<Rightarrow> (Inl NotFound, d4)
      | Inr (Some rec) \<Rightarrow>
          (case find (\<lambda>a. pa_id a = i) (pr_allocations rec) of
             Some existing \<Rightarrow>
               let a = allocation_from_record existing in
               if alloc_consumer a = c \<and> alloc_resources a = rs then (Inr a, d4)
               else (Inl InvalidAllocation, d4)
           | None \<Rightarrow>
               if pr_generation rec \<noteq> g then (Inl StaleGeneration, d4)
               else if provider_state_from_str (pr_state rec) \<noteq> Some Enabled
               then (Inl NotSchedulable, d4)
               else if \<not> fits (inventory_map (pr_inventories rec)) rs then (Inl OverCapacity, d4)
               else ledger_result allocation_from_record
                      (commit_allocation d4 p g
                        \<lparr>pa_id = i, pa_provider = p, pa_consumer = c,
                         pa_resources = resource_records rs\<rparr>)))"

definition allocate ::
  "placement_db \<Rightarrow> string \<Rightarrow> string \<Rightarrow> string \<Rightarrow> resources \<Rightarrow> u64 \<Rightarrow> allocation ledger_outcome" where
  "allocate db p i c rs g = allocate_at db db db db p i c rs g"

definition release :: "placement_db \<Rightarrow> string \<Rightarrow> string \<Rightarrow> unit ledger_outcome" where
  "release db p i = ledger_result id (release_allocation db p i)"

section \<open>Intents\<close>

definition begin_allocation_intent ::
  "placement_db \<Rightarrow> string \<Rightarrow> string \<Rightarrow> string \<Rightarrow> resources \<Rightarrow> allocation_intent ledger_outcome" where
  "begin_allocation_intent db p i c rs =
     (if p = [] \<or> i = [] \<or> c = [] \<or> rs = [] \<or> list_ex (\<lambda>x. snd x = 0) rs
      then (Inl InvalidAllocation, db)
      else let intent = \<lparr>ai_provider = p, ai_id = i, ai_consumer = c, ai_resources = rs\<rparr>
           in ledger_result (\<lambda>_. intent) (upsert_intent db (intent_to_record intent)))"

definition allocation_intent_of ::
  "placement_db \<Rightarrow> string \<Rightarrow> (placement_error, allocation_intent option) rust_result" where
  "allocation_intent_of db i =
     (case get_intent db i of
        Inl e \<Rightarrow> Inl (map_store_error e)
      | Inr stored \<Rightarrow> Inr (map_option intent_from_record stored))"

text \<open>The intent to finish: the stored one, or the given one when it is allocated already.\<close>

definition intent_to_commit ::
  "placement_db \<Rightarrow> allocation_intent \<Rightarrow> (placement_error, allocation_intent) rust_result" where
  "intent_to_commit db intent =
     (case allocation_intent_of db (ai_id intent) of
        Inl e \<Rightarrow> Inl e
      | Inr (Some stored) \<Rightarrow> Inr stored
      | Inr None \<Rightarrow>
          (case ledger_provider db (ai_provider intent) of
             Inl _ \<Rightarrow> Inl InvalidAllocation
           | Inr p \<Rightarrow>
               (case map_of (rp_allocations p) (ai_id intent) of
                  None \<Rightarrow> Inl InvalidAllocation
                | Some a \<Rightarrow>
                    if alloc_consumer a = ai_consumer intent \<and> alloc_resources a = ai_resources intent
                    then Inr intent else Inl InvalidAllocation)))"

definition commit_allocation_intent ::
  "placement_db \<Rightarrow> allocation_intent \<Rightarrow> u64 \<Rightarrow> allocation ledger_outcome" where
  "commit_allocation_intent db intent g =
     (case intent_to_commit db intent of
        Inl e \<Rightarrow> (Inl e, db)
      | Inr stored \<Rightarrow>
          if stored \<noteq> intent then (Inl InvalidAllocation, db)
          else (case allocate db (ai_provider intent) (ai_id intent) (ai_consumer intent)
                       (ai_resources intent) g of
                  (Inl e, db1) \<Rightarrow> (Inl e, db1)
                | (Inr a, db1) \<Rightarrow> (Inr a, delete_intent db1 (ai_id intent))))"

definition abandon_allocation_intent ::
  "placement_db \<Rightarrow> allocation_intent \<Rightarrow> unit ledger_outcome" where
  "abandon_allocation_intent db intent =
     (case allocation_intent_of db (ai_id intent) of
        Inl e \<Rightarrow> (Inl e, db)
      | Inr None \<Rightarrow> (Inr (), db)
      | Inr (Some stored) \<Rightarrow>
          if stored \<noteq> intent then (Inl InvalidAllocation, db)
          else (Inr (), delete_intent db (ai_id intent)))"

record orphaned_allocation =
  oa_provider :: string
  oa_id :: string
  oa_consumer :: string
  oa_resources :: resources

definition ledger_reconcile ::
  "placement_db \<Rightarrow> string list \<Rightarrow> (orphaned_allocation list \<times> allocation_intent list) ledger_outcome"
  where
  "ledger_reconcile db consumers =
     ledger_result
       (\<lambda>rep. (sort_key (\<lambda>o'. (oa_provider o', oa_id o'))
                 (map (\<lambda>a. \<lparr>oa_provider = pa_provider a, oa_id = pa_id a, oa_consumer = pa_consumer a,
                             oa_resources = resource_map (pa_resources a)\<rparr>)
                   (orphaned_allocations rep)),
               map intent_from_record (abandoned_intents rep)))
       (reconcile_consumers db consumers)"

section \<open>Import of the legacy journals\<close>

text \<open>
  One pass over the pending providers, in the order of their keys: a provider whose parent was
  not imported waits. An import that fails keeps the ones before it. Answers what is pending
  after the pass, what was imported, and whether something was.
\<close>

fun import_pass ::
  "placement_db \<Rightarrow> (string \<times> resource_provider) list \<Rightarrow> string set
     \<Rightarrow> ((string \<times> resource_provider) list \<times> string set \<times> bool) ledger_outcome" where
  "import_pass db [] imported = (Inr ([], imported, False), db)"
| "import_pass db ((k, p) # ps) imported =
     (if (case rp_parent p of None \<Rightarrow> False | Some q \<Rightarrow> q \<notin> imported)
      then (case import_pass db ps imported of
              (Inl e, d) \<Rightarrow> (Inl e, d)
            | (Inr (rest, imp, progress), d) \<Rightarrow> (Inr ((k, p) # rest, imp, progress), d))
      else case import_provider db (provider_to_record p) of
             (Inl e, d) \<Rightarrow> (Inl (map_store_error e), d)
           | (Inr _, d1) \<Rightarrow>
               (case import_pass d1 ps (insert k imported) of
                  (Inl e, d) \<Rightarrow> (Inl e, d)
                | (Inr (rest, imp, progress), d) \<Rightarrow> (Inr (rest, imp, True), d)))"

lemma import_pass_shrinks:
  "import_pass db ps imported = (Inr (rest, imp, progress), d) \<Longrightarrow>
   length rest \<le> length ps \<and> (progress \<longrightarrow> length rest < length ps)"
  by (induction db ps imported arbitrary: rest imp progress d rule: import_pass.induct)
    (force split: if_splits prod.splits sum.splits)+

function import_rounds ::
  "placement_db \<Rightarrow> (string \<times> resource_provider) list \<Rightarrow> string set \<Rightarrow> unit ledger_outcome" where
  "import_rounds db [] imported = (Inr (), db)"
| "import_rounds db (p # ps) imported =
     (case import_pass db (p # ps) imported of
        (Inl e, d) \<Rightarrow> (Inl e, d)
      | (Inr (rest, imp, progress), d) \<Rightarrow>
          (if progress then import_rounds d rest imp else (Inl InvalidHierarchy, d)))"
  by pat_completeness auto
termination
  by (relation "measure (\<lambda>(db, ps, imported). length ps)")
    (auto dest!: import_pass_shrinks [OF sym])

fun import_intents :: "placement_db \<Rightarrow> allocation_intent list \<Rightarrow> unit ledger_outcome" where
  "import_intents db [] = (Inr (), db)"
| "import_intents db (i # is) =
     (case upsert_intent db (intent_to_record i) of
        (Inl e, d) \<Rightarrow> (Inl (map_store_error e), d)
      | (Inr _, d) \<Rightarrow> import_intents d is)"

text \<open>The import of parsed journals; a journal that is absent is empty.\<close>

definition import_legacy_files ::
  "placement_db \<Rightarrow> (string \<times> resource_provider) list \<Rightarrow> (string \<times> allocation_intent) list
     \<Rightarrow> unit ledger_outcome" where
  "import_legacy_files db ps is =
     (case import_rounds db ps {} of
        (Inl e, d) \<Rightarrow> (Inl e, d)
      | (Inr _, d) \<Rightarrow> import_intents d (map snd is))"

section \<open>What a fenced repository promises a reader\<close>

text \<open>
  The interface the ledger relies on: states in the order they become current, rows that never
  disappear and whose generations never decrease, and what a row offers is the same between two
  states that have the same generation. A value read between a read of the generation and a
  write that was fenced with it is then the value at the write.
\<close>

locale fenced_store =
  fixes later :: "'db \<Rightarrow> 'db \<Rightarrow> bool"
    and row :: "'db \<Rightarrow> string \<Rightarrow> 'row option"
    and generation :: "'row \<Rightarrow> int"
    and offer :: "'row \<Rightarrow> 'offer"
  assumes row_kept: "later d d' \<Longrightarrow> row d p = Some r \<Longrightarrow>
    \<exists>r'. row d' p = Some r' \<and> generation r \<le> generation r'
      \<and> (generation r = generation r' \<longrightarrow> offer r' = offer r)"
begin

lemma read_is_current:
  assumes "later d1 d2" and "later d2 d3" and "row d1 p = Some r1" and "row d3 p = Some r3"
    and "generation r3 = generation r1"
  shows "offer r3 = offer r1" and "\<exists>r2. row d2 p = Some r2 \<and> offer r2 = offer r3"
proof -
  obtain r2 where r2: "row d2 p = Some r2" "generation r1 \<le> generation r2"
      "generation r1 = generation r2 \<longrightarrow> offer r2 = offer r1"
    using row_kept [OF assms(1,3)] by blast
  obtain r3' where "row d3 p = Some r3'" "generation r2 \<le> generation r3'"
      "generation r2 = generation r3' \<longrightarrow> offer r3' = offer r2"
    using row_kept [OF assms(2) r2(1)] by blast
  with assms(4,5) r2 show "offer r3 = offer r1" "\<exists>r2. row d2 p = Some r2 \<and> offer r2 = offer r3"
    by auto
qed

end

interpretation placement_store: fenced_store fenced find_provider row_generation
    "\<lambda>r. (row_state r, row_inventories r)"
  by unfold_locales (auto simp: fenced_def row_le_def)

section \<open>Reading a provider\<close>

lemma provider_of_row_Inr:
  assumes "provider_of_row db (p, r) = Inr rec"
  shows "pr_id rec = p" "pr_state rec = row_state r" "u64_of_i64 (row_generation r) = Some (pr_generation rec)"
    "load_inventories r = Inr (pr_inventories rec)" "load_allocations db p = Inr (pr_allocations rec)"
  using assms
  by (auto simp: provider_of_row_def placement_u64_def split: sum.splits option.splits)

lemma read_provider_at_Inr:
  assumes "read_provider_at d1 d2 d3 p = Inr (Some rec)"
  obtains r where "find_provider d1 p = Some r"
    "provider_of_row d3 (p, r\<lparr>row_inventories :=
        (case find_provider d2 p of None \<Rightarrow> [] | Some r2 \<Rightarrow> row_inventories r2)\<rparr>) = Inr rec"
  using assms by (auto simp: read_provider_at_def Let_def split: option.splits sum.splits)

lemma read_provider_at_same: "read_provider_at db db db p = get_provider db p"
  by (auto simp: read_provider_at_def get_provider_def split: option.splits)

lemma inventory_of_row_fields:
  "inventory_of_row v = Inr i \<Longrightarrow>
     resource_class i = ir_class v \<and> ir_total v = uint (total i) \<and> ir_reserved v = uint (inv_reserved i)
     \<and> allocation_ratio i = ir_ratio v \<and> ir_used v = uint (used i)"
  by (auto simp: inventory_of_row_def split: sum.splits
      dest!: placement_i64_of_u64 placement_i64_uint)

lemma load_inventories_member:
  assumes "load_inventories r = Inr is" and "i \<in> set is"
  obtains v where "v \<in> set (row_inventories r)" "inventory_of_row v = Inr i"
proof -
  from assms(2) obtain k where k: "k < length is" "is ! k = i" by (auto simp: in_set_conv_nth)
  have all: "list_all2 (\<lambda>x y. inventory_of_row x = Inr y) (sort_key ir_class (row_inventories r)) is"
    using assms(1) by (simp add: load_inventories_def collect_results_Inr)
  show ?thesis
  proof (rule that)
    show "sort_key ir_class (row_inventories r) ! k \<in> set (row_inventories r)"
      using k all by (metis list_all2_lengthD nth_mem set_sort)
    show "inventory_of_row (sort_key ir_class (row_inventories r) ! k) = Inr i"
      using k list_all2_nthD2 [OF all, of k] by simp
  qed
qed

lemma inventory_map_member:
  "map_of (inventory_map is) c = Some j \<Longrightarrow>
   \<exists>i\<in>set is. resource_class i = c \<and>
     j = \<lparr>i_total = total i, i_reserved = inv_reserved i, i_ratio = allocation_ratio i, i_used = used i\<rparr>"
  by (auto simp: inventory_map_def btree_collect_lookup dest!: map_of_SomeD)

lemma fits_row:
  assumes "load_inventories r = Inr is" and "fits (inventory_map is) rs" and "(c, n) \<in> set rs" and "n \<noteq> 0"
  shows "\<exists>v\<in>set (row_inventories r). ir_class v = c \<and>
    ir_used v + uint n + ir_reserved v \<le> uint (scale_floor (word_of_int (ir_total v)) (ir_ratio v))"
proof -
  from assms(2,3) obtain j where j: "map_of (inventory_map is) c = Some j" "n \<le> available j"
    by (fastforce simp: fits_def list_all_iff split: option.splits)
  from inventory_map_member [OF j(1)] obtain i where i: "i \<in> set is" "resource_class i = c"
    "j = \<lparr>i_total = total i, i_reserved = inv_reserved i, i_ratio = allocation_ratio i, i_used = used i\<rparr>"
    by auto
  from load_inventories_member [OF assms(1) i(1)] obtain v where
    v: "v \<in> set (row_inventories r)" "inventory_of_row v = Inr i" .
  have "unat n \<le> unat (scale_floor (total i) (allocation_ratio i)) - unat (inv_reserved i) - unat (used i)"
    using j(2) i(3) by (simp add: available_def word_le_nat_alt unat_saturating_sub)
  moreover have "0 < unat n" using assms(4) by (simp add: unat_gt_0)
  ultimately have "unat (used i) + unat n + unat (inv_reserved i)
      \<le> unat (scale_floor (total i) (allocation_ratio i))" by linarith
  then have "uint (used i) + uint n + uint (inv_reserved i)
      \<le> uint (scale_floor (total i) (allocation_ratio i))"
    unfolding uint_int_unat by linarith
  with v i(2) inventory_of_row_fields [OF v(2)] show ?thesis by (intro bexI [of _ v]) auto
qed

lemma class_amount_absent: "c \<notin> fst ` set rs \<Longrightarrow> class_amount c (int_amounts rs) = 0"
  by (induction rs) auto

lemma class_amount_distinct:
  "distinct (map fst rs) \<Longrightarrow> (c, n) \<in> set rs \<Longrightarrow> class_amount c (int_amounts rs) = uint n"
proof (induction rs)
  case (Cons x rs)
  then have "fst x = c \<Longrightarrow> x = (c, n)" by (auto intro: rev_image_eqI)
  with Cons show ?case by (cases x; cases "fst x = c") (auto simp: class_amount_absent)
qed simp

lemma resource_rows_distinct:
  "resource_rows rows rs = Inr rows' \<Longrightarrow> distinct (map fst rows) \<Longrightarrow> distinct (map fst rows')"
  by (induction rows rs rule: resource_rows.induct) (auto split: sum.splits if_splits)

lemma int_amounts_keys [simp]: "map fst (int_amounts rs) = map fst rs"
  by (auto simp: int_amounts_def)


lemma add_all_used_state: "add_all_used rs r = Inr r' \<Longrightarrow> row_state r' = row_state r"
  by (induction rs r rule: add_all_used.induct) (auto simp: add_used_def split: sum.splits)

lemma allocate_at_cases:
  assumes "allocate_at d1 d2 d3 d4 p i c rs g = (res, d5)" and "d5 \<noteq> d4"
  obtains rec res' where "read_provider_at d1 d2 d3 p = Inr (Some rec)" "pr_generation rec = g"
    "provider_state_from_str (pr_state rec) = Some Enabled"
    "fits (inventory_map (pr_inventories rec)) rs" "\<forall>x\<in>set rs. snd x \<noteq> 0"
    "commit_allocation d4 p g
       \<lparr>pa_id = i, pa_provider = p, pa_consumer = c, pa_resources = rs\<rparr> = (res', d5)"
  using assms
  by (auto simp: allocate_at_def Let_def ledger_result_def resource_records_def list_ex_iff
      split: if_splits sum.splits option.splits prod.splits)

lemma commit_row:
  assumes "commit_allocation db p g a = (res, db')" and "db' \<noteq> db"
  obtains r r' n where "find_provider db p = Some r" "placement_i64 g = Inr n" "row_generation r = n"
    "add_all_used (pa_resources a) (bump r) = Inr r'" "find_provider db' p = Some r'"
    "distinct (map fst (pa_resources a))"
proof (rule commit_cases [OF assms])
  fix r r' rows n
  assume h: "find_provider db p = Some r" "placement_i64 g = Inr n" "row_generation r = n"
    "add_all_used (pa_resources a) (bump r) = Inr r'" "resource_rows [] (pa_resources a) = Inr rows"
    "db' = (put_provider db p r')\<lparr>allocations := allocations db @
       [\<lparr>al_id = pa_id a, al_provider = pa_provider a, al_consumer = pa_consumer a,
         al_resources = rows\<rparr>]\<rparr>"
  moreover have "distinct (map fst (pa_resources a))"
    using resource_rows_distinct [OF h(5)] resource_rows_append [OF h(5)] by simp
  ultimately show thesis by (intro that) simp_all
qed

lemma state_enabled: "provider_state_from_str s = Some Enabled \<longleftrightarrow> s = ''Enabled''"
  by (simp add: provider_state_from_str_def)

lemma generation_read:
  "u64_of_i64 i = Some w \<Longrightarrow> placement_i64 w = Inr n \<Longrightarrow> i = n"
  using placement_i64_of_u64 [of i w] by (simp add: placement_u64_def)

text \<open>C10: no interleaving overcommits. The ledger reads a provider's row, its inventories and its
  allocations, and commits, in four steps between which any operations of any callers may run;
  if the commit goes through, the provider is enabled and, for every class of the request, all
  that is allocated on the provider plus what is reserved is at most the total times the ratio.\<close>

theorem concurrent_allocation_fits:
  assumes runs: "d2 = run_ops placement_step d1 xs" "d3 = run_ops placement_step d2 ys"
      "d4 = run_ops placement_step d3 zs"
    and inv: "placement_inv d1"
    and alloc: "allocate_at d1 d2 d3 d4 p i c rs g = (res, d5)" "d5 \<noteq> d4"
  shows "\<exists>r. find_provider d5 p = Some r \<and> row_state r = ''Enabled'' \<and>
    (\<forall>(k, n)\<in>set rs. \<exists>v\<in>set (row_inventories r). ir_class v = k \<and>
       sum_list (allocated_amounts d5 p k) + ir_reserved v
         \<le> uint (scale_floor (word_of_int (ir_total v)) (ir_ratio v)))"
proof -
  obtain rec res' where rec: "read_provider_at d1 d2 d3 p = Inr (Some rec)" "pr_generation rec = g"
      "provider_state_from_str (pr_state rec) = Some Enabled"
      "fits (inventory_map (pr_inventories rec)) rs" "\<forall>x\<in>set rs. snd x \<noteq> 0" and
    com: "commit_allocation d4 p g
       \<lparr>pa_id = i, pa_provider = p, pa_consumer = c, pa_resources = rs\<rparr> = (res', d5)"
    using allocate_at_cases [OF alloc] .
  from commit_row [OF com alloc(2), simplified]
  obtain r4 r' n where r4: "find_provider d4 p = Some r4" "placement_i64 g = Inr n"
      "row_generation r4 = n" and
    r': "add_all_used rs (bump r4) = Inr r'" and d5: "find_provider d5 p = Some r'" and
    keys: "distinct (map fst rs)" .
  from read_provider_at_Inr [OF rec(1)] obtain r1 where r1: "find_provider d1 p = Some r1" and
    read: "provider_of_row d3 (p, r1\<lparr>row_inventories :=
      (case find_provider d2 p of None \<Rightarrow> [] | Some r2 \<Rightarrow> row_inventories r2)\<rparr>) = Inr rec" .
  have same: "row_generation r4 = row_generation r1"
    using provider_of_row_Inr(3) [OF read] generation_read [OF _ r4(2), of "row_generation r1"]
      r4(3) rec(2) by simp
  have later: "fenced d1 d2" "fenced d2 d4"
    unfolding runs by (auto intro: fenced_trans placement_fence.run_rel)
  note current = placement_store.read_is_current [OF later r1 r4(1) same]
  have enabled: "row_state r4 = ''Enabled''"
    using current(1) provider_of_row_Inr(2) [OF read] rec(3) by (simp add: state_enabled)
  have "load_inventories r4 = Inr (pr_inventories rec)"
    using current(2) provider_of_row_Inr(4) [OF read] by (auto simp: load_inventories_def)
  note fit = fits_row [OF this rec(4)]
  have inv5: "placement_inv d5"
    using inv_commit [OF placement_machine.run_inv [OF placement_machine.run_inv
        [OF placement_machine.run_inv [OF inv]]], of xs ys zs
        "\<lparr>pa_id = i, pa_provider = p, pa_consumer = c, pa_resources = rs\<rparr>" g]
      com runs by simp
  have "\<exists>v\<in>set (row_inventories r'). ir_class v = k \<and>
      sum_list (allocated_amounts d5 p k) + ir_reserved v
        \<le> uint (scale_floor (word_of_int (ir_total v)) (ir_ratio v))"
    if kn: "(k, m) \<in> set rs" for k m
  proof -
    from fit [OF kn] rec(5) kn obtain v where v: "v \<in> set (row_inventories r4)" "ir_class v = k"
      "ir_used v + uint m + ir_reserved v
         \<le> uint (scale_floor (word_of_int (ir_total v)) (ir_ratio v))" by fastforce
    let ?v = "v\<lparr>ir_used := ir_used v + uint m\<rparr>"
    have "?v \<in> set (row_inventories r')"
      using add_all_used_inventories [OF r'] v(1,2) class_amount_distinct [OF keys kn] by force
    moreover from this have "ir_used ?v = sum_list (allocated_amounts d5 p k)"
      using inv_row [OF inv5 d5] v(2) by (auto simp: usage_ok_def list_all_iff)
    ultimately show ?thesis using v by (intro bexI [of _ ?v]) simp_all
  qed
  then show ?thesis
    using d5 enabled add_all_used_state [OF r'] by auto
qed


definition demo_ledger :: placement_db where
  "demo_ledger = run_ops placement_step no_placement
     [OpRegister ''n'' [\<lparr>resource_class = ''VCPU'', total = 8, inv_reserved = 1,
        allocation_ratio = one_f64, used = 0\<rparr>]]"

definition demo_race :: placement_db where
  "demo_race = run_ops placement_step demo_ledger
     [OpUpsertIntent \<lparr>pa_id = ''a2'', pa_provider = ''n'', pa_consumer = ''c2'',
        pa_resources = [(''VCPU'', 7)]\<rparr>]"

definition demo_allocated :: "allocation ledger_outcome" where
  "demo_allocated = allocate_at demo_ledger demo_ledger demo_race demo_race
     ''n'' ''a1'' ''c1'' [(''VCPU'', 7)] 1"

definition demo_inventories :: "placement_inventory list" where
  "demo_inventories = [\<lparr>resource_class = ''VCPU'', total = 8, inv_reserved = 1,
     allocation_ratio = one_f64, used = 0\<rparr>]"

lemma demo_read:
  "read_provider_at demo_ledger demo_ledger demo_race ''n'' = Inr (Some
     \<lparr>pr_id = ''n'', pr_node = ''n'', pr_state = ''Enabled'', pr_generation = 1,
      pr_inventories = demo_inventories, pr_allocations = [], pr_parent = None, pr_traits = [],
      pr_failure_domains = [], pr_location = None\<rparr>)"
  by code_simp

lemma demo_fits: "fits (inventory_map demo_inventories) [(''VCPU'', 7)]"
  by (simp add: demo_inventories_def fits_def inventory_map_def btree_collect_def available_def
      scale_floor_one saturating_sub_def)

lemma demo_commit:
  "map al_id (allocations (snd (commit_allocation demo_race ''n'' 1
     \<lparr>pa_id = ''a1'', pa_provider = ''n'', pa_consumer = ''c1'', pa_resources = [(''VCPU'', 7)]\<rparr>)))
     = [''a1''] \<and> allocations demo_race = []"
  by code_simp

lemma demo_allocated_changes: "allocations (snd demo_allocated) \<noteq> allocations demo_race"
  using demo_commit
  by (auto simp: demo_allocated_def allocate_at_def demo_read demo_fits state_enabled
      ledger_result_def resource_records_def split: prod.splits sum.splits)

theorem concurrent_allocation_fits_witness:
  "\<exists>r. find_provider (snd demo_allocated) ''n'' = Some r \<and> row_state r = ''Enabled'' \<and>
     (\<exists>v\<in>set (row_inventories r). ir_class v = ''VCPU'' \<and>
        sum_list (allocated_amounts (snd demo_allocated) ''n'' ''VCPU'') + ir_reserved v
          \<le> uint (scale_floor (word_of_int (ir_total v)) (ir_ratio v)))"
proof -
  have "snd demo_allocated \<noteq> demo_race" using demo_allocated_changes by metis
  moreover have "allocate_at demo_ledger demo_ledger demo_race demo_race
      ''n'' ''a1'' ''c1'' [(''VCPU'', 7)] 1 = (fst demo_allocated, snd demo_allocated)"
    by (simp add: demo_allocated_def)
  moreover have "placement_inv demo_ledger"
    unfolding demo_ledger_def by (rule placement_machine.run_inv [OF no_placement_inv])
  moreover have "demo_ledger = run_ops placement_step demo_ledger []" by simp
  ultimately show ?thesis
    using concurrent_allocation_fits [OF _ demo_race_def, of _ "[]" demo_race "[]"] by fastforce
qed

section \<open>Candidates are the best ranked, and can be allocated on\<close>

lemma sorted_take_drop:
  "sorted (map f xs) \<Longrightarrow> a \<in> set (take n xs) \<Longrightarrow> b \<in> set (drop n xs) \<Longrightarrow> f a \<le> f b"
proof -
  assume "sorted (map f xs)"
  then have "sorted (map f (take n xs) @ map f (drop n xs))" by (simp flip: map_append)
  then show "a \<in> set (take n xs) \<Longrightarrow> b \<in> set (drop n xs) \<Longrightarrow> f a \<le> f b"
    by (simp add: sorted_append)
qed

text \<open>What a request gets is ranked: the candidates are eligible providers in the order local
  before remote, spread before shared, more free capacity before less, then by identifier; the
  eligible ones that are left out are left out only because the limit is reached, and rank no
  better than any that is returned.\<close>

theorem candidates_best_ranked:
  assumes "candidates db r = Inr cs"
  shows "\<exists>ps ts us. ledger_providers db = Inr ps
    \<and> cs = map (\<lambda>p. \<lparr>pc_provider = rp_id p, pc_generation = rp_generation p\<rparr>) ts
    \<and> mset (ts @ us) = mset (filter (eligible r (btree_collect (map (\<lambda>p. (rp_id p, p)) ps))) ps)
    \<and> sorted (map (rank_of r) ts)
    \<and> (\<forall>p\<in>set ts. \<forall>q\<in>set us. rank_of r p \<le> rank_of r q)
    \<and> (us = [] \<or> length ts = unat (cr_limit r))"
proof -
  obtain ps where ps: "ledger_providers db = Inr ps" and
    cs: "cs = map (\<lambda>p. \<lparr>pc_provider = rp_id p, pc_generation = rp_generation p\<rparr>)
      (take (unat (cr_limit r)) (ranked_providers r ps))"
    using assms by (auto simp: candidates_def split: if_splits sum.splits)
  let ?rs = "ranked_providers r ps" and ?n = "unat (cr_limit r)"
  have sorted: "sorted (map (rank_of r) ?rs)" by (simp add: ranked_providers_def Let_def)
  have "mset (take ?n ?rs @ drop ?n ?rs) =
      mset (filter (eligible r (btree_collect (map (\<lambda>p. (rp_id p, p)) ps))) ps)"
    by (simp only: append_take_drop_id) (simp add: ranked_providers_def Let_def)
  moreover have "sorted (map (rank_of r) (take ?n ?rs))"
    using sorted by (simp add: sorted_wrt_take flip: take_map)
  moreover have "\<forall>p\<in>set (take ?n ?rs). \<forall>q\<in>set (drop ?n ?rs). rank_of r p \<le> rank_of r q"
    using sorted_take_drop [OF sorted] by blast
  moreover have "drop ?n ?rs = [] \<or> length (take ?n ?rs) = ?n" by auto
  ultimately show ?thesis using ps cs by blast
qed

lemma ledger_providers_member:
  assumes "ledger_providers db = Inr ps" and "p \<in> set ps"
  obtains k row rec where "(k, row) \<in> set (providers db)" "provider_of_row db (k, row) = Inr rec"
    "provider_from_record rec = Inr p"
proof -
  obtain rs where rs: "list_all2 (\<lambda>x y. provider_of_row db x = Inr y) (sort_key fst (providers db)) rs"
    and ps: "list_all2 (\<lambda>x y. provider_from_record x = Inr y) rs ps"
    using assms(1)
    by (auto simp: ledger_providers_def list_providers_def collect_results_Inr split: sum.splits)
  from assms(2) obtain i where i: "i < length ps" "ps ! i = p" by (auto simp: in_set_conv_nth)
  then have len: "i < length rs" "i < length (sort_key fst (providers db))"
    using list_all2_lengthD [OF rs] list_all2_lengthD [OF ps] by simp_all
  let ?x = "sort_key fst (providers db) ! i"
  show ?thesis
  proof (rule that)
    show "(fst ?x, snd ?x) \<in> set (providers db)" using len(2) by (metis nth_mem prod.collapse set_sort)
    show "provider_of_row db (fst ?x, snd ?x) = Inr (rs ! i)" using list_all2_nthD [OF rs len(2)] by simp
    show "provider_from_record (rs ! i) = Inr p" using list_all2_nthD [OF ps len(1)] i by simp
  qed
qed

lemma provider_from_record_Inr:
  "provider_from_record rec = Inr p \<Longrightarrow>
     rp_id p = pr_id rec \<and> rp_generation p = pr_generation rec
     \<and> provider_state_from_str (pr_state rec) = Some (rp_state p)
     \<and> rp_inventories p = inventory_map (pr_inventories rec)
     \<and> rp_allocations p =
         btree_collect (map (\<lambda>a. (pa_id a, allocation_from_record a)) (pr_allocations rec))"
  by (auto simp: provider_from_record_def split: option.splits)

lemma placement_i64_small: "uint n \<le> i64_max \<Longrightarrow> placement_i64 n = Inr (uint n)"
  by (simp add: placement_i64_def i64_of_u64_uint)

lemma add_all_used_total:
  "\<forall>x\<in>set rs. uint (snd x) \<le> i64_max \<Longrightarrow> \<exists>r'. add_all_used rs r = Inr r'"
  by (induction rs r rule: add_all_used.induct) (auto simp: placement_i64_small)

lemma resource_rows_total:
  "\<forall>x\<in>set rs. uint (snd x) \<le> i64_max \<Longrightarrow> distinct (map fst rs) \<Longrightarrow>
   fst ` set rows \<inter> fst ` set rs = {} \<Longrightarrow> \<exists>rows'. resource_rows rows rs = Inr rows'"
proof (induction rows rs rule: resource_rows.induct)
  case (2 rows c a rest)
  then have "c \<notin> fst ` set rows" "placement_i64 a = Inr (uint a)"
    by (auto simp: placement_i64_small)
  with 2 show ?case by auto
qed simp

lemma commit_total:
  assumes "find_provider db p = Some r" and "placement_i64 g = Inr (row_generation r)"
    and "\<forall>a\<in>set (allocations db). al_id a \<noteq> i" and "p \<noteq> []" "i \<noteq> []" "c \<noteq> []" "rs \<noteq> []"
    and "\<forall>x\<in>set rs. snd x \<noteq> 0 \<and> uint (snd x) \<le> i64_max" and "distinct (map fst rs)"
  shows "\<exists>db'. commit_allocation db p g
    \<lparr>pa_id = i, pa_provider = p, pa_consumer = c, pa_resources = rs\<rparr> =
    (Inr \<lparr>pa_id = i, pa_provider = p, pa_consumer = c, pa_resources = rs\<rparr>, db')"
proof -
  obtain r' where "add_all_used rs (bump r) = Inr r'" using add_all_used_total assms(8) by blast
  moreover obtain rows where "resource_rows [] rs = Inr rows"
    using resource_rows_total [of rs "[]"] assms(8,9) by auto
  moreover have "find (\<lambda>a. al_id a = i) (allocations db) = None"
    using assms(3) by (auto simp: find_None_iff)
  ultimately show ?thesis
    using assms
    by (auto simp: commit_allocation_def load_allocation_def validate_allocation_def list_ex_iff Let_def)
qed

lemma load_allocations_ids:
  assumes "load_allocations db p = Inr as" and "a \<in> set as"
  obtains row where "row \<in> set (allocations db)" "al_provider row = p" "allocation_of_row row = Inr a"
  using collect_rows_set [of "filter (\<lambda>a. al_provider a = p) (allocations db)" as a] assms
  by (auto simp: load_allocations_def)

text \<open>A candidate is no empty promise: on the tables it was computed from, an allocation of the
  request's resources, under an identifier that is not in use, with the candidate's generation,
  goes through.\<close>

theorem candidate_can_allocate:
  assumes cand: "candidates db r = Inr cs" "k \<in> set cs"
    and keys: "distinct (map fst (providers db))" "pc_provider k \<noteq> []"
    and req: "btree (cr_resources r)" "\<forall>x\<in>set (cr_resources r). uint (snd x) \<le> i64_max"
    and new: "\<forall>a\<in>set (allocations db). al_id a \<noteq> i" "i \<noteq> []" "c \<noteq> []"
  shows "\<exists>db'. allocate db (pc_provider k) i c (cr_resources r) (pc_generation k) =
    (Inr \<lparr>alloc_provider = pc_provider k, alloc_consumer = c, alloc_resources = cr_resources r\<rparr>, db')"
proof -
  obtain ps where ps: "ledger_providers db = Inr ps" and bounds: "request_in_bounds r" and
    cs: "cs = map (\<lambda>p. \<lparr>pc_provider = rp_id p, pc_generation = rp_generation p\<rparr>)
      (take (unat (cr_limit r)) (ranked_providers r ps))"
    using cand(1) by (auto simp: candidates_def split: if_splits sum.splits)
  from cand(2) cs obtain p where p: "p \<in> set (ranked_providers r ps)"
    "pc_provider k = rp_id p" "pc_generation k = rp_generation p"
    using set_take_subset by fastforce
  then have el: "p \<in> set ps" "rp_state p = Enabled" "fits (rp_inventories p) (cr_resources r)"
    by (auto simp: ranked_providers_def Let_def eligible_def)
  from ledger_providers_member [OF ps el(1)] obtain n row rec where
    row: "(n, row) \<in> set (providers db)" and rec: "provider_of_row db (n, row) = Inr rec"
    and p_rec: "provider_from_record rec = Inr p" .
  note of_rec = provider_from_record_Inr [OF p_rec] and of_row = provider_of_row_Inr [OF rec]
  have n: "n = pc_provider k" using of_rec of_row p by simp
  have find: "find_provider db n = Some row" using keys(1) row by (simp add: find_provider_def)
  have get: "read_provider_at db db db n = Inr (Some rec)"
    using find rec by (simp add: read_provider_at_same get_provider_def)
  have none: "find (\<lambda>a. pa_id a = i) (pr_allocations rec) = None"
  proof -
    have "pa_id a \<noteq> i" if a: "a \<in> set (pr_allocations rec)" for a
    proof -
      from load_allocations_ids [OF of_row(5) a] obtain w where
        "w \<in> set (allocations db)" "allocation_of_row w = Inr a" .
      with new(1) allocation_of_row_fields show ?thesis by metis
    qed
    then show ?thesis by (auto simp: find_None_iff)
  qed
  have gen: "placement_i64 (pc_generation k) = Inr (row_generation row)"
    using of_row(3) of_rec p(3) by (simp add: placement_i64_of_u64 placement_u64_def)
  have res: "cr_resources r \<noteq> []" "\<forall>x\<in>set (cr_resources r). snd x \<noteq> 0"
    using bounds by (auto simp: request_in_bounds_def list_ex_iff)
  obtain db' where "commit_allocation db n (pc_generation k)
      \<lparr>pa_id = i, pa_provider = n, pa_consumer = c, pa_resources = cr_resources r\<rparr> =
      (Inr \<lparr>pa_id = i, pa_provider = n, pa_consumer = c, pa_resources = cr_resources r\<rparr>, db')"
    using commit_total [OF find gen new(1) _ new(2,3) res(1) _ btree_distinct [OF req(1)]]
      keys(2) n req(2) res(2) by auto
  then show ?thesis
    using get none of_rec el new(2,3) res p(3) n btree_collect_entries [OF req(1)]
    by (auto simp: allocate_def allocate_at_def ledger_result_def resource_records_def list_ex_iff
        allocation_from_record_def resource_map_def)
qed


definition demo_request :: candidate_request where
  "demo_request = \<lparr>cr_resources = [(''VCPU'', 2)], cr_required_traits = {}, cr_forbidden_traits = {},
     cr_locations = {}, cr_forbidden_locations = {}, cr_preferred_locations = {}, cr_domains = {},
     cr_forbidden_domains = {}, cr_spread_away = {}, cr_limit = 5\<rparr>"

lemma demo_providers:
  "ledger_providers demo_ledger = Inr
     [\<lparr>rp_id = ''n'', rp_node = ''n'', rp_state = Enabled, rp_generation = 1,
       rp_inventories = inventory_map demo_inventories, rp_allocations = [], rp_parent = None,
       rp_traits = {}, rp_domains = {}, rp_location = None\<rparr>]"
proof -
  have "list_providers demo_ledger = Inr
     [\<lparr>pr_id = ''n'', pr_node = ''n'', pr_state = ''Enabled'', pr_generation = 1,
      pr_inventories = demo_inventories, pr_allocations = [], pr_parent = None, pr_traits = [],
      pr_failure_domains = [], pr_location = None\<rparr>]"
    by code_simp
  then show ?thesis
    by (simp add: ledger_providers_def provider_from_record_def provider_state_from_str_def
        btree_collect_def)
qed

lemma ancestors_enabled_root: "rp_parent p = None \<Longrightarrow> ancestors_enabled p by_id"
  by (simp add: ancestors_enabled_def eval_nat_numeral)

lemma demo_fits_request: "fits (inventory_map demo_inventories) [(''VCPU'', 2)]"
  by (simp add: demo_inventories_def fits_def inventory_map_def btree_collect_def available_def
      scale_floor_one saturating_sub_def)

lemma demo_in_bounds: "request_in_bounds demo_request"
  by (simp add: request_in_bounds_def demo_request_def max_candidate_limit_def)

lemma sort_key_single: "sort_key f [x] = [x]"
  by simp

lemma demo_candidates:
  "candidates demo_ledger demo_request = Inr [\<lparr>pc_provider = ''n'', pc_generation = 1\<rparr>]"
proof -
  let ?p = "\<lparr>rp_id = ''n'', rp_node = ''n'', rp_state = Enabled, rp_generation = 1,
       rp_inventories = inventory_map demo_inventories, rp_allocations = [], rp_parent = None,
       rp_traits = {}, rp_domains = {}, rp_location = None\<rparr>"
  have "eligible demo_request by_id ?p" for by_id
    using demo_fits_request by (simp add: eligible_def demo_request_def ancestors_enabled_root)
  then have ranked: "ranked_providers demo_request [?p] = [?p]"
    by (simp add: ranked_providers_def)
  have "take (unat (cr_limit demo_request)) [?p] = [?p]"
    by (simp add: demo_request_def)
  then show ?thesis
    unfolding candidates_def demo_providers sum.case ranked by (simp add: demo_in_bounds)
qed

theorem candidates_best_ranked_witness:
  "\<exists>ps ts us. ledger_providers demo_ledger = Inr ps \<and> map rp_id ts = [''n''] \<and>
     mset (ts @ us) =
       mset (filter (eligible demo_request (btree_collect (map (\<lambda>p. (rp_id p, p)) ps))) ps)"
proof -
  obtain ps ts us where ps: "ledger_providers demo_ledger = Inr ps"
    and ts: "[\<lparr>pc_provider = ''n'', pc_generation = 1\<rparr>] =
      map (\<lambda>p. \<lparr>pc_provider = rp_id p, pc_generation = rp_generation p\<rparr>) ts"
    and us: "mset (ts @ us) =
      mset (filter (eligible demo_request (btree_collect (map (\<lambda>p. (rp_id p, p)) ps))) ps)"
    using candidates_best_ranked [OF demo_candidates] by - (elim exE conjE, rule that)
  have "map rp_id ts = map pc_provider [\<lparr>pc_provider = ''n'', pc_generation = 1\<rparr>]"
    unfolding ts by (simp add: comp_def)
  then have "map rp_id ts = [''n'']" by simp
  with ps us show ?thesis
    by - (rule exI [of _ ps], rule exI [of _ ts], rule exI [of _ us], intro conjI)
qed

theorem candidate_can_allocate_witness:
  "\<exists>db'. allocate demo_ledger ''n'' ''a1'' ''c1'' [(''VCPU'', 2)] 1 =
     (Inr \<lparr>alloc_provider = ''n'', alloc_consumer = ''c1'', alloc_resources = [(''VCPU'', 2)]\<rparr>, db')"
proof -
  have "distinct (map fst (providers demo_ledger)) \<and> allocations demo_ledger = []" by code_simp
  then show ?thesis
    using candidate_can_allocate [OF demo_candidates, of "\<lparr>pc_provider = ''n'', pc_generation = 1\<rparr>"
      "''a1''" "''c1''"]
    by (simp add: demo_request_def btree_def i64_max_def)
qed

section \<open>Retrying an intent\<close>

lemma find_unique:
  "x \<in> set xs \<Longrightarrow> P x \<Longrightarrow> (\<And>y. y \<in> set xs \<Longrightarrow> P y \<Longrightarrow> y = x) \<Longrightarrow> find P xs = Some x"
  by (metis find_None_iff find_SomeD not_Some_eq)

lemma loaded_ids:
  assumes "load_allocations db p = Inr as"
  shows "map pa_id as = map al_id (sort_key al_id (filter (\<lambda>a. al_provider a = p) (allocations db)))"
proof -
  have "list_all2 (\<lambda>x y. allocation_of_row x = Inr y)
      (sort_key al_id (filter (\<lambda>a. al_provider a = p) (allocations db))) as"
    using assms by (simp add: load_allocations_def collect_results_Inr)
  then have "list_all2 (\<lambda>x y. pa_id y = al_id x)
      (sort_key al_id (filter (\<lambda>a. al_provider a = p) (allocations db))) as"
    by (rule list_all2_mono) (simp add: allocation_of_row_fields)
  then show ?thesis by (induction rule: list_all2_induct) simp_all
qed

lemma distinct_map_sort_key: "distinct (map f xs) \<Longrightarrow> distinct (map f (sort_key f xs))"
  by (metis distinct_sort mset_map mset_sort mset_eq_imp_distinct_iff)

lemma loaded_distinct:
  assumes "placement_inv db" and "load_allocations db p = Inr as"
  shows "distinct (map pa_id as)"
  using assms(1) unfolding loaded_ids [OF assms(2)]
  by (intro distinct_map_sort_key) (simp add: placement_inv_alt distinct_map_filter)

lemma allocation_of_new_row:
  assumes "btree rs" and "resource_rows [] rs = Inr rows"
  shows "allocation_of_row \<lparr>al_id = i, al_provider = p, al_consumer = c, al_resources = rows\<rparr> =
    Inr \<lparr>pa_id = i, pa_provider = p, pa_consumer = c, pa_resources = rs\<rparr>"
proof -
  have small: "resource_rows rows rs = Inr rows' \<Longrightarrow> \<forall>x\<in>set rs. uint (snd x) \<le> i64_max" for rows rows'
    by (induction rows rs rule: resource_rows.induct)
      (auto split: sum.splits if_splits option.splits simp: placement_i64_def i64_of_u64_eq_Some)
  have rows: "rows = int_amounts rs" using resource_rows_append [OF assms(2)] by simp
  have "sorted (map fst rs)" using assms(1) by (simp add: btree_def strict_sorted_iff)
  then have "sort_key fst rows = rows" by (intro sort_key_id_if_sorted) (simp add: rows)
  moreover have "collect_results resource_of_row (int_amounts rs) = Inr rs"
    using small [OF assms(2)]
    by (induction rs) (auto simp: resource_of_row_def placement_u64_def u64_of_i64_uint split: prod.splits)
  ultimately show ?thesis by (simp add: allocation_of_row_def rows)
qed

text \<open>After an allocation was answered, its row is there, whether it was made now or before.\<close>

lemma commit_unchanged:
  assumes "commit_allocation db p g a = (Inr r, db)"
  shows "\<exists>w. find (\<lambda>x. al_id x = pa_id a) (allocations db) = Some w \<and> allocation_of_row w = Inr a \<and> r = a"
proof -
  have grown: "d\<lparr>allocations := allocations db @ [x]\<rparr> \<noteq> db" for d x
  proof
    assume "d\<lparr>allocations := allocations db @ [x]\<rparr> = db"
    from arg_cong [OF this, of allocations] show False by simp
  qed
  show ?thesis
    using assms
    by (auto simp: commit_allocation_def load_allocation_def Let_def grown
        split: if_splits sum.splits option.splits)
qed

lemma allocate_row:
  assumes "allocate db p i c rs g = (Inr a, db')" and "placement_inv db" and "btree rs"
  shows "placement_inv db'"
    and "\<exists>row\<in>set (allocations db'). al_id row = i \<and> al_provider row = p \<and>
      (\<exists>prec. allocation_of_row row = Inr prec \<and> allocation_from_record prec = a)
      \<and> alloc_consumer a = c \<and> alloc_resources a = rs"
proof -
  let ?r = "\<lparr>pa_id = i, pa_provider = p, pa_consumer = c, pa_resources = rs\<rparr>"
  have from_r: "allocation_from_record ?r =
      \<lparr>alloc_provider = p, alloc_consumer = c, alloc_resources = rs\<rparr>"
    using assms(3) by (simp add: allocation_from_record_def resource_map_def btree_collect_entries)
  consider (old) rec e where "get_provider db p = Inr (Some rec)" "db' = db"
      "find (\<lambda>a. pa_id a = i) (pr_allocations rec) = Some e" "a = allocation_from_record e"
      "alloc_consumer a = c" "alloc_resources a = rs"
    | (new) r' where "commit_allocation db p g ?r = (Inr r', db')" "a = allocation_from_record r'"
    using assms(1)
    by (auto simp: allocate_def allocate_at_def read_provider_at_same Let_def ledger_result_def
        resource_records_def split: if_splits sum.splits option.splits prod.splits)
  then have "placement_inv db' \<and> (\<exists>row\<in>set (allocations db'). al_id row = i \<and> al_provider row = p \<and>
      (\<exists>prec. allocation_of_row row = Inr prec \<and> allocation_from_record prec = a)
      \<and> alloc_consumer a = c \<and> alloc_resources a = rs)"
  proof cases
    case old
    obtain row where "provider_of_row db (p, row) = Inr rec"
      using old(1) by (auto simp: get_provider_def split: option.splits sum.splits)
    note as = provider_of_row_Inr(5) [OF this]
    from find_SomeD [OF old(3)] have e: "e \<in> set (pr_allocations rec)" "pa_id e = i" by auto
    from load_allocations_ids [OF as e(1)] obtain w where
      w: "w \<in> set (allocations db)" "al_provider w = p" "allocation_of_row w = Inr e" .
    with old e assms(2) allocation_of_row_fields [OF w(3)] show ?thesis by force
  next
    case new
    have inv: "placement_inv db'" using inv_commit [OF assms(2), of ?r g] new(1) by simp
    show ?thesis
    proof (cases "db' = db")
      case True
      then obtain w where w: "find (\<lambda>a. al_id a = i) (allocations db) = Some w"
          "allocation_of_row w = Inr ?r" "r' = ?r"
        using commit_unchanged [of db p g ?r r'] new(1) by auto
      from find_SomeD [OF w(1)] w True new(2) inv from_r allocation_of_row_fields [OF w(2)]
      show ?thesis by auto
    next
      case False
      obtain rows where rows: "r' = ?r" "resource_rows [] rs = Inr rows"
        "\<lparr>al_id = i, al_provider = p, al_consumer = c, al_resources = rows\<rparr> \<in> set (allocations db')"
        by (rule commit_cases [OF new(1) False]) auto
      show ?thesis
        using inv new(2) rows from_r allocation_of_new_row [OF assms(3) rows(2), of i p c]
        by (intro conjI bexI [OF _ rows(3)]) simp_all
    qed
  qed
  then show "placement_inv db'" and "\<exists>row\<in>set (allocations db'). al_id row = i \<and> al_provider row = p \<and>
      (\<exists>prec. allocation_of_row row = Inr prec \<and> allocation_from_record prec = a)
      \<and> alloc_consumer a = c \<and> alloc_resources a = rs" by auto
qed


lemma allocated_lookup:
  assumes inv: "placement_inv db" and row: "row \<in> set (allocations db)" "al_id row = i"
    "al_provider row = p" "allocation_of_row row = Inr prec" and rec: "get_provider db p = Inr (Some rec)"
  shows "find (\<lambda>a. pa_id a = i) (pr_allocations rec) = Some prec"
    and "map_of (btree_collect (map (\<lambda>a. (pa_id a, allocation_from_record a)) (pr_allocations rec))) i
      = Some (allocation_from_record prec)"
proof -
  let ?as = "pr_allocations rec"
  obtain r where "provider_of_row db (p, r) = Inr rec"
    using rec by (auto simp: get_provider_def split: option.splits sum.splits)
  note as = provider_of_row_Inr(5) [OF this]
  have "row \<in> set (filter (\<lambda>a. al_provider a = p) (allocations db))" using row by simp
  from collected_ids [OF as [unfolded load_allocations_def] this] row(4)
  have mem: "prec \<in> set ?as" by auto
  have id: "pa_id prec = i" using allocation_of_row_fields [OF row(4)] row(2) by simp
  have dist: "distinct (map pa_id ?as)" by (rule loaded_distinct [OF inv as])
  have uniq: "y = prec" if "y \<in> set ?as" "pa_id y = i" for y
    using dist mem id that by (auto simp: distinct_map inj_on_def)
  show "find (\<lambda>a. pa_id a = i) ?as = Some prec"
    by (rule find_unique [of prec ?as "\<lambda>a. pa_id a = i"]) (rule mem, rule id, rule uniq)
  have "map_of (map (\<lambda>a. (pa_id a, allocation_from_record a)) ?as) i = Some (allocation_from_record prec)"
    using dist mem id by (intro map_of_is_SomeI) (auto simp: comp_def)
  then show "map_of (btree_collect (map (\<lambda>a. (pa_id a, allocation_from_record a)) ?as)) i =
      Some (allocation_from_record prec)"
    using dist by (simp add: btree_collect_lookup_distinct comp_def)
qed

lemma get_provider_intents [simp]: "get_provider (delete_intent db i) p = get_provider db p"
proof -
  have load: "load_allocations (delete_intent db i) q = load_allocations db q" for q
    by (simp add: load_allocations_def delete_intent_def)
  have row: "provider_of_row (delete_intent db i) x = provider_of_row db x" for x
    unfolding provider_of_row_def load ..
  have find: "find_provider (delete_intent db i) q = find_provider db q" for q
    by (simp add: delete_intent_def)
  show ?thesis unfolding get_provider_def row find ..
qed

text \<open>Committing an intent can be retried after a crash or a lost answer: once it was answered, a
  second commit of the same intent, with any generation, answers the same allocation and changes
  nothing, provided the provider can still be read.\<close>

theorem intent_commit_retry:
  assumes inv: "placement_inv db" and keys: "btree (ai_resources it)"
    and first: "commit_allocation_intent db it g = (Inr a, db')"
    and readable: "ledger_provider db' (ai_provider it) = Inr p"
  shows "commit_allocation_intent db' it g' = (Inr a, db')"
proof -
  let ?i = "ai_id it" and ?p = "ai_provider it"
  obtain db1 where alloc: "allocate db ?p ?i (ai_consumer it) (ai_resources it) g = (Inr a, db1)"
    and db': "db' = delete_intent db1 ?i"
    using first
    by (auto simp: commit_allocation_intent_def split: sum.splits if_splits prod.splits)
  note made = allocate_row [OF alloc inv keys]
  then obtain row prec where row: "row \<in> set (allocations db')" "al_id row = ?i" "al_provider row = ?p"
    "allocation_of_row row = Inr prec" "allocation_from_record prec = a"
    and a: "alloc_consumer a = ai_consumer it" "alloc_resources a = ai_resources it"
    by (auto simp: db' delete_intent_def)
  have inv': "placement_inv db'" using made(1) by (simp add: db' delete_intent_def inv_fields)
  obtain rec where rec: "get_provider db' ?p = Inr (Some rec)" and p: "provider_from_record rec = Inr p"
    using readable by (auto simp: ledger_provider_def split: sum.splits option.splits)
  note found = allocated_lookup [OF inv' row(1-4) rec]
  have "allocation_intent_of db' ?i = Inr None"
    by (auto simp: allocation_intent_of_def get_intent_def db' delete_intent_def find_None_iff
        split: option.splits dest!: find_SomeD)
  then have "intent_to_commit db' it = Inr it"
    using readable found(2) provider_from_record_Inr [OF p] row(5) a
    by (simp add: intent_to_commit_def)
  moreover have "?i \<noteq> [] \<and> ai_consumer it \<noteq> [] \<and> ai_resources it \<noteq> []
      \<and> \<not> list_ex (\<lambda>x. snd x = 0) (ai_resources it)"
    using alloc by (auto simp: allocate_def allocate_at_def split: if_splits)
  then have "allocate db' ?p ?i (ai_consumer it) (ai_resources it) g' = (Inr a, db')"
    using rec found(1) row(5) a by (simp add: allocate_def allocate_at_def read_provider_at_same)
  ultimately show ?thesis
    by (simp add: commit_allocation_intent_def) (simp add: db' delete_intent_def)
qed

definition demo_intent :: allocation_intent where
  "demo_intent = \<lparr>ai_provider = ''n'', ai_id = ''a2'', ai_consumer = ''c2'', ai_resources = [(''VCPU'', 7)]\<rparr>"


definition demo_record :: placement_allocation where
  "demo_record = intent_to_record demo_intent"

definition demo_done :: placement_db where
  "demo_done = snd (commit_allocation demo_race ''n'' 1 demo_record)"

lemma demo_commit_intent: "fst (commit_allocation demo_race ''n'' 1 demo_record) = Inr demo_record"
  by code_simp

lemma demo_intent_stored: "get_intent demo_race ''a2'' = Inr (Some demo_record)"
  by code_simp

lemma demo_read_race:
  "get_provider demo_race ''n'' = Inr (Some
     \<lparr>pr_id = ''n'', pr_node = ''n'', pr_state = ''Enabled'', pr_generation = 1,
      pr_inventories = demo_inventories, pr_allocations = [], pr_parent = None, pr_traits = [],
      pr_failure_domains = [], pr_location = None\<rparr>)"
  by code_simp

lemma demo_read_done:
  "(case get_provider demo_done ''n'' of Inr (Some rec) \<Rightarrow> pr_state rec = ''Enabled'' | _ \<Rightarrow> False)"
  by code_simp

lemma demo_first_commit:
  "commit_allocation_intent demo_race demo_intent 1 =
     (Inr (allocation_from_record demo_record), delete_intent demo_done ''a2'')"
proof -
  have "commit_allocation demo_race ''n'' 1 demo_record = (Inr demo_record, demo_done)"
    using demo_commit_intent by (metis demo_done_def prod.collapse)
  then have "allocate demo_race ''n'' ''a2'' ''c2'' [(''VCPU'', 7)] 1 =
      (Inr (allocation_from_record demo_record), demo_done)"
    by (simp add: allocate_def allocate_at_def read_provider_at_same demo_read_race demo_fits
        state_enabled ledger_result_def demo_record_def intent_to_record_def demo_intent_def)
  moreover have "intent_from_record demo_record = demo_intent"
    by (simp add: demo_record_def intent_to_record_def demo_intent_def intent_from_record_def
        resource_records_def resource_map_def btree_collect_def)
  ultimately show ?thesis
    by (simp add: commit_allocation_intent_def intent_to_commit_def allocation_intent_of_def
        demo_intent_stored) (simp add: demo_intent_def demo_intent_stored)
qed

theorem intent_commit_retry_witness:
  "\<exists>db'. commit_allocation_intent demo_race demo_intent 1 =
       (Inr (allocation_from_record demo_record), db') \<and>
     commit_allocation_intent db' demo_intent 9 = (Inr (allocation_from_record demo_record), db')"
proof -
  have "placement_inv demo_race"
    unfolding demo_race_def demo_ledger_def
    by (intro placement_machine.run_inv no_placement_inv)
  moreover have "btree (ai_resources demo_intent)" by (simp add: demo_intent_def btree_def)
  moreover have "\<exists>p. ledger_provider (delete_intent demo_done ''a2'') (ai_provider demo_intent) = Inr p"
    using demo_read_done
    by (auto simp: ledger_provider_def get_provider_intents demo_intent_def provider_from_record_def
        provider_state_from_str_def split: sum.splits option.splits)
  ultimately show ?thesis
    using intent_commit_retry [OF _ _ demo_first_commit] demo_first_commit by blast
qed

section \<open>How deep a hierarchy may be\<close>

text \<open>The provider has exactly \<open>n\<close> ancestors.\<close>

fun depth_is :: "(string \<times> resource_provider) list \<Rightarrow> string option \<Rightarrow> nat \<Rightarrow> bool" where
  "depth_is by_id c 0 = (c = None)"
| "depth_is by_id c (Suc n) =
     (case c of
        None \<Rightarrow> False
      | Some i \<Rightarrow> (case map_of by_id i of None \<Rightarrow> False | Some q \<Rightarrow> depth_is by_id (rp_parent q) n))"

lemma depth_unique: "depth_is m c k \<Longrightarrow> depth_is m c n \<Longrightarrow> k = n"
proof (induction m c k arbitrary: n rule: depth_is.induct)
  case (1 m c)
  then show ?case by (cases n) auto
next
  case (2 m c k)
  then show ?case by (cases n) (auto split: option.splits)
qed

lemma ancestors_walk_depth: "ancestors_walk n m seen c \<Longrightarrow> \<exists>k<n. depth_is m c k"
proof (induction n m seen c rule: ancestors_walk.induct)
  case (2 n m seen c)
  then show ?case
    by (cases c) (force split: option.splits if_splits intro: exI [of _ "Suc _"])+
qed simp

lemma hierarchy_walk_accepts:
  assumes "depth_is (map (\<lambda>p. (rp_id p, p)) ps) c n" and "n \<le> k"
    and "\<forall>q\<in>set ps. rp_parent q \<noteq> Some self" and "c \<noteq> Some self"
  shows "hierarchy_walk k ps self c"
  using assms
proof (induction k arbitrary: c n)
  case 0
  then show ?case by simp
next
  case (Suc k)
  show ?case
  proof (cases n)
    case (Suc n')
    then obtain i q where i: "c = Some i" "map_of (map (\<lambda>p. (rp_id p, p)) ps) i = Some q"
      "depth_is (map (\<lambda>p. (rp_id p, p)) ps) (rp_parent q) n'"
      using Suc.prems(1) by (auto split: option.splits)
    have found: "find (\<lambda>p. rp_id p = i) ps = Some q"
      using i(2) by (induction ps) (auto split: if_splits)
    then have "rp_parent q \<noteq> Some self" using find_SomeD [OF found] Suc.prems(3) by simp
    with Suc.IH [OF i(3)] Suc.prems Suc i(1) found show ?thesis by simp
  qed (use Suc.prems(1) in simp)
qed

text \<open>
  The ledger accepts a parent with which a provider has 64 ancestors, and a provider with 64
  ancestors is never a candidate, however enabled they are.
\<close>

lemma deepest_hierarchy_unschedulable:
  assumes "depth_is by_id (rp_parent p) 64"
  shows "\<not> ancestors_enabled p by_id"
  using ancestors_walk_depth [of 64 by_id "{}" "rp_parent p"] depth_unique [OF assms]
  by (auto simp: ancestors_enabled_def)

section \<open>The hierarchy stays acyclic\<close>

text \<open>
  What writes the tables: the operations of the repository, its import of a single record among
  them, and the ledger's import of whole journals, which leaves what it imported before it
  failed. A journal is in order when it is a map whose keys are the identifiers of its
  providers, as the ledger wrote it. \<open>unwalked\<close> collects the providers whose parent was
  written by anything else than the walk or a journal that is in order.
\<close>

datatype ledger_write =
    Repository repository_op
  | Journals "(string \<times> resource_provider) list" "(string \<times> allocation_intent) list"

fun ledger_step ::
  "placement_db \<Rightarrow> ledger_write \<Rightarrow> (placement_store_error, placement_db) rust_result" where
  "ledger_step db (Repository x) = repository_step db x"
| "ledger_step db (Journals ps is) = Inr (snd (import_legacy_files db ps is))"

definition in_order :: "(string \<times> resource_provider) list \<Rightarrow> bool" where
  "in_order ps \<longleftrightarrow> distinct (map fst ps) \<and> list_all (\<lambda>(k, p). k = rp_id p) ps"

fun unwalked :: "ledger_write list \<Rightarrow> string set" where
  "unwalked [] = {}"
| "unwalked (Repository x # xs) = import_written [x] \<union> unwalked xs"
| "unwalked (Journals ps is # xs) =
     (if in_order ps then {} else fst ` set ps \<union> (rp_id \<circ> snd) ` set ps) \<union> unwalked xs"

text \<open>
  Every provider that a pass has imported has a parent that it imported before, so that a
  provider it imports next is nobody's ancestor yet.
\<close>

definition imported_closed :: "string set \<Rightarrow> string set \<Rightarrow> placement_db \<Rightarrow> bool" where
  "imported_closed I K db \<longleftrightarrow>
     acyclic (own_edges I db) \<and> (\<forall>a b. (a, b) \<in> own_edges I db \<longrightarrow> a \<in> K \<longrightarrow> b \<in> K)"

definition importable ::
  "bool \<Rightarrow> string set \<Rightarrow> string set \<Rightarrow> (string \<times> resource_provider) list \<Rightarrow> bool" where
  "importable ord I K ps \<longleftrightarrow>
     (if ord then in_order ps \<and> fst ` set ps \<inter> K = {}
      else fst ` set ps \<union> (rp_id \<circ> snd) ` set ps \<subseteq> I)"

lemma import_closed:
  assumes i: "import_provider db (provider_to_record p) = (Inr (), d)" and c: "imported_closed I K db"
    and ok: "k = rp_id p \<and> k \<notin> K \<or> k \<in> I \<and> rp_id p \<in> I"
    and parent: "case rp_parent p of None \<Rightarrow> True | Some q \<Rightarrow> q \<in> K"
  shows "imported_closed I (insert k K) d"
proof -
  let ?E = "own_edges I db"
  have edges: "own_edges I d \<subseteq> {(a, b). (a, b) \<in> ?E \<and> a \<noteq> rp_id p} \<union>
      {(rp_id p, q) |q. rp_parent p = Some q \<and> rp_id p \<notin> I}"
    using import_edges [OF i] by (auto simp: own_edges_def provider_to_record_def)
  have "y \<in> K" if "(x, y) \<in> ?E\<^sup>*" "x \<in> K" for x y
    using that c by (induction rule: rtrancl_induct) (auto simp: imported_closed_def)
  then have "acyclic (insert (rp_id p, q) ?E)" if "rp_parent p = Some q" "rp_id p \<notin> I" for q
    using that c ok parent by (auto simp: acyclic_insert imported_closed_def)
  moreover have "own_edges I d \<subseteq> ?E" if "\<not> (\<exists>q. rp_parent p = Some q \<and> rp_id p \<notin> I)"
    using edges that by auto
  moreover have "own_edges I d \<subseteq> insert (rp_id p, q) ?E" if "rp_parent p = Some q" for q
    using edges that by auto
  moreover have "acyclic ?E" using c by (simp add: imported_closed_def)
  ultimately have "acyclic (own_edges I d)" by (meson acyclic_subset)
  moreover have "b \<in> insert k K" if "(a, b) \<in> own_edges I d" "a \<in> insert k K" for a b
    using that edges c ok parent by (fastforce simp: imported_closed_def own_edges_def)
  ultimately show ?thesis by (simp add: imported_closed_def)
qed

lemma importable_later:
  "importable ord I K ((k, p) # ps) \<Longrightarrow> k = rp_id p \<and> k \<notin> K \<or> k \<in> I \<and> rp_id p \<in> I"
  "importable ord I K ((k, p) # ps) \<Longrightarrow> importable ord I (insert k K) ps"
  "importable ord I K ((k, p) # ps) \<Longrightarrow> importable ord I K ps"
  by (auto simp: importable_def in_order_def split: if_splits)

lemma importable_waiting:
  assumes "importable ord I K ((k, p) # ps)" and "importable ord I imp rest" and "set rest \<subseteq> set ps"
    and "imp \<subseteq> K \<union> fst ` set ps"
  shows "importable ord I imp ((k, p) # rest)"
proof (cases ord)
  case True
  with assms(1) have "k = rp_id p" "k \<notin> fst ` set ps" "k \<notin> K"
    by (auto simp: importable_def in_order_def)
  moreover have "fst ` set rest \<subseteq> fst ` set ps" using assms(3) by (rule image_mono)
  ultimately show ?thesis
    using True assms(2,4) by (auto simp: importable_def in_order_def)
next
  case False
  with assms(1,2) show ?thesis by (simp add: importable_def)
qed

definition pass_closed ::
  "bool \<Rightarrow> string set \<Rightarrow> string set \<Rightarrow> (string \<times> resource_provider) list
     \<Rightarrow> ((string \<times> resource_provider) list \<times> string set \<times> bool) ledger_outcome \<Rightarrow> bool" where
  "pass_closed ord I K ps out \<longleftrightarrow>
     acyclic (own_edges I (snd out))
     \<and> (case fst out of Inl _ \<Rightarrow> True | Inr (rest, imp, progress) \<Rightarrow>
          imported_closed I imp (snd out) \<and> importable ord I imp rest
          \<and> set rest \<subseteq> set ps \<and> imp \<subseteq> K \<union> fst ` set ps)"

lemma import_pass_closed:
  "imported_closed I K db \<Longrightarrow> importable ord I K ps \<Longrightarrow> pass_closed ord I K ps (import_pass db ps K)"
proof (induction db ps K rule: import_pass.induct)
  case (1 db K)
  then show ?case by (simp add: pass_closed_def imported_closed_def)
next
  case (2 db k p ps K)
  note later = importable_later [OF "2.prems"(2)]
  show ?case
  proof (cases "case rp_parent p of None \<Rightarrow> False | Some q \<Rightarrow> q \<notin> K")
    case True
    from "2.IH"(1) [OF True "2.prems"(1) later(3)] True show ?thesis
      using importable_waiting [OF "2.prems"(2)]
      by (auto simp: pass_closed_def split: prod.splits sum.splits)
  next
    case False
    show ?thesis
    proof (cases "fst (import_provider db (provider_to_record p))")
      case (Inl e)
      then obtain d where i: "import_provider db (provider_to_record p) = (Inl e, d)"
        by (metis prod.collapse)
      from import_failed [OF i] i False "2.prems"(1) show ?thesis
        by (simp add: pass_closed_def imported_closed_def)
    next
      case (Inr u)
      then obtain d where i: "import_provider db (provider_to_record p) = (Inr (), d)"
        by (metis prod.collapse old.unit.exhaust)
      have "imported_closed I (insert k K) d"
        using False by (intro import_closed [OF i "2.prems"(1) later(1)]) (auto split: option.splits)
      then have "pass_closed ord I (insert k K) ps (import_pass d ps (insert k K))"
        by (intro "2.IH"(2) [OF False i [symmetric] refl _ later(2)]) simp_all
      then show ?thesis
        using False i by (auto simp: pass_closed_def split: prod.splits sum.splits)
    qed
  qed
qed

lemma import_rounds_acyclic:
  "imported_closed I K db \<Longrightarrow> importable ord I K ps \<Longrightarrow>
   acyclic (own_edges I (snd (import_rounds db ps K)))"
proof (induction db ps K rule: import_rounds.induct)
  case (2 db p ps K)
  from import_pass_closed [OF "2.prems"] show ?case
    by (auto simp: pass_closed_def split: prod.splits sum.splits intro!: "2.IH")
qed (simp add: imported_closed_def)

lemma upsert_intent_edges: "own_edges I (snd (upsert_intent db a)) = own_edges I db"
  by (auto simp: upsert_intent_def Let_def split: sum.splits option.splits)

lemma import_intents_edges: "own_edges I (snd (import_intents db is)) = own_edges I db"
proof (induction db "is" rule: import_intents.induct)
  case (2 db i "is")
  then show ?case
    using upsert_intent_edges [of I db "intent_to_record i"] by (auto split: prod.splits sum.splits)
qed simp

lemma acyclic_journals:
  assumes "acyclic (own_edges I db)" and "importable ord I {} ps"
  shows "acyclic (own_edges I (snd (import_legacy_files db ps is)))"
proof -
  have "acyclic (own_edges I (snd (import_rounds db ps {})))"
    using assms by (intro import_rounds_acyclic) (simp_all add: imported_closed_def)
  then show ?thesis
    using import_intents_edges by (auto simp: import_legacy_files_def split: prod.splits sum.splits)
qed

lemma acyclic_ledger:
  "acyclic (own_edges I db) \<Longrightarrow> unwalked xs \<subseteq> I \<Longrightarrow>
   acyclic (own_edges I (run_ops ledger_step db xs))"
proof (induction xs arbitrary: db rule: unwalked.induct)
  case (2 x xs)
  have "acyclic (own_edges I (run_ops repository_step db [x]))"
    using "2.prems" by (intro acyclic_repository) auto
  then have "acyclic (own_edges I (apply_op ledger_step db (Repository x)))"
    by (simp add: apply_op_def)
  with "2.IH" "2.prems" show ?case by simp
next
  case (3 ps "is" xs)
  have "importable (in_order ps) I {} ps"
    using "3.prems"(2) by (auto simp: importable_def split: if_splits)
  from acyclic_journals [OF "3.prems"(1) this]
  have "acyclic (own_edges I (apply_op ledger_step db (Journals ps is)))" by (simp add: apply_op_def)
  with "3.IH" "3.prems" show ?case by simp
qed simp

text \<open>C9: whatever parents callers ask for, with stale reads or concurrently, no provider becomes its
  own ancestor. After any sequence of repository operations and of imports of whole journals,
  completed or not, the edges from all providers but the \<open>unwalked\<close> ones are acyclic: a cycle has
  to pass through a provider whose parent was written by a bare call of the repository's
  \<open>import_provider\<close>, which makes no walk, or by a journal whose keys are not the identifiers of
  its providers. Without these the whole parent relation is acyclic.\<close>

theorem hierarchy_stays_acyclic:
  "acyclic {(p, q) \<in> parent_edges (run_ops ledger_step no_placement xs). p \<notin> unwalked xs}"
proof -
  have "acyclic (own_edges (unwalked xs) (run_ops ledger_step no_placement xs))"
    by (rule acyclic_ledger)
      (simp_all add: own_edges_def parent_edges_def no_placement_def find_provider_def acyclic_def)
  then show ?thesis by (simp add: own_edges_def case_prod_unfold)
qed

text \<open>The exception is real: the import of a record that names itself makes a cycle.\<close>

definition self_parent :: provider_record where
  "self_parent = \<lparr>pr_id = ''n'', pr_node = ''n'', pr_state = ''Enabled'', pr_generation = 0,
     pr_inventories = [], pr_allocations = [], pr_parent = Some ''n'', pr_traits = [],
     pr_failure_domains = [], pr_location = None\<rparr>"

lemma import_makes_cycle:
  "(''n'', ''n'') \<in> parent_edges (run_ops ledger_step no_placement [Repository (Importing self_parent)])"
proof -
  have "map_option row_parent (find_provider
      (run_ops ledger_step no_placement [Repository (Importing self_parent)]) ''n'') = Some (Some ''n'')"
    by code_simp
  then show ?thesis by (auto simp: parent_edges_def)
qed

end
