(* ===== verification/Scheduler.thy ===== *)
theory Scheduler
  imports Placement_Ledger
begin

text \<open>
  The scheduler (\<open>crates/o3k-scheduler/src/lib.rs\<close>): it ranks the providers of the placement
  ledger and claims one for a server through an intent and a fenced commit, candidate after
  candidate, and converges on an allocation that is there already. The calls of one schedule run
  here without other callers in between; what others may do between the steps of one allocation
  is in \<open>Placement_Ledger\<close>. Lemmas: a decision is booked, a retry answers the same decision, and
  a flavor without a disk cannot be scheduled.
\<close>

record flavor =
  fl_vcpus :: u64
  fl_memory_mb :: u64
  fl_disk_gb :: u64

record schedule_decision =
  sd_provider :: string
  sd_allocation_id :: string
  sd_allocation :: allocation

datatype scheduler_error =
    NoValidHost | AllocationMismatch | InvalidFlavor | PlacementFailed placement_error

type_synonym 'a schedule_outcome = "(scheduler_error, 'a) rust_result \<times> placement_db"

definition allocation_name :: "string \<Rightarrow> string" where
  "allocation_name server = ''allocation-'' @ server"

definition flavor_resources :: "flavor \<Rightarrow> resources" where
  "flavor_resources f =
     btree_collect [(''VCPU'', fl_vcpus f), (''MEMORY_MB'', fl_memory_mb f), (''DISK_GB'', fl_disk_gb f)]"

definition selected :: "string set option \<Rightarrow> resource_provider \<Rightarrow> bool" where
  "selected sel p = (case sel of None \<Rightarrow> True | Some ids \<Rightarrow> rp_id p \<in> ids)"

definition holds_class :: "resource_provider \<Rightarrow> string \<Rightarrow> u64 \<Rightarrow> bool" where
  "holds_class p c n =
     (case map_of (rp_inventories p) c of None \<Rightarrow> False | Some i \<Rightarrow> n \<le> available i)"

definition schedulable :: "string set option \<Rightarrow> flavor \<Rightarrow> resource_provider \<Rightarrow> bool" where
  "schedulable sel f p \<longleftrightarrow>
     selected sel p \<and> rp_state p = Enabled \<and> holds_class p ''VCPU'' (fl_vcpus f)
     \<and> holds_class p ''MEMORY_MB'' (fl_memory_mb f) \<and> holds_class p ''DISK_GB'' (fl_disk_gb f)"

definition first_fit :: "string set option \<Rightarrow> flavor \<Rightarrow> resource_provider list \<Rightarrow> resource_provider list"
  where
  "first_fit sel f ps =
     sort_key (\<lambda>p. (2 ^ 64 - unat (free_capacity p), rp_id p)) (filter (schedulable sel f) ps)"

section \<open>An allocation that is there\<close>

definition has_allocation :: "string \<Rightarrow> resources \<Rightarrow> resource_provider \<Rightarrow> bool" where
  "has_allocation server rs p =
     (case map_of (rp_allocations p) (allocation_name server) of
        None \<Rightarrow> False
      | Some a \<Rightarrow> alloc_consumer a = server \<and> alloc_resources a = rs)"

definition existing_allocation ::
  "placement_db \<Rightarrow> string \<Rightarrow> resources \<Rightarrow> string set option
     \<Rightarrow> (scheduler_error, schedule_decision option) rust_result" where
  "existing_allocation db server rs sel =
     (case ledger_providers db of
        Inl e \<Rightarrow> Inl (PlacementFailed e)
      | Inr ps \<Rightarrow>
          (case find (\<lambda>p. selected sel p \<and> has_allocation server rs p) ps of
             None \<Rightarrow> Inr None
           | Some p \<Rightarrow> Inr (Some
               \<lparr>sd_provider = rp_id p, sd_allocation_id = allocation_name server,
                sd_allocation = the (map_of (rp_allocations p) (allocation_name server))\<rparr>)))"

text \<open>The fallback of every failing step: what is booked, or the error.\<close>

definition converge ::
  "placement_db \<Rightarrow> string \<Rightarrow> resources \<Rightarrow> string set option \<Rightarrow> scheduler_error
     \<Rightarrow> schedule_decision schedule_outcome" where
  "converge db server rs sel err =
     (case existing_allocation db server rs sel of
        Inl e \<Rightarrow> (Inl e, db)
      | Inr (Some d) \<Rightarrow> (Inr d, db)
      | Inr None \<Rightarrow> (Inl err, db))"

section \<open>Scheduling\<close>

definition lost_race :: "placement_error \<Rightarrow> bool" where
  "lost_race e \<longleftrightarrow> e = StaleGeneration \<or> e = OverCapacity \<or> e = NotSchedulable"

fun claim_first ::
  "placement_db \<Rightarrow> string \<Rightarrow> resources \<Rightarrow> string set option \<Rightarrow> resource_provider list
     \<Rightarrow> schedule_decision schedule_outcome" where
  "claim_first db server rs sel [] = converge db server rs sel NoValidHost"
| "claim_first db server rs sel (p # ps) =
     (case begin_allocation_intent db (rp_id p) (allocation_name server) server rs of
        (Inl e, d1) \<Rightarrow> converge d1 server rs sel (PlacementFailed e)
      | (Inr intent, d1) \<Rightarrow>
          (case commit_allocation_intent d1 intent (rp_generation p) of
             (Inr a, d2) \<Rightarrow>
               (Inr \<lparr>sd_provider = rp_id p, sd_allocation_id = ai_id intent, sd_allocation = a\<rparr>, d2)
           | (Inl e, d2) \<Rightarrow>
               if lost_race e then
                 (case abandon_allocation_intent d2 intent of
                    (Inl e', d3) \<Rightarrow> converge d3 server rs sel (PlacementFailed e')
                  | (Inr _, d3) \<Rightarrow> claim_first d3 server rs sel ps)
               else converge d2 server rs sel (PlacementFailed e)))"

definition valid_request :: "string \<Rightarrow> flavor \<Rightarrow> bool" where
  "valid_request server f \<longleftrightarrow> \<not> (server = [] \<or> fl_vcpus f = 0 \<or> fl_memory_mb f = 0)"

definition schedule_internal ::
  "placement_db \<Rightarrow> string \<Rightarrow> flavor \<Rightarrow> string set option \<Rightarrow> schedule_decision schedule_outcome" where
  "schedule_internal db server f sel =
     (if \<not> valid_request server f then (Inl InvalidFlavor, db)
      else case ledger_providers db of
             Inl e \<Rightarrow> (Inl (PlacementFailed e), db)
           | Inr ps \<Rightarrow> claim_first db server (flavor_resources f) sel (first_fit sel f ps))"

definition schedule :: "placement_db \<Rightarrow> string \<Rightarrow> flavor \<Rightarrow> schedule_decision schedule_outcome" where
  "schedule db server f = schedule_internal db server f None"

definition schedule_for_agent ::
  "placement_db \<Rightarrow> string \<Rightarrow> string \<Rightarrow> flavor \<Rightarrow> schedule_decision schedule_outcome" where
  "schedule_for_agent db agent server f =
     (if trim agent = [] then (Inl InvalidFlavor, db)
      else schedule_internal db server f (Some {agent}))"

definition schedule_for_agents ::
  "placement_db \<Rightarrow> string set \<Rightarrow> string \<Rightarrow> flavor \<Rightarrow> schedule_decision schedule_outcome" where
  "schedule_for_agents db agents server f = schedule_internal db server f (Some agents)"

text \<open>The constrained variant claims the candidates of a request and does not converge.\<close>

fun claim_candidates ::
  "placement_db \<Rightarrow> string \<Rightarrow> resources \<Rightarrow> placement_candidate list \<Rightarrow> schedule_decision schedule_outcome"
  where
  "claim_candidates db server rs [] = (Inl NoValidHost, db)"
| "claim_candidates db server rs (c # cs) =
     (case begin_allocation_intent db (pc_provider c) (allocation_name server) server rs of
        (Inl e, d1) \<Rightarrow> (Inl (PlacementFailed e), d1)
      | (Inr intent, d1) \<Rightarrow>
          (case commit_allocation_intent d1 intent (pc_generation c) of
             (Inr a, d2) \<Rightarrow>
               (Inr \<lparr>sd_provider = pc_provider c, sd_allocation_id = ai_id intent,
                     sd_allocation = a\<rparr>, d2)
           | (Inl e, d2) \<Rightarrow>
               if lost_race e then
                 (case abandon_allocation_intent d2 intent of
                    (Inl e', d3) \<Rightarrow> (Inl (PlacementFailed e'), d3)
                  | (Inr _, d3) \<Rightarrow> claim_candidates d3 server rs cs)
               else (Inl (PlacementFailed e), d2)))"

definition constrained_resources :: "flavor \<Rightarrow> resources" where
  "constrained_resources f =
     (let rs = btree_collect [(''VCPU'', fl_vcpus f), (''MEMORY_MB'', fl_memory_mb f)]
      in if fl_disk_gb f > 0 then btree_insert ''DISK_GB'' (fl_disk_gb f) rs else rs)"

definition schedule_with_constraints ::
  "placement_db \<Rightarrow> string \<Rightarrow> flavor \<Rightarrow> candidate_request \<Rightarrow> schedule_decision schedule_outcome" where
  "schedule_with_constraints db server f r =
     (if \<not> valid_request server f then (Inl InvalidFlavor, db)
      else let r1 = r\<lparr>cr_resources := constrained_resources f\<rparr>;
               r2 = (if cr_limit r1 = 0 then r1\<lparr>cr_limit := max_candidate_limit\<rparr> else r1)
           in (case candidates db r2 of
                 Inl e \<Rightarrow> (Inl (PlacementFailed e), db)
               | Inr cs \<Rightarrow> claim_candidates db server (cr_resources r2) cs))"

section \<open>After the decision\<close>

definition release_terminal :: "placement_db \<Rightarrow> schedule_decision \<Rightarrow> unit schedule_outcome" where
  "release_terminal db d =
     (case release db (sd_provider d) (sd_allocation_id d) of
        (Inl e, db') \<Rightarrow> (Inl (PlacementFailed e), db')
      | (Inr _, db') \<Rightarrow> (Inr (), db'))"

definition validate_scheduled ::
  "placement_db \<Rightarrow> string \<Rightarrow> string \<Rightarrow> string \<Rightarrow> (scheduler_error, allocation) rust_result" where
  "validate_scheduled db p i c =
     (case ledger_provider db p of
        Inl e \<Rightarrow> Inl (PlacementFailed e)
      | Inr rp \<Rightarrow>
          if rp_state rp = Deleted then Inl NoValidHost
          else (case map_of (rp_allocations rp) i of
                  None \<Rightarrow> Inl AllocationMismatch
                | Some a \<Rightarrow>
                    if alloc_provider a \<noteq> p \<or> alloc_consumer a \<noteq> c then Inl AllocationMismatch
                    else Inr a))"

section \<open>What the steps leave alone\<close>

text \<open>Two states of the tables with the same providers and allocations.\<close>

definition same_books :: "placement_db \<Rightarrow> placement_db \<Rightarrow> bool" where
  "same_books db db' \<longleftrightarrow> providers db' = providers db \<and> allocations db' = allocations db"

lemma same_books_refl [simp]: "same_books db db"
  by (simp add: same_books_def)

lemma same_books_trans: "same_books a b \<Longrightarrow> same_books b c \<Longrightarrow> same_books a c"
  by (simp add: same_books_def)

lemma same_books_find: "same_books db db' \<Longrightarrow> find_provider db' p = find_provider db p"
  by (simp add: same_books_def find_provider_def)

lemma same_books_inv: "same_books db db' \<Longrightarrow> placement_inv db' = placement_inv db"
  by (simp add: same_books_def books_def usage_ok_def allocated_amounts_def)

lemma same_books_rows: "same_books db db' \<Longrightarrow> provider_of_row db' = provider_of_row db"
proof -
  assume same: "same_books db db'"
  then have load: "load_allocations db' p = load_allocations db p" for p
    by (simp add: load_allocations_def same_books_def)
  show ?thesis unfolding fun_eq_iff provider_of_row_def load by simp
qed

lemma same_books_providers: "same_books db db' \<Longrightarrow> ledger_providers db' = ledger_providers db"
  using same_books_rows [of db db']
  by (simp add: ledger_providers_def list_providers_def) (simp add: same_books_def)

lemma same_books_intents [simp]: "same_books db (db\<lparr>intents := is\<rparr>)"
  by (simp add: same_books_def)

lemma begin_intent_Inr:
  "begin_allocation_intent db p i c rs = (Inr it, d) \<Longrightarrow>
   it = \<lparr>ai_provider = p, ai_id = i, ai_consumer = c, ai_resources = rs\<rparr> \<and> same_books db d"
  by (auto simp: begin_allocation_intent_def ledger_result_def upsert_intent_def Let_def
      split: if_splits sum.splits option.splits prod.splits)

lemma begin_intent_Inl: "begin_allocation_intent db p i c rs = (Inl e, d) \<Longrightarrow> d = db"
  by (auto simp: begin_allocation_intent_def ledger_result_def upsert_intent_def Let_def
      split: if_splits sum.splits option.splits prod.splits)

lemma commit_Inl: "commit_allocation db p g a = (Inl e, d) \<Longrightarrow> d = db"
  by (auto simp: commit_allocation_def Let_def split: if_splits sum.splits option.splits)

lemma allocate_Inl: "allocate db p i c rs g = (Inl e, d) \<Longrightarrow> d = db"
  by (auto simp: allocate_def allocate_at_def Let_def ledger_result_def dest: commit_Inl
      split: if_splits sum.splits option.splits prod.splits)

lemma commit_intent_Inl: "commit_allocation_intent db it g = (Inl e, d) \<Longrightarrow> d = db"
  by (auto simp: commit_allocation_intent_def dest: allocate_Inl
      split: if_splits sum.splits prod.splits)

lemma commit_intent_Inr:
  "commit_allocation_intent db it g = (Inr a, d) \<Longrightarrow>
   \<exists>d1. allocate db (ai_provider it) (ai_id it) (ai_consumer it) (ai_resources it) g = (Inr a, d1)
     \<and> d = delete_intent d1 (ai_id it)"
  by (auto simp: commit_allocation_intent_def split: if_splits sum.splits prod.splits)

lemma abandon_same: "same_books db (snd (abandon_allocation_intent db it))"
  by (auto simp: abandon_allocation_intent_def delete_intent_def split: sum.splits option.splits)

lemma converge_db: "converge db server rs sel err = (r, d) \<Longrightarrow> d = db"
  by (auto simp: converge_def split: sum.splits option.splits)

section \<open>A decision is booked\<close>

definition booked :: "placement_db \<Rightarrow> string \<Rightarrow> resources \<Rightarrow> schedule_decision \<Rightarrow> bool" where
  "booked db server rs d \<longleftrightarrow>
     sd_allocation_id d = allocation_name server
     \<and> alloc_consumer (sd_allocation d) = server \<and> alloc_resources (sd_allocation d) = rs
     \<and> find_provider db (sd_provider d) \<noteq> None
     \<and> (\<exists>row\<in>set (allocations db). al_id row = allocation_name server
          \<and> al_provider row = sd_provider d
          \<and> (\<exists>rec. allocation_of_row row = Inr rec \<and> allocation_from_record rec = sd_allocation d))"

lemma booked_same: "same_books db db' \<Longrightarrow> booked db' server rs d = booked db server rs d"
  by (simp add: booked_def same_books_find) (simp add: same_books_def)

text \<open>An allocation that a listed provider shows is a row of the table.\<close>

lemma listed_allocation:
  assumes "ledger_providers db = Inr ps" and "p \<in> set ps"
    and "map_of (rp_allocations p) i = Some a"
  obtains row rec where "row \<in> set (allocations db)" "al_id row = i" "al_provider row = rp_id p"
    "allocation_of_row row = Inr rec" "allocation_from_record rec = a"
    "rp_id p \<in> fst ` set (providers db)"
proof -
  from ledger_providers_member [OF assms(1,2)] obtain k r rec where
    k: "(k, r) \<in> set (providers db)" "provider_of_row db (k, r) = Inr rec"
    "provider_from_record rec = Inr p" .
  note of_rec = provider_from_record_Inr [OF k(3)] and of_row = provider_of_row_Inr [OF k(2)]
  from assms(3) of_rec obtain x where x: "x \<in> set (pr_allocations rec)" "pa_id x = i"
    "allocation_from_record x = a"
    by (auto simp: btree_collect_lookup dest!: map_of_SomeD)
  from load_allocations_ids [OF of_row(5) x(1)] obtain row where
    "row \<in> set (allocations db)" "al_provider row = k" "allocation_of_row row = Inr x" .
  moreover have "k = rp_id p" using of_rec of_row(1) by simp
  moreover have "k \<in> fst ` set (providers db)" using k(1) by (rule image_eqI [rotated]) simp
  ultimately show thesis
    using that x allocation_of_row_fields by auto
qed

lemma existing_booked:
  assumes "existing_allocation db server rs sel = Inr (Some d)"
  shows "booked db server rs d \<and> (sel = None \<or> sd_provider d \<in> the sel)"
proof -
  obtain ps p where ps: "ledger_providers db = Inr ps"
    and p: "find (\<lambda>p. selected sel p \<and> has_allocation server rs p) ps = Some p"
    and d: "d = \<lparr>sd_provider = rp_id p, sd_allocation_id = allocation_name server,
      sd_allocation = the (map_of (rp_allocations p) (allocation_name server))\<rparr>"
    using assms by (auto simp: existing_allocation_def split: sum.splits option.splits)
  from find_SomeD [OF p] obtain a where a: "p \<in> set ps" "selected sel p"
    "map_of (rp_allocations p) (allocation_name server) = Some a"
    "alloc_consumer a = server" "alloc_resources a = rs"
    by (auto simp: has_allocation_def split: option.splits)
  from listed_allocation [OF ps a(1,3)] obtain row rec where
    row: "row \<in> set (allocations db)" "al_id row = allocation_name server" "al_provider row = rp_id p"
      "allocation_of_row row = Inr rec" "allocation_from_record rec = a"
      "rp_id p \<in> fst ` set (providers db)" .
  have "find_provider db (rp_id p) \<noteq> None"
    using row(6) by (simp add: find_provider_def map_of_eq_None_iff)
  with row a d show ?thesis by (auto simp: booked_def selected_def split: option.splits)
qed

lemma allocate_finds:
  assumes "allocate db p i c rs g = (Inr a, d)"
  shows "find_provider d p \<noteq> None"
proof -
  have "find_provider db p \<noteq> None"
    using assms by (auto simp: allocate_def allocate_at_def read_provider_at_def split: if_splits option.splits)
  moreover have "d = db \<or> (\<exists>x r. commit_allocation db p g x = (Inr r, d))"
    using assms by (auto simp: allocate_def allocate_at_def Let_def ledger_result_def split: if_splits sum.splits option.splits prod.splits)
  moreover have "fenced db d" if "commit_allocation db p g x = (Inr r, d)" for x r
    using fenced_commit [of db p g x] that by simp
  then have "fenced db d" using calculation(2) by auto
  ultimately show ?thesis by (auto simp: fenced_def)
qed

lemma commit_intent_booked:
  assumes "commit_allocation_intent db it g = (Inr a, d)" and "placement_inv db"
    and "btree (ai_resources it)" and "ai_id it = allocation_name server" "ai_consumer it = server"
  shows "placement_inv d"
    and "booked d server (ai_resources it)
      \<lparr>sd_provider = ai_provider it, sd_allocation_id = ai_id it, sd_allocation = a\<rparr>"
proof -
  from commit_intent_Inr [OF assms(1)] obtain d1 where
    alloc: "allocate db (ai_provider it) (ai_id it) (ai_consumer it) (ai_resources it) g = (Inr a, d1)"
    and d: "d = delete_intent d1 (ai_id it)" by auto
  have same: "same_books d1 d" by (simp add: d delete_intent_def)
  note made = allocate_row [OF alloc assms(2,3)]
  show "placement_inv d" using made(1) same by (simp add: same_books_inv)
  have "find_provider d1 (ai_provider it) \<noteq> None"
    using allocate_finds [OF alloc] .
  then have "booked d1 server (ai_resources it)
      \<lparr>sd_provider = ai_provider it, sd_allocation_id = ai_id it, sd_allocation = a\<rparr>"
    using made(2) assms(4,5) by (auto simp: booked_def)
  then show "booked d server (ai_resources it)
      \<lparr>sd_provider = ai_provider it, sd_allocation_id = ai_id it, sd_allocation = a\<rparr>"
    using same by (simp add: booked_same)
qed


lemma commit_step_booked:
  assumes "begin_allocation_intent db p (allocation_name server) server rs = (Inr it, d1)"
    and "commit_allocation_intent d1 it g = (Inr a, d2)" and "placement_inv db" and "btree rs"
  shows "placement_inv d2"
    and "booked d2 server rs \<lparr>sd_provider = p, sd_allocation_id = ai_id it, sd_allocation = a\<rparr>"
proof -
  note it = begin_intent_Inr [OF assms(1)]
  then have "placement_inv d1" using assms(3) same_books_inv by metis
  from commit_intent_booked [OF assms(2) this, of server] it assms(4)
  show "placement_inv d2"
    and "booked d2 server rs \<lparr>sd_provider = p, sd_allocation_id = ai_id it, sd_allocation = a\<rparr>"
    by simp_all
qed

lemma converge_booked:
  "converge db server rs sel err = (Inr d, db') \<Longrightarrow>
   db' = db \<and> booked db server rs d \<and> (sel = None \<or> sd_provider d \<in> the sel)"
  by (auto simp: converge_def dest: existing_booked split: sum.splits option.splits)

lemma claim_first_booked:
  assumes "claim_first db server rs sel ps = (Inr d, db')" and "placement_inv db" and "btree rs"
    and "\<forall>p\<in>set ps. selected sel p"
  shows "placement_inv db' \<and> booked db' server rs d \<and> (sel = None \<or> sd_provider d \<in> the sel)"
  using assms
proof (induction ps arbitrary: db)
  case Nil
  then show ?case by (auto dest!: converge_booked)
next
  case (Cons p ps)
  obtain r1 d1 where b: "begin_allocation_intent db (rp_id p) (allocation_name server) server rs = (r1, d1)"
    by force
  show ?case
  proof (cases r1)
    case (Inl e)
    then show ?thesis using Cons.prems b begin_intent_Inl by (fastforce dest: converge_booked)
  next
    case (Inr it)
    note it = begin_intent_Inr [OF b [unfolded Inr]]
    then have inv1: "placement_inv d1" using Cons.prems(2) same_books_inv by metis
    obtain r2 d2 where c: "commit_allocation_intent d1 it (rp_generation p) = (r2, d2)" by force
    show ?thesis
    proof (cases r2)
      case (Inr a)
      with Cons.prems(1) b c \<open>r1 = Inr it\<close> have "db' = d2"
        "d = \<lparr>sd_provider = rp_id p, sd_allocation_id = ai_id it, sd_allocation = a\<rparr>" by simp_all
      then show ?thesis
        using commit_step_booked [OF b [unfolded \<open>r1 = Inr it\<close>] c [unfolded Inr] Cons.prems(2,3)]
          Cons.prems(4) by (auto simp: selected_def split: option.splits)
    next
      case (Inl e)
      then have d2: "d2 = d1" using c commit_intent_Inl by simp
      obtain r3 d3 where ab: "abandon_allocation_intent d2 it = (r3, d3)" by force
      then have inv3: "placement_inv d3"
        using abandon_same [of d2 it] inv1 d2 same_books_inv by (metis snd_conv)
      show ?thesis
      proof (cases "lost_race e \<and> isl r3 = False")
        case True
        then have "claim_first d3 server rs sel ps = (Inr d, db')"
          using Cons.prems(1) b c \<open>r1 = Inr it\<close> Inl ab by (cases r3) simp_all
        then show ?thesis using Cons.IH Cons.prems inv3 by simp
      next
        case False
        then obtain dd err where "converge dd server rs sel err = (Inr d, db')" "placement_inv dd"
          using Cons.prems(1) b c \<open>r1 = Inr it\<close> Inl ab inv3 inv1 d2
          by (cases r3) (auto split: if_splits)
        then show ?thesis by (auto dest!: converge_booked)
      qed
    qed
  qed
qed

section \<open>Retrying a schedule\<close>

lemma same_row:
  "placement_inv db \<Longrightarrow> x \<in> set (allocations db) \<Longrightarrow> y \<in> set (allocations db) \<Longrightarrow>
   al_id x = al_id y \<Longrightarrow> x = y"
  by (auto simp: placement_inv_alt distinct_map inj_on_def)

lemma booked_unique:
  assumes "placement_inv db" and "booked db server rs d" and "booked db server rs d'"
  shows "d = d'"
proof -
  obtain x rx where x: "x \<in> set (allocations db)" "al_id x = allocation_name server"
    "al_provider x = sd_provider d" "allocation_of_row x = Inr rx" "allocation_from_record rx = sd_allocation d"
    using assms(2) by (auto simp: booked_def)
  obtain y ry where y: "y \<in> set (allocations db)" "al_id y = allocation_name server"
    "al_provider y = sd_provider d'" "allocation_of_row y = Inr ry" "allocation_from_record ry = sd_allocation d'"
    using assms(3) by (auto simp: booked_def)
  have "x = y" by (rule same_row [OF assms(1) x(1) y(1)]) (simp add: x y)
  with x y assms(2,3) show ?thesis by (auto simp: booked_def)
qed

lemma ledger_providers_complete:
  assumes "ledger_providers db = Inr ps" and "(k, r) \<in> set (providers db)"
  obtains rec p where "provider_of_row db (k, r) = Inr rec" "provider_from_record rec = Inr p" "p \<in> set ps"
proof -
  obtain rs where rs: "list_all2 (\<lambda>x y. provider_of_row db x = Inr y) (sort_key fst (providers db)) rs"
    and ps: "list_all2 (\<lambda>x y. provider_from_record x = Inr y) rs ps"
    using assms(1)
    by (auto simp: ledger_providers_def list_providers_def collect_results_Inr split: sum.splits)
  obtain i where i: "i < length (sort_key fst (providers db))" "sort_key fst (providers db) ! i = (k, r)"
    using assms(2) by (metis in_set_conv_nth set_sort)
  then have len: "i < length rs" "i < length ps"
    using list_all2_lengthD [OF rs] list_all2_lengthD [OF ps] by simp_all
  show thesis
  proof (rule that)
    show "provider_of_row db (k, r) = Inr (rs ! i)" using list_all2_nthD [OF rs i(1)] i(2) by simp
    show "provider_from_record (rs ! i) = Inr (ps ! i)" by (rule list_all2_nthD [OF ps len(1)])
    show "ps ! i \<in> set ps" using len(2) by simp
  qed
qed

lemma converge_known:
  assumes inv: "placement_inv db" and booked: "booked db server rs d"
    and sel: "sel = None \<or> sd_provider d \<in> the sel" and ps: "ledger_providers db = Inr ps"
  shows "converge db server rs sel err = (Inr d, db)"
proof -
  let ?P = "\<lambda>p. selected sel p \<and> has_allocation server rs p"
  obtain row rec where row: "row \<in> set (allocations db)" "al_id row = allocation_name server"
    "al_provider row = sd_provider d" "allocation_of_row row = Inr rec"
    "allocation_from_record rec = sd_allocation d"
    and d: "sd_allocation_id d = allocation_name server" "alloc_consumer (sd_allocation d) = server"
      "alloc_resources (sd_allocation d) = rs"
    using booked by (auto simp: booked_def)
  obtain r where r: "find_provider db (sd_provider d) = Some r" using booked by (auto simp: booked_def)
  then have "(sd_provider d, r) \<in> set (providers db)" by (simp add: find_provider_def map_of_SomeD)
  from ledger_providers_complete [OF ps this] obtain pr p where
    pr: "provider_of_row db (sd_provider d, r) = Inr pr" "provider_from_record pr = Inr p" "p \<in> set ps" .
  have "get_provider db (sd_provider d) = Inr (Some pr)" using r pr(1) by (simp add: get_provider_def)
  from allocated_lookup(2) [OF inv row(1-4) this] provider_from_record_Inr [OF pr(2)]
  have look: "map_of (rp_allocations p) (allocation_name server) = Some (sd_allocation d)"
    by (simp add: row(5))
  have "rp_id p = sd_provider d"
    using provider_from_record_Inr [OF pr(2)] provider_of_row_Inr(1) [OF pr(1)] by simp
  then have "?P p" using look d sel by (auto simp: selected_def has_allocation_def split: option.splits)
  with pr(3) obtain q where q: "find ?P ps = Some q"
    by (cases "find ?P ps") (auto simp: find_None_iff)
  then have "existing_allocation db server rs sel = Inr (Some
      \<lparr>sd_provider = rp_id q, sd_allocation_id = allocation_name server,
       sd_allocation = the (map_of (rp_allocations q) (allocation_name server))\<rparr>)"
    (is "_ = Inr (Some ?d)")
    using ps by (simp add: existing_allocation_def)
  moreover from this existing_booked have "booked db server rs ?d" by blast
  then have "?d = d" using booked_unique [OF inv _ booked] by blast
  ultimately show ?thesis by (simp add: converge_def)
qed

lemma commit_intent_known:
  assumes inv: "placement_inv db" and booked: "booked db server rs d"
    and commit: "commit_allocation_intent db it g = (Inr a, db')"
    and it: "ai_id it = allocation_name server" "ai_consumer it = server" "ai_resources it = rs"
    and keys: "btree rs"
  shows "same_books db db'"
    and "\<lparr>sd_provider = ai_provider it, sd_allocation_id = ai_id it, sd_allocation = a\<rparr> = d"
proof -
  from commit_intent_Inr [OF commit] obtain d1 where
    alloc: "allocate db (ai_provider it) (ai_id it) (ai_consumer it) (ai_resources it) g = (Inr a, d1)"
    and db': "db' = delete_intent d1 (ai_id it)" by auto
  have "d1 = db"
  proof (rule ccontr)
    assume "d1 \<noteq> db"
    from allocate_at_cases [OF alloc [unfolded allocate_def] this] obtain res where
      com: "commit_allocation db (ai_provider it) g \<lparr>pa_id = ai_id it, pa_provider = ai_provider it,
        pa_consumer = ai_consumer it, pa_resources = ai_resources it\<rparr> = (res, d1)" by metis
    from booked have "\<exists>b\<in>set (allocations db). al_id b = ai_id it" by (auto simp: booked_def it(1))
    with commit_cases [OF com \<open>d1 \<noteq> db\<close>] show False by auto
  qed
  then show same: "same_books db db'" by (simp add: db' delete_intent_def)
  note made = commit_intent_booked [OF commit inv _ it(1,2), unfolded it(3), OF keys]
  show "\<lparr>sd_provider = ai_provider it, sd_allocation_id = ai_id it, sd_allocation = a\<rparr> = d"
    using booked_unique [OF made(1)] made(2) booked same by (simp add: booked_same)
qed

lemma claim_first_known:
  assumes "placement_inv db" and "booked db server rs d" and "btree rs"
    and "sel = None \<or> sd_provider d \<in> the sel" and "ledger_providers db = Inr all"
  shows "\<exists>db'. claim_first db server rs sel ps = (Inr d, db') \<and> same_books db db'"
  using assms
proof (induction ps arbitrary: db)
  case Nil
  then show ?case by (auto simp: converge_known)
next
  case (Cons p ps)
  have known: "converge db1 server rs sel err = (Inr d, db1)" if "same_books db db1" for db1 err
    using that Cons.prems same_books_inv same_books_providers booked_same
    by (intro converge_known [of db1 server rs d sel all]) metis+
  obtain r1 d1 where b: "begin_allocation_intent db (rp_id p) (allocation_name server) server rs = (r1, d1)"
    by force
  show ?case
  proof (cases r1)
    case (Inl e)
    then show ?thesis using b begin_intent_Inl [of db] known [of db] by fastforce
  next
    case (Inr it)
    note it = begin_intent_Inr [OF b [unfolded Inr]]
    then have same1: "same_books db d1" by simp
    obtain r2 d2 where c: "commit_allocation_intent d1 it (rp_generation p) = (r2, d2)" by force
    show ?thesis
    proof (cases r2)
      case (Inr a)
      have "placement_inv d1" "booked d1 server rs d"
        using same1 Cons.prems(1,2) same_books_inv booked_same by metis+
      from commit_intent_known [OF this c [unfolded Inr]] it Cons.prems(3)
      have "same_books d1 d2" "\<lparr>sd_provider = rp_id p, sd_allocation_id = ai_id it, sd_allocation = a\<rparr> = d"
        by simp_all
      then show ?thesis using b c \<open>r1 = Inr it\<close> Inr same1 by (auto intro: same_books_trans)
    next
      case (Inl e)
      then have d2: "d2 = d1" using c commit_intent_Inl by simp
      obtain r3 d3 where ab: "abandon_allocation_intent d2 it = (r3, d3)" by force
      then have same3: "same_books db d3"
        using abandon_same [of d2 it] same1 d2 same_books_trans by (metis snd_conv)
      then have "\<exists>db'. claim_first d3 server rs sel ps = (Inr d, db') \<and> same_books d3 db'"
        using Cons.prems same_books_inv same_books_providers booked_same
        by (intro Cons.IH) metis+
      then show ?thesis
        using b c \<open>r1 = Inr it\<close> Inl ab same1 same3 d2 known [OF same1] known [OF same3]
        by (cases r3) (auto intro: same_books_trans)
    qed
  qed
qed

lemma flavor_resources_btree [simp]: "btree (flavor_resources f)"
  by (simp add: flavor_resources_def)

text \<open>Scheduling converges. Once a server was scheduled, scheduling it again with the same flavor
  and selection (a retry after a lost answer, or a peer) answers the same decision and neither
  allocates nor releases anything, as long as the providers can be read.\<close>

theorem schedule_retry:
  assumes "placement_inv db" and "schedule_internal db server f sel = (Inr d, db')"
    and "ledger_providers db' = Inr ps"
  shows "\<exists>db''. schedule_internal db' server f sel = (Inr d, db'')
    \<and> providers db'' = providers db' \<and> allocations db'' = allocations db'"
proof -
  have valid: "valid_request server f" using assms(2) by (auto simp: schedule_internal_def split: if_splits)
  then obtain ps0 where claim:
    "claim_first db server (flavor_resources f) sel (first_fit sel f ps0) = (Inr d, db')"
    using assms(2) by (auto simp: schedule_internal_def split: sum.splits)
  have sel: "\<forall>p\<in>set (first_fit sel f ps0). selected sel p" by (simp add: first_fit_def schedulable_def)
  from claim_first_booked [OF claim assms(1) flavor_resources_btree sel]
  have "placement_inv db'" "booked db' server (flavor_resources f) d" "sel = None \<or> sd_provider d \<in> the sel"
    by auto
  from claim_first_known [OF this(1,2) flavor_resources_btree this(3) assms(3)] valid assms(3)
  show ?thesis by (auto simp: schedule_internal_def same_books_def)
qed

section \<open>Scheduling a server for the first time\<close>

lemma ignore_resources_total:
  "\<forall>x\<in>set rs. uint (snd x) \<le> i64_max \<Longrightarrow> distinct (map fst rs) \<Longrightarrow>
   fst ` set rows \<inter> fst ` set rs = {} \<Longrightarrow> ignore_resources rows rs = Inr (rows @ int_amounts rs)"
proof (induction rows rs rule: ignore_resources.induct)
  case (2 rows c a rest)
  then have "c \<notin> fst ` set rows" "placement_i64 a = Inr (uint a)"
    by (auto simp: placement_i64_small)
  with 2 show ?case by auto
qed simp

lemma find_append_None: "find P xs = None \<Longrightarrow> find P (xs @ ys) = find P ys"
  by (induction xs) (auto split: if_splits)

lemma begin_intent_total:
  assumes "p \<noteq> []" "i \<noteq> []" "c \<noteq> []" "rs \<noteq> []" and "btree rs"
    and rs: "\<forall>x\<in>set rs. snd x \<noteq> 0 \<and> uint (snd x) \<le> i64_max"
    and "find_provider db p \<noteq> None" and new: "find (\<lambda>r. al_id r = i) (intents db) = None"
  shows "\<exists>d. begin_allocation_intent db p i c rs =
      (Inr \<lparr>ai_provider = p, ai_id = i, ai_consumer = c, ai_resources = rs\<rparr>, d)
    \<and> allocation_intent_of d i =
      Inr (Some \<lparr>ai_provider = p, ai_id = i, ai_consumer = c, ai_resources = rs\<rparr>)"
proof -
  let ?a = "\<lparr>pa_id = i, pa_provider = p, pa_consumer = c, pa_resources = rs\<rparr>"
  let ?row = "\<lparr>al_id = i, al_provider = p, al_consumer = c, al_resources = int_amounts rs\<rparr>"
  have keys: "distinct (map fst rs)" by (rule btree_distinct [OF assms(5)])
  obtain rows where rows: "resource_rows [] rs = Inr rows"
    using resource_rows_total [of rs "[]"] rs keys by auto
  then have row: "allocation_of_row ?row = Inr ?a"
    using allocation_of_new_row [OF assms(5) rows] resource_rows_append [OF rows] by simp
  have ign: "ignore_resources [] rs = Inr (int_amounts rs)"
    using ignore_resources_total [of rs "[]"] rs keys by simp
  have up: "upsert_intent db ?a = (Inr ?a, db\<lparr>intents := intents db @ [?row]\<rparr>)"
    using assms row ign by (auto simp: upsert_intent_def Let_def validate_allocation_def list_ex_iff)
  have "allocation_intent_of (db\<lparr>intents := intents db @ [?row]\<rparr>) i = Inr (Some (intent_from_record ?a))"
    using row by (simp add: allocation_intent_of_def get_intent_def find_append_None [OF new])
  moreover have "intent_from_record ?a = \<lparr>ai_provider = p, ai_id = i, ai_consumer = c, ai_resources = rs\<rparr>"
    using btree_collect_entries [OF assms(5)] by (simp add: intent_from_record_def resource_map_def)
  ultimately show ?thesis
    using assms up
    by (auto simp: begin_allocation_intent_def ledger_result_def intent_to_record_def
        resource_records_def list_ex_iff)
qed

lemma commit_intent_total:
  assumes stored: "allocation_intent_of d (ai_id it) = Inr (Some it)"
    and get: "get_provider d (ai_provider it) = Inr (Some rec)" "pr_state rec = ''Enabled''"
    and fits: "fits (inventory_map (pr_inventories rec)) (ai_resources it)"
    and new: "\<forall>a\<in>set (allocations d). al_id a \<noteq> ai_id it"
    and it: "ai_provider it \<noteq> []" "ai_id it \<noteq> []" "ai_consumer it \<noteq> []" "ai_resources it \<noteq> []"
    and rs: "\<forall>x\<in>set (ai_resources it). snd x \<noteq> 0 \<and> uint (snd x) \<le> i64_max" "btree (ai_resources it)"
  shows "\<exists>a d'. commit_allocation_intent d it (pr_generation rec) = (Inr a, d')"
proof -
  obtain r where r: "find_provider d (ai_provider it) = Some r"
    "provider_of_row d (ai_provider it, r) = Inr rec"
    using get(1) by (auto simp: get_provider_def split: option.splits sum.splits)
  note of_row = provider_of_row_Inr [OF r(2)]
  have "pa_id a \<noteq> ai_id it" if a: "a \<in> set (pr_allocations rec)" for a
  proof -
    from load_allocations_ids [OF of_row(5) a] obtain w where
      "w \<in> set (allocations d)" "allocation_of_row w = Inr a" .
    with new allocation_of_row_fields show ?thesis by metis
  qed
  then have none: "find (\<lambda>a. pa_id a = ai_id it) (pr_allocations rec) = None"
    by (auto simp: find_None_iff)
  have gen: "placement_i64 (pr_generation rec) = Inr (row_generation r)"
    using of_row(3) by (simp add: placement_i64_of_u64 placement_u64_def)
  obtain d' where "commit_allocation d (ai_provider it) (pr_generation rec)
      \<lparr>pa_id = ai_id it, pa_provider = ai_provider it, pa_consumer = ai_consumer it,
       pa_resources = ai_resources it\<rparr> =
    (Inr \<lparr>pa_id = ai_id it, pa_provider = ai_provider it, pa_consumer = ai_consumer it,
       pa_resources = ai_resources it\<rparr>, d')"
    using commit_total [OF r(1) gen new it(1-2) it(3-4) rs(1) btree_distinct [OF rs(2)]] by auto
  then show ?thesis
    using stored get none fits it rs(1)
    by (auto simp: commit_allocation_intent_def intent_to_commit_def allocate_def allocate_at_def
        read_provider_at_same state_enabled ledger_result_def resource_records_def list_ex_iff)
qed

lemma flavor_resources_lookup:
  "map_of (flavor_resources f) = [''VCPU'' \<mapsto> fl_vcpus f, ''MEMORY_MB'' \<mapsto> fl_memory_mb f,
     ''DISK_GB'' \<mapsto> fl_disk_gb f]"
  by (auto simp: flavor_resources_def btree_collect_lookup fun_eq_iff)

lemma flavor_resources_entries:
  "set (flavor_resources f) =
     {(''VCPU'', fl_vcpus f), (''MEMORY_MB'', fl_memory_mb f), (''DISK_GB'', fl_disk_gb f)}"
proof -
  have "(c, n) \<in> set (flavor_resources f) \<longleftrightarrow> map_of (flavor_resources f) c = Some n" for c n
    using btree_distinct [OF flavor_resources_btree] by (simp add: map_of_eq_Some_iff)
  then show ?thesis by (auto simp: flavor_resources_lookup split: if_splits)
qed

lemma flavor_resources_nonempty: "flavor_resources f \<noteq> []"
  using flavor_resources_entries [of f] by force

lemma schedulable_fits:
  "schedulable sel f p \<Longrightarrow> fits (rp_inventories p) (flavor_resources f)"
  by (auto simp: fits_def list_all_iff flavor_resources_entries schedulable_def holds_class_def
      split: option.splits)

lemma first_fit_set: "set (first_fit sel f ps) = {p \<in> set ps. schedulable sel f p}"
  by (auto simp: first_fit_def)

lemma first_fit_nonempty:
  assumes "p \<in> set ps" and "schedulable sel f p"
  obtains q qs where "first_fit sel f ps = q # qs" "q \<in> set ps" "schedulable sel f q"
proof -
  from assms have "p \<in> set (first_fit sel f ps)" by (simp add: first_fit_set)
  then obtain q qs where q: "first_fit sel f ps = q # qs" by (cases "first_fit sel f ps") auto
  then have "q \<in> set ps \<and> schedulable sel f q"
    using first_fit_set [of sel f ps] by auto
  with q that show thesis by simp
qed

text \<open>C11: the scheduler finds a host for a flavor with a disk whenever there is one. If some selected,
  enabled provider has the capacity for such a flavor, in a valid request whose amounts fit an
  \<open>i64\<close>, and the server has neither an allocation nor a pending intent, scheduling answers a
  decision; it does not report that no host is valid. A flavor without a disk is rejected
  (\<open>diskless_flavor_rejected\<close>).\<close>

theorem schedule_succeeds:
  assumes "valid_request server f" "fl_disk_gb f \<noteq> 0"
    and "\<forall>x\<in>set (flavor_resources f). uint (snd x) \<le> i64_max"
    and ps: "ledger_providers db = Inr ps" "p \<in> set ps" "schedulable sel f p"
    and db: "distinct (map fst (providers db))" "\<forall>q\<in>set ps. rp_id q \<noteq> []"
    and new: "\<forall>a\<in>set (allocations db). al_id a \<noteq> allocation_name server"
      "\<forall>a\<in>set (intents db). al_id a \<noteq> allocation_name server"
  shows "\<exists>d db'. schedule_internal db server f sel = (Inr d, db')"
proof -
  from first_fit_nonempty [OF ps(2,3)] obtain q qs where
    q: "first_fit sel f ps = q # qs" "q \<in> set ps" "schedulable sel f q" .
  from ledger_providers_member [OF ps(1) q(2)] obtain k r rec where
    k: "(k, r) \<in> set (providers db)" "provider_of_row db (k, r) = Inr rec"
    "provider_from_record rec = Inr q" .
  note of_rec = provider_from_record_Inr [OF k(3)] and of_row = provider_of_row_Inr [OF k(2)]
  have id: "k = rp_id q" using of_rec of_row(1) by simp
  have find: "find_provider db k = Some r" using db(1) k(1) by (simp add: find_provider_def)
  let ?it = "\<lparr>ai_provider = rp_id q, ai_id = allocation_name server, ai_consumer = server,
    ai_resources = flavor_resources f\<rparr>"
  have rs: "\<forall>x\<in>set (flavor_resources f). snd x \<noteq> 0 \<and> uint (snd x) \<le> i64_max"
    using assms(1-3) by (auto simp: flavor_resources_entries valid_request_def)
  have names: "server \<noteq> []" "allocation_name server \<noteq> []" "rp_id q \<noteq> []"
    using assms(1) db(2) q(2) by (auto simp: valid_request_def allocation_name_def)
  obtain d where made: "begin_allocation_intent db (rp_id q) (allocation_name server) server
      (flavor_resources f) = (Inr ?it, d)" "allocation_intent_of d (ai_id ?it) = Inr (Some ?it)"
    using begin_intent_total [OF names(3,2,1) flavor_resources_nonempty flavor_resources_btree rs,
        of db] find id new(2) by (auto simp: find_None_iff)
  have same: "same_books db d" using begin_intent_Inr [OF made(1)] by simp
  have row: "provider_of_row d (k, r) = Inr rec"
    using k(2) same_books_rows [OF same] by simp
  have get: "get_provider d (ai_provider ?it) = Inr (Some rec)"
    using find id same_books_find [OF same] row by (simp add: get_provider_def)
  have "pr_state rec = ''Enabled''" "fits (inventory_map (pr_inventories rec)) (ai_resources ?it)"
    using of_rec q(3) schedulable_fits [OF q(3)] by (auto simp: schedulable_def state_enabled)
  from commit_intent_total [OF made(2) get this] new(1) names rs same flavor_resources_nonempty
  obtain a d' where "commit_allocation_intent d ?it (pr_generation rec) = (Inr a, d')"
    by (auto simp: same_books_def)
  then have "commit_allocation_intent d ?it (rp_generation q) = (Inr a, d')" using of_rec by simp
  with made(1) q(1) ps(1) assms(1) show ?thesis by (simp add: schedule_internal_def)
qed


section \<open>Flavors without a disk\<close>

text \<open>A flavor without a disk cannot be scheduled, however much capacity there is: the request
  always contains the disk class, with amount zero, which the ledger rejects, although
  flavors without a disk can be created and the constrained variant leaves the class out.\<close>

theorem diskless_flavor_rejected:
  assumes "valid_request server f" and "fl_disk_gb f = 0"
    and ps: "ledger_providers db = Inr ps" "p \<in> set ps" "schedulable sel f p"
    and new: "\<forall>a\<in>set (allocations db). al_id a \<noteq> allocation_name server"
  shows "schedule_internal db server f sel = (Inl (PlacementFailed InvalidAllocation), db)"
proof -
  from first_fit_nonempty [OF ps(2,3)] obtain q qs where q: "first_fit sel f ps = q # qs" by metis
  have "(''DISK_GB'', 0) \<in> set (flavor_resources f)"
    using assms(2) by (simp add: flavor_resources_entries)
  then have "list_ex (\<lambda>x. snd x = 0) (flavor_resources f)" by (force simp: list_ex_iff)
  then have reject: "begin_allocation_intent db (rp_id q) (allocation_name server) server
      (flavor_resources f) = (Inl InvalidAllocation, db)"
    by (simp add: begin_allocation_intent_def)
  have "\<not> has_allocation server (flavor_resources f) x" if "x \<in> set ps" for x
  proof
    assume "has_allocation server (flavor_resources f) x"
    then obtain a where "map_of (rp_allocations x) (allocation_name server) = Some a"
      by (auto simp: has_allocation_def split: option.splits)
    from listed_allocation [OF ps(1) that this] new show False by metis
  qed
  then have "existing_allocation db server (flavor_resources f) sel = Inr None"
    using ps(1) by (auto simp: existing_allocation_def find_None_iff split: option.splits dest!: find_SomeD)
  with reject q ps(1) assms(1) show ?thesis by (simp add: schedule_internal_def converge_def)
qed

definition demo_fleet :: placement_db where
  "demo_fleet = run_ops placement_step no_placement
     [OpRegister ''n'' (map (\<lambda>c. \<lparr>resource_class = c, total = 8, inv_reserved = 0,
        allocation_ratio = one_f64, used = 0\<rparr>) [''DISK_GB'', ''MEMORY_MB'', ''VCPU''])]"

definition demo_fleet_inventories :: "u64 \<Rightarrow> placement_inventory list" where
  "demo_fleet_inventories u = map (\<lambda>c. \<lparr>resource_class = c, total = 8, inv_reserved = 0,
        allocation_ratio = one_f64, used = u\<rparr>) [''DISK_GB'', ''MEMORY_MB'', ''VCPU'']"

lemma demo_fleet_list:
  "list_providers demo_fleet = Inr
     [\<lparr>pr_id = ''n'', pr_node = ''n'', pr_state = ''Enabled'', pr_generation = 1,
      pr_inventories = demo_fleet_inventories 0, pr_allocations = [], pr_parent = None,
      pr_traits = [], pr_failure_domains = [], pr_location = None\<rparr>]"
  by code_simp

lemma demo_class:
  assumes "c \<in> {''DISK_GB'', ''MEMORY_MB'', ''VCPU''}" and "u \<le> 8"
  shows "\<exists>i. map_of (inventory_map (demo_fleet_inventories u)) c = Some i \<and> available i = 8 - u"
  using assms
  by (auto simp: demo_fleet_inventories_def inventory_map_def btree_collect_def available_def
      scale_floor_one saturating_sub_def)

lemma demo_fleet_providers:
  "\<exists>p. ledger_providers demo_fleet = Inr [p] \<and> rp_state p = Enabled
     \<and> rp_inventories p = inventory_map (demo_fleet_inventories 0)"
  unfolding ledger_providers_def demo_fleet_list
  by (simp add: provider_from_record_def provider_state_from_str_def)

definition diskless :: flavor where
  "diskless = \<lparr>fl_vcpus = 2, fl_memory_mb = 4, fl_disk_gb = 0\<rparr>"

theorem diskless_flavor_rejected_witness:
  "fst (schedule_internal demo_fleet ''s'' diskless None) = Inl (PlacementFailed InvalidAllocation)"
proof -
  obtain p where p: "ledger_providers demo_fleet = Inr [p]" "rp_state p = Enabled"
    "rp_inventories p = inventory_map (demo_fleet_inventories 0)"
    using demo_fleet_providers by blast
  have "allocations demo_fleet = []" by code_simp
  moreover have "schedulable None diskless p"
    using demo_class [of "''VCPU''" 0] demo_class [of "''MEMORY_MB''" 0] demo_class [of "''DISK_GB''" 0] p
    by (auto simp: schedulable_def selected_def holds_class_def diskless_def)
  moreover have "valid_request ''s'' diskless" by (simp add: valid_request_def diskless_def)
  ultimately show ?thesis
    using diskless_flavor_rejected [OF _ _ p(1), of "''s''" diskless p None]
    by (simp add: diskless_def)
qed


definition small_flavor :: flavor where
  "small_flavor = \<lparr>fl_vcpus = 2, fl_memory_mb = 4, fl_disk_gb = 1\<rparr>"

theorem schedule_succeeds_witness:
  "\<exists>d db'. schedule_internal demo_fleet ''s'' small_flavor None = (Inr d, db')"
proof -
  obtain p where p: "ledger_providers demo_fleet = Inr [p]" "rp_state p = Enabled"
    "rp_inventories p = inventory_map (demo_fleet_inventories 0)"
    using demo_fleet_providers by blast
  have "allocations demo_fleet = [] \<and> intents demo_fleet = [] \<and> map fst (providers demo_fleet) = [''n'']"
    by code_simp
  moreover have "schedulable None small_flavor p"
    using demo_class [of "''VCPU''" 0] demo_class [of "''MEMORY_MB''" 0] demo_class [of "''DISK_GB''" 0] p
    by (auto simp: schedulable_def selected_def holds_class_def small_flavor_def)
  moreover have "valid_request ''s'' small_flavor" by (simp add: valid_request_def small_flavor_def)
  moreover have "rp_id p = ''n''"
    using p(1) unfolding ledger_providers_def demo_fleet_list
    by (auto simp: provider_from_record_def split: option.splits)
  ultimately show ?thesis
    using schedule_succeeds [OF _ _ _ p(1), of "''s''" small_flavor p None]
    by (simp add: flavor_resources_entries small_flavor_def i64_max_def)
qed

text \<open>The fleet after the server was scheduled with a flavor that fills it.\<close>

definition full_fleet :: placement_db where
  "full_fleet = run_ops placement_step demo_fleet
     [OpCommit 1 \<lparr>pa_id = ''allocation-s'', pa_provider = ''n'', pa_consumer = ''s'',
        pa_resources = [(''DISK_GB'', 8), (''MEMORY_MB'', 8), (''VCPU'', 8)]\<rparr>]"

definition big_flavor :: flavor where
  "big_flavor = \<lparr>fl_vcpus = 8, fl_memory_mb = 8, fl_disk_gb = 8\<rparr>"

lemma full_fleet_list:
  "list_providers full_fleet = Inr
     [\<lparr>pr_id = ''n'', pr_node = ''n'', pr_state = ''Enabled'', pr_generation = 2,
      pr_inventories = demo_fleet_inventories 8,
      pr_allocations = [\<lparr>pa_id = ''allocation-s'', pa_provider = ''n'', pa_consumer = ''s'',
        pa_resources = [(''DISK_GB'', 8), (''MEMORY_MB'', 8), (''VCPU'', 8)]\<rparr>], pr_parent = None,
      pr_traits = [], pr_failure_domains = [], pr_location = None\<rparr>]"
  by code_simp

lemma full_fleet_providers:
  "\<exists>p. ledger_providers full_fleet = Inr [p] \<and> rp_id p = ''n''
     \<and> rp_inventories p = inventory_map (demo_fleet_inventories 8)
     \<and> map_of (rp_allocations p) ''allocation-s'' = Some
         \<lparr>alloc_provider = ''n'', alloc_consumer = ''s'', alloc_resources = flavor_resources big_flavor\<rparr>"
  unfolding ledger_providers_def full_fleet_list
  by (simp add: provider_from_record_def provider_state_from_str_def btree_collect_def
      allocation_from_record_def resource_map_def flavor_resources_def big_flavor_def)

lemma full_fleet_schedule:
  "schedule_internal full_fleet ''s'' big_flavor None =
     (Inr \<lparr>sd_provider = ''n'', sd_allocation_id = ''allocation-s'',
           sd_allocation = \<lparr>alloc_provider = ''n'', alloc_consumer = ''s'',
             alloc_resources = flavor_resources big_flavor\<rparr>\<rparr>, full_fleet)"
proof -
  obtain p where p: "ledger_providers full_fleet = Inr [p]" "rp_id p = ''n''"
    "rp_inventories p = inventory_map (demo_fleet_inventories 8)"
    "map_of (rp_allocations p) ''allocation-s'' = Some
       \<lparr>alloc_provider = ''n'', alloc_consumer = ''s'', alloc_resources = flavor_resources big_flavor\<rparr>"
    using full_fleet_providers by blast
  have "\<not> schedulable None big_flavor p"
    using demo_class [of "''VCPU''" 8] p(3)
    by (auto simp: schedulable_def holds_class_def big_flavor_def)
  then have "first_fit None big_flavor [p] = []" by (simp add: first_fit_def)
  moreover have "valid_request ''s'' big_flavor" by (simp add: valid_request_def big_flavor_def)
  ultimately show ?thesis
    using p by (simp add: schedule_internal_def converge_def existing_allocation_def selected_def
      has_allocation_def allocation_name_def)
qed

theorem schedule_retry_witness:
  "\<exists>d db''. schedule_internal full_fleet ''s'' big_flavor None = (Inr d, full_fleet)
     \<and> schedule_internal full_fleet ''s'' big_flavor None = (Inr d, db'')
     \<and> sd_provider d = ''n'' \<and> allocations db'' = allocations full_fleet"
proof -
  obtain p where p: "ledger_providers full_fleet = Inr [p]" using full_fleet_providers by blast
  have "placement_inv full_fleet"
    unfolding full_fleet_def demo_fleet_def by (intro placement_machine.run_inv no_placement_inv)
  from schedule_retry [OF this full_fleet_schedule p] full_fleet_schedule show ?thesis by force
qed

end
