(* ===== verification/Rust_Text.thy ===== *)
theory Rust_Text
  imports Rust_Prelude
begin

text \<open>
  The characters of a Rust string, which here is the list of its UTF-8 bytes: where \<open>chars()\<close>
  cuts, which characters are control characters, and what \<open>take\<close> on characters leaves.
\<close>

text \<open>The characters of a string: a lead byte with the continuation bytes that follow it.\<close>

definition continuation :: "char \<Rightarrow> bool" where
  "continuation c = (let b = of_char c :: nat in 128 \<le> b \<and> b < 192)"

function utf8_chars :: "string \<Rightarrow> string list" where
  "utf8_chars [] = []"
| "utf8_chars (c # cs) = (c # takeWhile continuation cs) # utf8_chars (dropWhile continuation cs)"
  by pat_completeness auto

termination utf8_chars
  by (relation "measure length") (auto simp: le_imp_less_Suc length_dropWhile_le)

definition control_char :: "string \<Rightarrow> bool" where
  "control_char c =
     (let b = map of_char c :: nat list in
      (case b of
         [x] \<Rightarrow> x < 32 \<or> x = 127
       | [x, y] \<Rightarrow> x = 194 \<and> 128 \<le> y \<and> y < 160
       | _ \<Rightarrow> False))"

lemma utf8_chars_take: "utf8_chars (concat (take n (utf8_chars s))) = take n (utf8_chars s)"
proof (induction s arbitrary: n rule: utf8_chars.induct)
  case 1
  then show ?case by simp
next
  case (2 c cs)
  show ?case
  proof (cases n)
    case 0
    then show ?thesis by simp
  next
    case (Suc m)
    let ?rest = "concat (take m (utf8_chars (dropWhile continuation cs)))"
    have head: "?rest = [] \<or> \<not> continuation (hd ?rest)"
    proof (cases "dropWhile continuation cs")
      case Nil
      then have "utf8_chars (dropWhile continuation cs) = []" by (simp only: utf8_chars.simps)
      then show ?thesis by simp
    next
      case (Cons d ds)
      then have "\<not> continuation d" by (metis hd_dropWhile list.sel(1) list.simps(3))
      with Cons show ?thesis by (cases m) simp_all
    qed
    define rest where "rest = ?rest"
    note head = head [folded rest_def]
    have tw: "takeWhile continuation (takeWhile continuation cs @ rest) = takeWhile continuation cs"
      using head by (cases rest) (auto simp: takeWhile_append dest: set_takeWhileD)
    have dw: "dropWhile continuation (takeWhile continuation cs @ rest) = rest"
      using head by (cases rest) (auto simp: dropWhile_append dest: set_takeWhileD)
    have "concat (take n (utf8_chars (c # cs))) = c # takeWhile continuation cs @ rest"
      by (simp add: Suc rest_def)
    then show ?thesis using 2 [of m, folded rest_def] by (simp add: tw dw) (simp add: Suc rest_def)
  qed
qed

lemma utf8_chars_snoc:
  "\<not> continuation d \<Longrightarrow> length (utf8_chars (s @ d # ds)) = length (utf8_chars s) + length (utf8_chars (d # ds))"
proof (induction s rule: utf8_chars.induct)
  case (2 c cs)
  have "dropWhile continuation (cs @ d # ds) = dropWhile continuation cs @ d # ds"
    using 2(2) by (simp add: dropWhile_append dropWhile_eq_Nil_conv)
  with 2 show ?case by simp
qed simp

end
