(* ===== verification/Rust_Effects.thy ===== *)
theory Rust_Effects
  imports Rust_Prelude
begin

text \<open>
  Handlers that change a world and may fail: a handler is a function from the world to a result
  and the world afterwards, so what it did before an error stays done. \<open>chain\<close> is the operator
  \<open>?\<close>, \<open>attempt\<close> a \<open>match\<close> on a result. Two ways to reason about a handler: a preorder it
  respects (the locale \<open>kept_effects\<close>), and a condition it upholds.
\<close>

type_synonym ('w, 'e, 'a) effect = "'w \<Rightarrow> ('e, 'a) rust_result \<times> 'w"

definition done_with :: "'a \<Rightarrow> ('w, 'e, 'a) effect" where
  "done_with x w = (Inr x, w)"

definition fail_with :: "'e \<Rightarrow> ('w, 'e, 'a) effect" where
  "fail_with e w = (Inl e, w)"

text \<open>\<open>chain m f\<close> is \<open>f(m?)\<close>; \<open>attempt m f\<close> looks at the error of \<open>m\<close>.\<close>

definition chain :: "('w, 'e, 'a) effect \<Rightarrow> ('a \<Rightarrow> ('w, 'e, 'b) effect) \<Rightarrow> ('w, 'e, 'b) effect" where
  "chain m f w = (case m w of (Inl e, w') \<Rightarrow> (Inl e, w') | (Inr x, w') \<Rightarrow> f x w')"

definition attempt ::
  "('w, 'e, 'a) effect \<Rightarrow> (('e, 'a) rust_result \<Rightarrow> ('w, 'd, 'b) effect) \<Rightarrow> ('w, 'd, 'b) effect" where
  "attempt m f w = (case m w of (r, w') \<Rightarrow> f r w')"

definition from_option :: "'e \<Rightarrow> 'a option \<Rightarrow> ('w, 'e, 'a) effect" where
  "from_option e v = (case v of None \<Rightarrow> fail_with e | Some x \<Rightarrow> done_with x)"

section \<open>Preorders a handler respects\<close>

definition keeps :: "('w \<Rightarrow> 'w \<Rightarrow> bool) \<Rightarrow> ('w, 'e, 'a) effect \<Rightarrow> bool" where
  "keeps rel m \<longleftrightarrow> (\<forall>w. rel w (snd (m w)))"

locale kept_effects =
  fixes rel :: "'w \<Rightarrow> 'w \<Rightarrow> bool"
  assumes rel_refl: "rel w w"
    and rel_trans: "rel a b \<Longrightarrow> rel b c \<Longrightarrow> rel a c"
begin

lemma keeps_done: "keeps rel (done_with x)"
  by (simp add: keeps_def done_with_def rel_refl)

lemma keeps_fail: "keeps rel (fail_with e)"
  by (simp add: keeps_def fail_with_def rel_refl)

lemma keeps_option: "keeps rel (from_option e v)"
  by (cases v) (simp_all add: from_option_def keeps_done keeps_fail)

lemma keeps_chain: "keeps rel m \<Longrightarrow> (\<And>x. keeps rel (f x)) \<Longrightarrow> keeps rel (chain m f)"
  unfolding keeps_def chain_def by (auto split: prod.splits sum.splits) (metis rel_trans snd_conv)+

lemma keeps_attempt: "keeps rel m \<Longrightarrow> (\<And>x. keeps rel (f x)) \<Longrightarrow> keeps rel (attempt m f)"
  unfolding keeps_def attempt_def by (auto split: prod.splits) (metis rel_trans snd_conv)

lemma keeps_if: "keeps rel a \<Longrightarrow> keeps rel b \<Longrightarrow> keeps rel (if c then a else b)"
  by simp

lemma keeps_case_option:
  "keeps rel a \<Longrightarrow> (\<And>x. keeps rel (f x)) \<Longrightarrow> keeps rel (case v of None \<Rightarrow> a | Some x \<Rightarrow> f x)"
  by (cases v) simp_all

lemma keeps_case_sum:
  "(\<And>x. keeps rel (f x)) \<Longrightarrow> (\<And>x. keeps rel (g x)) \<Longrightarrow> keeps rel (case v of Inl x \<Rightarrow> f x | Inr x \<Rightarrow> g x)"
  by (cases v) simp_all

end

lemma keeps_snd: "keeps rel m \<Longrightarrow> rel w (snd (m w))"
  by (simp add: keeps_def)

section \<open>Conditions a handler upholds\<close>

text \<open>\<open>upholds Q m A\<close>: from a world of \<open>Q\<close> the action ends in one, and a result satisfies \<open>A\<close>.\<close>

definition upholds :: "('w \<Rightarrow> bool) \<Rightarrow> ('w, 'e, 'a) effect \<Rightarrow> ('a \<Rightarrow> bool) \<Rightarrow> bool" where
  "upholds Q m A \<longleftrightarrow> (\<forall>w. Q w \<longrightarrow> Q (snd (m w)) \<and> (\<forall>x. fst (m w) = Inr x \<longrightarrow> A x))"

lemma upholdsD: "upholds Q m A \<Longrightarrow> Q w \<Longrightarrow> Q (snd (m w))"
  "upholds Q m A \<Longrightarrow> Q w \<Longrightarrow> fst (m w) = Inr x \<Longrightarrow> A x"
  by (simp_all add: upholds_def)

lemma upholds_done: "A x \<Longrightarrow> upholds Q (done_with x) A"
  by (simp add: upholds_def done_with_def)

lemma upholds_fail: "upholds Q (fail_with e) A"
  by (simp add: upholds_def fail_with_def)

lemma upholds_chain: "upholds Q m B \<Longrightarrow> (\<And>x. B x \<Longrightarrow> upholds Q (f x) A) \<Longrightarrow> upholds Q (chain m f) A"
  unfolding upholds_def chain_def by (auto split: prod.splits sum.splits)

lemma upholds_attempt:
  assumes "upholds Q m B" "\<And>x. B x \<Longrightarrow> upholds Q (f (Inr x)) A" "\<And>e. upholds Q (f (Inl e)) A"
  shows "upholds Q (attempt m f) A"
  unfolding upholds_def
proof (intro allI impI)
  fix w
  assume w: "Q w"
  obtain r w' where m: "m w = (r, w')" by (cases "m w")
  with assms(1) w have w': "Q w'" by (auto simp: upholds_def)
  have "upholds Q (f r) A"
  proof (cases r)
    case (Inl e)
    then show ?thesis using assms(3) by simp
  next
    case (Inr x)
    with assms(1) w m have "B x" by (auto simp: upholds_def)
    then show ?thesis using assms(2) Inr by simp
  qed
  with w' show "Q (snd (attempt m f w)) \<and> (\<forall>x. fst (attempt m f w) = Inr x \<longrightarrow> A x)"
    by (simp add: attempt_def m upholds_def)
qed

lemma upholds_weaken: "upholds Q m B \<Longrightarrow> (\<And>x. B x \<Longrightarrow> A x) \<Longrightarrow> upholds Q m A"
  by (auto simp: upholds_def)

lemma upholds_option: "(\<And>x. v = Some x \<Longrightarrow> A x) \<Longrightarrow> upholds Q (from_option e v) A"
  by (cases v) (simp_all add: from_option_def upholds_done upholds_fail)

lemma upholds_if:
  "(c \<Longrightarrow> upholds Q a A) \<Longrightarrow> (\<not> c \<Longrightarrow> upholds Q b A) \<Longrightarrow> upholds Q (if c then a else b) A"
  by simp

lemma upholds_case_option:
  "(v = None \<Longrightarrow> upholds Q a A) \<Longrightarrow> (\<And>x. v = Some x \<Longrightarrow> upholds Q (f x) A) \<Longrightarrow>
   upholds Q (case v of None \<Rightarrow> a | Some x \<Rightarrow> f x) A"
  by (cases v) simp_all

end
