(* ===== verification/Compute_State.thy ===== *)
theory Compute_State
  imports Rust_Prelude
begin

text \<open>
  The states the durable compute records speak in: the server lifecycle
  (\<open>crates/o3k-domain/src/lib.rs\<close>) with its storage encoding
  (\<open>crates/o3k-store/src/server_state.rs\<close>), the states of operations and agent commands
  (\<open>crates/o3k-store/src/domain/state.rs\<close>), and what a provider or an agent reports
  (\<open>crates/o3k-provider/src/lib.rs\<close>, \<open>agent.rs\<close>). Constructors carry a prefix where the source
  uses one name for several types. Lemmas: encodings are injective, decoding inverts them
  and rejects everything else, which transitions a server can make.
\<close>

section \<open>Servers\<close>

datatype server_state =
    SrvRequested | SrvBuilding | SrvActive | SrvStopping | SrvStopped | SrvStarting
  | SrvRebooting | SrvDeleting | SrvDeleted | SrvError

definition valid_transitions :: "(server_state \<times> server_state) list" where
  "valid_transitions =
     [(SrvRequested, SrvBuilding), (SrvBuilding, SrvActive),
      (SrvRequested, SrvError), (SrvBuilding, SrvError), (SrvActive, SrvError),
      (SrvStopping, SrvError), (SrvStopped, SrvError), (SrvStarting, SrvError),
      (SrvRebooting, SrvError), (SrvDeleting, SrvError),
      (SrvActive, SrvStopping), (SrvStopped, SrvStarting), (SrvStarting, SrvActive),
      (SrvStopping, SrvStopped), (SrvActive, SrvRebooting), (SrvStopped, SrvRebooting),
      (SrvRebooting, SrvActive),
      (SrvRequested, SrvDeleting), (SrvBuilding, SrvDeleting), (SrvActive, SrvDeleting),
      (SrvStopping, SrvDeleting), (SrvStopped, SrvDeleting), (SrvStarting, SrvDeleting),
      (SrvRebooting, SrvDeleting), (SrvError, SrvDeleting), (SrvDeleting, SrvDeleted)]"

datatype transition_error = InvalidTransition server_state server_state

definition server_transition ::
  "server_state \<Rightarrow> server_state \<Rightarrow> (transition_error, server_state) rust_result" where
  "server_transition from to' =
     (if (from, to') \<in> set valid_transitions then Inr to' else Inl (InvalidTransition from to'))"

definition server_is_terminal :: "server_state \<Rightarrow> bool" where
  "server_is_terminal s = (s = SrvDeleted)"

fun server_state_to_storage :: "server_state \<Rightarrow> string" where
  "server_state_to_storage SrvRequested = ''REQUESTED''"
| "server_state_to_storage SrvBuilding = ''BUILD''"
| "server_state_to_storage SrvActive = ''ACTIVE''"
| "server_state_to_storage SrvStopping = ''STOPPING''"
| "server_state_to_storage SrvStopped = ''SHUTOFF''"
| "server_state_to_storage SrvStarting = ''STARTING''"
| "server_state_to_storage SrvRebooting = ''REBOOTING''"
| "server_state_to_storage SrvDeleting = ''DELETING''"
| "server_state_to_storage SrvDeleted = ''DELETED''"
| "server_state_to_storage SrvError = ''ERROR''"

text \<open>\<open>to_ascii_uppercase\<close> works on bytes; \<open>None\<close> stands for the corrupt-state error.\<close>

definition server_state_from_storage :: "string \<Rightarrow> server_state option" where
  "server_state_from_storage value =
     (let s = to_ascii_uppercase value in
      if s = ''REQUESTED'' then Some SrvRequested
      else if s = ''BUILD'' \<or> s = ''CREATING'' then Some SrvBuilding
      else if s = ''ACTIVE'' \<or> s = ''RUNNING'' then Some SrvActive
      else if s = ''STOPPING'' then Some SrvStopping
      else if s = ''SHUTOFF'' \<or> s = ''STOPPED'' then Some SrvStopped
      else if s = ''STARTING'' then Some SrvStarting
      else if s = ''REBOOTING'' then Some SrvRebooting
      else if s = ''DELETING'' then Some SrvDeleting
      else if s = ''DELETED'' then Some SrvDeleted
      else if s = ''ERROR'' then Some SrvError
      else None)"

section \<open>Operations and agent commands\<close>

datatype operation_state =
    OpPending | OpRunning | OpSucceeded | OpRetryable | OpUnknownOutcome | OpFailed

fun operation_state_as_str :: "operation_state \<Rightarrow> string" where
  "operation_state_as_str OpPending = ''pending''"
| "operation_state_as_str OpRunning = ''running''"
| "operation_state_as_str OpSucceeded = ''succeeded''"
| "operation_state_as_str OpRetryable = ''retryable''"
| "operation_state_as_str OpUnknownOutcome = ''unknown_outcome''"
| "operation_state_as_str OpFailed = ''failed''"

definition operation_state_parse :: "string \<Rightarrow> operation_state option" where
  "operation_state_parse s =
     (if s = ''pending'' then Some OpPending else if s = ''running'' then Some OpRunning
      else if s = ''succeeded'' then Some OpSucceeded
      else if s = ''retryable'' then Some OpRetryable
      else if s = ''unknown_outcome'' then Some OpUnknownOutcome
      else if s = ''failed'' then Some OpFailed else None)"

definition terminal :: "operation_state \<Rightarrow> bool" where
  "terminal s = (s = OpSucceeded \<or> s = OpFailed)"

datatype command_state =
    CmdPending | CmdAccepted | CmdRunning | CmdSucceeded | CmdRetryable | CmdUnknownOutcome
  | CmdFailed

fun command_state_as_str :: "command_state \<Rightarrow> string" where
  "command_state_as_str CmdPending = ''pending''"
| "command_state_as_str CmdAccepted = ''accepted''"
| "command_state_as_str CmdRunning = ''running''"
| "command_state_as_str CmdSucceeded = ''succeeded''"
| "command_state_as_str CmdRetryable = ''retryable''"
| "command_state_as_str CmdUnknownOutcome = ''unknown_outcome''"
| "command_state_as_str CmdFailed = ''failed''"

definition command_state_parse :: "string \<Rightarrow> command_state option" where
  "command_state_parse s =
     (if s = ''pending'' then Some CmdPending else if s = ''accepted'' then Some CmdAccepted
      else if s = ''running'' then Some CmdRunning
      else if s = ''succeeded'' then Some CmdSucceeded
      else if s = ''retryable'' then Some CmdRetryable
      else if s = ''unknown_outcome'' then Some CmdUnknownOutcome
      else if s = ''failed'' then Some CmdFailed else None)"

section \<open>Reports of providers and agents\<close>

datatype instance_state = InstCreating | InstRunning | InstStopped | InstDeleting | InstDeleted | InstError

fun server_state_of_instance :: "instance_state \<Rightarrow> server_state" where
  "server_state_of_instance InstCreating = SrvBuilding"
| "server_state_of_instance InstRunning = SrvActive"
| "server_state_of_instance InstStopped = SrvStopped"
| "server_state_of_instance InstDeleting = SrvDeleting"
| "server_state_of_instance InstDeleted = SrvDeleted"
| "server_state_of_instance InstError = SrvError"

record provider_instance =
  in_provider_id :: string
  in_server_id :: string
  in_state :: instance_state
  in_message :: "string option"

datatype provider_op_state =
    ProvAccepted | ProvRunning | ProvSucceeded | ProvRetryable | ProvUnknownOutcome | ProvFailed

datatype error_category =
    CatInvalidRequest | CatNotFound | CatConflict | CatCapacity | CatRetryable
  | CatUnknownOutcome | CatTerminal

record provider_operation =
  po_id :: string
  po_operation :: string
  po_state :: provider_op_state
  po_category :: "error_category option"
  po_resource :: "string option"

datatype provider_error =
    ErrInvalidRequest | ErrNotFound | ErrConflict | ErrCapacity | ErrRetryable
  | ErrUnknownOutcome string | ErrTerminal | ErrStaleState | ErrStorage
  | ErrUnsupportedBlockDevice string

fun is_unknown_outcome :: "provider_error \<Rightarrow> bool" where
  "is_unknown_outcome (ErrUnknownOutcome _) = True"
| "is_unknown_outcome ErrRetryable = True"
| "is_unknown_outcome ErrStaleState = True"
| "is_unknown_outcome _ = False"

fun provider_error_category :: "provider_error \<Rightarrow> error_category" where
  "provider_error_category ErrInvalidRequest = CatInvalidRequest"
| "provider_error_category ErrNotFound = CatNotFound"
| "provider_error_category ErrConflict = CatConflict"
| "provider_error_category ErrCapacity = CatCapacity"
| "provider_error_category ErrRetryable = CatRetryable"
| "provider_error_category (ErrUnknownOutcome _) = CatUnknownOutcome"
| "provider_error_category ErrTerminal = CatTerminal"
| "provider_error_category ErrStaleState = CatTerminal"
| "provider_error_category ErrStorage = CatTerminal"
| "provider_error_category (ErrUnsupportedBlockDevice _) = CatInvalidRequest"

text \<open>\<open>Display\<close> of a provider error.\<close>

fun provider_error_to_string :: "provider_error \<Rightarrow> string" where
  "provider_error_to_string ErrInvalidRequest = ''provider rejected the request''"
| "provider_error_to_string ErrNotFound = ''provider resource was not found''"
| "provider_error_to_string ErrConflict = ''provider operation conflicts with existing state''"
| "provider_error_to_string ErrCapacity = ''provider capacity is unavailable''"
| "provider_error_to_string ErrRetryable = ''provider returned a retryable failure''"
| "provider_error_to_string (ErrUnknownOutcome i) = ''provider outcome is unknown; observe operation '' @ i"
| "provider_error_to_string ErrTerminal = ''provider returned a terminal failure''"
| "provider_error_to_string ErrStaleState = ''provider state is unavailable''"
| "provider_error_to_string ErrStorage = ''provider fake storage is unavailable''"
| "provider_error_to_string (ErrUnsupportedBlockDevice _) =
     ''provider does not support block-device attachment for this connector''"

datatype agent_op_state = AgAccepted | AgRunning | AgSucceeded | AgFailed | AgUnknownOutcome

datatype agent_category =
    AgInvalidRequest | AgUnauthenticated | AgUnauthorized | AgConflict | AgCapacity | AgNotFound
  | AgRetryable | AgUnknown | AgTerminal

record command_accepted =
  ca_command :: string
  ca_operation :: string
  ca_state :: agent_op_state
  ca_sequence :: u64
  ca_agent :: string
  ca_epoch :: string

record operation_update =
  ou_operation :: string
  ou_resource :: string
  ou_state :: agent_op_state
  ou_category :: "agent_category option"
  ou_message :: "string option"
  ou_sequence :: u64
  ou_provider_resource :: "string option"
  ou_agent :: string
  ou_epoch :: string

text \<open>An observation, without the console and block-device payload.\<close>

record agent_observation =
  ao_agent :: string
  ao_epoch :: string
  ao_resource :: string
  ao_provider_resource :: "string option"
  ao_state :: instance_state
  ao_operation :: string
  ao_operation_state :: agent_op_state
  ao_sequence :: u64

section \<open>Encodings and transitions\<close>

lemma operation_state_parse_as_str: "operation_state_parse (operation_state_as_str s) = Some s"
  by (cases s) (simp_all add: operation_state_parse_def)

lemma operation_state_parse_Some: "operation_state_parse v = Some s \<Longrightarrow> v = operation_state_as_str s"
  by (auto simp: operation_state_parse_def split: if_splits)

lemma command_state_parse_as_str: "command_state_parse (command_state_as_str s) = Some s"
  by (cases s) (simp_all add: command_state_parse_def)

lemma command_state_parse_Some: "command_state_parse v = Some s \<Longrightarrow> v = command_state_as_str s"
  by (auto simp: command_state_parse_def split: if_splits)

lemma to_ascii_uppercase_server_state:
  "to_ascii_uppercase (server_state_to_storage s) = server_state_to_storage s"
  by (cases s) (simp_all add: to_ascii_uppercase_def Let_def of_char_Char)

lemma server_state_storage_inject:
  "server_state_to_storage a = server_state_to_storage b \<longleftrightarrow> a = b"
  by (cases a; cases b) simp_all

text \<open>
  The durable state encodings. Every server state, operation state and agent command state is
  read back from its stored spelling, the spellings of two states never agree, and a stored
  operation or command state that reads back is spelled exactly as it is written.
\<close>

theorem state_encodings_roundtrip:
  "server_state_from_storage (server_state_to_storage s) = Some s
   \<and> (server_state_to_storage s = server_state_to_storage s' \<longleftrightarrow> s = s')
   \<and> (operation_state_parse v = Some o' \<longleftrightarrow> v = operation_state_as_str o')
   \<and> (command_state_parse v = Some c \<longleftrightarrow> v = command_state_as_str c)"
proof -
  have "server_state_from_storage (server_state_to_storage s) = Some s"
    unfolding server_state_from_storage_def to_ascii_uppercase_server_state
    by (cases s) (simp_all add: Let_def)
  then show ?thesis
    using server_state_storage_inject operation_state_parse_as_str operation_state_parse_Some
      command_state_parse_as_str command_state_parse_Some by blast
qed

text \<open>A run of accepted transitions.\<close>

fun server_run :: "server_state \<Rightarrow> server_state list \<Rightarrow> (transition_error, server_state) rust_result"
  where
  "server_run s [] = Inr s"
| "server_run s (t # ts) =
     (case server_transition s t of Inl e \<Rightarrow> Inl e | Inr s' \<Rightarrow> server_run s' ts)"

lemma server_transition_deleting:
  "server_transition s t = Inr t' \<Longrightarrow> t' = SrvDeleted \<Longrightarrow> s = SrvDeleting"
  by (cases s; cases t) (simp_all add: server_transition_def valid_transitions_def)

lemma server_transition_from_error: "server_transition SrvError t = Inr t' \<Longrightarrow> t' = SrvDeleting"
  by (cases t) (simp_all add: server_transition_def valid_transitions_def)

lemma server_transition_from_deleted: "server_transition SrvDeleted t = Inl (InvalidTransition SrvDeleted t)"
  by (cases t) (simp_all add: server_transition_def valid_transitions_def)

text \<open>
  The server lifecycle. A deleted server accepts no transition, a failed one only deletion,
  deletion is never cancelled except into the error state, and from every other state
  deletion can be completed.
\<close>

theorem server_lifecycle:
  "server_transition SrvDeleted t = Inl (InvalidTransition SrvDeleted t)
   \<and> (server_transition SrvError t = Inr t' \<longleftrightarrow> t = SrvDeleting \<and> t' = SrvDeleting)
   \<and> (server_transition SrvDeleting t = Inr t' \<longleftrightarrow> t' = t \<and> (t = SrvDeleted \<or> t = SrvError))
   \<and> (s = SrvDeleted \<or> s = SrvDeleting \<or> server_run s [SrvDeleting, SrvDeleted] = Inr SrvDeleted)"
  by (cases t; cases s) (auto simp: server_transition_def valid_transitions_def)

end
