(* ===== verification/Store_Operations.thy ===== *)
theory Store_Operations
  imports Compute_State "HOL-Library.AList"
begin

text \<open>
  The durable records of the compute control plane in the SQLite store
  (\<open>crates/o3k-store/src/sqlite/core.rs\<close>; the observation update is in \<open>sqlite/placement.rs\<close>):
  resources with their generation, the journal of operations, retry counts, provider
  references, agent commands and observation watermarks. An operation gives its result and the
  database afterwards: each runs in one transaction, so a failed one leaves the database as it
  was, except where the source commits before it reports the failure. Identifiers are the text
  the columns hold; \<open>now\<close> is the clock. \<open>Database\<close> stands for what SQLite itself refuses: a
  violated \<open>CHECK\<close>, foreign key or trigger. The bounded retry while SQLite is busy repeats the
  attempt modelled here. A generation stays within an \<open>i64\<close>.
  Lemmas: terminal operations are final, the generation guard, command evidence only advances,
  provider references are immutable and injective, the terminalization is atomic.
\<close>

section \<open>Tables\<close>

datatype store_error =
    Database | ResourceNotFound | OperationNotFound | StaleGeneration | ResourceAlreadyExists
  | ProviderReferenceAlreadyExists | ProviderReferenceNotFound | PlacementAllocationNotFound
  | IdempotencyConflict | Corrupt

record resource_record =
  r_id :: string
  r_kind :: string
  r_project :: string
  r_generation :: int
  r_observed_generation :: int
  r_desired :: string
  r_observed :: string
  r_provider :: "string option"

record operation_record =
  o_id :: string
  o_resource :: string
  o_kind :: string
  o_state :: operation_state
  o_provider_op :: "string option"
  o_category :: "string option"
  o_message :: "string option"

record canonical_row =
  cn_service :: string
  cn_action :: string
  cn_actor :: string
  cn_owner :: string
  cn_resource_type :: string
  cn_resource :: "string option"
  cn_attempt :: int
  cn_created :: string
  cn_started :: "string option"
  cn_finished :: "string option"
  cn_error :: "string option"
  cn_request :: "string option"

record agent_command =
  c_id :: string
  c_key :: string
  c_operation :: string
  c_resource :: string
  c_agent :: string
  c_epoch :: string
  c_fingerprint :: string
  c_payload :: string
  c_state :: command_state
  c_accepted :: u64
  c_last :: u64
  c_provider_op :: "string option"
  c_provider_resource :: "string option"

record provider_reference =
  pr_resource :: string
  pr_name :: string
  pr_provider_resource :: string

text \<open>
  \<open>network_resources\<close> holds the identities of networks and address realms and \<open>allocation_ids\<close>
  those of placement allocations; other components maintain them.
\<close>

record operations_db =
  resource_rows :: "string \<rightharpoonup> resource_record"
  operation_rows :: "(string \<times> operation_record) list"
  canonical_rows :: "string \<rightharpoonup> canonical_row"
  retry_rows :: "string \<rightharpoonup> int"
  reference_rows :: "provider_reference list"
  command_rows :: "agent_command list"
  watermark_rows :: "string \<rightharpoonup> (string \<times> int)"
  network_resources :: "string list"
  allocation_ids :: "string list"

definition empty_operations :: operations_db where
  "empty_operations =
     \<lparr>resource_rows = Map.empty, operation_rows = [], canonical_rows = Map.empty,
      retry_rows = Map.empty, reference_rows = [], command_rows = [],
      watermark_rows = Map.empty, network_resources = [], allocation_ids = []\<rparr>"

type_synonym 'a store_result = "(store_error, 'a) rust_result \<times> operations_db"

definition find_operation :: "operations_db \<Rightarrow> string \<Rightarrow> operation_record option" where
  "find_operation db i = map_of (operation_rows db) i"

definition put_operation :: "operation_record \<Rightarrow> operations_db \<Rightarrow> operations_db" where
  "put_operation r db = db\<lparr>operation_rows := AList.update (o_id r) r (operation_rows db)\<rparr>"

definition put_resource :: "resource_record \<Rightarrow> operations_db \<Rightarrow> operations_db" where
  "put_resource r db = db\<lparr>resource_rows := (resource_rows db)(r_id r \<mapsto> r)\<rparr>"

definition or_else :: "'a option \<Rightarrow> 'a option \<Rightarrow> 'a option" where
  "or_else a b = (case a of Some x \<Rightarrow> Some x | None \<Rightarrow> b)"

text \<open>An incoming identity contradicts a recorded one when both are present and differ.\<close>

definition contradicts :: "string option \<Rightarrow> string option \<Rightarrow> bool" where
  "contradicts incoming existing =
     (case (incoming, existing) of (Some i, Some e) \<Rightarrow> i \<noteq> e | _ \<Rightarrow> False)"

section \<open>Resources\<close>

definition get_resource :: "operations_db \<Rightarrow> string \<Rightarrow> (store_error, resource_record) rust_result" where
  "get_resource db i =
     (case resource_rows db i of None \<Rightarrow> Inl ResourceNotFound | Some r \<Rightarrow> Inr r)"

definition insert_resource :: "resource_record \<Rightarrow> operations_db \<Rightarrow> unit store_result" where
  "insert_resource r db =
     (if r_generation r \<le> 0 \<or> r_observed_generation r < 0 then (Inl Database, db)
      else if resource_rows db (r_id r) \<noteq> None then (Inl ResourceAlreadyExists, db)
      else (Inr (), put_resource r db))"

text \<open>The guarded update every writer of a resource row uses.\<close>

definition guarded_update ::
  "string \<Rightarrow> int \<Rightarrow> string \<Rightarrow> string \<Rightarrow> int \<Rightarrow> string option \<Rightarrow> operations_db
   \<Rightarrow> (store_error, operations_db) rust_result" where
  "guarded_update i expected desired observed observed_generation provider db =
     (case resource_rows db i of
        None \<Rightarrow> Inl ResourceNotFound
      | Some r \<Rightarrow>
          if r_generation r \<noteq> expected then Inl StaleGeneration
          else if observed_generation < 0 then Inl Database
          else Inr (put_resource
            (r\<lparr>r_id := i, r_generation := r_generation r + 1, r_desired := desired, r_observed := observed,
               r_observed_generation := observed_generation, r_provider := provider\<rparr>) db))"

definition update_resource ::
  "string \<Rightarrow> int \<Rightarrow> string \<Rightarrow> string \<Rightarrow> int \<Rightarrow> string option \<Rightarrow> operations_db
   \<Rightarrow> resource_record store_result" where
  "update_resource i expected desired observed observed_generation provider db =
     (case guarded_update i expected desired observed observed_generation provider db of
        Inl e \<Rightarrow> (Inl e, db)
      | Inr db' \<Rightarrow> (get_resource db' i, db'))"

record observation_update =
  ou_expected :: int
  ou_desired :: string
  ou_observed :: string
  ou_observed_generation :: int
  ou_provider :: "string option"
  ou_agent_epoch :: string
  ou_observation_sequence :: u64

definition already_observed :: "operations_db \<Rightarrow> string \<Rightarrow> observation_update \<Rightarrow> bool" where
  "already_observed db i u =
     (case watermark_rows db i of
        None \<Rightarrow> False
      | Some (epoch, sequence) \<Rightarrow>
          epoch = ou_agent_epoch u \<and>
          (case u64_of_i64 sequence of
             Some s \<Rightarrow> ou_observation_sequence u \<le> s
           | None \<Rightarrow> True))"

definition update_resource_from_observation ::
  "string \<Rightarrow> observation_update \<Rightarrow> operations_db \<Rightarrow> resource_record store_result" where
  "update_resource_from_observation i u db =
     (case resource_rows db i of
        None \<Rightarrow> (Inl ResourceNotFound, db)
      | Some r \<Rightarrow>
          if r_generation r \<noteq> ou_expected u then (Inl StaleGeneration, db)
          else if already_observed db i u then (Inr r, db)
          else case guarded_update i (ou_expected u) (ou_desired u) (ou_observed u)
                      (ou_observed_generation u) (ou_provider u) db of
              Inl e \<Rightarrow> (Inl e, db)
            | Inr db' \<Rightarrow>
                (case i64_of_u64 (ou_observation_sequence u) of
                   None \<Rightarrow> (Inl Corrupt, db)
                 | Some sequence \<Rightarrow>
                     (get_resource db' i,
                      db'\<lparr>watermark_rows := (watermark_rows db')(i \<mapsto> (ou_agent_epoch u, sequence))\<rparr>)))"

section \<open>Operations\<close>

text \<open>The trigger on \<open>operations\<close>: the resource an operation names must exist.\<close>

definition resource_known :: "operations_db \<Rightarrow> string \<Rightarrow> bool" where
  "resource_known db i = (resource_rows db i \<noteq> None \<or> i \<in> set (network_resources db))"

definition get_operation :: "operations_db \<Rightarrow> string \<Rightarrow> (store_error, operation_record) rust_result" where
  "get_operation db i =
     (case find_operation db i of None \<Rightarrow> Inl OperationNotFound | Some r \<Rightarrow> Inr r)"

definition insert_operation :: "operation_record \<Rightarrow> operations_db \<Rightarrow> unit store_result" where
  "insert_operation r db =
     (if \<not> resource_known db (o_resource r) then (Inl Database, db)
      else if find_operation db (o_id r) \<noteq> None then (Inl ResourceAlreadyExists, db)
      else (Inr (), put_operation r db))"

definition is_lifecycle_kind :: "string \<Rightarrow> bool" where
  "is_lifecycle_kind k = (to_ascii_lowercase (take 10 k) = ''lifecycle:'')"

definition list_non_terminal_operations :: "operations_db \<Rightarrow> operation_record list" where
  "list_non_terminal_operations db =
     sort_key o_id (filter (\<lambda>r. \<not> terminal (o_state r)) (map snd (operation_rows db)))"

definition list_non_terminal_lifecycle_operations :: "operations_db \<Rightarrow> operation_record list" where
  "list_non_terminal_lifecycle_operations db =
     sort_key o_id (filter (\<lambda>r. is_lifecycle_kind (o_kind r) \<and> \<not> terminal (o_state r))
       (map snd (operation_rows db)))"

text \<open>An equivalent terminal projection may fill in evidence the first one lacked.\<close>

definition fill_terminal ::
  "string option \<Rightarrow> string option \<Rightarrow> string option \<Rightarrow> operation_record \<Rightarrow> operation_record" where
  "fill_terminal provider_op category message r =
     r\<lparr>o_provider_op := or_else provider_op (o_provider_op r),
       o_category := or_else category (o_category r),
       o_message := or_else message (o_message r)\<rparr>"

definition touch_canonical ::
  "string \<Rightarrow> string option \<Rightarrow> string option \<Rightarrow> string option \<Rightarrow> operations_db \<Rightarrow> operations_db" where
  "touch_canonical i started finished err db =
     db\<lparr>canonical_rows := (canonical_rows db)(i :=
          map_option (\<lambda>c. c\<lparr>cn_started := or_else (cn_started c) started, cn_finished := finished,
                            cn_error := err\<rparr>) (canonical_rows db i))\<rparr>"

definition update_operation ::
  "string \<Rightarrow> string \<Rightarrow> operation_state \<Rightarrow> string option \<Rightarrow> string option \<Rightarrow> string option
   \<Rightarrow> operations_db \<Rightarrow> operation_record store_result" where
  "update_operation now i state provider_op category message db =
     (case find_operation db i of
        None \<Rightarrow> (Inl OperationNotFound, db)
      | Some current \<Rightarrow>
          if terminal (o_state current)
          then (if contradicts provider_op (o_provider_op current) then (Inl Corrupt, db)
                else if o_state current \<noteq> state
                then (if terminal state then (Inl Corrupt, db) else (Inr current, db))
                else let r = (fill_terminal provider_op category message current)\<lparr>o_id := i\<rparr>
                     in (Inr r, put_operation r db))
          else let r = current\<lparr>o_id := i, o_state := state, o_provider_op := provider_op,
                               o_category := category, o_message := message\<rparr>
               in (Inr r,
                   touch_canonical i (if state = OpPending then None else Some now)
                     (if terminal state then Some now else None) category (put_operation r db)))"

record terminalization =
  t_operation :: string
  t_state :: operation_state
  t_provider_op :: "string option"
  t_category :: "string option"
  t_message :: "string option"
  t_resource :: string
  t_expected :: int
  t_desired :: string
  t_observed :: string
  t_observed_generation :: int
  t_provider :: "string option"

text \<open>The transaction of \<open>terminalize_lifecycle\<close>.\<close>

definition terminalize_tx ::
  "string \<Rightarrow> terminalization \<Rightarrow> operations_db \<Rightarrow> (store_error, operations_db) rust_result" where
  "terminalize_tx now t db =
     (case find_operation db (t_operation t) of
        None \<Rightarrow> Inl OperationNotFound
      | Some current \<Rightarrow>
          if o_resource current \<noteq> t_resource t then Inl Corrupt
          else if terminal (o_state current)
          then (if contradicts (t_provider_op t) (o_provider_op current) then Inl Corrupt
                else if o_state current \<noteq> t_state t then Inl Corrupt
                else Inr (put_operation
                  ((fill_terminal (t_provider_op t) (t_category t) (t_message t) current)
                     \<lparr>o_id := t_operation t\<rparr>) db))
          else let r = current\<lparr>o_id := t_operation t, o_state := t_state t,
                               o_provider_op := t_provider_op t, o_category := t_category t,
                               o_message := t_message t\<rparr>
               in guarded_update (t_resource t) (t_expected t) (t_desired t) (t_observed t)
                    (t_observed_generation t) (t_provider t)
                    (touch_canonical (t_operation t) (Some now) (Some now) (t_category t)
                      (put_operation r db)))"

definition terminalize_lifecycle ::
  "string \<Rightarrow> terminalization \<Rightarrow> operations_db \<Rightarrow> (operation_record \<times> resource_record) store_result"
  where
  "terminalize_lifecycle now t db =
     (if \<not> terminal (t_state t) then (Inl Corrupt, db)
      else case terminalize_tx now t db of
        Inl e \<Rightarrow> (Inl e, db)
      | Inr db' \<Rightarrow>
          (case get_operation db' (t_operation t) of
             Inl e \<Rightarrow> (Inl e, db')
           | Inr r \<Rightarrow>
               (case get_resource db' (t_resource t) of
                  Inl e \<Rightarrow> (Inl e, db')
                | Inr res \<Rightarrow> (Inr (r, res), db'))))"

definition increment_operation_retry :: "string \<Rightarrow> operations_db \<Rightarrow> nat store_result" where
  "increment_operation_retry i db =
     (let current = retry_rows db i;
          attempts = min i64_max ((case current of Some a \<Rightarrow> a | None \<Rightarrow> 0) + 1);
          db' = db\<lparr>retry_rows := (retry_rows db)(i \<mapsto> attempts),
                   canonical_rows := (canonical_rows db)(i :=
                     map_option (\<lambda>c. c\<lparr>cn_attempt := attempts\<rparr>) (canonical_rows db i))\<rparr>
      in if current = None \<and> find_operation db i = None then (Inl Database, db)
         else if attempts < 0 \<or> attempts > 255 then (Inl Corrupt, db')
         else (Inr (nat attempts), db'))"

text \<open>
  Creating a resource together with its operation. The column \<open>kind\<close> is left to its default.
\<close>

definition insert_resource_and_operation ::
  "resource_record \<Rightarrow> operation_record \<Rightarrow> string option \<Rightarrow> operations_db \<Rightarrow> unit store_result" where
  "insert_resource_and_operation r op allocation db =
     (case insert_resource r db of
        (Inl e, _) \<Rightarrow> (Inl e, db)
      | (Inr _, db1) \<Rightarrow>
          if (case allocation of Some a \<Rightarrow> a \<notin> set (allocation_ids db) | None \<Rightarrow> False)
          then (Inl PlacementAllocationNotFound, db)
          else if \<not> resource_known db1 (o_resource op) \<or> find_operation db (o_id op) \<noteq> None
          then (Inl Database, db)
          else (Inr (), put_operation (op\<lparr>o_kind := ''create''\<rparr>) db1))"

definition revive_resource_and_operation ::
  "string \<Rightarrow> int \<Rightarrow> string \<Rightarrow> string \<Rightarrow> int \<Rightarrow> string option \<Rightarrow> operation_record \<Rightarrow> string option
   \<Rightarrow> operations_db \<Rightarrow> resource_record store_result" where
  "revive_resource_and_operation i expected desired observed observed_generation provider op allocation db =
     (case guarded_update i expected desired observed observed_generation provider db of
        Inl e \<Rightarrow> (Inl e, db)
      | Inr db1 \<Rightarrow>
          if (case allocation of Some a \<Rightarrow> a \<notin> set (allocation_ids db) | None \<Rightarrow> False)
          then (Inl PlacementAllocationNotFound, db)
          else if \<not> resource_known db1 (o_resource op) then (Inl Database, db)
          else if find_operation db (o_id op) \<noteq> None then (Inl ResourceAlreadyExists, db)
          else let db2 = put_operation (op\<lparr>o_kind := ''create''\<rparr>) db1 in (get_resource db2 i, db2))"

text \<open>The public lifecycle of a canonical operation; \<open>valid_time\<close> recognises RFC 3339.\<close>

record lifecycle_update =
  lu_state :: operation_state
  lu_attempt :: int
  lu_started :: "string option"
  lu_finished :: "string option"
  lu_error :: "string option"

definition validate_lifecycle_update ::
  "(string \<Rightarrow> bool) \<Rightarrow> lifecycle_update \<Rightarrow> (store_error, unit) rust_result" where
  "validate_lifecycle_update valid_time u =
     (if (case lu_started u of Some t \<Rightarrow> \<not> valid_time t | None \<Rightarrow> False)
         \<or> (case lu_finished u of Some t \<Rightarrow> \<not> valid_time t | None \<Rightarrow> False)
      then Inl Corrupt
      else if lu_state u = OpRunning \<and> lu_started u = None then Inl Corrupt
      else if terminal (lu_state u) \<and> lu_finished u = None then Inl Corrupt
      else if lu_state u = OpUnknownOutcome \<and> lu_finished u \<noteq> None then Inl Corrupt
      else Inr ())"

definition write_lifecycle :: "string \<Rightarrow> lifecycle_update \<Rightarrow> operation_record \<Rightarrow> operations_db \<Rightarrow> operations_db" where
  "write_lifecycle i u r db =
     (put_operation (r\<lparr>o_id := i, o_state := lu_state u\<rparr>) db)
       \<lparr>canonical_rows := (canonical_rows db)(i :=
          map_option (\<lambda>c. c\<lparr>cn_attempt := lu_attempt u, cn_started := lu_started u,
            cn_finished := lu_finished u, cn_error := lu_error u\<rparr>) (canonical_rows db i))\<rparr>"

definition update_resource_and_complete_operation ::
  "(string \<Rightarrow> bool) \<Rightarrow> string \<Rightarrow> int \<Rightarrow> string \<Rightarrow> string \<Rightarrow> int \<Rightarrow> string option \<Rightarrow> string \<Rightarrow> lifecycle_update
   \<Rightarrow> operations_db \<Rightarrow> resource_record store_result" where
  "update_resource_and_complete_operation valid_time i expected desired observed observed_generation
       provider op_id u db =
     (case validate_lifecycle_update valid_time u of
        Inl e \<Rightarrow> (Inl e, db)
      | Inr _ \<Rightarrow>
          (case guarded_update i expected desired observed observed_generation provider db of
             Inl e \<Rightarrow> (Inl e, db)
           | Inr db1 \<Rightarrow>
               (case find_operation db1 op_id of
                  None \<Rightarrow> (Inl OperationNotFound, db)
                | Some r \<Rightarrow>
                    if terminal (o_state r) then (Inl Corrupt, db)
                    else let db2 = write_lifecycle op_id u r db1 in (get_resource db2 i, db2))))"

definition update_canonical_operation_lifecycle ::
  "(string \<Rightarrow> bool) \<Rightarrow> string \<Rightarrow> lifecycle_update \<Rightarrow> operations_db \<Rightarrow> unit store_result" where
  "update_canonical_operation_lifecycle valid_time i u db =
     (case validate_lifecycle_update valid_time u of
        Inl e \<Rightarrow> (Inl e, db)
      | Inr _ \<Rightarrow>
          (case find_operation db i of
             None \<Rightarrow> (Inl OperationNotFound, db)
           | Some r \<Rightarrow>
               if canonical_rows db i = None then (Inl Corrupt, db)
               else if o_state r = OpSucceeded \<and> lu_state u \<noteq> OpSucceeded
                       \<or> o_state r = OpFailed \<and> lu_state u \<noteq> OpFailed
               then (Inl Corrupt, db)
               else (Inr (), write_lifecycle i u r db)))"

section \<open>Provider references\<close>

definition get_provider_reference ::
  "operations_db \<Rightarrow> string \<Rightarrow> string \<Rightarrow> (store_error, provider_reference) rust_result" where
  "get_provider_reference db i name =
     (case find (\<lambda>p. pr_resource p = i \<and> pr_name p = name) (reference_rows db) of
        None \<Rightarrow> Inl ProviderReferenceNotFound
      | Some p \<Rightarrow> Inr p)"

definition attach_provider_reference :: "provider_reference \<Rightarrow> operations_db \<Rightarrow> unit store_result" where
  "attach_provider_reference p db =
     (if list_ex (\<lambda>q. pr_name q = pr_name p
            \<and> (pr_resource q = pr_resource p \<or> pr_provider_resource q = pr_provider_resource p))
          (reference_rows db)
      then (Inl ProviderReferenceAlreadyExists, db)
      else if resource_rows db (pr_resource p) = None then (Inl Database, db)
      else (Inr (), db\<lparr>reference_rows := reference_rows db @ [p]\<rparr>))"

section \<open>Agent commands\<close>

definition get_agent_command :: "operations_db \<Rightarrow> string \<Rightarrow> (store_error, agent_command) rust_result" where
  "get_agent_command db i =
     (case find (\<lambda>c. c_id c = i) (command_rows db) of
        None \<Rightarrow> Inl OperationNotFound | Some c \<Rightarrow> Inr c)"

definition get_agent_command_by_key :: "operations_db \<Rightarrow> string \<Rightarrow> (store_error, agent_command) rust_result" where
  "get_agent_command_by_key db k =
     (case find (\<lambda>c. c_key c = k) (command_rows db) of
        None \<Rightarrow> Inl OperationNotFound | Some c \<Rightarrow> Inr c)"

text \<open>The latest command of an operation (rows are in the order of their creation).\<close>

definition get_agent_command_by_operation ::
  "operations_db \<Rightarrow> string \<Rightarrow> (store_error, agent_command) rust_result" where
  "get_agent_command_by_operation db i =
     (case find (\<lambda>c. c_operation c = i) (rev (command_rows db)) of
        None \<Rightarrow> Inl OperationNotFound | Some c \<Rightarrow> Inr c)"

definition insert_agent_command :: "agent_command \<Rightarrow> operations_db \<Rightarrow> agent_command store_result" where
  "insert_agent_command c db =
     (if i64_of_u64 (c_accepted c) = None \<or> i64_of_u64 (c_last c) = None then (Inl Corrupt, db)
      else if list_ex (\<lambda>d. c_id d = c_id c \<or> c_key d = c_key c) (command_rows db)
      then (case get_agent_command_by_key db (c_key c) of
              Inl e \<Rightarrow> (Inl e, db)
            | Inr d \<Rightarrow>
                if c_id d = c_id c \<and> c_operation d = c_operation c \<and> c_resource d = c_resource c
                   \<and> c_agent d = c_agent c \<and> c_epoch d = c_epoch c
                   \<and> c_fingerprint d = c_fingerprint c \<and> c_payload d = c_payload c
                then (Inr d, db) else (Inl Corrupt, db))
      else if find_operation db (c_operation c) = None \<or> resource_rows db (c_resource c) = None
      then (Inl Database, db)
      else (Inr c, db\<lparr>command_rows := command_rows db @ [c]\<rparr>))"

definition agrees :: "string option \<Rightarrow> string option \<Rightarrow> bool" where
  "agrees incoming existing = (incoming = None \<or> incoming = existing)"

text \<open>One attempt of \<open>update_agent_command\<close>: the row as it is, as it becomes, or an error.\<close>

definition advance_command ::
  "command_state \<Rightarrow> u64 \<Rightarrow> u64 \<Rightarrow> string option \<Rightarrow> string option \<Rightarrow> agent_command
   \<Rightarrow> (store_error, agent_command) rust_result" where
  "advance_command state accepted last_sequence provider_op provider_resource current =
     (if last_sequence < c_last current then Inr current
      else if last_sequence = c_last current
      then (if c_state current = state \<and> c_accepted current = accepted
               \<and> agrees provider_op (c_provider_op current)
               \<and> agrees provider_resource (c_provider_resource current)
            then Inr current else Inl Corrupt)
      else if (c_state current = CmdSucceeded \<or> c_state current = CmdFailed) \<and> c_state current \<noteq> state
      then Inl Corrupt
      else if c_state current = CmdUnknownOutcome \<and> (state = CmdAccepted \<or> state = CmdRunning)
      then Inl Corrupt
      else if contradicts provider_op (c_provider_op current)
              \<or> contradicts provider_resource (c_provider_resource current)
      then Inl Corrupt
      else let accepted' = max accepted (c_accepted current) in
        if i64_of_u64 accepted' = None \<or> i64_of_u64 last_sequence = None then Inl Corrupt
        else Inr (current\<lparr>c_state := state, c_accepted := accepted', c_last := last_sequence,
               c_provider_op := or_else provider_op (c_provider_op current),
               c_provider_resource := or_else provider_resource (c_provider_resource current)\<rparr>))"

text \<open>The row is addressed by its primary key.\<close>

primrec replace_command :: "string \<Rightarrow> agent_command \<Rightarrow> agent_command list \<Rightarrow> agent_command list" where
  "replace_command i c [] = []"
| "replace_command i c (d # ds) = (if c_id d = i then c # ds else d # replace_command i c ds)"

definition update_agent_command ::
  "string \<Rightarrow> command_state \<Rightarrow> u64 \<Rightarrow> u64 \<Rightarrow> string option \<Rightarrow> string option \<Rightarrow> operations_db
   \<Rightarrow> agent_command store_result" where
  "update_agent_command i state accepted last_sequence provider_op provider_resource db =
     (case get_agent_command db i of
        Inl e \<Rightarrow> (Inl e, db)
      | Inr current \<Rightarrow>
          (case advance_command state accepted last_sequence provider_op provider_resource current of
             Inl e \<Rightarrow> (Inl e, db)
           | Inr c \<Rightarrow>
               (Inr c, db\<lparr>command_rows := replace_command i c (command_rows db)\<rparr>)))"

definition recoverable :: "command_state \<Rightarrow> bool" where
  "recoverable s = (s \<noteq> CmdSucceeded \<and> s \<noteq> CmdFailed)"

definition list_recoverable_agent_commands :: "operations_db \<Rightarrow> agent_command list" where
  "list_recoverable_agent_commands db = filter (\<lambda>c. recoverable (c_state c)) (command_rows db)"


section \<open>History only grows\<close>

text \<open>
  What one database keeps of an earlier one: every operation with its resource and kind, a
  terminal one with its state and provider identity; every resource with its kind and owner,
  and unchanged as long as its generation is; every provider reference; every command with its
  identity, its evidence advanced at most, final when terminal.
\<close>

definition kept :: "('a \<Rightarrow> 'a \<Rightarrow> bool) \<Rightarrow> ('k \<Rightarrow> 'a option) \<Rightarrow> ('k \<Rightarrow> 'a option) \<Rightarrow> bool" where
  "kept le m m' \<longleftrightarrow> (\<forall>i r. m i = Some r \<longrightarrow> (\<exists>r'. m' i = Some r' \<and> le r r'))"

definition operation_le :: "operation_record \<Rightarrow> operation_record \<Rightarrow> bool" where
  "operation_le r r' \<longleftrightarrow>
     o_resource r' = o_resource r \<and> o_kind r' = o_kind r
     \<and> (terminal (o_state r) \<longrightarrow> o_state r' = o_state r
          \<and> (o_provider_op r \<noteq> None \<longrightarrow> o_provider_op r' = o_provider_op r))"

definition resource_le :: "resource_record \<Rightarrow> resource_record \<Rightarrow> bool" where
  "resource_le r r' \<longleftrightarrow>
     r_kind r' = r_kind r \<and> r_project r' = r_project r \<and> r_generation r \<le> r_generation r'
     \<and> (r_generation r' = r_generation r \<longrightarrow> r' = r)"

definition command_le :: "agent_command \<Rightarrow> agent_command \<Rightarrow> bool" where
  "command_le c c' \<longleftrightarrow>
     c_id c' = c_id c \<and> c_key c' = c_key c \<and> c_operation c' = c_operation c
     \<and> c_resource c' = c_resource c \<and> c_agent c' = c_agent c \<and> c_payload c' = c_payload c
     \<and> c_last c \<le> c_last c' \<and> (c_last c' = c_last c \<longrightarrow> c' = c)
     \<and> (c_state c = CmdSucceeded \<or> c_state c = CmdFailed \<longrightarrow> c_state c' = c_state c)
     \<and> (c_provider_op c \<noteq> None \<longrightarrow> c_provider_op c' = c_provider_op c)
     \<and> (c_provider_resource c \<noteq> None \<longrightarrow> c_provider_resource c' = c_provider_resource c)"

definition commands_le :: "agent_command list \<Rightarrow> agent_command list \<Rightarrow> bool" where
  "commands_le cs cs' \<longleftrightarrow> (\<forall>c\<in>set cs. \<exists>c'\<in>set cs'. command_le c c')"

definition history_le :: "operations_db \<Rightarrow> operations_db \<Rightarrow> bool" where
  "history_le db db' \<longleftrightarrow>
     kept operation_le (find_operation db) (find_operation db')
     \<and> kept resource_le (resource_rows db) (resource_rows db')
     \<and> set (reference_rows db) \<subseteq> set (reference_rows db')
     \<and> commands_le (command_rows db) (command_rows db')"

lemma command_le_refl [simp]: "command_le c c"
  by (simp add: command_le_def)

lemma operation_le_refl [simp]: "operation_le r r"
  by (simp add: operation_le_def)

lemma resource_le_refl [simp]: "resource_le r r"
  by (simp add: resource_le_def)

lemma kept_refl: "(\<And>x. le x x) \<Longrightarrow> kept le m m"
  by (simp add: kept_def)

lemma kept_trans:
  assumes "\<And>x y z. le x y \<Longrightarrow> le y z \<Longrightarrow> le x z" "kept le a b" "kept le b c"
  shows "kept le a c"
  unfolding kept_def
proof (intro allI impI)
  fix i r
  assume "a i = Some r"
  with assms(2) obtain r1 where r1: "b i = Some r1" "le r r1" unfolding kept_def by blast
  with assms(3) obtain r2 where r2: "c i = Some r2" "le r1 r2" unfolding kept_def by blast
  show "\<exists>r'. c i = Some r' \<and> le r r'"
    by (intro exI [of _ r2] conjI r2(1) assms(1) [OF r1(2) r2(2)])
qed

lemma keptD: "kept le m m' \<Longrightarrow> m i = Some r \<Longrightarrow> \<exists>r'. m' i = Some r' \<and> le r r'"
  by (simp add: kept_def)

lemma kept_upd_new: "(\<And>x. le x x) \<Longrightarrow> m i = None \<Longrightarrow> kept le m (\<lambda>j. if j = i then Some r else m j)"
  by (simp add: kept_def)

lemma kept_upd:
  "(\<And>x. le x x) \<Longrightarrow> m i = Some old \<Longrightarrow> le old r \<Longrightarrow> kept le m (\<lambda>j. if j = i then Some r else m j)"
  by (simp add: kept_def)

lemma operation_le_trans: "operation_le a b \<Longrightarrow> operation_le b c \<Longrightarrow> operation_le a c"
  by (auto simp: operation_le_def)

lemma resource_le_trans:
  assumes "resource_le a b" "resource_le b c"
  shows "resource_le a c"
proof -
  have "r_generation a \<le> r_generation b" "r_generation b \<le> r_generation c"
    using assms by (simp_all add: resource_le_def)
  moreover have "c = a" if "r_generation c = r_generation a"
  proof -
    from that calculation have "r_generation b = r_generation a" "r_generation c = r_generation b"
      by simp_all
    with assms have "b = a" "c = b" by (simp_all add: resource_le_def)
    then show ?thesis by simp
  qed
  ultimately show ?thesis using assms by (simp add: resource_le_def)
qed

lemma command_le_trans:
  assumes "command_le a b" "command_le b c"
  shows "command_le a c"
proof -
  have le: "c_last a \<le> c_last b" "c_last b \<le> c_last c"
    using assms by (simp_all add: command_le_def)
  have eq: "c = a" if "c_last c = c_last a"
  proof -
    from that le have "c_last b = c_last a" "c_last c = c_last b" by simp_all
    with assms have "b = a" "c = b" by (simp_all add: command_le_def)
    then show ?thesis by simp
  qed
  have "c_last a \<le> c_last c" using le by (rule order.trans)
  then show ?thesis using assms eq unfolding command_le_def by simp
qed

lemma commands_le_subset: "set cs \<subseteq> set cs' \<Longrightarrow> commands_le cs cs'"
  unfolding commands_le_def using command_le_refl by blast

lemma commands_le_refl [simp]: "commands_le cs cs"
  by (rule commands_le_subset) simp

lemma commands_le_trans:
  assumes "commands_le a b" "commands_le b c"
  shows "commands_le a c"
  unfolding commands_le_def
proof (intro ballI)
  fix x
  assume "x \<in> set a"
  with assms(1) obtain y where y: "y \<in> set b" "command_le x y" unfolding commands_le_def by blast
  with assms(2) obtain z where z: "z \<in> set c" "command_le y z" unfolding commands_le_def by blast
  from y(2) z(2) have "command_le x z" by (rule command_le_trans)
  with z(1) show "\<exists>z\<in>set c. command_le x z" by (rule rev_bexI)
qed

lemma history_le_refl [simp]: "history_le db db"
  by (auto simp: history_le_def intro: kept_refl)

lemma history_le_trans:
  assumes "history_le a b" "history_le b c"
  shows "history_le a c"
  unfolding history_le_def
proof (intro conjI)
  show "kept operation_le (find_operation a) (find_operation c)"
    using assms by (auto simp: history_le_def intro: kept_trans [OF operation_le_trans])
  show "kept resource_le (resource_rows a) (resource_rows c)"
    using assms by (auto simp: history_le_def intro: kept_trans [OF resource_le_trans])
  show "set (reference_rows a) \<subseteq> set (reference_rows c)"
    using assms by (auto simp: history_le_def)
  show "commands_le (command_rows a) (command_rows c)"
    using assms by (auto simp: history_le_def intro: commands_le_trans)
qed

lemma find_operation_put: "find_operation (put_operation r db) i = (if i = o_id r then Some r else find_operation db i)"
  by (simp add: find_operation_def put_operation_def update_conv')

lemma put_operation_rest [simp]:
  "resource_rows (put_operation r db) = resource_rows db"
  "reference_rows (put_operation r db) = reference_rows db"
  "command_rows (put_operation r db) = command_rows db"
  "canonical_rows (put_operation r db) = canonical_rows db"
  "allocation_ids (put_operation r db) = allocation_ids db"
  "retry_rows (put_operation r db) = retry_rows db"
  "watermark_rows (put_operation r db) = watermark_rows db"
  by (simp_all add: put_operation_def)

lemma put_resource_rest [simp]:
  "operation_rows (put_resource r db) = operation_rows db"
  "reference_rows (put_resource r db) = reference_rows db"
  "command_rows (put_resource r db) = command_rows db"
  "find_operation (put_resource r db) i = find_operation db i"
  "resource_rows (put_resource r db) = (resource_rows db)(r_id r \<mapsto> r)"
  by (simp_all add: put_resource_def find_operation_def)

text \<open>Operations on the tables a history does not speak of.\<close>

lemma history_le_same:
  "operation_rows db' = operation_rows db \<Longrightarrow> resource_rows db' = resource_rows db \<Longrightarrow>
   reference_rows db' = reference_rows db \<Longrightarrow> command_rows db' = command_rows db \<Longrightarrow> history_le db db'"
  by (auto simp: history_le_def find_operation_def kept_def)

lemma history_le_operations:
  "kept operation_le (find_operation db) (find_operation db') \<Longrightarrow> resource_rows db' = resource_rows db \<Longrightarrow>
   reference_rows db' = reference_rows db \<Longrightarrow> command_rows db' = command_rows db \<Longrightarrow> history_le db db'"
  by (auto simp: history_le_def intro: kept_refl)

lemma history_le_put_new: "find_operation db (o_id r) = None \<Longrightarrow> history_le db (put_operation r db)"
  by (rule history_le_operations) (simp_all add: kept_def find_operation_put)

lemma history_le_put:
  assumes "find_operation db (o_id r) = Some old" "operation_le old r"
  shows "history_le db (put_operation r db)"
  by (rule history_le_operations) (use assms in \<open>simp_all add: kept_def find_operation_put\<close>)

lemma history_le_put_resource:
  assumes "\<And>old. resource_rows db (r_id r) = Some old \<Longrightarrow> resource_le old r"
  shows "history_le db (put_resource r db)"
  using assms by (auto simp: history_le_def kept_def)

lemma history_le_touch: "history_le db (touch_canonical i a b c db)"
  by (rule history_le_same) (simp_all add: touch_canonical_def)

lemma guarded_update_cases:
  assumes "guarded_update i expected desired observed observed_generation provider db = Inr db'"
  obtains r where "resource_rows db i = Some r" "r_generation r = expected"
    "db' = put_resource (r\<lparr>r_id := i, r_generation := expected + 1, r_desired := desired,
       r_observed := observed, r_observed_generation := observed_generation, r_provider := provider\<rparr>) db"
  using assms by (auto simp: guarded_update_def split: option.splits if_splits)

lemma history_le_guarded:
  assumes "guarded_update i expected desired observed observed_generation provider db = Inr db'"
  shows "history_le db db'"
proof -
  from assms obtain r where r: "resource_rows db i = Some r" "r_generation r = expected"
    "db' = put_resource (r\<lparr>r_id := i, r_generation := expected + 1, r_desired := desired,
       r_observed := observed, r_observed_generation := observed_generation, r_provider := provider\<rparr>) db"
    by (rule guarded_update_cases)
  then show ?thesis by (auto simp: resource_le_def intro!: history_le_put_resource)
qed

lemma fill_terminal_provider:
  "\<not> contradicts p (o_provider_op r) \<Longrightarrow> o_provider_op r \<noteq> None \<Longrightarrow>
   o_provider_op (fill_terminal p c m r) = o_provider_op r"
  by (auto simp: contradicts_def fill_terminal_def or_else_def split: option.splits)

lemma fill_terminal_simps [simp]:
  "o_state (fill_terminal p c m r) = o_state r" "o_resource (fill_terminal p c m r) = o_resource r"
  "o_kind (fill_terminal p c m r) = o_kind r"
  by (simp_all add: fill_terminal_def)

lemma history_le_fill:
  "find_operation db i = Some r \<Longrightarrow> \<not> contradicts p (o_provider_op r) \<Longrightarrow>
   history_le db (put_operation ((fill_terminal p c m r)\<lparr>o_id := i\<rparr>) db)"
  by (rule history_le_put [of _ _ r]) (auto simp: operation_le_def fill_terminal_provider)

lemma update_operation_history: "history_le db (snd (update_operation now i state p c m db))"
proof (cases "find_operation db i")
  case (Some r)
  show ?thesis
  proof (cases "terminal (o_state r)")
    case True
    with Some show ?thesis by (simp add: update_operation_def Let_def history_le_fill)
  next
    case False
    let ?r = "r\<lparr>o_id := i, o_state := state, o_provider_op := p, o_category := c, o_message := m\<rparr>"
    have "history_le db (put_operation ?r db)"
      by (rule history_le_put [of _ _ r]) (use Some False in \<open>simp_all add: operation_le_def\<close>)
    from history_le_trans [OF this history_le_touch] Some False show ?thesis
      by (simp add: update_operation_def Let_def)
  qed
qed (simp add: update_operation_def)

lemma update_resource_history: "history_le db (snd (update_resource i g d ob og p db))"
  by (auto simp: update_resource_def intro: history_le_guarded split: sum.splits)

lemma terminalize_tx_history:
  assumes "terminalize_tx now t db = Inr db'"
  shows "history_le db db'"
proof (cases "find_operation db (t_operation t)")
  case (Some r)
  show ?thesis
  proof (cases "terminal (o_state r)")
    case True
    with Some assms show ?thesis by (auto simp: terminalize_tx_def history_le_fill split: if_splits)
  next
    case False
    let ?r = "r\<lparr>o_id := t_operation t, o_state := t_state t, o_provider_op := t_provider_op t,
                o_category := t_category t, o_message := t_message t\<rparr>"
    have "history_le db (put_operation ?r db)"
      by (rule history_le_put [of _ _ r]) (use Some False in \<open>simp_all add: operation_le_def\<close>)
    from history_le_trans [OF this history_le_touch] history_le_trans Some False assms history_le_guarded
    show ?thesis by (fastforce simp: terminalize_tx_def Let_def split: if_splits)
  qed
qed (use assms in \<open>simp add: terminalize_tx_def\<close>)

lemma terminalize_lifecycle_history: "history_le db (snd (terminalize_lifecycle now t db))"
  by (auto simp: terminalize_lifecycle_def intro: terminalize_tx_history split: sum.splits)

lemma update_from_observation_history: "history_le db (snd (update_resource_from_observation i u db))"
proof (cases "resource_rows db i")
  case (Some r)
  have "history_le db' (db'\<lparr>watermark_rows := w\<rparr>)" for db' w
    by (rule history_le_same) simp_all
  with Some show ?thesis
    by (auto simp: update_resource_from_observation_def split: sum.splits option.splits
        intro: history_le_trans [OF history_le_guarded])
qed (simp add: update_resource_from_observation_def)

lemma insert_resource_history: "history_le db (snd (insert_resource r db))"
  by (auto simp: insert_resource_def intro: history_le_put_resource)

lemma insert_operation_history: "history_le db (snd (insert_operation r db))"
  by (simp add: insert_operation_def history_le_put_new)

lemma write_lifecycle_history:
  assumes "find_operation db i = Some r" "terminal (o_state r) \<Longrightarrow> lu_state u = o_state r"
  shows "history_le db (write_lifecycle i u r db)"
proof -
  let ?db = "put_operation (r\<lparr>o_id := i, o_state := lu_state u\<rparr>) db"
  have "history_le db ?db" by (rule history_le_put [of _ _ r]) (use assms in \<open>simp_all add: operation_le_def\<close>)
  moreover have "history_le ?db (write_lifecycle i u r db)"
    by (rule history_le_same) (simp_all add: write_lifecycle_def put_operation_def)
  ultimately show ?thesis by (rule history_le_trans)
qed

lemma complete_operation_history:
  "history_le db (snd (update_resource_and_complete_operation v i g d ob og p j u db))"
  by (auto simp: update_resource_and_complete_operation_def Let_def split: sum.splits option.splits
      intro: history_le_trans [OF history_le_guarded write_lifecycle_history])

lemma update_canonical_history: "history_le db (snd (update_canonical_operation_lifecycle v i u db))"
  by (auto simp: update_canonical_operation_lifecycle_def terminal_def split: sum.splits option.splits
      intro!: write_lifecycle_history)

lemma increment_retry_history: "history_le db (snd (increment_operation_retry i db))"
  by (auto simp: increment_operation_retry_def Let_def intro: history_le_same)

lemma insert_both_history: "history_le db (snd (insert_resource_and_operation r op a db))"
proof -
  have "history_le db db1" if "insert_resource r db = (x, db1)" for x db1
    using insert_resource_history [of db r] that by simp
  moreover have "find_operation db1 j = find_operation db j" if "insert_resource r db = (x, db1)" for x db1 j
    using that by (auto simp: insert_resource_def split: if_splits)
  ultimately show ?thesis
    by (auto simp: insert_resource_and_operation_def split: prod.splits sum.splits
        intro: history_le_trans [OF _ history_le_put_new])
qed

lemma revive_history: "history_le db (snd (revive_resource_and_operation i g d ob og p op a db))"
proof -
  have "find_operation db1 j = find_operation db j"
    if "guarded_update i g d ob og p db = Inr db1" for db1 j
    using that by (rule guarded_update_cases) simp
  then show ?thesis
    by (auto simp: revive_resource_and_operation_def Let_def split: sum.splits
        intro: history_le_trans [OF history_le_guarded history_le_put_new])
qed

lemma attach_reference_history: "history_le db (snd (attach_provider_reference p db))"
  by (auto simp: attach_provider_reference_def history_le_def kept_def find_operation_def)

lemma insert_command_history: "history_le db (snd (insert_agent_command c db))"
  by (auto simp: insert_agent_command_def history_le_def kept_def find_operation_def
      intro: commands_le_subset split: sum.splits)

lemma advance_command_le:
  assumes "advance_command state a l p q c = Inr c'"
  shows "command_le c c'"
proof (cases "c_last c < l")
  case True
  with assms have "\<not> contradicts p (c_provider_op c)" "\<not> contradicts q (c_provider_resource c)"
    "c_state c = CmdSucceeded \<or> c_state c = CmdFailed \<longrightarrow> c_state c = state"
    "c' = c\<lparr>c_state := state, c_accepted := max a (c_accepted c), c_last := l,
            c_provider_op := or_else p (c_provider_op c),
            c_provider_resource := or_else q (c_provider_resource c)\<rparr>"
    by (auto simp: advance_command_def Let_def split: if_splits)
  with True show ?thesis
    by (auto simp: command_le_def contradicts_def or_else_def split: option.splits)
next
  case False
  with assms have "c' = c" by (auto simp: advance_command_def split: if_splits)
  then show ?thesis by (simp add: command_le_refl)
qed

lemma replace_command_le:
  assumes "find (\<lambda>d. c_id d = i) cs = Some d" "command_le d c"
  shows "commands_le cs (replace_command i c cs)"
  using assms
proof (induction cs)
  case (Cons x xs)
  show ?case
  proof (cases "c_id x = i")
    case True
    with Cons.prems show ?thesis by (auto simp: commands_le_def intro: command_le_refl)
  next
    case False
    with Cons have "commands_le xs (replace_command i c xs)" by simp
    with False show ?thesis by (auto simp: commands_le_def)
  qed
qed simp

lemma find_operation_commands [simp]: "find_operation (db\<lparr>command_rows := cs\<rparr>) = find_operation db"
  by (rule ext) (simp add: find_operation_def)

lemma update_command_history: "history_le db (snd (update_agent_command i s a l p q db))"
  by (auto simp: update_agent_command_def get_agent_command_def history_le_def
      intro: kept_refl replace_command_le advance_command_le split: sum.splits option.splits)

section \<open>Runs of the store\<close>

datatype store_op =
    InsertResource resource_record
  | UpdateResource string int string string int "string option"
  | ObserveResource string observation_update
  | InsertOperation operation_record
  | UpdateOperation string string operation_state "string option" "string option" "string option"
  | Terminalize string terminalization
  | Retry string
  | InsertBoth resource_record operation_record "string option"
  | Revive string int string string int "string option" operation_record "string option"
  | CompleteOperation string int string string int "string option" string lifecycle_update
  | UpdateLifecycle string lifecycle_update
  | AttachReference provider_reference
  | InsertCommand agent_command
  | UpdateCommand string command_state u64 u64 "string option" "string option"

primrec store_after :: "(string \<Rightarrow> bool) \<Rightarrow> operations_db \<Rightarrow> store_op \<Rightarrow> operations_db" where
  "store_after v db (InsertResource r) = snd (insert_resource r db)"
| "store_after v db (UpdateResource i g d ob og p) = snd (update_resource i g d ob og p db)"
| "store_after v db (ObserveResource i u) = snd (update_resource_from_observation i u db)"
| "store_after v db (InsertOperation r) = snd (insert_operation r db)"
| "store_after v db (UpdateOperation now i s p c m) = snd (update_operation now i s p c m db)"
| "store_after v db (Terminalize now t) = snd (terminalize_lifecycle now t db)"
| "store_after v db (Retry i) = snd (increment_operation_retry i db)"
| "store_after v db (InsertBoth r op a) = snd (insert_resource_and_operation r op a db)"
| "store_after v db (Revive i g d ob og p op a) = snd (revive_resource_and_operation i g d ob og p op a db)"
| "store_after v db (CompleteOperation i g d ob og p j u) =
     snd (update_resource_and_complete_operation v i g d ob og p j u db)"
| "store_after v db (UpdateLifecycle i u) = snd (update_canonical_operation_lifecycle v i u db)"
| "store_after v db (AttachReference p) = snd (attach_provider_reference p db)"
| "store_after v db (InsertCommand c) = snd (insert_agent_command c db)"
| "store_after v db (UpdateCommand i s a l p q) = snd (update_agent_command i s a l p q db)"

text \<open>A failed operation may have committed, so a step always has a database after it.\<close>

definition store_step :: "(string \<Rightarrow> bool) \<Rightarrow> operations_db \<Rightarrow> store_op \<Rightarrow> unit + operations_db" where
  "store_step v db x = Inr (store_after v db x)"

lemma store_after_history: "history_le db (store_after v db x)"
  by (cases x)
    (simp_all add: insert_resource_history update_resource_history update_from_observation_history
      insert_operation_history update_operation_history terminalize_lifecycle_history
      increment_retry_history insert_both_history revive_history complete_operation_history
      update_canonical_history attach_reference_history insert_command_history update_command_history)

interpretation store_history: monotone_machine "store_step v" history_le for v
proof
  show "history_le s s" for s by simp
  show "history_le s t \<Longrightarrow> history_le t u \<Longrightarrow> history_le s u" for s t u by (rule history_le_trans)
  show "store_step v s x = Inr s' \<Longrightarrow> history_le s s'" for s x s'
    using store_after_history [of s v x] by (simp add: store_step_def)
qed

lemma history_operation:
  assumes "history_le db db'" "find_operation db i = Some r"
  obtains r' where "find_operation db' i = Some r'" "operation_le r r'"
  using assms unfolding history_le_def kept_def by blast

lemma history_resource:
  assumes "history_le db db'" "resource_rows db i = Some r"
  obtains r' where "resource_rows db' i = Some r'" "resource_le r r'"
  using assms unfolding history_le_def kept_def by blast

lemma history_command:
  assumes "history_le db db'" "c \<in> set (command_rows db)"
  obtains c' where "c' \<in> set (command_rows db')" "command_le c c'"
  using assms unfolding history_le_def commands_le_def by blast

section \<open>A small database\<close>

definition sample_resource :: resource_record where
  "sample_resource = \<lparr>r_id = ''r1'', r_kind = ''server'', r_project = ''p1'', r_generation = 1,
     r_observed_generation = 0, r_desired = ''{active}'', r_observed = ''{}'', r_provider = None\<rparr>"

definition sample_operation :: operation_record where
  "sample_operation = \<lparr>o_id = ''o1'', o_resource = ''r1'', o_kind = ''create'', o_state = OpPending,
     o_provider_op = None, o_category = None, o_message = None\<rparr>"

definition sample_command :: agent_command where
  "sample_command = \<lparr>c_id = ''c1'', c_key = ''k1'', c_operation = ''o1'', c_resource = ''r1'',
     c_agent = ''a1'', c_epoch = ''e1'', c_fingerprint = ''f1'', c_payload = ''{}'',
     c_state = CmdAccepted, c_accepted = 1, c_last = 1, c_provider_op = None,
     c_provider_resource = None\<rparr>"

definition sample_terminalization :: terminalization where
  "sample_terminalization = \<lparr>t_operation = ''o1'', t_state = OpSucceeded, t_provider_op = Some ''po'',
     t_category = None, t_message = None, t_resource = ''r1'', t_expected = 1,
     t_desired = ''{active}'', t_observed = ''{active}'', t_observed_generation = 1,
     t_provider = Some ''agent''\<rparr>"

text \<open>A database with the resource, its pending operation and a command for it.\<close>

definition sample_db :: operations_db where
  "sample_db = run_ops (store_step (\<lambda>_. True)) empty_operations
     [InsertBoth sample_resource sample_operation None, InsertCommand sample_command]"

lemmas store_simps =
  apply_op_def store_step_def insert_resource_and_operation_def insert_resource_def
  resource_known_def put_resource_def put_operation_def find_operation_def insert_agent_command_def
  update_resource_def guarded_update_def get_resource_def get_operation_def update_operation_def
  touch_canonical_def terminalize_lifecycle_def terminalize_tx_def terminal_def

lemmas sample_simps =
  empty_operations_def sample_resource_def sample_operation_def sample_command_def
  sample_terminalization_def

lemma sample_db_rows:
  "resource_rows sample_db = [''r1'' \<mapsto> sample_resource]"
  "operation_rows sample_db = [(''o1'', sample_operation)]"
  "command_rows sample_db = [sample_command]"
  "canonical_rows sample_db = Map.empty"
  by (simp_all add: sample_db_def store_simps sample_simps i64_of_u64_def i64_max_def fun_eq_iff)

definition closed_db :: operations_db where
  "closed_db = snd (terminalize_lifecycle ''t'' sample_terminalization sample_db)"

lemma closed_db_rows:
  "find_operation closed_db ''o1'' = Some (sample_operation\<lparr>o_kind := ''create'', o_state := OpSucceeded,
     o_provider_op := Some ''po''\<rparr>)"
  "resource_rows closed_db = [''r1'' \<mapsto> sample_resource\<lparr>r_generation := 2,
     r_observed := ''{active}'', r_observed_generation := 1, r_provider := Some ''agent''\<rparr>]"
  by (simp_all add: closed_db_def store_simps sample_db_rows sample_simps)

lemma sample_terminalized:
  "terminalize_lifecycle ''t'' sample_terminalization sample_db
     = (Inr (the (find_operation closed_db ''o1''), the (resource_rows closed_db ''r1'')), closed_db)"
  unfolding closed_db_rows by (simp add: closed_db_def store_simps sample_db_rows sample_simps)

section \<open>Guarantees\<close>

text \<open>C15: Terminal operations are final. Once an operation has succeeded or failed, no later
  sequence of the store's operations, whatever a delayed or repeated writer sends, changes its
  outcome, the resource it is about, its kind or a provider identity recorded for it.\<close>

theorem terminal_operation_final:
  assumes "find_operation db i = Some r" "terminal (o_state r)"
  shows "\<exists>r'. find_operation (run_ops (store_step v) db xs) i = Some r' \<and> o_state r' = o_state r
           \<and> o_resource r' = o_resource r \<and> o_kind r' = o_kind r
           \<and> (o_provider_op r \<noteq> None \<longrightarrow> o_provider_op r' = o_provider_op r)"
proof -
  have "history_le db (run_ops (store_step v) db xs)" by (rule store_history.run_rel)
  then obtain r' where "find_operation (run_ops (store_step v) db xs) i = Some r'" "operation_le r r'"
    using assms(1) by (rule history_operation)
  with assms(2) show ?thesis by (auto simp: operation_le_def)
qed

theorem terminal_operation_final_witness:
  "\<exists>r'. find_operation (run_ops (store_step (\<lambda>_. True)) closed_db
       [UpdateOperation ''t'' ''o1'' OpFailed None None None, Terminalize ''t'' sample_terminalization])
     ''o1'' = Some r' \<and> o_state r' = OpSucceeded \<and> o_provider_op r' = Some ''po''"
  using terminal_operation_final [where v = "\<lambda>_. True"
      and xs = "[UpdateOperation ''t'' ''o1'' OpFailed None None None,
        Terminalize ''t'' sample_terminalization]", OF closed_db_rows(1)]
  by (auto simp: terminal_def)

text \<open>Optimistic concurrency. Of all the writers that read a resource at one generation at
  most one wins: once an update guarded by that generation has succeeded, every update guarded
  by it fails as stale, after any sequence of the store's operations, and changes nothing.\<close>

theorem one_writer_wins:
  assumes "update_resource i g d ob og p db = (Inr r, db')"
    and later: "later = run_ops (store_step v) db' xs"
  shows "update_resource i g d2 ob2 og2 p2 later = (Inl StaleGeneration, later)"
proof -
  from assms(1) have "guarded_update i g d ob og p db = Inr db'"
    by (auto simp: update_resource_def split: sum.splits)
  then obtain r0 where "resource_rows db' i = Some r0" "r_generation r0 = g + 1"
    by (rule guarded_update_cases) auto
  moreover have "history_le db' later" unfolding later by (rule store_history.run_rel)
  ultimately obtain r1 where "resource_rows later i = Some r1" "resource_le r0 r1"
    by (meson history_resource)
  with \<open>r_generation r0 = g + 1\<close> show ?thesis
    by (simp add: update_resource_def guarded_update_def resource_le_def)
qed

theorem one_writer_wins_witness:
  "fst (update_resource ''r1'' 1 ''{b}'' ''{}'' 0 None
     (run_ops (store_step (\<lambda>_. True)) (snd (update_resource ''r1'' 1 ''{a}'' ''{}'' 0 None sample_db))
       [Retry ''o1''])) = Inl StaleGeneration"
proof -
  have "\<exists>r. update_resource ''r1'' 1 ''{a}'' ''{}'' 0 None sample_db
    = (Inr r, snd (update_resource ''r1'' 1 ''{a}'' ''{}'' 0 None sample_db))"
    by (simp add: store_simps sample_db_rows sample_simps)
  then obtain r where "update_resource ''r1'' 1 ''{a}'' ''{}'' 0 None sample_db
    = (Inr r, snd (update_resource ''r1'' 1 ''{a}'' ''{}'' 0 None sample_db))" by blast
  from one_writer_wins [OF this refl] show ?thesis by (simp del: run_ops.simps)
qed

text \<open>Agent evidence only advances. After any sequence of the store's operations a command
  is still there with its identity and payload, its sequence number has not gone back, an
  unchanged sequence number means an unchanged row, a success or failure is final, and a
  provider operation or resource once recorded never changes.\<close>

theorem command_evidence_advances:
  assumes "c \<in> set (command_rows db)"
  shows "\<exists>c'\<in>set (command_rows (run_ops (store_step v) db xs)). command_le c c'"
proof -
  have "history_le db (run_ops (store_step v) db xs)" by (rule store_history.run_rel)
  then obtain c' where "c' \<in> set (command_rows (run_ops (store_step v) db xs))" "command_le c c'"
    using assms by (rule history_command)
  then show ?thesis by blast
qed

theorem command_evidence_advances_witness:
  "\<exists>c'\<in>set (command_rows (run_ops (store_step (\<lambda>_. True)) sample_db
       [UpdateCommand ''c1'' CmdSucceeded 1 2 (Some ''po'') None])). command_le sample_command c'"
  by (rule command_evidence_advances) (simp add: sample_db_rows)

lemma terminalize_commits:
  assumes "terminalize_lifecycle now t db = (Inr (r, res), db')"
  shows "terminalize_tx now t db = Inr db'" "terminal (t_state t)"
    "find_operation db' (t_operation t) = Some r" "resource_rows db' (t_resource t) = Some res"
  using assms
  by (auto simp: terminalize_lifecycle_def get_operation_def get_resource_def
      split: sum.splits option.splits if_splits)

lemma terminalize_tx_operation:
  assumes "terminalize_tx now t db = Inr db'"
  obtains r where "find_operation db' (t_operation t) = Some r" "o_state r = t_state t"
    "o_resource r = t_resource t"
proof -
  have "find_operation (touch_canonical i a b c db) j = find_operation db j" for i a b c db j
    by (simp add: touch_canonical_def find_operation_def)
  with assms that show thesis
    by (auto simp: terminalize_tx_def Let_def find_operation_put split: option.splits if_splits
        elim!: guarded_update_cases)
qed

text \<open>The terminalization of a lifecycle operation is atomic and happens once. When it
  succeeds the operation is terminal in the state asked for; a repetition of it after any
  sequence of the store's operations, by a second reconciler or after a crash, leaves every
  resource row as it is, whatever it asks the resource to become, and cannot give the operation
  another outcome.\<close>

theorem terminalization_once:
  assumes "terminalize_lifecycle now t db = (Inr (r, res), db')" "t_operation u = t_operation t"
    and later: "later = run_ops (store_step v) db' xs"
  shows "resource_rows (snd (terminalize_lifecycle now' u later)) = resource_rows later
    \<and> (\<forall>q res'. fst (terminalize_lifecycle now' u later) = Inr (q, res') \<longrightarrow> o_state q = t_state t)"
proof -
  note tx = terminalize_commits [OF assms(1)]
  from tx(1) obtain r0 where r0: "find_operation db' (t_operation t) = Some r0" "o_state r0 = t_state t"
    by (rule terminalize_tx_operation)
  have "history_le db' later" unfolding later by (rule store_history.run_rel)
  then obtain r1 where r1: "find_operation later (t_operation t) = Some r1" "operation_le r0 r1"
    using r0(1) by (rule history_operation)
  with r0 tx(2) have fin: "terminal (o_state r1)" "o_state r1 = t_state t"
    by (simp_all add: operation_le_def)
  have same: "resource_rows db2 = resource_rows later"
    if "terminalize_tx now' u later = Inr db2" for db2
    using that r1(1) fin assms(2) by (auto simp: terminalize_tx_def split: if_splits)
  have state: "o_state q = t_state t"
    if "terminalize_tx now' u later = Inr db2" "find_operation db2 (t_operation u) = Some q" for db2 q
    using that r1(1) fin assms(2) by (auto simp: terminalize_tx_def find_operation_put split: if_splits)
  show ?thesis
    by (auto simp: terminalize_lifecycle_def get_operation_def split: sum.splits option.splits
        dest: same state)
qed

theorem terminalization_once_witness:
  "resource_rows (snd (terminalize_lifecycle ''u'' (sample_terminalization\<lparr>t_desired := ''{x}''\<rparr>)
     (run_ops (store_step (\<lambda>_. True)) closed_db [Retry ''o1''])))
   = resource_rows (run_ops (store_step (\<lambda>_. True)) closed_db [Retry ''o1''])"
  by (rule terminalization_once [OF sample_terminalized _ refl, THEN conjunct1]) simp

text \<open>The retry count outgrows its type. The 256th retry of an operation commits a count of
  256, in the operation's canonical row too, and only then reports corruption; from then on
  every later retry of the operation fails the same way.\<close>

theorem retry_count_overflows:
  assumes "retry_rows db i = Some a" "255 \<le> a" "a < i64_max"
  shows "increment_operation_retry i db
    = (Inl Corrupt, db\<lparr>retry_rows := (retry_rows db)(i \<mapsto> a + 1),
         canonical_rows := (canonical_rows db)(i :=
           map_option (\<lambda>c. c\<lparr>cn_attempt := a + 1\<rparr>) (canonical_rows db i))\<rparr>)"
  using assms by (simp add: increment_operation_retry_def Let_def)

theorem retry_count_overflows_witness:
  "fst (increment_operation_retry ''o1'' (sample_db\<lparr>retry_rows := [''o1'' \<mapsto> 255]\<rparr>)) = Inl Corrupt"
  by (subst retry_count_overflows [where a = 255]) (simp_all add: i64_max_def)

end
