(* ===== verification/Reconciler.thy ===== *)
theory Reconciler
  imports Rust_Text Rust_Effects Store_Operations Store_Metering
begin

text \<open>
  The operation journal of the reconciler (\<open>crates/o3k-reconciler/src/lib.rs\<close>,
  \<open>types.rs\<close>): its state, the actions its handlers are made of, the fences on agent evidence
  and the helpers. A handler is a function from the world to a result and the world afterwards;
  what it did before an error stays done, as in the source. The world holds the durable store,
  the in-memory journal (events and fences), the metering authority when one is attached and
  the provider.

  The compute provider is a parameter. A call to it takes and returns the store beside its own
  state: the agent-backed provider keeps its command records there, and other writers go on
  while the call is awaited. The agent registry is a parameter too: whether an epoch is the
  current one of an agent; the lease the source takes keeps the answer true for the rest of
  the handler. So are the serialisation of a create request, the parsing of a UUID, UUIDv5 and
  the clock. Poisoned locks do not occur: nothing panics while it holds one.
  Lemmas: the locale of the relations every journal action respects, what the fences accept,
  the bounds of a persisted failure message.
\<close>

section \<open>Types\<close>

datatype journal_event_kind =
    IntentPersisted | ProviderStarted | RetryScheduled | UnknownObserved | JSucceeded | JFailed

record journal_event =
  je_operation :: string
  je_resource :: string
  je_kind :: journal_event_kind

datatype lifecycle_action = ActStart | ActStop | ActReboot | ActDelete

fun lifecycle_kind :: "lifecycle_action \<Rightarrow> string" where
  "lifecycle_kind ActStart = ''lifecycle:start''"
| "lifecycle_kind ActStop = ''lifecycle:stop''"
| "lifecycle_kind ActReboot = ''lifecycle:reboot''"
| "lifecycle_kind ActDelete = ''lifecycle:delete''"

definition lifecycle_parse :: "string \<Rightarrow> lifecycle_action option" where
  "lifecycle_parse k =
     (if k = ''lifecycle:start'' then Some ActStart
      else if k = ''lifecycle:stop'' then Some ActStop
      else if k = ''lifecycle:reboot'' then Some ActReboot
      else if k = ''lifecycle:delete'' then Some ActDelete else None)"

datatype reconcile_error =
    RStore store_error | RProvider provider_error | RInvalidIntent | RRetryExhausted
  | RStaleEvidence | RMetering kernel_error

record agent_fence =
  af_agent :: string
  af_epoch :: string
  af_sequence :: u64
  af_state :: agent_op_state
  af_resource :: string

record observation_fence =
  of_agent :: string
  of_epoch :: string
  of_sequence :: u64

datatype disposition = New | Duplicate | Stale

record create_request =
  cr_operation :: string
  cr_server :: string
  cr_project :: string
  cr_name :: string
  cr_vcpus :: "32 word"
  cr_memory_mib :: u64
  cr_flavor :: string
  cr_disk_gib :: u64
  cr_image :: "string option"
  cr_key_name :: "string option"
  cr_keypair :: "string option"
  cr_networks :: "string list"
  cr_placement_provider :: "string option"
  cr_placement_allocation :: "string option"
  cr_config_drive :: "(string \<times> string option \<times> string) option"
  cr_idempotency_key :: string

record delete_request =
  dr_operation :: string
  dr_instance :: string
  dr_key :: string

datatype instance_action = IaStart | IaStop | IaReboot

section \<open>The world\<close>

record 'p world =
  w_store :: operations_db
  w_events :: "journal_event list"
  w_agents :: "string \<rightharpoonup> agent_fence"
  w_observations :: "string \<rightharpoonup> observation_fence"
  w_metering :: "metering_db option"
  w_provider :: 'p

type_synonym ('p, 'a) journal_act = "('p world, reconcile_error, 'a) effect"
type_synonym ('p, 'a) provider_call =
  "operations_db \<Rightarrow> 'p \<Rightarrow> (provider_error, 'a) rust_result \<times> operations_db \<times> 'p"

record 'p journal =
  j_create :: "create_request \<Rightarrow> ('p, provider_operation) provider_call"
  j_delete :: "delete_request \<Rightarrow> ('p, provider_operation) provider_call"
  j_action :: "string \<Rightarrow> instance_action \<Rightarrow> string \<Rightarrow> string \<Rightarrow> ('p, provider_operation) provider_call"
  j_instance :: "string \<Rightarrow> ('p, provider_instance) provider_call"
  j_operation :: "string \<Rightarrow> ('p, provider_operation) provider_call"
  j_inspect :: "string \<Rightarrow> string \<Rightarrow> string \<Rightarrow> string \<Rightarrow> string \<Rightarrow> ('p, provider_operation) provider_call"
  j_max_attempts :: nat
  j_registry :: "(string \<Rightarrow> string \<Rightarrow> bool) option"
  j_encode :: "create_request \<Rightarrow> string option"
  j_decode :: "string \<Rightarrow> create_request option"
  j_parse_uuid :: "string \<Rightarrow> string option"
  j_uuid5 :: "string \<Rightarrow> string"
  j_observation_id :: "string \<Rightarrow> string"
  j_now :: int
  j_time :: string

text \<open>\<open>OperationJournal::new\<close> with \<open>max_attempts\<close>, a \<open>u8\<close>, raised to at least one.\<close>

definition journal_new :: "'p journal \<Rightarrow> nat \<Rightarrow> 'p journal" where
  "journal_new j attempts = j\<lparr>j_max_attempts := max attempts 1\<rparr>"

section \<open>Actions\<close>

definition read_store :: "(operations_db \<Rightarrow> (store_error, 'a) rust_result) \<Rightarrow> ('p, 'a) journal_act" where
  "read_store q w =
     (case q (w_store w) of Inl e \<Rightarrow> (Inl (RStore e), w) | Inr x \<Rightarrow> (Inr x, w))"

definition in_store :: "(operations_db \<Rightarrow> 'a store_result) \<Rightarrow> ('p, 'a) journal_act" where
  "in_store f w =
     (case f (w_store w) of
        (Inl e, db) \<Rightarrow> (Inl (RStore e), w\<lparr>w_store := db\<rparr>)
      | (Inr x, db) \<Rightarrow> (Inr x, w\<lparr>w_store := db\<rparr>))"

definition ask_provider :: "('p, 'a) provider_call \<Rightarrow> ('p, 'a) journal_act" where
  "ask_provider f w =
     (case f (w_store w) (w_provider w) of
        (Inl e, db, p) \<Rightarrow> (Inl (RProvider e), w\<lparr>w_store := db, w_provider := p\<rparr>)
      | (Inr x, db, p) \<Rightarrow> (Inr x, w\<lparr>w_store := db, w_provider := p\<rparr>))"

definition event :: "string \<Rightarrow> string \<Rightarrow> journal_event_kind \<Rightarrow> ('p, unit) journal_act" where
  "event i r k w =
     (Inr (), w\<lparr>w_events := w_events w @ [\<lparr>je_operation = i, je_resource = r, je_kind = k\<rparr>]\<rparr>)"

definition project_metering :: "'p journal \<Rightarrow> resource_record \<Rightarrow> string \<Rightarrow> ('p, unit) journal_act" where
  "project_metering J r observed w =
     (case w_metering w of
        None \<Rightarrow> (Inr (), w)
      | Some m \<Rightarrow>
          (case observe_resource_state (j_observation_id J) (j_now J) m (r_kind r) (r_project r) (r_id r) observed of
             Inl e \<Rightarrow> (Inl (RMetering e), w)
           | Inr m' \<Rightarrow> (Inr (), w\<lparr>w_metering := Some m'\<rparr>)))"

definition project_metering_best_effort ::
  "'p journal \<Rightarrow> resource_record \<Rightarrow> string \<Rightarrow> ('p, unit) journal_act" where
  "project_metering_best_effort J r observed = attempt (project_metering J r observed) (\<lambda>_. done_with ())"

definition repair_metering_from_durable_state :: "'p journal \<Rightarrow> string \<Rightarrow> ('p, unit) journal_act" where
  "repair_metering_from_durable_state J i =
     attempt (read_store (\<lambda>db. get_resource db i)) (\<lambda>res.
       case res of
         Inl _ \<Rightarrow> done_with ()
       | Inr r \<Rightarrow>
           if compute_instance_state_consuming (r_observed r) \<noteq> Some True then done_with ()
           else project_metering_best_effort J r (r_observed r))"

section \<open>Evidence fences\<close>

definition valid_agent_reference :: "string \<Rightarrow> bool" where
  "valid_agent_reference v =
     (v \<noteq> [] \<and> length v \<le> 128
      \<and> list_all (\<lambda>c. is_ascii_alphanumeric c \<or> c = CHR ''.'' \<or> c = CHR ''_'' \<or> c = CHR ''-'' \<or> c = CHR '':'') v)"

definition valid_evidence :: "string \<Rightarrow> string \<Rightarrow> u64 \<Rightarrow> bool" where
  "valid_evidence agent epoch seq =
     (trim agent \<noteq> [] \<and> trim epoch \<noteq> [] \<and> seq \<noteq> 0
      \<and> valid_agent_reference agent \<and> valid_agent_reference epoch)"

text \<open>Without a registry the operation stays anchored to the epoch of its first evidence.\<close>

definition epoch_current :: "'p journal \<Rightarrow> string \<Rightarrow> string \<Rightarrow> bool" where
  "epoch_current J agent epoch =
     (case j_registry J of None \<Rightarrow> True | Some current \<Rightarrow> current agent epoch)"

definition fence_agent_evidence ::
  "'p journal \<Rightarrow> string \<Rightarrow> string \<Rightarrow> string \<Rightarrow> u64 \<Rightarrow> agent_op_state \<Rightarrow> string
   \<Rightarrow> ('p, disposition) journal_act" where
  "fence_agent_evidence J i agent epoch seq state resource w =
     (if \<not> valid_evidence agent epoch seq then (Inl RInvalidIntent, w)
      else if \<not> epoch_current J agent epoch then (Inl RStaleEvidence, w)
      else
        let next = \<lparr>af_agent = agent, af_epoch = epoch, af_sequence = seq, af_state = state,
                    af_resource = resource\<rparr>;
            w' = w\<lparr>w_agents := (w_agents w)(i \<mapsto> next)\<rparr>
        in case w_agents w i of
             None \<Rightarrow> (Inr New, w')
           | Some previous \<Rightarrow>
               if af_agent previous \<noteq> agent then (Inl RInvalidIntent, w)
               else if af_epoch previous \<noteq> epoch \<and> j_registry J = None then (Inl RInvalidIntent, w)
               else if af_epoch previous \<noteq> epoch then (Inr New, w')
               else if seq < af_sequence previous then (Inr Stale, w)
               else if seq = af_sequence previous
               then (if af_state previous = state \<and> af_resource previous = resource
                     then (Inr Duplicate, w) else (Inl RInvalidIntent, w))
               else (Inr New, w'))"

definition fence_agent_observation ::
  "'p journal \<Rightarrow> string \<Rightarrow> string \<Rightarrow> string \<Rightarrow> u64 \<Rightarrow> ('p, disposition) journal_act" where
  "fence_agent_observation J i agent epoch seq w =
     (if \<not> valid_evidence agent epoch seq then (Inl RInvalidIntent, w)
      else if \<not> epoch_current J agent epoch then (Inl RStaleEvidence, w)
      else
        let w' = w\<lparr>w_observations := (w_observations w)
                    (i \<mapsto> \<lparr>of_agent = agent, of_epoch = epoch, of_sequence = seq\<rparr>)\<rparr>
        in case w_observations w i of
             None \<Rightarrow> (Inr New, w')
           | Some previous \<Rightarrow>
               if of_agent previous \<noteq> agent then (Inl RInvalidIntent, w)
               else if of_epoch previous \<noteq> epoch
               then (if j_registry J = None then (Inl RInvalidIntent, w) else (Inr New, w'))
               else if seq < of_sequence previous then (Inr Stale, w)
               else (Inr Duplicate, w))"

section \<open>Helpers\<close>

fun agent_category_name :: "agent_category \<Rightarrow> string" where
  "agent_category_name AgInvalidRequest = ''invalid_request''"
| "agent_category_name AgUnauthenticated = ''unauthenticated''"
| "agent_category_name AgUnauthorized = ''unauthorized''"
| "agent_category_name AgConflict = ''conflict''"
| "agent_category_name AgCapacity = ''capacity''"
| "agent_category_name AgNotFound = ''not_found''"
| "agent_category_name AgRetryable = ''retryable''"
| "agent_category_name AgUnknown = ''unknown_outcome''"
| "agent_category_name AgTerminal = ''terminal''"

fun provider_error_category_name :: "error_category \<Rightarrow> string" where
  "provider_error_category_name CatInvalidRequest = ''invalid_request''"
| "provider_error_category_name CatNotFound = ''not_found''"
| "provider_error_category_name CatConflict = ''conflict''"
| "provider_error_category_name CatCapacity = ''capacity''"
| "provider_error_category_name CatRetryable = ''retryable''"
| "provider_error_category_name CatUnknownOutcome = ''unknown_outcome''"
| "provider_error_category_name CatTerminal = ''terminal''"

definition bounded_agent_failure_message :: "string \<Rightarrow> string" where
  "bounded_agent_failure_message raw =
     (let cleaned = concat (map (\<lambda>c. if control_char c then '' '' else c) (utf8_chars raw));
          trimmed = trim cleaned;
          chars = utf8_chars trimmed;
          bounded = concat (take 240 chars)
      in if trimmed = [] then ''agent operation failed''
         else if length chars > 240 then bounded @ ''...'' else bounded)"

definition delete_redrive_operation_id :: "'p journal \<Rightarrow> string \<Rightarrow> string" where
  "delete_redrive_operation_id J i = j_uuid5 J (''o3k:lifecycle-delete-redrive:'' @ i)"

definition validate_provider_operation_owner :: "string \<Rightarrow> provider_operation \<Rightarrow> ('p, unit) journal_act" where
  "validate_provider_operation_owner i po =
     (if po_operation po \<noteq> i then fail_with RInvalidIntent else done_with ())"

definition validate_lifecycle_provider_operation_owner ::
  "'p journal \<Rightarrow> string \<Rightarrow> lifecycle_action \<Rightarrow> provider_operation \<Rightarrow> ('p, unit) journal_act" where
  "validate_lifecycle_provider_operation_owner J i action po =
     (if po_operation po = i then done_with ()
      else if action = ActDelete \<and> po_operation po = delete_redrive_operation_id J i then done_with ()
      else fail_with RInvalidIntent)"

text \<open>\<open>insert_operation\<close> of a new intent, pending and without evidence.\<close>

definition pending_operation :: "string \<Rightarrow> string \<Rightarrow> string \<Rightarrow> operation_record" where
  "pending_operation i resource kind =
     \<lparr>o_id = i, o_resource = resource, o_kind = kind, o_state = OpPending, o_provider_op = None,
      o_category = None, o_message = None\<rparr>"

definition set_operation ::
  "'p journal \<Rightarrow> string \<Rightarrow> operation_state \<Rightarrow> string option \<Rightarrow> string option \<Rightarrow> string option
   \<Rightarrow> ('p, operation_record) journal_act" where
  "set_operation J i state provider_op category message =
     in_store (update_operation (j_time J) i state provider_op category message)"

text \<open>The projection of an observed state on a resource read before.\<close>

definition project_resource ::
  "resource_record \<Rightarrow> string \<Rightarrow> string option \<Rightarrow> ('p, resource_record) journal_act" where
  "project_resource r observed provider =
     in_store (update_resource (r_id r) (r_generation r) (r_desired r) observed (r_generation r) provider)"

definition begin_create :: "'p journal \<Rightarrow> string \<Rightarrow> create_request \<Rightarrow> ('p, string) journal_act" where
  "begin_create J project request =
     chain (from_option RInvalidIntent (j_encode J request)) (\<lambda>desired.
     chain (in_store (insert_resource_and_operation
         \<lparr>r_id = cr_server request, r_kind = ''compute_instance'', r_project = project,
          r_generation = 1, r_observed_generation = 0, r_desired = desired,
          r_observed = server_state_to_storage SrvRequested, r_provider = None\<rparr>
         (pending_operation (cr_operation request) (cr_server request) ''create'')
         (cr_placement_allocation request))) (\<lambda>_.
     chain (event (cr_operation request) (cr_server request) IntentPersisted) (\<lambda>_.
     done_with (cr_operation request))))"

definition begin_lifecycle :: "string \<Rightarrow> string \<Rightarrow> lifecycle_action \<Rightarrow> ('p, string) journal_act" where
  "begin_lifecycle resource i action =
     chain (in_store (insert_operation (pending_operation i resource (lifecycle_kind action)))) (\<lambda>_.
     chain (event i resource IntentPersisted) (\<lambda>_.
     done_with i))"

definition retry_or_fail ::
  "'p journal \<Rightarrow> string \<Rightarrow> string \<Rightarrow> provider_error \<Rightarrow> ('p, operation_state) journal_act" where
  "retry_or_fail J i resource e =
     chain (in_store (increment_operation_retry i)) (\<lambda>attempts.
     if j_max_attempts J \<le> attempts
     then chain (set_operation J i OpUnknownOutcome None (Some ''retry_exhausted'')
                   (Some (provider_error_to_string e))) (\<lambda>_.
          chain (event i resource UnknownObserved) (\<lambda>_. done_with OpUnknownOutcome))
     else chain (set_operation J i OpRetryable None (Some ''retryable'') None) (\<lambda>_.
          chain (event i resource RetryScheduled) (\<lambda>_. done_with OpRetryable)))"

section \<open>What every journal action respects\<close>

definition provider_respects :: "'p journal \<Rightarrow> ('p world \<Rightarrow> 'p world \<Rightarrow> bool) \<Rightarrow> bool" where
  "provider_respects J rel \<longleftrightarrow>
     (\<forall>q. keeps rel (ask_provider (j_create J q))) \<and> (\<forall>q. keeps rel (ask_provider (j_delete J q)))
     \<and> (\<forall>a b c d. keeps rel (ask_provider (j_action J a b c d)))
     \<and> (\<forall>a. keeps rel (ask_provider (j_instance J a)))
     \<and> (\<forall>a. keeps rel (ask_provider (j_operation J a)))
     \<and> (\<forall>a b c d e. keeps rel (ask_provider (j_inspect J a b c d e)))"

locale journal_actions = kept_effects rel
  for J :: "'p journal" and rel :: "'p world \<Rightarrow> 'p world \<Rightarrow> bool" +
  assumes rel_store: "rel w (w\<lparr>w_store := store_after v (w_store w) x\<rparr>)"
    and rel_event: "rel w (w\<lparr>w_events := w_events w @ [e]\<rparr>)"
    and rel_metering: "w_metering w = Some m
      \<Longrightarrow> observe_resource_state (j_observation_id J) (j_now J) m k p r s = Inr m'
      \<Longrightarrow> rel w (w\<lparr>w_metering := Some m'\<rparr>)"
    and rel_provider: "provider_respects J rel"
begin

lemma keeps_read: "keeps rel (read_store q)"
  by (auto simp: keeps_def read_store_def rel_refl split: sum.splits)

lemma keeps_in_store:
  assumes "\<And>db. \<exists>x. snd (f db) = store_after v db x"
  shows "keeps rel (in_store f)"
  unfolding keeps_def
proof (rule allI)
  fix w :: "'p world"
  from assms obtain x where x: "snd (f (w_store w)) = store_after v (w_store w) x" by blast
  have "snd (in_store f w) = w\<lparr>w_store := snd (f (w_store w))\<rparr>"
    by (auto simp: in_store_def split: prod.splits sum.splits)
  then show "rel w (snd (in_store f w))" unfolding x by (simp add: rel_store)
qed

lemma keeps_event: "keeps rel (event i r k)"
  by (simp add: keeps_def event_def rel_event)

lemma keeps_provider:
  "keeps rel (ask_provider (j_create J q))" "keeps rel (ask_provider (j_delete J d))"
  "keeps rel (ask_provider (j_action J a b c e))" "keeps rel (ask_provider (j_instance J a))"
  "keeps rel (ask_provider (j_operation J a))" "keeps rel (ask_provider (j_inspect J a b' c e f))"
  using rel_provider by (simp_all add: provider_respects_def)

lemma keeps_metering: "keeps rel (project_metering J r s)"
  by (auto simp: keeps_def project_metering_def rel_refl rel_metering split: option.splits sum.splits)

lemma keeps_best_effort: "keeps rel (project_metering_best_effort J r s)"
  unfolding project_metering_best_effort_def by (intro keeps_attempt keeps_metering keeps_done)

lemma keeps_repair: "keeps rel (repair_metering_from_durable_state J i)"
  unfolding repair_metering_from_durable_state_def
  by (intro keeps_attempt keeps_read) (simp split: sum.split, intro conjI allI impI keeps_done keeps_best_effort)

lemma keeps_set_operation: "keeps rel (set_operation J i s p c m)"
  unfolding set_operation_def by (rule keeps_in_store) (metis store_after.simps(5))

lemma keeps_project_resource: "keeps rel (project_resource r s p)"
  unfolding project_resource_def by (rule keeps_in_store) (metis store_after.simps(2))

lemma keeps_insert_operation: "keeps rel (in_store (insert_operation r))"
  by (rule keeps_in_store) (metis store_after.simps(4))

lemma keeps_insert_both: "keeps rel (in_store (insert_resource_and_operation r op a))"
  by (rule keeps_in_store) (metis store_after.simps(8))

lemma keeps_retry: "keeps rel (in_store (increment_operation_retry i))"
  by (rule keeps_in_store) (metis store_after.simps(7))

lemma keeps_terminalize: "keeps rel (in_store (terminalize_lifecycle t u))"
  by (rule keeps_in_store) (metis store_after.simps(6))

lemma keeps_attach: "keeps rel (in_store (attach_provider_reference p))"
  by (rule keeps_in_store) (metis store_after.simps(12))

lemma keeps_update_command: "keeps rel (in_store (update_agent_command i s a l p q))"
  by (rule keeps_in_store) (metis store_after.simps(14))

lemma keeps_observe: "keeps rel (in_store (update_resource_from_observation i u))"
  by (rule keeps_in_store) (metis store_after.simps(3))

lemma keeps_owner:
  "keeps rel (validate_provider_operation_owner i po)"
  "keeps rel (validate_lifecycle_provider_operation_owner J i action po)"
  unfolding validate_provider_operation_owner_def validate_lifecycle_provider_operation_owner_def
  by (intro keeps_if keeps_done keeps_fail)+

lemmas keeps_intros =
  keeps_done keeps_fail keeps_option keeps_read keeps_chain keeps_event keeps_provider keeps_metering
  keeps_best_effort keeps_repair keeps_set_operation keeps_project_resource keeps_insert_operation
  keeps_insert_both keeps_retry keeps_terminalize keeps_attach keeps_update_command keeps_observe
  keeps_if keeps_case_option keeps_case_sum keeps_owner keeps_attempt

lemma keeps_retry_or_fail: "keeps rel (retry_or_fail J i r e)"
  unfolding retry_or_fail_def by (intro keeps_intros)

lemma keeps_begin_create: "keeps rel (begin_create J p q)"
  unfolding begin_create_def by (intro keeps_intros)

lemma keeps_begin_lifecycle: "keeps rel (begin_lifecycle r i a)"
  unfolding begin_lifecycle_def by (intro keeps_intros)

end

text \<open>The handlers of agent evidence also move the fences.\<close>

locale evidence_actions = journal_actions J rel
  for J :: "'p journal" and rel :: "'p world \<Rightarrow> 'p world \<Rightarrow> bool" +
  assumes rel_agents: "rel w (w\<lparr>w_agents := a\<rparr>)"
    and rel_observations: "rel w (w\<lparr>w_observations := o'\<rparr>)"
begin

lemma keeps_fence_evidence: "keeps rel (fence_agent_evidence J i a e s st r)"
  by (auto simp: keeps_def fence_agent_evidence_def Let_def rel_refl rel_agents split: option.splits)

lemma keeps_fence_observation: "keeps rel (fence_agent_observation J i a e s)"
  by (auto simp: keeps_def fence_agent_observation_def Let_def rel_refl rel_observations split: option.splits)

end

end
