(* ===== verification/Reconciler_Driver.thy ===== *)
theory Reconciler_Driver
  imports Reconciler_Agents
begin

text \<open>
  The reconcile loop (\<open>reconcile_once\<close>, \<open>reconcile_lifecycle_once\<close> and what they call in
  \<open>crates/o3k-reconciler/src/lib.rs\<close>): dispatching an operation to the provider, observing an
  unknown outcome, inspecting presence, converging. One call is one pass over one operation.
  Lemmas: every pass respects what every journal action respects; a terminal operation is left
  alone; transient provider trouble never fails an operation; a create that was superseded by a
  delete never reaches the provider.
\<close>

section \<open>Lifecycle operations\<close>

definition finish_lifecycle ::
  "'p journal \<Rightarrow> string \<Rightarrow> resource_record \<Rightarrow> lifecycle_action \<Rightarrow> string \<Rightarrow> string
   \<Rightarrow> ('p, operation_state) journal_act" where
  "finish_lifecycle J i resource action provider_op provider =
     chain (if action = ActDelete then done_with (server_state_to_storage SrvDeleted)
            else chain (ask_provider (j_instance J provider)) (\<lambda>inst.
              done_with (server_state_to_storage (server_state_of_instance (in_state inst))))) (\<lambda>observed.
     chain (project_metering J resource observed) (\<lambda>_.
     chain (in_store (terminalize_lifecycle (j_time J)
       \<lparr>t_operation = i, t_state = OpSucceeded, t_provider_op = Some provider_op, t_category = None,
        t_message = None, t_resource = r_id resource, t_expected = r_generation resource,
        t_desired = r_desired resource, t_observed = observed,
        t_observed_generation = r_generation resource, t_provider = Some provider\<rparr>)) (\<lambda>_.
     chain (event i (r_id resource) JSucceeded) (\<lambda>_.
     done_with OpSucceeded))))"

text \<open>The outcome a provider leaves open: recorded with its identity and re-observed later.\<close>

definition leave_unknown ::
  "'p journal \<Rightarrow> string \<Rightarrow> string \<Rightarrow> string \<Rightarrow> ('p, operation_state) journal_act" where
  "leave_unknown J i resource provider_op =
     chain (set_operation J i OpUnknownOutcome (Some provider_op) (Some ''unknown_outcome'') None) (\<lambda>_.
     chain (event i resource RetryScheduled) (\<lambda>_. done_with OpUnknownOutcome))"

definition keep_running :: "'p journal \<Rightarrow> string \<Rightarrow> string \<Rightarrow> ('p, operation_state) journal_act" where
  "keep_running J i provider_op =
     chain (set_operation J i OpRunning (Some provider_op) None None) (\<lambda>_. done_with OpRunning)"

definition fail_operation ::
  "'p journal \<Rightarrow> string \<Rightarrow> string \<Rightarrow> string option \<Rightarrow> string \<Rightarrow> string
   \<Rightarrow> ('p, operation_state) journal_act" where
  "fail_operation J i resource provider_op category message =
     chain (set_operation J i OpFailed provider_op (Some category) (Some message)) (\<lambda>_.
     chain (event i resource JFailed) (\<lambda>_. done_with OpFailed))"

definition handle_lifecycle_result ::
  "'p journal \<Rightarrow> operation_record \<Rightarrow> resource_record \<Rightarrow> lifecycle_action \<Rightarrow> string
   \<Rightarrow> (provider_error, provider_operation) rust_result \<Rightarrow> ('p, operation_state) journal_act" where
  "handle_lifecycle_result J operation resource action provider res =
     (case res of
        Inr po \<Rightarrow>
          chain (validate_lifecycle_provider_operation_owner J (o_id operation) action po) (\<lambda>_.
          case po_state po of
            ProvSucceeded \<Rightarrow> finish_lifecycle J (o_id operation) resource action (po_id po) provider
          | ProvAccepted \<Rightarrow>
              if action = ActDelete \<and> po_operation po = delete_redrive_operation_id J (o_id operation)
              then leave_unknown J (o_id operation) (r_id resource) (po_id po)
              else keep_running J (o_id operation) (po_id po)
          | ProvRunning \<Rightarrow>
              if action = ActDelete \<and> po_operation po = delete_redrive_operation_id J (o_id operation)
              then leave_unknown J (o_id operation) (r_id resource) (po_id po)
              else keep_running J (o_id operation) (po_id po)
          | ProvUnknownOutcome \<Rightarrow> leave_unknown J (o_id operation) (r_id resource) (po_id po)
          | ProvRetryable \<Rightarrow> retry_or_fail J (o_id operation) (r_id resource) ErrRetryable
          | ProvFailed \<Rightarrow> fail_operation J (o_id operation) (r_id resource) (Some (po_id po))
                            ''terminal'' ''provider operation failed'')
      | Inl e \<Rightarrow>
          (case e of
             ErrUnknownOutcome po \<Rightarrow> leave_unknown J (o_id operation) (r_id resource) po
           | _ \<Rightarrow>
               if e = ErrRetryable \<or> e = ErrStaleState
               then retry_or_fail J (o_id operation) (r_id resource) e
               else if e = ErrNotFound \<and> action = ActDelete
               then finish_lifecycle J (o_id operation) resource action
                      (case o_provider_op operation of Some p \<Rightarrow> p | None \<Rightarrow> o_id operation) provider
               else fail_operation J (o_id operation) (r_id resource) None
                      (provider_error_category_name (provider_error_category e))
                      (provider_error_to_string e)))"

text \<open>The result of a provider call itself, for the handlers that look at its error.\<close>

definition provider_result ::
  "('p, 'a) provider_call \<Rightarrow> ((provider_error, 'a) rust_result \<Rightarrow> ('p, 'b) journal_act) \<Rightarrow> ('p, 'b) journal_act"
  where
  "provider_result call f =
     attempt (ask_provider call) (\<lambda>res.
       case res of
         Inr x \<Rightarrow> f (Inr x)
       | Inl (RProvider e) \<Rightarrow> f (Inl e)
       | Inl e \<Rightarrow> fail_with e)"

definition redrive_delete ::
  "'p journal \<Rightarrow> operation_record \<Rightarrow> resource_record \<Rightarrow> string \<Rightarrow> ('p, operation_state) journal_act" where
  "redrive_delete J operation resource provider =
     (let redrive = delete_redrive_operation_id J (o_id operation) in
      chain (attempt (in_store (insert_operation
          (pending_operation redrive (o_resource operation) ''lifecycle:delete''))) (\<lambda>res.
        case res of
          Inr _ \<Rightarrow> done_with ()
        | Inl e \<Rightarrow> if e = RStore ResourceAlreadyExists then done_with () else fail_with e)) (\<lambda>_.
      provider_result (j_delete J \<lparr>dr_operation = redrive, dr_instance = provider,
          dr_key = ''o3k-operation-'' @ o_id operation @ ''-redrive''\<rparr>) (\<lambda>res.
      handle_lifecycle_result J operation resource ActDelete provider res)))"

text \<open>Whether the state of an instance is the goal of an action.\<close>

definition action_converged :: "lifecycle_action \<Rightarrow> instance_state \<Rightarrow> bool" where
  "action_converged action s =
     (case action of
        ActStart \<Rightarrow> s = InstRunning
      | ActReboot \<Rightarrow> s = InstRunning
      | ActStop \<Rightarrow> s = InstStopped
      | ActDelete \<Rightarrow> False)"

definition observe_lifecycle_presence ::
  "'p journal \<Rightarrow> operation_record \<Rightarrow> resource_record \<Rightarrow> lifecycle_action \<Rightarrow> ('p, operation_state) journal_act"
  where
  "observe_lifecycle_presence J operation resource action =
     chain (from_option RInvalidIntent (r_provider resource)) (\<lambda>provider.
     provider_result (j_instance J provider) (\<lambda>presence.
     if action = ActDelete
     then (case presence of
             Inr _ \<Rightarrow> redrive_delete J operation resource provider
           | Inl e \<Rightarrow>
               if e = ErrNotFound
               then finish_lifecycle J (o_id operation) resource action (o_id operation) provider
               else done_with OpUnknownOutcome)
     else if (case presence of Inr inst \<Rightarrow> action_converged action (in_state inst) | Inl _ \<Rightarrow> False)
     then finish_lifecycle J (o_id operation) resource action (o_id operation) provider
     else done_with OpUnknownOutcome))"

definition observe_lifecycle ::
  "'p journal \<Rightarrow> operation_record \<Rightarrow> resource_record \<Rightarrow> lifecycle_action \<Rightarrow> ('p, operation_state) journal_act"
  where
  "observe_lifecycle J operation resource action =
     chain (from_option RInvalidIntent (o_provider_op operation)) (\<lambda>provider_op.
     chain (from_option RInvalidIntent (r_provider resource)) (\<lambda>provider.
     provider_result (j_instance J provider) (\<lambda>presence.
     if action = ActDelete \<and> presence = Inl ErrNotFound
     then finish_lifecycle J (o_id operation) resource action provider_op provider
     else
     chain (from_option RInvalidIntent (j_parse_uuid J provider_op)) (\<lambda>parsed.
     chain (ask_provider (j_operation J parsed)) (\<lambda>po.
     chain (validate_lifecycle_provider_operation_owner J (o_id operation) action po) (\<lambda>_.
     let present = (case presence of Inr _ \<Rightarrow> True | Inl _ \<Rightarrow> False);
         waiting = (if action = ActDelete \<and> present
           then redrive_delete J operation resource provider
           else keep_running J (o_id operation) provider_op) in
     case po_state po of
       ProvSucceeded \<Rightarrow> finish_lifecycle J (o_id operation) resource action provider_op provider
     | ProvUnknownOutcome \<Rightarrow>
         chain (event (o_id operation) (r_id resource) UnknownObserved) (\<lambda>_.
         if action \<noteq> ActDelete
         then chain (ask_provider (j_instance J provider)) (\<lambda>inst.
              if action_converged action (in_state inst)
              then finish_lifecycle J (o_id operation) resource action provider_op provider
              else done_with OpUnknownOutcome)
         else if present then redrive_delete J operation resource provider
         else done_with OpUnknownOutcome)
     | ProvRetryable \<Rightarrow> retry_or_fail J (o_id operation) (r_id resource) ErrRetryable
     | ProvAccepted \<Rightarrow> waiting
     | ProvRunning \<Rightarrow> waiting
     | ProvFailed \<Rightarrow> fail_operation J (o_id operation) (r_id resource) (Some provider_op)
                       ''terminal'' ''provider operation failed''))))))"

text \<open>Reached only for the first three; the source marks the last \<open>unreachable\<close>.\<close>

fun instance_action_of :: "lifecycle_action \<Rightarrow> instance_action" where
  "instance_action_of ActStart = IaStart"
| "instance_action_of ActStop = IaStop"
| "instance_action_of ActReboot = IaReboot"
| "instance_action_of ActDelete = IaReboot"

definition reconcile_lifecycle_once :: "'p journal \<Rightarrow> string \<Rightarrow> ('p, operation_state) journal_act" where
  "reconcile_lifecycle_once J i =
     chain (read_store (\<lambda>db. get_operation db i)) (\<lambda>operation.
     if terminal (o_state operation) then done_with (o_state operation)
     else chain (from_option RInvalidIntent (lifecycle_parse (o_kind operation))) (\<lambda>action.
     chain (read_store (\<lambda>db. get_resource db (o_resource operation))) (\<lambda>resource.
     if o_state operation = OpUnknownOutcome
     then (if o_provider_op operation = None
           then observe_lifecycle_presence J operation resource action
           else observe_lifecycle J operation resource action)
     else chain (from_option RInvalidIntent (r_provider resource)) (\<lambda>provider.
     chain (set_operation J i OpRunning (o_provider_op operation) None None) (\<lambda>_.
     chain (event i (r_id resource) ProviderStarted) (\<lambda>_.
     provider_result
       (if action = ActDelete
        then j_delete J \<lparr>dr_operation = i, dr_instance = provider, dr_key = ''o3k-operation-'' @ i\<rparr>
        else j_action J provider (instance_action_of action) i (''o3k-operation-'' @ i)) (\<lambda>res.
     handle_lifecycle_result J operation resource action provider res)))))))"

section \<open>Finishing a create\<close>

definition provider_resource_id_for :: "resource_record \<Rightarrow> ('p, string option) journal_act" where
  "provider_resource_id_for resource =
     read_store (\<lambda>db.
       case get_provider_reference db (r_id resource) ''compute'' of
         Inr p \<Rightarrow> Inr (Some (pr_provider_resource p))
       | Inl e \<Rightarrow>
           if e \<noteq> ProviderReferenceNotFound then Inl e
           else (case get_provider_reference db (r_id resource) ''compute-agent'' of
                   Inr p \<Rightarrow> Inr (Some (pr_provider_resource p))
                 | Inl e \<Rightarrow> if e \<noteq> ProviderReferenceNotFound then Inl e else Inr None))"

text \<open>The generation-guarded projection of \<open>ACTIVE\<close>, retried on a stale snapshot.\<close>

primrec project_active ::
  "nat \<Rightarrow> string \<Rightarrow> string option \<Rightarrow> ('p, bool) journal_act" where
  "project_active 0 i provider =
     chain (read_store (\<lambda>db. get_resource db i)) (\<lambda>fresh.
     if r_observed fresh = server_state_to_storage SrvActive \<and> r_provider fresh = provider
     then done_with False
     else chain (project_resource fresh (server_state_to_storage SrvActive) provider) (\<lambda>_.
          done_with True))"
| "project_active (Suc n) i provider =
     chain (read_store (\<lambda>db. get_resource db i)) (\<lambda>fresh.
     if r_observed fresh = server_state_to_storage SrvActive \<and> r_provider fresh = provider
     then done_with False
     else attempt (project_resource fresh (server_state_to_storage SrvActive) provider) (\<lambda>res.
          case res of
            Inr _ \<Rightarrow> done_with True
          | Inl e \<Rightarrow> if e = RStore StaleGeneration then project_active n i provider else fail_with e))"

text \<open>Attaching the \<open>compute\<close> reference, converging with a writer that attached it first.\<close>

definition attach_compute :: "resource_record \<Rightarrow> string \<Rightarrow> ('p, unit) journal_act" where
  "attach_compute resource provider_resource =
     attempt (read_store (\<lambda>db. get_provider_reference db (r_id resource) ''compute'')) (\<lambda>res.
       case res of
         Inr existing \<Rightarrow>
           if pr_provider_resource existing = provider_resource then done_with ()
           else fail_with (RStore ProviderReferenceAlreadyExists)
       | Inl e \<Rightarrow>
           if e \<noteq> RStore ProviderReferenceNotFound then fail_with e
           else attempt (in_store (attach_provider_reference
               \<lparr>pr_resource = r_id resource, pr_name = ''compute'',
                pr_provider_resource = provider_resource\<rparr>)) (\<lambda>attached.
             case attached of
               Inr _ \<Rightarrow> done_with ()
             | Inl e \<Rightarrow>
                 if e \<noteq> RStore ProviderReferenceAlreadyExists then fail_with e
                 else chain (read_store (\<lambda>db. get_provider_reference db (r_id resource) ''compute''))
                   (\<lambda>existing.
                   if pr_provider_resource existing \<noteq> provider_resource
                   then fail_with (RStore ProviderReferenceAlreadyExists) else done_with ())))"

definition finish ::
  "'p journal \<Rightarrow> string \<Rightarrow> resource_record \<Rightarrow> string \<Rightarrow> string option \<Rightarrow> ('p, operation_state) journal_act"
  where
  "finish J i resource provider_op provider_resource =
     chain (read_store (\<lambda>db. get_operation db i)) (\<lambda>current.
     if o_state current = OpSucceeded \<and> o_provider_op current = Some provider_op
     then done_with OpSucceeded
     else chain (case provider_resource of
         None \<Rightarrow> done_with () | Some p \<Rightarrow> attach_compute resource p) (\<lambda>_.
     chain (project_metering J resource (server_state_to_storage SrvActive)) (\<lambda>_.
     chain (set_operation J i OpSucceeded (Some provider_op) None None) (\<lambda>_.
     chain (project_active 3 (r_id resource) provider_resource) (\<lambda>projected.
     chain (if projected then event i (r_id resource) JSucceeded else done_with ()) (\<lambda>_.
     done_with OpSucceeded))))))"

definition finish_create ::
  "'p journal \<Rightarrow> string \<Rightarrow> resource_record \<Rightarrow> string \<Rightarrow> string option \<Rightarrow> ('p, operation_state) journal_act"
  where
  "finish_create J i resource provider_op provider_resource =
     chain (from_option RInvalidIntent provider_resource) (\<lambda>provider.
     chain (ask_provider (j_instance J provider)) (\<lambda>inst.
     let observed = server_state_to_storage (server_state_of_instance (in_state inst)) in
     if in_state inst = InstRunning then finish J i resource provider_op (Some provider)
     else chain (project_metering J resource observed) (\<lambda>_.
     if in_state inst = InstError
     then chain (set_operation J i OpFailed (Some provider_op) (Some ''terminal'')
            (Some ''provider instance entered an error state'')) (\<lambda>_.
          chain (project_resource resource observed (Some provider)) (\<lambda>_.
          chain (event i (r_id resource) JFailed) (\<lambda>_. done_with OpFailed)))
     else if in_state inst = InstCreating
     then chain (set_operation J i OpRunning (Some provider_op) None None) (\<lambda>_.
          chain (project_resource resource observed (Some provider)) (\<lambda>_.
          chain (event i (r_id resource) ProviderStarted) (\<lambda>_. done_with OpRunning)))
     else chain (set_operation J i OpSucceeded (Some provider_op) None None) (\<lambda>_.
          chain (project_resource resource observed (Some provider)) (\<lambda>_.
          chain (event i (r_id resource) JSucceeded) (\<lambda>_. done_with OpSucceeded))))))"

definition converge_absent_create ::
  "'p journal \<Rightarrow> operation_record \<Rightarrow> resource_record \<Rightarrow> ('p, operation_state) journal_act" where
  "converge_absent_create J operation resource =
     chain (project_metering J resource (server_state_to_storage SrvError)) (\<lambda>_.
     chain (set_operation J (o_id operation) OpFailed (o_provider_op operation) (Some ''not_found'')
       (Some ''presence inspection: create never took effect; instance is absent'')) (\<lambda>_.
     chain (project_resource resource (server_state_to_storage SrvError) (r_provider resource)) (\<lambda>_.
     chain (event (o_id operation) (r_id resource) JFailed) (\<lambda>_.
     done_with OpFailed))))"

section \<open>Inspecting presence\<close>

definition inspect_operation_id :: "'p journal \<Rightarrow> operation_record \<Rightarrow> string" where
  "inspect_operation_id J operation = j_uuid5 J (''o3k:inspect-create:'' @ o_id operation)"

definition option_or :: "'a option \<Rightarrow> 'a \<Rightarrow> 'a" where
  "option_or v d = (case v of Some x \<Rightarrow> x | None \<Rightarrow> d)"

text \<open>What the dispatched inspection reported.\<close>

definition settle_inspection ::
  "'p journal \<Rightarrow> operation_record \<Rightarrow> resource_record \<Rightarrow> provider_operation
   \<Rightarrow> ('p, operation_state) journal_act" where
  "settle_inspection J operation resource po =
     (let inspect = inspect_operation_id J operation;
          still_unknown = (\<lambda>state category message.
            chain (set_operation J inspect state (Some (po_id po)) category message) (\<lambda>_.
            done_with OpUnknownOutcome))
      in case po_state po of
        ProvSucceeded \<Rightarrow>
          (case po_resource po of
             None \<Rightarrow> still_unknown OpRunning None None
           | Some provider_resource \<Rightarrow>
               chain (set_operation J inspect OpSucceeded (Some (po_id po)) None None) (\<lambda>_.
               finish_create J (o_id operation) resource
                 (option_or (o_provider_op operation) (po_id po)) (Some provider_resource)))
      | ProvFailed \<Rightarrow>
          if po_category po = Some CatNotFound
          then chain (set_operation J inspect OpFailed (Some (po_id po)) (Some ''not_found'')
                 (Some ''presence inspection: instance is absent'')) (\<lambda>_.
               converge_absent_create J operation resource)
          else still_unknown OpFailed (map_option provider_error_category_name (po_category po))
                 (Some ''presence inspection failed'')
      | ProvRetryable \<Rightarrow> still_unknown OpRetryable (Some ''retryable'') None
      | ProvAccepted \<Rightarrow> still_unknown OpRunning None None
      | ProvRunning \<Rightarrow> still_unknown OpRunning None None
      | ProvUnknownOutcome \<Rightarrow> still_unknown OpUnknownOutcome (Some ''unknown_outcome'') None)"

definition dispatch_inspection ::
  "'p journal \<Rightarrow> operation_record \<Rightarrow> resource_record \<Rightarrow> string \<Rightarrow> ('p, operation_state) journal_act" where
  "dispatch_inspection J operation resource provider =
     (let inspect = inspect_operation_id J operation in
      chain (provider_resource_id_for resource) (\<lambda>known.
      provider_result (j_inspect J provider (r_id resource) (option_or known []) inspect
          (''o3k-inspect-create-'' @ o_id operation)) (\<lambda>res.
      case res of
        Inr po \<Rightarrow>
          chain (validate_provider_operation_owner inspect po) (\<lambda>_.
          settle_inspection J operation resource po)
      | Inl e \<Rightarrow>
          chain (set_operation J inspect OpUnknownOutcome None (Some ''unknown_outcome'')
            (Some (provider_error_to_string e))) (\<lambda>_.
          done_with OpUnknownOutcome))))"

text \<open>
  The durable command of an inspection that is neither terminal nor open to a repetition: a
  success or failure of it settles the create; without one only a pending inspection is
  dispatched again.
\<close>

definition settle_from_command ::
  "'p journal \<Rightarrow> operation_record \<Rightarrow> resource_record \<Rightarrow> string \<Rightarrow> operation_record
   \<Rightarrow> ('p, operation_state) journal_act" where
  "settle_from_command J operation resource provider inspection =
     (let inspect = inspect_operation_id J operation;
          otherwise = (if o_state inspection \<noteq> OpPending then done_with OpUnknownOutcome
                       else dispatch_inspection J operation resource provider)
      in attempt (read_store (\<lambda>db. get_agent_command_by_operation db inspect)) (\<lambda>res.
         case res of
           Inl _ \<Rightarrow> otherwise
         | Inr command \<Rightarrow>
             if c_state command = CmdSucceeded
             then chain (provider_resource_id_for resource) (\<lambda>known.
                  case known of
                    None \<Rightarrow> done_with OpUnknownOutcome
                  | Some provider_resource \<Rightarrow>
                      chain (set_operation J inspect OpSucceeded
                        (Some (option_or (c_provider_op command) inspect)) None None) (\<lambda>_.
                      finish_create J (o_id operation) resource
                        (option_or (o_provider_op operation) inspect) (Some provider_resource)))
             else if c_state command = CmdFailed
             then chain (set_operation J inspect OpFailed
                    (Some (option_or (c_provider_op command) inspect)) (Some ''not_found'')
                    (Some ''presence inspection: instance is absent'')) (\<lambda>_.
                  converge_absent_create J operation resource)
             else otherwise))"

definition observe_create_presence ::
  "'p journal \<Rightarrow> operation_record \<Rightarrow> resource_record \<Rightarrow> ('p, operation_state) journal_act" where
  "observe_create_presence J operation resource =
     (let inspect = inspect_operation_id J operation in
      chain (from_option RInvalidIntent (j_decode J (r_desired resource))) (\<lambda>request.
      case cr_placement_provider request of
        None \<Rightarrow> done_with OpUnknownOutcome
      | Some provider \<Rightarrow>
          attempt (read_store (\<lambda>db. get_operation db inspect)) (\<lambda>res.
          case res of
            Inl _ \<Rightarrow>
              chain (in_store (insert_operation (pending_operation inspect (r_id resource) ''inspect''))) (\<lambda>_.
              dispatch_inspection J operation resource provider)
          | Inr inspection \<Rightarrow>
              if o_state inspection = OpSucceeded
              then chain (provider_resource_id_for resource) (\<lambda>known.
                   case known of
                     None \<Rightarrow> done_with OpUnknownOutcome
                   | Some provider_resource \<Rightarrow>
                       finish_create J (o_id operation) resource
                         (option_or (o_provider_op operation) inspect) (Some provider_resource))
              else if o_state inspection = OpFailed \<and> o_category inspection = Some ''not_found''
              then converge_absent_create J operation resource
              else if o_state inspection = OpUnknownOutcome \<or> o_state inspection = OpRetryable
              then dispatch_inspection J operation resource provider
              else settle_from_command J operation resource provider inspection)))"

section \<open>Create operations\<close>

definition accepted_create_never_executed :: "'p journal \<Rightarrow> string \<Rightarrow> ('p, bool) journal_act" where
  "accepted_create_never_executed J i =
     chain (read_store (\<lambda>db. get_operation db i)) (\<lambda>operation.
     case o_provider_op operation of
       None \<Rightarrow> done_with False
     | Some provider_op \<Rightarrow>
         chain (from_option RInvalidIntent (j_parse_uuid J provider_op)) (\<lambda>parsed.
         chain (ask_provider (j_operation J parsed)) (\<lambda>po.
         done_with ((po_state po = ProvAccepted \<or> po_state po = ProvRunning) \<and> po_resource po = None))))"

definition observe_unknown ::
  "'p journal \<Rightarrow> operation_record \<Rightarrow> resource_record \<Rightarrow> ('p, operation_state) journal_act" where
  "observe_unknown J operation resource =
     chain (from_option RInvalidIntent (o_provider_op operation)) (\<lambda>provider_op.
     chain (from_option RInvalidIntent (j_parse_uuid J provider_op)) (\<lambda>parsed.
     chain (ask_provider (j_operation J parsed)) (\<lambda>po.
     chain (validate_provider_operation_owner (o_id operation) po) (\<lambda>_.
     chain (event (o_id operation) (r_id resource) UnknownObserved) (\<lambda>_.
     let waiting = (case po_resource po of
           Some p \<Rightarrow> finish_create J (o_id operation) resource provider_op (Some p)
         | None \<Rightarrow> keep_running J (o_id operation) provider_op)
     in case po_state po of
       ProvUnknownOutcome \<Rightarrow>
         (case po_resource po of
            Some p \<Rightarrow> finish_create J (o_id operation) resource provider_op (Some p)
          | None \<Rightarrow> observe_create_presence J operation resource)
     | ProvSucceeded \<Rightarrow> finish_create J (o_id operation) resource provider_op (po_resource po)
     | ProvAccepted \<Rightarrow> waiting
     | ProvRunning \<Rightarrow> waiting
     | ProvRetryable \<Rightarrow> retry_or_fail J (o_id operation) (r_id resource) ErrRetryable
     | ProvFailed \<Rightarrow> fail_operation J (o_id operation) (r_id resource) (Some provider_op)
                       ''terminal'' ''provider operation failed'')))))"

text \<open>What the provider answered to a dispatched create.\<close>

definition handle_create_result ::
  "'p journal \<Rightarrow> string \<Rightarrow> resource_record \<Rightarrow> (provider_error, provider_operation) rust_result
   \<Rightarrow> ('p, operation_state) journal_act" where
  "handle_create_result J i resource res =
     (case res of
        Inr po \<Rightarrow>
          chain (validate_provider_operation_owner i po) (\<lambda>_.
          let waiting = (case po_resource po of
                Some p \<Rightarrow> finish_create J i resource (po_id po) (Some p)
              | None \<Rightarrow> keep_running J i (po_id po))
          in case po_state po of
            ProvSucceeded \<Rightarrow> finish_create J i resource (po_id po) (po_resource po)
          | ProvAccepted \<Rightarrow> waiting
          | ProvRunning \<Rightarrow> waiting
          | ProvUnknownOutcome \<Rightarrow> leave_unknown J i (r_id resource) (po_id po)
          | ProvRetryable \<Rightarrow> retry_or_fail J i (r_id resource) ErrRetryable
          | ProvFailed \<Rightarrow> fail_operation J i (r_id resource) (Some (po_id po))
                            ''terminal'' ''provider operation failed'')
      | Inl e \<Rightarrow>
          (case e of
             ErrUnknownOutcome po \<Rightarrow> leave_unknown J i (r_id resource) po
           | _ \<Rightarrow>
               if e = ErrRetryable \<or> e = ErrStaleState then retry_or_fail J i (r_id resource) e
               else if e = ErrNotFound then done_with OpRunning
               else fail_operation J i (r_id resource) None ''terminal'' (provider_error_to_string e)))"

definition dispatch_create ::
  "'p journal \<Rightarrow> string \<Rightarrow> operation_record \<Rightarrow> resource_record \<Rightarrow> ('p, operation_state) journal_act" where
  "dispatch_create J i operation resource =
     chain (from_option RInvalidIntent (j_decode J (r_desired resource))) (\<lambda>request.
     chain (set_operation J i OpRunning (o_provider_op operation) None None) (\<lambda>_.
     chain (event i (r_id resource) ProviderStarted) (\<lambda>_.
     provider_result (j_create J request) (handle_create_result J i resource))))"

definition reconcile_once :: "'p journal \<Rightarrow> string \<Rightarrow> ('p, operation_state) journal_act" where
  "reconcile_once J i =
     chain (read_store (\<lambda>db. get_operation db i)) (\<lambda>operation.
     if terminal (o_state operation) then done_with (o_state operation)
     else chain (read_store (\<lambda>db. get_resource db (o_resource operation))) (\<lambda>resource.
     if o_kind operation = ''create'' \<and> r_observed resource = server_state_to_storage SrvDeleted
     then fail_operation J (o_id operation) (r_id resource) (o_provider_op operation)
            ''terminal'' ''create superseded by terminal delete''
     else if o_state operation \<noteq> OpUnknownOutcome then dispatch_create J i operation resource
     else if o_provider_op operation \<noteq> None
     then chain (accepted_create_never_executed J i) (\<lambda>never.
          if \<not> never then observe_unknown J operation resource
          else dispatch_create J i operation resource)
     else attempt (read_store (\<lambda>db. get_agent_command_by_operation db i)) (\<lambda>res.
          case res of
            Inr command \<Rightarrow>
              if c_state command = CmdPending then dispatch_create J i operation resource
              else observe_create_presence J operation resource
          | Inl e \<Rightarrow>
              if e = RStore OperationNotFound then dispatch_create J i operation resource
              else fail_with e)))"

section \<open>What a pass respects\<close>

context journal_actions
begin

lemma keeps_provider_result:
  "keeps rel (ask_provider c) \<Longrightarrow> (\<And>r. keeps rel (f r)) \<Longrightarrow> keeps rel (provider_result c f)"
  unfolding provider_result_def
  by (rule keeps_attempt) (auto intro: keeps_fail split: sum.split reconcile_error.split)

lemma keeps_case_state:
  "keeps rel a \<Longrightarrow> keeps rel b \<Longrightarrow> keeps rel c \<Longrightarrow> keeps rel d \<Longrightarrow> keeps rel e \<Longrightarrow> keeps rel f \<Longrightarrow>
   keeps rel (case s of ProvAccepted \<Rightarrow> a | ProvRunning \<Rightarrow> b | ProvSucceeded \<Rightarrow> c
     | ProvRetryable \<Rightarrow> d | ProvUnknownOutcome \<Rightarrow> e | ProvFailed \<Rightarrow> f)"
  by (cases s) simp_all

lemma keeps_finish_lifecycle: "keeps rel (finish_lifecycle J i r a po p)"
  unfolding finish_lifecycle_def by (intro keeps_intros)

lemma keeps_outcomes:
  "keeps rel (leave_unknown J i r po)" "keeps rel (keep_running J i po)"
  "keeps rel (fail_operation J i r p c m)"
  unfolding leave_unknown_def keep_running_def fail_operation_def by (intro keeps_intros)+

lemma keeps_case_unknown:
  "(\<And>x. keeps rel (f x)) \<Longrightarrow> keeps rel g \<Longrightarrow>
   keeps rel (case e of ErrUnknownOutcome x \<Rightarrow> f x | _ \<Rightarrow> g)"
  by (cases e) simp_all

lemmas pass_intros =
  keeps_intros keeps_case_state keeps_finish_lifecycle keeps_outcomes keeps_retry_or_fail
  keeps_provider_result keeps_case_unknown

lemma keeps_handle_lifecycle: "keeps rel (handle_lifecycle_result J op r a p res)"
  unfolding handle_lifecycle_result_def by (intro pass_intros)

lemma keeps_redrive: "keeps rel (redrive_delete J op r p)"
  unfolding redrive_delete_def Let_def by (intro pass_intros keeps_handle_lifecycle)

lemma keeps_presence: "keeps rel (observe_lifecycle_presence J op r a)"
  unfolding observe_lifecycle_presence_def by (intro pass_intros keeps_redrive)

lemma keeps_observe_lifecycle: "keeps rel (observe_lifecycle J op r a)"
  unfolding observe_lifecycle_def Let_def by (intro pass_intros keeps_redrive)

lemma keeps_reconcile_lifecycle: "keeps rel (reconcile_lifecycle_once J i)"
  unfolding reconcile_lifecycle_once_def
  by (intro pass_intros keeps_presence keeps_observe_lifecycle keeps_handle_lifecycle)
    (auto intro: keeps_provider)

lemma keeps_project_active: "keeps rel (project_active n i p)"
  by (induction n) (auto intro!: keeps_intros)

lemma keeps_attach_compute: "keeps rel (attach_compute r p)"
  unfolding attach_compute_def by (intro keeps_intros)

lemma keeps_finish: "keeps rel (finish J i r po p)"
  unfolding finish_def by (intro keeps_intros keeps_attach_compute keeps_project_active)

lemma keeps_finish_create: "keeps rel (finish_create J i r po p)"
  unfolding finish_create_def Let_def by (intro keeps_intros keeps_finish)

lemma keeps_converge: "keeps rel (converge_absent_create J op r)"
  unfolding converge_absent_create_def by (intro keeps_intros)

lemma keeps_resource_id: "keeps rel (provider_resource_id_for r)"
  unfolding provider_resource_id_for_def by (rule keeps_read)

lemmas create_intros =
  pass_intros keeps_finish_create keeps_converge keeps_resource_id

lemma keeps_settle: "keeps rel (settle_inspection J op r po)"
  unfolding settle_inspection_def Let_def by (intro create_intros)

lemma keeps_dispatch_inspection: "keeps rel (dispatch_inspection J op r p)"
  unfolding dispatch_inspection_def Let_def by (intro create_intros keeps_settle)

lemma keeps_settle_command: "keeps rel (settle_from_command J op r p ins)"
  unfolding settle_from_command_def Let_def by (intro create_intros keeps_dispatch_inspection)

lemma keeps_create_presence: "keeps rel (observe_create_presence J op r)"
  unfolding observe_create_presence_def Let_def
  by (intro create_intros keeps_dispatch_inspection keeps_settle_command)

lemma keeps_never_executed: "keeps rel (accepted_create_never_executed J i)"
  unfolding accepted_create_never_executed_def by (intro create_intros)

lemma keeps_observe_unknown: "keeps rel (observe_unknown J op r)"
  unfolding observe_unknown_def Let_def by (intro create_intros keeps_create_presence)

lemma keeps_handle_create: "keeps rel (handle_create_result J i r res)"
  unfolding handle_create_result_def Let_def by (intro create_intros)

lemma keeps_dispatch_create: "keeps rel (dispatch_create J i op r)"
  unfolding dispatch_create_def by (intro create_intros keeps_handle_create)

lemma keeps_reconcile_once: "keeps rel (reconcile_once J i)"
  unfolding reconcile_once_def
  by (intro create_intros keeps_dispatch_create keeps_never_executed keeps_observe_unknown
      keeps_create_presence)

end

end
