(* ===== verification/Reconciler_Guarantees.thy ===== *)
theory Reconciler_Guarantees
  imports Reconciler_Driver
begin

text \<open>
  What whole runs of the operation journal guarantee: the relation every step respects and
  sequences of intents, agent reports and passes; passes in which the provider decides
  nothing (the rules for conditions an action upholds); the small worlds the examples use.
\<close>

section \<open>Runs of the journal\<close>

datatype journal_step =
    BeginCreate string create_request
  | BeginLifecycle string string lifecycle_action
  | AgentUpdate operation_update
  | AgentAcceptance command_accepted
  | AgentObservation agent_observation
  | Reconcile string
  | ReconcileLifecycle string

primrec journal_after :: "'p journal \<Rightarrow> 'p world \<Rightarrow> journal_step \<Rightarrow> 'p world" where
  "journal_after J w (BeginCreate project request) = snd (begin_create J project request w)"
| "journal_after J w (BeginLifecycle resource i action) = snd (begin_lifecycle resource i action w)"
| "journal_after J w (AgentUpdate u) = snd (apply_agent_update J u w)"
| "journal_after J w (AgentAcceptance a) = snd (apply_agent_acceptance J a w)"
| "journal_after J w (AgentObservation ob) = snd (apply_agent_observation J ob w)"
| "journal_after J w (Reconcile i) = snd (reconcile_once J i w)"
| "journal_after J w (ReconcileLifecycle i) = snd (reconcile_lifecycle_once J i w)"

text \<open>Each step has the clock, the registry and the provider of its own moment.\<close>

fun journal_run :: "'p world \<Rightarrow> ('p journal \<times> journal_step) list \<Rightarrow> 'p world" where
  "journal_run w [] = w"
| "journal_run w ((J, x) # xs) = journal_run (journal_after J w x) xs"

text \<open>What is kept: the history of the store, the events so far, books that balance.\<close>

definition books_ok :: "'p world \<Rightarrow> bool" where
  "books_ok w = (case w_metering w of None \<Rightarrow> True | Some m \<Rightarrow> metering_inv m)"

definition journal_le :: "'p world \<Rightarrow> 'p world \<Rightarrow> bool" where
  "journal_le w w' \<longleftrightarrow>
     history_le (w_store w) (w_store w') \<and> (\<exists>es. w_events w' = w_events w @ es)
     \<and> (books_ok w \<longrightarrow> books_ok w')"

definition provider_sound :: "'p journal \<Rightarrow> bool" where
  "provider_sound J = provider_respects J journal_le"

lemma journal_le_store: "history_le (w_store w) db \<Longrightarrow> journal_le w (w\<lparr>w_store := db\<rparr>)"
  by (simp add: journal_le_def books_ok_def)

lemma journal_le_trans:
  assumes "journal_le a b" "journal_le b c"
  shows "journal_le a c"
  using assms history_le_trans [of "w_store a" "w_store b" "w_store c"]
  by (auto simp: journal_le_def)

text \<open>The relation for a provider whose calls respect it.\<close>

definition journal_le_for :: "'p journal \<Rightarrow> 'p world \<Rightarrow> 'p world \<Rightarrow> bool" where
  "journal_le_for J w w' \<longleftrightarrow> (provider_sound J \<longrightarrow> journal_le w w')"

interpretation journal_history: evidence_actions J "journal_le_for J" for J
proof
  show "provider_respects J (journal_le_for J)"
    by (auto simp: provider_respects_def journal_le_for_def keeps_def provider_sound_def)
  show "journal_le_for J w w" for w by (simp add: journal_le_for_def journal_le_def)
  show "journal_le_for J a b \<Longrightarrow> journal_le_for J b c \<Longrightarrow> journal_le_for J a c" for a b c
    using journal_le_trans by (auto simp: journal_le_for_def)
  show "journal_le_for J w (w\<lparr>w_store := store_after v (w_store w) x\<rparr>)" for w v x
    by (simp add: journal_le_for_def journal_le_store store_after_history)
  show "journal_le_for J w (w\<lparr>w_metering := Some m'\<rparr>)"
    if "w_metering w = Some m"
      "observe_resource_state (j_observation_id J) (j_now J) m k p r s = Inr m'" for w m m' k p r s
    using that observe_resource_state_inv by (auto simp: journal_le_for_def journal_le_def books_ok_def)
qed (simp_all add: journal_le_for_def journal_le_def books_ok_def)

lemma journal_after_le_for: "journal_le_for J w (journal_after J w x)"
  by (cases x)
    (simp_all add: keeps_snd journal_history.keeps_begin_create journal_history.keeps_begin_lifecycle
      journal_history.keeps_agent_update journal_history.keeps_agent_acceptance
      journal_history.keeps_agent_observation journal_history.keeps_reconcile_once
      journal_history.keeps_reconcile_lifecycle)

lemma journal_after_le: "provider_sound J \<Longrightarrow> journal_le w (journal_after J w x)"
  using journal_after_le_for [of J w x] by (simp add: journal_le_for_def)

lemma journal_run_le:
  "(\<And>J x. (J, x) \<in> set xs \<Longrightarrow> provider_sound J) \<Longrightarrow> journal_le w (journal_run w xs)"
proof (induction xs arbitrary: w)
  case (Cons y xs)
  obtain J x where y: "y = (J, x)" by (cases y)
  have "journal_le w (journal_after J w x)" by (rule journal_after_le) (use Cons.prems y in auto)
  moreover have "journal_le (journal_after J w x) (journal_run (journal_after J w x) xs)"
    by (rule Cons.IH) (use Cons.prems in auto)
  ultimately show ?case unfolding y by (simp add: journal_le_trans)
qed (simp add: journal_le_def)

section \<open>Passes that reach no verdict\<close>

lemma upholds_read:
  "(\<And>w x. Q w \<Longrightarrow> q (w_store w) = Inr x \<Longrightarrow> A x) \<Longrightarrow> upholds Q (read_store q) A"
  by (auto simp: upholds_def read_store_def split: sum.splits)

lemma upholds_provider_result:
  assumes "upholds Q (ask_provider c) B" "\<And>x. B x \<Longrightarrow> upholds Q (f (Inr x)) A"
    "\<And>w e. Q w \<Longrightarrow> fst (ask_provider c w) = Inl (RProvider e) \<Longrightarrow> upholds Q (f (Inl e)) A"
  shows "upholds Q (provider_result c f) A"
  unfolding upholds_def
proof (intro allI impI)
  fix w
  assume w: "Q w"
  obtain r w' where m: "ask_provider c w = (r, w')" by (cases "ask_provider c w")
  with assms(1) w have w': "Q w'" by (auto simp: upholds_def)
  have "upholds Q (case r of Inr x \<Rightarrow> f (Inr x) | Inl (RProvider e) \<Rightarrow> f (Inl e) | Inl e \<Rightarrow> fail_with e) A"
  proof (cases r)
    case (Inl e)
    then show ?thesis using assms(3) [OF w] m by (cases e) (simp_all add: upholds_fail)
  next
    case (Inr x)
    with assms(1) w m have "B x" by (auto simp: upholds_def)
    then show ?thesis using assms(2) Inr by simp
  qed
  with w' show "Q (snd (provider_result c f w)) \<and> (\<forall>x. fst (provider_result c f w) = Inr x \<longrightarrow> A x)"
    by (auto simp: provider_result_def attempt_def m upholds_def split: sum.splits reconcile_error.splits)
qed

text \<open>A condition on the store alone is upheld by events and metering.\<close>

lemma upholds_event: "upholds (\<lambda>w. S (w_store w)) (event i r k) (\<lambda>_. True)"
  by (simp add: upholds_def event_def)

lemma upholds_metering: "upholds (\<lambda>w. S (w_store w)) (project_metering J r s) (\<lambda>_. True)"
  by (auto simp: upholds_def project_metering_def split: option.splits sum.splits)

lemma upholds_in_store:
  "(\<And>db. S db \<Longrightarrow> S (snd (f db))) \<Longrightarrow> upholds (\<lambda>w. S (w_store w)) (in_store f) (\<lambda>_. True)"
  by (auto simp: upholds_def in_store_def split: prod.splits sum.splits) (metis snd_conv)+

text \<open>
  Nothing terminal is known of operation \<open>i\<close> nor of the inspection \<open>j\<close> that looks for its
  instance.
\<close>

definition undecided :: "string \<Rightarrow> string \<Rightarrow> operations_db \<Rightarrow> bool" where
  "undecided i j db \<longleftrightarrow>
     (\<exists>r. find_operation db i = Some r \<and> \<not> terminal (o_state r))
     \<and> (\<forall>q. find_operation db j = Some q \<longrightarrow> \<not> terminal (o_state q))
     \<and> (\<forall>c. get_agent_command_by_operation db j = Inr c \<longrightarrow> recoverable (c_state c))"

definition transient_error :: "provider_error \<Rightarrow> bool" where
  "transient_error e \<longleftrightarrow> is_unknown_outcome e"

definition inconclusive :: "provider_operation \<Rightarrow> bool" where
  "inconclusive po \<longleftrightarrow> po_state po \<noteq> ProvSucceeded \<and> po_state po \<noteq> ProvFailed \<and> po_resource po = None"

text \<open>A provider that decides nothing and records nothing terminal in the store.\<close>

definition indecisive :: "string \<Rightarrow> string \<Rightarrow> ('p, 'a) provider_call \<Rightarrow> ('a \<Rightarrow> bool) \<Rightarrow> bool" where
  "indecisive i j call A \<longleftrightarrow>
     (\<forall>db p. (\<forall>x. fst (call db p) = Inr x \<longrightarrow> A x)
        \<and> (\<forall>e. fst (call db p) = Inl e \<longrightarrow> transient_error e)
        \<and> (undecided i j db \<longrightarrow> undecided i j (fst (snd (call db p)))))"

definition provider_undecided :: "'p journal \<Rightarrow> string \<Rightarrow> string \<Rightarrow> bool" where
  "provider_undecided J i j \<longleftrightarrow>
     (\<forall>q. indecisive i j (j_create J q) inconclusive) \<and> (\<forall>q. indecisive i j (j_delete J q) inconclusive)
     \<and> (\<forall>a b c d. indecisive i j (j_action J a b c d) inconclusive)
     \<and> (\<forall>a. indecisive i j (j_instance J a) (\<lambda>_. False))
     \<and> (\<forall>a. indecisive i j (j_operation J a) inconclusive)
     \<and> (\<forall>a b c d e. indecisive i j (j_inspect J a b c d e) inconclusive)"

abbreviation undecided_world :: "string \<Rightarrow> string \<Rightarrow> 'p world \<Rightarrow> bool" where
  "undecided_world i j w \<equiv> undecided i j (w_store w)"

lemma upholds_ask:
  assumes "indecisive i j call A"
  shows "upholds (undecided_world i j) (ask_provider call) A"
proof -
  have "undecided i j (w_store w) \<Longrightarrow> undecided i j (fst (snd (call (w_store w) (w_provider w))))" for w :: "'a world"
    using assms by (simp add: indecisive_def)
  moreover have "fst (call db p) = Inr x \<Longrightarrow> A x" for db p x
    using assms by (simp add: indecisive_def)
  ultimately show ?thesis
    by (auto simp: upholds_def ask_provider_def split: prod.splits sum.splits) (metis fst_conv snd_conv)+
qed

lemma ask_transient:
  "indecisive i j call A \<Longrightarrow> fst (ask_provider call w) = Inl (RProvider e) \<Longrightarrow> transient_error e"
  by (auto simp: indecisive_def ask_provider_def split: prod.splits sum.splits) (metis fst_conv)

lemma not_terminal:
  "\<not> terminal OpPending" "\<not> terminal OpRunning" "\<not> terminal OpRetryable" "\<not> terminal OpUnknownOutcome"
  "terminal OpSucceeded" "terminal OpFailed"
  by (simp_all add: terminal_def)

lemma undecided_put:
  assumes "undecided i j db" "\<not> terminal (o_state r)"
  shows "undecided i j (put_operation r db)"
  using assms by (auto simp: undecided_def find_operation_put get_agent_command_by_operation_def)

lemma undecided_same:
  "undecided i j db \<Longrightarrow> operation_rows db' = operation_rows db \<Longrightarrow> command_rows db' = command_rows db \<Longrightarrow>
   undecided i j db'"
  by (simp add: undecided_def find_operation_def get_agent_command_by_operation_def)

lemma undecided_set:
  assumes "undecided i j db" "\<not> terminal s"
  shows "undecided i j (snd (update_operation now k s p c m db))"
proof (cases "find_operation db k")
  case (Some r)
  have touch: "undecided i j (touch_canonical k a b c db)" if "undecided i j db" for a b c db
    by (rule undecided_same [OF that]) (simp_all add: touch_canonical_def)
  show ?thesis
  proof (cases "terminal (o_state r)")
    case True
    with assms Some show ?thesis by (auto simp: update_operation_def Let_def)
  next
    case False
    then show ?thesis
      using assms Some by (auto simp: update_operation_def Let_def intro!: touch undecided_put)
  qed
qed (use assms in \<open>simp add: update_operation_def\<close>)

lemma upholds_set:
  "\<not> terminal s \<Longrightarrow> upholds (undecided_world i j) (set_operation J k s p c m) (\<lambda>_. True)"
  unfolding set_operation_def by (rule upholds_in_store) (rule undecided_set)

lemma upholds_increment: "upholds (undecided_world i j) (in_store (increment_operation_retry k)) (\<lambda>_. True)"
proof (rule upholds_in_store)
  fix db
  assume "undecided i j db"
  then show "undecided i j (snd (increment_operation_retry k db))"
    by (rule undecided_same) (simp_all add: increment_operation_retry_def Let_def)
qed

lemma upholds_insert_pending:
  "upholds (undecided_world i j) (in_store (insert_operation (pending_operation k r t))) (\<lambda>_. True)"
  by (rule upholds_in_store)
    (simp add: insert_operation_def undecided_put pending_operation_def terminal_def)

lemmas upholds_basic =
  upholds_done upholds_fail upholds_event upholds_metering upholds_set upholds_increment
  upholds_insert_pending

lemma upholds_retry: "upholds (undecided_world i j) (retry_or_fail J k r e) (\<lambda>s. \<not> terminal s)"
  unfolding retry_or_fail_def
  by (rule upholds_chain [OF upholds_increment], rule upholds_if;
      rule upholds_chain [OF upholds_set], simp add: terminal_def,
      rule upholds_chain [OF upholds_event]) (simp_all add: upholds_done terminal_def)

lemma upholds_left:
  "upholds (undecided_world i j) (leave_unknown J k r po) (\<lambda>s. \<not> terminal s)"
  "upholds (undecided_world i j) (keep_running J k po) (\<lambda>s. \<not> terminal s)"
  unfolding leave_unknown_def keep_running_def
  by (rule upholds_chain [OF upholds_set], simp add: terminal_def,
      (rule upholds_chain [OF upholds_event])?, simp add: upholds_done terminal_def)+

text \<open>The pass over a lifecycle operation.\<close>

lemma upholds_lifecycle_result:
  assumes "\<And>po. res = Inr po \<Longrightarrow> inconclusive po" "\<And>e. res = Inl e \<Longrightarrow> transient_error e"
  shows "upholds (undecided_world i j) (handle_lifecycle_result J op r a p res) (\<lambda>s. \<not> terminal s)"
proof (cases res)
  case (Inl e)
  with assms(2) show ?thesis
    by (cases e) (simp_all add: handle_lifecycle_result_def transient_error_def upholds_left upholds_retry)
next
  case (Inr po)
  have "upholds (undecided_world i j) (validate_lifecycle_provider_operation_owner J (o_id op) a po) (\<lambda>_. True)"
    unfolding validate_lifecycle_provider_operation_owner_def by (simp add: upholds_done upholds_fail)
  with Inr assms(1) show ?thesis
    by (cases "po_state po")
      (auto simp: handle_lifecycle_result_def inconclusive_def upholds_retry
        intro!: upholds_chain [where B = "\<lambda>_. True"] upholds_left)
qed

lemma indecisive_calls:
  assumes "provider_undecided J i j"
  shows "indecisive i j (j_create J q) inconclusive" "indecisive i j (j_delete J d) inconclusive"
    "indecisive i j (j_action J a b c d') inconclusive"
    "indecisive i j (j_instance J a) (\<lambda>_. False)"
    "indecisive i j (j_operation J a) inconclusive"
    "indecisive i j (j_inspect J a e f g h) inconclusive"
  using assms by (simp_all add: provider_undecided_def)

lemma upholds_calls:
  assumes "provider_undecided J i j"
  shows "upholds (undecided_world i j) (ask_provider (j_instance J a)) (\<lambda>_. False)"
    "upholds (undecided_world i j) (ask_provider (j_operation J b)) inconclusive"
  by (rule upholds_ask, rule indecisive_calls [OF assms])+

lemma upholds_result:
  assumes "indecisive i j call B"
    "\<And>r. (\<And>x. r = Inr x \<Longrightarrow> B x) \<Longrightarrow> (\<And>e. r = Inl e \<Longrightarrow> transient_error e) \<Longrightarrow>
       upholds (undecided_world i j) (f r) A"
  shows "upholds (undecided_world i j) (provider_result call f) A"
  by (rule upholds_provider_result [OF upholds_ask [OF assms(1)]])
    (auto intro: assms(2) dest: ask_transient [OF assms(1)])

lemma upholds_redrive:
  assumes "provider_undecided J i j"
  shows "upholds (undecided_world i j) (redrive_delete J op r p) (\<lambda>s. \<not> terminal s)"
  unfolding redrive_delete_def Let_def
proof (rule upholds_chain [where B = "\<lambda>_. True"])
  show "upholds (undecided_world i j) (attempt (in_store (insert_operation
      (pending_operation (delete_redrive_operation_id J (o_id op)) (o_resource op) ''lifecycle:delete'')))
      (\<lambda>res. case res of Inr _ \<Rightarrow> done_with ()
         | Inl e \<Rightarrow> if e = RStore ResourceAlreadyExists then done_with () else fail_with e)) (\<lambda>_. True)"
    by (rule upholds_attempt [OF upholds_insert_pending]) (simp_all add: upholds_done upholds_fail)
  show "upholds (undecided_world i j) (provider_result (j_delete J d)
      (handle_lifecycle_result J op r ActDelete p)) (\<lambda>s. \<not> terminal s)" for d
    by (rule upholds_result [OF indecisive_calls(2) [OF assms]]) (rule upholds_lifecycle_result)
qed

lemma upholds_presence:
  assumes "provider_undecided J i j"
  shows "upholds (undecided_world i j) (observe_lifecycle_presence J op r a) (\<lambda>s. \<not> terminal s)"
  unfolding observe_lifecycle_presence_def
proof (rule upholds_chain [where B = "\<lambda>_. True"])
  show "upholds (undecided_world i j) (from_option RInvalidIntent (r_provider r)) (\<lambda>_. True)"
    by (rule upholds_option) simp
  fix p
  show "upholds (undecided_world i j) (provider_result (j_instance J p) (\<lambda>presence.
     if a = ActDelete
     then (case presence of
             Inr _ \<Rightarrow> redrive_delete J op r p
           | Inl e \<Rightarrow> if e = ErrNotFound then finish_lifecycle J (o_id op) r a (o_id op) p
                      else done_with OpUnknownOutcome)
     else if (case presence of Inr inst \<Rightarrow> action_converged a (in_state inst) | Inl _ \<Rightarrow> False)
     then finish_lifecycle J (o_id op) r a (o_id op) p
     else done_with OpUnknownOutcome)) (\<lambda>s. \<not> terminal s)"
    by (rule upholds_result [OF indecisive_calls(4) [OF assms]])
      (auto simp: transient_error_def terminal_def intro!: upholds_done split: sum.splits)
qed

lemma upholds_observe_lifecycle:
  assumes "provider_undecided J i j"
  shows "upholds (undecided_world i j) (observe_lifecycle J op r a) (\<lambda>s. \<not> terminal s)"
proof -
  have owner: "upholds (undecided_world i j)
      (validate_lifecycle_provider_operation_owner J k b po) (\<lambda>_. True)" for k b po
    unfolding validate_lifecycle_provider_operation_owner_def by (simp add: upholds_done upholds_fail)
  have opt: "upholds (undecided_world i j) (from_option RInvalidIntent v) (\<lambda>_. True)" for v :: "string option"
    by (rule upholds_option) simp
  note calls = upholds_calls [OF assms]
  show ?thesis
    unfolding observe_lifecycle_def
    apply (rule upholds_chain [OF opt], rule upholds_chain [OF opt])
    apply (rule upholds_result [OF indecisive_calls(4) [OF assms]])
    apply (rule upholds_if, fastforce simp: transient_error_def)
    apply (rule upholds_chain [OF opt], rule upholds_chain [OF calls(2)], rule upholds_chain [OF owner])
    subgoal for op' p res parsed po
      by (cases "po_state po"; cases res)
        (auto simp: inconclusive_def not_terminal intro!: upholds_left upholds_retry upholds_done
          upholds_chain [OF upholds_event] upholds_chain [OF calls(1)])
    done
qed

lemma upholds_lifecycle_pass:
  assumes "provider_undecided J i j"
  shows "upholds (undecided_world i j) (reconcile_lifecycle_once J i) (\<lambda>s. \<not> terminal s)"
proof -
  have undone: "upholds (undecided_world i j) (read_store (\<lambda>db. get_operation db i)) (\<lambda>r. \<not> terminal (o_state r))"
    by (rule upholds_read) (auto simp: undecided_def get_operation_def)
  have rd: "upholds (undecided_world i j) (read_store q) (\<lambda>_. True)" for q :: "operations_db \<Rightarrow> (store_error, resource_record) rust_result"
    by (rule upholds_read) simp
  have opt: "upholds (undecided_world i j) (from_option RInvalidIntent v) (\<lambda>_. True)" for v :: "'b option"
    by (rule upholds_option) simp
  have call: "indecisive i j (if a = ActDelete then j_delete J d else j_action J b c e f) inconclusive"
    for a d b c e f using indecisive_calls [OF assms] by simp
  show ?thesis
    unfolding reconcile_lifecycle_once_def
    apply (rule upholds_chain [OF undone], rule upholds_if, simp)
    apply (rule upholds_chain [OF opt], rule upholds_chain [OF rd], rule upholds_if, rule upholds_if)
    apply (rule upholds_presence [OF assms], rule upholds_observe_lifecycle [OF assms])
    apply (rule upholds_chain [OF opt], rule upholds_chain [OF upholds_set], simp add: terminal_def)
    apply (rule upholds_chain [OF upholds_event], rule upholds_result [OF call])
    apply (rule upholds_lifecycle_result, blast+)
    done
qed

text \<open>The pass over a create.\<close>

lemma upholds_create_result:
  assumes "\<And>po. res = Inr po \<Longrightarrow> inconclusive po" "\<And>e. res = Inl e \<Longrightarrow> transient_error e"
  shows "upholds (undecided_world i j) (handle_create_result J k r res) (\<lambda>s. \<not> terminal s)"
proof (cases res)
  case (Inl e)
  with assms(2) show ?thesis
    by (cases e) (simp_all add: handle_create_result_def transient_error_def upholds_left upholds_retry)
next
  case (Inr po)
  have "upholds (undecided_world i j) (validate_provider_operation_owner k po) (\<lambda>_. True)"
    unfolding validate_provider_operation_owner_def by (simp add: upholds_done upholds_fail)
  with Inr assms(1) show ?thesis
    by (cases "po_state po")
      (auto simp: handle_create_result_def inconclusive_def upholds_retry Let_def
        intro!: upholds_chain [where B = "\<lambda>_. True"] upholds_left)
qed

lemma upholds_dispatch:
  assumes "provider_undecided J i j"
  shows "upholds (undecided_world i j) (dispatch_create J k op r) (\<lambda>s. \<not> terminal s)"
proof -
  have opt: "upholds (undecided_world i j) (from_option RInvalidIntent v) (\<lambda>_. True)" for v :: "'b option"
    by (rule upholds_option) simp
  show ?thesis
    unfolding dispatch_create_def
    apply (rule upholds_chain [OF opt], rule upholds_chain [OF upholds_set], simp add: not_terminal)
    apply (rule upholds_chain [OF upholds_event], rule upholds_result [OF indecisive_calls(1) [OF assms]])
    apply (rule upholds_create_result, blast+)
    done
qed

lemma upholds_settle:
  assumes "inconclusive po"
  shows "upholds (undecided_world i j) (settle_inspection J op r po) (\<lambda>s. \<not> terminal s)"
  using assms
  by (cases "po_state po")
    (auto simp: settle_inspection_def Let_def inconclusive_def not_terminal
      intro!: upholds_chain [OF upholds_set] upholds_done)

lemma upholds_inspection:
  assumes "provider_undecided J i j"
  shows "upholds (undecided_world i j) (dispatch_inspection J op r p) (\<lambda>s. \<not> terminal s)"
  unfolding dispatch_inspection_def Let_def
proof (rule upholds_chain [where B = "\<lambda>_. True"])
  show "upholds (undecided_world i j) (provider_resource_id_for r) (\<lambda>_. True)"
    unfolding provider_resource_id_for_def by (rule upholds_read) simp
  have owner: "upholds (undecided_world i j) (validate_provider_operation_owner k po) (\<lambda>_. True)" for k po
    unfolding validate_provider_operation_owner_def by (simp add: upholds_done upholds_fail)
  show "upholds (undecided_world i j) (provider_result
       (j_inspect J p (r_id r) (option_or known []) (inspect_operation_id J op)
          (''o3k-inspect-create-'' @ o_id op)) (\<lambda>res. case res of
        Inr po \<Rightarrow> chain (validate_provider_operation_owner (inspect_operation_id J op) po)
          (\<lambda>_. settle_inspection J op r po)
      | Inl e \<Rightarrow> chain (set_operation J (inspect_operation_id J op) OpUnknownOutcome None
          (Some ''unknown_outcome'') (Some (provider_error_to_string e))) (\<lambda>_. done_with OpUnknownOutcome)))
      (\<lambda>s. \<not> terminal s)" for known
    by (rule upholds_result [OF indecisive_calls(6) [OF assms]])
      (auto simp: not_terminal split: sum.splits
        intro!: upholds_chain [OF owner] upholds_chain [OF upholds_set] upholds_settle upholds_done)
qed

lemma upholds_from_command:
  assumes "provider_undecided J i j" "inspect_operation_id J op = j"
  shows "upholds (undecided_world i j) (settle_from_command J op r p ins) (\<lambda>s. \<not> terminal s)"
  unfolding settle_from_command_def Let_def assms(2)
proof (rule upholds_attempt [where B = "\<lambda>c. recoverable (c_state c)"])
  show "upholds (undecided_world i j) (read_store (\<lambda>db. get_agent_command_by_operation db j))
      (\<lambda>c. recoverable (c_state c))"
    by (rule upholds_read) (simp add: undecided_def)
qed (auto simp: recoverable_def not_terminal intro: upholds_done upholds_inspection [OF assms(1)])

lemma upholds_create_presence:
  assumes "provider_undecided J i j" "inspect_operation_id J op = j"
  shows "upholds (undecided_world i j) (observe_create_presence J op r) (\<lambda>s. \<not> terminal s)"
proof -
  have opt: "upholds (undecided_world i j) (from_option RInvalidIntent v) (\<lambda>_. True)" for v :: "'b option"
    by (rule upholds_option) simp
  have rd: "upholds (undecided_world i j) (read_store (\<lambda>db. get_operation db j)) (\<lambda>q. \<not> terminal (o_state q))"
    by (rule upholds_read) (auto simp: undecided_def get_operation_def split: option.splits)
  show ?thesis
    unfolding observe_create_presence_def Let_def assms(2)
    apply (rule upholds_chain [OF opt], rule upholds_case_option, simp add: upholds_done not_terminal)
    apply (rule upholds_attempt [OF rd])
    subgoal for request p q
      by (cases "o_state q")
        (auto simp: not_terminal intro: upholds_inspection [OF assms(1)] upholds_from_command [OF assms])
    apply (simp, rule upholds_chain [OF upholds_insert_pending], rule upholds_inspection [OF assms(1)])
    done
qed

lemma upholds_unknown:
  assumes "provider_undecided J i j" "inspect_operation_id J op = j"
  shows "upholds (undecided_world i j) (observe_unknown J op r) (\<lambda>s. \<not> terminal s)"
proof -
  have opt: "upholds (undecided_world i j) (from_option RInvalidIntent v) (\<lambda>_. True)" for v :: "'b option"
    by (rule upholds_option) simp
  have owner: "upholds (undecided_world i j) (validate_provider_operation_owner k po) (\<lambda>_. True)" for k po
    unfolding validate_provider_operation_owner_def by (simp add: upholds_done upholds_fail)
  show ?thesis
    unfolding observe_unknown_def
    apply (rule upholds_chain [OF opt], rule upholds_chain [OF opt])
    apply (rule upholds_chain [OF upholds_calls(2) [OF assms(1)]], rule upholds_chain [OF owner])
    apply (rule upholds_chain [OF upholds_event])
    subgoal for op' parsed po
      by (cases "po_state po")
        (auto simp: inconclusive_def Let_def intro!: upholds_left upholds_retry upholds_create_presence [OF assms])
    done
qed

lemma chain_read: "q (w_store w) = Inr x \<Longrightarrow> chain (read_store q) f w = f x w"
  by (simp add: chain_def read_store_def)

lemma create_pass_undecided:
  assumes J: "provider_undecided J i (inspect_operation_id J r)"
    and w: "undecided i (inspect_operation_id J r) (w_store w)"
    and r: "find_operation (w_store w) i = Some r"
    and alive: "o_kind r = ''create'' \<Longrightarrow>
      \<forall>res. get_resource (w_store w) (o_resource r) = Inr res \<longrightarrow> r_observed res \<noteq> ''DELETED''"
  shows "undecided i (inspect_operation_id J r) (w_store (snd (reconcile_once J i w)))
    \<and> (\<forall>s. fst (reconcile_once J i w) = Inr s \<longrightarrow> \<not> terminal s)"
proof (cases "get_resource (w_store w) (o_resource r)")
  case (Inl e)
  with w r show ?thesis
    by (auto simp: reconcile_once_def chain_def read_store_def get_operation_def undecided_def)
next
  case (Inr res)
  let ?j = "inspect_operation_id J r"
  let ?rest = "if o_state r \<noteq> OpUnknownOutcome then dispatch_create J i r res
     else if o_provider_op r \<noteq> None
     then chain (accepted_create_never_executed J i) (\<lambda>never.
          if \<not> never then observe_unknown J r res else dispatch_create J i r res)
     else attempt (read_store (\<lambda>db. get_agent_command_by_operation db i)) (\<lambda>res'.
          case res' of
            Inr command \<Rightarrow>
              if c_state command = CmdPending then dispatch_create J i r res
              else observe_create_presence J r res
          | Inl e \<Rightarrow>
              if e = RStore OperationNotFound then dispatch_create J i r res else fail_with e)"
  have never: "upholds (undecided_world i ?j) (accepted_create_never_executed J i) (\<lambda>_. True)"
    unfolding accepted_create_never_executed_def
    by (rule upholds_chain [where B = "\<lambda>_. True"], rule upholds_read, simp, rule upholds_case_option,
        simp add: upholds_done, rule upholds_chain [where B = "\<lambda>_. True"], rule upholds_option, simp,
        rule upholds_chain [OF upholds_calls(2) [OF J]], simp add: upholds_done)
  have rd: "upholds (undecided_world i ?j) (read_store (\<lambda>db. get_agent_command_by_operation db i)) (\<lambda>_. True)"
    by (rule upholds_read) simp
  have "upholds (undecided_world i ?j) ?rest (\<lambda>s. \<not> terminal s)"
    by (intro upholds_if upholds_dispatch [OF J] upholds_chain [OF never] upholds_unknown [OF J refl]
        upholds_attempt [OF rd])
      (auto intro: upholds_dispatch [OF J] upholds_create_presence [OF J refl] upholds_fail)
  moreover have "reconcile_once J i w = ?rest w"
  proof -
    have live: "\<not> terminal (o_state r)" using w r by (simp add: undecided_def)
    have "\<not> (o_kind r = ''create'' \<and> r_observed res = server_state_to_storage SrvDeleted)"
      using alive Inr by auto
    moreover have "get_operation (w_store w) i = Inr r" using r by (simp add: get_operation_def)
    ultimately show ?thesis
      unfolding reconcile_once_def
      by (simp only: chain_read [where q = "\<lambda>db. get_operation db i", OF \<open>get_operation (w_store w) i = Inr r\<close>]
          chain_read [where q = "\<lambda>db. get_resource db (o_resource r)", OF Inr] live if_False)
  qed
  ultimately show ?thesis using w by (simp add: upholds_def)
qed

section \<open>Samples\<close>

definition sample_request :: create_request where
  "sample_request = \<lparr>cr_operation = ''o1'', cr_server = ''r1'', cr_project = ''p1'', cr_name = ''vm'',
     cr_vcpus = 1, cr_memory_mib = 512, cr_flavor = ''f'', cr_disk_gib = 1, cr_image = None,
     cr_key_name = None, cr_keypair = None, cr_networks = [], cr_placement_provider = Some ''a1'',
     cr_placement_allocation = None, cr_config_drive = None, cr_idempotency_key = ''k''\<rparr>"

text \<open>A provider that cannot be reached, and a registry that knows one agent in one epoch.\<close>

definition unreachable :: "(unit, 'a) provider_call" where
  "unreachable db p = (Inl ErrRetryable, db, p)"

definition sample_journal :: "unit journal" where
  "sample_journal =
     \<lparr>j_create = \<lambda>_. unreachable, j_delete = \<lambda>_. unreachable, j_action = \<lambda>_ _ _ _. unreachable,
      j_instance = \<lambda>_. unreachable, j_operation = \<lambda>_. unreachable,
      j_inspect = \<lambda>_ _ _ _ _. unreachable, j_max_attempts = 3,
      j_registry = Some (\<lambda>a e. a = ''a1'' \<and> e = ''e2''),
      j_encode = \<lambda>_. Some ''{active}'', j_decode = \<lambda>_. Some sample_request,
      j_parse_uuid = Some, j_uuid5 = \<lambda>s. ''u:'' @ s, j_observation_id = \<lambda>s. s, j_now = 0,
      j_time = ''t''\<rparr>"

definition world_of :: "operations_db \<Rightarrow> unit world" where
  "world_of db = \<lparr>w_store = db, w_events = [], w_agents = Map.empty, w_observations = Map.empty,
     w_metering = None, w_provider = ()\<rparr>"

lemma sample_sound: "provider_sound sample_journal"
  by (simp add: provider_sound_def provider_respects_def keeps_def ask_provider_def sample_journal_def
      unreachable_def journal_le_def books_ok_def)

lemma sample_undecided: "provider_undecided sample_journal i j"
  by (simp add: provider_undecided_def indecisive_def sample_journal_def unreachable_def transient_error_def)

section \<open>Guarantees\<close>

text \<open>C16: The journal never rewrites history. Whatever sequence of intents, agent reports and
  reconcile passes runs, in any order and with any provider whose own writes respect the history,
  a terminal operation keeps its outcome, its resource and its recorded provider identity, the
  events recorded so far stay, and balanced metering books stay balanced.\<close>

theorem journal_keeps_history:
  assumes "\<And>J x. (J, x) \<in> set xs \<Longrightarrow> provider_sound J"
    and "find_operation (w_store w) i = Some r" "terminal (o_state r)"
  shows "(\<exists>r'. find_operation (w_store (journal_run w xs)) i = Some r' \<and> o_state r' = o_state r
            \<and> o_resource r' = o_resource r
            \<and> (o_provider_op r \<noteq> None \<longrightarrow> o_provider_op r' = o_provider_op r))
         \<and> (\<exists>es. w_events (journal_run w xs) = w_events w @ es)
         \<and> (books_ok w \<longrightarrow> books_ok (journal_run w xs))"
proof -
  have le: "journal_le w (journal_run w xs)" by (rule journal_run_le) (fact assms(1))
  then have "history_le (w_store w) (w_store (journal_run w xs))" by (simp add: journal_le_def)
  then obtain r' where "find_operation (w_store (journal_run w xs)) i = Some r'" "operation_le r r'"
    using assms(2) by (rule history_operation)
  with assms(3) le show ?thesis by (auto simp: operation_le_def journal_le_def)
qed

theorem journal_keeps_history_witness:
  "\<exists>r'. find_operation (w_store (journal_run (world_of closed_db)
       [(sample_journal, Reconcile ''o1''), (sample_journal, BeginLifecycle ''r1'' ''o2'' ActStop)])) ''o1''
     = Some r' \<and> o_state r' = OpSucceeded"
proof -
  let ?xs = "[(sample_journal, Reconcile ''o1''), (sample_journal, BeginLifecycle ''r1'' ''o2'' ActStop)]"
  have sound: "provider_sound J" if "(J, x) \<in> set ?xs" for J x using that by (auto simp: sample_sound)
  have closed: "find_operation (w_store (world_of closed_db)) ''o1''
    = Some (sample_operation\<lparr>o_kind := ''create'', o_state := OpSucceeded, o_provider_op := Some ''po''\<rparr>)"
    by (simp add: world_of_def closed_db_rows(1))
  from journal_keeps_history [where xs = ?xs, OF sound closed, THEN conjunct1]
  obtain r' where "find_operation (w_store (journal_run (world_of closed_db) ?xs)) ''o1'' = Some r'"
    "o_state r' = OpSucceeded"
    by (force simp: not_terminal simp del: journal_run.simps)
  then show ?thesis by blast
qed

text \<open>C17: Trouble in transit decides nothing. While the provider answers every call with a
  transient error or an inconclusive state, one pass over a create or a lifecycle operation of
  which nothing is decided leaves it so, whatever the retry budget: the operation is not
  terminal, neither is the inspection that looks for its instance, no command of the inspection
  is settled, and the pass returns no terminal state. Excepted is a create whose resource is
  recorded as deleted when the pass begins: the code terminates it, superseded by the delete.\<close>

theorem no_verdict_without_evidence:
  assumes "provider_undecided J i (inspect_operation_id J r)"
    and "undecided i (inspect_operation_id J r) (w_store w)"
    and "find_operation (w_store w) i = Some r"
    and "o_kind r = ''create'' \<Longrightarrow>
      \<forall>res. get_resource (w_store w) (o_resource r) = Inr res \<longrightarrow> r_observed res \<noteq> ''DELETED''"
    and "pass = reconcile_once J i w \<or> pass = reconcile_lifecycle_once J i w"
  shows "(\<exists>r'. find_operation (w_store (snd pass)) i = Some r' \<and> \<not> terminal (o_state r'))
    \<and> undecided i (inspect_operation_id J r) (w_store (snd pass))
    \<and> fst pass \<noteq> Inr OpSucceeded \<and> fst pass \<noteq> Inr OpFailed"
proof -
  have "undecided i (inspect_operation_id J r) (w_store (snd pass))
    \<and> (\<forall>s. fst pass = Inr s \<longrightarrow> \<not> terminal s)"
    using assms(5)
  proof
    assume "pass = reconcile_once J i w"
    then show ?thesis using create_pass_undecided [OF assms(1-4)] by simp
  next
    assume "pass = reconcile_lifecycle_once J i w"
    then show ?thesis
      using upholds_lifecycle_pass [OF assms(1)] assms(2) by (simp add: upholds_def)
  qed
  then show ?thesis by (auto simp: undecided_def terminal_def)
qed

theorem no_verdict_without_evidence_witness:
  "fst (reconcile_once sample_journal ''o1'' (world_of sample_db)) \<noteq> Inr OpFailed"
proof -
  let ?r = "sample_operation\<lparr>o_kind := ''create''\<rparr>"
  have r: "find_operation (w_store (world_of sample_db)) ''o1'' = Some ?r"
    by (simp add: world_of_def find_operation_def sample_db_rows sample_operation_def)
  have "undecided ''o1'' (inspect_operation_id sample_journal ?r) (w_store (world_of sample_db))"
    using r by (auto simp: undecided_def inspect_operation_id_def sample_journal_def world_of_def
        find_operation_def sample_db_rows sample_operation_def get_agent_command_by_operation_def
        sample_command_def not_terminal)
  from no_verdict_without_evidence [OF sample_undecided this r _ disjI1 [OF refl]] show ?thesis
    by (simp add: get_resource_def world_of_def sample_db_rows sample_operation_def sample_resource_def)
qed

end
