(* ===== verification/Reconciler_Evidence.thy ===== *)
theory Reconciler_Evidence
  imports Reconciler_Guarantees
begin

text \<open>
  What late, foreign and stale evidence can do to the journal: a create superseded by a delete,
  reports that are rejected without a trace, reports on operations that are already terminal,
  the retry counter at its width, the bound of a stored failure message, and an observation
  that arrives after a delete.
\<close>

section \<open>Superseded creates\<close>

text \<open>A delete is final for a create that is still in flight. A pass over a create whose
  resource is already recorded as deleted fails the operation and calls no provider: the
  provider and every resource stay as they were, and the failure is the only event.\<close>

theorem superseded_create_stays_deleted:
  assumes "find_operation (w_store w) i = Some r" "o_id r = i" "\<not> terminal (o_state r)"
    and "o_kind r = ''create''" "resource_rows (w_store w) (o_resource r) = Some res"
    and "r_observed res = server_state_to_storage SrvDeleted"
  shows "fst (reconcile_once J i w) = Inr OpFailed
    \<and> w_provider (snd (reconcile_once J i w)) = w_provider w
    \<and> resource_rows (w_store (snd (reconcile_once J i w))) = resource_rows (w_store w)
    \<and> (\<exists>r'. find_operation (w_store (snd (reconcile_once J i w))) i = Some r' \<and> o_state r' = OpFailed)
    \<and> w_events (snd (reconcile_once J i w))
        = w_events w @ [\<lparr>je_operation = i, je_resource = r_id res, je_kind = JFailed\<rparr>]"
proof -
  have "get_operation (w_store w) i = Inr r" "get_resource (w_store w) (o_resource r) = Inr res"
    using assms by (simp_all add: get_operation_def get_resource_def)
  then have "reconcile_once J i w = fail_operation J i (r_id res) (o_provider_op r)
      ''terminal'' ''create superseded by terminal delete'' w"
    using assms(2-6) by (simp add: reconcile_once_def chain_read)
  moreover have "find_operation (touch_canonical k a b c db) j = find_operation db j"
    "resource_rows (touch_canonical k a b c db) = resource_rows db" for k a b c db j
    by (simp_all add: touch_canonical_def find_operation_def)
  ultimately show ?thesis
    using assms(1,3)
    by (simp add: fail_operation_def chain_def set_operation_def in_store_def update_operation_def
        event_def done_with_def Let_def find_operation_put)
qed

theorem superseded_create_stays_deleted_witness:
  "fst (reconcile_once sample_journal ''o1''
     (world_of (sample_db\<lparr>resource_rows := [''r1'' \<mapsto> sample_resource\<lparr>r_observed := ''DELETED''\<rparr>]\<rparr>)))
   = Inr OpFailed"
  by (rule superseded_create_stays_deleted [where r = sample_operation
        and res = "sample_resource\<lparr>r_observed := ''DELETED''\<rparr>", THEN conjunct1])
    (simp_all add: world_of_def find_operation_def sample_db_rows sample_operation_def not_terminal
      sample_resource_def)

section \<open>Rejections\<close>

definition quiet :: "('p, 'a) journal_act \<Rightarrow> bool" where
  "quiet m \<longleftrightarrow> (\<forall>w. snd (m w) = w)"

definition rejects :: "('p, 'a) journal_act \<Rightarrow> 'p world \<Rightarrow> bool" where
  "rejects m w \<longleftrightarrow> (\<exists>e. m w = (Inl e, w))"

lemma quiet_basic:
  "quiet (read_store q)" "quiet (read_or_invalid q)" "quiet (done_with x)" "quiet (fail_with e)"
  by (auto simp: quiet_def read_store_def read_or_invalid_def done_with_def fail_with_def split: sum.splits)

lemma quiet_chain: "quiet m \<Longrightarrow> (\<And>x. quiet (f x)) \<Longrightarrow> quiet (chain m f)"
  by (auto simp: quiet_def chain_def split: prod.splits sum.splits) (metis snd_conv)+

lemma quiet_attempt: "quiet m \<Longrightarrow> (\<And>x. quiet (f x)) \<Longrightarrow> quiet (attempt m f)"
  by (auto simp: quiet_def attempt_def split: prod.splits) (metis snd_conv)

lemma quiet_check: "quiet (check_reference r i n)"
  unfolding check_reference_def
  by (rule quiet_attempt) (auto simp: quiet_basic split: sum.split)

lemma quiet_identity: "quiet (validate_agent_provider_identity c u)"
  unfolding validate_agent_provider_identity_def
  by (auto simp: quiet_basic quiet_check intro!: quiet_chain split: option.split)

lemma quiet_category: "quiet (update_error_category d c)"
  by (cases c) (auto simp: update_error_category_def from_option_def quiet_basic intro!: quiet_chain)

lemma rejects_fail: "rejects (fail_with e) w"
  by (simp add: rejects_def fail_with_def)

lemma rejects_chain:
  assumes "quiet m" "\<And>x. fst (m w) = Inr x \<Longrightarrow> rejects (f x) w"
  shows "rejects (chain m f) w"
proof (cases "fst (m w)")
  case (Inl e)
  with assms(1) have "m w = (Inl e, w)" by (metis prod.collapse quiet_def)
  then show ?thesis by (simp add: rejects_def chain_def)
next
  case (Inr x)
  with assms(1) have "m w = (Inr x, w)" by (metis prod.collapse quiet_def)
  with assms(2) [OF Inr] show ?thesis by (simp add: rejects_def chain_def)
qed

lemma rejects_first: "rejects m w \<Longrightarrow> rejects (chain m f) w"
  by (auto simp: rejects_def chain_def)

lemma rejects_fence:
  assumes "\<not> epoch_current J agent epoch"
  shows "rejects (fence_agent_evidence J i agent epoch s st r) w"
    "rejects (fence_agent_observation J i agent epoch s) w"
  using assms by (auto simp: rejects_def fence_agent_evidence_def fence_agent_observation_def)

definition entitled :: "'p journal \<Rightarrow> 'p world \<Rightarrow> string \<Rightarrow> string \<Rightarrow> string \<Rightarrow> bool" where
  "entitled J w i agent epoch =
     (epoch_current J agent epoch
      \<and> (case get_agent_command_by_operation (w_store w) i of
           Inr c \<Rightarrow> c_agent c = agent | Inl _ \<Rightarrow> False))"

lemma rejects_if: "(c \<Longrightarrow> rejects a w) \<Longrightarrow> (\<not> c \<Longrightarrow> rejects b w) \<Longrightarrow> rejects (if c then a else b) w"
  by simp

lemma read_or_invalid_result: "fst (read_or_invalid q w) = Inr x \<longleftrightarrow> q (w_store w) = Inr x"
  by (auto simp: read_or_invalid_def split: sum.splits)

text \<open>Evidence counts only from the agent an operation was assigned to, in its current
  epoch. A report on an operation whose latest command belongs to another agent, or that comes
  from an epoch the registry no longer holds current, is rejected and changes nothing: no
  record, no event, no fence, no metering.\<close>

theorem evidence_must_be_entitled:
  "(entitled J w (ou_operation u) (ou_agent u) (ou_epoch u) \<or> (\<exists>e. apply_agent_update J u w = (Inl e, w)))
   \<and> (entitled J w (ao_operation ob) (ao_agent ob) (ao_epoch ob)
       \<or> (\<exists>e. apply_agent_observation J ob w = (Inl e, w)))"
proof -
  have "rejects (apply_agent_update J u) w" if no: "\<not> entitled J w (ou_operation u) (ou_agent u) (ou_epoch u)"
    unfolding apply_agent_update_def Let_def
    apply (rule rejects_chain [OF quiet_basic(1)], rule rejects_if, rule rejects_fail)
    apply (rule rejects_chain [OF quiet_basic(2)], rule rejects_if, rule rejects_fail)
    apply (rule rejects_if, rule rejects_fail)
    apply (rule rejects_chain [OF quiet_category], rule rejects_if, rule rejects_fail)
    apply (rule rejects_chain [OF quiet_identity], rule rejects_first, rule rejects_fence)
    using no by (simp add: entitled_def read_or_invalid_result)
  moreover have "rejects (apply_agent_observation J ob) w"
    if no: "\<not> entitled J w (ao_operation ob) (ao_agent ob) (ao_epoch ob)"
    unfolding apply_agent_observation_def
    apply (rule rejects_chain [OF quiet_basic(1)], rule rejects_if, rule rejects_fail)
    apply (rule rejects_chain [OF quiet_basic(2)], rule rejects_if, rule rejects_fail)
    apply (rule rejects_if, rule rejects_fail, rule rejects_first, rule rejects_fence)
    using no by (simp add: entitled_def read_or_invalid_result)
  ultimately show ?thesis by (auto simp: rejects_def)
qed

section \<open>Late evidence\<close>

text \<open>The tables a late report must not touch.\<close>

definition frozen :: "operations_db \<Rightarrow> operations_db \<Rightarrow> bool" where
  "frozen db0 db \<longleftrightarrow>
     operation_rows db = operation_rows db0 \<and> resource_rows db = resource_rows db0
     \<and> reference_rows db = reference_rows db0 \<and> canonical_rows db = canonical_rows db0"

lemma upholds_fence:
  "upholds (\<lambda>w. S (w_store w)) (fence_agent_evidence J i a e s st r) (\<lambda>_. True)"
  by (auto simp: upholds_def fence_agent_evidence_def Let_def split: option.splits)

lemma upholds_quiet: "quiet m \<Longrightarrow> upholds (\<lambda>w. S (w_store w)) m (\<lambda>_. True)"
  by (simp add: upholds_def quiet_def)

lemma upholds_command:
  "upholds (\<lambda>w. frozen db0 (w_store w)) (in_store (update_agent_command i s a l p q)) (\<lambda>_. True)"
  by (rule upholds_in_store)
    (auto simp: update_agent_command_def frozen_def split: sum.splits)

text \<open>A report that arrives after the fact. Once an operation is terminal an agent's update
  or acceptance of it may close the command it belongs to, but leaves every operation, resource,
  provider reference and canonical record as it is, and answers with the recorded outcome.\<close>

theorem late_report_changes_no_outcome:
  assumes "find_operation (w_store w) (ou_operation u) = Some r" "terminal (o_state r)"
    and "find_operation (w_store w) (ca_operation a) = Some q" "terminal (o_state q)"
  shows "frozen (w_store w) (w_store (snd (apply_agent_update J u w)))
    \<and> (\<forall>s. fst (apply_agent_update J u w) = Inr s \<longrightarrow> s = o_state r)
    \<and> frozen (w_store w) (w_store (snd (apply_agent_acceptance J a w)))
    \<and> (\<forall>s. fst (apply_agent_acceptance J a w) = Inr s \<longrightarrow> s = o_state q)"
proof -
  let ?Q = "\<lambda>w'. frozen (w_store w) (w_store w')"
  have rest: "upholds ?Q (record_update J u r c cat p) (\<lambda>s. s = o_state r)" for c cat p
    unfolding record_update_def Let_def
    by (rule upholds_chain [OF upholds_command]) (simp add: assms(2) upholds_done)
  have "upholds ?Q (read_store (\<lambda>db. get_operation db (ou_operation u))) (\<lambda>x. x = r)"
    using assms(1) by (auto simp: upholds_def read_store_def frozen_def get_operation_def find_operation_def)
  then have "upholds ?Q (apply_agent_update J u) (\<lambda>s. s = o_state r)"
    unfolding apply_agent_update_def Let_def
    apply (rule upholds_chain)
    apply (rule upholds_if, rule upholds_fail)
    apply (rule upholds_chain [OF upholds_quiet [OF quiet_basic(2)]], rule upholds_if, rule upholds_fail)
    apply (rule upholds_if, rule upholds_fail)
    apply (rule upholds_chain [OF upholds_quiet [OF quiet_category]], rule upholds_if, rule upholds_fail)
    apply (rule upholds_chain [OF upholds_quiet [OF quiet_identity]])
    apply (rule upholds_chain [OF upholds_fence], rule upholds_if, simp add: upholds_done)
    apply (simp add: rest)
    done
  moreover have "upholds ?Q (read_store (\<lambda>db. get_operation db (ca_operation a))) (\<lambda>x. x = q)"
    using assms(3) by (auto simp: upholds_def read_store_def frozen_def get_operation_def find_operation_def)
  then have "upholds ?Q (apply_agent_acceptance J a) (\<lambda>s. s = o_state q)"
    unfolding apply_agent_acceptance_def
    apply (rule upholds_chain)
    apply (rule upholds_chain [OF upholds_quiet [OF quiet_basic(2)]], rule upholds_if, rule upholds_fail)
    apply (rule upholds_if, rule upholds_fail, rule upholds_if, rule upholds_fail)
    apply (rule upholds_chain [OF upholds_fence])
    apply (simp add: assms(4) upholds_done)
    done
  ultimately show ?thesis by (simp add: upholds_def frozen_def)
qed

definition sample_update :: operation_update where
  "sample_update = \<lparr>ou_operation = ''o1'', ou_resource = ''r1'', ou_state = AgSucceeded, ou_category = None,
     ou_message = None, ou_sequence = 7, ou_provider_resource = None, ou_agent = ''a1'', ou_epoch = ''e2''\<rparr>"

definition sample_acceptance :: command_accepted where
  "sample_acceptance = \<lparr>ca_command = ''c1'', ca_operation = ''o1'', ca_state = AgAccepted, ca_sequence = 7,
     ca_agent = ''a1'', ca_epoch = ''e2''\<rparr>"

theorem late_report_changes_no_outcome_witness:
  "frozen closed_db (w_store (snd (apply_agent_update sample_journal sample_update (world_of closed_db))))"
  using late_report_changes_no_outcome [where w = "world_of closed_db" and u = sample_update
      and a = sample_acceptance and J = sample_journal] closed_db_rows(1)
  by (simp add: sample_update_def sample_acceptance_def world_of_def not_terminal)

text \<open>The retry budget runs into the width of its counter. Once an operation was retried 255
  times the next retryable outcome neither schedules a retry nor parks the operation as
  unknown: the pass fails with a corrupt record, the operation keeps the state the dispatch gave
  it, no event is recorded, and so it is for every later retry.\<close>

theorem retry_budget_overflows:
  assumes "retry_rows (w_store w) i = Some n" "255 \<le> n" "n < i64_max"
  shows "fst (retry_or_fail J i r e w) = Inl (RStore Corrupt)
    \<and> operation_rows (w_store (snd (retry_or_fail J i r e w))) = operation_rows (w_store w)
    \<and> retry_rows (w_store (snd (retry_or_fail J i r e w))) i = Some (n + 1)
    \<and> w_events (snd (retry_or_fail J i r e w)) = w_events w"
  using assms
  by (simp add: retry_or_fail_def chain_def in_store_def increment_operation_retry_def Let_def)

theorem retry_budget_overflows_witness:
  "fst (retry_or_fail sample_journal ''o1'' ''r1'' ErrRetryable
     (world_of (sample_db\<lparr>retry_rows := [''o1'' \<mapsto> 255]\<rparr>))) = Inl (RStore Corrupt)"
  by (rule retry_budget_overflows [where n = 255, THEN conjunct1]) (simp_all add: world_of_def i64_max_def)

section \<open>Failure messages\<close>

text \<open>C18: A persisted failure reason is bounded. Whatever an agent reports, the message stored is
  not empty and has at most 243 characters, counted as the source counts them.\<close>

theorem failure_message_bounded:
  "bounded_agent_failure_message raw \<noteq> [] \<and> length (utf8_chars (bounded_agent_failure_message raw)) \<le> 243"
proof -
  have nonempty: "concat (take 240 (utf8_chars t)) \<noteq> []" if "t \<noteq> []" for t
    using that by (cases t) simp_all
  have dots: "length (utf8_chars ''...'') = 3" "\<not> continuation CHR ''.''" by (simp_all add: continuation_def)
  have "length (utf8_chars (concat (take 240 (utf8_chars t)))) \<le> 243" for t
    by (simp add: utf8_chars_take)
  moreover have "length (utf8_chars (concat (take 240 (utf8_chars t)) @ ''...'')) \<le> 243" for t
    using utf8_chars_snoc [OF dots(2), of "concat (take 240 (utf8_chars t))" "''..''"] dots(1)
    by (simp add: utf8_chars_take)
  moreover have "length (utf8_chars ''agent operation failed'') \<le> 243"
    by (simp add: continuation_def)
  moreover obtain t where "bounded_agent_failure_message raw =
      (if t = [] then ''agent operation failed''
       else if length (utf8_chars t) > 240 then concat (take 240 (utf8_chars t)) @ ''...''
       else concat (take 240 (utf8_chars t)))"
    unfolding bounded_agent_failure_message_def Let_def by blast
  ultimately show ?thesis
    using nonempty [of t] by (cases "t = []"; cases "240 < length (utf8_chars t)")
      (simp_all del: take_all_iff take_all)
qed

section \<open>A late observation\<close>

lemma best_effort_store: "w_store (snd (project_metering_best_effort J r s w)) = w_store w"
  "fst (project_metering_best_effort J r s w) = Inr ()"
  by (auto simp: project_metering_best_effort_def attempt_def done_with_def project_metering_def
      split: option.splits sum.splits prod.splits)

lemma chain_done: "chain (done_with x) f w = f x w"
  by (simp add: chain_def done_with_def)

lemma chain_best_effort:
  "chain (project_metering_best_effort J r s) f w = f () (snd (project_metering_best_effort J r s w))"
  using best_effort_store(2) [of J r s w]
  by (auto simp: chain_def split: prod.splits sum.splits)

lemma chain_observe:
  assumes "update_resource_from_observation i u (w_store w) = (Inr x, db)"
  shows "chain (in_store (update_resource_from_observation i u)) f w = f x (w\<lparr>w_store := db\<rparr>)"
  using assms by (simp add: chain_def in_store_def)

text \<open>C19: A deleted server can come back to life. When a resource is recorded as deleted, a
  successful observation of an instance running, delivered late for the terminal operation that
  created it, is applied like any other: the resource is recorded as active again, although no
  transition of the server lifecycle leaves the deleted state.\<close>

theorem late_observation_revives_deleted:
  assumes op: "find_operation (w_store w) (ao_operation ob) = Some r" "terminal (o_state r)"
      "o_resource r = ao_resource ob"
    and command: "get_agent_command_by_operation (w_store w) (ao_operation ob) = Inr c"
      "c_agent c = ao_agent ob" "c_resource c = ao_resource ob"
    and report: "ao_operation_state ob = AgSucceeded" "ao_state ob = InstRunning"
      "valid_evidence (ao_agent ob) (ao_epoch ob) (ao_sequence ob)"
      "epoch_current J (ao_agent ob) (ao_epoch ob)" "ao_provider_resource ob = None"
      "i64_of_u64 (ao_sequence ob) = Some n"
    and fresh: "w_observations w (ao_operation ob) = None" "watermark_rows (w_store w) (ao_resource ob) = None"
    and deleted: "resource_rows (w_store w) (ao_resource ob) = Some res" "r_provider res = None"
      "r_observed res = server_state_to_storage SrvDeleted" "0 \<le> r_generation res"
  shows "\<exists>res'. resource_rows (w_store (snd (apply_agent_observation J ob w))) (ao_resource ob) = Some res'
    \<and> r_observed res' = server_state_to_storage SrvActive"
proof -
  let ?w = "w\<lparr>w_observations := (w_observations w)
              (ao_operation ob \<mapsto> \<lparr>of_agent = ao_agent ob, of_epoch = ao_epoch ob, of_sequence = ao_sequence ob\<rparr>)\<rparr>"
  let ?res = "res\<lparr>r_id := ao_resource ob, r_generation := r_generation res + 1,
     r_observed := server_state_to_storage SrvActive, r_observed_generation := r_generation res\<rparr>"
  have fence: "fence_agent_observation J (ao_operation ob) (ao_agent ob) (ao_epoch ob) (ao_sequence ob) w
    = (Inr New, ?w)"
    using report fresh by (simp add: fence_agent_observation_def)
  have "apply_agent_observation J ob w = record_observation_of J ob r ?w"
    using op command report fence
    by (simp add: apply_agent_observation_def chain_def read_store_def read_or_invalid_def get_operation_def)
  moreover obtain db where db: "update_resource_from_observation (ao_resource ob)
       \<lparr>ou_expected = r_generation res, ou_desired = r_desired res, ou_observed = ''ACTIVE'',
        ou_observed_generation = r_generation res, ou_provider = None,
        ou_agent_epoch = ao_epoch ob, ou_observation_sequence = ao_sequence ob\<rparr>
       (w_store ?w) = (Inr ?res, db)" "resource_rows db (ao_resource ob) = Some ?res"
    using deleted report fresh
    by (simp add: update_resource_from_observation_def already_observed_def guarded_update_def
        put_resource_def get_resource_def)
  moreover have "record_observation_of J ob r ?w
      = event (ao_operation ob) (ao_resource ob) UnknownObserved
          (snd (project_metering_best_effort J ?res (r_observed ?res) (?w\<lparr>w_store := db\<rparr>)))"
    unfolding record_observation_of_def
    using deleted op report
    by (simp add: chain_observe [OF db(1)] chain_read get_resource_def or_else_def ensure_optional_reference_def
        chain_done chain_best_effort)
  ultimately show ?thesis by (simp add: event_def best_effort_store)
qed

definition sample_observation :: agent_observation where
  "sample_observation = \<lparr>ao_agent = ''a1'', ao_epoch = ''e2'', ao_resource = ''r1'',
     ao_provider_resource = None, ao_state = InstRunning, ao_operation = ''o1'',
     ao_operation_state = AgSucceeded, ao_sequence = 7\<rparr>"

text \<open>The create succeeded long ago, the server was deleted since.\<close>

definition deleted_db :: operations_db where
  "deleted_db = sample_db
     \<lparr>operation_rows := [(''o1'', sample_operation\<lparr>o_state := OpSucceeded\<rparr>)],
      resource_rows := [''r1'' \<mapsto> sample_resource\<lparr>r_generation := 3, r_observed := ''DELETED''\<rparr>]\<rparr>"

theorem late_observation_revives_deleted_witness:
  "\<exists>res. resource_rows (w_store (snd (apply_agent_observation sample_journal sample_observation
       (world_of deleted_db)))) ''r1'' = Some res \<and> r_observed res = ''ACTIVE''"
proof -
  have ao: "ao_resource sample_observation = ''r1''" by (simp add: sample_observation_def)
  have wm: "watermark_rows sample_db = Map.empty"
    by (simp add: sample_db_def store_simps sample_simps i64_of_u64_def i64_max_def)
  have ve: "valid_evidence ''a1'' ''e2'' 7" by code_simp
  have sq: "i64_of_u64 7 = Some 7" by code_simp
  have "\<exists>res. resource_rows (w_store (snd (apply_agent_observation sample_journal sample_observation
       (world_of deleted_db)))) (ao_resource sample_observation) = Some res
       \<and> r_observed res = server_state_to_storage SrvActive"
    by (rule late_observation_revives_deleted [where r = "sample_operation\<lparr>o_state := OpSucceeded\<rparr>"
          and c = sample_command and n = 7
          and res = "sample_resource\<lparr>r_generation := 3, r_observed := ''DELETED''\<rparr>"])
      (simp_all add: sample_observation_def world_of_def deleted_db_def find_operation_def
        sample_operation_def sample_command_def sample_resource_def not_terminal wm ve sq
        get_agent_command_by_operation_def sample_db_rows epoch_current_def sample_journal_def)
  then show ?thesis by (simp add: ao)
qed

end
