(* ===== verification/Store_Network_Plans.thy ===== *)
theory Store_Network_Plans
  imports Store_Coordination Store_Operations
begin

text \<open>
  Durable network plan work in the SQLite store (\<open>crates/o3k-store/src/domain/records.rs\<close>,
  \<open>sqlite/core.rs\<close>, the table of \<open>migrations/0053_network_plan_work.sql\<close>): the commands a
  network controller dispatches to hosts, their states and revisions, and the writes that are
  fenced by the controller's work lease on its realm. The lease table is that of
  \<open>Store_Coordination\<close>; the clock is an argument, in milliseconds. A row carries its
  \<open>created_at\<close> in seconds, which orders the listings. Each operation is one transaction.
  Lemmas: what any sequence of operations keeps of a command, replays, the supersession, and
  that a controller that lost its lease never writes again.
\<close>

section \<open>Records\<close>

datatype plan_state = PlPending | PlAccepted | PlRunning | PlRetryable | PlUnknownOutcome | PlSucceeded | PlFailed

fun plan_state_as_str :: "plan_state \<Rightarrow> string" where
  "plan_state_as_str PlPending = ''pending''"
| "plan_state_as_str PlAccepted = ''accepted''"
| "plan_state_as_str PlRunning = ''running''"
| "plan_state_as_str PlRetryable = ''retryable''"
| "plan_state_as_str PlUnknownOutcome = ''unknown_outcome''"
| "plan_state_as_str PlSucceeded = ''succeeded''"
| "plan_state_as_str PlFailed = ''failed''"

definition plan_state_parse :: "string \<Rightarrow> plan_state option" where
  "plan_state_parse v =
     (if v = ''pending'' then Some PlPending else if v = ''accepted'' then Some PlAccepted
      else if v = ''running'' then Some PlRunning else if v = ''retryable'' then Some PlRetryable
      else if v = ''unknown_outcome'' then Some PlUnknownOutcome
      else if v = ''succeeded'' then Some PlSucceeded else if v = ''failed'' then Some PlFailed
      else None)"

definition plan_terminal :: "plan_state \<Rightarrow> bool" where
  "plan_terminal s = (s = PlSucceeded \<or> s = PlFailed)"

fun plan_successors :: "plan_state \<Rightarrow> plan_state list" where
  "plan_successors PlPending = [PlAccepted, PlRunning, PlRetryable, PlUnknownOutcome, PlSucceeded, PlFailed]"
| "plan_successors PlAccepted = [PlRunning, PlRetryable, PlUnknownOutcome, PlSucceeded, PlFailed]"
| "plan_successors PlRunning = [PlRetryable, PlUnknownOutcome, PlSucceeded, PlFailed]"
| "plan_successors PlRetryable = [PlRunning, PlUnknownOutcome, PlSucceeded, PlFailed]"
| "plan_successors PlUnknownOutcome = [PlRunning, PlRetryable, PlSucceeded, PlFailed]"
| "plan_successors PlSucceeded = []"
| "plan_successors PlFailed = []"

definition can_transition_to :: "plan_state \<Rightarrow> plan_state \<Rightarrow> bool" where
  "can_transition_to s next = (s = next \<or> next \<in> set (plan_successors s))"

record plan_work =
  np_command :: string
  np_operation :: string
  np_key :: string
  np_host :: string
  np_agent :: string
  np_agent_epoch :: string
  np_controller :: string
  np_controller_epoch :: string
  np_token :: u64
  np_deadline :: u64
  np_fingerprint :: string
  np_snapshot :: string
  np_state :: plan_state
  np_revision :: u64
  np_outcome :: "string option"

definition same_command_identity :: "plan_work \<Rightarrow> plan_work \<Rightarrow> bool" where
  "same_command_identity a b =
     (np_command a = np_command b \<and> np_operation a = np_operation b \<and> np_key a = np_key b
      \<and> np_host a = np_host b \<and> np_agent a = np_agent b \<and> np_agent_epoch a = np_agent_epoch b
      \<and> np_controller a = np_controller b \<and> np_controller_epoch a = np_controller_epoch b
      \<and> np_token a = np_token b \<and> np_deadline a = np_deadline b
      \<and> np_fingerprint a = np_fingerprint b \<and> np_snapshot a = np_snapshot b)"

definition same_desired_identity :: "plan_work \<Rightarrow> plan_work \<Rightarrow> bool" where
  "same_desired_identity a b =
     (np_command a = np_command b \<and> np_operation a = np_operation b \<and> np_key a = np_key b
      \<and> np_host a = np_host b \<and> np_agent a = np_agent b \<and> np_agent_epoch a = np_agent_epoch b
      \<and> np_fingerprint a = np_fingerprint b)"

datatype plan_error = PlanFenced | PlanCorrupt | PlanNotFound

definition plan_validate :: "plan_work \<Rightarrow> (plan_error, unit) rust_result" where
  "plan_validate w =
     (if np_command w = [] \<or> np_key w = [] \<or> np_host w = [] \<or> np_agent w = []
         \<or> np_agent_epoch w = [] \<or> np_controller w = [] \<or> np_controller_epoch w = []
         \<or> np_fingerprint w = [] \<or> np_snapshot w = [] \<or> np_deadline w = 0
      then Inl PlanCorrupt
      else if np_revision w \<noteq> 0 \<or> np_state w \<noteq> PlPending \<or> np_outcome w \<noteq> None
      then Inl PlanCorrupt else Inr ())"

type_synonym plan_table = "(int \<times> plan_work) list"
type_synonym 'a plan_result = "(plan_error, 'a) rust_result \<times> plan_table"

definition find_work :: "plan_table \<Rightarrow> string \<Rightarrow> plan_work option" where
  "find_work db i = map_option snd (find (\<lambda>r. np_command (snd r) = i) db)"

definition get_network_plan_work :: "plan_table \<Rightarrow> string \<Rightarrow> (plan_error, plan_work) rust_result" where
  "get_network_plan_work db i =
     (case find_work db i of None \<Rightarrow> Inl PlanNotFound | Some w \<Rightarrow> Inr w)"

text \<open>\<open>command_id\<close> and \<open>idempotency_key\<close> are unique; \<open>CURRENT_TIMESTAMP\<close> has whole seconds.\<close>

definition unique_violation :: "plan_table \<Rightarrow> plan_work \<Rightarrow> bool" where
  "unique_violation db w = list_ex (\<lambda>r. np_command (snd r) = np_command w \<or> np_key (snd r) = np_key w) db"

definition fits_columns :: "plan_work \<Rightarrow> bool" where
  "fits_columns w = (i64_of_u64 (np_token w) \<noteq> None \<and> i64_of_u64 (np_deadline w) \<noteq> None
                     \<and> i64_of_u64 (np_revision w) \<noteq> None)"

definition add_row :: "int \<Rightarrow> plan_work \<Rightarrow> plan_table \<Rightarrow> plan_table" where
  "add_row t w db = db @ [(t div 1000, w)]"

text \<open>\<open>UPDATE ... SET state, outcome, revision=revision+1 WHERE command_id=? AND revision=?\<close>\<close>

definition set_state :: "string \<Rightarrow> plan_state \<Rightarrow> string option \<Rightarrow> plan_table \<Rightarrow> plan_table" where
  "set_state i s outcome db =
     map (\<lambda>r. if np_command (snd r) = i
       then (fst r, (snd r)\<lparr>np_state := s, np_outcome := outcome, np_revision := np_revision (snd r) + 1\<rparr>)
       else r) db"

section \<open>Operations\<close>

definition insert_network_plan_work :: "int \<Rightarrow> plan_work \<Rightarrow> plan_table \<Rightarrow> plan_work plan_result" where
  "insert_network_plan_work t w db =
     (case plan_validate w of
        Inl e \<Rightarrow> (Inl e, db)
      | Inr _ \<Rightarrow>
          if \<not> fits_columns w then (Inl PlanCorrupt, db)
          else if unique_violation db w
          then (let i = (case find (\<lambda>r. np_key (snd r) = np_key w) db of
                           Some r \<Rightarrow> np_command (snd r) | None \<Rightarrow> np_command w)
                in case get_network_plan_work db i of
                     Inl e \<Rightarrow> (Inl e, db)
                   | Inr old \<Rightarrow>
                       if same_command_identity old w then (Inr old, db) else (Inl PlanCorrupt, db))
          else (get_network_plan_work (add_row t w db) (np_command w), add_row t w db))"

text \<open>The lease a controller must hold at the moment of a fenced write.\<close>

definition holds_realm ::
  "int \<Rightarrow> coordination_db \<Rightarrow> string \<Rightarrow> string \<Rightarrow> string \<Rightarrow> u64 \<Rightarrow> bool" where
  "holds_realm t cdb key controller epoch token =
     (case leases cdb key of
        None \<Rightarrow> False
      | Some r \<Rightarrow>
          lease_owner r = controller \<and> lease_epoch r = epoch
          \<and> u64_of_i64 (lease_token r) = Some token
          \<and> stamp_less (strftime_now t 0) (lease_until r))"

definition insert_network_plan_work_under_lease ::
  "int \<Rightarrow> coordination_db \<Rightarrow> string \<Rightarrow> string \<Rightarrow> string \<Rightarrow> u64 \<Rightarrow> plan_work \<Rightarrow> plan_table
   \<Rightarrow> plan_work plan_result" where
  "insert_network_plan_work_under_lease t cdb key controller epoch token w db =
     (case plan_validate w of
        Inl e \<Rightarrow> (Inl e, db)
      | Inr _ \<Rightarrow>
          if \<not> holds_realm t cdb key controller epoch token then (Inl PlanFenced, db)
          else (case find_work db (np_command w) of
                  Some old \<Rightarrow>
                    if same_desired_identity old w then (Inr old, db) else (Inl PlanCorrupt, db)
                | None \<Rightarrow>
                    if np_controller w \<noteq> controller \<or> np_controller_epoch w \<noteq> epoch
                    then (Inl PlanFenced, db)
                    else if \<not> fits_columns w \<or> unique_violation db w then (Inl PlanCorrupt, db)
                    else (get_network_plan_work (add_row t w db) (np_command w), add_row t w db)))"

definition update_network_plan_work ::
  "string \<Rightarrow> u64 \<Rightarrow> plan_state \<Rightarrow> string option \<Rightarrow> plan_table \<Rightarrow> plan_work plan_result" where
  "update_network_plan_work i expected s outcome db =
     (if i64_of_u64 expected = None then (Inl PlanCorrupt, db)
      else case get_network_plan_work db i of
        Inl e \<Rightarrow> (Inl e, db)
      | Inr current \<Rightarrow>
          if \<not> can_transition_to (np_state current) s then (Inl PlanCorrupt, db)
          else if np_revision current \<noteq> expected then (Inl PlanCorrupt, db)
          else (get_network_plan_work (set_state i s outcome db) i, set_state i s outcome db))"

definition update_network_plan_work_under_lease ::
  "int \<Rightarrow> coordination_db \<Rightarrow> string \<Rightarrow> string \<Rightarrow> string \<Rightarrow> u64 \<Rightarrow> string \<Rightarrow> u64 \<Rightarrow> plan_state
   \<Rightarrow> string option \<Rightarrow> plan_table \<Rightarrow> plan_work plan_result" where
  "update_network_plan_work_under_lease t cdb key controller epoch token i expected s outcome db =
     (if \<not> holds_realm t cdb key controller epoch token then (Inl PlanFenced, db)
      else case get_network_plan_work db i of
        Inl e \<Rightarrow> (Inl e, db)
      | Inr current \<Rightarrow>
          if np_revision current \<noteq> expected \<or> \<not> can_transition_to (np_state current) s
          then (Inl PlanCorrupt, db)
          else if i64_of_u64 expected = None then (Inl PlanCorrupt, db)
          else (get_network_plan_work (set_state i s outcome db) i, set_state i s outcome db))"

text \<open>\<open>superseded\<close> is the serialised outcome that names the successor.\<close>

definition supersede_network_plan_work_under_lease ::
  "(string \<Rightarrow> string) \<Rightarrow> int \<Rightarrow> coordination_db \<Rightarrow> string \<Rightarrow> string \<Rightarrow> string \<Rightarrow> u64 \<Rightarrow> string \<Rightarrow> u64
   \<Rightarrow> plan_work \<Rightarrow> plan_table \<Rightarrow> (plan_work \<times> plan_work) plan_result" where
  "supersede_network_plan_work_under_lease superseded t cdb key controller epoch token old_id expected
       successor db =
     (case plan_validate successor of
        Inl e \<Rightarrow> (Inl e, db)
      | Inr _ \<Rightarrow>
          if \<not> holds_realm t cdb key controller epoch token then (Inl PlanFenced, db)
          else if np_controller successor \<noteq> controller \<or> np_controller_epoch successor \<noteq> epoch
          then (Inl PlanFenced, db)
          else (case get_network_plan_work db old_id of
              Inl e \<Rightarrow> (Inl e, db)
            | Inr old \<Rightarrow>
                if np_revision old \<noteq> expected \<or> plan_terminal (np_state old)
                   \<or> \<not> can_transition_to (np_state old) PlFailed
                then (Inl PlanCorrupt, db)
                else if \<not> fits_columns successor \<or> unique_violation db successor
                        \<or> i64_of_u64 expected = None
                then (Inl PlanCorrupt, db)
                else let db' = set_state old_id PlFailed (Some (superseded (np_command successor)))
                                 (add_row t successor db)
                     in (case (get_network_plan_work db' old_id,
                               get_network_plan_work db' (np_command successor)) of
                           (Inr a, Inr b) \<Rightarrow> (Inr (a, b), db')
                         | (Inl e, _) \<Rightarrow> (Inl e, db')
                         | (_, Inl e) \<Rightarrow> (Inl e, db'))))"

definition list_network_plan_work_history :: "plan_table \<Rightarrow> plan_work list" where
  "list_network_plan_work_history db =
     map snd (sort_key fst (sort_key (\<lambda>r. np_command (snd r)) db))"

definition list_unresolved_network_plan_work :: "plan_table \<Rightarrow> plan_work list" where
  "list_unresolved_network_plan_work db =
     filter (\<lambda>w. \<not> plan_terminal (np_state w)) (list_network_plan_work_history db)"

section \<open>What the operations keep\<close>

text \<open>
  A command keeps everything it was admitted with, its revision only grows, an unchanged
  revision means an unchanged row, and a terminal state stays.
\<close>

definition plan_le :: "plan_work \<Rightarrow> plan_work \<Rightarrow> bool" where
  "plan_le w w' \<longleftrightarrow>
     same_command_identity w w' \<and> np_revision w \<le> np_revision w'
     \<and> (np_revision w' = np_revision w \<longrightarrow> w' = w)
     \<and> (plan_terminal (np_state w) \<longrightarrow> np_state w' = np_state w)"

definition plans_le :: "plan_table \<Rightarrow> plan_table \<Rightarrow> bool" where
  "plans_le db db' = kept plan_le (find_work db) (find_work db')"

lemma plan_le_refl [simp]: "plan_le w w"
  by (simp add: plan_le_def same_command_identity_def)

lemma plan_le_trans:
  assumes "plan_le a b" "plan_le b c" shows "plan_le a c"
proof -
  have le: "np_revision a \<le> np_revision b" "np_revision b \<le> np_revision c"
    using assms by (simp_all add: plan_le_def)
  have "c = a" if "np_revision c = np_revision a"
  proof -
    from that le have "np_revision b = np_revision a" "np_revision c = np_revision b" by simp_all
    with assms have "b = a" "c = b" by (simp_all add: plan_le_def)
    then show ?thesis by simp
  qed
  with assms le show ?thesis by (auto simp: plan_le_def same_command_identity_def intro: order.trans)
qed

lemma plans_le_refl [simp]: "plans_le db db"
  by (simp add: plans_le_def kept_refl)

lemma plans_le_trans: "plans_le a b \<Longrightarrow> plans_le b c \<Longrightarrow> plans_le a c"
  unfolding plans_le_def by (rule kept_trans [OF plan_le_trans])

lemma find_work_add:
  "find_work (add_row t w db) j =
     (case find_work db j of Some x \<Rightarrow> Some x | None \<Rightarrow> if np_command w = j then Some w else None)"
  by (induction db) (auto simp: find_work_def add_row_def)

lemma find_work_set:
  "find_work (set_state i s outcome db) j =
     (if j = i then map_option (\<lambda>w. w\<lparr>np_state := s, np_outcome := outcome, np_revision := np_revision w + 1\<rparr>)
        (find_work db i) else find_work db j)"
  by (induction db) (auto simp: find_work_def set_state_def)

lemma plans_le_add: "plans_le db (add_row t w db)"
  by (simp add: plans_le_def kept_def find_work_add)

lemma revision_grows:
  fixes n :: u64
  assumes "i64_of_u64 n \<noteq> None" shows "n < n + 1"
proof -
  have "int (unat n) \<le> i64_max"
    using assms unfolding i64_of_u64_def by (meson option.distinct(1))
  moreover have "i64_max = 9223372036854775807" by (simp add: i64_max_def)
  ultimately have "unat n < 18446744073709551615" by linarith
  then have "unat n + unat (1 :: u64) < 2 ^ LENGTH(64)" by simp
  then have "unat (n + 1) = unat n + unat (1 :: u64)" by (rule unat_add_lem [THEN iffD1])
  then show ?thesis by (simp add: word_less_nat_alt)
qed

lemma plans_le_set:
  assumes "find_work db i = Some w" "i64_of_u64 (np_revision w) \<noteq> None"
    and "plan_terminal (np_state w) \<Longrightarrow> s = np_state w"
  shows "plans_le db (set_state i s outcome db)"
  using assms revision_grows [OF assms(2)]
  by (auto simp: plans_le_def kept_def find_work_set plan_le_def same_command_identity_def)

lemma can_transition_terminal: "can_transition_to s s' \<Longrightarrow> plan_terminal s \<Longrightarrow> s' = s"
  by (cases s) (auto simp: can_transition_to_def plan_terminal_def)

lemma get_work_Inr: "get_network_plan_work db i = Inr w \<longleftrightarrow> find_work db i = Some w"
  by (simp add: get_network_plan_work_def split: option.splits)

lemma insert_keeps: "plans_le db (snd (insert_network_plan_work t w db))"
  by (auto simp: insert_network_plan_work_def Let_def plans_le_add split: sum.splits option.splits)

lemma insert_lease_keeps:
  "plans_le db (snd (insert_network_plan_work_under_lease t cdb key c e token w db))"
  by (auto simp: insert_network_plan_work_under_lease_def plans_le_add split: sum.splits option.splits)

lemma update_keeps: "plans_le db (snd (update_network_plan_work i n s outcome db))"
  by (auto simp: update_network_plan_work_def get_work_Inr dest: can_transition_terminal
      intro!: plans_le_set split: sum.splits)

lemma update_lease_keeps:
  "plans_le db (snd (update_network_plan_work_under_lease t cdb key c e token i n s outcome db))"
  by (auto simp: update_network_plan_work_under_lease_def get_work_Inr dest: can_transition_terminal
      intro!: plans_le_set split: sum.splits)

lemma supersede_keeps:
  "plans_le db (snd (supersede_network_plan_work_under_lease f t cdb key c e token i n w db))"
proof -
  have "plans_le db (set_state i PlFailed outcome (add_row t w db))"
    if "find_work db i = Some old" "\<not> plan_terminal (np_state old)" "i64_of_u64 (np_revision old) \<noteq> None"
    for old outcome
    by (rule plans_le_trans [OF plans_le_add plans_le_set])
      (use that in \<open>auto simp: find_work_add\<close>)
  then show ?thesis
    by (auto simp: supersede_network_plan_work_under_lease_def get_work_Inr Let_def
        split: sum.splits)
qed

section \<open>Runs\<close>

text \<open>A fenced operation sees the leases of its own moment.\<close>

datatype plan_op =
    InsertPlan int plan_work
  | InsertPlanLease int coordination_db string string string u64 plan_work
  | UpdatePlan string u64 plan_state "string option"
  | UpdatePlanLease int coordination_db string string string u64 string u64 plan_state "string option"
  | SupersedePlan int coordination_db string string string u64 string u64 plan_work

primrec plan_after :: "(string \<Rightarrow> string) \<Rightarrow> plan_table \<Rightarrow> plan_op \<Rightarrow> plan_table" where
  "plan_after f db (InsertPlan t w) = snd (insert_network_plan_work t w db)"
| "plan_after f db (InsertPlanLease t cdb key c e token w) =
     snd (insert_network_plan_work_under_lease t cdb key c e token w db)"
| "plan_after f db (UpdatePlan i n s outcome) = snd (update_network_plan_work i n s outcome db)"
| "plan_after f db (UpdatePlanLease t cdb key c e token i n s outcome) =
     snd (update_network_plan_work_under_lease t cdb key c e token i n s outcome db)"
| "plan_after f db (SupersedePlan t cdb key c e token i n w) =
     snd (supersede_network_plan_work_under_lease f t cdb key c e token i n w db)"

definition plan_step :: "(string \<Rightarrow> string) \<Rightarrow> plan_table \<Rightarrow> plan_op \<Rightarrow> unit + plan_table" where
  "plan_step f db x = Inr (plan_after f db x)"

lemma plan_after_le: "plans_le db (plan_after f db x)"
  by (cases x) (simp_all add: insert_keeps insert_lease_keeps update_keeps update_lease_keeps supersede_keeps)

interpretation plan_history: monotone_machine "plan_step f" plans_le for f
proof
  show "plans_le s s" for s by simp
  show "plans_le s t \<Longrightarrow> plans_le t u \<Longrightarrow> plans_le s u" for s t u by (rule plans_le_trans)
  show "plan_step f s x = Inr s' \<Longrightarrow> plans_le s s'" for s x s'
    using plan_after_le [of s f x] by (simp add: plan_step_def)
qed

text \<open>Commands and idempotency keys stay unique.\<close>

definition plans_unique :: "plan_table \<Rightarrow> bool" where
  "plans_unique db \<longleftrightarrow> distinct (map (np_command \<circ> snd) db) \<and> distinct (map (np_key \<circ> snd) db)"

lemma unique_add: "plans_unique db \<Longrightarrow> \<not> unique_violation db w \<Longrightarrow> plans_unique (add_row t w db)"
  by (auto simp: plans_unique_def add_row_def unique_violation_def list_ex_iff)

lemma set_state_keys:
  "map (np_command \<circ> snd) (set_state i s outcome db) = map (np_command \<circ> snd) db"
  "map (np_key \<circ> snd) (set_state i s outcome db) = map (np_key \<circ> snd) db"
  by (auto simp: set_state_def)

lemma unique_set: "plans_unique (set_state i s outcome db) = plans_unique db"
  unfolding plans_unique_def set_state_keys ..

lemma plan_after_unique: "plans_unique db \<Longrightarrow> plans_unique (plan_after f db x)"
  by (cases x)
    (auto simp: insert_network_plan_work_def insert_network_plan_work_under_lease_def
      update_network_plan_work_def update_network_plan_work_under_lease_def
      supersede_network_plan_work_under_lease_def Let_def unique_set
      intro: unique_add split: sum.splits option.splits)

interpretation plan_machine: invariant_machine "plan_step f" plans_unique for f
  by unfold_locales (auto simp: plan_step_def plan_after_unique)

section \<open>Guarantees\<close>

text \<open>The history of network commands. Over any sequence of operations, fenced or not, by any
  controllers, a command keeps everything it was admitted with, its revision never goes back, a
  row whose revision did not change did not change, a success or failure stays, and no two rows
  share a command or an idempotency key.\<close>

theorem network_commands_history:
  assumes "find_work db i = Some w" "plans_unique db"
  shows "(\<exists>w'. find_work (run_ops (plan_step f) db xs) i = Some w' \<and> plan_le w w')
    \<and> plans_unique (run_ops (plan_step f) db xs)"
proof
  have "plans_le db (run_ops (plan_step f) db xs)" by (rule plan_history.run_rel)
  then show "\<exists>w'. find_work (run_ops (plan_step f) db xs) i = Some w' \<and> plan_le w w'"
    using assms(1) unfolding plans_le_def by (rule keptD)
  show "plans_unique (run_ops (plan_step f) db xs)" using assms(2) by (rule plan_machine.run_inv)
qed

lemma lost_realm:
  assumes "\<not> holds_realm t cdb key c e token"
  shows "update_network_plan_work_under_lease t cdb key c e token i n s outcome db = (Inl PlanFenced, db)"
    "\<exists>err. insert_network_plan_work_under_lease t cdb key c e token w db = (Inl err, db)"
    "\<exists>err. supersede_network_plan_work_under_lease f t cdb key c e token i n w db = (Inl err, db)"
  using assms
  by (auto simp: update_network_plan_work_under_lease_def insert_network_plan_work_under_lease_def
      supersede_network_plan_work_under_lease_def split: sum.splits)

lemma token_inject: "u64_of_i64 a = Some n \<Longrightarrow> u64_of_i64 b = Some n \<Longrightarrow> a = b"
  using sint_of_token [of a] sint_of_token [of b] by (auto simp: u64_of_i64_def split: if_splits)

text \<open>C20: A controller that lost its realm writes no more, as long as the takeover is not forgotten.
  When an expired lease has been taken over, then after any later lease operations that release
  no taken-over lease of that realm, every fenced write with the old token fails and changes
  nothing, whatever it wants to insert, update or supersede, and whoever sends it. A release
  deletes the row, and with it the token: the next acquisition grants the old token again
  (\<open>release_forgets_takeover\<close>).\<close>

theorem deposed_controller_is_fenced:
  assumes inv: "coordination_inv cdb" and r: "leases cdb key = Some r" "lease_expired t r"
    and later: "cdb' = foldl lease_step (snd (acquire_work_lease t t' cdb key kind c e ttl)) xs"
    and kept: "keeps lease_step (forgets key) (snd (acquire_work_lease t t' cdb key kind c e ttl)) xs"
    and old: "u64_of_i64 (lease_token r) = Some token"
  shows "update_network_plan_work_under_lease now cdb' key c' e' token i n s outcome db = (Inl PlanFenced, db)
    \<and> (\<exists>err. insert_network_plan_work_under_lease now cdb' key c' e' token w db = (Inl err, db))
    \<and> (\<exists>err. supersede_network_plan_work_under_lease f now cdb' key c' e' token i n w db = (Inl err, db))"
proof -
  let ?cdb = "snd (acquire_work_lease t t' cdb key kind c e ttl)"
  have inv': "coordination_inv ?cdb"
    using coordination_inv_step [OF inv, of "AcquireLease t t' key kind c e ttl"] by simp
  have "lease_token r + 1 = fence key ?cdb"
    using r by (simp add: acquire_work_lease_def fence_def Let_def)
  also have "\<dots> \<le> fence key cdb'"
    unfolding later by (rule fence_counter.counter_run [OF inv' kept])
  finally have "lease_token r < fence key cdb'" by simp
  then have "\<not> holds_realm now cdb' key c' e' token"
    using token_inject [OF old] by (auto simp: holds_realm_def fence_def split: option.splits)
  then show ?thesis by (simp add: lost_realm)
qed

text \<open>Superseding a command is all or nothing. Either the old command is recorded as failed
  with the name of its successor as outcome, the successor is recorded pending as it was given
  and nothing else changes, or the table stays as it is.\<close>

theorem supersede_all_or_nothing:
  "(\<exists>err. supersede_network_plan_work_under_lease f t cdb key c e token i n w db = (Inl err, db))
   \<or> (\<exists>old db'. find_work db i = Some old \<and> \<not> plan_terminal (np_state old)
        \<and> supersede_network_plan_work_under_lease f t cdb key c e token i n w db
            = (Inr (old\<lparr>np_state := PlFailed, np_outcome := Some (f (np_command w)),
                        np_revision := np_revision old + 1\<rparr>, w), db')
        \<and> find_work db' i = Some (old\<lparr>np_state := PlFailed, np_outcome := Some (f (np_command w)),
                                     np_revision := np_revision old + 1\<rparr>)
        \<and> find_work db' (np_command w) = Some w \<and> np_state w = PlPending
        \<and> (\<forall>j. j = i \<or> j = np_command w \<or> find_work db' j = find_work db j))"
proof (cases "plan_validate w = Inr () \<and> holds_realm t cdb key c e token \<and> np_controller w = c
    \<and> np_controller_epoch w = e \<and> fits_columns w \<and> \<not> unique_violation db w \<and> i64_of_u64 n \<noteq> None
    \<and> (\<exists>old. find_work db i = Some old \<and> np_revision old = n \<and> \<not> plan_terminal (np_state old)
         \<and> can_transition_to (np_state old) PlFailed)")
  case False
  then have "\<exists>err. supersede_network_plan_work_under_lease f t cdb key c e token i n w db = (Inl err, db)"
    unfolding supersede_network_plan_work_under_lease_def get_network_plan_work_def
    by (auto split: sum.splits option.splits)
  then show ?thesis ..
next
  case True
  then obtain old where old: "plan_validate w = Inr ()" "find_work db i = Some old"
      "\<not> plan_terminal (np_state old)" "\<not> unique_violation db w"
    and eq: "supersede_network_plan_work_under_lease f t cdb key c e token i n w db =
      (let db' = set_state i PlFailed (Some (f (np_command w))) (add_row t w db)
       in (case (get_network_plan_work db' i, get_network_plan_work db' (np_command w)) of
             (Inr a, Inr b) \<Rightarrow> (Inr (a, b), db') | (Inl e, _) \<Rightarrow> (Inl e, db') | (_, Inl e) \<Rightarrow> (Inl e, db')))"
    unfolding supersede_network_plan_work_under_lease_def get_network_plan_work_def by auto
  have none: "find_work db (np_command w) = None"
    using old(4) by (auto simp: find_work_def unique_violation_def list_ex_iff find_None_iff)
  with old(2) have ne: "np_command w \<noteq> i" by auto
  let ?db = "set_state i PlFailed (Some (f (np_command w))) (add_row t w db)"
  have new: "find_work ?db i = Some (old\<lparr>np_state := PlFailed, np_outcome := Some (f (np_command w)),
      np_revision := np_revision old + 1\<rparr>)" "find_work ?db (np_command w) = Some w"
    "np_state w = PlPending"
    using old none ne by (auto simp: find_work_set find_work_add plan_validate_def split: if_splits)
  have "\<forall>j. j = i \<or> j = np_command w \<or> find_work ?db j = find_work db j"
    by (auto simp: find_work_set find_work_add split: option.splits)
  with eq new old(2,3) show ?thesis by (auto simp: get_network_plan_work_def Let_def)
qed

lemma find_work_command: "find_work db i = Some w \<Longrightarrow> np_command w = i"
  by (induction db) (auto simp: find_work_def split: if_splits)

lemma find_holds: "find P xs = Some x \<Longrightarrow> x \<in> set xs \<and> P x"
  by (induction xs) (auto split: if_splits)

lemma find_work_by_key:
  assumes "plans_unique db" "find_work db i = Some w"
  shows "find (\<lambda>r. np_key (snd r) = np_key w) db = Some (the (find (\<lambda>r. np_command (snd r) = i) db))"
proof -
  from assms(2) obtain r where r: "find (\<lambda>r. np_command (snd r) = i) db = Some r" "snd r = w"
    by (auto simp: find_work_def)
  then have mem: "r \<in> set db" by (auto dest: find_holds)
  have inj: "inj_on (np_key \<circ> snd) (set db)" using assms(1) by (simp add: plans_unique_def distinct_map)
  have "find (\<lambda>r. np_key (snd r) = np_key w) db \<noteq> None"
    using mem r(2) unfolding find_None_iff by blast
  then obtain r' where r': "find (\<lambda>r. np_key (snd r) = np_key w) db = Some r'" by blast
  then have "r' \<in> set db" "np_key (snd r') = np_key w" by (auto dest: find_holds)
  with inj_onD [OF inj _ _ mem, of r'] r(2) have "r' = r" by simp
  with r r' show ?thesis by simp
qed

text \<open>Admitting a command again changes nothing. After a command was admitted, and after any
  sequence of operations since, a repetition of the same insertion answers the command as it is
  recorded by then, under the identity it was admitted with, and leaves the table alone.\<close>

theorem admission_replay:
  assumes ins: "insert_network_plan_work t w db = (Inr x, db')" and db: "plans_unique db"
    and later: "later = run_ops (plan_step f) db' xs"
  shows "\<exists>y. insert_network_plan_work t' w later = (Inr y, later) \<and> plan_le x y
    \<and> same_command_identity y w \<and> find_work later (np_command w) = Some y"
proof -
  have v: "plan_validate w = Inr ()" "fits_columns w"
    using ins by (auto simp: insert_network_plan_work_def split: sum.splits if_splits)
  have db': "plans_unique db'"
    using plan_after_unique [OF db, of f "InsertPlan t w"] ins by simp
  have x: "find_work db' (np_command w) = Some x \<and> same_command_identity x w"
  proof (cases "unique_violation db w")
    case True
    then obtain j where j: "find_work db' j = Some x" "same_command_identity x w"
      using ins v
      by (auto simp: insert_network_plan_work_def get_work_Inr Let_def split: sum.splits if_splits)
    then have "j = np_command w" using find_work_command by (force simp: same_command_identity_def)
    with j show ?thesis by simp
  next
    case False
    then have "find_work db (np_command w) = None"
      by (auto simp: find_work_def unique_violation_def list_ex_iff find_None_iff)
    with False ins v show ?thesis
      by (auto simp: insert_network_plan_work_def get_work_Inr find_work_add same_command_identity_def)
  qed
  have "plans_le db' later" unfolding later by (rule plan_history.run_rel)
  with x obtain y where y: "find_work later (np_command w) = Some y" "plan_le x y"
    unfolding plans_le_def kept_def by blast
  then have same: "same_command_identity y w"
    using x by (simp add: plan_le_def same_command_identity_def)
  have uq: "plans_unique later" unfolding later by (rule plan_machine.run_inv [OF db'])
  have key: "np_key y = np_key w" using same by (simp add: same_command_identity_def)
  have "unique_violation later w"
    using y(1) by (auto simp: find_work_def unique_violation_def list_ex_iff dest!: find_holds)
  moreover have "(case find (\<lambda>r. np_key (snd r) = np_key w) later of
      Some r \<Rightarrow> np_command (snd r) | None \<Rightarrow> np_command w) = np_command w"
  proof -
    obtain r where r: "find (\<lambda>r. np_command (snd r) = np_command w) later = Some r"
      using y(1) by (auto simp: find_work_def)
    then have "np_command (snd r) = np_command w" by (auto dest: find_holds)
    with find_work_by_key [OF uq y(1)] r key show ?thesis by simp
  qed
  ultimately have "insert_network_plan_work t' w later = (Inr y, later)"
    using v y(1) same by (simp add: insert_network_plan_work_def get_network_plan_work_def)
  with y same show ?thesis by blast
qed

section \<open>Examples\<close>

definition sample_plan :: plan_work where
  "sample_plan = \<lparr>np_command = ''c1'', np_operation = ''o1'', np_key = ''k1'', np_host = ''h1'',
     np_agent = ''a1'', np_agent_epoch = ''e1'', np_controller = ''ctl'', np_controller_epoch = ''e'',
     np_token = 1, np_deadline = 1000, np_fingerprint = ''f'', np_snapshot = ''s'',
     np_state = PlPending, np_revision = 0, np_outcome = None\<rparr>"

lemma sample_inserted: "insert_network_plan_work 5000 sample_plan [] = (Inr sample_plan, [(5, sample_plan)])"
  by (simp add: insert_network_plan_work_def plan_validate_def sample_plan_def fits_columns_def
      i64_of_u64_def i64_max_def unique_violation_def add_row_def get_network_plan_work_def find_work_def)

theorem network_commands_history_witness:
  "\<exists>w'. find_work (run_ops (plan_step (\<lambda>s. s)) [(5, sample_plan)]
       [UpdatePlan ''c1'' 0 PlSucceeded None, UpdatePlan ''c1'' 1 PlFailed None]) ''c1'' = Some w'
     \<and> plan_le sample_plan w'"
  by (rule network_commands_history [THEN conjunct1])
    (simp_all add: find_work_def sample_plan_def plans_unique_def)

theorem admission_replay_witness:
  "\<exists>y. fst (insert_network_plan_work 9000 sample_plan (run_ops (plan_step (\<lambda>s. s)) [(5, sample_plan)]
       [UpdatePlan ''c1'' 0 PlRunning None])) = Inr y"
proof -
  have "plans_unique []" by (simp add: plans_unique_def)
  from admission_replay [OF sample_inserted this refl, where t' = 9000
      and xs = "[UpdatePlan ''c1'' 0 PlRunning None]" and f = "\<lambda>s. s"]
  obtain y where "insert_network_plan_work 9000 sample_plan (run_ops (plan_step (\<lambda>s. s)) [(5, sample_plan)]
       [UpdatePlan ''c1'' 0 PlRunning None]) = (Inr y, run_ops (plan_step (\<lambda>s. s)) [(5, sample_plan)]
       [UpdatePlan ''c1'' 0 PlRunning None])" by blast
  then show ?thesis by simp
qed

text \<open>The lease of \<open>c2\<close> expires, \<open>c3\<close> takes it over and renews it.\<close>

theorem deposed_controller_is_fenced_witness:
  "update_network_plan_work_under_lease 7100
     (foldl lease_step (snd (acquire_work_lease 7000 7000 taken_over ''op:1'' ''operation'' ''c3'' ''e3'' 1))
        [RenewLease 7000 ''op:1'' ''c3'' ''e3'' 3 1000000000])
     ''op:1'' ''c2'' ''e2'' 2 ''c1'' 0 PlFailed None [(5, sample_plan)] = (Inl PlanFenced, [(5, sample_plan)])"
proof (rule deposed_controller_is_fenced [where t = 7000 and t' = 7000 and kind = "''operation''"
      and c = "''c3''" and e = "''e3''" and ttl = 1 and xs = "[RenewLease 7000 ''op:1'' ''c3'' ''e3'' 3 1000000000]",
      OF _ _ _ refl, THEN conjunct1])
  show "coordination_inv taken_over"
    unfolding taken_over_def by (rule fence_counter.inv_run [OF no_leases_inv])
  show "leases taken_over ''op:1'' = Some \<lparr>lease_kind = ''operation'', lease_owner = ''c2'', lease_epoch = ''e2'',
     lease_token = 2, lease_until = Millis 6000, lease_created = Secs 0, lease_updated = Secs 5\<rparr>"
    by (rule taken_over_lease(1))
qed (simp_all add: lease_expired_def stamp_less_def strftime_now_def forgets_def u64_of_i64_def i64_max_def)

end
