(* ===== verification/Request_Fingerprint.thy ===== *)
theory Request_Fingerprint
  imports Rust_Prelude "HOL-Library.Char_ord" "HOL-Library.List_Lexorder"
begin

text \<open>
  The text an idempotency fingerprint is taken of (\<open>crates/o3k-store/src/domain/records.rs\<close>,
  \<open>canonical_json\<close> and \<open>from_semantics\<close>): a JSON body written with sorted fields, after the
  action, the resource type and the target. \<open>quote\<close> writes a JSON string the way \<open>serde_json\<close>
  does; the lemmas rest on three facts about it, \<open>json_writer\<close>: a quoted string starts with a
  quotation mark, ends where it says it ends, and holds no raw newline.
  Lemmas: the text is a prefix code, so it determines the document up to the order of fields.
\<close>

section \<open>Canonical JSON\<close>

text \<open>A JSON document. A number is the text it is written with; an object has distinct keys.\<close>

datatype json =
    JNull
  | JBool bool
  | JNumber string
  | JString string
  | JArray "json list"
  | JObject "(string \<times> json) list"

fun join_with :: "string \<Rightarrow> string list \<Rightarrow> string" where
  "join_with sep [] = []"
| "join_with sep [s] = s"
| "join_with sep (s # t # ss) = s @ sep @ join_with sep (t # ss)"

text \<open>The order of Rust strings: by bytes.\<close>

definition utf8_key :: "string \<Rightarrow> nat list" where
  "utf8_key s = map of_char s"

fun canonical_json :: "(string \<Rightarrow> string) \<Rightarrow> json \<Rightarrow> string" where
  "canonical_json quote (JObject fs) =
     ''{'' @ join_with '','' (map (\<lambda>(k, v). quote k @ '':'' @ v)
       (sort_key (\<lambda>f. utf8_key (fst f)) (map (\<lambda>(k, v). (k, canonical_json quote v)) fs))) @ ''}''"
| "canonical_json quote (JArray vs) = ''['' @ join_with '','' (map (canonical_json quote) vs) @ '']''"
| "canonical_json quote JNull = ''null''"
| "canonical_json quote (JBool b) = (if b then ''true'' else ''false'')"
| "canonical_json quote (JNumber n) = n"
| "canonical_json quote (JString s) = quote s"

definition fingerprint_material ::
  "(string \<Rightarrow> string) \<Rightarrow> string \<Rightarrow> string \<Rightarrow> string option \<Rightarrow> json \<Rightarrow> string" where
  "fingerprint_material quote act rt target body =
     act @ [CHR 0x0A] @ rt @ [CHR 0x0A] @ (case target of Some t \<Rightarrow> t | None \<Rightarrow> []) @ [CHR 0x0A]
     @ canonical_json quote body"


section \<open>Documents up to the order of fields\<close>

text \<open>Well-formed documents: numbers as JSON writes them, distinct keys.\<close>

definition number_chars :: "char set" where
  "number_chars = set ''-+.eE0123456789''"

fun json_wf :: "json \<Rightarrow> bool" where
  "json_wf (JNumber n) \<longleftrightarrow> n \<noteq> [] \<and> set n \<subseteq> number_chars \<and> hd n \<noteq> CHR ''e'' \<and> hd n \<noteq> CHR ''E''"
| "json_wf (JArray vs) \<longleftrightarrow> list_all json_wf vs"
| "json_wf (JObject fs) \<longleftrightarrow> distinct (map fst fs) \<and> list_all (\<lambda>f. json_wf (snd f)) fs"
| "json_wf JNull \<longleftrightarrow> True"
| "json_wf (JBool b) \<longleftrightarrow> True"
| "json_wf (JString s) \<longleftrightarrow> True"

text \<open>The same document with the fields of every object in the order of their keys.\<close>

fun json_sorted :: "json \<Rightarrow> json" where
  "json_sorted (JObject fs) =
     JObject (sort_key (\<lambda>f. utf8_key (fst f)) (map (\<lambda>(k, v). (k, json_sorted v)) fs))"
| "json_sorted (JArray vs) = JArray (map json_sorted vs)"
| "json_sorted v = v"

lemma sort_key_map:
  assumes "\<And>x. g (f x) = h x"
  shows "sort_key g (map f xs) = map f (sort_key h xs)"
  by (simp add: sort_key_of_map assms)

abbreviation by_key :: "(string \<times> 'a) \<Rightarrow> nat list" where
  "by_key f \<equiv> utf8_key (fst f)"

lemma sort_fields: "sort_key by_key (map (\<lambda>(k, v). (k, f v)) fs) = map (\<lambda>(k, v). (k, f v)) (sort_key by_key fs)"
  by (rule sort_key_map) auto

lemma canonical_json_object:
  "canonical_json quote (JObject fs) =
     ''{'' @ join_with '','' (map (\<lambda>(k, v). quote k @ '':'' @ canonical_json quote v) (sort_key by_key fs)) @ ''}''"
  unfolding canonical_json.simps sort_fields by (simp add: split_def comp_def)

lemma json_sorted_object:
  "json_sorted (JObject fs) = JObject (map (\<lambda>(k, v). (k, json_sorted v)) (sort_key by_key fs))"
  unfolding json_sorted.simps sort_fields ..

declare canonical_json.simps(1) [simp del] json_sorted.simps(1) [simp del]

section \<open>The text is a prefix code\<close>

definition json_writer :: "(string \<Rightarrow> string) \<Rightarrow> bool" where
  "json_writer quote \<longleftrightarrow>
     (\<forall>s. quote s \<noteq> [] \<and> hd (quote s) = CHR 0x22 \<and> CHR 0x0A \<notin> set (quote s))
     \<and> (\<forall>a b s t. quote a @ s = quote b @ t \<longrightarrow> a = b \<and> s = t)"

text \<open>What may follow a value inside a document.\<close>

definition delimited :: "string \<Rightarrow> bool" where
  "delimited s \<longleftrightarrow> s = [] \<or> hd s \<in> {CHR '','', CHR '']'', CHR ''}''}"

lemma delimited_Cons [simp]: "delimited (c # s) \<longleftrightarrow> c \<in> {CHR '','', CHR '']'', CHR ''}''}"
  by (simp add: delimited_def)

lemma number_unique:
  assumes "n @ s = m @ t" "set n \<subseteq> number_chars" "set m \<subseteq> number_chars" "delimited s" "delimited t"
  shows "n = m \<and> s = t"
proof -
  have stop: "takeWhile (\<lambda>c. c \<in> number_chars) (n @ s) = n" if "set n \<subseteq> number_chars" "delimited s" for n s
  proof -
    have "takeWhile (\<lambda>c. c \<in> number_chars) s = []"
      using that(2) by (cases s) (auto simp: number_chars_def)
    with that(1) show ?thesis by (simp add: takeWhile_append subset_iff)
  qed
  have "n = m" using stop [OF assms(2,4)] stop [OF assms(3,5)] assms(1) by simp
  with assms(1) show ?thesis by simp
qed

lemma join_with_Cons:
  "join_with '','' (map f (x # xs)) = f x @ concat (map (\<lambda>y. CHR '','' # f y) xs)"
  by (induction xs arbitrary: x) simp_all

text \<open>Elements that are determined by what follows them make a determined list.\<close>

lemma elements_unique:
  assumes "\<And>x y s t. x \<in> set xs \<Longrightarrow> y \<in> set ys \<Longrightarrow> enc x @ s = enc y @ t \<Longrightarrow> delimited s \<Longrightarrow>
             delimited t \<Longrightarrow> R x y \<and> s = t"
    and "c = CHR '']'' \<or> c = CHR ''}''"
    and "concat (map (\<lambda>y. CHR '','' # enc y) xs) @ c # s = concat (map (\<lambda>y. CHR '','' # enc y) ys) @ c # t"
  shows "list_all2 R xs ys \<and> s = t"
  using assms(1,3)
proof (induction xs arbitrary: ys)
  case Nil
  then show ?case using assms(2) by (cases ys) auto
next
  case (Cons x xs)
  from Cons.prems(2) assms(2) obtain y zs where ys: "ys = y # zs" by (cases ys) auto
  let ?rest = "\<lambda>xs s. concat (map (\<lambda>y. CHR '','' # enc y) xs) @ c # s"
  have delim: "delimited (?rest xs s)" for xs s using assms(2) by (cases xs) auto
  have "enc x @ ?rest xs s = enc y @ ?rest zs t" using Cons.prems(2) ys by simp
  with Cons.prems(1) [of x y] ys delim have "R x y" "?rest xs s = ?rest zs t" by auto
  moreover have "list_all2 R xs zs \<and> s = t"
    by (rule Cons.IH) (use Cons.prems(1) ys calculation(2) in auto)
  ultimately show ?case using ys by simp
qed

lemma joined_unique:
  assumes "\<And>x y s t. x \<in> set xs \<Longrightarrow> y \<in> set ys \<Longrightarrow> enc x @ s = enc y @ t \<Longrightarrow> delimited s \<Longrightarrow>
             delimited t \<Longrightarrow> R x y \<and> s = t"
    and "\<And>x. x \<in> set xs \<union> set ys \<Longrightarrow> \<not> delimited (enc x)"
    and "c = CHR '']'' \<or> c = CHR ''}''"
    and "join_with '','' (map enc xs) @ c # s = join_with '','' (map enc ys) @ c # t"
  shows "list_all2 R xs ys \<and> s = t"
proof (cases "xs = [] \<or> ys = []")
  case True
  have "\<not> delimited (join_with '','' (map enc zs) @ c # u)" if "zs \<noteq> []" "set zs \<subseteq> set xs \<union> set ys" for zs u
  proof -
    obtain z zs' where z: "zs = z # zs'" using \<open>zs \<noteq> []\<close> by (cases zs) auto
    then have "\<not> delimited (enc z)" using assms(2) that(2) by auto
    then obtain d ds where "enc z = d # ds" "\<not> delimited (d # ds)" by (cases "enc z") (auto simp: delimited_def)
    then show ?thesis using z join_with_Cons [of enc z zs'] by simp
  qed
  moreover have "delimited (c # u)" for u using assms(3) by auto
  ultimately have "xs = [] \<and> ys = []"
    using True assms(4) by (metis (no_types) append_Nil join_with.simps(1) list.simps(8) sup_ge1 sup_ge2)
  with assms(4) show ?thesis by simp
next
  case False
  then obtain x xs' y ys' where xs: "xs = x # xs'" "ys = y # ys'" by (meson neq_Nil_conv)
  have delim: "delimited (concat (map (\<lambda>y. CHR '','' # enc y) zs) @ c # u)" for zs u
    using assms(3) by (cases zs) auto
  have "enc x @ concat (map (\<lambda>y. CHR '','' # enc y) xs') @ c # s
      = enc y @ concat (map (\<lambda>y. CHR '','' # enc y) ys') @ c # t"
    using assms(4) xs by (simp add: join_with_Cons del: list.map)
  with assms(1) [of x y] xs delim have "R x y"
    "concat (map (\<lambda>y. CHR '','' # enc y) xs') @ c # s = concat (map (\<lambda>y. CHR '','' # enc y) ys') @ c # t"
    by auto
  moreover have "list_all2 R xs' ys' \<and> s = t"
    by (rule elements_unique [OF _ assms(3)]) (use assms(1) xs calculation(2) in auto)
  ultimately show ?thesis by (simp add: xs)
qed

lemma writer_start: "json_writer quote \<Longrightarrow> quote s \<noteq> []" "json_writer quote \<Longrightarrow> hd (quote s) = CHR 0x22"
  unfolding json_writer_def by blast+

lemma writer_unique: "json_writer quote \<Longrightarrow> quote a @ s = quote b @ t \<Longrightarrow> a = b \<and> s = t"
  unfolding json_writer_def by blast

text \<open>Values of different constructors start differently.\<close>

definition start :: "json \<Rightarrow> char set" where
  "start v = (case v of JNull \<Rightarrow> {CHR ''n''} | JBool b \<Rightarrow> (if b then {CHR ''t''} else {CHR ''f''})
     | JNumber n \<Rightarrow> number_chars - {CHR ''e'', CHR ''E''} | JString s \<Rightarrow> {CHR 0x22}
     | JArray vs \<Rightarrow> {CHR ''[''} | JObject fs \<Rightarrow> {CHR ''{''})"

lemma start_hd:
  assumes "json_writer quote" "json_wf v"
  shows "canonical_json quote v \<noteq> [] \<and> hd (canonical_json quote v) \<in> start v"
proof (cases v)
  case (JNumber n)
  with assms show ?thesis by (cases n) (auto simp: start_def)
qed (use assms in \<open>simp_all add: writer_start start_def canonical_json_object\<close>)

text \<open>A value starts with a character that delimits nothing.\<close>

lemma canonical_json_start:
  assumes "json_writer quote" "json_wf v"
  shows "\<not> delimited (canonical_json quote v)"
  using start_hd [OF assms]
  by (cases v) (auto simp: delimited_def start_def number_chars_def split: if_splits)

lemma start_meet:
  assumes "json_writer quote" "json_wf v" "json_wf w" "canonical_json quote v @ s = canonical_json quote w @ t"
  shows "start v \<inter> start w \<noteq> {}"
proof -
  have "hd (canonical_json quote v) = hd (canonical_json quote w)"
    using assms(4) start_hd [OF assms(1,2)] start_hd [OF assms(1,3)] by (metis hd_append2)
  with start_hd [OF assms(1,2)] start_hd [OF assms(1,3)] show ?thesis by auto
qed

lemma canonical_json_prefix:
  assumes "json_writer quote"
  shows "json_wf v \<Longrightarrow> json_wf w \<Longrightarrow> canonical_json quote v @ s = canonical_json quote w @ t \<Longrightarrow>
    delimited s \<Longrightarrow> delimited t \<Longrightarrow> json_sorted v = json_sorted w \<and> s = t"
proof (induction v arbitrary: w s t)
  case JNull
  with start_meet [OF assms JNull.prems(1-3)] show ?case
    by (cases w) (auto simp: start_def number_chars_def split: if_splits)
next
  case (JBool b)
  with start_meet [OF assms JBool.prems(1-3)] show ?case
    by (cases w) (auto simp: start_def number_chars_def split: if_splits)
next
  case (JNumber n)
  then obtain m where m: "w = JNumber m"
    using start_meet [OF assms JNumber.prems(1-3)]
    by (cases w) (auto simp: start_def number_chars_def split: if_splits)
  with JNumber number_unique [of n s m t] show ?case by simp
next
  case (JString x)
  then obtain y where "w = JString y"
    using start_meet [OF assms JString.prems(1-3)]
    by (cases w) (auto simp: start_def number_chars_def split: if_splits)
  with JString.prems(3) writer_unique [OF assms, of x s y t] show ?case by simp
next
  case (JArray vs)
  then obtain ws where w: "w = JArray ws"
    using start_meet [OF assms JArray.prems(1-3)]
    by (cases w) (auto simp: start_def number_chars_def split: if_splits)
  have "list_all2 (\<lambda>v w. json_sorted v = json_sorted w) vs ws \<and> s = t"
  proof (rule joined_unique)
    show "join_with '','' (map (canonical_json quote) vs) @ CHR '']'' # s
        = join_with '','' (map (canonical_json quote) ws) @ CHR '']'' # t"
      using JArray.prems(3) w by simp
  qed (use JArray w canonical_json_start [OF assms] in \<open>auto simp: list_all_iff\<close>)
  with w show ?case by (simp add: list_all2_conv_all_nth list_eq_iff_nth_eq)
next
  case (JObject fs)
  then obtain gs where w: "w = JObject gs"
    using start_meet [OF assms JObject.prems(1-3)]
    by (cases w) (auto simp: start_def number_chars_def split: if_splits)
  let ?enc = "\<lambda>(k, v). quote k @ '':'' @ canonical_json quote v"
  have "list_all2 (\<lambda>f g. fst f = fst g \<and> json_sorted (snd f) = json_sorted (snd g))
      (sort_key by_key fs) (sort_key by_key gs) \<and> s = t"
  proof (rule joined_unique)
    show "join_with '','' (map ?enc (sort_key by_key fs)) @ CHR ''}'' # s
        = join_with '','' (map ?enc (sort_key by_key gs)) @ CHR ''}'' # t"
      using JObject.prems(3) w by (simp add: canonical_json_object)
  next
    fix f g s t
    assume f: "f \<in> set (sort_key by_key fs)" "g \<in> set (sort_key by_key gs)"
      and eq: "?enc f @ s = ?enc g @ t" "delimited s" "delimited t"
    have "quote (fst f) @ ('':'' @ canonical_json quote (snd f) @ s)
        = quote (fst g) @ ('':'' @ canonical_json quote (snd g) @ t)"
      using eq(1) by (simp add: split_def)
    from writer_unique [OF assms this]
    have k: "fst f = fst g" and v: "canonical_json quote (snd f) @ s = canonical_json quote (snd g) @ t"
      by simp_all
    have "json_wf (snd f)" "json_wf (snd g)"
      using JObject.prems(1,2) w f by (auto simp: list_all_iff)
    moreover have "f \<in> set fs" "snd f \<in> Basic_BNFs.snds f" using f by (auto simp: snds.simps)
    ultimately have "json_sorted (snd f) = json_sorted (snd g) \<and> s = t"
      using v eq(2,3) by (intro JObject.IH)
    with k show "(fst f = fst g \<and> json_sorted (snd f) = json_sorted (snd g)) \<and> s = t" by blast
  next
    fix f assume "f \<in> set (sort_key by_key fs) \<union> set (sort_key by_key gs)"
    show "\<not> delimited (?enc f)"
      using writer_start [OF assms, of "fst f"] by (cases "quote (fst f)") (simp_all add: split_def)
  qed simp
  with w show ?case
    by (simp add: json_sorted_object split_def list_all2_conv_all_nth list_eq_iff_nth_eq)
qed

text \<open>The other direction: documents that agree up to order are written alike.\<close>

lemma sort_sorted [simp]: "sort_key by_key (sort_key by_key fs) = sort_key by_key fs"
  by (rule sort_key_id_if_sorted) simp

lemma canonical_json_sorted: "canonical_json quote (json_sorted v) = canonical_json quote v"
proof (induction v)
  case (JObject fs)
  have "canonical_json quote (json_sorted (snd f)) = canonical_json quote (snd f)" if "f \<in> set fs" for f
    using JObject.IH [OF that, of "snd f"] by (simp add: snds.simps)
  then have "map (\<lambda>(k, v). quote k @ '':'' @ canonical_json quote (json_sorted v)) (sort_key by_key fs)
      = map (\<lambda>(k, v). quote k @ '':'' @ canonical_json quote v) (sort_key by_key fs)"
    by (auto simp: split_def)
  moreover have "canonical_json quote (json_sorted (JObject fs)) = ''{'' @ join_with '',''
      (map (\<lambda>(k, v). quote k @ '':'' @ canonical_json quote (json_sorted v)) (sort_key by_key fs)) @ ''}''"
    unfolding json_sorted_object canonical_json_object sort_fields [symmetric] sort_sorted
    unfolding sort_fields by (simp add: split_def comp_def)
  ultimately show ?case by (simp only: canonical_json_object)
qed (simp_all cong: map_cong)

lemma set_join_with: "set (join_with sep ss) \<subseteq> set sep \<union> \<Union> (set ` set ss)"
  by (induction sep ss rule: join_with.induct) auto

lemma canonical_json_newline:
  "json_writer quote \<Longrightarrow> json_wf v \<Longrightarrow> CHR 0x0A \<notin> set (canonical_json quote v)"
proof (induction v)
  case (JArray vs)
  then show ?case using set_join_with [of "'',''" "map (canonical_json quote) vs"] by (auto simp: list_all_iff)
next
  case (JObject fs)
  have "CHR 0x0A \<notin> set (quote k @ '':'' @ canonical_json quote v)" if "(k, v) \<in> set fs" for k v
  proof -
    have "CHR 0x0A \<notin> set (canonical_json quote v)"
      using JObject.IH [OF that, of v] JObject.prems that by (auto simp: list_all_iff)
    moreover have "CHR 0x0A \<notin> set (quote k)" using JObject.prems(1) unfolding json_writer_def by blast
    ultimately show ?thesis by simp
  qed
  then show ?case
    using set_join_with [of "'',''" "map (\<lambda>(k, v). quote k @ '':'' @ canonical_json quote v) (sort_key by_key fs)"]
    unfolding canonical_json_object by auto
next
  case (JString x)
  then show ?case unfolding json_writer_def canonical_json.simps by blast
qed (auto simp: number_chars_def)

lemma last_separator:
  "a @ c # x = b @ c # y \<Longrightarrow> c \<notin> set x \<Longrightarrow> c \<notin> set y \<Longrightarrow> a = b \<and> x = y"
  by (induction a arbitrary: b) (auto simp: Cons_eq_append_conv append_eq_Cons_conv)

text \<open>
  C21: The text an idempotency fingerprint is taken of determines the request. For one action and
  resource type, two requests have the same text exactly when they have the same target (none and
  the empty one count as the same) and their JSON bodies agree up to the order of fields at every
  depth: no two different requests share a fingerprint unless the digest collides, and no
  reordering of fields makes a replay a conflict.
\<close>

theorem material_determines_request:
  assumes "json_writer quote" "json_wf body" "json_wf body'"
  shows "fingerprint_material quote act rt target body = fingerprint_material quote act rt target' body' \<longleftrightarrow>
    (case target of Some t \<Rightarrow> t | None \<Rightarrow> []) = (case target' of Some t \<Rightarrow> t | None \<Rightarrow> [])
    \<and> json_sorted body = json_sorted body'"
proof
  let ?t = "case target of Some t \<Rightarrow> t | None \<Rightarrow> []" and ?t' = "case target' of Some t \<Rightarrow> t | None \<Rightarrow> []"
  assume "fingerprint_material quote act rt target body = fingerprint_material quote act rt target' body'"
  then have "?t @ CHR 0x0A # canonical_json quote body = ?t' @ CHR 0x0A # canonical_json quote body'"
    by (simp add: fingerprint_material_def)
  from last_separator [OF this canonical_json_newline [OF assms(1,2)] canonical_json_newline [OF assms(1,3)]]
  have "?t = ?t'" "canonical_json quote body = canonical_json quote body'" by simp_all
  then show "?t = ?t' \<and> json_sorted body = json_sorted body'"
    using canonical_json_prefix [OF assms, of "[]" "[]"] by (simp add: delimited_def)
next
  assume "(case target of Some t \<Rightarrow> t | None \<Rightarrow> []) = (case target' of Some t \<Rightarrow> t | None \<Rightarrow> [])
    \<and> json_sorted body = json_sorted body'"
  then show "fingerprint_material quote act rt target body = fingerprint_material quote act rt target' body'"
    unfolding fingerprint_material_def by (metis canonical_json_sorted)
qed

text \<open>An example of such a writer: the short escapes of JSON.\<close>

definition json_escape :: "char \<Rightarrow> string" where
  "json_escape c =
     (if c = CHR 0x22 \<or> c = CHR 0x5C then [CHR 0x5C, c]
      else if c = CHR 0x0A then [CHR 0x5C, CHR ''n''] else [c])"

definition json_string :: "string \<Rightarrow> string" where
  "json_string s = CHR 0x22 # concat (map json_escape s) @ [CHR 0x22]"

lemma json_escape_unique: "json_escape c @ x = json_escape d @ y \<Longrightarrow> c = d \<and> x = y"
  by (auto simp: json_escape_def split: if_splits)

lemma json_string_writer: "json_writer json_string"
proof -
  have unique: "concat (map json_escape a) @ CHR 0x22 # s = concat (map json_escape b) @ CHR 0x22 # t \<Longrightarrow> a = b \<and> s = t"
    for a b s t
  proof (induction a arbitrary: b)
    case Nil
    then show ?case by (cases b) (auto simp: json_escape_def split: if_splits)
  next
    case (Cons c a)
    then obtain d b' where b: "b = d # b'" by (cases b) (auto simp: json_escape_def split: if_splits)
    with Cons.prems have "c = d" "concat (map json_escape a) @ CHR 0x22 # s = concat (map json_escape b') @ CHR 0x22 # t"
      using json_escape_unique [of c "concat (map json_escape a) @ CHR 0x22 # s" d] by simp_all
    with Cons.IH b show ?case by simp
  qed
  moreover have "CHR 0x0A \<notin> set (json_string s)" for s
    by (induction s) (auto simp: json_string_def json_escape_def)
  moreover have "a = b \<and> s = t" if "json_string a @ s = json_string b @ t" for a b s t
    using unique [of a s b t] that by (simp add: json_string_def)
  moreover have "json_string s \<noteq> [] \<and> hd (json_string s) = CHR 0x22" for s
    by (simp add: json_string_def)
  ultimately show ?thesis unfolding json_writer_def by blast
qed

theorem material_determines_request_witness:
  "fingerprint_material json_string ''compute:CreateServer'' ''compute:server'' None
       (JObject [(''name'', JString ''vm''), (''cpus'', JNumber ''2'')])
     = fingerprint_material json_string ''compute:CreateServer'' ''compute:server'' (Some [])
       (JObject [(''cpus'', JNumber ''2''), (''name'', JString ''vm'')])
   \<and> fingerprint_material json_string ''compute:CreateServer'' ''compute:server'' None
       (JArray [JNumber ''1'', JNumber ''2''])
     \<noteq> fingerprint_material json_string ''compute:CreateServer'' ''compute:server'' None
       (JArray [JNumber ''12''])"
proof
  show "fingerprint_material json_string ''compute:CreateServer'' ''compute:server'' None
       (JObject [(''name'', JString ''vm''), (''cpus'', JNumber ''2'')])
     = fingerprint_material json_string ''compute:CreateServer'' ''compute:server'' (Some [])
       (JObject [(''cpus'', JNumber ''2''), (''name'', JString ''vm'')])"
    by (subst material_determines_request [OF json_string_writer])
      (simp_all add: number_chars_def json_sorted_object utf8_key_def)
  show "fingerprint_material json_string ''compute:CreateServer'' ''compute:server'' None
       (JArray [JNumber ''1'', JNumber ''2''])
     \<noteq> fingerprint_material json_string ''compute:CreateServer'' ''compute:server'' None
       (JArray [JNumber ''12''])"
    by (subst material_determines_request [OF json_string_writer]) (simp_all add: number_chars_def)
qed

end
