(* ===== verification/Store_Acceptance.thy ===== *)
theory Store_Acceptance
  imports Kernel_Identifiers Request_Fingerprint Store_Operations
begin

text \<open>
  Idempotent acceptance of operations in the SQLite store (\<open>crates/o3k-store/src/sqlite/core.rs\<close>,
  the checks of \<open>src/lib.rs\<close>, the request of \<open>src/domain/records.rs\<close>; tables of the migrations
  0024, 0025 and 0038): a reservation binds (owner, action, key) to a fingerprint of the request
  and to the operation that serves it. Each operation is one transaction on the tables of
  \<open>Store_Operations\<close> together with the reservations and the owners of networks and address
  realms, which other components maintain (\<open>network_resources\<close> lists the identities of both).
  \<open>Database\<close> also stands for a row the source demands and does not find. Parameters: \<open>valid_time\<close>
  recognises RFC 3339, \<open>quote\<close> writes a JSON string, \<open>digest\<close> is SHA-256 in hexadecimal.
  Lemmas: a key is spent once, what a run keeps, acceptance is all or nothing, an accepted
  operation can be read back.
\<close>

section \<open>Requests\<close>

record reservation_request =
  q_owner :: string
  q_action :: string
  q_resource_type :: string
  q_key :: string
  q_fingerprint :: string
  q_operation :: string

definition max_key_length :: nat where
  "max_key_length = 128"

definition resource_type_str :: "resource_type \<Rightarrow> string" where
  "resource_type_str t = rt_namespace t @ '':'' @ rt_name t"

definition parse_resource_type :: "string \<Rightarrow> resource_type option" where
  "parse_resource_type s =
     (case split_once CHR '':'' s of
        None \<Rightarrow> None
      | Some (namespace, name) \<Rightarrow>
          (case resource_type_new namespace name of Inl _ \<Rightarrow> None | Inr t \<Rightarrow> Some t))"

definition from_semantics ::
  "(string \<Rightarrow> string) \<Rightarrow> (string \<Rightarrow> string) \<Rightarrow> string \<Rightarrow> string \<Rightarrow> string \<Rightarrow> string \<Rightarrow> string option
   \<Rightarrow> json \<Rightarrow> string \<Rightarrow> (store_error, reservation_request) rust_result" where
  "from_semantics quote digest owner act key rtype target body operation =
     (if owner = [] \<or> act = [] \<or> key = [] \<or> length key > max_key_length then Inl Corrupt
      else case action_id_parse act of
          Inl _ \<Rightarrow> Inl Corrupt
        | Inr a \<Rightarrow>
            (case parse_resource_type rtype of
               None \<Rightarrow> Inl Corrupt
             | Some t \<Rightarrow>
                 if action_namespace a \<noteq> rt_namespace t then Inl Corrupt
                 else let rt = resource_type_str t in
                   Inr \<lparr>q_owner = owner, q_action = act, q_resource_type = rt, q_key = key,
                        q_fingerprint = digest (fingerprint_material quote act rt target body),
                        q_operation = operation\<rparr>))"

section \<open>Canonical operations\<close>

text \<open>The metadata of a canonical operation; the state is that of the durable operation.\<close>

record canonical_record = canonical_row +
  cp_id :: string
  cp_state :: operation_state

record kernel_operation =
  k_id :: string
  k_service :: string
  k_action :: action_id
  k_actor :: string
  k_owner :: ownership_scope
  k_resource_type :: resource_type
  k_resource :: "resource_id option"
  k_state :: operation_state
  k_attempt :: int
  k_created :: string
  k_started :: "string option"
  k_finished :: "string option"
  k_error :: "string option"
  k_request :: "string option"

definition opt_ok :: "('a \<Rightarrow> bool) \<Rightarrow> 'a option \<Rightarrow> bool" where
  "opt_ok ok x = (case x of Some y \<Rightarrow> ok y | None \<Rightarrow> True)"

definition kernel_operation_of ::
  "(string \<Rightarrow> bool) \<Rightarrow> canonical_record \<Rightarrow> (store_error, kernel_operation) rust_result" where
  "kernel_operation_of valid_time c =
     (if trim (cn_created c) = [] \<or> \<not> valid_time (cn_created c)
         \<or> \<not> opt_ok valid_time (cn_started c) \<or> \<not> opt_ok valid_time (cn_finished c)
      then Inl Corrupt
      else case action_id_parse (cn_action c) of
          Inl _ \<Rightarrow> Inl Corrupt
        | Inr act \<Rightarrow>
      (case scope_id_new (cn_owner c) of
         Inl _ \<Rightarrow> Inl Corrupt
       | Inr owner \<Rightarrow>
      (case parse_resource_type (cn_resource_type c) of
         None \<Rightarrow> Inl Corrupt
       | Some rtype \<Rightarrow>
      (case (case cn_resource c of None \<Rightarrow> Inr None | Some r \<Rightarrow> map_sum id Some (resource_id_new r)) of
         Inl _ \<Rightarrow> Inl Corrupt
       | Inr resource \<Rightarrow>
           Inr \<lparr>k_id = cp_id c, k_service = cn_service c, k_action = act, k_actor = cn_actor c,
                k_owner = project_scope owner None None, k_resource_type = rtype,
                k_resource = resource, k_state = cp_state c, k_attempt = cn_attempt c,
                k_created = cn_created c, k_started = cn_started c, k_finished = cn_finished c,
                k_error = cn_error c, k_request = cn_request c\<rparr>))))"

definition from_kernel_operation :: "kernel_operation \<Rightarrow> (store_error, canonical_record) rust_result" where
  "from_kernel_operation k =
     (if scope_kind (k_owner k) \<noteq> Project then Inl Corrupt
      else Inr \<lparr>cn_service = k_service k, cn_action = action_id_as_str (k_action k),
                cn_actor = k_actor k, cn_owner = scope_id_str (scope_id (k_owner k)),
                cn_resource_type = resource_type_str (k_resource_type k),
                cn_resource = map_option resource_id_str (k_resource k), cn_attempt = k_attempt k,
                cn_created = k_created k, cn_started = k_started k, cn_finished = k_finished k,
                cn_error = k_error k, cn_request = k_request k, cp_id = k_id k,
                cp_state = k_state k\<rparr>)"

text \<open>The three records that accept one operation describe the same operation.\<close>

definition validate_identity ::
  "(string \<Rightarrow> bool) \<Rightarrow> operation_record \<Rightarrow> canonical_record \<Rightarrow> reservation_request
   \<Rightarrow> (store_error, unit) rust_result" where
  "validate_identity valid_time op c q =
     (if o_id op \<noteq> cp_id c \<or> o_id op \<noteq> q_operation q then Inl Corrupt
      else if o_state op \<noteq> cp_state c then Inl Corrupt
      else case kernel_operation_of valid_time c of
          Inl e \<Rightarrow> Inl e
        | Inr k \<Rightarrow>
            if trim (k_service k) = [] \<or> trim (k_actor k) = [] \<or> trim (k_created k) = [] then Inl Corrupt
            else if action_namespace (k_action k) \<noteq> rt_namespace (k_resource_type k) then Inl Corrupt
            else if action_id_as_str (k_action k) \<noteq> q_action q then Inl Corrupt
            else if resource_type_str (k_resource_type k) \<noteq> q_resource_type q then Inl Corrupt
            else if scope_kind (k_owner k) \<noteq> Project
                    \<or> scope_id_str (scope_id (k_owner k)) \<noteq> q_owner q then Inl Corrupt
            else case k_resource k of
                None \<Rightarrow> Inl Corrupt
              | Some r \<Rightarrow> if resource_id_str r \<noteq> o_resource op then Inl Corrupt else Inr ())"

text \<open>The canonical type of a durable resource kind, historical spellings included.\<close>

definition resource_type_for_record :: "resource_record \<Rightarrow> (store_error, resource_type) rust_result" where
  "resource_type_for_record r =
     (case (case split_once CHR '':'' (r_kind r) of
              Some (namespace, name) \<Rightarrow> Some (namespace, name)
            | None \<Rightarrow>
                if r_kind r \<in> {''compute_instance'', ''compute_server'', ''server'', ''compute:server''}
                then Some (''compute'', ''server'')
                else if r_kind r \<in> {''volume'', ''volume_volume'', ''volume:volume''}
                then Some (''volume'', ''volume'')
                else if r_kind r \<in> {''address_realm'', ''network_address_realm'', ''network:address_realm''}
                then Some (''network'', ''address_realm'')
                else None) of
        None \<Rightarrow> Inl Corrupt
      | Some (namespace, name) \<Rightarrow>
          (case resource_type_new namespace name of Inl _ \<Rightarrow> Inl Corrupt | Inr t \<Rightarrow> Inr t))"

definition validate_resource_acceptance ::
  "(string \<Rightarrow> bool) \<Rightarrow> resource_record \<Rightarrow> operation_record \<Rightarrow> canonical_record \<Rightarrow> reservation_request
   \<Rightarrow> (store_error, unit) rust_result" where
  "validate_resource_acceptance valid_time r op c q =
     (case validate_identity valid_time op c q of
        Inl e \<Rightarrow> Inl e
      | Inr _ \<Rightarrow>
          if o_resource op \<noteq> r_id r \<or> r_project r \<noteq> cn_owner c then Inl Corrupt
          else case resource_type_for_record r of
              Inl e \<Rightarrow> Inl e
            | Inr t \<Rightarrow> if resource_type_str t \<noteq> cn_resource_type c then Inl Corrupt else Inr ())"

text \<open>What a reader of a canonical operation checks, with and without a generic resource.\<close>

definition metadata_complete :: "(string \<Rightarrow> bool) \<Rightarrow> canonical_record \<Rightarrow> bool" where
  "metadata_complete valid_time c \<longleftrightarrow>
     trim (cn_actor c) \<noteq> [] \<and> trim (cn_created c) \<noteq> [] \<and> valid_time (cn_created c)
     \<and> opt_ok valid_time (cn_started c) \<and> opt_ok valid_time (cn_finished c)"

definition validate_operation_read ::
  "(string \<Rightarrow> bool) \<Rightarrow> operation_record \<Rightarrow> canonical_record \<Rightarrow> resource_record
   \<Rightarrow> (store_error, unit) rust_result" where
  "validate_operation_read valid_time op c r =
     (if o_id op \<noteq> cp_id c \<or> o_resource op \<noteq> r_id r \<or> cn_resource c \<noteq> Some (r_id r) then Inl Corrupt
      else if cn_owner c \<noteq> r_project r then Inl Corrupt
      else if \<not> metadata_complete valid_time c then Inl Corrupt
      else case action_id_parse (cn_action c) of
          Inl _ \<Rightarrow> Inl Corrupt
        | Inr act \<Rightarrow>
      (case parse_resource_type (cn_resource_type c) of
         None \<Rightarrow> Inl Corrupt
       | Some rtype \<Rightarrow>
      (case resource_type_for_record r of
         Inl e \<Rightarrow> Inl e
       | Inr expected \<Rightarrow>
           if action_namespace act \<noteq> rt_namespace rtype \<or> rtype \<noteq> expected then Inl Corrupt
           else if o_state op \<noteq> cp_state c then Inl Corrupt
           else Inr ())))"

definition validate_scoped_read ::
  "(string \<Rightarrow> bool) \<Rightarrow> operation_record \<Rightarrow> canonical_record \<Rightarrow> (store_error, unit) rust_result" where
  "validate_scoped_read valid_time op c =
     (if o_id op \<noteq> cp_id c \<or> cn_resource c \<noteq> Some (o_resource op) then Inl Corrupt
      else if \<not> metadata_complete valid_time c \<or> trim (cn_owner c) = [] then Inl Corrupt
      else case action_id_parse (cn_action c) of
          Inl _ \<Rightarrow> Inl Corrupt
        | Inr act \<Rightarrow>
      (case parse_resource_type (cn_resource_type c) of
         None \<Rightarrow> Inl Corrupt
       | Some rtype \<Rightarrow>
           if action_namespace act \<noteq> rt_namespace rtype \<or> o_state op \<noteq> cp_state c
              \<or> rt_namespace rtype \<noteq> ''network''
              \<or> rt_name rtype \<notin> {''network'', ''address_realm''}
           then Inl Corrupt
           else Inr ()))"

section \<open>The tables\<close>

type_synonym reservation_key = "string \<times> string \<times> string"

record stored_reservation =
  s_fingerprint :: string
  s_operation :: string

record acceptance_db =
  ac_ops :: operations_db
  ac_reservations :: "(reservation_key \<times> stored_reservation) list"
  ac_networks :: "string \<rightharpoonup> string"
  ac_realms :: "string \<rightharpoonup> string"

datatype reservation = Created string | ExistingEquivalent string | Conflict

datatype acceptance_outcome =
    AcceptanceCreated string string
  | AcceptanceExisting string string
  | AcceptanceConflict

definition request_key :: "reservation_request \<Rightarrow> reservation_key" where
  "request_key q = (q_owner q, q_action q, q_key q)"

definition find_reservation :: "acceptance_db \<Rightarrow> reservation_key \<Rightarrow> stored_reservation option" where
  "find_reservation a k = map_of (ac_reservations a) k"

definition get_idempotency_reservation ::
  "acceptance_db \<Rightarrow> string \<Rightarrow> string \<Rightarrow> string \<Rightarrow> stored_reservation option" where
  "get_idempotency_reservation a owner act key = find_reservation a (owner, act, key)"

text \<open>
  Inserting a reservation: the check of the key, then the primary key and the unique index on the
  operation.
\<close>

datatype insert_result = Inserted acceptance_db | UniqueViolation | Refused

definition insert_reservation :: "reservation_request \<Rightarrow> acceptance_db \<Rightarrow> insert_result" where
  "insert_reservation q a =
     (if q_key q = [] \<or> max_key_length < length (q_key q) then Refused
      else if find_reservation a (request_key q) \<noteq> None
              \<or> q_operation q \<in> set (map (s_operation \<circ> snd) (ac_reservations a)) then UniqueViolation
      else Inserted (a\<lparr>ac_reservations := (request_key q,
             \<lparr>s_fingerprint = q_fingerprint q, s_operation = q_operation q\<rparr>) # ac_reservations a\<rparr>))"

definition stored_answer :: "reservation_request \<Rightarrow> stored_reservation \<Rightarrow> reservation" where
  "stored_answer q s =
     (if s_fingerprint s \<noteq> q_fingerprint q then Conflict else ExistingEquivalent (s_operation s))"

definition reserve_idempotent_operation ::
  "reservation_request \<Rightarrow> acceptance_db \<Rightarrow> (store_error, reservation) rust_result \<times> acceptance_db" where
  "reserve_idempotent_operation q a =
     (case insert_reservation q a of
        Inserted a' \<Rightarrow> (Inr (Created (q_operation q)), a')
      | UniqueViolation \<Rightarrow>
          (case find_reservation a (request_key q) of
             None \<Rightarrow> (Inl IdempotencyConflict, a)
           | Some s \<Rightarrow> (Inr (stored_answer q s), a))
      | Refused \<Rightarrow> (Inl Database, a))"

text \<open>The row of the operation as a statement of a larger transaction inserts it.\<close>

definition insert_operation_row :: "operation_record \<Rightarrow> acceptance_db \<Rightarrow> insert_result" where
  "insert_operation_row op a =
     (if \<not> resource_known (ac_ops a) (o_resource op) then Refused
      else if find_operation (ac_ops a) (o_id op) \<noteq> None then UniqueViolation
      else Inserted (a\<lparr>ac_ops := put_operation op (ac_ops a)\<rparr>))"

text \<open>
  Deleting the operation this transaction has inserted itself: no row can refer to it yet, so
  nothing cascades.
\<close>

definition delete_operation_row :: "string \<Rightarrow> acceptance_db \<Rightarrow> acceptance_db" where
  "delete_operation_row i a =
     a\<lparr>ac_ops := (ac_ops a)\<lparr>operation_rows := AList.delete i (operation_rows (ac_ops a))\<rparr>\<rparr>"

definition answered ::
  "acceptance_db \<Rightarrow> string \<Rightarrow> bool \<Rightarrow> reservation \<Rightarrow> acceptance_db
   \<Rightarrow> (store_error, reservation) rust_result \<times> acceptance_db" where
  "answered a i inserted outcome a1 =
     (let lost = (case outcome of Conflict \<Rightarrow> True | ExistingEquivalent j \<Rightarrow> j \<noteq> i | Created _ \<Rightarrow> False);
          a2 = (if inserted \<and> lost then delete_operation_row i a1 else a1)
      in if (case outcome of ExistingEquivalent j \<Rightarrow> find_operation (ac_ops a2) j = None | _ \<Rightarrow> False)
         then (Inl Corrupt, a) else (Inr outcome, a2))"

definition create_or_replay_idempotent_operation ::
  "operation_record \<Rightarrow> reservation_request \<Rightarrow> acceptance_db
   \<Rightarrow> (store_error, reservation) rust_result \<times> acceptance_db" where
  "create_or_replay_idempotent_operation op q a =
     (if o_id op \<noteq> q_operation q then (Inl Corrupt, a)
      else case insert_operation_row op a of
          Refused \<Rightarrow> (Inl Database, a)
        | ins \<Rightarrow>
            let inserted = (case ins of Inserted _ \<Rightarrow> True | _ \<Rightarrow> False);
                a1 = (case ins of Inserted a1 \<Rightarrow> a1 | _ \<Rightarrow> a)
            in case insert_reservation q a1 of
                Refused \<Rightarrow> (Inl Database, a)
              | Inserted a2 \<Rightarrow> answered a (o_id op) inserted (Created (q_operation q)) a2
              | UniqueViolation \<Rightarrow>
                  (case find_reservation a1 (request_key q) of
                     None \<Rightarrow> (Inl IdempotencyConflict, a)
                   | Some s \<Rightarrow> answered a (o_id op) inserted (stored_answer q s) a1))"

section \<open>Canonical acceptance\<close>

definition canonical_of_row :: "string \<Rightarrow> operation_state \<Rightarrow> canonical_row \<Rightarrow> canonical_record" where
  "canonical_of_row i state c = canonical_row.extend c \<lparr>cp_id = i, cp_state = state\<rparr>"

text \<open>The attempt of a row is read as a \<open>u32\<close>.\<close>

definition read_canonical ::
  "operations_db \<Rightarrow> string \<Rightarrow> operation_state \<Rightarrow> store_error \<Rightarrow> (store_error, canonical_record) rust_result" where
  "read_canonical db i state missing =
     (case canonical_rows db i of
        None \<Rightarrow> Inl missing
      | Some c \<Rightarrow> if cn_attempt c < 0 \<or> 2 ^ 32 \<le> cn_attempt c then Inl Corrupt
                  else Inr (canonical_of_row i state c))"

text \<open>The inserts every canonical acceptance ends with: operation, metadata, reservation.\<close>

definition insert_canonical_acceptance ::
  "operation_record \<Rightarrow> canonical_record \<Rightarrow> reservation_request \<Rightarrow> acceptance_db
   \<Rightarrow> (store_error, acceptance_db) rust_result" where
  "insert_canonical_acceptance op c q a =
     (case insert_operation_row op a of
        Inserted a1 \<Rightarrow>
          if canonical_rows (ac_ops a1) (cp_id c) \<noteq> None
             \<or> find_operation (ac_ops a1) (cp_id c) = None \<or> cn_attempt c < 0
          then Inl Database
          else let a2 = a1\<lparr>ac_ops := (ac_ops a1)\<lparr>canonical_rows := (canonical_rows (ac_ops a1))
                              (cp_id c \<mapsto> canonical_row.truncate c)\<rparr>\<rparr>
               in (case insert_reservation q a2 of Inserted a3 \<Rightarrow> Inr a3 | _ \<Rightarrow> Inl Database)
      | _ \<Rightarrow> Inl Database)"

text \<open>Commit on success, roll back on an error.\<close>

definition commit_or_rollback ::
  "acceptance_db \<Rightarrow> (store_error, 'r \<times> acceptance_db) rust_result \<Rightarrow> (store_error, 'r) rust_result \<times> acceptance_db" where
  "commit_or_rollback a outcome = (case outcome of Inl e \<Rightarrow> (Inl e, a) | Inr (r, a') \<Rightarrow> (Inr r, a'))"

text \<open>The replay of an idempotent canonical operation checks everything it answers for.\<close>

definition replay_idempotent ::
  "(string \<Rightarrow> bool) \<Rightarrow> reservation_request \<Rightarrow> stored_reservation \<Rightarrow> acceptance_db
   \<Rightarrow> (store_error, reservation) rust_result" where
  "replay_idempotent valid_time q s a =
     (if s_fingerprint s \<noteq> q_fingerprint q then Inr Conflict
      else case find_operation (ac_ops a) (s_operation s) of
          None \<Rightarrow> Inl Corrupt
        | Some op \<Rightarrow>
      (case read_canonical (ac_ops a) (s_operation s) (o_state op) Corrupt of
         Inl e \<Rightarrow> Inl e
       | Inr c \<Rightarrow>
      (case validate_identity valid_time op c (q\<lparr>q_operation := s_operation s\<rparr>) of
         Inl e \<Rightarrow> Inl e
       | Inr _ \<Rightarrow>
      (case resource_rows (ac_ops a) (o_resource op) of
         None \<Rightarrow> Inl Corrupt
       | Some r \<Rightarrow> if r_project r \<noteq> cn_owner c then Inl Corrupt
                   else Inr (ExistingEquivalent (s_operation s))))))"

definition create_or_replay_canonical_idempotent_operation ::
  "(string \<Rightarrow> bool) \<Rightarrow> operation_record \<Rightarrow> canonical_record \<Rightarrow> reservation_request \<Rightarrow> acceptance_db
   \<Rightarrow> (store_error, reservation) rust_result \<times> acceptance_db" where
  "create_or_replay_canonical_idempotent_operation valid_time op c q a =
     (if q_key q = [] \<or> max_key_length < length (q_key q) then (Inl Corrupt, a)
      else case validate_identity valid_time op c q of
          Inl e \<Rightarrow> (Inl e, a)
        | Inr _ \<Rightarrow> commit_or_rollback a
      (case find_reservation a (request_key q) of
         Some s \<Rightarrow> map_sum id (\<lambda>r. (r, a)) (replay_idempotent valid_time q s a)
       | None \<Rightarrow>
      (case resource_rows (ac_ops a) (o_resource op) of
         None \<Rightarrow> Inl ResourceNotFound
       | Some r \<Rightarrow>
           if r_project r \<noteq> cn_owner c then Inl Corrupt
           else if find_operation (ac_ops a) (o_id op) \<noteq> None then Inl Corrupt
           else map_sum id (\<lambda>a'. (Created (o_id op), a')) (insert_canonical_acceptance op c q a))))"

definition create_or_replay_canonical_scoped_operation ::
  "(string \<Rightarrow> bool) \<Rightarrow> operation_record \<Rightarrow> canonical_record \<Rightarrow> reservation_request \<Rightarrow> acceptance_db
   \<Rightarrow> (store_error, reservation) rust_result \<times> acceptance_db" where
  "create_or_replay_canonical_scoped_operation valid_time op c q a =
     (if o_id op \<noteq> q_operation q then (Inl Corrupt, a)
      else case validate_identity valid_time op c q of
          Inl e \<Rightarrow> (Inl e, a)
        | Inr _ \<Rightarrow> commit_or_rollback a
      (case find_reservation a (request_key q) of
         Some s \<Rightarrow>
           if s_fingerprint s \<noteq> q_fingerprint q then Inr (Conflict, a)
           else (case (find_operation (ac_ops a) (s_operation s), canonical_rows (ac_ops a) (s_operation s)) of
               (Some o1, Some c1) \<Rightarrow>
                 if o_resource o1 \<noteq> o_resource op \<or> cn_owner c1 \<noteq> q_owner q \<or> cn_action c1 \<noteq> q_action q
                    \<or> cn_resource c1 \<noteq> Some (o_resource op)
                 then Inl Corrupt else Inr (ExistingEquivalent (s_operation s), a)
             | _ \<Rightarrow> Inl Database)
       | None \<Rightarrow>
           if cn_resource_type c \<notin> {''network:network'', ''network:address_realm''} then Inl Corrupt
           else if (if cn_resource_type c = ''network:network'' then ac_networks a (o_resource op)
                    else ac_realms a (o_resource op)) \<noteq> Some (cn_owner c)
           then Inl ResourceNotFound
           else map_sum id (\<lambda>a'. (Created (o_id op), a')) (insert_canonical_acceptance op c q a)))"

text \<open>The replay of an acceptance that answers for a resource as well.\<close>

definition replay_acceptance ::
  "(string \<Rightarrow> bool) \<Rightarrow> reservation_request \<Rightarrow> stored_reservation \<Rightarrow> acceptance_db
   \<Rightarrow> (store_error, acceptance_outcome) rust_result" where
  "replay_acceptance valid_time q s a =
     (if s_fingerprint s \<noteq> q_fingerprint q then Inr AcceptanceConflict
      else case find_operation (ac_ops a) (s_operation s) of
          None \<Rightarrow> Inl Database
        | Some op \<Rightarrow>
      (case read_canonical (ac_ops a) (s_operation s) (o_state op) Database of
         Inl e \<Rightarrow> Inl e
       | Inr c \<Rightarrow>
      (case resource_rows (ac_ops a) (o_resource op) of
         None \<Rightarrow> Inl Database
       | Some r \<Rightarrow>
      (case validate_resource_acceptance valid_time r op c (q\<lparr>q_operation := s_operation s\<rparr>) of
         Inl e \<Rightarrow> Inl e
       | Inr _ \<Rightarrow> Inr (AcceptanceExisting (s_operation s) (o_resource op))))))"

definition create_or_replay_canonical_resource_operation ::
  "(string \<Rightarrow> bool) \<Rightarrow> resource_record \<Rightarrow> operation_record \<Rightarrow> canonical_record \<Rightarrow> reservation_request
   \<Rightarrow> string option \<Rightarrow> acceptance_db \<Rightarrow> (store_error, acceptance_outcome) rust_result \<times> acceptance_db" where
  "create_or_replay_canonical_resource_operation valid_time r op c q allocation a =
     (case validate_resource_acceptance valid_time r op c q of
        Inl e \<Rightarrow> (Inl e, a)
      | Inr _ \<Rightarrow> commit_or_rollback a
      (case find_reservation a (request_key q) of
         Some s \<Rightarrow> map_sum id (\<lambda>x. (x, a)) (replay_acceptance valid_time q s a)
       | None \<Rightarrow>
           if (case allocation of Some i \<Rightarrow> i \<notin> set (allocation_ids (ac_ops a)) | None \<Rightarrow> False)
           then Inl PlacementAllocationNotFound
           else (case insert_resource r (ac_ops a) of
               (Inl e, _) \<Rightarrow> Inl e
             | (Inr _, db) \<Rightarrow> map_sum id (\<lambda>a'. (AcceptanceCreated (o_id op) (r_id r), a'))
                 (insert_canonical_acceptance op c q (a\<lparr>ac_ops := db\<rparr>)))))"

text \<open>
  The lifecycle acceptance reads the resource once before its transaction; \<open>seen\<close> is what that
  read answered, from the tables as they were then.
\<close>

definition create_or_replay_canonical_lifecycle_operation ::
  "(string \<Rightarrow> bool) \<Rightarrow> (store_error, resource_record) rust_result \<Rightarrow> operation_record \<Rightarrow> canonical_record
   \<Rightarrow> reservation_request \<Rightarrow> acceptance_db
   \<Rightarrow> (store_error, acceptance_outcome) rust_result \<times> acceptance_db" where
  "create_or_replay_canonical_lifecycle_operation valid_time seen op c q a =
     (case seen of
        Inl e \<Rightarrow> (Inl e, a)
      | Inr r0 \<Rightarrow>
      (case validate_resource_acceptance valid_time r0 op c q of
         Inl e \<Rightarrow> (Inl e, a)
       | Inr _ \<Rightarrow> commit_or_rollback a
      (case find_reservation a (request_key q) of
         Some s \<Rightarrow> map_sum id (\<lambda>x. (x, a)) (replay_acceptance valid_time q s a)
       | None \<Rightarrow>
      (case resource_rows (ac_ops a) (o_resource op) of
         None \<Rightarrow> Inl Database
       | Some r \<Rightarrow>
      (case validate_resource_acceptance valid_time r op c q of
         Inl e \<Rightarrow> Inl e
       | Inr _ \<Rightarrow> map_sum id (\<lambda>a'. (AcceptanceCreated (o_id op) (o_resource op), a'))
           (insert_canonical_acceptance op c q a))))))"

section \<open>Readers\<close>

text \<open>The owner a network or realm row gives, and whether the other table has the identity.\<close>

definition check_service_owner ::
  "(string \<rightharpoonup> string) \<Rightarrow> (string \<rightharpoonup> string) \<Rightarrow> string \<Rightarrow> string \<Rightarrow> (store_error, unit) rust_result" where
  "check_service_owner own other i owner =
     (case own i of
        Some p \<Rightarrow> if p \<noteq> owner then Inl Corrupt else Inr ()
      | None \<Rightarrow> if other i \<noteq> None then Inl Corrupt else Inr ())"

definition get_canonical_operation ::
  "(string \<Rightarrow> bool) \<Rightarrow> acceptance_db \<Rightarrow> string \<Rightarrow> (store_error, canonical_record) rust_result" where
  "get_canonical_operation valid_time a i =
     (if canonical_rows (ac_ops a) i = None then Inl OperationNotFound
      else case find_operation (ac_ops a) i of
          None \<Rightarrow> Inl OperationNotFound
        | Some op \<Rightarrow>
      (case read_canonical (ac_ops a) i (o_state op) OperationNotFound of
         Inl e \<Rightarrow> Inl e
       | Inr c \<Rightarrow>
      (case (if cn_resource_type c = ''network:network''
             then check_service_owner (ac_networks a) (ac_realms a) (o_resource op) (cn_owner c)
             else if cn_resource_type c = ''network:address_realm''
             then check_service_owner (ac_realms a) (ac_networks a) (o_resource op) (cn_owner c)
             else Inr ()) of
         Inl e \<Rightarrow> Inl e
       | Inr _ \<Rightarrow>
      (case (case get_resource (ac_ops a) (o_resource op) of
               Inr r \<Rightarrow> validate_operation_read valid_time op c r
             | Inl _ \<Rightarrow> validate_scoped_read valid_time op c) of
         Inl e \<Rightarrow> Inl e
       | Inr _ \<Rightarrow> Inr c))))"

text \<open>The page joins the metadata of an owner with the operations, in the order of identities.\<close>

definition list_canonical_operations_page ::
  "acceptance_db \<Rightarrow> string \<Rightarrow> string option \<Rightarrow> nat \<Rightarrow> (store_error, canonical_record list) rust_result" where
  "list_canonical_operations_page a owner after limit =
     collect_results (\<lambda>(i, op). read_canonical (ac_ops a) i (o_state op) Database)
       (take limit (sort_key fst (filter
          (\<lambda>(i, op). (case canonical_rows (ac_ops a) i of Some c \<Rightarrow> cn_owner c = owner | None \<Rightarrow> False)
             \<and> (case after of Some b \<Rightarrow> b < i | None \<Rightarrow> True))
          (operation_rows (ac_ops a)))))"

section \<open>What acceptance keeps\<close>

text \<open>Every way to accept an operation, and its answer in one form.\<close>

datatype attempt =
    Idempotent operation_record reservation_request
  | CanonicalIdempotent operation_record canonical_record reservation_request
  | Scoped operation_record canonical_record reservation_request
  | ResourceAcceptance resource_record operation_record canonical_record reservation_request "string option"
  | LifecycleAcceptance "(store_error, resource_record) rust_result" operation_record canonical_record
      reservation_request

fun attempt_request :: "attempt \<Rightarrow> reservation_request" where
  "attempt_request (Idempotent op q) = q"
| "attempt_request (CanonicalIdempotent op c q) = q"
| "attempt_request (Scoped op c q) = q"
| "attempt_request (ResourceAcceptance r op c q p) = q"
| "attempt_request (LifecycleAcceptance seen op c q) = q"

fun reservation_of :: "acceptance_outcome \<Rightarrow> reservation" where
  "reservation_of (AcceptanceCreated i r) = Created i"
| "reservation_of (AcceptanceExisting i r) = ExistingEquivalent i"
| "reservation_of AcceptanceConflict = Conflict"

definition plain :: "(store_error, acceptance_outcome) rust_result \<times> acceptance_db
    \<Rightarrow> (store_error, reservation) rust_result \<times> acceptance_db" where
  "plain x = (map_sum id reservation_of (fst x), snd x)"

fun accept :: "(string \<Rightarrow> bool) \<Rightarrow> attempt \<Rightarrow> acceptance_db
    \<Rightarrow> (store_error, reservation) rust_result \<times> acceptance_db" where
  "accept v (Idempotent op q) a = create_or_replay_idempotent_operation op q a"
| "accept v (CanonicalIdempotent op c q) a = create_or_replay_canonical_idempotent_operation v op c q a"
| "accept v (Scoped op c q) a = create_or_replay_canonical_scoped_operation v op c q a"
| "accept v (ResourceAcceptance r op c q p) a =
     plain (create_or_replay_canonical_resource_operation v r op c q p a)"
| "accept v (LifecycleAcceptance seen op c q) a =
     plain (create_or_replay_canonical_lifecycle_operation v seen op c q a)"

datatype acceptance_op = Attempt attempt | Reserve reservation_request | Store store_op

fun acceptance_after :: "(string \<Rightarrow> bool) \<Rightarrow> acceptance_db \<Rightarrow> acceptance_op \<Rightarrow> acceptance_db" where
  "acceptance_after v a (Attempt x) = snd (accept v x a)"
| "acceptance_after v a (Reserve q) = snd (reserve_idempotent_operation q a)"
| "acceptance_after v a (Store x) = a\<lparr>ac_ops := store_after v (ac_ops a) x\<rparr>"

definition acceptance_step :: "(string \<Rightarrow> bool) \<Rightarrow> acceptance_db \<Rightarrow> acceptance_op \<Rightarrow> unit + acceptance_db" where
  "acceptance_step v a x = Inr (acceptance_after v a x)"

definition acceptance_le :: "acceptance_db \<Rightarrow> acceptance_db \<Rightarrow> bool" where
  "acceptance_le a a' \<longleftrightarrow> history_le (ac_ops a) (ac_ops a')
     \<and> (\<forall>k s. find_reservation a k = Some s \<longrightarrow> find_reservation a' k = Some s)"

lemma acceptance_le_refl [simp]: "acceptance_le a a"
  by (simp add: acceptance_le_def)

lemma acceptance_le_trans: "acceptance_le a b \<Longrightarrow> acceptance_le b c \<Longrightarrow> acceptance_le a c"
  unfolding acceptance_le_def using history_le_trans by blast

text \<open>The effect of an attempt: nothing, or its own operation and reservation added.\<close>

lemma insert_reservation_le: "insert_reservation q a = Inserted a' \<Longrightarrow> acceptance_le a a'"
  by (auto simp: insert_reservation_def acceptance_le_def find_reservation_def split: if_splits)

lemma insert_operation_row_le: "insert_operation_row op a = Inserted a' \<Longrightarrow> acceptance_le a a'"
  by (auto simp: insert_operation_row_def acceptance_le_def find_reservation_def
      intro: history_le_put_new split: if_splits)

lemma insert_reservation_row:
  assumes "insert_reservation q a = Inserted a'"
  shows "find_reservation a' (request_key q) =
           Some \<lparr>s_fingerprint = q_fingerprint q, s_operation = q_operation q\<rparr>"
    and "find_reservation a (request_key q) = None" "ac_ops a' = ac_ops a"
  using assms by (auto simp: insert_reservation_def find_reservation_def split: if_splits)

lemma insert_operation_row_found:
  assumes "insert_operation_row op a = Inserted a'"
  shows "find_operation (ac_ops a') (o_id op) = Some op" "find_operation (ac_ops a) (o_id op) = None"
    and "find_reservation a' = find_reservation a" "canonical_rows (ac_ops a') = canonical_rows (ac_ops a)"
    and "resource_rows (ac_ops a') = resource_rows (ac_ops a)"
  using assms by (auto simp: insert_operation_row_def find_operation_put find_reservation_def fun_eq_iff
      split: if_splits)

lemma delete_inserted:
  assumes "insert_operation_row op a = Inserted a'"
  shows "delete_operation_row (o_id op) a' = a"
proof -
  have "find_operation (ac_ops a) (o_id op) = None" and
    a': "a' = a\<lparr>ac_ops := put_operation op (ac_ops a)\<rparr>"
    using assms by (auto simp: insert_operation_row_def split: if_splits)
  then have n: "o_id op \<notin> fst ` set (operation_rows (ac_ops a))"
    by (simp add: find_operation_def map_of_eq_None_iff)
  have "AList.update i r xs = xs @ [(i, r)] \<and> AList.delete i (xs @ [(i, r)]) = xs"
    if "i \<notin> fst ` set xs" for i and r :: operation_record and xs
    using that by (induction xs) (auto simp: AList.delete_eq)
  from this [OF n] show ?thesis by (simp add: a' delete_operation_row_def put_operation_def)
qed

text \<open>
  The one contract of every attempt: a refused one changes nothing; a creation reserves a free key
  for an operation that exists then; a replay answers what the key holds.
\<close>

definition contract ::
  "reservation_request \<Rightarrow> acceptance_db \<Rightarrow> (store_error, reservation) rust_result \<times> acceptance_db \<Rightarrow> bool" where
  "contract q a x \<longleftrightarrow>
     (case fst x of
        Inl e \<Rightarrow> snd x = a
      | Inr (Created i) \<Rightarrow>
          find_reservation a (request_key q) = None
          \<and> find_reservation (snd x) (request_key q) = Some \<lparr>s_fingerprint = q_fingerprint q, s_operation = i\<rparr>
          \<and> acceptance_le a (snd x) \<and> find_operation (ac_ops (snd x)) i \<noteq> None
      | Inr (ExistingEquivalent i) \<Rightarrow>
          find_reservation a (request_key q) = Some \<lparr>s_fingerprint = q_fingerprint q, s_operation = i\<rparr>
          \<and> acceptance_le a (snd x) \<and> (find_operation (ac_ops a) i \<noteq> None \<longrightarrow> snd x = a)
      | Inr Conflict \<Rightarrow>
          (\<exists>s. find_reservation a (request_key q) = Some s \<and> s_fingerprint s \<noteq> q_fingerprint q)
          \<and> snd x = a)"

lemma contract_refused [simp]: "contract q a (Inl e, a)"
  by (simp add: contract_def)

lemma contract_commit:
  assumes "\<And>r a'. t = Inr (r, a') \<Longrightarrow> contract q a (Inr r, a')"
  shows "contract q a (commit_or_rollback a t)"
  using assms by (cases t) (auto simp: commit_or_rollback_def)

lemma contract_stored:
  "find_reservation a (request_key q) = Some s \<Longrightarrow> contract q a (Inr (stored_answer q s), a)"
  by (cases s) (auto simp: contract_def stored_answer_def)

lemma contract_created:
  assumes "insert_canonical_acceptance op c q a0 = Inr a'" "acceptance_le a a0"
    "find_reservation a0 = find_reservation a" "o_id op = q_operation q"
  shows "contract q a (Inr (Created (o_id op)), a')"
proof -
  obtain a1 where a1: "insert_operation_row op a0 = Inserted a1"
    using assms(1) by (auto simp: insert_canonical_acceptance_def split: insert_result.splits)
  let ?a2 = "a1\<lparr>ac_ops := (ac_ops a1)\<lparr>canonical_rows := (canonical_rows (ac_ops a1))
                              (cp_id c \<mapsto> canonical_row.truncate c)\<rparr>\<rparr>"
  have a': "insert_reservation q ?a2 = Inserted a'"
    using assms(1) a1 by (auto simp: insert_canonical_acceptance_def split: insert_result.splits if_splits)
  have "acceptance_le a1 ?a2"
    by (simp add: acceptance_le_def find_reservation_def history_le_operations find_operation_def history_le_same)
  then have "acceptance_le a a'"
    using assms(2) insert_operation_row_le [OF a1] insert_reservation_le [OF a'] acceptance_le_trans by blast
  moreover have "find_operation (ac_ops a') (o_id op) = Some op"
    using insert_operation_row_found(1) [OF a1] insert_reservation_row(3) [OF a']
    by (simp add: find_operation_def)
  moreover have "find_reservation ?a2 = find_reservation a"
    using insert_operation_row_found(3) [OF a1] assms(3) by (simp add: find_reservation_def fun_eq_iff)
  ultimately show ?thesis
    using insert_reservation_row(1,2) [OF a'] assms(4) by (simp add: contract_def)
qed

lemma replay_idempotent_stored:
  "replay_idempotent v q s a = Inr r \<Longrightarrow> r = stored_answer q s"
  by (auto simp: replay_idempotent_def stored_answer_def split: if_splits option.splits sum.splits)

lemma replay_acceptance_stored:
  "replay_acceptance v q s a = Inr r \<Longrightarrow> reservation_of r = stored_answer q s"
  by (auto simp: replay_acceptance_def stored_answer_def split: if_splits option.splits sum.splits)

lemma validate_identity_ids:
  "validate_identity v op c q = Inr u \<Longrightarrow> o_id op = q_operation q \<and> o_id op = cp_id c"
  by (auto simp: validate_identity_def split: if_splits)

lemma validate_resource_identity:
  "validate_resource_acceptance v r op c q = Inr u \<Longrightarrow> validate_identity v op c q = Inr ()"
  by (auto simp: validate_resource_acceptance_def split: if_splits sum.splits)


lemma contract_idempotent: "contract q a (create_or_replay_idempotent_operation op q a)"
proof (cases "o_id op = q_operation q \<and> insert_operation_row op a \<noteq> Refused")
  case True
  define inserted where
    "inserted = (case insert_operation_row op a of Inserted _ \<Rightarrow> True | _ \<Rightarrow> False)"
  define a1 where "a1 = (case insert_operation_row op a of Inserted a1 \<Rightarrow> a1 | _ \<Rightarrow> a)"
  have row: "insert_operation_row op a = Inserted a1 \<and> inserted
      \<or> insert_operation_row op a = UniqueViolation \<and> \<not> inserted \<and> a1 = a"
    using True by (cases "insert_operation_row op a") (simp_all add: inserted_def a1_def)
  have le: "acceptance_le a a1" and same: "find_reservation a1 = find_reservation a"
    using row by (auto dest: insert_operation_row_le insert_operation_row_found(3))
  have dup: "insert_operation_row op a = UniqueViolation \<Longrightarrow> find_operation (ac_ops a) (o_id op) \<noteq> None"
    by (simp add: insert_operation_row_def split: if_splits)
  have found: "find_operation (ac_ops a1) (o_id op) \<noteq> None"
    using row dup by (auto dest: insert_operation_row_found(1))
  have undo: "inserted \<Longrightarrow> delete_operation_row (o_id op) a1 = a" "\<not> inserted \<Longrightarrow> a1 = a"
    using row delete_inserted by auto
  have unfold: "create_or_replay_idempotent_operation op q a =
     (case insert_reservation q a1 of
        Refused \<Rightarrow> (Inl Database, a)
      | Inserted a2 \<Rightarrow> answered a (o_id op) inserted (Created (q_operation q)) a2
      | UniqueViolation \<Rightarrow>
          (case find_reservation a1 (request_key q) of
             None \<Rightarrow> (Inl IdempotencyConflict, a)
           | Some s \<Rightarrow> answered a (o_id op) inserted (stored_answer q s) a1))"
    using True row by (elim disjE conjE) (simp_all add: create_or_replay_idempotent_operation_def inserted_def
      split: insert_result.split option.split)
  show ?thesis
  proof (cases "insert_reservation q a1")
    case (Inserted a2)
    then have "acceptance_le a a2" using insert_reservation_le le acceptance_le_trans by blast
    with Inserted True found show ?thesis
      using insert_reservation_row [OF Inserted] by (simp add: unfold answered_def contract_def same)
  next
    case UniqueViolation
    have "contract q a (answered a (o_id op) inserted (stored_answer q s) a1)"
      if s: "find_reservation a (request_key q) = Some s" for s
    proof (cases "s_fingerprint s = q_fingerprint q")
      case False
      with s undo show ?thesis by (simp add: answered_def stored_answer_def contract_def)
    next
      case fp: True
      show ?thesis
      proof (cases "s_operation s = o_id op")
        case True
        have "find_operation (ac_ops a) (o_id op) \<noteq> None \<Longrightarrow> a1 = a"
          using row by (auto dest: insert_operation_row_found(2))
        with True s fp found le show ?thesis
          by (cases s) (auto simp: answered_def stored_answer_def contract_def)
      next
        case False
        with s fp undo show ?thesis
          by (cases s) (auto simp: answered_def stored_answer_def contract_def Let_def)
      qed
    qed
    with UniqueViolation show ?thesis by (simp add: unfold same split: option.split)
  qed (simp add: unfold)
qed (auto simp: create_or_replay_idempotent_operation_def)

text \<open>The transactions of the canonical attempts: a replay of a spent key, or the inserts.\<close>

lemma contract_transaction:
  assumes "\<And>s r. find_reservation a (request_key q) = Some s \<Longrightarrow> replay s = Inr r \<Longrightarrow> r = stored_answer q s"
    and "\<And>r a'. find_reservation a (request_key q) = None \<Longrightarrow> fresh = Inr (r, a') \<Longrightarrow> contract q a (Inr r, a')"
  shows "contract q a (commit_or_rollback a (case find_reservation a (request_key q) of
           Some s \<Rightarrow> map_sum id (\<lambda>r. (r, a)) (replay s) | None \<Rightarrow> fresh))"
proof (rule contract_commit)
  fix r a'
  assume t: "(case find_reservation a (request_key q) of
           Some s \<Rightarrow> map_sum id (\<lambda>r. (r, a)) (replay s) | None \<Rightarrow> fresh) = Inr (r, a')"
  show "contract q a (Inr r, a')"
  proof (cases "find_reservation a (request_key q)")
    case None
    with t show ?thesis by (simp add: assms(2))
  next
    case (Some s)
    with t have "replay s = Inr r" "a' = a" by (cases "replay s"; simp)+
    with Some show ?thesis using assms(1) contract_stored by metis
  qed
qed

lemma map_sum_Inr: "map_sum id f x = Inr y \<longleftrightarrow> (\<exists>z. x = Inr z \<and> y = f z)"
  by (cases x) auto

lemma contract_canonical_idempotent:
  "contract q a (create_or_replay_canonical_idempotent_operation v op c q a)"
proof (cases "validate_identity v op c q")
  case (Inr u)
  note ids = validate_identity_ids [OF this]
  let ?fresh = "case resource_rows (ac_ops a) (o_resource op) of
         None \<Rightarrow> Inl ResourceNotFound
       | Some r \<Rightarrow>
           if r_project r \<noteq> cn_owner c then Inl Corrupt
           else if find_operation (ac_ops a) (o_id op) \<noteq> None then Inl Corrupt
           else map_sum id (\<lambda>a'. (Created (o_id op), a')) (insert_canonical_acceptance op c q a)"
  have "contract q a (Inr r, a')" if "?fresh = Inr (r, a')" for r a'
  proof -
    have "insert_canonical_acceptance op c q a = Inr a'" "r = Created (o_id op)"
      using that by (simp_all add: map_sum_Inr split: option.splits if_splits)
    then show ?thesis using contract_created [of op c q a a' a] ids by simp
  qed
  then have "contract q a (commit_or_rollback a (case find_reservation a (request_key q) of
           Some s \<Rightarrow> map_sum id (\<lambda>r. (r, a)) (replay_idempotent v q s a) | None \<Rightarrow> ?fresh))"
    by (intro contract_transaction) (simp_all add: replay_idempotent_stored)
  with Inr show ?thesis
    by (simp add: create_or_replay_canonical_idempotent_operation_def cong: option.case_cong)
qed (simp add: create_or_replay_canonical_idempotent_operation_def)

lemma contract_scoped: "contract q a (create_or_replay_canonical_scoped_operation v op c q a)"
proof (cases "validate_identity v op c q")
  case (Inr u)
  note ids = validate_identity_ids [OF this]
  have "contract q a (commit_or_rollback a
      (case find_reservation a (request_key q) of
         Some s \<Rightarrow>
           if s_fingerprint s \<noteq> q_fingerprint q then Inr (Conflict, a)
           else (case (find_operation (ac_ops a) (s_operation s), canonical_rows (ac_ops a) (s_operation s)) of
               (Some o1, Some c1) \<Rightarrow>
                 if o_resource o1 \<noteq> o_resource op \<or> cn_owner c1 \<noteq> q_owner q \<or> cn_action c1 \<noteq> q_action q
                    \<or> cn_resource c1 \<noteq> Some (o_resource op)
                 then Inl Corrupt else Inr (ExistingEquivalent (s_operation s), a)
             | _ \<Rightarrow> Inl Database)
       | None \<Rightarrow>
           if cn_resource_type c \<notin> {''network:network'', ''network:address_realm''} then Inl Corrupt
           else if (if cn_resource_type c = ''network:network'' then ac_networks a (o_resource op)
                    else ac_realms a (o_resource op)) \<noteq> Some (cn_owner c)
           then Inl ResourceNotFound
           else map_sum id (\<lambda>a'. (Created (o_id op), a')) (insert_canonical_acceptance op c q a)))"
    (is "contract q a (commit_or_rollback a ?t)")
  proof (rule contract_commit)
    fix r a' assume t: "?t = Inr (r, a')"
    show "contract q a (Inr r, a')"
    proof (cases "find_reservation a (request_key q)")
      case None
      with t have "insert_canonical_acceptance op c q a = Inr a'" "r = Created (o_id op)"
        by (simp_all add: map_sum_Inr split: if_splits)
      then show ?thesis using contract_created [of op c q a a' a] ids by simp
    next
      case (Some s)
      with t have "r = stored_answer q s" "a' = a"
        by (simp_all add: stored_answer_def split: if_splits option.splits)
      with contract_stored [OF Some] show ?thesis by simp
    qed
  qed
  with Inr ids show ?thesis by (simp add: create_or_replay_canonical_scoped_operation_def)
qed (simp add: create_or_replay_canonical_scoped_operation_def)

lemma contract_plain:
  assumes "\<And>s r. find_reservation a (request_key q) = Some s \<Longrightarrow> replay s = Inr r
             \<Longrightarrow> reservation_of r = stored_answer q s"
    and "\<And>r a'. find_reservation a (request_key q) = None \<Longrightarrow> fresh = Inr (r, a')
             \<Longrightarrow> contract q a (Inr (reservation_of r), a')"
  shows "contract q a (plain (commit_or_rollback a (case find_reservation a (request_key q) of
           Some s \<Rightarrow> map_sum id (\<lambda>r. (r, a)) (replay s) | None \<Rightarrow> fresh)))"
proof (cases "find_reservation a (request_key q)")
  case None
  with assms(2) show ?thesis by (cases fresh) (auto simp: plain_def commit_or_rollback_def)
next
  case (Some s)
  with assms(1) contract_stored [OF Some] show ?thesis
    by (cases "replay s") (auto simp: plain_def commit_or_rollback_def)
qed

lemma plain_refused [simp]: "plain (Inl e, a) = (Inl e, a)"
  by (simp add: plain_def)

lemma insert_resource_acceptance_le:
  "insert_resource r (ac_ops a) = (Inr u, db) \<Longrightarrow> acceptance_le a (a\<lparr>ac_ops := db\<rparr>)"
  using insert_resource_history [of "ac_ops a" r] by (simp add: acceptance_le_def find_reservation_def)

lemma contract_resource:
  "contract q a (plain (create_or_replay_canonical_resource_operation v r op c q p a))"
proof (cases "validate_resource_acceptance v r op c q")
  case (Inr u)
  note ids = validate_identity_ids [OF validate_resource_identity [OF Inr]]
  let ?fresh = "if (case p of Some i \<Rightarrow> i \<notin> set (allocation_ids (ac_ops a)) | None \<Rightarrow> False)
           then Inl PlacementAllocationNotFound
           else (case insert_resource r (ac_ops a) of
               (Inl e, _) \<Rightarrow> Inl e
             | (Inr _, db) \<Rightarrow> map_sum id (\<lambda>a'. (AcceptanceCreated (o_id op) (r_id r), a'))
                 (insert_canonical_acceptance op c q (a\<lparr>ac_ops := db\<rparr>)))"
  have "contract q a (Inr (reservation_of x), a')" if fresh: "?fresh = Inr (x, a')" for x a'
  proof -
    obtain db where "insert_resource r (ac_ops a) = (Inr (), db)"
      "insert_canonical_acceptance op c q (a\<lparr>ac_ops := db\<rparr>) = Inr a'" "reservation_of x = Created (o_id op)"
      using fresh by (auto simp: map_sum_Inr split: if_splits prod.splits sum.splits)
    then show ?thesis
      using contract_created [of op c q _ a' a] insert_resource_acceptance_le ids
      by (simp add: find_reservation_def fun_eq_iff)
  qed
  with Inr show ?thesis
    unfolding create_or_replay_canonical_resource_operation_def
    by (auto intro!: contract_plain simp: replay_acceptance_stored)
qed (simp add: create_or_replay_canonical_resource_operation_def)

lemma contract_lifecycle:
  "contract q a (plain (create_or_replay_canonical_lifecycle_operation v seen op c q a))"
proof (cases "\<exists>r0 u. seen = Inr r0 \<and> validate_resource_acceptance v r0 op c q = Inr u")
  case True
  then obtain r0 u where r0: "seen = Inr r0" "validate_resource_acceptance v r0 op c q = Inr u" by blast
  note ids = validate_identity_ids [OF validate_resource_identity [OF r0(2)]]
  let ?fresh = "case resource_rows (ac_ops a) (o_resource op) of
         None \<Rightarrow> Inl Database
       | Some r \<Rightarrow>
      (case validate_resource_acceptance v r op c q of
         Inl e \<Rightarrow> Inl e
       | Inr _ \<Rightarrow> map_sum id (\<lambda>a'. (AcceptanceCreated (o_id op) (o_resource op), a'))
           (insert_canonical_acceptance op c q a))"
  have "contract q a (Inr (reservation_of x), a')" if fresh: "?fresh = Inr (x, a')" for x a'
  proof -
    have "insert_canonical_acceptance op c q a = Inr a'" "reservation_of x = Created (o_id op)"
      using fresh by (auto simp: map_sum_Inr split: option.splits sum.splits)
    then show ?thesis using contract_created [of op c q a a' a] ids by simp
  qed
  with r0 show ?thesis
    unfolding create_or_replay_canonical_lifecycle_operation_def
    by (auto intro!: contract_plain simp: replay_acceptance_stored)
qed (auto simp: create_or_replay_canonical_lifecycle_operation_def split: sum.split)

lemma accept_contract: "contract (attempt_request x) a (accept v x a)"
  by (cases x) (simp_all add: contract_idempotent contract_canonical_idempotent contract_scoped
      contract_resource contract_lifecycle)

lemma contract_le: "contract q a x \<Longrightarrow> acceptance_le a (snd x)"
  by (auto simp: contract_def split: sum.splits reservation.splits)

lemma reserve_le: "acceptance_le a (snd (reserve_idempotent_operation q a))"
  by (auto simp: reserve_idempotent_operation_def intro: insert_reservation_le
      split: insert_result.split option.split)

lemma acceptance_after_le: "acceptance_le a (acceptance_after v a x)"
proof (cases x)
  case (Attempt y)
  then show ?thesis using contract_le [OF accept_contract] by simp
next
  case (Store y)
  then show ?thesis by (simp add: acceptance_le_def store_after_history find_reservation_def)
qed (simp add: reserve_le)

interpretation acceptance_history: monotone_machine "acceptance_step v" acceptance_le for v
proof
  show "acceptance_le s s" for s by simp
  show "acceptance_le s t \<Longrightarrow> acceptance_le t u \<Longrightarrow> acceptance_le s u" for s t u
    by (rule acceptance_le_trans)
  show "acceptance_step v s x = Inr s' \<Longrightarrow> acceptance_le s s'" for s x s'
    using acceptance_after_le [of s v x] by (simp add: acceptance_step_def)
qed

text \<open>
  C22: An idempotency key is spent once. After an attempt created an operation, whatever sequence
  of acceptances, reservations and store operations follows, an attempt with the same key, of any
  of the five kinds, creates nothing and leaves every table as it is: it conflicts when its
  fingerprint differs, answers the same operation when it does not, or reports an error.
\<close>

theorem idempotency_key_spent_once:
  assumes "accept v x a = (Inr (Created i), a1)"
    and "a2 = run_ops (acceptance_step v) a1 ops"
    and "request_key (attempt_request y) = request_key (attempt_request x)"
  shows "snd (accept v y a2) = a2
    \<and> (case fst (accept v y a2) of
         Inr (Created j) \<Rightarrow> False
       | Inr (ExistingEquivalent j) \<Rightarrow>
           j = i \<and> q_fingerprint (attempt_request y) = q_fingerprint (attempt_request x)
       | Inr Conflict \<Rightarrow> q_fingerprint (attempt_request y) \<noteq> q_fingerprint (attempt_request x)
       | Inl e \<Rightarrow> True)"
proof -
  have "contract (attempt_request x) a (Inr (Created i), a1)" using accept_contract assms(1) by metis
  then have a1: "find_reservation a1 (request_key (attempt_request x)) =
      Some \<lparr>s_fingerprint = q_fingerprint (attempt_request x), s_operation = i\<rparr>"
    "find_operation (ac_ops a1) i \<noteq> None"
    by (simp_all add: contract_def)
  have le: "acceptance_le a1 a2" unfolding assms(2) by (rule acceptance_history.run_rel)
  then have "find_reservation a2 (request_key (attempt_request y)) =
      Some \<lparr>s_fingerprint = q_fingerprint (attempt_request x), s_operation = i\<rparr>"
    using a1(1) assms(3) unfolding acceptance_le_def by metis
  moreover have "find_operation (ac_ops a2) i \<noteq> None"
    using le a1(2) history_operation unfolding acceptance_le_def by (metis option.distinct(1) option.exhaust)
  moreover have "contract (attempt_request y) a2 (accept v y a2)" by (rule accept_contract)
  ultimately show ?thesis by (auto simp: contract_def split: sum.splits reservation.splits)
qed

section \<open>An accepted operation can be read back\<close>

lemma set_drop_ws: "set (drop_ws p s) \<subseteq> set s"
proof -
  obtain t where "s = t @ drop_ws p s" using drop_ws_suffix by blast
  then have "set s = set t \<union> set (drop_ws p s)" by (metis set_append)
  then show ?thesis by blast
qed

lemma set_trim: "set (trim s) \<subseteq> set s"
  unfolding trim_def using set_drop_ws by (metis (no_types, opaque_lifting) order_trans set_rev)

lemma ascii_lower_colon: "ascii_lower c = CHR '':'' \<Longrightarrow> c = CHR '':''"
proof -
  assume lower: "ascii_lower c = CHR '':''"
  then have "(of_char (ascii_lower c) :: nat) = 58" by simp
  then have "(of_char c :: nat) = 58" by (simp add: of_char_ascii_lower split: if_splits)
  then have "of_char c = (of_char CHR '':'' :: nat)" by simp
  then show "c = CHR '':''" by (simp only: of_char_eq_iff)
qed

lemma colon_lower: "CHR '':'' \<notin> set s \<Longrightarrow> CHR '':'' \<notin> set (to_ascii_lowercase s)"
  using ascii_lower_colon by (fastforce simp: to_ascii_lowercase_def)

lemma parse_resource_type_str:
  assumes "resource_type_new namespace name = Inr t" "CHR '':'' \<notin> set namespace"
  shows "parse_resource_type (resource_type_str t) = Some t"
proof -
  let ?ns = "to_ascii_lowercase (trim namespace)" and ?n = "to_ascii_lowercase (trim name)"
  have t: "t = ResourceType ?ns ?n" "trim namespace \<noteq> []" "trim name \<noteq> []"
    using assms(1) by (auto simp: resource_type_new_def split: if_splits)
  have "CHR '':'' \<notin> set ?ns" using assms(2) set_trim by (metis colon_lower subsetD)
  then have split: "split_once CHR '':'' (?ns @ CHR '':'' # ?n) = Some (?ns, ?n)"
    by (rule split_once_append)
  have "trim ?ns = ?ns" "trim ?n = ?n"
    by (simp_all add: trim_id trimmed_lower trim_trimmed)
  with t split show ?thesis
    by (simp add: parse_resource_type_def resource_type_str_def resource_type_new_def)
qed

lemma resource_type_for_record_str:
  "resource_type_for_record r = Inr t \<Longrightarrow> parse_resource_type (resource_type_str t) = Some t"
  unfolding resource_type_for_record_def
  by (auto dest!: split_once_Some intro!: parse_resource_type_str split: option.splits sum.splits if_splits)

lemma inserted_acceptance_rows:
  assumes "insert_canonical_acceptance op c q a = Inr a'"
  shows "find_operation (ac_ops a') (o_id op) = Some op"
    and "canonical_rows (ac_ops a') (cp_id c) = Some (canonical_row.truncate c)"
    and "resource_rows (ac_ops a') = resource_rows (ac_ops a)"
    and "ac_networks a' = ac_networks a" "ac_realms a' = ac_realms a" "0 \<le> cn_attempt c"
proof -
  obtain a1 where a1: "insert_operation_row op a = Inserted a1"
    using assms by (auto simp: insert_canonical_acceptance_def split: insert_result.splits)
  let ?a2 = "a1\<lparr>ac_ops := (ac_ops a1)\<lparr>canonical_rows := (canonical_rows (ac_ops a1))
                              (cp_id c \<mapsto> canonical_row.truncate c)\<rparr>\<rparr>"
  have a': "insert_reservation q ?a2 = Inserted a'" "0 \<le> cn_attempt c"
    using assms a1 by (auto simp: insert_canonical_acceptance_def split: insert_result.splits if_splits)
  then have "ac_ops a' = ac_ops ?a2" "ac_networks a' = ac_networks a1" "ac_realms a' = ac_realms a1"
    by (auto simp: insert_reservation_def split: if_splits)
  moreover have "ac_networks a1 = ac_networks a" "ac_realms a1 = ac_realms a"
    using a1 by (auto simp: insert_operation_row_def split: if_splits)
  ultimately show "find_operation (ac_ops a') (o_id op) = Some op"
    "canonical_rows (ac_ops a') (cp_id c) = Some (canonical_row.truncate c)"
    "resource_rows (ac_ops a') = resource_rows (ac_ops a)"
    "ac_networks a' = ac_networks a" "ac_realms a' = ac_realms a" "0 \<le> cn_attempt c"
    using insert_operation_row_found(1,5) [OF a1] a'(2) by (simp_all add: find_operation_def)
qed

lemma validate_acceptance_read:
  assumes "validate_resource_acceptance v r op c q = Inr u" "cn_resource c = Some (o_resource op)"
  shows "validate_operation_read v op c r = Inr ()"
proof -
  obtain k where k: "kernel_operation_of v c = Inr k" "o_id op = cp_id c" "o_state op = cp_state c"
    "trim (k_actor k) \<noteq> []" "action_namespace (k_action k) = rt_namespace (k_resource_type k)"
    using validate_resource_identity [OF assms(1)]
    by (auto simp: validate_identity_def split: if_splits sum.splits option.splits)
  obtain t where t: "resource_type_for_record r = Inr t" "resource_type_str t = cn_resource_type c"
    "o_resource op = r_id r" "r_project r = cn_owner c"
    using assms(1) by (auto simp: validate_resource_acceptance_def split: if_splits sum.splits)
  have "parse_resource_type (cn_resource_type c) = Some t"
    using resource_type_for_record_str [OF t(1)] t(2) by simp
  with k have fields: "action_id_parse (cn_action c) = Inr (k_action k)" "k_resource_type k = t"
    "k_actor k = cn_actor c" "trim (cn_created c) \<noteq> []" "v (cn_created c)"
    "opt_ok v (cn_started c)" "opt_ok v (cn_finished c)"
    by (auto simp: kernel_operation_of_def split: if_splits sum.splits option.splits)
  with k t assms(2) \<open>parse_resource_type (cn_resource_type c) = Some t\<close> show ?thesis
    by (simp add: validate_operation_read_def metadata_complete_def)
qed

lemma canonical_of_truncate:
  "cp_id c = i \<Longrightarrow> cp_state c = s \<Longrightarrow> canonical_of_row i s (canonical_row.truncate c) = c"
  by (cases c) (simp add: canonical_of_row_def canonical_row.defs)

lemma truncate_attempt [simp]: "cn_attempt (canonical_row.truncate c) = cn_attempt c"
  by (simp add: canonical_row.defs)

lemma accepted_readable:
  assumes "insert_canonical_acceptance op c q a = Inr a'"
    and "validate_resource_acceptance v r op c q = Inr u" "resource_rows (ac_ops a) (o_resource op) = Some r"
    and "cn_resource c = Some (o_resource op)" "cn_attempt c < 2 ^ 32"
    and "ac_networks a (o_resource op) = None" "ac_realms a (o_resource op) = None"
  shows "get_canonical_operation v a' (o_id op) = Inr c"
proof -
  have ids: "o_id op = cp_id c" using validate_identity_ids validate_resource_identity assms(2) by blast
  have "o_state op = cp_state c"
    using validate_resource_identity [OF assms(2)] by (auto simp: validate_identity_def split: if_splits)
  with ids inserted_acceptance_rows [OF assms(1)] assms(5)
  have "read_canonical (ac_ops a') (o_id op) (o_state op) OperationNotFound = Inr c"
    by (simp add: read_canonical_def canonical_of_truncate)
  moreover have "validate_operation_read v op c r = Inr ()" using assms(2,4) by (rule validate_acceptance_read)
  ultimately show ?thesis
    using inserted_acceptance_rows [OF assms(1)] ids assms(3,6,7)
    by (simp add: get_canonical_operation_def check_service_owner_def get_resource_def)
qed

text \<open>
  What was accepted for a resource can be read back. When the acceptance of a new resource, or
  of a lifecycle operation on one, creates an operation, the reader of canonical operations, which
  checks identities, ownership, timestamps and types on its own, returns exactly the accepted
  metadata, and the operation and its resource are recorded; provided the metadata names the
  resource by its identity, which no network or address realm has.
\<close>

theorem accepted_operation_readable:
  assumes "cn_resource c = Some (o_resource op)" "cn_attempt c < 2 ^ 32"
    and "ac_networks a (o_resource op) = None" "ac_realms a (o_resource op) = None"
    and "create_or_replay_canonical_resource_operation v r op c q p a = (Inr (AcceptanceCreated i j), a')
       \<or> create_or_replay_canonical_lifecycle_operation v seen op c q a = (Inr (AcceptanceCreated i j), a')"
  shows "get_canonical_operation v a' i = Inr c \<and> find_operation (ac_ops a') i = Some op
    \<and> resource_rows (ac_ops a') j \<noteq> None"
  using assms(5)
proof
  assume created: "create_or_replay_canonical_resource_operation v r op c q p a = (Inr (AcceptanceCreated i j), a')"
  then obtain u db where u: "validate_resource_acceptance v r op c q = Inr u"
    and db: "insert_resource r (ac_ops a) = (Inr (), db)" "i = o_id op" "j = r_id r"
      "insert_canonical_acceptance op c q (a\<lparr>ac_ops := db\<rparr>) = Inr a'"
    by (auto simp: create_or_replay_canonical_resource_operation_def commit_or_rollback_def map_sum_Inr
        replay_acceptance_def split: sum.splits option.splits if_splits prod.splits)
  have "o_resource op = r_id r" "resource_rows db (r_id r) = Some r"
    using u db(1) by (auto simp: validate_resource_acceptance_def insert_resource_def put_resource_def
        split: sum.splits if_splits)
  then show ?thesis
    using accepted_readable [OF db(4) u] inserted_acceptance_rows [OF db(4)] assms(1-4) db(2,3) by simp
next
  assume created: "create_or_replay_canonical_lifecycle_operation v seen op c q a = (Inr (AcceptanceCreated i j), a')"
  then obtain r0 u where r0: "resource_rows (ac_ops a) (o_resource op) = Some r0"
    "validate_resource_acceptance v r0 op c q = Inr u" "i = o_id op" "j = o_resource op"
    "insert_canonical_acceptance op c q a = Inr a'"
    by (auto simp: create_or_replay_canonical_lifecycle_operation_def commit_or_rollback_def map_sum_Inr
        replay_acceptance_def split: sum.splits option.splits if_splits prod.splits)
  then show ?thesis
    using accepted_readable [OF r0(5,2)] inserted_acceptance_rows [OF r0(5)] assms(1-4) by simp
qed

section \<open>An accepted server\<close>

definition sample_canonical :: canonical_record where
  "sample_canonical = \<lparr>cn_service = ''compute'', cn_action = ''compute:CreateServer'', cn_actor = ''u1'',
     cn_owner = ''p1'', cn_resource_type = ''compute:server'', cn_resource = Some ''r1'', cn_attempt = 0,
     cn_created = ''2026-01-01T00:00:00Z'', cn_started = None, cn_finished = None, cn_error = None,
     cn_request = None, cp_id = ''o1'', cp_state = OpPending\<rparr>"

definition sample_reservation :: reservation_request where
  "sample_reservation = \<lparr>q_owner = ''p1'', q_action = ''compute:CreateServer'',
     q_resource_type = ''compute:server'', q_key = ''k1'', q_fingerprint = ''f1'', q_operation = ''o1''\<rparr>"

definition no_acceptance :: acceptance_db where
  "no_acceptance = \<lparr>ac_ops = empty_operations, ac_reservations = [], ac_networks = Map.empty,
     ac_realms = Map.empty\<rparr>"

definition sample_attempt :: attempt where
  "sample_attempt = ResourceAcceptance sample_resource sample_operation sample_canonical sample_reservation None"

lemma sample_created: "fst (accept (\<lambda>_. True) sample_attempt no_acceptance) = Inr (Created ''o1'')"
  by code_simp

lemma sample_acceptance_created:
  "fst (create_or_replay_canonical_resource_operation (\<lambda>_. True) sample_resource sample_operation
      sample_canonical sample_reservation None no_acceptance) = Inr (AcceptanceCreated ''o1'' ''r1'')"
  by code_simp

theorem idempotency_key_spent_once_witness:
  "let a1 = snd (accept (\<lambda>_. True) sample_attempt no_acceptance);
       a2 = run_ops (acceptance_step (\<lambda>_. True)) a1 [Store (Terminalize ''t'' sample_terminalization)];
       y = LifecycleAcceptance (get_resource (ac_ops a2) ''r1'') sample_operation sample_canonical
             (sample_reservation\<lparr>q_fingerprint := ''f2''\<rparr>)
   in snd (accept (\<lambda>_. True) y a2) = a2"
proof -
  define a1 where "a1 = snd (accept (\<lambda>_. True) sample_attempt no_acceptance)"
  define a2 where "a2 = run_ops (acceptance_step (\<lambda>_. True)) a1 [Store (Terminalize ''t'' sample_terminalization)]"
  define y where "y = LifecycleAcceptance (get_resource (ac_ops a2) ''r1'') sample_operation sample_canonical
             (sample_reservation\<lparr>q_fingerprint := ''f2''\<rparr>)"
  have "accept (\<lambda>_. True) sample_attempt no_acceptance = (Inr (Created ''o1''), a1)"
    using sample_created by (simp add: a1_def prod_eq_iff)
  moreover have "request_key (attempt_request y) = request_key (attempt_request sample_attempt)"
    by (simp add: y_def sample_attempt_def request_key_def)
  ultimately have "snd (accept (\<lambda>_. True) y a2) = a2"
    using idempotency_key_spent_once a2_def by blast
  then show ?thesis unfolding Let_def a1_def [symmetric] a2_def [symmetric] y_def [symmetric] .
qed

theorem accepted_operation_readable_witness:
  "let a' = snd (create_or_replay_canonical_resource_operation (\<lambda>_. True) sample_resource sample_operation
               sample_canonical sample_reservation None no_acceptance)
   in get_canonical_operation (\<lambda>_. True) a' ''o1'' = Inr sample_canonical"
proof -
  let ?x = "create_or_replay_canonical_resource_operation (\<lambda>_. True) sample_resource sample_operation
               sample_canonical sample_reservation None no_acceptance"
  have "?x = (Inr (AcceptanceCreated ''o1'' ''r1''), snd ?x)"
    using sample_acceptance_created by (simp add: prod_eq_iff)
  moreover have "cn_resource sample_canonical = Some (o_resource sample_operation)"
    "cn_attempt sample_canonical < 2 ^ 32" "ac_networks no_acceptance (o_resource sample_operation) = None"
    "ac_realms no_acceptance (o_resource sample_operation) = None"
    by (simp_all add: sample_canonical_def sample_operation_def no_acceptance_def)
  ultimately show ?thesis unfolding Let_def using accepted_operation_readable by blast
qed

end
