(* ===== verification/Reconciler_Canonical.thy ===== *)
theory Reconciler_Canonical
  imports Reconciler_Guarantees Store_Acceptance
begin

text \<open>
  The canonical variants of the two intents of the operation journal
  (\<open>crates/o3k-reconciler/src/lib.rs\<close>, \<open>begin_canonical_create\<close> and \<open>begin_canonical_lifecycle\<close>,
  and the context of \<open>types.rs\<close>): the request of a client is accepted idempotently. The
  reservations stand beside the world of the journal; the operations of the two are the same
  tables, so an intent works on the store of the world. The text of a UUID is its identity.
  Lemmas: an intent that is not created changes nothing, a repeated request creates nothing.
\<close>

section \<open>Contexts of a mutation\<close>

record mutation_context =
  mc_action :: action_id
  mc_actor :: string
  mc_owner :: ownership_scope
  mc_request_id :: "string option"
  mc_key :: string
  mc_body :: json
  mc_created :: string

definition mutation_context_new ::
  "string \<Rightarrow> action_id \<Rightarrow> string \<Rightarrow> ownership_scope \<Rightarrow> string option \<Rightarrow> string \<Rightarrow> json
   \<Rightarrow> (reconcile_error, mutation_context) rust_result" where
  "mutation_context_new now act actor owner reqid key body =
     (if scope_kind owner \<noteq> Project \<or> trim actor = [] \<or> key = [] \<or> length key > max_key_length
      then Inl RInvalidIntent
      else Inr \<lparr>mc_action = act, mc_actor = actor, mc_owner = owner, mc_request_id = reqid,
                mc_key = key, mc_body = body, mc_created = now\<rparr>)"

text \<open>What the acceptance takes from other crates: RFC 3339, JSON strings, SHA-256.\<close>

record codecs =
  cd_time :: "string \<Rightarrow> bool"
  cd_quote :: "string \<Rightarrow> string"
  cd_digest :: "string \<Rightarrow> string"

definition context_records ::
  "codecs \<Rightarrow> mutation_context \<Rightarrow> operation_record \<Rightarrow> resource_type \<Rightarrow> string option
   \<Rightarrow> (reconcile_error, canonical_record \<times> reservation_request) rust_result" where
  "context_records cd ctx op rtype target =
     (if action_namespace (mc_action ctx) \<noteq> rt_namespace rtype then Inl RInvalidIntent
      else case resource_id_new (o_resource op) of
          Inl _ \<Rightarrow> Inl RInvalidIntent
        | Inr rid \<Rightarrow>
      (case from_kernel_operation
              \<lparr>k_id = o_id op, k_service = action_namespace (mc_action ctx), k_action = mc_action ctx,
               k_actor = mc_actor ctx, k_owner = mc_owner ctx, k_resource_type = rtype,
               k_resource = Some rid, k_state = o_state op, k_attempt = 0,
               k_created = mc_created ctx, k_started = None, k_finished = None, k_error = None,
               k_request = mc_request_id ctx\<rparr> of
         Inl e \<Rightarrow> Inl (RStore e)
       | Inr c \<Rightarrow>
      (case from_semantics (cd_quote cd) (cd_digest cd) (scope_id_str (scope_id (mc_owner ctx)))
              (action_id_as_str (mc_action ctx)) (mc_key ctx) (resource_type_str rtype) target
              (mc_body ctx) (o_id op) of
         Inl e \<Rightarrow> Inl (RStore e)
       | Inr q \<Rightarrow> Inr (c, q))))"

section \<open>Intents\<close>

type_synonym 'p canonical_world = "'p world \<times> acceptance_db"

text \<open>The reservations beside the store of the world, and what an acceptance did to both.\<close>

definition tables :: "'p canonical_world \<Rightarrow> acceptance_db" where
  "tables x = (snd x)\<lparr>ac_ops := w_store (fst x)\<rparr>"

definition with_tables :: "'p canonical_world \<Rightarrow> acceptance_db \<Rightarrow> 'p canonical_world" where
  "with_tables x a = ((fst x)\<lparr>w_store := ac_ops a\<rparr>, a)"

text \<open>An acceptance, and the event of an intent that it created.\<close>

definition accept_intent ::
  "(acceptance_db \<Rightarrow> (store_error, acceptance_outcome) rust_result \<times> acceptance_db)
   \<Rightarrow> string \<Rightarrow> string \<Rightarrow> 'p canonical_world
   \<Rightarrow> (reconcile_error, acceptance_outcome) rust_result \<times> 'p canonical_world" where
  "accept_intent f i resource x =
     (case f (tables x) of
        (Inl e, a) \<Rightarrow> (Inl (RStore e), with_tables x a)
      | (Inr (AcceptanceCreated i' r'), a) \<Rightarrow>
          (Inr (AcceptanceCreated i' r'),
           apfst (\<lambda>w. snd (event i resource IntentPersisted w)) (with_tables x a))
      | (Inr r, a) \<Rightarrow> (Inr r, with_tables x a))"

definition server_type :: resource_type where
  "server_type = ResourceType ''compute'' ''server''"

definition begin_canonical_create ::
  "'p journal \<Rightarrow> codecs \<Rightarrow> string \<Rightarrow> create_request \<Rightarrow> mutation_context \<Rightarrow> 'p canonical_world
   \<Rightarrow> (reconcile_error, acceptance_outcome) rust_result \<times> 'p canonical_world" where
  "begin_canonical_create J cd project request ctx x =
     (case j_encode J request of
        None \<Rightarrow> (Inl RInvalidIntent, x)
      | Some desired \<Rightarrow>
          let r = \<lparr>r_id = cr_server request, r_kind = ''compute_instance'', r_project = project,
                   r_generation = 1, r_observed_generation = 0, r_desired = desired,
                   r_observed = server_state_to_storage SrvRequested, r_provider = None\<rparr>;
              op = pending_operation (cr_operation request) (cr_server request) ''create''
          in (case context_records cd ctx op server_type None of
                Inl e \<Rightarrow> (Inl e, x)
              | Inr (c, q) \<Rightarrow>
                  accept_intent (create_or_replay_canonical_resource_operation (cd_time cd) r op c q
                      (cr_placement_allocation request)) (cr_operation request) (cr_server request) x))"

text \<open>\<open>seen\<close> is what the read of the resource before the transaction answered.\<close>

definition begin_canonical_lifecycle ::
  "codecs \<Rightarrow> (store_error, resource_record) rust_result \<Rightarrow> string \<Rightarrow> string \<Rightarrow> lifecycle_action
   \<Rightarrow> mutation_context \<Rightarrow> 'p canonical_world
   \<Rightarrow> (reconcile_error, acceptance_outcome) rust_result \<times> 'p canonical_world" where
  "begin_canonical_lifecycle cd seen resource i action ctx x =
     (let op = pending_operation i resource (lifecycle_kind action)
      in case context_records cd ctx op server_type (Some resource) of
           Inl e \<Rightarrow> (Inl e, x)
         | Inr (c, q) \<Rightarrow>
             accept_intent (create_or_replay_canonical_lifecycle_operation (cd_time cd) seen op c q)
               i resource x)"

section \<open>A repeated request\<close>

definition context_key :: "mutation_context \<Rightarrow> reservation_key" where
  "context_key ctx =
     (scope_id_str (scope_id (mc_owner ctx)), action_id_as_str (mc_action ctx), mc_key ctx)"

lemma context_records_key:
  "context_records cd ctx op t target = Inr (c, q) \<Longrightarrow> request_key q = context_key ctx"
  by (auto simp: context_records_def from_semantics_def context_key_def request_key_def Let_def
      split: if_splits sum.splits option.splits)

text \<open>The key of a context is held by an operation of the journal.\<close>

definition key_held :: "reservation_key \<Rightarrow> string \<Rightarrow> 'p canonical_world \<Rightarrow> bool" where
  "key_held k i x \<longleftrightarrow>
     (\<exists>fp. find_reservation (tables x) k = Some \<lparr>s_fingerprint = fp, s_operation = i\<rparr>)
     \<and> find_operation (w_store (fst x)) i \<noteq> None"

definition creates_nothing ::
  "string \<Rightarrow> 'p canonical_world \<Rightarrow> (reconcile_error, acceptance_outcome) rust_result \<times> 'p canonical_world \<Rightarrow> bool"
  where
  "creates_nothing i x y \<longleftrightarrow>
     fst (snd y) = fst x \<and> tables (snd y) = tables x
     \<and> (case fst y of
          Inr (AcceptanceCreated i' r') \<Rightarrow> False
        | Inr (AcceptanceExisting i' r') \<Rightarrow> i' = i
        | _ \<Rightarrow> True)"

lemma tables_with_tables [simp]: "tables (with_tables x a) = a"
  by (simp add: tables_def with_tables_def)

lemma world_with_tables [simp]: "fst (with_tables x (tables x)) = fst x"
  by (simp add: tables_def with_tables_def)

lemma tables_ops [simp]: "ac_ops (tables x) = w_store (fst x)"
  by (simp add: tables_def)

text \<open>Both acceptances meet the contract of \<open>Store_Acceptance\<close> on every table.\<close>

definition contracted ::
  "reservation_request \<Rightarrow> (acceptance_db \<Rightarrow> (store_error, acceptance_outcome) rust_result \<times> acceptance_db) \<Rightarrow> bool"
  where
  "contracted q f \<longleftrightarrow> (\<forall>a. contract q a (plain (f a)))"

lemma contracted_acceptances:
  "contracted q (create_or_replay_canonical_resource_operation v r op c q p)"
  "contracted q (create_or_replay_canonical_lifecycle_operation v seen op c q)"
  by (simp_all add: contracted_def contract_resource contract_lifecycle)

lemma accept_intent_created:
  assumes "contracted q f"
    and "accept_intent f j r x = (Inr (AcceptanceCreated i r'), x')"
  shows "key_held (request_key q) i x'"
proof -
  obtain a where f: "f (tables x) = (Inr (AcceptanceCreated i r'), a)"
    and x': "x' = apfst (\<lambda>w. snd (event j r IntentPersisted w)) (with_tables x a)"
    using assms(2) by (auto simp: accept_intent_def split: prod.splits sum.splits acceptance_outcome.splits)
  have "tables x' = a" "w_store (fst x') = ac_ops a"
    by (simp_all add: x' with_tables_def tables_def event_def)
  moreover have "contract q (tables x) (plain (f (tables x)))" using assms(1) by (simp add: contracted_def)
  ultimately show ?thesis using f by (auto simp: contract_def plain_def key_held_def)
qed

lemma accept_intent_spent:
  assumes "contracted q f" "key_held (request_key q) i x"
  shows "creates_nothing i x (accept_intent f j r x)"
proof -
  obtain res a where f: "f (tables x) = (res, a)" by fastforce
  have "a = tables x \<and> (case res of Inr (AcceptanceCreated i' r') \<Rightarrow> False
        | Inr (AcceptanceExisting i' r') \<Rightarrow> i' = i | _ \<Rightarrow> True)"
    using assms(2) spec [OF assms(1) [unfolded contracted_def], of "tables x"] f by (cases res rule: sum.exhaust; cases "projr res")
      (auto simp: contract_def plain_def key_held_def)
  with f show ?thesis
    by (auto simp: accept_intent_def creates_nothing_def split: sum.splits acceptance_outcome.splits)
qed

lemma creates_nothing_error [simp]: "creates_nothing i x (Inl e, x)"
  by (simp add: creates_nothing_def)

lemma create_spent:
  assumes "key_held (context_key ctx) i x"
  shows "creates_nothing i x (begin_canonical_create J cd project request ctx x)"
  unfolding begin_canonical_create_def Let_def
  by (auto simp: assms dest: context_records_key split: option.split sum.split
      intro!: accept_intent_spent [OF contracted_acceptances(1)])

lemma lifecycle_spent:
  assumes "key_held (context_key ctx) i x"
  shows "creates_nothing i x (begin_canonical_lifecycle cd seen resource j action ctx x)"
  unfolding begin_canonical_lifecycle_def Let_def
  by (auto simp: assms dest: context_records_key split: sum.split
      intro!: accept_intent_spent [OF contracted_acceptances(2)])

lemma create_holds_key:
  "begin_canonical_create J cd project request ctx x = (Inr (AcceptanceCreated i r), x') \<Longrightarrow>
     key_held (context_key ctx) i x'"
  unfolding begin_canonical_create_def Let_def
  by (auto split: option.splits sum.splits dest: context_records_key
      dest!: accept_intent_created [OF contracted_acceptances(1)])

lemma lifecycle_holds_key:
  "begin_canonical_lifecycle cd seen resource j action ctx x = (Inr (AcceptanceCreated i r), x') \<Longrightarrow>
     key_held (context_key ctx) i x'"
  unfolding begin_canonical_lifecycle_def Let_def
  by (auto split: sum.splits dest: context_records_key dest!: accept_intent_created [OF contracted_acceptances(2)])

text \<open>
  A repeated request creates nothing. Once a canonical intent has created an operation, then
  after any sequence of intents, agent reports and reconciliation passes an intent of the same
  owner, action and idempotency key, to create a server or to act on one, with whatever
  identities and body, leaves the world and the tables as they are and creates no second
  operation: when it answers an operation, it is the first one.
\<close>

theorem repeated_request_creates_nothing:
  assumes "begin_canonical_create J cd project request ctx x = (Inr (AcceptanceCreated i r), x1)
       \<or> begin_canonical_lifecycle cd seen resource j action ctx x = (Inr (AcceptanceCreated i r), x1)"
    and "\<And>K y. (K, y) \<in> set xs \<Longrightarrow> provider_sound K"
    and "x2 = apfst (\<lambda>w. journal_run w xs) x1"
    and "context_key ctx' = context_key ctx"
  shows "creates_nothing i x2 (begin_canonical_create J' cd' project' request' ctx' x2)
    \<and> creates_nothing i x2 (begin_canonical_lifecycle cd' seen' resource' j' action' ctx' x2)"
proof -
  have x1: "key_held (context_key ctx) i x1"
    using assms(1) create_holds_key lifecycle_holds_key by blast
  have "journal_le (fst x1) (fst x2)" using journal_run_le [OF assms(2)] assms(3) by simp
  then have "history_le (w_store (fst x1)) (w_store (fst x2))" by (simp add: journal_le_def)
  moreover have "find_reservation (tables x2) = find_reservation (tables x1)"
    by (simp add: assms(3) tables_def find_reservation_def fun_eq_iff)
  ultimately have "key_held (context_key ctx') i x2"
    using x1 assms(4) unfolding key_held_def by (metis history_operation option.discI option.exhaust)
  then show ?thesis using create_spent lifecycle_spent by blast
qed

section \<open>A request that is sent twice\<close>

definition sample_codecs :: codecs where
  "sample_codecs = \<lparr>cd_time = \<lambda>_. True, cd_quote = json_string, cd_digest = \<lambda>s. s\<rparr>"

definition sample_context :: mutation_context where
  "sample_context = \<lparr>mc_action = ActionId ''compute'' ''CreateServer'', mc_actor = ''u1'',
     mc_owner = project_scope (ScopeId ''p1'') None None, mc_request_id = None, mc_key = ''k1'',
     mc_body = JObject [(''name'', JString ''vm'')], mc_created = ''t''\<rparr>"

definition sample_world :: "unit canonical_world" where
  "sample_world = (world_of empty_operations, no_acceptance)"

lemma sample_intent_created:
  "fst (begin_canonical_create sample_journal sample_codecs ''p1'' sample_request sample_context sample_world)
     = Inr (AcceptanceCreated ''o1'' ''r1'')"
  by code_simp

theorem repeated_request_creates_nothing_witness:
  "let x1 = snd (begin_canonical_create sample_journal sample_codecs ''p1'' sample_request sample_context
             sample_world);
       x2 = apfst (\<lambda>w. journal_run w [(sample_journal, Reconcile ''o1'')]) x1
   in creates_nothing ''o1'' x2 (begin_canonical_create sample_journal sample_codecs ''p1''
        (sample_request\<lparr>cr_server := ''r2'', cr_operation := ''o2''\<rparr>) sample_context x2)"
proof -
  let ?y = "begin_canonical_create sample_journal sample_codecs ''p1'' sample_request sample_context sample_world"
  have created: "?y = (Inr (AcceptanceCreated ''o1'' ''r1''), snd ?y)"
    using sample_intent_created by (simp add: prod_eq_iff)
  have sound: "provider_sound K" if "(K, y) \<in> set [(sample_journal, Reconcile ''o1'')]" for K y
    using that by (simp add: sample_sound)
  show ?thesis
    unfolding Let_def
    by (rule repeated_request_creates_nothing [OF disjI1 [OF created] sound refl refl, THEN conjunct1])
qed

end
