(* ===== verification/Volume_Model.thy ===== *)
theory Volume_Model
  imports Rust_Prelude
begin

text \<open>
  The vocabulary of block storage (\<open>crates/o3k-domain/src/storage.rs\<close>): volumes, their
  attachments and snapshots with the transitions of their states, the scope a provider works in,
  backends, the envelope of a command and the observation of an agent with their checks. A UUID
  is its text. Lengths are in bytes, as in the source.
  Lemmas: the stored names of states, which states an attachment can leave for which.
\<close>

section \<open>Scopes, commands, observations\<close>

datatype storage_scope = ScopeHost string | ScopeBackend string

datatype storage_error =
    InvalidCommandEnvelope | InvalidObservation | InvalidProject | InvalidVolumeFields | InvalidBackendId
  | InvalidScope | InvalidProviderReference | InvalidCapacity | InvalidGeneration

definition scope_validate :: "storage_scope \<Rightarrow> storage_error option" where
  "scope_validate s =
     (let i = (case s of ScopeHost i \<Rightarrow> i | ScopeBackend i \<Rightarrow> i)
      in if i = [] \<or> length i > 128 then Some InvalidScope else None)"

datatype storage_action =
    CreateVolume | InspectVolume | DeleteVolume | PrepareAttachment | TerminateAttachment
  | CreateSnapshot | DeleteSnapshot | ReconcileStorage

record storage_envelope =
  e_protocol :: "16 word"
  e_command :: string
  e_operation :: string
  e_key :: string
  e_resource :: string
  e_generation :: u64
  e_project :: string
  e_controller_epoch :: u64
  e_agent :: string
  e_agent_epoch :: u64
  e_deadline :: string
  e_trace :: string
  e_action :: storage_action
  e_fingerprint :: string

definition lower_hex :: "char \<Rightarrow> bool" where
  "lower_hex c = (c \<in> set ''0123456789abcdef'')"

definition envelope_validate :: "storage_envelope \<Rightarrow> storage_error option" where
  "envelope_validate e =
     (if e_protocol e = 0 \<or> e_key e = [] \<or> e_resource e = [] \<or> e_generation e = 0 \<or> e_project e = []
         \<or> e_controller_epoch e = 0 \<or> e_agent e = [] \<or> e_agent_epoch e = 0 \<or> e_deadline e = []
         \<or> e_trace e = [] \<or> e_fingerprint e = []
      then Some InvalidCommandEnvelope
      else if length (e_key e) > 256 \<or> length (e_resource e) > 256 \<or> length (e_project e) > 256
              \<or> length (e_agent e) > 128 \<or> length (e_deadline e) > 128 \<or> length (e_trace e) > 256
              \<or> length (e_fingerprint e) \<noteq> 64 \<or> \<not> list_all lower_hex (e_fingerprint e)
      then Some InvalidCommandEnvelope
      else None)"

datatype storage_operation_state = SopAccepted | SopRunning | SopSucceeded | SopFailed | SopUnknownOutcome

datatype storage_error_category =
    InvalidRequest | AuthorizationBinding | UnsupportedCapability | ConflictCategory | NotFoundCategory
  | CapacityExhausted | TransientUnavailable | Timeout | UnknownOutcomeCategory | TerminalProvider
  | OwnershipAmbiguity | ProtocolCategory

record storage_observation =
  b_agent :: string
  b_agent_epoch :: u64
  b_resource :: string
  b_provider_resource :: "string option"
  b_operation :: string
  b_generation :: u64
  b_sequence :: u64
  b_observed_at :: string
  b_state :: storage_operation_state
  b_resource_state :: string
  b_category :: "storage_error_category option"
  b_message :: "string option"

definition observation_validate :: "storage_observation \<Rightarrow> storage_error option" where
  "observation_validate b =
     (if b_agent b = [] \<or> length (b_agent b) > 128 \<or> b_agent_epoch b = 0 \<or> b_resource b = []
         \<or> length (b_resource b) > 256 \<or> b_generation b = 0 \<or> b_sequence b = 0 \<or> b_observed_at b = []
         \<or> length (b_observed_at b) > 128 \<or> b_resource_state b = [] \<or> length (b_resource_state b) > 64
      then Some InvalidObservation
      else if (case b_provider_resource b of Some r \<Rightarrow> r = [] \<or> length r > 512 | None \<Rightarrow> False)
              \<or> (case b_message b of Some m \<Rightarrow> length m > 1024 \<or> CHR 0x00 \<in> set m | None \<Rightarrow> False)
      then Some InvalidObservation
      else None)"

section \<open>States\<close>

datatype volume_state =
    VolRequested | VolCreating | VolAvailable | VolAttaching | VolInUse | VolDetaching | VolDeleting
  | VolDeleted | VolUnknown | VolError

datatype attachment_state =
    AttReserved | AttPreparing | AttAttaching | AttAttached | AttDetaching | AttDetached | AttUnknown
  | AttError | AttDeleted

datatype snapshot_state =
    SnRequested | SnCreating | SnAvailable | SnDeleting | SnDeleted | SnUnknown | SnError

datatype access_mode = ReadOnly | ReadWrite

datatype snapshot_consistency = CrashConsistent

text \<open>The names the derived serialisation gives the states.\<close>

fun volume_state_name :: "volume_state \<Rightarrow> string" where
  "volume_state_name VolRequested = ''requested''"
| "volume_state_name VolCreating = ''creating''"
| "volume_state_name VolAvailable = ''available''"
| "volume_state_name VolAttaching = ''attaching''"
| "volume_state_name VolInUse = ''in_use''"
| "volume_state_name VolDetaching = ''detaching''"
| "volume_state_name VolDeleting = ''deleting''"
| "volume_state_name VolDeleted = ''deleted''"
| "volume_state_name VolUnknown = ''unknown''"
| "volume_state_name VolError = ''error''"

fun attachment_state_name :: "attachment_state \<Rightarrow> string" where
  "attachment_state_name AttReserved = ''reserved''"
| "attachment_state_name AttPreparing = ''preparing''"
| "attachment_state_name AttAttaching = ''attaching''"
| "attachment_state_name AttAttached = ''attached''"
| "attachment_state_name AttDetaching = ''detaching''"
| "attachment_state_name AttDetached = ''detached''"
| "attachment_state_name AttUnknown = ''unknown''"
| "attachment_state_name AttError = ''error''"
| "attachment_state_name AttDeleted = ''deleted''"

fun snapshot_state_name :: "snapshot_state \<Rightarrow> string" where
  "snapshot_state_name SnRequested = ''requested''"
| "snapshot_state_name SnCreating = ''creating''"
| "snapshot_state_name SnAvailable = ''available''"
| "snapshot_state_name SnDeleting = ''deleting''"
| "snapshot_state_name SnDeleted = ''deleted''"
| "snapshot_state_name SnUnknown = ''unknown''"
| "snapshot_state_name SnError = ''error''"

text \<open>The states each state may be left for.\<close>

fun volume_successors :: "volume_state \<Rightarrow> volume_state list" where
  "volume_successors VolRequested = [VolCreating, VolError]"
| "volume_successors VolCreating = [VolAvailable, VolUnknown, VolError, VolDeleting]"
| "volume_successors VolAvailable = [VolAttaching, VolDeleting, VolError]"
| "volume_successors VolAttaching = [VolInUse, VolUnknown, VolError, VolDeleting]"
| "volume_successors VolInUse = [VolDetaching, VolDeleting, VolError]"
| "volume_successors VolDetaching = [VolAvailable, VolUnknown, VolError, VolDeleting]"
| "volume_successors VolUnknown = [VolCreating, VolAvailable, VolAttaching, VolInUse, VolDeleting, VolError]"
| "volume_successors VolError = [VolDeleting]"
| "volume_successors VolDeleting = [VolDeleted, VolUnknown, VolError]"
| "volume_successors VolDeleted = []"

fun attachment_successors :: "attachment_state \<Rightarrow> attachment_state list" where
  "attachment_successors AttReserved = [AttPreparing, AttDeleted]"
| "attachment_successors AttPreparing = [AttAttaching, AttUnknown, AttError, AttDetaching]"
| "attachment_successors AttAttaching = [AttAttached, AttUnknown, AttError, AttDetaching]"
| "attachment_successors AttAttached = [AttDetaching, AttError]"
| "attachment_successors AttDetaching = [AttDetached, AttUnknown, AttError, AttDeleted]"
| "attachment_successors AttDetached = [AttDeleted]"
| "attachment_successors AttUnknown =
     [AttPreparing, AttAttaching, AttAttached, AttDetaching, AttDetached, AttDeleted, AttError]"
| "attachment_successors AttError = [AttDetaching, AttDeleted]"
| "attachment_successors AttDeleted = []"

fun snapshot_successors :: "snapshot_state \<Rightarrow> snapshot_state list" where
  "snapshot_successors SnRequested = [SnCreating, SnDeleting, SnError]"
| "snapshot_successors SnCreating = [SnAvailable, SnUnknown, SnDeleting, SnError]"
| "snapshot_successors SnAvailable = [SnDeleting, SnError]"
| "snapshot_successors SnDeleting = [SnDeleted, SnUnknown, SnError]"
| "snapshot_successors SnUnknown = [SnCreating, SnAvailable, SnDeleting, SnError]"
| "snapshot_successors SnError = [SnDeleting]"
| "snapshot_successors SnDeleted = []"

datatype storage_transition_error =
    InvalidVolumeTransition volume_state volume_state
  | InvalidAttachmentTransition attachment_state attachment_state
  | InvalidSnapshotTransition snapshot_state snapshot_state

section \<open>Resources\<close>

record storage_reference =
  sr_provider :: string
  sr_resource :: string

definition reference_validate :: "storage_reference \<Rightarrow> storage_error option" where
  "reference_validate r =
     (if sr_provider r = [] \<or> length (sr_provider r) > 128 \<or> sr_resource r = [] \<or> length (sr_resource r) > 512
      then Some InvalidProviderReference else None)"

record storage_capabilities =
  cap_create_volume :: bool
  cap_snapshots :: bool
  cap_attachment :: bool
  cap_capacity :: u64
  cap_allocated :: u64
  cap_unit :: u64

definition capabilities_validate :: "storage_capabilities \<Rightarrow> storage_error option" where
  "capabilities_validate c =
     (if cap_unit c = 0 \<or> cap_allocated c > cap_capacity c then Some InvalidCapacity else None)"

record storage_backend =
  be_id :: string
  be_scope :: storage_scope
  be_capabilities :: storage_capabilities
  be_generation :: u64
  be_available :: bool

definition backend_validate :: "storage_backend \<Rightarrow> storage_error option" where
  "backend_validate b =
     (if be_id b = [] \<or> length (be_id b) > 128 then Some InvalidBackendId
      else case scope_validate (be_scope b) of
          Some e \<Rightarrow> Some e
        | None \<Rightarrow>
      (case capabilities_validate (be_capabilities b) of
         Some e \<Rightarrow> Some e
       | None \<Rightarrow> if be_generation b = 0 then Some InvalidGeneration else None))"

record volume =
  v_id :: string
  v_project :: string
  v_name :: string
  v_description :: string
  v_metadata :: "(string \<times> string) list"
  v_zone :: "string option"
  v_size :: u64
  v_type :: string
  v_backend :: string
  v_scope :: storage_scope
  v_state :: volume_state
  v_generation :: u64
  v_operation :: "string option"
  v_reference :: "storage_reference option"

definition volume_validate :: "volume \<Rightarrow> storage_error option" where
  "volume_validate v =
     (if v_project v = [] \<or> length (v_project v) > 256 then Some InvalidProject
      else if v_size v = 0 \<or> v_type v = [] \<or> length (v_type v) > 128 \<or> length (v_name v) > 255
              \<or> length (v_description v) > 4096 \<or> length (v_metadata v) > 128
              \<or> (case v_zone v of Some z \<Rightarrow> z = [] \<or> length z > 255 | None \<Rightarrow> False)
      then Some InvalidVolumeFields
      else if v_backend v = [] \<or> length (v_backend v) > 128 then Some InvalidBackendId
      else case scope_validate (v_scope v) of
          Some e \<Rightarrow> Some e
        | None \<Rightarrow>
            if v_generation v = 0 then Some InvalidGeneration
            else (case v_reference v of None \<Rightarrow> None | Some r \<Rightarrow> reference_validate r))"

definition volume_transition :: "volume \<Rightarrow> volume \<Rightarrow> (storage_transition_error, volume) rust_result" where
  "volume_transition v v' =
     (if v_state v' \<in> set (volume_successors (v_state v)) then Inr v'
      else Inl (InvalidVolumeTransition (v_state v) (v_state v')))"

record attachment =
  a_id :: string
  a_project :: string
  a_volume :: string
  a_server :: string
  a_scope :: storage_scope
  a_mode :: access_mode
  a_delete_on_termination :: bool
  a_state :: attachment_state
  a_generation :: u64
  a_operation :: "string option"

definition attachment_validate :: "attachment \<Rightarrow> storage_error option" where
  "attachment_validate a =
     (if a_project a = [] \<or> length (a_project a) > 256 then Some InvalidProject
      else case scope_validate (a_scope a) of
          Some e \<Rightarrow> Some e
        | None \<Rightarrow> if a_generation a = 0 then Some InvalidGeneration else None)"

definition attachment_transition ::
  "attachment \<Rightarrow> attachment \<Rightarrow> (storage_transition_error, attachment) rust_result" where
  "attachment_transition a a' =
     (if a_state a' \<in> set (attachment_successors (a_state a)) then Inr a'
      else Inl (InvalidAttachmentTransition (a_state a) (a_state a')))"

record snapshot =
  n_id :: string
  n_project :: string
  n_volume :: string
  n_source_generation :: u64
  n_scope :: storage_scope
  n_consistency :: snapshot_consistency
  n_state :: snapshot_state
  n_generation :: u64
  n_operation :: "string option"
  n_reference :: "storage_reference option"

definition snapshot_validate :: "snapshot \<Rightarrow> storage_error option" where
  "snapshot_validate n =
     (if n_project n = [] \<or> length (n_project n) > 256 then Some InvalidProject
      else case scope_validate (n_scope n) of
          Some e \<Rightarrow> Some e
        | None \<Rightarrow>
            if n_source_generation n = 0 \<or> n_generation n = 0 then Some InvalidGeneration
            else (case n_reference n of None \<Rightarrow> None | Some r \<Rightarrow> reference_validate r))"

definition snapshot_transition ::
  "snapshot \<Rightarrow> snapshot \<Rightarrow> (storage_transition_error, snapshot) rust_result" where
  "snapshot_transition n n' =
     (if n_state n' \<in> set (snapshot_successors (n_state n)) then Inr n'
      else Inl (InvalidSnapshotTransition (n_state n) (n_state n')))"

section \<open>Facts about states\<close>

lemma volume_state_name_inject [simp]: "volume_state_name s = volume_state_name t \<longleftrightarrow> s = t"
  by (cases s; cases t) simp_all

lemma attachment_state_name_inject [simp]: "attachment_state_name s = attachment_state_name t \<longleftrightarrow> s = t"
  by (cases s; cases t) simp_all

lemma snapshot_state_name_inject [simp]: "snapshot_state_name s = snapshot_state_name t \<longleftrightarrow> s = t"
  by (cases s; cases t) simp_all

lemma attachment_transition_Inr:
  "attachment_transition a a' = Inr b \<Longrightarrow> b = a' \<and> a_state a' \<in> set (attachment_successors (a_state a))"
  by (simp add: attachment_transition_def split: if_splits)

end
