(* ===== verification/Store_Volumes.thy ===== *)
theory Store_Volumes
  imports Volume_Model Store_Operations
begin

text \<open>
  Block storage in the SQLite store (\<open>crates/o3k-store/src/storage.rs\<close>, tables of the migrations
  0023 and 0036): backends, volumes, attachments and snapshots. A row has its index columns and a
  payload, the serialised resource, which stands for itself here: parsing gives back what was
  written. An operation gives its result and the tables afterwards; each statement commits on its
  own, so an update whose row cannot be read back stays. \<open>Corrupt\<close> carries no message.
  Lemmas: what an update changes, the live attachment of a volume is unique.
\<close>

section \<open>Tables\<close>

record backend_record =
  bk_backend :: storage_backend
  bk_created :: string

record volume_record =
  vo_volume :: volume
  vo_created :: string

record attachment_record =
  at_attachment :: attachment
  at_created :: string

record snapshot_record =
  ss_snapshot :: snapshot
  ss_created :: string

record volume_row =
  vr_id :: string
  vr_project :: string
  vr_generation :: int
  vr_state :: string
  vr_payload :: volume
  vr_reference :: "storage_reference option"
  vr_created :: string

record attachment_row =
  ar_id :: string
  ar_project :: string
  ar_volume :: string
  ar_server :: string
  ar_scope :: storage_scope
  ar_generation :: int
  ar_state :: string
  ar_payload :: attachment
  ar_created :: string

record snapshot_row =
  sw_id :: string
  sw_project :: string
  sw_volume :: string
  sw_scope :: storage_scope
  sw_source_generation :: int
  sw_generation :: int
  sw_state :: string
  sw_payload :: snapshot
  sw_reference :: "storage_reference option"
  sw_created :: string

record volume_db =
  backend_rows :: "backend_record list"
  volume_rows :: "volume_row list"
  attachment_rows :: "attachment_row list"
  snapshot_rows :: "snapshot_row list"

type_synonym 'a volume_result = "(store_error, 'a) rust_result \<times> volume_db"

definition no_volumes :: volume_db where
  "no_volumes = \<lparr>backend_rows = [], volume_rows = [], attachment_rows = [], snapshot_rows = []\<rparr>"

text \<open>Rewriting the rows a statement selects.\<close>

definition rewrite :: "('r \<Rightarrow> bool) \<Rightarrow> ('r \<Rightarrow> 'r) \<Rightarrow> 'r list \<Rightarrow> 'r list" where
  "rewrite P f rows = map (\<lambda>r. if P r then f r else r) rows"

section \<open>Backends\<close>

definition insert_storage_backend :: "backend_record \<Rightarrow> volume_db \<Rightarrow> unit volume_result" where
  "insert_storage_backend b db =
     (if backend_validate (bk_backend b) \<noteq> None then (Inl Corrupt, db)
      else if i64_of_u64 (be_generation (bk_backend b)) = None then (Inl Corrupt, db)
      else if list_ex (\<lambda>r. be_id (bk_backend r) = be_id (bk_backend b)) (backend_rows db)
      then (Inl ResourceAlreadyExists, db)
      else (Inr (), db\<lparr>backend_rows := backend_rows db @ [b]\<rparr>))"

definition read_backend :: "backend_record \<Rightarrow> (store_error, backend_record) rust_result" where
  "read_backend b = (if backend_validate (bk_backend b) \<noteq> None then Inl Corrupt else Inr b)"

definition get_storage_backend :: "volume_db \<Rightarrow> string \<Rightarrow> (store_error, backend_record option) rust_result" where
  "get_storage_backend db i =
     (case find (\<lambda>r. be_id (bk_backend r) = i) (backend_rows db) of
        None \<Rightarrow> Inr None | Some r \<Rightarrow> map_sum id Some (read_backend r))"

definition list_storage_backends :: "volume_db \<Rightarrow> (store_error, backend_record list) rust_result" where
  "list_storage_backends db =
     collect_results read_backend (sort_key (\<lambda>r. be_id (bk_backend r)) (backend_rows db))"

section \<open>Volumes\<close>

definition volume_from_row :: "volume_row \<Rightarrow> (store_error, volume_record) rust_result" where
  "volume_from_row r =
     (let v = vr_payload r
      in if v_id v \<noteq> vr_id r \<or> v_project v \<noteq> vr_project r \<or> u64_of_i64 (vr_generation r) \<noteq> Some (v_generation v)
            \<or> volume_state_name (v_state v) \<noteq> vr_state r
         then Inl Corrupt
         else if volume_validate v \<noteq> None then Inl Corrupt
         else Inr \<lparr>vo_volume = v, vo_created = vr_created r\<rparr>)"

definition insert_volume :: "volume_record \<Rightarrow> volume_db \<Rightarrow> unit volume_result" where
  "insert_volume x db =
     (let v = vo_volume x
      in if volume_validate v \<noteq> None then (Inl Corrupt, db)
         else case i64_of_u64 (v_generation v) of
             None \<Rightarrow> (Inl Corrupt, db)
           | Some g \<Rightarrow>
               if list_ex (\<lambda>r. vr_id r = v_id v) (volume_rows db) then (Inl ResourceAlreadyExists, db)
               else (Inr (), db\<lparr>volume_rows := volume_rows db @
                 [\<lparr>vr_id = v_id v, vr_project = v_project v, vr_generation = g,
                   vr_state = volume_state_name (v_state v), vr_payload = v,
                   vr_reference = v_reference v, vr_created = vo_created x\<rparr>]\<rparr>))"

definition get_volume :: "volume_db \<Rightarrow> string \<Rightarrow> (store_error, volume_record option) rust_result" where
  "get_volume db i =
     (case find (\<lambda>r. vr_id r = i) (volume_rows db) of
        None \<Rightarrow> Inr None | Some r \<Rightarrow> map_sum id Some (volume_from_row r))"

definition list_volumes :: "volume_db \<Rightarrow> string \<Rightarrow> (store_error, volume_record list) rust_result" where
  "list_volumes db project =
     collect_results volume_from_row (sort_key vr_id (filter (\<lambda>r. vr_project r = project) (volume_rows db)))"

definition list_all_volumes :: "volume_db \<Rightarrow> (store_error, volume_record list) rust_result" where
  "list_all_volumes db =
     collect_results volume_from_row (sort_key vr_project (sort_key vr_id (volume_rows db)))"

text \<open>A missing row after the update is \<open>ResourceNotFound\<close>.\<close>

definition found :: "(store_error, 'a option) rust_result \<Rightarrow> (store_error, 'a) rust_result" where
  "found x = (case x of Inl e \<Rightarrow> Inl e | Inr None \<Rightarrow> Inl ResourceNotFound | Inr (Some y) \<Rightarrow> Inr y)"

definition update_volume :: "u64 \<Rightarrow> volume_record \<Rightarrow> volume_db \<Rightarrow> volume_record volume_result" where
  "update_volume expected x db =
     (let v = vo_volume x
      in if volume_validate v \<noteq> None then (Inl Corrupt, db)
         else case i64_of_u64 expected of
             None \<Rightarrow> (Inl StaleGeneration, db)
           | Some current \<Rightarrow>
         (case i64_of_u64 (v_generation v) of
            None \<Rightarrow> (Inl Corrupt, db)
          | Some next \<Rightarrow>
              let sel = (\<lambda>r. vr_id r = v_id v \<and> vr_generation r = current)
              in if \<not> list_ex sel (volume_rows db) then (Inl StaleGeneration, db)
                 else let db' = db\<lparr>volume_rows := rewrite sel
                        (\<lambda>r. r\<lparr>vr_generation := next, vr_state := volume_state_name (v_state v),
                               vr_payload := v, vr_reference := v_reference v\<rparr>) (volume_rows db)\<rparr>
                      in (found (get_volume db' (v_id v)), db')))"

definition delete_volume :: "string \<Rightarrow> string \<Rightarrow> volume_db \<Rightarrow> unit volume_result" where
  "delete_volume project i db =
     (let sel = (\<lambda>r. vr_id r = i \<and> vr_project r = project)
      in if \<not> list_ex sel (volume_rows db) then (Inl ResourceNotFound, db)
         else (Inr (), db\<lparr>volume_rows := filter (\<lambda>r. \<not> sel r) (volume_rows db)\<rparr>))"

section \<open>Attachments\<close>

definition attachment_from_row :: "attachment_row \<Rightarrow> (store_error, attachment_record) rust_result" where
  "attachment_from_row r =
     (let a = ar_payload r
      in if a_id a \<noteq> ar_id r \<or> a_project a \<noteq> ar_project r
            \<or> u64_of_i64 (ar_generation r) \<noteq> Some (a_generation a)
            \<or> attachment_state_name (a_state a) \<noteq> ar_state r
         then Inl Corrupt
         else if attachment_validate a \<noteq> None then Inl Corrupt
         else Inr \<lparr>at_attachment = a, at_created = ar_created r\<rparr>)"

text \<open>The partial unique index: a row is live unless its state is deleted.\<close>

definition live_row :: "attachment_row \<Rightarrow> bool" where
  "live_row r = (ar_state r \<noteq> ''deleted'')"

definition insert_volume_attachment :: "attachment_record \<Rightarrow> volume_db \<Rightarrow> unit volume_result" where
  "insert_volume_attachment x db =
     (let a = at_attachment x
      in if attachment_validate a \<noteq> None then (Inl Corrupt, db)
         else case i64_of_u64 (a_generation a) of
             None \<Rightarrow> (Inl Corrupt, db)
           | Some g \<Rightarrow>
               let row = \<lparr>ar_id = a_id a, ar_project = a_project a, ar_volume = a_volume a,
                      ar_server = a_server a, ar_scope = a_scope a, ar_generation = g,
                      ar_state = attachment_state_name (a_state a), ar_payload = a,
                      ar_created = at_created x\<rparr>
               in if list_ex (\<lambda>r. ar_id r = a_id a
                       \<or> live_row row \<and> live_row r \<and> ar_volume r = a_volume a) (attachment_rows db)
                  then (Inl ResourceAlreadyExists, db)
                  else (Inr (), db\<lparr>attachment_rows := attachment_rows db @ [row]\<rparr>))"

definition get_volume_attachment ::
  "volume_db \<Rightarrow> string \<Rightarrow> (store_error, attachment_record option) rust_result" where
  "get_volume_attachment db i =
     (case find (\<lambda>r. ar_id r = i) (attachment_rows db) of
        None \<Rightarrow> Inr None | Some r \<Rightarrow> map_sum id Some (attachment_from_row r))"

definition list_volume_attachments ::
  "volume_db \<Rightarrow> string \<Rightarrow> (store_error, attachment_record list) rust_result" where
  "list_volume_attachments db project =
     collect_results attachment_from_row
       (sort_key ar_id (filter (\<lambda>r. ar_project r = project) (attachment_rows db)))"

definition update_volume_attachment ::
  "u64 \<Rightarrow> attachment_record \<Rightarrow> volume_db \<Rightarrow> attachment_record volume_result" where
  "update_volume_attachment expected x db =
     (let a = at_attachment x
      in if attachment_validate a \<noteq> None then (Inl Corrupt, db)
         else case i64_of_u64 (a_generation a) of
             None \<Rightarrow> (Inl Corrupt, db)
           | Some next \<Rightarrow>
         (case i64_of_u64 expected of
            None \<Rightarrow> (Inl StaleGeneration, db)
          | Some current \<Rightarrow>
              let sel = (\<lambda>r. ar_id r = a_id a \<and> ar_project r = a_project a \<and> ar_generation r = current);
                  name = attachment_state_name (a_state a)
              in if \<not> list_ex sel (attachment_rows db) then (Inl StaleGeneration, db)
                 else if name \<noteq> ''deleted''
                      \<and> list_ex (\<lambda>r. sel r \<and> list_ex (\<lambda>q. \<not> sel q \<and> live_row q \<and> ar_volume q = ar_volume r)
                            (attachment_rows db)) (attachment_rows db)
                 then (Inl Database, db)
                 else let db' = db\<lparr>attachment_rows := rewrite sel
                        (\<lambda>r. r\<lparr>ar_generation := next, ar_state := name, ar_payload := a\<rparr>)
                        (attachment_rows db)\<rparr>
                      in (found (get_volume_attachment db' (a_id a)), db')))"

definition delete_volume_attachment :: "string \<Rightarrow> string \<Rightarrow> volume_db \<Rightarrow> unit volume_result" where
  "delete_volume_attachment project i db =
     (let sel = (\<lambda>r. ar_id r = i \<and> ar_project r = project)
      in if \<not> list_ex sel (attachment_rows db) then (Inl ResourceNotFound, db)
         else (Inr (), db\<lparr>attachment_rows := filter (\<lambda>r. \<not> sel r) (attachment_rows db)\<rparr>))"

section \<open>Snapshots\<close>

definition snapshot_from_row :: "snapshot_row \<Rightarrow> (store_error, snapshot_record) rust_result" where
  "snapshot_from_row r =
     (let n = sw_payload r
      in if n_id n \<noteq> sw_id r \<or> n_project n \<noteq> sw_project r
            \<or> u64_of_i64 (sw_generation r) \<noteq> Some (n_generation n)
            \<or> snapshot_state_name (n_state n) \<noteq> sw_state r
         then Inl Corrupt
         else if snapshot_validate n \<noteq> None then Inl Corrupt
         else Inr \<lparr>ss_snapshot = n, ss_created = sw_created r\<rparr>)"

definition insert_snapshot :: "snapshot_record \<Rightarrow> volume_db \<Rightarrow> unit volume_result" where
  "insert_snapshot x db =
     (let n = ss_snapshot x
      in if snapshot_validate n \<noteq> None then (Inl Corrupt, db)
         else case (i64_of_u64 (n_source_generation n), i64_of_u64 (n_generation n)) of
             (Some s, Some g) \<Rightarrow>
               if list_ex (\<lambda>r. sw_id r = n_id n) (snapshot_rows db) then (Inl ResourceAlreadyExists, db)
               else (Inr (), db\<lparr>snapshot_rows := snapshot_rows db @
                 [\<lparr>sw_id = n_id n, sw_project = n_project n, sw_volume = n_volume n, sw_scope = n_scope n,
                   sw_source_generation = s, sw_generation = g, sw_state = snapshot_state_name (n_state n),
                   sw_payload = n, sw_reference = n_reference n, sw_created = ss_created x\<rparr>]\<rparr>)
           | _ \<Rightarrow> (Inl Corrupt, db))"

definition get_snapshot :: "volume_db \<Rightarrow> string \<Rightarrow> (store_error, snapshot_record option) rust_result" where
  "get_snapshot db i =
     (case find (\<lambda>r. sw_id r = i) (snapshot_rows db) of
        None \<Rightarrow> Inr None | Some r \<Rightarrow> map_sum id Some (snapshot_from_row r))"

definition list_snapshots :: "volume_db \<Rightarrow> string \<Rightarrow> (store_error, snapshot_record list) rust_result" where
  "list_snapshots db project =
     collect_results snapshot_from_row
       (sort_key sw_id (filter (\<lambda>r. sw_project r = project) (snapshot_rows db)))"

definition update_snapshot :: "u64 \<Rightarrow> snapshot_record \<Rightarrow> volume_db \<Rightarrow> snapshot_record volume_result" where
  "update_snapshot expected x db =
     (let n = ss_snapshot x
      in if snapshot_validate n \<noteq> None then (Inl Corrupt, db)
         else case i64_of_u64 (n_generation n) of
             None \<Rightarrow> (Inl Corrupt, db)
           | Some next \<Rightarrow>
         (case i64_of_u64 expected of
            None \<Rightarrow> (Inl StaleGeneration, db)
          | Some current \<Rightarrow>
              let sel = (\<lambda>r. sw_id r = n_id n \<and> sw_project r = n_project n \<and> sw_generation r = current)
              in if \<not> list_ex sel (snapshot_rows db) then (Inl StaleGeneration, db)
                 else let db' = db\<lparr>snapshot_rows := rewrite sel
                        (\<lambda>r. r\<lparr>sw_generation := next, sw_state := snapshot_state_name (n_state n),
                               sw_payload := n, sw_reference := n_reference n\<rparr>) (snapshot_rows db)\<rparr>
                      in (found (get_snapshot db' (n_id n)), db')))"

definition delete_snapshot :: "string \<Rightarrow> string \<Rightarrow> volume_db \<Rightarrow> unit volume_result" where
  "delete_snapshot project i db =
     (let sel = (\<lambda>r. sw_id r = i \<and> sw_project r = project)
      in if \<not> list_ex sel (snapshot_rows db) then (Inl ResourceNotFound, db)
         else (Inr (), db\<lparr>snapshot_rows := filter (\<lambda>r. \<not> sel r) (snapshot_rows db)\<rparr>))"

section \<open>The live attachment of a volume\<close>

definition one_live :: "attachment_row list \<Rightarrow> bool" where
  "one_live rows \<longleftrightarrow> distinct (map ar_id rows)
     \<and> (\<forall>r\<in>set rows. \<forall>q\<in>set rows. live_row r \<and> live_row q \<and> ar_volume r = ar_volume q \<longrightarrow> ar_id r = ar_id q)"

lemma one_live_filter: "one_live rows \<Longrightarrow> one_live (filter P rows)"
  by (auto simp: one_live_def distinct_map_filter)

lemma one_live_snoc:
  assumes "one_live rows"
    and "\<not> list_ex (\<lambda>r. ar_id r = ar_id row \<or> live_row row \<and> live_row r \<and> ar_volume r = ar_volume row) rows"
  shows "one_live (rows @ [row])"
proof -
  have new: "ar_id r \<noteq> ar_id row" "\<not> (live_row row \<and> live_row r \<and> ar_volume r = ar_volume row)"
    if "r \<in> set rows" for r using assms(2) that by (auto simp: list_ex_iff)
  have "ar_id r = ar_id q"
    if "r \<in> set (rows @ [row])" "q \<in> set (rows @ [row])" "live_row r" "live_row q" "ar_volume r = ar_volume q"
    for r q
  proof -
    have "r \<in> set rows \<or> r = row" "q \<in> set rows \<or> q = row" using that(1,2) by auto
    moreover have "ar_id r = ar_id q" if "r \<in> set rows" "q \<in> set rows"
      using assms(1) that \<open>live_row r\<close> \<open>live_row q\<close> \<open>ar_volume r = ar_volume q\<close>
      unfolding one_live_def by blast
    ultimately show ?thesis using new(2) [of q] new(2) [of r] that(3-5) by (elim disjE) simp_all
  qed
  moreover have "distinct (map ar_id (rows @ [row]))"
  proof -
    have "ar_id row \<notin> ar_id ` set rows" using new(1) by (metis imageE)
    then show ?thesis using assms(1) by (simp add: one_live_def)
  qed
  ultimately show ?thesis unfolding one_live_def by blast
qed

lemma set_rewrite: "set (rewrite P f rows) = f ` {r \<in> set rows. P r} \<union> {r \<in> set rows. \<not> P r}"
  by (auto simp: rewrite_def)

lemma map_rewrite: "(\<And>r. k (f r) = k r) \<Longrightarrow> map k (rewrite P f rows) = map k rows"
  by (simp add: rewrite_def)

lemma one_live_rewrite:
  assumes "one_live rows"
    and "\<And>r. ar_id (f r) = ar_id r" "\<And>r. ar_volume (f r) = ar_volume r" "\<And>r. live_row (f r) = live"
    and "\<And>r q. live \<Longrightarrow> r \<in> set rows \<Longrightarrow> P r \<Longrightarrow> q \<in> set rows \<Longrightarrow> \<not> P q \<Longrightarrow> live_row q \<Longrightarrow>
           ar_volume q \<noteq> ar_volume r"
    and "\<And>r q. r \<in> set rows \<Longrightarrow> P r \<Longrightarrow> q \<in> set rows \<Longrightarrow> P q \<Longrightarrow> ar_id r = ar_id q"
  shows "one_live (rewrite P f rows)"
  unfolding one_live_def
proof (intro conjI ballI impI)
  show "distinct (map ar_id (rewrite P f rows))"
    using assms(1,2) by (simp add: map_rewrite one_live_def)
next
  fix r q
  assume "r \<in> set (rewrite P f rows)" "q \<in> set (rewrite P f rows)"
    and both: "live_row r \<and> live_row q \<and> ar_volume r = ar_volume q"
  then consider (old) "r \<in> set rows" "q \<in> set rows"
    | (left) r0 where "r = f r0" "r0 \<in> set rows" "P r0" "q \<in> set rows" "\<not> P q"
    | (right) q0 where "q = f q0" "q0 \<in> set rows" "P q0" "r \<in> set rows" "\<not> P r"
    | (new) r0 q0 where "r = f r0" "r0 \<in> set rows" "P r0" "q = f q0" "q0 \<in> set rows" "P q0"
    unfolding set_rewrite by blast
  then show "ar_id r = ar_id q"
  proof cases
    case old
    then show ?thesis using assms(1) both unfolding one_live_def by blast
  next
    case (left r0)
    with both have "live" "ar_volume r0 = ar_volume q" using assms(3) [of r0] assms(4) [of r0] by simp_all
    then show ?thesis using left both assms(5) [of r0 q] by simp
  next
    case (right q0)
    with both have "live" "ar_volume q0 = ar_volume r" using assms(3) [of q0] assms(4) [of q0] by simp_all
    then show ?thesis using right both assms(5) [of q0 r] by simp
  next
    case (new r0 q0)
    then show ?thesis using assms(2) assms(6) [of r0 q0] by simp
  qed
qed

lemma insert_attachment_one_live:
  "one_live (attachment_rows db) \<Longrightarrow> one_live (attachment_rows (snd (insert_volume_attachment x db)))"
  unfolding insert_volume_attachment_def Let_def
  by (auto split: option.split intro!: one_live_snoc)

lemma live_rewritten [simp]:
  "live_row (r\<lparr>ar_generation := g, ar_state := attachment_state_name s, ar_payload := a\<rparr>) \<longleftrightarrow> s \<noteq> AttDeleted"
  using attachment_state_name_inject [of s AttDeleted] by (simp add: live_row_def)

lemma rewritten_one_live:
  assumes "one_live (attachment_rows db)"
    and "name = attachment_state_name s"
    and "sel = (\<lambda>r. ar_id r = i \<and> ar_project r = p \<and> ar_generation r = current)"
    and "\<not> (name \<noteq> ''deleted''
           \<and> list_ex (\<lambda>r. sel r \<and> list_ex (\<lambda>q. \<not> sel q \<and> live_row q \<and> ar_volume q = ar_volume r)
                 (attachment_rows db)) (attachment_rows db))"
  shows "one_live (rewrite sel (\<lambda>r. r\<lparr>ar_generation := g, ar_state := name, ar_payload := a\<rparr>)
           (attachment_rows db))"
  using assms(1)
proof (rule one_live_rewrite)
  show "live_row (r\<lparr>ar_generation := g, ar_state := name, ar_payload := a\<rparr>) = (s \<noteq> AttDeleted)" for r
    by (simp add: assms(2))
  show "ar_volume q \<noteq> ar_volume r"
    if "s \<noteq> AttDeleted" "r \<in> set (attachment_rows db)" "sel r" "q \<in> set (attachment_rows db)"
      "\<not> sel q" "live_row q" for r q
  proof -
    have "name \<noteq> ''deleted''"
      using that(1) attachment_state_name_inject [of s AttDeleted] by (simp add: assms(2))
    with assms(4) that show ?thesis unfolding list_ex_iff by blast
  qed
  show "ar_id r = ar_id q" if "sel r" "sel q" for r q using that by (simp add: assms(3))
qed simp_all

lemma update_attachment_one_live:
  assumes "one_live (attachment_rows db)"
  shows "one_live (attachment_rows (snd (update_volume_attachment expected x db)))"
  unfolding update_volume_attachment_def Let_def
  by (simp add: assms rewritten_one_live [OF assms refl refl] split: option.split)

section \<open>Runs of the repository\<close>

datatype volume_op =
    InsertBackend backend_record
  | InsertVolume volume_record
  | UpdateVolume u64 volume_record
  | RemoveVolume string string
  | InsertAttachment attachment_record
  | UpdateAttachment u64 attachment_record
  | RemoveAttachment string string
  | InsertSnapshot snapshot_record
  | UpdateSnapshot u64 snapshot_record
  | RemoveSnapshot string string

primrec volume_after :: "volume_db \<Rightarrow> volume_op \<Rightarrow> volume_db" where
  "volume_after db (InsertBackend b) = snd (insert_storage_backend b db)"
| "volume_after db (InsertVolume x) = snd (insert_volume x db)"
| "volume_after db (UpdateVolume g x) = snd (update_volume g x db)"
| "volume_after db (RemoveVolume p i) = snd (delete_volume p i db)"
| "volume_after db (InsertAttachment x) = snd (insert_volume_attachment x db)"
| "volume_after db (UpdateAttachment g x) = snd (update_volume_attachment g x db)"
| "volume_after db (RemoveAttachment p i) = snd (delete_volume_attachment p i db)"
| "volume_after db (InsertSnapshot x) = snd (insert_snapshot x db)"
| "volume_after db (UpdateSnapshot g x) = snd (update_snapshot g x db)"
| "volume_after db (RemoveSnapshot p i) = snd (delete_snapshot p i db)"

definition volume_step :: "volume_db \<Rightarrow> volume_op \<Rightarrow> unit + volume_db" where
  "volume_step db x = Inr (volume_after db x)"

lemma other_tables [simp]:
  "attachment_rows (snd (insert_storage_backend b db)) = attachment_rows db"
  "attachment_rows (snd (insert_volume v db)) = attachment_rows db"
  "attachment_rows (snd (update_volume g v db)) = attachment_rows db"
  "attachment_rows (snd (delete_volume p i db)) = attachment_rows db"
  "attachment_rows (snd (insert_snapshot n db)) = attachment_rows db"
  "attachment_rows (snd (update_snapshot g n db)) = attachment_rows db"
  "attachment_rows (snd (delete_snapshot p i db)) = attachment_rows db"
  by (simp_all add: insert_storage_backend_def insert_volume_def update_volume_def delete_volume_def
      insert_snapshot_def update_snapshot_def delete_snapshot_def Let_def split: option.split)

lemma volume_after_one_live: "one_live (attachment_rows db) \<Longrightarrow> one_live (attachment_rows (volume_after db x))"
  by (cases x)
    (simp_all add: insert_attachment_one_live update_attachment_one_live one_live_filter
      delete_volume_attachment_def Let_def)

interpretation live_attachments: invariant_machine volume_step "\<lambda>db. one_live (attachment_rows db)"
proof
  fix s x s'
  assume "one_live (attachment_rows s)" "volume_step s x = Inr s'"
  then show "one_live (attachment_rows s')" using volume_after_one_live by (auto simp: volume_step_def)
qed

text \<open>
  C23: A volume has at most one live attachment. On every run of the repository from empty tables,
  two attachment rows of one volume that are not deleted are the same row, so no interleaving of
  inserts and updates attaches a volume twice; and a further live attachment of it is refused.
\<close>

theorem one_live_attachment:
  assumes "db = run_ops volume_step no_volumes ops"
    and "r \<in> set (attachment_rows db)" "live_row r"
  shows "(\<forall>q\<in>set (attachment_rows db). live_row q \<and> ar_volume q = ar_volume r \<longrightarrow> q = r)
    \<and> (a_volume (at_attachment x) = ar_volume r \<and> a_state (at_attachment x) \<noteq> AttDeleted
        \<longrightarrow> (\<exists>e. insert_volume_attachment x db = (Inl e, db)))"
proof -
  have "one_live (attachment_rows no_volumes)" by (simp add: no_volumes_def one_live_def)
  then have inv: "one_live (attachment_rows db)"
    unfolding assms(1) by (rule live_attachments.run_inv)
  have "q = r" if "q \<in> set (attachment_rows db)" "live_row q" "ar_volume q = ar_volume r" for q
  proof -
    have "ar_id q = ar_id r" using inv that assms(2,3) unfolding one_live_def by blast
    then show ?thesis using inv that(1) assms(2) by (simp add: one_live_def distinct_map inj_on_def)
  qed
  moreover have "\<exists>e. insert_volume_attachment x db = (Inl e, db)"
    if "a_volume (at_attachment x) = ar_volume r" "a_state (at_attachment x) \<noteq> AttDeleted"
  proof -
    have "attachment_state_name (a_state (at_attachment x)) \<noteq> ''deleted''"
      using that(2) attachment_state_name_inject [of "a_state (at_attachment x)" AttDeleted] by simp
    then have "list_ex (\<lambda>q. ar_id q = a_id (at_attachment x)
        \<or> attachment_state_name (a_state (at_attachment x)) \<noteq> ''deleted'' \<and> live_row q
          \<and> ar_volume q = a_volume (at_attachment x)) (attachment_rows db)"
      using assms(2,3) that(1) unfolding list_ex_iff by metis
    then show ?thesis
      unfolding insert_volume_attachment_def Let_def live_row_def by (simp split: option.split)
  qed
  ultimately show ?thesis by blast
qed

section \<open>A reserved attachment\<close>

definition sample_volume :: volume where
  "sample_volume = \<lparr>v_id = ''v1'', v_project = ''p1'', v_name = [], v_description = [], v_metadata = [],
     v_zone = None, v_size = 4096, v_type = ''lvm-thin'', v_backend = ''b1'', v_scope = ScopeHost ''h1'',
     v_state = VolAvailable, v_generation = 1, v_operation = None, v_reference = None\<rparr>"

definition sample_attachment :: attachment where
  "sample_attachment = \<lparr>a_id = ''a1'', a_project = ''p1'', a_volume = ''v1'', a_server = ''s1'',
     a_scope = ScopeHost ''h1'', a_mode = ReadWrite, a_delete_on_termination = False,
     a_state = AttReserved, a_generation = 1, a_operation = None\<rparr>"

definition sample_volumes :: volume_db where
  "sample_volumes = run_ops volume_step no_volumes
     [InsertVolume \<lparr>vo_volume = sample_volume, vo_created = ''t''\<rparr>,
      InsertAttachment \<lparr>at_attachment = sample_attachment, at_created = ''t''\<rparr>]"

definition sample_attachment_row :: attachment_row where
  "sample_attachment_row = \<lparr>ar_id = ''a1'', ar_project = ''p1'', ar_volume = ''v1'', ar_server = ''s1'',
     ar_scope = ScopeHost ''h1'', ar_generation = 1, ar_state = ''reserved'',
     ar_payload = sample_attachment, ar_created = ''t''\<rparr>"

lemma sample_attachment_rows: "attachment_rows sample_volumes = [sample_attachment_row]"
  by code_simp

theorem one_live_attachment_witness:
  "\<exists>e. insert_volume_attachment
         \<lparr>at_attachment = sample_attachment\<lparr>a_id := ''a2'', a_server := ''s2''\<rparr>, at_created = ''t''\<rparr> sample_volumes
       = (Inl e, sample_volumes)"
proof -
  have "live_row sample_attachment_row" by (simp add: live_row_def sample_attachment_row_def)
  from one_live_attachment [OF sample_volumes_def _ this,
      of "\<lparr>at_attachment = sample_attachment\<lparr>a_id := ''a2'', a_server := ''s2''\<rparr>, at_created = ''t''\<rparr>"]
  show ?thesis
    by (simp add: sample_attachment_rows) (simp add: sample_attachment_row_def sample_attachment_def)
qed

end
