(* ===== verification/Volume_Workflow.thy ===== *)
theory Volume_Workflow
  imports Rust_Effects Store_Volumes
begin

text \<open>
  The attachment workflow of the storage controller
  (\<open>crates/o3k-reconciler/src/storage_workflow.rs\<close>): attach, detach and the reconciliation of a
  command after a restart. The world holds the tables of \<open>Store_Operations\<close> and \<open>Store_Volumes\<close>
  and whatever the parameters keep. Parameters are the controller fence, the storage provider and
  the compute executor, each an effect on the world, for other controllers go on while a call is
  awaited; the codec of envelopes, the fingerprint of an intent and UUIDv5. The text of a UUID
  is its identity.
  Lemmas: every handler respects a preorder its calls respect.
\<close>

section \<open>Types\<close>

datatype storage_provider_error =
    PeInvalidRequest | PeInvalidConfiguration | PeNotFound | PeForeignResource | PeCapacity
  | PeUnavailable | PeUnknownOutcome | PeCommandFailed | PeConflict

fun is_unknown :: "storage_provider_error \<Rightarrow> bool" where
  "is_unknown e = (e = PeUnknownOutcome \<or> e = PeUnavailable)"

datatype compute_attachment_error = CeUnknownOutcome | CeFailed

datatype workflow_error =
    WStore store_error | WInvalidIntent | WIdempotencyConflict | WStaleControllerFence | WStaleAgentFence
  | WStaleGeneration | WUnknownOutcome | WProvider storage_provider_error | WComputeUnknownOutcome
  | WComputeFailed

record storage_intent =
  si_attachment :: string
  si_volume :: string
  si_server :: string
  si_project :: string
  si_mode :: access_mode
  si_delete_on_termination :: bool
  si_controller_epoch :: u64
  si_agent :: string
  si_agent_epoch :: u64
  si_key :: string
  si_trace :: string
  si_deadline :: string

definition intent_validate :: "storage_intent \<Rightarrow> workflow_error option" where
  "intent_validate i =
     (if si_project i = [] \<or> length (si_project i) > 256 \<or> si_controller_epoch i = 0
         \<or> si_agent i = [] \<or> length (si_agent i) > 128 \<or> si_agent_epoch i = 0
         \<or> si_key i = [] \<or> length (si_key i) > 256 \<or> si_trace i = [] \<or> length (si_trace i) > 256
         \<or> si_deadline i = [] \<or> length (si_deadline i) > 128
      then Some WInvalidIntent else None)"

record workflow_outcome =
  wo_command :: string
  wo_operation :: string
  wo_command_state :: command_state
  wo_attachment_state :: attachment_state

record attachment_request =
  rq_attachment :: string
  rq_volume :: string
  rq_project :: string
  rq_volume_generation :: u64
  rq_host :: string
  rq_mode :: access_mode

record prepared_attachment =
  pp_reference :: storage_reference
  pp_device :: string
  pp_attachment :: string
  pp_volume :: string

definition prepared_from_provider ::
  "storage_reference \<Rightarrow> string \<Rightarrow> string \<Rightarrow> string \<Rightarrow> (storage_provider_error, prepared_attachment) rust_result"
  where
  "prepared_from_provider reference device i v =
     (if device = [] \<or> length device > 512 \<or> CHR 0x00 \<in> set device then Inl PeInvalidRequest
      else Inr \<lparr>pp_reference = reference, pp_device = device, pp_attachment = i, pp_volume = v\<rparr>)"

record attachment_observation =
  ob_attachment :: string
  ob_volume :: string
  ob_host :: string
  ob_attached :: bool
  ob_reference :: storage_reference

section \<open>The world and the parameters\<close>

record 'x storage_world =
  sx_ops :: operations_db
  sx_volumes :: volume_db
  sx_outer :: 'x

type_synonym ('x, 'e, 'a) storage_call = "('x storage_world, 'e, 'a) effect"
type_synonym ('x, 'a) workflow_act = "('x storage_world, workflow_error, 'a) effect"

record 'x workflow =
  wf_begin :: "u64 \<Rightarrow> ('x, unit) workflow_act"
  wf_assert :: "u64 \<Rightarrow> ('x, unit) workflow_act"
  wf_end :: "u64 \<Rightarrow> ('x, unit) workflow_act"
  wf_prepare :: "attachment_request \<Rightarrow> ('x, storage_provider_error, prepared_attachment) storage_call"
  wf_inspect :: "attachment_request \<Rightarrow> ('x, storage_provider_error, attachment_observation) storage_call"
  wf_terminate :: "attachment_request \<Rightarrow> ('x, storage_provider_error, attachment_observation) storage_call"
  wf_attach :: "attachment \<Rightarrow> prepared_attachment \<Rightarrow> ('x, compute_attachment_error, unit) storage_call"
  wf_observe :: "attachment \<Rightarrow> ('x, compute_attachment_error, bool) storage_call"
  wf_detach :: "attachment \<Rightarrow> ('x, compute_attachment_error, unit) storage_call"
  wf_fingerprint :: "storage_intent \<Rightarrow> string option"
  wf_encode :: "storage_envelope \<Rightarrow> string option"
  wf_decode :: "string \<Rightarrow> storage_envelope option"
  wf_uuid5 :: "string \<Rightarrow> string"
  wf_parse_uuid :: "string \<Rightarrow> string option"
  wf_time :: string

definition on_ops :: "(operations_db \<Rightarrow> 'a store_result) \<Rightarrow> ('x, 'a) workflow_act" where
  "on_ops f w =
     (case f (sx_ops w) of
        (Inl e, db) \<Rightarrow> (Inl (WStore e), w\<lparr>sx_ops := db\<rparr>)
      | (Inr x, db) \<Rightarrow> (Inr x, w\<lparr>sx_ops := db\<rparr>))"

definition on_volumes :: "(volume_db \<Rightarrow> 'a volume_result) \<Rightarrow> ('x, 'a) workflow_act" where
  "on_volumes f w =
     (case f (sx_volumes w) of
        (Inl e, db) \<Rightarrow> (Inl (WStore e), w\<lparr>sx_volumes := db\<rparr>)
      | (Inr x, db) \<Rightarrow> (Inr x, w\<lparr>sx_volumes := db\<rparr>))"

definition reads :: "('x storage_world \<Rightarrow> (store_error, 'a) rust_result) \<Rightarrow> ('x, 'a) workflow_act" where
  "reads q w = (map_sum WStore id (q w), w)"

definition read_attachment :: "string \<Rightarrow> ('x, attachment_record) workflow_act" where
  "read_attachment i = reads (\<lambda>w. found (get_volume_attachment (sx_volumes w) i))"

definition read_volume :: "string \<Rightarrow> ('x, volume_record) workflow_act" where
  "read_volume i = reads (\<lambda>w. found (get_volume (sx_volumes w) i))"

definition refuse_if :: "bool \<Rightarrow> workflow_error \<Rightarrow> ('x, unit) workflow_act" where
  "refuse_if c e = (if c then fail_with e else done_with ())"

section \<open>Helpers\<close>

definition deterministic_storage_id :: "'x workflow \<Rightarrow> string \<Rightarrow> string \<Rightarrow> string" where
  "deterministic_storage_id W kind key = wf_uuid5 W (''o3k-storage:'' @ kind @ '':'' @ key)"

definition transition_attachment ::
  "attachment_record \<Rightarrow> attachment_state \<Rightarrow> (workflow_error, attachment_record) rust_result" where
  "transition_attachment r state =
     (let a = at_attachment r
      in case checked_add (a_generation a) 1 of
           None \<Rightarrow> Inl WStaleGeneration
         | Some g \<Rightarrow>
             (case attachment_transition a (a\<lparr>a_state := state, a_generation := g\<rparr>) of
                Inl _ \<Rightarrow> Inl WInvalidIntent
              | Inr a' \<Rightarrow> Inr \<lparr>at_attachment = a', at_created = at_created r\<rparr>))"

definition lift_result :: "(workflow_error, 'a) rust_result \<Rightarrow> ('x, 'a) workflow_act" where
  "lift_result r = (case r of Inl e \<Rightarrow> fail_with e | Inr x \<Rightarrow> done_with x)"

definition attachment_request_of :: "attachment \<Rightarrow> u64 \<Rightarrow> storage_envelope \<Rightarrow> attachment_request" where
  "attachment_request_of a volume_generation e =
     \<lparr>rq_attachment = a_id a, rq_volume = a_volume a, rq_project = a_project a,
      rq_volume_generation = volume_generation, rq_host = e_agent e, rq_mode = a_mode a\<rparr>"

definition envelope_of ::
  "storage_intent \<Rightarrow> string \<Rightarrow> string \<Rightarrow> u64 \<Rightarrow> string \<Rightarrow> storage_action
   \<Rightarrow> (workflow_error, storage_envelope) rust_result" where
  "envelope_of i command operation generation fp action =
     (let e = \<lparr>e_protocol = 1, e_command = command, e_operation = operation, e_key = si_key i,
               e_resource = si_attachment i, e_generation = generation, e_project = si_project i,
               e_controller_epoch = si_controller_epoch i, e_agent = si_agent i,
               e_agent_epoch = si_agent_epoch i, e_deadline = si_deadline i, e_trace = si_trace i,
               e_action = action, e_fingerprint = fp\<rparr>
      in if envelope_validate e \<noteq> None then Inl WInvalidIntent else Inr e)"

text \<open>Moving an attachment to a state, guarded by the generation that was read.\<close>

definition move_attachment :: "attachment_record \<Rightarrow> attachment_state \<Rightarrow> ('x, attachment_record) workflow_act" where
  "move_attachment r state =
     chain (lift_result (transition_attachment r state)) (\<lambda>next.
     on_volumes (update_volume_attachment (a_generation (at_attachment r)) next))"

text \<open>\<open>command.last_sequence.saturating_add(1).max(least)\<close> with the state a command moves to.\<close>

definition move_command ::
  "agent_command \<Rightarrow> command_state \<Rightarrow> u64 \<Rightarrow> u64 \<Rightarrow> ('x, agent_command) workflow_act" where
  "move_command c state accepted least =
     on_ops (update_agent_command (c_id c) state accepted (max (saturating_add (c_last c) 1) least) None None)"

definition project_volume_state :: "attachment_record \<Rightarrow> volume_state \<Rightarrow> ('x, unit) workflow_act" where
  "project_volume_state r target =
     chain (read_volume (a_volume (at_attachment r))) (\<lambda>x.
     let v = vo_volume x
     in if v_state v = target then done_with ()
        else case checked_add (v_generation v) 1 of
            None \<Rightarrow> fail_with WStaleGeneration
          | Some g \<Rightarrow>
              chain (on_volumes (update_volume (g - 1)
                  (x\<lparr>vo_volume := v\<lparr>v_state := target, v_generation := g\<rparr>\<rparr>))) (\<lambda>_. done_with ()))"

definition mark_unknown :: "'x workflow \<Rightarrow> agent_command \<Rightarrow> attachment_record \<Rightarrow> ('x, unit) workflow_act" where
  "mark_unknown W c r =
     chain (if a_state (at_attachment r) \<in> {AttPreparing, AttAttaching}
            then chain (move_attachment r AttUnknown) (\<lambda>_. done_with ()) else done_with ()) (\<lambda>_.
     chain (move_command c CmdUnknownOutcome (max (c_accepted c) 1) 2) (\<lambda>_.
     chain (on_ops (update_operation (wf_time W) (c_operation c) OpUnknownOutcome None (Some ''unknown_outcome'')
              (Some ''storage attachment requires observation''))) (\<lambda>_. done_with ())))"

definition mark_failed :: "'x workflow \<Rightarrow> agent_command \<Rightarrow> attachment_record \<Rightarrow> ('x, unit) workflow_act" where
  "mark_failed W c r =
     (let a = at_attachment r
      in chain (on_volumes (update_volume_attachment (a_generation a)
             (r\<lparr>at_attachment := a\<lparr>a_state := AttError, a_generation := saturating_add (a_generation a) 1\<rparr>\<rparr>))) (\<lambda>_.
     chain (move_command c CmdFailed (max (c_accepted c) 1) 2) (\<lambda>_.
     chain (on_ops (update_operation (wf_time W) (c_operation c) OpFailed None (Some ''provider_failure'')
              (Some ''storage attachment failed''))) (\<lambda>_. done_with ()))))"

definition replay_existing :: "agent_command \<Rightarrow> string \<Rightarrow> ('x, workflow_outcome) workflow_act" where
  "replay_existing c expected =
     (if c_fingerprint c \<noteq> expected then fail_with WIdempotencyConflict
      else chain (read_attachment (c_resource c)) (\<lambda>r.
        done_with \<lparr>wo_command = c_id c, wo_operation = c_operation c, wo_command_state = c_state c,
                   wo_attachment_state = a_state (at_attachment r)\<rparr>))"

section \<open>Finishing\<close>

definition outcome_of :: "agent_command \<Rightarrow> attachment_record \<Rightarrow> workflow_outcome" where
  "outcome_of c r = \<lparr>wo_command = c_id c, wo_operation = c_operation c, wo_command_state = c_state c,
                     wo_attachment_state = a_state (at_attachment r)\<rparr>"

definition succeed ::
  "'x workflow \<Rightarrow> agent_command \<Rightarrow> attachment_record \<Rightarrow> ('x, workflow_outcome) workflow_act" where
  "succeed W c r =
     chain (move_command c CmdSucceeded (max (c_accepted c) 1) 2) (\<lambda>c'.
     chain (on_ops (update_operation (wf_time W) (c_operation c') OpSucceeded None None None)) (\<lambda>_.
     done_with (outcome_of c' r)))"

definition finish_success ::
  "'x workflow \<Rightarrow> agent_command \<Rightarrow> attachment_record \<Rightarrow> u64 \<Rightarrow> ('x, workflow_outcome) workflow_act" where
  "finish_success W c r epoch =
     chain (wf_assert W epoch) (\<lambda>_.
     chain (if a_state (at_attachment r) = AttAttached then done_with r else move_attachment r AttAttached) (\<lambda>r'.
     chain (project_volume_state r' VolInUse) (\<lambda>_.
     succeed W c r')))"

definition finish_detached ::
  "'x workflow \<Rightarrow> agent_command \<Rightarrow> attachment_record \<Rightarrow> u64 \<Rightarrow> ('x, workflow_outcome) workflow_act" where
  "finish_detached W c r epoch =
     chain (wf_assert W epoch) (\<lambda>_.
     chain (if a_state (at_attachment r) \<in> {AttDetached, AttDeleted} then done_with r
            else move_attachment r AttDetached) (\<lambda>r'.
     chain (project_volume_state r' VolAvailable) (\<lambda>_.
     chain (let a = at_attachment r'
            in if a_state a = AttDeleted then done_with r'
               else case checked_add (a_generation a) 1 of
                   None \<Rightarrow> fail_with WStaleGeneration
                 | Some g \<Rightarrow> on_volumes (update_volume_attachment (a_generation a)
                     (r'\<lparr>at_attachment := a\<lparr>a_state := AttDeleted, a_generation := g\<rparr>\<rparr>))) (\<lambda>r''.
     succeed W c r''))))"

text \<open>An outcome the boundary left open, or refused, is recorded while the fence still holds.\<close>

definition leave_unknown ::
  "'x workflow \<Rightarrow> u64 \<Rightarrow> agent_command \<Rightarrow> attachment_record \<Rightarrow> workflow_error \<Rightarrow> ('x, 'a) workflow_act" where
  "leave_unknown W epoch c r e =
     chain (wf_assert W epoch) (\<lambda>_. chain (mark_unknown W c r) (\<lambda>_. fail_with e))"

definition leave_failed ::
  "'x workflow \<Rightarrow> u64 \<Rightarrow> agent_command \<Rightarrow> attachment_record \<Rightarrow> workflow_error \<Rightarrow> ('x, 'a) workflow_act" where
  "leave_failed W epoch c r e =
     chain (wf_assert W epoch) (\<lambda>_. chain (mark_failed W c r) (\<lambda>_. fail_with e))"

section \<open>Executing\<close>

definition execute_attach ::
  "'x workflow \<Rightarrow> storage_envelope \<Rightarrow> agent_command \<Rightarrow> attachment_record \<Rightarrow> u64 \<Rightarrow> u64
   \<Rightarrow> ('x, workflow_outcome) workflow_act" where
  "execute_attach W e c0 r volume_generation epoch =
     chain (wf_assert W epoch) (\<lambda>_.
     chain (move_command c0 CmdRunning 1 1) (\<lambda>c.
     attempt (wf_prepare W (attachment_request_of (at_attachment r) volume_generation e)) (\<lambda>p.
     case p of
       Inl err \<Rightarrow> if is_unknown err then leave_unknown W epoch c r WUnknownOutcome
                  else leave_failed W epoch c r (WProvider err)
     | Inr prepared \<Rightarrow>
         chain (wf_assert W epoch) (\<lambda>_.
         chain (move_attachment r AttAttaching) (\<lambda>r'.
         attempt (wf_attach W (at_attachment r') prepared) (\<lambda>x.
         case x of
           Inr _ \<Rightarrow> finish_success W c r' epoch
         | Inl CeUnknownOutcome \<Rightarrow> leave_unknown W epoch c r' WComputeUnknownOutcome
         | Inl CeFailed \<Rightarrow> leave_failed W epoch c r' WComputeFailed))))))"

text \<open>The envelope is the one the durable command carries.\<close>

definition execute_attach_from_command ::
  "'x workflow \<Rightarrow> agent_command \<Rightarrow> attachment_record \<Rightarrow> u64 \<Rightarrow> u64 \<Rightarrow> ('x, workflow_outcome) workflow_act" where
  "execute_attach_from_command W c r volume_generation epoch =
     chain (from_option WInvalidIntent (wf_decode W (c_payload c))) (\<lambda>e.
     execute_attach W e c r volume_generation epoch)"

definition execute_detach ::
  "'x workflow \<Rightarrow> agent_command \<Rightarrow> attachment_record \<Rightarrow> storage_envelope \<Rightarrow> u64
   \<Rightarrow> ('x, workflow_outcome) workflow_act" where
  "execute_detach W c0 r e epoch =
     chain (wf_assert W epoch) (\<lambda>_.
     chain (move_command c0 CmdRunning 1 1) (\<lambda>c.
     attempt (wf_detach W (at_attachment r)) (\<lambda>x.
     case x of
       Inl CeUnknownOutcome \<Rightarrow> leave_unknown W epoch c r WComputeUnknownOutcome
     | Inl CeFailed \<Rightarrow> leave_failed W epoch c r WComputeFailed
     | Inr _ \<Rightarrow>
         chain (wf_assert W epoch) (\<lambda>_.
         chain (read_volume (a_volume (at_attachment r))) (\<lambda>v.
         attempt (wf_terminate W (attachment_request_of (at_attachment r) (v_generation (vo_volume v)) e)) (\<lambda>t.
         case t of
           Inl err \<Rightarrow> if is_unknown err then leave_unknown W epoch c r WUnknownOutcome
                      else leave_failed W epoch c r (WProvider err)
         | Inr ob \<Rightarrow> if ob_attached ob then leave_unknown W epoch c r WUnknownOutcome
                     else finish_detached W c r epoch))))))"

section \<open>Intents\<close>

text \<open>The row of an intent against what it asks for, and the states it may start from.\<close>

definition matches_intent :: "storage_intent \<Rightarrow> attachment \<Rightarrow> bool" where
  "matches_intent i a \<longleftrightarrow>
     a_project a = si_project i \<and> a_volume a = si_volume i \<and> a_server a = si_server i
     \<and> a_mode a = si_mode i \<and> a_delete_on_termination a = si_delete_on_termination i"

text \<open>The operation and the command that are recorded before any effect.\<close>

definition record_intent ::
  "'x workflow \<Rightarrow> storage_intent \<Rightarrow> string \<Rightarrow> string \<Rightarrow> storage_action \<Rightarrow> attachment_record
   \<Rightarrow> ('x, storage_envelope \<times> agent_command) workflow_act" where
  "record_intent W i fp kind action r =
     (let operation = deterministic_storage_id W ''operation'' (si_key i);
          command = deterministic_storage_id W ''command'' (si_key i)
      in chain (lift_result (envelope_of i command operation (a_generation (at_attachment r)) fp action)) (\<lambda>e.
         chain (from_option WInvalidIntent (wf_encode W e)) (\<lambda>payload.
         chain (on_ops (insert_operation
             \<lparr>o_id = operation, o_resource = si_attachment i, o_kind = kind, o_state = OpPending,
              o_provider_op = None, o_category = None, o_message = None\<rparr>)) (\<lambda>_.
         chain (on_ops (insert_agent_command
             \<lparr>c_id = command, c_key = si_key i, c_operation = operation, c_resource = si_attachment i,
              c_agent = si_agent i, c_epoch = show_nat (unat (si_agent_epoch i)), c_fingerprint = fp,
              c_payload = payload, c_state = CmdPending, c_accepted = 0, c_last = 0,
              c_provider_op = None, c_provider_resource = None\<rparr>)) (\<lambda>c.
         done_with (e, c))))))"

text \<open>What attach and detach share up to the lookup of their key.\<close>

definition with_fresh_key ::
  "'x workflow \<Rightarrow> storage_intent \<Rightarrow> (string \<Rightarrow> ('x, workflow_outcome) workflow_act)
   \<Rightarrow> ('x, workflow_outcome) workflow_act" where
  "with_fresh_key W i fresh =
     chain (case intent_validate i of Some e \<Rightarrow> fail_with e | None \<Rightarrow> done_with ()) (\<lambda>_.
     chain (wf_assert W (si_controller_epoch i)) (\<lambda>_.
     chain (from_option WInvalidIntent (wf_fingerprint W i)) (\<lambda>fp.
     attempt (reads (\<lambda>w. get_agent_command_by_key (sx_ops w) (si_key i))) (\<lambda>x.
     case x of
       Inr c \<Rightarrow> replay_existing c fp
     | Inl err \<Rightarrow> if err = WStore OperationNotFound then fresh fp else fail_with err))))"

definition attach_inner :: "'x workflow \<Rightarrow> storage_intent \<Rightarrow> ('x, workflow_outcome) workflow_act" where
  "attach_inner W i =
     with_fresh_key W i (\<lambda>fp.
     chain (read_attachment (si_attachment i)) (\<lambda>r.
     chain (read_volume (a_volume (at_attachment r))) (\<lambda>v.
     chain (refuse_if (\<not> matches_intent i (at_attachment r) \<or> v_project (vo_volume v) \<noteq> si_project i
                       \<or> v_state (vo_volume v) \<noteq> VolAvailable \<or> a_state (at_attachment r) \<noteq> AttReserved)
              WInvalidIntent) (\<lambda>_.
     chain (record_intent W i fp ''storage:attach'' PrepareAttachment r) (\<lambda>(_, c).
     chain (move_attachment r AttPreparing) (\<lambda>r'.
     execute_attach_from_command W c r' (v_generation (vo_volume v)) (si_controller_epoch i)))))))"

definition detach_inner :: "'x workflow \<Rightarrow> storage_intent \<Rightarrow> ('x, workflow_outcome) workflow_act" where
  "detach_inner W i =
     with_fresh_key W i (\<lambda>fp.
     chain (read_attachment (si_attachment i)) (\<lambda>r.
     chain (refuse_if (\<not> matches_intent i (at_attachment r) \<or> a_state (at_attachment r) \<noteq> AttAttached)
              WInvalidIntent) (\<lambda>_.
     chain (record_intent W i fp ''storage:detach'' TerminateAttachment r) (\<lambda>(e, c).
     chain (move_attachment r AttDetaching) (\<lambda>r'.
     execute_detach W c r' e (si_controller_epoch i))))))"

text \<open>One execution attempt between the begin and the end of the fence.\<close>

definition fenced :: "'x workflow \<Rightarrow> u64 \<Rightarrow> ('x, 'a) workflow_act \<Rightarrow> ('x, 'a) workflow_act" where
  "fenced W epoch body =
     chain (wf_begin W epoch) (\<lambda>_.
     attempt body (\<lambda>res.
     attempt (wf_end W epoch) (\<lambda>ended.
     case res of
       Inl e \<Rightarrow> fail_with e
     | Inr x \<Rightarrow> (case ended of Inl e \<Rightarrow> fail_with e | Inr _ \<Rightarrow> done_with x))))"

definition attach_volume :: "'x workflow \<Rightarrow> storage_intent \<Rightarrow> ('x, workflow_outcome) workflow_act" where
  "attach_volume W i = fenced W (si_controller_epoch i) (attach_inner W i)"

definition detach_volume :: "'x workflow \<Rightarrow> storage_intent \<Rightarrow> ('x, workflow_outcome) workflow_act" where
  "detach_volume W i = fenced W (si_controller_epoch i) (detach_inner W i)"

section \<open>Reconciliation\<close>

definition reconcile_detach ::
  "'x workflow \<Rightarrow> agent_command \<Rightarrow> attachment_record \<Rightarrow> u64 \<Rightarrow> ('x, workflow_outcome) workflow_act" where
  "reconcile_detach W c r epoch =
     chain (from_option WInvalidIntent (wf_decode W (c_payload c))) (\<lambda>e.
     chain (read_volume (a_volume (at_attachment r))) (\<lambda>v.
     attempt (wf_inspect W (attachment_request_of (at_attachment r) (v_generation (vo_volume v)) e)) (\<lambda>storage.
     attempt (wf_observe W (at_attachment r)) (\<lambda>compute.
     case (storage, compute) of
       (Inl err, y) \<Rightarrow>
         if is_unknown err then leave_unknown W epoch c r WUnknownOutcome
         else if y = Inl CeUnknownOutcome then leave_unknown W epoch c r WComputeUnknownOutcome
         else fail_with (WProvider err)
     | (Inr _, Inl CeUnknownOutcome) \<Rightarrow> leave_unknown W epoch c r WComputeUnknownOutcome
     | (Inr _, Inl CeFailed) \<Rightarrow> fail_with WComputeFailed
     | (Inr ob, Inr present) \<Rightarrow>
         if \<not> present \<and> \<not> ob_attached ob then finish_detached W c r epoch
         else chain (if a_state (at_attachment r) = AttUnknown
                     then lift_result (transition_attachment r AttDetaching) else done_with r) (\<lambda>r'.
              execute_detach W c r' e epoch)))))"

definition reconcile_attach ::
  "'x workflow \<Rightarrow> agent_command \<Rightarrow> storage_envelope \<Rightarrow> attachment_record \<Rightarrow> u64
   \<Rightarrow> ('x, workflow_outcome) workflow_act" where
  "reconcile_attach W c e r epoch =
     chain (read_volume (a_volume (at_attachment r))) (\<lambda>v.
     attempt (wf_inspect W (attachment_request_of (at_attachment r) (v_generation (vo_volume v)) e)) (\<lambda>storage.
     attempt (wf_observe W (at_attachment r)) (\<lambda>compute.
     case (storage, compute) of
       (Inl err, y) \<Rightarrow>
         if is_unknown err then leave_unknown W epoch c r WUnknownOutcome
         else if y = Inl CeUnknownOutcome then leave_unknown W epoch c r WComputeUnknownOutcome
         else fail_with (WProvider err)
     | (Inr _, Inl CeUnknownOutcome) \<Rightarrow> leave_unknown W epoch c r WComputeUnknownOutcome
     | (Inr _, Inl CeFailed) \<Rightarrow> fail_with WComputeFailed
     | (Inr ob, Inr present) \<Rightarrow>
         if present then finish_success W c r epoch
         else if ob_attached ob then fail_with WUnknownOutcome
         else chain (if a_state (at_attachment r) = AttUnknown then move_attachment r AttPreparing
                     else done_with r) (\<lambda>r'.
              chain (move_command c CmdRetryable (max (c_accepted c) 1) 3) (\<lambda>c'.
              execute_attach_from_command W c' r' (v_generation (vo_volume v)) epoch)))))"

definition reconcile_inner :: "'x workflow \<Rightarrow> string \<Rightarrow> u64 \<Rightarrow> ('x, workflow_outcome) workflow_act" where
  "reconcile_inner W command epoch =
     chain (refuse_if (epoch = 0) WStaleControllerFence) (\<lambda>_.
     chain (wf_assert W epoch) (\<lambda>_.
     chain (reads (\<lambda>w. get_agent_command (sx_ops w) command)) (\<lambda>c.
     chain (from_option WInvalidIntent (wf_decode W (c_payload c))) (\<lambda>e.
     chain (refuse_if (envelope_validate e \<noteq> None) WInvalidIntent) (\<lambda>_.
     chain (refuse_if (c_epoch c \<noteq> show_nat (unat (e_agent_epoch e))) WStaleAgentFence) (\<lambda>_.
     chain (from_option WInvalidIntent (wf_parse_uuid W (e_resource e))) (\<lambda>resource.
     chain (read_attachment resource) (\<lambda>r.
     if c_state c = CmdSucceeded \<or> c_state c = CmdFailed then done_with (outcome_of c r)
     else if e_action e = TerminateAttachment then reconcile_detach W c r epoch
     else reconcile_attach W c e r epoch))))))))"

definition reconcile_command :: "'x workflow \<Rightarrow> string \<Rightarrow> u64 \<Rightarrow> ('x, workflow_outcome) workflow_act" where
  "reconcile_command W command epoch = fenced W epoch (reconcile_inner W command epoch)"

section \<open>What every handler respects\<close>

definition calls_respect :: "'x workflow \<Rightarrow> ('x storage_world \<Rightarrow> 'x storage_world \<Rightarrow> bool) \<Rightarrow> bool" where
  "calls_respect W rel \<longleftrightarrow>
     (\<forall>e. keeps rel (wf_begin W e)) \<and> (\<forall>e. keeps rel (wf_assert W e)) \<and> (\<forall>e. keeps rel (wf_end W e))
     \<and> (\<forall>q. keeps rel (wf_prepare W q)) \<and> (\<forall>q. keeps rel (wf_inspect W q))
     \<and> (\<forall>q. keeps rel (wf_terminate W q)) \<and> (\<forall>a p. keeps rel (wf_attach W a p))
     \<and> (\<forall>a. keeps rel (wf_observe W a)) \<and> (\<forall>a. keeps rel (wf_detach W a))"

locale workflow_actions = kept_effects rel
  for W :: "'x workflow" and rel :: "'x storage_world \<Rightarrow> 'x storage_world \<Rightarrow> bool" +
  assumes rel_ops: "rel w (w\<lparr>sx_ops := store_after v (sx_ops w) x\<rparr>)"
    and rel_volume: "rel w (w\<lparr>sx_volumes := snd (update_volume g y (sx_volumes w))\<rparr>)"
    and rel_attachment: "rel w (w\<lparr>sx_volumes := snd (update_volume_attachment g z (sx_volumes w))\<rparr>)"
    and rel_calls: "calls_respect W rel"
begin

lemma keeps_calls:
  "keeps rel (wf_begin W e)" "keeps rel (wf_assert W e)" "keeps rel (wf_end W e)"
  "keeps rel (wf_prepare W q)" "keeps rel (wf_inspect W q)" "keeps rel (wf_terminate W q)"
  "keeps rel (wf_attach W a p)" "keeps rel (wf_observe W a)" "keeps rel (wf_detach W a)"
  using rel_calls by (simp_all add: calls_respect_def)

lemma keeps_reads: "keeps rel (reads q)"
  by (simp add: keeps_def reads_def rel_refl)

lemma keeps_ops:
  assumes "\<And>db. \<exists>x. snd (f db) = store_after v db x"
  shows "keeps rel (on_ops f)"
  unfolding keeps_def
proof (rule allI)
  fix w :: "'x storage_world"
  from assms obtain x where x: "snd (f (sx_ops w)) = store_after v (sx_ops w) x" by blast
  have "snd (on_ops f w) = w\<lparr>sx_ops := snd (f (sx_ops w))\<rparr>"
    by (auto simp: on_ops_def split: prod.splits sum.splits)
  then show "rel w (snd (on_ops f w))" unfolding x by (simp add: rel_ops)
qed

lemma on_volumes_world: "snd (on_volumes f w) = w\<lparr>sx_volumes := snd (f (sx_volumes w))\<rparr>"
  by (auto simp: on_volumes_def split: prod.splits sum.splits)

lemma keeps_updates:
  "keeps rel (on_volumes (update_volume g y))" "keeps rel (on_volumes (update_volume_attachment g z))"
  by (simp_all add: keeps_def on_volumes_world rel_volume rel_attachment)

lemma keeps_store:
  "keeps rel (on_ops (update_operation now i s p c m))" "keeps rel (on_ops (insert_operation r))"
  "keeps rel (on_ops (insert_agent_command d))" "keeps rel (on_ops (update_agent_command i st a l p c))"
  by (rule keeps_ops; metis store_after.simps)+

lemma keeps_lift: "keeps rel (lift_result r)" "keeps rel (refuse_if b e)"
  by (simp_all add: lift_result_def refuse_if_def keeps_done keeps_fail split: sum.split)

lemma keeps_split: "(\<And>a b. keeps rel (f a b)) \<Longrightarrow> keeps rel (case p of (a, b) \<Rightarrow> f a b)"
  by (cases p) simp

lemma keeps_case_compute:
  "keeps rel m \<Longrightarrow> keeps rel m' \<Longrightarrow> keeps rel (case e of CeUnknownOutcome \<Rightarrow> m | CeFailed \<Rightarrow> m')"
  by (cases e) simp_all

lemmas keeps_basic =
  keeps_done keeps_fail keeps_option keeps_reads keeps_lift keeps_calls keeps_updates keeps_store
  keeps_chain keeps_attempt keeps_if keeps_case_option keeps_case_sum keeps_split keeps_case_compute

lemma keeps_moves:
  "keeps rel (move_attachment r s)" "keeps rel (move_command c st a l)"
  "keeps rel (read_attachment i)" "keeps rel (read_volume i)"
  unfolding move_attachment_def move_command_def read_attachment_def read_volume_def
  by (intro keeps_basic)+

lemma keeps_project: "keeps rel (project_volume_state r t)"
  unfolding project_volume_state_def Let_def by (intro keeps_basic keeps_moves)

lemma keeps_marks: "keeps rel (mark_unknown W c r)" "keeps rel (mark_failed W c r)"
  unfolding mark_unknown_def mark_failed_def Let_def by (intro keeps_basic keeps_moves)+

lemma keeps_leave: "keeps rel (leave_unknown W e c r x)" "keeps rel (leave_failed W e c r x)"
  unfolding leave_unknown_def leave_failed_def by (intro keeps_basic keeps_marks)+

lemma keeps_succeed: "keeps rel (succeed W c r)"
  unfolding succeed_def by (intro keeps_basic keeps_moves)

lemma keeps_finish: "keeps rel (finish_success W c r e)" "keeps rel (finish_detached W c r e)"
  unfolding finish_success_def finish_detached_def Let_def
  by (intro keeps_basic keeps_moves keeps_project keeps_succeed)+

lemma keeps_execute_attach: "keeps rel (execute_attach W e c r g epoch)"
  unfolding execute_attach_def by (intro keeps_basic keeps_moves keeps_leave keeps_finish)

lemma keeps_execute:
  "keeps rel (execute_attach_from_command W c r g epoch)" "keeps rel (execute_detach W c r e epoch)"
  unfolding execute_attach_from_command_def execute_detach_def
  by (intro keeps_basic keeps_moves keeps_leave keeps_finish keeps_execute_attach)+

lemma keeps_record: "keeps rel (record_intent W i fp k act r)"
  unfolding record_intent_def Let_def by (intro keeps_basic)

lemma keeps_fresh: "(\<And>fp. keeps rel (f fp)) \<Longrightarrow> keeps rel (with_fresh_key W i f)"
  unfolding with_fresh_key_def replay_existing_def by (intro keeps_basic keeps_moves)

lemma keeps_fenced: "keeps rel m \<Longrightarrow> keeps rel (fenced W e m)"
  unfolding fenced_def by (intro keeps_basic)

lemma keeps_attach_volume: "keeps rel (attach_volume W i)"
  unfolding attach_volume_def attach_inner_def
  by (intro keeps_fenced keeps_fresh keeps_basic keeps_moves keeps_record keeps_execute)

lemma keeps_detach_volume: "keeps rel (detach_volume W i)"
  unfolding detach_volume_def detach_inner_def
  by (intro keeps_fenced keeps_fresh keeps_basic keeps_moves keeps_record keeps_execute)

lemma keeps_reconcile:
  "keeps rel (reconcile_attach W c e r epoch)" "keeps rel (reconcile_detach W c r epoch)"
  unfolding reconcile_attach_def reconcile_detach_def
  by (intro keeps_basic keeps_moves keeps_leave keeps_finish keeps_execute)+

lemma keeps_reconcile_command: "keeps rel (reconcile_command W i epoch)"
  unfolding reconcile_command_def reconcile_inner_def
  by (intro keeps_fenced keeps_basic keeps_moves keeps_reconcile)

end

end
