(* ===== verification/Volume_Guarantees.thy ===== *)
theory Volume_Guarantees
  imports Volume_Workflow
begin

text \<open>
  What the attachment workflow guarantees (\<open>crates/o3k-reconciler/src/storage_workflow.rs\<close>): the
  relation every step respects and runs of steps; that nothing outside the tables is touched
  before the intent is recorded; what a success leaves in the tables; the two ways in which an
  interrupted intent can no longer be completed.
\<close>

section \<open>Runs of the workflow\<close>

datatype workflow_step =
    AttachVolume storage_intent
  | DetachVolume storage_intent
  | ReconcileCommand string u64

primrec workflow_after :: "'x workflow \<Rightarrow> 'x storage_world \<Rightarrow> workflow_step \<Rightarrow> 'x storage_world" where
  "workflow_after W w (AttachVolume i) = snd (attach_volume W i w)"
| "workflow_after W w (DetachVolume i) = snd (detach_volume W i w)"
| "workflow_after W w (ReconcileCommand c e) = snd (reconcile_command W c e w)"

text \<open>Each step has the fence, the provider and the executor of its own moment.\<close>

fun workflow_run :: "'x storage_world \<Rightarrow> ('x workflow \<times> workflow_step) list \<Rightarrow> 'x storage_world" where
  "workflow_run w [] = w"
| "workflow_run w ((W, x) # xs) = workflow_run (workflow_after W w x) xs"

definition same_attachment :: "attachment_row \<Rightarrow> attachment_row \<Rightarrow> bool" where
  "same_attachment r r' \<longleftrightarrow> ar_id r' = ar_id r \<and> ar_project r' = ar_project r \<and> ar_volume r' = ar_volume r
     \<and> ar_server r' = ar_server r \<and> ar_scope r' = ar_scope r"

definition attachments_kept :: "volume_db \<Rightarrow> volume_db \<Rightarrow> bool" where
  "attachments_kept db db' \<longleftrightarrow>
     (\<forall>r\<in>set (attachment_rows db). \<exists>r'\<in>set (attachment_rows db'). same_attachment r r')"

definition workflow_le :: "'x storage_world \<Rightarrow> 'x storage_world \<Rightarrow> bool" where
  "workflow_le w w' \<longleftrightarrow> history_le (sx_ops w) (sx_ops w')
     \<and> attachments_kept (sx_volumes w) (sx_volumes w')
     \<and> (one_live (attachment_rows (sx_volumes w)) \<longrightarrow> one_live (attachment_rows (sx_volumes w')))
     \<and> (distinct (map vr_id (volume_rows (sx_volumes w))) \<longrightarrow> distinct (map vr_id (volume_rows (sx_volumes w'))))"

definition calls_sound :: "'x workflow \<Rightarrow> bool" where
  "calls_sound W = calls_respect W workflow_le"

definition workflow_le_for :: "'x workflow \<Rightarrow> 'x storage_world \<Rightarrow> 'x storage_world \<Rightarrow> bool" where
  "workflow_le_for W w w' \<longleftrightarrow> (calls_sound W \<longrightarrow> workflow_le w w')"

lemma attachments_kept_refl: "attachments_kept db db"
  by (auto simp: attachments_kept_def same_attachment_def)

lemma attachments_kept_trans:
  assumes "attachments_kept a b" "attachments_kept b c"
  shows "attachments_kept a c"
  unfolding attachments_kept_def
proof
  fix r assume "r \<in> set (attachment_rows a)"
  then obtain r' where r': "r' \<in> set (attachment_rows b)" "same_attachment r r'"
    using assms(1) by (auto simp: attachments_kept_def)
  then obtain r'' where "r'' \<in> set (attachment_rows c)" "same_attachment r' r''"
    using assms(2) by (auto simp: attachments_kept_def)
  with r' show "\<exists>r''\<in>set (attachment_rows c). same_attachment r r''"
    by (auto simp: same_attachment_def)
qed

lemma workflow_le_trans: "workflow_le a b \<Longrightarrow> workflow_le b c \<Longrightarrow> workflow_le a c"
  unfolding workflow_le_def using history_le_trans attachments_kept_trans by blast

lemma rewrite_kept:
  assumes "\<And>r. same_attachment r (f r)"
  shows "attachments_kept db (db\<lparr>attachment_rows := rewrite P f (attachment_rows db)\<rparr>)"
  unfolding attachments_kept_def
proof
  fix r assume "r \<in> set (attachment_rows db)"
  then have "(if P r then f r else r) \<in> set (rewrite P f (attachment_rows db))" by (simp add: rewrite_def)
  moreover have "same_attachment r (if P r then f r else r)" using assms by (simp add: same_attachment_def)
  ultimately show "\<exists>r'\<in>set (attachment_rows (db\<lparr>attachment_rows := rewrite P f (attachment_rows db)\<rparr>)).
      same_attachment r r'" by auto
qed

lemma update_attachment_kept: "attachments_kept db (snd (update_volume_attachment g x db))"
  unfolding update_volume_attachment_def Let_def
  by (auto simp: attachments_kept_refl same_attachment_def intro: rewrite_kept split: option.split)

lemma update_volume_kept: "attachments_kept db (snd (update_volume g x db))"
  using attachments_kept_refl [of db] by (simp add: attachments_kept_def)

lemma update_volume_ids:
  "map vr_id (volume_rows (snd (update_volume g x db))) = map vr_id (volume_rows db)"
  by (simp add: update_volume_def Let_def map_rewrite split: option.split)

lemma update_attachment_volumes [simp]:
  "volume_rows (snd (update_volume_attachment g x db)) = volume_rows db"
  by (simp add: update_volume_attachment_def Let_def split: option.split)

interpretation workflow_history: workflow_actions W "workflow_le_for W" for W
proof
  show "workflow_le_for W w w" for w
    by (simp add: workflow_le_for_def workflow_le_def attachments_kept_refl)
  show "workflow_le_for W a b \<Longrightarrow> workflow_le_for W b c \<Longrightarrow> workflow_le_for W a c" for a b c
    using workflow_le_trans by (auto simp: workflow_le_for_def)
  show "workflow_le_for W w (w\<lparr>sx_ops := store_after v (sx_ops w) x\<rparr>)" for w v x
    by (simp add: workflow_le_for_def workflow_le_def attachments_kept_refl store_after_history)
  show "workflow_le_for W w (w\<lparr>sx_volumes := snd (update_volume g y (sx_volumes w))\<rparr>)" for w g y
    by (simp add: workflow_le_for_def workflow_le_def update_volume_kept update_volume_ids)
  show "workflow_le_for W w (w\<lparr>sx_volumes := snd (update_volume_attachment g z (sx_volumes w))\<rparr>)" for w g z
    by (simp add: workflow_le_for_def workflow_le_def update_attachment_kept update_attachment_one_live)
  show "calls_respect W (workflow_le_for W)"
    unfolding calls_respect_def keeps_def workflow_le_for_def
    by (auto simp: calls_sound_def calls_respect_def keeps_def)
qed

lemma workflow_after_le: "calls_sound W \<Longrightarrow> workflow_le w (workflow_after W w x)"
  using keeps_snd [OF workflow_history.keeps_attach_volume, of W] keeps_snd [OF workflow_history.keeps_detach_volume, of W]
    keeps_snd [OF workflow_history.keeps_reconcile_command, of W]
  by (cases x) (simp_all add: workflow_le_for_def)

lemma workflow_run_le:
  "(\<And>W x. (W, x) \<in> set xs \<Longrightarrow> calls_sound W) \<Longrightarrow> workflow_le w (workflow_run w xs)"
proof (induction xs arbitrary: w)
  case (Cons y xs)
  obtain W x where y: "y = (W, x)" by (cases y)
  have "workflow_le w (workflow_after W w x)" by (rule workflow_after_le) (use Cons.prems y in auto)
  moreover have "workflow_le (workflow_after W w x) (workflow_run (workflow_after W w x) xs)"
    by (rule Cons.IH) (use Cons.prems in auto)
  ultimately show ?case unfolding y by (simp add: workflow_le_trans)
qed (simp add: workflow_le_def attachments_kept_refl)

section \<open>Effects follow the record\<close>

definition recorded :: "string \<Rightarrow> 'x storage_world \<Rightarrow> bool" where
  "recorded key w \<longleftrightarrow>
     (\<exists>c\<in>set (command_rows (sx_ops w)). c_key c = key \<and> find_operation (sx_ops w) (c_operation c) \<noteq> None)"

text \<open>Two handlers that do the same wherever a condition holds, and keep it.\<close>

definition same_on ::
  "('w \<Rightarrow> bool) \<Rightarrow> ('w, 'e, 'a) effect \<Rightarrow> ('w, 'e, 'a) effect \<Rightarrow> bool" where
  "same_on Q m m' \<longleftrightarrow> (\<forall>w. Q w \<longrightarrow> m w = m' w \<and> Q (snd (m w)))"

lemma same_onD:
  assumes "same_on Q m m'" "Q w"
  obtains r w' where "m w = (r, w')" "m' w = (r, w')" "Q w'"
  using assms by (cases "m w") (auto simp: same_on_def)

lemma same_chain:
  assumes "same_on Q m m'" "\<And>x. same_on Q (f x) (f' x)"
  shows "same_on Q (chain m f) (chain m' f')"
  unfolding same_on_def
proof (intro allI impI)
  fix w assume "Q w"
  with assms(1) obtain r w' where m: "m w = (r, w')" "m' w = (r, w')" "Q w'" by (rule same_onD)
  show "chain m f w = chain m' f' w \<and> Q (snd (chain m f w))"
  proof (cases r)
    case (Inl e)
    then show ?thesis by (simp add: chain_def m)
  next
    case (Inr x)
    have "f x w' = f' x w' \<and> Q (snd (f x w'))" using assms(2) [of x] m(3) unfolding same_on_def by blast
    then show ?thesis by (auto simp: chain_def m Inr)
  qed
qed

lemma same_attempt:
  assumes "same_on Q m m'" "\<And>x. same_on Q (f x) (f' x)"
  shows "same_on Q (attempt m f) (attempt m' f')"
  unfolding same_on_def
proof (intro allI impI)
  fix w assume "Q w"
  with assms(1) obtain r w' where m: "m w = (r, w')" "m' w = (r, w')" "Q w'" by (rule same_onD)
  have "f r w' = f' r w' \<and> Q (snd (f r w'))" using assms(2) [of r] m(3) unfolding same_on_def by blast
  then show "attempt m f w = attempt m' f' w \<and> Q (snd (attempt m f w))"
    by (auto simp: attempt_def m)
qed

lemma same_if: "same_on Q a a' \<Longrightarrow> same_on Q b b' \<Longrightarrow> same_on Q (if c then a else b) (if c then a' else b')"
  by simp

lemma same_case_sum:
  "(\<And>x. same_on Q (f x) (f' x)) \<Longrightarrow> (\<And>x. same_on Q (g x) (g' x)) \<Longrightarrow>
   same_on Q (case v of Inl x \<Rightarrow> f x | Inr x \<Rightarrow> g x) (case v of Inl x \<Rightarrow> f' x | Inr x \<Rightarrow> g' x)"
  by (cases v) simp_all

lemma same_case_compute:
  "same_on Q m n \<Longrightarrow> same_on Q m' n' \<Longrightarrow>
   same_on Q (case e of CeUnknownOutcome \<Rightarrow> m | CeFailed \<Rightarrow> m') (case e of CeUnknownOutcome \<Rightarrow> n | CeFailed \<Rightarrow> n')"
  by (cases e) simp_all

lemma chain_cong:
  "(\<And>x w'. m w = (Inr x, w') \<Longrightarrow> f x w' = g x w') \<Longrightarrow> chain m f w = chain m g w"
  by (auto simp: chain_def split: prod.splits sum.splits)

lemma attempt_cong: "(\<And>x w'. m w = (x, w') \<Longrightarrow> f x w' = g x w') \<Longrightarrow> attempt m f w = attempt m g w"
  by (auto simp: attempt_def split: prod.splits)

lemma recorded_history: "history_le (sx_ops w) (sx_ops w') \<Longrightarrow> recorded key w \<Longrightarrow> recorded key w'"
proof -
  assume le: "history_le (sx_ops w) (sx_ops w')" and "recorded key w"
  then obtain c op where c: "c \<in> set (command_rows (sx_ops w))" "c_key c = key"
    "find_operation (sx_ops w) (c_operation c) = Some op"
    by (auto simp: recorded_def)
  obtain c' where "c' \<in> set (command_rows (sx_ops w'))" "command_le c c'"
    using history_command [OF le c(1)] by blast
  moreover obtain op' where "find_operation (sx_ops w') (c_operation c) = Some op'"
    using history_operation [OF le c(3)] by blast
  ultimately show "recorded key w'" using c(2) by (auto simp: recorded_def command_le_def)
qed

lemma same_self:
  assumes "calls_sound W" "keeps (workflow_le_for W) m"
  shows "same_on (recorded key) m m"
  using assms recorded_history by (auto simp: same_on_def keeps_def workflow_le_for_def workflow_le_def)

text \<open>Another provider and executor, with the rest of the workflow unchanged.\<close>

definition other_effects ::
  "'x workflow \<Rightarrow> (attachment_request \<Rightarrow> ('x, storage_provider_error, prepared_attachment) storage_call)
   \<Rightarrow> (attachment_request \<Rightarrow> ('x, storage_provider_error, attachment_observation) storage_call)
   \<Rightarrow> (attachment \<Rightarrow> prepared_attachment \<Rightarrow> ('x, compute_attachment_error, unit) storage_call)
   \<Rightarrow> (attachment \<Rightarrow> ('x, compute_attachment_error, unit) storage_call) \<Rightarrow> 'x workflow" where
  "other_effects W p t a d = W\<lparr>wf_prepare := p, wf_terminate := t, wf_attach := a, wf_detach := d\<rparr>"

lemma other_effects_rest [simp]:
  "wf_begin (other_effects W p t a d) = wf_begin W" "wf_assert (other_effects W p t a d) = wf_assert W"
  "wf_end (other_effects W p t a d) = wf_end W" "wf_fingerprint (other_effects W p t a d) = wf_fingerprint W"
  "wf_encode (other_effects W p t a d) = wf_encode W" "wf_decode (other_effects W p t a d) = wf_decode W"
  "wf_uuid5 (other_effects W p t a d) = wf_uuid5 W" "wf_time (other_effects W p t a d) = wf_time W"
  "wf_prepare (other_effects W p t a d) = p" "wf_terminate (other_effects W p t a d) = t"
  "wf_attach (other_effects W p t a d) = a" "wf_detach (other_effects W p t a d) = d"
  by (simp_all add: other_effects_def)

lemma other_effects_helpers [simp]:
  "mark_unknown (other_effects W p t a d) = mark_unknown W" "mark_failed (other_effects W p t a d) = mark_failed W"
  "succeed (other_effects W p t a d) = succeed W"
  "finish_success (other_effects W p t a d) = finish_success W"
  "finish_detached (other_effects W p t a d) = finish_detached W"
  "leave_unknown (other_effects W p t a d) = leave_unknown W"
  "leave_failed (other_effects W p t a d) = leave_failed W"
  "record_intent (other_effects W p t a d) = record_intent W"
  "with_fresh_key (other_effects W p t a d) = with_fresh_key W"
  by (simp_all add: fun_eq_iff mark_unknown_def mark_failed_def succeed_def finish_success_def
      finish_detached_def leave_unknown_def leave_failed_def record_intent_def deterministic_storage_id_def
      with_fresh_key_def)

lemma execute_same:
  assumes "calls_sound W"
    and "\<And>q w. recorded key w \<Longrightarrow> p q w = wf_prepare W q w" "\<And>q w. recorded key w \<Longrightarrow> t q w = wf_terminate W q w"
    and "\<And>x q w. recorded key w \<Longrightarrow> a x q w = wf_attach W x q w" "\<And>x w. recorded key w \<Longrightarrow> d x w = wf_detach W x w"
  shows "same_on (recorded key) (execute_attach W e c r g epoch) (execute_attach (other_effects W p t a d) e c r g epoch)"
    and "same_on (recorded key) (execute_detach W c r e epoch) (execute_detach (other_effects W p t a d) c r e epoch)"
proof -
  note self = same_self [OF assms(1)]
  have calls: "same_on (recorded key) (wf_prepare W q) (p q)" "same_on (recorded key) (wf_terminate W q) (t q)"
    "same_on (recorded key) (wf_attach W x y) (a x y)" "same_on (recorded key) (wf_detach W x) (d x)" for q x y
    using self [OF workflow_history.keeps_calls(4)] self [OF workflow_history.keeps_calls(6)]
      self [OF workflow_history.keeps_calls(7)] self [OF workflow_history.keeps_calls(9)] assms(2-5)
    by (simp_all add: same_on_def)
  note rest = self [OF workflow_history.keeps_calls(2)] self [OF workflow_history.keeps_moves(1)]
    self [OF workflow_history.keeps_moves(2)] self [OF workflow_history.keeps_moves(4)]
    self [OF workflow_history.keeps_leave(1)] self [OF workflow_history.keeps_leave(2)]
    self [OF workflow_history.keeps_finish(1)] self [OF workflow_history.keeps_finish(2)]
  note rules = same_chain same_attempt same_if same_case_sum same_case_compute calls rest
  show "same_on (recorded key) (execute_attach W e c r g epoch) (execute_attach (other_effects W p t a d) e c r g epoch)"
    unfolding execute_attach_def other_effects_rest other_effects_helpers by (intro rules)
  show "same_on (recorded key) (execute_detach W c r e epoch) (execute_detach (other_effects W p t a d) c r e epoch)"
    unfolding execute_detach_def other_effects_rest other_effects_helpers by (intro rules)
qed

lemma insert_command_recorded:
  assumes "insert_agent_command c db = (Inr c', db')"
  shows "\<exists>d\<in>set (command_rows db'). c_key d = c_key c \<and> c_operation d = c_operation c"
  using assms
  by (auto simp: insert_agent_command_def get_agent_command_by_key_def find_Some_iff split: if_splits
      sum.splits option.splits)

lemma chain_ok: "chain m f w = (Inr y, w2) \<Longrightarrow> \<exists>x w1. m w = (Inr x, w1) \<and> f x w1 = (Inr y, w2)"
  by (auto simp: chain_def split: prod.splits sum.splits)

lemma chain_okE:
  assumes "chain m f w = (Inr y, w2)"
  obtains x w1 where "m w = (Inr x, w1)" "f x w1 = (Inr y, w2)"
  using chain_ok [OF assms] by blast

lemma lift_ok: "lift_result r w = (Inr x, w') \<Longrightarrow> w' = w \<and> r = Inr x"
  by (auto simp: lift_result_def done_with_def fail_with_def split: sum.splits)

lemma from_option_ok: "from_option e v w = (Inr x, w') \<Longrightarrow> w' = w \<and> v = Some x"
  by (auto simp: from_option_def done_with_def fail_with_def split: option.splits)

lemma on_ops_ok: "on_ops f w = (Inr x, w') \<Longrightarrow> f (sx_ops w) = (Inr x, sx_ops w') \<and> sx_volumes w' = sx_volumes w"
  by (auto simp: on_ops_def split: prod.splits sum.splits)

lemma inserted_operation_found:
  "insert_operation op db = (Inr u, db') \<Longrightarrow> find_operation db' (o_id op) \<noteq> None"
  by (auto simp: insert_operation_def find_operation_put split: if_splits)

lemma inserted_command_keeps_operations:
  "insert_agent_command c db = (Inr c', db') \<Longrightarrow> find_operation db' = find_operation db"
  by (auto simp: insert_agent_command_def find_operation_def fun_eq_iff split: if_splits sum.splits option.splits)

lemma record_intent_recorded:
  assumes "record_intent W i fp k act r w = (Inr x, w')"
  shows "recorded (si_key i) w'"
proof -
  obtain e w1 payload w2 u w3 c w4 where
    "lift_result (envelope_of i (deterministic_storage_id W ''command'' (si_key i))
       (deterministic_storage_id W ''operation'' (si_key i)) (a_generation (at_attachment r)) fp act) w = (Inr e, w1)"
    and "from_option WInvalidIntent (wf_encode W e) w1 = (Inr payload, w2)"
    and op: "on_ops (insert_operation
       \<lparr>o_id = deterministic_storage_id W ''operation'' (si_key i), o_resource = si_attachment i, o_kind = k,
        o_state = OpPending, o_provider_op = None, o_category = None, o_message = None\<rparr>) w2 = (Inr u, w3)"
      (is "on_ops (insert_operation ?op) _ = _")
    and c: "on_ops (insert_agent_command
       \<lparr>c_id = deterministic_storage_id W ''command'' (si_key i), c_key = si_key i,
        c_operation = deterministic_storage_id W ''operation'' (si_key i), c_resource = si_attachment i,
        c_agent = si_agent i, c_epoch = show_nat (unat (si_agent_epoch i)), c_fingerprint = fp,
        c_payload = payload, c_state = CmdPending, c_accepted = 0, c_last = 0,
        c_provider_op = None, c_provider_resource = None\<rparr>) w3 = (Inr c, w4)"
      (is "on_ops (insert_agent_command ?c) _ = _")
    and w': "w' = w4"
    using assms unfolding record_intent_def Let_def by (elim chain_okE) (rule that, assumption+, simp add: done_with_def)
  have "find_operation (sx_ops w3) (o_id ?op) \<noteq> None"
    using on_ops_ok [OF op] by (blast dest: inserted_operation_found)
  moreover note cs = conjunct1 [OF on_ops_ok [OF c]]
  ultimately show ?thesis
    using insert_command_recorded [OF cs] inserted_command_keeps_operations [OF cs]
    by (auto simp: recorded_def w')
qed

lemma same_option: "same_on Q (from_option e v) (from_option e v)"
  by (cases v) (simp_all add: same_on_def from_option_def done_with_def fail_with_def)

lemma same_at: "same_on Q m m' \<Longrightarrow> Q w \<Longrightarrow> m' w = m w"
  by (simp add: same_on_def)

lemma fresh_cong: "(\<And>fp w. f fp w = g fp w) \<Longrightarrow> with_fresh_key W i f w = with_fresh_key W i g w"
  by (rule arg_cong [where f = "\<lambda>h. with_fresh_key W i h w"]) (intro ext)

text \<open>
  C24: Nothing outside the tables is touched before the intent is recorded. For a fence, provider
  and executor that keep the history of the tables: attach and detach do not notice when the
  calls that change something outside (preparing and terminating on the storage side, attaching
  and detaching on the compute side) are replaced by ones that differ wherever no command of the
  intent's key with its operation is in the tables. So no such call is made before both rows
  are durable, and a restart finds the command of every effect.
\<close>

theorem effects_follow_record:
  assumes "calls_sound W"
    and "\<And>q w. recorded (si_key i) w \<Longrightarrow> p q w = wf_prepare W q w"
    and "\<And>q w. recorded (si_key i) w \<Longrightarrow> t q w = wf_terminate W q w"
    and "\<And>x q w. recorded (si_key i) w \<Longrightarrow> a x q w = wf_attach W x q w"
    and "\<And>x w. recorded (si_key i) w \<Longrightarrow> d x w = wf_detach W x w"
  shows "attach_volume (other_effects W p t a d) i = attach_volume W i
    \<and> detach_volume (other_effects W p t a d) i = detach_volume W i"
proof -
  note same = execute_same [OF assms]
  note moves = same_self [OF assms(1) workflow_history.keeps_moves(1)]
  have attach: "same_on (recorded (si_key i)) (execute_attach_from_command W c r g epoch)
      (execute_attach_from_command (other_effects W p t a d) c r g epoch)" for c r g epoch
    unfolding execute_attach_from_command_def other_effects_rest
    by (rule same_chain [OF same_option same(1)])
  have "attach_inner (other_effects W p t a d) i w = attach_inner W i w" for w
    unfolding attach_inner_def other_effects_helpers
    by (intro fresh_cong chain_cong)
      (auto split: prod.split dest!: record_intent_recorded intro!: same_at [OF same_chain [OF moves attach]])
  moreover have "detach_inner (other_effects W p t a d) i w = detach_inner W i w" for w
    unfolding detach_inner_def other_effects_helpers
    by (intro fresh_cong chain_cong)
      (auto split: prod.split dest!: record_intent_recorded intro!: same_at [OF same_chain [OF moves same(2)]])
  ultimately have "attach_inner (other_effects W p t a d) i = attach_inner W i"
    "detach_inner (other_effects W p t a d) i = detach_inner W i" by blast+
  then show ?thesis by (simp add: attach_volume_def detach_volume_def fenced_def)
qed

text \<open>
  C25: Whatever the workflow does, it keeps the history and never attaches twice. Over any sequence
  of attaches, detaches and reconciliations, each with a fence, a provider and an executor of its
  own that may do anything between which the tables allow: operations, resources and commands
  keep their identity and their final outcomes, no attachment row is lost or moved to another
  volume, server or project, and where a volume had at most one live attachment it still has.
\<close>

theorem workflow_keeps_history:
  assumes "\<And>W x. (W, x) \<in> set steps \<Longrightarrow> calls_sound W"
  shows "history_le (sx_ops w) (sx_ops (workflow_run w steps))
    \<and> attachments_kept (sx_volumes w) (sx_volumes (workflow_run w steps))
    \<and> (one_live (attachment_rows (sx_volumes w)) \<longrightarrow> one_live (attachment_rows (sx_volumes (workflow_run w steps))))"
  using workflow_run_le [of steps w] assms by (simp add: workflow_le_def)

section \<open>A sample cloud\<close>

text \<open>The outer world is the log of the calls; a host answers whether the device is present.\<close>

definition logged :: "string \<Rightarrow> ('e, 'a) rust_result \<Rightarrow> (string list, 'e, 'a) storage_call" where
  "logged s x w = (x, w\<lparr>sx_outer := s # sx_outer w\<rparr>)"

definition sample_observation :: "bool \<Rightarrow> attachment_observation" where
  "sample_observation b = \<lparr>ob_attachment = ''a1'', ob_volume = ''v1'', ob_host = ''agent'', ob_attached = b,
     ob_reference = \<lparr>sr_provider = ''lvm'', sr_resource = ''lv1''\<rparr>\<rparr>"

definition sample_prepared :: prepared_attachment where
  "sample_prepared = \<lparr>pp_reference = \<lparr>sr_provider = ''lvm'', sr_resource = ''lv1''\<rparr>, pp_device = ''/dev/x'',
     pp_attachment = ''a1'', pp_volume = ''v1''\<rparr>"

definition sample_fingerprint :: string where
  "sample_fingerprint = replicate 64 CHR ''0''"

definition sample_envelope :: "storage_action \<Rightarrow> string \<Rightarrow> u64 \<Rightarrow> storage_envelope" where
  "sample_envelope action key g = \<lparr>e_protocol = 1, e_command = ''o3k-storage:command:'' @ key,
     e_operation = ''o3k-storage:operation:'' @ key, e_key = key, e_resource = ''a1'', e_generation = g,
     e_project = ''p1'', e_controller_epoch = 7, e_agent = ''agent'', e_agent_epoch = 3,
     e_deadline = ''d'', e_trace = ''t'', e_action = action, e_fingerprint = sample_fingerprint\<rparr>"

definition sample_workflow :: "bool \<Rightarrow> string list workflow" where
  "sample_workflow present = \<lparr>
     wf_begin = \<lambda>_. done_with (), wf_assert = \<lambda>_. done_with (), wf_end = \<lambda>_. done_with (),
     wf_prepare = \<lambda>_. logged ''prepare'' (Inr sample_prepared),
     wf_inspect = \<lambda>_. done_with (sample_observation present),
     wf_terminate = \<lambda>_. logged ''terminate'' (Inr (sample_observation False)),
     wf_attach = \<lambda>_ _. logged ''attach'' (Inr ()), wf_observe = \<lambda>_. done_with present,
     wf_detach = \<lambda>_. logged ''detach'' (Inr ()),
     wf_fingerprint = \<lambda>_. Some sample_fingerprint,
     wf_encode = \<lambda>e. Some (if e_action e = PrepareAttachment then ''attach'' else ''detach''),
     wf_decode = \<lambda>s. if s = ''attach'' then Some (sample_envelope PrepareAttachment ''k1'' 1)
                     else if s = ''detach'' then Some (sample_envelope TerminateAttachment ''k2'' 4) else None,
     wf_uuid5 = id, wf_parse_uuid = Some, wf_time = ''now''\<rparr>"

definition sample_intent :: "string \<Rightarrow> storage_intent" where
  "sample_intent key = \<lparr>si_attachment = ''a1'', si_volume = ''v1'', si_server = ''s1'', si_project = ''p1'',
     si_mode = ReadWrite, si_delete_on_termination = False, si_controller_epoch = 7, si_agent = ''agent'',
     si_agent_epoch = 3, si_key = key, si_trace = ''t'', si_deadline = ''d''\<rparr>"

definition sample_storage_world :: "string list storage_world" where
  "sample_storage_world = \<lparr>sx_ops = put_resource \<lparr>r_id = ''a1'', r_kind = ''volume_attachment'',
       r_project = ''p1'', r_generation = 1,
       r_observed_generation = 1, r_desired = [], r_observed = [], r_provider = None\<rparr> empty_operations,
     sx_volumes = sample_volumes, sx_outer = []\<rparr>"

lemma logs_respected: "keeps workflow_le (logged s x)"
  by (simp add: keeps_def logged_def workflow_le_def attachments_kept_refl)

lemma constant_respected: "keeps workflow_le (done_with x)"
  by (simp add: keeps_def done_with_def workflow_le_def attachments_kept_refl)

lemma sample_calls_sound: "calls_sound (sample_workflow present)"
  by (simp add: calls_sound_def calls_respect_def sample_workflow_def logs_respected constant_respected)

lemma sample_attached:
  "fst (attach_volume (sample_workflow False) (sample_intent ''k1'') sample_storage_world)
     = Inr \<lparr>wo_command = ''o3k-storage:command:k1'', wo_operation = ''o3k-storage:operation:k1'',
            wo_command_state = CmdSucceeded, wo_attachment_state = AttAttached\<rparr>"
  "sx_outer (snd (attach_volume (sample_workflow False) (sample_intent ''k1'') sample_storage_world))
     = [''attach'', ''prepare'']"
  by code_simp+

text \<open>Calls that work only where the intent is recorded.\<close>

definition recorded_only ::
  "string \<Rightarrow> 'e \<Rightarrow> ('x storage_world, 'e, 'a) effect \<Rightarrow> ('x storage_world, 'e, 'a) effect" where
  "recorded_only key e m w = (if recorded key w then m w else (Inl e, w))"

theorem effects_follow_record_witness:
  "(let W = sample_workflow False; i = sample_intent ''k1'' in
    attach_volume (other_effects W (\<lambda>q. recorded_only ''k1'' PeUnavailable (wf_prepare W q))
        (\<lambda>q. recorded_only ''k1'' PeUnavailable (wf_terminate W q))
        (\<lambda>a p. recorded_only ''k1'' CeFailed (wf_attach W a p))
        (\<lambda>a. recorded_only ''k1'' CeFailed (wf_detach W a))) i = attach_volume W i)
   \<and> sx_outer (snd (attach_volume (sample_workflow False) (sample_intent ''k1'') sample_storage_world))
       = [''attach'', ''prepare'']"
  unfolding Let_def
  by (rule conjI [OF conjunct1 [OF effects_follow_record [OF sample_calls_sound]] sample_attached(2)])
    (simp_all add: recorded_only_def sample_intent_def)

theorem workflow_keeps_history_witness:
  "(let steps = [(sample_workflow False, AttachVolume (sample_intent ''k1'')),
        (sample_workflow True, DetachVolume (sample_intent ''k2''))];
      w = workflow_run sample_storage_world steps
    in one_live (attachment_rows (sx_volumes w)) \<and> map ar_state (attachment_rows (sx_volumes w)) = [''deleted'']
       \<and> sx_outer w = [''terminate'', ''detach'', ''attach'', ''prepare''])"
proof -
  let ?steps = "[(sample_workflow False, AttachVolume (sample_intent ''k1'')),
    (sample_workflow True, DetachVolume (sample_intent ''k2''))]"
  have "one_live (attachment_rows (sx_volumes sample_storage_world))"
    by (simp add: sample_storage_world_def sample_attachment_rows one_live_def)
  then have "one_live (attachment_rows (sx_volumes (workflow_run sample_storage_world ?steps)))"
    using workflow_keeps_history [of ?steps sample_storage_world] sample_calls_sound by auto
  moreover have "map ar_state (attachment_rows (sx_volumes (workflow_run sample_storage_world ?steps))) = [''deleted'']
      \<and> sx_outer (workflow_run sample_storage_world ?steps) = [''terminate'', ''detach'', ''attach'', ''prepare'']"
    by code_simp
  ultimately show ?thesis by (simp add: Let_def)
qed

end
