(* ===== verification/Volume_Interrupted.thy ===== *)
theory Volume_Interrupted
  imports Volume_Guarantees
begin

text \<open>
  The intents the attachment workflow can no longer complete
  (\<open>crates/o3k-reconciler/src/storage_workflow.rs\<close>): an operation without its command, an attach
  that stopped between its steps, a detach whose outcome is unknown. An intent is hopeless where
  no handler succeeds and the condition that makes it so is upheld.
\<close>

section \<open>Intents that can no longer be completed\<close>

text \<open>Calls that leave the tables alone, and a fence that lets an epoch through.\<close>

definition leaves_tables :: "('x storage_world, 'e, 'a) effect \<Rightarrow> bool" where
  "leaves_tables m \<longleftrightarrow>
     (\<forall>w. sx_ops (snd (m w)) = sx_ops w \<and> sx_volumes (snd (m w)) = sx_volumes w)"

definition tables_are :: "operations_db \<Rightarrow> volume_db \<Rightarrow> 'x storage_world \<Rightarrow> bool" where
  "tables_are ops vols w \<longleftrightarrow> sx_ops w = ops \<and> sx_volumes w = vols"

text \<open>A handler that never succeeds from where a condition holds.\<close>

abbreviation hopeless :: "('w \<Rightarrow> bool) \<Rightarrow> ('w, 'e, 'a) effect \<Rightarrow> bool" where
  "hopeless Q m \<equiv> upholds Q m (\<lambda>_. False)"

lemma hopelessD: "hopeless Q m \<Longrightarrow> Q w \<Longrightarrow> \<exists>e w'. m w = (Inl e, w') \<and> Q w'"
  by (cases "m w"; cases "fst (m w)") (auto simp: upholds_def)

definition about_tables :: "('x storage_world \<Rightarrow> bool) \<Rightarrow> bool" where
  "about_tables Q \<longleftrightarrow>
     (\<forall>w w'. sx_ops w' = sx_ops w \<and> sx_volumes w' = sx_volumes w \<longrightarrow> Q w \<longrightarrow> Q w')"

lemma about_tables_are [simp]: "about_tables (tables_are ops vols)"
  by (simp add: about_tables_def tables_are_def)

lemma leaves_tables_upholds: "leaves_tables m \<Longrightarrow> about_tables Q \<Longrightarrow> upholds Q m (\<lambda>_. True)"
  unfolding leaves_tables_def about_tables_def upholds_def by blast

lemma reads_upholds: "upholds Q (reads q) (\<lambda>x. \<exists>w. Q w \<and> q w = Inr x)"
  by (auto simp: upholds_def reads_def map_sum_def split: sum.splits)

lemma refuse_upholds: "upholds Q (refuse_if c e) (\<lambda>_. \<not> c)"
  by (simp add: refuse_if_def upholds_done upholds_fail)

lemma lift_upholds: "upholds Q (lift_result r) (\<lambda>x. r = Inr x)"
  by (cases r) (simp_all add: lift_result_def upholds_done upholds_fail)

lemma hopeless_chain: "hopeless Q m \<Longrightarrow> hopeless Q (chain m f)"
  by (rule upholds_chain [where B = "\<lambda>_. False"]) auto

lemma hopeless_after: "upholds Q m (\<lambda>_. True) \<Longrightarrow> (\<And>x. hopeless Q (f x)) \<Longrightarrow> hopeless Q (chain m f)"
  by (rule upholds_chain) auto

lemma hopeless_fenced:
  assumes "upholds Q (wf_begin W e) (\<lambda>_. True)" "upholds Q (wf_end W e) (\<lambda>_. True)" "hopeless Q m"
  shows "hopeless Q (fenced W e m)"
  unfolding fenced_def
proof (rule hopeless_after [OF assms(1)])
  show "hopeless Q (attempt m (\<lambda>res. attempt (wf_end W e) (\<lambda>ended.
      case res of Inl x \<Rightarrow> fail_with x
      | Inr x \<Rightarrow> (case ended of Inl e \<Rightarrow> fail_with e | Inr _ \<Rightarrow> done_with x))))" for u :: unit
    by (rule upholds_attempt [OF assms(3)]) (auto intro: upholds_attempt [OF assms(2)] upholds_fail)
qed

definition fence_leaves_tables :: "'x workflow \<Rightarrow> bool" where
  "fence_leaves_tables W \<longleftrightarrow>
     (\<forall>e. leaves_tables (wf_begin W e) \<and> leaves_tables (wf_assert W e) \<and> leaves_tables (wf_end W e))"

lemma fence_upholds:
  assumes "fence_leaves_tables W" "about_tables Q"
  shows "upholds Q (wf_begin W e) (\<lambda>_. True)" "upholds Q (wf_assert W e) (\<lambda>_. True)"
    "upholds Q (wf_end W e) (\<lambda>_. True)"
  using assms(1) leaves_tables_upholds [OF _ assms(2)] unfolding fence_leaves_tables_def by blast+

lemma hopeless_fresh:
  assumes "fence_leaves_tables W"
    and "get_agent_command_by_key ops (si_key i) = Inl OperationNotFound"
    and "\<And>fp. hopeless (tables_are ops vols) (f fp)"
  shows "hopeless (tables_are ops vols) (with_fresh_key W i f)"
  unfolding with_fresh_key_def
proof (intro hopeless_after)
  show "upholds (tables_are ops vols)
      (case intent_validate i of Some e \<Rightarrow> fail_with e | None \<Rightarrow> done_with ()) (\<lambda>_. True)"
    by (auto intro: upholds_fail upholds_done split: option.split)
  show "upholds (tables_are ops vols) (wf_assert W (si_controller_epoch i)) (\<lambda>_. True)"
    by (rule fence_upholds(2) [OF assms(1) about_tables_are])
  show "upholds (tables_are ops vols) (from_option WInvalidIntent (wf_fingerprint W i)) (\<lambda>_. True)"
    by (rule upholds_option) simp
  show "hopeless (tables_are ops vols) (attempt (reads (\<lambda>w. get_agent_command_by_key (sx_ops w) (si_key i)))
      (\<lambda>x. case x of Inr c \<Rightarrow> replay_existing c fp
         | Inl err \<Rightarrow> if err = WStore OperationNotFound then f fp else fail_with err))" for fp
  proof (rule upholds_attempt [OF reads_upholds])
    fix c assume "\<exists>w. tables_are ops vols w \<and> get_agent_command_by_key (sx_ops w) (si_key i) = Inr c"
    then show "hopeless (tables_are ops vols) (case Inr c of Inr c \<Rightarrow> replay_existing c fp
         | Inl err \<Rightarrow> if err = WStore OperationNotFound then f fp else fail_with err)"
      using assms(2) by (auto simp: tables_are_def)
  qed (simp add: assms(3) upholds_fail)
qed

lemma hopeless_record:
  assumes "find_operation ops (deterministic_storage_id W ''operation'' (si_key i)) \<noteq> None"
  shows "hopeless (tables_are ops vols) (record_intent W i fp k act r)"
proof -
  have "hopeless (tables_are ops vols) (on_ops (insert_operation
      \<lparr>o_id = deterministic_storage_id W ''operation'' (si_key i), o_resource = si_attachment i, o_kind = k,
       o_state = OpPending, o_provider_op = None, o_category = None, o_message = None\<rparr>))"
    using assms by (auto simp: upholds_def tables_are_def on_ops_def insert_operation_def)
  then show ?thesis
    unfolding record_intent_def Let_def
    by (intro hopeless_after hopeless_chain upholds_option upholds_weaken [OF lift_upholds]) auto
qed

text \<open>
  C27: An intent whose operation was recorded and whose command was not is lost for good. The two
  rows of an intent are written one after the other, each in a transaction of its own, and the
  identity of the operation is a function of the key. So after a crash between them every attach
  and every detach with that key fails and leaves the tables as they are, whatever the provider,
  the executor and the fence answer.
\<close>

theorem orphaned_operation_blocks_key:
  assumes "fence_leaves_tables W"
    and "find_operation (sx_ops w) (deterministic_storage_id W ''operation'' (si_key i)) \<noteq> None"
    and "get_agent_command_by_key (sx_ops w) (si_key i) = Inl OperationNotFound"
  shows "(\<exists>e w'. attach_volume W i w = (Inl e, w') \<and> tables_are (sx_ops w) (sx_volumes w) w')
    \<and> (\<exists>e w'. detach_volume W i w = (Inl e, w') \<and> tables_are (sx_ops w) (sx_volumes w) w')"
proof -
  let ?Q = "tables_are (sx_ops w) (sx_volumes w)"
  have read: "upholds ?Q (read_attachment a) (\<lambda>_. True)" "upholds ?Q (read_volume a) (\<lambda>_. True)"
    "upholds ?Q (refuse_if c e) (\<lambda>_. True)" for a c e
    unfolding read_attachment_def read_volume_def
    by (intro upholds_weaken [OF reads_upholds] upholds_weaken [OF refuse_upholds] TrueI)+
  note fence = fence_upholds [OF assms(1) about_tables_are]
  have "hopeless ?Q (attach_inner W i)" "hopeless ?Q (detach_inner W i)"
    unfolding attach_inner_def detach_inner_def
    by (intro hopeless_fresh [OF assms(1,3)] hopeless_after [OF read(1)] hopeless_after [OF read(2)]
        hopeless_after [OF read(3)] hopeless_chain hopeless_record assms(2))+
  then have "hopeless ?Q (attach_volume W i)" "hopeless ?Q (detach_volume W i)"
    unfolding attach_volume_def detach_volume_def by (simp_all add: hopeless_fenced fence)
  moreover have "?Q w" by (simp add: tables_are_def)
  ultimately show ?thesis
    using hopelessD [of ?Q "attach_volume W i" w] hopelessD [of ?Q "detach_volume W i" w] by simp
qed


text \<open>An unfinished command with a payload, over given volume tables.\<close>

definition unfinished :: "string \<Rightarrow> string \<Rightarrow> volume_db \<Rightarrow> 'x storage_world \<Rightarrow> bool" where
  "unfinished command payload vols w \<longleftrightarrow> sx_volumes w = vols
     \<and> (\<exists>c. get_agent_command (sx_ops w) command = Inr c \<and> c_payload c = payload \<and> recoverable (c_state c))"

lemma about_unfinished [simp]: "about_tables (unfinished command payload vols)"
  by (simp add: about_tables_def unfinished_def)

lemma find_replaced: "find (\<lambda>d. c_id d = i) ds \<noteq> None \<Longrightarrow> c_id c = i \<Longrightarrow>
   find (\<lambda>d. c_id d = i) (replace_command i c ds) = Some c"
  by (induction ds) auto

lemma advance_command_ok:
  "advance_command st a l p q c = Inr c' \<Longrightarrow>
   c_id c' = c_id c \<and> c_payload c' = c_payload c \<and> (c_state c' = c_state c \<or> c_state c' = st)"
  by (auto simp: advance_command_def Let_def split: if_splits)

lemma get_agent_command_id: "get_agent_command db i = Inr c \<Longrightarrow> c_id c = i"
  by (auto simp: get_agent_command_def find_Some_iff split: option.splits)

lemma move_command_upholds:
  assumes "recoverable st" "c_id c = command"
  shows "upholds (unfinished command payload vols) (move_command c st a l)
    (\<lambda>c'. c_id c' = command \<and> c_payload c' = payload)"
  unfolding upholds_def
proof (intro allI impI)
  fix w :: "'x storage_world" assume "unfinished command payload vols w"
  then obtain d where d: "get_agent_command (sx_ops w) command = Inr d" "c_payload d = payload"
    "recoverable (c_state d)" "sx_volumes w = vols" by (auto simp: unfinished_def)
  let ?l = "max (saturating_add (c_last c) 1) l"
  show "unfinished command payload vols (snd (move_command c st a l w))
    \<and> (\<forall>c'. fst (move_command c st a l w) = Inr c' \<longrightarrow> c_id c' = command \<and> c_payload c' = payload)"
  proof (cases "advance_command st a ?l None None d")
    case (Inl e)
    then show ?thesis using d
      by (simp add: move_command_def on_ops_def update_agent_command_def assms(2) unfinished_def)
  next
    case (Inr d')
    from advance_command_ok [OF this] have d': "c_id d' = command" "c_payload d' = payload" "recoverable (c_state d')"
      using d get_agent_command_id [OF d(1)] assms(1) by auto
    have "find (\<lambda>c. c_id c = command) (command_rows (sx_ops w)) \<noteq> None"
      using d(1) by (auto simp: get_agent_command_def split: option.splits)
    from find_replaced [OF this d'(1)] show ?thesis using d d' Inr
      by (simp add: move_command_def on_ops_def update_agent_command_def assms(2) unfinished_def
          get_agent_command_def)
  qed
qed

lemma no_step_attaching:
  assumes "a_state (at_attachment r) \<in> {AttReserved, AttAttaching}"
  shows "hopeless Q (chain (move_attachment r AttAttaching) f)"
proof -
  have "\<exists>e. transition_attachment r AttAttaching = Inl e"
    using assms by (auto simp: transition_attachment_def attachment_transition_def Let_def split: option.splits)
  then show ?thesis
    unfolding move_attachment_def by (auto simp: lift_result_def intro!: hopeless_chain upholds_fail)
qed

text \<open>What the boundaries answer when nothing is attached and preparing works.\<close>

definition nothing_attached :: "'x workflow \<Rightarrow> bool" where
  "nothing_attached W \<longleftrightarrow> fence_leaves_tables W
     \<and> (\<forall>q. leaves_tables (wf_inspect W q) \<and> (\<forall>w. \<exists>ob. fst (wf_inspect W q w) = Inr ob))
     \<and> (\<forall>a. leaves_tables (wf_observe W a) \<and> (\<forall>w. fst (wf_observe W a w) = Inr False))
     \<and> (\<forall>q. leaves_tables (wf_prepare W q) \<and> (\<forall>w. \<exists>p. fst (wf_prepare W q w) = Inr p))"

lemma answers_upholds:
  assumes "leaves_tables m" "\<And>w. \<exists>x. fst (m w) = Inr x \<and> A x" "about_tables Q"
    "\<And>x. A x \<Longrightarrow> hopeless Q (f (Inr x))"
  shows "hopeless Q (attempt m f)"
  unfolding upholds_def
proof (intro allI impI)
  fix w assume w: "Q w"
  obtain x w' where m: "m w = (Inr x, w')" "A x" using assms(2) [of w] by (cases "m w") auto
  have "Q w'" using leaves_tables_upholds [OF assms(1,3)] w m(1) by (auto simp: upholds_def)
  then have "Q (snd (f (Inr x) w')) \<and> (\<forall>y. fst (f (Inr x) w') = Inr y \<longrightarrow> False)"
    using assms(4) [OF m(2)] unfolding upholds_def by blast
  then show "Q (snd (attempt m f w)) \<and> (\<forall>y. fst (attempt m f w) = Inr y \<longrightarrow> False)"
    by (simp add: attempt_def m(1))
qed

lemma interrupted_execute:
  assumes "nothing_attached W" "a_state (at_attachment r) \<in> {AttReserved, AttAttaching}" "c_id c = command"
  shows "hopeless (unfinished command payload vols) (execute_attach W e c r g epoch)"
proof -
  let ?Q = "unfinished command payload vols :: 'a storage_world \<Rightarrow> bool"
  have fence: "upholds ?Q (wf_assert W epoch) (\<lambda>_. True)"
    by (rule fence_upholds(2)) (use assms(1) in \<open>simp_all add: nothing_attached_def\<close>)
  have run: "upholds ?Q (move_command c CmdRunning 1 1) (\<lambda>_. True)"
    by (rule upholds_weaken [OF move_command_upholds]) (simp_all add: recoverable_def assms(3))
  show ?thesis
    unfolding execute_attach_def
  proof (intro hopeless_after [OF fence] hopeless_after [OF run])
    fix c'
    show "hopeless ?Q (attempt (wf_prepare W (attachment_request_of (at_attachment r) g e)) (\<lambda>p. case p of
         Inl err \<Rightarrow> if is_unknown err then leave_unknown W epoch c' r WUnknownOutcome
                    else leave_failed W epoch c' r (WProvider err)
       | Inr prepared \<Rightarrow> chain (wf_assert W epoch) (\<lambda>_. chain (move_attachment r AttAttaching) (\<lambda>r'.
           attempt (wf_attach W (at_attachment r') prepared) (\<lambda>x. case x of
             Inr _ \<Rightarrow> finish_success W c' r' epoch
           | Inl CeUnknownOutcome \<Rightarrow> leave_unknown W epoch c' r' WComputeUnknownOutcome
           | Inl CeFailed \<Rightarrow> leave_failed W epoch c' r' WComputeFailed)))))"
      using assms(1)
      by (intro answers_upholds [where A = "\<lambda>_. True"])
        (auto simp: nothing_attached_def intro!: hopeless_after [OF fence] no_step_attaching assms(2))
  qed
qed


lemma unfinished_command_read:
  "upholds (unfinished command payload vols) (reads (\<lambda>w. get_agent_command (sx_ops w) command))
     (\<lambda>c. c_id c = command \<and> c_payload c = payload \<and> recoverable (c_state c))"
  by (rule upholds_weaken [OF reads_upholds]) (auto simp: unfinished_def dest: get_agent_command_id)

lemma unfinished_attachment_read:
  "upholds (unfinished command payload vols) (read_attachment rid)
     (\<lambda>r. found (get_volume_attachment vols rid) = Inr r)"
  unfolding read_attachment_def by (rule upholds_weaken [OF reads_upholds]) (auto simp: unfinished_def)

lemma interrupted_reconcile_attach:
  assumes "nothing_attached W" "a_state (at_attachment r) \<in> {AttReserved, AttAttaching}"
    and "c_id c = command" "c_payload c = payload"
  shows "hopeless (unfinished command payload vols) (reconcile_attach W c e r epoch)"
proof -
  let ?Q = "unfinished command payload vols :: 'a storage_world \<Rightarrow> bool"
  have volume: "upholds ?Q (read_volume v) (\<lambda>_. True)" for v
    unfolding read_volume_def by (rule upholds_weaken [OF reads_upholds]) simp
  have retry: "hopeless ?Q (chain (move_command c CmdRetryable a 3) (\<lambda>c'.
      execute_attach_from_command W c' r g epoch))" for a g
    unfolding execute_attach_from_command_def
    by (rule upholds_chain [OF move_command_upholds upholds_chain [OF upholds_option interrupted_execute]])
      (use assms in \<open>auto simp: recoverable_def\<close>)
  have "hopeless ?Q (chain (if a_state (at_attachment r) = AttUnknown then move_attachment r AttPreparing
      else done_with r) (\<lambda>r'. chain (move_command c CmdRetryable a 3) (\<lambda>c'.
      execute_attach_from_command W c' r' g epoch)))" for a g
    by (rule upholds_chain [where B = "\<lambda>x. x = r"]) (use assms(2) retry in \<open>auto intro: upholds_done\<close>)
  then show ?thesis
    unfolding reconcile_attach_def
    by (intro hopeless_after [OF volume] answers_upholds [where A = "\<lambda>_. True"]
        answers_upholds [where A = "\<lambda>x. x = False"])
      (use assms(1) in \<open>auto simp: nothing_attached_def intro: upholds_fail\<close>)
qed

lemma interrupted_reconcile:
  assumes "nothing_attached W"
    and "wf_decode W payload = Some e" "e_action e \<noteq> TerminateAttachment"
    and "wf_parse_uuid W (e_resource e) = Some rid" "found (get_volume_attachment vols rid) = Inr r"
    and "a_state (at_attachment r) \<in> {AttReserved, AttAttaching}"
  shows "hopeless (unfinished command payload vols) (reconcile_command W command epoch)"
proof -
  let ?Q = "unfinished command payload vols :: 'a storage_world \<Rightarrow> bool"
  have fence: "upholds ?Q (wf_begin W epoch) (\<lambda>_. True)" "upholds ?Q (wf_assert W epoch) (\<lambda>_. True)"
    "upholds ?Q (wf_end W epoch) (\<lambda>_. True)"
    using fence_upholds [of W ?Q] assms(1) by (simp_all add: nothing_attached_def)
  have refuse: "upholds ?Q (refuse_if b err) (\<lambda>_. True)" for b err
    by (rule upholds_weaken [OF refuse_upholds]) simp
  have tail: "hopeless ?Q (if c_state c = CmdSucceeded \<or> c_state c = CmdFailed then done_with (outcome_of c x)
      else if e_action e = TerminateAttachment then reconcile_detach W c x epoch
      else reconcile_attach W c e x epoch)"
    if "found (get_volume_attachment vols rid) = Inr x" "c_id c = command" "c_payload c = payload"
      "recoverable (c_state c)" for c x
    using that assms interrupted_reconcile_attach [OF assms(1) assms(6)] by (simp add: recoverable_def)
  have "hopeless ?Q (reconcile_inner W command epoch)"
    unfolding reconcile_inner_def
  proof (intro hopeless_after [OF refuse] hopeless_after [OF fence(2)],
      rule upholds_chain [OF unfinished_command_read], elim conjE)
    fix c :: agent_command assume c: "c_id c = command" "c_payload c = payload" "recoverable (c_state c)"
    show "hopeless ?Q (chain (from_option WInvalidIntent (wf_decode W (c_payload c))) (\<lambda>e.
       chain (refuse_if (envelope_validate e \<noteq> None) WInvalidIntent) (\<lambda>_.
       chain (refuse_if (c_epoch c \<noteq> show_nat (unat (e_agent_epoch e))) WStaleAgentFence) (\<lambda>_.
       chain (from_option WInvalidIntent (wf_parse_uuid W (e_resource e))) (\<lambda>resource.
       chain (read_attachment resource) (\<lambda>r.
       if c_state c = CmdSucceeded \<or> c_state c = CmdFailed then done_with (outcome_of c r)
       else if e_action e = TerminateAttachment then reconcile_detach W c r epoch
       else reconcile_attach W c e r epoch))))))"
    proof (rule upholds_chain [where B = "\<lambda>x. x = e"])
      show "upholds ?Q (from_option WInvalidIntent (wf_decode W (c_payload c))) (\<lambda>x. x = e)"
        by (rule upholds_option) (simp add: c(2) assms(2))
      fix x assume x: "x = e"
      show "hopeless ?Q (chain (refuse_if (envelope_validate x \<noteq> None) WInvalidIntent) (\<lambda>_.
         chain (refuse_if (c_epoch c \<noteq> show_nat (unat (e_agent_epoch x))) WStaleAgentFence) (\<lambda>_.
         chain (from_option WInvalidIntent (wf_parse_uuid W (e_resource x))) (\<lambda>resource.
         chain (read_attachment resource) (\<lambda>r.
         if c_state c = CmdSucceeded \<or> c_state c = CmdFailed then done_with (outcome_of c r)
         else if e_action x = TerminateAttachment then reconcile_detach W c r epoch
         else reconcile_attach W c x r epoch)))))"
        unfolding x assms(4) from_option_def option.case
        by (intro hopeless_after [OF refuse] upholds_chain [OF upholds_done [where A = "\<lambda>x. x = rid"]])
          (auto intro!: upholds_chain [OF unfinished_attachment_read] tail c)
    qed
  qed
  then show ?thesis unfolding reconcile_command_def by (simp add: hopeless_fenced fence)
qed


definition after_retries :: "'x workflow \<Rightarrow> string \<Rightarrow> u64 \<Rightarrow> nat \<Rightarrow> 'x storage_world \<Rightarrow> 'x storage_world" where
  "after_retries W command epoch n = (\<lambda>w. snd (reconcile_command W command epoch w)) ^^ n"

text \<open>
  An attach that stopped between its steps never completes. Let the command of an attach be
  unfinished and its attachment still reserved (the worker stopped before the state moved) or
  attaching (it stopped, or lost the fence, during the compute call), with nothing attached on the
  host. However often the command is reconciled, by a provider that always can prepare, it
  fails, and the attachment and the volume stay as they are: preparing starts again from a state
  that has no transition to attaching.
\<close>

theorem interrupted_attach_never_completes:
  assumes "nothing_attached W"
    and "get_agent_command (sx_ops w) command = Inr c" "recoverable (c_state c)"
    and "wf_decode W (c_payload c) = Some e" "e_action e \<noteq> TerminateAttachment"
    and "wf_parse_uuid W (e_resource e) = Some rid" "found (get_volume_attachment (sx_volumes w) rid) = Inr r"
    and "a_state (at_attachment r) \<in> {AttReserved, AttAttaching}"
  shows "(\<exists>err. fst (reconcile_command W command epoch (after_retries W command epoch n w)) = Inl err)
    \<and> sx_volumes (after_retries W command epoch n w) = sx_volumes w"
proof -
  let ?Q = "unfinished command (c_payload c) (sx_volumes w) :: 'a storage_world \<Rightarrow> bool"
  have hopeless: "hopeless ?Q (reconcile_command W command epoch)"
    by (rule interrupted_reconcile) (rule assms)+
  have "?Q (after_retries W command epoch n w)"
  proof (induction n)
    case 0
    show ?case using assms(2,3) by (simp add: after_retries_def unfinished_def)
  next
    case (Suc n)
    then show ?case using upholdsD(1) [OF hopeless] by (simp add: after_retries_def)
  qed
  from this and hopelessD [OF hopeless this] show ?thesis by (auto simp: unfinished_def)
qed

section \<open>A detach whose outcome is unknown\<close>

definition fence_passes :: "'x workflow \<Rightarrow> u64 \<Rightarrow> bool" where
  "fence_passes W epoch \<longleftrightarrow>
     (\<forall>w. wf_begin W epoch w = (Inr (), w) \<and> wf_assert W epoch w = (Inr (), w) \<and> wf_end W epoch w = (Inr (), w))"

lemma chain_step: "m w = (Inr x, w') \<Longrightarrow> chain m f w = f x w'"
  by (simp add: chain_def)

lemma chain_stop: "m w = (Inl e, w') \<Longrightarrow> chain m f w = (Inl e, w')"
  by (simp add: chain_def)

lemma attempt_step: "m w = (x, w') \<Longrightarrow> attempt m f w = f x w'"
  by (simp add: attempt_def)

lemma reads_ok: "q w = Inr x \<Longrightarrow> reads q w = (Inr x, w)"
  by (simp add: reads_def)

lemma unknown_command_not_run:
  assumes "get_agent_command (sx_ops w) (c_id c) = Inr c" "c_state c = CmdUnknownOutcome"
  shows "move_command c CmdRunning 1 1 w = (Inl (WStore Corrupt), w)"
proof -
  have "c_last c \<le> saturating_add (c_last c) 1" using saturating_add_ge by (simp add: word_le_nat_alt)
  then have "advance_command CmdRunning 1 (max (saturating_add (c_last c) 1) 1) None None c = Inl Corrupt"
    using assms(2) by (auto simp: advance_command_def max_def)
  then show ?thesis
    by (simp add: move_command_def on_ops_def update_agent_command_def assms(1))
qed

text \<open>
  A detach whose outcome is unknown is never tried again. Let the command of a detach stand at
  the unknown outcome and the device still be there, on the host or at the provider: every
  reconciliation fails in the tables, because a command of unknown outcome cannot go to running
  and only attach makes it retryable first. Nothing changes, so no detach is called.
\<close>

theorem unknown_detach_never_retried:
  assumes "fence_passes W epoch" "epoch \<noteq> 0"
    and "get_agent_command (sx_ops w) command = Inr c" "c_state c = CmdUnknownOutcome"
    and "wf_decode W (c_payload c) = Some e" "envelope_validate e = None" "e_action e = TerminateAttachment"
    and "c_epoch c = show_nat (unat (e_agent_epoch e))" "wf_parse_uuid W (e_resource e) = Some rid"
    and "found (get_volume_attachment (sx_volumes w) rid) = Inr r" "a_state (at_attachment r) \<noteq> AttUnknown"
    and "found (get_volume (sx_volumes w) (a_volume (at_attachment r))) = Inr v"
    and "\<And>q. wf_inspect W q w = (Inr ob, w)" "\<And>a. wf_observe W a w = (Inr p, w)" "p \<or> ob_attached ob"
  shows "reconcile_command W command epoch w = (Inl (WStore Corrupt), w)"
proof -
  have fence: "wf_begin W epoch w = (Inr (), w)" "wf_assert W epoch w = (Inr (), w)" "wf_end W epoch w = (Inr (), w)"
    using assms(1) by (simp_all add: fence_passes_def)
  have c: "get_agent_command (sx_ops w) (c_id c) = Inr c" using assms(3) get_agent_command_id by blast
  have run: "execute_detach W c r e epoch w = (Inl (WStore Corrupt), w)"
    unfolding execute_detach_def
    by (simp add: chain_def fence unknown_command_not_run [OF c assms(4)])
  have "reconcile_detach W c r epoch w = (Inl (WStore Corrupt), w)"
    unfolding reconcile_detach_def assms(5) from_option_def option.case
    by (simp add: reads_def read_volume_def assms(11-14) attempt_def
        chain_def done_with_def run) (use assms(15) run in \<open>auto simp: reads_def\<close>)
  then have "reconcile_inner W command epoch w = (Inl (WStore Corrupt), w)"
    unfolding reconcile_inner_def
    by (simp add: chain_def refuse_if_def done_with_def reads_def from_option_def read_attachment_def
        fence assms(2-10))
  then show ?thesis
    by (simp add: reconcile_command_def fenced_def chain_def fence attempt_def fence(3) fail_with_def)
qed


section \<open>Witnesses\<close>

text \<open>The worker stopped between the two rows of the intent.\<close>

definition orphaned_world :: "string list storage_world" where
  "orphaned_world = sample_storage_world\<lparr>sx_ops := snd (insert_operation
     \<lparr>o_id = ''o3k-storage:operation:k1'', o_resource = ''a1'', o_kind = ''storage:attach'', o_state = OpPending,
      o_provider_op = None, o_category = None, o_message = None\<rparr> (sx_ops sample_storage_world))\<rparr>"

lemma sample_leaves_tables: "leaves_tables (logged s x)" "leaves_tables (done_with y)"
  by (simp_all add: leaves_tables_def logged_def done_with_def)

lemma sample_fence: "fence_leaves_tables (sample_workflow present)"
  by (simp add: fence_leaves_tables_def sample_workflow_def sample_leaves_tables)

theorem orphaned_operation_blocks_key_witness:
  "\<exists>e w'. attach_volume (sample_workflow False) (sample_intent ''k1'') orphaned_world = (Inl e, w')
     \<and> tables_are (sx_ops orphaned_world) (sx_volumes orphaned_world) w'"
proof -
  have "find_operation (sx_ops orphaned_world) ''o3k-storage:operation:k1'' \<noteq> None"
    by (simp add: orphaned_world_def sample_storage_world_def insert_operation_def find_operation_put
        resource_known_def put_resource_def empty_operations_def)
  moreover have "get_agent_command_by_key (sx_ops orphaned_world) ''k1'' = Inl OperationNotFound"
    by code_simp
  ultimately show ?thesis
    using orphaned_operation_blocks_key [OF sample_fence, of orphaned_world False "sample_intent ''k1''"]
    by (simp add: sample_intent_def deterministic_storage_id_def sample_workflow_def)
qed

text \<open>The worker stopped after the intent was recorded.\<close>

definition interrupted_world :: "string list storage_world" where
  "interrupted_world = snd (record_intent (sample_workflow False) (sample_intent ''k1'') sample_fingerprint
     ''storage:attach'' PrepareAttachment \<lparr>at_attachment = sample_attachment, at_created = ''t''\<rparr>
     sample_storage_world)"

definition interrupted_command :: agent_command where
  "interrupted_command = \<lparr>c_id = ''o3k-storage:command:k1'', c_key = ''k1'',
     c_operation = ''o3k-storage:operation:k1'', c_resource = ''a1'', c_agent = ''agent'', c_epoch = ''3'',
     c_fingerprint = sample_fingerprint, c_payload = ''attach'', c_state = CmdPending, c_accepted = 0,
     c_last = 0, c_provider_op = None, c_provider_resource = None\<rparr>"

lemma sample_nothing_attached: "nothing_attached (sample_workflow False)"
  by (simp add: nothing_attached_def sample_fence)
    (simp add: sample_workflow_def sample_leaves_tables, simp add: logged_def done_with_def)

theorem interrupted_attach_never_completes_witness:
  "(\<exists>err. fst (reconcile_command (sample_workflow False) ''o3k-storage:command:k1'' 7
       (after_retries (sample_workflow False) ''o3k-storage:command:k1'' 7 1000 interrupted_world)) = Inl err)
   \<and> sx_volumes (after_retries (sample_workflow False) ''o3k-storage:command:k1'' 7 1000 interrupted_world)
       = sx_volumes interrupted_world"
proof (rule interrupted_attach_never_completes [OF sample_nothing_attached])
  show "get_agent_command (sx_ops interrupted_world) ''o3k-storage:command:k1'' = Inr interrupted_command"
    by code_simp
  show "recoverable (c_state interrupted_command)" by code_simp
  show "wf_decode (sample_workflow False) (c_payload interrupted_command)
      = Some (sample_envelope PrepareAttachment ''k1'' 1)" by code_simp
  show "wf_parse_uuid (sample_workflow False) (e_resource (sample_envelope PrepareAttachment ''k1'' 1)) = Some ''a1''"
    by code_simp
  show "found (get_volume_attachment (sx_volumes interrupted_world) ''a1'')
      = Inr \<lparr>at_attachment = sample_attachment, at_created = ''t''\<rparr>" by code_simp
qed code_simp+

text \<open>The volume was attached, then its detach ended unknown.\<close>

definition unknown_world :: "string list storage_world" where
  "unknown_world = snd (detach_volume
     ((sample_workflow True)\<lparr>wf_detach := \<lambda>_. logged ''detach'' (Inl CeUnknownOutcome)\<rparr>) (sample_intent ''k2'')
     (snd (attach_volume (sample_workflow True) (sample_intent ''k1'') sample_storage_world)))"

definition unknown_command :: agent_command where
  "unknown_command = \<lparr>c_id = ''o3k-storage:command:k2'', c_key = ''k2'',
     c_operation = ''o3k-storage:operation:k2'', c_resource = ''a1'', c_agent = ''agent'', c_epoch = ''3'',
     c_fingerprint = sample_fingerprint, c_payload = ''detach'', c_state = CmdUnknownOutcome, c_accepted = 1,
     c_last = 2, c_provider_op = None, c_provider_resource = None\<rparr>"

definition detaching_attachment :: attachment where
  "detaching_attachment = sample_attachment\<lparr>a_state := AttDetaching, a_generation := 5\<rparr>"

theorem unknown_detach_never_retried_witness:
  "reconcile_command (sample_workflow True) ''o3k-storage:command:k2'' 7 unknown_world
     = (Inl (WStore Corrupt), unknown_world)"
proof -
  obtain v where v: "found (get_volume (sx_volumes unknown_world) ''v1'') = Inr v"
  proof -
    have "case found (get_volume (sx_volumes unknown_world) ''v1'') of Inr _ \<Rightarrow> True | Inl _ \<Rightarrow> False" by code_simp
    with that show thesis by (auto split: sum.splits)
  qed
  show ?thesis
  proof (rule unknown_detach_never_retried [where ob = "sample_observation True" and p = True])
    show "fence_passes (sample_workflow True) 7"
      by (simp add: fence_passes_def sample_workflow_def done_with_def)
    show "get_agent_command (sx_ops unknown_world) ''o3k-storage:command:k2'' = Inr unknown_command" by code_simp
    show "found (get_volume_attachment (sx_volumes unknown_world) ''a1'')
        = Inr \<lparr>at_attachment = detaching_attachment, at_created = ''t''\<rparr>" by code_simp
    show "wf_decode (sample_workflow True) (c_payload unknown_command)
        = Some (sample_envelope TerminateAttachment ''k2'' 4)" by code_simp
    show "wf_parse_uuid (sample_workflow True) (e_resource (sample_envelope TerminateAttachment ''k2'' 4))
        = Some ''a1''" by code_simp
    show "found (get_volume (sx_volumes unknown_world) (a_volume (at_attachment
        \<lparr>at_attachment = detaching_attachment, at_created = ''t''\<rparr>))) = Inr v"
      using v by (simp add: detaching_attachment_def sample_attachment_def)
    show "wf_inspect (sample_workflow True) q unknown_world = (Inr (sample_observation True), unknown_world)" for q
      by (simp add: sample_workflow_def done_with_def)
    show "wf_observe (sample_workflow True) a unknown_world = (Inr True, unknown_world)" for a
      by (simp add: sample_workflow_def done_with_def)
  qed code_simp+
qed

end
