(* ===== verification/Volume_Rows.thy ===== *)
theory Volume_Rows
  imports Store_Volumes
begin

text \<open>
  Whether the rows of \<open>Store_Volumes\<close> read back: a row is checked against its index columns on
  every read, so a row an operation leaves inconsistent is an error for every later reader.
  Lemmas: each operation keeps rows readable; the one update that does not guard the project.
\<close>

section \<open>Readable rows\<close>

definition reads_back :: "('r \<Rightarrow> (store_error, 'x) rust_result) \<Rightarrow> 'r \<Rightarrow> bool" where
  "reads_back f r = (case f r of Inl _ \<Rightarrow> False | Inr _ \<Rightarrow> True)"

definition own_volume :: "volume_row \<Rightarrow> bool" where
  "own_volume r = (v_project (vr_payload r) = vr_project r)"

definition readable :: "volume_db \<Rightarrow> bool" where
  "readable db \<longleftrightarrow>
     (\<forall>b\<in>set (backend_rows db). reads_back read_backend b)
     \<and> (\<forall>r\<in>set (volume_rows db). own_volume r \<longrightarrow> reads_back volume_from_row r)
     \<and> (\<forall>r\<in>set (attachment_rows db). reads_back attachment_from_row r)
     \<and> (\<forall>r\<in>set (snapshot_rows db). reads_back snapshot_from_row r)"

lemma reads_back_iff: "reads_back f r \<longleftrightarrow> (\<exists>x. f r = Inr x)"
  by (auto simp: reads_back_def split: sum.splits)

lemma collect_readable: "(\<And>r. r \<in> set rows \<Longrightarrow> reads_back f r) \<Longrightarrow> \<exists>xs. collect_results f rows = Inr xs"
  by (induction rows) (fastforce simp: reads_back_iff)+

lemma volume_reads:
  "vr_id r = v_id v \<Longrightarrow> vr_project r = v_project v \<Longrightarrow> i64_of_u64 (v_generation v) = Some (vr_generation r) \<Longrightarrow>
   vr_state r = volume_state_name (v_state v) \<Longrightarrow> vr_payload r = v \<Longrightarrow> volume_validate v = None \<Longrightarrow>
   reads_back volume_from_row r"
  by (simp add: reads_back_def volume_from_row_def Let_def u64_of_i64_of_u64)

lemma attachment_reads:
  "ar_id r = a_id a \<Longrightarrow> ar_project r = a_project a \<Longrightarrow> i64_of_u64 (a_generation a) = Some (ar_generation r) \<Longrightarrow>
   ar_state r = attachment_state_name (a_state a) \<Longrightarrow> ar_payload r = a \<Longrightarrow> attachment_validate a = None \<Longrightarrow>
   reads_back attachment_from_row r"
  by (simp add: reads_back_def attachment_from_row_def Let_def u64_of_i64_of_u64)

lemma snapshot_reads:
  "sw_id r = n_id n \<Longrightarrow> sw_project r = n_project n \<Longrightarrow> i64_of_u64 (n_generation n) = Some (sw_generation r) \<Longrightarrow>
   sw_state r = snapshot_state_name (n_state n) \<Longrightarrow> sw_payload r = n \<Longrightarrow> snapshot_validate n = None \<Longrightarrow>
   reads_back snapshot_from_row r"
  by (simp add: reads_back_def snapshot_from_row_def Let_def u64_of_i64_of_u64)

lemma insert_backend_readable: "readable db \<Longrightarrow> readable (snd (insert_storage_backend b db))"
  by (auto simp: readable_def insert_storage_backend_def reads_back_def read_backend_def)

lemma insert_volume_readable: "readable db \<Longrightarrow> readable (snd (insert_volume x db))"
  by (auto simp: readable_def insert_volume_def Let_def intro!: volume_reads split: option.split)

lemma insert_attachment_readable: "readable db \<Longrightarrow> readable (snd (insert_volume_attachment x db))"
  unfolding insert_volume_attachment_def Let_def
  by (auto simp: readable_def intro!: attachment_reads split: option.split)

lemma insert_snapshot_readable: "readable db \<Longrightarrow> readable (snd (insert_snapshot x db))"
  by (auto simp: readable_def insert_snapshot_def Let_def intro!: snapshot_reads split: option.split)

lemma rewritten_readable:
  assumes "\<forall>r\<in>set rows. Q r \<longrightarrow> reads_back f r" "\<And>r. P r \<Longrightarrow> Q (h r) \<Longrightarrow> reads_back f (h r)"
  shows "\<forall>r\<in>set (rewrite P h rows). Q r \<longrightarrow> reads_back f r"
  using assms by (auto simp: set_rewrite)

lemma update_volume_readable:
  assumes "readable db"
  shows "readable (snd (update_volume g x db))"
proof -
  have "\<forall>r\<in>set (rewrite (\<lambda>r. vr_id r = v_id (vo_volume x) \<and> vr_generation r = current)
      (\<lambda>r. r\<lparr>vr_generation := nx, vr_state := volume_state_name (v_state (vo_volume x)),
             vr_payload := vo_volume x, vr_reference := v_reference (vo_volume x)\<rparr>) (volume_rows db)).
      own_volume r \<longrightarrow> reads_back volume_from_row r"
    if "volume_validate (vo_volume x) = None" "i64_of_u64 (v_generation (vo_volume x)) = Some nx" for current nx
    by (rule rewritten_readable)
      (use assms that in \<open>auto simp: readable_def own_volume_def intro!: volume_reads\<close>)
  then show ?thesis
    using assms unfolding update_volume_def Let_def by (auto simp: readable_def split: option.split)
qed

lemma update_attachment_readable:
  assumes "readable db"
  shows "readable (snd (update_volume_attachment g x db))"
proof -
  let ?a = "at_attachment x"
  have "\<forall>r\<in>set (rewrite (\<lambda>r. ar_id r = a_id ?a \<and> ar_project r = a_project ?a \<and> ar_generation r = current)
      (\<lambda>r. r\<lparr>ar_generation := nx, ar_state := attachment_state_name (a_state ?a), ar_payload := ?a\<rparr>)
      (attachment_rows db)). True \<longrightarrow> reads_back attachment_from_row r"
    if "attachment_validate ?a = None" "i64_of_u64 (a_generation ?a) = Some nx" for current nx
    by (rule rewritten_readable) (use assms that in \<open>auto simp: readable_def intro!: attachment_reads\<close>)
  then show ?thesis
    using assms unfolding update_volume_attachment_def Let_def by (auto simp: readable_def split: option.split)
qed

lemma update_snapshot_readable:
  assumes "readable db"
  shows "readable (snd (update_snapshot g x db))"
proof -
  let ?n = "ss_snapshot x"
  have "\<forall>r\<in>set (rewrite (\<lambda>r. sw_id r = n_id ?n \<and> sw_project r = n_project ?n \<and> sw_generation r = current)
      (\<lambda>r. r\<lparr>sw_generation := nx, sw_state := snapshot_state_name (n_state ?n), sw_payload := ?n,
             sw_reference := n_reference ?n\<rparr>) (snapshot_rows db)). True \<longrightarrow> reads_back snapshot_from_row r"
    if "snapshot_validate ?n = None" "i64_of_u64 (n_generation ?n) = Some nx" for current nx
    by (rule rewritten_readable) (use assms that in \<open>auto simp: readable_def intro!: snapshot_reads\<close>)
  then show ?thesis
    using assms unfolding update_snapshot_def Let_def by (auto simp: readable_def split: option.split)
qed

lemma delete_readable:
  "readable db \<Longrightarrow> readable (snd (delete_volume p i db))"
  "readable db \<Longrightarrow> readable (snd (delete_volume_attachment p i db))"
  "readable db \<Longrightarrow> readable (snd (delete_snapshot p i db))"
  by (auto simp: readable_def delete_volume_def delete_volume_attachment_def delete_snapshot_def Let_def)

interpretation readable_rows: invariant_machine volume_step readable
proof
  fix s x s'
  assume "readable s" "volume_step s x = Inr s'"
  then show "readable s'"
    by (cases x) (auto simp: volume_step_def insert_backend_readable insert_volume_readable
        insert_attachment_readable insert_snapshot_readable update_volume_readable update_attachment_readable
        update_snapshot_readable delete_readable)
qed

text \<open>
  C28: What the repository stores reads back. On every run from empty tables: each read and each
  listing of backends, attachments and snapshots succeeds, for no operation leaves a row whose
  columns and payload disagree; and so does each read of a volume whose payload is of the
  project its row is listed under.
\<close>

theorem stored_rows_read_back:
  assumes "db = run_ops volume_step no_volumes ops"
  shows "(\<exists>x. get_storage_backend db i = Inr x) \<and> (\<exists>xs. list_storage_backends db = Inr xs)
    \<and> (\<exists>x. get_volume_attachment db i = Inr x) \<and> (\<exists>xs. list_volume_attachments db p = Inr xs)
    \<and> (\<exists>x. get_snapshot db i = Inr x) \<and> (\<exists>xs. list_snapshots db p = Inr xs)
    \<and> (list_all own_volume (volume_rows db) \<longrightarrow>
        (\<exists>x. get_volume db i = Inr x) \<and> (\<exists>xs. list_volumes db p = Inr xs) \<and> (\<exists>xs. list_all_volumes db = Inr xs))"
proof -
  have "readable no_volumes" by (simp add: readable_def no_volumes_def)
  then have inv: "readable db" unfolding assms by (rule readable_rows.run_inv)
  have one: "\<exists>x. (case find P rows of None \<Rightarrow> Inr None | Some r \<Rightarrow> map_sum id Some (f r)) = Inr x"
    if "\<forall>r\<in>set rows. reads_back f r"
    for P :: "'r \<Rightarrow> bool" and rows and f :: "'r \<Rightarrow> (store_error, 'x) rust_result"
  proof (cases "find P rows")
    case (Some r)
    then have "r \<in> set rows" by (auto simp: find_Some_iff)
    with that show ?thesis by (auto simp: Some reads_back_iff)
  qed simp
  have volumes: "list_all own_volume (volume_rows db) \<Longrightarrow> \<forall>r\<in>set (volume_rows db). reads_back volume_from_row r"
    using inv by (auto simp: readable_def list_all_iff)
  show ?thesis
    unfolding get_storage_backend_def get_volume_attachment_def get_snapshot_def get_volume_def
      list_storage_backends_def list_volume_attachments_def list_snapshots_def list_volumes_def list_all_volumes_def
    using inv by (intro conjI impI one collect_readable) (auto simp: readable_def dest: volumes)
qed

section \<open>The update that does not guard the project\<close>

lemma find_distinct:
  assumes "distinct (map k rows)" "r \<in> set rows" "k r = i"
  shows "find (\<lambda>x. k x = i) rows = Some r"
proof -
  obtain x where x: "find (\<lambda>x. k x = i) rows = Some x"
    using assms(2,3) by (cases "find (\<lambda>x. k x = i) rows") (auto simp: find_None_iff)
  then have "x \<in> set rows" "k x = i" by (auto simp: find_Some_iff)
  then have "x = r" using assms by (auto simp: distinct_map inj_on_def)
  then show ?thesis using x by simp
qed

lemma collect_fails: "r \<in> set rows \<Longrightarrow> f r = Inl e \<Longrightarrow> \<exists>e. collect_results f rows = Inl e"
  by (induction rows) (auto split: sum.split)

text \<open>
  An update of a volume under another project poisons the listing of all volumes. The
  statement matches the identity and the generation, not the project. For a stored volume,
  updating it by a valid volume of another project answers an error, and yet from then on no
  reader gets this volume and listing all volumes fails, whatever else is stored.
\<close>

theorem foreign_update_poisons_listing:
  assumes "r \<in> set (volume_rows db)" "distinct (map vr_id (volume_rows db))"
    and "v_id (vo_volume x) = vr_id r" "i64_of_u64 g = Some (vr_generation r)"
    and "volume_validate (vo_volume x) = None" "i64_of_u64 (v_generation (vo_volume x)) = Some nx"
    and "v_project (vo_volume x) \<noteq> vr_project r"
  shows "\<exists>db'. update_volume g x db = (Inl Corrupt, db') \<and> get_volume db' (vr_id r) = Inl Corrupt
    \<and> (\<exists>e. list_all_volumes db' = Inl e)"
proof -
  let ?v = "vo_volume x"
  define sel where "sel = (\<lambda>q :: volume_row. vr_id q = v_id ?v \<and> vr_generation q = vr_generation r)"
  define f where "f = (\<lambda>q :: volume_row. q\<lparr>vr_generation := nx, vr_state := volume_state_name (v_state ?v),
    vr_payload := ?v, vr_reference := v_reference ?v\<rparr>)"
  define db' where "db' = db\<lparr>volume_rows := rewrite sel f (volume_rows db)\<rparr>"
  have sel: "sel r" using assms(3) by (simp add: sel_def)
  then have in_rows: "f r \<in> set (volume_rows db')" using assms(1) by (auto simp: db'_def set_rewrite)
  have bad: "volume_from_row (f r) = Inl Corrupt"
    using assms(7) by (simp add: volume_from_row_def f_def Let_def)
  have "distinct (map vr_id (volume_rows db'))" using assms(2) by (simp add: db'_def map_rewrite f_def)
  then have "find (\<lambda>q. vr_id q = vr_id r) (volume_rows db') = Some (f r)"
    using in_rows by (rule find_distinct) (simp add: f_def)
  then have get: "get_volume db' (vr_id r) = Inl Corrupt" by (simp add: get_volume_def bad)
  have "list_ex sel (volume_rows db)" using sel assms(1) by (auto simp: list_ex_iff)
  then have "update_volume g x db = (found (get_volume db' (v_id ?v)), db')"
    using assms(4-6) by (simp add: update_volume_def Let_def db'_def sel_def f_def)
  then have "update_volume g x db = (Inl Corrupt, db')" using get assms(3) by (simp add: found_def)
  moreover have "\<exists>e. list_all_volumes db' = Inl e"
    unfolding list_all_volumes_def
    by (rule collect_fails [where f = volume_from_row and r = "f r"]) (simp_all add: in_rows bad)
  ultimately show ?thesis using get by blast
qed

section \<open>Witnesses\<close>

theorem stored_rows_read_back_witness:
  "(\<exists>xs. list_volume_attachments sample_volumes ''p1'' = Inr xs) \<and> (\<exists>xs. list_all_volumes sample_volumes = Inr xs)"
proof -
  have "list_all own_volume (volume_rows sample_volumes)" by code_simp
  with stored_rows_read_back [OF sample_volumes_def] show ?thesis by blast
qed

definition foreign_volume :: volume_record where
  "foreign_volume = \<lparr>vo_volume = sample_volume\<lparr>v_project := ''p2'', v_generation := 2\<rparr>, vo_created = ''t''\<rparr>"

definition sample_volume_row :: volume_row where
  "sample_volume_row = \<lparr>vr_id = ''v1'', vr_project = ''p1'', vr_generation = 1, vr_state = ''available'',
     vr_payload = sample_volume, vr_reference = None, vr_created = ''t''\<rparr>"

theorem foreign_update_poisons_listing_witness:
  "\<exists>db'. update_volume 1 foreign_volume sample_volumes = (Inl Corrupt, db') \<and> get_volume db' ''v1'' = Inl Corrupt
     \<and> (\<exists>e. list_all_volumes db' = Inl e)"
proof -
  have rows: "volume_rows sample_volumes = [sample_volume_row]" by code_simp
  have v: "volume_validate (vo_volume foreign_volume) = None" by code_simp
  have g: "i64_of_u64 (v_generation (vo_volume foreign_volume)) = Some 2" by code_simp
  have one: "i64_of_u64 1 = Some (vr_generation sample_volume_row)" by code_simp
  from foreign_update_poisons_listing [of sample_volume_row sample_volumes foreign_volume 1 2, OF _ _ _ one v g]
  show ?thesis by (simp add: rows) (simp add: sample_volume_row_def foreign_volume_def sample_volume_def)
qed

end
