(* ===== verification/Volume_Outcomes.thy ===== *)
theory Volume_Outcomes
  imports Volume_Interrupted Volume_Rows
begin

text \<open>
  What a successful attach leaves in the tables (\<open>crates/o3k-reconciler/src/storage_workflow.rs\<close>):
  the attachment, the volume, the command and the operation agree with the outcome that is
  answered. The steps after the last call of an executor are read off one by one.
\<close>

section \<open>The steps that finish an attach\<close>

lemma found_ok: "found x = Inr y \<longleftrightarrow> x = Inr (Some y)"
  by (auto simp: found_def split: sum.splits option.splits)

lemma update_attachment_ok:
  assumes "update_volume_attachment g x db = (Inr y, db')" "distinct (map ar_id (attachment_rows db))"
  shows "at_attachment y = at_attachment x
    \<and> get_volume_attachment db' (a_id (at_attachment x)) = Inr (Some y)
    \<and> distinct (map ar_id (attachment_rows db')) \<and> volume_rows db' = volume_rows db"
proof -
  let ?a = "at_attachment x"
  obtain nx current where n: "i64_of_u64 (a_generation ?a) = Some nx" "i64_of_u64 g = Some current"
    using assms(1) by (auto simp: update_volume_attachment_def Let_def split: if_splits option.splits)
  define sel where "sel = (\<lambda>r :: attachment_row. ar_id r = a_id ?a \<and> ar_project r = a_project ?a \<and> ar_generation r = current)"
  define f where "f = (\<lambda>r :: attachment_row. r\<lparr>ar_generation := nx, ar_state := attachment_state_name (a_state ?a), ar_payload := ?a\<rparr>)"
  have db': "list_ex sel (attachment_rows db)" "db' = db\<lparr>attachment_rows := rewrite sel f (attachment_rows db)\<rparr>"
    "found (get_volume_attachment db' (a_id ?a)) = Inr y"
    using assms(1) n unfolding update_volume_attachment_def Let_def sel_def f_def
    by (auto split: if_splits)
  obtain r where r: "r \<in> set (attachment_rows db)" "sel r" using db'(1) by (auto simp: list_ex_iff)
  have d: "distinct (map ar_id (attachment_rows db'))"
    using assms(2) by (simp add: db'(2) map_rewrite f_def)
  have "f r \<in> set (attachment_rows db')" using r by (auto simp: db'(2) set_rewrite)
  moreover have "ar_id (f r) = a_id ?a" using r(2) by (simp add: f_def sel_def)
  ultimately have "find (\<lambda>q. ar_id q = a_id ?a) (attachment_rows db') = Some (f r)"
    by (rule find_distinct [OF d])
  then have "at_attachment y = ?a"
    using db'(3) by (auto simp: found_ok get_volume_attachment_def attachment_from_row_def f_def Let_def
        split: if_splits)
  then show ?thesis using db'(2,3) d by (simp add: found_ok)
qed

lemma update_volume_ok:
  assumes "update_volume g x db = (Inr y, db')" "distinct (map vr_id (volume_rows db))"
  shows "vo_volume y = vo_volume x \<and> get_volume db' (v_id (vo_volume x)) = Inr (Some y)
    \<and> attachment_rows db' = attachment_rows db"
proof -
  let ?v = "vo_volume x"
  obtain nx current where n: "i64_of_u64 (v_generation ?v) = Some nx" "i64_of_u64 g = Some current"
    using assms(1) by (auto simp: update_volume_def Let_def split: if_splits option.splits)
  define sel where "sel = (\<lambda>r :: volume_row. vr_id r = v_id ?v \<and> vr_generation r = current)"
  define f where "f = (\<lambda>r :: volume_row. r\<lparr>vr_generation := nx, vr_state := volume_state_name (v_state ?v), vr_payload := ?v,
    vr_reference := v_reference ?v\<rparr>)"
  have db': "list_ex sel (volume_rows db)" "db' = db\<lparr>volume_rows := rewrite sel f (volume_rows db)\<rparr>"
    "found (get_volume db' (v_id ?v)) = Inr y"
    using assms(1) n unfolding update_volume_def Let_def sel_def f_def by (auto split: if_splits)
  obtain r where r: "r \<in> set (volume_rows db)" "sel r" using db'(1) by (auto simp: list_ex_iff)
  have d: "distinct (map vr_id (volume_rows db'))"
    using assms(2) by (simp add: db'(2) map_rewrite f_def)
  have "f r \<in> set (volume_rows db')" using r by (auto simp: db'(2) set_rewrite)
  moreover have "vr_id (f r) = v_id ?v" using r(2) by (simp add: f_def sel_def)
  ultimately have "find (\<lambda>q. vr_id q = v_id ?v) (volume_rows db') = Some (f r)"
    by (rule find_distinct [OF d])
  then have "vo_volume y = ?v"
    using db'(3) by (auto simp: found_ok get_volume_def volume_from_row_def f_def Let_def split: if_splits)
  then show ?thesis using db'(2,3) by (simp add: found_ok)
qed

lemma on_volumes_ok: "on_volumes f w = (Inr x, w') \<Longrightarrow> f (sx_volumes w) = (Inr x, sx_volumes w') \<and> sx_ops w' = sx_ops w"
  by (auto simp: on_volumes_def split: prod.splits sum.splits)

lemma transition_ok:
  "transition_attachment r s = Inr r' \<Longrightarrow> a_state (at_attachment r') = s
     \<and> a_id (at_attachment r') = a_id (at_attachment r) \<and> a_volume (at_attachment r') = a_volume (at_attachment r)"
  by (auto simp: transition_attachment_def attachment_transition_def Let_def split: option.splits if_splits)

definition ids_unique :: "volume_db \<Rightarrow> bool" where
  "ids_unique db \<longleftrightarrow> distinct (map ar_id (attachment_rows db)) \<and> distinct (map vr_id (volume_rows db))"

lemma move_attachment_ok:
  assumes "move_attachment r s w = (Inr r', w')" "ids_unique (sx_volumes w)"
  shows "a_state (at_attachment r') = s \<and> a_id (at_attachment r') = a_id (at_attachment r)
    \<and> a_volume (at_attachment r') = a_volume (at_attachment r)
    \<and> get_volume_attachment (sx_volumes w') (a_id (at_attachment r)) = Inr (Some r')
    \<and> ids_unique (sx_volumes w') \<and> sx_ops w' = sx_ops w"
proof -
  obtain n where n: "transition_attachment r s = Inr n"
      "on_volumes (update_volume_attachment (a_generation (at_attachment r)) n) w = (Inr r', w')"
    using assms(1) unfolding move_attachment_def by (auto elim!: chain_okE dest!: lift_ok)
  note on_volumes_ok [OF n(2)]
  then show ?thesis
    using update_attachment_ok [of "a_generation (at_attachment r)" n "sx_volumes w" r' "sx_volumes w'"]
      transition_ok [OF n(1)] assms(2) by (auto simp: ids_unique_def)
qed

lemma project_ok:
  assumes "project_volume_state r t w = (Inr u, w')" "ids_unique (sx_volumes w)"
  shows "(\<exists>v. get_volume (sx_volumes w') (a_volume (at_attachment r)) = Inr (Some v) \<and> v_state (vo_volume v) = t)
    \<and> attachment_rows (sx_volumes w') = attachment_rows (sx_volumes w) \<and> sx_ops w' = sx_ops w"
proof -
  let ?i = "a_volume (at_attachment r)"
  obtain x where x: "get_volume (sx_volumes w) ?i = Inr (Some x)" and
    rest: "(if v_state (vo_volume x) = t then done_with ()
       else case checked_add (v_generation (vo_volume x)) 1 of
           None \<Rightarrow> fail_with WStaleGeneration
         | Some g \<Rightarrow> chain (on_volumes (update_volume (g - 1)
             (x\<lparr>vo_volume := (vo_volume x)\<lparr>v_state := t, v_generation := g\<rparr>\<rparr>))) (\<lambda>_. done_with ())) w
      = (Inr u, w')"
    using assms(1) unfolding project_volume_state_def read_volume_def Let_def
    by (elim chain_okE) (auto simp: reads_def found_ok map_sum_def split: sum.splits)
  have id: "v_id (vo_volume x) = ?i"
    using x by (auto simp: get_volume_def volume_from_row_def Let_def find_Some_iff split: option.splits if_splits)
  show ?thesis
  proof (cases "v_state (vo_volume x) = t")
    case True
    then show ?thesis using rest x by (simp add: done_with_def)
  next
    case False
    then obtain g y w1 where y: "on_volumes (update_volume (g - 1)
        (x\<lparr>vo_volume := (vo_volume x)\<lparr>v_state := t, v_generation := g\<rparr>\<rparr>)) w = (Inr y, w1)" "w' = w1"
      using rest by (auto simp: fail_with_def done_with_def split: option.splits elim!: chain_okE)
    from update_volume_ok [OF conjunct1 [OF on_volumes_ok [OF y(1)]]] assms(2) show ?thesis
      using on_volumes_ok [OF y(1)] by (auto simp: ids_unique_def y(2) id)
  qed
qed

lemma update_operation_succeeded:
  "update_operation now i OpSucceeded p q m db = (Inr op, db') \<Longrightarrow>
   (\<exists>op. get_operation db' i = Inr op \<and> o_state op = OpSucceeded) \<and> command_rows db' = command_rows db"
  by (auto simp: update_operation_def get_operation_def touch_canonical_def Let_def find_operation_put
      fill_terminal_def put_operation_def find_operation_def update_conv' terminal_def split: option.splits if_splits)

lemma update_command_ok:
  assumes "update_agent_command i st a l p q db = (Inr c, db')"
  shows "get_agent_command db' i = Inr c \<and> c_id c = i"
proof -
  obtain d where d: "get_agent_command db i = Inr d" "advance_command st a l p q d = Inr c"
    "db' = db\<lparr>command_rows := replace_command i c (command_rows db)\<rparr>"
    using assms by (auto simp: update_agent_command_def split: sum.splits)
  have "find (\<lambda>c. c_id c = i) (command_rows db) \<noteq> None"
    using d(1) by (auto simp: get_agent_command_def split: option.splits)
  moreover have "c_id c = i" using advance_command_ok [OF d(2)] get_agent_command_id [OF d(1)] by simp
  ultimately show ?thesis by (simp add: d(3) get_agent_command_def find_replaced)
qed

text \<open>The tables agree with an outcome.\<close>

definition agrees_with :: "workflow_outcome \<Rightarrow> operations_db \<Rightarrow> bool" where
  "agrees_with out db \<longleftrightarrow>
     (\<exists>c. get_agent_command db (wo_command out) = Inr c \<and> c_state c = wo_command_state out
        \<and> c_operation c = wo_operation out)
     \<and> (\<exists>op. get_operation db (wo_operation out) = Inr op \<and> o_state op = OpSucceeded)"

lemma succeed_ok:
  assumes "succeed W c r w = (Inr out, w')"
  shows "agrees_with out (sx_ops w') \<and> sx_volumes w' = sx_volumes w
    \<and> wo_attachment_state out = a_state (at_attachment r)"
proof -
  obtain c' w1 op w2 where m: "move_command c CmdSucceeded (max (c_accepted c) 1) 2 w = (Inr c', w1)"
    and u: "on_ops (update_operation (wf_time W) (c_operation c') OpSucceeded None None None) w1 = (Inr op, w2)"
    and out: "out = outcome_of c' r" "w' = w2"
    using assms unfolding succeed_def by (elim chain_okE) (auto simp: done_with_def)
  note m' = on_ops_ok [OF m [unfolded move_command_def]] and u' = on_ops_ok [OF u]
  have "get_agent_command (sx_ops w2) (c_id c') = Inr c'"
    using update_command_ok [OF conjunct1 [OF m']] update_operation_succeeded [OF conjunct1 [OF u']]
    by (simp add: get_agent_command_def)
  then show ?thesis
    using m' u' update_operation_succeeded [OF conjunct1 [OF u']]
    by (simp add: out outcome_of_def agrees_with_def)
qed

section \<open>What a success means\<close>

definition attached_in :: "volume_db \<Rightarrow> string \<Rightarrow> bool" where
  "attached_in db i \<longleftrightarrow>
     (\<exists>r v. get_volume_attachment db i = Inr (Some r) \<and> a_state (at_attachment r) = AttAttached
        \<and> get_volume db (a_volume (at_attachment r)) = Inr (Some v) \<and> v_state (vo_volume v) = VolInUse)"

lemma finish_success_ok:
  assumes "finish_success W c r epoch w = (Inr out, w')" "fence_leaves_tables W"
    and "ids_unique (sx_volumes w)" "a_state (at_attachment r) \<noteq> AttAttached"
  shows "attached_in (sx_volumes w') (a_id (at_attachment r)) \<and> agrees_with out (sx_ops w')
    \<and> wo_attachment_state out = AttAttached"
proof -
  obtain u w1 r' w2 u' w3 where a: "wf_assert W epoch w = (Inr u, w1)"
    and m: "move_attachment r AttAttached w1 = (Inr r', w2)"
    and p: "project_volume_state r' VolInUse w2 = (Inr u', w3)" and s: "succeed W c r' w3 = (Inr out, w')"
    using assms(1,4) unfolding finish_success_def by (auto elim!: chain_okE)
  have "sx_volumes w1 = sx_volumes w"
    using assms(2) a unfolding fence_leaves_tables_def leaves_tables_def by (metis snd_conv)
  with assms(3) have "ids_unique (sx_volumes w1)" by simp
  note m' = move_attachment_ok [OF m this] and s' = succeed_ok [OF s]
  have "get_volume_attachment (sx_volumes w') (a_id (at_attachment r)) = Inr (Some r')"
    using m' project_ok [OF p] s' by (simp add: get_volume_attachment_def)
  then show ?thesis
    using m' s' project_ok [OF p] by (auto simp: attached_in_def)
qed

definition sound_tables :: "volume_db \<Rightarrow> bool" where
  "sound_tables db \<longleftrightarrow> one_live (attachment_rows db) \<and> distinct (map vr_id (volume_rows db))"

lemma sound_tables_ids: "sound_tables db \<Longrightarrow> ids_unique db"
  by (simp add: sound_tables_def one_live_def ids_unique_def)

lemma sound_kept:
  assumes "keeps (workflow_le_for W) m" "calls_sound W" "m w = (x, w')" "sound_tables (sx_volumes w)"
  shows "sound_tables (sx_volumes w')"
  using keeps_snd [OF assms(1), of w] assms(2-4)
  by (simp add: workflow_le_for_def workflow_le_def sound_tables_def)

lemma attempt_okE:
  assumes "attempt m f w = (Inr y, w2)"
  obtains x w1 where "m w = (x, w1)" "f x w1 = (Inr y, w2)"
  using assms by (auto simp: attempt_def split: prod.splits)

lemma leave_fails: "leave_unknown W e c r err w \<noteq> (Inr x, w')" "leave_failed W e c r err w \<noteq> (Inr x, w')"
  by (auto simp: leave_unknown_def leave_failed_def fail_with_def elim!: chain_okE)

lemma execute_attach_ok:
  assumes ok: "execute_attach W e c r g epoch w = (Inr out, w')"
    and sound: "calls_sound W" "fence_leaves_tables W" "sound_tables (sx_volumes w)"
  shows "attached_in (sx_volumes w') (a_id (at_attachment r)) \<and> agrees_with out (sx_ops w')
    \<and> wo_attachment_state out = AttAttached"
proof -
  note calls = workflow_history.keeps_calls and moves = workflow_history.keeps_moves
  obtain u w1 c1 w2 p w3 where a: "wf_assert W epoch w = (Inr u, w1)"
    and run: "move_command c CmdRunning 1 1 w1 = (Inr c1, w2)"
    and prep: "wf_prepare W (attachment_request_of (at_attachment r) g e) w2 = (p, w3)"
    and rest: "(case p of
         Inl err \<Rightarrow> if is_unknown err then leave_unknown W epoch c1 r WUnknownOutcome
                    else leave_failed W epoch c1 r (WProvider err)
       | Inr prepared \<Rightarrow> chain (wf_assert W epoch) (\<lambda>_. chain (move_attachment r AttAttaching) (\<lambda>r'.
           attempt (wf_attach W (at_attachment r') prepared) (\<lambda>x. case x of
             Inr _ \<Rightarrow> finish_success W c1 r' epoch
           | Inl CeUnknownOutcome \<Rightarrow> leave_unknown W epoch c1 r' WComputeUnknownOutcome
           | Inl CeFailed \<Rightarrow> leave_failed W epoch c1 r' WComputeFailed)))) w3 = (Inr out, w')"
    using ok unfolding execute_attach_def by (elim chain_okE attempt_okE) (rule that)
  have s3: "sound_tables (sx_volumes w3)"
    using sound_kept [OF calls(4) sound(1) prep] sound_kept [OF moves(2) sound(1) run]
      sound_kept [OF calls(2) sound(1) a] sound(3) by blast
  obtain prepared where p: "p = Inr prepared" using rest by (cases p) (auto simp: leave_fails split: if_splits)
  obtain u' w4 r' w5 x w6 where b: "wf_assert W epoch w3 = (Inr u', w4)"
    and m: "move_attachment r AttAttaching w4 = (Inr r', w5)"
    and att: "wf_attach W (at_attachment r') prepared w5 = (x, w6)"
    and fin: "(case x of Inr _ \<Rightarrow> finish_success W c1 r' epoch
           | Inl CeUnknownOutcome \<Rightarrow> leave_unknown W epoch c1 r' WComputeUnknownOutcome
           | Inl CeFailed \<Rightarrow> leave_failed W epoch c1 r' WComputeFailed) w6 = (Inr out, w')"
    using rest unfolding p sum.case by (elim chain_okE attempt_okE) (rule that)
  have s4: "sound_tables (sx_volumes w4)" by (rule sound_kept [OF calls(2) sound(1) b s3])
  have s6: "sound_tables (sx_volumes w6)"
    using sound_kept [OF calls(7) sound(1) att] sound_kept [OF moves(1) sound(1) m s4] by blast
  have finished: "finish_success W c1 r' epoch w6 = (Inr out, w')"
    using fin by (auto simp: leave_fails split: sum.splits compute_attachment_error.splits)
  then show ?thesis
    using finish_success_ok [OF finished sound(2) sound_tables_ids [OF s6]] move_attachment_ok [OF m sound_tables_ids [OF s4]]
    by simp
qed

lemma read_attachment_ok:
  "read_attachment i w = (Inr r, w') \<Longrightarrow> w' = w \<and> a_id (at_attachment r) = i"
  by (auto simp: read_attachment_def reads_def map_sum_def found_ok get_volume_attachment_def
      attachment_from_row_def Let_def find_Some_iff split: sum.splits option.splits if_splits)

lemma sum_of_found: "read_volume i w = (Inr v, w') \<Longrightarrow> w' = w"
  by (simp add: read_volume_def reads_def)

lemma tables_left:
  "leaves_tables m \<Longrightarrow> m w = (x, w') \<Longrightarrow> sx_ops w' = sx_ops w \<and> sx_volumes w' = sx_volumes w"
  unfolding leaves_tables_def by (metis snd_conv)

lemma fence_left:
  assumes "fence_leaves_tables W"
  shows "wf_begin W e w = (x, w') \<Longrightarrow> sx_ops w' = sx_ops w \<and> sx_volumes w' = sx_volumes w"
    and "wf_assert W e w = (x, w') \<Longrightarrow> sx_ops w' = sx_ops w \<and> sx_volumes w' = sx_volumes w"
    and "wf_end W e w = (x, w') \<Longrightarrow> sx_ops w' = sx_ops w \<and> sx_volumes w' = sx_volumes w"
  using assms tables_left unfolding fence_leaves_tables_def by blast+

lemma fresh_key_ok:
  assumes "with_fresh_key W i f w = (Inr out, w')" "fence_leaves_tables W"
    and "get_agent_command_by_key (sx_ops w) (si_key i) = Inl OperationNotFound"
  obtains fp w1 where "f fp w1 = (Inr out, w')" "sx_ops w1 = sx_ops w" "sx_volumes w1 = sx_volumes w"
proof -
  obtain u w1 u' w2 fp w3 x w4 where v: "(case intent_validate i of Some e \<Rightarrow> fail_with e | None \<Rightarrow> done_with ()) w = (Inr u, w1)"
    and a: "wf_assert W (si_controller_epoch i) w1 = (Inr u', w2)"
    and fp: "from_option WInvalidIntent (wf_fingerprint W i) w2 = (Inr fp, w3)"
    and key: "reads (\<lambda>w. get_agent_command_by_key (sx_ops w) (si_key i)) w3 = (x, w4)"
    and rest: "(case x of Inr c \<Rightarrow> replay_existing c fp
       | Inl err \<Rightarrow> if err = WStore OperationNotFound then f fp else fail_with err) w4 = (Inr out, w')"
    using assms(1) unfolding with_fresh_key_def by (elim chain_okE attempt_okE) (rule that)
  have "w1 = w" using v by (auto simp: fail_with_def done_with_def split: option.splits)
  with fence_left(2) [OF assms(2) a] from_option_ok [OF fp] key
  have w4: "sx_ops w4 = sx_ops w" "sx_volumes w4 = sx_volumes w" "x = Inl (WStore OperationNotFound)"
    using assms(3) by (auto simp: reads_def)
  show thesis by (rule that [of fp w4]) (use rest w4 in simp_all)
qed

lemma refuse_ok: "refuse_if c e w = (Inr u, w') \<Longrightarrow> w' = w \<and> \<not> c"
  by (auto simp: refuse_if_def fail_with_def done_with_def split: if_splits)

lemma attach_inner_ok:
  assumes ok: "attach_inner W i w = (Inr out, w')"
    and sound: "calls_sound W" "fence_leaves_tables W" "sound_tables (sx_volumes w)"
    and fresh: "get_agent_command_by_key (sx_ops w) (si_key i) = Inl OperationNotFound"
  shows "attached_in (sx_volumes w') (si_attachment i) \<and> agrees_with out (sx_ops w')
    \<and> wo_attachment_state out = AttAttached"
proof -
  obtain fp w1 where run: "chain (read_attachment (si_attachment i)) (\<lambda>r.
       chain (read_volume (a_volume (at_attachment r))) (\<lambda>v.
       chain (refuse_if (\<not> matches_intent i (at_attachment r) \<or> v_project (vo_volume v) \<noteq> si_project i
                         \<or> v_state (vo_volume v) \<noteq> VolAvailable \<or> a_state (at_attachment r) \<noteq> AttReserved)
                WInvalidIntent) (\<lambda>_.
       chain (record_intent W i fp ''storage:attach'' PrepareAttachment r) (\<lambda>(_, c).
       chain (move_attachment r AttPreparing) (\<lambda>r'.
       execute_attach_from_command W c r' (v_generation (vo_volume v)) (si_controller_epoch i)))))) w1
      = (Inr out, w')"
    and "sx_ops w1 = sx_ops w" and w1: "sx_volumes w1 = sx_volumes w"
    by (rule fresh_key_ok [OF ok [unfolded attach_inner_def] sound(2) fresh]) (rule that)
  obtain r w2 v w3 u w4 ec w5 where r: "read_attachment (si_attachment i) w1 = (Inr r, w2)"
    and v: "read_volume (a_volume (at_attachment r)) w2 = (Inr v, w3)"
    and t: "refuse_if (\<not> matches_intent i (at_attachment r) \<or> v_project (vo_volume v) \<noteq> si_project i
                         \<or> v_state (vo_volume v) \<noteq> VolAvailable \<or> a_state (at_attachment r) \<noteq> AttReserved)
                WInvalidIntent w3 = (Inr u, w4)"
    and rec: "record_intent W i fp ''storage:attach'' PrepareAttachment r w4 = (Inr ec, w5)"
    and rest: "(case ec of (_, c) \<Rightarrow> chain (move_attachment r AttPreparing) (\<lambda>r'.
       execute_attach_from_command W c r' (v_generation (vo_volume v)) (si_controller_epoch i))) w5 = (Inr out, w')"
    using run by (elim chain_okE) (rule that)
  obtain e c where ec: "ec = (e, c)" by (cases ec)
  obtain r' w6 e' w7 where m: "move_attachment r AttPreparing w5 = (Inr r', w6)"
    and d: "from_option WInvalidIntent (wf_decode W (c_payload c)) w6 = (Inr e', w7)"
    and ex: "execute_attach W e' c r' (v_generation (vo_volume v)) (si_controller_epoch i) w7 = (Inr out, w')"
    using rest unfolding ec prod.case execute_attach_from_command_def by (elim chain_okE) (rule that)
  have "w4 = w1" and id: "a_id (at_attachment r) = si_attachment i"
    using read_attachment_ok [OF r] sum_of_found [OF v] refuse_ok [OF t] by simp_all
  then have "sound_tables (sx_volumes w4)" using sound(3) w1 by simp
  from sound_kept [OF workflow_history.keeps_record sound(1) rec this]
  have s5: "sound_tables (sx_volumes w5)" .
  from sound_kept [OF workflow_history.keeps_moves(1) sound(1) m s5]
  have "sound_tables (sx_volumes w7)" using from_option_ok [OF d] by simp
  from execute_attach_ok [OF ex sound(1,2) this] show ?thesis
    using move_attachment_ok [OF m sound_tables_ids [OF s5]] id by simp
qed

text \<open>
  C26: A successful attach is what the tables say. Take a fence that leaves the tables alone and a
  provider and executor that keep their rules, from tables with unique rows and a key no command
  has. If attaching succeeds, then afterwards the attachment is attached, its volume is in use, its
  command stands as the outcome says and its operation has succeeded, whatever other controllers
  did during the calls.
\<close>

theorem attach_success_durable:
  assumes "calls_sound W" "fence_leaves_tables W" "sound_tables (sx_volumes w)"
    and "get_agent_command_by_key (sx_ops w) (si_key i) = Inl OperationNotFound"
    and "attach_volume W i w = (Inr out, w')"
  shows "attached_in (sx_volumes w') (si_attachment i) \<and> agrees_with out (sx_ops w')
    \<and> wo_attachment_state out = AttAttached"
proof -
  obtain u w1 res w2 ended where b: "wf_begin W (si_controller_epoch i) w = (Inr u, w1)"
    and inner: "attach_inner W i w1 = (res, w2)" and e: "wf_end W (si_controller_epoch i) w2 = (ended, w')"
    and res: "res = Inr out"
    using assms(5) unfolding attach_volume_def fenced_def
    by (elim chain_okE attempt_okE) (auto simp: fail_with_def done_with_def split: sum.splits)
  have "attached_in (sx_volumes w2) (si_attachment i) \<and> agrees_with out (sx_ops w2)
    \<and> wo_attachment_state out = AttAttached"
    by (rule attach_inner_ok [OF inner [unfolded res] assms(1,2)])
      (use fence_left(1) [OF assms(2) b] assms(3,4) in simp_all)
  then show ?thesis using fence_left(3) [OF assms(2) e] by simp
qed

theorem attach_success_durable_witness:
  "attached_in (sx_volumes (snd (attach_volume (sample_workflow False) (sample_intent ''k1'') sample_storage_world))) ''a1''"
proof -
  let ?r = "attach_volume (sample_workflow False) (sample_intent ''k1'') sample_storage_world"
  have "sound_tables (sx_volumes sample_storage_world)"
    by (simp add: sound_tables_def sample_storage_world_def sample_attachment_rows one_live_def) code_simp
  moreover have "get_agent_command_by_key (sx_ops sample_storage_world) (si_key (sample_intent ''k1''))
      = Inl OperationNotFound" by code_simp
  moreover obtain out where "?r = (Inr out, snd ?r)" using sample_attached(1) by (cases ?r) auto
  ultimately have "attached_in (sx_volumes (snd ?r)) (si_attachment (sample_intent ''k1''))"
    using attach_success_durable [OF sample_calls_sound sample_fence] by blast
  then show ?thesis by (simp add: sample_intent_def)
qed

end
