(* ===== verification/Volume_Fence.thy ===== *)
theory Volume_Fence
  imports Volume_Outcomes Store_Coordination
begin

text \<open>
  The fence of the storage controller (\<open>LocalStorageFence\<close> in
  \<open>bins/o3kd/src/composition/storage.rs\<close>): a lease on the work of \<open>Store_Coordination\<close>, one attempt
  of it at a time in a process, and a task that renews it. What happens while the fence waits is
  given: the pauses, one for each wait, say what others do to the leases, what the renewal task
  does, whether the process is told to quiesce, the clock of the statements, and whether an
  answer arrives (a timeout or an error may hide a statement that took effect). A lost answer
  and a timeout are the same to the caller.
  Lemmas: who holds the lease after an assertion, that a deposed holder stays out, that ending
  an attempt releases nobody else's lease; and with the fence in the workflow of
  \<open>Volume_Workflow\<close>, that a deposed worker writes nothing more, except when it
  reconciles an attach.
\<close>

section \<open>The process and its world\<close>

datatype reply = Answered | NotApplied | AnswerLost

datatype join_result = Joined | Panicked | StillRunning

datatype happening =
    Elsewhere lease_op
  | Renewal int reply
  | Quiesce

record pause =
  pz_happenings :: "happening list"
  pz_read :: int
  pz_written :: int
  pz_reply :: reply
  pz_lock_free :: bool
  pz_join :: join_result

record lease_attempt =
  la_token :: u64
  la_stop :: bool
  la_renewal :: bool
  la_task :: bool
  la_renewal_failed :: bool
  la_pending :: bool
  la_valid :: bool

record storage_fence =
  sf_controller :: string
  sf_epoch :: string
  sf_intent_epoch :: u64

record fence_world =
  fw_db :: coordination_db
  fw_attempt :: "lease_attempt option"
  fw_quiescing :: bool
  fw_pauses :: "pause list"

definition storage_work_key :: string where
  "storage_work_key = ''o3k-native-storage-controller''"

definition storage_lease_ttl :: duration where
  "storage_lease_ttl = 15000000000"

definition pending_attempt :: lease_attempt where
  "pending_attempt = \<lparr>la_token = 0, la_stop = False, la_renewal = False, la_task = False,
     la_renewal_failed = False, la_pending = True, la_valid = False\<rparr>"

section \<open>Waiting\<close>

text \<open>A statement on the coordination tables, whose answer may not arrive.\<close>

definition asked ::
  "reply \<Rightarrow> (coordination_db \<Rightarrow> 'a \<times> coordination_db) \<Rightarrow> fence_world \<Rightarrow> 'a option \<times> fence_world" where
  "asked r f s =
     (case r of
        NotApplied \<Rightarrow> (None, s)
      | Answered \<Rightarrow> (case f (fw_db s) of (x, db) \<Rightarrow> (Some x, s\<lparr>fw_db := db\<rparr>))
      | AnswerLost \<Rightarrow> (case f (fw_db s) of (x, db) \<Rightarrow> (None, s\<lparr>fw_db := db\<rparr>)))"

definition renewing :: "storage_fence \<Rightarrow> u64 \<Rightarrow> int \<Rightarrow> coordination_db \<Rightarrow> bool \<times> coordination_db" where
  "renewing F token t db =
     renew_work_lease t db storage_work_key (sf_controller F) (sf_epoch F) token storage_lease_ttl"

text \<open>One turn of the renewal task: on a refusal or an error it marks the attempt and ends.\<close>

definition renewal_turn :: "storage_fence \<Rightarrow> int \<Rightarrow> reply \<Rightarrow> fence_world \<Rightarrow> fence_world" where
  "renewal_turn F t r s =
     (case fw_attempt s of
        None \<Rightarrow> s
      | Some a \<Rightarrow>
          if \<not> la_task a then s
          else case asked r (renewing F (la_token a) t) s of
              (Some True, s') \<Rightarrow> s'
            | (_, s') \<Rightarrow> s'\<lparr>fw_attempt := Some (a\<lparr>la_task := False, la_valid := False\<rparr>)\<rparr>)"

fun happens :: "storage_fence \<Rightarrow> fence_world \<Rightarrow> happening \<Rightarrow> fence_world" where
  "happens F s (Elsewhere x) = s\<lparr>fw_db := lease_step (fw_db s) x\<rparr>"
| "happens F s (Renewal t r) = renewal_turn F t r s"
| "happens F s Quiesce = s\<lparr>fw_quiescing := True\<rparr>"

definition quiet_pause :: pause where
  "quiet_pause = \<lparr>pz_happenings = [], pz_read = 0, pz_written = 0, pz_reply = Answered,
                  pz_lock_free = True, pz_join = Joined\<rparr>"

definition waited :: "storage_fence \<Rightarrow> fence_world \<Rightarrow> pause \<times> fence_world" where
  "waited F s =
     (case fw_pauses s of
        [] \<Rightarrow> (quiet_pause, s)
      | p # ps \<Rightarrow> (p, foldl (happens F) (s\<lparr>fw_pauses := ps\<rparr>) (pz_happenings p)))"

section \<open>The fence\<close>

type_synonym fence_act = "fence_world \<Rightarrow> (workflow_error, unit) rust_result \<times> fence_world"

definition stale :: fence_act where
  "stale s = (Inl WStaleControllerFence, s)"

definition fence_begin :: "storage_fence \<Rightarrow> u64 \<Rightarrow> fence_act" where
  "fence_begin F epoch s =
     (if epoch = 0 \<or> epoch \<noteq> sf_intent_epoch F then stale s
      else if fw_quiescing s then stale s
      else let (p, s1) = waited F s
        in if fw_attempt s1 \<noteq> None \<or> fw_quiescing s1 then stale s1
           else if \<not> pz_lock_free p then stale s1
           else let (q, s2) = waited F (s1\<lparr>fw_attempt := Some pending_attempt\<rparr>)
             in case asked (pz_reply q) (\<lambda>db. acquire_work_lease (pz_read q) (pz_written q) db storage_work_key
                       ''storage-attachment'' (sf_controller F) (sf_epoch F) storage_lease_ttl) s2 of
                 (None, s3) \<Rightarrow> stale s3
               | (Some (Busy owner ep token created till), s3) \<Rightarrow> stale (s3\<lparr>fw_attempt := None\<rparr>)
               | (Some (Acquired l), s3) \<Rightarrow>
                   let s4 = snd (waited F s3);
                       a = pending_attempt\<lparr>la_token := fencing_token l, la_pending := False\<rparr>
                   in if fw_quiescing s4 then stale (s4\<lparr>fw_attempt := Some a\<rparr>)
                      else (Inr (), s4\<lparr>fw_attempt :=
                        Some (a\<lparr>la_stop := True, la_renewal := True, la_task := True, la_valid := True\<rparr>)\<rparr>))"

definition fence_assert :: "storage_fence \<Rightarrow> u64 \<Rightarrow> fence_act" where
  "fence_assert F epoch s =
     (if epoch = 0 \<or> epoch \<noteq> sf_intent_epoch F then stale s
      else if fw_quiescing s then stale s
      else let (p, s1) = waited F s
        in if fw_quiescing s1 then stale s1
           else case fw_attempt s1 of
               None \<Rightarrow> stale s1
             | Some a \<Rightarrow>
                 if \<not> la_valid a \<or> \<not> la_stop a then stale s1
                 else let (q, s2) = waited F s1
                   in case asked (pz_reply q) (renewing F (la_token a) (pz_read q)) s2 of
                       (Some True, s3) \<Rightarrow> (Inr (), s3)
                     | (_, s3) \<Rightarrow>
                         stale (s3\<lparr>fw_attempt := map_option (\<lambda>a. a\<lparr>la_valid := False\<rparr>) (fw_attempt s3)\<rparr>))"

text \<open>The release, and the look at the lease after an answer that did not confirm it.\<close>

definition release_attempt :: "storage_fence \<Rightarrow> u64 \<Rightarrow> fence_act" where
  "release_attempt F token s =
     (let (p, s1) = waited F s
      in case asked (pz_reply p) (\<lambda>db. release_work_lease db storage_work_key (sf_controller F) (sf_epoch F) token) s1 of
          (Some True, s2) \<Rightarrow> (Inr (), s2\<lparr>fw_attempt := None\<rparr>)
        | (_, s2) \<Rightarrow>
            (let (q, s3) = waited F s2
             in case asked (pz_reply q) (\<lambda>db. (inspect_work_lease db storage_work_key, db)) s3 of
                 (Some None, s4) \<Rightarrow> (Inr (), s4\<lparr>fw_attempt := None\<rparr>)
               | (Some (Some current), s4) \<Rightarrow>
                   if fencing_token current \<noteq> token \<or> owner_controller_id current \<noteq> sf_controller F
                      \<or> owner_controller_epoch current \<noteq> sf_epoch F
                   then (Inr (), s4\<lparr>fw_attempt := None\<rparr>) else stale s4
               | (None, s4) \<Rightarrow> stale s4))"

definition fence_end :: "storage_fence \<Rightarrow> u64 \<Rightarrow> fence_act" where
  "fence_end F epoch s =
     (if epoch \<noteq> sf_intent_epoch F then stale s
      else let (p, s1) = waited F s
        in if \<not> pz_lock_free p then stale s1
           else case fw_attempt s1 of
               None \<Rightarrow> (Inr (), s1)
             | Some a \<Rightarrow>
                 if la_renewal_failed a \<or> la_pending a then stale s1
                 else let s2 = s1\<lparr>fw_attempt := Some (a\<lparr>la_valid := False, la_stop := False\<rparr>)\<rparr>
                   in if \<not> la_renewal a then release_attempt F (la_token a) s2
                      else let (q, s3) = waited F s2;
                               mark = (\<lambda>f. s3\<lparr>fw_attempt := map_option f (fw_attempt s3)\<rparr>)
                        in case pz_join q of
                            StillRunning \<Rightarrow> stale s3
                          | Panicked \<Rightarrow>
                              stale (mark (\<lambda>a. a\<lparr>la_renewal := False, la_task := False, la_renewal_failed := True\<rparr>))
                          | Joined \<Rightarrow>
                              release_attempt F (la_token a) (mark (\<lambda>a. a\<lparr>la_renewal := False, la_task := False\<rparr>)))"

section \<open>The fence in the workflow\<close>

definition in_outer ::
  "(fence_world \<Rightarrow> ('e, 'a) rust_result \<times> fence_world) \<Rightarrow> (fence_world, 'e, 'a) storage_call" where
  "in_outer f w = (case f (sx_outer w) of (x, s) \<Rightarrow> (x, w\<lparr>sx_outer := s\<rparr>))"

definition with_local_fence :: "storage_fence \<Rightarrow> fence_world workflow \<Rightarrow> fence_world workflow" where
  "with_local_fence F W = W\<lparr>wf_begin := \<lambda>e. in_outer (fence_begin F e), wf_assert := \<lambda>e. in_outer (fence_assert F e),
     wf_end := \<lambda>e. in_outer (fence_end F e)\<rparr>"

lemma local_fence_leaves_tables: "fence_leaves_tables (with_local_fence F W)"
  by (auto simp: fence_leaves_tables_def with_local_fence_def leaves_tables_def in_outer_def split: prod.split)

section \<open>A deposed holder\<close>

definition not_ours :: "storage_fence \<Rightarrow> u64 \<Rightarrow> coordination_db \<Rightarrow> bool" where
  "not_ours F token db \<longleftrightarrow>
     (\<forall>r. leases db storage_work_key = Some r \<longrightarrow> \<not> holds_lease (sf_controller F) (sf_epoch F) token r)"

text \<open>What other controllers do: they never acquire under this controller's name.\<close>

fun foreign_op :: "storage_fence \<Rightarrow> lease_op \<Rightarrow> bool" where
  "foreign_op F (AcquireLease t t' key kind i e ttl) =
     (key = storage_work_key \<longrightarrow> (i, e) \<noteq> (sf_controller F, sf_epoch F))"
| "foreign_op F x = True"

fun foreign :: "storage_fence \<Rightarrow> happening \<Rightarrow> bool" where
  "foreign F (Elsewhere x) = foreign_op F x"
| "foreign F h = True"

definition foreign_pauses :: "storage_fence \<Rightarrow> fence_world \<Rightarrow> bool" where
  "foreign_pauses F s \<longleftrightarrow> (\<forall>p\<in>set (fw_pauses s). \<forall>h\<in>set (pz_happenings p). foreign F h)"

definition deposed :: "storage_fence \<Rightarrow> fence_world \<Rightarrow> bool" where
  "deposed F s \<longleftrightarrow> foreign_pauses F s
     \<and> (\<forall>a. fw_attempt s = Some a \<longrightarrow> not_ours F (la_token a) (fw_db s))"

lemma not_ours_step: "not_ours F token db \<Longrightarrow> foreign_op F x \<Longrightarrow> not_ours F token (lease_step db x)"
  by (cases x)
    (auto simp: not_ours_def lease_op_defs holds_lease_def Let_def split: option.splits if_splits)

lemma not_ours_renew [simp]: "not_ours F token db \<Longrightarrow> renewing F token t db = (False, db)"
  by (auto simp: not_ours_def renewing_def renew_work_lease_def split: option.split)

lemma not_ours_release:
  "not_ours F token db \<Longrightarrow>
   release_work_lease db storage_work_key (sf_controller F) (sf_epoch F) token = (False, db)"
  by (auto simp: not_ours_def release_work_lease_def split: option.split)

lemma deposed_happens:
  assumes "deposed F s" "foreign F h"
  shows "deposed F (happens F s h) \<and> fw_pauses (happens F s h) = fw_pauses s"
  using assms
  by (cases h; cases "fw_attempt s")
    (auto simp: deposed_def foreign_pauses_def not_ours_step renewal_turn_def asked_def split: reply.split)

lemma deposed_happenings:
  "deposed F s \<Longrightarrow> \<forall>h\<in>set hs. foreign F h \<Longrightarrow> deposed F (foldl (happens F) s hs)"
  by (induction hs arbitrary: s) (simp_all add: deposed_happens)

lemma deposed_waited: "deposed F s \<Longrightarrow> waited F s = (p, s') \<Longrightarrow> deposed F s'"
  by (auto simp: waited_def deposed_def [of F s] foreign_pauses_def split: list.splits intro!: deposed_happenings)
    (auto simp: deposed_def foreign_pauses_def)

lemma deposed_attempt:
  "deposed F s \<Longrightarrow> (\<And>b. x = Some b \<Longrightarrow> \<exists>a. fw_attempt s = Some a \<and> la_token b = la_token a) \<Longrightarrow>
   deposed F (s\<lparr>fw_attempt := x\<rparr>)"
  by (cases x) (auto simp: deposed_def foreign_pauses_def)

lemma deposed_asked_renew:
  assumes "deposed F s" "fw_attempt s = Some a"
  shows "asked r (renewing F (la_token a) t) s = (if r = Answered then Some False else None, s)"
  using assms by (cases r) (simp_all add: asked_def deposed_def)

lemma waited_token:
  assumes "waited F s = (p, s')" "fw_attempt s = Some a"
  shows "\<exists>b. fw_attempt s' = Some b \<and> la_token b = la_token a"
proof -
  have step: "\<exists>b. fw_attempt (happens F s h) = Some b \<and> la_token b = la_token a"
    if "fw_attempt s = Some b" "la_token b = la_token a" for s h b
    using that by (cases h) (auto simp: renewal_turn_def asked_def split: reply.split prod.splits option.splits bool.splits)
  have "\<exists>b. fw_attempt (foldl (happens F) s hs) = Some b \<and> la_token b = la_token a"
    if "fw_attempt s = Some b" "la_token b = la_token a" for s hs b
    using that
  proof (induction hs arbitrary: s b)
    case (Cons h hs)
    from step [OF Cons.prems] obtain c where "fw_attempt (happens F s h) = Some c" "la_token c = la_token a" by blast
    from Cons.IH [OF this] show ?case by simp
  qed simp
  then show ?thesis using assms by (auto simp: waited_def split: list.splits)
qed

lemma fence_assert_deposed:
  assumes "deposed F s"
  shows "\<exists>s'. fence_assert F e s = (Inl WStaleControllerFence, s') \<and> deposed F s'"
proof -
  obtain p s1 where w: "waited F s = (p, s1)" by (cases "waited F s")
  have d1: "deposed F s1" by (rule deposed_waited [OF assms w])
  obtain q s2 where w2: "waited F s1 = (q, s2)" by (cases "waited F s1")
  have d2: "deposed F s2" by (rule deposed_waited [OF d1 w2])
  have mark: "deposed F (s2\<lparr>fw_attempt := map_option (\<lambda>a. a\<lparr>la_valid := False\<rparr>) (fw_attempt s2)\<rparr>)"
    by (rule deposed_attempt [OF d2]) auto
  show ?thesis
  proof (cases "fw_attempt s1")
    case None
    then show ?thesis using assms d1 by (simp add: fence_assert_def w stale_def)
  next
    case (Some a)
    then obtain b where "fw_attempt s2 = Some b" "la_token b = la_token a" using waited_token [OF w2] by blast
    then have "asked (pz_reply q) (renewing F (la_token a) (pz_read q)) s2
        = (if pz_reply q = Answered then Some False else None, s2)"
      using deposed_asked_renew [OF d2] by metis
    then show ?thesis using assms d1 mark by (simp add: fence_assert_def w w2 Some stale_def)
  qed
qed

text \<open>
  C30: An assertion that passes was made by the holder. Whatever happens during the two waits of the
  assertion, the statement found, in the world it was executed in, the lease under this
  controller, this epoch and the token of the attempt, and at the clock it read the lease had not
  expired. All it changed is this lease: it now expires fifteen seconds after that clock. The
  attempt was valid after the first wait and kept its token since.
\<close>

theorem assertion_means_held:
  assumes "fence_assert F e s = (Inr u, s')"
    and "waited F s = (p, s1)" "waited F s1 = (q, s2)"
  shows "\<exists>a b r. fw_attempt s1 = Some a \<and> la_valid a \<and> fw_attempt s2 = Some b \<and> la_token b = la_token a
    \<and> leases (fw_db s2) storage_work_key = Some r
    \<and> holds_lease (sf_controller F) (sf_epoch F) (la_token a) r \<and> \<not> lease_expired (pz_read q) r
    \<and> s' = s2\<lparr>fw_db := (fw_db s2)\<lparr>leases := (leases (fw_db s2))(storage_work_key \<mapsto>
        r\<lparr>lease_until := strftime_now (pz_read q) 15000, lease_updated := datetime_now (pz_read q) 0\<rparr>)\<rparr>\<rparr>"
proof -
  from assms obtain a where a: "fw_attempt s1 = Some a" "la_valid a"
    and r: "asked (pz_reply q) (renewing F (la_token a) (pz_read q)) s2 = (Some True, s')"
    by (auto simp: fence_assert_def stale_def split: if_splits option.splits bool.splits prod.splits)
  from waited_token [OF assms(3) a(1)] obtain b where "fw_attempt s2 = Some b" "la_token b = la_token a" by blast
  moreover have "renewing F (la_token a) (pz_read q) (fw_db s2) = (True, fw_db s')" "s' = s2\<lparr>fw_db := fw_db s'\<rparr>"
    using r by (auto simp: asked_def split: reply.splits prod.splits)
  then obtain x where "leases (fw_db s2) storage_work_key = Some x"
    "holds_lease (sf_controller F) (sf_epoch F) (la_token a) x" "\<not> lease_expired (pz_read q) x"
    "s' = s2\<lparr>fw_db := (fw_db s2)\<lparr>leases := (leases (fw_db s2))(storage_work_key \<mapsto>
        x\<lparr>lease_until := strftime_now (pz_read q) 15000, lease_updated := datetime_now (pz_read q) 0\<rparr>)\<rparr>\<rparr>"
    by (auto simp: renewing_def renew_work_lease_def lease_ttl_millis_def storage_lease_ttl_def
        split: option.splits if_splits)
  ultimately show ?thesis using a by blast
qed

text \<open>Pauses in which nobody touches the leases.\<close>

definition undisturbed :: "fence_world \<Rightarrow> bool" where
  "undisturbed s \<longleftrightarrow> (\<forall>p\<in>set (fw_pauses s). \<forall>h\<in>set (pz_happenings p). h = Quiesce)"

lemma undisturbed_fields [simp]:
  "undisturbed (s\<lparr>fw_attempt := x\<rparr>) = undisturbed s" "undisturbed (s\<lparr>fw_db := db\<rparr>) = undisturbed s"
  by (simp_all add: undisturbed_def)

lemma undisturbed_waited:
  assumes "undisturbed s" "waited F s = (p, s')"
  shows "fw_db s' = fw_db s \<and> fw_attempt s' = fw_attempt s \<and> undisturbed s'"
proof -
  have quiesced: "fw_db (foldl (happens F) s hs) = fw_db s \<and> fw_attempt (foldl (happens F) s hs) = fw_attempt s
      \<and> fw_pauses (foldl (happens F) s hs) = fw_pauses s"
    if "\<forall>h\<in>set hs. h = Quiesce" for s hs
    using that by (induction hs arbitrary: s) simp_all
  show ?thesis
  proof (cases "fw_pauses s")
    case Nil
    then show ?thesis using assms by (auto simp: waited_def)
  next
    case (Cons q ps)
    then have "p = q" "s' = foldl (happens F) (s\<lparr>fw_pauses := ps\<rparr>) (pz_happenings q)"
      using assms(2) by (auto simp: waited_def)
    moreover have "\<forall>h\<in>set (pz_happenings q). h = Quiesce" "undisturbed (s\<lparr>fw_pauses := ps\<rparr>)"
      using assms(1) Cons by (simp_all add: undisturbed_def)
    ultimately show ?thesis using quiesced by (simp add: undisturbed_def)
  qed
qed

text \<open>What is left of the lease of the storage work after a release was tried.\<close>

definition own_lease_gone :: "storage_fence \<Rightarrow> u64 \<Rightarrow> coordination_db \<Rightarrow> coordination_db \<Rightarrow> bool" where
  "own_lease_gone F token db db' \<longleftrightarrow>
     db' = db \<or> (\<exists>r. leases db storage_work_key = Some r \<and> holds_lease (sf_controller F) (sf_epoch F) token r
                  \<and> db' = db\<lparr>leases := (leases db)(storage_work_key := None)\<rparr>)"

lemma release_leaves:
  "release_work_lease db storage_work_key (sf_controller F) (sf_epoch F) token = (b, db') \<Longrightarrow>
   own_lease_gone F token db db'"
  by (auto simp: release_work_lease_def own_lease_gone_def split: option.splits if_splits)

lemma asked_leaves:
  "asked r f s = (x, s') \<Longrightarrow> s' = s\<lparr>fw_db := fw_db s'\<rparr> \<and> (fw_db s' = fw_db s \<or> fw_db s' = snd (f (fw_db s)))"
  by (auto simp: asked_def split: reply.splits prod.splits)

lemma release_attempt_leaves:
  assumes "undisturbed s"
  shows "own_lease_gone F token (fw_db s) (fw_db (snd (release_attempt F token s)))"
proof -
  obtain p s1 where w: "waited F s = (p, s1)" by (cases "waited F s")
  note u1 = undisturbed_waited [OF assms w]
  let ?release = "\<lambda>db. release_work_lease db storage_work_key (sf_controller F) (sf_epoch F) token"
  obtain x s2 where a: "asked (pz_reply p) ?release s1 = (x, s2)" by (cases "asked (pz_reply p) ?release s1")
  note l = asked_leaves [OF a]
  have gone: "own_lease_gone F token (fw_db s) (fw_db s2)"
    using l u1 release_leaves [of "fw_db s" F token] by (cases "?release (fw_db s)") (auto simp: own_lease_gone_def)
  have "undisturbed s2" using l u1 by (metis undisturbed_fields(2))
  obtain q s3 where w3: "waited F s2 = (q, s3)" by (cases "waited F s2")
  have d3: "fw_db s3 = fw_db s2" using undisturbed_waited [OF \<open>undisturbed s2\<close> w3] by simp
  obtain y s4 where b: "asked (pz_reply q) (\<lambda>db. (inspect_work_lease db storage_work_key, db)) s3 = (y, s4)"
    by (cases "asked (pz_reply q) (\<lambda>db. (inspect_work_lease db storage_work_key, db)) s3")
  have d4: "fw_db s4 = fw_db s3" using asked_leaves [OF b] by auto
  have "fw_db (snd (release_attempt F token s)) = fw_db s2"
    by (simp add: release_attempt_def w a w3 b d3 d4 stale_def split: option.split bool.split)
  then show ?thesis using gone by simp
qed

text \<open>
  Ending an attempt releases nobody else's lease. When nobody touches the leases meanwhile,
  then whatever answers are lost, however the renewal task ends and whether or not the process
  quiesces, the tables are afterwards as they were, or just the lease of the storage work is gone
  and it was held by this controller, in this epoch, with the token of its attempt.
\<close>

theorem end_releases_own_lease:
  assumes "undisturbed s"
  shows "fw_db (snd (fence_end F e s)) = fw_db s
    \<or> (\<exists>a. fw_attempt s = Some a \<and> own_lease_gone F (la_token a) (fw_db s) (fw_db (snd (fence_end F e s))))"
proof -
  obtain p s1 where w: "waited F s = (p, s1)" by (cases "waited F s")
  note u1 = undisturbed_waited [OF assms w]
  show ?thesis
  proof (cases "fw_attempt s1")
    case None
    then show ?thesis using u1 by (simp add: fence_end_def w stale_def)
  next
    case (Some a)
    let ?s2 = "s1\<lparr>fw_attempt := Some (a\<lparr>la_valid := False, la_stop := False\<rparr>)\<rparr>"
    obtain q s3 where w3: "waited F ?s2 = (q, s3)" by (cases "waited F ?s2")
    have u3: "fw_db s3 = fw_db s1" "undisturbed s3"
      using undisturbed_waited [OF _ w3] u1 by simp_all
    have direct: "own_lease_gone F (la_token a) (fw_db s) (fw_db (snd (release_attempt F (la_token a) ?s2)))"
      using release_attempt_leaves [of ?s2 F "la_token a"] u1 by simp
    have joined: "own_lease_gone F (la_token a) (fw_db s)
        (fw_db (snd (release_attempt F (la_token a) (s3\<lparr>fw_attempt := x\<rparr>))))" for x
      using release_attempt_leaves [of "s3\<lparr>fw_attempt := x\<rparr>" F "la_token a"] u1 u3 by simp
    have "fw_attempt s = Some a" using u1 Some by simp
    then show ?thesis
      using direct joined u1 u3 by (simp add: fence_end_def w Some w3 stale_def Let_def split: join_result.split)
  qed
qed

section \<open>A deposed worker\<close>

lemma local_fence_calls:
  "wf_prepare (with_local_fence F W) = wf_prepare W" "wf_terminate (with_local_fence F W) = wf_terminate W"
  "wf_attach (with_local_fence F W) = wf_attach W" "wf_detach (with_local_fence F W) = wf_detach W"
  "wf_inspect (with_local_fence F W) = wf_inspect W" "wf_observe (with_local_fence F W) = wf_observe W"
  "wf_decode (with_local_fence F W) = wf_decode W"
  by (simp_all add: with_local_fence_def)

lemma takeover_deposes:
  assumes "leases db storage_work_key = Some r" "lease_expired t r" "(i, e) \<noteq> (sf_controller F, sf_epoch F)"
  shows "not_ours F token (snd (acquire_work_lease t t' db storage_work_key kind i e ttl))"
  using assms by (auto simp: acquire_work_lease_def not_ours_def holds_lease_def Let_def)

definition deposed_with :: "storage_fence \<Rightarrow> operations_db \<Rightarrow> volume_db \<Rightarrow> fence_world storage_world \<Rightarrow> bool" where
  "deposed_with F ops vols w \<longleftrightarrow> deposed F (sx_outer w) \<and> sx_ops w = ops \<and> sx_volumes w = vols"

lemma hopeless_assert:
  "hopeless (deposed_with F ops vols) (chain (wf_assert (with_local_fence F W) e) f)"
proof (rule hopeless_chain)
  show "hopeless (deposed_with F ops vols) (wf_assert (with_local_fence F W) e)"
    unfolding upholds_def
  proof (intro allI impI)
    fix w assume "deposed_with F ops vols w"
    moreover from this obtain s' where "fence_assert F e (sx_outer w) = (Inl WStaleControllerFence, s')" "deposed F s'"
      using fence_assert_deposed [of F "sx_outer w" e] by (auto simp: deposed_with_def)
    ultimately show "deposed_with F ops vols (snd (wf_assert (with_local_fence F W) e w))
        \<and> (\<forall>x. fst (wf_assert (with_local_fence F W) e w) = Inr x \<longrightarrow> False)"
      by (simp add: with_local_fence_def in_outer_def deposed_with_def)
  qed
qed

text \<open>A call during which the lease passes to another controller.\<close>

definition loses_lease :: "storage_fence \<Rightarrow> (fence_world, 'e, 'a) storage_call \<Rightarrow> bool" where
  "loses_lease F m \<longleftrightarrow> leaves_tables m \<and> (\<forall>w. deposed F (sx_outer (snd (m w))))"

definition command_started :: "agent_command \<Rightarrow> operations_db \<Rightarrow> operations_db" where
  "command_started c db =
     snd (update_agent_command (c_id c) CmdRunning 1 (max (saturating_add (c_last c) 1) 1) None None db)"

lemma started:
  "move_command c CmdRunning 1 1 w = (x, w') \<Longrightarrow>
   sx_ops w' = command_started c (sx_ops w) \<and> sx_volumes w' = sx_volumes w"
  by (auto simp: move_command_def on_ops_def command_started_def split: prod.splits sum.splits)

text \<open>The volumes after an attachment was moved to a state, if it could be.\<close>

definition attachment_moved :: "attachment_record \<Rightarrow> attachment_state \<Rightarrow> volume_db \<Rightarrow> volume_db" where
  "attachment_moved r st vols =
     (case transition_attachment r st of
        Inl _ \<Rightarrow> vols
      | Inr r' \<Rightarrow> snd (update_volume_attachment (a_generation (at_attachment r)) r' vols))"

lemma moved:
  "move_attachment r st w = (x, w') \<Longrightarrow>
   sx_ops w' = sx_ops w \<and> sx_volumes w' \<in> {sx_volumes w, attachment_moved r st (sx_volumes w)}"
  by (auto simp: move_attachment_def chain_def lift_result_def on_volumes_def attachment_moved_def
      fail_with_def done_with_def split: prod.splits sum.splits)

text \<open>A handler that ends in an error, leaving tables among those given.\<close>

definition stops_with ::
  "('x, 'a) workflow_act \<Rightarrow> 'x storage_world \<Rightarrow> operations_db set \<Rightarrow> volume_db set \<Rightarrow> bool" where
  "stops_with m w ops vols \<longleftrightarrow>
     (\<exists>err w'. m w = (Inl err, w') \<and> sx_ops w' \<in> ops \<and> sx_volumes w' \<in> vols)"

lemma stops_chain:
  "(\<And>x w1. m w = (x, w1) \<Longrightarrow> sx_ops w1 \<in> ops \<and> sx_volumes w1 \<in> vols) \<Longrightarrow>
   (\<And>x w1. m w = (Inr x, w1) \<Longrightarrow> stops_with (f x) w1 ops vols) \<Longrightarrow> stops_with (chain m f) w ops vols"
  by (cases "m w"; cases "fst (m w)") (auto simp: stops_with_def chain_def)

lemma stops_call:
  "leaves_tables m \<Longrightarrow> (\<And>w1 x. m w = (x, w1) \<Longrightarrow> sx_ops w1 = sx_ops w \<Longrightarrow> sx_volumes w1 = sx_volumes w \<Longrightarrow>
     stops_with (f x) w1 ops vols) \<Longrightarrow> stops_with (attempt m f) w ops vols"
  by (cases "m w") (auto simp: stops_with_def attempt_def leaves_tables_def dest: spec [of _ w])

lemma stops_hopeless:
  "deposed F (sx_outer w) \<Longrightarrow> hopeless (deposed_with F (sx_ops w) (sx_volumes w)) m \<Longrightarrow>
   sx_ops w \<in> ops \<Longrightarrow> sx_volumes w \<in> vols \<Longrightarrow> stops_with m w ops vols"
  using hopelessD [of "deposed_with F (sx_ops w) (sx_volumes w)" m w]
  by (auto simp: stops_with_def deposed_with_def)

lemma stops_assert:
  assumes "sx_ops w \<in> ops" "sx_volumes w \<in> vols"
    and "\<And>w1. sx_ops w1 = sx_ops w \<Longrightarrow> sx_volumes w1 = sx_volumes w \<Longrightarrow> stops_with (f ()) w1 ops vols"
  shows "stops_with (chain (wf_assert (with_local_fence F W) epoch) f) w ops vols"
  using assms fence_left(2) [OF local_fence_leaves_tables] by (intro stops_chain) (auto; metis)+

lemma stops_reading:
  "leaves_tables m \<Longrightarrow> sx_ops w \<in> ops \<Longrightarrow> sx_volumes w \<in> vols \<Longrightarrow>
   (\<And>x w1. sx_ops w1 = sx_ops w \<Longrightarrow> sx_volumes w1 = sx_volumes w \<Longrightarrow> stops_with (f x) w1 ops vols) \<Longrightarrow>
   stops_with (chain m f) w ops vols"
  by (rule stops_chain) (auto simp: leaves_tables_def dest: spec [of _ w])

lemma leaves_tables_pure:
  "leaves_tables (from_option e x)" "leaves_tables (lift_result y)" "leaves_tables (done_with z)"
  "leaves_tables (read_volume i)"
  by (auto simp: leaves_tables_def from_option_def lift_result_def done_with_def fail_with_def
      read_volume_def reads_def split: option.split sum.split)

text \<open>A call that answers, leaving the tables alone.\<close>

definition passes :: "('x, 'e, 'a) storage_call \<Rightarrow> bool" where
  "passes m \<longleftrightarrow> leaves_tables m \<and> (\<forall>w. \<exists>x. fst (m w) = Inr x)"

lemma hopeless_fail: "hopeless Q (fail_with e)"
  by (simp add: upholds_def fail_with_def)

lemma hopeless_after_lift:
  "(\<And>x. hopeless (deposed_with F ops vols) (f x)) \<Longrightarrow>
   hopeless (deposed_with F ops vols) (chain (lift_result y) f)"
  "(\<And>x. hopeless (deposed_with F ops vols) (f x)) \<Longrightarrow>
   hopeless (deposed_with F ops vols) (chain (done_with z) f)"
  by (rule hopeless_after; auto simp: upholds_def lift_result_def done_with_def fail_with_def split: sum.split)+

lemma hopeless_endings:
  "hopeless (deposed_with F ops vols) (leave_unknown (with_local_fence F W) epoch c r e)"
  "hopeless (deposed_with F ops vols) (leave_failed (with_local_fence F W) epoch c r e)"
  "hopeless (deposed_with F ops vols) (finish_success (with_local_fence F W) c r epoch)"
  "hopeless (deposed_with F ops vols) (finish_detached (with_local_fence F W) c r epoch)"
  "hopeless (deposed_with F ops vols) (execute_detach (with_local_fence F W) c r env epoch)"
  "hopeless (deposed_with F ops vols) (execute_attach (with_local_fence F W) env c r g epoch)"
  by (simp_all add: leave_unknown_def leave_failed_def finish_success_def finish_detached_def
      execute_detach_def execute_attach_def hopeless_assert)

lemma stops_loss:
  assumes "loses_lease F m" "sx_ops w \<in> ops" "sx_volumes w \<in> vols"
    and "\<And>x o' v. hopeless (deposed_with F o' v) (f x)"
  shows "stops_with (attempt m f) w ops vols"
proof -
  obtain x w1 where m: "m w = (x, w1)" by (cases "m w")
  have "deposed F (sx_outer w1)" using assms(1) m unfolding loses_lease_def by (metis snd_conv)
  moreover have "sx_ops w1 = sx_ops w" "sx_volumes w1 = sx_volumes w"
    using assms(1) m unfolding loses_lease_def leaves_tables_def by (metis snd_conv)+
  ultimately have "stops_with (f x) w1 ops vols"
    using assms(2-4) by (intro stops_hopeless) simp_all
  then show ?thesis by (simp add: stops_with_def attempt_def m)
qed

lemma stops_start:
  assumes "\<And>c' w1. sx_ops w1 = command_started c (sx_ops w) \<Longrightarrow> sx_volumes w1 = sx_volumes w \<Longrightarrow>
      stops_with (f c') w1 {sx_ops w, command_started c (sx_ops w)} vols"
    and "sx_volumes w \<in> vols"
  shows "stops_with (chain (wf_assert (with_local_fence F W) epoch) (\<lambda>_. chain (move_command c CmdRunning 1 1) f)) w
    {sx_ops w, command_started c (sx_ops w)} vols"
proof (rule stops_assert)
  fix w1 :: "fence_world storage_world"
  assume w1: "sx_ops w1 = sx_ops w" "sx_volumes w1 = sx_volumes w"
  show "stops_with (chain (move_command c CmdRunning 1 1) f) w1 {sx_ops w, command_started c (sx_ops w)} vols"
    using w1 assms by (intro stops_chain) (auto dest!: started)
qed (use assms(2) in simp_all)

lemma attach_stops:
  assumes "\<And>q. loses_lease F (wf_prepare W q)"
  shows "stops_with (execute_attach (with_local_fence F W) e c r g epoch) w
    {sx_ops w, command_started c (sx_ops w)} {sx_volumes w}"
  unfolding execute_attach_def local_fence_calls
  by (intro stops_start stops_loss [OF assms])
    (auto simp: hopeless_endings hopeless_assert split: sum.split)

lemma stops_passing:
  assumes "passes m"
    and "\<And>y w1. sx_ops w1 = sx_ops w \<Longrightarrow> sx_volumes w1 = sx_volumes w \<Longrightarrow> stops_with (f (Inr y)) w1 ops vols"
  shows "stops_with (attempt m f) w ops vols"
proof (rule stops_call)
  show "leaves_tables m" using assms(1) by (simp add: passes_def)
next
  fix w1 x assume m: "m w = (x, w1)" and same: "sx_ops w1 = sx_ops w" "sx_volumes w1 = sx_volumes w"
  obtain y where "x = Inr y" using assms(1) m unfolding passes_def by (metis fst_conv)
  with assms(2) [OF same] show "stops_with (f x) w1 ops vols" by simp
qed

lemma attach_stops_later:
  assumes prepares: "\<And>q. passes (wf_prepare W q)" and loses: "\<And>a p. loses_lease F (wf_attach W a p)"
  shows "stops_with (execute_attach (with_local_fence F W) e c r g epoch) w
    {sx_ops w, command_started c (sx_ops w)} {sx_volumes w, attachment_moved r AttAttaching (sx_volumes w)}"
  unfolding execute_attach_def local_fence_calls
  apply (rule stops_start)
   apply (rule stops_passing [OF prepares])
   apply (unfold sum.case)
   apply (rule stops_assert)
     apply simp
    apply simp
   apply (rule stops_chain)
    apply (auto dest!: moved) [1]
   apply (rule stops_loss [OF loses])
     apply (auto dest!: moved) [2]
   apply (auto simp: hopeless_endings split: sum.split compute_attachment_error.split)
  done

lemma detach_stops:
  assumes "\<And>a. loses_lease F (wf_detach W a)"
  shows "stops_with (execute_detach (with_local_fence F W) c r e epoch) w
    {sx_ops w, command_started c (sx_ops w)} {sx_volumes w}"
  unfolding execute_detach_def local_fence_calls
  by (intro stops_start stops_loss [OF assms])
    (auto simp: hopeless_endings hopeless_assert split: sum.split compute_attachment_error.split)

lemma detach_stops_later:
  assumes detaches: "\<And>a. passes (wf_detach W a)" and loses: "\<And>q. loses_lease F (wf_terminate W q)"
  shows "stops_with (execute_detach (with_local_fence F W) c r e epoch) w
    {sx_ops w, command_started c (sx_ops w)} {sx_volumes w}"
  unfolding execute_detach_def local_fence_calls
  apply (rule stops_start)
   apply (rule stops_passing [OF detaches])
   apply (unfold sum.case)
   apply (rule stops_assert)
     apply simp
    apply simp
   apply (rule stops_reading [OF leaves_tables_pure(4)])
     apply simp
    apply simp
   apply (rule stops_loss [OF loses])
     apply simp
    apply simp
   apply (auto simp: hopeless_endings split: sum.split)
  done

lemma reconcile_detach_stops:
  assumes inspects: "\<And>q. leaves_tables (wf_inspect W q)" and loses: "\<And>a. loses_lease F (wf_observe W a)"
  shows "stops_with (reconcile_detach (with_local_fence F W) c r epoch) w {sx_ops w} {sx_volumes w}"
  unfolding reconcile_detach_def local_fence_calls
  apply (rule stops_reading [OF leaves_tables_pure(1)])
    apply simp
   apply simp
  apply (rule stops_reading [OF leaves_tables_pure(4)])
    apply simp
   apply simp
  apply (rule stops_call [OF inspects])
  apply (rule stops_loss [OF loses])
    apply simp
   apply simp
  apply (auto simp: hopeless_endings hopeless_fail split: sum.split compute_attachment_error.split
      intro!: hopeless_after_lift)
  done

text \<open>
  C29: A deposed worker writes nothing more. Let the lease of the storage work pass to another
  controller during a call of an attempt: while the provider prepares an attachment, while the
  executor makes it after the preparation succeeded, while the executor detaches, while the
  provider terminates after the detach succeeded; or while a reconciled detach is observed. Then,
  with whatever the call answers, the handler ends in an error, and it wrote nothing after the
  call: of the operations and commands at most that the command was started before the call, of
  the volumes at most that the attachment was moved to attaching before the executor was called.
  The reconciliation of an attach is another matter (\<open>deposed_reconciliation_writes\<close>).
\<close>

theorem deposed_worker_writes_nothing:
  "((\<forall>q. loses_lease F (wf_prepare W q)) \<longrightarrow>
      stops_with (execute_attach (with_local_fence F W) e c r g epoch) w
        {sx_ops w, command_started c (sx_ops w)} {sx_volumes w})
    \<and> ((\<forall>q. passes (wf_prepare W q)) \<and> (\<forall>a p. loses_lease F (wf_attach W a p)) \<longrightarrow>
      stops_with (execute_attach (with_local_fence F W) e c r g epoch) w
        {sx_ops w, command_started c (sx_ops w)}
        {sx_volumes w, attachment_moved r AttAttaching (sx_volumes w)})
    \<and> ((\<forall>a. loses_lease F (wf_detach W a)) \<longrightarrow>
      stops_with (execute_detach (with_local_fence F W) c r e epoch) w
        {sx_ops w, command_started c (sx_ops w)} {sx_volumes w})
    \<and> ((\<forall>a. passes (wf_detach W a)) \<and> (\<forall>q. loses_lease F (wf_terminate W q)) \<longrightarrow>
      stops_with (execute_detach (with_local_fence F W) c r e epoch) w
        {sx_ops w, command_started c (sx_ops w)} {sx_volumes w})
    \<and> ((\<forall>q. leaves_tables (wf_inspect W q)) \<and> (\<forall>a. loses_lease F (wf_observe W a)) \<longrightarrow>
      stops_with (reconcile_detach (with_local_fence F W) c r epoch) w {sx_ops w} {sx_volumes w})"
  by (simp add: attach_stops attach_stops_later detach_stops detach_stops_later reconcile_detach_stops)

text \<open>
  The reconciliation of an attach has no assertion between its inspections and its next writes.
  When the lease passes during them, the attachment is still moved to preparing and the command
  to retryable; only the attempt that follows is stopped by the fence.
\<close>

lemma hopeless_from_command:
  "hopeless (deposed_with F ops vols) (execute_attach_from_command (with_local_fence F W) c r g epoch)"
  unfolding execute_attach_from_command_def
proof (rule hopeless_after)
  show "upholds (deposed_with F ops vols) (from_option WInvalidIntent x) (\<lambda>_. True)" for x :: "'b option"
    by (auto simp: upholds_def from_option_def done_with_def fail_with_def split: option.split)
qed (rule hopeless_endings)

lemma deposed_reconciliation_writes:
  assumes read: "read_volume (a_volume (at_attachment r)) w = (Inr v, w0)"
    and inspected: "wf_inspect W (attachment_request_of (at_attachment r) (v_generation (vo_volume v)) e) w0
      = (Inr ob, w1)" "\<not> ob_attached ob"
    and observed: "wf_observe W (at_attachment r) w1 = (Inr False, w2)" "deposed F (sx_outer w2)"
    and moved: "a_state (at_attachment r) = AttUnknown" "move_attachment r AttPreparing w2 = (Inr r', w3)"
    and command: "move_command c CmdRetryable (max (c_accepted c) 1) 3 w3 = (Inr c', w4)"
  shows "stops_with (reconcile_attach (with_local_fence F W) c e r epoch) w {sx_ops w4} {sx_volumes w4}"
proof -
  have outer: "sx_outer w3 = sx_outer w2" "sx_outer w4 = sx_outer w3"
    using moved(2) command
    by (auto simp: move_attachment_def move_command_def chain_def lift_result_def on_volumes_def on_ops_def
        fail_with_def done_with_def split: prod.splits sum.splits)
  have "reconcile_attach (with_local_fence F W) c e r epoch w =
      execute_attach_from_command (with_local_fence F W) c' r' (v_generation (vo_volume v)) epoch w4"
    using assms by (simp add: reconcile_attach_def chain_def attempt_def local_fence_calls)
  moreover have "stops_with (execute_attach_from_command (with_local_fence F W) c' r' g epoch) w4
      {sx_ops w4} {sx_volumes w4}" for g
    using observed(2) outer by (intro stops_hopeless [where F = F] hopeless_from_command) simp_all
  ultimately show ?thesis by (simp add: stops_with_def)
qed

section \<open>Two controllers\<close>

text \<open>Pauses in which the holder of a live lease is not disturbed.\<close>

definition leaves_holder :: "lease_row \<Rightarrow> pause \<Rightarrow> bool" where
  "leaves_holder r p \<longleftrightarrow> \<not> lease_expired (pz_read p) r
     \<and> (\<forall>h\<in>set (pz_happenings p). \<forall>x. h = Elsewhere x \<longrightarrow> harmless storage_work_key r x)"

lemma other_holder_not_ours:
  "leases db storage_work_key = Some r \<Longrightarrow> (sf_controller F, sf_epoch F) \<noteq> (lease_owner r, lease_epoch r) \<Longrightarrow>
   not_ours F token db"
  by (auto simp: not_ours_def holds_lease_def)

lemma holder_stays:
  assumes "leases (fw_db s) storage_work_key = Some r" "\<forall>h\<in>set hs. \<forall>x. h = Elsewhere x \<longrightarrow> harmless storage_work_key r x"
    and "(sf_controller F, sf_epoch F) \<noteq> (lease_owner r, lease_epoch r)"
  shows "leases (fw_db (foldl (happens F) s hs)) storage_work_key = Some r"
  using assms(1,2)
proof (induction hs arbitrary: s)
  case (Cons h hs)
  have "leases (fw_db (happens F s h)) storage_work_key = Some r"
  proof (cases h)
    case (Elsewhere x)
    then show ?thesis using Cons.prems harmless_step by simp
  next
    case (Renewal t rep)
    have "renewing F token t (fw_db s) = (False, fw_db s)" for token
      using other_holder_not_ours [OF Cons.prems(1) assms(3)] by simp
    then show ?thesis using Cons.prems(1) Renewal
      by (auto simp: renewal_turn_def asked_def split: option.split reply.split)
  next
    case Quiesce
    then show ?thesis using Cons.prems(1) by simp
  qed
  then show ?case using Cons.IH Cons.prems(2) by simp
qed simp

text \<open>
  A second controller does not begin. While the lease of the storage work is held by another
  controller and not expired at any clock the fence reads, beginning an attempt fails, whatever
  the holder and third parties do that leaves the lease alone, and whatever answers are lost; the
  lease is still the holder's afterwards.
\<close>

theorem second_controller_does_not_begin:
  assumes "leases (fw_db s) storage_work_key = Some r"
    and "(sf_controller F, sf_epoch F) \<noteq> (lease_owner r, lease_epoch r)"
    and "fw_pauses s = p # q # ps" "leaves_holder r p" "leaves_holder r q"
  shows "fst (fence_begin F epoch s) = Inl WStaleControllerFence
    \<and> leases (fw_db (snd (fence_begin F epoch s))) storage_work_key = Some r"
proof -
  define s1 where "s1 = foldl (happens F) (s\<lparr>fw_pauses := q # ps\<rparr>) (pz_happenings p)"
  have pauses: "fw_pauses (foldl (happens F) s hs) = fw_pauses s" for s hs
  proof (induction hs arbitrary: s)
    case (Cons h hs)
    have "fw_pauses (happens F s h) = fw_pauses s"
      by (cases h) (auto simp: renewal_turn_def asked_def split: option.split reply.split prod.split bool.split)
    then show ?case using Cons.IH by simp
  qed simp
  have s1: "waited F s = (p, s1)" "fw_pauses s1 = q # ps" "leases (fw_db s1) storage_work_key = Some r"
    using assms holder_stays [of "s\<lparr>fw_pauses := q # ps\<rparr>"]
    by (simp_all add: waited_def s1_def pauses leaves_holder_def)
  define s2 where "s2 = foldl (happens F) (s1\<lparr>fw_attempt := Some pending_attempt, fw_pauses := ps\<rparr>) (pz_happenings q)"
  have s2: "waited F (s1\<lparr>fw_attempt := Some pending_attempt\<rparr>) = (q, s2)" "leases (fw_db s2) storage_work_key = Some r"
    using assms s1 holder_stays [of "s1\<lparr>fw_attempt := Some pending_attempt, fw_pauses := ps\<rparr>"]
    by (simp_all add: waited_def s2_def leaves_holder_def)
  have busy: "acquire_work_lease (pz_read q) t' (fw_db s2) storage_work_key kind (sf_controller F) (sf_epoch F) ttl
      = (Busy (lease_owner r) (lease_epoch r) (word_of_int (lease_token r)) (lease_created r) (lease_until r), fw_db s2)"
    for t' kind ttl
    using live_lease_excludes [OF s2(2), of "[]"] assms(2,5) by (simp add: leaves_holder_def)
  show ?thesis
    using assms(1) s1(3) s2(2)
    by (simp add: fence_begin_def s1(1) s2(1) busy asked_def stale_def split: reply.split)
qed

section \<open>Witnesses\<close>

definition fence_a :: storage_fence where
  "fence_a = \<lparr>sf_controller = ''a'', sf_epoch = ''e1'', sf_intent_epoch = 7\<rparr>"

definition fence_b :: storage_fence where
  "fence_b = \<lparr>sf_controller = ''b'', sf_epoch = ''e1'', sf_intent_epoch = 8\<rparr>"

definition pause_at :: "int \<Rightarrow> happening list \<Rightarrow> pause" where
  "pause_at t hs = quiet_pause\<lparr>pz_read := t, pz_written := t, pz_happenings := hs\<rparr>"

definition no_coordination :: coordination_db where
  "no_coordination = \<lparr>sessions = [], leases = (\<lambda>_. None), fence_counters = (\<lambda>_. None)\<rparr>"

definition world_at :: "coordination_db \<Rightarrow> lease_attempt option \<Rightarrow> pause list \<Rightarrow> fence_world" where
  "world_at db a ps = \<lparr>fw_db = db, fw_attempt = a, fw_quiescing = False, fw_pauses = ps\<rparr>"

definition begun :: fence_world where
  "begun = snd (fence_begin fence_a 7 (world_at no_coordination None
     [pause_at 1000 [], pause_at 1000 [], pause_at 1000 []]))"

lemma storage_lease_millis [simp]: "lease_ttl_millis storage_lease_ttl = 15000"
  by (simp add: lease_ttl_millis_def storage_lease_ttl_def)

lemmas fence_steps = fence_begin_def fence_assert_def waited_def asked_def renewing_def renewal_turn_def
  acquire_work_lease_def renew_work_lease_def work_lease_of_def holds_lease_def lease_expired_def stamp_less_def
  strftime_now_def datetime_now_def pause_at_def quiet_pause_def pending_attempt_def world_at_def fence_a_def

definition first_lease :: lease_row where
  "first_lease = \<lparr>lease_kind = ''storage-attachment'', lease_owner = ''a'', lease_epoch = ''e1'', lease_token = 1,
     lease_until = Millis 16000, lease_created = Secs 1, lease_updated = Secs 1\<rparr>"

lemma begun:
  "begun = world_at (no_coordination\<lparr>leases := [storage_work_key \<mapsto> first_lease],
       fence_counters := [storage_work_key \<mapsto> 1]\<rparr>)
     (Some \<lparr>la_token = 1, la_stop = True, la_renewal = True, la_task = True,
       la_renewal_failed = False, la_pending = False, la_valid = True\<rparr>) []"
  by (simp add: begun_def fence_steps no_coordination_def first_lease_def Let_def)

lemma begun_lease: "leases (fw_db begun) storage_work_key = Some first_lease"
  by (simp add: begun world_at_def)

theorem assertion_means_held_witness:
  "let s' = snd (fence_assert fence_a 7 (begun\<lparr>fw_pauses := [pause_at 5000 [Renewal 5000 Answered], pause_at 6000 []]\<rparr>))
   in map_option lease_until (leases (fw_db s') storage_work_key) = Some (Millis 21000)"
proof -
  let ?s = "begun\<lparr>fw_pauses := [pause_at 5000 [Renewal 5000 Answered], pause_at 6000 []]\<rparr>"
  let ?x = "fence_assert fence_a 7 ?s"
  have "fst ?x = Inr ()" by (simp add: begun fence_steps no_coordination_def first_lease_def)
  then have x: "?x = (Inr (), snd ?x)" by (metis prod.collapse)
  obtain p s1 where w1: "waited fence_a ?s = (p, s1)" by (cases "waited fence_a ?s")
  then have "fw_pauses s1 = [pause_at 6000 []]"
    by (auto simp: waited_def renewal_turn_def asked_def begun world_at_def pause_at_def quiet_pause_def
        split: prod.splits bool.splits)
  then have w2: "waited fence_a s1 = (pause_at 6000 [], s1\<lparr>fw_pauses := []\<rparr>)"
    by (simp add: waited_def pause_at_def quiet_pause_def)
  have "pz_read (pause_at 6000 []) = 6000" by (simp add: pause_at_def)
  then show ?thesis
    using assertion_means_held [OF x w1 w2] by (auto simp: strftime_now_def)
qed

theorem end_releases_own_lease_witness:
  "let s = begun; s' = snd (fence_end fence_a 7 s)
   in fw_db s' = fw_db s \<or> (\<exists>a. fw_attempt s = Some a \<and> own_lease_gone fence_a (la_token a) (fw_db s) (fw_db s'))"
proof -
  have "undisturbed begun" by (simp add: undisturbed_def begun world_at_def)
  from end_releases_own_lease [OF this] show ?thesis by (simp add: Let_def)
qed

theorem second_controller_does_not_begin_witness:
  "fst (fence_begin fence_b 8 (world_at (fw_db begun) None
     [pause_at 3000 [Elsewhere (Heartbeat 3000 ''a'' ''e1'' 1)], pause_at 9000 []])) = Inl WStaleControllerFence"
proof -
  let ?p = "pause_at 3000 [Elsewhere (Heartbeat 3000 ''a'' ''e1'' 1)]" and ?q = "pause_at 9000 []"
  have "leaves_holder first_lease ?p" "leaves_holder first_lease ?q"
    by (simp_all add: leaves_holder_def pause_at_def quiet_pause_def first_lease_def lease_expired_def
        stamp_less_def strftime_now_def)
  then show ?thesis
    using second_controller_does_not_begin [of "world_at (fw_db begun) None [?p, ?q]" first_lease fence_b ?p ?q "[]" 8]
    by (simp add: world_at_def [of "fw_db begun"] begun_lease fence_b_def first_lease_def)
qed

text \<open>The lease of the first controller has expired and the second took it over during the call.\<close>

definition taken_over :: fence_world where
  "taken_over = begun\<lparr>fw_db := snd (acquire_work_lease 17000 17000 (fw_db begun) storage_work_key
     ''storage-attachment'' ''b'' ''e1'' storage_lease_ttl), fw_pauses := []\<rparr>"

definition losing_workflow :: "fence_world workflow" where
  "losing_workflow = \<lparr>wf_begin = \<lambda>_. done_with (), wf_assert = \<lambda>_. done_with (), wf_end = \<lambda>_. done_with (),
     wf_prepare = \<lambda>_ w. (Inr sample_prepared, w\<lparr>sx_outer := taken_over\<rparr>),
     wf_inspect = \<lambda>_. done_with (sample_observation False), wf_terminate = \<lambda>_. done_with (sample_observation False),
     wf_attach = \<lambda>_ _. done_with (), wf_observe = \<lambda>_. done_with False, wf_detach = \<lambda>_. done_with (),
     wf_fingerprint = \<lambda>_. Some sample_fingerprint, wf_encode = \<lambda>e. Some ''attach'',
     wf_decode = \<lambda>s. Some (sample_envelope PrepareAttachment ''k1'' 1),
     wf_uuid5 = id, wf_parse_uuid = Some, wf_time = ''now''\<rparr>"

theorem deposed_worker_writes_nothing_witness:
  "stops_with (execute_attach (with_local_fence fence_a losing_workflow) (sample_envelope PrepareAttachment ''k1'' 1)
       interrupted_command \<lparr>at_attachment = sample_attachment, at_created = ''t''\<rparr> 1 7)
     \<lparr>sx_ops = empty_operations, sx_volumes = sample_volumes, sx_outer = begun\<rparr>
     {empty_operations, command_started interrupted_command empty_operations} {sample_volumes}"
proof -
  have "not_ours fence_a 1 (fw_db taken_over)"
    unfolding taken_over_def
    by (simp add: takeover_deposes [OF begun_lease] lease_expired_def stamp_less_def strftime_now_def
        first_lease_def fence_a_def)
  then have "deposed fence_a taken_over"
    by (simp add: deposed_def foreign_pauses_def taken_over_def begun world_at_def)
  then have "\<forall>q. loses_lease fence_a (wf_prepare losing_workflow q)"
    by (simp add: loses_lease_def leaves_tables_def losing_workflow_def)
  with deposed_worker_writes_nothing [THEN conjunct1, of fence_a losing_workflow
      "sample_envelope PrepareAttachment ''k1'' 1" interrupted_command
      "\<lparr>at_attachment = sample_attachment, at_created = ''t''\<rparr>" 1 7
      "\<lparr>sx_ops = empty_operations, sx_volumes = sample_volumes, sx_outer = begun\<rparr>"]
  show ?thesis by simp
qed

end
