(* ===== verification/Volume_Native.thy ===== *)
theory Volume_Native
  imports Volume_Fence
begin

text \<open>
  The attachments of the API on the workflow (\<open>NativeStorageAttachmentWorkflow\<close> in
  \<open>bins/o3kd/src/composition/storage.rs\<close> and the native branches of
  \<open>crates/o3k-api/src/volume_attachment.rs\<close>): the intent of an attachment with its deterministic
  key, attach, detach and the recovery pass; the creation of an attachment with its anchor in the
  journal, its deletion, listing and display. Authentication, the parsing of paths and the
  compatibility branch that calls Cinder are not part; whether the server is shown to the caller,
  the new identity and the clock are arguments. An error that is logged or turned into text keeps
  its value here.
  Lemmas: a refused anchor is compensated; a repeated request for a failed detach.
\<close>

section \<open>The workflow of the daemon\<close>

definition storage_intent_epoch :: "string \<Rightarrow> u64" where
  "storage_intent_epoch epoch =
     foldl (\<lambda>hash byte. hash * 0x100000001b3 + word_of_nat (of_char byte)) 0xcbf29ce484222325 epoch"

definition native_key :: "string \<Rightarrow> attachment \<Rightarrow> string" where
  "native_key operation a = ''native-'' @ operation @ '':'' @ a_id a"

definition native_storage_intent :: "attachment \<Rightarrow> string \<Rightarrow> u64 \<Rightarrow> storage_intent" where
  "native_storage_intent a operation epoch =
     \<lparr>si_attachment = a_id a, si_volume = a_volume a, si_server = a_server a, si_project = a_project a,
      si_mode = a_mode a, si_delete_on_termination = a_delete_on_termination a, si_controller_epoch = epoch,
      si_agent = ''local'', si_agent_epoch = 1, si_key = native_key operation a,
      si_trace = native_key operation a, si_deadline = ''2099-01-01T00:00:00.000''\<rparr>"

datatype native_error =
    NativeStore store_error
  | Disappeared
  | NativeWorkflow workflow_error

type_synonym ('x, 'a) native_act = "('x storage_world, native_error, 'a) effect"

definition lifted :: "('e \<Rightarrow> native_error) \<Rightarrow> ('x storage_world, 'e, 'a) effect \<Rightarrow> ('x, 'a) native_act" where
  "lifted f m w = (case m w of (x, w') \<Rightarrow> (map_sum f id x, w'))"

definition stored_attachment :: "string \<Rightarrow> ('x, attachment_record) native_act" where
  "stored_attachment i w =
     (case get_volume_attachment (sx_volumes w) i of
        Inl e \<Rightarrow> (Inl (NativeStore e), w)
      | Inr None \<Rightarrow> (Inl Disappeared, w)
      | Inr (Some r) \<Rightarrow> (Inr r, w))"

definition native_attach :: "'x workflow \<Rightarrow> u64 \<Rightarrow> string \<Rightarrow> ('x, unit) native_act" where
  "native_attach W epoch i =
     chain (stored_attachment i) (\<lambda>r.
     chain (lifted NativeWorkflow (attach_volume W (native_storage_intent (at_attachment r) ''attach'' epoch))) (\<lambda>_.
     done_with ()))"

definition native_detach :: "'x workflow \<Rightarrow> u64 \<Rightarrow> string \<Rightarrow> ('x, unit) native_act" where
  "native_detach W epoch i =
     chain (stored_attachment i) (\<lambda>r.
     chain (lifted NativeWorkflow (detach_volume W (native_storage_intent (at_attachment r) ''detach'' epoch))) (\<lambda>_.
     done_with ()))"

text \<open>The recovery pass keeps the first error and goes on; a failing read of a row ends it.\<close>

fun recover_each ::
  "'x workflow \<Rightarrow> u64 \<Rightarrow> workflow_error option \<Rightarrow> agent_command list \<Rightarrow> ('x, unit) native_act" where
  "recover_each W epoch first [] w =
     (case first of None \<Rightarrow> Inr () | Some e \<Rightarrow> Inl (NativeWorkflow e), w)"
| "recover_each W epoch first (c # cs) w =
     (if wf_decode W (c_payload c) = None then recover_each W epoch first cs w
      else case get_volume_attachment (sx_volumes w) (c_resource c) of
          Inl e \<Rightarrow> (Inl (NativeStore e), w)
        | Inr None \<Rightarrow> recover_each W epoch first cs w
        | Inr (Some _) \<Rightarrow>
            (case reconcile_command W (c_id c) epoch w of
               (Inl e, w') \<Rightarrow> recover_each W epoch (if first = None then Some e else first) cs w'
             | (Inr _, w') \<Rightarrow> recover_each W epoch first cs w'))"

definition native_recover :: "'x workflow \<Rightarrow> u64 \<Rightarrow> ('x, unit) native_act" where
  "native_recover W epoch w = recover_each W epoch None (list_recoverable_agent_commands (sx_ops w)) w"

section \<open>The API\<close>

datatype http_status =
    Ok200 | Accepted202 | NoContent204 | BadRequest400 | NotFound404 | Conflict409 | Unavailable503

definition new_attachment :: "string \<Rightarrow> string \<Rightarrow> string \<Rightarrow> string \<Rightarrow> bool \<Rightarrow> attachment" where
  "new_attachment i project volume server keep =
     \<lparr>a_id = i, a_project = project, a_volume = volume, a_server = server, a_scope = ScopeHost ''local'',
      a_mode = ReadWrite, a_delete_on_termination = keep, a_state = AttReserved, a_generation = 1,
      a_operation = None\<rparr>"

definition attachment_anchor :: "attachment \<Rightarrow> resource_record" where
  "attachment_anchor a =
     \<lparr>r_id = a_id a, r_kind = ''native_volume_attachment'', r_project = a_project a,
      r_generation = sint (a_generation a), r_observed_generation = sint (a_generation a),
      r_desired = ''attached'', r_observed = ''reserved'', r_provider = None\<rparr>"

text \<open>\<open>None\<close> is a deployment without the native workflow.\<close>

definition create_native_attachment ::
  "'x workflow option \<Rightarrow> u64 \<Rightarrow> bool \<Rightarrow> string \<Rightarrow> string \<Rightarrow> string \<Rightarrow> string \<Rightarrow> string \<Rightarrow> bool
   \<Rightarrow> 'x storage_world \<Rightarrow> (http_status, attachment_record) rust_result \<times> 'x storage_world" where
  "create_native_attachment native epoch shown project server volume i now keep w =
     (case native of
        None \<Rightarrow> (Inl Unavailable503, w)
      | Some W \<Rightarrow>
     (if \<not> shown then (Inl NotFound404, w)
      else case get_volume (sx_volumes w) volume of
          Inl _ \<Rightarrow> (Inl Unavailable503, w)
        | Inr None \<Rightarrow> (Inl NotFound404, w)
        | Inr (Some v) \<Rightarrow>
     (if v_project (vo_volume v) \<noteq> project \<or> v_state (vo_volume v) \<noteq> VolAvailable then (Inl Conflict409, w)
      else let a = new_attachment i project (v_id (vo_volume v)) server keep;
               r = \<lparr>at_attachment = a, at_created = now\<rparr>
        in case insert_volume_attachment r (sx_volumes w) of
            (Inl _, db) \<Rightarrow> (Inl Conflict409, w\<lparr>sx_volumes := db\<rparr>)
          | (Inr _, db) \<Rightarrow>
     (case insert_resource (attachment_anchor a) (sx_ops w) of
        (Inl _, ops) \<Rightarrow>
          (Inl Unavailable503, w\<lparr>sx_ops := ops, sx_volumes := snd (delete_volume_attachment project i db)\<rparr>)
      | (Inr _, ops) \<Rightarrow>
     (case native_attach W epoch i (w\<lparr>sx_ops := ops, sx_volumes := db\<rparr>) of
        (Inl _, w') \<Rightarrow> (Inl Unavailable503, w')
      | (Inr _, w') \<Rightarrow>
          (case get_volume_attachment (sx_volumes w') i of
             Inr (Some r') \<Rightarrow> (Inr r', w')
           | _ \<Rightarrow> (Inl Unavailable503, w')))))))"

definition delete_native_attachment ::
  "'x workflow option \<Rightarrow> u64 \<Rightarrow> string \<Rightarrow> string \<Rightarrow> string \<Rightarrow> 'x storage_world \<Rightarrow> http_status \<times> 'x storage_world"
  where
  "delete_native_attachment native epoch project server i w =
     (case get_volume_attachment (sx_volumes w) i of
        Inr (Some r) \<Rightarrow>
          if a_project (at_attachment r) \<noteq> project \<or> a_server (at_attachment r) \<noteq> server then (NotFound404, w)
          else (case native of
              None \<Rightarrow> (Unavailable503, w)
            | Some W \<Rightarrow>
                (case native_detach W epoch (a_id (at_attachment r)) w of
                   (Inl _, w') \<Rightarrow> (Unavailable503, w')
                 | (Inr _, w') \<Rightarrow> (NoContent204, w')))
      | _ \<Rightarrow> (NotFound404, w))"

definition list_native_attachments ::
  "volume_db \<Rightarrow> string \<Rightarrow> string \<Rightarrow> (http_status, attachment_record list) rust_result" where
  "list_native_attachments db project server =
     (case list_volume_attachments db project of
        Inl _ \<Rightarrow> Inl Unavailable503
      | Inr rs \<Rightarrow> Inr (filter (\<lambda>r. a_server (at_attachment r) = server \<and> a_state (at_attachment r) = AttAttached) rs))"

definition show_native_attachment ::
  "volume_db \<Rightarrow> string \<Rightarrow> string \<Rightarrow> string \<Rightarrow> (http_status, attachment_record) rust_result" where
  "show_native_attachment db project server i =
     (case get_volume_attachment db i of
        Inr (Some r) \<Rightarrow>
          if a_project (at_attachment r) = project \<and> a_server (at_attachment r) = server
             \<and> a_state (at_attachment r) = AttAttached
          then Inr r else Inl NotFound404
      | _ \<Rightarrow> Inl NotFound404)"

section \<open>What the API promises\<close>

text \<open>A key whose command is in the tables is answered from them, without a call.\<close>

lemma replayed:
  assumes "fence_passes W (si_controller_epoch i)" "intent_validate i = None" "wf_fingerprint W i = Some fp"
    and "get_agent_command_by_key (sx_ops w) (si_key i) = Inr c" "c_fingerprint c = fp"
    and "found (get_volume_attachment (sx_volumes w) (c_resource c)) = Inr r"
  shows "detach_volume W i w = (Inr (outcome_of c r), w)"
proof -
  have fence: "wf_begin W (si_controller_epoch i) w = (Inr (), w)" "wf_assert W (si_controller_epoch i) w = (Inr (), w)"
    "wf_end W (si_controller_epoch i) w = (Inr (), w)"
    using assms(1) by (simp_all add: fence_passes_def)
  have "detach_inner W i w = (Inr (outcome_of c r), w)"
    using assms(2-6) fence(2)
    by (simp add: detach_inner_def with_fresh_key_def chain_def done_with_def from_option_def attempt_def reads_def
        replay_existing_def read_attachment_def outcome_of_def)
  then show ?thesis
    using fence by (simp add: detach_volume_def fenced_def chain_def attempt_def done_with_def)
qed

text \<open>
  C31: A request to delete an attachment is confirmed although its detach failed. Let a command of
  the attachment's detach be in the tables, with the fingerprint of the same intent and in
  whatever state, and let the attachment be in whatever state, for instance failed, with the
  device on the host. Then deleting the attachment answers that it is gone, without a call to the
  host or the provider and without a change of any table.
\<close>

theorem failed_detach_confirmed:
  assumes "fence_passes W epoch" "get_volume_attachment (sx_volumes w) i = Inr (Some r)"
    and "a_project (at_attachment r) = project" "a_server (at_attachment r) = server"
    and "intent_validate (native_storage_intent (at_attachment r) ''detach'' epoch) = None"
    and "wf_fingerprint W (native_storage_intent (at_attachment r) ''detach'' epoch) = Some fp"
    and "get_agent_command_by_key (sx_ops w) (native_key ''detach'' (at_attachment r)) = Inr c"
    and "c_fingerprint c = fp" "c_resource c = i"
  shows "delete_native_attachment (Some W) epoch project server i w = (NoContent204, w)"
proof -
  let ?i = "native_storage_intent (at_attachment r) ''detach'' epoch"
  have id: "a_id (at_attachment r) = i"
    using assms(2) by (auto simp: get_volume_attachment_def attachment_from_row_def Let_def find_Some_iff
        split: option.splits if_splits)
  have "detach_volume W ?i w = (Inr (outcome_of c r), w)"
    by (rule replayed) (use assms in \<open>simp_all add: native_storage_intent_def found_def\<close>)
  then show ?thesis
    using assms(2-4) id
    by (simp add: delete_native_attachment_def native_detach_def stored_attachment_def chain_def lifted_def done_with_def)
qed

lemma inserted_then_deleted:
  assumes "insert_volume_attachment x db = (Inr u, db')"
  shows "snd (delete_volume_attachment (a_project (at_attachment x)) (a_id (at_attachment x)) db') = db"
proof -
  let ?a = "at_attachment x"
  obtain g where g: "i64_of_u64 (a_generation ?a) = Some g"
    using assms by (cases "i64_of_u64 (a_generation ?a)") (auto simp: insert_volume_attachment_def Let_def split: if_splits)
  define row where "row = \<lparr>ar_id = a_id ?a, ar_project = a_project ?a, ar_volume = a_volume ?a,
    ar_server = a_server ?a, ar_scope = a_scope ?a, ar_generation = g,
    ar_state = attachment_state_name (a_state ?a), ar_payload = ?a, ar_created = at_created x\<rparr>"
  have new: "\<not> list_ex (\<lambda>r. ar_id r = a_id ?a) (attachment_rows db)"
    and db': "db' = db\<lparr>attachment_rows := attachment_rows db @ [row]\<rparr>"
    using assms g by (auto simp: insert_volume_attachment_def Let_def row_def list_ex_iff split: if_splits)
  from new have "filter (\<lambda>r. \<not> (ar_id r = a_id ?a \<and> ar_project r = a_project ?a)) (attachment_rows db) = attachment_rows db"
    by (auto simp: list_ex_iff filter_id_conv)
  then show ?thesis
    by (simp add: delete_volume_attachment_def db' row_def)
qed

lemma refused_insert:
  "insert_volume_attachment x db = (Inl e, db') \<Longrightarrow> db' = db" "insert_resource r ops = (Inl e, ops') \<Longrightarrow> ops' = ops"
  by (auto simp: insert_volume_attachment_def insert_resource_def Let_def split: if_splits option.splits)

text \<open>
  An attachment whose anchor is refused is taken back. If the journal does not take the
  resource of the new attachment, the request is answered by an error and the tables are as they
  were before it, whatever else was refused; no call was made.
\<close>

theorem refused_anchor_compensated:
  assumes "insert_resource (attachment_anchor (new_attachment i project volume server keep)) (sx_ops w) = (Inl e, ops)"
  shows "\<exists>s. create_native_attachment native epoch shown project server volume i now keep w = (Inl s, w)"
proof -
  have same: "w\<lparr>sx_volumes := sx_volumes w\<rparr> = w" "w\<lparr>sx_ops := sx_ops w, sx_volumes := sx_volumes w\<rparr> = w"
    by simp_all
  have volume: "v_id (vo_volume v) = volume" if "get_volume (sx_volumes w) volume = Inr (Some v)" for v
    using that by (auto simp: get_volume_def volume_from_row_def Let_def find_Some_iff split: option.splits if_splits)
  have undone: "snd (delete_volume_attachment project i db) = sx_volumes w"
    if "insert_volume_attachment \<lparr>at_attachment = new_attachment i project volume server keep, at_created = now\<rparr>
          (sx_volumes w) = (Inr u, db)" for u db
    using inserted_then_deleted [OF that] by (simp add: new_attachment_def)
  show ?thesis
    using assms refused_insert(2) [OF assms]
    by (auto simp: create_native_attachment_def Let_def volume undone same dest: refused_insert(1)
        split: option.split sum.split prod.split)
qed

section \<open>Witnesses\<close>

definition native_volumes :: volume_db where
  "native_volumes = snd (insert_volume \<lparr>vo_volume = sample_volume, vo_created = ''t''\<rparr> no_volumes)"

definition native_world :: "string list storage_world" where
  "native_world = \<lparr>sx_ops = empty_operations, sx_volumes = native_volumes, sx_outer = []\<rparr>"

theorem refused_anchor_compensated_witness:
  "\<exists>s. create_native_attachment (Some (sample_workflow False)) 7 True ''p1'' ''s1'' ''v1'' ''a1'' ''t'' False
      (native_world\<lparr>sx_ops := put_resource (attachment_anchor (new_attachment ''a1'' ''p1'' ''v9'' ''s1'' False))
        empty_operations\<rparr>)
    = (Inl s, native_world\<lparr>sx_ops := put_resource (attachment_anchor (new_attachment ''a1'' ''p1'' ''v9'' ''s1'' False))
        empty_operations\<rparr>)"
proof -
  let ?ops = "put_resource (attachment_anchor (new_attachment ''a1'' ''p1'' ''v9'' ''s1'' False)) empty_operations"
  have "insert_resource (attachment_anchor (new_attachment ''a1'' ''p1'' ''v1'' ''s1'' False)) ?ops
      = (Inl ResourceAlreadyExists, ?ops)"
    by (simp add: insert_resource_def attachment_anchor_def new_attachment_def put_resource_def)
  then show ?thesis
    using refused_anchor_compensated [of "''a1''" "''p1''" "''v1''" "''s1''" False "native_world\<lparr>sx_ops := ?ops\<rparr>"] by simp
qed

text \<open>A host that refuses every detach.\<close>

definition failing_workflow :: "string list workflow" where
  "failing_workflow = (sample_workflow True)\<lparr>wf_detach := \<lambda>_. logged ''detach'' (Inl CeFailed)\<rparr>"

definition failed_world :: "string list storage_world" where
  "failed_world = snd (delete_native_attachment (Some failing_workflow) 7 ''p1'' ''s1'' ''a1''
     (snd (create_native_attachment (Some (sample_workflow True)) 7 True ''p1'' ''s1'' ''v1'' ''a1'' ''t'' False native_world)))"

lemma failed_first:
  "fst (delete_native_attachment (Some failing_workflow) 7 ''p1'' ''s1'' ''a1''
     (snd (create_native_attachment (Some (sample_workflow True)) 7 True ''p1'' ''s1'' ''v1'' ''a1'' ''t'' False native_world)))
   = Unavailable503"
  by code_simp

theorem failed_detach_confirmed_witness:
  "delete_native_attachment (Some failing_workflow) 7 ''p1'' ''s1'' ''a1'' failed_world = (NoContent204, failed_world)
   \<and> map ar_state (attachment_rows (sx_volumes failed_world)) = [''error'']"
proof
  have "case get_volume_attachment (sx_volumes failed_world) ''a1'' of
      Inr (Some r) \<Rightarrow> a_project (at_attachment r) = ''p1'' \<and> a_server (at_attachment r) = ''s1''
        \<and> a_id (at_attachment r) = ''a1''
        \<and> intent_validate (native_storage_intent (at_attachment r) ''detach'' 7) = None
    | _ \<Rightarrow> False" by code_simp
  then obtain r where r: "get_volume_attachment (sx_volumes failed_world) ''a1'' = Inr (Some r)"
    "a_project (at_attachment r) = ''p1''" "a_server (at_attachment r) = ''s1''" "a_id (at_attachment r) = ''a1''"
    "intent_validate (native_storage_intent (at_attachment r) ''detach'' 7) = None"
    by (auto split: sum.splits option.splits)
  have "case get_agent_command_by_key (sx_ops failed_world) ''native-detach:a1'' of
      Inr c \<Rightarrow> c_fingerprint c = sample_fingerprint \<and> c_resource c = ''a1'' | _ \<Rightarrow> False" by code_simp
  then obtain c where c: "get_agent_command_by_key (sx_ops failed_world) ''native-detach:a1'' = Inr c"
    "c_fingerprint c = sample_fingerprint" "c_resource c = ''a1''"
    by (auto split: sum.splits)
  show "delete_native_attachment (Some failing_workflow) 7 ''p1'' ''s1'' ''a1'' failed_world = (NoContent204, failed_world)"
    by (rule failed_detach_confirmed [OF _ r(1-3,5) _ _ c(2,3)])
      (simp_all add: fence_passes_def failing_workflow_def sample_workflow_def done_with_def native_key_def r(4) c(1))
  show "map ar_state (attachment_rows (sx_volumes failed_world)) = [''error'']" by code_simp
qed

end
