(* ===== verification/Keyset_Paging.thy ===== *)
theory Keyset_Paging
  imports Rust_Prelude
begin

text \<open>
  Pages of a listing in the order of a key: a page holds the rows after a key, one more is asked
  for than is handed out, and a further row makes the last key handed out the continuation
  (\<open>RepositoryPage\<close> in \<open>crates/o3k-store/src/port/durable.rs\<close> and the listings that use it).
  The lemma shows what a client that follows the continuations gets: every row once, in order.
\<close>

record ('k, 'a) page =
  page_items :: "'a list"
  page_more :: bool
  page_next :: "'k option"

text \<open>\<open>SELECT ... WHERE key > after ORDER BY key LIMIT n\<close>.\<close>

definition rows_after :: "('a \<Rightarrow> 'k::linorder) \<Rightarrow> 'k option \<Rightarrow> 'a list \<Rightarrow> 'a list" where
  "rows_after key after xs =
     filter (\<lambda>x. case after of None \<Rightarrow> True | Some k \<Rightarrow> k < key x) (sort_key key xs)"

definition page_of :: "('a \<Rightarrow> 'k) \<Rightarrow> nat \<Rightarrow> 'a list \<Rightarrow> ('k, 'a) page" where
  "page_of key n rows =
     (let more = n < length rows
      in \<lparr>page_items = take n rows, page_more = more,
          page_next = (if more then Some (key (rows ! (n - 1))) else None)\<rparr>)"

text \<open>A client that follows the continuations; the fuel bounds the pages it asks for.\<close>

fun follow :: "('k option \<Rightarrow> ('e, ('k, 'a) page) rust_result) \<Rightarrow> nat \<Rightarrow> 'k option \<Rightarrow> 'a list option" where
  "follow fetch 0 after = None"
| "follow fetch (Suc n) after =
     (case fetch after of
        Inl _ \<Rightarrow> None
      | Inr p \<Rightarrow>
          (case page_next p of
             None \<Rightarrow> Some (page_items p)
           | Some k \<Rightarrow> map_option ((@) (page_items p)) (follow fetch n (Some k))))"

lemma rows_after_None [simp]: "rows_after key None xs = sort_key key xs"
  by (simp add: rows_after_def)

lemma set_rows_after: "set (rows_after key after xs) = {x \<in> set xs. \<forall>k. after = Some k \<longrightarrow> k < key x}"
  by (auto simp: rows_after_def split: option.splits)

lemma distinct_keys_rows_after:
  assumes "distinct (map key xs)"
  shows "distinct (map key (rows_after key after xs))"
proof -
  have "distinct (map key (sort_key key xs))"
    using assms by (simp add: distinct_map) 
  then show ?thesis unfolding rows_after_def by (rule distinct_map_filter)
qed

lemma sorted_rows_after: "sorted (map key (rows_after key after xs))"
  unfolding rows_after_def by (rule sorted_filter) simp

text \<open>What follows the n-th row is what comes after its key.\<close>

lemma rows_after_nth:
  assumes "distinct (map key xs)" "0 < n" "n \<le> length (rows_after key after xs)"
  shows "rows_after key (Some (key (rows_after key after xs ! (n - 1)))) xs = drop n (rows_after key after xs)"
proof -
  let ?R = "rows_after key after xs" and ?k = "key (rows_after key after xs ! (n - 1))"
  have d: "distinct (map key ?R)" and s: "sorted (map key ?R)"
    using assms(1) by (simp_all add: distinct_keys_rows_after sorted_rows_after)
  have "?R ! (n - 1) \<in> set ?R" using assms(2,3) by (intro nth_mem) simp
  then have above: "k < ?k" if "after = Some k" for k
    using that by (simp add: set_rows_after)
  have "rows_after key (Some k) xs = filter (\<lambda>x. k < key x) ?R" if "\<And>k'. after = Some k' \<Longrightarrow> k' < k" for k
    using that by (auto simp: rows_after_def split: option.splits intro!: filter_cong)
  from this [OF above] have "rows_after key (Some ?k) xs = filter (\<lambda>x. ?k < key x) ?R" .
  also have "\<dots> = filter (\<lambda>x. ?k < key x) (take n ?R @ drop n ?R)" by simp
  also have "\<dots> = drop n ?R"
  proof -
    have lo: "\<not> ?k < key x" if "x \<in> set (take n ?R)" for x
    proof -
      from that obtain i where i: "i < n" "i < length ?R" "x = ?R ! i" by (auto simp: in_set_conv_nth)
      then have "map key ?R ! i \<le> map key ?R ! (n - 1)"
        using s assms(2,3) by (intro sorted_nth_mono) simp_all
      with i assms(2,3) show ?thesis by simp
    qed
    have hi: "?k < key x" if "x \<in> set (drop n ?R)" for x
    proof -
      from that obtain j where "j < length (drop n ?R)" "x = drop n ?R ! j" unfolding in_set_conv_nth by blast
      then have j: "n + j < length ?R" "x = ?R ! (n + j)" by simp_all
      have "map key ?R ! (n - 1) < map key ?R ! (n + j)"
        using s d j(1) assms(2)
        by (intro sorted_wrt_nth_less [of "(<)" "map key ?R"]) (simp_all add: strict_sorted_iff)
      with j assms(2,3) show ?thesis by simp
    qed
    show ?thesis unfolding filter_append using lo hi by (simp add: filter_False filter_True)
  qed
  finally show ?thesis .
qed

theorem follow_pages:
  assumes "distinct (map key xs)" "0 < n" "\<And>after. fetch after = Inr (page_of key n (rows_after key after xs))"
    and "length (rows_after key after xs) < fuel"
  shows "follow fetch fuel after = Some (rows_after key after xs)"
  using assms(4)
proof (induction fuel arbitrary: after)
  case (Suc m)
  note page = assms(3) [of after]
  show ?case
  proof (cases "n < length (rows_after key after xs)")
    case True
    let ?k = "key (rows_after key after xs ! (n - 1))"
    have rest: "rows_after key (Some ?k) xs = drop n (rows_after key after xs)"
      using assms(1,2) True by (intro rows_after_nth) simp_all
    then have "follow fetch m (Some ?k) = Some (drop n (rows_after key after xs))"
      using Suc True assms(2) by (subst Suc.IH) simp_all
    with True show ?thesis by (simp add: page page_of_def)
  qed (simp add: page page_of_def)
qed simp

end
