(* ===== verification/Store_Audit.thy ===== *)
theory Store_Audit
  imports Kernel_Authorization Store_Quota Rust_Text Keyset_Paging
begin

text \<open>
  Audit events: the event of the kernel (\<open>crates/o3k-kernel/src/audit.rs\<close>), the query of the
  durable repository (\<open>durable_audit.rs\<close>), the row it becomes (\<open>AuditEventRecord\<close> in
  \<open>crates/o3k-store/src/domain/records.rs\<close>), the SQLite table (\<open>sqlite/audit_store.rs\<close> over
  \<open>migrations/0041_audit_events.sql\<close>) and the repository of the store on it
  (\<open>unified/audit.rs\<close>). The table is the list of its rows. A new identifier, the clock and the
  parser of UUIDs are parameters; the errors SQLite itself reports are not modelled.
  Lemmas: what is stored stays until it is pruned, what a listing returns page by page, and what
  an event looks like when it is read back.
\<close>

section \<open>The event\<close>

datatype audit_outcome =
    OutAllowed | OutDenied | OutSucceeded | OutFailed | OutUnknownOutcome

fun audit_outcome_name :: "audit_outcome \<Rightarrow> string" where
  "audit_outcome_name OutAllowed = ''allowed''"
| "audit_outcome_name OutDenied = ''denied''"
| "audit_outcome_name OutSucceeded = ''succeeded''"
| "audit_outcome_name OutFailed = ''failed''"
| "audit_outcome_name OutUnknownOutcome = ''unknown_outcome''"

record audit_event =
  ev_id :: string
  ev_timestamp :: string
  ev_request :: string
  ev_audit :: string
  ev_principal :: principal_id
  ev_principal_kind :: principal_kind
  ev_scope :: ownership_scope
  ev_namespace :: service_namespace
  ev_action :: action_id
  ev_resource_type :: "resource_type option"
  ev_resource :: "resource_id option"
  ev_owner :: "ownership_scope option"
  ev_decision :: "authorization_decision option"
  ev_operation :: "string option"
  ev_outcome :: audit_outcome
  ev_reason :: "string option"
  ev_service_principal :: "service_principal option"

definition event_from_auth ::
  "string \<Rightarrow> string \<Rightarrow> auth_context \<Rightarrow> service_namespace \<Rightarrow> action_id \<Rightarrow> audit_outcome \<Rightarrow> audit_event" where
  "event_from_auth new_id now auth namespace act result =
     \<lparr>ev_id = new_id, ev_timestamp = now, ev_request = auth_context.request_id auth,
      ev_audit = auth_context.audit_id auth, ev_principal = principal_id_of (ctx_principal auth),
      ev_principal_kind = principal_kind_of (ctx_principal auth),
      ev_scope = auth_context.effective_scope auth, ev_namespace = namespace, ev_action = act,
      ev_resource_type = None, ev_resource = None, ev_owner = None, ev_decision = None,
      ev_operation = None, ev_outcome = result, ev_reason = None,
      ev_service_principal = ctx_service_principal auth\<rparr>"

definition with_resource ::
  "audit_event \<Rightarrow> resource_type \<Rightarrow> resource_id option \<Rightarrow> ownership_scope option \<Rightarrow> audit_event" where
  "with_resource e t i owner = e\<lparr>ev_resource_type := Some t, ev_resource := i, ev_owner := owner\<rparr>"

section \<open>The row\<close>

definition normalize_audit_reason :: "string \<Rightarrow> string" where
  "normalize_audit_reason reason =
     (let out = concat (take 128 (filter (\<lambda>c. \<not> control_char c) (utf8_chars reason)))
      in if out = [] then ''unspecified'' else out)"

definition display_resource_type :: "resource_type \<Rightarrow> string" where
  "display_resource_type t = rt_namespace t @ '':'' @ rt_name t"

definition from_kernel_event :: "audit_event \<Rightarrow> audit_event_record" where
  "from_kernel_event e =
     \<lparr>event_id = ev_id e, timestamp = ev_timestamp e, request_id = ev_request e, audit_id = ev_audit e,
      principal_id = principal_id_str (ev_principal e),
      principal_kind = (case ev_principal_kind e of User \<Rightarrow> ''user'' | Service \<Rightarrow> ''service''),
      effective_scope = scope_id_str (ownership_scope.scope_id (ev_scope e)),
      service = namespace_str (ev_namespace e), audit_action = action_id_as_str (ev_action e),
      resource_type = map_option display_resource_type (ev_resource_type e),
      resource_id = map_option resource_id_str (ev_resource e),
      owner_scope = map_option (\<lambda>s. scope_id_str (ownership_scope.scope_id s)) (ev_owner e),
      operation_id = ev_operation e, outcome = audit_outcome_name (ev_outcome e),
      reason_category = map_option normalize_audit_reason (ev_reason e)\<rparr>"

section \<open>The table\<close>

datatype audit_store_error = AuditRowConflict | AuditRowCorrupt | AuditRowNotFound

type_synonym audit_rows = "audit_event_record list"

definition insert_audit_event_tx ::
  "audit_event_record \<Rightarrow> audit_rows \<Rightarrow> (audit_store_error, audit_rows) rust_result" where
  "insert_audit_event_tx e rows =
     (case find (\<lambda>r. event_id r = event_id e) rows of
        None \<Rightarrow> Inr (rows @ [e])
      | Some r \<Rightarrow> if r \<noteq> e then Inl AuditRowConflict else Inr rows)"

definition get_audit_event :: "audit_rows \<Rightarrow> string \<Rightarrow> string \<Rightarrow> (audit_store_error, audit_event_record) rust_result"
  where
  "get_audit_event rows scope i =
     (case find (\<lambda>r. effective_scope r = scope \<and> event_id r = i) rows of
        None \<Rightarrow> Inl AuditRowNotFound
      | Some r \<Rightarrow> Inr r)"

definition bounded_fetch_limit :: "nat \<Rightarrow> nat option" where
  "bounded_fetch_limit limit = (if 1 \<le> limit \<and> limit \<le> 200 then Some (limit + 1) else None)"

definition repository_page_new ::
  "nat \<Rightarrow> (string, 'a) page \<Rightarrow> (audit_store_error, (string, 'a) page) rust_result" where
  "repository_page_new limit p =
     (if length (page_items p) > limit \<or> page_more p \<noteq> (page_next p \<noteq> None)
         \<or> page_more p \<and> page_items p = []
         \<or> (case page_next p of None \<Rightarrow> False | Some k \<Rightarrow> k = [] \<or> length k > 512)
      then Inl AuditRowCorrupt else Inr p)"

definition list_audit_events_page ::
  "audit_rows \<Rightarrow> string \<Rightarrow> string option \<Rightarrow> nat \<Rightarrow> (audit_store_error, (string, audit_event_record) page) rust_result"
  where
  "list_audit_events_page rows scope after limit =
     (case bounded_fetch_limit limit of
        None \<Rightarrow> Inl AuditRowCorrupt
      | Some n \<Rightarrow> repository_page_new limit
          (page_of event_id limit (take n (rows_after event_id after (filter (\<lambda>r. effective_scope r = scope) rows)))))"

record audit_query =
  aq_scope :: ownership_scope
  aq_after :: "string option"
  aq_event :: "string option"
  aq_limit :: nat
  aq_service :: "string option"
  aq_action :: "string option"
  aq_outcome :: "string option"
  aq_resource_type :: "string option"
  aq_resource :: "string option"
  aq_operation :: "string option"
  aq_principal :: "string option"
  aq_request :: "string option"
  aq_audit :: "string option"
  aq_from :: "string option"
  aq_until :: "string option"

definition audit_query_values :: "audit_query \<Rightarrow> string list" where
  "audit_query_values q =
     List.map_filter id [aq_service q, aq_action q, aq_outcome q, aq_resource_type q, aq_resource q,
       aq_operation q, aq_principal q, aq_request q, aq_audit q, aq_from q, aq_until q, aq_after q, aq_event q]"

definition audit_query_validate :: "audit_query \<Rightarrow> (kernel_error, unit) rust_result" where
  "audit_query_validate q =
     (if \<not> (1 \<le> aq_limit q \<and> aq_limit q \<le> 200) then Inl InvalidIdentifier
      else if list_ex (\<lambda>v. length v > 256 \<or> CHR 0x00 \<in> set v) (audit_query_values q) then Inl InvalidIdentifier
      else Inr ())"

text \<open>A condition of the statement that is there when the query gives a value; a column that is
  NULL meets no condition.\<close>

definition eq_filter :: "string option \<Rightarrow> string option \<Rightarrow> bool" where
  "eq_filter wanted column = (case wanted of None \<Rightarrow> True | Some v \<Rightarrow> column = Some v)"

definition audit_matches :: "audit_query \<Rightarrow> audit_event_record \<Rightarrow> bool" where
  "audit_matches q r \<longleftrightarrow>
     effective_scope r = scope_id_str (ownership_scope.scope_id (aq_scope q))
     \<and> eq_filter (aq_event q) (Some (event_id r)) \<and> eq_filter (aq_service q) (Some (service r))
     \<and> eq_filter (aq_action q) (Some (audit_action r)) \<and> eq_filter (aq_outcome q) (Some (outcome r))
     \<and> eq_filter (aq_resource_type q) (resource_type r) \<and> eq_filter (aq_resource q) (resource_id r)
     \<and> eq_filter (aq_operation q) (operation_id r) \<and> eq_filter (aq_principal q) (Some (principal_id r))
     \<and> eq_filter (aq_request q) (Some (request_id r)) \<and> eq_filter (aq_audit q) (Some (audit_id r))
     \<and> (case aq_from q of None \<Rightarrow> True | Some t \<Rightarrow> t \<le> timestamp r)
     \<and> (case aq_until q of None \<Rightarrow> True | Some t \<Rightarrow> timestamp r \<le> t)"

definition list_audit_events_page_query ::
  "audit_rows \<Rightarrow> audit_query \<Rightarrow> (audit_store_error, (string, audit_event_record) page) rust_result" where
  "list_audit_events_page_query rows q =
     (case bounded_fetch_limit (aq_limit q) of
        None \<Rightarrow> Inl AuditRowCorrupt
      | Some n \<Rightarrow> repository_page_new (aq_limit q)
          (page_of event_id (aq_limit q) (take n (rows_after event_id (aq_after q) (filter (audit_matches q) rows)))))"

definition prune_audit_events_before ::
  "string \<Rightarrow> nat \<Rightarrow> audit_rows \<Rightarrow> (audit_store_error, nat \<times> audit_rows) rust_result" where
  "prune_audit_events_before cutoff limit rows =
     (if \<not> (1 \<le> limit \<and> limit \<le> 200) then Inl AuditRowCorrupt
      else let victims = map event_id (take limit (sort_key (\<lambda>r. (timestamp r, event_id r))
                            (filter (\<lambda>r. timestamp r < cutoff) rows)))
        in Inr (length victims, filter (\<lambda>r. event_id r \<notin> set victims) rows))"

section \<open>The repository of the store\<close>

text \<open>\<open>parse_uuid\<close> is the parser of the operation identifier.\<close>

definition outcome_of_name :: "string \<Rightarrow> audit_outcome" where
  "outcome_of_name s =
     (if s = ''allowed'' then OutAllowed else if s = ''denied'' then OutDenied
      else if s = ''failed'' then OutFailed else if s = ''unknown_outcome'' then OutUnknownOutcome
      else OutSucceeded)"

definition row_event ::
  "(string \<Rightarrow> string option) \<Rightarrow> audit_event_record \<Rightarrow> (kernel_error, audit_event) rust_result" where
  "row_event parse_uuid r =
     (case split_once CHR '':'' (audit_action r) of
        None \<Rightarrow> Inl AuditUnavailable
      | Some (_, act) \<Rightarrow>
     (case service_namespace_new (service r) of
        Inl _ \<Rightarrow> Inl AuditUnavailable
      | Inr namespace \<Rightarrow>
     (case action_id_new (namespace_str namespace) act of
        Inl _ \<Rightarrow> Inl AuditUnavailable
      | Inr action \<Rightarrow>
          Inr \<lparr>ev_id = event_id r, ev_timestamp = timestamp r, ev_request = request_id r,
               ev_audit = audit_id r, ev_principal = PrincipalId (principal_id r),
               ev_principal_kind =
                 (if str_contains (to_ascii_lowercase (principal_kind r)) ''service'' then Service else User),
               ev_scope = project_scope (ScopeId (effective_scope r)) None None,
               ev_namespace = namespace, ev_action = action,
               ev_resource_type =
                 map_option (\<lambda>(ns, n). ResourceType ns n)
                   (Option.bind (resource_type r) (split_once CHR '':'')),
               ev_resource = map_option ResourceId (resource_id r),
               ev_owner = map_option (\<lambda>v. project_scope (ScopeId v) None None) (owner_scope r),
               ev_decision = None, ev_operation = Option.bind (operation_id r) parse_uuid,
               ev_outcome = outcome_of_name (outcome r), ev_reason = reason_category r,
               ev_service_principal = None\<rparr>)))"

definition append_audit :: "audit_event \<Rightarrow> audit_rows \<Rightarrow> (kernel_error, audit_rows) rust_result" where
  "append_audit e rows =
     (case insert_audit_event_tx (from_kernel_event e) rows of
        Inl AuditRowConflict \<Rightarrow> Inl AuditConflict
      | Inl _ \<Rightarrow> Inl AuditUnavailable
      | Inr rows' \<Rightarrow> Inr rows')"

definition audit_page ::
  "(string \<Rightarrow> string option) \<Rightarrow> audit_rows \<Rightarrow> audit_query \<Rightarrow> (kernel_error, (string, audit_event) page) rust_result"
  where
  "audit_page parse_uuid rows q =
     (case audit_query_validate q of
        Inl e \<Rightarrow> Inl e
      | Inr _ \<Rightarrow>
     (case list_audit_events_page_query rows q of
        Inl _ \<Rightarrow> Inl AuditUnavailable
      | Inr p \<Rightarrow>
     (case collect_results (row_event parse_uuid) (page_items p) of
        Inl e \<Rightarrow> Inl e
      | Inr es \<Rightarrow> Inr \<lparr>page_items = es, page_more = page_more p, page_next = page_next p\<rparr>)))"

definition prune_before :: "string \<Rightarrow> audit_rows \<Rightarrow> (kernel_error, nat \<times> audit_rows) rust_result" where
  "prune_before cutoff rows =
     (case prune_audit_events_before cutoff 200 rows of
        Inl _ \<Rightarrow> Inl AuditUnavailable
      | Inr x \<Rightarrow> Inr x)"

section \<open>What is stored stays until it is pruned\<close>

datatype audit_op = AppendRow audit_event_record | PruneRows string nat

fun audit_step :: "audit_rows \<Rightarrow> audit_op \<Rightarrow> (audit_store_error, audit_rows) rust_result" where
  "audit_step rows (AppendRow e) = insert_audit_event_tx e rows"
| "audit_step rows (PruneRows cutoff limit) = map_sum id snd (prune_audit_events_before cutoff limit rows)"

definition audit_ids_unique :: "audit_rows \<Rightarrow> bool" where
  "audit_ids_unique rows \<longleftrightarrow> distinct (map event_id rows)"

lemma find_id_None: "find (\<lambda>r. event_id r = i) rows = None \<longleftrightarrow> i \<notin> event_id ` set rows"
  by (auto simp: find_None_iff)

lemma insert_audit_cases:
  assumes "insert_audit_event_tx e rows = Inr rows'"
  obtains "rows' = rows @ [e]" "event_id e \<notin> event_id ` set rows" | "rows' = rows" "e \<in> set rows"
proof (cases "find (\<lambda>r. event_id r = event_id e) rows")
  case None
  with assms that(1) show thesis by (simp add: insert_audit_event_tx_def find_id_None)
next
  case (Some r)
  then have "r \<in> set rows" by (metis find_Some_iff nth_mem)
  with Some assms that(2) show thesis by (simp add: insert_audit_event_tx_def split: if_splits)
qed

lemma prune_audit_cases:
  assumes "prune_audit_events_before cutoff limit rows = Inr (n, rows')"
  obtains victims where "rows' = filter (\<lambda>r. event_id r \<notin> event_id ` victims) rows"
    "victims \<subseteq> {r \<in> set rows. timestamp r < cutoff}"
  using assms by (auto simp: prune_audit_events_before_def Let_def split: if_splits dest: in_set_takeD intro!: that)

lemma audit_step_unique:
  assumes "audit_ids_unique rows" "audit_step rows x = Inr rows'"
  shows "audit_ids_unique rows'"
proof (cases x)
  case (AppendRow e)
  then have "insert_audit_event_tx e rows = Inr rows'" using assms(2) by simp
  then show ?thesis by (rule insert_audit_cases) (use assms(1) in \<open>auto simp: audit_ids_unique_def\<close>)
next
  case (PruneRows cutoff limit)
  then obtain n where "prune_audit_events_before cutoff limit rows = Inr (n, rows')"
    using assms(2) by (cases "prune_audit_events_before cutoff limit rows") auto
  then show ?thesis
    by (rule prune_audit_cases) (use assms(1) in \<open>simp add: audit_ids_unique_def distinct_map_filter\<close>)
qed

interpretation audit_table: invariant_machine audit_step audit_ids_unique
  by unfold_locales (rule audit_step_unique)

lemma insert_keeps_rows: "insert_audit_event_tx e rows = Inr rows' \<Longrightarrow> set rows \<subseteq> set rows' \<and> e \<in> set rows'"
  by (erule insert_audit_cases) auto

lemma unique_row: "audit_ids_unique rows \<Longrightarrow> x \<in> set rows \<Longrightarrow> y \<in> set rows \<Longrightarrow> event_id x = event_id y \<Longrightarrow> x = y"
  by (auto simp: audit_ids_unique_def distinct_map dest: inj_onD)

lemma prune_keeps_young:
  assumes "audit_ids_unique rows" "prune_audit_events_before cutoff limit rows = Inr (n, rows')"
    "r \<in> set rows" "\<not> timestamp r < cutoff"
  shows "r \<in> set rows'"
  using assms(2)
proof (rule prune_audit_cases)
  fix victims
  assume v: "rows' = filter (\<lambda>r. event_id r \<notin> event_id ` victims) rows" "victims \<subseteq> {r \<in> set rows. timestamp r < cutoff}"
  have "event_id r \<notin> event_id ` victims"
  proof
    assume "event_id r \<in> event_id ` victims"
    then obtain x where "x \<in> victims" "event_id x = event_id r" by auto
    with v(2) assms(1,3,4) unique_row [of rows x r] show False by auto
  qed
  with v(1) assms(3) show ?thesis by simp
qed

lemma audit_step_keeps:
  assumes "audit_ids_unique rows" "r \<in> set rows" "\<And>cutoff limit. x = PruneRows cutoff limit \<Longrightarrow> \<not> timestamp r < cutoff"
  shows "r \<in> set (apply_op audit_step rows x)"
proof (cases "audit_step rows x")
  case (Inr rows')
  show ?thesis
  proof (cases x)
    case (AppendRow e)
    with Inr insert_keeps_rows [of e rows rows'] assms(2) show ?thesis by (auto simp: apply_op_def)
  next
    case (PruneRows cutoff limit)
    then obtain n where "prune_audit_events_before cutoff limit rows = Inr (n, rows')"
      using Inr by (cases "prune_audit_events_before cutoff limit rows") auto
    with Inr PruneRows prune_keeps_young assms show ?thesis by (auto simp: apply_op_def)
  qed
qed (use assms in \<open>simp add: apply_op_def\<close>)

definition spares :: "audit_event_record \<Rightarrow> audit_op list \<Rightarrow> bool" where
  "spares r xs \<longleftrightarrow> list_all (\<lambda>x. case x of PruneRows cutoff _ \<Rightarrow> \<not> timestamp r < cutoff | _ \<Rightarrow> True) xs"

lemma run_keeps_row:
  "audit_ids_unique rows \<Longrightarrow> r \<in> set rows \<Longrightarrow> spares r xs \<Longrightarrow> r \<in> set (run_ops audit_step rows xs)"
proof (induction xs arbitrary: rows)
  case (Cons x xs)
  have "r \<in> set (apply_op audit_step rows x)"
    using Cons.prems by (intro audit_step_keeps) (simp_all add: spares_def)
  with Cons show ?case by (simp add: audit_table.apply_inv spares_def)
qed simp

lemma find_unique_row:
  assumes "audit_ids_unique rows" "r \<in> set rows" "P r" "\<And>x. P x \<Longrightarrow> event_id x = event_id r"
  shows "find P rows = Some r"
proof -
  obtain x where x: "find P rows = Some x" using assms(2,3) by (cases "find P rows") (auto simp: find_None_iff)
  then have "x \<in> set rows" "P x" by (metis find_Some_iff nth_mem)+
  then have "x = r" using unique_row [OF assms(1) _ assms(2) assms(4)] by blast
  with x show ?thesis by simp
qed

text \<open>
  C32: An audit event is kept as it was written. After it was stored, no sequence of further
  writes and prunings changes it, whatever identifiers the writes carry, as long as no pruning
  reaches past its time: reading it in its scope returns it.
\<close>

theorem audit_event_kept:
  assumes "audit_ids_unique rows" "insert_audit_event_tx e rows = Inr rows'" "spares e ops"
  shows "get_audit_event (run_ops audit_step rows' ops) (effective_scope e) (event_id e) = Inr e"
proof -
  have u: "audit_ids_unique rows'" using assms(1,2) audit_step_unique [of rows "AppendRow e"] by simp
  then have "e \<in> set (run_ops audit_step rows' ops)"
    using assms insert_keeps_rows by (intro run_keeps_row) auto
  moreover have "audit_ids_unique (run_ops audit_step rows' ops)" using u by (rule audit_table.run_inv)
  ultimately show ?thesis unfolding get_audit_event_def by (subst find_unique_row) auto
qed

section \<open>Pages\<close>

lemma page_of_take: "page_of key n (take (Suc n) rows) = page_of key n rows"
  by (auto simp: page_of_def Let_def min_def not_less_eq_eq)

lemma page_of_accepted:
  assumes "0 < n" "\<And>x. x \<in> set rows \<Longrightarrow> key x \<noteq> [] \<and> length (key x) \<le> 512"
  shows "repository_page_new n (page_of key n rows) = Inr (page_of key n rows)"
proof -
  have "rows ! (n - 1) \<in> set rows" if "n < length rows" using that by simp
  with assms(2) have "n < length rows \<Longrightarrow> key (rows ! (n - 1)) \<noteq> [] \<and> length (key (rows ! (n - 1))) \<le> 512" by simp
  with assms(1) show ?thesis
    by (cases "n < length rows") (auto simp: repository_page_new_def page_of_def)
qed

definition stored_ids_ok :: "audit_rows \<Rightarrow> bool" where
  "stored_ids_ok rows \<longleftrightarrow> (\<forall>r\<in>set rows. event_id r \<noteq> [] \<and> length (event_id r) \<le> 512)"

lemma list_query_page:
  assumes "1 \<le> aq_limit q" "aq_limit q \<le> 200" "stored_ids_ok rows"
  shows "list_audit_events_page_query rows q =
    Inr (page_of event_id (aq_limit q) (rows_after event_id (aq_after q) (filter (audit_matches q) rows)))"
proof -
  have "repository_page_new (aq_limit q) (page_of event_id (aq_limit q)
        (rows_after event_id (aq_after q) (filter (audit_matches q) rows)))
      = Inr (page_of event_id (aq_limit q) (rows_after event_id (aq_after q) (filter (audit_matches q) rows)))"
    using assms by (intro page_of_accepted) (simp_all add: stored_ids_ok_def set_rows_after)
  with assms show ?thesis
    by (simp add: list_audit_events_page_query_def bounded_fetch_limit_def page_of_take)
qed

text \<open>
  Following the pages of a query misses nothing and repeats nothing. A client that starts
  without a continuation and asks for the next page with the continuation of the last one gets,
  after finitely many pages, every stored event that matches the query exactly once, in the
  order of the identifiers, whatever the page size.
\<close>

theorem audit_pages_complete:
  assumes "audit_ids_unique rows" "stored_ids_ok rows" "1 \<le> aq_limit q" "aq_limit q \<le> 200"
    and "length rows < fuel"
  shows "follow (\<lambda>after. list_audit_events_page_query rows (q\<lparr>aq_after := after\<rparr>)) fuel None
    = Some (sort_key event_id (filter (audit_matches q) rows))"
proof -
  have m: "audit_matches (q\<lparr>aq_after := a\<rparr>) = audit_matches q" for a by (simp add: audit_matches_def fun_eq_iff)
  have "follow (\<lambda>after. list_audit_events_page_query rows (q\<lparr>aq_after := after\<rparr>)) fuel None
    = Some (rows_after event_id None (filter (audit_matches q) rows))"
    using assms le_less_trans [OF length_filter_le assms(5)]
    by (intro follow_pages [where n = "aq_limit q"])
      (simp_all add: list_query_page m audit_ids_unique_def distinct_map_filter)
  then show ?thesis by simp
qed

section \<open>Reading an event back\<close>

text \<open>What the row keeps of an event, and the events the constructors of the kernel build.\<close>

definition as_read :: "audit_event \<Rightarrow> audit_event" where
  "as_read e = e\<lparr>ev_scope := project_scope (ownership_scope.scope_id (ev_scope e)) None None,
     ev_owner := map_option (\<lambda>s. project_scope (ownership_scope.scope_id s) None None) (ev_owner e),
     ev_decision := None, ev_reason := map_option normalize_audit_reason (ev_reason e),
     ev_service_principal := None\<rparr>"

definition proper_event :: "(string \<Rightarrow> string option) \<Rightarrow> audit_event \<Rightarrow> bool" where
  "proper_event parse_uuid e \<longleftrightarrow>
     ev_id e \<noteq> [] \<and> length (ev_id e) \<le> 256 \<and> CHR 0x00 \<notin> set (ev_id e)
     \<and> service_namespace_new (namespace_str (ev_namespace e)) = Inr (ev_namespace e)
     \<and> action_namespace (ev_action e) = namespace_str (ev_namespace e) \<and> action_id_wf (ev_action e)
     \<and> (\<forall>t. ev_resource_type e = Some t \<longrightarrow> CHR '':'' \<notin> set (rt_namespace t))
     \<and> (\<forall>i. ev_operation e = Some i \<longrightarrow> parse_uuid i = Some i)"

lemma namespace_no_colon: "service_namespace_new s = Inr n \<Longrightarrow> CHR '':'' \<notin> set s"
  by (auto simp: service_namespace_new_def list_all_iff is_ascii_alphanumeric_def split: if_splits)

lemma outcome_names [simp]: "outcome_of_name (audit_outcome_name x) = x"
  by (cases x) (simp_all add: outcome_of_name_def)

lemma principal_kind_read:
  "(if str_contains (to_ascii_lowercase (case k of User \<Rightarrow> ''user'' | Service \<Rightarrow> ''service'')) ''service''
    then Service else User) = k"
  by (cases k; simp only: principal_kind.case; code_simp)

lemma row_event_back:
  assumes "proper_event parse_uuid e"
  shows "row_event parse_uuid (from_kernel_event e) = Inr (as_read e)"
proof -
  from assms have ns: "service_namespace_new (namespace_str (ev_namespace e)) = Inr (ev_namespace e)"
    and act: "action_namespace (ev_action e) = namespace_str (ev_namespace e)" "action_id_wf (ev_action e)"
    by (simp_all add: proper_event_def)
  have "split_once CHR '':'' (action_id_as_str (ev_action e))
      = Some (namespace_str (ev_namespace e), action_name (ev_action e))"
    using namespace_no_colon [OF ns] act(1) by (simp add: action_id_as_str_def split_once_append)
  moreover have "action_id_new (namespace_str (ev_namespace e)) (action_name (ev_action e)) = Inr (ev_action e)"
    using action_id_new_id [OF act(2)] act(1) by simp
  moreover have "map_option (\<lambda>(ns, n). ResourceType ns n)
      (Option.bind (map_option display_resource_type (ev_resource_type e)) (split_once CHR '':'')) = ev_resource_type e"
    using assms by (cases "ev_resource_type e")
      (auto simp: proper_event_def display_resource_type_def split_once_append)
  moreover have "Option.bind (ev_operation e) parse_uuid = ev_operation e"
    using assms by (cases "ev_operation e") (auto simp: proper_event_def)
  moreover have "map_option ResourceId (map_option resource_id_str (ev_resource e)) = ev_resource e"
    by (cases "ev_resource e") simp_all
  moreover have "map_option (\<lambda>v. project_scope (ScopeId v) None None)
      (map_option (\<lambda>s. scope_id_str (ownership_scope.scope_id s)) (ev_owner e))
      = map_option (\<lambda>s. project_scope (ownership_scope.scope_id s) None None) (ev_owner e)"
    by (cases "ev_owner e") simp_all
  ultimately show ?thesis
    by (simp add: row_event_def from_kernel_event_def as_read_def ns principal_kind_read)
qed

definition query_one :: "ownership_scope \<Rightarrow> string \<Rightarrow> audit_query" where
  "query_one s i =
     \<lparr>aq_scope = s, aq_after = None, aq_event = Some i, aq_limit = 1, aq_service = None, aq_action = None,
      aq_outcome = None, aq_resource_type = None, aq_resource = None, aq_operation = None,
      aq_principal = None, aq_request = None, aq_audit = None, aq_from = None, aq_until = None\<rparr>"

lemma singleton_list: "set xs = {r} \<Longrightarrow> distinct xs \<Longrightarrow> xs = [r]"
  by (cases xs; cases "tl xs") auto

lemma filter_one:
  assumes "audit_ids_unique rows" "r \<in> set rows" "P r" "\<And>x. P x \<Longrightarrow> event_id x = event_id r"
  shows "filter P rows = [r]"
proof -
  have "x = r" if "x \<in> set rows" "P x" for x
    using unique_row [OF assms(1) that(1) assms(2) assms(4) [OF that(2)]] .
  then have "set (filter P rows) = {r}" unfolding set_filter using assms(2,3) by blast
  moreover have "distinct (filter P rows)"
    using assms(1) by (simp add: audit_ids_unique_def distinct_map)
  ultimately show ?thesis by (rule singleton_list)
qed

text \<open>
  C33: What an audit event keeps. An event that was appended is found by any query for its
  identifier in a scope with the identifier of its own scope, whatever kind the two scopes have:
  an event of a domain or of the system is returned to a project of the same identifier. It
  comes back with its principal, action, target, operation and outcome; its scope is a project
  without name and domain, the decision and the service principal are gone, and the reason is
  the normalised one.
\<close>

theorem audit_event_read_back:
  assumes "audit_ids_unique rows" "append_audit e rows = Inr rows'" "proper_event parse_uuid e"
    and "scope_id_str (ownership_scope.scope_id s) = scope_id_str (ownership_scope.scope_id (ev_scope e))"
  shows "audit_page parse_uuid rows' (query_one s (ev_id e))
    = Inr \<lparr>page_items = [as_read e], page_more = False, page_next = None\<rparr>"
proof -
  have ins: "insert_audit_event_tx (from_kernel_event e) rows = Inr rows'"
    using assms(2) by (auto simp: append_audit_def split: sum.splits audit_store_error.splits)
  have u: "audit_ids_unique rows'" using assms(1) ins audit_step_unique [of rows "AppendRow (from_kernel_event e)"] by simp
  have i: "event_id (from_kernel_event e) = ev_id e" by (simp add: from_kernel_event_def)
  have "filter (audit_matches (query_one s (ev_id e))) rows' = [from_kernel_event e]"
    using u insert_keeps_rows [OF ins] assms(4)
    by (intro filter_one) (auto simp: audit_matches_def query_one_def eq_filter_def from_kernel_event_def)
  then have "list_audit_events_page_query rows' (query_one s (ev_id e))
      = Inr \<lparr>page_items = [from_kernel_event e], page_more = False, page_next = None\<rparr>"
    by (simp add: list_audit_events_page_query_def query_one_def bounded_fetch_limit_def page_of_def
        repository_page_new_def)
  moreover have "audit_query_validate (query_one s (ev_id e)) = Inr ()"
    using assms(3) by (auto simp: audit_query_validate_def audit_query_values_def query_one_def proper_event_def
        List.map_filter_def)
  ultimately show ?thesis
    using row_event_back [OF assms(3)] by (simp add: audit_page_def)
qed

section \<open>An example\<close>

definition domain_event :: audit_event where
  "domain_event =
     \<lparr>ev_id = ''e1'', ev_timestamp = ''2026-01-01T00:00:00Z'', ev_request = ''r1'', ev_audit = ''a1'',
      ev_principal = PrincipalId ''admin'', ev_principal_kind = User,
      ev_scope = \<lparr>ownership_scope.scope_id = ScopeId ''default'', scope_kind = Domain, scope_name = None,
                  scope_domain_id = None\<rparr>,
      ev_namespace = ServiceNamespace ''quota'', ev_action = ActionId ''quota'' ''UpdateQuota'',
      ev_resource_type = Some (ResourceType ''quota'' ''limit''), ev_resource = None, ev_owner = None,
      ev_decision = Some Allow, ev_operation = None, ev_outcome = OutSucceeded, ev_reason = None,
      ev_service_principal = None\<rparr>"

lemma domain_event_proper: "proper_event Some domain_event"
  by (simp add: proper_event_def domain_event_def service_namespace_new_def action_id_wf_def trimmed_def
      trim_def drop_ws.simps ws1_def ws2_def ws3_def is_ascii_alphanumeric_def to_ascii_lowercase_def)

theorem audit_event_kept_witness:
  "get_audit_event (run_ops audit_step [from_kernel_event domain_event]
      [AppendRow ((from_kernel_event domain_event)\<lparr>outcome := ''failed''\<rparr>), PruneRows ''2025'' 200]) ''default'' ''e1''
    = Inr (from_kernel_event domain_event)"
proof -
  have "get_audit_event (run_ops audit_step [from_kernel_event domain_event]
      [AppendRow ((from_kernel_event domain_event)\<lparr>outcome := ''failed''\<rparr>), PruneRows ''2025'' 200])
      (effective_scope (from_kernel_event domain_event)) (event_id (from_kernel_event domain_event))
    = Inr (from_kernel_event domain_event)"
    by (rule audit_event_kept [where rows = "[]"])
      (auto simp: audit_ids_unique_def insert_audit_event_tx_def spares_def from_kernel_event_def domain_event_def)
  then show ?thesis by (simp add: from_kernel_event_def domain_event_def)
qed

theorem audit_pages_complete_witness:
  "follow (\<lambda>after. list_audit_events_page_query [from_kernel_event domain_event]
      ((query_one (project_scope (ScopeId ''default'') None None) ''e1'')\<lparr>aq_after := after\<rparr>)) 2 None
    = Some [from_kernel_event domain_event]"
proof -
  let ?q = "query_one (project_scope (ScopeId ''default'') None None) ''e1''"
  have "follow (\<lambda>after. list_audit_events_page_query [from_kernel_event domain_event] (?q\<lparr>aq_after := after\<rparr>)) 2 None
    = Some (sort_key event_id (filter (audit_matches ?q) [from_kernel_event domain_event]))"
    by (rule audit_pages_complete)
      (simp_all add: audit_ids_unique_def stored_ids_ok_def from_kernel_event_def domain_event_def query_one_def)
  then show ?thesis
    by (simp add: audit_matches_def query_one_def eq_filter_def from_kernel_event_def domain_event_def project_scope_def)
qed

theorem audit_event_read_back_witness:
  "audit_page Some [from_kernel_event domain_event] (query_one (project_scope (ScopeId ''default'') None None) ''e1'')
    = Inr \<lparr>page_items = [as_read domain_event], page_more = False, page_next = None\<rparr>"
proof -
  have "audit_page Some [from_kernel_event domain_event]
      (query_one (project_scope (ScopeId ''default'') None None) (ev_id domain_event))
    = Inr \<lparr>page_items = [as_read domain_event], page_more = False, page_next = None\<rparr>"
    by (rule audit_event_read_back [where rows = "[]", OF _ _ domain_event_proper])
      (simp_all add: audit_ids_unique_def append_audit_def insert_audit_event_tx_def
        project_scope_def domain_event_def)
  then show ?thesis by (simp add: domain_event_def)
qed

end
