(* ===== verification/Kernel_Location.thy ===== *)
theory Kernel_Location
  imports Store_Audit Rust_Effects
begin

text \<open>
  The location topology of the kernel (\<open>crates/o3k-kernel/src/location.rs\<close>): regions with their
  availability domains, the hierarchy of failure domains, bindings of failure domains to targets;
  the validation of a snapshot, and the registry, which changes its memory only after the store
  has taken a change (\<open>TopologyStore\<close>, a record of operations here). A \<open>BTreeMap\<close> is the list of
  its entries, a \<open>HashMap\<close> built by \<open>collect\<close> is \<open>map_of\<close> of the reversed entries. Locks are not
  modelled: one mutation runs at a time (\<open>TopologyGuard\<close> in \<open>crates/o3k-native-api\<close>).
  Lemmas: what a valid topology is, that a registry stays one whose snapshot validates, whatever
  the store answers, and the locale of a store that keeps its contract, whose contents are then
  the memory of the registry.
\<close>

section \<open>The data\<close>

definition location_id_start :: "char \<Rightarrow> bool" where
  "location_id_start c = (let n = of_char c :: nat in 97 \<le> n \<and> n \<le> 122 \<or> 48 \<le> n \<and> n \<le> 57)"

definition is_location_id_char :: "char \<Rightarrow> bool" where
  "is_location_id_char c = (location_id_start c \<or> c = CHR ''_'' \<or> c = CHR ''-'')"

definition valid_location_id :: "string \<Rightarrow> bool" where
  "valid_location_id i =
     (case i of [] \<Rightarrow> False
      | c # cs \<Rightarrow> location_id_start c \<and> length i \<le> 128 \<and> list_all is_location_id_char cs)"

definition is_metadata_key_char :: "char \<Rightarrow> bool" where
  "is_metadata_key_char c = (location_id_start c \<or> c = CHR ''_'' \<or> c = CHR ''.'' \<or> c = CHR ''-'')"

definition valid_metadata_key :: "string \<Rightarrow> bool" where
  "valid_metadata_key k =
     (case k of [] \<Rightarrow> False
      | c # cs \<Rightarrow> location_id_start c \<and> length k \<le> 64 \<and> list_all is_metadata_key_char cs)"

record region_declaration =
  rd_id :: string
  rd_domains :: "string list"

datatype failure_domain_class =
    Site | Building | Room | Row | Rack | Chassis | PowerDomain | NetworkDomain | StorageDomain

fun class_rank :: "failure_domain_class \<Rightarrow> nat" where
  "class_rank Site = 10"
| "class_rank Building = 20"
| "class_rank Room = 30"
| "class_rank Row = 40"
| "class_rank Rack = 50"
| "class_rank Chassis = 60"
| "class_rank PowerDomain = 70"
| "class_rank NetworkDomain = 70"
| "class_rank StorageDomain = 70"

fun class_name :: "failure_domain_class \<Rightarrow> string" where
  "class_name Site = ''site''"
| "class_name Building = ''building''"
| "class_name Room = ''room''"
| "class_name Row = ''row''"
| "class_name Rack = ''rack''"
| "class_name Chassis = ''chassis''"
| "class_name PowerDomain = ''power-domain''"
| "class_name NetworkDomain = ''network-domain''"
| "class_name StorageDomain = ''storage-domain''"

record failure_domain =
  fd_id :: string
  fd_class :: failure_domain_class
  fd_name :: string
  fd_domain :: string
  fd_parent :: "string option"
  fd_generation :: u64
  fd_metadata :: "(string \<times> string) list"

datatype binding_target_kind = ResourceProvider | Host | FabricDomain | StorageDomainTarget

fun target_kind_name :: "binding_target_kind \<Rightarrow> string" where
  "target_kind_name ResourceProvider = ''resource-provider''"
| "target_kind_name Host = ''host''"
| "target_kind_name FabricDomain = ''fabric-domain''"
| "target_kind_name StorageDomainTarget = ''storage-domain''"

record topology_binding =
  tb_domain :: string
  tb_kind :: binding_target_kind
  tb_target :: string

record topology_snapshot =
  ts_regions :: "region_declaration list"
  ts_domains :: "failure_domain list"
  ts_bindings :: "topology_binding list"

text \<open>Errors keep the variant and what the callers look at.\<close>

datatype location_error =
    EmptyRegionId | EmptyAvailabilityDomainId | MalformedRegionId | MalformedAvailabilityDomainId
  | DuplicateRegion | DuplicateAvailabilityDomainInRegion | AmbiguousAvailabilityDomain
  | UnknownTopologyRegion | MalformedFailureDomainId | DuplicateFailureDomain | UnknownFailureDomain
  | EmptyFailureDomainName | FailureDomainNameTooLong | UnknownFailureDomainAvailabilityDomain
  | FailureDomainParentMissing | FailureDomainSelfParent | FailureDomainCycle
  | FailureDomainHierarchyTooDeep | InvalidFailureDomainNesting | FailureDomainOutsideAvailabilityDomain
  | FailureDomainHasChildren | FailureDomainHasBindings | AvailabilityDomainHasFailureDomains
  | RegionHasAvailabilityDomains | DuplicateBinding | TooManyMetadataEntries | InvalidMetadataKey
  | MetadataValueTooLong | InvalidBindingTargetId | StaleFailureDomainGeneration u64 u64

datatype topology_error = TopologyLocation location_error | TopologyStoreError kernel_error

section \<open>Validation\<close>

definition validate_region_id :: "string \<Rightarrow> location_error option" where
  "validate_region_id i =
     (if i = [] then Some EmptyRegionId
      else if \<not> valid_location_id i then Some MalformedRegionId else None)"

definition validate_az_id :: "string \<Rightarrow> location_error option" where
  "validate_az_id i =
     (if i = [] then Some EmptyAvailabilityDomainId
      else if \<not> valid_location_id i then Some MalformedAvailabilityDomainId else None)"

definition validate_failure_domain_id :: "string \<Rightarrow> location_error option" where
  "validate_failure_domain_id i = (if valid_location_id i then None else Some MalformedFailureDomainId)"

definition validate_failure_domain_name :: "string \<Rightarrow> location_error option" where
  "validate_failure_domain_name n =
     (if n = [] then Some EmptyFailureDomainName
      else if length n > 256 then Some FailureDomainNameTooLong else None)"

fun validate_metadata_entries :: "(string \<times> string) list \<Rightarrow> location_error option" where
  "validate_metadata_entries [] = None"
| "validate_metadata_entries ((k, v) # m) =
     (if \<not> valid_metadata_key k then Some InvalidMetadataKey
      else if length v > 256 then Some MetadataValueTooLong
      else validate_metadata_entries m)"

definition validate_metadata :: "(string \<times> string) list \<Rightarrow> location_error option" where
  "validate_metadata m =
     (if length m > 32 then Some TooManyMetadataEntries else validate_metadata_entries m)"

text \<open>\<open>orelse\<close> is the operator \<open>?\<close> between checks without a value.\<close>

definition orelse :: "'e option \<Rightarrow> 'e option \<Rightarrow> 'e option" where
  "orelse a b = (case a of None \<Rightarrow> b | Some e \<Rightarrow> Some e)"

fun first_error :: "('a \<Rightarrow> 'e option) \<Rightarrow> 'a list \<Rightarrow> 'e option" where
  "first_error f [] = None"
| "first_error f (x # xs) = orelse (f x) (first_error f xs)"

fun validate_azs :: "string list \<Rightarrow> string list \<Rightarrow> string list \<Rightarrow> location_error option" where
  "validate_azs all seen [] = None"
| "validate_azs all seen (a # as) =
     orelse (validate_az_id a)
       (if a \<in> set seen then Some DuplicateAvailabilityDomainInRegion
        else if a \<in> set all then Some AmbiguousAvailabilityDomain
        else validate_azs (a # all) (a # seen) as)"

fun validate_regions_from :: "string list \<Rightarrow> string list \<Rightarrow> region_declaration list \<Rightarrow> location_error option" where
  "validate_regions_from seen all [] = None"
| "validate_regions_from seen all (r # rs) =
     orelse (validate_region_id (rd_id r))
       (if rd_id r \<in> set seen then Some DuplicateRegion
        else orelse (validate_azs all [] (rd_domains r))
          (validate_regions_from (rd_id r # seen) (rev (rd_domains r) @ all) rs))"

definition validate_region_declarations :: "region_declaration list \<Rightarrow> location_error option" where
  "validate_region_declarations rs = validate_regions_from [] [] rs"

definition availability_domain_index :: "region_declaration list \<Rightarrow> string \<rightharpoonup> string" where
  "availability_domain_index rs = map_of (rev (concat (map (\<lambda>r. map (\<lambda>a. (a, rd_id r)) (rd_domains r)) rs)))"

definition failure_domain_map :: "failure_domain list \<Rightarrow> string \<rightharpoonup> failure_domain" where
  "failure_domain_map ds = map_of (rev (map (\<lambda>d. (fd_id d, d)) ds))"

text \<open>The walk along the parents; a chain has at most 64 domains.\<close>

function walk_parents ::
  "(string \<rightharpoonup> failure_domain) \<Rightarrow> string list \<Rightarrow> failure_domain \<Rightarrow> nat \<Rightarrow> location_error option" where
  "walk_parents ctx visited current depth =
     (if fd_id current \<in> set visited then Some FailureDomainCycle
      else if depth > 64 then Some FailureDomainHierarchyTooDeep
      else case fd_parent current of
          None \<Rightarrow> None
        | Some p \<Rightarrow>
            (case ctx p of
               None \<Rightarrow> None
             | Some next_domain \<Rightarrow> walk_parents ctx (fd_id current # visited) next_domain (depth + 1)))"
  by pat_completeness auto

termination walk_parents
  by (relation "measure (\<lambda>(ctx, visited, current, depth). 65 - depth)") auto

declare walk_parents.simps [simp del]

definition validate_failure_domain_structure ::
  "failure_domain \<Rightarrow> (string \<rightharpoonup> failure_domain) \<Rightarrow> (string \<rightharpoonup> string) \<Rightarrow> location_error option" where
  "validate_failure_domain_structure d ctx azs =
     orelse (validate_failure_domain_id (fd_id d))
     (orelse (validate_failure_domain_name (fd_name d))
     (orelse (validate_metadata (fd_metadata d))
       (if azs (fd_domain d) = None then Some UnknownFailureDomainAvailabilityDomain
        else case fd_parent d of
            None \<Rightarrow> None
          | Some p \<Rightarrow>
              if p = fd_id d then Some FailureDomainSelfParent
              else case ctx p of
                  None \<Rightarrow> Some FailureDomainParentMissing
                | Some parent \<Rightarrow>
                    if fd_domain parent \<noteq> fd_domain d then Some FailureDomainOutsideAvailabilityDomain
                    else if class_rank (fd_class d) < class_rank (fd_class parent)
                    then Some InvalidFailureDomainNesting
                    else walk_parents ctx [fd_id d] parent 2)))"

section \<open>The registry\<close>

record location_registry =
  lr_regions :: "region_declaration list"
  lr_domains :: "failure_domain list"
  lr_bindings :: "topology_binding list"

definition binding_key :: "topology_binding \<Rightarrow> string \<times> string \<times> string" where
  "binding_key b = (tb_domain b, target_kind_name (tb_kind b), tb_target b)"

definition sorted_regions :: "region_declaration list \<Rightarrow> region_declaration list" where
  "sorted_regions rs = sort_key rd_id (map (\<lambda>r. r\<lparr>rd_domains := sort (rd_domains r)\<rparr>) rs)"

fun duplicate_domain :: "string list \<Rightarrow> failure_domain list \<Rightarrow> location_error option" where
  "duplicate_domain seen [] = None"
| "duplicate_domain seen (d # ds) =
     (if fd_id d \<in> set seen then Some DuplicateFailureDomain else duplicate_domain (fd_id d # seen) ds)"

fun validate_bindings ::
  "(string \<rightharpoonup> failure_domain) \<Rightarrow> topology_binding list \<Rightarrow> topology_binding list \<Rightarrow> location_error option" where
  "validate_bindings ctx seen [] = None"
| "validate_bindings ctx seen (b # bs) =
     (if ctx (tb_domain b) = None then Some UnknownFailureDomain
      else if \<not> valid_location_id (tb_target b) then Some InvalidBindingTargetId
      else if binding_key b \<in> binding_key ` set seen then Some DuplicateBinding
      else validate_bindings ctx (b # seen) bs)"

definition from_snapshot :: "topology_snapshot \<Rightarrow> (location_error, location_registry) rust_result" where
  "from_snapshot s =
     (case orelse (validate_region_declarations (ts_regions s))
           (orelse (duplicate_domain [] (ts_domains s))
           (orelse (first_error (\<lambda>d. validate_failure_domain_structure d (failure_domain_map (ts_domains s))
                                     (availability_domain_index (ts_regions s))) (ts_domains s))
             (validate_bindings (failure_domain_map (ts_domains s)) [] (ts_bindings s)))) of
        Some e \<Rightarrow> Inl e
      | None \<Rightarrow> Inr \<lparr>lr_regions = sorted_regions (ts_regions s), lr_domains = sort_key fd_id (ts_domains s),
                   lr_bindings = sort_key binding_key (ts_bindings s)\<rparr>)"

definition from_declarations :: "region_declaration list \<Rightarrow> (location_error, location_registry) rust_result" where
  "from_declarations rs = from_snapshot \<lparr>ts_regions = rs, ts_domains = [], ts_bindings = []\<rparr>"

definition contains_region :: "location_registry \<Rightarrow> string \<Rightarrow> bool" where
  "contains_region R i = list_ex (\<lambda>r. rd_id r = i) (lr_regions R)"

definition region_of :: "location_registry \<Rightarrow> string \<Rightarrow> region_declaration option" where
  "region_of R i = find (\<lambda>r. rd_id r = i) (lr_regions R)"

definition failure_domain_of :: "location_registry \<Rightarrow> string \<Rightarrow> failure_domain option" where
  "failure_domain_of R i = find (\<lambda>d. fd_id d = i) (lr_domains R)"

definition contains_failure_domain :: "location_registry \<Rightarrow> string \<Rightarrow> bool" where
  "contains_failure_domain R i = list_ex (\<lambda>d. fd_id d = i) (lr_domains R)"

definition snapshot :: "location_registry \<Rightarrow> topology_snapshot" where
  "snapshot R = \<lparr>ts_regions = lr_regions R, ts_domains = lr_domains R, ts_bindings = lr_bindings R\<rparr>"

definition availability_domains_of :: "location_registry \<Rightarrow> string \<Rightarrow> string list" where
  "availability_domains_of R i = (case region_of R i of None \<Rightarrow> [] | Some r \<Rightarrow> rd_domains r)"

definition child_failure_domains :: "location_registry \<Rightarrow> string \<Rightarrow> failure_domain list" where
  "child_failure_domains R i = filter (\<lambda>d. fd_parent d = Some i) (lr_domains R)"

definition failure_domains_of_az :: "location_registry \<Rightarrow> string \<Rightarrow> failure_domain list" where
  "failure_domains_of_az R a = filter (\<lambda>d. fd_domain d = a) (lr_domains R)"

definition bindings_of :: "location_registry \<Rightarrow> string \<Rightarrow> topology_binding list" where
  "bindings_of R i = filter (\<lambda>b. tb_domain b = i) (lr_bindings R)"

definition bindings_of_target :: "location_registry \<Rightarrow> binding_target_kind \<Rightarrow> string \<Rightarrow> topology_binding list" where
  "bindings_of_target R k i = filter (\<lambda>b. tb_kind b = k \<and> tb_target b = i) (lr_bindings R)"

text \<open>The check of a row that is served; a class or kind that was read parses back, so the last
  check of the source never fails.\<close>

definition domain_validate_shape :: "failure_domain \<Rightarrow> location_error option" where
  "domain_validate_shape d =
     orelse (validate_failure_domain_id (fd_id d))
     (orelse (validate_failure_domain_name (fd_name d))
     (orelse (validate_metadata (fd_metadata d))
       (if \<not> valid_location_id (fd_domain d) then Some MalformedAvailabilityDomainId
        else case fd_parent d of
            None \<Rightarrow> None
          | Some p \<Rightarrow> if \<not> valid_location_id p then Some MalformedFailureDomainId else None)))"

definition binding_validate_shape :: "topology_binding \<Rightarrow> location_error option" where
  "binding_validate_shape b =
     (if \<not> valid_location_id (tb_domain b) then Some MalformedFailureDomainId
      else if \<not> valid_location_id (tb_target b) then Some InvalidBindingTargetId else None)"

section \<open>The store and the operations\<close>

type_synonym 'db topology_call = "'db \<Rightarrow> (kernel_error, unit) rust_result \<times> 'db"

record 'db topology_store =
  st_insert_region :: "string \<Rightarrow> audit_event option \<Rightarrow> 'db topology_call"
  st_delete_region :: "string \<Rightarrow> audit_event option \<Rightarrow> 'db topology_call"
  st_insert_az :: "string \<Rightarrow> string \<Rightarrow> audit_event option \<Rightarrow> 'db topology_call"
  st_delete_az :: "string \<Rightarrow> audit_event option \<Rightarrow> 'db topology_call"
  st_insert_domain :: "failure_domain \<Rightarrow> audit_event option \<Rightarrow> 'db topology_call"
  st_update_domain :: "failure_domain \<Rightarrow> u64 \<Rightarrow> audit_event option \<Rightarrow> 'db topology_call"
  st_delete_domain :: "string \<Rightarrow> u64 \<Rightarrow> audit_event option \<Rightarrow> 'db topology_call"
  st_insert_binding :: "topology_binding \<Rightarrow> audit_event option \<Rightarrow> 'db topology_call"
  st_delete_binding :: "topology_binding \<Rightarrow> audit_event option \<Rightarrow> 'db topology_call"
  st_record_audit :: "audit_event \<Rightarrow> 'db topology_call"

record 'db topology_world =
  tw_registry :: location_registry
  tw_store :: 'db

type_synonym 'db topology_act = "('db topology_world, topology_error, unit) effect"

definition stored :: "'db topology_call \<Rightarrow> 'db topology_act" where
  "stored f w = (case f (tw_store w) of (r, db) \<Rightarrow> (map_sum TopologyStoreError id r, w\<lparr>tw_store := db\<rparr>))"

definition remember :: "(location_registry \<Rightarrow> location_registry) \<Rightarrow> 'db topology_act" where
  "remember f w = (Inr (), w\<lparr>tw_registry := f (tw_registry w)\<rparr>)"

definition reject :: "location_error \<Rightarrow> 'db topology_act" where
  "reject e = fail_with (TopologyLocation e)"

definition replayed :: "'db topology_store \<Rightarrow> audit_event option \<Rightarrow> 'db topology_act" where
  "replayed S audit = (case audit of None \<Rightarrow> done_with () | Some a \<Rightarrow> stored (st_record_audit S a))"

definition add_region :: "string \<Rightarrow> location_registry \<Rightarrow> location_registry" where
  "add_region i R = R\<lparr>lr_regions := sort_key rd_id (lr_regions R @ [\<lparr>rd_id = i, rd_domains = []\<rparr>])\<rparr>"

definition declare_region ::
  "'db topology_store \<Rightarrow> string \<Rightarrow> audit_event option \<Rightarrow> 'db topology_act" where
  "declare_region S i audit w =
     (case validate_region_id i of
        Some e \<Rightarrow> reject e w
      | None \<Rightarrow>
          if contains_region (tw_registry w) i then replayed S audit w
          else chain (stored (st_insert_region S i audit)) (\<lambda>_. remember (add_region i)) w)"

definition drop_region :: "string \<Rightarrow> location_registry \<Rightarrow> location_registry" where
  "drop_region i R = R\<lparr>lr_regions := filter (\<lambda>r. rd_id r \<noteq> i) (lr_regions R)\<rparr>"

definition remove_region ::
  "'db topology_store \<Rightarrow> string \<Rightarrow> audit_event option \<Rightarrow> 'db topology_act" where
  "remove_region S i audit w =
     (case validate_region_id i of
        Some e \<Rightarrow> reject e w
      | None \<Rightarrow>
          if \<not> contains_region (tw_registry w) i then replayed S audit w
          else if (case region_of (tw_registry w) i of None \<Rightarrow> False | Some r \<Rightarrow> rd_domains r \<noteq> [])
          then reject RegionHasAvailabilityDomains w
          else chain (stored (st_delete_region S i audit)) (\<lambda>_. remember (drop_region i)) w)"

fun at_first :: "('a \<Rightarrow> bool) \<Rightarrow> ('a \<Rightarrow> 'a) \<Rightarrow> 'a list \<Rightarrow> 'a list" where
  "at_first P f [] = []"
| "at_first P f (x # xs) = (if P x then f x # xs else x # at_first P f xs)"

definition add_az :: "string \<Rightarrow> string \<Rightarrow> location_registry \<Rightarrow> location_registry" where
  "add_az i a R = R\<lparr>lr_regions := at_first (\<lambda>r. rd_id r = i) (\<lambda>r. r\<lparr>rd_domains := sort (rd_domains r @ [a])\<rparr>)
     (lr_regions R)\<rparr>"

definition declare_availability_domain ::
  "'db topology_store \<Rightarrow> string \<Rightarrow> string \<Rightarrow> audit_event option \<Rightarrow> 'db topology_act" where
  "declare_availability_domain S i a audit w =
     (case orelse (validate_region_id i) (validate_az_id a) of
        Some e \<Rightarrow> reject e w
      | None \<Rightarrow>
          if \<not> contains_region (tw_registry w) i then reject UnknownTopologyRegion w
          else case find (\<lambda>r. a \<in> set (rd_domains r)) (lr_regions (tw_registry w)) of
              Some r \<Rightarrow> if rd_id r = i then replayed S audit w else reject AmbiguousAvailabilityDomain w
            | None \<Rightarrow> chain (stored (st_insert_az S i a audit)) (\<lambda>_. remember (add_az i a)) w)"

definition drop_az :: "string \<Rightarrow> location_registry \<Rightarrow> location_registry" where
  "drop_az a R = R\<lparr>lr_regions := map (\<lambda>r. r\<lparr>rd_domains := filter (\<lambda>x. x \<noteq> a) (rd_domains r)\<rparr>) (lr_regions R)\<rparr>"

definition remove_availability_domain ::
  "'db topology_store \<Rightarrow> string \<Rightarrow> audit_event option \<Rightarrow> 'db topology_act" where
  "remove_availability_domain S a audit w =
     (case validate_az_id a of
        Some e \<Rightarrow> reject e w
      | None \<Rightarrow>
          if \<not> list_ex (\<lambda>r. a \<in> set (rd_domains r)) (lr_regions (tw_registry w)) then replayed S audit w
          else if list_ex (\<lambda>d. fd_domain d = a) (lr_domains (tw_registry w))
          then reject AvailabilityDomainHasFailureDomains w
          else chain (stored (st_delete_az S a audit)) (\<lambda>_. remember (drop_az a)) w)"

definition add_domain :: "failure_domain \<Rightarrow> location_registry \<Rightarrow> location_registry" where
  "add_domain d R =
     (if contains_failure_domain R (fd_id d) then R
      else R\<lparr>lr_domains := sort_key fd_id (lr_domains R @ [d])\<rparr>)"

definition create_check :: "location_registry \<Rightarrow> failure_domain \<Rightarrow> location_error option" where
  "create_check R d =
     orelse (validate_failure_domain_id (fd_id d))
       (if contains_failure_domain R (fd_id d) then Some DuplicateFailureDomain
        else validate_failure_domain_structure d (failure_domain_map (lr_domains R))
               (availability_domain_index (lr_regions R)))"

definition create_failure_domain ::
  "'db topology_store \<Rightarrow> failure_domain \<Rightarrow> audit_event option \<Rightarrow> 'db topology_act" where
  "create_failure_domain S d audit w =
     (case create_check (tw_registry w) d of
        Some e \<Rightarrow> reject e w
      | None \<Rightarrow>
          chain (stored (st_insert_domain S (d\<lparr>fd_generation := 1\<rparr>) audit))
            (\<lambda>_. remember (add_domain (d\<lparr>fd_generation := 1\<rparr>))) w)"

text \<open>The guard on the generation before and after the call of the store.\<close>

definition domain_at :: "location_registry \<Rightarrow> string \<Rightarrow> u64 \<Rightarrow> (location_error, failure_domain) rust_result" where
  "domain_at R i expected =
     (case failure_domain_of R i of
        None \<Rightarrow> Inl UnknownFailureDomain
      | Some d \<Rightarrow> if fd_generation d \<noteq> expected then Inl (StaleFailureDomainGeneration expected (fd_generation d))
                 else Inr d)"

definition remember_at ::
  "string \<Rightarrow> u64 \<Rightarrow> (location_registry \<Rightarrow> location_registry) \<Rightarrow> 'db topology_act" where
  "remember_at i expected f w =
     (case domain_at (tw_registry w) i expected of
        Inl e \<Rightarrow> reject e w
      | Inr _ \<Rightarrow> remember f w)"

definition put_domain :: "failure_domain \<Rightarrow> location_registry \<Rightarrow> location_registry" where
  "put_domain d R = R\<lparr>lr_domains := at_first (\<lambda>x. fd_id x = fd_id d) (\<lambda>_. d) (lr_domains R)\<rparr>"

definition update_failure_domain ::
  "'db topology_store \<Rightarrow> string \<Rightarrow> string \<Rightarrow> (string \<times> string) list \<Rightarrow> u64 \<Rightarrow> audit_event option \<Rightarrow> 'db topology_act"
  where
  "update_failure_domain S i name metadata expected audit w =
     (case domain_at (tw_registry w) i expected of
        Inl e \<Rightarrow> reject e w
      | Inr current \<Rightarrow>
     (case orelse (validate_failure_domain_name name) (validate_metadata metadata) of
        Some e \<Rightarrow> reject e w
      | None \<Rightarrow>
          (let d = current\<lparr>fd_name := name, fd_generation := expected + 1, fd_metadata := metadata\<rparr>
           in chain (stored (st_update_domain S d expected audit)) (\<lambda>_. remember_at i expected (put_domain d)) w)))"

definition drop_domain :: "string \<Rightarrow> location_registry \<Rightarrow> location_registry" where
  "drop_domain i R = R\<lparr>lr_domains := filter (\<lambda>d. fd_id d \<noteq> i) (lr_domains R)\<rparr>"

definition delete_failure_domain ::
  "'db topology_store \<Rightarrow> string \<Rightarrow> u64 \<Rightarrow> audit_event option \<Rightarrow> 'db topology_act" where
  "delete_failure_domain S i expected audit w =
     (case domain_at (tw_registry w) i expected of
        Inl e \<Rightarrow> reject e w
      | Inr _ \<Rightarrow>
          if list_ex (\<lambda>d. fd_parent d = Some i) (lr_domains (tw_registry w)) then reject FailureDomainHasChildren w
          else if list_ex (\<lambda>b. tb_domain b = i) (lr_bindings (tw_registry w)) then reject FailureDomainHasBindings w
          else chain (stored (st_delete_domain S i expected audit))
                 (\<lambda>_. remember_at i expected (drop_domain i)) w)"

definition add_binding :: "topology_binding \<Rightarrow> location_registry \<Rightarrow> location_registry" where
  "add_binding b R =
     (if b \<in> set (lr_bindings R) then R else R\<lparr>lr_bindings := sort_key binding_key (lr_bindings R @ [b])\<rparr>)"

definition bind_domain ::
  "'db topology_store \<Rightarrow> topology_binding \<Rightarrow> audit_event option \<Rightarrow> 'db topology_act" where
  "bind_domain S b audit w =
     (if \<not> contains_failure_domain (tw_registry w) (tb_domain b) then reject UnknownFailureDomain w
      else if \<not> valid_location_id (tb_target b) then reject InvalidBindingTargetId w
      else if b \<in> set (lr_bindings (tw_registry w)) then replayed S audit w
      else chain (stored (st_insert_binding S b audit)) (\<lambda>_. remember (add_binding b)) w)"

definition drop_binding :: "topology_binding \<Rightarrow> location_registry \<Rightarrow> location_registry" where
  "drop_binding b R = R\<lparr>lr_bindings := filter (\<lambda>x. x \<noteq> b) (lr_bindings R)\<rparr>"

definition unbind_domain ::
  "'db topology_store \<Rightarrow> topology_binding \<Rightarrow> audit_event option \<Rightarrow> 'db topology_act" where
  "unbind_domain S b audit w =
     (if b \<notin> set (lr_bindings (tw_registry w)) then replayed S audit w
      else chain (stored (st_delete_binding S b audit)) (\<lambda>_. remember (drop_binding b)) w)"

datatype topology_op =
    DeclareRegion string | RemoveRegion string | DeclareAz string string | RemoveAz string
  | CreateDomain failure_domain | UpdateDomain string string "(string \<times> string) list" u64
  | DeleteDomain string u64 | BindTarget topology_binding | UnbindTarget topology_binding

fun topology_step :: "'db topology_store \<Rightarrow> topology_op \<Rightarrow> audit_event option \<Rightarrow> 'db topology_act" where
  "topology_step S (DeclareRegion i) = declare_region S i"
| "topology_step S (RemoveRegion i) = remove_region S i"
| "topology_step S (DeclareAz i a) = declare_availability_domain S i a"
| "topology_step S (RemoveAz a) = remove_availability_domain S a"
| "topology_step S (CreateDomain d) = create_failure_domain S d"
| "topology_step S (UpdateDomain i name metadata g) = update_failure_domain S i name metadata g"
| "topology_step S (DeleteDomain i g) = delete_failure_domain S i g"
| "topology_step S (BindTarget b) = bind_domain S b"
| "topology_step S (UnbindTarget b) = unbind_domain S b"

definition topology_run ::
  "'db topology_store \<Rightarrow> (topology_op \<times> audit_event option) list \<Rightarrow> 'db topology_world \<Rightarrow> 'db topology_world" where
  "topology_run S xs w = foldl (\<lambda>w (x, audit). snd (topology_step S x audit w)) w xs"

end
