(* ===== verification/Location_Validity.thy ===== *)
theory Location_Validity
  imports Kernel_Location Rust_Collections
begin

text \<open>
  What the validation of a topology decides, and that a registry never leaves it: a declarative
  description of a valid snapshot, the hierarchy of its failure domains, and for every operation
  of the registry that the memory after it validates again, whatever the store answered.
\<close>

named_theorems location_checks \<open>what a check of the topology decides\<close>

section \<open>Checks\<close>

lemma orelse_None [location_checks]: "orelse a b = None \<longleftrightarrow> a = None \<and> b = None"
  by (cases a) (simp_all add: orelse_def)

lemma valid_not_empty [simp]: "\<not> valid_location_id []"
  by (simp add: valid_location_id_def)

lemma check_id [location_checks]:
  "validate_region_id i = None \<longleftrightarrow> valid_location_id i"
  "validate_az_id i = None \<longleftrightarrow> valid_location_id i"
  "validate_failure_domain_id i = None \<longleftrightarrow> valid_location_id i"
  by (auto simp: validate_region_id_def validate_az_id_def validate_failure_domain_id_def)

lemma first_error_None [location_checks]: "first_error f xs = None \<longleftrightarrow> (\<forall>x\<in>set xs. f x = None)"
  by (induction xs) (simp_all add: orelse_None)

lemma validate_azs_None:
  "validate_azs all seen as = None \<longleftrightarrow>
     (\<forall>a\<in>set as. valid_location_id a) \<and> distinct as \<and> set as \<inter> (set seen \<union> set all) = {}"
  by (induction as arbitrary: all seen) (auto simp: location_checks)

definition regions_ok :: "region_declaration list \<Rightarrow> bool" where
  "regions_ok rs \<longleftrightarrow>
     (\<forall>r\<in>set rs. valid_location_id (rd_id r) \<and> (\<forall>a\<in>set (rd_domains r). valid_location_id a))
     \<and> distinct (map rd_id rs) \<and> distinct (concat (map rd_domains rs))"

lemma validate_regions_from_None:
  "validate_regions_from seen all rs = None \<longleftrightarrow>
     regions_ok rs \<and> rd_id ` set rs \<inter> set seen = {} \<and> set (concat (map rd_domains rs)) \<inter> set all = {}"
  by (induction rs arbitrary: seen all) (auto simp: location_checks validate_azs_None regions_ok_def)

lemma validate_regions_None [location_checks]: "validate_region_declarations rs = None \<longleftrightarrow> regions_ok rs"
  by (simp add: validate_region_declarations_def validate_regions_from_None)

lemma az_index_None:
  "availability_domain_index rs a = None \<longleftrightarrow> a \<notin> set (concat (map rd_domains rs))"
  by (auto simp: availability_domain_index_def map_of_eq_None_iff image_iff)

lemma duplicate_domain_None:
  "duplicate_domain seen ds = None \<longleftrightarrow> distinct (map fd_id ds) \<and> fd_id ` set ds \<inter> set seen = {}"
  by (induction ds arbitrary: seen) auto

lemma validate_bindings_None:
  "validate_bindings ctx seen bs = None \<longleftrightarrow>
     (\<forall>b\<in>set bs. ctx (tb_domain b) \<noteq> None \<and> valid_location_id (tb_target b))
     \<and> distinct (map binding_key bs) \<and> binding_key ` set bs \<inter> binding_key ` set seen = {}"
  by (induction bs arbitrary: seen) auto

lemma domain_map_distinct:
  "distinct (map fd_id ds) \<Longrightarrow> failure_domain_map ds = map_of (map (\<lambda>d. (fd_id d, d)) ds)"
  unfolding failure_domain_map_def by (rule map_of_rev) (simp add: comp_def)

lemma domain_map_Some:
  "distinct (map fd_id ds) \<Longrightarrow> failure_domain_map ds i = Some d \<longleftrightarrow> d \<in> set ds \<and> fd_id d = i"
  by (subst domain_map_distinct, assumption) (subst map_of_eq_Some_iff, auto simp: comp_def)

lemma domain_map_None: "failure_domain_map ds i = None \<longleftrightarrow> i \<notin> fd_id ` set ds"
  by (auto simp: failure_domain_map_def map_of_eq_None_iff image_iff)

lemma sort_key_sorted: "sorted (map f xs) \<Longrightarrow> sort_key f xs = xs"
  by (induction xs) (auto simp: insort_is_Cons)

definition structures_ok :: "failure_domain list \<Rightarrow> (string \<rightharpoonup> string) \<Rightarrow> bool" where
  "structures_ok ds azs \<longleftrightarrow>
     (\<forall>d\<in>set ds. validate_failure_domain_structure d (failure_domain_map ds) azs = None)"

definition bindings_ok :: "failure_domain list \<Rightarrow> topology_binding list \<Rightarrow> bool" where
  "bindings_ok ds bs \<longleftrightarrow>
     (\<forall>b\<in>set bs. tb_domain b \<in> fd_id ` set ds \<and> valid_location_id (tb_target b)) \<and> distinct (map binding_key bs)"

definition snapshot_ok :: "topology_snapshot \<Rightarrow> bool" where
  "snapshot_ok s \<longleftrightarrow> regions_ok (ts_regions s) \<and> distinct (map fd_id (ts_domains s))
     \<and> structures_ok (ts_domains s) (availability_domain_index (ts_regions s))
     \<and> bindings_ok (ts_domains s) (ts_bindings s)"

lemma from_snapshot_iff:
  "from_snapshot s = Inr R \<longleftrightarrow> snapshot_ok s \<and>
     R = \<lparr>lr_regions = sorted_regions (ts_regions s), lr_domains = sort_key fd_id (ts_domains s),
          lr_bindings = sort_key binding_key (ts_bindings s)\<rparr>"
proof -
  have "orelse (validate_region_declarations (ts_regions s))
           (orelse (duplicate_domain [] (ts_domains s))
           (orelse (first_error (\<lambda>d. validate_failure_domain_structure d (failure_domain_map (ts_domains s))
                                     (availability_domain_index (ts_regions s))) (ts_domains s))
             (validate_bindings (failure_domain_map (ts_domains s)) [] (ts_bindings s)))) = None
        \<longleftrightarrow> snapshot_ok s"
    by (simp add: location_checks duplicate_domain_None validate_bindings_None domain_map_None snapshot_ok_def
        structures_ok_def bindings_ok_def conj_ac)
  then show ?thesis unfolding from_snapshot_def by (auto split: option.splits)
qed

definition sorted_registry :: "location_registry \<Rightarrow> bool" where
  "sorted_registry R \<longleftrightarrow> sorted (map rd_id (lr_regions R)) \<and> (\<forall>r\<in>set (lr_regions R). sorted (rd_domains r))
     \<and> sorted (map fd_id (lr_domains R)) \<and> sorted (map binding_key (lr_bindings R))"

definition registry_ok :: "location_registry \<Rightarrow> bool" where
  "registry_ok R \<longleftrightarrow> from_snapshot (snapshot R) = Inr R"

lemma sorted_regions_id:
  "sorted (map rd_id rs) \<Longrightarrow> \<forall>r\<in>set rs. sorted (rd_domains r) \<Longrightarrow> sorted_regions rs = rs"
proof -
  assume s: "sorted (map rd_id rs)" "\<forall>r\<in>set rs. sorted (rd_domains r)"
  then have "map (\<lambda>r. r\<lparr>rd_domains := sort (rd_domains r)\<rparr>) rs = rs" by (intro map_idI) (simp add: sorted_sort_id)
  with s show ?thesis by (simp add: sorted_regions_def sort_key_sorted)
qed

lemma registry_ok_iff: "registry_ok R \<longleftrightarrow> snapshot_ok (snapshot R) \<and> sorted_registry R"
proof
  assume "registry_ok R"
  then have ok: "snapshot_ok (snapshot R)" and R: "R = \<lparr>lr_regions = sorted_regions (lr_regions R),
      lr_domains = sort_key fd_id (lr_domains R), lr_bindings = sort_key binding_key (lr_bindings R)\<rparr>"
    by (simp_all add: registry_ok_def from_snapshot_iff snapshot_def)
  have "sorted_registry \<lparr>lr_regions = sorted_regions (lr_regions R),
      lr_domains = sort_key fd_id (lr_domains R), lr_bindings = sort_key binding_key (lr_bindings R)\<rparr>"
    by (simp add: sorted_registry_def sorted_regions_def)
  with ok R show "snapshot_ok (snapshot R) \<and> sorted_registry R" by simp
next
  assume "snapshot_ok (snapshot R) \<and> sorted_registry R"
  then show "registry_ok R"
    by (cases R) (simp add: registry_ok_def from_snapshot_iff snapshot_def sorted_registry_def sorted_regions_id
        sort_key_sorted)
qed

lemma contains_domain: "contains_failure_domain R i \<longleftrightarrow> i \<in> fd_id ` set (lr_domains R)"
  by (auto simp: contains_failure_domain_def list_ex_iff)

lemma contains_region_iff: "contains_region R i \<longleftrightarrow> i \<in> rd_id ` set (lr_regions R)"
  by (auto simp: contains_region_def list_ex_iff)

section \<open>The hierarchy\<close>

lemma structure_None:
  "validate_failure_domain_structure d ctx azs = None \<longleftrightarrow>
     valid_location_id (fd_id d) \<and> validate_failure_domain_name (fd_name d) = None
     \<and> validate_metadata (fd_metadata d) = None \<and> azs (fd_domain d) \<noteq> None
     \<and> (\<forall>p. fd_parent d = Some p \<longrightarrow> p \<noteq> fd_id d
          \<and> (\<exists>q. ctx p = Some q \<and> fd_domain q = fd_domain d \<and> class_rank (fd_class q) \<le> class_rank (fd_class d)
               \<and> walk_parents ctx [fd_id d] q 2 = None))"
  by (auto simp: validate_failure_domain_structure_def location_checks not_less split: option.splits if_splits)

definition parent_steps :: "failure_domain list \<Rightarrow> (string \<times> string) set" where
  "parent_steps ds = {(fd_id d, p) |d p. d \<in> set ds \<and> fd_parent d = Some p}"

lemma no_steps_from: "y \<notin> fd_id ` set ds \<Longrightarrow> (y, x) \<in> parent_steps ds ^^ m \<Longrightarrow> m = 0 \<and> x = y"
proof (cases m)
  case (Suc k)
  assume "y \<notin> fd_id ` set ds" "(y, x) \<in> parent_steps ds ^^ m"
  with Suc obtain z where "(y, z) \<in> parent_steps ds" by (metis relpow_Suc_D2)
  with \<open>y \<notin> fd_id ` set ds\<close> show ?thesis by (auto simp: parent_steps_def)
qed simp

lemma walk_avoids:
  assumes "distinct (map fd_id ds)"
  shows "walk_parents (failure_domain_map ds) visited current depth = None \<Longrightarrow> current \<in> set ds \<Longrightarrow>
    (fd_id current, x) \<in> (parent_steps ds)\<^sup>* \<Longrightarrow> x \<in> fd_id ` set ds \<Longrightarrow> x \<notin> set visited"
proof (induction "failure_domain_map ds" visited current depth rule: walk_parents.induct)
  case (1 visited current depth)
  then have fresh: "fd_id current \<notin> set visited" "\<not> depth > 64"
    by (auto simp: walk_parents.simps [of _ visited current] split: if_splits)
  show ?case
  proof (cases "x = fd_id current")
    case False
    with "1.prems"(3) obtain y where y: "(fd_id current, y) \<in> parent_steps ds" "(y, x) \<in> (parent_steps ds)\<^sup>*"
      by (metis converse_rtranclE)
    then have p: "fd_parent current = Some y"
      using "1.prems"(2) assms by (auto simp: parent_steps_def distinct_map dest: inj_onD)
    have "y \<in> fd_id ` set ds"
    proof (rule ccontr)
      assume "y \<notin> fd_id ` set ds"
      then have "x = y" using y(2) no_steps_from by (metis rtrancl_power)
      with "1.prems"(4) \<open>y \<notin> fd_id ` set ds\<close> show False by simp
    qed
    then obtain q where q: "failure_domain_map ds y = Some q" "q \<in> set ds" "fd_id q = y"
      using assms by (auto simp: domain_map_Some)
    with "1.prems"(1) fresh p have "walk_parents (failure_domain_map ds) (fd_id current # visited) q (depth + 1) = None"
      by (simp add: walk_parents.simps [of _ visited current])
    then have "x \<notin> set (fd_id current # visited)"
      using "1.hyps" [OF fresh p q(1)] q y(2) "1.prems"(4) by simp
    then show ?thesis by simp
  qed (use fresh in simp)
qed

lemma walk_depth:
  assumes "distinct (map fd_id ds)"
  shows "walk_parents (failure_domain_map ds) visited current depth = None \<Longrightarrow> current \<in> set ds \<Longrightarrow>
    (fd_id current, x) \<in> parent_steps ds ^^ n \<Longrightarrow> x \<in> fd_id ` set ds \<Longrightarrow> depth + n \<le> 64"
proof (induction "failure_domain_map ds" visited current depth arbitrary: n rule: walk_parents.induct)
  case (1 visited current depth)
  then have fresh: "fd_id current \<notin> set visited" "\<not> depth > 64"
    by (auto simp: walk_parents.simps [of _ visited current] split: if_splits)
  show ?case
  proof (cases n)
    case (Suc m)
    with "1.prems"(3) obtain y where y: "(fd_id current, y) \<in> parent_steps ds" "(y, x) \<in> parent_steps ds ^^ m"
      by (metis relpow_Suc_D2)
    then have p: "fd_parent current = Some y"
      using "1.prems"(2) assms by (auto simp: parent_steps_def distinct_map dest: inj_onD)
    have "y \<in> fd_id ` set ds"
    proof (rule ccontr)
      assume "y \<notin> fd_id ` set ds"
      then have "x = y" using y(2) no_steps_from by metis
      with "1.prems"(4) \<open>y \<notin> fd_id ` set ds\<close> show False by simp
    qed
    then obtain q where q: "failure_domain_map ds y = Some q" "q \<in> set ds" "fd_id q = y"
      using assms by (auto simp: domain_map_Some)
    with "1.prems"(1) fresh p have "walk_parents (failure_domain_map ds) (fd_id current # visited) q (depth + 1) = None"
      by (simp add: walk_parents.simps [of _ visited current])
    then have "depth + 1 + m \<le> 64"
      using "1.hyps" [OF fresh p q(1)] q y(2) "1.prems"(4) by simp
    with Suc show ?thesis by simp
  qed (use fresh in simp)
qed

text \<open>What a valid hierarchy is: no domain is its own ancestor, a chain of parents has at most 64
  domains, and along it the availability domain is the same and the class does not get finer.\<close>

definition sound_hierarchy :: "failure_domain list \<Rightarrow> bool" where
  "sound_hierarchy ds \<longleftrightarrow> acyclic (parent_steps ds)
     \<and> (\<forall>d\<in>set ds. \<forall>p. fd_parent d = Some p \<longrightarrow> p \<in> fd_id ` set ds)
     \<and> (\<forall>i j n. (i, j) \<in> parent_steps ds ^^ n \<longrightarrow> n < 64)
     \<and> (\<forall>d\<in>set ds. \<forall>q\<in>set ds. (fd_id d, fd_id q) \<in> (parent_steps ds)\<^sup>* \<longrightarrow>
           fd_domain q = fd_domain d \<and> class_rank (fd_class q) \<le> class_rank (fd_class d))"

lemma sound_hierarchy_cong: "set ds = set ds' \<Longrightarrow> sound_hierarchy ds \<longleftrightarrow> sound_hierarchy ds'"
  unfolding sound_hierarchy_def parent_steps_def by (simp only:)

lemma same_domain:
  "distinct (map fd_id ds) \<Longrightarrow> x \<in> set ds \<Longrightarrow> y \<in> set ds \<Longrightarrow> fd_id x = fd_id y \<Longrightarrow> x = y"
  by (auto simp: distinct_map dest: inj_onD)

lemma structure_parent:
  assumes "distinct (map fd_id ds)" "structures_ok ds azs" "d \<in> set ds" "fd_parent d = Some p"
  obtains q where "q \<in> set ds" "fd_id q = p" "fd_domain q = fd_domain d"
    "class_rank (fd_class q) \<le> class_rank (fd_class d)" "walk_parents (failure_domain_map ds) [fd_id d] q 2 = None"
  using assms by (force simp: structures_ok_def structure_None domain_map_Some)

lemma hierarchy_acyclic:
  assumes "distinct (map fd_id ds)" "structures_ok ds azs"
  shows "acyclic (parent_steps ds)"
proof (rule acyclicI, intro allI notI)
  fix i
  assume "(i, i) \<in> (parent_steps ds)\<^sup>+"
  then obtain p where p: "(i, p) \<in> parent_steps ds" "(p, i) \<in> (parent_steps ds)\<^sup>*" by (metis tranclD)
  then obtain d where d: "d \<in> set ds" "fd_id d = i" "fd_parent d = Some p" by (auto simp: parent_steps_def)
  with assms obtain q where "q \<in> set ds" "fd_id q = p" "walk_parents (failure_domain_map ds) [fd_id d] q 2 = None"
    by (metis structure_parent)
  with walk_avoids [OF assms(1) this(3,1)] p(2) d show False by auto
qed

lemma hierarchy_depth:
  assumes "distinct (map fd_id ds)" "structures_ok ds azs" "(i, j) \<in> parent_steps ds ^^ n"
  shows "n < 64"
proof (cases n)
  case (Suc m)
  with assms(3) obtain p where p: "(i, p) \<in> parent_steps ds" "(p, j) \<in> parent_steps ds ^^ m" by (metis relpow_Suc_D2)
  then obtain d where d: "d \<in> set ds" "fd_id d = i" "fd_parent d = Some p" by (auto simp: parent_steps_def)
  with assms obtain q where q: "q \<in> set ds" "fd_id q = p" "walk_parents (failure_domain_map ds) [fd_id d] q 2 = None"
    by (metis structure_parent)
  have "j \<in> fd_id ` set ds"
  proof -
    from assms(3) Suc obtain k where "(k, j) \<in> parent_steps ds" by (metis relpow_Suc_E)
    then obtain e where "e \<in> set ds" "fd_parent e = Some j" by (auto simp: parent_steps_def)
    with assms(1,2) show ?thesis by (metis structure_parent imageI)
  qed
  with walk_depth [OF assms(1) q(3,1)] p(2) q(2) have "2 + m \<le> 64" by simp
  with Suc show ?thesis by simp
qed simp

lemma hierarchy_coarser:
  assumes "distinct (map fd_id ds)" "structures_ok ds azs"
  shows "(i, j) \<in> (parent_steps ds)\<^sup>* \<Longrightarrow> d \<in> set ds \<Longrightarrow> q \<in> set ds \<Longrightarrow> fd_id d = i \<Longrightarrow> fd_id q = j \<Longrightarrow>
    fd_domain q = fd_domain d \<and> class_rank (fd_class q) \<le> class_rank (fd_class d)"
proof (induction arbitrary: d rule: converse_rtrancl_induct)
  case base
  then have "d = q" using assms(1) by (auto simp: distinct_map dest: inj_onD)
  then show ?case by simp
next
  case (step i p)
  from step.hyps(1) step.prems(1,3) assms(1) have "fd_parent d = Some p"
    by (auto simp: parent_steps_def distinct_map dest: inj_onD)
  with assms step.prems(1) obtain e where e: "e \<in> set ds" "fd_id e = p" "fd_domain e = fd_domain d"
      "class_rank (fd_class e) \<le> class_rank (fd_class d)"
    by (metis structure_parent)
  with step.IH [OF e(1) step.prems(2) e(2) step.prems(4)] show ?case by simp
qed

lemma structures_sound:
  assumes "distinct (map fd_id ds)" "structures_ok ds azs"
  shows "sound_hierarchy ds"
proof -
  have "p \<in> fd_id ` set ds" if "d \<in> set ds" "fd_parent d = Some p" for d p
    using assms that by (metis structure_parent imageI)
  then show ?thesis unfolding sound_hierarchy_def
    using hierarchy_acyclic [OF assms] hierarchy_depth [OF assms] hierarchy_coarser [OF assms] by blast
qed

lemma sorted_regions_concat:
  "mset (concat (map rd_domains (sorted_regions rs))) = mset (concat (map rd_domains rs))"
  by (simp add: sorted_regions_def mset_concat multiset.map_comp comp_def flip: sum_mset_sum_list)

text \<open>
  C34: A topology that validates is a sound hierarchy. When a snapshot is accepted, whatever it
  held, the registry's failure domains are those of the snapshot; none is its own ancestor,
  every parent exists, chains have at most 64 domains, and along a chain the availability domain
  stays the same and the class never gets finer; every domain is in a declared availability
  domain, no identifier is declared twice, and every binding is of a domain that exists.
\<close>

theorem accepted_topology_is_sound:
  assumes "from_snapshot s = Inr R"
  shows "set (lr_domains R) = set (ts_domains s) \<and> sound_hierarchy (lr_domains R)
    \<and> distinct (map fd_id (lr_domains R)) \<and> distinct (concat (map rd_domains (lr_regions R)))
    \<and> (\<forall>d\<in>set (lr_domains R). \<exists>r\<in>set (lr_regions R). fd_domain d \<in> set (rd_domains r))
    \<and> (\<forall>b\<in>set (lr_bindings R). contains_failure_domain R (tb_domain b))"
proof -
  from assms have ok: "snapshot_ok s" and R: "R = \<lparr>lr_regions = sorted_regions (ts_regions s),
      lr_domains = sort_key fd_id (ts_domains s), lr_bindings = sort_key binding_key (ts_bindings s)\<rparr>"
    by (simp_all add: from_snapshot_iff)
  have "sound_hierarchy (ts_domains s)" using ok unfolding snapshot_ok_def by (blast intro: structures_sound)
  then have "sound_hierarchy (lr_domains R)" using sound_hierarchy_cong [of "lr_domains R" "ts_domains s"] by (simp add: R)
  moreover have "distinct (map fd_id (lr_domains R))"
    using ok by (simp add: R snapshot_ok_def distinct_map)
  moreover have "distinct (concat (map rd_domains (lr_regions R)))"
  proof -
    have "distinct (concat (map rd_domains (ts_regions s)))" using ok by (simp add: snapshot_ok_def regions_ok_def)
    then have "distinct (concat (map rd_domains (sorted_regions (ts_regions s))))"
      using mset_eq_imp_distinct_iff [OF sorted_regions_concat] by blast
    then show ?thesis by (simp add: R)
  qed
  moreover have "\<exists>r\<in>set (lr_regions R). fd_domain d \<in> set (rd_domains r)" if "d \<in> set (lr_domains R)" for d
  proof -
    from that ok obtain r where "r \<in> set (ts_regions s)" "fd_domain d \<in> set (rd_domains r)"
      by (auto simp: R snapshot_ok_def structures_ok_def structure_None az_index_None)
    then show ?thesis by (auto simp: R sorted_regions_def)
  qed
  moreover have "contains_failure_domain R (tb_domain b)" if "b \<in> set (lr_bindings R)" for b
    using that ok by (simp add: R snapshot_ok_def bindings_ok_def contains_domain)
  ultimately show ?thesis by (simp add: R)
qed

section \<open>The memory stays valid\<close>

definition same_place :: "failure_domain \<Rightarrow> failure_domain \<Rightarrow> bool" where
  "same_place x y \<longleftrightarrow> fd_id x = fd_id y \<and> fd_parent x = fd_parent y \<and> fd_domain x = fd_domain y
     \<and> fd_class x = fd_class y"

text \<open>\<open>placed_in A ds ds'\<close>: the domains of \<open>A\<close>, with their ancestors, are at the same places in both.\<close>

definition placed_in :: "string set \<Rightarrow> failure_domain list \<Rightarrow> failure_domain list \<Rightarrow> bool" where
  "placed_in A ds ds' \<longleftrightarrow> distinct (map fd_id ds) \<and> distinct (map fd_id ds')
     \<and> (\<forall>i\<in>A. \<exists>x\<in>set ds. \<exists>y\<in>set ds'. fd_id x = i \<and> same_place x y \<and> (\<forall>p. fd_parent x = Some p \<longrightarrow> p \<in> A))"

lemma placed_inE:
  assumes "placed_in A ds ds'" "i \<in> A"
  obtains x y where "failure_domain_map ds i = Some x" "failure_domain_map ds' i = Some y" "same_place x y"
    "\<And>p. fd_parent x = Some p \<Longrightarrow> p \<in> A"
  using assms by (fastforce simp: placed_in_def domain_map_Some same_place_def)

lemma walk_placed:
  assumes "placed_in A ds ds'"
  shows "same_place x y \<Longrightarrow> (\<And>p. fd_parent x = Some p \<Longrightarrow> p \<in> A) \<Longrightarrow>
    walk_parents (failure_domain_map ds) visited x depth = walk_parents (failure_domain_map ds') visited y depth"
proof (induction "failure_domain_map ds" visited x depth arbitrary: y rule: walk_parents.induct)
  case (1 visited x depth)
  show ?case
  proof (cases "fd_id x \<in> set visited \<or> depth > 64 \<or> fd_parent x = None")
    case True
    with "1.prems"(1) show ?thesis
      by (subst (1 2) walk_parents.simps) (auto simp: same_place_def)
  next
    case False
    then obtain p where p: "fd_parent x = Some p" "p \<in> A" using "1.prems"(2) by auto
    from assms p(2) obtain u v where uv: "failure_domain_map ds p = Some u" "failure_domain_map ds' p = Some v"
        "same_place u v" "\<And>q. fd_parent u = Some q \<Longrightarrow> q \<in> A" by (metis placed_inE)
    have "walk_parents (failure_domain_map ds) (fd_id x # visited) u (depth + 1)
        = walk_parents (failure_domain_map ds') (fd_id x # visited) v (depth + 1)"
      using "1.hyps" [OF _ _ p(1) uv(1,3,4)] False by blast
    moreover have "fd_parent y = Some p" "fd_id y = fd_id x" using p(1) "1.prems"(1) by (simp_all add: same_place_def)
    ultimately show ?thesis using False p(1) uv(1,2) by (subst (1 2) walk_parents.simps) simp
  qed
qed

lemma structure_placed:
  assumes "placed_in A ds ds'" "validate_failure_domain_structure d (failure_domain_map ds) azs = None"
    "\<And>p. fd_parent d = Some p \<Longrightarrow> p \<in> A" "azs' (fd_domain d) \<noteq> None"
  shows "validate_failure_domain_structure d (failure_domain_map ds') azs' = None"
proof -
  have "\<exists>q. failure_domain_map ds' p = Some q \<and> fd_domain q = fd_domain d \<and> class_rank (fd_class q) \<le> class_rank (fd_class d)
      \<and> walk_parents (failure_domain_map ds') [fd_id d] q 2 = None" if p: "fd_parent d = Some p" for p
  proof -
    from assms(1) assms(3) [OF p] obtain u v where uv: "failure_domain_map ds p = Some u"
        "failure_domain_map ds' p = Some v" "same_place u v" "\<And>q. fd_parent u = Some q \<Longrightarrow> q \<in> A"
      by (metis placed_inE)
    with walk_placed [OF assms(1) uv(3,4), of "[fd_id d]" 2] assms(2) p show ?thesis
      by (simp add: structure_None same_place_def)
  qed
  with assms show ?thesis by (simp add: structure_None)
qed

lemma placed_self:
  assumes "distinct (map fd_id ds)" "distinct (map fd_id ds')" "set ds \<subseteq> set ds'" "structures_ok ds azs"
  shows "placed_in (fd_id ` set ds) ds ds'"
proof -
  have "p \<in> fd_id ` set ds" if "d \<in> set ds" "fd_parent d = Some p" for d p
    using assms(1,4) that by (metis structure_parent imageI)
  with assms show ?thesis by (fastforce simp: placed_in_def same_place_def)
qed

lemma az_declared: "availability_domain_index rs a \<noteq> None \<longleftrightarrow> (\<exists>r\<in>set rs. a \<in> set (rd_domains r))"
  using az_index_None [of rs a] by auto

lemma registry_okE:
  assumes "registry_ok R"
  obtains "regions_ok (lr_regions R)" "distinct (map fd_id (lr_domains R))"
    "structures_ok (lr_domains R) (availability_domain_index (lr_regions R))"
    "bindings_ok (lr_domains R) (lr_bindings R)" "sorted_registry R"
  using assms by (simp add: registry_ok_iff snapshot_ok_def snapshot_def)

lemma registry_okI:
  "regions_ok (lr_regions R) \<Longrightarrow> distinct (map fd_id (lr_domains R)) \<Longrightarrow>
   structures_ok (lr_domains R) (availability_domain_index (lr_regions R)) \<Longrightarrow>
   bindings_ok (lr_domains R) (lr_bindings R) \<Longrightarrow> sorted_registry R \<Longrightarrow> registry_ok R"
  by (simp add: registry_ok_iff snapshot_ok_def snapshot_def)

lemma structures_regions:
  assumes "structures_ok ds (availability_domain_index rs)"
    and "\<And>d r. d \<in> set ds \<Longrightarrow> r \<in> set rs \<Longrightarrow> fd_domain d \<in> set (rd_domains r) \<Longrightarrow>
      \<exists>r'\<in>set rs'. fd_domain d \<in> set (rd_domains r')"
  shows "structures_ok ds (availability_domain_index rs')"
  unfolding structures_ok_def
proof
  fix d
  assume d: "d \<in> set ds"
  with assms(1) have s: "validate_failure_domain_structure d (failure_domain_map ds) (availability_domain_index rs) = None"
    by (simp add: structures_ok_def)
  then have "availability_domain_index rs (fd_domain d) \<noteq> None" unfolding structure_None by blast
  with assms(2) [OF d] have "availability_domain_index rs' (fd_domain d) \<noteq> None" unfolding az_declared by blast
  with s show "validate_failure_domain_structure d (failure_domain_map ds) (availability_domain_index rs') = None"
    unfolding structure_None by blast
qed

lemma concat_filtered: "(\<And>x. x \<in> set xs \<Longrightarrow> \<not> P x \<Longrightarrow> f x = []) \<Longrightarrow> concat (map f (filter P xs)) = concat (map f xs)"
  by (induction xs) auto

lemma add_region_ok:
  assumes "registry_ok R" "valid_location_id i" "\<not> contains_region R i"
  shows "registry_ok (add_region i R)"
  using assms(1)
proof (rule registry_okE)
  assume r: "regions_ok (lr_regions R)" "distinct (map fd_id (lr_domains R))"
    "structures_ok (lr_domains R) (availability_domain_index (lr_regions R))"
    "bindings_ok (lr_domains R) (lr_bindings R)" "sorted_registry R"
  let ?rs = "sort_key rd_id (lr_regions R @ [\<lparr>rd_id = i, rd_domains = []\<rparr>])"
  have "mset (concat (map rd_domains ?rs)) = mset (concat (map rd_domains (lr_regions R)))"
    by (simp add: mset_concat flip: sum_mset_sum_list)
  then have "distinct (concat (map rd_domains ?rs))"
    using r(1) mset_eq_imp_distinct_iff unfolding regions_ok_def by blast
  moreover have "\<lparr>rd_id = i, rd_domains = []\<rparr> \<notin> set (lr_regions R)"
    using assms(3) by (force simp: contains_region_iff)
  ultimately have "regions_ok ?rs" using r(1) assms(2,3) by (auto simp: regions_ok_def contains_region_iff distinct_map)
  moreover have "structures_ok (lr_domains R) (availability_domain_index ?rs)"
    using r(3) by (rule structures_regions) auto
  ultimately show ?thesis
    using r by (intro registry_okI) (auto simp: add_region_def sorted_registry_def)
qed

lemma drop_region_ok:
  assumes "registry_ok R" "availability_domains_of R i = []"
  shows "registry_ok (drop_region i R)"
  using assms(1)
proof (rule registry_okE)
  assume r: "regions_ok (lr_regions R)" "distinct (map fd_id (lr_domains R))"
    "structures_ok (lr_domains R) (availability_domain_index (lr_regions R))"
    "bindings_ok (lr_domains R) (lr_bindings R)" "sorted_registry R"
  let ?rs = "filter (\<lambda>r. rd_id r \<noteq> i) (lr_regions R)"
  have empty: "rd_domains x = []" if "x \<in> set (lr_regions R)" "rd_id x = i" for x
  proof -
    have "find (\<lambda>r. rd_id r = i) (lr_regions R) \<noteq> None" using that by (auto simp: find_None_iff)
    then obtain y where y: "find (\<lambda>r. rd_id r = i) (lr_regions R) = Some y" by auto
    then have "y \<in> set (lr_regions R)" "rd_id y = i" by (auto simp: find_Some_iff)
    moreover have "inj_on rd_id (set (lr_regions R))" using r(1) by (simp add: regions_ok_def distinct_map)
    ultimately have "y = x" using that by (metis inj_onD)
    with y assms(2) show ?thesis by (simp add: availability_domains_of_def region_of_def)
  qed
  have "concat (map rd_domains ?rs) = concat (map rd_domains (lr_regions R))"
    using empty by (intro concat_filtered) auto
  then have "regions_ok ?rs" using r(1) by (simp add: regions_ok_def distinct_map_filter) blast
  moreover have "structures_ok (lr_domains R) (availability_domain_index ?rs)"
    using r(3) by (rule structures_regions) (use empty in force)
  ultimately show ?thesis
    using r by (intro registry_okI) (auto simp: drop_region_def sorted_registry_def sorted_filter)
qed

lemma at_first_unique:
  "distinct (map key xs) \<Longrightarrow> at_first (\<lambda>x. key x = k) f xs = map (\<lambda>x. if key x = k then f x else x) xs"
proof (induction xs)
  case (Cons x xs)
  show ?case
  proof (cases "key x = k")
    case True
    with Cons.prems have "\<forall>y\<in>set xs. key y \<noteq> k" by (metis distinct.simps(2) image_eqI list.set_map list.simps(9))
    then have "map (\<lambda>x. if key x = k then f x else x) xs = xs" by (simp add: map_idI)
    with True show ?thesis by simp
  qed (use Cons in simp)
qed simp

definition with_az :: "string \<Rightarrow> string \<Rightarrow> region_declaration \<Rightarrow> region_declaration" where
  "with_az i a r = (if rd_id r = i then r\<lparr>rd_domains := sort (rd_domains r @ [a])\<rparr> else r)"

lemma with_az_id [simp]: "rd_id (with_az i a r) = rd_id r"
  by (simp add: with_az_def)

lemma with_az_mem: "x \<in> set (rd_domains r) \<Longrightarrow> x \<in> set (rd_domains (with_az i a r))"
  by (simp add: with_az_def)

lemma with_az_sorted: "sorted (rd_domains r) \<Longrightarrow> sorted (rd_domains (with_az i a r))"
  by (simp add: with_az_def)

lemma add_az_regions:
  "regions_ok (lr_regions R) \<Longrightarrow> add_az i a R = R\<lparr>lr_regions := map (with_az i a) (lr_regions R)\<rparr>"
  using at_first_unique [of rd_id "lr_regions R" i "\<lambda>r. r\<lparr>rd_domains := sort (rd_domains r @ [a])\<rparr>"]
  by (simp add: add_az_def regions_ok_def with_az_def cong: map_cong)

lemma with_az_other: "i \<notin> rd_id ` set rs \<Longrightarrow> map (with_az i a) rs = rs"
  by (intro map_idI) (auto simp: with_az_def)

lemma with_az_concat:
  "distinct (map rd_id rs) \<Longrightarrow> i \<in> rd_id ` set rs \<Longrightarrow>
   mset (concat (map rd_domains (map (with_az i a) rs))) = add_mset a (mset (concat (map rd_domains rs)))"
proof (induction rs)
  case (Cons r rs)
  show ?case
  proof (cases "rd_id r = i")
    case True
    with Cons.prems have "map (with_az i a) rs = rs" by (intro with_az_other) auto
    with True show ?thesis by (simp add: with_az_def [of i a r] del: map_map)
  qed (use Cons in \<open>auto simp: with_az_def [of i a r] simp del: map_map\<close>)
qed simp

lemma add_az_ok:
  assumes "registry_ok R" "valid_location_id a" "contains_region R i"
    "\<forall>r\<in>set (lr_regions R). a \<notin> set (rd_domains r)"
  shows "registry_ok (add_az i a R)"
  using assms(1)
proof (rule registry_okE)
  assume r: "regions_ok (lr_regions R)" "distinct (map fd_id (lr_domains R))"
    "structures_ok (lr_domains R) (availability_domain_index (lr_regions R))"
    "bindings_ok (lr_domains R) (lr_bindings R)" "sorted_registry R"
  let ?rs = "map (with_az i a) (lr_regions R)"
  have "mset (concat (map rd_domains ?rs)) = mset (a # concat (map rd_domains (lr_regions R)))"
    using r(1) assms(3) with_az_concat [of "lr_regions R" i a] by (simp add: regions_ok_def contains_region_iff)
  moreover have "distinct (a # concat (map rd_domains (lr_regions R)))" using r(1) assms(4) by (simp add: regions_ok_def)
  ultimately have "distinct (concat (map rd_domains ?rs))" using mset_eq_imp_distinct_iff by blast
  moreover have "map rd_id ?rs = map rd_id (lr_regions R)" by (simp add: comp_def)
  moreover have "\<forall>x\<in>set ?rs. valid_location_id (rd_id x) \<and> (\<forall>y\<in>set (rd_domains x). valid_location_id y)"
    using r(1) assms(2) by (auto simp: regions_ok_def with_az_def)
  ultimately have ok: "regions_ok ?rs" using r(1) unfolding regions_ok_def by (simp del: map_map)
  have "structures_ok (lr_domains R) (availability_domain_index ?rs)"
    using r(3) by (rule structures_regions) (metis with_az_mem image_eqI list.set_map)
  moreover have "sorted_registry (R\<lparr>lr_regions := ?rs\<rparr>)"
    using r(5) by (auto simp: sorted_registry_def comp_def with_az_sorted)
  ultimately show ?thesis
    unfolding add_az_regions [OF r(1)] using r ok by (intro registry_okI) simp_all
qed

lemma drop_az_ok:
  assumes "registry_ok R" "\<forall>d\<in>set (lr_domains R). fd_domain d \<noteq> a"
  shows "registry_ok (drop_az a R)"
  using assms(1)
proof (rule registry_okE)
  assume r: "regions_ok (lr_regions R)" "distinct (map fd_id (lr_domains R))"
    "structures_ok (lr_domains R) (availability_domain_index (lr_regions R))"
    "bindings_ok (lr_domains R) (lr_bindings R)" "sorted_registry R"
  let ?rs = "map (\<lambda>r. r\<lparr>rd_domains := filter (\<lambda>x. x \<noteq> a) (rd_domains r)\<rparr>) (lr_regions R)"
  have "concat (map rd_domains ?rs) = filter (\<lambda>x. x \<noteq> a) (concat (map rd_domains (lr_regions R)))"
    by (simp add: filter_concat comp_def)
  then have "distinct (concat (map rd_domains ?rs))" using r(1) by (simp only: regions_ok_def distinct_filter)
  moreover have "map rd_id ?rs = map rd_id (lr_regions R)" by (simp add: comp_def)
  moreover have "\<forall>x\<in>set ?rs. valid_location_id (rd_id x) \<and> (\<forall>y\<in>set (rd_domains x). valid_location_id y)"
    using r(1) by (auto simp: regions_ok_def)
  ultimately have "regions_ok ?rs" using r(1) unfolding regions_ok_def by (simp del: map_map)
  moreover have "structures_ok (lr_domains R) (availability_domain_index ?rs)"
    using r(3) by (rule structures_regions) (use assms(2) in auto)
  moreover have "sorted_registry (drop_az a R)"
    using r(5) by (auto simp: sorted_registry_def drop_az_def comp_def sorted_wrt_filter)
  ultimately show ?thesis using r by (intro registry_okI) (simp_all add: drop_az_def)
qed

lemma bindings_domains:
  "bindings_ok ds bs \<Longrightarrow> fd_id ` set ds \<subseteq> fd_id ` set ds' \<Longrightarrow> bindings_ok ds' bs"
  by (auto simp: bindings_ok_def)

lemma add_domain_ok:
  assumes "registry_ok R" "\<not> contains_failure_domain R (fd_id d)"
    "validate_failure_domain_structure d (failure_domain_map (lr_domains R))
       (availability_domain_index (lr_regions R)) = None"
  shows "registry_ok (add_domain d R)"
  using assms(1)
proof (rule registry_okE)
  assume r: "regions_ok (lr_regions R)" "distinct (map fd_id (lr_domains R))"
    "structures_ok (lr_domains R) (availability_domain_index (lr_regions R))"
    "bindings_ok (lr_domains R) (lr_bindings R)" "sorted_registry R"
  let ?azs = "availability_domain_index (lr_regions R)"
  let ?ds = "sort_key fd_id (lr_domains R @ [d])"
  have fresh: "fd_id d \<notin> fd_id ` set (lr_domains R)" using assms(2) by (simp add: contains_domain)
  then have "distinct (map fd_id (lr_domains R @ [d]))" using r(2) by simp
  then have dist: "distinct (map fd_id ?ds)" by (metis mset_map mset_sort mset_eq_imp_distinct_iff)
  have placed: "placed_in (fd_id ` set (lr_domains R)) (lr_domains R) ?ds"
    using r(2) dist r(3) by (intro placed_self) auto
  have "validate_failure_domain_structure x (failure_domain_map ?ds) ?azs = None" if "x \<in> set ?ds" for x
    using placed
  proof (rule structure_placed)
    show s: "validate_failure_domain_structure x (failure_domain_map (lr_domains R)) ?azs = None"
      using that r(3) assms(3) by (auto simp: structures_ok_def)
    then show "?azs (fd_domain x) \<noteq> None" unfolding structure_None by blast
    show "p \<in> fd_id ` set (lr_domains R)" if "fd_parent x = Some p" for p
      using s that domain_map_None [of "lr_domains R" p] unfolding structure_None by fastforce
  qed
  then have "structures_ok ?ds ?azs" by (simp add: structures_ok_def)
  moreover have "bindings_ok ?ds (lr_bindings R)" using r(4) by (rule bindings_domains) auto
  ultimately show ?thesis
    using r dist assms(2) by (intro registry_okI) (auto simp: add_domain_def sorted_registry_def)
qed

lemma put_domain_ok:
  assumes "registry_ok R" "c \<in> set (lr_domains R)" "same_place c d"
    "validate_failure_domain_name (fd_name d) = None" "validate_metadata (fd_metadata d) = None"
  shows "registry_ok (put_domain d R)"
  using assms(1)
proof (rule registry_okE)
  assume r: "regions_ok (lr_regions R)" "distinct (map fd_id (lr_domains R))"
    "structures_ok (lr_domains R) (availability_domain_index (lr_regions R))"
    "bindings_ok (lr_domains R) (lr_bindings R)" "sorted_registry R"
  let ?azs = "availability_domain_index (lr_regions R)"
  define f where "f = (\<lambda>x. if fd_id x = fd_id d then d else x)"
  have ds: "at_first (\<lambda>x. fd_id x = fd_id d) (\<lambda>_. d) (lr_domains R) = map f (lr_domains R)"
    using at_first_unique [OF r(2)] by (simp add: f_def)
  have place: "same_place x (f x)" if "x \<in> set (lr_domains R)" for x
    using same_domain [OF r(2) that assms(2)] assms(3) by (auto simp: f_def same_place_def)
  have ids: "map fd_id (map f (lr_domains R)) = map fd_id (lr_domains R)"
    using place by (simp add: same_place_def)
  have parents: "p \<in> fd_id ` set (lr_domains R)" if "x \<in> set (lr_domains R)" "fd_parent x = Some p" for x p
    using r(2,3) that by (metis structure_parent imageI)
  have placed: "placed_in (fd_id ` set (lr_domains R)) (lr_domains R) (map f (lr_domains R))"
    using r(2) ids place parents by (fastforce simp: placed_in_def simp del: map_map)
  have "validate_failure_domain_structure (f x) (failure_domain_map (map f (lr_domains R))) ?azs = None"
    if x: "x \<in> set (lr_domains R)" for x
  proof (rule structure_placed [OF placed])
    have "validate_failure_domain_structure x (failure_domain_map (lr_domains R)) ?azs = None"
      using x r(3) by (simp add: structures_ok_def)
    with place [OF x] assms(4,5) show s: "validate_failure_domain_structure (f x) (failure_domain_map (lr_domains R)) ?azs = None"
      by (cases "fd_id x = fd_id d") (simp_all add: f_def structure_None same_place_def)
    then show "?azs (fd_domain (f x)) \<noteq> None" unfolding structure_None by blast
    show "p \<in> fd_id ` set (lr_domains R)" if "fd_parent (f x) = Some p" for p
      using that parents [OF x] place [OF x] by (simp add: same_place_def)
  qed
  then have "structures_ok (map f (lr_domains R)) ?azs" by (simp add: structures_ok_def)
  moreover have "bindings_ok (map f (lr_domains R)) (lr_bindings R)"
    using r(4) by (rule bindings_domains) (metis ids list.set_map order_refl)
  moreover have "sorted_registry (R\<lparr>lr_domains := map f (lr_domains R)\<rparr>)" using r(5) ids by (simp add: sorted_registry_def del: map_map)
  ultimately show ?thesis
    using r ids by (intro registry_okI) (simp_all add: put_domain_def ds del: map_map)
qed

lemma drop_domain_ok:
  assumes "registry_ok R" "\<forall>d\<in>set (lr_domains R). fd_parent d \<noteq> Some i"
    "\<forall>b\<in>set (lr_bindings R). tb_domain b \<noteq> i"
  shows "registry_ok (drop_domain i R)"
  using assms(1)
proof (rule registry_okE)
  assume r: "regions_ok (lr_regions R)" "distinct (map fd_id (lr_domains R))"
    "structures_ok (lr_domains R) (availability_domain_index (lr_regions R))"
    "bindings_ok (lr_domains R) (lr_bindings R)" "sorted_registry R"
  let ?azs = "availability_domain_index (lr_regions R)"
  let ?ds = "filter (\<lambda>d. fd_id d \<noteq> i) (lr_domains R)"
  have parents: "p \<in> fd_id ` set ?ds" if "x \<in> set (lr_domains R)" "fd_parent x = Some p" for x p
  proof -
    from r(2,3) that obtain q where "q \<in> set (lr_domains R)" "fd_id q = p" by (metis structure_parent)
    with that assms(2) show ?thesis by auto
  qed
  have dist: "distinct (map fd_id ?ds)" using r(2) by (rule distinct_map_filter)
  have placed: "placed_in (fd_id ` set ?ds) (lr_domains R) ?ds"
    unfolding placed_in_def
  proof (intro conjI ballI)
    fix j
    assume "j \<in> fd_id ` set ?ds"
    then obtain x where "x \<in> set ?ds" "fd_id x = j" by auto
    with parents [of x] show "\<exists>x\<in>set (lr_domains R). \<exists>y\<in>set ?ds. fd_id x = j \<and> same_place x y
        \<and> (\<forall>p. fd_parent x = Some p \<longrightarrow> p \<in> fd_id ` set ?ds)"
      by (intro bexI [of _ x]) (auto simp: same_place_def)
  qed (use r(2) dist in simp_all)
  have "validate_failure_domain_structure x (failure_domain_map ?ds) ?azs = None" if x: "x \<in> set ?ds" for x
  proof (rule structure_placed [OF placed])
    show s: "validate_failure_domain_structure x (failure_domain_map (lr_domains R)) ?azs = None"
      using x r(3) by (simp add: structures_ok_def)
    then show "?azs (fd_domain x) \<noteq> None" unfolding structure_None by blast
    show "p \<in> fd_id ` set ?ds" if "fd_parent x = Some p" for p
      using x by (intro parents [OF _ that]) simp
  qed
  then have "structures_ok ?ds ?azs" by (simp add: structures_ok_def)
  moreover have "bindings_ok ?ds (lr_bindings R)" using r(4) assms(3) by (auto simp: bindings_ok_def)
  ultimately show ?thesis
    using r dist by (intro registry_okI) (auto simp: drop_domain_def sorted_registry_def sorted_filter)
qed

lemma binding_key_inj: "binding_key b = binding_key c \<longleftrightarrow> b = c"
proof -
  have "k = l" if "target_kind_name k = target_kind_name l" for k l using that by (cases k; cases l) simp_all
  then show ?thesis by (cases b; cases c) (auto simp: binding_key_def)
qed

lemma add_binding_ok:
  assumes "registry_ok R" "contains_failure_domain R (tb_domain b)" "valid_location_id (tb_target b)"
  shows "registry_ok (add_binding b R)"
  using assms(1)
proof (rule registry_okE)
  assume r: "regions_ok (lr_regions R)" "distinct (map fd_id (lr_domains R))"
    "structures_ok (lr_domains R) (availability_domain_index (lr_regions R))"
    "bindings_ok (lr_domains R) (lr_bindings R)" "sorted_registry R"
  have "bindings_ok (lr_domains R) (sort_key binding_key (lr_bindings R @ [b]))" if "b \<notin> set (lr_bindings R)"
    using r(4) that assms(2,3) by (auto simp: bindings_ok_def contains_domain distinct_map inj_on_def binding_key_inj)
  with r show ?thesis
    by (intro registry_okI) (auto simp: add_binding_def sorted_registry_def)
qed

lemma drop_binding_ok: "registry_ok R \<Longrightarrow> registry_ok (drop_binding b R)"
  by (erule registry_okE)
    (intro registry_okI; simp add: drop_binding_def bindings_ok_def sorted_registry_def sorted_filter distinct_map_filter)

lemma sorted_regions_ok:
  assumes "regions_ok rs"
  shows "regions_ok (sorted_regions rs)"
proof -
  have "mset (map rd_id (sorted_regions rs)) = mset (map rd_id rs)"
    by (simp add: sorted_regions_def multiset.map_comp comp_def)
  then have "distinct (map rd_id (sorted_regions rs))"
    using assms mset_eq_imp_distinct_iff unfolding regions_ok_def by blast
  moreover have "distinct (concat (map rd_domains (sorted_regions rs)))"
    using assms mset_eq_imp_distinct_iff [OF sorted_regions_concat] unfolding regions_ok_def by blast
  moreover have "\<forall>r\<in>set (sorted_regions rs). valid_location_id (rd_id r) \<and> (\<forall>a\<in>set (rd_domains r). valid_location_id a)"
    using assms by (auto simp: regions_ok_def sorted_regions_def)
  ultimately show ?thesis by (simp add: regions_ok_def)
qed

lemma structures_sorted:
  assumes "distinct (map fd_id ds)" "structures_ok ds azs"
  shows "structures_ok (sort_key fd_id ds) azs"
proof -
  have dist: "distinct (map fd_id (sort_key fd_id ds))" using assms(1) by (simp add: distinct_map)
  have "failure_domain_map (sort_key fd_id ds) i = failure_domain_map ds i" for i
  proof (cases "i \<in> fd_id ` set ds")
    case True
    then obtain d where "d \<in> set ds" "fd_id d = i" by auto
    then have "failure_domain_map (sort_key fd_id ds) i = Some d" "failure_domain_map ds i = Some d"
      using dist assms(1) by (simp_all add: domain_map_Some)
    then show ?thesis by simp
  next
    case False
    then have "failure_domain_map (sort_key fd_id ds) i = None" "failure_domain_map ds i = None"
      by (simp_all add: domain_map_None)
    then show ?thesis by simp
  qed
  then have "failure_domain_map (sort_key fd_id ds) = failure_domain_map ds" by blast
  with assms(2) show ?thesis by (simp add: structures_ok_def)
qed

lemma from_snapshot_again:
  assumes "snapshot_ok s"
  shows "registry_ok \<lparr>lr_regions = sorted_regions (ts_regions s), lr_domains = sort_key fd_id (ts_domains s),
    lr_bindings = sort_key binding_key (ts_bindings s)\<rparr>"
proof -
  have "regions_ok (sorted_regions (ts_regions s))" using assms by (simp add: snapshot_ok_def sorted_regions_ok)
  moreover have "distinct (map fd_id (sort_key fd_id (ts_domains s)))" using assms by (simp add: snapshot_ok_def distinct_map)
  moreover have "structures_ok (sort_key fd_id (ts_domains s)) (availability_domain_index (sorted_regions (ts_regions s)))"
  proof -
    have "structures_ok (sort_key fd_id (ts_domains s)) (availability_domain_index (ts_regions s))"
    using assms by (simp add: snapshot_ok_def structures_sorted)
    then show ?thesis by (rule structures_regions) (auto simp: sorted_regions_def)
  qed
  moreover have "bindings_ok (sort_key fd_id (ts_domains s)) (sort_key binding_key (ts_bindings s))"
    using assms by (simp add: snapshot_ok_def bindings_ok_def distinct_map)
  moreover have "sorted_registry \<lparr>lr_regions = sorted_regions (ts_regions s), lr_domains = sort_key fd_id (ts_domains s),
      lr_bindings = sort_key binding_key (ts_bindings s)\<rparr>"
    by (simp add: sorted_registry_def sorted_regions_def)
  ultimately show ?thesis by (simp add: registry_ok_iff snapshot_ok_def snapshot_def)
qed

section \<open>Every operation, whatever the store answers\<close>

lemma chain_stored:
  "chain (stored f) (\<lambda>_. g) w =
     (case f (tw_store w) of
        (Inl e, db) \<Rightarrow> (Inl (TopologyStoreError e), w\<lparr>tw_store := db\<rparr>)
      | (Inr _, db) \<Rightarrow> g (w\<lparr>tw_store := db\<rparr>))"
  by (auto simp: chain_def stored_def split: prod.split sum.split)

lemma registry_after_stored:
  "tw_registry (snd (stored f w)) = tw_registry w"
  by (auto simp: stored_def split: prod.split)

lemma registry_after_replayed: "tw_registry (snd (replayed S audit w)) = tw_registry w"
  by (cases audit) (simp_all add: replayed_def done_with_def registry_after_stored)

lemma registry_after_reject [simp]: "reject e w = (Inl (TopologyLocation e), w)"
  by (simp add: reject_def fail_with_def)

text \<open>An operation leaves the memory alone or makes the one change that was checked.\<close>

lemma chain_remember_cases:
  "tw_registry (snd (chain (stored f) (\<lambda>_. remember g) w)) \<in> {tw_registry w, g (tw_registry w)}"
  by (auto simp: chain_stored remember_def split: prod.split sum.split)

lemma chain_remember_at_cases:
  "tw_registry (snd (chain (stored f) (\<lambda>_. remember_at i n g) w)) \<in> {tw_registry w, g (tw_registry w)}"
  by (auto simp: chain_stored remember_at_def remember_def split: prod.split sum.split)

lemma domain_at_Inr: "domain_at R i n = Inr c \<Longrightarrow> c \<in> set (lr_domains R) \<and> fd_id c = i \<and> fd_generation c = n"
  by (auto simp: domain_at_def failure_domain_of_def find_Some_iff split: option.splits if_splits)

lemma step_registry_ok:
  assumes ok: "registry_ok (tw_registry w)"
  shows "registry_ok (tw_registry (snd (topology_step S x audit w)))"
proof (cases x)
  case (DeclareRegion i)
  show ?thesis
  proof (cases "validate_region_id i = None \<and> \<not> contains_region (tw_registry w) i")
    case True
    then have "registry_ok (add_region i (tw_registry w))" using ok by (intro add_region_ok) (simp_all add: location_checks)
    with True ok chain_remember_cases [of "st_insert_region S i audit" "add_region i" w] show ?thesis
      by (auto simp: DeclareRegion declare_region_def)
  qed (use ok in \<open>auto simp: DeclareRegion declare_region_def registry_after_replayed split: option.split\<close>)
next
  case (RemoveRegion i)
  show ?thesis
  proof (cases "validate_region_id i = None \<and> contains_region (tw_registry w) i
      \<and> availability_domains_of (tw_registry w) i = []")
    case True
    then have "registry_ok (drop_region i (tw_registry w))" using ok by (intro drop_region_ok) simp_all
    with True ok chain_remember_cases [of "st_delete_region S i audit" "drop_region i" w] show ?thesis
      by (auto simp: RemoveRegion remove_region_def availability_domains_of_def split: option.splits)
  qed (use ok in \<open>auto simp: RemoveRegion remove_region_def availability_domains_of_def registry_after_replayed
        split: option.splits\<close>)
next
  case (DeclareAz i a)
  show ?thesis
  proof (cases "orelse (validate_region_id i) (validate_az_id a) = None \<and> contains_region (tw_registry w) i
      \<and> find (\<lambda>r. a \<in> set (rd_domains r)) (lr_regions (tw_registry w)) = None")
    case True
    then have "registry_ok (add_az i a (tw_registry w))"
      using ok by (intro add_az_ok) (auto simp: location_checks find_None_iff)
    with True ok chain_remember_cases [of "st_insert_az S i a audit" "add_az i a" w] show ?thesis
      by (auto simp: DeclareAz declare_availability_domain_def)
  qed (use ok in \<open>auto simp: DeclareAz declare_availability_domain_def registry_after_replayed split: option.splits\<close>)
next
  case (RemoveAz a)
  show ?thesis
  proof (cases "validate_az_id a = None \<and> list_ex (\<lambda>r. a \<in> set (rd_domains r)) (lr_regions (tw_registry w))
      \<and> \<not> list_ex (\<lambda>d. fd_domain d = a) (lr_domains (tw_registry w))")
    case True
    then have "registry_ok (drop_az a (tw_registry w))" using ok by (intro drop_az_ok) (auto simp: list_ex_iff)
    with True ok chain_remember_cases [of "st_delete_az S a audit" "drop_az a" w] show ?thesis
      by (auto simp: RemoveAz remove_availability_domain_def)
  qed (use ok in \<open>auto simp: RemoveAz remove_availability_domain_def registry_after_replayed split: option.splits\<close>)
next
  case (CreateDomain d)
  let ?d = "d\<lparr>fd_generation := 1\<rparr>"
  show ?thesis
  proof (cases "create_check (tw_registry w) d")
    case None
    then have "\<not> contains_failure_domain (tw_registry w) (fd_id ?d)"
      "validate_failure_domain_structure ?d (failure_domain_map (lr_domains (tw_registry w)))
         (availability_domain_index (lr_regions (tw_registry w))) = None"
      by (simp_all add: create_check_def location_checks structure_None split: if_splits)
    with ok have "registry_ok (add_domain ?d (tw_registry w))" by (intro add_domain_ok)
    with None ok chain_remember_cases [of "st_insert_domain S ?d audit" "add_domain ?d" w] show ?thesis
      by (auto simp: CreateDomain create_failure_domain_def)
  qed (use ok in \<open>simp add: CreateDomain create_failure_domain_def\<close>)
next
  case (UpdateDomain i name metadata n)
  show ?thesis
  proof (cases "domain_at (tw_registry w) i n")
    case (Inr c)
    let ?d = "c\<lparr>fd_name := name, fd_generation := n + 1, fd_metadata := metadata\<rparr>"
    show ?thesis
    proof (cases "orelse (validate_failure_domain_name name) (validate_metadata metadata)")
      case None
      then have "registry_ok (put_domain ?d (tw_registry w))"
        using ok domain_at_Inr [OF Inr] by (intro put_domain_ok [where c = c]) (simp_all add: same_place_def location_checks)
      with None Inr ok chain_remember_at_cases [of "st_update_domain S ?d n audit" i n "put_domain ?d" w]
      show ?thesis by (auto simp: UpdateDomain update_failure_domain_def Let_def)
    qed (use Inr ok in \<open>simp add: UpdateDomain update_failure_domain_def\<close>)
  qed (use ok in \<open>simp add: UpdateDomain update_failure_domain_def\<close>)
next
  case (DeleteDomain i n)
  show ?thesis
  proof (cases "domain_at (tw_registry w) i n")
    case (Inr c)
    show ?thesis
    proof (cases "list_ex (\<lambda>d. fd_parent d = Some i) (lr_domains (tw_registry w))
        \<or> list_ex (\<lambda>b. tb_domain b = i) (lr_bindings (tw_registry w))")
      case False
      then have "registry_ok (drop_domain i (tw_registry w))" using ok by (intro drop_domain_ok) (auto simp: list_ex_iff)
      with False Inr ok chain_remember_at_cases [of "st_delete_domain S i n audit" i n "drop_domain i" w]
      show ?thesis by (auto simp: DeleteDomain delete_failure_domain_def)
    qed (use Inr ok in \<open>auto simp: DeleteDomain delete_failure_domain_def\<close>)
  qed (use ok in \<open>simp add: DeleteDomain delete_failure_domain_def\<close>)
next
  case (BindTarget b)
  show ?thesis
  proof (cases "contains_failure_domain (tw_registry w) (tb_domain b) \<and> valid_location_id (tb_target b)
      \<and> b \<notin> set (lr_bindings (tw_registry w))")
    case True
    then have "registry_ok (add_binding b (tw_registry w))" using ok by (intro add_binding_ok) simp_all
    with True ok chain_remember_cases [of "st_insert_binding S b audit" "add_binding b" w] show ?thesis
      by (auto simp: BindTarget bind_domain_def)
  qed (use ok in \<open>auto simp: BindTarget bind_domain_def registry_after_replayed\<close>)
next
  case (UnbindTarget b)
  with ok drop_binding_ok [OF ok, of b] chain_remember_cases [of "st_delete_binding S b audit" "drop_binding b" w]
  show ?thesis by (auto simp: unbind_domain_def registry_after_replayed)
qed

lemma run_registry_ok:
  "registry_ok (tw_registry w) \<Longrightarrow> registry_ok (tw_registry (topology_run S xs w))"
  unfolding topology_run_def by (induction xs arbitrary: w) (auto simp: step_registry_ok)

text \<open>
  The memory of a registry always validates. From a registry that was built from a snapshot,
  no sequence of operations, with any arguments, and no store, whatever it answers and does,
  leads to a registry whose own snapshot would be refused: rebuilding from it gives it back.
\<close>

theorem registry_revalidates:
  assumes "from_snapshot s = Inr (tw_registry w)"
  shows "from_snapshot (snapshot (tw_registry (topology_run S xs w))) = Inr (tw_registry (topology_run S xs w))"
proof -
  have "registry_ok (tw_registry w)"
  proof -
    from assms have ok: "snapshot_ok s" and R: "tw_registry w = \<lparr>lr_regions = sorted_regions (ts_regions s),
        lr_domains = sort_key fd_id (ts_domains s), lr_bindings = sort_key binding_key (ts_bindings s)\<rparr>"
      by (simp_all add: from_snapshot_iff)
    show ?thesis using from_snapshot_again [OF ok] by (simp add: R)
  qed
  then show ?thesis using run_registry_ok unfolding registry_ok_def by blast
qed

section \<open>An example\<close>

definition site_domain :: failure_domain where
  "site_domain = \<lparr>fd_id = ''site-1'', fd_class = Site, fd_name = ''Site'', fd_domain = ''az-1'', fd_parent = None,
     fd_generation = 1, fd_metadata = []\<rparr>"

definition rack_domain :: failure_domain where
  "rack_domain = \<lparr>fd_id = ''rack-1'', fd_class = Rack, fd_name = ''Rack'', fd_domain = ''az-1'',
     fd_parent = Some ''site-1'', fd_generation = 1, fd_metadata = [(''row'', ''7'')]\<rparr>"

definition sample_topology :: topology_snapshot where
  "sample_topology = \<lparr>ts_regions = [\<lparr>rd_id = ''r1'', rd_domains = [''az-1'']\<rparr>],
     ts_domains = [site_domain, rack_domain],
     ts_bindings = [\<lparr>tb_domain = ''rack-1'', tb_kind = Host, tb_target = ''host-1''\<rparr>]\<rparr>"

definition sample_registry :: location_registry where
  "sample_registry = \<lparr>lr_regions = [\<lparr>rd_id = ''r1'', rd_domains = [''az-1'']\<rparr>],
     lr_domains = [rack_domain, site_domain],
     lr_bindings = [\<lparr>tb_domain = ''rack-1'', tb_kind = Host, tb_target = ''host-1''\<rparr>]\<rparr>"

lemma sample_accepted: "from_snapshot sample_topology = Inr sample_registry"
  by code_simp

theorem accepted_topology_is_sound_witness:
  "sound_hierarchy (lr_domains sample_registry) \<and> (''rack-1'', ''site-1'') \<in> parent_steps (lr_domains sample_registry)"
proof
  show "sound_hierarchy (lr_domains sample_registry)"
    by (rule accepted_topology_is_sound [OF sample_accepted, THEN conjunct2, THEN conjunct1])
  show "(''rack-1'', ''site-1'') \<in> parent_steps (lr_domains sample_registry)"
    by (force simp: parent_steps_def sample_registry_def rack_domain_def)
qed

text \<open>A store that answers without keeping anything.\<close>

definition careless_store :: "unit topology_store" where
  "careless_store =
     \<lparr>st_insert_region = \<lambda>_ _ s. (Inr (), s), st_delete_region = \<lambda>_ _ s. (Inr (), s),
      st_insert_az = \<lambda>_ _ _ s. (Inr (), s), st_delete_az = \<lambda>_ _ s. (Inr (), s),
      st_insert_domain = \<lambda>_ _ s. (Inr (), s),
      st_update_domain = \<lambda>_ _ _ s. (Inr (), s),
      st_delete_domain = \<lambda>_ _ _ s. (Inr (), s),
      st_insert_binding = \<lambda>_ _ s. (Inr (), s),
      st_delete_binding = \<lambda>_ _ s. (Inr (), s), st_record_audit = \<lambda>_ s. (Inr (), s)\<rparr>"

definition careless_world :: "unit topology_world" where
  "careless_world = \<lparr>tw_registry = sample_registry, tw_store = ()\<rparr>"

theorem registry_revalidates_witness:
  "from_snapshot (snapshot (tw_registry (topology_run careless_store [(DeclareRegion ''r2'', None)] careless_world)))
    = Inr (tw_registry (topology_run careless_store [(DeclareRegion ''r2'', None)] careless_world))"
  by (rule registry_revalidates [of sample_topology]) (simp add: careless_world_def sample_accepted)

end
