(* ===== verification/Store_Topology.thy ===== *)
theory Store_Topology
  imports Location_Validity
begin

text \<open>
  The durable topology (\<open>crates/o3k-store/src/sqlite/topology.rs\<close> over
  \<open>migrations/0046_topology.sql\<close>): the tables, every statement with the keys it is checked
  against, the audit event written in the same transaction, the snapshot that is loaded at a
  restart, and the pages of the listings. Tables are lists of rows; the columns with the time of
  a declaration, which nothing reads, are left out, and the metadata column is the map it
  serialises. A foreign key is checked when its statement ends, so a row may refer to itself.
  Lemmas: the locale of a store that keeps the contract of \<open>TopologyStore\<close>, under which the
  memory of a registry is what the store holds; its interpretation on these tables.
\<close>

section \<open>Tables\<close>

record domain_row =
  dr_id :: string
  dr_class :: string
  dr_name :: string
  dr_az :: string
  dr_parent :: "string option"
  dr_generation :: int
  dr_metadata :: "(string \<times> string) list"

record binding_row =
  br_domain :: string
  br_kind :: string
  br_target :: string

record topology_db =
  td_regions :: "string list"
  td_azs :: "(string \<times> string) list"
  td_domains :: "domain_row list"
  td_bindings :: "binding_row list"
  td_audit :: audit_rows

definition parse_class :: "string \<Rightarrow> (kernel_error, failure_domain_class) rust_result" where
  "parse_class raw =
     (case find (\<lambda>c. class_name c = raw)
         [Site, Building, Room, Row, Rack, Chassis, PowerDomain, NetworkDomain, StorageDomain] of
        None \<Rightarrow> Inl TopologyCorrupt
      | Some c \<Rightarrow> Inr c)"

definition parse_kind :: "string \<Rightarrow> (kernel_error, binding_target_kind) rust_result" where
  "parse_kind raw =
     (case find (\<lambda>k. target_kind_name k = raw) [ResourceProvider, Host, FabricDomain, StorageDomainTarget] of
        None \<Rightarrow> Inl TopologyCorrupt
      | Some k \<Rightarrow> Inr k)"

definition parse_binding_row :: "binding_row \<Rightarrow> (kernel_error, topology_binding) rust_result" where
  "parse_binding_row r =
     (case parse_kind (br_kind r) of
        Inl e \<Rightarrow> Inl e
      | Inr k \<Rightarrow> Inr \<lparr>tb_domain = br_domain r, tb_kind = k, tb_target = br_target r\<rparr>)"

definition parse_domain_row :: "domain_row \<Rightarrow> (kernel_error, failure_domain) rust_result" where
  "parse_domain_row r =
     (case parse_class (dr_class r) of
        Inl e \<Rightarrow> Inl e
      | Inr c \<Rightarrow>
     (case u64_of_i64 (dr_generation r) of
        None \<Rightarrow> Inl TopologyCorrupt
      | Some g \<Rightarrow> Inr \<lparr>fd_id = dr_id r, fd_class = c, fd_name = dr_name r, fd_domain = dr_az r,
                     fd_parent = dr_parent r, fd_generation = g, fd_metadata = dr_metadata r\<rparr>))"

definition generation_i64 :: "u64 \<Rightarrow> (kernel_error, int) rust_result" where
  "generation_i64 g = (case i64_of_u64 g of None \<Rightarrow> Inl TopologyCorrupt | Some i \<Rightarrow> Inr i)"

definition insert_topology_audit_tx :: "audit_event \<Rightarrow> audit_rows \<Rightarrow> (kernel_error, audit_rows) rust_result" where
  "insert_topology_audit_tx a rows =
     (case insert_audit_event_tx (from_kernel_event a) rows of
        Inl AuditRowConflict \<Rightarrow> Inl AuditConflict
      | Inl _ \<Rightarrow> Inl TopologyCorrupt
      | Inr rows' \<Rightarrow> Inr rows')"

text \<open>A transaction: the statement, then the audit event; an error rolls both back.\<close>

definition in_transaction ::
  "(topology_db \<Rightarrow> (kernel_error, topology_db) rust_result) \<Rightarrow> audit_event option \<Rightarrow> topology_db topology_call" where
  "in_transaction f audit db =
     (case f db of
        Inl e \<Rightarrow> (Inl e, db)
      | Inr db1 \<Rightarrow>
          (case audit of
             None \<Rightarrow> (Inr (), db1)
           | Some a \<Rightarrow>
               (case insert_topology_audit_tx a (td_audit db1) of
                  Inl e \<Rightarrow> (Inl e, db)
                | Inr rows \<Rightarrow> (Inr (), db1\<lparr>td_audit := rows\<rparr>))))"

section \<open>Statements\<close>

definition insert_region_row :: "string \<Rightarrow> topology_db \<Rightarrow> (kernel_error, topology_db) rust_result" where
  "insert_region_row i db =
     Inr (if i \<in> set (td_regions db) then db else db\<lparr>td_regions := td_regions db @ [i]\<rparr>)"

definition delete_region_row :: "string \<Rightarrow> topology_db \<Rightarrow> (kernel_error, topology_db) rust_result" where
  "delete_region_row i db =
     (if i \<in> set (td_regions db) \<and> list_ex (\<lambda>(a, r). r = i) (td_azs db) then Inl TopologyCorrupt
      else Inr (db\<lparr>td_regions := filter (\<lambda>r. r \<noteq> i) (td_regions db)\<rparr>))"

definition insert_az_row :: "string \<Rightarrow> string \<Rightarrow> topology_db \<Rightarrow> (kernel_error, topology_db) rust_result" where
  "insert_az_row r a db =
     (if list_ex (\<lambda>x. fst x = a) (td_azs db) then Inr db
      else if r \<notin> set (td_regions db) then Inl TopologyCorrupt
      else Inr (db\<lparr>td_azs := td_azs db @ [(a, r)]\<rparr>))"

definition delete_az_row :: "string \<Rightarrow> topology_db \<Rightarrow> (kernel_error, topology_db) rust_result" where
  "delete_az_row a db =
     (if list_ex (\<lambda>x. fst x = a) (td_azs db) \<and> list_ex (\<lambda>d. dr_az d = a) (td_domains db) then Inl TopologyCorrupt
      else Inr (db\<lparr>td_azs := filter (\<lambda>x. fst x \<noteq> a) (td_azs db)\<rparr>))"

definition insert_domain_row :: "failure_domain \<Rightarrow> topology_db \<Rightarrow> (kernel_error, topology_db) rust_result" where
  "insert_domain_row d db =
     (case generation_i64 (fd_generation d) of
        Inl e \<Rightarrow> Inl e
      | Inr g \<Rightarrow>
          if list_ex (\<lambda>r. dr_id r = fd_id d) (td_domains db) then Inl TopologyCorrupt
          else if \<not> list_ex (\<lambda>x. fst x = fd_domain d) (td_azs db)
                  \<or> (case fd_parent d of None \<Rightarrow> False
                     | Some p \<Rightarrow> p \<noteq> fd_id d \<and> \<not> list_ex (\<lambda>r. dr_id r = p) (td_domains db))
          then Inl TopologyCorrupt
          else Inr (db\<lparr>td_domains := td_domains db @
                 [\<lparr>dr_id = fd_id d, dr_class = class_name (fd_class d), dr_name = fd_name d, dr_az = fd_domain d,
                   dr_parent = fd_parent d, dr_generation = g, dr_metadata = fd_metadata d\<rparr>]\<rparr>))"

definition update_domain_row ::
  "failure_domain \<Rightarrow> u64 \<Rightarrow> topology_db \<Rightarrow> (kernel_error, topology_db) rust_result" where
  "update_domain_row d expected db =
     (case generation_i64 (fd_generation d) of
        Inl e \<Rightarrow> Inl e
      | Inr g \<Rightarrow>
     (case generation_i64 expected of
        Inl e \<Rightarrow> Inl e
      | Inr n \<Rightarrow>
          if \<not> list_ex (\<lambda>r. dr_id r = fd_id d \<and> dr_generation r = n) (td_domains db) then Inl TopologyCorrupt
          else Inr (db\<lparr>td_domains := map (\<lambda>r. if dr_id r = fd_id d \<and> dr_generation r = n
                 then r\<lparr>dr_name := fd_name d, dr_generation := g, dr_metadata := fd_metadata d\<rparr> else r) (td_domains db)\<rparr>)))"

definition delete_domain_row :: "string \<Rightarrow> u64 \<Rightarrow> topology_db \<Rightarrow> (kernel_error, topology_db) rust_result" where
  "delete_domain_row i expected db =
     (case generation_i64 expected of
        Inl e \<Rightarrow> Inl e
      | Inr n \<Rightarrow>
          if \<not> list_ex (\<lambda>r. dr_id r = i \<and> dr_generation r = n) (td_domains db) then Inl TopologyCorrupt
          else if list_ex (\<lambda>r. dr_id r \<noteq> i \<and> dr_parent r = Some i) (td_domains db)
                  \<or> list_ex (\<lambda>b. br_domain b = i) (td_bindings db) then Inl TopologyCorrupt
          else Inr (db\<lparr>td_domains := filter (\<lambda>r. \<not> (dr_id r = i \<and> dr_generation r = n)) (td_domains db)\<rparr>))"

definition binding_row_of :: "topology_binding \<Rightarrow> binding_row" where
  "binding_row_of b = \<lparr>br_domain = tb_domain b, br_kind = target_kind_name (tb_kind b), br_target = tb_target b\<rparr>"

definition insert_binding_row :: "topology_binding \<Rightarrow> topology_db \<Rightarrow> (kernel_error, topology_db) rust_result" where
  "insert_binding_row b db =
     (if binding_row_of b \<in> set (td_bindings db) then Inr db
      else if \<not> list_ex (\<lambda>r. dr_id r = tb_domain b) (td_domains db) then Inl TopologyCorrupt
      else Inr (db\<lparr>td_bindings := td_bindings db @ [binding_row_of b]\<rparr>))"

definition delete_binding_row :: "topology_binding \<Rightarrow> topology_db \<Rightarrow> (kernel_error, topology_db) rust_result" where
  "delete_binding_row b db = Inr (db\<lparr>td_bindings := filter (\<lambda>r. r \<noteq> binding_row_of b) (td_bindings db)\<rparr>)"

definition record_audit :: "audit_event \<Rightarrow> topology_db topology_call" where
  "record_audit a db = in_transaction Inr (Some a) db"

definition sqlite_topology :: "topology_db topology_store" where
  "sqlite_topology =
     \<lparr>st_insert_region = \<lambda>i. in_transaction (insert_region_row i),
      st_delete_region = \<lambda>i. in_transaction (delete_region_row i),
      st_insert_az = \<lambda>r a. in_transaction (insert_az_row r a),
      st_delete_az = \<lambda>a. in_transaction (delete_az_row a),
      st_insert_domain = \<lambda>d. in_transaction (insert_domain_row d),
      st_update_domain = \<lambda>d n. in_transaction (update_domain_row d n),
      st_delete_domain = \<lambda>i n. in_transaction (delete_domain_row i n),
      st_insert_binding = \<lambda>b. in_transaction (insert_binding_row b),
      st_delete_binding = \<lambda>b. in_transaction (delete_binding_row b),
      st_record_audit = record_audit\<rparr>"

section \<open>Reading\<close>

definition binding_row_key :: "binding_row \<Rightarrow> string \<times> string \<times> string" where
  "binding_row_key r = (br_domain r, br_kind r, br_target r)"

definition load_snapshot :: "topology_db \<Rightarrow> (kernel_error, topology_snapshot) rust_result" where
  "load_snapshot db =
     (if list_ex (\<lambda>x. snd x \<notin> set (td_regions db)) (td_azs db) then Inl TopologyCorrupt
      else case collect_results parse_domain_row (sort_key dr_id (td_domains db)) of
          Inl e \<Rightarrow> Inl e
        | Inr ds \<Rightarrow>
      (case collect_results parse_binding_row (sort_key binding_row_key (td_bindings db)) of
          Inl e \<Rightarrow> Inl e
        | Inr bs \<Rightarrow>
            Inr \<lparr>ts_regions = map (\<lambda>i. \<lparr>rd_id = i, rd_domains =
                    map fst (filter (\<lambda>x. snd x = i) (sort_key (\<lambda>x. (snd x, fst x)) (td_azs db)))\<rparr>) (sort (td_regions db)),
                 ts_domains = ds, ts_bindings = bs\<rparr>))"

definition page_take :: "u64 \<Rightarrow> (kernel_error, nat) rust_result" where
  "page_take limit =
     (case i64_of_u64 (saturating_add limit 1) of None \<Rightarrow> Inl TopologyCorrupt | Some n \<Rightarrow> Inr (nat n))"

definition list_failure_domains ::
  "topology_db \<Rightarrow> string option \<Rightarrow> u64 \<Rightarrow> (kernel_error, failure_domain list) rust_result" where
  "list_failure_domains db after limit =
     (case page_take limit of
        Inl e \<Rightarrow> Inl e
      | Inr n \<Rightarrow> collect_results parse_domain_row (take n (rows_after dr_id after (td_domains db))))"

definition list_bindings ::
  "topology_db \<Rightarrow> (string \<times> string \<times> string) option \<Rightarrow> u64 \<Rightarrow> (kernel_error, topology_binding list) rust_result" where
  "list_bindings db after limit =
     (case page_take limit of
        Inl e \<Rightarrow> Inl e
      | Inr n \<Rightarrow> collect_results parse_binding_row (take n (rows_after binding_row_key after (td_bindings db))))"

definition list_bindings_of ::
  "topology_db \<Rightarrow> string \<Rightarrow> (string \<times> string) option \<Rightarrow> u64 \<Rightarrow> (kernel_error, topology_binding list) rust_result"
  where
  "list_bindings_of db i after limit =
     (case page_take limit of
        Inl e \<Rightarrow> Inl e
      | Inr n \<Rightarrow> collect_results parse_binding_row
          (take n (rows_after (\<lambda>r. (br_kind r, br_target r)) after (filter (\<lambda>r. br_domain r = i) (td_bindings db)))))"

end
