(* ===== verification/Topology_Contract.thy ===== *)
theory Topology_Contract
  imports Store_Topology
begin

text \<open>
  The contract of a \<open>TopologyStore\<close>. The locale relates a store to the snapshot it holds: a
  refused call leaves it, a call that went through has the effect of its statement. Inside it:
  the memory of a registry is what the store holds, over any run of operations. Its
  interpretation on the SQLite tables discharges the contract.
\<close>

section \<open>The contract\<close>

datatype store_op =
    InsertRegion string | DeleteRegion string | InsertAz string string | DeleteAz string
  | InsertDomain failure_domain | UpdateDomainRow failure_domain u64 | DeleteDomainRow string u64
  | InsertBinding topology_binding | DeleteBinding topology_binding

fun store_call :: "'db topology_store \<Rightarrow> store_op \<Rightarrow> audit_event option \<Rightarrow> 'db topology_call" where
  "store_call S (InsertRegion i) = st_insert_region S i"
| "store_call S (DeleteRegion i) = st_delete_region S i"
| "store_call S (InsertAz r a) = st_insert_az S r a"
| "store_call S (DeleteAz a) = st_delete_az S a"
| "store_call S (InsertDomain d) = st_insert_domain S d"
| "store_call S (UpdateDomainRow d n) = st_update_domain S d n"
| "store_call S (DeleteDomainRow i n) = st_delete_domain S i n"
| "store_call S (InsertBinding b) = st_insert_binding S b"
| "store_call S (DeleteBinding b) = st_delete_binding S b"

definition updated_domain :: "failure_domain \<Rightarrow> failure_domain \<Rightarrow> failure_domain" where
  "updated_domain d x =
     (if fd_id x = fd_id d
      then x\<lparr>fd_name := fd_name d, fd_generation := fd_generation d, fd_metadata := fd_metadata d\<rparr> else x)"

text \<open>The effect of a call on the snapshot the store holds.\<close>

fun store_effect :: "store_op \<Rightarrow> topology_snapshot \<Rightarrow> topology_snapshot" where
  "store_effect (InsertRegion i) s =
     (if i \<in> rd_id ` set (ts_regions s) then s
      else s\<lparr>ts_regions := sort_key rd_id (ts_regions s @ [\<lparr>rd_id = i, rd_domains = []\<rparr>])\<rparr>)"
| "store_effect (DeleteRegion i) s = s\<lparr>ts_regions := filter (\<lambda>r. rd_id r \<noteq> i) (ts_regions s)\<rparr>"
| "store_effect (InsertAz i a) s =
     (if \<exists>r\<in>set (ts_regions s). a \<in> set (rd_domains r) then s
      else s\<lparr>ts_regions := map (with_az i a) (ts_regions s)\<rparr>)"
| "store_effect (DeleteAz a) s =
     s\<lparr>ts_regions := map (\<lambda>r. r\<lparr>rd_domains := filter (\<lambda>x. x \<noteq> a) (rd_domains r)\<rparr>) (ts_regions s)\<rparr>"
| "store_effect (InsertDomain d) s = s\<lparr>ts_domains := sort_key fd_id (ts_domains s @ [d])\<rparr>"
| "store_effect (UpdateDomainRow d n) s = s\<lparr>ts_domains := map (updated_domain d) (ts_domains s)\<rparr>"
| "store_effect (DeleteDomainRow i n) s = s\<lparr>ts_domains := filter (\<lambda>d. fd_id d \<noteq> i) (ts_domains s)\<rparr>"
| "store_effect (InsertBinding b) s =
     (if b \<in> set (ts_bindings s) then s
      else s\<lparr>ts_bindings := sort_key binding_key (ts_bindings s @ [b])\<rparr>)"
| "store_effect (DeleteBinding b) s = s\<lparr>ts_bindings := filter (\<lambda>x. x \<noteq> b) (ts_bindings s)\<rparr>"

locale topology_contract =
  fixes S :: "'db topology_store"
    and holds :: "'db \<Rightarrow> topology_snapshot \<Rightarrow> bool"
  assumes refused: "holds db s \<Longrightarrow> store_call S x audit db = (Inl e, db') \<Longrightarrow> holds db' s"
    and taken: "holds db s \<Longrightarrow> store_call S x audit db = (Inr u, db') \<Longrightarrow> holds db' (store_effect x s)"
    and noted: "holds db s \<Longrightarrow> st_record_audit S a db = (r, db') \<Longrightarrow> holds db' s"
begin

definition mirrored :: "'db topology_world \<Rightarrow> bool" where
  "mirrored w \<longleftrightarrow> registry_ok (tw_registry w) \<and> holds (tw_store w) (snapshot (tw_registry w))"

lemma mirrored_replayed: "mirrored w \<Longrightarrow> mirrored (snd (replayed S audit w))"
  by (cases audit) (auto simp: mirrored_def replayed_def done_with_def stored_def dest: noted split: prod.split)

lemma mirrored_reject: "mirrored w \<Longrightarrow> mirrored (snd (reject e w))"
  by simp

text \<open>A call whose change of the memory is its effect on the store keeps the two equal.\<close>

lemma holds_chain_remember:
  assumes "holds (tw_store w) (snapshot (tw_registry w))"
    "snapshot (g (tw_registry w)) = store_effect x (snapshot (tw_registry w))"
  shows "holds (tw_store (snd (chain (stored (store_call S x audit)) (\<lambda>_. remember g) w)))
    (snapshot (tw_registry (snd (chain (stored (store_call S x audit)) (\<lambda>_. remember g) w))))"
  using assms by (auto simp: chain_stored remember_def dest: refused taken split: prod.split sum.split)

lemma holds_chain_remember_at:
  assumes "holds (tw_store w) (snapshot (tw_registry w))" "domain_at (tw_registry w) i n = Inr c"
    "snapshot (g (tw_registry w)) = store_effect x (snapshot (tw_registry w))"
  shows "holds (tw_store (snd (chain (stored (store_call S x audit)) (\<lambda>_. remember_at i n g) w)))
    (snapshot (tw_registry (snd (chain (stored (store_call S x audit)) (\<lambda>_. remember_at i n g) w))))"
  using assms by (auto simp: chain_stored remember_def remember_at_def dest: refused taken split: prod.split sum.split)

end

section \<open>The change of the memory is the effect on the store\<close>

lemma snapshot_add_region:
  "\<not> contains_region R i \<Longrightarrow> snapshot (add_region i R) = store_effect (InsertRegion i) (snapshot R)"
  by (simp add: add_region_def snapshot_def contains_region_iff)

lemma snapshot_drop_region: "snapshot (drop_region i R) = store_effect (DeleteRegion i) (snapshot R)"
  by (simp add: drop_region_def snapshot_def)

lemma snapshot_add_az:
  "registry_ok R \<Longrightarrow> \<forall>r\<in>set (lr_regions R). a \<notin> set (rd_domains r) \<Longrightarrow>
   snapshot (add_az i a R) = store_effect (InsertAz i a) (snapshot R)"
  by (erule registry_okE) (auto simp: add_az_regions snapshot_def)

lemma snapshot_drop_az: "snapshot (drop_az a R) = store_effect (DeleteAz a) (snapshot R)"
  by (simp add: drop_az_def snapshot_def)

lemma snapshot_add_domain:
  "\<not> contains_failure_domain R (fd_id d) \<Longrightarrow> snapshot (add_domain d R) = store_effect (InsertDomain d) (snapshot R)"
  by (simp add: add_domain_def snapshot_def)

lemma snapshot_put_domain:
  assumes "registry_ok R" "c \<in> set (lr_domains R)"
    "d = c\<lparr>fd_name := name, fd_generation := g, fd_metadata := metadata\<rparr>"
  shows "snapshot (put_domain d R) = store_effect (UpdateDomainRow d n) (snapshot R)"
proof -
  from assms(1) have dist: "distinct (map fd_id (lr_domains R))" by (rule registry_okE)
  have "(if fd_id x = fd_id d then d else x) = updated_domain d x" if "x \<in> set (lr_domains R)" for x
    using same_domain [OF dist that assms(2)] assms(3) by (auto simp: updated_domain_def)
  then show ?thesis
    using at_first_unique [OF dist, of "fd_id d" "\<lambda>_. d"] by (simp add: put_domain_def snapshot_def)
qed

lemma snapshot_drop_domain: "snapshot (drop_domain i R) = store_effect (DeleteDomainRow i n) (snapshot R)"
  by (simp add: drop_domain_def snapshot_def)

lemma snapshot_add_binding: "snapshot (add_binding b R) = store_effect (InsertBinding b) (snapshot R)"
  by (simp add: add_binding_def snapshot_def)

lemma snapshot_drop_binding: "snapshot (drop_binding b R) = store_effect (DeleteBinding b) (snapshot R)"
  by (simp add: drop_binding_def snapshot_def)

context topology_contract
begin

lemma step_mirrored:
  assumes m: "mirrored w"
  shows "mirrored (snd (topology_step S x audit w))"
proof -
  note h = m [unfolded mirrored_def, THEN conjunct2] and ok = m [unfolded mirrored_def, THEN conjunct1]
  have "holds (tw_store (snd (topology_step S x audit w))) (snapshot (tw_registry (snd (topology_step S x audit w))))"
  proof (cases x)
    case (DeclareRegion i)
    then show ?thesis
      using h mirrored_replayed [OF m, of audit] holds_chain_remember [OF h, where g = "add_region i" and x = "InsertRegion i" and audit = audit] snapshot_add_region
      by (auto simp: declare_region_def mirrored_def split: option.split)
  next
    case (RemoveRegion i)
    then show ?thesis
      using h mirrored_replayed [OF m, of audit] holds_chain_remember [OF h, where g = "drop_region i" and x = "DeleteRegion i" and audit = audit] snapshot_drop_region
      by (auto simp: remove_region_def mirrored_def split: option.splits)
  next
    case (DeclareAz i a)
    then show ?thesis
      using h mirrored_replayed [OF m, of audit] holds_chain_remember [OF h, where g = "add_az i a" and x = "InsertAz i a" and audit = audit] snapshot_add_az [OF ok]
      by (auto simp: declare_availability_domain_def mirrored_def find_None_iff split: option.splits)
  next
    case (RemoveAz a)
    then show ?thesis
      using h mirrored_replayed [OF m, of audit] holds_chain_remember [OF h, where g = "drop_az a" and x = "DeleteAz a" and audit = audit] snapshot_drop_az
      by (auto simp: remove_availability_domain_def mirrored_def split: option.splits)
  next
    case (CreateDomain d)
    show ?thesis
    proof (cases "create_check (tw_registry w) d")
      case None
      then have "\<not> contains_failure_domain (tw_registry w) (fd_id (d\<lparr>fd_generation := 1\<rparr>))"
        by (simp add: create_check_def location_checks split: if_splits)
      with None CreateDomain holds_chain_remember [OF h, where g = "add_domain (d\<lparr>fd_generation := 1\<rparr>)"
          and x = "InsertDomain (d\<lparr>fd_generation := 1\<rparr>)" and audit = audit] snapshot_add_domain
      show ?thesis by (simp add: create_failure_domain_def)
    qed (use h in \<open>simp add: CreateDomain create_failure_domain_def\<close>)
  next
    case (UpdateDomain i name metadata n)
    show ?thesis
    proof (cases "domain_at (tw_registry w) i n")
      case (Inr c)
      let ?d = "c\<lparr>fd_name := name, fd_generation := n + 1, fd_metadata := metadata\<rparr>"
      have "snapshot (put_domain ?d (tw_registry w)) = store_effect (UpdateDomainRow ?d n) (snapshot (tw_registry w))"
        using ok domain_at_Inr [OF Inr] by (intro snapshot_put_domain [where c = c]) simp_all
      from holds_chain_remember_at [OF h Inr, where g = "put_domain ?d" and audit = audit, OF this] Inr h show ?thesis
        by (auto simp: UpdateDomain update_failure_domain_def Let_def split: option.split)
    qed (use h in \<open>simp add: UpdateDomain update_failure_domain_def\<close>)
  next
    case (DeleteDomain i n)
    show ?thesis
    proof (cases "domain_at (tw_registry w) i n")
      case (Inr c)
      from holds_chain_remember_at [OF h Inr, where g = "drop_domain i" and x = "DeleteDomainRow i n" and audit = audit,
          OF snapshot_drop_domain] Inr h show ?thesis
        by (auto simp: DeleteDomain delete_failure_domain_def)
    qed (use h in \<open>simp add: DeleteDomain delete_failure_domain_def\<close>)
  next
    case (BindTarget b)
    then show ?thesis
      using h mirrored_replayed [OF m, of audit] holds_chain_remember [OF h, where g = "add_binding b" and x = "InsertBinding b" and audit = audit] snapshot_add_binding
      by (auto simp: bind_domain_def mirrored_def)
  next
    case (UnbindTarget b)
    then show ?thesis
      using h mirrored_replayed [OF m, of audit] holds_chain_remember [OF h, where g = "drop_binding b" and x = "DeleteBinding b" and audit = audit] snapshot_drop_binding
      by (auto simp: unbind_domain_def mirrored_def)
  qed
  then show ?thesis using step_registry_ok [OF ok] by (simp add: mirrored_def)
qed

lemma run_mirrored: "mirrored w \<Longrightarrow> mirrored (topology_run S xs w)"
  unfolding topology_run_def by (induction xs arbitrary: w) (auto simp: step_mirrored)

end

section \<open>The tables keep the contract\<close>

definition domain_row_of :: "failure_domain \<Rightarrow> domain_row" where
  "domain_row_of d =
     \<lparr>dr_id = fd_id d, dr_class = class_name (fd_class d), dr_name = fd_name d, dr_az = fd_domain d,
      dr_parent = fd_parent d, dr_generation = uint (fd_generation d), dr_metadata = fd_metadata d\<rparr>"

definition region_view :: "(string \<times> string) list \<Rightarrow> string \<Rightarrow> region_declaration" where
  "region_view azs i = \<lparr>rd_id = i, rd_domains = sort (map fst (filter (\<lambda>x. snd x = i) azs))\<rparr>"

definition tables_view :: "topology_db \<Rightarrow> failure_domain list \<Rightarrow> topology_binding list \<Rightarrow> topology_snapshot" where
  "tables_view db ds bs =
     \<lparr>ts_regions = sort_key rd_id (map (region_view (td_azs db)) (td_regions db)),
      ts_domains = sort_key fd_id ds, ts_bindings = sort_key binding_key bs\<rparr>"

definition tables_of :: "topology_db \<Rightarrow> failure_domain list \<Rightarrow> topology_binding list \<Rightarrow> bool" where
  "tables_of db ds bs \<longleftrightarrow> td_domains db = map domain_row_of ds \<and> td_bindings db = map binding_row_of bs
     \<and> (\<forall>d\<in>set ds. uint (fd_generation d) \<le> i64_max) \<and> distinct (map fd_id ds) \<and> distinct bs
     \<and> distinct (td_regions db) \<and> distinct (map fst (td_azs db)) \<and> (\<forall>a r. (a, r) \<in> set (td_azs db) \<longrightarrow> r \<in> set (td_regions db))"

definition tables_hold :: "topology_db \<Rightarrow> topology_snapshot \<Rightarrow> bool" where
  "tables_hold db s \<longleftrightarrow> (\<exists>ds bs. tables_of db ds bs \<and> s = tables_view db ds bs)"

lemma row_fields [simp]:
  "dr_id (domain_row_of d) = fd_id d" "dr_az (domain_row_of d) = fd_domain d"
  "dr_parent (domain_row_of d) = fd_parent d" "dr_generation (domain_row_of d) = uint (fd_generation d)"
  "br_domain (binding_row_of b) = tb_domain b" "binding_row_key (binding_row_of b) = binding_key b"
  "rd_id (region_view azs i) = i"
  by (simp_all add: domain_row_of_def binding_row_of_def region_view_def binding_row_key_def binding_key_def)

lemma binding_row_inj [simp]: "binding_row_of b = binding_row_of c \<longleftrightarrow> b = c"
  using binding_key_inj [of b c] by (auto simp: binding_row_of_def binding_key_def)

lemma parse_class_name [simp]: "parse_class (class_name c) = Inr c"
  by (cases c) (simp_all add: parse_class_def)

lemma parse_kind_name [simp]: "parse_kind (target_kind_name k) = Inr k"
  by (cases k) (simp_all add: parse_kind_def)

lemma parse_domain_row_back [simp]:
  "uint (fd_generation d) \<le> i64_max \<Longrightarrow> parse_domain_row (domain_row_of d) = Inr d"
  by (simp add: parse_domain_row_def domain_row_of_def u64_of_i64_uint)

lemma parse_binding_row_back [simp]: "parse_binding_row (binding_row_of b) = Inr b"
  by (simp add: parse_binding_row_def binding_row_of_def)

lemma sort_key_same:
  assumes "distinct (map f xs)" "mset xs = mset ys" "sorted (map f ys)"
  shows "sort_key f xs = ys"
  using assms by (intro sort_key_inj_key_eq) (simp_all add: distinct_map)

lemma collect_sorted_domains:
  assumes "\<forall>d\<in>set ds. uint (fd_generation d) \<le> i64_max"
  shows "collect_results parse_domain_row (map domain_row_of ds) = Inr ds"
  using assms by (induction ds) simp_all

lemma collect_bindings: "collect_results parse_binding_row (map binding_row_of bs) = Inr bs"
  by (induction bs) simp_all

lemma az_order:
  "map fst (filter (\<lambda>x. snd x = i) (sort_key (\<lambda>x. (snd x, fst x)) azs))
     = sort (map fst (filter (\<lambda>x. snd x = (i::string)) (azs :: (string \<times> string) list)))"
proof -
  let ?ys = "filter (\<lambda>x. snd x = i) (sort_key (\<lambda>x. (snd x, fst x)) azs)"
  have "sorted (map (\<lambda>x. (snd x, fst x)) ?ys)" by (rule sorted_filter) simp
  then have "sorted_wrt (\<lambda>x y. (snd x, fst x) \<le> (snd y, fst y)) ?ys" by (simp add: sorted_map)
  then have "sorted_wrt (\<lambda>x y. fst x \<le> fst y) ?ys"
    by (rule sorted_wrt_mono_rel [rotated]) (auto simp: less_eq_prod_def)
  then have "sorted (map fst ?ys)" by (simp add: sorted_map)
  then show ?thesis by (intro properties_for_sort [symmetric]) (simp_all add: mset_filter)
qed

lemma tables_load:
  assumes "tables_hold db s"
  shows "load_snapshot db = Inr s"
proof -
  from assms obtain ds bs where t: "tables_of db ds bs" and s: "s = tables_view db ds bs"
    by (auto simp: tables_hold_def)
  have "sort_key rd_id (map (region_view (td_azs db)) (td_regions db)) = map (region_view (td_azs db)) (sort (td_regions db))"
    by (simp add: sort_key_of_map)
  moreover have "\<not> list_ex (\<lambda>x. snd x \<notin> set (td_regions db)) (td_azs db)"
    using t by (auto simp: tables_of_def list_ex_iff)
  ultimately show ?thesis
    using t by (simp add: load_snapshot_def s tables_view_def tables_of_def sort_key_of_map collect_sorted_domains
        collect_bindings az_order region_view_def)
qed


lemma generation_i64_Inr: "generation_i64 g = Inr i \<longleftrightarrow> i = uint g \<and> uint g \<le> i64_max"
  by (auto simp: generation_i64_def i64_of_u64_eq_Some i64_of_u64_eq_None split: option.splits)

text \<open>Every statement leaves the rows of the other tables, and its own change is the effect.\<close>

definition region_rows :: "topology_db \<Rightarrow> region_declaration list" where
  "region_rows db = sort_key rd_id (map (region_view (td_azs db)) (td_regions db))"

lemma tables_holdI:
  assumes "tables_of db ds bs" "ts_regions s = region_rows db" "ts_domains s = sort_key fd_id ds"
    "ts_bindings s = sort_key binding_key bs"
  shows "tables_hold db s"
  using assms unfolding tables_hold_def tables_view_def region_rows_def
  by (intro exI [of _ ds] exI [of _ bs]) (simp add: topology_snapshot.equality)

lemma tables_holdE:
  assumes "tables_hold db s"
  obtains ds bs where "tables_of db ds bs" "ts_regions s = region_rows db" "ts_domains s = sort_key fd_id ds"
    "ts_bindings s = sort_key binding_key bs"
  using assms unfolding tables_hold_def by (auto simp: tables_view_def region_rows_def)

lemma tables_hold_audit [simp]: "tables_hold (db\<lparr>td_audit := rows\<rparr>) s = tables_hold db s"
  by (simp add: tables_hold_def tables_of_def tables_view_def)

lemma in_transaction_Inl: "in_transaction f audit db = (Inl e, db') \<Longrightarrow> db' = db"
  by (auto simp: in_transaction_def split: sum.splits option.splits)

lemma in_transaction_Inr:
  assumes "in_transaction f audit db = (Inr u, db')" "\<And>db1. f db = Inr db1 \<Longrightarrow> tables_hold db1 s"
  shows "tables_hold db' s"
  using assms by (auto simp: in_transaction_def split: sum.splits option.splits)

lemma sort_key_again:
  assumes "distinct (map f (xs @ [y]))"
  shows "sort_key f (sort_key f xs @ [y]) = sort_key f (xs @ [y])"
proof (rule sort_key_inj_key_eq)
  have "inj_on f (set (xs @ [y]))" using assms unfolding distinct_map by blast
  then show "inj_on f (set (sort_key f xs @ [y]))" by simp
qed simp_all

lemma sorted_ids [simp]: "rd_id ` set (region_rows db) = set (td_regions db)"
  by (simp add: region_rows_def image_image)

lemma az_listed:
  "\<forall>a r. (a, r) \<in> set azs \<longrightarrow> r \<in> set rs \<Longrightarrow> (\<exists>r\<in>region_view azs ` set rs. a \<in> set (rd_domains r)) \<longleftrightarrow> a \<in> fst ` set azs"
  by (force simp: region_view_def)

lemma insert_region_taken:
  assumes "tables_hold db s" "insert_region_row i db = Inr db'"
  shows "tables_hold db' (store_effect (InsertRegion i) s)"
  using assms(1)
proof (rule tables_holdE)
  fix ds bs
  assume t: "tables_of db ds bs" "ts_regions s = region_rows db" "ts_domains s = sort_key fd_id ds"
    "ts_bindings s = sort_key binding_key bs"
  show ?thesis
  proof (cases "i \<in> set (td_regions db)")
    case False
    then have none: "filter (\<lambda>x. snd x = i) (td_azs db) = []" using t(1) by (auto simp: tables_of_def filter_empty_conv)
    with False assms(2) t show ?thesis
      by (intro tables_holdI [of _ ds bs])
        (auto simp: insert_region_row_def tables_of_def region_rows_def region_view_def comp_def distinct_map
          intro!: sort_key_again)
  qed (use assms(2) t in \<open>auto simp: insert_region_row_def intro!: tables_holdI [of _ ds bs]\<close>)
qed

lemma delete_region_taken:
  assumes "tables_hold db s" "delete_region_row i db = Inr db'"
  shows "tables_hold db' (store_effect (DeleteRegion i) s)"
  using assms(1)
proof (rule tables_holdE)
  fix ds bs
  assume t: "tables_of db ds bs" "ts_regions s = region_rows db" "ts_domains s = sort_key fd_id ds"
    "ts_bindings s = sort_key binding_key bs"
  have "filter (\<lambda>r. rd_id r \<noteq> i) (region_rows db) = region_rows (db\<lparr>td_regions := filter (\<lambda>r. r \<noteq> i) (td_regions db)\<rparr>)"
    by (simp add: region_rows_def filter_sort filter_map comp_def)
  moreover have "\<forall>a r. (a, r) \<in> set (td_azs db) \<longrightarrow> r \<in> set (td_regions db) \<and> r \<noteq> i"
    using t(1) assms(2) by (auto simp: tables_of_def delete_region_row_def list_ex_iff split: if_splits)
  ultimately show ?thesis using assms(2) t
    by (intro tables_holdI [of _ ds bs]) (auto simp: delete_region_row_def tables_of_def split: if_splits)
qed

lemma insert_az_taken:
  assumes "tables_hold db s" "insert_az_row i a db = Inr db'"
  shows "tables_hold db' (store_effect (InsertAz i a) s)"
  using assms(1)
proof (rule tables_holdE)
  fix ds bs
  assume t: "tables_of db ds bs" "ts_regions s = region_rows db" "ts_domains s = sort_key fd_id ds"
    "ts_bindings s = sort_key binding_key bs"
  then have known: "(\<exists>r\<in>set (ts_regions s). a \<in> set (rd_domains r)) \<longleftrightarrow> a \<in> fst ` set (td_azs db)"
    using az_listed [of "td_azs db" "td_regions db"] by (simp add: region_rows_def tables_of_def)
  have add: "with_az i a (region_view (td_azs db) r) = region_view (td_azs db @ [(a, i)]) r" for r
    by (auto simp: with_az_def region_view_def intro!: sort_key_inj_key_eq)
  then have "map (with_az i a) (region_rows db) = region_rows (db\<lparr>td_azs := td_azs db @ [(a, i)]\<rparr>)"
    by (simp add: region_rows_def sort_key_of_map comp_def)
  with known assms(2) t show ?thesis
    by (intro tables_holdI [of _ ds bs]) (auto simp: insert_az_row_def tables_of_def list_ex_iff split: if_splits)
qed

lemma delete_az_taken:
  assumes "tables_hold db s" "delete_az_row a db = Inr db'"
  shows "tables_hold db' (store_effect (DeleteAz a) s)"
  using assms(1)
proof (rule tables_holdE)
  fix ds bs
  assume t: "tables_of db ds bs" "ts_regions s = region_rows db" "ts_domains s = sort_key fd_id ds"
    "ts_bindings s = sort_key binding_key bs"
  have "(region_view (td_azs db) r)\<lparr>rd_domains := filter (\<lambda>x. x \<noteq> a) (rd_domains (region_view (td_azs db) r))\<rparr>
      = region_view (filter (\<lambda>x. fst x \<noteq> a) (td_azs db)) r" for r
    by (simp add: region_view_def filter_sort filter_map comp_def conj_commute)
  then have "map (\<lambda>r. r\<lparr>rd_domains := filter (\<lambda>x. x \<noteq> a) (rd_domains r)\<rparr>) (region_rows db)
      = region_rows (db\<lparr>td_azs := filter (\<lambda>x. fst x \<noteq> a) (td_azs db)\<rparr>)"
    by (simp add: region_rows_def sort_key_of_map comp_def)
  with assms(2) t show ?thesis
    by (intro tables_holdI [of _ ds bs])
      (auto simp: delete_az_row_def tables_of_def distinct_map_filter split: if_splits)
qed


lemma insert_domain_taken:
  assumes "tables_hold db s" "insert_domain_row d db = Inr db'"
  shows "tables_hold db' (store_effect (InsertDomain d) s)"
  using assms(1)
proof (rule tables_holdE)
  fix ds bs
  assume t: "tables_of db ds bs" "ts_regions s = region_rows db" "ts_domains s = sort_key fd_id ds"
    "ts_bindings s = sort_key binding_key bs"
  from assms(2) have db': "db' = db\<lparr>td_domains := td_domains db @ [domain_row_of d]\<rparr>" "uint (fd_generation d) \<le> i64_max"
    and new: "\<not> list_ex (\<lambda>r. dr_id r = fd_id d) (td_domains db)"
    by (auto simp: insert_domain_row_def domain_row_of_def generation_i64_Inr split: sum.splits if_splits)
  from new t(1) have "distinct (map fd_id (ds @ [d]))" by (auto simp: tables_of_def list_ex_iff)
  then show ?thesis using t db'
    by (intro tables_holdI [of _ "ds @ [d]" bs])
      (auto simp: tables_of_def region_rows_def intro!: sort_key_again simp del: sort_key_simps)
qed

lemma generation_rows:
  assumes "tables_of db ds bs" "list_ex (\<lambda>r. dr_id r = i \<and> dr_generation r = n) (td_domains db)" "d \<in> set ds"
  shows "fd_id d = i \<and> uint (fd_generation d) = n \<longleftrightarrow> fd_id d = i"
  using assms same_domain [of ds] by (auto simp: tables_of_def list_ex_iff)

lemma update_domain_taken:
  assumes "tables_hold db s" "update_domain_row d expected db = Inr db'"
  shows "tables_hold db' (store_effect (UpdateDomainRow d expected) s)"
  using assms(1)
proof (rule tables_holdE)
  fix ds bs
  assume t: "tables_of db ds bs" "ts_regions s = region_rows db" "ts_domains s = sort_key fd_id ds"
    "ts_bindings s = sort_key binding_key bs"
  from assms(2) obtain n where n: "list_ex (\<lambda>r. dr_id r = fd_id d \<and> dr_generation r = n) (td_domains db)"
    and db': "db' = db\<lparr>td_domains := map (\<lambda>r. if dr_id r = fd_id d \<and> dr_generation r = n
        then r\<lparr>dr_name := fd_name d, dr_generation := uint (fd_generation d), dr_metadata := fd_metadata d\<rparr> else r) (td_domains db)\<rparr>"
    and g: "uint (fd_generation d) \<le> i64_max"
    by (auto simp: update_domain_row_def generation_i64_Inr split: sum.splits if_splits)
  have "td_domains db' = map domain_row_of (map (updated_domain d) ds)"
    using t(1) db' generation_rows [OF t(1) n]
    by (auto simp: tables_of_def updated_domain_def domain_row_of_def)
  moreover have ids: "fd_id (updated_domain d x) = fd_id x" for x by (simp add: updated_domain_def)
  then have "map (updated_domain d) (sort_key fd_id ds) = sort_key fd_id (map (updated_domain d) ds)"
    by (simp add: sort_key_of_map)
  moreover have "tables_of db' (map (updated_domain d) ds) bs"
    using t(1) db' g calculation(1) ids by (auto simp: tables_of_def comp_def updated_domain_def)
  ultimately show ?thesis using t db'
    by (intro tables_holdI [of _ "map (updated_domain d) ds" bs]) (simp_all add: region_rows_def)
qed

lemma delete_domain_taken:
  assumes "tables_hold db s" "delete_domain_row i expected db = Inr db'"
  shows "tables_hold db' (store_effect (DeleteDomainRow i expected) s)"
  using assms(1)
proof (rule tables_holdE)
  fix ds bs
  assume t: "tables_of db ds bs" "ts_regions s = region_rows db" "ts_domains s = sort_key fd_id ds"
    "ts_bindings s = sort_key binding_key bs"
  from assms(2) obtain n where n: "list_ex (\<lambda>r. dr_id r = i \<and> dr_generation r = n) (td_domains db)"
    and db': "db' = db\<lparr>td_domains := filter (\<lambda>r. \<not> (dr_id r = i \<and> dr_generation r = n)) (td_domains db)\<rparr>"
    by (auto simp: delete_domain_row_def split: sum.splits if_splits)
  have "filter (\<lambda>d. \<not> (fd_id d = i \<and> uint (fd_generation d) = n)) ds = filter (\<lambda>d. fd_id d \<noteq> i) ds"
    using generation_rows [OF t(1) n] by (intro filter_cong) auto
  then have "td_domains db' = map domain_row_of (filter (\<lambda>d. fd_id d \<noteq> i) ds)"
    using t(1) db' by (simp add: tables_of_def filter_map comp_def)
  then have "tables_of db' (filter (\<lambda>d. fd_id d \<noteq> i) ds) bs"
    using t(1) db' by (auto simp: tables_of_def distinct_map_filter)
  then show ?thesis using t db'
    by (intro tables_holdI [of _ "filter (\<lambda>d. fd_id d \<noteq> i) ds" bs]) (simp_all add: region_rows_def filter_sort)
qed

lemma binding_keys_distinct: "distinct bs \<Longrightarrow> distinct (map binding_key bs)"
  by (simp add: distinct_map inj_on_def binding_key_inj)

lemma insert_binding_taken:
  assumes "tables_hold db s" "insert_binding_row b db = Inr db'"
  shows "tables_hold db' (store_effect (InsertBinding b) s)"
  using assms(1)
proof (rule tables_holdE)
  fix ds bs
  assume t: "tables_of db ds bs" "ts_regions s = region_rows db" "ts_domains s = sort_key fd_id ds"
    "ts_bindings s = sort_key binding_key bs"
  have known: "binding_row_of b \<in> set (td_bindings db) \<longleftrightarrow> b \<in> set bs" using t(1) by (auto simp: tables_of_def)
  show ?thesis
  proof (cases "b \<in> set bs")
    case False
    then have "distinct (map binding_key (bs @ [b]))"
      using t(1) by (intro binding_keys_distinct) (simp add: tables_of_def)
    from sort_key_again [OF this] False known assms(2) t show ?thesis
      by (intro tables_holdI [of _ ds "bs @ [b]"])
        (auto simp: insert_binding_row_def tables_of_def region_rows_def split: if_splits)
  qed (use known assms(2) t in \<open>auto simp: insert_binding_row_def intro!: tables_holdI [of _ ds bs]\<close>)
qed

lemma delete_binding_taken:
  assumes "tables_hold db s" "delete_binding_row b db = Inr db'"
  shows "tables_hold db' (store_effect (DeleteBinding b) s)"
  using assms(1)
proof (rule tables_holdE)
  fix ds bs
  assume t: "tables_of db ds bs" "ts_regions s = region_rows db" "ts_domains s = sort_key fd_id ds"
    "ts_bindings s = sort_key binding_key bs"
  have "td_bindings db' = map binding_row_of (filter (\<lambda>x. x \<noteq> b) bs)"
    using t(1) assms(2) by (auto simp: delete_binding_row_def tables_of_def filter_map comp_def)
  with t assms(2) show ?thesis
    by (intro tables_holdI [of _ ds "filter (\<lambda>x. x \<noteq> b) bs"])
      (auto simp: delete_binding_row_def tables_of_def region_rows_def filter_sort)
qed

definition row_statement :: "store_op \<Rightarrow> topology_db \<Rightarrow> (kernel_error, topology_db) rust_result" where
  "row_statement x = (case x of
     InsertRegion i \<Rightarrow> insert_region_row i | DeleteRegion i \<Rightarrow> delete_region_row i
   | InsertAz r a \<Rightarrow> insert_az_row r a | DeleteAz a \<Rightarrow> delete_az_row a
   | InsertDomain d \<Rightarrow> insert_domain_row d | UpdateDomainRow d n \<Rightarrow> update_domain_row d n
   | DeleteDomainRow i n \<Rightarrow> delete_domain_row i n | InsertBinding b \<Rightarrow> insert_binding_row b
   | DeleteBinding b \<Rightarrow> delete_binding_row b)"

lemma sqlite_call: "store_call sqlite_topology x = in_transaction (row_statement x)"
  by (cases x) (simp_all add: sqlite_topology_def row_statement_def fun_eq_iff)

lemma statement_taken:
  "tables_hold db s \<Longrightarrow> row_statement x db = Inr db' \<Longrightarrow> tables_hold db' (store_effect x s)"
  by (cases x) (simp_all add: row_statement_def insert_region_taken delete_region_taken insert_az_taken delete_az_taken
      insert_domain_taken update_domain_taken delete_domain_taken insert_binding_taken delete_binding_taken
      del: store_effect.simps)

lemma audit_noted: "tables_hold db s \<Longrightarrow> record_audit a db = (r, db') \<Longrightarrow> tables_hold db' s"
  by (auto simp: record_audit_def in_transaction_def split: sum.splits)

interpretation sqlite: topology_contract sqlite_topology tables_hold
proof unfold_locales
  fix db s x audit e db'
  assume "tables_hold db s" "store_call sqlite_topology x audit db = (Inl e, db')"
  then show "tables_hold db' s" by (auto simp: sqlite_call dest: in_transaction_Inl)
next
  fix db s x audit u db'
  assume "tables_hold db s" "store_call sqlite_topology x audit db = (Inr u, db')"
  then show "tables_hold db' (store_effect x s)" unfolding sqlite_call
    by (elim in_transaction_Inr) (rule statement_taken)
next
  fix db s a r db'
  assume h: "tables_hold db s" "st_record_audit sqlite_topology a db = (r, db')"
  from h(2) have "record_audit a db = (r, db')" by (simp add: sqlite_topology_def)
  with h(1) show "tables_hold db' s" by (rule audit_noted)
qed


end
