(* ===== verification/Topology_Life.thy ===== *)
theory Topology_Life
  imports Topology_Contract
begin

text \<open>
  What the contract means for a running cloud: the start of the daemon
  (\<open>bins/o3kd/src/composition/mod.rs\<close>), which loads the stored topology and declares the
  configured regions, changes of it, and kills in the middle of a change; the audit event that
  is written with a change; and what happens when a store takes an update and its answer is
  lost.
\<close>

section \<open>The life of a daemon\<close>

text \<open>The start: the stored topology is loaded and validated, then the configured regions are
  declared without an audit event, up to the first error.\<close>

definition stored_topology :: "topology_db \<Rightarrow> (topology_error, location_registry) rust_result" where
  "stored_topology db =
     (case load_snapshot db of
        Inl e \<Rightarrow> Inl (TopologyStoreError e)
      | Inr s \<Rightarrow> map_sum TopologyLocation id (from_snapshot s))"

definition declared_ops :: "region_declaration list \<Rightarrow> topology_op list" where
  "declared_ops locations =
     concat (map (\<lambda>r. DeclareRegion (rd_id r) # map (DeclareAz (rd_id r)) (rd_domains r)) locations)"

fun converge :: "topology_op list \<Rightarrow> topology_db topology_act" where
  "converge [] = done_with ()"
| "converge (x # xs) = chain (topology_step sqlite_topology x None) (\<lambda>_. converge xs)"

definition topology_start ::
  "region_declaration list \<Rightarrow> topology_db \<Rightarrow> (topology_error, location_registry) rust_result \<times> topology_db" where
  "topology_start locations db =
     (case stored_topology db of
        Inl e \<Rightarrow> (Inl e, db)
      | Inr R \<Rightarrow>
          (case converge (declared_ops locations) \<lparr>tw_registry = R, tw_store = db\<rparr> of
             (Inl e, w) \<Rightarrow> (Inl e, tw_store w)
           | (Inr _, w) \<Rightarrow> (Inr (tw_registry w), tw_store w)))"

text \<open>What happens to it: a change; a kill after the store took its part of a change and before
  the memory followed; a start with some configuration. The memory is None while it is down.\<close>

datatype topology_event =
    Change topology_op "audit_event option"
  | Killed topology_op "audit_event option"
  | Start "region_declaration list"

type_synonym topology_host = "location_registry option \<times> topology_db"

fun live :: "topology_event \<Rightarrow> topology_host \<Rightarrow> topology_host" where
  "live (Start locations) (memory, db) =
     (case topology_start locations db of (Inl _, db') \<Rightarrow> (None, db') | (Inr R, db') \<Rightarrow> (Some R, db'))"
| "live (Change x audit) (None, db) = (None, db)"
| "live (Change x audit) (Some R, db) =
     (let w = snd (topology_step sqlite_topology x audit \<lparr>tw_registry = R, tw_store = db\<rparr>)
      in (Some (tw_registry w), tw_store w))"
| "live (Killed x audit) (None, db) = (None, db)"
| "live (Killed x audit) (Some R, db) =
     (None, tw_store (snd (topology_step sqlite_topology x audit \<lparr>tw_registry = R, tw_store = db\<rparr>)))"

definition empty_topology_db :: topology_db where
  "empty_topology_db = \<lparr>td_regions = [], td_azs = [], td_domains = [], td_bindings = [], td_audit = []\<rparr>"

definition topology_life :: "topology_event list \<Rightarrow> topology_host" where
  "topology_life xs = fold live xs (None, empty_topology_db)"

definition host_ok :: "topology_host \<Rightarrow> bool" where
  "host_ok h \<longleftrightarrow> (\<exists>R. sqlite.mirrored \<lparr>tw_registry = R, tw_store = snd h\<rparr> \<and> (fst h = None \<or> fst h = Some R))"

lemma world_eta: "\<lparr>tw_registry = tw_registry w, tw_store = tw_store w\<rparr> = w"
  for w :: "'db topology_world"
  by simp

lemma mirrored_stored:
  assumes "sqlite.mirrored \<lparr>tw_registry = R, tw_store = db\<rparr>"
  shows "stored_topology db = Inr R"
proof -
  have "load_snapshot db = Inr (snapshot R)" "registry_ok R"
    using assms by (simp_all add: sqlite.mirrored_def tables_load)
  then show ?thesis by (simp add: stored_topology_def registry_ok_def)
qed

lemma converge_mirrored: "sqlite.mirrored w \<Longrightarrow> sqlite.mirrored (snd (converge xs w))"
proof (induction xs arbitrary: w)
  case (Cons x xs)
  then show ?case using sqlite.step_mirrored [OF Cons.prems, of x None]
    by (cases "topology_step sqlite_topology x None w") (auto simp: chain_def split: sum.split)
qed (simp add: done_with_def)

lemma mirrored_some: "sqlite.mirrored w \<Longrightarrow> \<exists>R. sqlite.mirrored \<lparr>tw_registry = R, tw_store = tw_store w\<rparr>"
  by (rule exI [of _ "tw_registry w"]) (simp add: world_eta)

lemma live_ok:
  assumes "host_ok h"
  shows "host_ok (live x h)"
proof -
  from assms obtain R where m: "sqlite.mirrored \<lparr>tw_registry = R, tw_store = snd h\<rparr>" and c: "fst h = None \<or> fst h = Some R"
    by (auto simp: host_ok_def)
  obtain memory db where h: "h = (memory, db)" by (cases h)
  show ?thesis
  proof (cases x)
    case (Start locations)
    have "sqlite.mirrored (snd (converge (declared_ops locations) \<lparr>tw_registry = R, tw_store = db\<rparr>))"
      using m h by (simp add: converge_mirrored)
    with mirrored_stored [OF m] h show ?thesis
      by (auto simp: Start topology_start_def host_ok_def world_eta intro: mirrored_some split: prod.splits sum.splits)
  next
    case (Change y audit)
    with m c h sqlite.step_mirrored [of "\<lparr>tw_registry = R, tw_store = db\<rparr>" y audit] show ?thesis
      by (cases memory) (auto simp: host_ok_def Let_def world_eta)
  next
    case (Killed y audit)
    with m c h sqlite.step_mirrored [of "\<lparr>tw_registry = R, tw_store = db\<rparr>" y audit] show ?thesis
      by (cases memory) (auto simp: host_ok_def world_eta intro: mirrored_some)
  qed
qed

lemma empty_ok: "host_ok (None, empty_topology_db)"
proof -
  have "tables_of empty_topology_db [] []" by (simp add: tables_of_def empty_topology_db_def)
  then have "tables_hold empty_topology_db (snapshot \<lparr>lr_regions = [], lr_domains = [], lr_bindings = []\<rparr>)"
    by (rule tables_holdI) (simp_all add: snapshot_def region_rows_def empty_topology_db_def)
  moreover have "registry_ok \<lparr>lr_regions = [], lr_domains = [], lr_bindings = []\<rparr>" by code_simp
  ultimately show ?thesis
    by (intro host_ok_def [THEN iffD2] exI [of _ "\<lparr>lr_regions = [], lr_domains = [], lr_bindings = []\<rparr>"])
      (simp add: sqlite.mirrored_def)
qed

lemma life_ok: "host_ok (topology_life xs)"
proof -
  have "host_ok (fold live xs h)" if "host_ok h" for h
    using that by (induction xs arbitrary: h) (simp_all add: live_ok)
  then show ?thesis by (simp add: topology_life_def empty_ok)
qed

text \<open>
  C35: The topology survives. From an empty database, after any sequence of changes, kills in
  the middle of a change, and starts with any configuration, the stored topology loads and
  validates, a daemon that runs has exactly it in its memory, and its hierarchy is sound.
\<close>

theorem topology_survives:
  "\<exists>R. stored_topology (snd (topology_life xs)) = Inr R \<and> sound_hierarchy (lr_domains R)
     \<and> (fst (topology_life xs) = None \<or> fst (topology_life xs) = Some R)"
proof -
  from life_ok [of xs] obtain R where m: "sqlite.mirrored \<lparr>tw_registry = R, tw_store = snd (topology_life xs)\<rparr>"
    and c: "fst (topology_life xs) = None \<or> fst (topology_life xs) = Some R"
    by (auto simp: host_ok_def)
  from m have "registry_ok R" by (simp add: sqlite.mirrored_def)
  then have "sound_hierarchy (lr_domains R)" by (elim registry_okE) (rule structures_sound)
  with mirrored_stored [OF m] c show ?thesis by blast
qed


section \<open>The audit event of a change\<close>

lemma in_transaction_audited:
  assumes "in_transaction f (Some a) db = (Inr u, db')" "\<And>db1. f db = Inr db1 \<Longrightarrow> td_audit db1 = td_audit db"
  shows "from_kernel_event a \<in> set (td_audit db')" "set (td_audit db) \<subseteq> set (td_audit db')"
  using assms insert_keeps_rows [of "from_kernel_event a" "td_audit db"]
  by (auto simp: in_transaction_def insert_topology_audit_tx_def split: sum.splits audit_store_error.splits)

lemma statement_audit: "row_statement x db = Inr db1 \<Longrightarrow> td_audit db1 = td_audit db"
  by (cases x) (auto simp: row_statement_def insert_region_row_def delete_region_row_def insert_az_row_def
      delete_az_row_def insert_domain_row_def update_domain_row_def delete_domain_row_def insert_binding_row_def
      delete_binding_row_def split: sum.splits if_splits)

text \<open>What a call of the store did, seen from the registry.\<close>

definition all_or_nothing :: "audit_event \<Rightarrow> topology_db topology_world \<Rightarrow>
    (topology_error, unit) rust_result \<times> topology_db topology_world \<Rightarrow> bool" where
  "all_or_nothing a w out \<longleftrightarrow>
     (case out of
        (Inl _, w') \<Rightarrow> w' = w
      | (Inr _, w') \<Rightarrow> from_kernel_event a \<in> set (td_audit (tw_store w'))
           \<and> set (td_audit (tw_store w)) \<subseteq> set (td_audit (tw_store w')))"

lemma nothing_fail [simp]: "all_or_nothing a w (Inl e, w)"
  by (simp add: all_or_nothing_def)

lemma stored_all_or_nothing: "all_or_nothing a w (stored (store_call sqlite_topology x (Some a)) w)"
proof (cases "store_call sqlite_topology x (Some a) (tw_store w)")
  case (Pair r db)
  show ?thesis
  proof (cases r)
    case (Inl e)
    with Pair have "db = tw_store w" by (auto simp: sqlite_call dest: in_transaction_Inl)
    with Pair Inl show ?thesis by (simp add: all_or_nothing_def stored_def)
  next
    case (Inr u)
    with Pair have "in_transaction (row_statement x) (Some a) (tw_store w) = (Inr u, db)" by (simp add: sqlite_call)
    from in_transaction_audited [OF this] Pair Inr statement_audit show ?thesis
      by (auto simp: all_or_nothing_def stored_def)
  qed
qed

lemma replayed_all_or_nothing [simp]: "all_or_nothing a w (replayed sqlite_topology (Some a) w)"
proof (cases "record_audit a (tw_store w)")
  case (Pair r db)
  then have t: "in_transaction Inr (Some a) (tw_store w) = (r, db)" by (simp add: record_audit_def)
  from Pair have "replayed sqlite_topology (Some a) w = (map_sum TopologyStoreError id r, w\<lparr>tw_store := db\<rparr>)"
    by (simp add: replayed_def stored_def sqlite_topology_def)
  with t in_transaction_Inl [of Inr "Some a" "tw_store w"] in_transaction_audited [of Inr a "tw_store w"]
  show ?thesis by (cases r) (auto simp: all_or_nothing_def)
qed

lemma remembered_all_or_nothing [simp]:
  "all_or_nothing a w (chain (stored (store_call sqlite_topology x (Some a))) (\<lambda>_. remember g) w)"
  using stored_all_or_nothing [of a w x]
  by (auto simp: all_or_nothing_def chain_def remember_def split: prod.splits sum.splits)

lemma stored_registry: "tw_registry (snd (stored f w)) = tw_registry w"
  by (simp add: stored_def split: prod.split)

lemma remembered_at_all_or_nothing:
  assumes "domain_at (tw_registry w) i n = Inr c"
  shows "all_or_nothing a w (chain (stored (store_call sqlite_topology x (Some a))) (\<lambda>_. remember_at i n g) w)"
  using stored_all_or_nothing [of a w x] stored_registry [of "store_call sqlite_topology x (Some a)" w] assms
  by (auto simp: all_or_nothing_def chain_def remember_def remember_at_def split: prod.splits sum.splits)

lemma step_all_or_nothing: "all_or_nothing a w (topology_step sqlite_topology x (Some a) w)"
proof (cases x)
  case (DeclareRegion i)
  with remembered_all_or_nothing [of a w "InsertRegion i"] show ?thesis
    by (auto simp: declare_region_def split: option.split)
next
  case (RemoveRegion i)
  with remembered_all_or_nothing [of a w "DeleteRegion i"] show ?thesis
    by (auto simp: remove_region_def split: option.split)
next
  case (DeclareAz i z)
  with remembered_all_or_nothing [of a w "InsertAz i z"] show ?thesis
    by (auto simp: declare_availability_domain_def split: option.split)
next
  case (RemoveAz z)
  with remembered_all_or_nothing [of a w "DeleteAz z"] show ?thesis
    by (auto simp: remove_availability_domain_def split: option.split)
next
  case (CreateDomain d)
  with remembered_all_or_nothing [of a w "InsertDomain (d\<lparr>fd_generation := 1\<rparr>)"] show ?thesis
    by (auto simp: create_failure_domain_def split: option.split)
next
  case (UpdateDomain i name metadata n)
  show ?thesis
  proof (cases "domain_at (tw_registry w) i n")
    case (Inr c)
    let ?d = "c\<lparr>fd_name := name, fd_generation := n + 1, fd_metadata := metadata\<rparr>"
    from remembered_at_all_or_nothing [OF Inr, of a "UpdateDomainRow ?d n"] Inr UpdateDomain show ?thesis
      by (auto simp: update_failure_domain_def Let_def split: option.split)
  qed (simp add: UpdateDomain update_failure_domain_def)
next
  case (DeleteDomain i n)
  show ?thesis
  proof (cases "domain_at (tw_registry w) i n")
    case (Inr c)
    from remembered_at_all_or_nothing [OF Inr, of a "DeleteDomainRow i n"] Inr DeleteDomain show ?thesis
      by (auto simp: delete_failure_domain_def)
  qed (simp add: DeleteDomain delete_failure_domain_def)
next
  case (BindTarget b)
  with remembered_all_or_nothing [of a w "InsertBinding b"] show ?thesis by (auto simp: bind_domain_def)
next
  case (UnbindTarget b)
  with remembered_all_or_nothing [of a w "DeleteBinding b"] show ?thesis by (auto simp: unbind_domain_def)
qed

text \<open>
  A change and its audit event are one. On the SQLite store, an operation of the registry
  with an audit event either fails, and then neither the memory nor any table has changed, or
  succeeds, and then the event is stored and no earlier event is lost, also when the operation
  repeats one that was done before.
\<close>

theorem topology_change_is_audited:
  "case topology_step sqlite_topology x (Some a) w of
     (Inl _, w') \<Rightarrow> w' = w
   | (Inr _, w') \<Rightarrow> from_kernel_event a \<in> set (td_audit (tw_store w'))
        \<and> set (td_audit (tw_store w)) \<subseteq> set (td_audit (tw_store w'))"
  using step_all_or_nothing [of a w x] by (simp add: all_or_nothing_def split: prod.splits)

section \<open>An answer that is lost\<close>

text \<open>A store whose answer to an update does not arrive, although the update was taken.\<close>

definition lost_answer :: "'db topology_store \<Rightarrow> 'db topology_store" where
  "lost_answer S = S\<lparr>st_update_domain := \<lambda>d n audit db. (Inl TopologyUnavailable, snd (st_update_domain S d n audit db))\<rparr>"

definition touches_domain :: "string \<Rightarrow> topology_op \<Rightarrow> bool" where
  "touches_domain i x \<longleftrightarrow> (case x of UpdateDomain j _ _ _ \<Rightarrow> j = i | DeleteDomain j _ \<Rightarrow> j = i | _ \<Rightarrow> False)"

text \<open>No row of the domain has the generation the memory has.\<close>

definition kept_at :: "string \<Rightarrow> u64 \<Rightarrow> location_registry \<Rightarrow> bool" where
  "kept_at i n R \<longleftrightarrow> (\<exists>d\<in>set (lr_domains R). fd_id d = i \<and> fd_generation d = n)"

definition row_at :: "string \<Rightarrow> u64 \<Rightarrow> topology_db \<Rightarrow> bool" where
  "row_at i n db \<longleftrightarrow> (\<exists>r\<in>set (td_domains db). dr_id r = i \<and> dr_generation r = uint n)"

definition out_of_step :: "string \<Rightarrow> u64 \<Rightarrow> topology_db topology_world \<Rightarrow> bool" where
  "out_of_step i n w \<longleftrightarrow> registry_ok (tw_registry w) \<and> kept_at i n (tw_registry w) \<and> \<not> row_at i n (tw_store w)"

lemma statement_stale:
  assumes "\<not> row_at i n db"
  shows "\<exists>e. delete_domain_row i n db = Inl e" "fd_id d = i \<Longrightarrow> \<exists>e. update_domain_row d n db = Inl e"
  using assms by (auto simp: row_at_def list_ex_iff delete_domain_row_def update_domain_row_def generation_i64_Inr split: sum.split)

lemma in_transaction_fails: "f db = Inl e \<Longrightarrow> in_transaction f audit db = (Inl e, db)"
  by (simp add: in_transaction_def)

lemma kept_domain:
  assumes "registry_ok R" "kept_at i n R"
  obtains d where "failure_domain_of R i = Some d" "fd_id d = i" "fd_generation d = n"
proof -
  from assms(2) obtain d where d: "d \<in> set (lr_domains R)" "fd_id d = i" "fd_generation d = n" by (auto simp: kept_at_def)
  from assms(1) have dist: "distinct (map fd_id (lr_domains R))" by (rule registry_okE)
  from d(1,2) obtain x where x: "find (\<lambda>d. fd_id d = i) (lr_domains R) = Some x"
    by (cases "find (\<lambda>d. fd_id d = i) (lr_domains R)") (auto simp: find_None_iff)
  then have "x \<in> set (lr_domains R)" "fd_id x = i" by (auto simp: find_Some_iff)
  with same_domain [OF dist _ d(1)] d(2) have "x = d" by simp
  with d x that show thesis by (simp add: failure_domain_of_def)
qed

lemma out_of_step_fails:
  assumes "out_of_step i n w" "touches_domain i x"
  shows "\<exists>e. topology_step sqlite_topology x audit w = (Inl e, w)"
proof -
  from assms(1) have stale: "\<not> row_at i n (tw_store w)" by (simp add: out_of_step_def)
  from assms(1) obtain d where d: "failure_domain_of (tw_registry w) i = Some d" "fd_id d = i" "fd_generation d = n"
    unfolding out_of_step_def by (blast elim: kept_domain)
  show ?thesis
  proof (cases x)
    case (UpdateDomain j name metadata m)
    let ?d = "d\<lparr>fd_name := name, fd_generation := n + 1, fd_metadata := metadata\<rparr>"
    from statement_stale(2) [OF stale, of ?d] d obtain e where e: "update_domain_row ?d n (tw_store w) = Inl e" by auto
    show ?thesis using UpdateDomain assms(2) d in_transaction_fails [of "update_domain_row ?d n", OF e, of audit]
      by (auto simp: touches_domain_def update_failure_domain_def domain_at_def Let_def chain_stored
          sqlite_topology_def split: option.split)
  next
    case (DeleteDomain j m)
    from statement_stale(1) [OF stale] obtain e where e: "delete_domain_row i n (tw_store w) = Inl e" by auto
    show ?thesis using DeleteDomain assms(2) d in_transaction_fails [of "delete_domain_row i n", OF e, of audit]
      by (auto simp: touches_domain_def delete_failure_domain_def domain_at_def chain_stored sqlite_topology_def)
  qed (use assms(2) in \<open>simp_all add: touches_domain_def\<close>)
qed

text \<open>Operations on other domains leave it so.\<close>

definition writes_row :: "string \<Rightarrow> store_op \<Rightarrow> bool" where
  "writes_row i x \<longleftrightarrow> (case x of InsertDomain d \<Rightarrow> fd_id d = i | UpdateDomainRow d _ \<Rightarrow> fd_id d = i | _ \<Rightarrow> False)"

lemma statement_rows:
  "row_statement x db = Inr db1 \<Longrightarrow> \<not> writes_row i x \<Longrightarrow> row_at i n db1 \<Longrightarrow> row_at i n db"
  by (cases x) (auto simp: row_statement_def writes_row_def row_at_def insert_region_row_def delete_region_row_def
      insert_az_row_def delete_az_row_def insert_domain_row_def update_domain_row_def delete_domain_row_def
      insert_binding_row_def delete_binding_row_def split: sum.splits if_splits)

lemma row_at_audit [simp]: "row_at i n (db\<lparr>td_audit := rows\<rparr>) = row_at i n db"
  by (simp add: row_at_def)

lemma transaction_rows:
  assumes "in_transaction f audit db = (r, db')" "\<And>db1. f db = Inr db1 \<Longrightarrow> row_at i n db1 \<Longrightarrow> row_at i n db" "row_at i n db'"
  shows "row_at i n db"
  using assms by (auto simp: in_transaction_def split: sum.splits option.splits)

lemma stored_rows:
  assumes "\<not> writes_row i x" "row_at i n (tw_store (snd (stored (store_call sqlite_topology x audit) w)))"
  shows "row_at i n (tw_store w)"
proof (cases "in_transaction (row_statement x) audit (tw_store w)")
  case (Pair r db)
  with transaction_rows [OF Pair statement_rows [OF _ assms(1)], of n] assms(2) show ?thesis
    by (auto simp: stored_def sqlite_call)
qed

lemma replayed_rows: "row_at i n (tw_store (snd (replayed sqlite_topology audit w))) \<Longrightarrow> row_at i n (tw_store w)"
proof (cases audit)
  case (Some a)
  assume h: "row_at i n (tw_store (snd (replayed sqlite_topology audit w)))"
  show ?thesis
  proof (cases "in_transaction Inr (Some a) (tw_store w)")
    case (Pair r db)
    with transaction_rows [OF Pair] h Some show ?thesis
      by (auto simp: replayed_def stored_def sqlite_topology_def record_audit_def)
  qed
qed (simp add: replayed_def done_with_def)

lemma remembered_rows:
  assumes "\<not> row_at i n (tw_store w)" "kept_at i n (tw_registry w)" "\<not> writes_row i x"
    "kept_at i n (tw_registry w) \<Longrightarrow> kept_at i n (g (tw_registry w))"
  shows "\<not> row_at i n (tw_store (snd (chain (stored (store_call sqlite_topology x audit)) (\<lambda>_. remember g) w)))
    \<and> kept_at i n (tw_registry (snd (chain (stored (store_call sqlite_topology x audit)) (\<lambda>_. remember g) w)))"
  using assms stored_rows [OF assms(3), of n audit w]
  by (auto simp: chain_stored remember_def stored_def split: prod.splits sum.splits)

lemma remembered_at_rows:
  assumes "\<not> row_at i n (tw_store w)" "kept_at i n (tw_registry w)" "\<not> writes_row i x"
    "kept_at i n (tw_registry w) \<Longrightarrow> kept_at i n (g (tw_registry w))"
  shows "\<not> row_at i n (tw_store (snd (chain (stored (store_call sqlite_topology x audit)) (\<lambda>_. remember_at j m g) w)))
    \<and> kept_at i n (tw_registry (snd (chain (stored (store_call sqlite_topology x audit)) (\<lambda>_. remember_at j m g) w)))"
  using assms stored_rows [OF assms(3), of n audit w]
  by (auto simp: chain_stored remember_def remember_at_def stored_def split: prod.splits sum.splits)

lemma kept_others [simp]:
  "kept_at i n (add_region j R) = kept_at i n R" "kept_at i n (drop_region j R) = kept_at i n R"
  "kept_at i n (add_az j a R) = kept_at i n R" "kept_at i n (drop_az a R) = kept_at i n R"
  "kept_at i n (add_binding b R) = kept_at i n R" "kept_at i n (drop_binding b R) = kept_at i n R"
  by (simp_all add: kept_at_def add_region_def drop_region_def add_az_def drop_az_def add_binding_def drop_binding_def)

lemma kept_add: "kept_at i n R \<Longrightarrow> kept_at i n (add_domain d R)"
  by (auto simp: kept_at_def add_domain_def)

lemma kept_drop: "kept_at i n R \<Longrightarrow> j \<noteq> i \<Longrightarrow> kept_at i n (drop_domain j R)"
  by (auto simp: kept_at_def drop_domain_def)

lemma at_first_keeps: "x \<in> set xs \<Longrightarrow> \<not> P x \<Longrightarrow> x \<in> set (at_first P f xs)"
  by (induction xs) auto

lemma kept_put: "kept_at i n R \<Longrightarrow> fd_id d \<noteq> i \<Longrightarrow> kept_at i n (put_domain d R)"
proof -
  assume h: "kept_at i n R" "fd_id d \<noteq> i"
  then obtain x where x: "x \<in> set (lr_domains R)" "fd_id x = i" "fd_generation x = n" by (auto simp: kept_at_def)
  with h(2) have "x \<in> set (at_first (\<lambda>x. fd_id x = fd_id d) (\<lambda>_. d) (lr_domains R))" by (intro at_first_keeps) auto
  with x show ?thesis by (auto simp: kept_at_def put_domain_def)
qed


lemma step_out_of_step:
  assumes o: "out_of_step i n w" and other: "\<not> touches_domain i x"
  shows "out_of_step i n (snd (topology_step sqlite_topology x audit w))"
proof -
  from o have ok: "registry_ok (tw_registry w)" and h: "\<not> row_at i n (tw_store w)" "kept_at i n (tw_registry w)"
    by (simp_all add: out_of_step_def)
  note through = remembered_rows [OF h] and at = remembered_at_rows [OF h]
  have again: "\<not> row_at i n (tw_store (snd (replayed sqlite_topology audit w)))" using h replayed_rows by blast
  have "\<not> row_at i n (tw_store (snd (topology_step sqlite_topology x audit w)))
      \<and> kept_at i n (tw_registry (snd (topology_step sqlite_topology x audit w)))"
  proof (cases x)
    case (DeclareRegion j)
    with through [of "InsertRegion j" "add_region j" audit] h again show ?thesis
      by (auto simp: declare_region_def registry_after_replayed writes_row_def split: option.split)
  next
    case (RemoveRegion j)
    with through [of "DeleteRegion j" "drop_region j" audit] h again show ?thesis
      by (auto simp: remove_region_def registry_after_replayed writes_row_def split: option.splits)
  next
    case (DeclareAz j z)
    with through [of "InsertAz j z" "add_az j z" audit] h again show ?thesis
      by (auto simp: declare_availability_domain_def registry_after_replayed writes_row_def split: option.splits)
  next
    case (RemoveAz z)
    with through [of "DeleteAz z" "drop_az z" audit] h again show ?thesis
      by (auto simp: remove_availability_domain_def registry_after_replayed writes_row_def split: option.splits)
  next
    case (CreateDomain d)
    show ?thesis
    proof (cases "create_check (tw_registry w) d")
      case None
      then have "fd_id d \<notin> fd_id ` set (lr_domains (tw_registry w))"
        by (simp add: create_check_def location_checks contains_domain split: if_splits)
      with h(2) have "fd_id d \<noteq> i" by (auto simp: kept_at_def)
      with None CreateDomain kept_add through [of "InsertDomain (d\<lparr>fd_generation := 1\<rparr>)" "add_domain (d\<lparr>fd_generation := 1\<rparr>)" audit]
      show ?thesis by (simp add: create_failure_domain_def writes_row_def)
    qed (use h in \<open>simp add: CreateDomain create_failure_domain_def\<close>)
  next
    case (UpdateDomain j name metadata m)
    with other have j: "j \<noteq> i" by (simp add: touches_domain_def)
    show ?thesis
    proof (cases "domain_at (tw_registry w) j m")
      case (Inr c)
      let ?d = "c\<lparr>fd_name := name, fd_generation := m + 1, fd_metadata := metadata\<rparr>"
      from domain_at_Inr [OF Inr] j have "fd_id ?d \<noteq> i" by simp
      with Inr kept_put [OF _ this] at [of "UpdateDomainRow ?d m" "put_domain ?d" audit j m] h show ?thesis
        by (auto simp: UpdateDomain update_failure_domain_def Let_def writes_row_def split: option.split)
    qed (use h in \<open>simp add: UpdateDomain update_failure_domain_def\<close>)
  next
    case (DeleteDomain j m)
    with other have j: "j \<noteq> i" by (simp add: touches_domain_def)
    with DeleteDomain kept_drop [OF _ j] at [of "DeleteDomainRow j m" "drop_domain j" audit j m] h show ?thesis
      by (auto simp: delete_failure_domain_def writes_row_def split: sum.split)
  next
    case (BindTarget b)
    with through [of "InsertBinding b" "add_binding b" audit] h again show ?thesis
      by (auto simp: bind_domain_def registry_after_replayed writes_row_def)
  next
    case (UnbindTarget b)
    with through [of "DeleteBinding b" "drop_binding b" audit] h again show ?thesis
      by (auto simp: unbind_domain_def registry_after_replayed writes_row_def)
  qed
  with step_registry_ok [OF ok] show ?thesis by (simp add: out_of_step_def)
qed

lemma run_out_of_step: "out_of_step i n w \<Longrightarrow> out_of_step i n (topology_run sqlite_topology xs w)"
proof -
  have step: "out_of_step i n (snd (topology_step sqlite_topology x audit w))" if "out_of_step i n w" for x audit w
  proof (cases "touches_domain i x")
    case True
    with out_of_step_fails [OF that True, of audit] that show ?thesis by auto
  qed (rule step_out_of_step [OF that])
  assume "out_of_step i n w"
  then show ?thesis unfolding topology_run_def by (induction xs arbitrary: w) (auto intro: step)
qed


lemma mirrored_rows:
  assumes "sqlite.mirrored w"
  shows "row_at i n (tw_store w) \<longleftrightarrow> kept_at i n (tw_registry w)"
proof -
  from assms have "tables_hold (tw_store w) (snapshot (tw_registry w))" by (simp add: sqlite.mirrored_def)
  then obtain ds where "td_domains (tw_store w) = map domain_row_of ds" "set (lr_domains (tw_registry w)) = set ds"
    by (rule tables_holdE) (force simp: tables_of_def snapshot_def)
  then show ?thesis by (simp add: row_at_def kept_at_def word_uint_eq_iff)
qed

lemma kept_once: "registry_ok R \<Longrightarrow> kept_at i n R \<Longrightarrow> kept_at i m R \<Longrightarrow> n = m"
  by (metis kept_domain option.inject)

lemma kept_put_self: "c \<in> set (lr_domains R) \<Longrightarrow> fd_id c = fd_id d \<Longrightarrow> kept_at (fd_id d) (fd_generation d) (put_domain d R)"
proof -
  have "d \<in> set (at_first (\<lambda>x. fd_id x = fd_id d) (\<lambda>_. d) xs)" if "c \<in> set xs" "fd_id c = fd_id d" for xs
    using that by (induction xs) auto
  then show "c \<in> set (lr_domains R) \<Longrightarrow> fd_id c = fd_id d \<Longrightarrow> ?thesis" by (auto simp: kept_at_def put_domain_def)
qed

lemma life_mirrored:
  assumes "topology_life xs = (Some R, db)"
  shows "sqlite.mirrored \<lparr>tw_registry = R, tw_store = db\<rparr>"
  using life_ok [of xs] assms by (auto simp: host_ok_def)

text \<open>The update the store took, with the answer and without it.\<close>

lemma lost_update:
  assumes m: "sqlite.mirrored w"
    and lost: "update_failure_domain (lost_answer sqlite_topology) i name metadata n audit w = (r, w1)"
    and took: "td_domains (tw_store w1) \<noteq> td_domains (tw_store w)"
  obtains w2 where "sqlite.mirrored w2" "tw_store w2 = tw_store w1" "tw_registry w1 = tw_registry w"
    "kept_at i n (tw_registry w)" "kept_at i (n + 1) (tw_registry w2)"
proof (cases "domain_at (tw_registry w) i n")
  case (Inr c)
  let ?d = "c\<lparr>fd_name := name, fd_generation := n + 1, fd_metadata := metadata\<rparr>"
  from domain_at_Inr [OF Inr] have c: "c \<in> set (lr_domains (tw_registry w))" "fd_id c = i" "fd_generation c = n" by simp_all
  obtain a db where t: "in_transaction (update_domain_row ?d n) audit (tw_store w) = (a, db)" by fastforce
  from lost took Inr t have checks: "orelse (validate_failure_domain_name name) (validate_metadata metadata) = None"
    and w1: "w1 = w\<lparr>tw_store := db\<rparr>"
    by (auto simp: update_failure_domain_def Let_def chain_stored lost_answer_def sqlite_topology_def split: option.splits)
  from took w1 t have "a = Inr ()" by (cases a) (auto dest: in_transaction_Inl)
  let ?w2 = "w\<lparr>tw_registry := put_domain ?d (tw_registry w), tw_store := db\<rparr>"
  have "update_failure_domain sqlite_topology i name metadata n audit w = (Inr (), ?w2)"
    using checks Inr t \<open>a = Inr ()\<close>
    by (simp add: update_failure_domain_def chain_stored sqlite_topology_def remember_at_def remember_def)
  then have "sqlite.mirrored ?w2" using sqlite.step_mirrored [OF m, of "UpdateDomain i name metadata n" audit] by simp
  moreover have "kept_at i (n + 1) (put_domain ?d (tw_registry w))"
    using kept_put_self [of c "tw_registry w" ?d] c by simp
  ultimately show thesis using c w1 by (intro that [of ?w2]) (auto simp: kept_at_def)
qed (use lost took in \<open>simp add: update_failure_domain_def\<close>)

text \<open>
  C36: The topology does not follow a lost answer. When the store took an update of a failure
  domain and its answer was lost, then whatever operations come after it, every further update
  or deletion of that domain fails and changes nothing, whatever generation the caller gives;
  the stored topology, which the next start would load, is already one generation further.
\<close>

theorem lost_update_wedges_domain:
  assumes "topology_life xs = (Some R, db)"
    and "update_failure_domain (lost_answer sqlite_topology) i name metadata n audit \<lparr>tw_registry = R, tw_store = db\<rparr> = (r, w1)"
    and "td_domains (tw_store w1) \<noteq> td_domains db" "touches_domain i x"
  shows "(\<exists>e. topology_step sqlite_topology x audit' (topology_run sqlite_topology ys w1)
             = (Inl e, topology_run sqlite_topology ys w1))
    \<and> (\<exists>R' d. stored_topology (tw_store w1) = Inr R' \<and> failure_domain_of R' i = Some d \<and> fd_generation d = n + 1)"
proof -
  let ?w = "\<lparr>tw_registry = R, tw_store = db\<rparr>"
  have m: "sqlite.mirrored ?w" using assms(1) by (rule life_mirrored)
  from lost_update [OF m assms(2)] assms(3) obtain w2 where w2: "sqlite.mirrored w2" "tw_store w2 = tw_store w1"
      "tw_registry w1 = R" "kept_at i n R" "kept_at i (n + 1) (tw_registry w2)" by auto
  have ok: "registry_ok R" "registry_ok (tw_registry w2)" using m w2(1) by (simp_all add: sqlite.mirrored_def)
  have "\<not> row_at i n (tw_store w1)"
  proof
    assume "row_at i n (tw_store w1)"
    then have "kept_at i n (tw_registry w2)" using mirrored_rows [OF w2(1)] w2(2) by simp
    from kept_once [OF ok(2) this w2(5)] show False by simp
  qed
  then have "out_of_step i n w1" using w2 ok by (simp add: out_of_step_def)
  then have "out_of_step i n (topology_run sqlite_topology ys w1)" by (rule run_out_of_step)
  from out_of_step_fails [OF this assms(4)] have fails: "\<exists>e. topology_step sqlite_topology x audit'
      (topology_run sqlite_topology ys w1) = (Inl e, topology_run sqlite_topology ys w1)" .
  have "sqlite.mirrored \<lparr>tw_registry = tw_registry w2, tw_store = tw_store w1\<rparr>" using w2(1) by (simp add: w2(2) [symmetric] world_eta)
  from mirrored_stored [OF this] fails kept_domain [OF ok(2) w2(5)] show ?thesis by metis
qed


text \<open>The keys of the tables let a domain be its own parent; the start then refuses the topology.\<close>

lemma self_parent_row_accepted:
  "let db = empty_topology_db\<lparr>td_regions := [''r1''], td_azs := [(''az-1'', ''r1'')]\<rparr>;
       d = site_domain\<lparr>fd_parent := Some (fd_id site_domain)\<rparr>
   in case insert_domain_row d db of Inl _ \<Rightarrow> False
      | Inr db' \<Rightarrow> td_domains db' = [domain_row_of d] \<and> stored_topology db' = Inl (TopologyLocation FailureDomainSelfParent)"
  by code_simp

definition fresh_life :: "topology_event list" where
  "fresh_life = [Start [\<lparr>rd_id = ''r1'', rd_domains = [''az-1'']\<rparr>], Change (CreateDomain site_domain) None]"

theorem lost_update_wedges_domain_witness:
  "let h = topology_life fresh_life;
       w1 = snd (update_failure_domain (lost_answer sqlite_topology) ''site-1'' ''Hall'' [] 1 None
              \<lparr>tw_registry = the (fst h), tw_store = snd h\<rparr>);
       w = topology_run sqlite_topology [(DeclareRegion ''r2'', None)] w1
   in \<exists>e. topology_step sqlite_topology (UpdateDomain ''site-1'' ''Hall'' [] 2) None w = (Inl e, w)"
proof -
  obtain R db where h: "topology_life fresh_life = (Some R, db)" and R: "R = the (fst (topology_life fresh_life))"
    and db: "db = snd (topology_life fresh_life)"
  proof -
    have "fst (topology_life fresh_life) \<noteq> None" by code_simp
    then show thesis using that by (metis option.collapse prod.collapse)
  qed
  let ?w1 = "snd (update_failure_domain (lost_answer sqlite_topology) ''site-1'' ''Hall'' [] 1 None \<lparr>tw_registry = R, tw_store = db\<rparr>)"
  have took: "td_domains (tw_store ?w1) \<noteq> td_domains db" unfolding R db by code_simp
  have "touches_domain ''site-1'' (UpdateDomain ''site-1'' ''Hall'' [] 2)" by (simp add: touches_domain_def)
  from lost_update_wedges_domain [OF h prod.collapse [symmetric] took this, of None "[(DeclareRegion ''r2'', None)]"]
  show ?thesis unfolding Let_def R [symmetric] db [symmetric] by blast
qed

end
