(* ===== verification/Native_Pagination.thy ===== *)
theory Native_Pagination
  imports Keyset_Paging Kernel_Identifiers
begin

text \<open>
  The collections of the native API (\<open>crates/o3k-native-api/src/pagination.rs\<close>): the check of the
  raw query parameters, and the opaque cursor, the authenticated text of a continuation key with
  the scope, the resource type and the query it belongs to. JSON, base64, HMAC-SHA-256 and SHA-256
  are parameters (\<open>cursor_codec\<close>); \<open>codec_ok\<close> is what the code relies on of them.
  Lemmas: what a cursor stands for when it comes back, and what a client that follows the cursors
  of a listing gets.
\<close>

datatype query_error =
    InvalidLimit | InvalidIdentity | InvalidCursor | CursorUnavailable | InvalidRepositoryPage

record resource_query =
  rq_scope :: string
  rq_type :: string
  rq_limit :: nat
  rq_continuation :: "string option"
  rq_identity :: string

record cursor_payload =
  cp_continuation :: string
  cp_scope :: string
  cp_type :: string
  cp_identity :: string
  cp_version :: "8 word"

record cursor_codec =
  cc_json :: "cursor_payload \<Rightarrow> string"
  cc_parse :: "string \<Rightarrow> cursor_payload option"
  cc_base64 :: "string \<Rightarrow> string"
  cc_unbase64 :: "string \<Rightarrow> string option"
  cc_hmac :: "string \<Rightarrow> string \<Rightarrow> string"
  cc_sha256 :: "string \<Rightarrow> string"

text \<open>The documented behaviour of the codec: decoding inverts encoding, the alphabet of URL-safe
  base64 has no dot, its text is no shorter and at most twice as long, and a digest has 32 bytes.\<close>

definition codec_ok :: "cursor_codec \<Rightarrow> bool" where
  "codec_ok C \<longleftrightarrow> (\<forall>p. cc_parse C (cc_json C p) = Some p) \<and> (\<forall>s. cc_unbase64 C (cc_base64 C s) = Some s)
     \<and> (\<forall>s. CHR ''.'' \<notin> set (cc_base64 C s) \<and> length s \<le> length (cc_base64 C s)
           \<and> length (cc_base64 C s) \<le> 2 * length s) \<and> (\<forall>s. length (cc_sha256 C s) = 32)"

section \<open>The cursor authority\<close>

type_synonym cursor_config = "string option"

definition cursor_available :: "cursor_config \<Rightarrow> bool" where
  "cursor_available key = (case key of None \<Rightarrow> False | Some k \<Rightarrow> 32 \<le> length k)"

definition cursor_config_new :: "string \<Rightarrow> (query_error, cursor_config) rust_result" where
  "cursor_config_new key = (if length key < 32 then Inl CursorUnavailable else Inr (Some key))"

text \<open>The environment gives the key itself or the token key it is derived from.\<close>

definition cursor_config_from_env ::
  "cursor_codec \<Rightarrow> string option \<Rightarrow> string option \<Rightarrow> (string, cursor_config) rust_result" where
  "cursor_config_from_env C native_key token_key =
     (case native_key of
        Some k \<Rightarrow> map_sum (\<lambda>_. ''native cursor signing key is too short'') id (cursor_config_new k)
      | None \<Rightarrow>
     (case token_key of
        None \<Rightarrow> Inl ''native cursor signing key is not configured''
      | Some t \<Rightarrow> map_sum (\<lambda>_. ''native cursor signing key is too short'') id
                   (cursor_config_new (cc_sha256 C (''o3k/native-cursor/v1/'' @ t)))))"

definition validate_identity :: "string \<Rightarrow> nat \<Rightarrow> (query_error, unit) rust_result" where
  "validate_identity value max_length =
     (if value = [] \<or> length value > max_length then Inl InvalidIdentity else Inr ())"

definition identity_ok :: "string \<Rightarrow> nat \<Rightarrow> bool" where
  "identity_ok value max_length \<longleftrightarrow> value \<noteq> [] \<and> length value \<le> max_length"

definition canonical_query_identity :: "cursor_codec \<Rightarrow> string" where
  "canonical_query_identity C =
     cc_base64 C (cc_sha256 C (''o3k/resource-query/v1'' @ [CHR 0x00] @ ''id.asc'' @ [CHR 0x00] @ ''filters:none''))"

definition is_ascii_digit :: "char \<Rightarrow> bool" where
  "is_ascii_digit c \<longleftrightarrow> 48 \<le> (of_char c :: nat) \<and> (of_char c :: nat) \<le> 57"

definition digits_value :: "string \<Rightarrow> nat" where
  "digits_value s = foldl (\<lambda>n c. 10 * n + (of_char c - 48)) 0 s"

definition parse_page_size_strict :: "string option \<Rightarrow> (query_error, nat) rust_result" where
  "parse_page_size_strict raw =
     (case raw of
        None \<Rightarrow> Inr 50
      | Some v \<Rightarrow>
          if v = [] \<or> length v > 3 then Inl InvalidLimit
          else if \<not> list_all is_ascii_digit v then Inl InvalidLimit
          else if 1 \<le> digits_value v \<and> digits_value v \<le> 200 then Inr (digits_value v)
          else Inl InvalidLimit)"

definition encode_cursor ::
  "cursor_codec \<Rightarrow> cursor_config \<Rightarrow> resource_query \<Rightarrow> string \<Rightarrow> (query_error, string) rust_result" where
  "encode_cursor C config q after =
     (case validate_identity after 512 of
        Inl e \<Rightarrow> Inl e
      | Inr _ \<Rightarrow>
     (case config of
        None \<Rightarrow> Inl CursorUnavailable
      | Some key \<Rightarrow>
          (let json = cc_json C \<lparr>cp_continuation = after, cp_scope = rq_scope q, cp_type = rq_type q,
                        cp_identity = rq_identity q, cp_version = 1\<rparr>;
               cursor = cc_base64 C json @ ''.'' @ cc_base64 C (cc_hmac C key json)
           in if length cursor > 4096 then Inl InvalidRepositoryPage else Inr cursor)))"

definition decode_cursor ::
  "cursor_codec \<Rightarrow> cursor_config \<Rightarrow> string \<Rightarrow> string \<Rightarrow> string \<Rightarrow> string \<Rightarrow> (query_error, cursor_payload) rust_result"
  where
  "decode_cursor C config cursor scope rtype identity =
     (if length cursor > 4096 then Inl InvalidCursor
      else case split_once CHR ''.'' cursor of
          None \<Rightarrow> Inl InvalidCursor
        | Some (payload, signature) \<Rightarrow>
      (case (cc_unbase64 C payload, cc_unbase64 C signature) of
          (Some bytes, Some tag) \<Rightarrow>
            (case config of
               None \<Rightarrow> Inl CursorUnavailable
             | Some key \<Rightarrow>
                 if cc_hmac C key bytes \<noteq> tag then Inl InvalidCursor
                 else case cc_parse C bytes of
                     None \<Rightarrow> Inl InvalidCursor
                   | Some p \<Rightarrow>
                       if cp_version p \<noteq> 1 \<or> cp_scope p \<noteq> scope \<or> cp_type p \<noteq> rtype \<or> cp_identity p \<noteq> identity
                          \<or> \<not> identity_ok (cp_scope p) 256 \<or> \<not> identity_ok (cp_type p) 256
                          \<or> \<not> identity_ok (cp_identity p) 256 \<or> \<not> identity_ok (cp_continuation p) 512
                       then Inl InvalidCursor else Inr p)
        | _ \<Rightarrow> Inl InvalidCursor))"

definition validate_query_with_identity ::
  "cursor_codec \<Rightarrow> cursor_config \<Rightarrow> string option \<Rightarrow> string option \<Rightarrow> string \<Rightarrow> string \<Rightarrow> string
     \<Rightarrow> (query_error, resource_query) rust_result" where
  "validate_query_with_identity C config raw_limit raw_cursor scope rtype identity =
     (case validate_identity identity 256 of
        Inl e \<Rightarrow> Inl e
      | Inr _ \<Rightarrow>
     (case parse_page_size_strict raw_limit of
        Inl e \<Rightarrow> Inl e
      | Inr limit \<Rightarrow>
     (case raw_cursor of
        None \<Rightarrow> Inr \<lparr>rq_scope = scope, rq_type = rtype, rq_limit = limit, rq_continuation = None, rq_identity = identity\<rparr>
      | Some cursor \<Rightarrow>
          if config = None then Inl CursorUnavailable
          else case decode_cursor C config cursor scope rtype identity of
              Inl e \<Rightarrow> Inl e
            | Inr p \<Rightarrow> Inr \<lparr>rq_scope = scope, rq_type = rtype, rq_limit = limit,
                rq_continuation = Some (cp_continuation p), rq_identity = identity\<rparr>)))"

definition validate_query ::
  "cursor_codec \<Rightarrow> cursor_config \<Rightarrow> string option \<Rightarrow> string option \<Rightarrow> string \<Rightarrow> string
     \<Rightarrow> (query_error, resource_query) rust_result" where
  "validate_query C config raw_limit raw_cursor scope rtype =
     (case validate_identity scope 256 of
        Inl e \<Rightarrow> Inl e
      | Inr _ \<Rightarrow>
     (case validate_identity rtype 256 of
        Inl e \<Rightarrow> Inl e
      | Inr _ \<Rightarrow> validate_query_with_identity C config raw_limit raw_cursor scope rtype (canonical_query_identity C)))"

section \<open>Pages\<close>

definition native_page_new ::
  "nat \<Rightarrow> (string, 'a) page \<Rightarrow> (query_error, (string, 'a) page) rust_result" where
  "native_page_new limit p =
     (if length (page_items p) > limit \<or> page_more p \<noteq> (page_next p \<noteq> None)
         \<or> page_more p \<and> page_items p = []
         \<or> (case page_next p of None \<Rightarrow> False | Some k \<Rightarrow> \<not> (k \<noteq> [] \<and> length k \<le> 512))
      then Inl InvalidRepositoryPage else Inr p)"

text \<open>The public page: its continuation is the cursor.\<close>

definition complete_page ::
  "cursor_codec \<Rightarrow> cursor_config \<Rightarrow> resource_query \<Rightarrow> (string, 'a) page \<Rightarrow> (query_error, (string, 'a) page) rust_result"
  where
  "complete_page C config q p =
     (if length (page_items p) > rq_limit q then Inl InvalidRepositoryPage
      else case (case page_next p of None \<Rightarrow> Inr None
                 | Some k \<Rightarrow> map_sum id Some (encode_cursor C config q k)) of
          Inl e \<Rightarrow> Inl e
        | Inr cursor \<Rightarrow>
            if page_more p \<noteq> (cursor \<noteq> None) then Inl InvalidRepositoryPage
            else Inr \<lparr>page_items = page_items p, page_more = page_more p, page_next = cursor\<rparr>)"

section \<open>A cursor that comes back\<close>

lemma validate_identity_iff [simp]: "validate_identity v n = Inr () \<longleftrightarrow> identity_ok v n"
  by (auto simp: validate_identity_def identity_ok_def)

lemma validate_identity_case:
  "(case validate_identity v n of Inl e \<Rightarrow> Inl e | Inr _ \<Rightarrow> x) = (if identity_ok v n then x else Inl InvalidIdentity)"
  by (auto simp: validate_identity_def identity_ok_def)

text \<open>
  C37: A cursor is good for its own listing only. When a cursor that was handed out for a query
  comes back, and scope, type and identity of the query are of 1 to 256 bytes, it is read as the
  continuation it was made from if scope, resource type and query identity are those of the query, and refused in every other scope, for every other type and
  every other query.
\<close>

theorem cursor_bound_to_query:
  assumes "codec_ok C" "encode_cursor C config q key = Inr cursor"
    and "identity_ok (rq_scope q) 256" "identity_ok (rq_type q) 256" "identity_ok (rq_identity q) 256"
  shows "decode_cursor C config cursor scope rtype identity =
    (if scope = rq_scope q \<and> rtype = rq_type q \<and> identity = rq_identity q
     then Inr \<lparr>cp_continuation = key, cp_scope = scope, cp_type = rtype, cp_identity = identity, cp_version = 1\<rparr>
     else Inl InvalidCursor)"
proof -
  let ?p = "\<lparr>cp_continuation = key, cp_scope = rq_scope q, cp_type = rq_type q,
    cp_identity = rq_identity q, cp_version = 1\<rparr>"
  from assms(2) obtain k where k: "config = Some k" and c: "identity_ok key 512"
    and cursor: "cursor = cc_base64 C (cc_json C ?p) @ CHR ''.'' # cc_base64 C (cc_hmac C k (cc_json C ?p))"
      "length cursor \<le> 4096"
    by (auto simp: encode_cursor_def validate_identity_case Let_def split: if_splits option.splits)
  have "split_once CHR ''.'' cursor = Some (cc_base64 C (cc_json C ?p), cc_base64 C (cc_hmac C k (cc_json C ?p)))"
    unfolding cursor(1) using assms(1) by (intro split_once_append) (simp add: codec_ok_def)
  with assms k c cursor(2) show ?thesis
    by (auto simp: decode_cursor_def codec_ok_def)
qed


text \<open>The cursor of a key, where there is one.\<close>

definition cursor_for :: "cursor_codec \<Rightarrow> cursor_config \<Rightarrow> resource_query \<Rightarrow> string \<Rightarrow> string" where
  "cursor_for C config q k = (case encode_cursor C config q k of Inl _ \<Rightarrow> [] | Inr c \<Rightarrow> c)"

definition has_cursor :: "cursor_codec \<Rightarrow> cursor_config \<Rightarrow> resource_query \<Rightarrow> string \<Rightarrow> bool" where
  "has_cursor C config q k \<longleftrightarrow> encode_cursor C config q k = Inr (cursor_for C config q k)"

lemma encode_cursor_cong:
  "rq_scope q = rq_scope q' \<Longrightarrow> rq_type q = rq_type q' \<Longrightarrow> rq_identity q = rq_identity q' \<Longrightarrow>
   encode_cursor C config q k = encode_cursor C config q' k"
  by (simp add: encode_cursor_def Let_def cong: sum.case_cong option.case_cong)

lemma canonical_identity_ok: "codec_ok C \<Longrightarrow> identity_ok (canonical_query_identity C) 256"
proof -
  assume C: "codec_ok C"
  then have b: "length s \<le> length (cc_base64 C s) \<and> length (cc_base64 C s) \<le> 2 * length s"
    and d: "length (cc_sha256 C s) = 32" for s
    unfolding codec_ok_def by blast+
  have "32 \<le> length (canonical_query_identity C) \<and> length (canonical_query_identity C) \<le> 64"
    using b [of "cc_sha256 C x" for x] d unfolding canonical_query_identity_def by simp
  then show ?thesis by (auto simp: identity_ok_def)
qed

lemma page_limit_bounds: "parse_page_size_strict limit = Inr n \<Longrightarrow> 1 \<le> n \<and> n \<le> 200"
  by (auto simp: parse_page_size_strict_def split: option.splits if_splits)

text \<open>A client that is given cursors instead of keys gets the same rows.\<close>

lemma follow_encoded:
  assumes step: "\<And>after p. good after \<Longrightarrow> fetch after = Inr p \<Longrightarrow> good (page_next p) \<and>
      fetch' (map_option enc after) = Inr \<lparr>page_items = page_items p, page_more = page_more p,
        page_next = map_option enc (page_next p)\<rparr>"
    and "good after" "follow fetch n after = Some xs"
  shows "follow fetch' n (map_option enc after) = Some xs"
  using assms(2,3)
proof (induction n arbitrary: after xs)
  case (Suc n)
  then obtain p where p: "fetch after = Inr p" by (cases "fetch after") auto
  note s = step [OF Suc.prems(1) p]
  show ?case
  proof (cases "page_next p")
    case (Some k)
    with Suc.prems p obtain ys where "follow fetch n (Some k) = Some ys" "xs = page_items p @ ys" by auto
    with Suc.IH [of "Some k" ys] s Some show ?thesis by simp
  qed (use Suc.prems p s in simp)
qed simp

section \<open>An example\<close>

text \<open>A codec that keeps what the code relies on: two letters for a byte, and fields with dots.\<close>

definition hex_text :: "string \<Rightarrow> string" where
  "hex_text s = concat (map (\<lambda>c. [char_of (97 + of_char c div 16 :: nat), char_of (97 + of_char c mod 16 :: nat)]) s)"

fun unhex_text :: "string \<Rightarrow> string option" where
  "unhex_text [] = Some []"
| "unhex_text [a] = None"
| "unhex_text (a # b # s) =
     map_option ((#) (char_of ((of_char a - 97) * 16 + (of_char b - 97) :: nat))) (unhex_text s)"

definition dotted :: "cursor_payload \<Rightarrow> string" where
  "dotted p = hex_text (cp_continuation p) @ CHR ''.'' # hex_text (cp_scope p) @ CHR ''.'' # hex_text (cp_type p) @
     CHR ''.'' # hex_text (cp_identity p) @ CHR ''.'' # replicate (unat (cp_version p)) CHR ''v''"

definition undotted :: "string \<Rightarrow> cursor_payload option" where
  "undotted s =
     Option.bind (split_once CHR ''.'' s) (\<lambda>(a, s).
     Option.bind (split_once CHR ''.'' s) (\<lambda>(b, s).
     Option.bind (split_once CHR ''.'' s) (\<lambda>(c, s).
     Option.bind (split_once CHR ''.'' s) (\<lambda>(d, s).
     Option.bind (unhex_text a) (\<lambda>a. Option.bind (unhex_text b) (\<lambda>b.
     Option.bind (unhex_text c) (\<lambda>c. map_option (\<lambda>d.
       \<lparr>cp_continuation = a, cp_scope = b, cp_type = c, cp_identity = d, cp_version = of_nat (length s)\<rparr>) (unhex_text d))))))))"

definition sample_codec :: cursor_codec where
  "sample_codec =
     \<lparr>cc_json = dotted, cc_parse = undotted, cc_base64 = hex_text, cc_unbase64 = unhex_text,
      cc_hmac = (\<lambda>key s. key), cc_sha256 = (\<lambda>s. replicate 32 CHR ''h'')\<rparr>"

lemma high_half: "(of_char c :: nat) div 16 < 16"
  using nat_of_char_less_256 [of c] by (intro less_mult_imp_div_less) (simp del: nat_of_char_less_256)

lemma hex_text_back [simp]: "unhex_text (hex_text s) = Some s"
proof (induction s)
  case (Cons c s)
  have "(97 + of_char c div 16) mod 256 = 97 + (of_char c :: nat) div 16"
    using high_half [of c] by (intro mod_less) linarith
  then have "char_of (((97 + of_char c div 16) mod 256 - 97) * 16 + (of_char c :: nat) mod 16) = c" by simp
  with Cons show ?case by (simp add: hex_text_def)
qed (simp add: hex_text_def)

lemma length_hex_text [simp]: "length (hex_text s) = 2 * length s"
  by (induction s) (simp_all add: hex_text_def)

lemma dot_not_hex [simp]: "CHR ''.'' \<notin> set (hex_text s)"
proof -
  have "CHR ''.'' \<noteq> char_of (97 + n :: nat)" if "n < 16" for n
  proof
    assume "CHR ''.'' = char_of (97 + n :: nat)"
    then have "(of_char CHR ''.'' :: nat) = of_char (char_of (97 + n :: nat) :: char)" by simp
    with that show False by simp
  qed
  with high_half show ?thesis by (auto simp: hex_text_def)
qed

lemma sample_codec_ok: "codec_ok sample_codec"
  by (simp add: codec_ok_def sample_codec_def dotted_def undotted_def split_once_append)

definition sample_query :: resource_query where
  "sample_query = \<lparr>rq_scope = ''p1'', rq_type = ''compute:server'', rq_limit = 2, rq_continuation = None, rq_identity = ''all''\<rparr>"

theorem cursor_bound_to_query_witness:
  "\<exists>cursor. encode_cursor sample_codec (Some ''key'') sample_query ''s1'' = Inr cursor
     \<and> map_sum id cp_continuation (decode_cursor sample_codec (Some ''key'') cursor ''p1'' ''compute:server'' ''all'') = Inr ''s1''
     \<and> decode_cursor sample_codec (Some ''key'') cursor ''p2'' ''compute:server'' ''all'' = Inl InvalidCursor"
proof -
  obtain cursor where c: "encode_cursor sample_codec (Some ''key'') sample_query ''s1'' = Inr cursor"
    by (auto simp: encode_cursor_def validate_identity_def sample_codec_def sample_query_def dotted_def Let_def)
  have "identity_ok (rq_scope sample_query) 256" "identity_ok (rq_type sample_query) 256"
    "identity_ok (rq_identity sample_query) 256"
    by (simp_all add: sample_query_def identity_ok_def)
  with cursor_bound_to_query [OF sample_codec_ok c] c show ?thesis by (auto simp: sample_query_def)
qed

end
