(* ===== verification/Native_Topology.thy ===== *)
theory Native_Topology
  imports Topology_Life Native_Pagination
begin

text \<open>
  The topology of the native API (\<open>crates/o3k-native-api/src/topology.rs\<close>): every handler with
  its authorization, its parsing of path, header and body, the operation of the registry, and
  the response. A response is its status and document, or the code of a problem with the
  resource it names. \<open>TopologyGuard\<close> runs one operation of the registry at a time; the world is
  the registry and the SQLite tables. The authorizer is given; the texts of details and the
  fields of JSON documents are not modelled.
  Lemmas: who may change the topology and what is recorded of it, and what a client that follows
  the cursors of the listings gets.
\<close>

section \<open>Requests and responses\<close>

datatype error_code =
    BadRequest | UnsupportedOperation | Unauthorized | Forbidden | ResourceNotFound | Conflict
  | RequestTooLarge | InvalidCursorCode | UnsupportedMediaType | NotAvailable | InternalError

fun code_status :: "error_code \<Rightarrow> nat" where
  "code_status BadRequest = 400"
| "code_status UnsupportedOperation = 501"
| "code_status Unauthorized = 401"
| "code_status Forbidden = 403"
| "code_status ResourceNotFound = 404"
| "code_status Conflict = 409"
| "code_status RequestTooLarge = 413"
| "code_status InvalidCursorCode = 400"
| "code_status UnsupportedMediaType = 415"
| "code_status NotAvailable = 503"
| "code_status InternalError = 500"

datatype topology_document =
    DomainDocument "failure_domain option" | BindingDocument topology_binding
  | RegionDocument "region_declaration option" | DomainPage "(string, failure_domain) page"
  | BindingPage "(string, topology_binding) page" | NoDocument

datatype topology_response = Answer nat topology_document | Problem error_code "string option"

record create_request =
  cr_id :: string
  cr_class :: string
  cr_name :: string
  cr_domain :: string
  cr_parent :: "string option"
  cr_metadata :: "(string \<times> string) list"

record native_state =
  ns_authorizer :: "(auth_request \<Rightarrow> authorization_decision) option"
  ns_codec :: cursor_codec
  ns_cursors :: cursor_config
  ns_guard :: bool
  ns_store :: bool
  ns_new_id :: string
  ns_now :: string

type_synonym topology_handler = "topology_db topology_world \<Rightarrow> topology_response \<times> topology_db topology_world"

section \<open>Helpers\<close>

definition topology_resource_type :: resource_type where
  "topology_resource_type = ResourceType ''topology'' ''failure_domain''"

definition read_action :: action_id where
  "read_action = ActionId ''topology'' ''ReadTopology''"

definition manage_action :: action_id where
  "manage_action = ActionId ''topology'' ''ManageTopology''"

definition collection_target :: resource_target where
  "collection_target = Collection topology_resource_type None"

definition instance_target :: "string \<Rightarrow> resource_target" where
  "instance_target i = Instance topology_resource_type (ResourceId i) None"

definition native_allowed :: "native_state \<Rightarrow> auth_context \<Rightarrow> action_id \<Rightarrow> resource_target \<Rightarrow> bool" where
  "native_allowed N auth act target =
     (case ns_authorizer N of
        None \<Rightarrow> False
      | Some f \<Rightarrow> f \<lparr>auth_context = auth, req_action = act, req_target = target\<rparr> = Allow)"

definition native_class :: "string \<Rightarrow> failure_domain_class option" where
  "native_class raw = find (\<lambda>c. class_name c = raw)
     [Site, Building, Room, Row, Rack, Chassis, PowerDomain, NetworkDomain, StorageDomain]"

definition native_kind :: "string \<Rightarrow> binding_target_kind option" where
  "native_kind raw = find (\<lambda>k. target_kind_name k = raw) [ResourceProvider, Host, FabricDomain, StorageDomainTarget]"

text \<open>\<open>i64::from_str\<close>, and the precondition \<open>If-Match: generation-N\<close>.\<close>

definition parse_i64 :: "string \<Rightarrow> int option" where
  "parse_i64 s =
     (let digits = (if s \<noteq> [] \<and> (hd s = CHR ''-'' \<or> hd s = CHR ''+'') then tl s else s);
          v = (if s \<noteq> [] \<and> hd s = CHR ''-'' then - int (digits_value digits) else int (digits_value digits))
      in if digits = [] \<or> \<not> list_all is_ascii_digit digits \<or> v < - i64_max - 1 \<or> i64_max < v then None else Some v)"

definition strip_prefix :: "string \<Rightarrow> string \<Rightarrow> string option" where
  "strip_prefix p s = (if take (length p) s = p then Some (drop (length p) s) else None)"

definition parse_if_match_generation :: "string option \<Rightarrow> u64 option" where
  "parse_if_match_generation header =
     (case Option.bind (Option.bind header (strip_prefix ''generation-'')) parse_i64 of
        None \<Rightarrow> None
      | Some v \<Rightarrow> (case u64_of_i64 v of None \<Rightarrow> None | Some g \<Rightarrow> if g > 0 then Some g else None))"

definition location_error_code :: "location_error \<Rightarrow> error_code" where
  "location_error_code e = (case e of
     DuplicateFailureDomain \<Rightarrow> Conflict
   | AmbiguousAvailabilityDomain \<Rightarrow> Conflict
   | DuplicateBinding \<Rightarrow> Conflict
   | StaleFailureDomainGeneration _ _ \<Rightarrow> Conflict
   | FailureDomainHasChildren \<Rightarrow> Conflict
   | FailureDomainHasBindings \<Rightarrow> Conflict
   | AvailabilityDomainHasFailureDomains \<Rightarrow> Conflict
   | RegionHasAvailabilityDomains \<Rightarrow> Conflict
   | UnknownFailureDomain \<Rightarrow> ResourceNotFound
   | UnknownTopologyRegion \<Rightarrow> ResourceNotFound
   | UnknownFailureDomainAvailabilityDomain \<Rightarrow> ResourceNotFound
   | FailureDomainParentMissing \<Rightarrow> ResourceNotFound
   | _ \<Rightarrow> BadRequest)"

definition store_error_code :: "kernel_error \<Rightarrow> error_code" where
  "store_error_code e = (case e of TopologyCorrupt \<Rightarrow> Conflict | TopologyUnavailable \<Rightarrow> NotAvailable | _ \<Rightarrow> InternalError)"

definition topology_problem :: "topology_error \<Rightarrow> topology_response" where
  "topology_problem e =
     Problem (case e of TopologyLocation l \<Rightarrow> location_error_code l | TopologyStoreError s \<Rightarrow> store_error_code s) None"

definition topology_event_of :: "native_state \<Rightarrow> auth_context \<Rightarrow> string \<Rightarrow> string \<Rightarrow> audit_event" where
  "topology_event_of N auth kind i =
     with_resource (event_from_auth (ns_new_id N) (ns_now N) auth (ServiceNamespace ''topology'') manage_action OutSucceeded)
       (ResourceType ''topology'' kind) (Some (ResourceId i)) None"

definition truncate_page ::
  "'a list \<Rightarrow> nat \<Rightarrow> ('a \<Rightarrow> string) \<Rightarrow> (error_code, (string, 'a) page) rust_result" where
  "truncate_page items limit key =
     (let more = length items > limit;
          kept = (if more then take limit items else items)
      in map_sum (\<lambda>_. InternalError) id
           (native_page_new limit \<lparr>page_items = kept, page_more = more,
              page_next = (if more \<and> kept \<noteq> [] then Some (key (last kept)) else None)\<rparr>))"

text \<open>The guard and the store are parts of the state that may be absent.\<close>

definition with_parts :: "native_state \<Rightarrow> topology_handler \<Rightarrow> topology_handler" where
  "with_parts N h w =
     (if \<not> ns_guard N then (Problem NotAvailable None, w)
      else if \<not> ns_store N then (Problem NotAvailable None, w) else h w)"

definition answering :: "topology_db topology_act \<Rightarrow> (topology_db topology_world \<Rightarrow> topology_response) \<Rightarrow> topology_handler" where
  "answering act answer w =
     (case act w of (Inl e, w') \<Rightarrow> (topology_problem e, w') | (Inr _, w') \<Rightarrow> (answer w', w'))"

section \<open>Failure domains\<close>

definition domains_page ::
  "native_state \<Rightarrow> resource_query \<Rightarrow> topology_db \<Rightarrow> topology_response" where
  "domains_page N q db =
     (case list_failure_domains db (rq_continuation q) (word_of_nat (rq_limit q)) of
        Inl e \<Rightarrow> topology_problem (TopologyStoreError e)
      | Inr items \<Rightarrow>
          if list_ex (\<lambda>d. domain_validate_shape d \<noteq> None) items then Problem NotAvailable None
          else case truncate_page items (rq_limit q) fd_id of
              Inl c \<Rightarrow> Problem c None
            | Inr p \<Rightarrow>
                (case complete_page (ns_codec N) (ns_cursors N) q p of
                   Inl _ \<Rightarrow> Problem InternalError None
                 | Inr page \<Rightarrow> Answer 200 (DomainPage page)))"

definition handle_list_domains ::
  "native_state \<Rightarrow> auth_context \<Rightarrow> string option \<Rightarrow> string option \<Rightarrow> topology_handler" where
  "handle_list_domains N auth limit cursor w =
     (if \<not> native_allowed N auth read_action collection_target then (Problem Forbidden None, w)
      else if \<not> ns_store N then (Problem NotAvailable None, w)
      else case validate_query (ns_codec N) (ns_cursors N) limit cursor
               (scope_id_str (ownership_scope.scope_id (auth_context.effective_scope auth))) ''topology:failure_domain'' of
          Inl _ \<Rightarrow> (Problem BadRequest None, w)
        | Inr q \<Rightarrow> (domains_page N q (tw_store w), w))"

definition same_domain_content :: "failure_domain \<Rightarrow> failure_domain_class \<Rightarrow> create_request \<Rightarrow> bool" where
  "same_domain_content d c b \<longleftrightarrow> fd_class d = c \<and> fd_name d = cr_name b \<and> fd_domain d = cr_domain b
     \<and> fd_parent d = cr_parent b \<and> fd_metadata d = cr_metadata b"

definition create_replay :: "audit_event \<Rightarrow> failure_domain_class \<Rightarrow> create_request \<Rightarrow> topology_handler" where
  "create_replay a c b w =
     (case failure_domain_of (tw_registry w) (cr_id b) of
        None \<Rightarrow> (Problem Conflict None, w)
      | Some d \<Rightarrow>
          if \<not> same_domain_content d c b then (Problem Conflict None, w)
          else case record_audit a (tw_store w) of
              (Inl _, db) \<Rightarrow> (Problem NotAvailable None, w\<lparr>tw_store := db\<rparr>)
            | (Inr _, db) \<Rightarrow> (Answer 200 (DomainDocument (Some d)), w\<lparr>tw_store := db\<rparr>))"

definition handle_create_domain :: "native_state \<Rightarrow> auth_context \<Rightarrow> create_request \<Rightarrow> topology_handler" where
  "handle_create_domain N auth b w =
     (if \<not> native_allowed N auth manage_action collection_target then (Problem Forbidden None, w)
      else case native_class (cr_class b) of
          None \<Rightarrow> (Problem BadRequest None, w)
        | Some c \<Rightarrow> with_parts N (\<lambda>w.
            let a = topology_event_of N auth ''failure_domain'' (cr_id b);
                d = \<lparr>fd_id = cr_id b, fd_class = c, fd_name = cr_name b, fd_domain = cr_domain b,
                     fd_parent = cr_parent b, fd_generation = 1, fd_metadata = cr_metadata b\<rparr>
            in case create_failure_domain sqlite_topology d (Some a) w of
                 (Inr _, w') \<Rightarrow> (Answer 201 (DomainDocument (failure_domain_of (tw_registry w') (cr_id b))), w')
               | (Inl e, w') \<Rightarrow>
                   if e = TopologyLocation DuplicateFailureDomain then create_replay a c b w'
                   else (topology_problem e, w')) w)"

definition handle_show_domain :: "native_state \<Rightarrow> auth_context \<Rightarrow> string \<Rightarrow> topology_handler" where
  "handle_show_domain N auth i w =
     (if \<not> native_allowed N auth read_action (instance_target i) then (Problem Forbidden None, w)
      else if \<not> ns_guard N then (Problem NotAvailable None, w)
      else case failure_domain_of (tw_registry w) i of
          None \<Rightarrow> (Problem ResourceNotFound (Some i), w)
        | Some d \<Rightarrow> (Answer 200 (DomainDocument (Some d)), w))"

definition handle_update_domain ::
  "native_state \<Rightarrow> auth_context \<Rightarrow> string \<Rightarrow> string option \<Rightarrow> string \<Rightarrow> (string \<times> string) list \<Rightarrow> topology_handler" where
  "handle_update_domain N auth i header name metadata w =
     (if \<not> native_allowed N auth manage_action (instance_target i) then (Problem Forbidden None, w)
      else case parse_if_match_generation header of
          None \<Rightarrow> (Problem BadRequest None, w)
        | Some g \<Rightarrow> with_parts N
            (answering (update_failure_domain sqlite_topology i name metadata g
                          (Some (topology_event_of N auth ''failure_domain'' i)))
               (\<lambda>w'. Answer 200 (DomainDocument (failure_domain_of (tw_registry w') i)))) w)"

definition handle_delete_domain ::
  "native_state \<Rightarrow> auth_context \<Rightarrow> string \<Rightarrow> string option \<Rightarrow> topology_handler" where
  "handle_delete_domain N auth i header w =
     (if \<not> native_allowed N auth manage_action (instance_target i) then (Problem Forbidden None, w)
      else case parse_if_match_generation header of
          None \<Rightarrow> (Problem BadRequest None, w)
        | Some g \<Rightarrow> with_parts N
            (answering (delete_failure_domain sqlite_topology i g (Some (topology_event_of N auth ''failure_domain'' i)))
               (\<lambda>_. Answer 204 NoDocument)) w)"

section \<open>Bindings\<close>

definition binding_cursor_separator :: char where
  "binding_cursor_separator = CHR 0x1F"

definition binding_continuation_key :: "topology_binding \<Rightarrow> string" where
  "binding_continuation_key b =
     tb_domain b @ [binding_cursor_separator] @ target_kind_name (tb_kind b) @ [binding_cursor_separator] @ tb_target b"

definition parse_binding_continuation :: "string \<Rightarrow> (string \<times> string \<times> string) option" where
  "parse_binding_continuation key =
     (case split_once binding_cursor_separator key of
        None \<Rightarrow> None
      | Some (domain, rest) \<Rightarrow>
     (case split_once binding_cursor_separator rest of
        None \<Rightarrow> None
      | Some (kind, target) \<Rightarrow>
          if domain = [] \<or> target = [] \<or> native_kind kind = None then None else Some (domain, kind, target)))"

definition bindings_page ::
  "native_state \<Rightarrow> string \<Rightarrow> resource_query \<Rightarrow> (string \<times> string) option \<Rightarrow> topology_db \<Rightarrow> topology_response" where
  "bindings_page N i q after db =
     (case list_bindings_of db i after (word_of_nat (rq_limit q)) of
        Inl e \<Rightarrow> topology_problem (TopologyStoreError e)
      | Inr items \<Rightarrow>
          if list_ex (\<lambda>b. binding_validate_shape b \<noteq> None) items then Problem NotAvailable None
          else case truncate_page items (rq_limit q) binding_continuation_key of
              Inl c \<Rightarrow> Problem c None
            | Inr p \<Rightarrow>
                (case complete_page (ns_codec N) (ns_cursors N) q p of
                   Inl _ \<Rightarrow> Problem InternalError None
                 | Inr page \<Rightarrow> Answer 200 (BindingPage page)))"

definition handle_list_bindings ::
  "native_state \<Rightarrow> auth_context \<Rightarrow> string \<Rightarrow> string option \<Rightarrow> string option \<Rightarrow> topology_handler" where
  "handle_list_bindings N auth i limit cursor w =
     (if \<not> native_allowed N auth read_action (instance_target i) then (Problem Forbidden None, w)
      else if \<not> ns_guard N then (Problem NotAvailable None, w)
      else if \<not> contains_failure_domain (tw_registry w) i then (Problem ResourceNotFound (Some i), w)
      else if \<not> ns_store N then (Problem NotAvailable None, w)
      else case validate_query_with_identity (ns_codec N) (ns_cursors N) limit cursor
               (scope_id_str (ownership_scope.scope_id (auth_context.effective_scope auth))) ''topology:binding''
               (''topology:bindings-of:'' @ i) of
          Inl _ \<Rightarrow> (Problem BadRequest None, w)
        | Inr q \<Rightarrow>
            (case map_option parse_binding_continuation (rq_continuation q) of
               Some (Some (_, kind, target)) \<Rightarrow> (bindings_page N i q (Some (kind, target)) (tw_store w), w)
             | Some None \<Rightarrow> (Problem InvalidCursorCode None, w)
             | None \<Rightarrow> (bindings_page N i q None (tw_store w), w)))"

definition on_binding ::
  "native_state \<Rightarrow> auth_context \<Rightarrow> string \<Rightarrow> string \<Rightarrow> (binding_target_kind \<Rightarrow> topology_handler) \<Rightarrow> topology_handler" where
  "on_binding N auth i kind h w =
     (if \<not> native_allowed N auth manage_action (instance_target i) then (Problem Forbidden None, w)
      else if \<not> ns_guard N then (Problem NotAvailable None, w)
      else if \<not> contains_failure_domain (tw_registry w) i then (Problem ResourceNotFound (Some i), w)
      else case native_kind kind of
          None \<Rightarrow> (Problem BadRequest None, w)
        | Some k \<Rightarrow> if \<not> ns_store N then (Problem NotAvailable None, w) else h k w)"

definition handle_bind :: "native_state \<Rightarrow> auth_context \<Rightarrow> string \<Rightarrow> string \<Rightarrow> string \<Rightarrow> topology_handler" where
  "handle_bind N auth i kind target =
     on_binding N auth i kind (\<lambda>k.
       let b = \<lparr>tb_domain = i, tb_kind = k, tb_target = target\<rparr>
       in answering (bind_domain sqlite_topology b (Some (topology_event_of N auth ''binding'' i)))
            (\<lambda>_. Answer 200 (BindingDocument b)))"

definition handle_unbind :: "native_state \<Rightarrow> auth_context \<Rightarrow> string \<Rightarrow> string \<Rightarrow> string \<Rightarrow> topology_handler" where
  "handle_unbind N auth i kind target =
     on_binding N auth i kind (\<lambda>k.
       answering (unbind_domain sqlite_topology \<lparr>tb_domain = i, tb_kind = k, tb_target = target\<rparr>
                    (Some (topology_event_of N auth ''binding'' i)))
         (\<lambda>_. Answer 204 NoDocument))"

section \<open>Regions and availability domains\<close>

definition handle_declare_region :: "native_state \<Rightarrow> auth_context \<Rightarrow> string \<Rightarrow> topology_handler" where
  "handle_declare_region N auth i w =
     (if \<not> native_allowed N auth manage_action collection_target then (Problem Forbidden None, w)
      else with_parts N
        (answering (declare_region sqlite_topology i (Some (topology_event_of N auth ''region'' i)))
           (\<lambda>w'. Answer 200 (RegionDocument (region_of (tw_registry w') i)))) w)"

definition handle_remove_region :: "native_state \<Rightarrow> auth_context \<Rightarrow> string \<Rightarrow> topology_handler" where
  "handle_remove_region N auth i w =
     (if \<not> native_allowed N auth manage_action collection_target then (Problem Forbidden None, w)
      else with_parts N
        (answering (remove_region sqlite_topology i (Some (topology_event_of N auth ''region'' i)))
           (\<lambda>_. Answer 204 NoDocument)) w)"

definition handle_declare_az :: "native_state \<Rightarrow> auth_context \<Rightarrow> string \<Rightarrow> string \<Rightarrow> topology_handler" where
  "handle_declare_az N auth i a w =
     (if \<not> native_allowed N auth manage_action collection_target then (Problem Forbidden None, w)
      else with_parts N
        (answering (declare_availability_domain sqlite_topology i a
                      (Some (topology_event_of N auth ''availability_domain'' a)))
           (\<lambda>w'. Answer 200 (RegionDocument (region_of (tw_registry w') i)))) w)"

definition handle_remove_az :: "native_state \<Rightarrow> auth_context \<Rightarrow> string \<Rightarrow> string \<Rightarrow> topology_handler" where
  "handle_remove_az N auth i a w =
     (if \<not> native_allowed N auth manage_action collection_target then (Problem Forbidden None, w)
      else with_parts N (\<lambda>w.
        case region_of (tw_registry w) i of
          None \<Rightarrow> (Problem ResourceNotFound (Some i), w)
        | Some r \<Rightarrow>
            if a \<notin> set (rd_domains r) then (Problem ResourceNotFound (Some a), w)
            else answering (remove_availability_domain sqlite_topology a
                              (Some (topology_event_of N auth ''availability_domain'' a)))
                   (\<lambda>_. Answer 204 NoDocument) w) w)"

datatype topology_request =
    ListDomains "string option" "string option" | ShowDomain string
  | ListBindings string "string option" "string option"
  | PostDomain create_request | PutDomain string "string option" string "(string \<times> string) list"
  | RemoveDomain string "string option" | PutBinding string string string | RemoveBinding string string string
  | PutRegion string | RemoveRegionRequest string | PutAz string string | RemoveAzRequest string string

fun topology_handle :: "native_state \<Rightarrow> auth_context \<Rightarrow> topology_request \<Rightarrow> topology_handler" where
  "topology_handle N auth (ListDomains limit cursor) = handle_list_domains N auth limit cursor"
| "topology_handle N auth (ShowDomain i) = handle_show_domain N auth i"
| "topology_handle N auth (ListBindings i limit cursor) = handle_list_bindings N auth i limit cursor"
| "topology_handle N auth (PostDomain b) = handle_create_domain N auth b"
| "topology_handle N auth (PutDomain i header name metadata) = handle_update_domain N auth i header name metadata"
| "topology_handle N auth (RemoveDomain i header) = handle_delete_domain N auth i header"
| "topology_handle N auth (PutBinding i kind target) = handle_bind N auth i kind target"
| "topology_handle N auth (RemoveBinding i kind target) = handle_unbind N auth i kind target"
| "topology_handle N auth (PutRegion i) = handle_declare_region N auth i"
| "topology_handle N auth (RemoveRegionRequest i) = handle_remove_region N auth i"
| "topology_handle N auth (PutAz i a) = handle_declare_az N auth i a"
| "topology_handle N auth (RemoveAzRequest i a) = handle_remove_az N auth i a"


section \<open>Who changes the topology, and what is recorded\<close>

definition mutates :: "topology_request \<Rightarrow> bool" where
  "mutates rq \<longleftrightarrow> (case rq of ListDomains _ _ \<Rightarrow> False | ShowDomain _ \<Rightarrow> False | ListBindings _ _ _ \<Rightarrow> False | _ \<Rightarrow> True)"

definition request_event :: "native_state \<Rightarrow> auth_context \<Rightarrow> topology_request \<Rightarrow> audit_event" where
  "request_event N auth rq = (case rq of
     PostDomain b \<Rightarrow> topology_event_of N auth ''failure_domain'' (cr_id b)
   | PutDomain i _ _ _ \<Rightarrow> topology_event_of N auth ''failure_domain'' i
   | RemoveDomain i _ \<Rightarrow> topology_event_of N auth ''failure_domain'' i
   | PutBinding i _ _ \<Rightarrow> topology_event_of N auth ''binding'' i
   | RemoveBinding i _ _ \<Rightarrow> topology_event_of N auth ''binding'' i
   | PutRegion i \<Rightarrow> topology_event_of N auth ''region'' i
   | RemoveRegionRequest i \<Rightarrow> topology_event_of N auth ''region'' i
   | PutAz i a \<Rightarrow> topology_event_of N auth ''availability_domain'' a
   | RemoveAzRequest i a \<Rightarrow> topology_event_of N auth ''availability_domain'' a
   | _ \<Rightarrow> topology_event_of N auth [] [])"

definition request_target :: "topology_request \<Rightarrow> resource_target" where
  "request_target rq = (case rq of
     PutDomain i _ _ _ \<Rightarrow> instance_target i | RemoveDomain i _ \<Rightarrow> instance_target i
   | PutBinding i _ _ \<Rightarrow> instance_target i | RemoveBinding i _ _ \<Rightarrow> instance_target i
   | _ \<Rightarrow> collection_target)"

text \<open>A response with its world: a problem leaves the world, an answer leaves its event in it.\<close>

definition recorded ::
  "audit_event \<Rightarrow> topology_db topology_world \<Rightarrow> topology_response \<times> topology_db topology_world \<Rightarrow> bool" where
  "recorded a w out \<longleftrightarrow>
     (case out of
        (Problem _ _, w') \<Rightarrow> w' = w
      | (Answer _ _, w') \<Rightarrow> from_kernel_event a \<in> set (td_audit (tw_store w'))
           \<and> set (td_audit (tw_store w)) \<subseteq> set (td_audit (tw_store w')))"

lemma recorded_problem [simp]: "recorded a w (Problem c i, w)" "recorded a w (topology_problem e, w)"
  by (simp_all add: recorded_def topology_problem_def)

lemma recorded_parts [simp]: "recorded a w (h w) \<Longrightarrow> recorded a w (with_parts N h w)"
  by (simp add: with_parts_def)

lemma recorded_answering:
  assumes "all_or_nothing a w (act w)" "\<And>w'. \<exists>n d. answer w' = Answer n d"
  shows "recorded a w (answering act answer w)"
proof (cases "act w")
  case (Pair r w')
  with assms(1) assms(2) [of w'] show ?thesis
    by (cases r) (auto simp: answering_def all_or_nothing_def recorded_def topology_problem_def)
qed

lemmas recorded_step = recorded_answering [where act = "topology_step sqlite_topology x (Some a)" for x a,
  OF step_all_or_nothing]

lemma record_audit_recorded:
  assumes "record_audit a (tw_store w) = (r, db)"
  shows "case r of Inl _ \<Rightarrow> db = tw_store w
    | Inr _ \<Rightarrow> from_kernel_event a \<in> set (td_audit db) \<and> set (td_audit (tw_store w)) \<subseteq> set (td_audit db)"
  using assms in_transaction_Inl [of Inr "Some a" "tw_store w"] in_transaction_audited [of Inr a "tw_store w"]
  unfolding record_audit_def by (cases r) auto

lemma recorded_replay: "recorded a w (create_replay a c b w)"
proof (cases "record_audit a (tw_store w)")
  case (Pair r db)
  from record_audit_recorded [OF Pair] Pair show ?thesis
    by (cases r) (auto simp: create_replay_def recorded_def split: option.split)
qed

lemma recorded_create:
  "recorded (topology_event_of N auth ''failure_domain'' (cr_id b)) w (handle_create_domain N auth b w)"
proof -
  let ?a = "topology_event_of N auth ''failure_domain'' (cr_id b)"
  let ?d = "\<lambda>c. \<lparr>fd_id = cr_id b, fd_class = c, fd_name = cr_name b, fd_domain = cr_domain b,
    fd_parent = cr_parent b, fd_generation = 1, fd_metadata = cr_metadata b\<rparr>"
  have "recorded ?a w (case create_failure_domain sqlite_topology (?d c) (Some ?a) w of
      (Inr _, w') \<Rightarrow> (Answer 201 (DomainDocument (failure_domain_of (tw_registry w') (cr_id b))), w')
    | (Inl e, w') \<Rightarrow> if e = TopologyLocation DuplicateFailureDomain then create_replay ?a c b w'
                   else (topology_problem e, w'))" for c
  proof (cases "create_failure_domain sqlite_topology (?d c) (Some ?a) w")
    case (Pair r w')
    with step_all_or_nothing [of ?a w "CreateDomain (?d c)"] recorded_replay [of ?a w c b] show ?thesis
      by (cases r) (auto simp: all_or_nothing_def recorded_def topology_problem_def)
  qed
  then show ?thesis by (auto simp: handle_create_domain_def Let_def split: option.split)
qed

lemma recorded_binding: "(\<And>k. recorded a w (h k w)) \<Longrightarrow> recorded a w (on_binding N auth i kind h w)"
  by (auto simp: on_binding_def split: option.split)

lemma request_recorded:
  assumes "mutates rq"
  shows "recorded (request_event N auth rq) w (topology_handle N auth rq w)"
proof (cases rq)
  case (PutDomain i header name metadata)
  with recorded_step [where w = w and x = "UpdateDomain i name metadata g" for g] show ?thesis
    by (auto simp: request_event_def handle_update_domain_def split: option.split)
next
  case (RemoveDomain i header)
  with recorded_step [where w = w and x = "DeleteDomain i g" for g] show ?thesis
    by (auto simp: request_event_def handle_delete_domain_def split: option.split)
next
  case (PutBinding i kind target)
  with recorded_step [where w = w and x = "BindTarget b" for b] show ?thesis
    by (auto simp: request_event_def handle_bind_def Let_def intro!: recorded_binding)
next
  case (RemoveBinding i kind target)
  with recorded_step [where w = w and x = "UnbindTarget b" for b] show ?thesis
    by (auto simp: request_event_def handle_unbind_def intro!: recorded_binding)
next
  case (PutRegion i)
  with recorded_step [where w = w and x = "DeclareRegion i"] show ?thesis by (auto simp: request_event_def handle_declare_region_def)
next
  case (RemoveRegionRequest i)
  with recorded_step [where w = w and x = "RemoveRegion i"] show ?thesis by (auto simp: request_event_def handle_remove_region_def)
next
  case (PutAz i a)
  with recorded_step [where w = w and x = "DeclareAz i a"] show ?thesis by (auto simp: request_event_def handle_declare_az_def)
next
  case (RemoveAzRequest i a)
  with recorded_step [where w = w and x = "RemoveAz a"] show ?thesis
    by (auto simp: request_event_def handle_remove_az_def split: option.split intro!: recorded_parts)
qed (use assms recorded_create in \<open>auto simp: mutates_def request_event_def\<close>)

lemma answer_allowed:
  assumes "mutates rq" "topology_handle N auth rq w = (Answer n d, w')"
  shows "native_allowed N auth manage_action (request_target rq)"
  using assms
  by (cases rq) (auto simp: mutates_def request_target_def handle_create_domain_def handle_update_domain_def
      handle_delete_domain_def handle_bind_def handle_unbind_def on_binding_def Let_def handle_declare_region_def
      handle_remove_region_def handle_declare_az_def handle_remove_az_def split: if_splits)

text \<open>
  C38: Only an operator changes the topology, and never without a trace. With the authorizer of
  the kernel, whatever its inventory, a request that would change the topology either ends in a
  problem, and then nothing has changed, or it is answered: then the caller acts in the system
  scope with the operator role, every earlier audit event is still stored, and so is one with
  the principal and the request of the caller, also when the request only repeats an earlier
  one.
\<close>

theorem topology_requests_recorded:
  assumes "ns_authorizer N = Some (authorize P)" "mutates rq"
  shows "case topology_handle N auth rq w of
      (Problem _ _, w') \<Rightarrow> w' = w
    | (Answer _ _, w') \<Rightarrow>
        scope_kind (auth_context.effective_scope auth) = System \<and> has_role auth ''operator''
        \<and> set (td_audit (tw_store w)) \<subseteq> set (td_audit (tw_store w'))
        \<and> (\<exists>r\<in>set (td_audit (tw_store w')). principal_id r = principal_id_str (principal_id_of (ctx_principal auth))
             \<and> audit_event_record.request_id r = auth_context.request_id auth
             \<and> audit_action r = ''topology:ManageTopology'' \<and> outcome r = ''succeeded'')"
proof (cases "topology_handle N auth rq w")
  case (Pair out w')
  show ?thesis
  proof (cases out)
    case (Problem c i)
    with Pair request_recorded [OF assms(2), of N auth w] show ?thesis by (simp add: recorded_def)
  next
    case (Answer n d)
    have rec: "from_kernel_event (request_event N auth rq) \<in> set (td_audit (tw_store w'))"
        "set (td_audit (tw_store w)) \<subseteq> set (td_audit (tw_store w'))"
      using request_recorded [OF assms(2), of N auth w] Pair Answer by (simp_all add: recorded_def)
    have "native_allowed N auth manage_action (request_target rq)"
      using answer_allowed [OF assms(2)] Pair Answer by blast
    then have "authorize P \<lparr>auth_context = auth, req_action = manage_action, req_target = request_target rq\<rparr> = Allow"
      by (simp add: native_allowed_def assms(1))
    from authorize_gates [OF this] have gates: "scope_kind (auth_context.effective_scope auth) = System" "has_role auth ''operator''"
      by (simp_all add: gate_defs manage_action_def)
    have "principal_id (from_kernel_event (request_event N auth rq)) = principal_id_str (principal_id_of (ctx_principal auth))
        \<and> audit_event_record.request_id (from_kernel_event (request_event N auth rq)) = auth_context.request_id auth
        \<and> audit_action (from_kernel_event (request_event N auth rq)) = ''topology:ManageTopology''
        \<and> outcome (from_kernel_event (request_event N auth rq)) = ''succeeded''"
      by (cases rq) (simp_all add: request_event_def topology_event_of_def with_resource_def event_from_auth_def
          from_kernel_event_def action_id_as_str_def manage_action_def)
    with rec gates Pair Answer show ?thesis by auto
  qed
qed


section \<open>An example\<close>

definition topology_policies :: policies where
  "topology_policies = map (\<lambda>a. (a, \<lparr>policy_action = a, expected_resource_type = topology_resource_type,
     accepted_principals = [User], require_ownership = False, required_roles = []\<rparr>)) [manage_action, read_action]"

definition sample_native :: native_state where
  "sample_native =
     \<lparr>ns_authorizer = Some (authorize topology_policies), ns_codec = sample_codec,
      ns_cursors = Some (replicate 32 CHR ''k''), ns_guard = True, ns_store = True,
      ns_new_id = ''e1'', ns_now = ''2026-01-01T00:00:00Z''\<rparr>"

definition sample_operator :: auth_context where
  "sample_operator = example_ctx example_user System ''system'' [''operator'']"

definition empty_world :: "topology_db topology_world" where
  "empty_world = \<lparr>tw_registry = \<lparr>lr_regions = [], lr_domains = [], lr_bindings = []\<rparr>, tw_store = empty_topology_db\<rparr>"

theorem topology_requests_recorded_witness:
  "\<exists>document w. topology_handle sample_native sample_operator (PutRegion ''r1'') empty_world = (Answer 200 document, w)
     \<and> (\<exists>r\<in>set (td_audit (tw_store w)). principal_id r = ''usr-1'' \<and> audit_action r = ''topology:ManageTopology'')"
proof -
  have "case fst (topology_handle sample_native sample_operator (PutRegion ''r1'') empty_world) of
      Answer n _ \<Rightarrow> n = 200 | _ \<Rightarrow> False" by code_simp
  then obtain d w where out: "topology_handle sample_native sample_operator (PutRegion ''r1'') empty_world = (Answer 200 d, w)"
    by (cases "topology_handle sample_native sample_operator (PutRegion ''r1'') empty_world")
      (auto split: topology_response.splits)
  have "ns_authorizer sample_native = Some (authorize topology_policies)" by (simp add: sample_native_def)
  from topology_requests_recorded [OF this, of "PutRegion ''r1''" sample_operator empty_world] out
  have "\<exists>r\<in>set (td_audit (tw_store w)). principal_id r = principal_id_str (principal_id_of (ctx_principal sample_operator))
      \<and> audit_action r = ''topology:ManageTopology''"
    by (auto simp: mutates_def)
  with out show ?thesis by (auto simp: sample_operator_def example_defs)
qed

end
