(* ===== verification/Topology_Listings.thy ===== *)
theory Topology_Listings
  imports Native_Topology
begin

text \<open>
  What a client of the native API gets that lists the topology page by page: on a daemon that
  has lived through any changes, kills and starts, following the cursors of the failure domains,
  or of the bindings of one of them, gives every one exactly once and in order.
\<close>

section \<open>Following the cursors\<close>

definition domains_query :: "native_state \<Rightarrow> auth_context \<Rightarrow> nat \<Rightarrow> string option \<Rightarrow> resource_query" where
  "domains_query N auth n after =
     \<lparr>rq_scope = scope_id_str (ownership_scope.scope_id (auth_context.effective_scope auth)),
      rq_type = ''topology:failure_domain'', rq_limit = n, rq_continuation = after,
      rq_identity = canonical_query_identity (ns_codec N)\<rparr>"

lemma domains_query_simps [simp]:
  "rq_scope (domains_query N auth n after) = scope_id_str (ownership_scope.scope_id (auth_context.effective_scope auth))"
  "rq_type (domains_query N auth n after) = ''topology:failure_domain''"
  "rq_limit (domains_query N auth n after) = n" "rq_continuation (domains_query N auth n after) = after"
  "rq_identity (domains_query N auth n after) = canonical_query_identity (ns_codec N)"
  by (simp_all add: domains_query_def)

text \<open>What a client makes of a response, and the cursor after a row.\<close>

definition domain_pages ::
  "native_state \<Rightarrow> auth_context \<Rightarrow> string option \<Rightarrow> topology_db topology_world \<Rightarrow> string option
     \<Rightarrow> (topology_response, (string, failure_domain) page) rust_result" where
  "domain_pages N auth limit w cursor =
     (case fst (handle_list_domains N auth limit cursor w) of Answer _ (DomainPage p) \<Rightarrow> Inr p | r \<Rightarrow> Inl r)"

definition domain_cursor :: "native_state \<Rightarrow> auth_context \<Rightarrow> string \<Rightarrow> (query_error, string) rust_result" where
  "domain_cursor N auth i = encode_cursor (ns_codec N) (ns_cursors N) (domains_query N auth 1 None) i"

lemma page_take_small: "n \<le> 200 \<Longrightarrow> page_take (word_of_nat n) = Inr (Suc n)"
proof -
  assume "n \<le> 200"
  then have u: "unat (word_of_nat n :: u64) = n" by (intro of_nat_inverse [OF refl]) simp
  with \<open>n \<le> 200\<close> have "unat (saturating_add (word_of_nat n :: u64) 1) = Suc n"
    by (simp add: unat_saturating_add)
  with \<open>n \<le> 200\<close> show ?thesis
    by (simp add: page_take_def i64_of_u64_def i64_max_def)
qed

lemma truncate_page_of:
  assumes "1 \<le> n" "\<forall>x\<in>set rows. key x \<noteq> [] \<and> length (key x) \<le> 512"
  shows "truncate_page (take (Suc n) rows) n key = Inr (page_of key n rows)"
proof -
  have "last (take n rows) = rows ! (n - 1)" if "n < length rows"
    using that assms(1) by (subst last_conv_nth) (auto simp: min_def)
  moreover have "rows ! (n - 1) \<in> set rows" if "n < length rows" using that by simp
  ultimately show ?thesis using assms
    by (cases "n < length rows") (auto simp: truncate_page_def page_of_def native_page_new_def min_def Let_def)
qed

lemma complete_encoded:
  assumes "length (page_items p) \<le> rq_limit q" "page_more p = (page_next p \<noteq> None)"
    "\<forall>k. page_next p = Some k \<longrightarrow> has_cursor C config q k"
  shows "complete_page C config q p = Inr \<lparr>page_items = page_items p, page_more = page_more p,
    page_next = map_option (cursor_for C config q) (page_next p)\<rparr>"
  using assms by (cases "page_next p") (simp_all add: complete_page_def has_cursor_def)

lemma page_of_shape [simp]:
  "length (page_items (page_of key n rows)) \<le> n" "page_more (page_of key n rows) = (page_next (page_of key n rows) \<noteq> None)"
  by (simp_all add: page_of_def Let_def)

lemma page_of_next: "1 \<le> n \<Longrightarrow> page_next (page_of key n rows) = Some k \<Longrightarrow> \<exists>x\<in>set rows. k = key x"
  by (auto simp: page_of_def Let_def split: if_splits intro!: bexI [of _ "rows ! (n - 1)"])

lemma rows_after_map: "rows_after f after (map g xs) = map g (rows_after (\<lambda>x. f (g x)) after xs)"
  by (simp add: rows_after_def sort_key_of_map filter_map comp_def)

lemma listed_domains:
  assumes "tables_of db ds bs" "n \<le> 200"
  shows "list_failure_domains db after (word_of_nat n) = Inr (take (Suc n) (rows_after fd_id after ds))"
proof -
  have "take (Suc n) (rows_after dr_id after (td_domains db))
      = map domain_row_of (take (Suc n) (rows_after fd_id after ds))"
    using assms(1) by (simp add: tables_of_def rows_after_map take_map)
  moreover have "\<forall>d\<in>set (take (Suc n) (rows_after fd_id after ds)). uint (fd_generation d) \<le> i64_max"
    using assms(1) by (auto simp: tables_of_def set_rows_after dest: in_set_takeD)
  ultimately show ?thesis
    using assms(2) by (simp add: list_failure_domains_def page_take_small collect_sorted_domains)
qed

lemma domain_shape:
  assumes "registry_ok R" "d \<in> set (lr_domains R)"
  shows "domain_validate_shape d = None" "valid_location_id (fd_id d)"
proof -
  from assms(1) have ok1: "regions_ok (lr_regions R)" by (rule registry_okE)
  from assms(1) have ok2: "structures_ok (lr_domains R) (availability_domain_index (lr_regions R))" by (rule registry_okE)
  note ok = ok1 ok2
  from ok2 assms(2) have st: "validate_failure_domain_structure d (failure_domain_map (lr_domains R))
      (availability_domain_index (lr_regions R)) = None" by (simp add: structures_ok_def)
  then have "availability_domain_index (lr_regions R) (fd_domain d) \<noteq> None" unfolding structure_None by blast
  then have az: "valid_location_id (fd_domain d)" using ok(1) unfolding az_declared regions_ok_def by blast
  have parent: "valid_location_id p" if "fd_parent d = Some p" for p
  proof -
    from assms(1) have dist: "distinct (map fd_id (lr_domains R))" by (rule registry_okE)
    from structure_parent [OF dist ok(2) assms(2) that] obtain q where "q \<in> set (lr_domains R)" "fd_id q = p" by blast
    with ok(2) show ?thesis by (auto simp: structures_ok_def structure_None)
  qed
  from st show "valid_location_id (fd_id d)" by (simp add: structure_None)
  with st az parent show "domain_validate_shape d = None"
    by (auto simp: structure_None domain_validate_shape_def location_checks split: option.split)
qed

lemma valid_id_length: "valid_location_id i \<Longrightarrow> i \<noteq> [] \<and> length i \<le> 128"
  by (cases i) (auto simp: valid_location_id_def)

lemma mirrored_tables:
  assumes "sqlite.mirrored \<lparr>tw_registry = R, tw_store = db\<rparr>"
  obtains ds bs where "tables_of db ds bs" "lr_domains R = sort_key fd_id ds" "lr_bindings R = sort_key binding_key bs"
proof -
  from assms have "tables_hold db (snapshot R)" by (simp add: sqlite.mirrored_def)
  then show thesis by (rule tables_holdE) (rule that, simp_all add: snapshot_def)
qed

text \<open>The query a request with a cursor of this listing is read as.\<close>

lemma domains_validate:
  assumes "codec_ok (ns_codec N)" "identity_ok (rq_scope (domains_query N auth n None)) 256"
    "parse_page_size_strict limit = Inr n"
    "\<forall>k. after = Some k \<longrightarrow> has_cursor (ns_codec N) (ns_cursors N) (domains_query N auth n None) k"
  shows "validate_query (ns_codec N) (ns_cursors N) limit
      (map_option (cursor_for (ns_codec N) (ns_cursors N) (domains_query N auth n None)) after)
      (scope_id_str (ownership_scope.scope_id (auth_context.effective_scope auth))) ''topology:failure_domain''
    = Inr (domains_query N auth n after)"
proof -
  let ?q = "domains_query N auth n None"
  have ids: "identity_ok (rq_type ?q) 256" "identity_ok (rq_identity ?q) 256"
    using canonical_identity_ok [OF assms(1)] by (simp_all add: domains_query_def identity_ok_def)
  show ?thesis
  proof (cases after)
    case None
    with assms ids show ?thesis
      by (simp add: validate_query_def validate_query_with_identity_def validate_identity_case domains_query_def)
  next
    case (Some k)
    with assms(4) have c: "encode_cursor (ns_codec N) (ns_cursors N) ?q k = Inr (cursor_for (ns_codec N) (ns_cursors N) ?q k)"
      by (simp add: has_cursor_def)
    then have "ns_cursors N \<noteq> None" by (cases "ns_cursors N") (auto simp: encode_cursor_def validate_identity_case split: if_splits)
    with cursor_bound_to_query [OF assms(1) c assms(2) ids] Some assms ids show ?thesis
      by (auto simp: validate_query_def validate_query_with_identity_def validate_identity_case domains_query_def)
  qed
qed


lemma domains_page_answer:
  assumes "sqlite.mirrored \<lparr>tw_registry = R, tw_store = db\<rparr>" "tables_of db ds bs" "lr_domains R = sort_key fd_id ds"
    "1 \<le> n" "n \<le> 200" "\<forall>d\<in>set (lr_domains R). has_cursor (ns_codec N) (ns_cursors N) (domains_query N auth n None) (fd_id d)"
  shows "domains_page N (domains_query N auth n after) db
    = Answer 200 (DomainPage \<lparr>page_items = page_items (page_of fd_id n (rows_after fd_id after ds)),
        page_more = page_more (page_of fd_id n (rows_after fd_id after ds)),
        page_next = map_option (cursor_for (ns_codec N) (ns_cursors N) (domains_query N auth n None))
          (page_next (page_of fd_id n (rows_after fd_id after ds)))\<rparr>)"
proof -
  let ?rows = "rows_after fd_id after ds" and ?q = "domains_query N auth n after" and ?first = "domains_query N auth n None"
  have ok: "registry_ok R" using assms(1) by (simp add: sqlite.mirrored_def)
  have rows: "x \<in> set (lr_domains R)" if "x \<in> set ?rows" for x
    using that assms(3) by (simp add: set_rows_after)
  have shapes: "\<not> list_ex (\<lambda>d. domain_validate_shape d \<noteq> None) (take (Suc n) ?rows)"
    using rows domain_shape(1) [OF ok] by (auto simp: list_ex_iff dest!: in_set_takeD)
  have keys: "\<forall>x\<in>set ?rows. fd_id x \<noteq> [] \<and> length (fd_id x) \<le> 512"
    using rows domain_shape(2) [OF ok] valid_id_length by fastforce
  have same: "has_cursor (ns_codec N) (ns_cursors N) ?q k = has_cursor (ns_codec N) (ns_cursors N) ?first k"
      "cursor_for (ns_codec N) (ns_cursors N) ?q = cursor_for (ns_codec N) (ns_cursors N) ?first" for k
    using encode_cursor_cong [of ?q ?first] by (simp_all add: has_cursor_def cursor_for_def fun_eq_iff)
  have "complete_page (ns_codec N) (ns_cursors N) ?q (page_of fd_id n ?rows)
      = Inr \<lparr>page_items = page_items (page_of fd_id n ?rows), page_more = page_more (page_of fd_id n ?rows),
        page_next = map_option (cursor_for (ns_codec N) (ns_cursors N) ?q) (page_next (page_of fd_id n ?rows))\<rparr>"
  proof (rule complete_encoded, simp_all, intro allI impI)
    fix k
    assume "page_next (page_of fd_id n ?rows) = Some k"
    from page_of_next [OF assms(4) this] obtain x where x: "x \<in> set ?rows" "k = fd_id x" by blast
    have "has_cursor (ns_codec N) (ns_cursors N) ?first k" using assms(6) rows [OF x(1)] x(2) by simp
    then show "has_cursor (ns_codec N) (ns_cursors N) ?q k" by (rule same(1) [THEN iffD2])
  qed
  then have c: "complete_page (ns_codec N) (ns_cursors N) ?q (page_of fd_id n ?rows)
      = Inr \<lparr>page_items = page_items (page_of fd_id n ?rows), page_more = page_more (page_of fd_id n ?rows),
        page_next = map_option (cursor_for (ns_codec N) (ns_cursors N) ?first) (page_next (page_of fd_id n ?rows))\<rparr>"
    unfolding same(2) .
  have l: "list_failure_domains db (rq_continuation ?q) (word_of_nat (rq_limit ?q)) = Inr (take (Suc n) ?rows)"
    using listed_domains [OF assms(2,5), of after] by simp
  have "truncate_page (take (Suc n) ?rows) (rq_limit ?q) fd_id = Inr (page_of fd_id n ?rows)"
    using truncate_page_of [OF assms(4) keys] by simp
  then show ?thesis unfolding domains_page_def l using shapes c by (simp only: sum.case if_False)
qed

lemma domain_has_cursor:
  assumes "valid_location_id i" "ns_cursors N \<noteq> None" "domain_cursor N auth i \<noteq> Inl InvalidRepositoryPage"
  shows "has_cursor (ns_codec N) (ns_cursors N) (domains_query N auth n None) i"
proof -
  have "identity_ok i 512" using valid_id_length [OF assms(1)] by (simp add: identity_ok_def)
  moreover have "domain_cursor N auth i = encode_cursor (ns_codec N) (ns_cursors N) (domains_query N auth n None) i"
    unfolding domain_cursor_def by (rule encode_cursor_cong) (simp_all add: domains_query_def)
  ultimately show ?thesis using assms(2,3)
    by (cases "domain_cursor N auth i")
      (auto simp: has_cursor_def cursor_for_def encode_cursor_def validate_identity_case Let_def split: if_splits)
qed

text \<open>
  C39: A client of the native API sees the whole topology. On a daemon that has lived through any
  changes, kills and starts, a caller who may read, and who follows the cursors of the listing
  of failure domains from its first page, gets every stored failure domain exactly once, in the
  order of the identifiers, whatever page size is asked for; the cursors only have to fit.
\<close>

theorem domains_listed_completely:
  assumes "topology_life xs = (Some R, db)" "codec_ok (ns_codec N)" "ns_cursors N \<noteq> None"
    and "native_allowed N auth read_action collection_target" "ns_store N"
    and "identity_ok (scope_id_str (ownership_scope.scope_id (auth_context.effective_scope auth))) 256"
    and "parse_page_size_strict limit = Inr n"
    and "\<forall>d\<in>set (lr_domains R). domain_cursor N auth (fd_id d) \<noteq> Inl InvalidRepositoryPage"
    and "length (lr_domains R) < fuel"
  shows "follow (domain_pages N auth limit \<lparr>tw_registry = R, tw_store = db\<rparr>) fuel None = Some (lr_domains R)"
proof -
  let ?w = "\<lparr>tw_registry = R, tw_store = db\<rparr>" and ?q = "domains_query N auth n None"
  let ?cursor = "cursor_for (ns_codec N) (ns_cursors N) ?q"
  have m: "sqlite.mirrored ?w" using assms(1) by (rule life_mirrored)
  from mirrored_tables [OF m] obtain ds bs where t: "tables_of db ds bs" and R: "lr_domains R = sort_key fd_id ds" .
  have n: "1 \<le> n" "n \<le> 200" using page_limit_bounds [OF assms(7)] by simp_all
  have ok: "registry_ok R" using m by (simp add: sqlite.mirrored_def)
  have cursors: "\<forall>d\<in>set (lr_domains R). has_cursor (ns_codec N) (ns_cursors N) ?q (fd_id d)"
    using assms(3,8) domain_shape(2) [OF ok] domain_has_cursor by blast
  define good where "good after \<longleftrightarrow> (\<forall>k. after = Some k \<longrightarrow> has_cursor (ns_codec N) (ns_cursors N) ?q k)"
    for after :: "string option"
  let ?fetch = "\<lambda>after. Inr (page_of fd_id n (rows_after fd_id after ds)) :: (unit, (string, failure_domain) page) rust_result"
  have step: "good (page_next p) \<and> domain_pages N auth limit ?w (map_option ?cursor after)
      = Inr \<lparr>page_items = page_items p, page_more = page_more p, page_next = map_option ?cursor (page_next p)\<rparr>"
    if "good after" "?fetch after = Inr p" for after p
  proof -
    from that(2) have p: "p = page_of fd_id n (rows_after fd_id after ds)" by simp
    have "good (page_next p)" unfolding good_def p
      using page_of_next [OF n(1)] cursors R by (fastforce simp: set_rows_after)
    moreover have "validate_query (ns_codec N) (ns_cursors N) limit (map_option ?cursor after)
        (scope_id_str (ownership_scope.scope_id (auth_context.effective_scope auth))) ''topology:failure_domain''
      = Inr (domains_query N auth n after)"
      using that(1) assms(2,6,7) by (intro domains_validate) (simp_all add: good_def domains_query_def)
    ultimately show ?thesis
      using assms(4,5) domains_page_answer [OF m t R n cursors, of after]
      by (simp add: domain_pages_def handle_list_domains_def p)
  qed
  have "follow ?fetch fuel None = Some (rows_after fd_id None ds)"
    using t n(1) assms(9) R by (intro follow_pages) (simp_all add: tables_of_def)
  then have "follow (domain_pages N auth limit ?w) fuel (map_option ?cursor None) = Some (rows_after fd_id None ds)"
    by (intro follow_encoded [where fetch = ?fetch and good = good] step) (simp_all add: good_def)
  with R show ?thesis by simp
qed


text \<open>The same for the bindings of a failure domain, whose continuation is kind and target.\<close>

definition bindings_query :: "native_state \<Rightarrow> auth_context \<Rightarrow> string \<Rightarrow> nat \<Rightarrow> string option \<Rightarrow> resource_query" where
  "bindings_query N auth i n after =
     \<lparr>rq_scope = scope_id_str (ownership_scope.scope_id (auth_context.effective_scope auth)),
      rq_type = ''topology:binding'', rq_limit = n, rq_continuation = after, rq_identity = ''topology:bindings-of:'' @ i\<rparr>"

lemma bindings_query_simps [simp]:
  "rq_scope (bindings_query N auth i n after) = scope_id_str (ownership_scope.scope_id (auth_context.effective_scope auth))"
  "rq_type (bindings_query N auth i n after) = ''topology:binding''"
  "rq_limit (bindings_query N auth i n after) = n" "rq_continuation (bindings_query N auth i n after) = after"
  "rq_identity (bindings_query N auth i n after) = ''topology:bindings-of:'' @ i"
  by (simp_all add: bindings_query_def)

definition binding_pages ::
  "native_state \<Rightarrow> auth_context \<Rightarrow> string \<Rightarrow> string option \<Rightarrow> topology_db topology_world \<Rightarrow> string option
     \<Rightarrow> (topology_response, (string, topology_binding) page) rust_result" where
  "binding_pages N auth i limit w cursor =
     (case fst (handle_list_bindings N auth i limit cursor w) of Answer _ (BindingPage p) \<Rightarrow> Inr p | r \<Rightarrow> Inl r)"

definition target_key :: "topology_binding \<Rightarrow> string \<times> string" where
  "target_key b = (target_kind_name (tb_kind b), tb_target b)"

definition continuation_text :: "string \<Rightarrow> string \<times> string \<Rightarrow> string" where
  "continuation_text i k = i @ [binding_cursor_separator] @ fst k @ [binding_cursor_separator] @ snd k"

definition binding_cursor :: "native_state \<Rightarrow> auth_context \<Rightarrow> topology_binding \<Rightarrow> (query_error, string) rust_result" where
  "binding_cursor N auth b =
     encode_cursor (ns_codec N) (ns_cursors N) (bindings_query N auth (tb_domain b) 1 None) (binding_continuation_key b)"

lemma continuation_text_key: "binding_continuation_key b = continuation_text (tb_domain b) (target_key b)"
  by (simp add: binding_continuation_key_def continuation_text_def target_key_def)

lemma separator_not_in_id: "valid_location_id i \<Longrightarrow> binding_cursor_separator \<notin> set i"
  by (cases i) (auto simp: valid_location_id_def list_all_iff binding_cursor_separator_def is_location_id_char_def
      location_id_start_def)

lemma separator_not_in_kind: "binding_cursor_separator \<notin> set (target_kind_name k)"
  by (cases k) (simp_all add: binding_cursor_separator_def)

lemma native_kind_name [simp]: "native_kind (target_kind_name k) = Some k"
  by (cases k) (simp_all add: native_kind_def)

lemma continuation_read_back:
  assumes "valid_location_id (tb_domain b)" "valid_location_id (tb_target b)"
  shows "parse_binding_continuation (binding_continuation_key b)
    = Some (tb_domain b, target_kind_name (tb_kind b), tb_target b)"
proof -
  have "split_once binding_cursor_separator (binding_continuation_key b)
      = Some (tb_domain b, target_kind_name (tb_kind b) @ binding_cursor_separator # tb_target b)"
    using separator_not_in_id [OF assms(1)] by (simp add: binding_continuation_key_def split_once_append)
  moreover have "split_once binding_cursor_separator (target_kind_name (tb_kind b) @ binding_cursor_separator # tb_target b)
      = Some (target_kind_name (tb_kind b), tb_target b)"
    using separator_not_in_kind by (rule split_once_append)
  ultimately show ?thesis
    using valid_id_length [OF assms(1)] valid_id_length [OF assms(2)] by (simp add: parse_binding_continuation_def)
qed

lemma bindings_valid:
  assumes "registry_ok R" "b \<in> set (lr_bindings R)"
  shows "binding_validate_shape b = None" "valid_location_id (tb_domain b)" "valid_location_id (tb_target b)"
    "contains_failure_domain R (tb_domain b)"
proof -
  from assms have "tb_domain b \<in> fd_id ` set (lr_domains R)" and t: "valid_location_id (tb_target b)"
    by (auto simp: registry_ok_iff snapshot_ok_def bindings_ok_def snapshot_def)
  then obtain d where d: "d \<in> set (lr_domains R)" "fd_id d = tb_domain b" by auto
  from domain_shape(2) [OF assms(1) d(1)] d(2) show v: "valid_location_id (tb_domain b)" by simp
  show "valid_location_id (tb_target b)" by (rule t)
  with v show "binding_validate_shape b = None" by (simp add: binding_validate_shape_def)
  show "contains_failure_domain R (tb_domain b)"
    using d(1) unfolding contains_domain d(2) [symmetric] by (rule imageI)
qed

lemma target_key_inj: "tb_domain a = tb_domain b \<Longrightarrow> target_key a = target_key b \<Longrightarrow> a = b"
  using binding_key_inj [of a b] by (auto simp: target_key_def binding_key_def)

lemma bindings_sorted:
  assumes "lr_bindings R = sort_key binding_key bs" "distinct bs"
  shows "sort_key target_key (filter (\<lambda>b. tb_domain b = i) bs) = bindings_of R i"
proof (rule sort_key_inj_key_eq)
  show "mset (filter (\<lambda>b. tb_domain b = i) bs) = mset (bindings_of R i)"
    using assms(1) by (simp add: bindings_of_def mset_filter)
  show "inj_on target_key (set (filter (\<lambda>b. tb_domain b = i) bs))"
    by (auto simp: inj_on_def intro: target_key_inj)
  have "sorted (map binding_key (bindings_of R i))"
    unfolding bindings_of_def assms(1) by (rule sorted_filter) simp
  then have "sorted_wrt (\<lambda>x y. binding_key x \<le> binding_key y) (bindings_of R i)" by (simp add: sorted_map)
  then have "sorted_wrt (\<lambda>x y. target_key x \<le> target_key y) (bindings_of R i)"
    by (rule sorted_wrt_mono_rel [rotated]) (auto simp: bindings_of_def binding_key_def target_key_def less_eq_prod_def)
  then show "sorted (map target_key (bindings_of R i))" by (simp add: sorted_map)
qed


lemma listed_bindings:
  assumes "tables_of db ds bs" "n \<le> 200"
  shows "list_bindings_of db i after (word_of_nat n)
    = Inr (take (Suc n) (rows_after target_key after (filter (\<lambda>b. tb_domain b = i) bs)))"
proof -
  have "filter (\<lambda>r. br_domain r = i) (td_bindings db) = map binding_row_of (filter (\<lambda>b. tb_domain b = i) bs)"
    using assms(1) by (simp add: tables_of_def filter_map comp_def)
  moreover have "(\<lambda>b. (br_kind (binding_row_of b), br_target (binding_row_of b))) = target_key"
    by (simp add: fun_eq_iff binding_row_of_def target_key_def)
  ultimately have "rows_after (\<lambda>r. (br_kind r, br_target r)) after (filter (\<lambda>r. br_domain r = i) (td_bindings db))
      = map binding_row_of (rows_after target_key after (filter (\<lambda>b. tb_domain b = i) bs))"
    by (simp only: rows_after_map)
  with assms(2) show ?thesis
    by (simp only: list_bindings_of_def page_take_small sum.case take_map collect_bindings)
qed

lemma page_of_bindings:
  assumes "1 \<le> n" "\<forall>b\<in>set rows. tb_domain b = i"
  shows "page_of binding_continuation_key n rows
    = \<lparr>page_items = page_items (page_of target_key n rows), page_more = page_more (page_of target_key n rows),
       page_next = map_option (continuation_text i) (page_next (page_of target_key n rows))\<rparr>"
proof -
  have "binding_continuation_key (rows ! (n - 1)) = continuation_text i (target_key (rows ! (n - 1)))" if "n < length rows"
    using assms that by (simp add: continuation_text_key)
  then show ?thesis by (simp add: page_of_def Let_def)
qed

text \<open>The listing of one domain, with what every proof below needs.\<close>

lemma bindings_page_answer:
  assumes "registry_ok R" "tables_of db ds bs" "lr_bindings R = sort_key binding_key bs" "1 \<le> n" "n \<le> 200"
    "\<forall>b\<in>set (bindings_of R i). has_cursor (ns_codec N) (ns_cursors N) (bindings_query N auth i n None) (binding_continuation_key b)"
  shows "bindings_page N i (bindings_query N auth i n key) after db
    = Answer 200 (BindingPage \<lparr>page_items = page_items (page_of target_key n (rows_after target_key after (filter (\<lambda>b. tb_domain b = i) bs))),
        page_more = page_more (page_of target_key n (rows_after target_key after (filter (\<lambda>b. tb_domain b = i) bs))),
        page_next = map_option (\<lambda>k. cursor_for (ns_codec N) (ns_cursors N) (bindings_query N auth i n None) (continuation_text i k))
          (page_next (page_of target_key n (rows_after target_key after (filter (\<lambda>b. tb_domain b = i) bs))))\<rparr>)"
proof -
  let ?rows = "rows_after target_key after (filter (\<lambda>b. tb_domain b = i) bs)"
  let ?q = "bindings_query N auth i n key" and ?first = "bindings_query N auth i n None"
  have rows: "x \<in> set (lr_bindings R) \<and> tb_domain x = i" if "x \<in> set ?rows" for x
    using that assms(3) by (simp add: set_rows_after)
  have of: "x \<in> set (bindings_of R i)" if "x \<in> set ?rows" for x
    using rows [OF that] by (simp add: bindings_of_def)
  have shapes: "\<not> list_ex (\<lambda>b. binding_validate_shape b \<noteq> None) (take (Suc n) ?rows)"
    unfolding list_ex_iff using in_set_takeD rows bindings_valid(1) [OF assms(1)] by metis
  have enc: "encode_cursor (ns_codec N) (ns_cursors N) ?q k = encode_cursor (ns_codec N) (ns_cursors N) ?first k" for k
    by (rule encode_cursor_cong) simp_all
  then have same: "has_cursor (ns_codec N) (ns_cursors N) ?q k = has_cursor (ns_codec N) (ns_cursors N) ?first k"
      "cursor_for (ns_codec N) (ns_cursors N) ?q = cursor_for (ns_codec N) (ns_cursors N) ?first" for k
    by (simp_all add: has_cursor_def cursor_for_def fun_eq_iff)
  have keys: "\<forall>x\<in>set ?rows. binding_continuation_key x \<noteq> [] \<and> length (binding_continuation_key x) \<le> 512"
  proof
    fix x
    assume "x \<in> set ?rows"
    with rows have "x \<in> set (lr_bindings R)" by blast
    from valid_id_length [OF bindings_valid(2) [OF assms(1) this]] valid_id_length [OF bindings_valid(3) [OF assms(1) this]]
    show "binding_continuation_key x \<noteq> [] \<and> length (binding_continuation_key x) \<le> 512"
      by (cases "tb_kind x") (simp_all add: binding_continuation_key_def)
  qed
  let ?p = "page_of binding_continuation_key n ?rows"
  have c: "complete_page (ns_codec N) (ns_cursors N) ?q ?p
      = Inr \<lparr>page_items = page_items ?p, page_more = page_more ?p,
          page_next = map_option (cursor_for (ns_codec N) (ns_cursors N) ?first) (page_next ?p)\<rparr>"
    unfolding same(2) [symmetric]
  proof (rule complete_encoded, simp_all only: page_of_shape bindings_query_simps, intro allI impI)
    fix k
    assume "page_next ?p = Some k"
    from page_of_next [OF assms(4) this] obtain x where x: "x \<in> set ?rows" "k = binding_continuation_key x" by blast
    then have "has_cursor (ns_codec N) (ns_cursors N) ?first k" using assms(6) of by blast
    then show "has_cursor (ns_codec N) (ns_cursors N) ?q k" by (rule same(1) [THEN iffD2])
  qed
  have t: "truncate_page (take (Suc n) ?rows) (rq_limit ?q) binding_continuation_key = Inr ?p"
    using truncate_page_of [OF assms(4) keys] by simp
  have l: "list_bindings_of db i after (word_of_nat (rq_limit ?q)) = Inr (take (Suc n) ?rows)"
    using listed_bindings [OF assms(2,5)] by simp
  have p: "?p = \<lparr>page_items = page_items (page_of target_key n ?rows), page_more = page_more (page_of target_key n ?rows),
      page_next = map_option (continuation_text i) (page_next (page_of target_key n ?rows))\<rparr>"
    using rows by (intro page_of_bindings assms(4)) blast
  have "bindings_page N i ?q after db = Answer 200 (BindingPage \<lparr>page_items = page_items ?p, page_more = page_more ?p,
      page_next = map_option (cursor_for (ns_codec N) (ns_cursors N) ?first) (page_next ?p)\<rparr>)"
    unfolding bindings_page_def l using shapes t c by (simp only: sum.case if_False)
  then show ?thesis unfolding p by (simp add: option.map_comp comp_def)
qed


lemma bindings_validate:
  assumes "codec_ok (ns_codec N)" "identity_ok (rq_scope (bindings_query N auth i n None)) 256" "valid_location_id i"
    "parse_page_size_strict limit = Inr n"
    "\<forall>k. after = Some k \<longrightarrow> has_cursor (ns_codec N) (ns_cursors N) (bindings_query N auth i n None) k"
  shows "validate_query_with_identity (ns_codec N) (ns_cursors N) limit
      (map_option (cursor_for (ns_codec N) (ns_cursors N) (bindings_query N auth i n None)) after)
      (scope_id_str (ownership_scope.scope_id (auth_context.effective_scope auth))) ''topology:binding''
      (''topology:bindings-of:'' @ i)
    = Inr (bindings_query N auth i n after)"
proof -
  let ?q = "bindings_query N auth i n None"
  have ids: "identity_ok (rq_type ?q) 256" "identity_ok (rq_identity ?q) 256"
    using valid_id_length [OF assms(3)] by (simp_all add: identity_ok_def)
  show ?thesis
  proof (cases after)
    case None
    with assms ids show ?thesis
      by (simp add: validate_query_with_identity_def validate_identity_case bindings_query_def)
  next
    case (Some k)
    with assms(5) have c: "encode_cursor (ns_codec N) (ns_cursors N) ?q k = Inr (cursor_for (ns_codec N) (ns_cursors N) ?q k)"
      by (simp add: has_cursor_def)
    then have "ns_cursors N \<noteq> None" by (cases "ns_cursors N") (auto simp: encode_cursor_def validate_identity_case split: if_splits)
    with cursor_bound_to_query [OF assms(1) c assms(2) ids] Some assms ids show ?thesis
      by (auto simp: validate_query_with_identity_def validate_identity_case bindings_query_def)
  qed
qed

lemma binding_has_cursor:
  assumes "registry_ok R" "b \<in> set (lr_bindings R)" "ns_cursors N \<noteq> None" "binding_cursor N auth b \<noteq> Inl InvalidRepositoryPage"
  shows "has_cursor (ns_codec N) (ns_cursors N) (bindings_query N auth (tb_domain b) n None) (binding_continuation_key b)"
proof -
  from valid_id_length [OF bindings_valid(2) [OF assms(1,2)]] valid_id_length [OF bindings_valid(3) [OF assms(1,2)]]
  have "identity_ok (binding_continuation_key b) 512"
    by (cases "tb_kind b") (simp_all add: binding_continuation_key_def identity_ok_def)
  moreover have "binding_cursor N auth b
      = encode_cursor (ns_codec N) (ns_cursors N) (bindings_query N auth (tb_domain b) n None) (binding_continuation_key b)"
    unfolding binding_cursor_def by (rule encode_cursor_cong) simp_all
  ultimately show ?thesis using assms(3,4)
    by (cases "binding_cursor N auth b")
      (auto simp: has_cursor_def cursor_for_def encode_cursor_def validate_identity_case Let_def split: if_splits)
qed

text \<open>The response to a request with the cursor of a binding, or without one.\<close>

definition at_binding :: "location_registry \<Rightarrow> string \<Rightarrow> (string \<times> string) option \<Rightarrow> bool" where
  "at_binding R i after \<longleftrightarrow> (\<forall>k. after = Some k \<longrightarrow> (\<exists>b\<in>set (bindings_of R i). k = target_key b))"

lemma binding_text:
  assumes "registry_ok R" "b \<in> set (bindings_of R i)"
  shows "binding_continuation_key b = continuation_text i (target_key b)"
    "parse_binding_continuation (continuation_text i (target_key b)) = Some (i, target_key b)"
proof -
  have b: "b \<in> set (lr_bindings R)" "tb_domain b = i" using assms(2) by (simp_all add: bindings_of_def)
  show k: "binding_continuation_key b = continuation_text i (target_key b)" by (simp only: continuation_text_key b(2))
  show "parse_binding_continuation (continuation_text i (target_key b)) = Some (i, target_key b)"
    unfolding k [symmetric] using continuation_read_back [OF bindings_valid(2,3) [OF assms(1) b(1)]] b(2)
    by (simp add: target_key_def)
qed

lemma bindings_request:
  assumes "registry_ok R" "codec_ok (ns_codec N)" "native_allowed N auth read_action (instance_target i)" "ns_guard N" "ns_store N"
    "contains_failure_domain R i" "identity_ok (rq_scope (bindings_query N auth i n None)) 256"
    "parse_page_size_strict limit = Inr n" "at_binding R i after"
    "\<forall>b\<in>set (bindings_of R i). has_cursor (ns_codec N) (ns_cursors N) (bindings_query N auth i n None) (binding_continuation_key b)"
  shows "fst (handle_list_bindings N auth i limit
      (map_option (\<lambda>k. cursor_for (ns_codec N) (ns_cursors N) (bindings_query N auth i n None) (continuation_text i k)) after)
      \<lparr>tw_registry = R, tw_store = db\<rparr>)
    = bindings_page N i (bindings_query N auth i n (map_option (continuation_text i) after)) after db"
proof -
  let ?q = "bindings_query N auth i n None" and ?text = "map_option (continuation_text i) after"
  have i: "valid_location_id i"
  proof -
    from assms(6) obtain d where "d \<in> set (lr_domains R)" "fd_id d = i" unfolding contains_domain by blast
    with domain_shape(2) [OF assms(1)] show ?thesis by blast
  qed
  have "\<forall>k. ?text = Some k \<longrightarrow> has_cursor (ns_codec N) (ns_cursors N) ?q k"
  proof (intro allI impI)
    fix k
    assume "?text = Some k"
    then obtain a where "after = Some a" "k = continuation_text i a" by auto
    moreover from this assms(9) obtain b where "b \<in> set (bindings_of R i)" "a = target_key b" unfolding at_binding_def by blast
    ultimately show "has_cursor (ns_codec N) (ns_cursors N) ?q k"
      using assms(10) binding_text(1) [OF assms(1)] by metis
  qed
  from bindings_validate [OF assms(2,7) i assms(8) this]
  have q: "validate_query_with_identity (ns_codec N) (ns_cursors N) limit
      (map_option (\<lambda>k. cursor_for (ns_codec N) (ns_cursors N) ?q (continuation_text i k)) after)
      (scope_id_str (ownership_scope.scope_id (auth_context.effective_scope auth))) ''topology:binding''
      (''topology:bindings-of:'' @ i) = Inr (bindings_query N auth i n ?text)"
    by (simp only: option.map_comp comp_def)
  have parsed: "map_option parse_binding_continuation ?text = map_option (\<lambda>k. Some (i, k)) after"
  proof (cases after)
    case (Some a)
    with assms(9) obtain b where "b \<in> set (bindings_of R i)" "a = target_key b" unfolding at_binding_def by blast
    with Some binding_text(2) [OF assms(1)] show ?thesis by simp
  qed simp
  show ?thesis
    using assms(3-6) q parsed by (cases after) (simp_all add: handle_list_bindings_def)
qed

lemma binding_pages_step:
  assumes "registry_ok R" "codec_ok (ns_codec N)" "native_allowed N auth read_action (instance_target i)" "ns_guard N" "ns_store N"
    "contains_failure_domain R i" "identity_ok (rq_scope (bindings_query N auth i n None)) 256"
    "parse_page_size_strict limit = Inr n" "at_binding R i after"
    "\<forall>b\<in>set (bindings_of R i). has_cursor (ns_codec N) (ns_cursors N) (bindings_query N auth i n None) (binding_continuation_key b)"
    and t: "tables_of db ds bs" and R: "lr_bindings R = sort_key binding_key bs"
    and p: "p = page_of target_key n (rows_after target_key after (filter (\<lambda>b. tb_domain b = i) bs))"
    and enc: "enc = (\<lambda>k. cursor_for (ns_codec N) (ns_cursors N) (bindings_query N auth i n None) (continuation_text i k))"
  shows "at_binding R i (page_next p) \<and> binding_pages N auth i limit \<lparr>tw_registry = R, tw_store = db\<rparr> (map_option enc after)
      = Inr \<lparr>page_items = page_items p, page_more = page_more p, page_next = map_option enc (page_next p)\<rparr>"
proof
  have n: "1 \<le> n" "n \<le> 200" using page_limit_bounds [OF assms(8)] by simp_all
  show "at_binding R i (page_next p)"
  proof (unfold at_binding_def, intro allI impI)
    fix k
    assume "page_next p = Some k"
    from page_of_next [OF n(1) this [unfolded p]] obtain x
      where x: "x \<in> set (rows_after target_key after (filter (\<lambda>b. tb_domain b = i) bs))" "k = target_key x" by blast
    from x(1) have "x \<in> set (filter (\<lambda>b. tb_domain b = i) bs)" unfolding set_rows_after by blast
    then have "x \<in> set (bindings_of R i)" unfolding bindings_of_def R by simp
    with x(2) show "\<exists>b\<in>set (bindings_of R i). k = target_key b" by blast
  qed
  show "binding_pages N auth i limit \<lparr>tw_registry = R, tw_store = db\<rparr> (map_option enc after)
      = Inr \<lparr>page_items = page_items p, page_more = page_more p, page_next = map_option enc (page_next p)\<rparr>"
    unfolding binding_pages_def enc bindings_request [OF assms(1-10)] bindings_page_answer [OF assms(1) t R n assms(10)] p
    by simp
qed

text \<open>
  C40: A client of the native API sees every binding of a failure domain. As for the domains: a
  caller who may read it and follows the cursors of the listing of its bindings gets each of
  them exactly once, ordered by the kind of the target and its identifier.
\<close>

theorem bindings_listed_completely:
  assumes "topology_life xs = (Some R, db)" "codec_ok (ns_codec N)" "ns_cursors N \<noteq> None"
    and "native_allowed N auth read_action (instance_target i)" "ns_guard N" "ns_store N"
    and "contains_failure_domain R i"
    and "identity_ok (scope_id_str (ownership_scope.scope_id (auth_context.effective_scope auth))) 256"
    and "parse_page_size_strict limit = Inr n"
    and "\<forall>b\<in>set (bindings_of R i). binding_cursor N auth b \<noteq> Inl InvalidRepositoryPage"
    and "length (bindings_of R i) < fuel"
  shows "follow (binding_pages N auth i limit \<lparr>tw_registry = R, tw_store = db\<rparr>) fuel None = Some (bindings_of R i)"
proof -
  let ?w = "\<lparr>tw_registry = R, tw_store = db\<rparr>"
  let ?enc = "\<lambda>k. cursor_for (ns_codec N) (ns_cursors N) (bindings_query N auth i n None) (continuation_text i k)"
  have m: "sqlite.mirrored ?w" using assms(1) by (rule life_mirrored)
  from mirrored_tables [OF m] obtain ds bs where t: "tables_of db ds bs" and R: "lr_bindings R = sort_key binding_key bs" .
  let ?own = "filter (\<lambda>b. tb_domain b = i) bs"
  let ?fetch = "\<lambda>after. Inr (page_of target_key n (rows_after target_key after ?own))
    :: (unit, (string \<times> string, topology_binding) page) rust_result"
  have n: "1 \<le> n" using page_limit_bounds [OF assms(9)] by simp
  have ok: "registry_ok R" using m by (simp add: sqlite.mirrored_def)
  have dist: "distinct bs" using t by (simp add: tables_of_def)
  have cursors: "\<forall>b\<in>set (bindings_of R i). has_cursor (ns_codec N) (ns_cursors N) (bindings_query N auth i n None) (binding_continuation_key b)"
  proof
    fix b
    assume b: "b \<in> set (bindings_of R i)"
    then have "b \<in> set (lr_bindings R)" "tb_domain b = i" by (simp_all add: bindings_of_def)
    with binding_has_cursor [OF ok this(1) assms(3)] assms(10) b
    show "has_cursor (ns_codec N) (ns_cursors N) (bindings_query N auth i n None) (binding_continuation_key b)" by blast
  qed
  have scope: "identity_ok (rq_scope (bindings_query N auth i n None)) 256" using assms(8) by simp
  note step = binding_pages_step [OF ok assms(2,4-7) scope assms(9) _ cursors t R _ refl]
  have "distinct (map target_key ?own)" using dist by (auto simp: distinct_map inj_on_def intro: target_key_inj)
  then have "follow ?fetch fuel None = Some (rows_after target_key None ?own)"
    using n assms(11) bindings_sorted [OF R dist] by (intro follow_pages) simp_all
  then have "follow (binding_pages N auth i limit ?w) fuel (map_option ?enc None) = Some (rows_after target_key None ?own)"
    by (intro follow_encoded [where fetch = ?fetch and good = "at_binding R i"] step) (simp_all add: at_binding_def)
  with bindings_sorted [OF R dist] show ?thesis by simp
qed


section \<open>An example\<close>

definition listed_life :: "topology_event list" where
  "listed_life = fresh_life @ [Change (CreateDomain rack_domain) None,
     Change (BindTarget \<lparr>tb_domain = ''rack-1'', tb_kind = Host, tb_target = ''host-1''\<rparr>) None,
     Change (BindTarget \<lparr>tb_domain = ''rack-1'', tb_kind = Host, tb_target = ''host-2''\<rparr>) None]"

definition listed_registry :: location_registry where
  "listed_registry = the (fst (topology_life listed_life))"

definition listed_db :: topology_db where
  "listed_db = snd (topology_life listed_life)"

lemma listed_lived: "topology_life listed_life = (Some listed_registry, listed_db)"
proof -
  have "fst (topology_life listed_life) \<noteq> None" by code_simp
  then show ?thesis by (simp add: listed_registry_def listed_db_def prod_eq_iff)
qed

lemma listed_contents:
  "lr_domains listed_registry = [rack_domain, site_domain]"
  "bindings_of listed_registry ''rack-1'' =
     [\<lparr>tb_domain = ''rack-1'', tb_kind = Host, tb_target = ''host-1''\<rparr>, \<lparr>tb_domain = ''rack-1'', tb_kind = Host, tb_target = ''host-2''\<rparr>]"
  "contains_failure_domain listed_registry ''rack-1''"
  by code_simp+

lemma sample_reads: "native_allowed sample_native sample_operator read_action collection_target"
    "native_allowed sample_native sample_operator read_action (instance_target ''rack-1'')"
  by code_simp+

lemma page_of_one: "parse_page_size_strict (Some ''1'') = Inr 1"
  by (simp add: parse_page_size_strict_def is_ascii_digit_def digits_value_def)

lemma sample_cursor_fits:
  assumes "length after \<le> 100" "rq_scope q = ''system''" "length (rq_type q) \<le> 64" "length (rq_identity q) \<le> 64"
  shows "encode_cursor (ns_codec sample_native) (ns_cursors sample_native) q after \<noteq> Inl InvalidRepositoryPage"
  using assms by (simp add: encode_cursor_def validate_identity_case Let_def sample_native_def sample_codec_def dotted_def)

lemma sample_scope: "scope_id_str (ownership_scope.scope_id (auth_context.effective_scope sample_operator)) = ''system''"
  by (simp add: sample_operator_def example_ctx_def)

theorem domains_listed_completely_witness:
  "follow (domain_pages sample_native sample_operator (Some ''1'')
      \<lparr>tw_registry = listed_registry, tw_store = listed_db\<rparr>) 3 None = Some [rack_domain, site_domain]"
proof -
  have "domain_cursor sample_native sample_operator (fd_id d) \<noteq> Inl InvalidRepositoryPage"
    if "d \<in> set (lr_domains listed_registry)" for d
    unfolding domain_cursor_def using that
    by (intro sample_cursor_fits) (auto simp: listed_contents site_domain_def rack_domain_def sample_scope canonical_query_identity_def sample_native_def sample_codec_def)
  then have "follow (domain_pages sample_native sample_operator (Some ''1'')
      \<lparr>tw_registry = listed_registry, tw_store = listed_db\<rparr>) 3 None = Some (lr_domains listed_registry)"
    using sample_reads(1) sample_codec_ok page_of_one
    by (intro domains_listed_completely [OF listed_lived])
      (simp_all add: sample_native_def sample_scope identity_ok_def listed_contents)
  then show ?thesis by (simp add: listed_contents)
qed

theorem bindings_listed_completely_witness:
  "follow (binding_pages sample_native sample_operator ''rack-1'' (Some ''1'')
      \<lparr>tw_registry = listed_registry, tw_store = listed_db\<rparr>) 3 None = Some (bindings_of listed_registry ''rack-1'')"
proof -
  have "binding_cursor sample_native sample_operator b \<noteq> Inl InvalidRepositoryPage"
    if "b \<in> set (bindings_of listed_registry ''rack-1'')" for b
    unfolding binding_cursor_def using that
    by (intro sample_cursor_fits) (auto simp: listed_contents sample_scope binding_continuation_key_def sample_native_def)
  then show ?thesis
    using sample_reads(2) sample_codec_ok page_of_one listed_contents(3)
    by (intro bindings_listed_completely [OF listed_lived])
      (simp_all add: sample_native_def sample_scope identity_ok_def listed_contents)
qed

end
