(* ===== verification/Spec2Isabelle.thy ===== *)
theory Spec2Isabelle
  imports Kernel_Authorization Bootstrap_Join Kernel_Building_Block Kernel_Composition
    Store_Quota Store_Coordination Store_Metering Scheduler Reconciler_Evidence
    Store_Network_Plans Reconciler_Canonical Volume_Native Topology_Listings
begin

text \<open>
  Verification library of the O3K cloud operating system.

  O3K is a control plane written in Rust. Its kernel (\<open>crates/o3k-kernel\<close>) holds the
  vocabulary and the decisions that need no I/O: identifiers, authorization, the bootstrap of a
  cloud, the lifecycle of building blocks, cloud profiles, quota and metering arithmetic. Its
  store (\<open>crates/o3k-store\<close>) keeps everything durable and is where concurrent controllers meet:
  quota reservations, controller sessions and work leases, placement, metering, resources and
  the journal of operations. Above them the scheduler (\<open>crates/o3k-scheduler\<close>) chooses where a
  server goes and allocates, and the reconciler (\<open>crates/o3k-reconciler\<close>) drives each operation
  against a compute provider and applies what compute agents report.

  Theories, in the order of the layers, with the source they model:
  \<^item> \<open>Rust_Prelude\<close>, \<open>Rust_Float\<close>, \<open>Rust_Collections\<close>: machine integers, strings as UTF-8
    bytes, results, runs of operations that may fail, the locales of machines with an invariant,
    a generation or a preorder; the floats placement compares; ordered maps.
  \<^item> \<open>Kernel_Identifiers\<close>, \<open>Kernel_Authorization\<close>: the identifiers and request context, the
    static authorizer with its policies and system gates, capabilities. Shown: the decision is
    the declarative specification, tenants stay in their scope.
  \<^item> \<open>Kernel_Bootstrap\<close>, \<open>Bootstrap_Join\<close>, \<open>Kernel_Building_Block\<close>, \<open>Kernel_Composition\<close>:
    initialisation and joining with enrollment grants, and the daemon's adapter over their tables
    (\<open>bins/o3kd/src/native_adapters/bootstrap.rs\<close>); the block state machine; the validation of
    cloud profiles with its dependency order. Shown: invariants over all runs, a grant that
    admitted an agent admits no other, the validation decides the declarative specification and
    always returns.
  \<^item> \<open>Kernel_Quota\<close>, \<open>Store_Quota\<close>: limits, reservations and the audited limit changes.
    Shown: granted amounts never exceed a limit, a reservation is granted exactly when it fits,
    the life of a reservation, retries.
  \<^item> \<open>Store_Coordination\<close>: controller sessions and fenced work leases. Shown: a live lease
    excludes others, a takeover fences the old token, tokens grow.
  \<^item> \<open>Store_Placement\<close>, \<open>Placement_Ledger\<close>, \<open>Scheduler\<close>: providers, inventories, allocations,
    intents, candidates, and the scheduling of a server over them. Shown: usage is what is
    allocated on every provider that no journal import touched, the hierarchy is acyclic where
    the walk or an orderly journal wrote it, no overcommitment under concurrency, a selected
    candidate can be allocated.
  \<^item> \<open>Kernel_Metering\<close>, \<open>Store_Metering\<close>: meters, hourly buckets, intervals, usage queries and
    the adapter of the daemon. Shown: buckets are the exact integral of intervals, usage reports
    are the integral of what was recorded.
  \<^item> \<open>Compute_State\<close>, \<open>Store_Operations\<close>: the server lifecycle and stored spellings; resources,
    operations, provider references, agent commands. Shown: terminal operations are final, the
    generation guard, command evidence only advances.
  \<^item> \<open>Store_Network_Plans\<close>: the commands of network controllers and their writes fenced by a
    realm lease. Shown: what a run keeps of a command, replays, a deposed controller does
    not write while its lease row is kept.
  \<^item> \<open>Request_Fingerprint\<close>, \<open>Store_Acceptance\<close>, \<open>Reconciler_Canonical\<close>: the text a request is
    fingerprinted by, the idempotent acceptance of operations and the intents of the reconciler
    on it. Shown: the text determines the request, a key is spent once, what was accepted can be
    read back, a repeated request creates nothing.
  \<^item> \<open>Volume_Model\<close>, \<open>Store_Volumes\<close>, \<open>Volume_Rows\<close>: block storage (\<open>crates/o3k-domain\<close>) and its
    tables. Shown: stored rows read back, a volume has at most one live attachment.
  \<^item> \<open>Rust_Effects\<close>, \<open>Volume_Workflow\<close>, \<open>Volume_Guarantees\<close>, \<open>Volume_Interrupted\<close>,
    \<open>Volume_Outcomes\<close>: handlers that change a world and may fail; the attachment workflow, with
    the fence, the storage provider and the compute executor as effects. Shown: no call before its
    record, what runs keep, what success means, the intents that can no longer be completed.
  \<^item> \<open>Volume_Fence\<close>, \<open>Volume_Native\<close>: the fence of the daemon around that workflow, a work lease with
    its renewal task, and the attachments of the API on it. Shown: an assertion was made by the
    holder, a deposed worker writes nothing after the call in which it lost the lease, except
    when it reconciles an attach, a second controller does not begin; a request to delete is
    confirmed although the detach failed.
  \<^item> \<open>Rust_Text\<close>, \<open>Keyset_Paging\<close>, \<open>Store_Audit\<close>: characters of UTF-8 texts; pages in the order of
    a key; audit events, their table, queries and pruning. Shown: an event is kept as written,
    what it looks like when read back, following the continuations misses nothing.
  \<^item> \<open>Kernel_Location\<close>, \<open>Location_Validity\<close>, \<open>Store_Topology\<close>, \<open>Topology_Contract\<close>,
    \<open>Topology_Life\<close>: regions, availability domains, failure domains and bindings: the registry
    of the kernel with its validation, the tables, the contract between them, the start of the
    daemon. Shown: what validates is a sound hierarchy, memory and tables agree through changes,
    kills and starts, a change and its audit event are one, a lost answer wedges a domain.
  \<^item> \<open>Native_Pagination\<close>, \<open>Native_Topology\<close>, \<open>Topology_Listings\<close>: the cursors of the native API
    and its topology handlers. Shown: a cursor is good for its own listing only, only an operator
    changes the topology and never without an audit event, the listings are complete.
  \<^item> \<open>Reconciler\<close>, \<open>Reconciler_Agents\<close>, \<open>Reconciler_Driver\<close>, \<open>Reconciler_Guarantees\<close>,
    \<open>Reconciler_Evidence\<close>: the operation journal, the agent reports, the passes over an
    operation and what whole runs guarantee.

  How the pieces interact: \<open>Scheduler\<close> runs on the placement tables through the locale of a
  fenced store; the reconciler runs on the tables of \<open>Store_Operations\<close> and projects states into
  \<open>Store_Metering\<close> by the adapter; \<open>Store_Quota\<close> uses the arithmetic of \<open>Kernel_Quota\<close>, and
  \<open>Store_Metering\<close> that of \<open>Kernel_Metering\<close>; the topology handlers ask \<open>Kernel_Authorization\<close>,
  run the registry of \<open>Kernel_Location\<close> on \<open>Store_Topology\<close> and leave their events in
  \<open>Store_Audit\<close>. An operation of the store returns its result and
  the tables afterwards; a theorem about runs quantifies over every sequence of operations, so
  over every interleaving of the transactions of concurrent clients.

  Bounds and fuel: the walk along the parents of a provider has the 64 steps of the source; an
  import of providers repeats while a round inserts one, so it ends by the number left; the
  dependency order of a profile removes one component a round, with their number as fuel, which
  the theorem that validation decides its specification shows to be enough; the bucket loop of
  metering stops at the 96000 buckets of the source; the projection of an active server is
  retried three times. Everything else is structural recursion.

  Not modelled: SQL itself, connections, retries while SQLite is busy, and the PostgreSQL twins
  of the repositories; HTTP, TLS, gRPC and the wire formats of the APIs beyond the handlers named
  above; service manifests and their registry; hypervisors, image
  files, DHCP and packet filters; hash functions, UUIDs, JSON and RFC 3339 (parameters where
  they matter). Within the modelled files: the fault pauses and fakes for tests, and what the
  theories name in their own headers.
\<close>

end
